(* ===== verification/Prelude.thy ===== *)
theory Prelude
  imports Main "HOL-Library.Word"
begin

text \<open>
  Shared vocabulary of the development: the ways an operation of the code can fail
  (\<open>include/common/exception.h\<close>, \<open>include/common/macros.h\<close>), results as sums, and the
  generic facts on lists and maps that several components use.
  The collection \<open>result_simps\<close> holds the rules that take results apart.
\<close>

named_theorems result_simps "rules that take results of fallible operations apart"
named_theorems list_facts "facts on lists shared by the components"

section \<open>Failures and results\<close>

text \<open>\<open>enum class ExceptionType\<close> of \<open>exception.h\<close>.\<close>

datatype ExceptionType =
    INVALID | OUT_OF_RANGE | CONVERSION | UNKNOWN_TYPE | DECIMAL | MISMATCH_TYPE
  | DIVIDE_BY_ZERO | INCOMPATIBLE_TYPE | OUT_OF_MEMORY | NOT_IMPLEMENTED | EXECUTION

text \<open>
  Every way to leave a function other than by returning: the exceptions of the program
  (the message text is not kept), the exceptions of the standard library, a failed
  \<open>assert\<close> (the default build type is Debug), and undefined behaviour, which the model
  makes visible instead of picking an outcome.
\<close>

datatype failure =
    Throw ExceptionType
  | Std_exception
  | Std_logic_error
  | Std_invalid_argument
  | Std_out_of_range
  | Assertion_failed
  | Undefined_behaviour

type_synonym 'a result = "failure + 'a"

fun bind_r :: "'a result \<Rightarrow> ('a \<Rightarrow> 'b result) \<Rightarrow> 'b result" where
  "bind_r (Inl e) f = Inl e"
| "bind_r (Inr x) f = f x"

definition guard_r :: "bool \<Rightarrow> failure \<Rightarrow> unit result" where
  "guard_r b e = (if b then Inr () else Inl e)"

lemma bind_r_Inr_iff [result_simps]:
  "bind_r m f = Inr y \<longleftrightarrow> (\<exists>x. m = Inr x \<and> f x = Inr y)"
  by (cases m) auto

lemma bind_r_Inl_iff [result_simps]:
  "bind_r m f = Inl e \<longleftrightarrow> m = Inl e \<or> (\<exists>x. m = Inr x \<and> f x = Inl e)"
  by (cases m) auto

lemma bind_r_assoc: "bind_r (bind_r m f) g = bind_r m (\<lambda>x. bind_r (f x) g)"
  by (cases m) auto

lemma guard_r_Inr_iff [result_simps]: "guard_r b e = Inr u \<longleftrightarrow> b"
  by (simp add: guard_r_def)

lemma guard_r_simps [simp]: "guard_r True e = Inr ()" "guard_r False e = Inl e"
  by (simp_all add: guard_r_def)

text \<open>
  Computations that may also run forever: \<open>None\<close> does not return, \<open>Some\<close> returns a result.
  The monotonicity rules let loops built from them be \<open>partial_function\<close>s.
\<close>

definition bind_ro :: "'a result option \<Rightarrow> ('a \<Rightarrow> 'b result option) \<Rightarrow> 'b result option" where
  "bind_ro m f = Option.bind m (\<lambda>r. case r of Inl e \<Rightarrow> Some (Inl e) | Inr x \<Rightarrow> f x)"

lemma bind_ro_simps [simp]:
  "bind_ro None f = None" "bind_ro (Some (Inl e)) f = Some (Inl e)" "bind_ro (Some (Inr x)) f = f x"
  by (simp_all add: bind_ro_def)

lemma bind_ro_Some_Inr_iff [result_simps]:
  "bind_ro m f = Some (Inr y) \<longleftrightarrow> (\<exists>x. m = Some (Inr x) \<and> f x = Some (Inr y))"
  by (cases m) (auto simp: bind_ro_def split: sum.splits)

lemma bind_ro_mono [partial_function_mono]:
  assumes "mono_option B" and "\<And>y. mono_option (\<lambda>f. C y f)"
  shows "mono_option (\<lambda>f. bind_ro (B f) (\<lambda>y. C y f))"
proof -
  have "mono_option (\<lambda>f. case y of Inl e \<Rightarrow> Some (Inl e) | Inr x \<Rightarrow> C x f)" for y
    using assms(2) by (cases y) (simp_all add: option.const_mono)
  then show ?thesis unfolding bind_ro_def using assms(1) by (intro bind_mono)
qed

text \<open>Running an operation over a list, stopping at the first failure.\<close>

fun fold_r :: "('a \<Rightarrow> 's \<Rightarrow> 's result) \<Rightarrow> 'a list \<Rightarrow> 's \<Rightarrow> 's result" where
  "fold_r f [] s = Inr s"
| "fold_r f (x # xs) s = bind_r (f x s) (fold_r f xs)"

lemma fold_r_invariant:
  assumes "\<And>x s. x \<in> set xs \<Longrightarrow> P s \<Longrightarrow> \<exists>s'. f x s = Inr s' \<and> P s'" and "P s"
  shows "\<exists>s'. fold_r f xs s = Inr s' \<and> P s'"
  using assms
proof (induction xs arbitrary: s)
  case (Cons x xs)
  then obtain s' where "f x s = Inr s'" "P s'" by (metis list.set_intros(1))
  moreover have "\<exists>t. fold_r f xs s' = Inr t \<and> P t"
    using Cons.IH Cons.prems(1) \<open>P s'\<close> by (meson list.set_intros(2))
  ultimately show ?case by auto
qed simp

section \<open>Lists\<close>

lemma removeAll_eq_remove1: "distinct xs \<Longrightarrow> removeAll x xs = remove1 x xs"
  by (simp add: distinct_remove1_removeAll)

lemma remdups_snoc [list_facts]: "remdups (xs @ [x]) = removeAll x (remdups xs) @ [x]"
  by (induction xs) auto

lemma rev_removeAll [list_facts]: "rev (removeAll x xs) = removeAll x (rev xs)"
  by (simp add: removeAll_filter_not_eq rev_filter)

lemma remdups_removeAll [list_facts]: "remdups (removeAll x xs) = removeAll x (remdups xs)"
  by (simp add: removeAll_filter_not_eq remdups_filter)

lemma filter_removeAll [list_facts]: "filter P (removeAll x xs) = removeAll x (filter P xs)"
  by (simp add: removeAll_filter_not_eq) (metis (mono_tags, lifting))

lemma count_list_removeAll [list_facts]:
  "count_list (removeAll x xs) y = (if y = x then 0 else count_list xs y)"
  by (induction xs) auto

end
