(* ===== verification/Bytes.thy ===== *)
theory Bytes
  imports Prelude
begin

text \<open>
  Bytes of pages, files and serialised values: little-endian encodings of integers (the
  code copies objects with \<open>memcpy\<close> on a little-endian machine), two's complement
  conversion between widths, and reads and writes at an offset of a byte array.
\<close>

type_synonym byte = "8 word"

section \<open>Signed integers of a width\<close>

text \<open>Conversion to a signed integer of \<open>w\<close> bits, and the integers that fit.\<close>

definition swrap :: "nat \<Rightarrow> int \<Rightarrow> int" where
  "swrap w z = (z + 2 ^ (w - 1)) mod 2 ^ w - 2 ^ (w - 1)"

definition in_range :: "nat \<Rightarrow> int \<Rightarrow> bool" where
  "in_range w z \<longleftrightarrow> - (2 ^ (w - 1)) \<le> z \<and> z < 2 ^ (w - 1)"

lemma two_power_split: "0 < w \<Longrightarrow> (2::int) ^ w = 2 ^ (w - 1) + 2 ^ (w - 1)"
  by (cases w) simp_all

lemma swrap_id [simp]: "0 < w \<Longrightarrow> in_range w z \<Longrightarrow> swrap w z = z"
  using two_power_split[of w] by (simp add: swrap_def in_range_def)

lemma in_range_swrap [simp]: "0 < w \<Longrightarrow> in_range w (swrap w z)"
  using two_power_split[of w] pos_mod_bound[of "2 ^ w" "z + 2 ^ (w - 1)"]
    pos_mod_sign[of "2 ^ w" "z + 2 ^ (w - 1)"]
  by (simp add: swrap_def in_range_def)

lemma swrap_eq_iff: "0 < w \<Longrightarrow> swrap w z = z \<longleftrightarrow> in_range w z"
  by (metis in_range_swrap swrap_id)

lemma in_range_mono: "in_range w z \<Longrightarrow> w \<le> w' \<Longrightarrow> in_range w' z"
proof -
  assume r: "in_range w z" and w: "w \<le> w'"
  have "(2::int) ^ (w - 1) \<le> 2 ^ (w' - 1)" using w by (intro power_increasing) auto
  with r show ?thesis unfolding in_range_def by linarith
qed

text \<open>A wrapped value differs from the original by a multiple of \<open>2 ^ w\<close>.\<close>

lemma swrap_cong: "\<exists>k. swrap w z = z + k * 2 ^ w"
  by (intro exI[of _ "- ((z + 2 ^ (w - 1)) div 2 ^ w)"]) (simp add: swrap_def minus_div_mult_eq_mod[symmetric])

section \<open>Little-endian encodings\<close>

fun le_bytes :: "nat \<Rightarrow> nat \<Rightarrow> byte list" where
  "le_bytes 0 x = []"
| "le_bytes (Suc n) x = of_nat x # le_bytes n (x div 256)"

fun le_nat :: "byte list \<Rightarrow> nat" where
  "le_nat [] = 0"
| "le_nat (b # bs) = unat b + 256 * le_nat bs"

lemma length_le_bytes [simp]: "length (le_bytes n x) = n"
  by (induction n arbitrary: x) simp_all

lemma le_nat_le_bytes: "le_nat (le_bytes n x) = x mod 256 ^ n"
proof (induction n arbitrary: x)
  case (Suc n)
  have "unat (of_nat x :: byte) = x mod 256" by (simp add: unat_of_nat)
  with Suc show ?case by (simp add: mod_mult2_eq)
qed simp

lemma le_nat_bound: "le_nat bs < 256 ^ length bs"
proof (induction bs)
  case (Cons b bs)
  have "unat b < 256" using unsigned_less[of b, where ?'a = nat] by simp
  with Cons show ?case by simp
qed simp

lemma le_bytes_le_nat: "le_bytes (length bs) (le_nat bs) = bs"
proof (induction bs)
  case (Cons b bs)
  have u: "unat b < 256" using unsigned_less[of b, where ?'a = nat] by simp
  have "of_nat (unat b + 256 * le_nat bs) = b + (256 :: byte) * of_nat (le_nat bs)" by simp
  also have "(256 :: byte) = 0" by simp
  finally have "of_nat (unat b + 256 * le_nat bs) = b" by simp
  moreover have "(unat b + 256 * le_nat bs) div 256 = le_nat bs" using u by simp
  ultimately show ?case using Cons by simp
qed simp

definition put_int :: "nat \<Rightarrow> int \<Rightarrow> byte list" where
  "put_int n z = le_bytes n (nat (z mod 256 ^ n))"

definition get_int :: "byte list \<Rightarrow> int" where
  "get_int bs = swrap (8 * length bs) (int (le_nat bs))"

definition get_uint :: "byte list \<Rightarrow> nat" where
  "get_uint bs = le_nat bs"

lemma length_put_int [simp]: "length (put_int n z) = n"
  by (simp add: put_int_def)

lemma get_uint_put_int: "get_uint (put_int n z) = nat (z mod 256 ^ n)"
proof -
  have "nat (z mod 256 ^ n) < 256 ^ n" by (simp add: nat_less_iff)
  then show ?thesis by (simp add: get_uint_def put_int_def le_nat_le_bytes)
qed

lemma get_int_put_int:
  assumes "0 < n" and "in_range (8 * n) z"
  shows "get_int (put_int n z) = z"
proof -
  have p: "(256::int) ^ n = 2 ^ (8 * n)" by (simp add: power_mult)
  have "int (le_nat (put_int n z)) = z mod 2 ^ (8 * n)"
    using get_uint_put_int[of n z] by (simp add: get_uint_def p)
  then have "get_int (put_int n z) = swrap (8 * n) (z mod 2 ^ (8 * n))" by (simp add: get_int_def)
  also have "\<dots> = swrap (8 * n) z" by (simp add: swrap_def mod_add_left_eq)
  finally show ?thesis using assms by simp
qed

section \<open>Reading and writing at an offset\<close>

definition get_at :: "nat \<Rightarrow> nat \<Rightarrow> byte list \<Rightarrow> byte list" where
  "get_at off n bs = take n (drop off bs)"

definition put_at :: "nat \<Rightarrow> byte list \<Rightarrow> byte list \<Rightarrow> byte list" where
  "put_at off new bs = take off bs @ new @ drop (off + length new) bs"

lemma length_put_at [simp]: "off + length new \<le> length bs \<Longrightarrow> length (put_at off new bs) = length bs"
  by (simp add: put_at_def)

lemma get_at_put_at_same: "off + length new \<le> length bs \<Longrightarrow> get_at off (length new) (put_at off new bs) = new"
  by (simp add: get_at_def put_at_def)

lemma nth_put_at:
  "off + length new \<le> length bs \<Longrightarrow> i < length bs \<Longrightarrow>
   put_at off new bs ! i = (if off \<le> i \<and> i < off + length new then new ! (i - off) else bs ! i)"
  by (auto simp: put_at_def nth_append min_def)

lemma length_get_at [simp]: "off + n \<le> length bs \<Longrightarrow> length (get_at off n bs) = n"
  by (simp add: get_at_def)

lemma nth_get_at: "off + n \<le> length bs \<Longrightarrow> i < n \<Longrightarrow> get_at off n bs ! i = bs ! (off + i)"
  by (simp add: get_at_def)

lemma get_at_put_at_other:
  assumes "off + length new \<le> length bs" and "p + n \<le> length bs" and "p + n \<le> off \<or> off + length new \<le> p"
  shows "get_at p n (put_at off new bs) = get_at p n bs"
  using assms by (intro nth_equalityI) (auto simp: nth_get_at nth_put_at)

text \<open>Characters and bytes.\<close>

definition byte_of_char :: "char \<Rightarrow> byte" where
  "byte_of_char c = of_nat (of_char c)"

definition char_of_byte :: "byte \<Rightarrow> char" where
  "char_of_byte b = char_of (unat b)"

lemma char_of_byte_of_char [simp]: "char_of_byte (byte_of_char c) = c"
proof -
  have "of_char c < (256::nat)" by (rule nat_of_char_less_256)
  then show ?thesis by (simp add: char_of_byte_def byte_of_char_def unat_of_nat)
qed

end
