(* ===== verification/Disk_Manager.thy ===== *)
theory Disk_Manager
  imports Bytes
begin

text \<open>
  The disk manager: \<open>src/storage/disk/disk_manager.cpp\<close> and its header.

  A file is the list of its bytes. The streams behave as the C++ standard describes: a write
  beyond the end fills the gap with zeros, a read that meets the end of the file delivers
  what there is and sets the fail state until \<open>clear()\<close>, a seek to a negative offset only
  sets the fail state, and a stream in the fail state neither reads nor writes. Device
  errors (\<open>bad()\<close>) are not modelled. The log stream is opened with \<open>app\<close>, so a write always
  goes to the end. The database file name contains a dot (otherwise the constructor
  returns before it opens anything), and no flush future is set.
\<close>

definition BUSTUB_PAGE_SIZE :: nat where
  "BUSTUB_PAGE_SIZE = 4096"

definition INVALID_PAGE_ID :: int where
  "INVALID_PAGE_ID = - 1"

text \<open>Conversion of a number to \<open>int\<close>, and the range of \<open>int\<close>.\<close>

definition to_int32 :: "int \<Rightarrow> int" where
  "to_int32 x = (x + 2 ^ 31) mod 2 ^ 32 - 2 ^ 31"

definition in_int32 :: "int \<Rightarrow> bool" where
  "in_int32 x \<longleftrightarrow> - (2 ^ 31) \<le> x \<and> x < 2 ^ 31"

section \<open>State and operations\<close>

record disk =
  db_file :: "byte list"
  db_failed :: bool
  log_file :: "byte list"
  num_flushes :: nat
  num_writes :: nat
  flush_log :: bool
  buffer_used :: "nat option"

text \<open>Opening keeps the contents of an existing file and creates a missing one.\<close>

definition DiskManager :: "byte list option \<Rightarrow> byte list option \<Rightarrow> disk" where
  "DiskManager db log =
     \<lparr>db_file = (case db of None \<Rightarrow> [] | Some f \<Rightarrow> f), db_failed = False,
      log_file = (case log of None \<Rightarrow> [] | Some f \<Rightarrow> f),
      num_flushes = 0, num_writes = 0, flush_log = False, buffer_used = None\<rparr>"

definition GetFileSize :: "byte list \<Rightarrow> int" where
  "GetFileSize file = to_int32 (int (length file))"

definition write_at :: "nat \<Rightarrow> byte list \<Rightarrow> byte list \<Rightarrow> byte list" where
  "write_at off bytes file =
     take off (file @ replicate (off - length file) 0) @ bytes @ drop (off + length bytes) file"

text \<open>The offset of \<open>WritePage\<close> is a \<open>size_t\<close>; a negative page id makes the seek fail.\<close>

definition WritePage :: "int \<Rightarrow> byte list \<Rightarrow> disk \<Rightarrow> disk" where
  "WritePage pid data d =
     (let d = d\<lparr>num_writes := num_writes d + 1\<rparr>
      in if db_failed d \<or> pid < 0 then d\<lparr>db_failed := True\<rparr>
         else d\<lparr>db_file := write_at (nat pid * BUSTUB_PAGE_SIZE) data (db_file d)\<rparr>)"

text \<open>
  The offset of \<open>ReadPage\<close> is an \<open>int\<close>, so the product overflows from page id 524288 on.
  The result is the new content of the buffer that was passed in.
\<close>

definition ReadPage :: "int \<Rightarrow> byte list \<Rightarrow> disk \<Rightarrow> (byte list \<times> disk) result" where
  "ReadPage pid buf d =
     (let offset = pid * int BUSTUB_PAGE_SIZE
      in if \<not> in_int32 offset then Inl Undefined_behaviour
         else if offset > GetFileSize (db_file d) then Inr (buf, d)
         else let bytes = (if db_failed d \<or> offset < 0 then []
                           else take BUSTUB_PAGE_SIZE (drop (nat offset) (db_file d)));
                  d = d\<lparr>db_failed := db_failed d \<or> offset < 0\<rparr>;
                  read_count = length bytes
              in if read_count < BUSTUB_PAGE_SIZE
                 then Inr (bytes @ replicate (BUSTUB_PAGE_SIZE - read_count) 0, d\<lparr>db_failed := False\<rparr>)
                 else Inr (bytes, d))"

text \<open>\<open>p\<close> is the address of the buffer: a second write from the same address is skipped.\<close>

definition WriteLog :: "nat \<Rightarrow> byte list \<Rightarrow> disk \<Rightarrow> disk" where
  "WriteLog p log_data d =
     (if buffer_used d = Some p then d
      else let d = d\<lparr>buffer_used := Some p\<rparr>
      in if log_data = [] then d
         else d\<lparr>num_flushes := num_flushes d + 1, log_file := log_file d @ log_data,
                flush_log := False\<rparr>)"

definition ReadLog :: "nat \<Rightarrow> int \<Rightarrow> byte list \<Rightarrow> disk \<Rightarrow> bool \<times> byte list" where
  "ReadLog n offset buf d =
     (if offset \<ge> GetFileSize (log_file d) then (False, buf)
      else let bytes = (if offset < 0 then [] else take n (drop (nat offset) (log_file d)));
               read_count = length bytes
      in (True, bytes @ replicate (n - read_count) 0))"

definition GetNumFlushes :: "disk \<Rightarrow> nat" where "GetNumFlushes d = num_flushes d"
definition GetNumWrites :: "disk \<Rightarrow> nat" where "GetNumWrites d = num_writes d"
definition GetFlushState :: "disk \<Rightarrow> bool" where "GetFlushState d = flush_log d"

section \<open>The disk as an array of pages\<close>

definition zero_page :: "byte list" where
  "zero_page = replicate BUSTUB_PAGE_SIZE 0"

text \<open>Page \<open>pid\<close> of the file, as if the file went on with zeros.\<close>

definition disk_page :: "disk \<Rightarrow> int \<Rightarrow> byte list" where
  "disk_page d pid =
     (let bytes = take BUSTUB_PAGE_SIZE (drop (nat pid * BUSTUB_PAGE_SIZE) (db_file d))
      in bytes @ replicate (BUSTUB_PAGE_SIZE - length bytes) 0)"

text \<open>The largest page id the reads can address: one more makes the file size overflow.\<close>

definition max_page_id :: int where
  "max_page_id = 2 ^ 19 - 2"

definition page_id_ok :: "int \<Rightarrow> bool" where
  "page_id_ok pid \<longleftrightarrow> 0 \<le> pid \<and> pid \<le> max_page_id"

definition disk_inv :: "disk \<Rightarrow> bool" where
  "disk_inv d \<longleftrightarrow> \<not> db_failed d \<and> length (db_file d) \<le> (2 ^ 19 - 1) * BUSTUB_PAGE_SIZE"

lemma length_write_at:
  "length (write_at off bytes file) = max (length file) (off + length bytes)"
  by (auto simp: write_at_def max_def)

lemma nth_write_at:
  "i < length (write_at off bytes file) \<Longrightarrow>
   write_at off bytes file ! i =
     (if i < off then (if i < length file then file ! i else 0)
      else if i < off + length bytes then bytes ! (i - off) else file ! i)"
  by (auto simp: write_at_def nth_append length_write_at[unfolded write_at_def] min_def)

definition byte_at :: "byte list \<Rightarrow> nat \<Rightarrow> byte" where
  "byte_at file i = (if i < length file then file ! i else 0)"

lemma byte_at_write_at:
  "byte_at (write_at off bytes file) i =
     (if off \<le> i \<and> i < off + length bytes then bytes ! (i - off) else byte_at file i)"
  by (auto simp: byte_at_def nth_write_at length_write_at max_def split: if_splits)

lemma length_disk_page [simp]: "length (disk_page d pid) = BUSTUB_PAGE_SIZE"
  by (simp add: disk_page_def Let_def)

lemma nth_disk_page:
  "i < BUSTUB_PAGE_SIZE \<Longrightarrow> disk_page d pid ! i = byte_at (db_file d) (nat pid * BUSTUB_PAGE_SIZE + i)"
  by (auto simp: disk_page_def Let_def nth_append byte_at_def min_def)

lemma disk_page_init [simp]: "disk_page (DiskManager None log) pid = zero_page"
  by (simp add: disk_page_def DiskManager_def zero_page_def)

lemma disk_inv_init [simp]: "disk_inv (DiskManager None log)"
  by (simp add: disk_inv_def DiskManager_def)

lemma WritePage_correct:
  assumes inv: "disk_inv d" and pid: "page_id_ok pid" and len: "length data = BUSTUB_PAGE_SIZE"
  shows "disk_inv (WritePage pid data d)"
    and "0 \<le> q \<Longrightarrow> disk_page (WritePage pid data d) q = (if q = pid then data else disk_page d q)"
proof -
  have bound: "nat pid * BUSTUB_PAGE_SIZE + length data \<le> (2 ^ 19 - 1) * BUSTUB_PAGE_SIZE"
    using pid len by (simp add: page_id_ok_def max_page_id_def BUSTUB_PAGE_SIZE_def) linarith
  have w: "WritePage pid data d = d\<lparr>num_writes := num_writes d + 1,
      db_file := write_at (nat pid * BUSTUB_PAGE_SIZE) data (db_file d)\<rparr>"
    using inv pid by (simp add: WritePage_def Let_def disk_inv_def page_id_ok_def)
  show "disk_inv (WritePage pid data d)"
    using inv bound by (simp add: w disk_inv_def length_write_at)
  show "disk_page (WritePage pid data d) q = (if q = pid then data else disk_page d q)" if q: "0 \<le> q"
  proof (rule nth_equalityI)
    fix i assume "i < length (disk_page (WritePage pid data d) q)"
    then have i: "i < BUSTUB_PAGE_SIZE" by simp
    have "nat q * BUSTUB_PAGE_SIZE + i < nat pid * BUSTUB_PAGE_SIZE \<or>
        nat pid * BUSTUB_PAGE_SIZE + BUSTUB_PAGE_SIZE \<le> nat q * BUSTUB_PAGE_SIZE + i" if "q \<noteq> pid"
    proof (cases "q < pid")
      case True
      then have "Suc (nat q) \<le> nat pid" using q by linarith
      then have "Suc (nat q) * BUSTUB_PAGE_SIZE \<le> nat pid * BUSTUB_PAGE_SIZE"
        by (rule mult_le_mono1)
      with i show ?thesis by simp
    next
      case False
      then have "Suc (nat pid) \<le> nat q" using that pid by (simp add: page_id_ok_def) linarith
      then have "Suc (nat pid) * BUSTUB_PAGE_SIZE \<le> nat q * BUSTUB_PAGE_SIZE"
        by (rule mult_le_mono1)
      then show ?thesis by simp
    qed
    then show "disk_page (WritePage pid data d) q ! i = (if q = pid then data else disk_page d q) ! i"
      using i len by (auto simp: nth_disk_page w byte_at_write_at)
  qed (simp add: len)
qed

text \<open>Reading a page in range delivers the page, provided the buffer was zeroed before.\<close>

lemma ReadPage_correct:
  assumes inv: "disk_inv d" and pid: "page_id_ok pid"
  shows "ReadPage pid zero_page d = Inr (disk_page d pid, d)"
proof -
  have len: "length (db_file d) < 2 ^ 31"
    using inv by (simp add: disk_inv_def BUSTUB_PAGE_SIZE_def)
  have fs: "GetFileSize (db_file d) = int (length (db_file d))"
    using len by (simp add: GetFileSize_def to_int32_def)
  have off: "nat (pid * int BUSTUB_PAGE_SIZE) = nat pid * BUSTUB_PAGE_SIZE"
    using pid by (simp add: page_id_ok_def nat_mult_distrib)
  have "in_int32 (pid * int BUSTUB_PAGE_SIZE)"
    using pid by (simp add: in_int32_def page_id_ok_def max_page_id_def BUSTUB_PAGE_SIZE_def)
  moreover have "disk_page d pid = zero_page" if "pid * int BUSTUB_PAGE_SIZE > int (length (db_file d))"
  proof -
    have "length (db_file d) \<le> nat pid * BUSTUB_PAGE_SIZE" using that off by linarith
    then show ?thesis by (simp add: disk_page_def zero_page_def)
  qed
  moreover have nn: "\<not> pid * int BUSTUB_PAGE_SIZE < 0"
    using pid by (simp add: page_id_ok_def not_less)
  ultimately show ?thesis
    using inv pid
    by (auto simp: ReadPage_def Let_def fs off nn disk_page_def disk_inv_def page_id_ok_def)
qed

section \<open>The log file\<close>

lemma WriteLog_fresh:
  "buffer_used d \<noteq> Some p \<Longrightarrow>
     log_file (WriteLog p bytes d) = log_file d @ bytes \<and> buffer_used (WriteLog p bytes d) = Some p"
  by (simp add: WriteLog_def Let_def)

text \<open>The buffers a sequence of writes puts into the log: repeats of an address are dropped.\<close>

fun logged :: "nat option \<Rightarrow> (nat \<times> byte list) list \<Rightarrow> byte list" where
  "logged used [] = []"
| "logged used ((p, bytes) # ws) =
     (if used = Some p then logged used ws else bytes @ logged (Some p) ws)"

section \<open>Properties\<close>



text \<open>
  C18: The limits of \<open>ReadPage\<close>. From page id 524288 on its \<open>int\<close> offset overflows; and one
  write of page 524287, which \<open>WritePage\<close> accepts, makes the file size overflow \<open>int\<close>, so
  that every later read of a page returns without touching the buffer.
\<close>

theorem disk_read_limits:
  "(524288 \<le> pid \<and> pid < 2 ^ 31 \<longrightarrow> ReadPage pid buf d = Inl Undefined_behaviour) \<and>
   (disk_inv d \<and> length data = BUSTUB_PAGE_SIZE \<and> page_id_ok q \<longrightarrow>
      ReadPage q buf (WritePage 524287 data d) = Inr (buf, WritePage 524287 data d))"
proof (intro conjI impI)
  assume "524288 \<le> pid \<and> pid < 2 ^ 31"
  then show "ReadPage pid buf d = Inl Undefined_behaviour"
    by (simp add: ReadPage_def Let_def in_int32_def BUSTUB_PAGE_SIZE_def)
next
  assume a: "disk_inv d \<and> length data = BUSTUB_PAGE_SIZE \<and> page_id_ok q"
  let ?d = "WritePage 524287 data d"
  have "length (db_file ?d) = 2 ^ 31"
    using a by (simp add: WritePage_def Let_def disk_inv_def length_write_at BUSTUB_PAGE_SIZE_def)
  then have "GetFileSize (db_file ?d) = - (2 ^ 31)" by (simp add: GetFileSize_def to_int32_def)
  moreover have "in_int32 (q * int BUSTUB_PAGE_SIZE)" "0 \<le> q"
    using a by (simp_all add: in_int32_def page_id_ok_def max_page_id_def BUSTUB_PAGE_SIZE_def)
  ultimately show "ReadPage q buf ?d = Inr (buf, ?d)"
    by (simp add: ReadPage_def Let_def BUSTUB_PAGE_SIZE_def)
qed

theorem disk_read_limits_witness:
  "ReadPage 0 [1] (WritePage 524287 zero_page (DiskManager None None)) =
     Inr ([1], WritePage 524287 zero_page (DiskManager None None)) \<and>
   ReadPage 600000 [1] (DiskManager None None) = Inl Undefined_behaviour"
proof -
  have "page_id_ok 0" by (simp add: page_id_ok_def max_page_id_def)
  then show ?thesis
    using disk_read_limits[of 600000 "[1]" "DiskManager None None" zero_page 0]
    by (simp add: zero_page_def)
qed

text \<open>
  The log file is the concatenation of the written buffers, except that a write from the
  address of the previous write is dropped; writing from two buffers in turn loses nothing,
  and what is in the log is read back at its offset.
\<close>

theorem disk_log_contents:
  "log_file (fold (\<lambda>(p, bytes). WriteLog p bytes) ws d) = log_file d @ logged (buffer_used d) ws \<and>
   (\<forall>n off. off < length (log_file d) \<and> off + n \<le> length (log_file d) \<and> length (log_file d) < 2 ^ 31
      \<longrightarrow> ReadLog n (int off) buf d = (True, take n (drop off (log_file d))))"
proof
  show "log_file (fold (\<lambda>(p, bytes). WriteLog p bytes) ws d) = log_file d @ logged (buffer_used d) ws"
  proof (induction ws arbitrary: d)
    case (Cons w ws)
    obtain p bytes where w: "w = (p, bytes)" by fastforce
    show ?case
    proof (cases "buffer_used d = Some p")
      case True
      then have "WriteLog p bytes d = d" by (simp add: WriteLog_def)
      with Cons.IH[of d] True w show ?thesis by simp
    next
      case False
      with Cons.IH[of "WriteLog p bytes d"] WriteLog_fresh[OF False, of bytes] w show ?thesis by simp
    qed
  qed simp
  show "\<forall>n off. off < length (log_file d) \<and> off + n \<le> length (log_file d) \<and> length (log_file d) < 2 ^ 31
      \<longrightarrow> ReadLog n (int off) buf d = (True, take n (drop off (log_file d)))"
    by (auto simp: ReadLog_def Let_def GetFileSize_def to_int32_def)
qed

theorem disk_log_contents_witness:
  "log_file (fold (\<lambda>(p, bytes). WriteLog p bytes) [(1, [1, 2]), (1, [3]), (2, [4])] (DiskManager None None))
     = [1, 2, 4] \<and>
   ReadLog 1 1 [9] (DiskManager None (Some [5, 6])) = (True, [6])"
  using disk_log_contents[of "[(1, [1, 2]), (1, [3]), (2, [4])]" "DiskManager None None"]
    disk_log_contents[of "[]" "DiskManager None (Some [5, 6])" "[9]",
      THEN conjunct2, rule_format, of 1 1]
  by (simp add: DiskManager_def)

end
