(* ===== verification/Table_Page.thy ===== *)
theory Table_Page
  imports Disk_Manager
begin

unbundle bit_operations_syntax

text \<open>
  Slotted pages: \<open>src/storage/page/table_page.cpp\<close>, \<open>include/storage/page/table_page.h\<close>,
  \<open>include/common/rid.h\<close> and the members of \<open>include/storage/table/tuple.h\<close>.

  A page is its bytes. The header holds the page id, the log sequence number, the neighbours,
  the free space pointer and the number of slots; each slot is an offset and a size, whose top
  bit marks a deleted tuple; the tuples lie at the end of the page. Page fields are read and
  written at their offsets. Logging is off (\<open>enable_logging\<close> has no effect on the tuples).
\<close>

section \<open>Record ids and tuples\<close>

record RID =
  rid_page :: int
  rid_slot :: nat

definition new_RID :: RID where
  "new_RID = \<lparr>rid_page = INVALID_PAGE_ID, rid_slot = 0\<rparr>"

text \<open>\<open>RID::Get\<close> and the constructor from a number.\<close>

definition RID_Get :: "RID \<Rightarrow> int" where
  "RID_Get r = swrap 64 (rid_page r * 2 ^ 32) OR int (rid_slot r)"

definition RID_of_int :: "int \<Rightarrow> RID" where
  "RID_of_int z = \<lparr>rid_page = swrap 32 (drop_bit 32 z), rid_slot = nat (take_bit 32 z)\<rparr>"

text \<open>\<open>data_\<close> is the buffer it points to, \<open>None\<close> for a null pointer.\<close>

record Tuple =
  tallocated :: bool
  trid :: RID
  tsize :: nat
  tdata :: "byte list option"

definition new_Tuple :: Tuple where
  "new_Tuple = \<lparr>tallocated = False, trid = new_RID, tsize = 0, tdata = None\<rparr>"

text \<open>A tuple that holds given bytes.\<close>

definition tuple_of :: "RID \<Rightarrow> byte list \<Rightarrow> Tuple" where
  "tuple_of r bs = \<lparr>tallocated = True, trid = r, tsize = length bs, tdata = Some bs\<rparr>"

section \<open>Fields of a page\<close>

definition page_get :: "nat \<Rightarrow> byte list \<Rightarrow> nat" where
  "page_get off data = get_uint (get_at off 4 data)"

definition page_set :: "nat \<Rightarrow> int \<Rightarrow> byte list \<Rightarrow> byte list" where
  "page_set off x data = put_at off (put_int 4 x) data"

definition SIZE_TABLE_PAGE_HEADER :: nat where "SIZE_TABLE_PAGE_HEADER = 24"
definition SIZE_TUPLE :: nat where "SIZE_TUPLE = 8"
definition OFFSET_PREV_PAGE_ID :: nat where "OFFSET_PREV_PAGE_ID = 8"
definition OFFSET_NEXT_PAGE_ID :: nat where "OFFSET_NEXT_PAGE_ID = 12"
definition OFFSET_FREE_SPACE :: nat where "OFFSET_FREE_SPACE = 16"
definition OFFSET_TUPLE_COUNT :: nat where "OFFSET_TUPLE_COUNT = 20"
definition OFFSET_TUPLE_OFFSET :: nat where "OFFSET_TUPLE_OFFSET = 24"
definition OFFSET_TUPLE_SIZE :: nat where "OFFSET_TUPLE_SIZE = 28"

lemmas OFFSET_defs = SIZE_TABLE_PAGE_HEADER_def SIZE_TUPLE_def OFFSET_PREV_PAGE_ID_def
  OFFSET_NEXT_PAGE_ID_def OFFSET_FREE_SPACE_def OFFSET_TUPLE_COUNT_def OFFSET_TUPLE_OFFSET_def
  OFFSET_TUPLE_SIZE_def

definition GetTablePageId :: "byte list \<Rightarrow> int" where
  "GetTablePageId data = get_int (get_at 0 4 data)"

definition GetPrevPageId :: "byte list \<Rightarrow> int" where
  "GetPrevPageId data = get_int (get_at OFFSET_PREV_PAGE_ID 4 data)"

definition GetNextPageId :: "byte list \<Rightarrow> int" where
  "GetNextPageId data = get_int (get_at OFFSET_NEXT_PAGE_ID 4 data)"

definition SetPrevPageId :: "int \<Rightarrow> byte list \<Rightarrow> byte list" where
  "SetPrevPageId pid = page_set OFFSET_PREV_PAGE_ID pid"

definition SetNextPageId :: "int \<Rightarrow> byte list \<Rightarrow> byte list" where
  "SetNextPageId pid = page_set OFFSET_NEXT_PAGE_ID pid"

definition GetFreeSpacePointer :: "byte list \<Rightarrow> nat" where
  "GetFreeSpacePointer = page_get OFFSET_FREE_SPACE"

definition SetFreeSpacePointer :: "nat \<Rightarrow> byte list \<Rightarrow> byte list" where
  "SetFreeSpacePointer x = page_set OFFSET_FREE_SPACE (int x)"

definition GetTupleCount :: "byte list \<Rightarrow> nat" where
  "GetTupleCount = page_get OFFSET_TUPLE_COUNT"

definition SetTupleCount :: "nat \<Rightarrow> byte list \<Rightarrow> byte list" where
  "SetTupleCount x = page_set OFFSET_TUPLE_COUNT (int x)"

text \<open>The difference is computed in 64 bits and returned as 32 bits.\<close>

definition GetFreeSpaceRemaining :: "byte list \<Rightarrow> nat" where
  "GetFreeSpaceRemaining data =
     nat ((int (GetFreeSpacePointer data) - int SIZE_TABLE_PAGE_HEADER
           - int SIZE_TUPLE * int (GetTupleCount data)) mod 2 ^ 32)"

definition GetTupleOffsetAtSlot :: "nat \<Rightarrow> byte list \<Rightarrow> nat" where
  "GetTupleOffsetAtSlot slot = page_get (OFFSET_TUPLE_OFFSET + SIZE_TUPLE * slot)"

definition SetTupleOffsetAtSlot :: "nat \<Rightarrow> nat \<Rightarrow> byte list \<Rightarrow> byte list" where
  "SetTupleOffsetAtSlot slot x = page_set (OFFSET_TUPLE_OFFSET + SIZE_TUPLE * slot) (int x)"

definition GetTupleSize :: "nat \<Rightarrow> byte list \<Rightarrow> nat" where
  "GetTupleSize slot = page_get (OFFSET_TUPLE_SIZE + SIZE_TUPLE * slot)"

definition SetTupleSize :: "nat \<Rightarrow> nat \<Rightarrow> byte list \<Rightarrow> byte list" where
  "SetTupleSize slot x = page_set (OFFSET_TUPLE_SIZE + SIZE_TUPLE * slot) (int x)"

definition DELETE_MASK :: nat where
  "DELETE_MASK = 2 ^ 31"

definition IsDeleted :: "nat \<Rightarrow> bool" where
  "IsDeleted tuple_size \<longleftrightarrow> tuple_size AND DELETE_MASK \<noteq> 0 \<or> tuple_size = 0"

definition SetDeletedFlag :: "nat \<Rightarrow> nat" where
  "SetDeletedFlag tuple_size = take_bit 32 (tuple_size OR DELETE_MASK)"

text \<open>The mask is a 64-bit number, so its complement keeps all other bits.\<close>

definition UnsetDeletedFlag :: "nat \<Rightarrow> nat" where
  "UnsetDeletedFlag tuple_size = take_bit 32 (tuple_size AND (mask 64 XOR DELETE_MASK))"

section \<open>Operations\<close>

definition TablePage_Init :: "int \<Rightarrow> nat \<Rightarrow> int \<Rightarrow> byte list \<Rightarrow> byte list" where
  "TablePage_Init pid page_size prev_page_id data =
     SetTupleCount 0 (SetFreeSpacePointer page_size (SetNextPageId INVALID_PAGE_ID
       (SetPrevPageId prev_page_id (page_set 0 pid data))))"

text \<open>The index at which the search for an empty slot stops.\<close>

definition free_slot :: "byte list \<Rightarrow> nat" where
  "free_slot data =
     (case List.find (\<lambda>i. GetTupleSize i data = 0) [0..<GetTupleCount data] of
        Some i \<Rightarrow> i | None \<Rightarrow> GetTupleCount data)"

text \<open>The result is the record id, or \<open>None\<close> for \<open>false\<close>.\<close>

definition TablePage_InsertTuple :: "Tuple \<Rightarrow> byte list \<Rightarrow> (RID option \<times> byte list) result" where
  "TablePage_InsertTuple tuple data =
     bind_r (guard_r (tsize tuple > 0) Assertion_failed) (\<lambda>_.
     if GetFreeSpaceRemaining data < tsize tuple + SIZE_TUPLE then Inr (None, data)
     else let i = free_slot data
       in if i = GetTupleCount data \<and> GetFreeSpaceRemaining data < tsize tuple + SIZE_TUPLE
          then Inr (None, data)
          else case tdata tuple of
              None \<Rightarrow> Inl Undefined_behaviour
            | Some bytes \<Rightarrow>
                if length bytes < tsize tuple then Inl Undefined_behaviour
                else let
                  data = SetFreeSpacePointer (nat ((int (GetFreeSpacePointer data) - int (tsize tuple)) mod 2 ^ 32)) data;
                  data = put_at (GetFreeSpacePointer data) (take (tsize tuple) bytes) data;
                  data = SetTupleOffsetAtSlot i (GetFreeSpacePointer data) data;
                  data = SetTupleSize i (tsize tuple) data;
                  rid = \<lparr>rid_page = GetTablePageId data, rid_slot = i\<rparr>;
                  data = (if i = GetTupleCount data then SetTupleCount (GetTupleCount data + 1) data else data)
                in Inr (Some rid, data))"

definition TablePage_MarkDelete :: "RID \<Rightarrow> byte list \<Rightarrow> bool \<times> byte list" where
  "TablePage_MarkDelete rid data =
     (let slot_num = rid_slot rid
      in if slot_num \<ge> GetTupleCount data then (False, data)
         else let tuple_size = GetTupleSize slot_num data
           in if IsDeleted tuple_size then (False, data)
              else (True, SetTupleSize slot_num (SetDeletedFlag tuple_size) data))"

text \<open>
  \<open>UpdateTuple\<close> copies the old value into the buffer that \<open>old_tuple\<close> already has, and then
  overwrites the stored tuple in place whatever its length.
\<close>

definition TablePage_UpdateTuple :: "Tuple \<Rightarrow> Tuple \<Rightarrow> RID \<Rightarrow> byte list \<Rightarrow> (bool \<times> Tuple \<times> byte list) result" where
  "TablePage_UpdateTuple new_tuple old_tuple rid data =
     (let slot_num = rid_slot rid
      in if slot_num \<ge> GetTupleCount data then Inr (False, old_tuple, data)
         else let tuple_size = GetTupleSize slot_num data;
                  tuple_offset = GetTupleOffsetAtSlot slot_num data
           in if IsDeleted tuple_size then Inr (False, old_tuple, data)
              else case (tdata old_tuple, tdata new_tuple) of
                  (Some buf, Some bytes) \<Rightarrow>
                    if length buf < tuple_size \<or> length bytes < tsize new_tuple
                       \<or> tuple_offset + tsize new_tuple > length data
                    then Inl Undefined_behaviour
                    else Inr (True,
                      old_tuple\<lparr>tsize := tuple_size, tallocated := True, trid := rid,
                        tdata := Some (get_at tuple_offset tuple_size data @ drop tuple_size buf)\<rparr>,
                      SetTupleSize slot_num (tsize new_tuple)
                        (put_at tuple_offset (take (tsize new_tuple) bytes) data))
                | _ \<Rightarrow> Inl Undefined_behaviour)"

text \<open>The tuples between the free space pointer and the deleted tuple move up by its size.\<close>

definition shift_offset :: "nat \<Rightarrow> nat \<Rightarrow> nat \<Rightarrow> byte list \<Rightarrow> byte list" where
  "shift_offset tuple_offset tuple_size i data =
     (let tuple_offset_i = GetTupleOffsetAtSlot i data
      in if GetTupleSize i data \<noteq> 0 \<and> tuple_offset_i < tuple_offset
         then SetTupleOffsetAtSlot i (tuple_offset_i + tuple_size) data else data)"

definition TablePage_ApplyDelete :: "RID \<Rightarrow> byte list \<Rightarrow> byte list result" where
  "TablePage_ApplyDelete rid data =
     (let slot_num = rid_slot rid
      in bind_r (guard_r (slot_num < GetTupleCount data) Assertion_failed) (\<lambda>_.
      let tuple_offset = GetTupleOffsetAtSlot slot_num data;
          tuple_size = GetTupleSize slot_num data;
          tuple_size = (if IsDeleted tuple_size then UnsetDeletedFlag tuple_size else tuple_size);
          free_space_pointer = GetFreeSpacePointer data
      in bind_r (guard_r (tuple_offset \<ge> free_space_pointer) Assertion_failed) (\<lambda>_.
      let data = put_at (free_space_pointer + tuple_size)
                   (get_at free_space_pointer (tuple_offset - free_space_pointer) data) data;
          data = SetFreeSpacePointer (free_space_pointer + tuple_size) data;
          data = SetTupleSize slot_num 0 data;
          data = SetTupleOffsetAtSlot slot_num 0 data
      in Inr (fold (shift_offset tuple_offset tuple_size) [0..<GetTupleCount data] data))))"

definition TablePage_GetTuple :: "RID \<Rightarrow> Tuple \<Rightarrow> byte list \<Rightarrow> bool \<times> Tuple" where
  "TablePage_GetTuple rid tuple data =
     (let slot_num = rid_slot rid
      in if slot_num \<ge> GetTupleCount data then (False, tuple)
         else let tuple_size = GetTupleSize slot_num data
           in if IsDeleted tuple_size then (False, tuple)
              else let tuple_offset = GetTupleOffsetAtSlot slot_num data
                in (True, \<lparr>tallocated = True, trid = rid, tsize = tuple_size,
                           tdata = Some (get_at tuple_offset tuple_size data)\<rparr>))"

definition TablePage_GetFirstTupleRid :: "byte list \<Rightarrow> bool \<times> RID" where
  "TablePage_GetFirstTupleRid data =
     (case List.find (\<lambda>i. \<not> IsDeleted (GetTupleSize i data)) [0..<GetTupleCount data] of
        Some i \<Rightarrow> (True, \<lparr>rid_page = GetTablePageId data, rid_slot = i\<rparr>)
      | None \<Rightarrow> (False, \<lparr>rid_page = INVALID_PAGE_ID, rid_slot = 0\<rparr>))"

definition TablePage_GetNextTupleRid :: "RID \<Rightarrow> byte list \<Rightarrow> (bool \<times> RID) result" where
  "TablePage_GetNextTupleRid cur_rid data =
     bind_r (guard_r (rid_page cur_rid = GetTablePageId data) Assertion_failed) (\<lambda>_.
     case List.find (\<lambda>i. \<not> IsDeleted (GetTupleSize i data)) [rid_slot cur_rid + 1..<GetTupleCount data] of
        Some i \<Rightarrow> Inr (True, \<lparr>rid_page = GetTablePageId data, rid_slot = i\<rparr>)
      | None \<Rightarrow> Inr (False, \<lparr>rid_page = INVALID_PAGE_ID, rid_slot = 0\<rparr>))"

section \<open>Reading fields after writing them\<close>

named_theorems page_simps "fields of a page after a write"

lemma bit_31: "s < 2 ^ 32 \<Longrightarrow> bit s 31 \<longleftrightarrow> 2 ^ 31 \<le> (s :: nat)"
proof -
  assume s: "s < 2 ^ 32"
  have "s div 2 ^ 31 < 2" using s by (intro less_mult_imp_div_less) simp
  then have "odd (s div 2 ^ 31) \<longleftrightarrow> s div 2 ^ 31 \<noteq> 0" by (cases "s div 2 ^ 31") auto
  also have "\<dots> \<longleftrightarrow> 2 ^ 31 \<le> s" by (simp add: div_eq_0_iff not_less)
  finally show ?thesis by (simp only: bit_iff_odd)
qed

lemma IsDeleted_iff: "s < 2 ^ 32 \<Longrightarrow> IsDeleted s \<longleftrightarrow> s = 0 \<or> 2 ^ 31 \<le> s"
  unfolding IsDeleted_def DELETE_MASK_def and_exp_eq_0_iff_not_bit not_not using bit_31 by blast

lemma SetDeletedFlag_eq: "s < 2 ^ 31 \<Longrightarrow> SetDeletedFlag s = s + 2 ^ 31"
proof -
  assume s: "s < 2 ^ 31"
  then have nb: "\<not> bit s 31" using bit_31[of s] by simp
  have "s OR 2 ^ 31 = set_bit 31 s" by (simp add: set_bit_eq_or push_bit_eq_mult)
  also have "\<dots> = s + 2 ^ 31" using nb by (simp add: set_bit_eq)
  finally show ?thesis
    using s unfolding SetDeletedFlag_def DELETE_MASK_def by (simp add: take_bit_nat_eq_self)
qed

lemma UnsetDeletedFlag_eq: "UnsetDeletedFlag s = s mod 2 ^ 31"
proof -
  have "UnsetDeletedFlag s = take_bit 31 s"
    unfolding UnsetDeletedFlag_def DELETE_MASK_def
    by (rule bit_eqI, simp only: bit_take_bit_iff bit_and_iff bit_xor_iff bit_mask_iff bit_exp_iff) auto
  then show ?thesis by (simp add: take_bit_eq_mod)
qed

lemma length_page_set [page_simps]: "off + 4 \<le> length d \<Longrightarrow> length (page_set off x d) = length d"
  by (simp add: page_set_def)

lemma page_get_set: "off + 4 \<le> length d \<Longrightarrow> page_get off (page_set off x d) = nat (x mod 2 ^ 32)"
  using get_at_put_at_same[of off "put_int 4 x" d] by (simp add: page_get_def page_set_def get_uint_put_int)

lemma page_get_set_other:
  "off + 4 \<le> length d \<Longrightarrow> p + 4 \<le> length d \<Longrightarrow> p + 4 \<le> off \<or> off + 4 \<le> p \<Longrightarrow>
   page_get p (page_set off x d) = page_get p d"
  using get_at_put_at_other[of off "put_int 4 x" d p 4] by (simp add: page_get_def page_set_def)

lemma get_at_page_set:
  "off + 4 \<le> length d \<Longrightarrow> p + n \<le> length d \<Longrightarrow> p + n \<le> off \<or> off + 4 \<le> p \<Longrightarrow>
   get_at p n (page_set off x d) = get_at p n d"
  using get_at_put_at_other[of off "put_int 4 x" d p n] by (simp add: page_set_def)

lemma page_get_put_at:
  "off + length bs \<le> length d \<Longrightarrow> p + 4 \<le> off \<Longrightarrow> page_get p (put_at off bs d) = page_get p d"
  using get_at_put_at_other[of off bs d p 4] by (simp add: page_get_def)

lemma page_get_less: "page_get p d < 2 ^ 32"
proof -
  have "le_nat (get_at p 4 d) < 256 ^ length (get_at p 4 d)" by (rule le_nat_bound)
  also have "(256::nat) ^ length (get_at p 4 d) \<le> 256 ^ 4"
    by (rule power_increasing) (simp_all add: get_at_def)
  finally show ?thesis by (simp add: page_get_def get_uint_def)
qed

text \<open>The slots whose entry lies within the page.\<close>

definition slot_fits :: "nat \<Rightarrow> byte list \<Rightarrow> bool" where
  "slot_fits i d \<longleftrightarrow> 32 + 8 * i \<le> length d"

lemmas field_defs = GetTupleSize_def SetTupleSize_def GetTupleOffsetAtSlot_def
  SetTupleOffsetAtSlot_def GetTupleCount_def SetTupleCount_def GetFreeSpacePointer_def
  SetFreeSpacePointer_def OFFSET_defs

lemma length_setters [page_simps]:
  "slot_fits i d \<Longrightarrow> length (SetTupleSize i x d) = length d"
  "slot_fits i d \<Longrightarrow> length (SetTupleOffsetAtSlot i x d) = length d"
  "24 \<le> length d \<Longrightarrow> length (SetTupleCount x d) = length d"
  "24 \<le> length d \<Longrightarrow> length (SetFreeSpacePointer x d) = length d"
  by (simp_all add: field_defs slot_fits_def length_page_set)

lemma get_SetTupleSize [page_simps]:
  assumes "slot_fits i d"
  shows "slot_fits j d \<Longrightarrow> GetTupleSize j (SetTupleSize i x d) = (if j = i then x mod 2 ^ 32 else GetTupleSize j d)"
    and "slot_fits j d \<Longrightarrow> GetTupleOffsetAtSlot j (SetTupleSize i x d) = GetTupleOffsetAtSlot j d"
    and "GetTupleCount (SetTupleSize i x d) = GetTupleCount d"
    and "GetFreeSpacePointer (SetTupleSize i x d) = GetFreeSpacePointer d"
proof -
  show "slot_fits j d \<Longrightarrow> GetTupleSize j (SetTupleSize i x d) = (if j = i then x mod 2 ^ 32 else GetTupleSize j d)"
    using assms by (cases "j < i"; cases "j = i")
      (auto simp: field_defs slot_fits_def page_get_set page_get_set_other nat_mod_distrib)
  show "slot_fits j d \<Longrightarrow> GetTupleOffsetAtSlot j (SetTupleSize i x d) = GetTupleOffsetAtSlot j d"
    using assms by (cases "j \<le> i") (auto simp: field_defs slot_fits_def page_get_set_other)
  show "GetTupleCount (SetTupleSize i x d) = GetTupleCount d"
    "GetFreeSpacePointer (SetTupleSize i x d) = GetFreeSpacePointer d"
    using assms by (auto simp: field_defs slot_fits_def page_get_set_other)
qed

lemma get_SetTupleOffset [page_simps]:
  assumes "slot_fits i d"
  shows "slot_fits j d \<Longrightarrow> GetTupleOffsetAtSlot j (SetTupleOffsetAtSlot i x d) =
      (if j = i then x mod 2 ^ 32 else GetTupleOffsetAtSlot j d)"
    and "slot_fits j d \<Longrightarrow> GetTupleSize j (SetTupleOffsetAtSlot i x d) = GetTupleSize j d"
    and "GetTupleCount (SetTupleOffsetAtSlot i x d) = GetTupleCount d"
    and "GetFreeSpacePointer (SetTupleOffsetAtSlot i x d) = GetFreeSpacePointer d"
proof -
  show "slot_fits j d \<Longrightarrow> GetTupleOffsetAtSlot j (SetTupleOffsetAtSlot i x d) =
      (if j = i then x mod 2 ^ 32 else GetTupleOffsetAtSlot j d)"
    using assms by (cases "j < i"; cases "j = i")
      (auto simp: field_defs slot_fits_def page_get_set page_get_set_other nat_mod_distrib)
  show "slot_fits j d \<Longrightarrow> GetTupleSize j (SetTupleOffsetAtSlot i x d) = GetTupleSize j d"
    using assms by (cases "j < i") (auto simp: field_defs slot_fits_def page_get_set_other)
  show "GetTupleCount (SetTupleOffsetAtSlot i x d) = GetTupleCount d"
    "GetFreeSpacePointer (SetTupleOffsetAtSlot i x d) = GetFreeSpacePointer d"
    using assms by (auto simp: field_defs slot_fits_def page_get_set_other)
qed

lemma get_SetTupleCount [page_simps]:
  assumes "24 \<le> length d"
  shows "slot_fits j d \<Longrightarrow> GetTupleOffsetAtSlot j (SetTupleCount x d) = GetTupleOffsetAtSlot j d"
    and "slot_fits j d \<Longrightarrow> GetTupleSize j (SetTupleCount x d) = GetTupleSize j d"
    and "GetTupleCount (SetTupleCount x d) = x mod 2 ^ 32"
    and "GetFreeSpacePointer (SetTupleCount x d) = GetFreeSpacePointer d"
  using assms by (auto simp: field_defs slot_fits_def page_get_set page_get_set_other nat_mod_distrib)

lemma get_SetFreeSpacePointer [page_simps]:
  assumes "24 \<le> length d"
  shows "slot_fits j d \<Longrightarrow> GetTupleOffsetAtSlot j (SetFreeSpacePointer x d) = GetTupleOffsetAtSlot j d"
    and "slot_fits j d \<Longrightarrow> GetTupleSize j (SetFreeSpacePointer x d) = GetTupleSize j d"
    and "GetTupleCount (SetFreeSpacePointer x d) = GetTupleCount d"
    and "GetFreeSpacePointer (SetFreeSpacePointer x d) = x mod 2 ^ 32"
  using assms by (auto simp: field_defs slot_fits_def page_get_set page_get_set_other nat_mod_distrib)

lemma get_put_at_data [page_simps]:
  assumes "off + length bs \<le> length d"
  shows "32 + 8 * j \<le> off \<Longrightarrow> GetTupleOffsetAtSlot j (put_at off bs d) = GetTupleOffsetAtSlot j d"
    and "32 + 8 * j \<le> off \<Longrightarrow> GetTupleSize j (put_at off bs d) = GetTupleSize j d"
    and "24 \<le> off \<Longrightarrow> GetTupleCount (put_at off bs d) = GetTupleCount d"
    and "24 \<le> off \<Longrightarrow> GetFreeSpacePointer (put_at off bs d) = GetFreeSpacePointer d"
  using assms by (auto simp: field_defs page_get_put_at)

text \<open>Bytes outside the header are not touched by the setters.\<close>

lemma get_at_setters [page_simps]:
  "slot_fits i d \<Longrightarrow> 32 + 8 * i \<le> p \<Longrightarrow> p + n \<le> length d \<Longrightarrow> get_at p n (SetTupleSize i x d) = get_at p n d"
  "slot_fits i d \<Longrightarrow> 32 + 8 * i \<le> p \<Longrightarrow> p + n \<le> length d \<Longrightarrow> get_at p n (SetTupleOffsetAtSlot i x d) = get_at p n d"
  "24 \<le> p \<Longrightarrow> p + n \<le> length d \<Longrightarrow> get_at p n (SetTupleCount x d) = get_at p n d"
  "24 \<le> p \<Longrightarrow> p + n \<le> length d \<Longrightarrow> get_at p n (SetFreeSpacePointer x d) = get_at p n d"
  by (simp_all add: field_defs slot_fits_def get_at_page_set)

text \<open>The fields before the free space pointer are touched by none of the tuple operations.\<close>

lemma get_at_front [page_simps]:
  "slot_fits i d \<Longrightarrow> p + n \<le> 16 \<Longrightarrow> get_at p n (SetTupleSize i x d) = get_at p n d"
  "slot_fits i d \<Longrightarrow> p + n \<le> 16 \<Longrightarrow> get_at p n (SetTupleOffsetAtSlot i x d) = get_at p n d"
  "24 \<le> length d \<Longrightarrow> p + n \<le> 16 \<Longrightarrow> get_at p n (SetTupleCount x d) = get_at p n d"
  "24 \<le> length d \<Longrightarrow> p + n \<le> 16 \<Longrightarrow> get_at p n (SetFreeSpacePointer x d) = get_at p n d"
  "off + length bs \<le> length d \<Longrightarrow> 24 \<le> off \<Longrightarrow> p + n \<le> 16 \<Longrightarrow> get_at p n (put_at off bs d) = get_at p n d"
  by (simp_all add: field_defs slot_fits_def get_at_page_set get_at_put_at_other)

section \<open>The slots of a page\<close>

datatype slot = Empty | Live "byte list" | Dead "byte list"

definition slot_len :: "nat \<Rightarrow> byte list \<Rightarrow> nat" where
  "slot_len i d = UnsetDeletedFlag (GetTupleSize i d)"

definition slot_at :: "nat \<Rightarrow> byte list \<Rightarrow> slot" where
  "slot_at i d =
     (let bytes = get_at (GetTupleOffsetAtSlot i d) (slot_len i d) d
      in if GetTupleSize i d = 0 then Empty
         else if IsDeleted (GetTupleSize i d) then Dead bytes else Live bytes)"

definition slots :: "byte list \<Rightarrow> slot list" where
  "slots d = map (\<lambda>i. slot_at i d) [0..<GetTupleCount d]"

definition free_space :: "byte list \<Rightarrow> nat" where
  "free_space d = GetFreeSpacePointer d - 24 - 8 * GetTupleCount d"

text \<open>
  The invariant of a page: the slot array ends before the free space pointer, and the tuples of
  the occupied slots lie between it and the end of the page without overlapping.
\<close>

definition tuple_inside :: "nat \<Rightarrow> byte list \<Rightarrow> bool" where
  "tuple_inside i d \<longleftrightarrow> slot_len i d \<noteq> 0 \<and> GetFreeSpacePointer d \<le> GetTupleOffsetAtSlot i d \<and>
     GetTupleOffsetAtSlot i d + slot_len i d \<le> BUSTUB_PAGE_SIZE"

definition tuples_disjoint :: "nat \<Rightarrow> nat \<Rightarrow> byte list \<Rightarrow> bool" where
  "tuples_disjoint i j d \<longleftrightarrow> GetTupleOffsetAtSlot i d + slot_len i d \<le> GetTupleOffsetAtSlot j d \<or>
     GetTupleOffsetAtSlot j d + slot_len j d \<le> GetTupleOffsetAtSlot i d"

definition table_page_inv :: "byte list \<Rightarrow> bool" where
  "table_page_inv d \<longleftrightarrow>
     length d = BUSTUB_PAGE_SIZE \<and> 24 + 8 * GetTupleCount d \<le> GetFreeSpacePointer d \<and>
     GetFreeSpacePointer d \<le> BUSTUB_PAGE_SIZE \<and>
     (\<forall>i<GetTupleCount d. GetTupleSize i d \<noteq> 0 \<longrightarrow> tuple_inside i d) \<and>
     (\<forall>i<GetTupleCount d. \<forall>j<GetTupleCount d. i \<noteq> j \<longrightarrow> GetTupleSize i d \<noteq> 0 \<longrightarrow>
        GetTupleSize j d \<noteq> 0 \<longrightarrow> tuples_disjoint i j d)"

lemma length_slots [simp]: "length (slots d) = GetTupleCount d"
  by (simp add: slots_def)

lemma nth_slots: "i < GetTupleCount d \<Longrightarrow> slots d ! i = slot_at i d"
  by (simp add: slots_def)

lemma table_page_invD:
  assumes "table_page_inv d"
  shows "length d = 4096" "24 + 8 * GetTupleCount d \<le> GetFreeSpacePointer d" "GetFreeSpacePointer d \<le> 4096"
    "\<And>i. i < GetTupleCount d \<Longrightarrow> slot_fits i d"
    "\<And>i. i < GetTupleCount d \<Longrightarrow> GetTupleSize i d \<noteq> 0 \<Longrightarrow> tuple_inside i d"
    "\<And>i j. i < GetTupleCount d \<Longrightarrow> j < GetTupleCount d \<Longrightarrow> i \<noteq> j \<Longrightarrow> GetTupleSize i d \<noteq> 0 \<Longrightarrow>
      GetTupleSize j d \<noteq> 0 \<Longrightarrow> tuples_disjoint i j d"
  using assms by (auto simp: table_page_inv_def BUSTUB_PAGE_SIZE_def slot_fits_def)

lemma GetFreeSpaceRemaining_eq:
  assumes "table_page_inv d"
  shows "GetFreeSpaceRemaining d = free_space d"
proof -
  note I = table_page_invD[OF assms]
  have "(int (GetFreeSpacePointer d) - 24 - 8 * int (GetTupleCount d)) mod 2 ^ 32 =
      int (GetFreeSpacePointer d) - 24 - 8 * int (GetTupleCount d)"
    using I(2,3) by (intro mod_pos_pos_trivial) auto
  then show ?thesis
    unfolding GetFreeSpaceRemaining_def free_space_def OFFSET_defs using I(2)
    by (simp add: nat_diff_distrib' nat_mult_distrib)
qed

lemma free_slot_facts:
  "free_slot d \<le> GetTupleCount d"
  "free_slot d < GetTupleCount d \<Longrightarrow> GetTupleSize (free_slot d) d = 0"
  "j < free_slot d \<Longrightarrow> GetTupleSize j d \<noteq> 0"
proof -
  show "free_slot d \<le> GetTupleCount d"
    by (auto simp: free_slot_def find_Some_iff split: option.split)
  show "free_slot d < GetTupleCount d \<Longrightarrow> GetTupleSize (free_slot d) d = 0"
    by (auto simp: free_slot_def find_Some_iff find_None_iff split: option.splits)
  show "j < free_slot d \<Longrightarrow> GetTupleSize j d \<noteq> 0"
    by (auto simp: free_slot_def find_Some_iff find_None_iff split: option.splits)
qed

text \<open>\<open>Init\<close> makes an empty page.\<close>

lemma TablePage_Init_correct:
  assumes "length d = BUSTUB_PAGE_SIZE" and "in_int32 pid" and "in_int32 prev"
  defines "d' \<equiv> TablePage_Init pid BUSTUB_PAGE_SIZE prev d"
  shows "table_page_inv d' \<and> slots d' = [] \<and> GetTablePageId d' = pid \<and> GetPrevPageId d' = prev \<and>
    GetNextPageId d' = INVALID_PAGE_ID \<and> free_space d' = BUSTUB_PAGE_SIZE - 24"
proof -
  have len: "24 \<le> length d" using assms(1) by (simp add: BUSTUB_PAGE_SIZE_def)
  have r: "in_range 32 pid" "in_range 32 prev" "in_range 32 INVALID_PAGE_ID"
    using assms(2,3) by (simp_all add: in_int32_def in_range_def INVALID_PAGE_ID_def)
  have i: "get_int (put_int 4 z) = z" if "in_range 32 z" for z using get_int_put_int[of 4 z] that by simp
  have g: "get_at p 4 (page_set off z e) = (if p = off then put_int 4 z else get_at p 4 e)"
    if "24 \<le> length e" "off + 4 \<le> 24" "p + 4 \<le> 24" "p = off \<or> p + 4 \<le> off \<or> off + 4 \<le> p" for p off z e
    using that get_at_page_set[of off e p 4 z] get_at_put_at_same[of off "put_int 4 z" e]
    by (auto simp: page_set_def)
  have "GetTupleCount d' = 0" "GetFreeSpacePointer d' = BUSTUB_PAGE_SIZE"
    using len by (simp_all add: d'_def TablePage_Init_def SetNextPageId_def SetPrevPageId_def page_simps
        OFFSET_defs BUSTUB_PAGE_SIZE_def)
  moreover have "length d' = BUSTUB_PAGE_SIZE"
    using len assms(1) by (simp add: d'_def TablePage_Init_def SetNextPageId_def SetPrevPageId_def page_simps OFFSET_defs)
  moreover have "GetTablePageId d' = pid" "GetPrevPageId d' = prev" "GetNextPageId d' = INVALID_PAGE_ID"
    using len i r by (simp_all add: d'_def TablePage_Init_def SetNextPageId_def SetPrevPageId_def field_defs
        GetTablePageId_def GetPrevPageId_def GetNextPageId_def g length_page_set)
  ultimately show ?thesis by (simp add: table_page_inv_def slots_def free_space_def BUSTUB_PAGE_SIZE_def)
qed

text \<open>Linking a page to the next one.\<close>

lemma SetNextPageId_correct:
  assumes inv: "table_page_inv d" and pid: "in_int32 pid"
  defines "d' \<equiv> SetNextPageId pid d"
  shows "table_page_inv d'" and "slots d' = slots d" and "GetNextPageId d' = pid" and "GetTablePageId d' = GetTablePageId d"
proof -
  note I = table_page_invD[OF inv]
  have r: "in_range 32 pid" using pid by (simp add: in_int32_def in_range_def)
  have at: "get_at p m d' = get_at p m d" if "p + m \<le> 4096" "p + m \<le> 12 \<or> 16 \<le> p" for p m
    using that I(1) by (simp add: d'_def SetNextPageId_def OFFSET_defs get_at_page_set)
  have len: "length d' = 4096" using I(1) by (simp add: d'_def SetNextPageId_def OFFSET_defs length_page_set)
  have cnt: "GetTupleCount d' = GetTupleCount d" and fsp: "GetFreeSpacePointer d' = GetFreeSpacePointer d"
    using at by (simp_all add: field_defs page_get_def)
  have size: "GetTupleSize j d' = GetTupleSize j d" and off: "GetTupleOffsetAtSlot j d' = GetTupleOffsetAtSlot j d"
    if "j < GetTupleCount d" for j
    using at I(4)[OF that] I(1) by (simp_all add: field_defs page_get_def slot_fits_def)
  have slen: "slot_len j d' = slot_len j d" if "j < GetTupleCount d" for j using size[OF that] by (simp add: slot_len_def)
  show "table_page_inv d'"
    unfolding table_page_inv_def tuple_inside_def tuples_disjoint_def cnt fsp
    using inv len slen off size unfolding table_page_inv_def tuple_inside_def tuples_disjoint_def
    by (simp add: BUSTUB_PAGE_SIZE_def)
  show "slots d' = slots d"
  proof (rule nth_equalityI)
    fix j assume "j < length (slots d')"
    then have j: "j < GetTupleCount d" by (simp add: cnt)
    have "slot_at j d' = slot_at j d"
      using I(2) I(5)[OF j] size[OF j] off[OF j] slen[OF j]
      by (auto simp: slot_at_def Let_def tuple_inside_def BUSTUB_PAGE_SIZE_def at)
    then show "slots d' ! j = slots d ! j" using j by (simp add: nth_slots cnt)
  qed (simp add: cnt)
  show "GetNextPageId d' = pid"
    using get_at_put_at_same[of 12 "put_int 4 pid" d] I(1) get_int_put_int[of 4 pid] r
    by (simp add: d'_def GetNextPageId_def SetNextPageId_def OFFSET_defs page_set_def)
  show "GetTablePageId d' = GetTablePageId d" using at by (simp add: GetTablePageId_def)
qed

text \<open>The fields and the data of a page after an insertion.\<close>

lemma insert_view:
  assumes inv: "table_page_inv d" and n: "0 < length bs" and room: "length bs + 8 \<le> free_space d"
  defines "i \<equiv> free_slot d" and "f \<equiv> GetFreeSpacePointer d - length bs"
  shows "\<exists>d'. TablePage_InsertTuple (tuple_of r bs) d = Inr (Some \<lparr>rid_page = GetTablePageId d, rid_slot = i\<rparr>, d') \<and>
    length d' = 4096 \<and> GetFreeSpacePointer d' = f \<and>
    GetTupleCount d' = max (GetTupleCount d) (i + 1) \<and>
    (\<forall>j\<le>GetTupleCount d. GetTupleSize j d' = (if j = i then length bs else GetTupleSize j d) \<and>
       GetTupleOffsetAtSlot j d' = (if j = i then f else GetTupleOffsetAtSlot j d)) \<and>
    get_at f (length bs) d' = bs \<and>
    (\<forall>p m. GetFreeSpacePointer d \<le> p \<longrightarrow> p + m \<le> 4096 \<longrightarrow> get_at p m d' = get_at p m d) \<and>
    (\<forall>p m. p + m \<le> 16 \<longrightarrow> get_at p m d' = get_at p m d)"
proof -
  note I = table_page_invD[OF inv]
  let ?n = "length bs" and ?c = "GetTupleCount d"
  have room': "24 + 8 * ?c + ?n + 8 \<le> GetFreeSpacePointer d" using room I(2) by (simp add: free_space_def)
  have f: "GetFreeSpacePointer d = f + ?n" "32 + 8 * ?c \<le> f" "f + ?n \<le> 4096"
    using room' I(3) by (simp_all add: f_def)
  have i: "i \<le> ?c" using free_slot_facts(1) by (simp add: i_def)
  have fit: "slot_fits j e" if "j \<le> ?c" "length e = 4096" for j e
    using that f(2,3) by (simp add: slot_fits_def)
  define d1 where "d1 = SetFreeSpacePointer f d"
  define d2 where "d2 = put_at f bs d1"
  define d3 where "d3 = SetTupleOffsetAtSlot i f d2"
  define d4 where "d4 = SetTupleSize i ?n d3"
  define d5 where "d5 = (if i = ?c then SetTupleCount (?c + 1) d4 else d4)"
  have len: "length d1 = 4096" "length d2 = 4096" "length d3 = 4096" "length d4 = 4096" "length d5 = 4096"
  proof -
    show 1: "length d1 = 4096" using I(1) by (simp add: d1_def page_simps)
    then show 2: "length d2 = 4096" using f(3) by (simp add: d2_def)
    then show 3: "length d3 = 4096" using fit[OF i 2] by (simp add: d3_def page_simps)
    then show 4: "length d4 = 4096" using fit[OF i 3] by (simp add: d4_def page_simps)
    then show "length d5 = 4096" by (simp add: d5_def page_simps)
  qed
  note fits = fit[OF i len(1)] fit[OF i len(2)] fit[OF i len(3)] fit[OF i len(4)]
  have small: "f < 2 ^ 32" "?n < 2 ^ 32" "f mod 2 ^ 32 = f" "?n mod 2 ^ 32 = ?n" using f(3) by simp_all
  have fsp: "GetFreeSpacePointer d1 = f" "GetFreeSpacePointer d2 = f" "GetFreeSpacePointer d5 = f"
  proof -
    show "GetFreeSpacePointer d1 = f" using I(1) small(3) by (simp add: d1_def page_simps)
    then show "GetFreeSpacePointer d2 = f" using f(2,3) len(1) by (simp add: d2_def page_simps)
    then have "GetFreeSpacePointer d3 = f" using fits by (simp add: d3_def page_simps)
    then have "GetFreeSpacePointer d4 = f" using fits by (simp add: d4_def page_simps)
    then show "GetFreeSpacePointer d5 = f" using len(4) by (simp add: d5_def page_simps)
  qed
  have cnt: "GetTupleCount d4 = ?c" "GetTupleCount d1 = ?c"
    using fits f(2,3) len I(1) by (simp_all add: d4_def d3_def d2_def d1_def page_simps)
  have c1: "?c + 1 < 2 ^ 32" using f by simp
  have "GetTablePageId d4 = GetTablePageId d"
    using fits len f(2,3) I(1)
    by (simp add: GetTablePageId_def d4_def d3_def d2_def d1_def page_simps)
  moreover have "nat ((int (GetFreeSpacePointer d) - int ?n) mod 2 ^ 32) = f"
    using f(1) small(3) by (simp add: nat_mod_as_int)
  moreover have "\<not> GetFreeSpaceRemaining d < ?n + SIZE_TUPLE"
    using room GetFreeSpaceRemaining_eq[OF inv] by (simp add: SIZE_TUPLE_def)
  moreover have d5': "d5 = (if i = GetTupleCount d4 then SetTupleCount (GetTupleCount d4 + 1) d4 else d4)"
    by (simp add: d5_def cnt)
  ultimately have run: "TablePage_InsertTuple (tuple_of r bs) d =
      Inr (Some \<lparr>rid_page = GetTablePageId d, rid_slot = i\<rparr>, d5)"
    using n fsp(1,2) unfolding TablePage_InsertTuple_def tuple_of_def
    by (simp add: Let_def i_def[symmetric] d1_def[symmetric] d2_def[symmetric] d3_def[symmetric]
        d4_def[symmetric] d5' split del: if_split)
      (simp only: fsp(1,2) flip: d2_def d3_def d4_def)
  have last: "GetTupleSize j d5 = GetTupleSize j d4" "GetTupleOffsetAtSlot j d5 = GetTupleOffsetAtSlot j d4"
    if "j \<le> ?c" for j
    using fit[OF that len(4)] len(4) by (simp_all add: d5_def page_simps)
  have last_at: "get_at p m d5 = get_at p m d4" if "p + m \<le> 16 \<or> 24 \<le> p \<and> p + m \<le> 4096" for p m
    using that len(4) by (auto simp: d5_def page_simps)
  have size: "GetTupleSize j d5 = (if j = i then ?n else GetTupleSize j d)" if "j \<le> ?c" for j
    using fit[OF that len(3)] fit[OF that len(2)] fit[OF that len(1)] fit[OF that I(1)] fits len f(2,3) I(1) small(4) that
    unfolding last(1)[OF that] by (simp add: d4_def d3_def d2_def d1_def page_simps)
  have off: "GetTupleOffsetAtSlot j d5 = (if j = i then f else GetTupleOffsetAtSlot j d)" if "j \<le> ?c" for j
    using fit[OF that len(3)] fit[OF that len(2)] fit[OF that len(1)] fit[OF that I(1)] fits len f(2,3) I(1) small(3) that
    unfolding last(2)[OF that] by (simp add: d4_def d3_def d2_def d1_def page_simps)
  have "GetTupleCount d5 = max ?c (i + 1)"
    using i cnt(1) c1 len(4) by (simp add: d5_def page_simps)
  moreover have "get_at f ?n d5 = bs"
  proof -
    have "get_at f ?n d4 = get_at f ?n d2"
      using fits len f(2,3) i by (simp add: d4_def d3_def page_simps)
    then show ?thesis
      using last_at[of f ?n] get_at_put_at_same[of f bs d1] len(1) f(2,3) by (simp add: d2_def)
  qed
  moreover have "get_at p m d5 = get_at p m d" if "GetFreeSpacePointer d \<le> p" "p + m \<le> 4096" for p m
  proof -
    have "get_at p m d4 = get_at p m d"
      using fits len f i that I(1) by (simp add: d4_def d3_def d2_def d1_def page_simps get_at_put_at_other)
    then show ?thesis using last_at[of p m] that f by simp
  qed
  moreover have "get_at p m d5 = get_at p m d" if "p + m \<le> 16" for p m
  proof -
    have "get_at p m d4 = get_at p m d"
      using fits len f i that I(1) by (simp add: d4_def d3_def d2_def d1_def page_simps)
    then show ?thesis using last_at[of p m] that by simp
  qed
  ultimately show ?thesis using run len(5) fsp(3) size off by blast
qed

section \<open>The operations on slots\<close>

definition same_front :: "byte list \<Rightarrow> byte list \<Rightarrow> bool" where
  "same_front d' d \<longleftrightarrow> (\<forall>p m. p + m \<le> 16 \<longrightarrow> get_at p m d' = get_at p m d)"

lemma same_frontD:
  "same_front d' d \<Longrightarrow> GetTablePageId d' = GetTablePageId d \<and> GetPrevPageId d' = GetPrevPageId d \<and>
     GetNextPageId d' = GetNextPageId d"
  by (simp add: same_front_def GetTablePageId_def GetPrevPageId_def GetNextPageId_def OFFSET_defs)

lemma slot_at_cong:
  assumes "GetTupleSize j d' = GetTupleSize j d" and "GetTupleOffsetAtSlot j d' = GetTupleOffsetAtSlot j d"
    and "GetTupleSize j d \<noteq> 0 \<Longrightarrow>
      get_at (GetTupleOffsetAtSlot j d) (slot_len j d) d' = get_at (GetTupleOffsetAtSlot j d) (slot_len j d) d"
  shows "slot_at j d' = slot_at j d"
  using assms by (simp add: slot_at_def slot_len_def Let_def)

lemma live_size: "0 < n \<Longrightarrow> n \<le> 4096 \<Longrightarrow> \<not> IsDeleted n \<and> UnsetDeletedFlag n = n"
  by (simp add: IsDeleted_iff UnsetDeletedFlag_eq)

lemma InsertTuple_correct:
  assumes inv: "table_page_inv d" and n: "0 < length bs" and room: "length bs + 8 \<le> free_space d"
  defines "i \<equiv> free_slot d"
  shows "\<exists>d'. TablePage_InsertTuple (tuple_of r bs) d = Inr (Some \<lparr>rid_page = GetTablePageId d, rid_slot = i\<rparr>, d') \<and>
    table_page_inv d' \<and> same_front d' d \<and>
    slots d' = (if i < GetTupleCount d then (slots d)[i := Live bs] else slots d @ [Live bs]) \<and>
    free_space d \<le> free_space d' + length bs + 8"
proof -
  note I = table_page_invD[OF inv]
  let ?n = "length bs" and ?c = "GetTupleCount d"
  define f where "f = GetFreeSpacePointer d - ?n"
  obtain d' where run: "TablePage_InsertTuple (tuple_of r bs) d = Inr (Some \<lparr>rid_page = GetTablePageId d, rid_slot = i\<rparr>, d')"
    and len: "length d' = 4096" and fsp: "GetFreeSpacePointer d' = f" and cnt: "GetTupleCount d' = max ?c (i + 1)"
    and size: "\<And>j. j \<le> ?c \<Longrightarrow> GetTupleSize j d' = (if j = i then ?n else GetTupleSize j d)"
    and off: "\<And>j. j \<le> ?c \<Longrightarrow> GetTupleOffsetAtSlot j d' = (if j = i then f else GetTupleOffsetAtSlot j d)"
    and new: "get_at f ?n d' = bs"
    and old: "\<And>p m. GetFreeSpacePointer d \<le> p \<Longrightarrow> p + m \<le> 4096 \<Longrightarrow> get_at p m d' = get_at p m d"
    and front: "same_front d' d"
    using insert_view[OF inv n room, where r = r] unfolding i_def[symmetric] f_def[symmetric] same_front_def by blast
  have ic: "i \<le> ?c" and empty: "i < ?c \<Longrightarrow> GetTupleSize i d = 0"
    using free_slot_facts[where d = d] by (simp_all add: i_def)
  have f: "f + ?n = GetFreeSpacePointer d" "32 + 8 * ?c \<le> f"
    using room I(2) by (simp_all add: free_space_def f_def)
  have n4: "\<not> IsDeleted ?n" "UnsetDeletedFlag ?n = ?n" using live_size[OF n] f(1) I(3) by simp_all
  have slen: "slot_len j d' = (if j = i then ?n else slot_len j d)" if "j \<le> ?c" for j
    using size[OF that] n4 by (simp add: slot_len_def)
  have other: "j < ?c" if "j < GetTupleCount d'" "j \<noteq> i" for j
    using that cnt ic by (auto simp: max_def split: if_splits)
  have le: "j \<le> ?c" if "j < GetTupleCount d'" for j
    using that cnt ic by (auto simp: max_def split: if_splits)
  have inside: "tuple_inside j d'" if "j < GetTupleCount d'" "GetTupleSize j d' \<noteq> 0" for j
  proof (cases "j = i")
    case True
    then show ?thesis
      using off[OF ic] slen[OF ic] n f I(3) fsp by (simp add: tuple_inside_def BUSTUB_PAGE_SIZE_def)
  next
    case False
    note jc = other[OF that(1) False]
    then have "tuple_inside j d" using I(5)[OF jc] size[of j] False that(2) by simp
    then show ?thesis
      using False jc off[of j] slen[of j] fsp f by (simp add: tuple_inside_def)
  qed
  have disj: "tuples_disjoint j k d'"
    if "j < GetTupleCount d'" "k < GetTupleCount d'" "j \<noteq> k" "GetTupleSize j d' \<noteq> 0" "GetTupleSize k d' \<noteq> 0" for j k
  proof (cases "j = i \<or> k = i")
    case True
    have "GetFreeSpacePointer d \<le> GetTupleOffsetAtSlot m d" if "m < GetTupleCount d'" "m \<noteq> i" "GetTupleSize m d' \<noteq> 0" for m
      using I(5)[OF other[OF that(1,2)]] size[OF le[OF that(1)]] that(2,3) by (simp add: tuple_inside_def)
    then show ?thesis
      using True that f off[OF le[OF that(1)]] off[OF le[OF that(2)]] slen[OF le[OF that(1)]] slen[OF le[OF that(2)]]
      by (auto simp: tuples_disjoint_def)
  next
    case False
    then have "tuples_disjoint j k d"
      using I(6)[OF other[OF that(1)] other[OF that(2)] that(3)] size[OF le[OF that(1)]] size[OF le[OF that(2)]] that(4,5)
      by simp
    then show ?thesis
      using False off[OF le[OF that(1)]] off[OF le[OF that(2)]] slen[OF le[OF that(1)]] slen[OF le[OF that(2)]]
      by (simp add: tuples_disjoint_def)
  qed
  have "GetTupleCount d' \<le> ?c + 1" using cnt ic by simp
  then have "24 + 8 * GetTupleCount d' \<le> f" using f(2) by linarith
  then have "table_page_inv d'"
    using len fsp f I(3) inside disj by (simp add: table_page_inv_def BUSTUB_PAGE_SIZE_def)
  moreover have "slots d' = (if i < ?c then (slots d)[i := Live bs] else slots d @ [Live bs])" (is "_ = ?ss")
  proof (rule nth_equalityI)
    show "length (slots d') = length ?ss" using cnt ic by auto
    fix j assume "j < length (slots d')"
    then have j: "j < GetTupleCount d'" by simp
    show "slots d' ! j = ?ss ! j"
    proof (cases "j = i")
      case True
      then have "slot_at j d' = Live bs"
        using size[OF ic] off[OF ic] slen[OF ic] n4 n new by (simp add: slot_at_def Let_def)
      then show ?thesis using True j ic by (auto simp: nth_slots nth_append)
    next
      case False
      note jc = other[OF j False]
      have "slot_at j d' = slot_at j d"
      proof (rule slot_at_cong)
        assume "GetTupleSize j d \<noteq> 0"
        then have "tuple_inside j d" by (rule I(5)[OF jc])
        then show "get_at (GetTupleOffsetAtSlot j d) (slot_len j d) d' = get_at (GetTupleOffsetAtSlot j d) (slot_len j d) d"
          by (intro old) (simp_all add: tuple_inside_def BUSTUB_PAGE_SIZE_def)
      qed (use False jc size[of j] off[of j] in simp_all)
      then show ?thesis using False j jc by (auto simp: nth_slots nth_append)
    qed
  qed
  moreover have "free_space d \<le> free_space d' + ?n + 8"
  proof -
    have "GetTupleCount d' \<le> ?c + 1" using cnt ic by simp
    then show ?thesis unfolding free_space_def fsp using f by linarith
  qed
  ultimately show ?thesis using run front by blast
qed

lemma InsertTuple_full:
  assumes inv: "table_page_inv d" and n: "0 < length bs" and room: "free_space d < length bs + 8"
  shows "TablePage_InsertTuple (tuple_of r bs) d = Inr (None, d)"
  using n room GetFreeSpaceRemaining_eq[OF inv]
  by (simp add: TablePage_InsertTuple_def tuple_of_def SIZE_TUPLE_def)

lemma slot_at_Live:
  "slot_at i d = Live bs \<longleftrightarrow> \<not> IsDeleted (GetTupleSize i d) \<and> bs = get_at (GetTupleOffsetAtSlot i d) (slot_len i d) d"
  by (auto simp: slot_at_def Let_def IsDeleted_def)

lemma size_less: "GetTupleSize i d < 2 ^ 32"
  unfolding GetTupleSize_def by (rule page_get_less)

lemma live_slot_len: "\<not> IsDeleted (GetTupleSize i d) \<Longrightarrow> slot_len i d = GetTupleSize i d"
  using IsDeleted_iff[OF size_less[of i d]] by (simp add: slot_len_def UnsetDeletedFlag_eq)

lemma GetTuple_correct:
  "TablePage_GetTuple rid t d =
     (if rid_slot rid < GetTupleCount d
      then case slot_at (rid_slot rid) d of Live bs \<Rightarrow> (True, \<lparr>tallocated = True, trid = rid,
                 tsize = GetTupleSize (rid_slot rid) d, tdata = Some bs\<rparr>)
           | _ \<Rightarrow> (False, t)
      else (False, t))"
  by (auto simp: TablePage_GetTuple_def Let_def slot_at_def live_slot_len IsDeleted_def)

lemma live_slot_bytes:
  assumes "table_page_inv d" and "i < GetTupleCount d" and "slot_at i d = Live bs"
  shows "length bs = GetTupleSize i d" and "0 < length bs"
proof -
  have nd: "\<not> IsDeleted (GetTupleSize i d)" and bs: "bs = get_at (GetTupleOffsetAtSlot i d) (slot_len i d) d"
    using assms(3) by (simp_all add: slot_at_Live)
  then have nz: "GetTupleSize i d \<noteq> 0" by (simp add: IsDeleted_def)
  note ins = table_page_invD(5)[OF assms(1,2) nz]
  show "length bs = GetTupleSize i d"
    using ins table_page_invD(1)[OF assms(1)] live_slot_len[OF nd]
    by (simp add: bs tuple_inside_def BUSTUB_PAGE_SIZE_def)
  then show "0 < length bs" using nz by simp
qed

lemma GetTuple_live:
  assumes "table_page_inv d" and "rid_slot rid < GetTupleCount d" and "slots d ! rid_slot rid = Live bs"
  shows "TablePage_GetTuple rid t d = (True, tuple_of rid bs)"
  using assms live_slot_bytes[OF assms(1,2)] by (simp add: GetTuple_correct nth_slots tuple_of_def)

lemma MarkDelete_correct:
  assumes inv: "table_page_inv d" and i: "i < GetTupleCount d" and live: "slots d ! i = Live bs" and rid: "rid_slot rid = i"
  shows "\<exists>d'. TablePage_MarkDelete rid d = (True, d') \<and> table_page_inv d' \<and> same_front d' d \<and>
    slots d' = (slots d)[i := Dead bs]"
proof -
  note I = table_page_invD[OF inv]
  let ?s = "GetTupleSize i d"
  have nd: "\<not> IsDeleted ?s" and bs: "bs = get_at (GetTupleOffsetAtSlot i d) (slot_len i d) d"
    using live i by (simp_all add: nth_slots slot_at_Live)
  have s: "0 < ?s" "?s < 2 ^ 31" using nd IsDeleted_iff[OF size_less[of i d]] by auto
  define d' where "d' = SetTupleSize i (?s + 2 ^ 31) d"
  note fit = I(4)
  have len: "length d' = 4096" using I(1) fit[OF i] by (simp add: d'_def page_simps)
  have cnt: "GetTupleCount d' = GetTupleCount d" and fsp: "GetFreeSpacePointer d' = GetFreeSpacePointer d"
    using fit[OF i] by (simp_all add: d'_def page_simps)
  have sz: "GetTupleSize j d' = (if j = i then ?s + 2 ^ 31 else GetTupleSize j d)" if "j < GetTupleCount d" for j
    using fit[OF i] fit[OF that] s by (simp add: d'_def page_simps)
  have off: "GetTupleOffsetAtSlot j d' = GetTupleOffsetAtSlot j d" if "j < GetTupleCount d" for j
    using fit[OF i] fit[OF that] by (simp add: d'_def page_simps)
  have slen: "slot_len j d' = slot_len j d" if "j < GetTupleCount d" for j
    using sz[OF that] s by (simp add: slot_len_def UnsetDeletedFlag_eq)
  have nz: "GetTupleSize j d' \<noteq> 0 \<longleftrightarrow> GetTupleSize j d \<noteq> 0" if "j < GetTupleCount d" for j
    using sz[OF that] s by simp
  have data: "get_at p m d' = get_at p m d" if "GetFreeSpacePointer d \<le> p" "p + m \<le> 4096" for p m
    using fit[OF i] I(1,2) i that by (simp add: d'_def page_simps)
  have "table_page_inv d'"
    unfolding table_page_inv_def tuple_inside_def tuples_disjoint_def cnt fsp
    using inv len slen off nz unfolding table_page_inv_def tuple_inside_def tuples_disjoint_def
    by (simp add: BUSTUB_PAGE_SIZE_def)
  moreover have "slots d' = (slots d)[i := Dead bs]"
  proof (rule nth_equalityI)
    fix j assume "j < length (slots d')"
    then have j: "j < GetTupleCount d" by (simp add: cnt)
    have dat: "GetTupleSize j d \<noteq> 0 \<Longrightarrow>
        get_at (GetTupleOffsetAtSlot j d) (slot_len j d) d' = get_at (GetTupleOffsetAtSlot j d) (slot_len j d) d"
      using I(5)[OF j] by (intro data) (simp_all add: tuple_inside_def BUSTUB_PAGE_SIZE_def)
    show "slots d' ! j = (slots d)[i := Dead bs] ! j"
    proof (cases "j = i")
      case True
      have "IsDeleted (?s + 2 ^ 31)" using s by (simp add: IsDeleted_iff)
      then have "slot_at i d' = Dead bs"
        using sz[OF i] off[OF i] slen[OF i] dat s True by (simp add: slot_at_def Let_def bs)
      then show ?thesis using True i by (simp add: nth_slots cnt)
    next
      case False
      have "slot_at j d' = slot_at j d" using sz[OF j] off[OF j] dat False by (intro slot_at_cong) simp_all
      then show ?thesis using False j by (simp add: nth_slots cnt)
    qed
  qed (simp add: cnt)
  moreover have "same_front d' d" using fit[OF i] by (simp add: same_front_def d'_def page_simps)
  moreover have "TablePage_MarkDelete rid d = (True, d')"
    using i nd s rid by (simp add: TablePage_MarkDelete_def Let_def d'_def SetDeletedFlag_eq)
  ultimately show ?thesis by blast
qed

lemma MarkDelete_not_live:
  assumes "\<And>bs. i < GetTupleCount d \<Longrightarrow> slots d ! i \<noteq> Live bs" and "rid_slot rid = i"
  shows "TablePage_MarkDelete rid d = (False, d)"
proof (cases "i < GetTupleCount d")
  case True
  then have "IsDeleted (GetTupleSize i d)" using assms(1)[OF True] by (auto simp: nth_slots slot_at_Live)
  then show ?thesis using assms(2) by (simp add: TablePage_MarkDelete_def Let_def)
qed (use assms(2) in \<open>simp add: TablePage_MarkDelete_def Let_def\<close>)

text \<open>The next live slot from a position on.\<close>

definition next_live :: "nat \<Rightarrow> slot list \<Rightarrow> nat option" where
  "next_live k ss = List.find (\<lambda>i. case ss ! i of Live _ \<Rightarrow> True | _ \<Rightarrow> False) [k..<length ss]"

lemma find_live:
  "List.find (\<lambda>i. \<not> IsDeleted (GetTupleSize i d)) [k..<GetTupleCount d] = next_live k (slots d)"
  unfolding next_live_def length_slots
  by (rule find_cong[OF refl]) (auto simp: nth_slots slot_at_def Let_def IsDeleted_def)

lemma TupleRid_correct:
  "TablePage_GetFirstTupleRid d =
     (case next_live 0 (slots d) of Some i \<Rightarrow> (True, \<lparr>rid_page = GetTablePageId d, rid_slot = i\<rparr>) | None \<Rightarrow> (False, new_RID))"
  "rid_page r = GetTablePageId d \<Longrightarrow> TablePage_GetNextTupleRid r d =
     Inr (case next_live (rid_slot r + 1) (slots d) of
        Some i \<Rightarrow> (True, \<lparr>rid_page = GetTablePageId d, rid_slot = i\<rparr>) | None \<Rightarrow> (False, new_RID))"
  by (simp_all add: TablePage_GetFirstTupleRid_def TablePage_GetNextTupleRid_def find_live new_RID_def
      split: option.split)

section \<open>Applying a delete\<close>

text \<open>The loop over the offsets, from a page whose slots fit.\<close>

lemma shift_offsets:
  fixes k c t n :: nat and d :: "byte list"
  assumes "k \<le> c" and "\<And>j. j < c \<Longrightarrow> slot_fits j d" and "length d = 4096" and "24 + 8 * c \<le> 4096"
    and "\<And>j. j < c \<Longrightarrow> GetTupleSize j d \<noteq> 0 \<Longrightarrow> GetTupleOffsetAtSlot j d + n < 2 ^ 32"
  defines "d' \<equiv> fold (shift_offset t n) [0..<k] d"
  shows "length d' = 4096 \<and> GetTupleCount d' = GetTupleCount d \<and> GetFreeSpacePointer d' = GetFreeSpacePointer d \<and>
    (\<forall>j<c. GetTupleSize j d' = GetTupleSize j d) \<and>
    (\<forall>j<c. GetTupleOffsetAtSlot j d' =
       (if j < k \<and> GetTupleSize j d \<noteq> 0 \<and> GetTupleOffsetAtSlot j d < t then GetTupleOffsetAtSlot j d + n
        else GetTupleOffsetAtSlot j d)) \<and>
    (\<forall>p m. 24 + 8 * c \<le> p \<longrightarrow> p + m \<le> 4096 \<longrightarrow> get_at p m d' = get_at p m d) \<and> same_front d' d"
  using assms(1) unfolding d'_def
proof (induction k)
  case 0
  then show ?case using assms(3) by (simp add: same_front_def)
next
  case (Suc k)
  have k: "k < c" using Suc.prems by simp
  define e where "e = fold (shift_offset t n) [0..<k] d"
  note IH = Suc.IH[OF less_imp_le[OF k], folded e_def]
  have fit: "slot_fits j e" if "j < c" for j using IH assms(2)[OF that] assms(3) by (simp add: slot_fits_def)
  have e: "fold (shift_offset t n) [0..<Suc k] d = shift_offset t n k e" by (simp add: e_def)
  have off_k: "GetTupleOffsetAtSlot k e = GetTupleOffsetAtSlot k d" and size_k: "GetTupleSize k e = GetTupleSize k d"
    using IH k by simp_all
  show ?case
  proof (cases "GetTupleSize k d \<noteq> 0 \<and> GetTupleOffsetAtSlot k d < t")
    case True
    then have s: "shift_offset t n k e = SetTupleOffsetAtSlot k (GetTupleOffsetAtSlot k d + n) e"
      by (simp add: shift_offset_def off_k size_k)
    have small: "(GetTupleOffsetAtSlot k d + n) mod 2 ^ 32 = GetTupleOffsetAtSlot k d + n"
      using assms(5)[OF k] True by simp
    have "GetTupleOffsetAtSlot j (SetTupleOffsetAtSlot k (GetTupleOffsetAtSlot k d + n) e) =
       (if j < Suc k \<and> GetTupleSize j d \<noteq> 0 \<and> GetTupleOffsetAtSlot j d < t then GetTupleOffsetAtSlot j d + n
        else GetTupleOffsetAtSlot j d)" if "j < c" for j
    proof (cases "j = k")
      case True
      then show ?thesis
        using small True \<open>GetTupleSize k d \<noteq> 0 \<and> GetTupleOffsetAtSlot k d < t\<close> fit[OF k]
        by (simp add: get_SetTupleOffset)
    next
      case False
      then show ?thesis using IH that by (simp add: get_SetTupleOffset(1)[OF fit[OF k] fit[OF that]] less_Suc_eq)
    qed
    moreover have "length (SetTupleOffsetAtSlot k x e) = 4096" "same_front (SetTupleOffsetAtSlot k x e) d" for x
      using IH fit[OF k] by (simp_all add: page_simps same_front_def)
    moreover have "get_at p m (SetTupleOffsetAtSlot k x e) = get_at p m d" if "24 + 8 * c \<le> p" "p + m \<le> 4096" for p m x
      using IH fit[OF k] k that by (simp add: page_simps)
    ultimately show ?thesis
      unfolding e s using IH fit[OF k] fit by (simp add: page_simps)
  next
    case False
    then have s: "shift_offset t n k e = e" by (auto simp: shift_offset_def off_k size_k)
    show ?thesis unfolding e s using IH False by (auto simp: less_Suc_eq)
  qed
qed

text \<open>Bytes of a page after the move of the tuples below the deleted one.\<close>

lemma moved_bytes:
  assumes "length d = 4096" and "f \<le> t" and "t + n \<le> 4096"
  defines "d1 \<equiv> put_at (f + n) (get_at f (t - f) d) d"
  shows "length d1 = 4096"
    and "f \<le> p \<Longrightarrow> p + m \<le> t \<Longrightarrow> get_at (p + n) m d1 = get_at p m d"
    and "t + n \<le> p \<Longrightarrow> p + m \<le> 4096 \<Longrightarrow> get_at p m d1 = get_at p m d"
    and "p + m \<le> f + n \<Longrightarrow> get_at p m d1 = get_at p m d"
proof -
  have len: "f + n + length (get_at f (t - f) d) \<le> length d" using assms(1-3) by simp
  show l1: "length d1 = 4096" using len assms(1) by (simp add: d1_def)
  show "get_at (p + n) m d1 = get_at p m d" if "f \<le> p" "p + m \<le> t"
  proof (rule nth_equalityI)
    fix i assume "i < length (get_at (p + n) m d1)"
    then have i: "i < m" using l1 that assms(3) by simp
    show "get_at (p + n) m d1 ! i = get_at p m d ! i"
      using i l1 that assms(1-3) len by (simp add: nth_get_at d1_def nth_put_at)
  qed (use l1 that assms in simp)
  show "get_at p m d1 = get_at p m d" if "t + n \<le> p" "p + m \<le> 4096"
    unfolding d1_def using that assms(1-3) by (intro get_at_put_at_other) simp_all
  show "get_at p m d1 = get_at p m d" if "p + m \<le> f + n"
    unfolding d1_def using that assms(1-3) by (intro get_at_put_at_other) simp_all
qed

lemma ApplyDelete_view:
  assumes inv: "table_page_inv d" and i: "i < GetTupleCount d" and occ: "GetTupleSize i d \<noteq> 0" and rid: "rid_slot rid = i"
  defines "t \<equiv> GetTupleOffsetAtSlot i d" and "n \<equiv> slot_len i d" and "f \<equiv> GetFreeSpacePointer d" and "c \<equiv> GetTupleCount d"
  shows "\<exists>d'. TablePage_ApplyDelete rid d = Inr d' \<and> length d' = 4096 \<and> GetTupleCount d' = c \<and>
    GetFreeSpacePointer d' = f + n \<and> same_front d' d \<and>
    (\<forall>j<c. GetTupleSize j d' = (if j = i then 0 else GetTupleSize j d)) \<and>
    (\<forall>j<c. j \<noteq> i \<longrightarrow> GetTupleSize j d \<noteq> 0 \<longrightarrow> GetTupleOffsetAtSlot j d' =
       (if GetTupleOffsetAtSlot j d < t then GetTupleOffsetAtSlot j d + n else GetTupleOffsetAtSlot j d)) \<and>
    (\<forall>p m. f \<le> p \<longrightarrow> p + m \<le> t \<longrightarrow> get_at (p + n) m d' = get_at p m d) \<and>
    (\<forall>p m. t + n \<le> p \<longrightarrow> p + m \<le> 4096 \<longrightarrow> get_at p m d' = get_at p m d)"
proof -
  note I = table_page_invD[OF inv]
  have ins: "f \<le> t" "t + n \<le> 4096"
    using I(5)[OF i occ] by (simp_all add: tuple_inside_def f_def t_def n_def BUSTUB_PAGE_SIZE_def)
  have hdr: "24 + 8 * c \<le> f" "i < c" using I(2) i by (simp_all add: f_def c_def)
  have fit: "slot_fits j e" if "j < c" "length e = 4096" for j e
    using that hdr ins by (simp add: slot_fits_def)
  define d1 where "d1 = put_at (f + n) (get_at f (t - f) d) d"
  define d2 where "d2 = SetFreeSpacePointer (f + n) d1"
  define d3 where "d3 = SetTupleSize i 0 d2"
  define d4 where "d4 = SetTupleOffsetAtSlot i 0 d3"
  define d' where "d' = fold (shift_offset t n) [0..<c] d4"
  note mv = moved_bytes[OF I(1) ins, folded d1_def]
  have len: "length d1 = 4096" "length d2 = 4096" "length d3 = 4096" "length d4 = 4096"
  proof -
    show "length d1 = 4096" by (rule mv(1))
    then show 2: "length d2 = 4096" by (simp add: d2_def page_simps)
    then show 3: "length d3 = 4096" using fit[OF hdr(2)] by (simp add: d3_def page_simps)
    then show "length d4 = 4096" using fit[OF hdr(2)] by (simp add: d4_def page_simps)
  qed
  note fiti = fit[OF hdr(2) len(1)] fit[OF hdr(2) len(2)] fit[OF hdr(2) len(3)]
  have lm: "f + n + length (get_at f (t - f) d) \<le> length d" using ins I(1) by simp
  have small: "(f + n) mod 2 ^ 32 = f + n" using ins by simp
  have cnt: "GetTupleCount d4 = c"
    using fiti len hdr lm by (simp add: d4_def d3_def d2_def d1_def page_simps c_def)
  have fsp: "GetFreeSpacePointer d4 = f + n"
    using fiti len small by (simp add: d4_def d3_def d2_def page_simps)
  have size: "GetTupleSize j d4 = (if j = i then 0 else GetTupleSize j d)" if "j < c" for j
  proof -
    have "32 + 8 * j \<le> f + n" using that hdr by linarith
    then have "GetTupleSize j d1 = GetTupleSize j d" using lm by (simp add: d1_def page_simps)
    then show ?thesis using fiti fit[OF that] len by (simp add: d4_def d3_def d2_def page_simps)
  qed
  have off: "GetTupleOffsetAtSlot j d4 = (if j = i then 0 else GetTupleOffsetAtSlot j d)" if "j < c" for j
  proof -
    have "32 + 8 * j \<le> f + n" using that hdr by linarith
    then have "GetTupleOffsetAtSlot j d1 = GetTupleOffsetAtSlot j d" using lm by (simp add: d1_def page_simps)
    then show ?thesis using fiti fit[OF that] len by (simp add: d4_def d3_def d2_def page_simps)
  qed
  have data: "get_at p m d4 = get_at p m d1" if "24 + 8 * c \<le> p" "p + m \<le> 4096" for p m
    using that fiti len hdr by (simp add: d4_def d3_def d2_def page_simps)
  have front: "same_front d4 d"
    using fiti len lm hdr by (simp add: same_front_def d4_def d3_def d2_def d1_def page_simps)
  have bound: "GetTupleOffsetAtSlot j d4 + n < 2 ^ 32" if "j < c" "GetTupleSize j d4 \<noteq> 0" for j
  proof -
    have "tuple_inside j d" using that size[OF that(1)] I(5)[of j] by (auto simp: c_def split: if_splits)
    then have "GetTupleOffsetAtSlot j d \<le> 4096" by (simp add: tuple_inside_def BUSTUB_PAGE_SIZE_def)
    then show ?thesis using off[OF that(1)] ins(2) by simp
  qed
  have hc: "24 + 8 * c \<le> 4096" using hdr ins by linarith
  note sh = shift_offsets[OF order_refl fit[OF _ len(4)] len(4) hc bound, of t, folded d'_def]
  have un: "(if IsDeleted (GetTupleSize i d) then UnsetDeletedFlag (GetTupleSize i d) else GetTupleSize i d) = n"
    using live_slot_len[of i d] by (auto simp: n_def slot_len_def)
  have run: "TablePage_ApplyDelete rid d = Inr d'"
    using i ins(1) unfolding TablePage_ApplyDelete_def rid Let_def un
    by (simp add: f_def[symmetric] t_def[symmetric] d1_def[symmetric] d2_def[symmetric] d3_def[symmetric]
        d4_def[symmetric] cnt d'_def)
  have "get_at (p + n) m d' = get_at p m d" if "f \<le> p" "p + m \<le> t" for p m
  proof -
    have "get_at (p + n) m d' = get_at (p + n) m d1" using sh data that hdr ins by simp
    then show ?thesis using mv(2)[OF that] by simp
  qed
  moreover have "get_at p m d' = get_at p m d" if "t + n \<le> p" "p + m \<le> 4096" for p m
  proof -
    have "get_at p m d' = get_at p m d1" using sh data that hdr ins by simp
    then show ?thesis using mv(3)[OF that] by simp
  qed
  moreover have "same_front d' d" using sh front by (simp add: same_front_def)
  moreover have "GetTupleOffsetAtSlot j d' =
      (if GetTupleOffsetAtSlot j d < t then GetTupleOffsetAtSlot j d + n else GetTupleOffsetAtSlot j d)"
    if "j < c" "j \<noteq> i" "GetTupleSize j d \<noteq> 0" for j
    using sh size[OF that(1)] off[OF that(1)] that by simp
  ultimately show ?thesis using run sh cnt fsp size by (intro exI[of _ d']) simp
qed

text \<open>
  The tuple leaves its slot; every other tuple keeps its bytes, whether it was moved or not.
\<close>

lemma ApplyDelete_correct:
  assumes inv: "table_page_inv d" and i: "i < GetTupleCount d" and occ: "slots d ! i \<noteq> Empty" and rid: "rid_slot rid = i"
  shows "\<exists>d'. TablePage_ApplyDelete rid d = Inr d' \<and> table_page_inv d' \<and> same_front d' d \<and>
    slots d' = (slots d)[i := Empty] \<and> free_space d' = free_space d + slot_len i d"
proof -
  note I = table_page_invD[OF inv]
  let ?c = "GetTupleCount d" and ?t = "GetTupleOffsetAtSlot i d" and ?n = "slot_len i d" and ?f = "GetFreeSpacePointer d"
  have oi: "GetTupleSize i d \<noteq> 0" using occ i by (cases "GetTupleSize i d = 0") (simp_all add: nth_slots slot_at_def)
  obtain d' where run: "TablePage_ApplyDelete rid d = Inr d'" and len: "length d' = 4096" and cnt: "GetTupleCount d' = ?c"
    and fsp: "GetFreeSpacePointer d' = ?f + ?n" and front: "same_front d' d"
    and size: "\<And>j. j < ?c \<Longrightarrow> GetTupleSize j d' = (if j = i then 0 else GetTupleSize j d)"
    and off: "\<And>j. j < ?c \<Longrightarrow> j \<noteq> i \<Longrightarrow> GetTupleSize j d \<noteq> 0 \<Longrightarrow> GetTupleOffsetAtSlot j d' =
       (if GetTupleOffsetAtSlot j d < ?t then GetTupleOffsetAtSlot j d + ?n else GetTupleOffsetAtSlot j d)"
    and low: "\<And>p m. ?f \<le> p \<Longrightarrow> p + m \<le> ?t \<Longrightarrow> get_at (p + ?n) m d' = get_at p m d"
    and high: "\<And>p m. ?t + ?n \<le> p \<Longrightarrow> p + m \<le> 4096 \<Longrightarrow> get_at p m d' = get_at p m d"
    using ApplyDelete_view[OF inv i oi rid] by blast
  have ins_i: "?n \<noteq> 0" "?f \<le> ?t" "?t + ?n \<le> 4096"
    using I(5)[OF i oi] by (simp_all add: tuple_inside_def BUSTUB_PAGE_SIZE_def)
  have ins: "slot_len j d \<noteq> 0 \<and> ?f \<le> GetTupleOffsetAtSlot j d \<and> GetTupleOffsetAtSlot j d + slot_len j d \<le> 4096"
    if "j < ?c" "GetTupleSize j d \<noteq> 0" for j
    using I(5)[OF that] by (simp add: tuple_inside_def BUSTUB_PAGE_SIZE_def)
  have side: "GetTupleOffsetAtSlot j d + slot_len j d \<le> ?t \<and> GetTupleOffsetAtSlot j d < ?t \<or>
      ?t + ?n \<le> GetTupleOffsetAtSlot j d \<and> \<not> GetTupleOffsetAtSlot j d < ?t"
    if "j < ?c" "j \<noteq> i" "GetTupleSize j d \<noteq> 0" for j
    using I(6)[OF that(1) i that(2,3) oi] ins[OF that(1,3)] ins_i(1) by (auto simp: tuples_disjoint_def)
  have slen: "slot_len j d' = slot_len j d" if "j < ?c" "j \<noteq> i" for j
    using size[OF that(1)] that(2) by (simp add: slot_len_def)
  have occ': "j \<noteq> i \<and> GetTupleSize j d \<noteq> 0" if "j < ?c" "GetTupleSize j d' \<noteq> 0" for j
    using size[OF that(1)] that(2) by (auto split: if_splits)
  have inside: "tuple_inside j d'" if "j < ?c" "GetTupleSize j d' \<noteq> 0" for j
    using occ'[OF that] off[OF that(1)] slen[OF that(1)] ins[OF that(1)] side[OF that(1)] ins_i fsp
    by (auto simp: tuple_inside_def BUSTUB_PAGE_SIZE_def)
  have disj: "tuples_disjoint j k d'"
    if "j < ?c" "k < ?c" "j \<noteq> k" "GetTupleSize j d' \<noteq> 0" "GetTupleSize k d' \<noteq> 0" for j k
  proof -
    note o = occ'[OF that(1,4)] occ'[OF that(2,5)]
    show ?thesis
      using I(6)[OF that(1,2,3)] o off[OF that(1)] off[OF that(2)] slen[OF that(1)] slen[OF that(2)]
        side[OF that(1)] side[OF that(2)]
      by (auto simp: tuples_disjoint_def)
  qed
  have "24 + 8 * ?c \<le> ?f + ?n" "?f + ?n \<le> 4096" using I(2) ins_i by simp_all
  then have "table_page_inv d'"
    using len cnt fsp inside disj by (simp add: table_page_inv_def BUSTUB_PAGE_SIZE_def)
  moreover have "slots d' = (slots d)[i := Empty]"
  proof (rule nth_equalityI)
    fix j assume "j < length (slots d')"
    then have j: "j < ?c" by (simp add: cnt)
    show "slots d' ! j = (slots d)[i := Empty] ! j"
    proof (cases "j = i")
      case True
      then show ?thesis using size[OF j] j by (simp add: nth_slots cnt slot_at_def)
    next
      case False
      have "GetTupleSize j d \<noteq> 0 \<Longrightarrow> get_at (GetTupleOffsetAtSlot j d') (slot_len j d') d' =
          get_at (GetTupleOffsetAtSlot j d) (slot_len j d) d"
        using side[OF j False] off[OF j False] slen[OF j False] ins[OF j]
          low[of "GetTupleOffsetAtSlot j d" "slot_len j d"] high[of "GetTupleOffsetAtSlot j d" "slot_len j d"]
        by auto
      then have "slot_at j d' = slot_at j d" using size[OF j] False by (simp add: slot_at_def Let_def)
      then show ?thesis using False j by (simp add: nth_slots cnt)
    qed
  qed (simp add: cnt)
  moreover have "free_space d' = free_space d + ?n" using I(2) by (simp add: free_space_def cnt fsp)
  ultimately show ?thesis using run front by blast
qed

section \<open>Updating a tuple\<close>

text \<open>
  The caller \<open>TableHeap::UpdateTuple\<close> passes a fresh old tuple, whose buffer is the null pointer:
  updating a live tuple copies into it.
\<close>

lemma UpdateTuple_fresh_old:
  assumes "rid_slot rid < GetTupleCount d" and "slots d ! rid_slot rid = Live bs"
  shows "TablePage_UpdateTuple t new_Tuple rid d = Inl Undefined_behaviour"
  using assms by (simp add: nth_slots slot_at_Live TablePage_UpdateTuple_def new_Tuple_def)

text \<open>A value that is not longer than the stored one replaces it in place.\<close>

lemma UpdateTuple_correct:
  assumes inv: "table_page_inv d" and i: "rid_slot rid < GetTupleCount d" and live: "slots d ! rid_slot rid = Live bs"
    and new: "0 < length bs'" "length bs' \<le> length bs" and buf: "tdata old = Some b" "length bs \<le> length b"
  shows "\<exists>d'. TablePage_UpdateTuple (tuple_of r bs') old rid d =
      Inr (True, \<lparr>tallocated = True, trid = rid, tsize = length bs, tdata = Some (bs @ drop (length bs) b)\<rparr>, d') \<and>
    table_page_inv d' \<and> same_front d' d \<and> slots d' = (slots d)[rid_slot rid := Live bs']"
proof -
  note I = table_page_invD[OF inv]
  let ?i = "rid_slot rid" and ?c = "GetTupleCount d"
  define t where "t = GetTupleOffsetAtSlot ?i d"
  have nd: "\<not> IsDeleted (GetTupleSize ?i d)" and bs: "bs = get_at t (slot_len ?i d) d"
    using live i by (simp_all add: nth_slots slot_at_Live t_def)
  have sl: "slot_len ?i d = length bs" "GetTupleSize ?i d = length bs"
    using live_slot_bytes[OF inv i] live i live_slot_len[OF nd] by (simp_all add: nth_slots)
  have oi: "GetTupleSize ?i d \<noteq> 0" using nd by (auto simp: IsDeleted_def)
  have ins: "GetFreeSpacePointer d \<le> t" "t + length bs \<le> 4096"
    using I(5)[OF i oi] sl by (simp_all add: tuple_inside_def BUSTUB_PAGE_SIZE_def t_def)
  have hdr: "24 + 8 * ?c \<le> t" "?i < ?c" using I(2) ins i by simp_all
  define d1 where "d1 = put_at t bs' d"
  define d' where "d' = SetTupleSize ?i (length bs') d1"
  have l1: "length d1 = 4096" using I(1) ins new by (simp add: d1_def)
  have fit: "slot_fits j e" if "j < ?c" "length e = 4096" for j e
    using that hdr ins by (simp add: slot_fits_def)
  note fi = fit[OF i l1]
  have l': "length d' = 4096" using fi l1 by (simp add: d'_def page_simps)
  have lm: "t + length bs' \<le> length d" using ins new I(1) by simp
  have cnt: "GetTupleCount d' = ?c" and fsp: "GetFreeSpacePointer d' = GetFreeSpacePointer d"
    using fi lm hdr by (simp_all add: d'_def d1_def page_simps)
  have pos: "32 + 8 * j \<le> t" if "j < ?c" for j using that hdr by linarith
  have size: "GetTupleSize j d' = (if j = ?i then length bs' else GetTupleSize j d)" if "j < ?c" for j
    using fi fit[OF that l1] lm pos[OF that] ins new by (simp add: d'_def page_simps) (simp add: d1_def page_simps)
  have off: "GetTupleOffsetAtSlot j d' = GetTupleOffsetAtSlot j d" if "j < ?c" for j
    using fi fit[OF that l1] lm pos[OF that] by (simp add: d'_def page_simps) (simp add: d1_def page_simps)
  have n: "\<not> IsDeleted (length bs')" "UnsetDeletedFlag (length bs') = length bs'"
    using live_size[OF new(1)] new ins by simp_all
  have slen: "slot_len j d' = (if j = ?i then length bs' else slot_len j d)" if "j < ?c" for j
    using size[OF that] n by (simp add: slot_len_def)
  have dat: "get_at p m d' = get_at p m d" if "24 + 8 * ?c \<le> p" "p + m \<le> 4096" "p + m \<le> t \<or> t + length bs \<le> p" for p m
    using that fi l1 hdr lm new I(1) by (auto simp: d'_def d1_def page_simps get_at_put_at_other)
  have "get_at t (length bs') d' = get_at t (length bs') d1"
    using fi l1 hdr ins new by (simp add: d'_def page_simps)
  then have own: "get_at t (length bs') d' = bs'" using get_at_put_at_same[OF lm] by (simp add: d1_def)
  have occ: "GetTupleSize j d' \<noteq> 0 \<longleftrightarrow> GetTupleSize j d \<noteq> 0" if "j < ?c" for j
    using size[OF that] oi new by auto
  have inside: "tuple_inside j d'" if "j < ?c" "GetTupleSize j d' \<noteq> 0" for j
    using I(5)[of j] occ[OF that(1)] that off[OF that(1)] slen[OF that(1)] fsp ins new
    by (auto simp: tuple_inside_def BUSTUB_PAGE_SIZE_def t_def)
  have disj: "tuples_disjoint j k d'"
    if "j < ?c" "k < ?c" "j \<noteq> k" "GetTupleSize j d' \<noteq> 0" "GetTupleSize k d' \<noteq> 0" for j k
    using I(6)[of j k] occ that off[OF that(1)] off[OF that(2)] slen[OF that(1)] slen[OF that(2)] sl new
    by (auto simp: tuples_disjoint_def)
  have "table_page_inv d'"
    using l' cnt fsp I(2,3) inside disj by (simp add: table_page_inv_def BUSTUB_PAGE_SIZE_def)
  moreover have "slots d' = (slots d)[?i := Live bs']"
  proof (rule nth_equalityI)
    fix j assume "j < length (slots d')"
    then have j: "j < ?c" by (simp add: cnt)
    show "slots d' ! j = (slots d)[?i := Live bs'] ! j"
    proof (cases "j = ?i")
      case True
      then have "slot_at j d' = Live bs'"
        using size[OF j] off[OF j] slen[OF j] own n by (simp add: slot_at_Live t_def)
      then show ?thesis using True j by (simp add: nth_slots cnt)
    next
      case False
      have "slot_at j d' = slot_at j d"
      proof (rule slot_at_cong)
        assume oj: "GetTupleSize j d \<noteq> 0"
        have "tuple_inside j d" "tuples_disjoint j ?i d" using I(5)[OF j oj] I(6)[OF j i False oj oi] by auto
        then show "get_at (GetTupleOffsetAtSlot j d) (slot_len j d) d' = get_at (GetTupleOffsetAtSlot j d) (slot_len j d) d"
          using sl I(2) by (intro dat) (auto simp: tuple_inside_def tuples_disjoint_def BUSTUB_PAGE_SIZE_def t_def)
      qed (use False size[OF j] off[OF j] in simp_all)
      then show ?thesis using False j by (simp add: nth_slots cnt)
    qed
  qed (simp add: cnt)
  moreover have "same_front d' d" using fi lm hdr by (simp add: same_front_def d'_def d1_def page_simps)
  moreover have "TablePage_UpdateTuple (tuple_of r bs') old rid d =
      Inr (True, \<lparr>tallocated = True, trid = rid, tsize = length bs, tdata = Some (bs @ drop (length bs) b)\<rparr>, d')"
  proof -
    have "get_at t (length bs) d = bs" using bs sl by simp
    then show ?thesis
      using i nd buf lm sl(2) unfolding TablePage_UpdateTuple_def tuple_of_def
      by (simp add: Let_def t_def[symmetric] d'_def d1_def)
  qed
  ultimately show ?thesis by blast
qed

section \<open>Properties\<close>

text \<open>
  C21: \<open>ApplyDelete\<close> compacts the page: the tuples below the deleted one are moved up by its size
  and their offsets are adjusted, so every other slot keeps its bytes and its state, the slot
  itself becomes empty, the page stays well formed and the free space grows by the size of the
  tuple. This holds for a commit of a delete and for the rollback of an insert.
\<close>
theorem page_delete_compacts:
  assumes "table_page_inv d" and "rid_slot rid < length (slots d)" and "slots d ! rid_slot rid \<noteq> Empty"
  shows "\<exists>d'. TablePage_ApplyDelete rid d = Inr d' \<and> table_page_inv d' \<and> same_front d' d \<and>
    slots d' = (slots d)[rid_slot rid := Empty] \<and> free_space d' = free_space d + slot_len (rid_slot rid) d"
  using ApplyDelete_correct[OF assms(1) _ assms(3) refl] assms(2) by simp

text \<open>A page with two tuples.\<close>

lemma demo_page:
  obtains d where "table_page_inv d" and "slots d = [Live [1, 2], Live [3]]"
proof -
  define d0 where "d0 = TablePage_Init 0 BUSTUB_PAGE_SIZE 0 zero_page"
  have z: "length zero_page = BUSTUB_PAGE_SIZE" "in_int32 0" by (simp_all add: zero_page_def in_int32_def)
  note i = TablePage_Init_correct[OF z z(2), folded d0_def]
  from InsertTuple_correct[of d0 "[1, 2]" new_RID] i obtain d1 where
    d1: "table_page_inv d1" "slots d1 = [Live [1, 2]]" "free_space d0 \<le> free_space d1 + 10"
    by (auto simp: BUSTUB_PAGE_SIZE_def simp flip: length_slots)
  have c1: "GetTupleCount d1 = 1" using d1(2) by (simp flip: length_slots)
  have "\<not> free_slot d1 < GetTupleCount d1"
  proof
    assume "free_slot d1 < GetTupleCount d1"
    then have "slots d1 ! 0 = Empty"
      using free_slot_facts(2)[where d = d1] c1 nth_slots[of 0 d1] by (simp add: slot_at_def)
    then show False by (simp add: d1(2))
  qed
  with InsertTuple_correct[of d1 "[3]" new_RID] d1 i obtain d2 where "table_page_inv d2" "slots d2 = [Live [1, 2], Live [3]]"
    by (auto simp: BUSTUB_PAGE_SIZE_def)
  then show ?thesis by (rule that)
qed

theorem page_delete_compacts_witness:
  "\<exists>d d'. slots d = [Live [1, 2], Live [3]] \<and>
     TablePage_ApplyDelete \<lparr>rid_page = 0, rid_slot = 0\<rparr> d = Inr d' \<and> slots d' = [Empty, Live [3]]"
proof -
  from demo_page obtain d where d: "table_page_inv d" "slots d = [Live [1, 2], Live [3]]" .
  from page_delete_compacts[OF d(1), of "\<lparr>rid_page = 0, rid_slot = 0\<rparr>"] d(2) show ?thesis by auto
qed

end
