(* ===== verification/Value.thy ===== *)
theory Value
  imports Bytes "HOL-Library.Signed_Division"
begin

text \<open>
  SQL values: \<open>include/type/type_id.h\<close>, \<open>include/type/limits.h\<close>, \<open>src/type/value.cpp\<close> and
  \<open>include/type/value.h\<close>.

  A value is its type id, its payload and the length field, whose value
  \<open>BUSTUB_VALUE_NULL\<close> marks NULL. The payload is the member of the union that the constructors
  store for the type; every read in the code is of the member of the value's own type. The
  integer members are integers of their width. Doubles are the parameter \<open>'d\<close> with the
  operations of the record \<open>float_ops\<close>: what the code does with doubles is modelled, what
  the hardware computes is not fixed. Ownership of string data (\<open>manage_data_\<close>) is not
  modelled: a string value is its characters.
\<close>

section \<open>Types and limits\<close>

datatype TypeId = INVALID | BOOLEAN | TINYINT | SMALLINT | INTEGER | BIGINT | DECIMAL | VARCHAR | TIMESTAMP

datatype CmpBool = CmpFalse | CmpTrue | CmpNull

definition GetCmpBool :: "bool \<Rightarrow> CmpBool" where
  "GetCmpBool b = (if b then CmpTrue else CmpFalse)"

definition BUSTUB_VALUE_NULL :: nat where "BUSTUB_VALUE_NULL = 2 ^ 32 - 1"
definition BUSTUB_TIMESTAMP_NULL :: nat where "BUSTUB_TIMESTAMP_NULL = 2 ^ 64 - 1"
definition BUSTUB_VARCHAR_MAX_LEN :: nat where "BUSTUB_VARCHAR_MAX_LEN = 2 ^ 32 - 1"
definition BUSTUB_TIMESTAMP_MAX :: int where "BUSTUB_TIMESTAMP_MAX = 11231999986399999999"

text \<open>The smallest integer of a width is the NULL of its type, the next one its minimum.\<close>

definition int_null :: "nat \<Rightarrow> int" where "int_null w = - (2 ^ (w - 1))"
definition int_min :: "nat \<Rightarrow> int" where "int_min w = - (2 ^ (w - 1)) + 1"
definition int_max :: "nat \<Rightarrow> int" where "int_max w = 2 ^ (w - 1) - 1"

text \<open>The operations on doubles that the code uses.\<close>

record 'd float_ops =
  d_of_int :: "int \<Rightarrow> 'd"
  d_to_int :: "'d \<Rightarrow> int option"
  d_add :: "'d \<Rightarrow> 'd \<Rightarrow> 'd"
  d_sub :: "'d \<Rightarrow> 'd \<Rightarrow> 'd"
  d_mul :: "'d \<Rightarrow> 'd \<Rightarrow> 'd"
  d_div :: "'d \<Rightarrow> 'd \<Rightarrow> 'd"
  d_trunc :: "'d \<Rightarrow> 'd"
  d_sqrt :: "'d \<Rightarrow> 'd"
  d_lt :: "'d \<Rightarrow> 'd \<Rightarrow> bool"
  d_eq :: "'d \<Rightarrow> 'd \<Rightarrow> bool"
  d_lowest :: 'd
  d_flt_lowest :: 'd
  d_max :: 'd
  d_to_string :: "'d \<Rightarrow> string"
  d_of_string :: "string \<Rightarrow> 'd result"
  d_bytes :: "'d \<Rightarrow> byte list"
  d_of_bytes :: "byte list \<Rightarrow> 'd"

text \<open>The comparison operators that the macros of the type classes are applied to.\<close>

datatype cmp_op = OpEq | OpNe | OpLt | OpLe | OpGt | OpGe

fun int_cmp :: "cmp_op \<Rightarrow> int \<Rightarrow> int \<Rightarrow> bool" where
  "int_cmp OpEq x y = (x = y)"
| "int_cmp OpNe x y = (x \<noteq> y)"
| "int_cmp OpLt x y = (x < y)"
| "int_cmp OpLe x y = (x \<le> y)"
| "int_cmp OpGt x y = (x > y)"
| "int_cmp OpGe x y = (x \<ge> y)"

fun dec_cmp :: "'d float_ops \<Rightarrow> cmp_op \<Rightarrow> 'd \<Rightarrow> 'd \<Rightarrow> bool" where
  "dec_cmp F OpEq x y = d_eq F x y"
| "dec_cmp F OpNe x y = (\<not> d_eq F x y)"
| "dec_cmp F OpLt x y = d_lt F x y"
| "dec_cmp F OpLe x y = (d_lt F x y \<or> d_eq F x y)"
| "dec_cmp F OpGt x y = d_lt F y x"
| "dec_cmp F OpGe x y = (d_lt F y x \<or> d_eq F x y)"

section \<open>Values and their constructors\<close>

datatype 'd payload = VNone | VInt int | VDec 'd | VStr string | VNullptr | VTs nat

record 'd Value =
  vtype :: TypeId
  vval :: "'d payload"
  vlen :: nat

definition IsNull :: "'d Value \<Rightarrow> bool" where
  "IsNull v \<longleftrightarrow> vlen v = BUSTUB_VALUE_NULL"

definition Value_of_type :: "TypeId \<Rightarrow> 'd Value" where
  "Value_of_type T = \<lparr>vtype = T, vval = VNone, vlen = BUSTUB_VALUE_NULL\<rparr>"

text \<open>Storing into an integer member of \<open>w\<close> bits converts to that width.\<close>

definition store_int :: "TypeId \<Rightarrow> nat \<Rightarrow> int \<Rightarrow> 'd Value" where
  "store_int T w i =
     \<lparr>vtype = T, vval = VInt (swrap w i), vlen = (if swrap w i = int_null w then BUSTUB_VALUE_NULL else 0)\<rparr>"

definition store_timestamp :: "int \<Rightarrow> 'd Value" where
  "store_timestamp i =
     \<lparr>vtype = TIMESTAMP, vval = VTs (nat (i mod 2 ^ 64)),
      vlen = (if nat (i mod 2 ^ 64) = BUSTUB_TIMESTAMP_NULL then BUSTUB_VALUE_NULL else 0)\<rparr>"

fun Value_int8 :: "TypeId \<Rightarrow> int \<Rightarrow> 'd Value result" where
  "Value_int8 BOOLEAN i = Inr (store_int BOOLEAN 8 i)"
| "Value_int8 TINYINT i = Inr (store_int TINYINT 8 i)"
| "Value_int8 SMALLINT i = Inr (store_int SMALLINT 16 i)"
| "Value_int8 INTEGER i = Inr (store_int INTEGER 32 i)"
| "Value_int8 BIGINT i = Inr (store_int BIGINT 64 i)"
| "Value_int8 _ i = Inl (Throw INCOMPATIBLE_TYPE)"

fun Value_int16 :: "TypeId \<Rightarrow> int \<Rightarrow> 'd Value result" where
  "Value_int16 BOOLEAN i = Inr (store_int BOOLEAN 8 i)"
| "Value_int16 TINYINT i = Inr (store_int TINYINT 8 i)"
| "Value_int16 SMALLINT i = Inr (store_int SMALLINT 16 i)"
| "Value_int16 INTEGER i = Inr (store_int INTEGER 32 i)"
| "Value_int16 BIGINT i = Inr (store_int BIGINT 64 i)"
| "Value_int16 TIMESTAMP i = Inr (store_timestamp i)"
| "Value_int16 _ i = Inl (Throw INCOMPATIBLE_TYPE)"

fun Value_int32 :: "TypeId \<Rightarrow> int \<Rightarrow> 'd Value result" where
  "Value_int32 BOOLEAN i = Inr (store_int BOOLEAN 8 i)"
| "Value_int32 TINYINT i = Inr (store_int TINYINT 8 i)"
| "Value_int32 SMALLINT i = Inr (store_int SMALLINT 16 i)"
| "Value_int32 INTEGER i = Inr (store_int INTEGER 32 i)"
| "Value_int32 BIGINT i = Inr (store_int BIGINT 64 i)"
| "Value_int32 TIMESTAMP i = Inr (store_timestamp i)"
| "Value_int32 _ i = Inl (Throw INCOMPATIBLE_TYPE)"

fun Value_int64 :: "TypeId \<Rightarrow> int \<Rightarrow> 'd Value result" where
  "Value_int64 BOOLEAN i = Inr (store_int BOOLEAN 8 i)"
| "Value_int64 TINYINT i = Inr (store_int TINYINT 8 i)"
| "Value_int64 SMALLINT i = Inr (store_int SMALLINT 16 i)"
| "Value_int64 INTEGER i = Inr (store_int INTEGER 32 i)"
| "Value_int64 BIGINT i = Inr (store_int BIGINT 64 i)"
| "Value_int64 TIMESTAMP i = Inr (store_timestamp i)"
| "Value_int64 _ i = Inl (Throw INCOMPATIBLE_TYPE)"

fun Value_uint64 :: "TypeId \<Rightarrow> int \<Rightarrow> 'd Value result" where
  "Value_uint64 BIGINT i = Inr (store_int BIGINT 64 i)"
| "Value_uint64 TIMESTAMP i = Inr (store_timestamp i)"
| "Value_uint64 _ i = Inl (Throw INCOMPATIBLE_TYPE)"

fun Value_double :: "'d float_ops \<Rightarrow> TypeId \<Rightarrow> 'd \<Rightarrow> 'd Value result" where
  "Value_double F DECIMAL d =
     Inr \<lparr>vtype = DECIMAL, vval = VDec d, vlen = (if d_eq F d (d_lowest F) then BUSTUB_VALUE_NULL else 0)\<rparr>"
| "Value_double F _ d = Inl (Throw INCOMPATIBLE_TYPE)"

text \<open>\<open>Value(type, data, len, manage_data)\<close>: \<open>None\<close> is a null pointer, else \<open>len\<close> characters.\<close>

fun Value_data :: "TypeId \<Rightarrow> string option \<Rightarrow> 'd Value result" where
  "Value_data VARCHAR None = Inr \<lparr>vtype = VARCHAR, vval = VNullptr, vlen = BUSTUB_VALUE_NULL\<rparr>"
| "Value_data VARCHAR (Some data) = Inr \<lparr>vtype = VARCHAR, vval = VStr data, vlen = length data\<rparr>"
| "Value_data _ data = Inl (Throw INCOMPATIBLE_TYPE)"

definition NUL :: char where "NUL = CHR 0x00"

text \<open>\<open>Value(type, std::string)\<close> keeps the terminating NUL in the data and counts it.\<close>

fun Value_string :: "TypeId \<Rightarrow> string \<Rightarrow> 'd Value result" where
  "Value_string VARCHAR str = Inr \<lparr>vtype = VARCHAR, vval = VStr (str @ [NUL]), vlen = length str + 1\<rparr>"
| "Value_string _ str = Inl (Throw INCOMPATIBLE_TYPE)"

text \<open>\<open>GetAs\<close>.\<close>

fun as_int :: "'d Value \<Rightarrow> int" where
  "as_int v = (case vval v of VInt i \<Rightarrow> i | _ \<Rightarrow> 0)"

fun as_dec :: "'d float_ops \<Rightarrow> 'd Value \<Rightarrow> 'd" where
  "as_dec F v = (case vval v of VDec d \<Rightarrow> d | _ \<Rightarrow> d_lowest F)"

fun as_timestamp :: "'d Value \<Rightarrow> nat" where
  "as_timestamp v = (case vval v of VTs t \<Rightarrow> t | _ \<Rightarrow> 0)"

definition CheckInteger :: "'d Value \<Rightarrow> bool" where
  "CheckInteger v = (case vtype v of
     TINYINT \<Rightarrow> True | SMALLINT \<Rightarrow> True | INTEGER \<Rightarrow> True | BIGINT \<Rightarrow> True | _ \<Rightarrow> False)"

definition CheckComparable :: "'d Value \<Rightarrow> 'd Value \<Rightarrow> bool" where
  "CheckComparable v o' =
     (let numeric_or_varchar = (case vtype o' of
            TINYINT \<Rightarrow> True | SMALLINT \<Rightarrow> True | INTEGER \<Rightarrow> True | BIGINT \<Rightarrow> True
          | DECIMAL \<Rightarrow> True | VARCHAR \<Rightarrow> True | _ \<Rightarrow> False)
      in case vtype v of
        BOOLEAN \<Rightarrow> vtype o' = BOOLEAN \<or> vtype o' = VARCHAR
      | TINYINT \<Rightarrow> numeric_or_varchar
      | SMALLINT \<Rightarrow> numeric_or_varchar
      | INTEGER \<Rightarrow> numeric_or_varchar
      | BIGINT \<Rightarrow> numeric_or_varchar
      | DECIMAL \<Rightarrow> numeric_or_varchar
      | VARCHAR \<Rightarrow> True
      | _ \<Rightarrow> False)"

text \<open>The asserts at the head of the methods.\<close>

definition assert_comparable :: "'d Value \<Rightarrow> 'd Value \<Rightarrow> 'a result \<Rightarrow> 'a result" where
  "assert_comparable left right m =
     bind_r (guard_r (CheckComparable left right) Assertion_failed) (\<lambda>_. m)"

definition assert_integer :: "'d Value \<Rightarrow> 'a result \<Rightarrow> 'a result" where
  "assert_integer v m = bind_r (guard_r (CheckInteger v) Assertion_failed) (\<lambda>_. m)"

section \<open>Numbers as strings\<close>

definition digit :: "nat \<Rightarrow> char" where
  "digit d = char_of (48 + d)"

fun nat_digits :: "nat \<Rightarrow> string" where
  "nat_digits n = (if n < 10 then [digit n] else nat_digits (n div 10) @ [digit (n mod 10)])"

declare nat_digits.simps [simp del]

text \<open>\<open>std::to_string\<close> of an integer.\<close>

definition to_string_int :: "int \<Rightarrow> string" where
  "to_string_int z = (if z < 0 then CHR ''-'' # nat_digits (nat (- z)) else nat_digits (nat z))"

definition is_space :: "char \<Rightarrow> bool" where
  "is_space c = (of_char c = (32::nat) \<or> 9 \<le> (of_char c :: nat) \<and> of_char c \<le> (13::nat))"

definition is_digit :: "char \<Rightarrow> bool" where
  "is_digit c = (48 \<le> (of_char c :: nat) \<and> of_char c \<le> (57::nat))"

definition digits_value :: "string \<Rightarrow> int" where
  "digits_value ds = foldl (\<lambda>n c. 10 * n + (of_char c - 48)) 0 ds"

text \<open>\<open>strtol\<close>: white space, an optional sign, and the longest run of digits.\<close>

definition parse_int :: "string \<Rightarrow> int option" where
  "parse_int s =
     (let s = dropWhile is_space s;
          neg = (case s of c # _ \<Rightarrow> c = CHR ''-'' | [] \<Rightarrow> False);
          s = (case s of c # cs \<Rightarrow> if c = CHR ''-'' \<or> c = CHR ''+'' then cs else s | [] \<Rightarrow> s);
          ds = takeWhile is_digit s
      in if ds = [] then None else Some (if neg then - digits_value ds else digits_value ds))"

definition stoi_width :: "nat \<Rightarrow> string \<Rightarrow> int result" where
  "stoi_width w s = (case parse_int s of
     None \<Rightarrow> Inl Std_invalid_argument
   | Some z \<Rightarrow> if in_range w z then Inr z else Inl Std_out_of_range)"

definition stoi :: "string \<Rightarrow> int result" where "stoi = stoi_width 32"
definition stoll :: "string \<Rightarrow> int result" where "stoll = stoi_width 64"

text \<open>
  \<open>Value::ToString\<close>. It does not look at NULL: a NULL integer prints as the number that
  stands for NULL, and building a string from the null pointer of a NULL string throws.
\<close>

definition Value_ToString :: "'d float_ops \<Rightarrow> 'd Value \<Rightarrow> string result" where
  "Value_ToString F v =
     (case vtype v of
        BOOLEAN \<Rightarrow> Inr (if as_int v \<noteq> 0 then ''true'' else ''false'')
      | TINYINT \<Rightarrow> Inr (to_string_int (as_int v))
      | SMALLINT \<Rightarrow> Inr (to_string_int (as_int v))
      | INTEGER \<Rightarrow> Inr (to_string_int (as_int v))
      | BIGINT \<Rightarrow> Inr (to_string_int (as_int v))
      | DECIMAL \<Rightarrow> Inr (d_to_string F (as_dec F v))
      | VARCHAR \<Rightarrow> (case vval v of
            VStr s \<Rightarrow> Inr s
          | VNullptr \<Rightarrow> Inl Std_logic_error
          | _ \<Rightarrow> Inl Undefined_behaviour)
      | _ \<Rightarrow> Inl (Throw ExceptionType.INVALID))"

section \<open>Well-formed values\<close>

text \<open>The width of an integer type.\<close>

fun int_width :: "TypeId \<Rightarrow> nat" where
  "int_width BOOLEAN = 8"
| "int_width TINYINT = 8"
| "int_width SMALLINT = 16"
| "int_width INTEGER = 32"
| "int_width BIGINT = 64"
| "int_width _ = 0"

definition is_int_type :: "TypeId \<Rightarrow> bool" where
  "is_int_type T \<longleftrightarrow> T = TINYINT \<or> T = SMALLINT \<or> T = INTEGER \<or> T = BIGINT"

text \<open>The payload fits the type, and the length says NULL exactly when the payload does.\<close>

definition wf_Value :: "'d float_ops \<Rightarrow> 'd Value \<Rightarrow> bool" where
  "wf_Value F v \<longleftrightarrow>
     (case vval v of
        VInt i \<Rightarrow> int_width (vtype v) \<noteq> 0 \<and> in_range (int_width (vtype v)) i \<and>
          vlen v = (if i = int_null (int_width (vtype v)) then BUSTUB_VALUE_NULL else 0)
      | VDec d \<Rightarrow> vtype v = DECIMAL \<and> vlen v = (if d_eq F d (d_lowest F) then BUSTUB_VALUE_NULL else 0)
      | VStr s \<Rightarrow> vtype v = VARCHAR \<and> vlen v = length s \<and> length s < BUSTUB_VALUE_NULL
      | VNullptr \<Rightarrow> vtype v = VARCHAR \<and> vlen v = BUSTUB_VALUE_NULL
      | VTs t \<Rightarrow> vtype v = TIMESTAMP \<and> t < 2 ^ 64 \<and>
          vlen v = (if t = BUSTUB_TIMESTAMP_NULL then BUSTUB_VALUE_NULL else 0)
      | VNone \<Rightarrow> False)"

text \<open>The non-NULL value of an integer type with a given number.\<close>

definition int_value :: "TypeId \<Rightarrow> int \<Rightarrow> 'd Value" where
  "int_value T i = \<lparr>vtype = T, vval = VInt i, vlen = 0\<rparr>"

definition null_int :: "TypeId \<Rightarrow> 'd Value" where
  "null_int T = \<lparr>vtype = T, vval = VInt (int_null (int_width T)), vlen = BUSTUB_VALUE_NULL\<rparr>"

lemma is_int_type_cases:
  assumes "is_int_type T"
  obtains "T = TINYINT" | "T = SMALLINT" | "T = INTEGER" | "T = BIGINT"
  using assms by (auto simp: is_int_type_def)

lemma int_width_pos: "is_int_type T \<Longrightarrow> 0 < int_width T"
  by (erule is_int_type_cases) simp_all

lemma null_not_zero [simp]: "BUSTUB_VALUE_NULL \<noteq> 0" "0 \<noteq> BUSTUB_VALUE_NULL"
  by (simp_all add: BUSTUB_VALUE_NULL_def)

lemma CheckInteger_iff [simp]: "CheckInteger v \<longleftrightarrow> is_int_type (vtype v)"
  by (simp add: CheckInteger_def is_int_type_def split: TypeId.split)

lemma int_null_range: "0 < w \<Longrightarrow> in_range w (int_null w)"
  by (simp add: int_null_def in_range_def)

lemma wf_int_cases:
  assumes "wf_Value F v" and "is_int_type (vtype v)"
  shows "(IsNull v \<and> v = null_int (vtype v)) \<or>
    (\<not> IsNull v \<and> v = int_value (vtype v) (as_int v) \<and> int_min (int_width (vtype v)) \<le> as_int v \<and>
       as_int v \<le> int_max (int_width (vtype v)))"
  using assms
  by (cases v; cases "vval v")
    (auto simp: wf_Value_def IsNull_def null_int_def int_value_def is_int_type_def in_range_def
      int_null_def int_min_def int_max_def split: if_splits)

lemma int_value_simps [simp]:
  "vtype (int_value T i) = T" "vval (int_value T i) = VInt i" "\<not> IsNull (int_value T i)"
  "vtype (null_int T) = T" "IsNull (null_int T)" "vval (null_int T) = VInt (int_null (int_width T))"
  by (simp_all add: int_value_def null_int_def IsNull_def)

text \<open>Storing a number that fits: the value with that number, or NULL for the sentinel.\<close>

lemma store_int_fits:
  "is_int_type T \<Longrightarrow> in_range (int_width T) i \<Longrightarrow>
     store_int T (int_width T) i = (if i = int_null (int_width T) then null_int T else int_value T i)"
  using int_width_pos[of T] by (simp add: store_int_def null_int_def int_value_def)

lemma store_int_wf: "is_int_type T \<Longrightarrow> wf_Value F (store_int T (int_width T) i)"
  using int_width_pos[of T] by (simp add: wf_Value_def store_int_def)

lemma wf_int_value:
  "is_int_type T \<Longrightarrow> int_min (int_width T) \<le> i \<Longrightarrow> i \<le> int_max (int_width T) \<Longrightarrow> wf_Value F (int_value T i)"
  using int_width_pos[of T]
  by (simp add: wf_Value_def int_value_def in_range_def int_min_def int_max_def int_null_def)

lemma wf_null_int: "is_int_type T \<Longrightarrow> wf_Value F (null_int T)"
  using int_width_pos[of T] by (simp add: wf_Value_def null_int_def int_null_range)

section \<open>Reading back a printed number\<close>

lemma of_char_digit [simp]: "d < 10 \<Longrightarrow> of_char (digit d) = (48 + d :: nat)"
  by (simp add: digit_def)

lemma is_digit_digit: "d < 10 \<Longrightarrow> is_digit (digit d)"
  by (simp add: is_digit_def)

lemma of_char_digit_int: "d < 10 \<Longrightarrow> of_char (digit d) = (48 + int d)"
  using of_nat_of_char[of "digit d", where ?'a = int, symmetric] by simp

lemma nat_digits_digits: "c \<in> set (nat_digits n) \<Longrightarrow> is_digit c"
proof (induction n rule: nat_digits.induct)
  case (1 n)
  then show ?case
    by (subst (asm) (2) nat_digits.simps) (auto simp: is_digit_digit split: if_splits)
qed

lemma nat_digits_nonempty: "nat_digits n \<noteq> []"
  by (subst nat_digits.simps) simp

lemma digits_value_snoc: "digits_value (ds @ [c]) = 10 * digits_value ds + (of_char c - 48)"
  by (simp add: digits_value_def)

lemma digits_value_nat_digits: "digits_value (nat_digits n) = int n"
proof (induction n rule: nat_digits.induct)
  case (1 n)
  show ?case
  proof (cases "n < 10")
    case True
    then show ?thesis by (subst nat_digits.simps) (simp add: digits_value_def of_char_digit_int)
  next
    case False
    then have "digits_value (nat_digits n) = 10 * int (n div 10) + int (n mod 10)"
      by (subst nat_digits.simps) (simp add: digits_value_snoc 1 of_char_digit_int)
    also have "\<dots> = int n" by (metis mult_div_mod_eq of_nat_add of_nat_mult of_nat_numeral)
    finally show ?thesis .
  qed
qed

lemma digit_not_space: "is_digit c \<Longrightarrow> \<not> is_space c \<and> c \<noteq> CHR ''-'' \<and> c \<noteq> CHR ''+''"
  by (auto simp: is_digit_def is_space_def)

lemma takeWhile_digits:
  "(\<And>c. c \<in> set ds \<Longrightarrow> is_digit c) \<Longrightarrow> rest = [] \<or> \<not> is_digit (hd rest) \<Longrightarrow> takeWhile is_digit (ds @ rest) = ds"
  by (induction ds) (cases rest, auto)

text \<open>\<open>parse_int\<close> reads back what \<open>to_string_int\<close> printed, whatever non-digit follows.\<close>

lemma parse_int_to_string_int:
  assumes "rest = [] \<or> \<not> is_digit (hd rest)"
  shows "parse_int (to_string_int z @ rest) = Some z"
proof -
  define ds where "ds = nat_digits (nat \<bar>z\<bar>)"
  obtain c cs where ds: "ds = c # cs" using nat_digits_nonempty by (cases ds) (auto simp: ds_def)
  have all: "x \<in> set ds \<Longrightarrow> is_digit x" for x by (auto simp: ds_def intro: nat_digits_digits)
  have c: "\<not> is_space c" "c \<noteq> CHR ''-''" "c \<noteq> CHR ''+''"
    using digit_not_space[of c] all[of c] by (auto simp: ds)
  have tw: "takeWhile is_digit (ds @ rest) = ds" by (rule takeWhile_digits[OF all assms])
  have val: "digits_value ds = \<bar>z\<bar>" by (simp add: ds_def digits_value_nat_digits)
  show ?thesis
  proof (cases "z < 0")
    case True
    then have "to_string_int z @ rest = CHR ''-'' # ds @ rest" by (simp add: to_string_int_def ds_def)
    moreover have "\<not> is_space (CHR ''-'')" by (simp add: is_space_def)
    ultimately show ?thesis using tw val True ds by (simp add: parse_int_def Let_def)
  next
    case False
    then have e: "to_string_int z @ rest = ds @ rest" by (simp add: to_string_int_def ds_def)
    show ?thesis
      unfolding e using c tw val False by (simp add: parse_int_def Let_def ds)
  qed
qed

lemma stoi_to_string:
  "in_range w z \<Longrightarrow> rest = [] \<or> \<not> is_digit (hd rest) \<Longrightarrow> stoi_width w (to_string_int z @ rest) = Inr z"
  by (simp add: stoi_width_def parse_int_to_string_int)

end
