(* ===== verification/Sql_Type.thy ===== *)
theory Sql_Type
  imports Value
begin

text \<open>
  The base class of the SQL types, \<open>src/type/type.cpp\<close> and \<open>include/type/type.h\<close>: the static
  functions, the table \<open>k_types\<close> of singleton instances, and \<open>IsZero\<close> of the classes, which
  the divisions of one class call on values of another.

  The initialiser of \<open>k_types\<close> lists the classes up to \<open>VARCHAR\<close> only, so the entry of
  \<open>TIMESTAMP\<close> is a null pointer and every virtual call through it is undefined behaviour.
\<close>

definition GetTypeSize :: "TypeId \<Rightarrow> nat result" where
  "GetTypeSize T = (case T of
     BOOLEAN \<Rightarrow> Inr 1
   | TINYINT \<Rightarrow> Inr 1
   | SMALLINT \<Rightarrow> Inr 2
   | INTEGER \<Rightarrow> Inr 4
   | BIGINT \<Rightarrow> Inr 8
   | DECIMAL \<Rightarrow> Inr 8
   | TIMESTAMP \<Rightarrow> Inr 8
   | VARCHAR \<Rightarrow> Inr 0
   | _ \<Rightarrow> Inl (Throw UNKNOWN_TYPE))"

definition IsCoercableFrom :: "TypeId \<Rightarrow> TypeId \<Rightarrow> bool" where
  "IsCoercableFrom self T =
     (let numeric = (case T of TINYINT \<Rightarrow> True | SMALLINT \<Rightarrow> True | INTEGER \<Rightarrow> True | BIGINT \<Rightarrow> True
                     | DECIMAL \<Rightarrow> True | VARCHAR \<Rightarrow> True | _ \<Rightarrow> False)
      in case self of
        INVALID \<Rightarrow> False
      | BOOLEAN \<Rightarrow> True
      | TINYINT \<Rightarrow> numeric
      | SMALLINT \<Rightarrow> numeric
      | INTEGER \<Rightarrow> numeric
      | BIGINT \<Rightarrow> numeric
      | DECIMAL \<Rightarrow> numeric
      | TIMESTAMP \<Rightarrow> T = VARCHAR \<or> T = TIMESTAMP
      | VARCHAR \<Rightarrow> T \<noteq> INVALID)"

definition TypeIdToString :: "TypeId \<Rightarrow> string" where
  "TypeIdToString T = (case T of
     INVALID \<Rightarrow> ''INVALID''
   | BOOLEAN \<Rightarrow> ''BOOLEAN''
   | TINYINT \<Rightarrow> ''TINYINT''
   | SMALLINT \<Rightarrow> ''SMALLINT''
   | INTEGER \<Rightarrow> ''INTEGER''
   | BIGINT \<Rightarrow> ''BIGINT''
   | DECIMAL \<Rightarrow> ''DECIMAL''
   | TIMESTAMP \<Rightarrow> ''TIMESTAMP''
   | VARCHAR \<Rightarrow> ''VARCHAR'')"

definition GetMinValue :: "'d float_ops \<Rightarrow> TypeId \<Rightarrow> 'd Value result" where
  "GetMinValue F T = (case T of
     BOOLEAN \<Rightarrow> Value_int32 T 0
   | TINYINT \<Rightarrow> Value_int8 T (int_min 8)
   | SMALLINT \<Rightarrow> Value_int16 T (int_min 16)
   | INTEGER \<Rightarrow> Value_int32 T (int_min 32)
   | BIGINT \<Rightarrow> Value_int64 T (int_min 64)
   | DECIMAL \<Rightarrow> Value_double F T (d_flt_lowest F)
   | TIMESTAMP \<Rightarrow> Value_int32 T 0
   | VARCHAR \<Rightarrow> Value_string T []
   | _ \<Rightarrow> Inl (Throw MISMATCH_TYPE))"

definition GetMaxValue :: "'d float_ops \<Rightarrow> TypeId \<Rightarrow> 'd Value result" where
  "GetMaxValue F T = (case T of
     BOOLEAN \<Rightarrow> Value_int32 T 1
   | TINYINT \<Rightarrow> Value_int8 T (int_max 8)
   | SMALLINT \<Rightarrow> Value_int16 T (int_max 16)
   | INTEGER \<Rightarrow> Value_int32 T (int_max 32)
   | BIGINT \<Rightarrow> Value_int64 T (int_max 64)
   | DECIMAL \<Rightarrow> Value_double F T (d_max F)
   | TIMESTAMP \<Rightarrow> Value_uint64 T BUSTUB_TIMESTAMP_MAX
   | VARCHAR \<Rightarrow> Value_data T None
   | _ \<Rightarrow> Inl (Throw MISMATCH_TYPE))"

text \<open>The methods of the base class, which a class that does not override them inherits.\<close>

definition Type_not_implemented :: "'a result" where
  "Type_not_implemented = Inl (Throw NOT_IMPLEMENTED)"

definition Tinyint_IsZero :: "'d Value \<Rightarrow> bool" where "Tinyint_IsZero v = (as_int v = 0)"
definition Smallint_IsZero :: "'d Value \<Rightarrow> bool" where "Smallint_IsZero v = (as_int v = 0)"
definition Integer_IsZero :: "'d Value \<Rightarrow> bool" where "Integer_IsZero v = (as_int v = 0)"
definition Bigint_IsZero :: "'d Value \<Rightarrow> bool" where "Bigint_IsZero v = (as_int v = 0)"

definition Decimal_IsZero :: "'d float_ops \<Rightarrow> 'd Value \<Rightarrow> bool" where
  "Decimal_IsZero F v = d_eq F (as_dec F v) (d_of_int F 0)"

definition Value_IsZero :: "'d float_ops \<Rightarrow> 'd Value \<Rightarrow> bool result" where
  "Value_IsZero F v = (case vtype v of
     TINYINT \<Rightarrow> Inr (Tinyint_IsZero v)
   | SMALLINT \<Rightarrow> Inr (Smallint_IsZero v)
   | INTEGER \<Rightarrow> Inr (Integer_IsZero v)
   | BIGINT \<Rightarrow> Inr (Bigint_IsZero v)
   | DECIMAL \<Rightarrow> Inr (Decimal_IsZero F v)
   | TIMESTAMP \<Rightarrow> Inl Undefined_behaviour
   | _ \<Rightarrow> Type_not_implemented)"

text \<open>A method throws on a right-hand side that is zero.\<close>

definition assert_nonzero :: "'d float_ops \<Rightarrow> 'd Value \<Rightarrow> 'a result \<Rightarrow> 'a result" where
  "assert_nonzero F right m =
     bind_r (Value_IsZero F right) (\<lambda>zero. if zero then Inl (Throw DIVIDE_BY_ZERO) else m)"

text \<open>
  \<open>OperateNull\<close> of the classes, called through \<open>left.OperateNull(right)\<close> when an operand is
  NULL: the NULL of the type of the result.
\<close>

definition Tinyint_OperateNull :: "'d float_ops \<Rightarrow> 'd Value \<Rightarrow> 'd Value \<Rightarrow> 'd Value result" where
  "Tinyint_OperateNull F left right = (case vtype right of
     TINYINT \<Rightarrow> Value_int8 TINYINT (int_null 8)
   | SMALLINT \<Rightarrow> Value_int16 SMALLINT (int_null 16)
   | INTEGER \<Rightarrow> Value_int32 INTEGER (int_null 32)
   | BIGINT \<Rightarrow> Value_int64 BIGINT (int_null 64)
   | DECIMAL \<Rightarrow> Value_double F DECIMAL (d_lowest F)
   | _ \<Rightarrow> Inl (Throw ExceptionType.INVALID))"

definition Smallint_OperateNull :: "'d float_ops \<Rightarrow> 'd Value \<Rightarrow> 'd Value \<Rightarrow> 'd Value result" where
  "Smallint_OperateNull F left right = (case vtype right of
     TINYINT \<Rightarrow> Value_int16 SMALLINT (int_null 16)
   | SMALLINT \<Rightarrow> Value_int16 SMALLINT (int_null 16)
   | INTEGER \<Rightarrow> Value_int32 INTEGER (int_null 32)
   | BIGINT \<Rightarrow> Value_int64 BIGINT (int_null 64)
   | DECIMAL \<Rightarrow> Value_double F DECIMAL (d_lowest F)
   | _ \<Rightarrow> Inl (Throw ExceptionType.INVALID))"

definition Integer_OperateNull :: "'d float_ops \<Rightarrow> 'd Value \<Rightarrow> 'd Value \<Rightarrow> 'd Value result" where
  "Integer_OperateNull F left right = (case vtype right of
     TINYINT \<Rightarrow> Value_int32 INTEGER (int_null 32)
   | SMALLINT \<Rightarrow> Value_int32 INTEGER (int_null 32)
   | INTEGER \<Rightarrow> Value_int32 INTEGER (int_null 32)
   | BIGINT \<Rightarrow> Value_int64 BIGINT (int_null 64)
   | DECIMAL \<Rightarrow> Value_double F DECIMAL (d_lowest F)
   | _ \<Rightarrow> Inl (Throw ExceptionType.INVALID))"

definition Bigint_OperateNull :: "'d float_ops \<Rightarrow> 'd Value \<Rightarrow> 'd Value \<Rightarrow> 'd Value result" where
  "Bigint_OperateNull F left right = (case vtype right of
     TINYINT \<Rightarrow> Value_int64 BIGINT (int_null 64)
   | SMALLINT \<Rightarrow> Value_int64 BIGINT (int_null 64)
   | INTEGER \<Rightarrow> Value_int64 BIGINT (int_null 64)
   | BIGINT \<Rightarrow> Value_int64 BIGINT (int_null 64)
   | DECIMAL \<Rightarrow> Value_double F DECIMAL (d_lowest F)
   | _ \<Rightarrow> Inl (Throw ExceptionType.INVALID))"

definition Decimal_OperateNull :: "'d float_ops \<Rightarrow> 'd Value \<Rightarrow> 'd Value \<Rightarrow> 'd Value result" where
  "Decimal_OperateNull F left right = Value_double F DECIMAL (d_lowest F)"

definition Value_OperateNull :: "'d float_ops \<Rightarrow> 'd Value \<Rightarrow> 'd Value \<Rightarrow> 'd Value result" where
  "Value_OperateNull F v o' = (case vtype v of
     TINYINT \<Rightarrow> Tinyint_OperateNull F v o'
   | SMALLINT \<Rightarrow> Smallint_OperateNull F v o'
   | INTEGER \<Rightarrow> Integer_OperateNull F v o'
   | BIGINT \<Rightarrow> Bigint_OperateNull F v o'
   | DECIMAL \<Rightarrow> Decimal_OperateNull F v o'
   | TIMESTAMP \<Rightarrow> Inl Undefined_behaviour
   | _ \<Rightarrow> Type_not_implemented)"

lemmas OperateNull_defs = Value_OperateNull_def Tinyint_OperateNull_def Smallint_OperateNull_def
  Integer_OperateNull_def Bigint_OperateNull_def Decimal_OperateNull_def

text \<open>A NULL integer operand gives the NULL of the wider type.\<close>

lemma Value_OperateNull_int:
  assumes T: "is_int_type (vtype v)" and U: "is_int_type (vtype o')"
  shows "Value_OperateNull F v o' =
    Inr (null_int (if int_width (vtype v) \<ge> int_width (vtype o') then vtype v else vtype o'))"
  by (cases rule: is_int_type_cases[OF T]; cases rule: is_int_type_cases[OF U])
    (simp_all add: OperateNull_defs store_int_def null_int_def int_null_range)

end
