(* ===== verification/Varlen_Cast.thy ===== *)
theory Varlen_Cast
  imports Sql_Type
begin

text \<open>
  The part of \<open>src/type/varlen_type.cpp\<close> that other type classes call: the conversions of
  strings to the other types, printing, and serialisation (four bytes of length, then the
  characters). The comparisons of strings, which call the other classes, are in
  \<open>Varlen_Type\<close>.
\<close>

definition Varlen_GetLength :: "'d Value \<Rightarrow> nat" where
  "Varlen_GetLength v = vlen v"

text \<open>The characters that \<open>GetData\<close> points to.\<close>

fun Varlen_GetData :: "'d Value \<Rightarrow> string option" where
  "Varlen_GetData v = (case vval v of VStr s \<Rightarrow> Some s | _ \<Rightarrow> None)"

definition Varlen_Copy :: "'d Value \<Rightarrow> 'd Value" where
  "Varlen_Copy v = v"

definition Varlen_ToString :: "'d Value \<Rightarrow> string result" where
  "Varlen_ToString v =
     (if IsNull v then Inr ''varlen_null''
      else if Varlen_GetLength v = BUSTUB_VARCHAR_MAX_LEN then Inr ''varlen_max''
      else if Varlen_GetLength v = 0 then Inr []
      else case Varlen_GetData v of
        Some s \<Rightarrow> Inr (take (Varlen_GetLength v - 1) s)
      | None \<Rightarrow> Inl Undefined_behaviour)"

definition tolower :: "char \<Rightarrow> char" where
  "tolower c = (if 65 \<le> (of_char c :: nat) \<and> of_char c \<le> (90::nat) then char_of (of_char c + 32 :: nat) else c)"

text \<open>The handler of \<open>std::out_of_range\<close> around the conversions.\<close>

definition rethrow_out_of_range :: "'a result \<Rightarrow> 'a result" where
  "rethrow_out_of_range r =
     (case r of Inl Std_out_of_range \<Rightarrow> Inl (Throw OUT_OF_RANGE) | _ \<Rightarrow> r)"

definition Varlen_CastAs :: "'d float_ops \<Rightarrow> 'd Value \<Rightarrow> TypeId \<Rightarrow> 'd Value result" where
  "Varlen_CastAs F v T = (case T of
     BOOLEAN \<Rightarrow> bind_r (Value_ToString F v) (\<lambda>str.
       let str = map tolower str
       in if str = ''true'' \<or> str = ''1'' \<or> str = ''t'' then Value_int32 T 1
          else if str = ''false'' \<or> str = ''0'' \<or> str = ''f'' then Value_int32 T 0
          else Inl (Throw ExceptionType.INVALID))
   | TINYINT \<Rightarrow> bind_r (Value_ToString F v) (\<lambda>str.
       bind_r (rethrow_out_of_range (stoi str)) (\<lambda>i.
       let tinyint = swrap 8 i
       in if tinyint < int_min 8 then Inl (Throw OUT_OF_RANGE) else Value_int8 T tinyint))
   | SMALLINT \<Rightarrow> bind_r (Value_ToString F v) (\<lambda>str.
       bind_r (rethrow_out_of_range (stoi str)) (\<lambda>i.
       let smallint = swrap 16 i
       in if smallint < int_min 16 then Inl (Throw OUT_OF_RANGE) else Value_int16 T smallint))
   | INTEGER \<Rightarrow> bind_r (Value_ToString F v) (\<lambda>str.
       bind_r (rethrow_out_of_range (stoi str)) (\<lambda>i.
       if i > int_max 32 \<or> i < int_min 32 then Inl (Throw OUT_OF_RANGE) else Value_int32 T i))
   | BIGINT \<Rightarrow> bind_r (Value_ToString F v) (\<lambda>str.
       bind_r (rethrow_out_of_range (stoll str)) (\<lambda>i.
       if i > int_max 64 \<or> i < int_min 64 then Inl (Throw OUT_OF_RANGE) else Value_int64 T i))
   | DECIMAL \<Rightarrow> bind_r (Value_ToString F v) (\<lambda>str.
       bind_r (rethrow_out_of_range (d_of_string F str)) (\<lambda>d.
       if d_lt F (d_max F) d \<or> d_lt F d (d_flt_lowest F) then Inl (Throw OUT_OF_RANGE)
       else Value_double F T d))
   | VARCHAR \<Rightarrow> Inr (Varlen_Copy v)
   | _ \<Rightarrow> Inl (Throw ExceptionType.INVALID))"

definition Varlen_SerializeTo :: "'d Value \<Rightarrow> byte list result" where
  "Varlen_SerializeTo v =
     (let len = Varlen_GetLength v
      in if len = BUSTUB_VALUE_NULL then Inr (put_int 4 (int len))
         else case Varlen_GetData v of
           Some s \<Rightarrow> Inr (put_int 4 (int len) @ map byte_of_char (take len s))
         | None \<Rightarrow> Inl Undefined_behaviour)"

definition Varlen_DeserializeFrom :: "byte list \<Rightarrow> 'd Value result" where
  "Varlen_DeserializeFrom storage =
     (let len = get_uint (get_at 0 4 storage)
      in if len = BUSTUB_VALUE_NULL then Value_data VARCHAR None
         else Value_data VARCHAR (Some (map char_of_byte (get_at 4 len storage))))"

section \<open>Strings that print numbers\<close>

text \<open>A string made from a printed number, with its terminating NUL, converts back.\<close>

lemma not_digit_NUL: "\<not> is_digit NUL"
  by (simp add: is_digit_def NUL_def)

lemma Value_ToString_string:
  "Value_string VARCHAR s = Inr v \<Longrightarrow> Value_ToString F v = Inr (s @ [NUL])"
  by (auto simp: Value_ToString_def)

lemma Varlen_CastAs_number:
  assumes v: "Value_string VARCHAR (to_string_int i) = Inr v" and T: "is_int_type T"
    and r: "int_min (int_width T) \<le> i" "i \<le> int_max (int_width T)"
  shows "Varlen_CastAs F v T = Inr (int_value T i)"
proof -
  note str = Value_ToString_string[OF v, of F]
  have fits: "in_range (int_width T) i" and nn: "i \<noteq> int_null (int_width T)"
    using r int_width_pos[OF T] by (simp_all add: in_range_def int_min_def int_max_def int_null_def)
  have st: "store_int T (int_width T) i = int_value T i" using store_int_fits[OF T fits] nn by simp
  from T show ?thesis
  proof (cases rule: is_int_type_cases)
    case 1
    then have i8: "in_range 8 i" using fits by simp
    then have "in_range 32 i" by (rule in_range_mono) simp
    then have "stoi (to_string_int i @ [NUL]) = Inr i"
      unfolding stoi_def by (intro stoi_to_string) (simp_all add: not_digit_NUL)
    with 1 r str st i8 show ?thesis by (simp add: Varlen_CastAs_def rethrow_out_of_range_def)
  next
    case 2
    then have i16: "in_range 16 i" using fits by simp
    then have "in_range 32 i" by (rule in_range_mono) simp
    then have "stoi (to_string_int i @ [NUL]) = Inr i"
      unfolding stoi_def by (intro stoi_to_string) (simp_all add: not_digit_NUL)
    with 2 r str st i16 show ?thesis by (simp add: Varlen_CastAs_def rethrow_out_of_range_def)
  next
    case 3
    then have "stoi (to_string_int i @ [NUL]) = Inr i"
      unfolding stoi_def using fits by (intro stoi_to_string) (simp_all add: not_digit_NUL)
    with 3 r str st show ?thesis by (simp add: Varlen_CastAs_def rethrow_out_of_range_def)
  next
    case 4
    then have "stoll (to_string_int i @ [NUL]) = Inr i"
      unfolding stoll_def using fits by (intro stoi_to_string) (simp_all add: not_digit_NUL)
    with 4 r str st show ?thesis by (simp add: Varlen_CastAs_def rethrow_out_of_range_def)
  qed
qed

lemma Varlen_roundtrip:
  assumes "wf_Value F v" and "vtype v = VARCHAR"
  shows "\<exists>bs. Varlen_SerializeTo v = Inr bs \<and> Varlen_DeserializeFrom (bs @ rest) = Inr v"
proof (cases "vval v")
  case (VStr s)
  with assms have len: "vlen v = length s" "length s < 2 ^ 32 - 1"
    by (simp_all add: wf_Value_def BUSTUB_VALUE_NULL_def)
  have "get_uint (put_int 4 (int (length s))) = length s"
    using len(2) by (simp add: get_uint_put_int)
  moreover have "map char_of_byte (map byte_of_char s) = s" by (simp add: map_idI)
  moreover have "v = \<lparr>vtype = VARCHAR, vval = VStr s, vlen = length s\<rparr>"
    using assms(2) VStr len by (cases v) simp
  ultimately show ?thesis
    using len VStr
    by (simp add: Varlen_SerializeTo_def Varlen_DeserializeFrom_def Varlen_GetLength_def Let_def
        get_at_def BUSTUB_VALUE_NULL_def comp_def)
next
  case VNullptr
  with assms have len: "vlen v = BUSTUB_VALUE_NULL" by (simp add: wf_Value_def)
  then have "v = \<lparr>vtype = VARCHAR, vval = VNullptr, vlen = BUSTUB_VALUE_NULL\<rparr>"
    using assms(2) VNullptr by (cases v) simp
  then show ?thesis
    using len
    by (simp add: Varlen_SerializeTo_def Varlen_DeserializeFrom_def Varlen_GetLength_def Let_def
        get_at_def BUSTUB_VALUE_NULL_def get_uint_put_int)
qed (use assms in \<open>auto simp: wf_Value_def\<close>)

end
