(* ===== verification/Integer_Parent.thy ===== *)
theory Integer_Parent
  imports Varlen_Cast
begin

text \<open>
  The templates of \<open>include/type/integer_parent_type.h\<close>: checked arithmetic on integers of two
  widths. The C++ expressions \<open>x + y\<close>, \<open>x - y\<close>, \<open>x * y\<close> and \<open>x / y\<close> are computed in the type
  the operands are promoted to (at least \<open>int\<close>). Signed overflow there is undefined behaviour
  in C++ (mode \<open>Strict\<close>); compiled code without optimisation or with \<open>-fwrapv\<close> wraps around
  (mode \<open>Wrap\<close>). The overflow checks of the code come after the computation, so they only
  work in the second mode; both are modelled.
\<close>

datatype overflow = Strict | Wrap

definition promoted :: "nat \<Rightarrow> nat \<Rightarrow> nat" where
  "promoted w1 w2 = max 32 (max w1 w2)"

fun arith :: "overflow \<Rightarrow> nat \<Rightarrow> int \<Rightarrow> int result" where
  "arith Strict w z = (if in_range w z then Inr z else Inl Undefined_behaviour)"
| "arith Wrap w z = Inr (swrap w z)"

text \<open>Division traps on overflow in both modes.\<close>

definition arith_div :: "nat \<Rightarrow> int \<Rightarrow> int result" where
  "arith_div w z = (if in_range w z then Inr z else Inl Undefined_behaviour)"

text \<open>The overload of the constructor that a template argument of \<open>w\<close> bits selects.\<close>

definition Value_width :: "nat \<Rightarrow> TypeId \<Rightarrow> int \<Rightarrow> 'd Value result" where
  "Value_width w T i =
     (if w = 8 then Value_int8 T i else if w = 16 then Value_int16 T i
      else if w = 32 then Value_int32 T i else Value_int64 T i)"

definition AddValue :: "overflow \<Rightarrow> nat \<Rightarrow> nat \<Rightarrow> 'd Value \<Rightarrow> 'd Value \<Rightarrow> 'd Value result" where
  "AddValue ov w1 w2 left right =
     (let x = as_int left; y = as_int right
      in bind_r (arith ov (promoted w1 w2) (x + y)) (\<lambda>s.
      let sum1 = swrap w1 s; sum2 = swrap w2 s
      in if s \<noteq> sum1 \<and> s \<noteq> sum2 then Inl (Throw OUT_OF_RANGE)
         else if w1 \<ge> w2
         then if (x > 0 \<and> y > 0 \<and> sum1 < 0) \<or> (x < 0 \<and> y < 0 \<and> sum1 > 0)
              then Inl (Throw OUT_OF_RANGE) else Value_width w1 (vtype left) sum1
         else if (x > 0 \<and> y > 0 \<and> sum2 < 0) \<or> (x < 0 \<and> y < 0 \<and> sum2 > 0)
              then Inl (Throw OUT_OF_RANGE) else Value_width w2 (vtype right) sum2))"

definition SubtractValue :: "overflow \<Rightarrow> nat \<Rightarrow> nat \<Rightarrow> 'd Value \<Rightarrow> 'd Value \<Rightarrow> 'd Value result" where
  "SubtractValue ov w1 w2 left right =
     (let x = as_int left; y = as_int right
      in bind_r (arith ov (promoted w1 w2) (x - y)) (\<lambda>s.
      let diff1 = swrap w1 s; diff2 = swrap w2 s
      in if s \<noteq> diff1 \<and> s \<noteq> diff2 then Inl (Throw OUT_OF_RANGE)
         else if w1 \<ge> w2
         then if (x > 0 \<and> y < 0 \<and> diff1 < 0) \<or> (x < 0 \<and> y > 0 \<and> diff1 > 0)
              then Inl (Throw OUT_OF_RANGE) else Value_width w1 (vtype left) diff1
         else if (x > 0 \<and> y < 0 \<and> diff2 < 0) \<or> (x < 0 \<and> y > 0 \<and> diff2 > 0)
              then Inl (Throw OUT_OF_RANGE) else Value_width w2 (vtype right) diff2))"

definition MultiplyValue :: "overflow \<Rightarrow> nat \<Rightarrow> nat \<Rightarrow> 'd Value \<Rightarrow> 'd Value \<Rightarrow> 'd Value result" where
  "MultiplyValue ov w1 w2 left right =
     (let x = as_int left; y = as_int right
      in bind_r (arith ov (promoted w1 w2) (x * y)) (\<lambda>p.
      let prod1 = swrap w1 p; prod2 = swrap w2 p
      in if p \<noteq> prod1 \<and> p \<noteq> prod2 then Inl (Throw OUT_OF_RANGE)
         else if w1 \<ge> w2
         then if y = 0 then Value_width w1 (vtype left) prod1
              else bind_r (arith_div (promoted w1 w2) (prod1 sdiv y)) (\<lambda>q.
                if q \<noteq> x then Inl (Throw OUT_OF_RANGE) else Value_width w1 (vtype left) prod1)
         else if y = 0 then Value_width w2 (vtype right) prod2
              else bind_r (arith_div (promoted w1 w2) (prod2 sdiv y)) (\<lambda>q.
                if q \<noteq> x then Inl (Throw OUT_OF_RANGE) else Value_width w2 (vtype right) prod2)))"

definition DivideValue :: "nat \<Rightarrow> nat \<Rightarrow> 'd Value \<Rightarrow> 'd Value \<Rightarrow> 'd Value result" where
  "DivideValue w1 w2 left right =
     (let x = as_int left; y = as_int right
      in if y = 0 then Inl (Throw DIVIDE_BY_ZERO)
         else bind_r (arith_div (promoted w1 w2) (x sdiv y)) (\<lambda>q.
           if w1 \<ge> w2 then Value_width w1 (vtype left) (swrap w1 q)
           else Value_width w2 (vtype right) (swrap w2 q)))"

text \<open>\<open>x % y\<close> is undefined where \<open>x / y\<close> overflows.\<close>

definition ModuloValue :: "nat \<Rightarrow> nat \<Rightarrow> 'd Value \<Rightarrow> 'd Value \<Rightarrow> 'd Value result" where
  "ModuloValue w1 w2 left right =
     (let x = as_int left; y = as_int right
      in if y = 0 then Inl (Throw DIVIDE_BY_ZERO)
         else bind_r (arith_div (promoted w1 w2) (x sdiv y)) (\<lambda>_.
           let r = x smod y
           in if w1 \<ge> w2 then Value_width w1 (vtype left) (swrap w1 r)
              else Value_width w2 (vtype right) (swrap w2 r)))"

text \<open>\<open>NumericType::ValMod\<close>.\<close>

definition ValMod :: "'d float_ops \<Rightarrow> 'd \<Rightarrow> 'd \<Rightarrow> 'd" where
  "ValMod F x y = d_sub F x (d_mul F (d_trunc F (d_div F x y)) y)"

section \<open>What checked arithmetic computes\<close>

text \<open>The wider of two integer types, the left one when they are the same.\<close>

definition wider :: "TypeId \<Rightarrow> TypeId \<Rightarrow> TypeId" where
  "wider T U = (if int_width T \<ge> int_width U then T else U)"

text \<open>A result of a type: NULL for the sentinel, else the number.\<close>

definition result_value :: "TypeId \<Rightarrow> int \<Rightarrow> 'd Value" where
  "result_value T z = (if z = int_null (int_width T) then null_int T else int_value T z)"

lemma Value_width_store: "is_int_type T \<Longrightarrow> Value_width (int_width T) T i = Inr (store_int T (int_width T) i)"
  by (erule is_int_type_cases) (simp_all add: Value_width_def)

lemma Value_width_fits:
  "is_int_type T \<Longrightarrow> in_range (int_width T) i \<Longrightarrow> Value_width (int_width T) T i = Inr (result_value T i)"
  by (simp add: Value_width_store store_int_fits result_value_def)

text \<open>
  The specification of a checked operation with the exact result \<open>z\<close>. Where the promoted
  type is as wide as the result type, an overflow is undefined in the strict mode.
\<close>

definition checked :: "overflow \<Rightarrow> TypeId \<Rightarrow> int \<Rightarrow> 'd Value result" where
  "checked ov T z =
     (if in_range (int_width T) z then Inr (result_value T z)
      else if ov = Strict \<and> \<not> in_range (promoted (int_width T) 0) z then Inl Undefined_behaviour
      else Inl (Throw OUT_OF_RANGE))"

lemma wider_facts:
  assumes "is_int_type T" and "is_int_type U"
  shows "is_int_type (wider T U)" and "int_width (wider T U) = max (int_width T) (int_width U)"
    and "promoted (int_width T) (int_width U) = promoted (int_width (wider T U)) 0"
    and "int_width (wider T U) \<le> promoted (int_width T) (int_width U)"
    and "0 < promoted (int_width T) (int_width U)"
  using assms by (auto simp: wider_def promoted_def)

text \<open>The numbers of the non-NULL values of a type.\<close>

definition number_of :: "TypeId \<Rightarrow> int \<Rightarrow> bool" where
  "number_of T x \<longleftrightarrow> \<bar>x\<bar> < 2 ^ (int_width T - 1)"

lemma number_of_iff: "number_of T x \<longleftrightarrow> int_min (int_width T) \<le> x \<and> x \<le> int_max (int_width T)"
  by (auto simp: number_of_def int_min_def int_max_def)

lemma number_of_mono: "number_of T x \<Longrightarrow> int_width T \<le> int_width U \<Longrightarrow> number_of U x"
proof -
  assume "number_of T x" "int_width T \<le> int_width U"
  moreover from this have "(2::int) ^ (int_width T - 1) \<le> 2 ^ (int_width U - 1)"
    by (intro power_increasing) auto
  ultimately show ?thesis unfolding number_of_def by linarith
qed

lemma number_of_wider:
  "number_of T x \<Longrightarrow> number_of (wider T U) x" "number_of U x \<Longrightarrow> number_of (wider T U) x"
  by (auto simp: wider_def intro: number_of_mono)

lemma number_of_in_range: "number_of T x \<Longrightarrow> in_range (int_width T) x \<and> x \<noteq> int_null (int_width T)"
  by (auto simp: number_of_def in_range_def int_null_def)

text \<open>
  The result type is narrower than the promoted type exactly for 8 and 16 bits, and then sums
  and products cannot overflow the promoted type.
\<close>

lemma sum_fits_promoted:
  assumes T: "is_int_type T" and "number_of T x" "number_of T y"
    and "int_width T < promoted (int_width T) 0"
  shows "in_range (promoted (int_width T) 0) (x + y)"
  using T assms(2-) by (cases rule: is_int_type_cases[OF T])
    (auto simp: number_of_def promoted_def in_range_def)

lemma product_fits_promoted:
  assumes T: "is_int_type T" and x: "number_of T x" and y: "number_of T y"
    and w: "int_width T < promoted (int_width T) 0"
  shows "in_range (promoted (int_width T) 0) (x * y)"
proof -
  have w16: "int_width T \<le> 16" and p: "promoted (int_width T) 0 = 32"
    using T w by (auto simp: promoted_def elim: is_int_type_cases)
  have "(2::int) ^ (int_width T - 1) \<le> 2 ^ 15" using w16 by (intro power_increasing) auto
  then have "\<bar>x\<bar> \<le> 2 ^ 15" "\<bar>y\<bar> \<le> 2 ^ 15" using x y by (auto simp: number_of_def)
  then have "\<bar>x\<bar> * \<bar>y\<bar> \<le> 2 ^ 15 * 2 ^ 15" by (intro mult_mono) auto
  then have "\<bar>x * y\<bar> \<le> 2 ^ 30" by (simp add: abs_mult)
  then show ?thesis unfolding p in_range_def by auto
qed

text \<open>A sum that overflows wraps to the other sign.\<close>

lemma swrap_sum_overflow:
  assumes "0 < w" and "\<bar>x\<bar> < 2 ^ (w - 1)" "\<bar>y\<bar> < 2 ^ (w - 1)" and "\<not> in_range w (x + y)"
  shows "(x > 0 \<and> y > 0 \<and> swrap w (x + y) < 0) \<or> (x < 0 \<and> y < 0 \<and> swrap w (x + y) > 0)"
proof -
  define B :: int where "B = 2 ^ (w - 1)"
  have B: "2 ^ w = B + B" using two_power_split[OF assms(1)] by (simp add: B_def)
  have b: "\<bar>x\<bar> < B" "\<bar>y\<bar> < B" using assms by (simp_all add: B_def)
  have "x + y < - B \<or> B \<le> x + y" using assms(4) by (auto simp: in_range_def B_def)
  then show ?thesis
  proof
    assume hi: "B \<le> x + y"
    have "(x + y + B) mod (B + B) = x + y + B - (B + B)"
      using hi b by (subst mod_pos_geq) (auto simp: mod_pos_pos_trivial)
    then have "swrap w (x + y) = x + y - (B + B)" unfolding swrap_def B B_def[symmetric] by simp
    then show ?thesis using hi b by auto
  next
    assume lo: "x + y < - B"
    have "(x + y + B) mod (B + B) = (x + y + B + (B + B)) mod (B + B)" by (rule mod_add_self2[symmetric])
    also have "\<dots> = x + y + B + (B + B)" using lo b by (intro mod_pos_pos_trivial) auto
    finally have "swrap w (x + y) = x + y + (B + B)" unfolding swrap_def B B_def[symmetric] by simp
    then show ?thesis using lo b by auto
  qed
qed

lemma swrap_swrap [simp]: "0 < w \<Longrightarrow> swrap w (swrap w z) = swrap w z"
  by simp

lemma as_int_int_value: "as_int (int_value T x) = x"
  by simp

lemma AddValue_correct:
  assumes T: "is_int_type T" and U: "is_int_type U" and x: "number_of T x" and y: "number_of U y"
  shows "AddValue ov (int_width T) (int_width U) (int_value T x) (int_value U y) = checked ov (wider T U) (x + y)"
proof -
  let ?p = "promoted (int_width T) (int_width U)" and ?R = "wider T U"
  note wd = wider_facts[OF T U] and xy = number_of_wider(1)[OF x, of U] number_of_wider(2)[OF y, of T]
  have W: "0 < int_width ?R" "0 < int_width T" "0 < int_width U"
    using int_width_pos T U wd(1) by auto
  have pR: "promoted (int_width ?R) 0 = ?p" by (simp add: wd(3))
  define t where "t = (if int_width T \<ge> int_width U then int_width T else int_width U)"
  have t: "t = int_width ?R" by (simp add: t_def wider_def)
  text \<open>The checks of the code in terms of the wider type.\<close>
  have add: "AddValue ov (int_width T) (int_width U) (int_value T x) (int_value U y) =
      bind_r (arith ov ?p (x + y)) (\<lambda>s.
        if s \<noteq> swrap (int_width ?R) s then Inl (Throw OUT_OF_RANGE)
        else if (x > 0 \<and> y > 0 \<and> s < 0) \<or> (x < 0 \<and> y < 0 \<and> s > 0) then Inl (Throw OUT_OF_RANGE)
        else Value_width (int_width ?R) ?R s)"
  proof -
    have n: "s \<noteq> swrap (int_width T) s \<and> s \<noteq> swrap (int_width U) s \<longleftrightarrow> s \<noteq> swrap (int_width ?R) s" for s
      using in_range_mono[of "int_width T" s] in_range_mono[of "int_width U" s] W swrap_eq_iff
      by (metis nat_le_linear wider_def)
    show ?thesis
      unfolding AddValue_def Let_def n
      by (rule arg_cong2[where f = bind_r], simp, rule ext, auto simp: wider_def)
  qed
  show ?thesis
  proof (cases "in_range ?p (x + y)")
    case True
    then have ar: "arith ov ?p (x + y) = Inr (x + y)" using wd(5) by (cases ov) simp_all
    have sign: "\<not> ((x > 0 \<and> y > 0 \<and> x + y < 0) \<or> (x < 0 \<and> y < 0 \<and> x + y > 0))" by linarith
    show ?thesis
    proof (cases "in_range (int_width ?R) (x + y)")
      case fits: True
      then have "swrap (int_width ?R) (x + y) = x + y" using W(1) by simp
      then show ?thesis
        unfolding add ar bind_r.simps checked_def if_P[OF fits] if_not_P[OF sign]
          Value_width_fits[OF wd(1) fits] by simp
    next
      case False
      then have "x + y \<noteq> swrap (int_width ?R) (x + y)" using W(1) in_range_swrap by metis
      then show ?thesis
        unfolding add ar bind_r.simps checked_def if_not_P[OF False] pR using True by simp
    qed
  next
    case False
    then have eq: "int_width ?R = ?p"
      using sum_fits_promoted[OF wd(1) xy] pR wd(4) by (metis le_neq_implies_less)
    then have nr: "\<not> in_range (int_width ?R) (x + y)" using False by simp
    show ?thesis
    proof (cases ov)
      case Strict
      then show ?thesis using False nr unfolding add checked_def pR by simp
    next
      case Wrap
      have "(x > 0 \<and> y > 0 \<and> swrap ?p (x + y) < 0) \<or> (x < 0 \<and> y < 0 \<and> swrap ?p (x + y) > 0)"
        using swrap_sum_overflow[of ?p x y] xy False wd(5) eq by (simp add: number_of_def)
      then show ?thesis using Wrap nr wd(5) unfolding add checked_def pR eq by auto
    qed
  qed
qed

lemma SubtractValue_eq_AddValue:
  "SubtractValue ov (int_width T) (int_width U) (int_value T x) (int_value U y) =
     AddValue ov (int_width T) (int_width U) (int_value T x) (int_value U (- y))"
  unfolding SubtractValue_def AddValue_def Let_def int_value_simps(1) as_int_int_value
    neg_0_less_iff_less neg_less_0_iff_less add_uminus_conv_diff
  by (rule refl)

lemma SubtractValue_correct:
  assumes "is_int_type T" and "is_int_type U" and "number_of T x" and "number_of U y"
  shows "SubtractValue ov (int_width T) (int_width U) (int_value T x) (int_value U y) =
    checked ov (wider T U) (x - y)"
proof -
  have "number_of U (- y)" using assms(4) by (simp add: number_of_def)
  from AddValue_correct[OF assms(1-3) this] show ?thesis
    by (simp add: SubtractValue_eq_AddValue)
qed

text \<open>Truncating division and its remainder.\<close>

lemma abs_sdiv_le: "\<bar>x sdiv y\<bar> \<le> \<bar>x :: int\<bar>"
  using sdiv_int_range[of x y] by auto

lemma sdiv_mult_self: "y \<noteq> 0 \<Longrightarrow> (x * y) sdiv y = (x :: int)"
proof -
  assume "y \<noteq> 0"
  then have "sgn y * sgn y = 1" by (simp add: sgn_if)
  moreover have "(x * y) sdiv y = sgn x * (sgn y * sgn y) * \<bar>x\<bar>"
    using \<open>y \<noteq> 0\<close> by (simp add: signed_divide_int_def sgn_mult abs_mult)
  ultimately show ?thesis by (simp add: sgn_mult_abs)
qed

lemma abs_smod_le: "\<bar>x smod y\<bar> \<le> \<bar>x :: int\<bar>"
proof -
  have "\<bar>x\<bar> mod \<bar>y\<bar> \<le> \<bar>x\<bar>" by (simp add: zmod_le_nonneg_dividend)
  moreover have "0 \<le> \<bar>x\<bar> mod \<bar>y\<bar>" by (cases "y = 0") simp_all
  ultimately show ?thesis by (auto simp: smod_int_alt_def abs_mult sgn_if)
qed

lemma abs_smod_less: "y \<noteq> 0 \<Longrightarrow> \<bar>x smod y\<bar> < \<bar>y :: int\<bar>"
  using smod_int_range[of y x] by auto

text \<open>A product that overflows is not the dividend of a wrapped product by a factor.\<close>

lemma swrap_product_overflow:
  assumes "0 < w" and x: "\<bar>x\<bar> < 2 ^ (w - 1)" and y: "\<bar>y\<bar> < 2 ^ (w - 1)"
    and over: "\<not> in_range w (x * y)"
  defines "q \<equiv> swrap w (x * y) sdiv y"
  shows "y \<noteq> 0" and "in_range w q" and "q \<noteq> x"
proof -
  let ?s = "swrap w (x * y)"
  show y0: "y \<noteq> 0" using over by (auto simp: in_range_def)
  have y1: "\<bar>y\<bar> \<noteq> 1"
  proof
    assume "\<bar>y\<bar> = 1"
    then have "\<bar>x * y\<bar> < 2 ^ (w - 1)" using x by (simp add: abs_mult)
    then show False using over by (simp add: in_range_def) linarith
  qed
  have s: "\<bar>?s\<bar> \<le> 2 ^ (w - 1)" using in_range_swrap[OF assms(1), of "x * y"] by (auto simp: in_range_def)
  have "\<bar>q\<bar> = \<bar>?s\<bar> div \<bar>y\<bar>"
  proof -
    have "0 \<le> \<bar>?s\<bar> div \<bar>y\<bar>" using y0 by (simp add: pos_imp_zdiv_nonneg_iff)
    then show ?thesis using y0 unfolding q_def signed_divide_int_def by (cases "?s = 0") (auto simp: abs_mult sgn_if)
  qed
  also have "\<dots> \<le> \<bar>?s\<bar> div 2" using y0 y1 by (intro zdiv_mono2) auto
  finally have "2 * \<bar>q\<bar> \<le> 2 ^ (w - 1)" using s by linarith
  then show "in_range w q" using zero_less_power[of "2::int" "w - 1"] unfolding in_range_def by linarith
  show "q \<noteq> x"
  proof
    assume "q = x"
    then have small: "\<bar>?s - x * y\<bar> < \<bar>y\<bar>"
      using abs_smod_less[OF y0, of ?s] by (simp add: q_def flip: minus_sdiv_mult_eq_smod)
    obtain k where k: "?s = x * y + k * 2 ^ w" using swrap_cong by blast
    have "k \<noteq> 0"
    proof
      assume "k = 0"
      then have "?s = x * y" using k by simp
      then show False using over in_range_swrap[OF assms(1), of "x * y"] by simp
    qed
    then have "2 ^ w \<le> \<bar>k * 2 ^ w :: int\<bar>" by (simp add: abs_mult)
    also have "\<dots> < \<bar>y\<bar>" using small k by simp
    also have "\<dots> < 2 ^ (w - 1)" by (rule y)
    finally show False using two_power_split[OF assms(1)] zero_less_power[of "2::int" "w - 1"] by simp
  qed
qed

lemma MultiplyValue_correct:
  assumes T: "is_int_type T" and U: "is_int_type U" and x: "number_of T x" and y: "number_of U y"
  shows "MultiplyValue ov (int_width T) (int_width U) (int_value T x) (int_value U y) =
    checked ov (wider T U) (x * y)"
proof -
  let ?p = "promoted (int_width T) (int_width U)" and ?R = "wider T U"
  note wd = wider_facts[OF T U] and xy = number_of_wider(1)[OF x, of U] number_of_wider(2)[OF y, of T]
  have W: "0 < int_width ?R" "0 < int_width T" "0 < int_width U"
    using int_width_pos T U wd(1) by auto
  have pR: "promoted (int_width ?R) 0 = ?p" by (simp add: wd(3))
  have mul: "MultiplyValue ov (int_width T) (int_width U) (int_value T x) (int_value U y) =
      bind_r (arith ov ?p (x * y)) (\<lambda>s.
        if s \<noteq> swrap (int_width ?R) s then Inl (Throw OUT_OF_RANGE)
        else if y = 0 then Value_width (int_width ?R) ?R s
        else bind_r (arith_div ?p (s sdiv y)) (\<lambda>q.
          if q \<noteq> x then Inl (Throw OUT_OF_RANGE) else Value_width (int_width ?R) ?R s))"
  proof -
    have n: "s \<noteq> swrap (int_width T) s \<and> s \<noteq> swrap (int_width U) s \<longleftrightarrow> s \<noteq> swrap (int_width ?R) s" for s
      using in_range_mono[of "int_width T" s] in_range_mono[of "int_width U" s] W swrap_eq_iff
      by (metis nat_le_linear wider_def)
    show ?thesis
      unfolding MultiplyValue_def Let_def n int_value_simps(1) as_int_int_value
    proof (rule arg_cong2[where f = bind_r, OF refl], rule ext, goal_cases)
      case (1 p)
      show ?case
        by (cases "swrap (int_width ?R) p = p"; cases "int_width T \<ge> int_width U") (simp_all add: wider_def cong: if_cong)
    qed
  qed
  show ?thesis
  proof (cases "in_range ?p (x * y)")
    case True
    then have ar: "arith ov ?p (x * y) = Inr (x * y)" using wd(5) by (cases ov) simp_all
    show ?thesis
    proof (cases "in_range (int_width ?R) (x * y)")
      case fits: True
      have "in_range ?p x" using number_of_in_range[OF xy(1)] wd(4) in_range_mono by blast
      then have dv: "y \<noteq> 0 \<Longrightarrow> arith_div ?p ((x * y) sdiv y) = Inr x"
        by (simp add: arith_div_def sdiv_mult_self)
      have "swrap (int_width ?R) (x * y) = x * y" using fits W(1) by simp
      then show ?thesis
        unfolding mul ar bind_r.simps checked_def if_P[OF fits] Value_width_fits[OF wd(1) fits]
        using dv by (cases "y = 0") simp_all
    next
      case False
      then have "x * y \<noteq> swrap (int_width ?R) (x * y)" using W(1) in_range_swrap by metis
      then show ?thesis
        unfolding mul ar bind_r.simps checked_def if_not_P[OF False] pR using True by simp
    qed
  next
    case False
    then have eq: "int_width ?R = ?p"
      using product_fits_promoted[OF wd(1) xy] pR wd(4) by (metis le_neq_implies_less)
    then have nr: "\<not> in_range (int_width ?R) (x * y)" using False by simp
    show ?thesis
    proof (cases ov)
      case Strict
      then show ?thesis using False nr unfolding mul checked_def pR by simp
    next
      case Wrap
      have "\<bar>x\<bar> < 2 ^ (?p - 1)" "\<bar>y\<bar> < 2 ^ (?p - 1)" using xy eq by (simp_all add: number_of_def)
      note ov' = swrap_product_overflow[OF wd(5) this False]
      then show ?thesis
        using Wrap nr wd(5) unfolding mul checked_def pR eq by (simp add: arith_div_def)
    qed
  qed
qed

text \<open>The result of a division fits the wider type.\<close>

lemma Value_width_quotient:
  assumes T: "is_int_type T" and U: "is_int_type U" and x: "number_of T x" and z: "\<bar>z\<bar> \<le> \<bar>x\<bar>"
  shows "(if int_width T \<ge> int_width U then Value_width (int_width T) T (swrap (int_width T) z)
          else Value_width (int_width U) U (swrap (int_width U) z)) = Inr (int_value (wider T U) z)"
proof -
  note R = wider_facts(1)[OF T U]
  have "number_of (wider T U) z" using z number_of_wider(1)[OF x, of U] by (simp add: number_of_def)
  from number_of_in_range[OF this]
  have "Value_width (int_width (wider T U)) (wider T U) (swrap (int_width (wider T U)) z) =
      Inr (int_value (wider T U) z)"
    using Value_width_fits[OF R, of z] int_width_pos[OF R] by (simp add: result_value_def)
  then show ?thesis by (simp add: wider_def split: if_splits)
qed

lemma DivideValue_correct:
  assumes T: "is_int_type T" and U: "is_int_type U" and x: "number_of T x" and y: "number_of U y"
  shows "DivideValue (int_width T) (int_width U) (int_value T x) (int_value U y) =
    (if y = 0 then Inl (Throw DIVIDE_BY_ZERO) else Inr (int_value (wider T U) (x sdiv y)))"
    and "ModuloValue (int_width T) (int_width U) (int_value T x) (int_value U y) =
    (if y = 0 then Inl (Throw DIVIDE_BY_ZERO) else Inr (int_value (wider T U) (x smod y)))"
proof -
  let ?p = "promoted (int_width T) (int_width U)" and ?R = "wider T U"
  note wd = wider_facts[OF T U]
  have "number_of ?R (x sdiv y)"
    using abs_sdiv_le[of x y] number_of_wider(1)[OF x, of U] by (simp add: number_of_def)
  then have "in_range ?p (x sdiv y)" using number_of_in_range wd(4) in_range_mono by blast
  then have ad: "arith_div ?p (x sdiv y) = Inr (x sdiv y)" by (simp add: arith_div_def)
  show "DivideValue (int_width T) (int_width U) (int_value T x) (int_value U y) =
    (if y = 0 then Inl (Throw DIVIDE_BY_ZERO) else Inr (int_value ?R (x sdiv y)))"
    unfolding DivideValue_def Let_def int_value_simps(1) as_int_int_value ad bind_r.simps
    unfolding Value_width_quotient[OF T U x abs_sdiv_le] by (rule refl)
  show "ModuloValue (int_width T) (int_width U) (int_value T x) (int_value U y) =
    (if y = 0 then Inl (Throw DIVIDE_BY_ZERO) else Inr (int_value ?R (x smod y)))"
    unfolding ModuloValue_def Let_def int_value_simps(1) as_int_int_value ad bind_r.simps
    unfolding Value_width_quotient[OF T U x abs_smod_le] by (rule refl)
qed

end
