(* ===== verification/Smallint_Type.thy ===== *)
theory Smallint_Type
  imports Integer_Parent
begin

text \<open>
  \<open>src/type/smallint_type.cpp\<close>: the methods of \<open>SmallintType\<close>. Each method begins with the
  asserts of the source, then treats NULL, then dispatches on the type of the right-hand side.
\<close>

definition Smallint_compare_func :: "'d float_ops \<Rightarrow> cmp_op \<Rightarrow> 'd Value \<Rightarrow> 'd Value \<Rightarrow> CmpBool result" where
  "Smallint_compare_func F OP left right = (case vtype right of
     TINYINT \<Rightarrow> Inr (GetCmpBool (int_cmp OP (as_int left) (as_int right)))
   | SMALLINT \<Rightarrow> Inr (GetCmpBool (int_cmp OP (as_int left) (as_int right)))
   | INTEGER \<Rightarrow> Inr (GetCmpBool (int_cmp OP (as_int left) (as_int right)))
   | BIGINT \<Rightarrow> Inr (GetCmpBool (int_cmp OP (as_int left) (as_int right)))
   | DECIMAL \<Rightarrow> Inr (GetCmpBool (dec_cmp F OP (d_of_int F (as_int left)) (as_dec F right)))
   | VARCHAR \<Rightarrow> bind_r (Varlen_CastAs F right SMALLINT) (\<lambda>r_value.
       Inr (GetCmpBool (int_cmp OP (as_int left) (as_int r_value))))
   | _ \<Rightarrow> Inl (Throw ExceptionType.INVALID))"

definition Smallint_modify_func ::
  "(nat \<Rightarrow> nat \<Rightarrow> 'd Value \<Rightarrow> 'd Value \<Rightarrow> 'd Value result) \<Rightarrow> ('d \<Rightarrow> 'd \<Rightarrow> 'd) \<Rightarrow> 'd float_ops \<Rightarrow> 'd Value \<Rightarrow> 'd Value \<Rightarrow> 'd Value result" where
  "Smallint_modify_func METHOD OP F left right = (case vtype right of
     TINYINT \<Rightarrow> METHOD 16 8 left right
   | SMALLINT \<Rightarrow> METHOD 16 16 left right
   | INTEGER \<Rightarrow> METHOD 16 32 left right
   | BIGINT \<Rightarrow> METHOD 16 64 left right
   | DECIMAL \<Rightarrow> Value_double F DECIMAL (OP (d_of_int F (as_int left)) (as_dec F right))
   | VARCHAR \<Rightarrow> bind_r (Varlen_CastAs F right SMALLINT) (METHOD 16 16 left)
   | _ \<Rightarrow> Inl (Throw ExceptionType.INVALID))"

definition Smallint_Add :: "overflow \<Rightarrow> 'd float_ops \<Rightarrow> 'd Value \<Rightarrow> 'd Value \<Rightarrow> 'd Value result" where
  "Smallint_Add ov F left right = assert_integer left (assert_comparable left right (
     if IsNull left \<or> IsNull right then Value_OperateNull F left right
     else Smallint_modify_func (AddValue ov) (d_add F) F left right))"

definition Smallint_Subtract :: "overflow \<Rightarrow> 'd float_ops \<Rightarrow> 'd Value \<Rightarrow> 'd Value \<Rightarrow> 'd Value result" where
  "Smallint_Subtract ov F left right = assert_integer left (assert_comparable left right (
     if IsNull left \<or> IsNull right then Value_OperateNull F left right
     else Smallint_modify_func (SubtractValue ov) (d_sub F) F left right))"

definition Smallint_Multiply :: "overflow \<Rightarrow> 'd float_ops \<Rightarrow> 'd Value \<Rightarrow> 'd Value \<Rightarrow> 'd Value result" where
  "Smallint_Multiply ov F left right = assert_integer left (assert_comparable left right (
     if IsNull left \<or> IsNull right then Value_OperateNull F left right
     else Smallint_modify_func (MultiplyValue ov) (d_mul F) F left right))"

definition Smallint_Divide :: "'d float_ops \<Rightarrow> 'd Value \<Rightarrow> 'd Value \<Rightarrow> 'd Value result" where
  "Smallint_Divide F left right = assert_integer left (assert_comparable left right (
     if IsNull left \<or> IsNull right then Value_OperateNull F left right
     else assert_nonzero F right (Smallint_modify_func DivideValue (d_div F) F left right)))"

definition Smallint_Modulo :: "'d float_ops \<Rightarrow> 'd Value \<Rightarrow> 'd Value \<Rightarrow> 'd Value result" where
  "Smallint_Modulo F left right = assert_integer left (assert_comparable left right (
     if IsNull left \<or> IsNull right then Value_OperateNull F left right
     else assert_nonzero F right (Smallint_modify_func ModuloValue (ValMod F) F left right)))"

definition Smallint_Sqrt :: "'d float_ops \<Rightarrow> 'd Value \<Rightarrow> 'd Value result" where
  "Smallint_Sqrt F val = assert_integer val (
     if IsNull val then Value_double F DECIMAL (d_lowest F)
     else if as_int val < 0 then Inl (Throw ExceptionType.DECIMAL)
     else Value_double F DECIMAL (d_sqrt F (d_of_int F (as_int val))))"

definition Smallint_CompareEquals :: "'d float_ops \<Rightarrow> 'd Value \<Rightarrow> 'd Value \<Rightarrow> CmpBool result" where
  "Smallint_CompareEquals F left right = assert_integer left (assert_comparable left right (
     if IsNull left \<or> IsNull right then Inr CmpNull
     else Smallint_compare_func F OpEq left right))"

definition Smallint_CompareNotEquals :: "'d float_ops \<Rightarrow> 'd Value \<Rightarrow> 'd Value \<Rightarrow> CmpBool result" where
  "Smallint_CompareNotEquals F left right = assert_integer left (assert_comparable left right (
     if IsNull left \<or> IsNull right then Inr CmpNull
     else Smallint_compare_func F OpNe left right))"

definition Smallint_CompareLessThan :: "'d float_ops \<Rightarrow> 'd Value \<Rightarrow> 'd Value \<Rightarrow> CmpBool result" where
  "Smallint_CompareLessThan F left right = assert_integer left (assert_comparable left right (
     if IsNull left \<or> IsNull right then Inr CmpNull
     else Smallint_compare_func F OpLt left right))"

definition Smallint_CompareLessThanEquals :: "'d float_ops \<Rightarrow> 'd Value \<Rightarrow> 'd Value \<Rightarrow> CmpBool result" where
  "Smallint_CompareLessThanEquals F left right = assert_integer left (assert_comparable left right (
     if IsNull left \<or> IsNull right then Inr CmpNull
     else Smallint_compare_func F OpLe left right))"

definition Smallint_CompareGreaterThan :: "'d float_ops \<Rightarrow> 'd Value \<Rightarrow> 'd Value \<Rightarrow> CmpBool result" where
  "Smallint_CompareGreaterThan F left right = assert_integer left (assert_comparable left right (
     if IsNull left \<or> IsNull right then Inr CmpNull
     else Smallint_compare_func F OpGt left right))"

definition Smallint_CompareGreaterThanEquals :: "'d float_ops \<Rightarrow> 'd Value \<Rightarrow> 'd Value \<Rightarrow> CmpBool result" where
  "Smallint_CompareGreaterThanEquals F left right = assert_integer left (assert_comparable left right (
     if IsNull left \<or> IsNull right then Inr CmpNull
     else Smallint_compare_func F OpGe left right))"

definition Smallint_ToString :: "'d Value \<Rightarrow> string result" where
  "Smallint_ToString val = assert_integer val (case vtype val of
     TINYINT \<Rightarrow> if IsNull val then Inr ''tinyint_null'' else Inr (to_string_int (as_int val))
   | SMALLINT \<Rightarrow> if IsNull val then Inr ''smallint_null'' else Inr (to_string_int (as_int val))
   | INTEGER \<Rightarrow> if IsNull val then Inr ''integer_null'' else Inr (to_string_int (as_int val))
   | BIGINT \<Rightarrow> if IsNull val then Inr ''bigint_null'' else Inr (to_string_int (as_int val))
   | _ \<Rightarrow> Inl (Throw ExceptionType.INVALID))"

definition Smallint_SerializeTo :: "'d Value \<Rightarrow> byte list" where
  "Smallint_SerializeTo val = put_int 2 (as_int val)"

definition Smallint_DeserializeFrom :: "byte list \<Rightarrow> 'd Value result" where
  "Smallint_DeserializeFrom storage = Value_int16 SMALLINT (get_int (get_at 0 2 storage))"

definition Smallint_Copy :: "'d Value \<Rightarrow> 'd Value result" where
  "Smallint_Copy val = assert_integer val (Value_int16 SMALLINT (as_int val))"

definition Smallint_CastAs :: "'d float_ops \<Rightarrow> 'd Value \<Rightarrow> TypeId \<Rightarrow> 'd Value result" where
  "Smallint_CastAs F val T = (case T of
     TINYINT \<Rightarrow> if IsNull val then Value_int8 T (int_null 8)
       else if as_int val > int_max 8 \<or> as_int val < int_min 8 then Inl (Throw OUT_OF_RANGE)
       else Value_int8 T (swrap 8 (as_int val))
   | SMALLINT \<Rightarrow> if IsNull val then Value_int16 T (int_null 16) else Smallint_Copy val
   | INTEGER \<Rightarrow> if IsNull val then Value_int32 T (int_null 32) else Value_int32 T (swrap 32 (as_int val))
   | BIGINT \<Rightarrow> if IsNull val then Value_int64 T (int_null 64) else Value_int64 T (swrap 64 (as_int val))
   | DECIMAL \<Rightarrow> if IsNull val then Value_double F T (d_lowest F) else Value_double F T (d_of_int F (as_int val))
   | VARCHAR \<Rightarrow> if IsNull val then Value_data VARCHAR None
       else bind_r (Value_ToString F val) (Value_string VARCHAR)
   | _ \<Rightarrow> Inl (Throw ExceptionType.INVALID))"

section \<open>The methods on numbers\<close>

lemma Smallint_modify_numbers:
  assumes U: "is_int_type U"
  shows "Smallint_modify_func METHOD OP F (int_value SMALLINT x) (int_value U y) =
    METHOD (int_width SMALLINT) (int_width U) (int_value SMALLINT x) (int_value U y)"
  by (cases rule: is_int_type_cases[OF U]) (simp_all add: Smallint_modify_func_def)

lemma Smallint_compare_numbers:
  assumes U: "is_int_type U"
  shows "Smallint_compare_func F OP (int_value SMALLINT x) (int_value U y) = Inr (GetCmpBool (int_cmp OP x y))"
  by (cases rule: is_int_type_cases[OF U]) (simp_all add: Smallint_compare_func_def)


end
