(* ===== verification/Bigint_Type.thy ===== *)
theory Bigint_Type
  imports Integer_Parent
begin

text \<open>
  \<open>src/type/bigint_type.cpp\<close>: the methods of \<open>BigintType\<close>. Each method begins with the
  asserts of the source, then treats NULL, then dispatches on the type of the right-hand side.
\<close>

definition Bigint_compare_func :: "'d float_ops \<Rightarrow> cmp_op \<Rightarrow> 'd Value \<Rightarrow> 'd Value \<Rightarrow> CmpBool result" where
  "Bigint_compare_func F OP left right = (case vtype right of
     TINYINT \<Rightarrow> Inr (GetCmpBool (int_cmp OP (as_int left) (as_int right)))
   | SMALLINT \<Rightarrow> Inr (GetCmpBool (int_cmp OP (as_int left) (as_int right)))
   | INTEGER \<Rightarrow> Inr (GetCmpBool (int_cmp OP (as_int left) (as_int right)))
   | BIGINT \<Rightarrow> Inr (GetCmpBool (int_cmp OP (as_int left) (as_int right)))
   | DECIMAL \<Rightarrow> Inr (GetCmpBool (dec_cmp F OP (d_of_int F (as_int left)) (as_dec F right)))
   | VARCHAR \<Rightarrow> bind_r (Varlen_CastAs F right BIGINT) (\<lambda>r_value.
       Inr (GetCmpBool (int_cmp OP (as_int left) (as_int r_value))))
   | _ \<Rightarrow> Inl (Throw ExceptionType.INVALID))"

definition Bigint_modify_func ::
  "(nat \<Rightarrow> nat \<Rightarrow> 'd Value \<Rightarrow> 'd Value \<Rightarrow> 'd Value result) \<Rightarrow> ('d \<Rightarrow> 'd \<Rightarrow> 'd) \<Rightarrow> 'd float_ops \<Rightarrow> 'd Value \<Rightarrow> 'd Value \<Rightarrow> 'd Value result" where
  "Bigint_modify_func METHOD OP F left right = (case vtype right of
     TINYINT \<Rightarrow> METHOD 64 8 left right
   | SMALLINT \<Rightarrow> METHOD 64 16 left right
   | INTEGER \<Rightarrow> METHOD 64 32 left right
   | BIGINT \<Rightarrow> METHOD 64 64 left right
   | DECIMAL \<Rightarrow> Value_double F DECIMAL (OP (d_of_int F (as_int left)) (as_dec F right))
   | VARCHAR \<Rightarrow> bind_r (Varlen_CastAs F right BIGINT) (METHOD 64 64 left)
   | _ \<Rightarrow> Inl (Throw ExceptionType.INVALID))"

definition Bigint_Add :: "overflow \<Rightarrow> 'd float_ops \<Rightarrow> 'd Value \<Rightarrow> 'd Value \<Rightarrow> 'd Value result" where
  "Bigint_Add ov F left right = assert_integer left (assert_comparable left right (
     if IsNull left \<or> IsNull right then Value_OperateNull F left right
     else Bigint_modify_func (AddValue ov) (d_add F) F left right))"

definition Bigint_Subtract :: "overflow \<Rightarrow> 'd float_ops \<Rightarrow> 'd Value \<Rightarrow> 'd Value \<Rightarrow> 'd Value result" where
  "Bigint_Subtract ov F left right = assert_integer left (assert_comparable left right (
     if IsNull left \<or> IsNull right then Value_OperateNull F left right
     else Bigint_modify_func (SubtractValue ov) (d_sub F) F left right))"

definition Bigint_Multiply :: "overflow \<Rightarrow> 'd float_ops \<Rightarrow> 'd Value \<Rightarrow> 'd Value \<Rightarrow> 'd Value result" where
  "Bigint_Multiply ov F left right = assert_integer left (assert_comparable left right (
     if IsNull left \<or> IsNull right then Value_OperateNull F left right
     else Bigint_modify_func (MultiplyValue ov) (d_mul F) F left right))"

definition Bigint_Divide :: "'d float_ops \<Rightarrow> 'd Value \<Rightarrow> 'd Value \<Rightarrow> 'd Value result" where
  "Bigint_Divide F left right = assert_integer left (assert_comparable left right (
     if IsNull left \<or> IsNull right then Value_OperateNull F left right
     else assert_nonzero F right (Bigint_modify_func DivideValue (d_div F) F left right)))"

definition Bigint_Modulo :: "'d float_ops \<Rightarrow> 'd Value \<Rightarrow> 'd Value \<Rightarrow> 'd Value result" where
  "Bigint_Modulo F left right = assert_integer left (assert_comparable left right (
     if IsNull left \<or> IsNull right then Value_OperateNull F left right
     else assert_nonzero F right (Bigint_modify_func ModuloValue (ValMod F) F left right)))"

definition Bigint_Sqrt :: "'d float_ops \<Rightarrow> 'd Value \<Rightarrow> 'd Value result" where
  "Bigint_Sqrt F val = assert_integer val (
     if IsNull val then Value_double F DECIMAL (d_lowest F)
     else if as_int val < 0 then Inl (Throw ExceptionType.DECIMAL)
     else Value_double F DECIMAL (d_sqrt F (d_of_int F (as_int val))))"

definition Bigint_CompareEquals :: "'d float_ops \<Rightarrow> 'd Value \<Rightarrow> 'd Value \<Rightarrow> CmpBool result" where
  "Bigint_CompareEquals F left right = assert_integer left (assert_comparable left right (
     if IsNull left \<or> IsNull right then Inr CmpNull
     else Bigint_compare_func F OpEq left right))"

definition Bigint_CompareNotEquals :: "'d float_ops \<Rightarrow> 'd Value \<Rightarrow> 'd Value \<Rightarrow> CmpBool result" where
  "Bigint_CompareNotEquals F left right = assert_integer left (assert_comparable left right (
     if IsNull left \<or> IsNull right then Inr CmpNull
     else Bigint_compare_func F OpNe left right))"

definition Bigint_CompareLessThan :: "'d float_ops \<Rightarrow> 'd Value \<Rightarrow> 'd Value \<Rightarrow> CmpBool result" where
  "Bigint_CompareLessThan F left right = assert_integer left (assert_comparable left right (
     if IsNull left \<or> IsNull right then Inr CmpNull
     else Bigint_compare_func F OpLt left right))"

definition Bigint_CompareLessThanEquals :: "'d float_ops \<Rightarrow> 'd Value \<Rightarrow> 'd Value \<Rightarrow> CmpBool result" where
  "Bigint_CompareLessThanEquals F left right = assert_integer left (assert_comparable left right (
     if IsNull left \<or> IsNull right then Inr CmpNull
     else Bigint_compare_func F OpLe left right))"

definition Bigint_CompareGreaterThan :: "'d float_ops \<Rightarrow> 'd Value \<Rightarrow> 'd Value \<Rightarrow> CmpBool result" where
  "Bigint_CompareGreaterThan F left right = assert_integer left (assert_comparable left right (
     if IsNull left \<or> IsNull right then Inr CmpNull
     else Bigint_compare_func F OpGt left right))"

definition Bigint_CompareGreaterThanEquals :: "'d float_ops \<Rightarrow> 'd Value \<Rightarrow> 'd Value \<Rightarrow> CmpBool result" where
  "Bigint_CompareGreaterThanEquals F left right = assert_integer left (assert_comparable left right (
     if IsNull left \<or> IsNull right then Inr CmpNull
     else Bigint_compare_func F OpGe left right))"

definition Bigint_ToString :: "'d Value \<Rightarrow> string result" where
  "Bigint_ToString val = assert_integer val (
     if IsNull val then Inr ''bigint_null'' else Inr (to_string_int (as_int val)))"

definition Bigint_SerializeTo :: "'d Value \<Rightarrow> byte list" where
  "Bigint_SerializeTo val = put_int 8 (as_int val)"

definition Bigint_DeserializeFrom :: "byte list \<Rightarrow> 'd Value result" where
  "Bigint_DeserializeFrom storage = Value_int64 BIGINT (get_int (get_at 0 8 storage))"

definition Bigint_Copy :: "'d Value \<Rightarrow> 'd Value result" where
  "Bigint_Copy val = Value_int64 BIGINT (as_int val)"

definition Bigint_CastAs :: "'d float_ops \<Rightarrow> 'd Value \<Rightarrow> TypeId \<Rightarrow> 'd Value result" where
  "Bigint_CastAs F val T = (case T of
     TINYINT \<Rightarrow> if IsNull val then Value_int8 T (int_null 8)
       else if as_int val > int_max 8 \<or> as_int val < int_min 8 then Inl (Throw OUT_OF_RANGE)
       else Value_int8 T (swrap 8 (as_int val))
   | SMALLINT \<Rightarrow> if IsNull val then Value_int16 T (int_null 16)
       else if as_int val > int_max 16 \<or> as_int val < int_min 16 then Inl (Throw OUT_OF_RANGE)
       else Value_int16 T (swrap 16 (as_int val))
   | INTEGER \<Rightarrow> if IsNull val then Value_int32 T (int_null 32)
       else if as_int val > int_max 32 \<or> as_int val < int_min 32 then Inl (Throw OUT_OF_RANGE)
       else Value_int32 T (swrap 32 (as_int val))
   | BIGINT \<Rightarrow> if IsNull val then Value_int64 T (int_null 64) else Bigint_Copy val
   | DECIMAL \<Rightarrow> if IsNull val then Value_double F T (d_lowest F) else Value_double F T (d_of_int F (as_int val))
   | VARCHAR \<Rightarrow> if IsNull val then Value_data VARCHAR None
       else bind_r (Value_ToString F val) (Value_string VARCHAR)
   | _ \<Rightarrow> Inl (Throw ExceptionType.INVALID))"

section \<open>The methods on numbers\<close>

lemma Bigint_modify_numbers:
  assumes U: "is_int_type U"
  shows "Bigint_modify_func METHOD OP F (int_value BIGINT x) (int_value U y) =
    METHOD (int_width BIGINT) (int_width U) (int_value BIGINT x) (int_value U y)"
  by (cases rule: is_int_type_cases[OF U]) (simp_all add: Bigint_modify_func_def)

lemma Bigint_compare_numbers:
  assumes U: "is_int_type U"
  shows "Bigint_compare_func F OP (int_value BIGINT x) (int_value U y) = Inr (GetCmpBool (int_cmp OP x y))"
  by (cases rule: is_int_type_cases[OF U]) (simp_all add: Bigint_compare_func_def)


end
