(* ===== verification/Decimal_Type.thy ===== *)
theory Decimal_Type
  imports Integer_Parent
begin

text \<open>
  \<open>src/type/decimal_type.cpp\<close>: the methods of \<open>DecimalType\<close> over the operations on doubles of
  \<open>float_ops\<close>. Integer operands are converted to double first, as the usual arithmetic
  conversions of C++ do. \<open>Min\<close> and \<open>Max\<close>, which call the other classes, are in \<open>Type_Dispatch\<close>.
\<close>

text \<open>\<open>static_cast\<close> of a double to an integer type truncates, and is undefined when that does not fit.\<close>

definition double_to_int :: "'d float_ops \<Rightarrow> nat \<Rightarrow> 'd \<Rightarrow> int result" where
  "double_to_int F w d = (case d_to_int F d of
     Some i \<Rightarrow> if in_range w i then Inr i else Inl Undefined_behaviour
   | None \<Rightarrow> Inl Undefined_behaviour)"

definition Decimal_compare_func :: "'d float_ops \<Rightarrow> cmp_op \<Rightarrow> 'd Value \<Rightarrow> 'd Value \<Rightarrow> CmpBool result" where
  "Decimal_compare_func F OP left right = (case vtype right of
     TINYINT \<Rightarrow> Inr (GetCmpBool (dec_cmp F OP (as_dec F left) (d_of_int F (as_int right))))
   | SMALLINT \<Rightarrow> Inr (GetCmpBool (dec_cmp F OP (as_dec F left) (d_of_int F (as_int right))))
   | INTEGER \<Rightarrow> Inr (GetCmpBool (dec_cmp F OP (as_dec F left) (d_of_int F (as_int right))))
   | BIGINT \<Rightarrow> Inr (GetCmpBool (dec_cmp F OP (as_dec F left) (d_of_int F (as_int right))))
   | DECIMAL \<Rightarrow> Inr (GetCmpBool (dec_cmp F OP (as_dec F left) (as_dec F right)))
   | VARCHAR \<Rightarrow> bind_r (Varlen_CastAs F right DECIMAL) (\<lambda>r_value.
       Inr (GetCmpBool (dec_cmp F OP (as_dec F left) (as_dec F r_value))))
   | _ \<Rightarrow> Inl (Throw ExceptionType.INVALID))"

definition Decimal_modify_func :: "('d \<Rightarrow> 'd \<Rightarrow> 'd) \<Rightarrow> 'd float_ops \<Rightarrow> 'd Value \<Rightarrow> 'd Value \<Rightarrow> 'd Value result" where
  "Decimal_modify_func OP F left right = (case vtype right of
     TINYINT \<Rightarrow> Value_double F DECIMAL (OP (as_dec F left) (d_of_int F (as_int right)))
   | SMALLINT \<Rightarrow> Value_double F DECIMAL (OP (as_dec F left) (d_of_int F (as_int right)))
   | INTEGER \<Rightarrow> Value_double F DECIMAL (OP (as_dec F left) (d_of_int F (as_int right)))
   | BIGINT \<Rightarrow> Value_double F DECIMAL (OP (as_dec F left) (d_of_int F (as_int right)))
   | DECIMAL \<Rightarrow> Value_double F DECIMAL (OP (as_dec F left) (as_dec F right))
   | VARCHAR \<Rightarrow> bind_r (Varlen_CastAs F right DECIMAL) (\<lambda>r_value.
       Value_double F DECIMAL (OP (as_dec F left) (as_dec F r_value)))
   | _ \<Rightarrow> Inl (Throw ExceptionType.INVALID))"

definition Decimal_Add :: "'d float_ops \<Rightarrow> 'd Value \<Rightarrow> 'd Value \<Rightarrow> 'd Value result" where
  "Decimal_Add F left right = assert_comparable left right (
     if IsNull left \<or> IsNull right then Value_OperateNull F left right
     else Decimal_modify_func (d_add F) F left right)"

definition Decimal_Subtract :: "'d float_ops \<Rightarrow> 'd Value \<Rightarrow> 'd Value \<Rightarrow> 'd Value result" where
  "Decimal_Subtract F left right = assert_comparable left right (
     if IsNull left \<or> IsNull right then Value_OperateNull F left right
     else Decimal_modify_func (d_sub F) F left right)"

definition Decimal_Multiply :: "'d float_ops \<Rightarrow> 'd Value \<Rightarrow> 'd Value \<Rightarrow> 'd Value result" where
  "Decimal_Multiply F left right = assert_comparable left right (
     if IsNull left \<or> IsNull right then Value_OperateNull F left right
     else Decimal_modify_func (d_mul F) F left right)"

definition Decimal_Divide :: "'d float_ops \<Rightarrow> 'd Value \<Rightarrow> 'd Value \<Rightarrow> 'd Value result" where
  "Decimal_Divide F left right = assert_comparable left right (
     if IsNull left \<or> IsNull right then Value_OperateNull F left right
     else assert_nonzero F right (Decimal_modify_func (d_div F) F left right))"

definition Decimal_Modulo :: "'d float_ops \<Rightarrow> 'd Value \<Rightarrow> 'd Value \<Rightarrow> 'd Value result" where
  "Decimal_Modulo F left right = assert_comparable left right (
     if IsNull left \<or> IsNull right then Decimal_OperateNull F left right
     else assert_nonzero F right (Decimal_modify_func (ValMod F) F left right))"

definition Decimal_Sqrt :: "'d float_ops \<Rightarrow> 'd Value \<Rightarrow> 'd Value result" where
  "Decimal_Sqrt F val =
     (if IsNull val then Value_double F DECIMAL (d_lowest F)
      else if d_lt F (as_dec F val) (d_of_int F 0) then Inl (Throw ExceptionType.DECIMAL)
      else Value_double F DECIMAL (d_sqrt F (as_dec F val)))"

definition Decimal_CompareEquals :: "'d float_ops \<Rightarrow> 'd Value \<Rightarrow> 'd Value \<Rightarrow> CmpBool result" where
  "Decimal_CompareEquals F left right = assert_comparable left right (
     if IsNull left \<or> IsNull right then Inr CmpNull
     else Decimal_compare_func F OpEq left right)"

definition Decimal_CompareNotEquals :: "'d float_ops \<Rightarrow> 'd Value \<Rightarrow> 'd Value \<Rightarrow> CmpBool result" where
  "Decimal_CompareNotEquals F left right = assert_comparable left right (
     if IsNull left \<or> IsNull right then Inr CmpNull
     else Decimal_compare_func F OpNe left right)"

definition Decimal_CompareLessThan :: "'d float_ops \<Rightarrow> 'd Value \<Rightarrow> 'd Value \<Rightarrow> CmpBool result" where
  "Decimal_CompareLessThan F left right = assert_comparable left right (
     if IsNull left \<or> IsNull right then Inr CmpNull
     else Decimal_compare_func F OpLt left right)"

definition Decimal_CompareLessThanEquals :: "'d float_ops \<Rightarrow> 'd Value \<Rightarrow> 'd Value \<Rightarrow> CmpBool result" where
  "Decimal_CompareLessThanEquals F left right = assert_comparable left right (
     if IsNull left \<or> IsNull right then Inr CmpNull
     else Decimal_compare_func F OpLe left right)"

definition Decimal_CompareGreaterThan :: "'d float_ops \<Rightarrow> 'd Value \<Rightarrow> 'd Value \<Rightarrow> CmpBool result" where
  "Decimal_CompareGreaterThan F left right = assert_comparable left right (
     if IsNull left \<or> IsNull right then Inr CmpNull
     else Decimal_compare_func F OpGt left right)"

definition Decimal_CompareGreaterThanEquals :: "'d float_ops \<Rightarrow> 'd Value \<Rightarrow> 'd Value \<Rightarrow> CmpBool result" where
  "Decimal_CompareGreaterThanEquals F left right = assert_comparable left right (
     if IsNull left \<or> IsNull right then Inr CmpNull
     else Decimal_compare_func F OpGe left right)"

definition Decimal_ToString :: "'d float_ops \<Rightarrow> 'd Value \<Rightarrow> string result" where
  "Decimal_ToString F val =
     (if IsNull val then Inr ''decimal_null'' else Inr (d_to_string F (as_dec F val)))"

definition Decimal_SerializeTo :: "'d float_ops \<Rightarrow> 'd Value \<Rightarrow> byte list" where
  "Decimal_SerializeTo F val = d_bytes F (as_dec F val)"

definition Decimal_DeserializeFrom :: "'d float_ops \<Rightarrow> byte list \<Rightarrow> 'd Value result" where
  "Decimal_DeserializeFrom F storage = Value_double F DECIMAL (d_of_bytes F (get_at 0 8 storage))"

definition Decimal_Copy :: "'d float_ops \<Rightarrow> 'd Value \<Rightarrow> 'd Value result" where
  "Decimal_Copy F val = Value_double F DECIMAL (as_dec F val)"

text \<open>The check of \<open>BIGINT\<close> also rejects the rounded maximum itself.\<close>

definition Decimal_CastAs :: "'d float_ops \<Rightarrow> 'd Value \<Rightarrow> TypeId \<Rightarrow> 'd Value result" where
  "Decimal_CastAs F val T = (case T of
     TINYINT \<Rightarrow> if IsNull val then Value_int8 T (int_null 8)
       else if d_lt F (d_of_int F (int_max 8)) (as_dec F val)
               \<or> d_lt F (as_dec F val) (d_of_int F (int_min 8))
       then Inl (Throw OUT_OF_RANGE)
       else bind_r (double_to_int F 8 (as_dec F val)) (Value_int8 T)
   | SMALLINT \<Rightarrow> if IsNull val then Value_int16 T (int_null 16)
       else if d_lt F (d_of_int F (int_max 16)) (as_dec F val)
               \<or> d_lt F (as_dec F val) (d_of_int F (int_min 16))
       then Inl (Throw OUT_OF_RANGE)
       else bind_r (double_to_int F 16 (as_dec F val)) (Value_int16 T)
   | INTEGER \<Rightarrow> if IsNull val then Value_int32 T (int_null 32)
       else if d_lt F (d_of_int F (int_max 32)) (as_dec F val)
               \<or> d_lt F (as_dec F val) (d_of_int F (int_min 32))
       then Inl (Throw OUT_OF_RANGE)
       else bind_r (double_to_int F 32 (as_dec F val)) (Value_int32 T)
   | BIGINT \<Rightarrow> if IsNull val then Value_int64 T (int_null 64)
       else if d_lt F (d_of_int F (int_max 64)) (as_dec F val) \<or> d_eq F (as_dec F val) (d_of_int F (int_max 64))
               \<or> d_lt F (as_dec F val) (d_of_int F (int_min 64))
       then Inl (Throw OUT_OF_RANGE)
       else bind_r (double_to_int F 64 (as_dec F val)) (Value_int64 T)
   | DECIMAL \<Rightarrow> Decimal_Copy F val
   | VARCHAR \<Rightarrow> if IsNull val then Value_data VARCHAR None
       else bind_r (Value_ToString F val) (Value_string VARCHAR)
   | _ \<Rightarrow> Inl (Throw ExceptionType.INVALID))"

end
