(* ===== verification/Timestamp_Type.thy ===== *)
theory Timestamp_Type
  imports Varlen_Cast
begin

text \<open>
  \<open>src/type/timestamp_type.cpp\<close>: the methods of \<open>TimestampType\<close>. A timestamp packs its fields
  into one number of 64 bits, which \<open>ToString\<close> takes apart. \<open>CheckComparable\<close> has no case for
  timestamps, so the asserts of the comparisons always fail. \<open>Min\<close> and \<open>Max\<close> are in
  \<open>Type_Dispatch\<close>.
\<close>

definition Timestamp_CompareEquals :: "'d Value \<Rightarrow> 'd Value \<Rightarrow> CmpBool result" where
  "Timestamp_CompareEquals left right = assert_comparable left right (
     if IsNull left \<or> IsNull right then Inr CmpNull
     else Inr (GetCmpBool (int_cmp OpEq (int (as_timestamp left)) (int (as_timestamp right)))))"

definition Timestamp_CompareNotEquals :: "'d Value \<Rightarrow> 'd Value \<Rightarrow> CmpBool result" where
  "Timestamp_CompareNotEquals left right = assert_comparable left right (
     if IsNull right then Inr CmpNull
     else Inr (GetCmpBool (int_cmp OpNe (int (as_timestamp left)) (int (as_timestamp right)))))"

definition Timestamp_CompareLessThan :: "'d Value \<Rightarrow> 'd Value \<Rightarrow> CmpBool result" where
  "Timestamp_CompareLessThan left right = assert_comparable left right (
     if IsNull left \<or> IsNull right then Inr CmpNull
     else Inr (GetCmpBool (int_cmp OpLt (int (as_timestamp left)) (int (as_timestamp right)))))"

definition Timestamp_CompareLessThanEquals :: "'d Value \<Rightarrow> 'd Value \<Rightarrow> CmpBool result" where
  "Timestamp_CompareLessThanEquals left right = assert_comparable left right (
     if IsNull left \<or> IsNull right then Inr CmpNull
     else Inr (GetCmpBool (int_cmp OpLe (int (as_timestamp left)) (int (as_timestamp right)))))"

definition Timestamp_CompareGreaterThan :: "'d Value \<Rightarrow> 'd Value \<Rightarrow> CmpBool result" where
  "Timestamp_CompareGreaterThan left right = assert_comparable left right (
     if IsNull left \<or> IsNull right then Inr CmpNull
     else Inr (GetCmpBool (int_cmp OpGt (swrap 64 (int (as_timestamp left))) (swrap 64 (int (as_timestamp right))))))"

definition Timestamp_CompareGreaterThanEquals :: "'d Value \<Rightarrow> 'd Value \<Rightarrow> CmpBool result" where
  "Timestamp_CompareGreaterThanEquals left right = assert_comparable left right (
     if IsNull left \<or> IsNull right then Inr CmpNull
     else Inr (GetCmpBool (int_cmp OpGe (int (as_timestamp left)) (int (as_timestamp right)))))"

text \<open>\<open>printf\<close> of a number with leading zeros up to a width.\<close>

definition zero_pad :: "nat \<Rightarrow> nat \<Rightarrow> string" where
  "zero_pad k n = replicate (k - length (nat_digits n)) (CHR ''0'') @ nat_digits n"

definition Timestamp_ToString :: "'d Value \<Rightarrow> string result" where
  "Timestamp_ToString val =
     (if IsNull val then Inr ''timestamp_null''
      else let
        tm = as_timestamp val;
        micro = tm mod 1000000; tm = tm div 1000000;
        second = tm mod 100000;
        sec = second mod 60; second = second div 60;
        mins = second mod 60; second = second div 60;
        hour = second mod 24;
        tm = tm div 100000;
        year = tm mod 10000; tm = tm div 10000;
        tz = int (tm mod 27) - 12; tm = tm div 27;
        day = tm mod 32; tm = tm div 32;
        month = tm mod 2 ^ 16;
        str = take 29 (zero_pad 4 year @ ''-'' @ zero_pad 2 month @ ''-'' @ zero_pad 2 day @ '' '' @
                zero_pad 2 hour @ '':'' @ zero_pad 2 mins @ '':'' @ zero_pad 2 sec @ ''.'' @ zero_pad 6 micro)
      in Inr (take 26 str @ (if tz \<ge> 0 then ''+'' else ''-'') @ zero_pad 2 (nat \<bar>tz\<bar>)))"

definition Timestamp_SerializeTo :: "'d Value \<Rightarrow> byte list" where
  "Timestamp_SerializeTo val = put_int 8 (int (as_timestamp val))"

definition Timestamp_DeserializeFrom :: "byte list \<Rightarrow> 'd Value result" where
  "Timestamp_DeserializeFrom storage = Value_uint64 TIMESTAMP (int (get_uint (get_at 0 8 storage)))"

definition Timestamp_Copy :: "'d Value \<Rightarrow> 'd Value" where
  "Timestamp_Copy val = val"

text \<open>
  The message of the default branch is built with \<open>ToString\<close> of the target class, applied to
  the timestamp: the integer classes fail their assert on it, the base class is not
  implemented, and the others print something.
\<close>

definition Timestamp_CastAs :: "'d float_ops \<Rightarrow> 'd Value \<Rightarrow> TypeId \<Rightarrow> 'd Value result" where
  "Timestamp_CastAs F val T = (case T of
     TIMESTAMP \<Rightarrow> Inr (Timestamp_Copy val)
   | VARCHAR \<Rightarrow> if IsNull val then Value_data VARCHAR None
       else bind_r (Value_ToString F val) (Value_string VARCHAR)
   | INVALID \<Rightarrow> Type_not_implemented
   | TINYINT \<Rightarrow> Inl Assertion_failed
   | SMALLINT \<Rightarrow> Inl Assertion_failed
   | INTEGER \<Rightarrow> Inl Assertion_failed
   | BIGINT \<Rightarrow> Inl Assertion_failed
   | _ \<Rightarrow> Inl (Throw ExceptionType.INVALID))"

end
