(* ===== verification/Value_Cast.thy ===== *)
theory Value_Cast
  imports Tinyint_Type Smallint_Type Integer_Type Bigint_Type Decimal_Type Timestamp_Type
begin

text \<open>
  The conversions that dispatch on the type of the value, \<open>Value::CastAs\<close> and \<open>Value::Copy\<close> of
  \<open>include/type/value.h\<close>, and the part of \<open>src/type/boolean_type.cpp\<close> that they need. The table
  \<open>k_types\<close> has no instance for \<open>TIMESTAMP\<close>; the instance for \<open>INVALID\<close> is the base class.
\<close>

definition Boolean_ToString :: "'d Value \<Rightarrow> string result" where
  "Boolean_ToString val =
     (if as_int val = 1 then Inr ''true'' else if as_int val = 0 then Inr ''false''
      else Inr ''boolean_null'')"

definition Boolean_SerializeTo :: "'d Value \<Rightarrow> byte list" where
  "Boolean_SerializeTo val = put_int 1 (as_int val)"

definition Boolean_DeserializeFrom :: "byte list \<Rightarrow> 'd Value result" where
  "Boolean_DeserializeFrom storage = Value_int8 BOOLEAN (get_int (get_at 0 1 storage))"

definition Boolean_Copy :: "'d Value \<Rightarrow> 'd Value result" where
  "Boolean_Copy val = Value_int8 BOOLEAN (as_int val)"

definition Boolean_CastAs :: "'d float_ops \<Rightarrow> 'd Value \<Rightarrow> TypeId \<Rightarrow> 'd Value result" where
  "Boolean_CastAs F val T = (case T of
     BOOLEAN \<Rightarrow> Boolean_Copy val
   | VARCHAR \<Rightarrow> if IsNull val then Value_data VARCHAR None
       else bind_r (Value_ToString F val) (Value_string VARCHAR)
   | _ \<Rightarrow> Inl (Throw ExceptionType.INVALID))"

definition Value_CastAs :: "'d float_ops \<Rightarrow> 'd Value \<Rightarrow> TypeId \<Rightarrow> 'd Value result" where
  "Value_CastAs F v T = (case vtype v of
     BOOLEAN \<Rightarrow> Boolean_CastAs F v T
   | TINYINT \<Rightarrow> Tinyint_CastAs F v T
   | SMALLINT \<Rightarrow> Smallint_CastAs F v T
   | INTEGER \<Rightarrow> Integer_CastAs F v T
   | BIGINT \<Rightarrow> Bigint_CastAs F v T
   | DECIMAL \<Rightarrow> Decimal_CastAs F v T
   | VARCHAR \<Rightarrow> Varlen_CastAs F v T
   | TIMESTAMP \<Rightarrow> Inl Undefined_behaviour
   | INVALID \<Rightarrow> Type_not_implemented)"

definition Value_Copy :: "'d float_ops \<Rightarrow> 'd Value \<Rightarrow> 'd Value result" where
  "Value_Copy F v = (case vtype v of
     BOOLEAN \<Rightarrow> Boolean_Copy v
   | TINYINT \<Rightarrow> Tinyint_Copy v
   | SMALLINT \<Rightarrow> Smallint_Copy v
   | INTEGER \<Rightarrow> Integer_Copy v
   | BIGINT \<Rightarrow> Bigint_Copy v
   | DECIMAL \<Rightarrow> Decimal_Copy F v
   | VARCHAR \<Rightarrow> Inr (Varlen_Copy v)
   | TIMESTAMP \<Rightarrow> Inl Undefined_behaviour
   | INVALID \<Rightarrow> Type_not_implemented)"

end
