(* ===== verification/Boolean_Varlen.thy ===== *)
theory Boolean_Varlen
  imports Value_Cast
begin

text \<open>
  The comparisons of \<open>src/type/boolean_type.cpp\<close> and \<open>src/type/varlen_type.cpp\<close>, which convert
  their right-hand side first, and \<open>TypeUtil::CompareStrings\<close> of \<open>include/type/type_util.h\<close>.
\<close>

section \<open>Booleans\<close>

definition Boolean_compare_func :: "'d float_ops \<Rightarrow> cmp_op \<Rightarrow> 'd Value \<Rightarrow> 'd Value \<Rightarrow> CmpBool result" where
  "Boolean_compare_func F OP left right = bind_r (Value_CastAs F right BOOLEAN) (\<lambda>r.
     Inr (GetCmpBool (int_cmp OP (as_int left) (as_int r))))"

definition Boolean_CompareEquals :: "'d float_ops \<Rightarrow> 'd Value \<Rightarrow> 'd Value \<Rightarrow> CmpBool result" where
  "Boolean_CompareEquals F left right = assert_comparable left right (
     if IsNull left \<or> IsNull right then Inr CmpNull
     else Boolean_compare_func F OpEq left right)"

definition Boolean_CompareNotEquals :: "'d float_ops \<Rightarrow> 'd Value \<Rightarrow> 'd Value \<Rightarrow> CmpBool result" where
  "Boolean_CompareNotEquals F left right = assert_comparable left right (
     if IsNull left \<or> IsNull right then Inr CmpNull
     else Boolean_compare_func F OpNe left right)"

definition Boolean_CompareLessThan :: "'d float_ops \<Rightarrow> 'd Value \<Rightarrow> 'd Value \<Rightarrow> CmpBool result" where
  "Boolean_CompareLessThan F left right = assert_comparable left right (
     if IsNull left \<or> IsNull right then Inr CmpNull
     else Boolean_compare_func F OpLt left right)"

definition Boolean_CompareLessThanEquals :: "'d float_ops \<Rightarrow> 'd Value \<Rightarrow> 'd Value \<Rightarrow> CmpBool result" where
  "Boolean_CompareLessThanEquals F left right = assert_comparable left right (
     if IsNull left \<or> IsNull right then Inr CmpNull
     else Boolean_compare_func F OpLe left right)"

definition Boolean_CompareGreaterThan :: "'d float_ops \<Rightarrow> 'd Value \<Rightarrow> 'd Value \<Rightarrow> CmpBool result" where
  "Boolean_CompareGreaterThan F left right = assert_comparable left right (
     if IsNull left \<or> IsNull right then Inr CmpNull
     else Boolean_compare_func F OpGt left right)"

definition Boolean_CompareGreaterThanEquals :: "'d float_ops \<Rightarrow> 'd Value \<Rightarrow> 'd Value \<Rightarrow> CmpBool result" where
  "Boolean_CompareGreaterThanEquals F left right = assert_comparable left right (
     if IsNull left \<or> IsNull right then Inr CmpNull
     else Boolean_compare_func F OpGe left right)"

section \<open>Strings\<close>

text \<open>\<open>memcmp\<close> compares unsigned characters; only the sign of its result is used.\<close>

fun memcmp :: "string \<Rightarrow> string \<Rightarrow> int" where
  "memcmp (a # as) (b # bs) = (if a = b then memcmp as bs else of_char a - of_char b)"
| "memcmp _ _ = 0"

definition CompareStrings :: "string option \<Rightarrow> int \<Rightarrow> string option \<Rightarrow> int \<Rightarrow> int result" where
  "CompareStrings str1 len1 str2 len2 =
     bind_r (guard_r (str1 \<noteq> None) Assertion_failed) (\<lambda>_.
     bind_r (guard_r (len1 \<ge> 0) Assertion_failed) (\<lambda>_.
     bind_r (guard_r (str2 \<noteq> None) Assertion_failed) (\<lambda>_.
     bind_r (guard_r (len2 \<ge> 0) Assertion_failed) (\<lambda>_.
       let n = nat (min len1 len2);
           ret = memcmp (take n (the str1)) (take n (the str2))
       in Inr (if ret = 0 \<and> len1 \<noteq> len2 then len1 - len2 else ret)))))"

text \<open>
  The length passed on leaves out the terminating NUL. For an empty string without one,
  \<open>GetLength - 1\<close> wraps to \<open>UINT_MAX\<close>, which becomes -1 as an \<open>int\<close>.
\<close>

definition compare_length :: "'d Value \<Rightarrow> int" where
  "compare_length v = swrap 32 ((int (Varlen_GetLength v) - 1) mod 2 ^ 32)"

definition Varlen_compare_func :: "'d float_ops \<Rightarrow> cmp_op \<Rightarrow> 'd Value \<Rightarrow> 'd Value \<Rightarrow> CmpBool result" where
  "Varlen_compare_func F OP left right =
     (if vtype right = VARCHAR
      then bind_r (CompareStrings (Varlen_GetData left) (compare_length left) (Varlen_GetData right) (compare_length right))
             (\<lambda>ret. Inr (GetCmpBool (int_cmp OP ret 0)))
      else bind_r (Value_CastAs F right VARCHAR) (\<lambda>r_value.
           bind_r (CompareStrings (Varlen_GetData left) (compare_length left) (Varlen_GetData r_value) (compare_length r_value))
             (\<lambda>ret. Inr (GetCmpBool (int_cmp OP ret 0)))))"

definition Varlen_CompareEquals :: "'d float_ops \<Rightarrow> 'd Value \<Rightarrow> 'd Value \<Rightarrow> CmpBool result" where
  "Varlen_CompareEquals F left right = assert_comparable left right (
     if IsNull left \<or> IsNull right then Inr CmpNull
     else if Varlen_GetLength left = BUSTUB_VARCHAR_MAX_LEN \<or> Varlen_GetLength right = BUSTUB_VARCHAR_MAX_LEN
     then Inr (GetCmpBool (int_cmp OpEq (int (Varlen_GetLength left)) (int (Varlen_GetLength right))))
     else Varlen_compare_func F OpEq left right)"

definition Varlen_CompareNotEquals :: "'d float_ops \<Rightarrow> 'd Value \<Rightarrow> 'd Value \<Rightarrow> CmpBool result" where
  "Varlen_CompareNotEquals F left right = assert_comparable left right (
     if IsNull left \<or> IsNull right then Inr CmpNull
     else if Varlen_GetLength left = BUSTUB_VARCHAR_MAX_LEN \<or> Varlen_GetLength right = BUSTUB_VARCHAR_MAX_LEN
     then Inr (GetCmpBool (int_cmp OpNe (int (Varlen_GetLength left)) (int (Varlen_GetLength right))))
     else Varlen_compare_func F OpNe left right)"

definition Varlen_CompareLessThan :: "'d float_ops \<Rightarrow> 'd Value \<Rightarrow> 'd Value \<Rightarrow> CmpBool result" where
  "Varlen_CompareLessThan F left right = assert_comparable left right (
     if IsNull left \<or> IsNull right then Inr CmpNull
     else if Varlen_GetLength left = BUSTUB_VARCHAR_MAX_LEN \<or> Varlen_GetLength right = BUSTUB_VARCHAR_MAX_LEN
     then Inr (GetCmpBool (int_cmp OpLt (int (Varlen_GetLength left)) (int (Varlen_GetLength right))))
     else Varlen_compare_func F OpLt left right)"

definition Varlen_CompareLessThanEquals :: "'d float_ops \<Rightarrow> 'd Value \<Rightarrow> 'd Value \<Rightarrow> CmpBool result" where
  "Varlen_CompareLessThanEquals F left right = assert_comparable left right (
     if IsNull left \<or> IsNull right then Inr CmpNull
     else if Varlen_GetLength left = BUSTUB_VARCHAR_MAX_LEN \<or> Varlen_GetLength right = BUSTUB_VARCHAR_MAX_LEN
     then Inr (GetCmpBool (int_cmp OpLe (int (Varlen_GetLength left)) (int (Varlen_GetLength right))))
     else Varlen_compare_func F OpLe left right)"

definition Varlen_CompareGreaterThan :: "'d float_ops \<Rightarrow> 'd Value \<Rightarrow> 'd Value \<Rightarrow> CmpBool result" where
  "Varlen_CompareGreaterThan F left right = assert_comparable left right (
     if IsNull left \<or> IsNull right then Inr CmpNull
     else if Varlen_GetLength left = BUSTUB_VARCHAR_MAX_LEN \<or> Varlen_GetLength right = BUSTUB_VARCHAR_MAX_LEN
     then Inr (GetCmpBool (int_cmp OpGt (int (Varlen_GetLength left)) (int (Varlen_GetLength right))))
     else Varlen_compare_func F OpGt left right)"

definition Varlen_CompareGreaterThanEquals :: "'d float_ops \<Rightarrow> 'd Value \<Rightarrow> 'd Value \<Rightarrow> CmpBool result" where
  "Varlen_CompareGreaterThanEquals F left right = assert_comparable left right (
     if IsNull left \<or> IsNull right then Inr CmpNull
     else if Varlen_GetLength left = BUSTUB_VARCHAR_MAX_LEN \<or> Varlen_GetLength right = BUSTUB_VARCHAR_MAX_LEN
     then Inr (GetCmpBool (int_cmp OpGe (int (Varlen_GetLength left)) (int (Varlen_GetLength right))))
     else Varlen_compare_func F OpGe left right)"

end
