(* ===== verification/Type_Dispatch.thy ===== *)
theory Type_Dispatch
  imports Boolean_Varlen
begin

text \<open>
  The operations on values of \<open>include/type/value.h\<close>: each looks up the instance of the
  value's type in \<open>k_types\<close> and calls the virtual method. A class that does not override a
  method inherits the one of \<open>Type\<close>, which throws \<open>NotImplementedException\<close>; the missing
  instance of \<open>TIMESTAMP\<close> is a null pointer. \<open>Min\<close> and \<open>Max\<close> of the classes call the
  comparisons through this dispatch.
\<close>

section \<open>Arithmetic and comparison\<close>

definition Value_Add :: "overflow \<Rightarrow> 'd float_ops \<Rightarrow> 'd Value \<Rightarrow> 'd Value \<Rightarrow> 'd Value result" where
  "Value_Add ov F v o' = (case vtype v of
     TINYINT \<Rightarrow> Tinyint_Add ov F v o'
   | SMALLINT \<Rightarrow> Smallint_Add ov F v o'
   | INTEGER \<Rightarrow> Integer_Add ov F v o'
   | BIGINT \<Rightarrow> Bigint_Add ov F v o'
   | DECIMAL \<Rightarrow> Decimal_Add F v o'
   | TIMESTAMP \<Rightarrow> Inl Undefined_behaviour
   | _ \<Rightarrow> Type_not_implemented)"

definition Value_Subtract :: "overflow \<Rightarrow> 'd float_ops \<Rightarrow> 'd Value \<Rightarrow> 'd Value \<Rightarrow> 'd Value result" where
  "Value_Subtract ov F v o' = (case vtype v of
     TINYINT \<Rightarrow> Tinyint_Subtract ov F v o'
   | SMALLINT \<Rightarrow> Smallint_Subtract ov F v o'
   | INTEGER \<Rightarrow> Integer_Subtract ov F v o'
   | BIGINT \<Rightarrow> Bigint_Subtract ov F v o'
   | DECIMAL \<Rightarrow> Decimal_Subtract F v o'
   | TIMESTAMP \<Rightarrow> Inl Undefined_behaviour
   | _ \<Rightarrow> Type_not_implemented)"

definition Value_Multiply :: "overflow \<Rightarrow> 'd float_ops \<Rightarrow> 'd Value \<Rightarrow> 'd Value \<Rightarrow> 'd Value result" where
  "Value_Multiply ov F v o' = (case vtype v of
     TINYINT \<Rightarrow> Tinyint_Multiply ov F v o'
   | SMALLINT \<Rightarrow> Smallint_Multiply ov F v o'
   | INTEGER \<Rightarrow> Integer_Multiply ov F v o'
   | BIGINT \<Rightarrow> Bigint_Multiply ov F v o'
   | DECIMAL \<Rightarrow> Decimal_Multiply F v o'
   | TIMESTAMP \<Rightarrow> Inl Undefined_behaviour
   | _ \<Rightarrow> Type_not_implemented)"

definition Value_Divide :: "'d float_ops \<Rightarrow> 'd Value \<Rightarrow> 'd Value \<Rightarrow> 'd Value result" where
  "Value_Divide F v o' = (case vtype v of
     TINYINT \<Rightarrow> Tinyint_Divide F v o'
   | SMALLINT \<Rightarrow> Smallint_Divide F v o'
   | INTEGER \<Rightarrow> Integer_Divide F v o'
   | BIGINT \<Rightarrow> Bigint_Divide F v o'
   | DECIMAL \<Rightarrow> Decimal_Divide F v o'
   | TIMESTAMP \<Rightarrow> Inl Undefined_behaviour
   | _ \<Rightarrow> Type_not_implemented)"

definition Value_Modulo :: "'d float_ops \<Rightarrow> 'd Value \<Rightarrow> 'd Value \<Rightarrow> 'd Value result" where
  "Value_Modulo F v o' = (case vtype v of
     TINYINT \<Rightarrow> Tinyint_Modulo F v o'
   | SMALLINT \<Rightarrow> Smallint_Modulo F v o'
   | INTEGER \<Rightarrow> Integer_Modulo F v o'
   | BIGINT \<Rightarrow> Bigint_Modulo F v o'
   | DECIMAL \<Rightarrow> Decimal_Modulo F v o'
   | TIMESTAMP \<Rightarrow> Inl Undefined_behaviour
   | _ \<Rightarrow> Type_not_implemented)"

definition Value_Sqrt :: "'d float_ops \<Rightarrow> 'd Value \<Rightarrow> 'd Value result" where
  "Value_Sqrt F v = (case vtype v of
     TINYINT \<Rightarrow> Tinyint_Sqrt F v
   | SMALLINT \<Rightarrow> Smallint_Sqrt F v
   | INTEGER \<Rightarrow> Integer_Sqrt F v
   | BIGINT \<Rightarrow> Bigint_Sqrt F v
   | DECIMAL \<Rightarrow> Decimal_Sqrt F v
   | TIMESTAMP \<Rightarrow> Inl Undefined_behaviour
   | _ \<Rightarrow> Type_not_implemented)"

definition Value_CompareEquals :: "'d float_ops \<Rightarrow> 'd Value \<Rightarrow> 'd Value \<Rightarrow> CmpBool result" where
  "Value_CompareEquals F v o' = (case vtype v of
     BOOLEAN \<Rightarrow> Boolean_CompareEquals F v o'
   | TINYINT \<Rightarrow> Tinyint_CompareEquals F v o'
   | SMALLINT \<Rightarrow> Smallint_CompareEquals F v o'
   | INTEGER \<Rightarrow> Integer_CompareEquals F v o'
   | BIGINT \<Rightarrow> Bigint_CompareEquals F v o'
   | DECIMAL \<Rightarrow> Decimal_CompareEquals F v o'
   | VARCHAR \<Rightarrow> Varlen_CompareEquals F v o'
   | TIMESTAMP \<Rightarrow> Inl Undefined_behaviour
   | _ \<Rightarrow> Type_not_implemented)"

definition Value_CompareNotEquals :: "'d float_ops \<Rightarrow> 'd Value \<Rightarrow> 'd Value \<Rightarrow> CmpBool result" where
  "Value_CompareNotEquals F v o' = (case vtype v of
     BOOLEAN \<Rightarrow> Boolean_CompareNotEquals F v o'
   | TINYINT \<Rightarrow> Tinyint_CompareNotEquals F v o'
   | SMALLINT \<Rightarrow> Smallint_CompareNotEquals F v o'
   | INTEGER \<Rightarrow> Integer_CompareNotEquals F v o'
   | BIGINT \<Rightarrow> Bigint_CompareNotEquals F v o'
   | DECIMAL \<Rightarrow> Decimal_CompareNotEquals F v o'
   | VARCHAR \<Rightarrow> Varlen_CompareNotEquals F v o'
   | TIMESTAMP \<Rightarrow> Inl Undefined_behaviour
   | _ \<Rightarrow> Type_not_implemented)"

definition Value_CompareLessThan :: "'d float_ops \<Rightarrow> 'd Value \<Rightarrow> 'd Value \<Rightarrow> CmpBool result" where
  "Value_CompareLessThan F v o' = (case vtype v of
     BOOLEAN \<Rightarrow> Boolean_CompareLessThan F v o'
   | TINYINT \<Rightarrow> Tinyint_CompareLessThan F v o'
   | SMALLINT \<Rightarrow> Smallint_CompareLessThan F v o'
   | INTEGER \<Rightarrow> Integer_CompareLessThan F v o'
   | BIGINT \<Rightarrow> Bigint_CompareLessThan F v o'
   | DECIMAL \<Rightarrow> Decimal_CompareLessThan F v o'
   | VARCHAR \<Rightarrow> Varlen_CompareLessThan F v o'
   | TIMESTAMP \<Rightarrow> Inl Undefined_behaviour
   | _ \<Rightarrow> Type_not_implemented)"

definition Value_CompareLessThanEquals :: "'d float_ops \<Rightarrow> 'd Value \<Rightarrow> 'd Value \<Rightarrow> CmpBool result" where
  "Value_CompareLessThanEquals F v o' = (case vtype v of
     BOOLEAN \<Rightarrow> Boolean_CompareLessThanEquals F v o'
   | TINYINT \<Rightarrow> Tinyint_CompareLessThanEquals F v o'
   | SMALLINT \<Rightarrow> Smallint_CompareLessThanEquals F v o'
   | INTEGER \<Rightarrow> Integer_CompareLessThanEquals F v o'
   | BIGINT \<Rightarrow> Bigint_CompareLessThanEquals F v o'
   | DECIMAL \<Rightarrow> Decimal_CompareLessThanEquals F v o'
   | VARCHAR \<Rightarrow> Varlen_CompareLessThanEquals F v o'
   | TIMESTAMP \<Rightarrow> Inl Undefined_behaviour
   | _ \<Rightarrow> Type_not_implemented)"

definition Value_CompareGreaterThan :: "'d float_ops \<Rightarrow> 'd Value \<Rightarrow> 'd Value \<Rightarrow> CmpBool result" where
  "Value_CompareGreaterThan F v o' = (case vtype v of
     BOOLEAN \<Rightarrow> Boolean_CompareGreaterThan F v o'
   | TINYINT \<Rightarrow> Tinyint_CompareGreaterThan F v o'
   | SMALLINT \<Rightarrow> Smallint_CompareGreaterThan F v o'
   | INTEGER \<Rightarrow> Integer_CompareGreaterThan F v o'
   | BIGINT \<Rightarrow> Bigint_CompareGreaterThan F v o'
   | DECIMAL \<Rightarrow> Decimal_CompareGreaterThan F v o'
   | VARCHAR \<Rightarrow> Varlen_CompareGreaterThan F v o'
   | TIMESTAMP \<Rightarrow> Inl Undefined_behaviour
   | _ \<Rightarrow> Type_not_implemented)"

definition Value_CompareGreaterThanEquals :: "'d float_ops \<Rightarrow> 'd Value \<Rightarrow> 'd Value \<Rightarrow> CmpBool result" where
  "Value_CompareGreaterThanEquals F v o' = (case vtype v of
     BOOLEAN \<Rightarrow> Boolean_CompareGreaterThanEquals F v o'
   | TINYINT \<Rightarrow> Tinyint_CompareGreaterThanEquals F v o'
   | SMALLINT \<Rightarrow> Smallint_CompareGreaterThanEquals F v o'
   | INTEGER \<Rightarrow> Integer_CompareGreaterThanEquals F v o'
   | BIGINT \<Rightarrow> Bigint_CompareGreaterThanEquals F v o'
   | DECIMAL \<Rightarrow> Decimal_CompareGreaterThanEquals F v o'
   | VARCHAR \<Rightarrow> Varlen_CompareGreaterThanEquals F v o'
   | TIMESTAMP \<Rightarrow> Inl Undefined_behaviour
   | _ \<Rightarrow> Type_not_implemented)"

section \<open>Min and Max\<close>

definition IntegerParent_Min :: "'d float_ops \<Rightarrow> 'd Value \<Rightarrow> 'd Value \<Rightarrow> 'd Value result" where
  "IntegerParent_Min F left right = assert_integer left (assert_comparable left right (
     if IsNull left \<or> IsNull right then Value_OperateNull F left right
     else bind_r (Value_CompareLessThan F left right) (\<lambda>c.
       if c = CmpTrue then Value_Copy F left else Value_Copy F right)))"

definition IntegerParent_Max :: "'d float_ops \<Rightarrow> 'd Value \<Rightarrow> 'd Value \<Rightarrow> 'd Value result" where
  "IntegerParent_Max F left right = assert_integer left (assert_comparable left right (
     if IsNull left \<or> IsNull right then Value_OperateNull F left right
     else bind_r (Value_CompareGreaterThanEquals F left right) (\<lambda>c.
       if c = CmpTrue then Value_Copy F left else Value_Copy F right)))"

definition Decimal_Min :: "'d float_ops \<Rightarrow> 'd Value \<Rightarrow> 'd Value \<Rightarrow> 'd Value result" where
  "Decimal_Min F left right = assert_comparable left right (
     if IsNull left \<or> IsNull right then Value_OperateNull F left right
     else bind_r (Value_CompareLessThanEquals F left right) (\<lambda>c.
       if c = CmpTrue then Value_Copy F left else Value_Copy F right))"

definition Decimal_Max :: "'d float_ops \<Rightarrow> 'd Value \<Rightarrow> 'd Value \<Rightarrow> 'd Value result" where
  "Decimal_Max F left right = assert_comparable left right (
     if IsNull left \<or> IsNull right then Value_OperateNull F left right
     else bind_r (Value_CompareGreaterThanEquals F left right) (\<lambda>c.
       if c = CmpTrue then Value_Copy F left else Value_Copy F right))"

definition Varlen_Min :: "'d float_ops \<Rightarrow> 'd Value \<Rightarrow> 'd Value \<Rightarrow> 'd Value result" where
  "Varlen_Min F left right = assert_comparable left right (
     if IsNull left \<or> IsNull right then Value_OperateNull F left right
     else bind_r (Value_CompareLessThan F left right) (\<lambda>c.
       if c = CmpTrue then Value_Copy F left else Value_Copy F right))"

definition Varlen_Max :: "'d float_ops \<Rightarrow> 'd Value \<Rightarrow> 'd Value \<Rightarrow> 'd Value result" where
  "Varlen_Max F left right = assert_comparable left right (
     if IsNull left \<or> IsNull right then Value_OperateNull F left right
     else bind_r (Value_CompareGreaterThan F left right) (\<lambda>c.
       if c = CmpTrue then Value_Copy F left else Value_Copy F right))"

definition Timestamp_Min :: "'d float_ops \<Rightarrow> 'd Value \<Rightarrow> 'd Value \<Rightarrow> 'd Value result" where
  "Timestamp_Min F left right = assert_comparable left right (
     if IsNull left \<or> IsNull right then Value_OperateNull F left right
     else bind_r (Value_CompareLessThan F left right) (\<lambda>c.
       if c = CmpTrue then Value_Copy F left else Value_Copy F right))"

definition Timestamp_Max :: "'d float_ops \<Rightarrow> 'd Value \<Rightarrow> 'd Value \<Rightarrow> 'd Value result" where
  "Timestamp_Max F left right = assert_comparable left right (
     if IsNull left \<or> IsNull right then Value_OperateNull F left right
     else bind_r (Value_CompareGreaterThanEquals F left right) (\<lambda>c.
       if c = CmpTrue then Value_Copy F left else Value_Copy F right))"

definition Value_Min :: "'d float_ops \<Rightarrow> 'd Value \<Rightarrow> 'd Value \<Rightarrow> 'd Value result" where
  "Value_Min F v o' = (case vtype v of
     TINYINT \<Rightarrow> IntegerParent_Min F v o'
   | SMALLINT \<Rightarrow> IntegerParent_Min F v o'
   | INTEGER \<Rightarrow> IntegerParent_Min F v o'
   | BIGINT \<Rightarrow> IntegerParent_Min F v o'
   | DECIMAL \<Rightarrow> Decimal_Min F v o'
   | VARCHAR \<Rightarrow> Varlen_Min F v o'
   | TIMESTAMP \<Rightarrow> Inl Undefined_behaviour
   | _ \<Rightarrow> Type_not_implemented)"

definition Value_Max :: "'d float_ops \<Rightarrow> 'd Value \<Rightarrow> 'd Value \<Rightarrow> 'd Value result" where
  "Value_Max F v o' = (case vtype v of
     TINYINT \<Rightarrow> IntegerParent_Max F v o'
   | SMALLINT \<Rightarrow> IntegerParent_Max F v o'
   | INTEGER \<Rightarrow> IntegerParent_Max F v o'
   | BIGINT \<Rightarrow> IntegerParent_Max F v o'
   | DECIMAL \<Rightarrow> Decimal_Max F v o'
   | VARCHAR \<Rightarrow> Varlen_Max F v o'
   | TIMESTAMP \<Rightarrow> Inl Undefined_behaviour
   | _ \<Rightarrow> Type_not_implemented)"

section \<open>Printing and serialisation\<close>

definition Type_ToString :: "'d float_ops \<Rightarrow> 'd Value \<Rightarrow> string result" where
  "Type_ToString F v = (case vtype v of
     BOOLEAN \<Rightarrow> Boolean_ToString v
   | TINYINT \<Rightarrow> Tinyint_ToString v
   | SMALLINT \<Rightarrow> Smallint_ToString v
   | INTEGER \<Rightarrow> Integer_ToString v
   | BIGINT \<Rightarrow> Bigint_ToString v
   | DECIMAL \<Rightarrow> Decimal_ToString F v
   | VARCHAR \<Rightarrow> Varlen_ToString v
   | TIMESTAMP \<Rightarrow> Inl Undefined_behaviour
   | _ \<Rightarrow> Type_not_implemented)"

definition Value_SerializeTo :: "'d float_ops \<Rightarrow> 'd Value \<Rightarrow> byte list result" where
  "Value_SerializeTo F v = (case vtype v of
     BOOLEAN \<Rightarrow> Inr (Boolean_SerializeTo v)
   | TINYINT \<Rightarrow> Inr (Tinyint_SerializeTo v)
   | SMALLINT \<Rightarrow> Inr (Smallint_SerializeTo v)
   | INTEGER \<Rightarrow> Inr (Integer_SerializeTo v)
   | BIGINT \<Rightarrow> Inr (Bigint_SerializeTo v)
   | DECIMAL \<Rightarrow> Inr (Decimal_SerializeTo F v)
   | VARCHAR \<Rightarrow> Varlen_SerializeTo v
   | TIMESTAMP \<Rightarrow> Inl Undefined_behaviour
   | _ \<Rightarrow> Type_not_implemented)"

definition Value_DeserializeFrom :: "'d float_ops \<Rightarrow> byte list \<Rightarrow> TypeId \<Rightarrow> 'd Value result" where
  "Value_DeserializeFrom F storage T = (case T of
     BOOLEAN \<Rightarrow> Boolean_DeserializeFrom storage
   | TINYINT \<Rightarrow> Tinyint_DeserializeFrom storage
   | SMALLINT \<Rightarrow> Smallint_DeserializeFrom storage
   | INTEGER \<Rightarrow> Integer_DeserializeFrom storage
   | BIGINT \<Rightarrow> Bigint_DeserializeFrom storage
   | DECIMAL \<Rightarrow> Decimal_DeserializeFrom F storage
   | VARCHAR \<Rightarrow> Varlen_DeserializeFrom storage
   | TIMESTAMP \<Rightarrow> Inl Undefined_behaviour
   | INVALID \<Rightarrow> Type_not_implemented)"



end
