(* ===== verification/Value_Factory.thy ===== *)
theory Value_Factory
  imports Type_Dispatch
begin

text \<open>
  \<open>include/type/value_factory.h\<close>: the constructors of values by type and the conversions
  \<open>CastAs...\<close> of the factory, which repeat the conversions of the type classes with their own
  code, and the packing of timestamps.
\<close>

section \<open>Constructors\<close>

definition Clone :: "'d float_ops \<Rightarrow> 'd Value \<Rightarrow> 'd Value result" where
  "Clone F src = Value_Copy F src"

definition GetTinyIntValue :: "int \<Rightarrow> 'd Value result" where
  "GetTinyIntValue value = Value_int8 TINYINT value"

definition GetSmallIntValue :: "int \<Rightarrow> 'd Value result" where
  "GetSmallIntValue value = Value_int16 SMALLINT value"

definition GetIntegerValue :: "int \<Rightarrow> 'd Value result" where
  "GetIntegerValue value = Value_int32 INTEGER value"

definition GetBigIntValue :: "int \<Rightarrow> 'd Value result" where
  "GetBigIntValue value = Value_int64 BIGINT value"

definition GetTimestampValue :: "int \<Rightarrow> 'd Value result" where
  "GetTimestampValue value = Value_int64 TIMESTAMP value"

definition GetDecimalValue :: "'d float_ops \<Rightarrow> 'd \<Rightarrow> 'd Value result" where
  "GetDecimalValue F value = Value_double F DECIMAL value"

fun GetBooleanValue_cmp :: "CmpBool \<Rightarrow> 'd Value result" where
  "GetBooleanValue_cmp CmpNull = Value_int8 BOOLEAN (int_null 8)"
| "GetBooleanValue_cmp CmpTrue = Value_int8 BOOLEAN 1"
| "GetBooleanValue_cmp CmpFalse = Value_int8 BOOLEAN 0"

definition GetBooleanValue_bool :: "bool \<Rightarrow> 'd Value result" where
  "GetBooleanValue_bool value = Value_int8 BOOLEAN (if value then 1 else 0)"

definition GetBooleanValue :: "int \<Rightarrow> 'd Value result" where
  "GetBooleanValue value = Value_int8 BOOLEAN value"

text \<open>From a C string, whose data includes the terminating NUL.\<close>

definition GetVarcharValue_cstr :: "string option \<Rightarrow> 'd Value result" where
  "GetVarcharValue_cstr value =
     Value_data VARCHAR (map_option (\<lambda>s. takeWhile (\<lambda>c. c \<noteq> NUL) s @ [NUL]) value)"

definition GetVarcharValue :: "string \<Rightarrow> 'd Value result" where
  "GetVarcharValue value = Value_string VARCHAR value"

definition GetNullValueByType :: "'d float_ops \<Rightarrow> TypeId \<Rightarrow> 'd Value result" where
  "GetNullValueByType F T = (case T of
     BOOLEAN \<Rightarrow> GetBooleanValue (int_null 8)
   | TINYINT \<Rightarrow> GetTinyIntValue (int_null 8)
   | SMALLINT \<Rightarrow> GetSmallIntValue (int_null 16)
   | INTEGER \<Rightarrow> GetIntegerValue (int_null 32)
   | BIGINT \<Rightarrow> GetBigIntValue (int_null 64)
   | DECIMAL \<Rightarrow> GetDecimalValue F (d_lowest F)
   | VARCHAR \<Rightarrow> GetVarcharValue_cstr None
   | _ \<Rightarrow> Inl (Throw UNKNOWN_TYPE))"

definition GetZeroValueByType :: "'d float_ops \<Rightarrow> TypeId \<Rightarrow> 'd Value result" where
  "GetZeroValueByType F T = (case T of
     BOOLEAN \<Rightarrow> GetBooleanValue_bool False
   | TINYINT \<Rightarrow> GetTinyIntValue 0
   | SMALLINT \<Rightarrow> GetSmallIntValue 0
   | INTEGER \<Rightarrow> GetIntegerValue 0
   | BIGINT \<Rightarrow> GetBigIntValue 0
   | DECIMAL \<Rightarrow> GetDecimalValue F (d_of_int F 0)
   | VARCHAR \<Rightarrow> GetVarcharValue ''0''
   | _ \<Rightarrow> Inl (Throw UNKNOWN_TYPE))"

section \<open>Conversions\<close>

text \<open>A member function called through the table of instances.\<close>

definition Instance_IsCoercableFrom :: "TypeId \<Rightarrow> TypeId \<Rightarrow> bool result" where
  "Instance_IsCoercableFrom T U =
     (if T = TIMESTAMP then Inl Undefined_behaviour else Inr (IsCoercableFrom T U))"

text \<open>The handlers around the parsing of numbers.\<close>

definition rethrow_parse :: "'a result \<Rightarrow> 'a result" where
  "rethrow_parse r = (case r of
     Inl Std_out_of_range \<Rightarrow> Inl (Throw OUT_OF_RANGE)
   | Inl Std_invalid_argument \<Rightarrow> Inl (Throw ExceptionType.INVALID)
   | _ \<Rightarrow> r)"

text \<open>The final exception, whose message prints the value with \<open>ToString\<close> of its class.\<close>

definition not_coercable :: "'d float_ops \<Rightarrow> 'd Value \<Rightarrow> 'a result" where
  "not_coercable F value = bind_r (Type_ToString F value) (\<lambda>_. Inl (Throw ExceptionType.INVALID))"

definition CastAsBigInt :: "'d float_ops \<Rightarrow> 'd Value \<Rightarrow> 'd Value result" where
  "CastAsBigInt F value = bind_r (Instance_IsCoercableFrom BIGINT (vtype value)) (\<lambda>coercable.
     if \<not> coercable then not_coercable F value
     else if IsNull value then GetBigIntValue (int_null 64)
     else case vtype value of
         TINYINT \<Rightarrow> GetBigIntValue (swrap 64 (as_int value))
       | SMALLINT \<Rightarrow> GetBigIntValue (swrap 64 (as_int value))
       | INTEGER \<Rightarrow> GetBigIntValue (swrap 64 (as_int value))
       | BIGINT \<Rightarrow> GetBigIntValue (as_int value)
       | DECIMAL \<Rightarrow> if d_lt F (d_of_int F (int_max 64)) (as_dec F value)
               \<or> d_lt F (as_dec F value) (d_of_int F (int_min 64))
           then Inl (Throw OUT_OF_RANGE)
           else bind_r (double_to_int F 64 (as_dec F value)) GetBigIntValue
       | VARCHAR \<Rightarrow> bind_r (Value_ToString F value) (\<lambda>str.
           bind_r (rethrow_parse (stoll str)) (\<lambda>i.
           if i > int_max 64 \<or> i < int_min 64 then Inl (Throw OUT_OF_RANGE) else GetBigIntValue i))
       | _ \<Rightarrow> not_coercable F value)"

definition CastAsInteger :: "'d float_ops \<Rightarrow> 'd Value \<Rightarrow> 'd Value result" where
  "CastAsInteger F value = bind_r (Instance_IsCoercableFrom INTEGER (vtype value)) (\<lambda>coercable.
     if \<not> coercable then not_coercable F value
     else if IsNull value then GetIntegerValue (int_null 32)
     else case vtype value of
         TINYINT \<Rightarrow> GetIntegerValue (swrap 32 (as_int value))
       | SMALLINT \<Rightarrow> GetIntegerValue (swrap 32 (as_int value))
       | INTEGER \<Rightarrow> GetIntegerValue (as_int value)
       | BIGINT \<Rightarrow> if as_int value > int_max 32 \<or> as_int value < int_min 32 then Inl (Throw OUT_OF_RANGE)
           else GetIntegerValue (swrap 32 (as_int value))
       | DECIMAL \<Rightarrow> if d_lt F (d_of_int F (int_max 32)) (as_dec F value)
               \<or> d_lt F (as_dec F value) (d_of_int F (int_min 32))
           then Inl (Throw OUT_OF_RANGE)
           else bind_r (double_to_int F 32 (as_dec F value)) GetIntegerValue
       | VARCHAR \<Rightarrow> bind_r (Value_ToString F value) (\<lambda>str.
           bind_r (rethrow_parse (stoi str)) (\<lambda>i.
           if i > int_max 32 \<or> i < int_min 32 then Inl (Throw OUT_OF_RANGE) else GetIntegerValue i))
       | _ \<Rightarrow> not_coercable F value)"

definition CastAsSmallInt :: "'d float_ops \<Rightarrow> 'd Value \<Rightarrow> 'd Value result" where
  "CastAsSmallInt F value = bind_r (Instance_IsCoercableFrom SMALLINT (vtype value)) (\<lambda>coercable.
     if \<not> coercable then not_coercable F value
     else if IsNull value then GetSmallIntValue (int_null 16)
     else case vtype value of
         TINYINT \<Rightarrow> GetSmallIntValue (swrap 16 (as_int value))
       | SMALLINT \<Rightarrow> GetSmallIntValue (as_int value)
       | INTEGER \<Rightarrow> if as_int value > int_max 16 \<or> as_int value < int_min 16 then Inl (Throw OUT_OF_RANGE)
           else GetSmallIntValue (swrap 16 (as_int value))
       | BIGINT \<Rightarrow> if as_int value > int_max 16 \<or> as_int value < int_min 16 then Inl (Throw OUT_OF_RANGE)
           else GetSmallIntValue (swrap 16 (as_int value))
       | DECIMAL \<Rightarrow> if d_lt F (d_of_int F (int_max 16)) (as_dec F value)
               \<or> d_lt F (as_dec F value) (d_of_int F (int_min 16))
           then Inl (Throw OUT_OF_RANGE)
           else bind_r (double_to_int F 16 (as_dec F value)) GetSmallIntValue
       | VARCHAR \<Rightarrow> bind_r (Value_ToString F value) (\<lambda>str.
           bind_r (rethrow_parse (stoi str)) (\<lambda>i.
           let smallint = swrap 16 i
           in if smallint < int_min 16 then Inl (Throw OUT_OF_RANGE) else GetSmallIntValue smallint))
       | _ \<Rightarrow> not_coercable F value)"

definition CastAsTinyInt :: "'d float_ops \<Rightarrow> 'd Value \<Rightarrow> 'd Value result" where
  "CastAsTinyInt F value = bind_r (Instance_IsCoercableFrom TINYINT (vtype value)) (\<lambda>coercable.
     if \<not> coercable then not_coercable F value
     else if IsNull value then GetTinyIntValue (int_null 8)
     else case vtype value of
         TINYINT \<Rightarrow> GetTinyIntValue (as_int value)
       | SMALLINT \<Rightarrow> if as_int value > int_max 8 \<or> as_int value < int_min 8 then Inl (Throw OUT_OF_RANGE)
           else GetTinyIntValue (swrap 8 (as_int value))
       | INTEGER \<Rightarrow> if as_int value > int_max 8 \<or> as_int value < int_min 8 then Inl (Throw OUT_OF_RANGE)
           else GetTinyIntValue (swrap 8 (as_int value))
       | BIGINT \<Rightarrow> if as_int value > int_max 8 \<or> as_int value < int_min 8 then Inl (Throw OUT_OF_RANGE)
           else GetTinyIntValue (swrap 8 (as_int value))
       | DECIMAL \<Rightarrow> if d_lt F (d_of_int F (int_max 8)) (as_dec F value)
               \<or> d_lt F (as_dec F value) (d_of_int F (int_min 8))
           then Inl (Throw OUT_OF_RANGE)
           else bind_r (double_to_int F 8 (as_dec F value)) GetTinyIntValue
       | VARCHAR \<Rightarrow> bind_r (Value_ToString F value) (\<lambda>str.
           bind_r (rethrow_parse (stoi str)) (\<lambda>i.
           let tinyint = swrap 8 i
           in if tinyint < int_min 8 then Inl (Throw OUT_OF_RANGE) else GetTinyIntValue tinyint))
       | _ \<Rightarrow> not_coercable F value)"

definition CastAsDecimal :: "'d float_ops \<Rightarrow> 'd Value \<Rightarrow> 'd Value result" where
  "CastAsDecimal F value = bind_r (Instance_IsCoercableFrom DECIMAL (vtype value)) (\<lambda>coercable.
     if \<not> coercable then not_coercable F value
     else if IsNull value then GetDecimalValue F (d_lowest F)
     else case vtype value of
         TINYINT \<Rightarrow> GetDecimalValue F (d_of_int F (as_int value))
       | SMALLINT \<Rightarrow> GetDecimalValue F (d_of_int F (as_int value))
       | INTEGER \<Rightarrow> GetDecimalValue F (d_of_int F (as_int value))
       | BIGINT \<Rightarrow> GetDecimalValue F (d_of_int F (as_int value))
       | DECIMAL \<Rightarrow> GetDecimalValue F (as_dec F value)
       | VARCHAR \<Rightarrow> bind_r (Value_ToString F value) (\<lambda>str.
           bind_r (rethrow_parse (d_of_string F str)) (\<lambda>res.
           if d_lt F (d_max F) res \<or> d_lt F res (d_flt_lowest F) then Inl (Throw OUT_OF_RANGE)
           else GetDecimalValue F res))
       | _ \<Rightarrow> not_coercable F value)"

definition CastAsVarchar :: "'d float_ops \<Rightarrow> 'd Value \<Rightarrow> 'd Value result" where
  "CastAsVarchar F value = bind_r (Instance_IsCoercableFrom VARCHAR (vtype value)) (\<lambda>coercable.
     if \<not> coercable then not_coercable F value
     else if IsNull value then GetVarcharValue_cstr None
     else if vtype value = TIMESTAMP \<or> vtype value = INVALID then not_coercable F value
     else bind_r (Value_ToString F value) GetVarcharValue)"

definition CastAsBoolean :: "'d float_ops \<Rightarrow> 'd Value \<Rightarrow> 'd Value result" where
  "CastAsBoolean F value = bind_r (Instance_IsCoercableFrom BOOLEAN (vtype value)) (\<lambda>coercable.
     if \<not> coercable then not_coercable F value
     else if IsNull value then GetBooleanValue (int_null 8)
     else case vtype value of
         BOOLEAN \<Rightarrow> GetBooleanValue (as_int value)
       | VARCHAR \<Rightarrow> bind_r (Value_ToString F value) (\<lambda>str.
           let str = map tolower str
           in if str = ''true'' \<or> str = ''1'' \<or> str = ''t'' then GetBooleanValue_bool True
              else if str = ''false'' \<or> str = ''0'' \<or> str = ''f'' then GetBooleanValue_bool False
              else Inl (Throw ExceptionType.INVALID))
       | _ \<Rightarrow> not_coercable F value)"

section \<open>Timestamps\<close>

text \<open>
  The check of the format: the positions of the separators and of the digits in the 29
  characters. After it, \<open>sscanf\<close> finds its eight numbers, each of the width of its field.
\<close>

definition timestamp_format :: "string \<Rightarrow> bool" where
  "timestamp_format str \<longleftrightarrow>
     length str = 29 \<and>
     str ! 10 = CHR '' '' \<and> str ! 4 = CHR ''-'' \<and> str ! 7 = CHR ''-'' \<and> str ! 13 = CHR '':'' \<and>
     str ! 16 = CHR '':'' \<and> str ! 19 = CHR ''.'' \<and> (str ! 26 = CHR ''+'' \<or> str ! 26 = CHR ''-'') \<and>
     (\<forall>i \<in> set [0 ..< 29]. i \<notin> set [4, 7, 10, 13, 16, 19, 26] \<longrightarrow> is_digit (str ! i))"

definition field :: "string \<Rightarrow> nat \<Rightarrow> nat \<Rightarrow> nat" where
  "field str i n = nat (digits_value (take n (drop i str)))"

definition max_day :: "nat list" where
  "max_day = [0, 31, 28, 31, 30, 31, 30, 31, 31, 30, 31, 30, 31]"

definition max_day_lunar :: "nat list" where
  "max_day_lunar = [0, 31, 29, 31, 30, 31, 30, 31, 31, 30, 31, 30, 31]"

definition leap_year :: "nat \<Rightarrow> bool" where
  "leap_year year \<longleftrightarrow> (year mod 4 = 0 \<and> year mod 100 \<noteq> 0) \<or> year mod 400 = 0"

text \<open>
  The packing, in \<open>uint64_t\<close>. The time zone is a \<open>uint32_t\<close>: a negative sum wraps around. The
  fields of hours, minutes and seconds are summed in 32 bits, where they fit.
\<close>

definition pack_timestamp :: "nat \<Rightarrow> nat \<Rightarrow> nat \<Rightarrow> nat \<Rightarrow> nat \<Rightarrow> nat \<Rightarrow> nat \<Rightarrow> int \<Rightarrow> nat" where
  "pack_timestamp year month day hour mins sec micro tz =
     (let timezone = nat ((tz + 12) mod 2 ^ 32);
          res = month;
          res = res * 32 + day;
          res = res * 27 + timezone;
          res = res * 10000 + year;
          res = res * 100000 + (hour * 3600 + mins * 60 + sec);
          res = res * 1000000 + micro
      in res mod 2 ^ 64)"

definition timestamp_of_string :: "string \<Rightarrow> 'd Value result" where
  "timestamp_of_string s =
     (let str = (if length s = 22 then take 19 s @ ''.000000'' @ take 3 (drop 19 s) else s)
      in if \<not> timestamp_format str then Inl (Throw ExceptionType.INVALID)
         else let
           year = field str 0 4; month = field str 5 2; day = field str 8 2;
           hour = field str 11 2; mins = field str 14 2; sec = field str 17 2; micro = field str 20 6;
           tz = (if str ! 26 = CHR ''-'' then - int (field str 27 2) else int (field str 27 2))
         in if year > 9999 \<or> month > 12 \<or> day > 31 \<or> hour > 23 \<or> mins > 59 \<or> sec > 59 \<or> micro > 999999
               \<or> day = 0 \<or> month = 0
            then Inl (Throw OUT_OF_RANGE)
            else if day > (if leap_year year then max_day_lunar else max_day) ! month then Inl (Throw OUT_OF_RANGE)
            else if tz > 26 then Inl (Throw ExceptionType.INVALID)
            else GetTimestampValue (int (pack_timestamp year month day hour mins sec micro tz)))"

definition CastAsTimestamp :: "'d float_ops \<Rightarrow> 'd Value \<Rightarrow> 'd Value result" where
  "CastAsTimestamp F value = bind_r (Instance_IsCoercableFrom TIMESTAMP (vtype value)) (\<lambda>coercable.
     if \<not> coercable then not_coercable F value
     else if IsNull value then GetTimestampValue (int BUSTUB_TIMESTAMP_NULL)
     else case vtype value of
         TIMESTAMP \<Rightarrow> GetTimestampValue (int (as_timestamp value))
       | VARCHAR \<Rightarrow> bind_r (Value_ToString F value) timestamp_of_string
       | _ \<Rightarrow> not_coercable F value)"



end
