(* ===== verification/Type_Laws.thy ===== *)
theory Type_Laws
  imports Value_Factory "HOL-Library.List_Lexorder" "HOL-Library.Char_ord"
begin

text \<open>
  What the operations on SQL values compute. The lemmas on single classes are collected into
  statements over all pairs of integer types; NULL, conversions, serialisation, strings and
  timestamps follow.
\<close>

text \<open>An instance of the operations on doubles: integers, with the bytes of \<open>int64_t\<close>.\<close>

definition whole_floats :: "int float_ops" where
  "whole_floats = \<lparr>d_of_int = id, d_to_int = Some, d_add = (+), d_sub = (-), d_mul = (*),
     d_div = (sdiv), d_trunc = id, d_sqrt = id, d_lt = (<), d_eq = (=), d_lowest = int_null 64,
     d_flt_lowest = int_min 64, d_max = int_max 64, d_to_string = to_string_int,
     d_of_string = stoll, d_bytes = put_int 8, d_of_bytes = get_int\<rparr>"

section \<open>Asserts on integers\<close>

lemma assert_integer_ok: "is_int_type (vtype v) \<Longrightarrow> assert_integer v m = m"
  by (simp add: assert_integer_def)

lemma assert_comparable_ok:
  "is_int_type (vtype l) \<Longrightarrow> is_int_type (vtype r) \<Longrightarrow> assert_comparable l r m = m"
  by (erule is_int_type_cases; erule is_int_type_cases) (simp_all add: assert_comparable_def CheckComparable_def)

lemma assert_nonzero_int:
  assumes "is_int_type (vtype r)"
  shows "assert_nonzero F r m = (if as_int r = 0 then Inl (Throw DIVIDE_BY_ZERO) else m)"
  by (cases rule: is_int_type_cases[OF assms])
    (simp_all add: assert_nonzero_def Value_IsZero_def Tinyint_IsZero_def Smallint_IsZero_def
      Integer_IsZero_def Bigint_IsZero_def)

lemmas assert_simps = assert_integer_ok assert_comparable_ok assert_nonzero_int

section \<open>Arithmetic on integers\<close>

lemmas modify_numbers = Tinyint_modify_numbers Smallint_modify_numbers Integer_modify_numbers
  Bigint_modify_numbers

lemmas Add_defs = Value_Add_def Tinyint_Add_def Smallint_Add_def Integer_Add_def Bigint_Add_def
lemmas Subtract_defs = Value_Subtract_def Tinyint_Subtract_def Smallint_Subtract_def
  Integer_Subtract_def Bigint_Subtract_def
lemmas Multiply_defs = Value_Multiply_def Tinyint_Multiply_def Smallint_Multiply_def
  Integer_Multiply_def Bigint_Multiply_def
lemmas Divide_defs = Value_Divide_def Tinyint_Divide_def Smallint_Divide_def Integer_Divide_def
  Bigint_Divide_def
lemmas Modulo_defs = Value_Modulo_def Tinyint_Modulo_def Smallint_Modulo_def Integer_Modulo_def
  Bigint_Modulo_def

lemmas int_type_simps = is_int_type_def[of TINYINT] is_int_type_def[of SMALLINT]
  is_int_type_def[of INTEGER] is_int_type_def[of BIGINT]

lemma arithmetic_dispatch:
  assumes T: "is_int_type T" and U: "is_int_type U"
  shows "Value_Add ov F (int_value T x) (int_value U y) =
      AddValue ov (int_width T) (int_width U) (int_value T x) (int_value U y)"
    and "Value_Subtract ov F (int_value T x) (int_value U y) =
      SubtractValue ov (int_width T) (int_width U) (int_value T x) (int_value U y)"
    and "Value_Multiply ov F (int_value T x) (int_value U y) =
      MultiplyValue ov (int_width T) (int_width U) (int_value T x) (int_value U y)"
  using U by (cases rule: is_int_type_cases[OF T];
    simp only: Add_defs Subtract_defs Multiply_defs int_value_simps TypeId.case assert_simps
      int_type_simps modify_numbers if_False simp_thms)+

lemma division_dispatch:
  assumes T: "is_int_type T" and U: "is_int_type U" and y: "y \<noteq> 0"
  shows "Value_Divide F (int_value T x) (int_value U y) =
      DivideValue (int_width T) (int_width U) (int_value T x) (int_value U y)"
    and "Value_Modulo F (int_value T x) (int_value U y) =
      ModuloValue (int_width T) (int_width U) (int_value T x) (int_value U y)"
  using U y by (cases rule: is_int_type_cases[OF T];
    simp only: Divide_defs Modulo_defs int_value_simps TypeId.case assert_simps
      int_type_simps modify_numbers if_False simp_thms as_int_int_value)+

lemma division_by_zero:
  assumes T: "is_int_type T" and U: "is_int_type U"
  shows "Value_Divide F (int_value T x) (int_value U 0) = Inl (Throw DIVIDE_BY_ZERO)"
    and "Value_Modulo F (int_value T x) (int_value U 0) = Inl (Throw DIVIDE_BY_ZERO)"
  using U by (cases rule: is_int_type_cases[OF T];
    simp only: Divide_defs Modulo_defs int_value_simps TypeId.case assert_simps
      int_type_simps if_False if_True simp_thms as_int_int_value)+

text \<open>
  C33: addition, subtraction and multiplication of two non-NULL integers of any of the four
  integer types compute the exact result in the wider type, NULL if it is the sentinel of that
  type; a result that does not fit raises OUT_OF_RANGE, except that with the C++ semantics of
  signed overflow a result beyond the promoted type is undefined behaviour.
\<close>

theorem integer_arithmetic:
  assumes "is_int_type T" and "is_int_type U" and "number_of T x" and "number_of U y"
  shows "Value_Add ov F (int_value T x) (int_value U y) = checked ov (wider T U) (x + y) \<and>
    Value_Subtract ov F (int_value T x) (int_value U y) = checked ov (wider T U) (x - y) \<and>
    Value_Multiply ov F (int_value T x) (int_value U y) = checked ov (wider T U) (x * y)"
  by (simp only: arithmetic_dispatch[OF assms(1,2)] AddValue_correct[OF assms]
      SubtractValue_correct[OF assms] MultiplyValue_correct[OF assms] simp_thms)

theorem integer_arithmetic_witness:
  "Value_Multiply Wrap whole_floats (int_value INTEGER 100000) (int_value SMALLINT 30000) =
     (Inl (Throw OUT_OF_RANGE) :: int Value result) \<and>
   Value_Add Strict whole_floats (int_value TINYINT 100) (int_value SMALLINT 100) =
     (Inr (int_value SMALLINT 200) :: int Value result)"
  using integer_arithmetic[of INTEGER SMALLINT 100000 30000 Wrap whole_floats]
    integer_arithmetic[of TINYINT SMALLINT 100 100 Strict whole_floats]
  by (simp add: is_int_type_def number_of_def checked_def wider_def in_range_def result_value_def
      int_null_def)

text \<open>
  Division and modulo of two non-NULL integers truncate towards zero, in the wider type,
  and raise DIVIDE_BY_ZERO for a zero divisor; no other failure is possible.
\<close>

theorem integer_division:
  assumes "is_int_type T" and "is_int_type U" and "number_of T x" and "number_of U y"
  shows "Value_Divide F (int_value T x) (int_value U y) =
      (if y = 0 then Inl (Throw DIVIDE_BY_ZERO) else Inr (int_value (wider T U) (x sdiv y))) \<and>
    Value_Modulo F (int_value T x) (int_value U y) =
      (if y = 0 then Inl (Throw DIVIDE_BY_ZERO) else Inr (int_value (wider T U) (x smod y)))"
proof (cases "y = 0")
  case True
  then show ?thesis by (simp only: division_by_zero[OF assms(1,2)] if_True simp_thms)
next
  case False
  then show ?thesis
    by (simp only: division_dispatch[OF assms(1,2)] DivideValue_correct[OF assms] if_False simp_thms)
qed

theorem integer_division_witness:
  "Value_Divide whole_floats (int_value TINYINT (- 7)) (int_value BIGINT 2) =
     (Inr (int_value BIGINT (- 3)) :: int Value result) \<and>
   Value_Modulo whole_floats (int_value TINYINT (- 7)) (int_value BIGINT 2) =
     (Inr (int_value BIGINT (- 1)) :: int Value result)"
  using integer_division[of TINYINT BIGINT "- 7" 2 whole_floats]
  by (simp add: is_int_type_def number_of_def wider_def signed_divide_int_def signed_modulo_int_def)

text \<open>NULL operands.\<close>

lemma OperateNull_wider:
  "is_int_type (vtype v) \<Longrightarrow> is_int_type (vtype o') \<Longrightarrow>
    Value_OperateNull F v o' = Inr (null_int (wider (vtype v) (vtype o')))"
  by (simp add: Value_OperateNull_int wider_def)

text \<open>
  an arithmetic operation on two integers of which one is NULL gives the NULL of the wider
  type, also for a division by zero.
\<close>

theorem null_arithmetic:
  assumes "is_int_type (vtype v)" and "is_int_type (vtype o')" and "IsNull v \<or> IsNull o'"
  shows "Value_Add ov F v o' = Inr (null_int (wider (vtype v) (vtype o'))) \<and>
    Value_Subtract ov F v o' = Inr (null_int (wider (vtype v) (vtype o'))) \<and>
    Value_Multiply ov F v o' = Inr (null_int (wider (vtype v) (vtype o'))) \<and>
    Value_Divide F v o' = Inr (null_int (wider (vtype v) (vtype o'))) \<and>
    Value_Modulo F v o' = Inr (null_int (wider (vtype v) (vtype o')))"
  by (cases rule: is_int_type_cases[OF assms(1)])
    (use assms in \<open>simp_all only: Add_defs Subtract_defs Multiply_defs Divide_defs Modulo_defs
      TypeId.case assert_simps if_True simp_thms OperateNull_wider\<close>)

theorem null_arithmetic_witness:
  "Value_Divide whole_floats (null_int SMALLINT) (int_value INTEGER 0) = (Inr (null_int INTEGER) :: int Value result)"
  using null_arithmetic[of "null_int SMALLINT" "int_value INTEGER 0" Wrap whole_floats]
  by (simp add: is_int_type_def wider_def)

section \<open>Comparison of integers\<close>

lemmas compare_numbers = Tinyint_compare_numbers Smallint_compare_numbers Integer_compare_numbers
  Bigint_compare_numbers

lemmas CompareEquals_defs = Value_CompareEquals_def Tinyint_CompareEquals_def
  Smallint_CompareEquals_def Integer_CompareEquals_def Bigint_CompareEquals_def
lemmas CompareNotEquals_defs = Value_CompareNotEquals_def Tinyint_CompareNotEquals_def
  Smallint_CompareNotEquals_def Integer_CompareNotEquals_def Bigint_CompareNotEquals_def
lemmas CompareLessThan_defs = Value_CompareLessThan_def Tinyint_CompareLessThan_def
  Smallint_CompareLessThan_def Integer_CompareLessThan_def Bigint_CompareLessThan_def
lemmas CompareLessThanEquals_defs = Value_CompareLessThanEquals_def Tinyint_CompareLessThanEquals_def
  Smallint_CompareLessThanEquals_def Integer_CompareLessThanEquals_def Bigint_CompareLessThanEquals_def
lemmas CompareGreaterThan_defs = Value_CompareGreaterThan_def Tinyint_CompareGreaterThan_def
  Smallint_CompareGreaterThan_def Integer_CompareGreaterThan_def Bigint_CompareGreaterThan_def
lemmas CompareGreaterThanEquals_defs = Value_CompareGreaterThanEquals_def
  Tinyint_CompareGreaterThanEquals_def Smallint_CompareGreaterThanEquals_def
  Integer_CompareGreaterThanEquals_def Bigint_CompareGreaterThanEquals_def

text \<open>The comparison methods by operator.\<close>

fun Value_compare :: "'d float_ops \<Rightarrow> cmp_op \<Rightarrow> 'd Value \<Rightarrow> 'd Value \<Rightarrow> CmpBool result" where
  "Value_compare F OpEq v o' = Value_CompareEquals F v o'"
| "Value_compare F OpNe v o' = Value_CompareNotEquals F v o'"
| "Value_compare F OpLt v o' = Value_CompareLessThan F v o'"
| "Value_compare F OpLe v o' = Value_CompareLessThanEquals F v o'"
| "Value_compare F OpGt v o' = Value_CompareGreaterThan F v o'"
| "Value_compare F OpGe v o' = Value_CompareGreaterThanEquals F v o'"

lemmas compare_defs = CompareEquals_defs CompareNotEquals_defs CompareLessThan_defs
  CompareLessThanEquals_defs CompareGreaterThan_defs CompareGreaterThanEquals_defs

lemma compare_int_values:
  assumes "is_int_type T" and "is_int_type U"
  shows "Value_compare F c (int_value T x) (int_value U y) = Inr (GetCmpBool (int_cmp c x y))"
  by (cases rule: is_int_type_cases[OF assms(1)]; cases c)
    (use assms in \<open>simp_all only: Value_compare.simps compare_defs int_value_simps TypeId.case
      assert_simps int_type_simps compare_numbers if_False simp_thms\<close>)

lemma compare_null:
  assumes "is_int_type (vtype v)" and "is_int_type (vtype o')" and "IsNull v \<or> IsNull o'"
  shows "Value_compare F c v o' = Inr CmpNull"
  by (cases rule: is_int_type_cases[OF assms(1)]; cases c)
    (use assms in \<open>simp_all only: Value_compare.simps compare_defs TypeId.case
      assert_simps if_True simp_thms\<close>)

lemma compare_wf_integers:
  assumes v: "wf_Value F v" "is_int_type (vtype v)" and o': "wf_Value F o'" "is_int_type (vtype o')"
  shows "Value_compare F c v o' =
    (if IsNull v \<or> IsNull o' then Inr CmpNull else Inr (GetCmpBool (int_cmp c (as_int v) (as_int o'))))"
proof (cases "IsNull v \<or> IsNull o'")
  case True
  then show ?thesis using compare_null v(2) o'(2) by simp
next
  case False
  then have "v = int_value (vtype v) (as_int v)" "o' = int_value (vtype o') (as_int o')"
    using wf_int_cases[OF v] wf_int_cases[OF o'] by blast+
  then show ?thesis
    using False compare_int_values[OF v(2) o'(2), of F c "as_int v" "as_int o'"] by simp
qed

text \<open>
  C34: each of the six comparison methods, on any two well-formed integers of any of the four
  types, gives CmpNull when an operand is NULL and otherwise the truth of the comparison of the
  two numbers; it never fails.
\<close>

theorem integer_comparison:
  assumes v: "wf_Value F v" "is_int_type (vtype v)" and o': "wf_Value F o'" "is_int_type (vtype o')"
  shows "Value_compare F c v o' =
    (if IsNull v \<or> IsNull o' then Inr CmpNull else Inr (GetCmpBool (int_cmp c (as_int v) (as_int o'))))"
  by (rule compare_wf_integers[OF assms])

theorem integer_comparison_witness:
  "Value_compare whole_floats OpLt (int_value TINYINT (- 5)) (int_value BIGINT 7) = (Inr CmpTrue :: CmpBool result)"
  using integer_comparison[of whole_floats "int_value TINYINT (- 5)" "int_value BIGINT 7" OpLt]
  by (simp add: wf_int_value is_int_type_def int_min_def int_max_def GetCmpBool_def)

lemma store_number: "is_int_type T \<Longrightarrow> number_of T x \<Longrightarrow> store_int T (int_width T) x = int_value T x"
  using number_of_in_range[of T x] store_int_fits[of T x] by simp

lemma copy_int_value:
  assumes "is_int_type T" and "number_of T x"
  shows "Value_Copy F (int_value T x) = Inr (int_value T x)"
  by (cases rule: is_int_type_cases[OF assms(1)])
    (use assms store_number[OF assms] in \<open>simp_all add: Value_Copy_def Tinyint_Copy_def Smallint_Copy_def
      Integer_Copy_def Bigint_Copy_def assert_integer_ok is_int_type_def\<close>)

text \<open>
  Min and Max of two non-NULL integers return the operand with the smaller and the larger
  number; on a tie Min returns the right operand and Max the left one.
\<close>

theorem integer_min_max:
  assumes T: "is_int_type T" and U: "is_int_type U" and x: "number_of T x" and y: "number_of U y"
  shows "Value_Min F (int_value T x) (int_value U y) = Inr (if x < y then int_value T x else int_value U y) \<and>
    Value_Max F (int_value T x) (int_value U y) = Inr (if x \<ge> y then int_value T x else int_value U y)"
proof -
  have d: "Value_Min F (int_value T x) v = IntegerParent_Min F (int_value T x) v"
    "Value_Max F (int_value T x) v = IntegerParent_Max F (int_value T x) v" for v
    by (cases rule: is_int_type_cases[OF T]; simp add: Value_Min_def Value_Max_def)+
  have c: "Value_CompareLessThan F (int_value T x) (int_value U y) = Inr (GetCmpBool (x < y))"
    "Value_CompareGreaterThanEquals F (int_value T x) (int_value U y) = Inr (GetCmpBool (x \<ge> y))"
    using compare_int_values[OF T U, of F OpLt x y] compare_int_values[OF T U, of F OpGe x y] by simp_all
  show ?thesis
    using T U by (simp add: d IntegerParent_Min_def IntegerParent_Max_def assert_simps c
        copy_int_value x y GetCmpBool_def)
qed

theorem integer_min_max_witness:
  "Value_Min whole_floats (int_value TINYINT 3) (int_value INTEGER 3) = (Inr (int_value INTEGER 3) :: int Value result)"
  using integer_min_max[of TINYINT INTEGER 3 3 whole_floats] by (simp add: is_int_type_def number_of_def)

section \<open>Conversions between integers\<close>

lemmas CastAs_defs = Value_CastAs_def Tinyint_CastAs_def Smallint_CastAs_def Integer_CastAs_def
  Bigint_CastAs_def
lemmas Copy_defs = Tinyint_Copy_def Smallint_Copy_def Integer_Copy_def Bigint_Copy_def

lemma cast_number:
  assumes T: "is_int_type T" and U: "is_int_type U" and x: "number_of T x"
  shows "Value_CastAs F (int_value T x) U =
    (if number_of U x then Inr (int_value U x) else Inl (Throw OUT_OF_RANGE))"
proof -
  have st: "number_of U x \<Longrightarrow> store_int U (int_width U) x = int_value U x" by (rule store_number[OF U])
  have sw: "number_of U x \<Longrightarrow> swrap (int_width U) x = x"
    using number_of_in_range[of U x] int_width_pos[OF U] by simp
  show ?thesis
    using x st sw
    by (cases rule: is_int_type_cases[OF T]; cases rule: is_int_type_cases[OF U])
      (simp_all add: CastAs_defs Copy_defs assert_integer_ok is_int_type_def number_of_iff int_min_def int_max_def)
qed

lemma store_null:
  "store_int TINYINT 8 (int_null 8) = null_int TINYINT" "store_int SMALLINT 16 (int_null 16) = null_int SMALLINT"
  "store_int INTEGER 32 (int_null 32) = null_int INTEGER" "store_int BIGINT 64 (int_null 64) = null_int BIGINT"
  by (simp_all add: store_int_def null_int_def int_null_range)

lemma cast_null:
  assumes T: "is_int_type T" and U: "is_int_type U"
  shows "Value_CastAs F (null_int T) U = Inr (null_int U)"
  by (cases rule: is_int_type_cases[OF T]; cases rule: is_int_type_cases[OF U])
    (simp_all add: CastAs_defs Copy_defs assert_integer_ok is_int_type_def store_null)

text \<open>
  C35: a cast between any two integer types keeps NULL, keeps the number when it fits the target
  type and raises OUT_OF_RANGE otherwise.
\<close>

theorem integer_cast:
  assumes v: "wf_Value F v" "is_int_type (vtype v)" and U: "is_int_type U"
  shows "Value_CastAs F v U =
    (if IsNull v then Inr (null_int U)
     else if int_min (int_width U) \<le> as_int v \<and> as_int v \<le> int_max (int_width U)
     then Inr (int_value U (as_int v)) else Inl (Throw OUT_OF_RANGE))"
  using wf_int_cases[OF v]
proof
  assume "IsNull v \<and> v = null_int (vtype v)"
  then show ?thesis using cast_null[OF v(2) U, of F] by simp
next
  assume nn: "\<not> IsNull v \<and> v = int_value (vtype v) (as_int v) \<and> int_min (int_width (vtype v)) \<le> as_int v \<and>
    as_int v \<le> int_max (int_width (vtype v))"
  then have "number_of (vtype v) (as_int v)" by (simp add: number_of_iff)
  from cast_number[OF v(2) U this, of F] show ?thesis using nn by (simp add: number_of_iff)
qed

theorem integer_cast_witness:
  "Value_CastAs whole_floats (int_value INTEGER 300) TINYINT = (Inl (Throw OUT_OF_RANGE) :: int Value result)"
  using integer_cast[of whole_floats "int_value INTEGER 300" TINYINT]
  by (simp add: wf_int_value is_int_type_def int_min_def int_max_def)

text \<open>
  The factory's own conversions agree with those of the classes, up to the exception for a
  string that holds no number.
\<close>

definition reparse :: "'a result \<Rightarrow> 'a result" where
  "reparse r = (case r of Inl Std_invalid_argument \<Rightarrow> Inl (Throw ExceptionType.INVALID) | _ \<Rightarrow> r)"

lemmas factory_value_defs = CastAsTinyInt_def CastAsSmallInt_def CastAsInteger_def CastAsBigInt_def
  GetTinyIntValue_def GetSmallIntValue_def GetIntegerValue_def GetBigIntValue_def

lemma reparse_simps [simp]:
  "reparse (Inr x) = Inr x" "reparse (Inl (Throw e)) = Inl (Throw e)"
  by (simp_all add: reparse_def)

lemma coercable_int: "is_int_type T \<Longrightarrow> is_int_type U \<Longrightarrow> Instance_IsCoercableFrom T U = Inr True"
  by (erule is_int_type_cases; erule is_int_type_cases)
    (simp_all add: Instance_IsCoercableFrom_def IsCoercableFrom_def)

lemma coercable_string: "is_int_type T \<Longrightarrow> Instance_IsCoercableFrom T VARCHAR = Inr True"
  by (erule is_int_type_cases) (simp_all add: Instance_IsCoercableFrom_def IsCoercableFrom_def)

lemma factory_cast_number:
  assumes T: "is_int_type T" and x: "number_of T x"
  shows "CastAsTinyInt F (int_value T x) =
      (if number_of TINYINT x then Inr (int_value TINYINT x) else Inl (Throw OUT_OF_RANGE))"
    and "CastAsSmallInt F (int_value T x) =
      (if number_of SMALLINT x then Inr (int_value SMALLINT x) else Inl (Throw OUT_OF_RANGE))"
    and "CastAsInteger F (int_value T x) =
      (if number_of INTEGER x then Inr (int_value INTEGER x) else Inl (Throw OUT_OF_RANGE))"
    and "CastAsBigInt F (int_value T x) =
      (if number_of BIGINT x then Inr (int_value BIGINT x) else Inl (Throw OUT_OF_RANGE))"
proof -
  note st = store_number[of TINYINT x, simplified int_type_simps, simplified]
    store_number[of SMALLINT x, simplified int_type_simps, simplified]
    store_number[of INTEGER x, simplified int_type_simps, simplified]
    store_number[of BIGINT x, simplified int_type_simps, simplified]
  have sw: "number_of U x \<Longrightarrow> is_int_type U \<Longrightarrow> swrap (int_width U) x = x" for U
    using number_of_in_range[of U x] int_width_pos[of U] by simp
  note sw = sw[of TINYINT, simplified int_type_simps, simplified]
    sw[of SMALLINT, simplified int_type_simps, simplified]
    sw[of INTEGER, simplified int_type_simps, simplified]
    sw[of BIGINT, simplified int_type_simps, simplified]
  show "CastAsTinyInt F (int_value T x) =
      (if number_of TINYINT x then Inr (int_value TINYINT x) else Inl (Throw OUT_OF_RANGE))"
    using x by (cases rule: is_int_type_cases[OF T])
      (simp_all add: st sw factory_value_defs coercable_int int_type_simps number_of_iff int_min_def int_max_def)
  show "CastAsSmallInt F (int_value T x) =
      (if number_of SMALLINT x then Inr (int_value SMALLINT x) else Inl (Throw OUT_OF_RANGE))"
    using x by (cases rule: is_int_type_cases[OF T])
      (simp_all add: st sw factory_value_defs coercable_int int_type_simps number_of_iff int_min_def int_max_def)
  show "CastAsInteger F (int_value T x) =
      (if number_of INTEGER x then Inr (int_value INTEGER x) else Inl (Throw OUT_OF_RANGE))"
    using x by (cases rule: is_int_type_cases[OF T])
      (simp_all add: st sw factory_value_defs coercable_int int_type_simps number_of_iff int_min_def int_max_def)
  show "CastAsBigInt F (int_value T x) =
      (if number_of BIGINT x then Inr (int_value BIGINT x) else Inl (Throw OUT_OF_RANGE))"
    using x by (cases rule: is_int_type_cases[OF T])
      (simp_all add: st sw factory_value_defs coercable_int int_type_simps number_of_iff int_min_def int_max_def)
qed

lemma factory_cast_null:
  assumes T: "is_int_type T"
  shows "CastAsTinyInt F (null_int T) = Inr (null_int TINYINT)"
    and "CastAsSmallInt F (null_int T) = Inr (null_int SMALLINT)"
    and "CastAsInteger F (null_int T) = Inr (null_int INTEGER)"
    and "CastAsBigInt F (null_int T) = Inr (null_int BIGINT)"
  using T by (simp_all add: factory_value_defs coercable_int int_type_simps store_null)

lemma bind_reparse: "(\<And>x. g x = reparse (f x)) \<Longrightarrow> bind_r (rethrow_parse m) g = reparse (bind_r (rethrow_out_of_range m) f)"
  by (cases m) (auto simp: rethrow_parse_def rethrow_out_of_range_def reparse_def split: failure.splits)

lemma factory_cast_string:
  assumes "vtype v = VARCHAR" and "vval v = VStr s" and "\<not> IsNull v"
  shows "CastAsTinyInt F v = reparse (Value_CastAs F v TINYINT)"
    and "CastAsSmallInt F v = reparse (Value_CastAs F v SMALLINT)"
    and "CastAsInteger F v = reparse (Value_CastAs F v INTEGER)"
    and "CastAsBigInt F v = reparse (Value_CastAs F v BIGINT)"
  using assms
  by (simp_all add: factory_value_defs coercable_string int_type_simps Value_CastAs_def
      Varlen_CastAs_def Value_ToString_def Let_def)
    (rule bind_reparse; simp add: factory_value_defs)+

text \<open>
  For integers, NULL included, and for non-NULL strings, the conversions CastAsTinyInt,
  CastAsSmallInt, CastAsInteger and CastAsBigInt of the factory give what Value::CastAs gives,
  except that a string without a number raises the program's exception instead of the
  std::invalid_argument of the class.
\<close>

theorem factory_casts:
  assumes v: "wf_Value F v" and t: "is_int_type (vtype v) \<or> vtype v = VARCHAR \<and> \<not> IsNull v"
  shows "CastAsTinyInt F v = reparse (Value_CastAs F v TINYINT) \<and>
    CastAsSmallInt F v = reparse (Value_CastAs F v SMALLINT) \<and>
    CastAsInteger F v = reparse (Value_CastAs F v INTEGER) \<and>
    CastAsBigInt F v = reparse (Value_CastAs F v BIGINT)"
  using t
proof
  assume i: "is_int_type (vtype v)"
  from wf_int_cases[OF v i] show ?thesis
  proof
    assume "IsNull v \<and> v = null_int (vtype v)"
    then have e: "v = null_int (vtype v)" by simp
    show ?thesis
      by (subst (1 2 3 4 5 6 7 8) e) (simp add: factory_cast_null i cast_null int_type_simps)
  next
    assume a: "\<not> IsNull v \<and> v = int_value (vtype v) (as_int v) \<and>
      int_min (int_width (vtype v)) \<le> as_int v \<and> as_int v \<le> int_max (int_width (vtype v))"
    then have e: "v = int_value (vtype v) (as_int v)" by blast
    have n: "number_of (vtype v) (as_int v)" using a by (simp add: number_of_iff)
    show ?thesis
      by (subst (1 2 3 4 5 6 7 8) e) (simp del: as_int.simps add: factory_cast_number[OF i n] cast_number[OF i _ n] int_type_simps)
  qed
next
  assume s: "vtype v = VARCHAR \<and> \<not> IsNull v"
  then obtain str where "vval v = VStr str"
    using v by (cases "vval v") (auto simp: wf_Value_def IsNull_def split: if_splits)
  then show ?thesis using factory_cast_string s by metis
qed

theorem factory_casts_witness:
  "CastAsTinyInt whole_floats (int_value SMALLINT 5) = reparse (Value_CastAs whole_floats (int_value SMALLINT 5) TINYINT) \<and>
    CastAsSmallInt whole_floats (int_value SMALLINT 5) = reparse (Value_CastAs whole_floats (int_value SMALLINT 5) SMALLINT) \<and>
    CastAsInteger whole_floats (int_value SMALLINT 5) = reparse (Value_CastAs whole_floats (int_value SMALLINT 5) INTEGER) \<and>
    CastAsBigInt whole_floats (int_value SMALLINT 5) = reparse (Value_CastAs whole_floats (int_value SMALLINT 5) BIGINT)"
  by (rule factory_casts) (simp_all add: wf_int_value is_int_type_def int_min_def int_max_def)

end
