(* ===== verification/Text_Laws.thy ===== *)
theory Text_Laws
  imports Type_Laws
begin

text \<open>
  Laws of strings, serialisation and timestamps, and the invariant that every operation returns
  a well-formed value.
\<close>

section \<open>Every result is well formed\<close>

lemma wf_store_int: "int_width T \<noteq> 0 \<Longrightarrow> w = int_width T \<Longrightarrow> wf_Value F (store_int T w i)"
  by (simp add: wf_Value_def store_int_def)

lemma wf_store_timestamp: "wf_Value F (store_timestamp i)"
proof -
  have "i mod 2 ^ 64 < 2 ^ 64" by simp
  then have "nat (i mod 2 ^ 64) < 2 ^ 64" by (simp add: nat_less_iff)
  then show ?thesis by (simp add: wf_Value_def store_timestamp_def)
qed

lemma wf_constructors:
  "Value_int8 T i = Inr v \<Longrightarrow> wf_Value F v" "Value_int16 T i = Inr v \<Longrightarrow> wf_Value F v"
  "Value_int32 T i = Inr v \<Longrightarrow> wf_Value F v" "Value_int64 T i = Inr v \<Longrightarrow> wf_Value F v"
  "Value_double F T d = Inr v \<Longrightarrow> wf_Value F v" "Value_width w T i = Inr v \<Longrightarrow> wf_Value F v"
proof -
  show a: "Value_int8 T i = Inr v \<Longrightarrow> wf_Value F v" "Value_int16 T i = Inr v \<Longrightarrow> wf_Value F v"
    "Value_int32 T i = Inr v \<Longrightarrow> wf_Value F v" "Value_int64 T i = Inr v \<Longrightarrow> wf_Value F v"
    by (cases T; auto simp: wf_store_int wf_store_timestamp)+
  show "Value_double F T d = Inr v \<Longrightarrow> wf_Value F v"
    by (cases T) (auto simp: wf_Value_def)
  show "Value_width w T i = Inr v \<Longrightarrow> wf_Value F v"
    using a by (auto simp: Value_width_def split: if_splits)
qed

text \<open>A computation all of whose results are well formed.\<close>

definition wf_result :: "'d float_ops \<Rightarrow> 'd Value result \<Rightarrow> bool" where
  "wf_result F m \<longleftrightarrow> (case m of Inr v \<Rightarrow> wf_Value F v | Inl _ \<Rightarrow> True)"

named_theorems wf_results "computations all of whose results are well formed"

lemma wf_result_Inl [wf_results]: "wf_result F (Inl e)"
  by (simp add: wf_result_def)

lemma wf_result_Inr [wf_results]: "wf_result F (Inr v) \<longleftrightarrow> wf_Value F v"
  by (simp add: wf_result_def)

lemma wf_stored [wf_results]:
  "wf_Value F (store_int BOOLEAN 8 i)" "wf_Value F (store_int TINYINT 8 i)"
  "wf_Value F (store_int SMALLINT 16 i)" "wf_Value F (store_int INTEGER 32 i)"
  "wf_Value F (store_int BIGINT 64 i)" "wf_Value F (store_timestamp i)"
  "d_eq F d (d_lowest F) \<Longrightarrow> wf_Value F \<lparr>vtype = DECIMAL, vval = VDec d, vlen = BUSTUB_VALUE_NULL\<rparr>"
  "\<not> d_eq F d (d_lowest F) \<Longrightarrow> wf_Value F \<lparr>vtype = DECIMAL, vval = VDec d, vlen = 0\<rparr>"
  by (simp_all add: wf_store_int wf_store_timestamp) (simp_all add: wf_Value_def)

lemma wf_result_constructors [wf_results]:
  "wf_result F (Value_int8 T i)" "wf_result F (Value_int16 T i)" "wf_result F (Value_int32 T i)"
  "wf_result F (Value_int64 T i)" "wf_result F (Value_double F T d)" "wf_result F (Value_width w T i)"
  using wf_constructors by (auto simp: wf_result_def split: sum.split)

lemma wf_result_bind: "(\<And>x. wf_result F (f x)) \<Longrightarrow> wf_result F (bind_r m f)"
  by (cases m) (simp_all add: wf_result_def)

lemma wf_result_asserts:
  "wf_result F m \<Longrightarrow> wf_result F (assert_integer v m)"
  "wf_result F m \<Longrightarrow> wf_result F (assert_comparable l r m)"
  "wf_result F m \<Longrightarrow> wf_result F (assert_nonzero G r m)"
  by (simp_all add: assert_integer_def assert_comparable_def assert_nonzero_def wf_result_bind
      wf_result_Inl split: if_splits)

lemma wf_result_arithmetic [wf_results]:
  "wf_result F (AddValue ov a b l r)" "wf_result F (SubtractValue ov a b l r)"
  "wf_result F (MultiplyValue ov a b l r)" "wf_result F (DivideValue a b l r)"
  "wf_result F (ModuloValue a b l r)"
  by (auto simp: AddValue_def SubtractValue_def MultiplyValue_def DivideValue_def ModuloValue_def
      Let_def wf_results intro!: wf_result_bind)

lemma wf_result_OperateNull [wf_results]: "wf_result F (Value_OperateNull F l r)"
  by (simp add: OperateNull_defs Type_not_implemented_def wf_results split: TypeId.split)

lemma wf_result_modify:
  assumes "\<And>a b l r. wf_result F (METHOD a b l r)"
  shows "wf_result F (Tinyint_modify_func METHOD OP F l r)"
    and "wf_result F (Smallint_modify_func METHOD OP F l r)"
    and "wf_result F (Integer_modify_func METHOD OP F l r)"
    and "wf_result F (Bigint_modify_func METHOD OP F l r)"
  using assms
  by (auto simp: Tinyint_modify_func_def Smallint_modify_func_def Integer_modify_func_def
      Bigint_modify_func_def wf_results wf_result_bind split: TypeId.split)

lemma wf_result_decimal_modify [wf_results]: "wf_result F (Decimal_modify_func OP F l r)"
  by (auto simp: Decimal_modify_func_def wf_results wf_result_bind split: TypeId.split)

lemmas Decimal_arith_defs = Decimal_Add_def Decimal_Subtract_def Decimal_Multiply_def
  Decimal_Divide_def Decimal_Modulo_def

lemma wf_result_dispatch:
  "wf_result F (Value_Add ov F v o')" "wf_result F (Value_Subtract ov F v o')"
  "wf_result F (Value_Multiply ov F v o')" "wf_result F (Value_Divide F v o')"
  "wf_result F (Value_Modulo F v o')"
  by (auto simp: Add_defs Subtract_defs Multiply_defs Divide_defs Modulo_defs Decimal_arith_defs
      Type_not_implemented_def Decimal_OperateNull_def wf_results wf_result_modify split: TypeId.split
      intro!: wf_result_asserts)



section \<open>Numbers and strings\<close>

lemma cast_to_string:
  assumes T: "is_int_type T"
  shows "Value_CastAs F (int_value T x) VARCHAR = Value_string VARCHAR (to_string_int x)"
  by (cases rule: is_int_type_cases[OF T]) (simp_all add: CastAs_defs Value_ToString_def)

text \<open>
  Printing a non-NULL integer with a cast to VARCHAR and casting the string to any integer
  type that holds the number gives the number back.
\<close>

theorem integer_string_roundtrip:
  fixes F :: "'d float_ops"
  assumes T: "is_int_type T" and U: "is_int_type U" and x: "number_of U x"
  shows "\<exists>s. Value_CastAs F (int_value T x) VARCHAR = Inr s \<and> vtype s = VARCHAR \<and>
    Value_CastAs F s U = Inr (int_value U x)"
proof -
  obtain s :: "'d Value" where s: "Value_string VARCHAR (to_string_int x) = Inr s" "vtype s = VARCHAR" by simp
  from Varlen_CastAs_number[OF s(1) U, of F] x have "Varlen_CastAs F s U = Inr (int_value U x)"
    by (simp add: number_of_iff)
  then show ?thesis using s cast_to_string[OF T, of F x] by (auto simp: Value_CastAs_def)
qed

theorem integer_string_roundtrip_witness:
  "\<exists>s. Value_CastAs whole_floats (int_value BIGINT (- 42)) VARCHAR = (Inr s :: int Value result) \<and>
    vtype s = VARCHAR \<and> Value_CastAs whole_floats s TINYINT = Inr (int_value TINYINT (- 42))"
  using integer_string_roundtrip[of BIGINT TINYINT "- 42" whole_floats] by (simp add: is_int_type_def number_of_def)

text \<open>
  a cast of a string that prints an int to TINYINT or SMALLINT does not check the range: it
  keeps the low bits of the number, and fails only when these are the NULL of the type.
\<close>

theorem narrow_string_cast_truncates:
  assumes v: "Value_string VARCHAR (to_string_int i) = Inr v" and i: "in_range 32 i"
    and T: "T = TINYINT \<or> T = SMALLINT"
  shows "Value_CastAs F v T =
    (if swrap (int_width T) i = int_null (int_width T) then Inl (Throw OUT_OF_RANGE)
     else Inr (int_value T (swrap (int_width T) i)))"
proof -
  have st: "stoi (to_string_int i @ [NUL]) = Inr i"
    unfolding stoi_def using i by (intro stoi_to_string) (simp_all add: not_digit_NUL)
  have t: "vtype v = VARCHAR" using v by auto
  note str = Value_ToString_string[OF v, of F]
  have lo: "swrap w i < int_min w \<longleftrightarrow> swrap w i = int_null w" if "0 < w" for w
    using in_range_swrap[OF that, of i] by (auto simp: in_range_def int_min_def int_null_def)
  have sw: "swrap w (swrap w i) = swrap w i" if "0 < w" for w using that by simp
  show ?thesis
    using T lo[of 8] lo[of 16] sw[of 8] sw[of 16]
    by (auto simp: Value_CastAs_def t Varlen_CastAs_def str st rethrow_out_of_range_def Let_def
        store_int_def int_value_def)
qed

theorem narrow_string_cast_truncates_witness:
  "Value_CastAs whole_floats \<lparr>vtype = VARCHAR, vval = VStr (''300'' @ [NUL]), vlen = 4\<rparr> TINYINT =
    (Inr (int_value TINYINT 44) :: int Value result)"
proof -
  have p: "to_string_int 300 = ''300''" by code_simp
  show ?thesis
    using narrow_string_cast_truncates[of 300 "\<lparr>vtype = VARCHAR, vval = VStr (''300'' @ [NUL]), vlen = 4\<rparr>" TINYINT whole_floats]
    by (simp add: p in_range_def swrap_def int_null_def)
qed

section \<open>Serialisation\<close>

lemma wf_int_store:
  assumes "wf_Value F v" and "int_width (vtype v) \<noteq> 0"
  shows "store_int (vtype v) (int_width (vtype v)) (as_int v) = v" and "in_range (int_width (vtype v)) (as_int v)"
  using assms by (cases v; cases "vval v"; auto simp: wf_Value_def store_int_def split: if_splits)+

lemma int_bytes_roundtrip:
  assumes "in_range (8 * n) i" and "0 < n"
  shows "get_int (get_at 0 n (put_int n i @ rest)) = i"
  using get_int_put_int[OF assms(2,1)] by (simp add: get_at_def)

lemma value_roundtrip:
  assumes v: "wf_Value F v" and t: "vtype v \<noteq> TIMESTAMP"
    and d: "\<And>d. vval v = VDec d \<Longrightarrow> length (d_bytes F d) = 8 \<and> d_of_bytes F (d_bytes F d) = d"
  shows "\<exists>bs. Value_SerializeTo F v = Inr bs \<and> Value_DeserializeFrom F (bs @ rest) (vtype v) = Inr v"
proof (cases "int_width (vtype v) \<noteq> 0")
  case True
  note st = wf_int_store[OF v True]
  show ?thesis
    using True st
    by (cases "vtype v")
      (simp_all add: Value_SerializeTo_def Value_DeserializeFrom_def Boolean_SerializeTo_def
        Boolean_DeserializeFrom_def Tinyint_SerializeTo_def Tinyint_DeserializeFrom_def
        Smallint_SerializeTo_def Smallint_DeserializeFrom_def Integer_SerializeTo_def
        Integer_DeserializeFrom_def Bigint_SerializeTo_def Bigint_DeserializeFrom_def
        int_bytes_roundtrip del: as_int.simps)
next
  case False
  then have "vtype v = DECIMAL \<or> vtype v = VARCHAR"
    using v t by (cases "vval v"; cases "vtype v") (auto simp: wf_Value_def)
  then show ?thesis
  proof
    assume dec: "vtype v = DECIMAL"
    then obtain x where x: "vval v = VDec x" "vlen v = (if d_eq F x (d_lowest F) then BUSTUB_VALUE_NULL else 0)"
      using v by (cases "vval v") (auto simp: wf_Value_def)
    then show ?thesis
      using d[OF x(1)] dec
      by (cases v) (simp add: Value_SerializeTo_def Value_DeserializeFrom_def Decimal_SerializeTo_def
          Decimal_DeserializeFrom_def get_at_def)
  next
    assume var: "vtype v = VARCHAR"
    then show ?thesis
      using Varlen_roundtrip[OF v var, of rest]
      by (simp add: Value_SerializeTo_def Value_DeserializeFrom_def)
  qed
qed

text \<open>
  C36: every well-formed value of a type other than TIMESTAMP is read back unchanged from its
  serialised bytes, whatever bytes follow; for a DECIMAL this needs that the bytes of its double
  read back as that double.
\<close>

theorem serialize_roundtrip:
  assumes v: "wf_Value F v" and t: "vtype v \<noteq> TIMESTAMP"
    and d: "\<And>d. vval v = VDec d \<Longrightarrow> length (d_bytes F d) = 8 \<and> d_of_bytes F (d_bytes F d) = d"
  shows "\<exists>bs. Value_SerializeTo F v = Inr bs \<and> Value_DeserializeFrom F (bs @ rest) (vtype v) = Inr v"
  by (rule value_roundtrip[OF assms])

theorem serialize_roundtrip_witness:
  "\<exists>bs. Value_SerializeTo whole_floats \<lparr>vtype = DECIMAL, vval = VDec 12, vlen = 0\<rparr> = Inr bs \<and>
    Value_DeserializeFrom whole_floats (bs @ [7]) DECIMAL = Inr \<lparr>vtype = DECIMAL, vval = VDec 12, vlen = 0\<rparr>"
  using serialize_roundtrip[of whole_floats "\<lparr>vtype = DECIMAL, vval = VDec 12, vlen = 0\<rparr>" "[7]"]
    get_int_put_int[of 8 12]
  by (simp add: wf_Value_def whole_floats_def int_null_def in_range_def)

section \<open>Comparison of strings\<close>

text \<open>The order of strings by unsigned characters.\<close>

fun string_cmp :: "cmp_op \<Rightarrow> string \<Rightarrow> string \<Rightarrow> bool" where
  "string_cmp OpEq s t = (s = t)"
| "string_cmp OpNe s t = (s \<noteq> t)"
| "string_cmp OpLt s t = (s < t)"
| "string_cmp OpLe s t = (s \<le> t)"
| "string_cmp OpGt s t = (s > t)"
| "string_cmp OpGe s t = (s \<ge> t)"

text \<open>What \<open>CompareStrings\<close> computes on two strings.\<close>

definition compare_result :: "string \<Rightarrow> string \<Rightarrow> int" where
  "compare_result s t =
     (let ret = memcmp s t in if ret = 0 \<and> length s \<noteq> length t then int (length s) - int (length t) else ret)"

lemma of_char_inj: "(of_char c :: int) = of_char d \<longleftrightarrow> c = d"
  by (metis of_char_eq_iff)

lemma compare_result_Cons:
  "compare_result (a # s) (b # t) = (if a = b then compare_result s t else of_char a - of_char b)"
  by (auto simp: compare_result_def Let_def of_char_inj)

lemma compare_result_order:
  "(compare_result s t < 0 \<longleftrightarrow> s < t) \<and> (compare_result s t = 0 \<longleftrightarrow> s = t)"
proof (induction s arbitrary: t)
  case Nil
  then show ?case by (cases t) (auto simp: compare_result_def Let_def)
next
  case (Cons a s)
  show ?case
  proof (cases t)
    case Nil
    then show ?thesis by (auto simp: compare_result_def Let_def)
  next
    case (Cons b u)
    have "(of_char a :: int) < of_char b \<longleftrightarrow> a < b"
      unfolding less_char_def of_nat_of_char[of a, where ?'a = int, symmetric]
        of_nat_of_char[of b, where ?'a = int, symmetric] by simp
    then show ?thesis using Cons Cons.IH[of u] by (auto simp: compare_result_Cons of_char_inj)
  qed
qed

lemma memcmp_take: "memcmp (take (min (length s) (length t)) s) (take (min (length s) (length t)) t) = memcmp s t"
  by (induction s t rule: memcmp.induct) auto

lemma compare_result_cmp: "int_cmp c (compare_result s t) 0 = string_cmp c s t"
  using compare_result_order[of s t] by (cases c) (auto simp: not_less)

lemma compare_length_string:
  "length s < 2 ^ 31 \<Longrightarrow> vlen v = length s + 1 \<Longrightarrow> compare_length v = int (length s)"
  by (simp add: compare_length_def Varlen_GetLength_def in_range_def)

lemma CompareStrings_NUL:
  "CompareStrings (Some (s @ [NUL])) (int (length s)) (Some (t @ [NUL])) (int (length t)) = Inr (compare_result s t)"
proof -
  have n: "nat (min (int (length s)) (int (length t))) = min (length s) (length t)" by simp
  have "take (min (length s) (length t)) (s @ [NUL]) = take (min (length s) (length t)) s"
    "take (min (length s) (length t)) (t @ [NUL]) = take (min (length s) (length t)) t" by simp_all
  then show ?thesis
    unfolding CompareStrings_def n by (simp add: memcmp_take compare_result_def Let_def)
qed

lemmas Varlen_compare_defs = Value_CompareEquals_def Varlen_CompareEquals_def
  Value_CompareNotEquals_def Varlen_CompareNotEquals_def Value_CompareLessThan_def
  Varlen_CompareLessThan_def Value_CompareLessThanEquals_def Varlen_CompareLessThanEquals_def
  Value_CompareGreaterThan_def Varlen_CompareGreaterThan_def
  Value_CompareGreaterThanEquals_def Varlen_CompareGreaterThanEquals_def

lemma compare_strings:
  assumes v: "Value_string VARCHAR s = Inr v" and w: "Value_string VARCHAR t = Inr w"
    and len: "length s < 2 ^ 31" "length t < 2 ^ 31"
  shows "Value_compare F c v w = Inr (GetCmpBool (string_cmp c s t))"
proof -
  have vw: "vtype v = VARCHAR" "vtype w = VARCHAR" "vval v = VStr (s @ [NUL])" "vval w = VStr (t @ [NUL])"
    "vlen v = length s + 1" "vlen w = length t + 1" using v w by auto
  have nn: "\<not> IsNull v" "\<not> IsNull w" "Varlen_GetLength v \<noteq> BUSTUB_VARCHAR_MAX_LEN"
    "Varlen_GetLength w \<noteq> BUSTUB_VARCHAR_MAX_LEN"
    using vw len by (simp_all add: IsNull_def BUSTUB_VALUE_NULL_def Varlen_GetLength_def BUSTUB_VARCHAR_MAX_LEN_def)
  have cf: "Varlen_compare_func F c v w = Inr (GetCmpBool (string_cmp c s t))" for c
    using vw compare_length_string[OF len(1) vw(5)] compare_length_string[OF len(2) vw(6)]
    by (simp add: Varlen_compare_func_def CompareStrings_NUL compare_result_cmp)
  have cc: "assert_comparable v w m = m" for m :: "CmpBool result"
    using vw by (simp add: assert_comparable_def CheckComparable_def)
  show ?thesis
    using nn vw(1,2) by (cases c) (simp_all add: Varlen_compare_defs cc cf)
qed

text \<open>
  The six comparisons of two VARCHAR values made from strings decide the lexicographic order
  of the strings by unsigned characters, a proper prefix first; the terminating NUL takes no part.
\<close>

theorem varchar_comparison:
  assumes v: "Value_string VARCHAR s = Inr v" and w: "Value_string VARCHAR t = Inr w"
    and len: "length s < 2 ^ 31" "length t < 2 ^ 31"
  shows "Value_compare F c v w = Inr (GetCmpBool (string_cmp c s t))"
  by (rule compare_strings[OF assms])

theorem varchar_comparison_witness:
  "Value_compare whole_floats OpLt \<lparr>vtype = VARCHAR, vval = VStr (''ab'' @ [NUL]), vlen = 3\<rparr>
     \<lparr>vtype = VARCHAR, vval = VStr (''abc'' @ [NUL]), vlen = 4\<rparr> = Inr CmpTrue"
  using varchar_comparison[of "''ab''" "\<lparr>vtype = VARCHAR, vval = VStr (''ab'' @ [NUL]), vlen = 3\<rparr>"
      "''abc''" "\<lparr>vtype = VARCHAR, vval = VStr (''abc'' @ [NUL]), vlen = 4\<rparr>" whole_floats OpLt]
  by (simp add: GetCmpBool_def)

text \<open>
  The cast of a VARCHAR value made from a string to BOOLEAN always throws: the terminating
  NUL is compared too, so not even ''true'' is accepted.
\<close>

theorem string_to_boolean_throws:
  assumes "Value_string VARCHAR s = Inr v"
  shows "Value_CastAs F v BOOLEAN = Inl (Throw ExceptionType.INVALID)"
proof -
  have t: "vtype v = VARCHAR" using assms by auto
  have l: "tolower NUL = NUL" by (simp add: tolower_def NUL_def)
  have ne: "map tolower s @ [NUL] \<noteq> xs" if "NUL \<notin> set xs" for xs using that by auto
  show ?thesis
    by (simp add: Value_CastAs_def t Varlen_CastAs_def Value_ToString_string[OF assms] l Let_def ne)
      (auto simp: NUL_def Cons_eq_append_conv append_eq_Cons_conv)
qed

theorem string_to_boolean_throws_witness:
  "Value_CastAs whole_floats \<lparr>vtype = VARCHAR, vval = VStr (''true'' @ [NUL]), vlen = 5\<rparr> BOOLEAN =
    Inl (Throw ExceptionType.INVALID)"
  using string_to_boolean_throws[of "''true''" "\<lparr>vtype = VARCHAR, vval = VStr (''true'' @ [NUL]), vlen = 5\<rparr>" whole_floats]
  by simp

end
