(* ===== verification/Row.thy ===== *)
theory Row
  imports Table_Page Text_Laws
begin

text \<open>
  Rows: \<open>include/catalog/column.h\<close>, \<open>include/catalog/schema.h\<close>, \<open>src/catalog/schema.cpp\<close>,
  \<open>src/catalog/column.cpp\<close> and \<open>src/storage/table/tuple.cpp\<close>. A tuple holds its inlined columns
  at their offsets, and for each VARCHAR an offset to length and characters after them.
\<close>

section \<open>Columns\<close>

record Column =
  column_name :: string
  column_type :: TypeId
  fixed_length :: nat
  variable_length :: nat
  column_offset :: nat

definition TypeSize :: "TypeId \<Rightarrow> nat result" where
  "TypeSize T = (case T of
     BOOLEAN \<Rightarrow> Inr 1
   | TINYINT \<Rightarrow> Inr 1
   | SMALLINT \<Rightarrow> Inr 2
   | INTEGER \<Rightarrow> Inr 4
   | BIGINT \<Rightarrow> Inr 8
   | DECIMAL \<Rightarrow> Inr 8
   | TIMESTAMP \<Rightarrow> Inr 8
   | VARCHAR \<Rightarrow> Inr 12
   | INVALID \<Rightarrow> Inl Std_logic_error)"

text \<open>The constructors for fixed and variable length.\<close>

definition new_Column :: "string \<Rightarrow> TypeId \<Rightarrow> Column result" where
  "new_Column name T =
     bind_r (TypeSize T) (\<lambda>n.
     bind_r (guard_r (T \<noteq> VARCHAR) Assertion_failed) (\<lambda>_.
     Inr \<lparr>column_name = name, column_type = T, fixed_length = n, variable_length = 0, column_offset = 0\<rparr>))"

definition new_varlen_Column :: "string \<Rightarrow> TypeId \<Rightarrow> nat \<Rightarrow> Column result" where
  "new_varlen_Column name T len =
     bind_r (TypeSize T) (\<lambda>n.
     bind_r (guard_r (T = VARCHAR) Assertion_failed) (\<lambda>_.
     Inr \<lparr>column_name = name, column_type = T, fixed_length = n, variable_length = len, column_offset = 0\<rparr>))"

definition rename_Column :: "string \<Rightarrow> Column \<Rightarrow> Column" where
  "rename_Column name c = c\<lparr>column_name := name\<rparr>"

definition Column_IsInlined :: "Column \<Rightarrow> bool" where
  "Column_IsInlined c \<longleftrightarrow> column_type c \<noteq> VARCHAR"

definition Column_GetLength :: "Column \<Rightarrow> nat" where
  "Column_GetLength c = (if Column_IsInlined c then fixed_length c else variable_length c)"

definition Column_ToString :: "bool \<Rightarrow> Column \<Rightarrow> string" where
  "Column_ToString simplified c =
     (if simplified then column_name c @ '':'' @ TypeIdToString (column_type c)
      else ''Column['' @ column_name c @ '', '' @ TypeIdToString (column_type c) @ '', '' @
        ''Offset:'' @ to_string_int (int (column_offset c)) @ '', '' @
        (if Column_IsInlined c then ''FixedLength:'' @ to_string_int (int (fixed_length c))
         else ''VarLength:'' @ to_string_int (int (variable_length c))) @ '']'')"

section \<open>Schemas\<close>

record Schema =
  schema_length :: nat
  columns :: "Column list"
  tuple_is_inlined :: bool
  uninlined_columns :: "nat list"

text \<open>The loop of the constructor, from an index and the offset reached.\<close>

fun schema_loop :: "nat \<Rightarrow> nat \<Rightarrow> Column list \<Rightarrow> Schema \<Rightarrow> Schema" where
  "schema_loop index curr_offset [] s = s\<lparr>schema_length := curr_offset\<rparr>"
| "schema_loop index curr_offset (column # cs) s =
     (let s = (if \<not> Column_IsInlined column
               then s\<lparr>tuple_is_inlined := False, uninlined_columns := uninlined_columns s @ [index]\<rparr> else s);
          column = column\<lparr>column_offset := curr_offset\<rparr>
      in schema_loop (index + 1) ((curr_offset + fixed_length column) mod 2 ^ 32) cs
           (s\<lparr>columns := columns s @ [column]\<rparr>))"

definition new_Schema :: "Column list \<Rightarrow> Schema" where
  "new_Schema cols =
     schema_loop 0 0 cols \<lparr>schema_length = 0, columns = [], tuple_is_inlined = True, uninlined_columns = []\<rparr>"

definition CopySchema :: "Schema \<Rightarrow> nat list \<Rightarrow> Schema result" where
  "CopySchema from attrs =
     bind_r (guard_r (list_all (\<lambda>i. i < length (columns from)) attrs) Undefined_behaviour) (\<lambda>_.
     Inr (new_Schema (map (\<lambda>i. columns from ! i) attrs)))"

definition GetColumnCount :: "Schema \<Rightarrow> nat" where
  "GetColumnCount s = length (columns s)"

definition GetUnlinedColumnCount :: "Schema \<Rightarrow> nat" where
  "GetUnlinedColumnCount s = length (uninlined_columns s)"

definition TryGetColIdx :: "string \<Rightarrow> Schema \<Rightarrow> nat option" where
  "TryGetColIdx col_name s = List.find (\<lambda>i. column_name (columns s ! i) = col_name) [0..<length (columns s)]"

definition GetColIdx :: "string \<Rightarrow> Schema \<Rightarrow> nat result" where
  "GetColIdx col_name s = (case TryGetColIdx col_name s of Some i \<Rightarrow> Inr i | None \<Rightarrow> Inl Std_logic_error)"

fun join_columns :: "bool \<Rightarrow> bool \<Rightarrow> Column list \<Rightarrow> string" where
  "join_columns simplified first [] = []"
| "join_columns simplified first (c # cs) =
     (if first then [] else '', '') @ Column_ToString simplified c @ join_columns simplified False cs"

definition Schema_ToString :: "bool \<Rightarrow> Schema \<Rightarrow> string" where
  "Schema_ToString simplified s =
     (if simplified then ''('' @ join_columns simplified True (columns s) @ '')''
      else ''Schema['' @ ''NumColumns:'' @ to_string_int (int (GetColumnCount s)) @ '', '' @
        ''IsInlined:'' @ (if tuple_is_inlined s then ''1'' else ''0'') @ '', '' @
        ''Length:'' @ to_string_int (int (schema_length s)) @ '']'' @
        '' :: ('' @ join_columns True True (columns s) @ '')'')"

section \<open>Tuples from values\<close>

definition Value_GetLength :: "'d Value \<Rightarrow> nat result" where
  "Value_GetLength v = (case vtype v of
     VARCHAR \<Rightarrow> Inr (Varlen_GetLength v)
   | TIMESTAMP \<Rightarrow> Inl Undefined_behaviour
   | _ \<Rightarrow> Type_not_implemented)"

text \<open>The length of a value in the variable part: NULL counts as 0.\<close>

definition stored_length :: "'d Value \<Rightarrow> nat result" where
  "stored_length v = bind_r (Value_GetLength v) (\<lambda>len. Inr (if len = BUSTUB_VALUE_NULL then 0 else len))"

text \<open>A write into the buffer of the tuple must stay inside it.\<close>

definition write_bytes :: "nat \<Rightarrow> byte list \<Rightarrow> byte list \<Rightarrow> byte list result" where
  "write_bytes off bs data =
     (if off + length bs \<le> length data then Inr (put_at off bs data) else Inl Undefined_behaviour)"

definition add_stored_length :: "'d Value list \<Rightarrow> nat \<Rightarrow> nat \<Rightarrow> nat result" where
  "add_stored_length values i tuple_size =
     bind_r (stored_length (values ! i)) (\<lambda>len. Inr ((tuple_size + (len + 4)) mod 2 ^ 32))"

definition store_column :: "'d float_ops \<Rightarrow> Column \<times> 'd Value \<Rightarrow> byte list \<times> nat \<Rightarrow> (byte list \<times> nat) result" where
  "store_column F cv s =
     (case (cv, s) of ((col, v), (data, offset)) \<Rightarrow>
        if \<not> Column_IsInlined col
        then bind_r (write_bytes (column_offset col) (put_int 4 (int offset)) data) (\<lambda>data.
             bind_r (Value_SerializeTo F v) (\<lambda>bs.
             bind_r (write_bytes offset bs data) (\<lambda>data.
             bind_r (stored_length v) (\<lambda>len.
             Inr (data, (offset + (len + 4)) mod 2 ^ 32)))))
        else bind_r (Value_SerializeTo F v) (\<lambda>bs.
             bind_r (write_bytes (column_offset col) bs data) (\<lambda>data. Inr (data, offset))))"

definition Tuple_of_values :: "'d float_ops \<Rightarrow> 'd Value list \<Rightarrow> Schema \<Rightarrow> Tuple result" where
  "Tuple_of_values F values schema =
     bind_r (guard_r (length values = GetColumnCount schema) Assertion_failed) (\<lambda>_.
     bind_r (fold_r (add_stored_length values) (uninlined_columns schema) (schema_length schema)) (\<lambda>tuple_size.
     bind_r (fold_r (store_column F) (zip (columns schema) values) (replicate tuple_size 0, schema_length schema))
       (\<lambda>(data, offset).
     Inr \<lparr>tallocated = True, trid = new_RID, tsize = tuple_size, tdata = Some data\<rparr>)))"

section \<open>Values of tuples\<close>

text \<open>The bytes that \<open>DeserializeFrom\<close> reads must lie in the buffer.\<close>

definition readable :: "TypeId \<Rightarrow> byte list \<Rightarrow> bool" where
  "readable T bs \<longleftrightarrow>
     (case T of
        VARCHAR \<Rightarrow> 4 \<le> length bs \<and>
          (let len = get_uint (get_at 0 4 bs) in len = BUSTUB_VALUE_NULL \<or> 4 + len \<le> length bs)
      | _ \<Rightarrow> (case TypeSize T of Inr n \<Rightarrow> n \<le> length bs | Inl _ \<Rightarrow> True))"

text \<open>The storage that \<open>GetDataPtr\<close> points to.\<close>

definition GetDataPtr :: "byte list \<Rightarrow> Column \<Rightarrow> byte list result" where
  "GetDataPtr data col =
     (if Column_IsInlined col then Inr (drop (column_offset col) data)
      else if length data < column_offset col + 4 then Inl Undefined_behaviour
      else let offset = get_int (get_at (column_offset col) 4 data)
        in if offset < 0 \<or> int (length data) < offset then Inl Undefined_behaviour
           else Inr (drop (nat offset) data))"

definition read_column :: "'d float_ops \<Rightarrow> byte list \<Rightarrow> Column \<Rightarrow> 'd Value result" where
  "read_column F data col =
     bind_r (GetDataPtr data col) (\<lambda>storage.
     if readable (column_type col) storage then Value_DeserializeFrom F storage (column_type col)
     else Inl Undefined_behaviour)"

definition Tuple_GetValue :: "'d float_ops \<Rightarrow> Tuple \<Rightarrow> Schema \<Rightarrow> nat \<Rightarrow> 'd Value result" where
  "Tuple_GetValue F t schema column_idx =
     (case tdata t of
        None \<Rightarrow> Inl Assertion_failed
      | Some data \<Rightarrow>
          if column_idx \<ge> GetColumnCount schema then Inl Undefined_behaviour
          else read_column F data (columns schema ! column_idx))"

fun map_r :: "('a \<Rightarrow> 'b result) \<Rightarrow> 'a list \<Rightarrow> 'b list result" where
  "map_r f [] = Inr []"
| "map_r f (x # xs) = bind_r (f x) (\<lambda>y. bind_r (map_r f xs) (\<lambda>ys. Inr (y # ys)))"

definition KeyFromTuple :: "'d float_ops \<Rightarrow> Tuple \<Rightarrow> Schema \<Rightarrow> Schema \<Rightarrow> nat list \<Rightarrow> Tuple result" where
  "KeyFromTuple F t schema key_schema key_attrs =
     bind_r (map_r (\<lambda>idx. Tuple_GetValue F t schema idx) key_attrs) (\<lambda>values. Tuple_of_values F values key_schema)"

definition Tuple_IsNull :: "'d float_ops \<Rightarrow> Tuple \<Rightarrow> Schema \<Rightarrow> nat \<Rightarrow> bool result" where
  "Tuple_IsNull F t schema column_idx = bind_r (Tuple_GetValue F t schema column_idx) (\<lambda>v. Inr (IsNull v))"

fun join_values :: "'d float_ops \<Rightarrow> Tuple \<Rightarrow> Schema \<Rightarrow> bool \<Rightarrow> nat list \<Rightarrow> string result" where
  "join_values F t schema first [] = Inr []"
| "join_values F t schema first (i # is) =
     bind_r (Tuple_IsNull F t schema i) (\<lambda>null.
     bind_r (if null then Inr ''<NULL>'' else bind_r (Tuple_GetValue F t schema i) (Value_ToString F)) (\<lambda>str.
     bind_r (join_values F t schema False is) (\<lambda>rest.
     Inr ((if first then [] else '', '') @ str @ rest))))"

definition Tuple_ToString :: "'d float_ops \<Rightarrow> Tuple \<Rightarrow> Schema \<Rightarrow> string result" where
  "Tuple_ToString F t schema =
     bind_r (join_values F t schema True [0..<GetColumnCount schema]) (\<lambda>str.
     Inr (''('' @ str @ '')'' @ '' Tuple size is '' @ to_string_int (int (tsize t))))"

section \<open>Copies and storage\<close>

text \<open>
  The copy constructor and the assignment: a deep copy of an allocated tuple, else the same
  pointer. A deep copy reads \<open>size_\<close> bytes.
\<close>

definition Tuple_copy :: "Tuple \<Rightarrow> Tuple result" where
  "Tuple_copy other =
     (if tallocated other
      then case tdata other of
          Some data \<Rightarrow> if tsize other \<le> length data then Inr (other\<lparr>tdata := Some (take (tsize other) data)\<rparr>)
                       else Inl Undefined_behaviour
        | None \<Rightarrow> if tsize other = 0 then Inr (other\<lparr>tdata := Some []\<rparr>) else Inl Undefined_behaviour
      else Inr other)"

definition Tuple_SerializeTo :: "Tuple \<Rightarrow> byte list result" where
  "Tuple_SerializeTo t =
     (case tdata t of
        Some data \<Rightarrow> if tsize t \<le> length data then Inr (put_int 4 (int (tsize t)) @ take (tsize t) data)
                     else Inl Undefined_behaviour
      | None \<Rightarrow> if tsize t = 0 then Inr (put_int 4 0) else Inl Undefined_behaviour)"

definition Tuple_DeserializeFrom :: "byte list \<Rightarrow> Tuple \<Rightarrow> Tuple result" where
  "Tuple_DeserializeFrom storage t =
     (let size = get_uint (get_at 0 4 storage)
      in if length storage < 4 + size then Inl Undefined_behaviour
         else Inr (t\<lparr>tsize := size, tdata := Some (get_at 4 size storage), tallocated := True\<rparr>))"

section \<open>Layout of a row\<close>

fun place :: "nat \<Rightarrow> Column list \<Rightarrow> Column list" where
  "place a [] = []"
| "place a (c # cs) = c\<lparr>column_offset := a\<rparr> # place (a + fixed_length c) cs"

fun uninlined_from :: "nat \<Rightarrow> Column list \<Rightarrow> nat list" where
  "uninlined_from i [] = []"
| "uninlined_from i (c # cs) = (if Column_IsInlined c then [] else [i]) @ uninlined_from (i + 1) cs"

definition fixed_size :: "Column list \<Rightarrow> nat" where
  "fixed_size cols = sum_list (map fixed_length cols)"

text \<open>The characters of a value in the variable part.\<close>

definition text_length :: "'d Value \<Rightarrow> nat" where
  "text_length v = (if IsNull v then 0 else vlen v)"

definition extra :: "Column \<Rightarrow> 'd Value \<Rightarrow> nat" where
  "extra c v = (if Column_IsInlined c then 0 else text_length v + 4)"

definition extra_size :: "Column list \<Rightarrow> 'd Value list \<Rightarrow> nat" where
  "extra_size cols vs = sum_list (map2 extra cols vs)"

text \<open>A value that fits its column.\<close>

definition cell_ok :: "'d float_ops \<Rightarrow> Column \<Rightarrow> 'd Value \<Rightarrow> bool" where
  "cell_ok F c v \<longleftrightarrow> wf_Value F v \<and> vtype v = column_type c \<and> column_type c \<noteq> TIMESTAMP \<and>
     TypeSize (column_type c) = Inr (fixed_length c) \<and>
     (case vval v of VDec d \<Rightarrow> length (d_bytes F d) = 8 \<and> d_of_bytes F (d_bytes F d) = d | _ \<Rightarrow> True)"

definition row_ok :: "'d float_ops \<Rightarrow> Column list \<Rightarrow> 'd Value list \<Rightarrow> bool" where
  "row_ok F cols vs \<longleftrightarrow> list_all2 (cell_ok F) cols vs \<and> fixed_size cols + extra_size cols vs < 2 ^ 31"

lemma size_simps [simp]:
  "fixed_size [] = 0" "fixed_size (c # cs) = fixed_length c + fixed_size cs"
  "extra_size [] vs = 0" "extra_size (c # cs) (v # vs) = extra c v + extra_size cs vs"
  by (simp_all add: fixed_size_def extra_size_def)

lemma column_place [simp]: "length (place a cs) = length cs"
  by (induction cs arbitrary: a) simp_all

lemma schema_loop_eq:
  "a + fixed_size cols < 2 ^ 32 \<Longrightarrow>
   schema_loop i a cols s = s\<lparr>schema_length := a + fixed_size cols, columns := columns s @ place a cols,
     tuple_is_inlined := tuple_is_inlined s \<and> list_all Column_IsInlined cols,
     uninlined_columns := uninlined_columns s @ uninlined_from i cols\<rparr>"
  by (induction cols arbitrary: i a s) (simp_all add: Let_def Column_IsInlined_def)

lemma new_Schema_eq:
  assumes "fixed_size cols < 2 ^ 32"
  shows "schema_length (new_Schema cols) = fixed_size cols" and "columns (new_Schema cols) = place 0 cols"
    and "uninlined_columns (new_Schema cols) = uninlined_from 0 cols"
  using assms by (simp_all add: new_Schema_def schema_loop_eq)

lemma stored_length_text:
  assumes "wf_Value F v" and "vtype v = VARCHAR"
  shows "stored_length v = Inr (text_length v)"
  using assms by (simp add: stored_length_def Value_GetLength_def Varlen_GetLength_def text_length_def IsNull_def)

lemma inlined_length:
  assumes v: "wf_Value F v" and t: "vtype v \<noteq> VARCHAR" "vtype v \<noteq> TIMESTAMP" and n: "TypeSize (vtype v) = Inr n"
    and d: "\<And>d. vval v = VDec d \<Longrightarrow> length (d_bytes F d) = 8" and bs: "Value_SerializeTo F v = Inr bs"
  shows "length bs = n"
proof (cases "vtype v = DECIMAL")
  case True
  then obtain x where "vval v = VDec x" using v by (cases "vval v") (auto simp: wf_Value_def)
  then show ?thesis using d n bs True by (auto simp: Value_SerializeTo_def Decimal_SerializeTo_def TypeSize_def)
next
  case False
  then show ?thesis
    using t n bs
    by (cases "vtype v")
      (auto simp: Value_SerializeTo_def Boolean_SerializeTo_def Tinyint_SerializeTo_def Smallint_SerializeTo_def
        Integer_SerializeTo_def Bigint_SerializeTo_def TypeSize_def)
qed

lemma varlen_bytes:
  assumes v: "wf_Value F v" and t: "vtype v = VARCHAR" and bs: "Value_SerializeTo F v = Inr bs"
  shows "length bs = text_length v + 4" and "readable VARCHAR (bs @ rest)"
proof -
  have "length bs = text_length v + 4 \<and> (get_uint (get_at 0 4 bs) = vlen v) \<and> vlen v < 2 ^ 32"
    using v t bs
    by (cases "vval v")
      (auto simp: wf_Value_def Value_SerializeTo_def Varlen_SerializeTo_def Varlen_GetLength_def text_length_def
        IsNull_def get_at_def get_uint_put_int BUSTUB_VALUE_NULL_def Let_def)
  then show "length bs = text_length v + 4" "readable VARCHAR (bs @ rest)"
    by (auto simp: readable_def get_at_def Let_def text_length_def IsNull_def split: if_splits)
qed

lemma cell_bytes:
  assumes "cell_ok F c v"
  shows "\<exists>bs. Value_SerializeTo F v = Inr bs \<and> (\<forall>rest. Value_DeserializeFrom F (bs @ rest) (column_type c) = Inr v) \<and>
    (\<forall>rest. readable (column_type c) (bs @ rest)) \<and> (Column_IsInlined c \<longrightarrow> length bs = fixed_length c) \<and>
    (\<not> Column_IsInlined c \<longrightarrow> length bs = text_length v + 4 \<and> stored_length v = Inr (text_length v) \<and> fixed_length c = 12)"
proof -
  have wf: "wf_Value F v" and ty: "vtype v = column_type c" "vtype v \<noteq> TIMESTAMP" and n: "TypeSize (vtype v) = Inr (fixed_length c)"
    and d: "\<And>d. vval v = VDec d \<Longrightarrow> length (d_bytes F d) = 8 \<and> d_of_bytes F (d_bytes F d) = d"
    using assms by (auto simp: cell_ok_def)
  note rt = value_roundtrip[OF wf ty(2) d]
  obtain bs where bs: "Value_SerializeTo F v = Inr bs" using rt by blast
  then have de: "Value_DeserializeFrom F (bs @ rest) (column_type c) = Inr v" for rest using rt[of rest] ty(1) by auto
  show ?thesis
  proof (cases "vtype v = VARCHAR")
    case True
    then have "fixed_length c = 12" using n by (simp add: TypeSize_def)
    then show ?thesis
      using bs de varlen_bytes[OF wf True bs] stored_length_text[OF wf True] True ty(1) by (simp add: Column_IsInlined_def)
  next
    case False
    note len = inlined_length[OF wf False ty(2) n _ bs]
    have l: "length bs = fixed_length c" using len d by blast
    have "readable (column_type c) (bs @ rest)" for rest
      using False n l ty(1) by (cases "vtype v") (auto simp: readable_def)
    then show ?thesis using bs de l False ty(1) by (simp add: Column_IsInlined_def)
  qed
qed

lemma drop_get_at: "get_at off (length bs) d = bs \<Longrightarrow> drop off d = bs @ drop (off + length bs) d"
  by (metis add.commute append_take_drop_id drop_drop get_at_def)

text \<open>Storing the columns of a row from an offset on.\<close>

lemma store_columns:
  "\<lbrakk> list_all2 (cell_ok F) cols vs; a + fixed_size cols \<le> len; len \<le> off; off + extra_size cols vs \<le> length d;
     off + extra_size cols vs < 2 ^ 31 \<rbrakk> \<Longrightarrow>
   \<exists>d'. fold_r (store_column F) (zip (place a cols) vs) (d, off) = Inr (d', off + extra_size cols vs) \<and> length d' = length d \<and>
     (\<forall>p m. p + m \<le> a \<or> len \<le> p \<and> p + m \<le> off \<longrightarrow> get_at p m d' = get_at p m d) \<and>
     (\<forall>i<length cols. read_column F d' (place a cols ! i) = Inr (vs ! i))"
proof (induction cols vs arbitrary: a off d rule: list_all2_induct)
  case Nil
  then show ?case by simp
next
  case (Cons c cs v vs)
  from Cons.hyps(1) obtain bs where bs: "Value_SerializeTo F v = Inr bs"
    "\<And>rest. Value_DeserializeFrom F (bs @ rest) (column_type c) = Inr v" "\<And>rest. readable (column_type c) (bs @ rest)"
    and inl: "Column_IsInlined c \<Longrightarrow> length bs = fixed_length c"
    and unl: "\<not> Column_IsInlined c \<Longrightarrow> length bs = text_length v + 4 \<and> stored_length v = Inr (text_length v) \<and> fixed_length c = 12"
    using cell_bytes[OF Cons.hyps(1)] by blast
  let ?c = "c\<lparr>column_offset := a\<rparr>"
  have col: "Column_IsInlined ?c = Column_IsInlined c" "column_type ?c = column_type c" by (simp_all add: Column_IsInlined_def)
  have a': "a + fixed_length c + fixed_size cs \<le> len" using Cons.prems(1) by simp
  show ?case
  proof (cases "Column_IsInlined c")
    case True
    then have ex: "extra c v = 0" and n: "length bs = fixed_length c" using inl by (simp_all add: extra_def)
    have room: "a + length bs \<le> length d" using a' n Cons.prems(2,3) by simp
    define d1 where "d1 = put_at a bs d"
    have st: "store_column F (?c, v) (d, off) = Inr (d1, off)"
      using True room by (simp add: store_column_def col bs(1) write_bytes_def d1_def)
    have l1: "length d1 = length d" using room by (simp add: d1_def)
    have p1: "off + extra_size cs vs \<le> length d1" "off + extra_size cs vs < 2 ^ 31"
      using Cons.prems(3,4) ex l1 by simp_all
    from Cons.IH[OF a' Cons.prems(2) p1] obtain d' where
      d': "fold_r (store_column F) (zip (place (a + fixed_length c) cs) vs) (d1, off) = Inr (d', off + extra_size cs vs)"
        "length d' = length d1" "\<And>p m. p + m \<le> a + fixed_length c \<or> len \<le> p \<and> p + m \<le> off \<Longrightarrow> get_at p m d' = get_at p m d1"
        "\<And>i. i < length cs \<Longrightarrow> read_column F d' (place (a + fixed_length c) cs ! i) = Inr (vs ! i)" by blast
    have "get_at a (length bs) d' = bs" using d'(3)[of a "length bs"] n get_at_put_at_same[OF room] by (simp add: d1_def)
    then have "read_column F d' ?c = Inr v"
      using True bs(2,3) drop_get_at[of a bs d'] by (simp add: read_column_def GetDataPtr_def col)
    then have "read_column F d' (place a (c # cs) ! i) = Inr ((v # vs) ! i)" if "i < length (c # cs)" for i
      using that d'(4) by (cases i) simp_all
    moreover have "get_at p m d' = get_at p m d" if "p + m \<le> a \<or> len \<le> p \<and> p + m \<le> off" for p m
    proof -
      have "get_at p m d1 = get_at p m d"
        using that room n a' Cons.prems(2,3) unfolding d1_def by (intro get_at_put_at_other) auto
      then show ?thesis using that d'(3)[of p m] by auto
    qed
    ultimately show ?thesis using d'(1,2) st l1 ex by simp
  next
    case False
    note u = unl[OF False]
    have ex: "extra c v = length bs" using False u by (simp add: extra_def)
    have room: "a + 4 \<le> length d" "off + length bs \<le> length d" using a' u Cons.prems(2,3) ex by simp_all
    define d1 where "d1 = put_at a (put_int 4 (int off)) d"
    have l1: "length d1 = length d" using room by (simp add: d1_def)
    define d2 where "d2 = put_at off bs d1"
    have l2: "length d2 = length d" using room l1 by (simp add: d2_def)
    have small: "(off + (text_length v + 4)) mod 2 ^ 32 = off + length bs"
      using Cons.prems(4) ex u by simp
    have st: "store_column F (?c, v) (d, off) = Inr (d2, off + length bs)"
      using False room l1 u small by (simp add: store_column_def col bs(1) write_bytes_def d1_def d2_def)
    have p1: "len \<le> off + length bs" "off + length bs + extra_size cs vs \<le> length d2" "off + length bs + extra_size cs vs < 2 ^ 31"
      using Cons.prems(2-4) ex l2 by simp_all
    from Cons.IH[OF a' p1] obtain d' where
      d': "fold_r (store_column F) (zip (place (a + fixed_length c) cs) vs) (d2, off + length bs) =
          Inr (d', off + length bs + extra_size cs vs)"
        "length d' = length d2" "\<And>p m. p + m \<le> a + fixed_length c \<or> len \<le> p \<and> p + m \<le> off + length bs \<Longrightarrow> get_at p m d' = get_at p m d2"
        "\<And>i. i < length cs \<Longrightarrow> read_column F d' (place (a + fixed_length c) cs ! i) = Inr (vs ! i)" by blast
    have "get_at off (length bs) d' = bs"
      using d'(3)[of off "length bs"] Cons.prems(2) get_at_put_at_same[of off bs d1] room(2) l1 by (simp add: d2_def)
    note dr = drop_get_at[OF this]
    have "get_at a 4 d2 = get_at a 4 d1"
      using room l1 u a' Cons.prems(2) unfolding d2_def by (intro get_at_put_at_other) auto
    then have "get_at a 4 d' = put_int 4 (int off)"
      using d'(3)[of a 4] u get_at_put_at_same[of a "put_int 4 (int off)" d] room(1) by (simp add: d1_def)
    moreover have "get_int (put_int 4 (int off)) = int off"
      using Cons.prems(4) get_int_put_int[of 4 "int off"] by (simp add: in_range_def)
    ultimately have "GetDataPtr d' ?c = Inr (drop off d')"
      using False room d'(2) l2 by (simp add: GetDataPtr_def col)
    then have "read_column F d' ?c = Inr v"
      using bs(2,3) dr by (simp add: read_column_def)
    then have "read_column F d' (place a (c # cs) ! i) = Inr ((v # vs) ! i)" if "i < length (c # cs)" for i
      using that d'(4) by (cases i) simp_all
    moreover have "get_at p m d' = get_at p m d" if "p + m \<le> a \<or> len \<le> p \<and> p + m \<le> off" for p m
    proof -
      have "get_at p m d2 = get_at p m d1"
        using that room l1 a' Cons.prems(2) unfolding d2_def by (intro get_at_put_at_other) auto
      moreover have "get_at p m d1 = get_at p m d"
        using that room a' u Cons.prems(2) unfolding d1_def by (intro get_at_put_at_other) auto
      ultimately show ?thesis using that d'(3)[of p m] by auto
    qed
    ultimately show ?thesis using d'(1,2) st l2 ex by (simp add: add.assoc)
  qed
qed

lemma tuple_size_loop:
  "\<lbrakk> list_all2 (cell_ok F) cols vs; sz + extra_size cols vs < 2 ^ 31 \<rbrakk> \<Longrightarrow>
   fold_r (add_stored_length (pre @ vs)) (uninlined_from (length pre) cols) sz = Inr (sz + extra_size cols vs)"
proof (induction cols vs arbitrary: pre sz rule: list_all2_induct)
  case (Cons c cs v vs)
  have IH: "fold_r (add_stored_length (pre @ v # vs)) (uninlined_from (length pre + 1) cs) s = Inr (s + extra_size cs vs)"
    if "s + extra_size cs vs < 2 ^ 31" for s
    using Cons.IH[of s "pre @ [v]"] that by simp
  show ?case
  proof (cases "Column_IsInlined c")
    case True
    then show ?thesis using IH[of sz] Cons.prems by (simp add: extra_def)
  next
    case False
    have wf: "wf_Value F v" "vtype v = VARCHAR"
      using Cons.hyps(1) False by (simp_all add: cell_ok_def Column_IsInlined_def)
    have "add_stored_length (pre @ v # vs) (length pre) sz = Inr (sz + extra c v)"
      using stored_length_text[OF wf] False Cons.prems by (simp add: add_stored_length_def nth_append extra_def)
    then show ?thesis using False IH[of "sz + extra c v"] Cons.prems by (simp add: add.assoc)
  qed
qed simp

lemma Tuple_of_values_correct:
  assumes r: "row_ok F cols vs"
  obtains t where "Tuple_of_values F vs (new_Schema cols) = Inr t" and "tsize t = fixed_size cols + extra_size cols vs"
    and "\<And>data. tdata t = Some data \<Longrightarrow> length data = tsize t" and "tallocated t"
    and "\<And>i. i < length cols \<Longrightarrow> Tuple_GetValue F t (new_Schema cols) i = Inr (vs ! i)"
proof -
  have all: "list_all2 (cell_ok F) cols vs" and small: "fixed_size cols + extra_size cols vs < 2 ^ 31"
    using r by (simp_all add: row_ok_def)
  have len: "length vs = length cols" using all by (simp add: list_all2_lengthD)
  note sch = new_Schema_eq[of cols]
  have f32: "fixed_size cols < 2 ^ 32" using small by simp
  let ?n = "fixed_size cols + extra_size cols vs"
  from store_columns[OF all, of 0 "fixed_size cols" "fixed_size cols" "replicate ?n 0"] small obtain d where
    d: "fold_r (store_column F) (zip (place 0 cols) vs) (replicate ?n 0, fixed_size cols) = Inr (d, ?n)"
      "length d = ?n" "\<forall>i<length cols. read_column F d (place 0 cols ! i) = Inr (vs ! i)" by auto
  have sz: "fold_r (add_stored_length vs) (uninlined_from 0 cols) (fixed_size cols) = Inr ?n"
    using tuple_size_loop[OF all, of "fixed_size cols" "[]"] small by simp
  let ?t = "\<lparr>tallocated = True, trid = new_RID, tsize = ?n, tdata = Some d\<rparr>"
  have "Tuple_of_values F vs (new_Schema cols) = Inr ?t"
    using len f32 sz d(1) by (simp add: Tuple_of_values_def GetColumnCount_def sch)
  moreover have "Tuple_GetValue F ?t (new_Schema cols) i = Inr (vs ! i)" if "i < length cols" for i
    using that d(3) f32 by (simp add: Tuple_GetValue_def GetColumnCount_def sch)
  ultimately show ?thesis using that[of ?t] d(2) by simp
qed

section \<open>Properties\<close>

text \<open>
  C37: A row reads back. For columns made by the constructors of \<open>Column\<close> and values of their
  types (NULL and text of any length included, no TIMESTAMP) whose row is shorter than 2^31
  bytes, the tuple built from the values yields every value again through \<open>GetValue\<close>, and a tuple
  deserialised from its serialised bytes is the same tuple.
\<close>
theorem row_roundtrip:
  assumes "row_ok F cols vs"
  shows "\<exists>t. Tuple_of_values F vs (new_Schema cols) = Inr t \<and>
    (\<forall>i<length cols. Tuple_GetValue F t (new_Schema cols) i = Inr (vs ! i)) \<and>
    (\<exists>bytes. Tuple_SerializeTo t = Inr bytes \<and> Tuple_DeserializeFrom (bytes @ rest) u = Inr (t\<lparr>trid := trid u\<rparr>))"
proof -
  have small: "fixed_size cols + extra_size cols vs < 2 ^ 31" using assms by (simp add: row_ok_def)
  from Tuple_of_values_correct[OF assms] obtain t where
    t: "Tuple_of_values F vs (new_Schema cols) = Inr t" "tsize t = fixed_size cols + extra_size cols vs"
      "\<And>data. tdata t = Some data \<Longrightarrow> length data = tsize t" "tallocated t"
      "\<And>i. i < length cols \<Longrightarrow> Tuple_GetValue F t (new_Schema cols) i = Inr (vs ! i)" by blast
  obtain data where data: "tdata t = Some data"
    using t(1) by (auto simp: Tuple_of_values_def result_simps split: prod.splits)
  have "get_uint (put_int 4 (int (tsize t))) = tsize t" using small t(2) by (simp add: get_uint_put_int)
  then have "Tuple_DeserializeFrom (put_int 4 (int (tsize t)) @ data @ rest) u = Inr (t\<lparr>trid := trid u\<rparr>)"
    using data t(3)[OF data] t(4) by (cases t; cases u) (simp add: Tuple_DeserializeFrom_def get_at_def)
  moreover have "Tuple_SerializeTo t = Inr (put_int 4 (int (tsize t)) @ data)"
    using data t(3)[OF data] by (simp add: Tuple_SerializeTo_def)
  ultimately show ?thesis using t(1,5) by (intro exI[of _ t]) simp
qed

definition demo_columns :: "Column list" where
  "demo_columns = [\<lparr>column_name = ''id'', column_type = INTEGER, fixed_length = 4, variable_length = 0, column_offset = 0\<rparr>,
     \<lparr>column_name = ''name'', column_type = VARCHAR, fixed_length = 12, variable_length = 8, column_offset = 0\<rparr>]"

lemma demo_columns_made:
  "map_r id [new_Column ''id'' INTEGER, new_varlen_Column ''name'' VARCHAR 8] = Inr demo_columns"
  by (simp add: new_Column_def new_varlen_Column_def TypeSize_def demo_columns_def)

definition demo_row_values :: "int Value list" where
  "demo_row_values = [int_value INTEGER 7, \<lparr>vtype = VARCHAR, vval = VStr ''ab'', vlen = 2\<rparr>]"

lemma demo_row_ok: "row_ok whole_floats demo_columns demo_row_values"
  by (simp add: row_ok_def demo_columns_def demo_row_values_def cell_ok_def wf_Value_def int_value_def TypeSize_def
      in_range_def int_null_def BUSTUB_VALUE_NULL_def extra_def text_length_def IsNull_def Column_IsInlined_def)

theorem row_roundtrip_witness:
  "\<exists>t. Tuple_of_values whole_floats demo_row_values (new_Schema demo_columns) = Inr t \<and>
    Tuple_GetValue whole_floats t (new_Schema demo_columns) 1 = Inr \<lparr>vtype = VARCHAR, vval = VStr ''ab'', vlen = 2\<rparr>"
  using row_roundtrip[OF demo_row_ok, of "[]" new_Tuple] by (auto simp: demo_columns_def demo_row_values_def)

end
