(* ===== verification/Expressions.thy ===== *)
theory Expressions
  imports Row
begin

text \<open>
  Expressions: the classes of \<open>include/execution/expressions/\<close> as constructors of one datatype,
  \<open>Value::Like\<close> of \<open>src/type/value.cpp\<close>, and the rewriting of a filter into a join predicate
  (\<open>RewriteExpressionForJoin\<close>, \<open>IsPredicateTrue\<close>, \<open>IsPredicateFalse\<close> of the optimizer). The matching
  of regular expressions (\<open>std::regex_match\<close>) is the parameter \<open>R\<close>, pattern first.
\<close>

section \<open>LIKE\<close>

text \<open>The C string that starts at the data of a VARCHAR; without a NUL it reads past the data.\<close>

definition c_string :: "'d Value \<Rightarrow> string result" where
  "c_string v =
     (case vval v of
        VStr s \<Rightarrow> if NUL \<in> set s then Inr (takeWhile (\<lambda>c. c \<noteq> NUL) s) else Inl Undefined_behaviour
      | _ \<Rightarrow> Inl Undefined_behaviour)"

definition like_regex :: "string \<Rightarrow> string" where
  "like_regex pattern =
     (let pattern = concat (map (\<lambda>c. if c = CHR ''%'' then ''.*'' else [c]) pattern)
      in map (\<lambda>c. if c = CHR 0x5F then CHR ''.'' else c) pattern)"

type_synonym regex = "string \<Rightarrow> string \<Rightarrow> bool result"

definition Value_Like :: "regex \<Rightarrow> 'd Value \<Rightarrow> 'd Value \<Rightarrow> CmpBool result" where
  "Value_Like R v o' =
     (if IsNull v \<or> IsNull o' then Inr CmpNull
      else if vtype v \<noteq> VARCHAR \<or> vtype o' \<noteq> VARCHAR then Inl (Throw ExceptionType.INVALID)
      else bind_r (c_string o') (\<lambda>pattern.
           bind_r (c_string v) (\<lambda>str.
           bind_r (R (like_regex pattern) str) (\<lambda>ok. Inr (if ok then CmpTrue else CmpFalse)))))"

section \<open>Expressions\<close>

datatype ArithmeticType = Plus | Minus
datatype ComparisonType = Equal | NotEqual | LessThan | LessThanOrEqual | GreaterThan | GreaterThanOrEqual
datatype LogicType = And | Or

datatype 'd expr =
    ColumnValue nat nat TypeId
  | Constant "'d Value"
  | Arithmetic "'d expr" "'d expr" ArithmeticType
  | Comparison "'d expr" "'d expr" ComparisonType
  | Logic "'d expr" "'d expr" LogicType
  | Like "'d expr" "'d expr"

fun GetReturnType :: "'d expr \<Rightarrow> TypeId" where
  "GetReturnType (ColumnValue _ _ T) = T"
| "GetReturnType (Constant v) = vtype v"
| "GetReturnType (Arithmetic _ _ _) = INTEGER"
| "GetReturnType (Comparison _ _ _) = BOOLEAN"
| "GetReturnType (Logic _ _ _) = BOOLEAN"
| "GetReturnType (Like _ _) = BOOLEAN"

text \<open>The constructors that check their children.\<close>

definition ArithmeticExpression :: "'d expr \<Rightarrow> 'd expr \<Rightarrow> ArithmeticType \<Rightarrow> 'd expr result" where
  "ArithmeticExpression left right t =
     (if GetReturnType left \<noteq> INTEGER \<or> GetReturnType right \<noteq> INTEGER then Inl (Throw NOT_IMPLEMENTED)
      else Inr (Arithmetic left right t))"

definition LogicExpression :: "'d expr \<Rightarrow> 'd expr \<Rightarrow> LogicType \<Rightarrow> 'd expr result" where
  "LogicExpression left right t =
     (if GetReturnType left \<noteq> BOOLEAN \<or> GetReturnType right \<noteq> BOOLEAN then Inl (Throw NOT_IMPLEMENTED)
      else Inr (Logic left right t))"

text \<open>\<open>GetAs<int32_t>\<close> and \<open>GetAs<bool>\<close>, which read the object as the type asked for.\<close>

definition get_int32 :: "'d Value \<Rightarrow> int result" where
  "get_int32 v = (if vtype v = INTEGER then Inr (as_int v) else Inl Undefined_behaviour)"

definition get_bool :: "'d Value \<Rightarrow> bool result" where
  "get_bool v =
     (if vtype v = BOOLEAN \<and> (as_int v = 0 \<or> as_int v = 1) then Inr (as_int v = 1) else Inl Undefined_behaviour)"

definition Arithmetic_PerformComputation :: "ArithmeticType \<Rightarrow> 'd Value \<Rightarrow> 'd Value \<Rightarrow> int option result" where
  "Arithmetic_PerformComputation t lhs rhs =
     (if IsNull lhs \<or> IsNull rhs then Inr None
      else bind_r (get_int32 lhs) (\<lambda>x. bind_r (get_int32 rhs) (\<lambda>y.
           let z = (case t of Plus \<Rightarrow> x + y | Minus \<Rightarrow> x - y)
           in if in_int32 z then Inr (Some z) else Inl Undefined_behaviour)))"

definition PerformComparison :: "'d float_ops \<Rightarrow> ComparisonType \<Rightarrow> 'd Value \<Rightarrow> 'd Value \<Rightarrow> CmpBool result" where
  "PerformComparison F t lhs rhs = (case t of
     Equal \<Rightarrow> Value_CompareEquals F lhs rhs
   | NotEqual \<Rightarrow> Value_CompareNotEquals F lhs rhs
   | LessThan \<Rightarrow> Value_CompareLessThan F lhs rhs
   | LessThanOrEqual \<Rightarrow> Value_CompareLessThanEquals F lhs rhs
   | GreaterThan \<Rightarrow> Value_CompareGreaterThan F lhs rhs
   | GreaterThanOrEqual \<Rightarrow> Value_CompareGreaterThanEquals F lhs rhs)"

definition GetBoolAsCmpBool :: "'d Value \<Rightarrow> CmpBool result" where
  "GetBoolAsCmpBool v =
     (if IsNull v then Inr CmpNull else bind_r (get_bool v) (\<lambda>b. Inr (if b then CmpTrue else CmpFalse)))"

fun logic_table :: "LogicType \<Rightarrow> CmpBool \<Rightarrow> CmpBool \<Rightarrow> CmpBool" where
  "logic_table And l r =
     (if l = CmpFalse \<or> r = CmpFalse then CmpFalse else if l = CmpTrue \<and> r = CmpTrue then CmpTrue else CmpNull)"
| "logic_table Or l r =
     (if l = CmpFalse \<and> r = CmpFalse then CmpFalse else if l = CmpTrue \<or> r = CmpTrue then CmpTrue else CmpNull)"

definition Logic_PerformComputation :: "LogicType \<Rightarrow> 'd Value \<Rightarrow> 'd Value \<Rightarrow> CmpBool result" where
  "Logic_PerformComputation t lhs rhs =
     bind_r (GetBoolAsCmpBool lhs) (\<lambda>l. bind_r (GetBoolAsCmpBool rhs) (\<lambda>r. Inr (logic_table t l r)))"

text \<open>The bodies that \<open>Evaluate\<close> and \<open>EvaluateJoin\<close> share, after the children are evaluated.\<close>

definition arithmetic_value :: "'d float_ops \<Rightarrow> ArithmeticType \<Rightarrow> 'd Value \<Rightarrow> 'd Value \<Rightarrow> 'd Value result" where
  "arithmetic_value F t lhs rhs =
     bind_r (Arithmetic_PerformComputation t lhs rhs) (\<lambda>res. case res of
       None \<Rightarrow> GetNullValueByType F INTEGER | Some i \<Rightarrow> GetIntegerValue i)"

definition comparison_value :: "'d float_ops \<Rightarrow> ComparisonType \<Rightarrow> 'd Value \<Rightarrow> 'd Value \<Rightarrow> 'd Value result" where
  "comparison_value F t lhs rhs = bind_r (PerformComparison F t lhs rhs) GetBooleanValue_cmp"

definition logic_value :: "LogicType \<Rightarrow> 'd Value \<Rightarrow> 'd Value \<Rightarrow> 'd Value result" where
  "logic_value t lhs rhs = bind_r (Logic_PerformComputation t lhs rhs) GetBooleanValue_cmp"

definition as_varchar :: "'d float_ops \<Rightarrow> 'd Value \<Rightarrow> 'd Value result" where
  "as_varchar F v = (if vtype v \<noteq> VARCHAR then bind_r (Value_ToString F v) (Value_string VARCHAR) else Inr v)"

definition like_value :: "'d float_ops \<Rightarrow> regex \<Rightarrow> 'd Value \<Rightarrow> 'd Value \<Rightarrow> 'd Value result" where
  "like_value F R left_val right_val =
     bind_r (as_varchar F left_val) (\<lambda>left_val.
     bind_r (as_varchar F right_val) (\<lambda>right_val.
     bind_r (Value_Like R left_val right_val) (\<lambda>cmp_result.
     Value_int32 BOOLEAN (if cmp_result = CmpTrue then 1 else 0))))"

text \<open>A null tuple can only be evaluated by expressions that do not read columns.\<close>

definition column_of :: "'d float_ops \<Rightarrow> Tuple option \<Rightarrow> Schema \<Rightarrow> nat \<Rightarrow> 'd Value result" where
  "column_of F t schema col_idx =
     (case t of None \<Rightarrow> Inl Undefined_behaviour | Some t \<Rightarrow> Tuple_GetValue F t schema col_idx)"

primrec Evaluate :: "'d float_ops \<Rightarrow> regex \<Rightarrow> Tuple option \<Rightarrow> Schema \<Rightarrow> 'd expr \<Rightarrow> 'd Value result" where
  "Evaluate F R t schema (ColumnValue tuple_idx col_idx T) = column_of F t schema col_idx"
| "Evaluate F R t schema (Constant v) = Inr v"
| "Evaluate F R t schema (Arithmetic l r k) =
     bind_r (Evaluate F R t schema l) (\<lambda>lhs. bind_r (Evaluate F R t schema r) (arithmetic_value F k lhs))"
| "Evaluate F R t schema (Comparison l r k) =
     bind_r (Evaluate F R t schema l) (\<lambda>lhs. bind_r (Evaluate F R t schema r) (comparison_value F k lhs))"
| "Evaluate F R t schema (Logic l r k) =
     bind_r (Evaluate F R t schema l) (\<lambda>lhs. bind_r (Evaluate F R t schema r) (logic_value k lhs))"
| "Evaluate F R t schema (Like l r) =
     bind_r (Evaluate F R t schema l) (\<lambda>lhs. bind_r (Evaluate F R t schema r) (like_value F R lhs))"

primrec EvaluateJoin ::
  "'d float_ops \<Rightarrow> regex \<Rightarrow> Tuple option \<Rightarrow> Schema \<Rightarrow> Tuple option \<Rightarrow> Schema \<Rightarrow> 'd expr \<Rightarrow> 'd Value result" where
  "EvaluateJoin F R lt ls rt rs (ColumnValue tuple_idx col_idx T) =
     (if tuple_idx = 0 then column_of F lt ls col_idx else column_of F rt rs col_idx)"
| "EvaluateJoin F R lt ls rt rs (Constant v) = Inr v"
| "EvaluateJoin F R lt ls rt rs (Arithmetic l r k) =
     bind_r (EvaluateJoin F R lt ls rt rs l) (\<lambda>lhs. bind_r (EvaluateJoin F R lt ls rt rs r) (arithmetic_value F k lhs))"
| "EvaluateJoin F R lt ls rt rs (Comparison l r k) =
     bind_r (EvaluateJoin F R lt ls rt rs l) (\<lambda>lhs. bind_r (EvaluateJoin F R lt ls rt rs r) (comparison_value F k lhs))"
| "EvaluateJoin F R lt ls rt rs (Logic l r k) =
     bind_r (EvaluateJoin F R lt ls rt rs l) (\<lambda>lhs. bind_r (EvaluateJoin F R lt ls rt rs r) (logic_value k lhs))"
| "EvaluateJoin F R lt ls rt rs (Like l r) =
     bind_r (EvaluateJoin F R lt ls rt rs l) (\<lambda>lhs. bind_r (EvaluateJoin F R lt ls rt rs r) (like_value F R lhs))"

section \<open>Printing\<close>

fun arithmetic_name :: "ArithmeticType \<Rightarrow> string" where
  "arithmetic_name Plus = ''+''"
| "arithmetic_name Minus = ''-''"

fun comparison_name :: "ComparisonType \<Rightarrow> string" where
  "comparison_name Equal = ''=''"
| "comparison_name NotEqual = ''!=''"
| "comparison_name LessThan = ''<''"
| "comparison_name LessThanOrEqual = ''<=''"
| "comparison_name GreaterThan = ''>''"
| "comparison_name GreaterThanOrEqual = ''>=''"

fun logic_name :: "LogicType \<Rightarrow> string" where
  "logic_name And = ''and''"
| "logic_name Or = ''or''"

definition in_parens :: "string result \<Rightarrow> string \<Rightarrow> string result \<Rightarrow> string result" where
  "in_parens l name r = bind_r l (\<lambda>l. bind_r r (\<lambda>r. Inr (''('' @ l @ name @ r @ '')'')))"

primrec Expr_ToString :: "'d float_ops \<Rightarrow> 'd expr \<Rightarrow> string result" where
  "Expr_ToString F (ColumnValue tuple_idx col_idx T) =
     Inr (''#'' @ to_string_int (int tuple_idx) @ ''.'' @ to_string_int (int col_idx))"
| "Expr_ToString F (Constant v) = Value_ToString F v"
| "Expr_ToString F (Arithmetic l r k) = in_parens (Expr_ToString F l) (arithmetic_name k) (Expr_ToString F r)"
| "Expr_ToString F (Comparison l r k) = in_parens (Expr_ToString F l) (comparison_name k) (Expr_ToString F r)"
| "Expr_ToString F (Logic l r k) = in_parens (Expr_ToString F l) (logic_name k) (Expr_ToString F r)"
| "Expr_ToString F (Like l r) =
     bind_r (Expr_ToString F l) (\<lambda>l. bind_r (Expr_ToString F r) (\<lambda>r. Inr (''LIKE('' @ l @ '', '' @ r @ '')'')))"

section \<open>Predicates of joins\<close>

primrec RewriteExpressionForJoin :: "'d expr \<Rightarrow> nat \<Rightarrow> nat \<Rightarrow> 'd expr result" where
  "RewriteExpressionForJoin (ColumnValue tuple_idx col_idx T) left_cnt right_cnt =
     bind_r (guard_r (tuple_idx = 0) Std_logic_error) (\<lambda>_.
     if col_idx < left_cnt then Inr (ColumnValue 0 col_idx T)
     else if col_idx \<ge> left_cnt \<and> col_idx < left_cnt + right_cnt then Inr (ColumnValue 1 (col_idx - left_cnt) T)
     else Inl (Throw ExceptionType.INVALID))"
| "RewriteExpressionForJoin (Constant v) left_cnt right_cnt = Inr (Constant v)"
| "RewriteExpressionForJoin (Arithmetic l r k) left_cnt right_cnt =
     bind_r (RewriteExpressionForJoin l left_cnt right_cnt) (\<lambda>l.
     bind_r (RewriteExpressionForJoin r left_cnt right_cnt) (\<lambda>r. Inr (Arithmetic l r k)))"
| "RewriteExpressionForJoin (Comparison l r k) left_cnt right_cnt =
     bind_r (RewriteExpressionForJoin l left_cnt right_cnt) (\<lambda>l.
     bind_r (RewriteExpressionForJoin r left_cnt right_cnt) (\<lambda>r. Inr (Comparison l r k)))"
| "RewriteExpressionForJoin (Logic l r k) left_cnt right_cnt =
     bind_r (RewriteExpressionForJoin l left_cnt right_cnt) (\<lambda>l.
     bind_r (RewriteExpressionForJoin r left_cnt right_cnt) (\<lambda>r. Inr (Logic l r k)))"
| "RewriteExpressionForJoin (Like l r) left_cnt right_cnt =
     bind_r (RewriteExpressionForJoin l left_cnt right_cnt) (\<lambda>l.
     bind_r (RewriteExpressionForJoin r left_cnt right_cnt) (\<lambda>r. Inr (Like l r)))"

definition IsPredicateTrue :: "'d float_ops \<Rightarrow> 'd expr \<Rightarrow> bool result" where
  "IsPredicateTrue F e =
     (case e of
        Constant v \<Rightarrow> bind_r (Value_CastAs F v BOOLEAN) get_bool
      | _ \<Rightarrow> Inr False)"

definition IsPredicateFalse :: "'d float_ops \<Rightarrow> 'd expr \<Rightarrow> bool result" where
  "IsPredicateFalse F e =
     (case e of
        Comparison (Constant v) (Constant o') Equal \<Rightarrow>
          bind_r (Value_CastAs F v INTEGER) (\<lambda>v.
          bind_r (Value_CastAs F o' INTEGER) (\<lambda>o'. Inr (as_int v \<noteq> as_int o')))
      | _ \<Rightarrow> Inr False)"

end
