(* ===== verification/Plans.thy ===== *)
theory Plans
  imports Expressions
begin

text \<open>
  Plan nodes: the classes of \<open>include/execution/plans/\<close> that the modelled executors run, as
  constructors of one datatype, and the schemas that \<open>src/execution/plan_node.cpp\<close> infers.
  Index scans, index joins and mock scans have no constructor.
\<close>

datatype OrderByType = INVALID | DEFAULT | ASC | DESC
datatype JoinType = INVALID | LEFT | RIGHT | INNER | OUTER
datatype AggregationType = CountStarAggregate | CountAggregate | SumAggregate | MinAggregate | MaxAggregate

type_synonym 'd order_bys = "(OrderByType \<times> 'd expr) list"

datatype 'd plan =
    SeqScanPlan Schema nat string "'d expr option"
  | ValuesPlan Schema "'d expr list list"
  | FilterPlan Schema "'d expr" "'d plan"
  | ProjectionPlan Schema "'d expr list" "'d plan"
  | LimitPlan Schema "'d plan" nat
  | NestedLoopJoinPlan Schema "'d plan" "'d plan" "'d expr" JoinType
  | HashJoinPlan Schema "'d plan" "'d plan" "'d expr" "'d expr" JoinType
  | SortPlan Schema "'d plan" "'d order_bys"
  | TopNPlan Schema "'d plan" "'d order_bys" nat
  | AggregationPlan Schema "'d plan" "'d expr list" "'d expr list" "AggregationType list"
  | InsertPlan Schema "'d plan" nat
  | UpdatePlan Schema "'d plan" nat "'d expr list"
  | DeletePlan Schema "'d plan" nat

primrec OutputSchema :: "'d plan \<Rightarrow> Schema" where
  "OutputSchema (SeqScanPlan s oid name pred) = s"
| "OutputSchema (ValuesPlan s rows) = s"
| "OutputSchema (FilterPlan s pred child) = s"
| "OutputSchema (ProjectionPlan s exprs child) = s"
| "OutputSchema (LimitPlan s child limit) = s"
| "OutputSchema (NestedLoopJoinPlan s left right pred jt) = s"
| "OutputSchema (HashJoinPlan s left right lk rk jt) = s"
| "OutputSchema (SortPlan s child obs) = s"
| "OutputSchema (TopNPlan s child obs n) = s"
| "OutputSchema (AggregationPlan s child gbs aggs types) = s"
| "OutputSchema (InsertPlan s child oid) = s"
| "OutputSchema (UpdatePlan s child oid exprs) = s"
| "OutputSchema (DeletePlan s child oid) = s"

section \<open>Inferred schemas\<close>

definition VARCHAR_DEFAULT_LENGTH :: nat where
  "VARCHAR_DEFAULT_LENGTH = 128"

definition InferScanSchema :: "string \<Rightarrow> Schema \<Rightarrow> Schema" where
  "InferScanSchema bound_name schema =
     new_Schema (map (\<lambda>c. rename_Column (bound_name @ ''.'' @ column_name c) c) (columns schema))"

definition InferJoinSchema :: "'d plan \<Rightarrow> 'd plan \<Rightarrow> Schema" where
  "InferJoinSchema left right = new_Schema (columns (OutputSchema left) @ columns (OutputSchema right))"

definition unnamed_column :: "TypeId \<Rightarrow> nat \<Rightarrow> Column result" where
  "unnamed_column T len =
     (if T \<noteq> VARCHAR then new_Column ''<unnamed>'' T else new_varlen_Column ''<unnamed>'' T len)"

definition InferProjectionSchema :: "'d expr list \<Rightarrow> Schema result" where
  "InferProjectionSchema exprs =
     bind_r (map_r (\<lambda>e. unnamed_column (GetReturnType e) VARCHAR_DEFAULT_LENGTH) exprs) (\<lambda>cols. Inr (new_Schema cols))"

definition RenameSchema :: "Schema \<Rightarrow> string list \<Rightarrow> Schema result" where
  "RenameSchema schema col_names =
     (if length col_names \<noteq> GetColumnCount schema then Inl (Throw ExceptionType.INVALID)
      else Inr (new_Schema (map2 rename_Column col_names (columns schema))))"

definition InferAggSchema :: "'d expr list \<Rightarrow> 'd expr list \<Rightarrow> AggregationType list \<Rightarrow> Schema result" where
  "InferAggSchema group_bys aggregates agg_types =
     bind_r (map_r (\<lambda>e. unnamed_column (GetReturnType e) 128) group_bys) (\<lambda>keys.
     bind_r (map_r (\<lambda>_. new_Column ''<unnamed>'' INTEGER) aggregates) (\<lambda>vals.
     Inr (new_Schema (keys @ vals))))"

end
