(* ===== verification/Lru_K.thy ===== *)
theory Lru_K
  imports Prelude
begin

text \<open>
  The LRU-K replacer of the buffer pool: \<open>src/buffer/lru_k_replacer.cpp\<close> and
  \<open>include/buffer/lru_k_replacer.h\<close>.

  Every public method holds \<open>latch_\<close> from its first to its last statement, so a method
  is one atomic step and is modelled as one function on the state. \<open>frame_id_t\<close> is
  \<open>int\<close> (negative ids pass the code's range check). The \<open>unordered_map\<close>s that are read
  with \<open>operator[]\<close> (\<open>access_count_\<close>, \<open>is_evictable_\<close>) are total functions with the
  default value. A list iterator is identified with the frame stored in its node, which
  is unique in its list (\<open>lruk_inv\<close>); \<open>history_map_\<close> and \<open>cache_map_\<close> are therefore the
  sets of frames that have an iterator, and erasing through an iterator that was never
  stored is undefined behaviour.
\<close>

section \<open>State and operations\<close>

record lruk =
  curr_size :: nat
  replacer_size :: nat
  k_param :: nat
  access_count :: "int \<Rightarrow> nat"
  history_list :: "int list"
  history_map :: "int set"
  cache_list :: "int list"
  cache_map :: "int set"
  is_evictable :: "int \<Rightarrow> bool"

definition LRUKReplacer :: "nat \<Rightarrow> nat \<Rightarrow> lruk" where
  "LRUKReplacer num_frames k =
     \<lparr>curr_size = 0, replacer_size = num_frames, k_param = k, access_count = (\<lambda>_. 0),
      history_list = [], history_map = {}, cache_list = [], cache_map = {},
      is_evictable = (\<lambda>_. False)\<rparr>"

text \<open>The scan of both loops of \<open>Evict\<close>: from \<open>rbegin\<close>, the first evictable frame.\<close>

fun first_evictable :: "(int \<Rightarrow> bool) \<Rightarrow> int list \<Rightarrow> int option" where
  "first_evictable ev [] = None"
| "first_evictable ev (frame # frames) =
     (if ev frame then Some frame else first_evictable ev frames)"

definition erase_history :: "int \<Rightarrow> lruk \<Rightarrow> lruk result" where
  "erase_history frame r =
     (if frame \<in> history_map r
      then Inr (r\<lparr>history_list := remove1 frame (history_list r),
                 history_map := history_map r - {frame}\<rparr>)
      else Inl Undefined_behaviour)"

definition erase_cache :: "int \<Rightarrow> lruk \<Rightarrow> lruk result" where
  "erase_cache frame r =
     (if frame \<in> cache_map r
      then Inr (r\<lparr>cache_list := remove1 frame (cache_list r),
                 cache_map := cache_map r - {frame}\<rparr>)
      else Inl Undefined_behaviour)"

text \<open>The bookkeeping both successful branches of \<open>Evict\<close> and \<open>Remove\<close> share.\<close>

definition forget :: "int \<Rightarrow> lruk \<Rightarrow> lruk" where
  "forget frame r =
     r\<lparr>access_count := (access_count r)(frame := 0),
       curr_size := curr_size r - 1,
       is_evictable := (is_evictable r)(frame := False)\<rparr>"

definition Evict :: "lruk \<Rightarrow> (int option \<times> lruk) result" where
  "Evict r =
     (if curr_size r = 0 then Inr (None, r)
      else case first_evictable (is_evictable r) (rev (history_list r)) of
        Some frame \<Rightarrow> bind_r (erase_history frame r) (\<lambda>r'. Inr (Some frame, forget frame r'))
      | None \<Rightarrow>
          (case first_evictable (is_evictable r) (rev (cache_list r)) of
             Some frame \<Rightarrow> bind_r (erase_cache frame r) (\<lambda>r'. Inr (Some frame, forget frame r'))
           | None \<Rightarrow> Inr (None, r)))"

definition push_cache :: "int \<Rightarrow> lruk \<Rightarrow> lruk" where
  "push_cache frame r =
     r\<lparr>cache_list := frame # cache_list r, cache_map := insert frame (cache_map r)\<rparr>"

definition RecordAccess :: "int \<Rightarrow> lruk \<Rightarrow> lruk result" where
  "RecordAccess frame r =
     (if frame > int (replacer_size r) then Inl Std_exception
      else let r = r\<lparr>access_count := (access_count r)(frame := access_count r frame + 1)\<rparr>
      in if access_count r frame = k_param r
         then bind_r (erase_history frame r) (\<lambda>r. Inr (push_cache frame r))
         else if access_count r frame > k_param r
         then bind_r (if frame \<in> cache_map r
                      then Inr (r\<lparr>cache_list := remove1 frame (cache_list r)\<rparr>) else Inr r)
                (\<lambda>r. Inr (push_cache frame r))
         else if frame \<notin> history_map r
         then Inr (r\<lparr>history_list := frame # history_list r,
                     history_map := insert frame (history_map r)\<rparr>)
         else Inr r)"

definition SetEvictable :: "int \<Rightarrow> bool \<Rightarrow> lruk \<Rightarrow> lruk result" where
  "SetEvictable frame set_evictable r =
     (if frame > int (replacer_size r) then Inl Std_exception
      else if access_count r frame = 0 then Inr r
      else let r = (if \<not> is_evictable r frame \<and> set_evictable
                    then r\<lparr>curr_size := curr_size r + 1\<rparr> else r);
               r = (if is_evictable r frame \<and> \<not> set_evictable
                    then r\<lparr>curr_size := curr_size r - 1\<rparr> else r)
      in Inr (r\<lparr>is_evictable := (is_evictable r)(frame := set_evictable)\<rparr>))"

definition Remove :: "int \<Rightarrow> lruk \<Rightarrow> lruk result" where
  "Remove frame r =
     (if frame > int (replacer_size r) then Inl Std_exception
      else let cnt = access_count r frame
      in if cnt = 0 then Inr r
         else if \<not> is_evictable r frame then Inl Std_exception
         else bind_r (if cnt < k_param r then erase_history frame r else erase_cache frame r)
                (\<lambda>r. Inr (forget frame r)))"

definition Size :: "lruk \<Rightarrow> nat" where
  "Size r = curr_size r"

section \<open>Invariant\<close>

text \<open>
  The access log that a replacer has seen, newest access first and restricted to frames
  that were not evicted since, determines both lists: the history list orders frames
  with fewer than \<open>k\<close> accesses by their first access, the cache list orders the others
  by their last access.
\<close>

definition lru_order :: "'a list \<Rightarrow> 'a list" where
  "lru_order L = rev (remdups (rev L))"

definition history_of :: "nat \<Rightarrow> 'a list \<Rightarrow> 'a list" where
  "history_of k L = filter (\<lambda>f. count_list L f < k) (remdups L)"

definition cache_of :: "nat \<Rightarrow> 'a list \<Rightarrow> 'a list" where
  "cache_of k L = filter (\<lambda>f. k \<le> count_list L f) (lru_order L)"

definition lruk_rel :: "int list \<Rightarrow> lruk \<Rightarrow> bool" where
  "lruk_rel L r \<longleftrightarrow>
     2 \<le> k_param r \<and>
     access_count r = count_list L \<and>
     history_list r = history_of (k_param r) L \<and>
     cache_list r = cache_of (k_param r) L \<and>
     history_map r = set (history_list r) \<and> cache_map r = set (cache_list r) \<and>
     {f. is_evictable r f} \<subseteq> set L \<and>
     curr_size r = card {f. is_evictable r f}"

definition lruk_inv :: "lruk \<Rightarrow> bool" where
  "lruk_inv r \<longleftrightarrow> (\<exists>L. lruk_rel L r)"

text \<open>Times of the accesses of a log: the oldest access has time 1.\<close>

fun last_access :: "'a list \<Rightarrow> 'a \<Rightarrow> nat" where
  "last_access [] f = 0"
| "last_access (x # L) f = (if x = f then Suc (length L) else last_access L f)"

fun first_access :: "'a list \<Rightarrow> 'a \<Rightarrow> nat" where
  "first_access [] f = 0"
| "first_access (x # L) f =
     (if f \<in> set L then first_access L f else if x = f then Suc (length L) else 0)"

text \<open>Time of the \<open>k\<close>-th most recent access (0 when there is none).\<close>

fun kth_access :: "nat \<Rightarrow> 'a list \<Rightarrow> 'a \<Rightarrow> nat" where
  "kth_access j [] f = 0"
| "kth_access j (x # L) f =
     (if x = f then (if j \<le> 1 then Suc (length L) else kth_access (j - 1) L f)
      else kth_access j L f)"

lemma set_lru_order [simp]: "set (lru_order L) = set L"
  by (simp add: lru_order_def)

lemma distinct_lru_order [simp]: "distinct (lru_order L)"
  by (simp add: lru_order_def)

lemma lru_order_Cons: "lru_order (f # L) = f # removeAll f (lru_order L)"
  by (simp add: lru_order_def list_facts)

lemma lru_order_removeAll: "lru_order (removeAll f L) = removeAll f (lru_order L)"
  by (simp add: lru_order_def list_facts)

lemma count_list_pos_iff: "0 < count_list L f \<longleftrightarrow> f \<in> set L"
  by (metis count_list_0_iff neq0_conv)


text \<open>The orders of \<open>remdups\<close> and \<open>lru_order\<close> are the orders of the access times.\<close>

lemma last_access_le: "last_access L f \<le> length L"
  by (induction L) auto

lemma first_access_le: "first_access L f \<le> length L"
  by (induction L) auto

lemma sorted_first_access:
  "sorted_wrt (\<lambda>a b. first_access L b < first_access L a) (remdups L)"
proof (induction L)
  case (Cons x L)
  have "first_access (x # L) f = first_access L f" if "f \<in> set L" for f
    using that by simp
  then have tl: "sorted_wrt (\<lambda>a b. first_access (x # L) b < first_access (x # L) a) (remdups L)"
    using Cons by (elim sorted_wrt_mono_rel[rotated]) auto
  show ?case
    using tl first_access_le[of L] by (auto simp: less_Suc_eq_le)
qed simp

lemma sorted_last_access:
  "sorted_wrt (\<lambda>a b. last_access L b < last_access L a) (lru_order L)"
proof (induction L)
  case (Cons x L)
  have "sorted_wrt (\<lambda>a b. last_access L b < last_access L a) (removeAll x (lru_order L))"
    using Cons by (simp add: removeAll_filter_not_eq sorted_wrt_filter)
  then have "sorted_wrt (\<lambda>a b. last_access (x # L) b < last_access (x # L) a)
               (removeAll x (lru_order L))"
    by (elim sorted_wrt_mono_rel[rotated]) auto
  then show ?case
    using last_access_le[of L] by (auto simp: lru_order_Cons less_Suc_eq_le)
qed (simp add: lru_order_def)

lemma first_evictable_Some:
  "first_evictable ev xs = Some f \<Longrightarrow>
   \<exists>ys zs. xs = ys @ f # zs \<and> ev f \<and> (\<forall>y\<in>set ys. \<not> ev y)"
proof (induction xs)
  case (Cons x xs)
  show ?case
  proof (cases "ev x")
    case True
    with Cons.prems have "x # xs = [] @ f # xs \<and> ev f" by simp
    then show ?thesis by fastforce
  next
    case False
    with Cons obtain ys zs where "xs = ys @ f # zs \<and> ev f \<and> (\<forall>y\<in>set ys. \<not> ev y)"
      by auto
    with False have "x # xs = (x # ys) @ f # zs \<and> ev f \<and> (\<forall>y\<in>set (x # ys). \<not> ev y)"
      by auto
    then show ?thesis by blast
  qed
qed simp

lemma first_evictable_None: "first_evictable ev xs = None \<longleftrightarrow> (\<forall>x\<in>set xs. \<not> ev x)"
  by (induction xs) auto

text \<open>Scanning from the back of a list sorted by descending time finds the oldest frame.\<close>

lemma first_evictable_oldest:
  assumes "sorted_wrt (\<lambda>a b. t b < t a) xs" and "first_evictable ev (rev xs) = Some f"
  shows "f \<in> set xs \<and> ev f \<and> (\<forall>g\<in>set xs. ev g \<longrightarrow> t f \<le> (t g :: nat))"
proof -
  from assms(2) obtain ys zs where d: "rev xs = ys @ f # zs" "ev f" "\<forall>y\<in>set ys. \<not> ev y"
    using first_evictable_Some[OF assms(2)] by auto
  then have "xs = rev zs @ f # rev ys"
    by (metis append.assoc append_Cons append_Nil rev.simps(2) rev_append rev_rev_ident)
  then show ?thesis
    using assms(1) d by (auto simp: sorted_wrt_append intro: less_imp_le)
qed

section \<open>Every operation keeps the relation to the access log\<close>

lemma lruk_rel_sets:
  assumes "lruk_rel L r"
  shows "set (history_list r) = {f \<in> set L. count_list L f < k_param r}"
    and "set (cache_list r) = {f \<in> set L. k_param r \<le> count_list L f}"
    and "distinct (history_list r)" and "distinct (cache_list r)"
    and "finite {f. is_evictable r f}"
  using assms by (auto simp: lruk_rel_def history_of_def cache_of_def intro: finite_subset)

lemma lruk_rel_init: "2 \<le> k \<Longrightarrow> lruk_rel [] (LRUKReplacer n k)"
  by (auto simp: lruk_rel_def LRUKReplacer_def lru_order_def history_of_def cache_of_def)

text \<open>How one more access of \<open>f\<close> changes the two filtered orders.\<close>

lemma history_after_access:
  assumes "2 \<le> k"
  shows "history_of k (f # L) =
    (if Suc (count_list L f) < k
     then (if f \<in> set L then history_of k L else f # history_of k L)
     else remove1 f (history_of k L))"
proof -
  have "remove1 f (history_of k L) = filter (\<lambda>g. count_list L g < k \<and> g \<noteq> f) (remdups L)"
    by (auto simp: history_of_def removeAll_filter_not_eq simp flip: removeAll_eq_remove1
        intro: filter_cong)
  then show ?thesis
    using assms by (auto simp: history_of_def intro!: filter_cong)
qed

lemma cache_after_access:
  "cache_of k (f # L) =
    (if k \<le> Suc (count_list L f) then f # remove1 f (cache_of k L) else cache_of k L)"
proof -
  have "remove1 f (cache_of k L) = filter (\<lambda>g. k \<le> count_list L g \<and> g \<noteq> f) (lru_order L)"
    by (auto simp: cache_of_def removeAll_filter_not_eq simp flip: removeAll_eq_remove1
        intro: filter_cong)
  then show ?thesis
    by (auto simp: cache_of_def lru_order_Cons removeAll_filter_not_eq intro!: filter_cong)
qed

lemma history_cache_removeAll:
  "history_of k (removeAll f L) = removeAll f (history_of k L)"
  "cache_of k (removeAll f L) = removeAll f (cache_of k L)"
  unfolding history_of_def cache_of_def lru_order_removeAll remdups_removeAll
  by (auto simp: count_list_removeAll simp flip: filter_removeAll intro!: filter_cong)

lemma RecordAccess_rel:
  assumes rel: "lruk_rel L r" and f: "f \<le> int (replacer_size r)"
  shows "\<exists>r'. RecordAccess f r = Inr r' \<and> lruk_rel (f # L) r' \<and>
              is_evictable r' = is_evictable r \<and> replacer_size r' = replacer_size r"
proof -
  have k: "2 \<le> k_param r" and cnt: "access_count r f = count_list L f"
    using rel by (auto simp: lruk_rel_def)
  have counts: "n = Suc (count_list L f) \<Longrightarrow> (count_list L)(f := n) = count_list (f # L)" for n
    by auto
  have hm: "f \<in> history_map r \<longleftrightarrow> f \<in> set L \<and> count_list L f < k_param r"
    and cm: "f \<in> cache_map r \<longleftrightarrow> k_param r \<le> count_list L f"
    using rel lruk_rel_sets[OF rel] k count_list_pos_iff[of L f] by (auto simp: lruk_rel_def)
  have L: "k_param r \<le> Suc (count_list L f) \<Longrightarrow> f \<in> set L"
    using k count_list_pos_iff[of L f] by auto
  have rm: "f \<notin> set xs \<Longrightarrow> remove1 f xs = xs" for xs :: "int list"
    by (rule remove1_idem)
  have sets: "set (remove1 f (history_list r)) = set (history_list r) - {f}"
    "set (remove1 f (cache_list r)) = set (cache_list r) - {f}"
    using lruk_rel_sets[OF rel] by (auto simp: set_remove1_eq)
  note defs = RecordAccess_def erase_history_def push_cache_def Let_def lruk_rel_def
  note facts = f cnt hm cm rel sets history_after_access[OF k, of f L]
    cache_after_access[of "k_param r" f L]
  consider "Suc (count_list L f) < k_param r" | "Suc (count_list L f) = k_param r"
    | "k_param r < Suc (count_list L f)" by linarith
  then show ?thesis
  proof cases
    case 1
    with facts show ?thesis by (auto simp: defs counts)
  next
    case 2
    with facts L show ?thesis by (auto simp: defs counts rm)
  next
    case 3
    with facts L show ?thesis by (auto simp: defs counts rm)
  qed
qed

lemma Collect_upd: "Collect (P(f := b)) = (if b then insert f (Collect P) else Collect P - {f})"
  by (auto split: if_splits)

text \<open>Dropping a tracked frame drops it from the log.\<close>

lemma forget_rel:
  assumes rel: "lruk_rel L r" and ev: "is_evictable r f"
    and r': "r' = (if f \<in> set (history_list r)
                   then r\<lparr>history_list := remove1 f (history_list r), history_map := history_map r - {f}\<rparr>
                   else r\<lparr>cache_list := remove1 f (cache_list r), cache_map := cache_map r - {f}\<rparr>)"
  shows "lruk_rel (removeAll f L) (forget f r')"
proof -
  note sets = lruk_rel_sets[OF rel]
  have counts: "(count_list L)(f := 0) = count_list (removeAll f L)"
    by (auto simp: count_list_removeAll)
  have k: "k_param r \<le> count_list L f \<longleftrightarrow> f \<notin> set (history_list r)" "f \<in> set L"
    using rel ev sets by (auto simp: lruk_rel_def)
  have "remove1 f (history_list r) = removeAll f (history_list r)"
    and "remove1 f (cache_list r) = removeAll f (cache_list r)"
    using sets by (simp_all add: removeAll_eq_remove1)
  moreover have "f \<in> set (history_list r) \<Longrightarrow> removeAll f (cache_list r) = cache_list r"
    and "f \<notin> set (history_list r) \<Longrightarrow> removeAll f (history_list r) = history_list r"
    using sets k by (auto simp: removeAll_id)
  moreover have "card (Collect (is_evictable r)) - Suc 0 = card (Collect (is_evictable r) - {f})"
    using ev by (simp add: card_Diff_singleton)
  ultimately show ?thesis
    using rel ev r' k(2)
    unfolding lruk_rel_def forget_def history_cache_removeAll
    by (cases "f \<in> set (history_list r)") (simp_all add: Collect_upd counts, auto)
qed

lemma tracked_maps:
  assumes "lruk_rel L r"
  shows "f \<in> history_map r \<longleftrightarrow> f \<in> set (history_list r)"
    and "f \<in> cache_map r \<longleftrightarrow> f \<in> set (cache_list r)"
    and "is_evictable r f \<Longrightarrow> access_count r f < k_param r \<longleftrightarrow> f \<in> set (history_list r)"
    and "is_evictable r f \<Longrightarrow> f \<in> set (history_list r) \<or> f \<in> set (cache_list r)"
  using assms lruk_rel_sets[OF assms] by (auto simp: lruk_rel_def)

lemma Remove_rel:
  assumes rel: "lruk_rel L r" and f: "f \<le> int (replacer_size r)" and ev: "is_evictable r f"
  shows "\<exists>r'. Remove f r = Inr r' \<and> lruk_rel (removeAll f L) r' \<and>
              is_evictable r' = (is_evictable r)(f := False) \<and> replacer_size r' = replacer_size r"
proof -
  have "access_count r f \<noteq> 0"
    using rel ev count_list_0_iff[of L f] by (auto simp: lruk_rel_def)
  then show ?thesis
    using f ev tracked_maps[OF rel, of f] forget_rel[OF rel ev refl]
    by (auto simp: Remove_def Let_def erase_history_def erase_cache_def forget_def split: if_splits)
qed

lemma SetEvictable_rel:
  assumes rel: "lruk_rel L r" and f: "f \<le> int (replacer_size r)"
  shows "\<exists>r'. SetEvictable f b r = Inr r' \<and> lruk_rel L r' \<and>
              is_evictable r' = (if f \<in> set L then (is_evictable r)(f := b) else is_evictable r) \<and>
              replacer_size r' = replacer_size r"
proof (cases "f \<in> set L")
  case False
  then show ?thesis
    using rel f by (auto simp: SetEvictable_def lruk_rel_def)
next
  case True
  let ?E = "Collect (is_evictable r)"
  have fin: "finite ?E" using lruk_rel_sets[OF rel] by simp
  have "card ?E > 0" if "is_evictable r f"
    using fin that by (auto simp: card_gt_0_iff)
  then show ?thesis
    using rel f True fin
    by (auto simp: SetEvictable_def lruk_rel_def Let_def insert_absorb card_Diff_singleton
        count_list_0_iff Collect_upd)
qed

text \<open>The frame that \<open>Evict\<close> picks, and the state it leaves.\<close>

definition lruk_victim :: "lruk \<Rightarrow> int option" where
  "lruk_victim r =
     (case first_evictable (is_evictable r) (rev (history_list r)) of
        Some f \<Rightarrow> Some f
      | None \<Rightarrow> first_evictable (is_evictable r) (rev (cache_list r)))"

lemma first_evictable_in: "first_evictable ev xs = Some f \<Longrightarrow> f \<in> set xs \<and> ev f"
  by (induction xs) (auto split: if_splits)

lemma lruk_victim_exists:
  assumes "lruk_rel L r" and "is_evictable r g"
  shows "\<exists>f. lruk_victim r = Some f"
proof -
  have "g \<in> set (history_list r) \<or> g \<in> set (cache_list r)"
    using tracked_maps(4)[OF assms] .
  then show ?thesis
    using assms(2) first_evictable_None[of "is_evictable r" "rev (history_list r)"]
      first_evictable_None[of "is_evictable r" "rev (cache_list r)"]
    by (fastforce simp: lruk_victim_def split: option.splits)
qed

lemma Evict_rel:
  assumes rel: "lruk_rel L r" and g: "is_evictable r g"
  shows "\<exists>f r'. lruk_victim r = Some f \<and> is_evictable r f \<and> Evict r = Inr (Some f, r') \<and>
      lruk_rel (removeAll f L) r' \<and> is_evictable r' = (is_evictable r)(f := False) \<and>
      replacer_size r' = replacer_size r"
proof -
  obtain f where f: "lruk_victim r = Some f" using lruk_victim_exists[OF assms] by blast
  have ev: "is_evictable r f"
    using f by (auto simp: lruk_victim_def split: option.splits dest: first_evictable_in)
  have "card (Collect (is_evictable r)) \<noteq> 0"
    using g lruk_rel_sets(5)[OF rel] by auto
  then have pos: "curr_size r \<noteq> 0"
    using rel by (simp add: lruk_rel_def)
  have disj: "f \<in> set (cache_list r) \<Longrightarrow> f \<notin> set (history_list r)"
    using lruk_rel_sets[OF rel] by auto
  have "\<exists>r'. Evict r = Inr (Some f, r') \<and> lruk_rel (removeAll f L) r' \<and>
      is_evictable r' = (is_evictable r)(f := False) \<and> replacer_size r' = replacer_size r"
  proof (cases "first_evictable (is_evictable r) (rev (history_list r))")
    case None
    with f have "f \<in> set (cache_list r)"
      by (auto simp: lruk_victim_def dest: first_evictable_in)
    with None f disj pos show ?thesis
      using tracked_maps[OF rel, of f] forget_rel[OF rel ev refl]
      by (auto simp: lruk_victim_def Evict_def erase_cache_def forget_def)
  next
    case (Some a)
    with f have "f \<in> set (history_list r)" "a = f"
      by (auto simp: lruk_victim_def dest: first_evictable_in)
    with Some pos show ?thesis
      using tracked_maps[OF rel, of f] forget_rel[OF rel ev refl]
      by (auto simp: Evict_def erase_history_def forget_def)
  qed
  with f ev show ?thesis by blast
qed

lemma Evict_none:
  assumes "lruk_rel L r" and "\<And>g. \<not> is_evictable r g"
  shows "Evict r = Inr (None, r)"
  using assms by (simp add: Evict_def lruk_rel_def)

section \<open>The contract the buffer pool relies on\<close>

locale replacer =
  fixes inv :: "'r \<Rightarrow> bool"
    and limit :: "'r \<Rightarrow> nat"
    and tracked :: "'r \<Rightarrow> int set"
    and evictable :: "'r \<Rightarrow> int set"
    and evict :: "'r \<Rightarrow> (int option \<times> 'r) result"
    and record_access :: "int \<Rightarrow> 'r \<Rightarrow> 'r result"
    and set_evictable :: "int \<Rightarrow> bool \<Rightarrow> 'r \<Rightarrow> 'r result"
    and remove :: "int \<Rightarrow> 'r \<Rightarrow> 'r result"
  assumes evictable_tracked: "inv r \<Longrightarrow> evictable r \<subseteq> tracked r"
    and evict_some: "inv r \<Longrightarrow> evictable r \<noteq> {} \<Longrightarrow>
      \<exists>f r'. evict r = Inr (Some f, r') \<and> f \<in> evictable r \<and> inv r' \<and> limit r' = limit r \<and>
        tracked r' = tracked r - {f} \<and> evictable r' = evictable r - {f}"
    and evict_none: "inv r \<Longrightarrow> evictable r = {} \<Longrightarrow> evict r = Inr (None, r)"
    and record_access: "inv r \<Longrightarrow> f \<le> int (limit r) \<Longrightarrow>
      \<exists>r'. record_access f r = Inr r' \<and> inv r' \<and> limit r' = limit r \<and>
        tracked r' = insert f (tracked r) \<and> evictable r' = evictable r"
    and set_evictable: "inv r \<Longrightarrow> f \<le> int (limit r) \<Longrightarrow> f \<in> tracked r \<Longrightarrow>
      \<exists>r'. set_evictable f b r = Inr r' \<and> inv r' \<and> limit r' = limit r \<and> tracked r' = tracked r \<and>
        evictable r' = (if b then insert f (evictable r) else evictable r - {f})"
    and remove: "inv r \<Longrightarrow> f \<le> int (limit r) \<Longrightarrow> f \<in> evictable r \<Longrightarrow>
      \<exists>r'. remove f r = Inr r' \<and> inv r' \<and> limit r' = limit r \<and>
        tracked r' = tracked r - {f} \<and> evictable r' = evictable r - {f}"
begin

text \<open>Pinning a frame: record the access, then forbid its eviction.\<close>

definition pin :: "int \<Rightarrow> 'r \<Rightarrow> 'r result" where
  "pin f r = bind_r (record_access f r) (set_evictable f False)"

lemma pin_ok:
  assumes "inv r" and "f \<le> int (limit r)"
  shows "\<exists>r'. pin f r = Inr r' \<and> inv r' \<and> limit r' = limit r \<and>
    tracked r' = insert f (tracked r) \<and> evictable r' = evictable r - {f}"
proof -
  obtain s where s: "record_access f r = Inr s" "inv s" "limit s = limit r"
    "tracked s = insert f (tracked r)" "evictable s = evictable r"
    using record_access[OF assms] by blast
  then show ?thesis
    using set_evictable[of s f False] assms by (auto simp: pin_def)
qed

lemma pinned_not_evicted:
  assumes "inv r" and "evict r = Inr (Some f, r')" and "g \<notin> evictable r"
  shows "f \<noteq> g \<and> (g \<in> tracked r \<longrightarrow> g \<in> tracked r')"
proof -
  have "evictable r \<noteq> {}" using assms evict_none by fastforce
  then show ?thesis using evict_some[OF assms(1)] assms by auto
qed

end

definition lruk_tracked :: "lruk \<Rightarrow> int set" where
  "lruk_tracked r = {f. access_count r f \<noteq> 0}"

lemma lruk_tracked_rel: "lruk_rel L r \<Longrightarrow> lruk_tracked r = set L"
  by (auto simp: lruk_tracked_def lruk_rel_def count_list_0_iff)

lemma lruk_rel_contract: "lruk_rel L r \<Longrightarrow> lruk_inv r \<and> lruk_tracked r = set L"
  by (auto simp: lruk_tracked_rel lruk_inv_def)

interpretation lruk: replacer lruk_inv replacer_size lruk_tracked
  "\<lambda>r. Collect (is_evictable r)" Evict RecordAccess SetEvictable Remove
proof
  fix r f b
  assume "lruk_inv r"
  then obtain L where rel: "lruk_rel L r" by (auto simp: lruk_inv_def)
  note tr = lruk_tracked_rel
  show "Collect (is_evictable r) \<subseteq> lruk_tracked r"
    using rel tr[OF rel] by (auto simp: lruk_rel_def)
  show "\<exists>f r'. Evict r = Inr (Some f, r') \<and> f \<in> Collect (is_evictable r) \<and> lruk_inv r' \<and>
      replacer_size r' = replacer_size r \<and> lruk_tracked r' = lruk_tracked r - {f} \<and>
      Collect (is_evictable r') = Collect (is_evictable r) - {f}"
    if "Collect (is_evictable r) \<noteq> {}"
  proof -
    from that obtain g where "is_evictable r g" by auto
    from Evict_rel[OF rel this] obtain f r' where "Evict r = Inr (Some f, r')" "is_evictable r f"
      and r': "lruk_rel (removeAll f L) r'" "is_evictable r' = (is_evictable r)(f := False)"
        "replacer_size r' = replacer_size r" by blast
    then show ?thesis
      using tr[OF rel] tr[OF r'(1)] by (intro exI[of _ f] exI[of _ r'])
        (auto simp: lruk_inv_def Collect_upd)
  qed
  show "Evict r = Inr (None, r)" if "Collect (is_evictable r) = {}"
    using that Evict_none[OF rel] by auto
  show "\<exists>r'. RecordAccess f r = Inr r' \<and> lruk_inv r' \<and> replacer_size r' = replacer_size r \<and>
      lruk_tracked r' = insert f (lruk_tracked r) \<and>
      Collect (is_evictable r') = Collect (is_evictable r)" if "f \<le> int (replacer_size r)"
    using RecordAccess_rel[OF rel that] tr[OF rel] by (auto dest!: lruk_rel_contract)
  show "\<exists>r'. SetEvictable f b r = Inr r' \<and> lruk_inv r' \<and> replacer_size r' = replacer_size r \<and>
      lruk_tracked r' = lruk_tracked r \<and> Collect (is_evictable r') =
        (if b then insert f (Collect (is_evictable r)) else Collect (is_evictable r) - {f})"
    if "f \<le> int (replacer_size r)" "f \<in> lruk_tracked r"
    using SetEvictable_rel[OF rel that(1), of b] tr[OF rel] that(2)
    by (auto simp: Collect_upd dest!: lruk_rel_contract)
  show "\<exists>r'. Remove f r = Inr r' \<and> lruk_inv r' \<and> replacer_size r' = replacer_size r \<and>
      lruk_tracked r' = lruk_tracked r - {f} \<and>
      Collect (is_evictable r') = Collect (is_evictable r) - {f}"
    if "f \<le> int (replacer_size r)" "f \<in> Collect (is_evictable r)"
    using Remove_rel[OF rel that(1)] that(2) tr[OF rel]
    by (auto simp: Collect_upd dest!: lruk_rel_contract)
qed

section \<open>Properties\<close>

text \<open>The public calls of the replacer and their effect on the access log.\<close>

datatype lruk_call = CRecord int | CSetEvictable int bool | CRemove int | CEvict

fun lruk_step :: "lruk_call \<Rightarrow> lruk \<times> int list \<Rightarrow> (lruk \<times> int list) result" where
  "lruk_step (CRecord f) (r, L) = bind_r (RecordAccess f r) (\<lambda>r'. Inr (r', f # L))"
| "lruk_step (CSetEvictable f b) (r, L) = bind_r (SetEvictable f b r) (\<lambda>r'. Inr (r', L))"
| "lruk_step (CRemove f) (r, L) =
     bind_r (Remove f r) (\<lambda>r'. Inr (r', if is_evictable r f then removeAll f L else L))"
| "lruk_step CEvict (r, L) =
     bind_r (Evict r) (\<lambda>(victim, r').
       Inr (r', case victim of None \<Rightarrow> L | Some f \<Rightarrow> removeAll f L))"

lemma lruk_step_rel:
  assumes rel: "lruk_rel L r"
  shows "case lruk_step c (r, L) of Inl e \<Rightarrow> e = Std_exception | Inr (r', L') \<Rightarrow> lruk_rel L' r'"
proof (cases c)
  case (CRecord f)
  then show ?thesis
    using RecordAccess_rel[OF rel, of f] by (cases "f \<le> int (replacer_size r)")
      (auto simp: RecordAccess_def not_le)
next
  case (CSetEvictable f b)
  then show ?thesis
    using SetEvictable_rel[OF rel, of f b] by (cases "f \<le> int (replacer_size r)")
      (auto simp: SetEvictable_def not_le)
next
  case (CRemove f)
  have "is_evictable r f \<Longrightarrow> access_count r f \<noteq> 0"
    using rel by (auto simp: lruk_rel_def count_list_0_iff)
  with CRemove show ?thesis
    using rel Remove_rel[OF rel, of f]
    by (cases "f \<le> int (replacer_size r)"; cases "is_evictable r f")
      (auto simp: Remove_def Let_def not_le)
next
  case CEvict
  show ?thesis
  proof (cases "\<exists>g. is_evictable r g")
    case True
    then obtain g where "is_evictable r g" by blast
    from Evict_rel[OF rel this] obtain f r'
      where "Evict r = Inr (Some f, r')" "lruk_rel (removeAll f L) r'" by blast
    with CEvict show ?thesis by simp
  next
    case False
    with CEvict rel Evict_none[OF rel] show ?thesis by simp
  qed
qed

text \<open>
  C30: Starting from a new replacer with \<open>k \<ge> 2\<close>, any sequence of calls either stops with the
  exception the header documents (invalid frame id, or \<open>Remove\<close> of a frame that is not
  evictable) or ends in a state that is consistent with the log of accesses: no call erases
  through a missing iterator, each list holds the right frames in the right order, and
  \<open>Size()\<close> is the number of evictable frames.
\<close>

theorem lruk_calls_sound:
  assumes "2 \<le> k"
  shows "case fold_r lruk_step cs (LRUKReplacer n k, []) of
      Inl e \<Rightarrow> e = Std_exception
    | Inr (r, L) \<Rightarrow> lruk_rel L r \<and> Size r = card {f. is_evictable r f}"
proof -
  have "case fold_r lruk_step cs (r, L) of Inl e \<Rightarrow> e = Std_exception | Inr (r', L') \<Rightarrow> lruk_rel L' r'"
    if "lruk_rel L r" for r L
    using that
  proof (induction cs arbitrary: r L)
    case (Cons c cs)
    then show ?case
      using lruk_step_rel[OF Cons.prems, of c] by (cases "lruk_step c (r, L)") auto
  qed simp
  from this[OF lruk_rel_init[OF assms, of n]] show ?thesis
    by (auto simp: Size_def lruk_rel_def split: sum.splits)
qed

definition lruk_demo :: "lruk_call list" where
  "lruk_demo = [CRecord 1, CRecord 2, CRecord 2, CRecord 1, CSetEvictable 1 True, CSetEvictable 2 True]"

theorem lruk_calls_sound_witness:
  "(2::nat) \<le> 2 \<and> (case fold_r lruk_step lruk_demo (LRUKReplacer 7 2, []) of
      Inl e \<Rightarrow> e = Std_exception
    | Inr (r, L) \<Rightarrow> lruk_rel L r \<and> Size r = card {f. is_evictable r f})"
  using lruk_calls_sound[of 2 lruk_demo 7] by simp


definition lruk_demo_state :: lruk where
  "lruk_demo_state =
     \<lparr>curr_size = 2, replacer_size = 7, k_param = 2,
      access_count = count_list [1, 2, 2, 1], history_list = [], history_map = {},
      cache_list = [1, 2], cache_map = {1, 2}, is_evictable = (\<lambda>f. f = 1 \<or> f = 2)\<rparr>"

lemma lruk_demo_state_rel: "lruk_rel [1, 2, 2, 1] lruk_demo_state"
proof -
  have "{f::int. f = 1 \<or> f = 2} = {1, 2}" by auto
  then show ?thesis
    by (simp add: lruk_rel_def lruk_demo_state_def history_of_def cache_of_def lru_order_def)
qed


text \<open>
  The documented policy is another one: \<open>lru_k_replacer.h\<close> promises to evict the frame
  with the largest backward k-distance, that is the oldest k-th most recent access. With
  \<open>k = 2\<close> and the accesses 1, 2, 2, 1 that is frame 1 (accessed first at time 1), but the
  code evicts frame 2, whose last access is older.
\<close>

theorem lruk_not_backward_k_distance:
  "case fold_r lruk_step lruk_demo (LRUKReplacer 7 2, []) of
      Inl e \<Rightarrow> False
    | Inr (r, L) \<Rightarrow> (\<exists>r'. Evict r = Inr (Some 2, r')) \<and> is_evictable r 1 \<and>
        kth_access 2 L 1 < kth_access 2 L 2"
  by (auto simp: lruk_demo_def LRUKReplacer_def RecordAccess_def SetEvictable_def Evict_def Let_def
      erase_history_def erase_cache_def push_cache_def)

text \<open>With \<open>k = 1\<close> the very first access erases through an iterator that was never stored.\<close>

lemma lruk_k1_undefined:
  "f \<le> int n \<Longrightarrow> RecordAccess f (LRUKReplacer n 1) = Inl Undefined_behaviour"
  by (simp add: RecordAccess_def LRUKReplacer_def erase_history_def)

end
