(* ===== verification/Extendible_Hash.thy ===== *)
theory Extendible_Hash
  imports Prelude
begin

text \<open>
  The in-memory extendible hash table: \<open>src/container/hash/extendible_hash_table.cpp\<close> and
  its header. The directory is a vector of shared pointers to buckets, several slots may
  point to the same bucket, and the split loop compares pointers; so the model has
  addresses: \<open>dir\<close> holds addresses and \<open>buckets\<close> is the store they point into.
  \<open>std::hash\<close> is the parameter \<open>h\<close>. \<open>int\<close> overflow of the directory size is undefined
  behaviour and stops the model. The public methods hold \<open>latch_\<close> and are atomic.
\<close>

unbundle bit_operations_syntax

section \<open>Buckets\<close>

record ('k, 'v) bucket =
  bkt_size :: nat
  bkt_depth :: nat
  bkt_list :: "('k \<times> 'v) list"

definition Bucket :: "nat \<Rightarrow> nat \<Rightarrow> ('k, 'v) bucket" where
  "Bucket array_size d = \<lparr>bkt_size = array_size, bkt_depth = d, bkt_list = []\<rparr>"

definition IsFull :: "('k, 'v) bucket \<Rightarrow> bool" where
  "IsFull b \<longleftrightarrow> length (bkt_list b) = bkt_size b"

fun find_item :: "'k \<Rightarrow> ('k \<times> 'v) list \<Rightarrow> 'v option" where
  "find_item key [] = None"
| "find_item key (item # items) =
     (if fst item = key then Some (snd item) else find_item key items)"

definition bucket_Find :: "'k \<Rightarrow> ('k, 'v) bucket \<Rightarrow> 'v option" where
  "bucket_Find key b = find_item key (bkt_list b)"

text \<open>The first item with the key is passed to \<open>list::remove\<close>, which erases every equal item.\<close>

definition bucket_Remove :: "'k \<Rightarrow> ('k, 'v) bucket \<Rightarrow> bool \<times> ('k, 'v) bucket" where
  "bucket_Remove key b =
     (case find_item key (bkt_list b) of
        Some v \<Rightarrow> (True, b\<lparr>bkt_list := removeAll (key, v) (bkt_list b)\<rparr>)
      | None \<Rightarrow> (False, b))"

definition bucket_Insert :: "'k \<Rightarrow> 'v \<Rightarrow> ('k, 'v) bucket \<Rightarrow> bool \<times> ('k, 'v) bucket" where
  "bucket_Insert key v b =
     (if IsFull b then (False, b) else (True, b\<lparr>bkt_list := bkt_list b @ [(key, v)]\<rparr>))"

section \<open>The table\<close>

record ('k, 'v) eht =
  global_depth :: nat
  bucket_size :: nat
  num_buckets :: nat
  dir :: "nat list"
  buckets :: "nat \<Rightarrow> ('k, 'v) bucket"
  fresh :: nat

definition ExtendibleHashTable :: "nat \<Rightarrow> ('k, 'v) eht" where
  "ExtendibleHashTable bsize =
     \<lparr>global_depth = 0, bucket_size = bsize, num_buckets = 1, dir = [0],
      buckets = (\<lambda>_. Bucket bsize 0), fresh = 1\<rparr>"

text \<open>\<open>hash & mask\<close> with \<open>mask = (1 << global_depth_) - 1\<close>.\<close>

definition IndexOf :: "('k \<Rightarrow> nat) \<Rightarrow> 'k \<Rightarrow> ('k, 'v) eht \<Rightarrow> nat" where
  "IndexOf h key t = (h key AND (2 ^ global_depth t - 1))"

definition GetLocalDepth :: "nat \<Rightarrow> ('k, 'v) eht \<Rightarrow> nat result" where
  "GetLocalDepth i t =
     (if i < length (dir t) then Inr (bkt_depth (buckets t (dir t ! i))) else Inl Undefined_behaviour)"

definition GetGlobalDepth :: "('k, 'v) eht \<Rightarrow> nat" where
  "GetGlobalDepth t = global_depth t"

definition GetNumBuckets :: "('k, 'v) eht \<Rightarrow> nat" where
  "GetNumBuckets t = num_buckets t"

definition target :: "('k \<Rightarrow> nat) \<Rightarrow> 'k \<Rightarrow> ('k, 'v) eht \<Rightarrow> nat" where
  "target h key t = dir t ! IndexOf h key t"

definition Find :: "('k \<Rightarrow> nat) \<Rightarrow> 'k \<Rightarrow> ('k, 'v) eht \<Rightarrow> 'v option" where
  "Find h key t = bucket_Find key (buckets t (target h key t))"

definition eht_Remove :: "('k \<Rightarrow> nat) \<Rightarrow> 'k \<Rightarrow> ('k, 'v) eht \<Rightarrow> bool \<times> ('k, 'v) eht" where
  "eht_Remove h key t =
     (let p = target h key t; (found, b) = bucket_Remove key (buckets t p)
      in (found, t\<lparr>buckets := (buckets t)(p := b)\<rparr>))"

text \<open>
  One iteration of the split loop of \<open>Insert\<close>: double the directory when the bucket is
  as deep as the table, then distribute the items by the bit \<open>1 << depth\<close> over two new
  buckets and redirect every slot that pointed to the old one. From depth 30 on,
  \<open>capacity << 1\<close> overflows \<open>int\<close>.
\<close>

definition double_dir :: "('k, 'v) eht \<Rightarrow> ('k, 'v) eht result" where
  "double_dir t =
     (if 30 \<le> global_depth t then Inl Undefined_behaviour
      else Inr (t\<lparr>global_depth := global_depth t + 1, dir := dir t @ dir t\<rparr>))"

fun distribute :: "('k \<Rightarrow> nat) \<Rightarrow> nat \<Rightarrow> ('k \<times> 'v) list \<Rightarrow>
    ('k, 'v) bucket \<Rightarrow> ('k, 'v) bucket \<Rightarrow> ('k, 'v) bucket \<times> ('k, 'v) bucket" where
  "distribute h m [] b0 b1 = (b0, b1)"
| "distribute h m (item # items) b0 b1 =
     (if h (fst item) AND m \<noteq> 0
      then distribute h m items b0 (snd (bucket_Insert (fst item) (snd item) b1))
      else distribute h m items (snd (bucket_Insert (fst item) (snd item) b0)) b1)"

definition split_target :: "('k \<Rightarrow> nat) \<Rightarrow> nat \<Rightarrow> ('k, 'v) eht \<Rightarrow> ('k, 'v) eht" where
  "split_target h p t =
     (let b = buckets t p; m = 2 ^ bkt_depth b;
          (b0, b1) = distribute h m (bkt_list b)
                       (Bucket (bucket_size t) (bkt_depth b + 1))
                       (Bucket (bucket_size t) (bkt_depth b + 1));
          n = fresh t
      in t\<lparr>num_buckets := num_buckets t + 1,
           buckets := (buckets t)(n := b0, n + 1 := b1),
           fresh := n + 2,
           dir := map (\<lambda>i. if dir t ! i = p then (if i AND m \<noteq> 0 then n + 1 else n)
                           else dir t ! i) [0..<length (dir t)]\<rparr>)"

definition split_step :: "('k \<Rightarrow> nat) \<Rightarrow> 'k \<Rightarrow> ('k, 'v) eht \<Rightarrow> ('k, 'v) eht result" where
  "split_step h key t =
     (let p = target h key t
      in bind_r (if bkt_depth (buckets t p) = global_depth t then double_dir t else Inr t)
           (\<lambda>t. Inr (split_target h p t)))"

text \<open>The loop; \<open>None\<close> is running out of fuel. \<open>Insert\<close> passes 32: see \<open>split_loop_fuel\<close>.\<close>

fun split_loop :: "nat \<Rightarrow> ('k \<Rightarrow> nat) \<Rightarrow> 'k \<Rightarrow> ('k, 'v) eht \<Rightarrow> ('k, 'v) eht result option" where
  "split_loop 0 h key t = None"
| "split_loop (Suc fuel) h key t =
     (if IsFull (buckets t (target h key t))
      then (case split_step h key t of
              Inl e \<Rightarrow> Some (Inl e)
            | Inr t' \<Rightarrow> split_loop fuel h key t')
      else Some (Inr t))"

fun assign_item :: "'k \<Rightarrow> 'v \<Rightarrow> ('k \<times> 'v) list \<Rightarrow> ('k \<times> 'v) list option" where
  "assign_item key v [] = None"
| "assign_item key v (item # items) =
     (if fst item = key then Some ((fst item, v) # items)
      else map_option ((#) item) (assign_item key v items))"

definition put_item :: "('k \<Rightarrow> nat) \<Rightarrow> 'k \<Rightarrow> 'v \<Rightarrow> ('k, 'v) eht \<Rightarrow> ('k, 'v) eht" where
  "put_item h key v t =
     (let p = target h key t; b = buckets t p
      in case assign_item key v (bkt_list b) of
           Some items \<Rightarrow> t\<lparr>buckets := (buckets t)(p := b\<lparr>bkt_list := items\<rparr>)\<rparr>
         | None \<Rightarrow> t\<lparr>buckets := (buckets t)(p := snd (bucket_Insert key v b))\<rparr>)"

definition Insert :: "('k \<Rightarrow> nat) \<Rightarrow> 'k \<Rightarrow> 'v \<Rightarrow> ('k, 'v) eht \<Rightarrow> ('k, 'v) eht result option" where
  "Insert h key v t =
     (case split_loop 32 h key t of
        None \<Rightarrow> None
      | Some (Inl e) \<Rightarrow> Some (Inl e)
      | Some (Inr t') \<Rightarrow> Some (Inr (put_item h key v t')))"

section \<open>Items as maps\<close>

lemma find_item_map_of: "find_item k xs = map_of xs k"
  by (induction xs) auto

lemma assign_item_None: "assign_item k v xs = None \<longleftrightarrow> k \<notin> fst ` set xs"
  by (induction xs) (auto simp: image_iff)

lemma assign_item_Some:
  "assign_item k v xs = Some ys \<Longrightarrow>
     map_of ys = (map_of xs)(k \<mapsto> v) \<and> map fst ys = map fst xs"
  by (induction xs arbitrary: ys) (auto split: if_splits simp: fun_upd_twist)

lemma map_of_removeAll:
  assumes "distinct (map fst xs)" and "map_of xs k = Some v"
  shows "map_of (removeAll (k, v) xs) = (map_of xs)(k := None)"
proof -
  have "filter (\<lambda>p. p \<noteq> (k, v)) xs = filter (\<lambda>p. fst p \<noteq> k) xs"
    using assms by (intro filter_cong) (auto dest: eq_key_imp_eq_value map_of_SomeD)
  moreover have "map_of (filter (\<lambda>p. fst p \<noteq> k) xs) = (map_of xs)(k := None)"
    by (induction xs) (auto simp: fun_eq_iff)
  ultimately show ?thesis by (simp add: removeAll_filter_not_eq eq_commute)
qed

text \<open>Testing the bit of a mask is testing the bit.\<close>

lemma and_mask_zero: "x AND 2 ^ d = (0::nat) \<longleftrightarrow> \<not> bit x d"
  by (rule and_exp_eq_0_iff_not_bit)

lemma IndexOf_take_bit: "IndexOf h key t = take_bit (global_depth t) (h key)"
  by (simp add: IndexOf_def take_bit_eq_mask mask_eq_exp_minus_1)

lemma distribute_eq:
  assumes "length (bkt_list b0) + length xs \<le> bkt_size b0"
    and "length (bkt_list b1) + length xs \<le> bkt_size b1"
  shows "distribute h (2 ^ d) xs b0 b1 =
     (b0\<lparr>bkt_list := bkt_list b0 @ filter (\<lambda>p. \<not> bit (h (fst p)) d) xs\<rparr>,
      b1\<lparr>bkt_list := bkt_list b1 @ filter (\<lambda>p. bit (h (fst p)) d) xs\<rparr>)"
  using assms
proof (induction xs arbitrary: b0 b1)
  case (Cons x xs)
  then show ?case
    by (cases "bit (h (fst x)) d")
      (simp_all add: and_mask_zero bucket_Insert_def IsFull_def prod_eq_iff)
qed simp

section \<open>Invariant and abstraction\<close>

text \<open>
  A slot holds the items whose hash agrees with its index on the local depth, and two
  slots share a bucket exactly when their indices agree on the local depth.
\<close>

definition slot_ok :: "('k \<Rightarrow> nat) \<Rightarrow> ('k, 'v) eht \<Rightarrow> nat \<Rightarrow> bool" where
  "slot_ok h t i \<longleftrightarrow>
     (let b = buckets t (dir t ! i)
      in bkt_size b = bucket_size t \<and> bkt_depth b \<le> global_depth t \<and>
         length (bkt_list b) \<le> bkt_size b \<and> distinct (map fst (bkt_list b)) \<and>
         (\<forall>item\<in>set (bkt_list b).
            take_bit (bkt_depth b) (h (fst item)) = take_bit (bkt_depth b) i))"

definition shared_ok :: "('k, 'v) eht \<Rightarrow> bool" where
  "shared_ok t \<longleftrightarrow>
     (\<forall>i<length (dir t). \<forall>j<length (dir t).
        dir t ! i = dir t ! j \<longleftrightarrow>
        take_bit (bkt_depth (buckets t (dir t ! i))) i = take_bit (bkt_depth (buckets t (dir t ! i))) j)"

definition eht_inv :: "('k \<Rightarrow> nat) \<Rightarrow> ('k, 'v) eht \<Rightarrow> bool" where
  "eht_inv h t \<longleftrightarrow>
     0 < bucket_size t \<and> global_depth t \<le> 30 \<and> length (dir t) = 2 ^ global_depth t \<and>
     (\<forall>i<length (dir t). dir t ! i < fresh t \<and> slot_ok h t i) \<and> shared_ok t \<and>
     num_buckets t = card (set (dir t))"

definition eht_map :: "('k \<Rightarrow> nat) \<Rightarrow> ('k, 'v) eht \<Rightarrow> 'k \<Rightarrow> 'v option" where
  "eht_map h t k = map_of (bkt_list (buckets t (target h k t))) k"

lemma eht_inv_init: "0 < n \<Longrightarrow> eht_inv h (ExtendibleHashTable n)"
  by (simp add: eht_inv_def ExtendibleHashTable_def slot_ok_def shared_ok_def Bucket_def)

lemma eht_map_init: "eht_map h (ExtendibleHashTable n) = (\<lambda>_. None)"
  by (simp add: fun_eq_iff eht_map_def ExtendibleHashTable_def Bucket_def)

lemma Find_eht_map: "Find h k t = eht_map h t k"
  by (simp add: Find_def eht_map_def bucket_Find_def find_item_map_of)

lemma IndexOf_less: "eht_inv h t \<Longrightarrow> IndexOf h k t < length (dir t)"
  by (simp add: eht_inv_def IndexOf_take_bit)

lemma nth_append_self:
  "length xs = 2 ^ g \<Longrightarrow> i < 2 ^ Suc g \<Longrightarrow> (xs @ xs) ! i = xs ! take_bit g i"
  by (auto simp: nth_append take_bit_nat_eq_self take_bit_eq_mod le_mod_geq)

lemma double_dir_correct:
  assumes inv: "eht_inv h t" and d: "double_dir t = Inr t'"
  shows "eht_inv h t' \<and> eht_map h t' = eht_map h t \<and> target h k t' = target h k t \<and>
    buckets t' = buckets t \<and> global_depth t' = Suc (global_depth t)"
proof -
  let ?g = "global_depth t"
  from d have g: "?g < 30"
    and t': "t' = t\<lparr>global_depth := ?g + 1, dir := dir t @ dir t\<rparr>"
    by (auto simp: double_dir_def split: if_splits)
  have len: "length (dir t) = 2 ^ ?g" using inv by (simp add: eht_inv_def)
  have nth: "dir t' ! i = dir t ! take_bit ?g i" if "i < 2 ^ Suc ?g" for i
    using nth_append_self[OF len that] by (simp add: t')
  have low: "take_bit ?g i < length (dir t)" for i
    by (simp add: len)
  have ok: "slot_ok h t i" if "i < length (dir t)" for i
    using inv that by (simp add: eht_inv_def)
  have dep: "bkt_depth (buckets t (dir t ! take_bit ?g i)) \<le> ?g" for i
    using ok[OF low] by (simp add: slot_ok_def Let_def)
  have tb: "take_bit (bkt_depth (buckets t (dir t ! take_bit ?g i))) (take_bit ?g j) =
      take_bit (bkt_depth (buckets t (dir t ! take_bit ?g i))) j" for i j
    using dep[of i] by (simp add: min_def)
  have tgt: "target h k t' = target h k t" for k
    using nth[OF take_bit_nat_less_exp, of "h k"]
    by (simp add: target_def IndexOf_take_bit t')
  have slot: "slot_ok h t' i" if "i < 2 ^ Suc ?g" for i
    using ok[OF low[of i]] nth[OF that] tb[of i i] dep[of i]
    by (auto simp: slot_ok_def Let_def t')
  have shared: "shared_ok t'"
    unfolding shared_ok_def
  proof (intro allI impI)
    fix i j assume "i < length (dir t')" "j < length (dir t')"
    then have ij: "i < 2 ^ Suc ?g" "j < 2 ^ Suc ?g" by (simp_all add: t' len)
    have "buckets t' = buckets t" by (simp add: t')
    moreover have "dir t ! take_bit ?g i = dir t ! take_bit ?g j \<longleftrightarrow>
      take_bit (bkt_depth (buckets t (dir t ! take_bit ?g i))) i =
      take_bit (bkt_depth (buckets t (dir t ! take_bit ?g i))) j"
      using inv low[of i] low[of j] tb[of i i] tb[of i j]
      by (simp add: eht_inv_def shared_ok_def)
    ultimately show "(dir t' ! i = dir t' ! j) =
      (take_bit (bkt_depth (buckets t' (dir t' ! i))) i = take_bit (bkt_depth (buckets t' (dir t' ! i))) j)"
      by (simp add: nth[OF ij(1)] nth[OF ij(2)])
  qed
  have "eht_inv h t'"
    using inv g slot shared nth low len by (simp add: eht_inv_def t' del: upt_Suc) 
  then show ?thesis
    using tgt by (auto simp: eht_map_def t')
qed

lemma map_of_filter_key: "Q k \<Longrightarrow> map_of (filter (\<lambda>p. Q (fst p)) xs) k = map_of xs k"
  by (induction xs) auto

lemma take_bit_Suc_eq_iff:
  "take_bit (Suc d) (i::nat) = take_bit (Suc d) j \<longleftrightarrow>
     take_bit d i = take_bit d j \<and> bit i d = bit j d"
proof
  assume eq: "take_bit (Suc d) i = take_bit (Suc d) j"
  have "take_bit d (take_bit (Suc d) i) = take_bit d (take_bit (Suc d) j)"
    and "bit (take_bit (Suc d) i) d = bit (take_bit (Suc d) j) d" by (simp_all only: eq)
  then show "take_bit d i = take_bit d j \<and> bit i d = bit j d"
    by (simp add: min_def bit_take_bit_iff)
qed (simp add: take_bit_Suc_from_most)

lemma bit_low_add: "x < 2 ^ d \<Longrightarrow> bit (x + (if one then 2 ^ d else 0)) d = one" for x :: nat
  using div_add_self2[of "2 ^ d" x] by (cases one) (simp_all add: bit_iff_odd)

lemma split_target_parts:
  fixes h :: "'k \<Rightarrow> nat" and t :: "('k, 'v) eht"
  assumes "bkt_size (buckets t p) = bucket_size t"
    and "length (bkt_list (buckets t p)) \<le> bucket_size t"
  defines "b \<equiv> buckets t p"
  defines "half \<equiv> (\<lambda>one. \<lparr>bkt_size = bucket_size t, bkt_depth = Suc (bkt_depth b),
      bkt_list = filter (\<lambda>x. bit (h (fst x)) (bkt_depth b) = one) (bkt_list b)\<rparr>)"
  shows "split_target h p t =
     t\<lparr>num_buckets := num_buckets t + 1,
       buckets := (buckets t)(fresh t := half False, fresh t + 1 := half True),
       fresh := fresh t + 2,
       dir := map (\<lambda>i. if dir t ! i = p then (if bit i (bkt_depth b) then fresh t + 1 else fresh t)
                       else dir t ! i) [0..<length (dir t)]\<rparr>"
proof -
  have dist: "distribute h (2 ^ bkt_depth b) (bkt_list b)
      (Bucket (bucket_size t) (bkt_depth b + 1)) (Bucket (bucket_size t) (bkt_depth b + 1)) =
      (half False, half True)"
    using assms(1,2) by (subst distribute_eq) (simp_all add: Bucket_def b_def half_def)
  have m: "(if i AND 2 ^ bkt_depth b \<noteq> 0 then fresh t + 1 else fresh t) =
      (if bit i (bkt_depth b) then fresh t + 1 else fresh t)" for i :: nat
    by (simp add: and_mask_zero)
  show ?thesis
    unfolding split_target_def Let_def b_def[symmetric] dist prod.case m by simp
qed

lemma split_target_correct:
  assumes inv: "eht_inv h t" and p: "p = dir t ! i0" and i0: "i0 < length (dir t)"
    and deep: "bkt_depth (buckets t p) < global_depth t"
  defines "t' \<equiv> split_target h p t"
  shows "eht_inv h t' \<and> eht_map h t' = eht_map h t \<and> global_depth t' = global_depth t \<and>
    bucket_size t' = bucket_size t \<and>
    bkt_depth (buckets t' (dir t' ! i0)) = Suc (bkt_depth (buckets t p))"
proof -
  let ?g = "global_depth t" and ?d = "bkt_depth (buckets t p)" and ?n = "fresh t"
  have slot: "slot_ok h t i" "dir t ! i < ?n" if "i < length (dir t)" for i
    using inv that by (simp_all add: eht_inv_def)
  have pb: "bkt_size (buckets t p) = bucket_size t" "length (bkt_list (buckets t p)) \<le> bucket_size t"
    using slot(1)[OF i0] by (simp_all add: slot_ok_def Let_def p)
  note t' = split_target_parts[OF pb, of h, folded t'_def]
  have len: "length (dir t') = length (dir t)" and gd: "global_depth t' = ?g"
    and bs: "bucket_size t' = bucket_size t" by (simp_all add: t')
  have nth: "dir t' ! i = (if dir t ! i = p then (if bit i ?d then ?n + 1 else ?n) else dir t ! i)"
    if "i < length (dir t)" for i using that by (simp add: t')
  have bkt: "buckets t' (dir t' ! i) =
      (if dir t ! i = p
       then \<lparr>bkt_size = bucket_size t, bkt_depth = Suc ?d,
             bkt_list = filter (\<lambda>x. bit (h (fst x)) ?d = bit i ?d) (bkt_list (buckets t p))\<rparr>
       else buckets t (dir t ! i))" if "i < length (dir t)" for i
    using slot(2)[OF that] nth[OF that] by (simp add: t')
  have slot': "slot_ok h t' i" if i: "i < length (dir t)" for i
  proof (cases "dir t ! i = p")
    case True
    have "\<forall>x\<in>set (bkt_list (buckets t p)). take_bit ?d (h (fst x)) = take_bit ?d i"
      using slot(1)[OF i] True by (simp add: slot_ok_def Let_def)
    moreover have "length (filter Q (bkt_list (buckets t p))) \<le> bucket_size t" for Q
      using pb(2) length_filter_le order_trans by blast
    moreover have "distinct (map fst (filter Q (bkt_list (buckets t p))))" for Q
      using slot(1)[OF i] True by (simp add: slot_ok_def Let_def distinct_map_filter)
    ultimately show ?thesis
      using True deep unfolding slot_ok_def Let_def bkt[OF i]
      by (simp add: gd bs take_bit_Suc_eq_iff)
  next
    case False
    then show ?thesis
      using slot(1)[OF i] unfolding slot_ok_def Let_def bkt[OF i] by (simp add: gd bs)
  qed
  have sh: "dir t ! i = dir t ! j \<longleftrightarrow>
      take_bit (bkt_depth (buckets t (dir t ! i))) i = take_bit (bkt_depth (buckets t (dir t ! i))) j"
    if "i < length (dir t)" "j < length (dir t)" for i j
    using inv that by (simp add: eht_inv_def shared_ok_def)
  have shared: "shared_ok t'"
    unfolding shared_ok_def len
  proof (intro allI impI)
    fix i j assume i: "i < length (dir t)" and j: "j < length (dir t)"
    show "(dir t' ! i = dir t' ! j) =
      (take_bit (bkt_depth (buckets t' (dir t' ! i))) i = take_bit (bkt_depth (buckets t' (dir t' ! i))) j)"
    proof (cases "dir t ! i = p")
      case True
      then have "dir t ! j = p \<longleftrightarrow> take_bit ?d i = take_bit ?d j" using sh[OF i j] by metis
      moreover have dep: "bkt_depth (buckets t' (dir t' ! i)) = Suc ?d" using bkt[OF i] True by simp
      ultimately show ?thesis
        using slot(2)[OF j] unfolding dep nth[OF i] nth[OF j] if_P[OF True]
        by (cases "bit i ?d"; cases "bit j ?d"; cases "dir t ! j = p")
          (simp_all add: take_bit_Suc_eq_iff)
    next
      case False
      have "dir t ! i \<noteq> ?n" "dir t ! i \<noteq> ?n + 1" using slot(2)[OF i] by simp_all
      moreover have dep: "buckets t' (dir t' ! i) = buckets t (dir t ! i)" using bkt[OF i] False by simp
      ultimately show ?thesis
        using False sh[OF i j] unfolding dep nth[OF i] nth[OF j] if_not_P[OF False]
        by (cases "dir t ! j = p") simp_all
    qed
  qed
  have "\<exists>i<length (dir t). dir t ! i = p \<and> bit i ?d = one" for one
  proof -
    let ?i = "take_bit ?d i0 + (if one then 2 ^ ?d else 0)"
    have lt: "?i < 2 ^ Suc ?d" using take_bit_nat_less_exp[of ?d i0] by (simp, linarith)
    also have "(2::nat) ^ Suc ?d \<le> 2 ^ ?g" using deep by (intro power_increasing) auto
    finally have "?i < length (dir t)" using inv by (simp add: eht_inv_def)
    moreover have "take_bit ?d ?i = take_bit ?d i0" by (simp add: take_bit_eq_mod)
    moreover have "bit ?i ?d = one"
      by (rule bit_low_add) simp
    ultimately show ?thesis using sh[OF i0, of ?i] p by (intro exI[of _ ?i]) auto
  qed
  then obtain j0 j1 where j0: "j0 < length (dir t)" "dir t ! j0 = p" "\<not> bit j0 ?d"
    and j1: "j1 < length (dir t)" "dir t ! j1 = p" "bit j1 ?d" by meson
  have "set (dir t') = insert ?n (insert (?n + 1) (set (dir t) - {p}))"
  proof (intro set_eqI iffI)
    fix x assume "x \<in> set (dir t')"
    then obtain i where "i < length (dir t)" "x = dir t' ! i" by (auto simp: in_set_conv_nth len)
    then show "x \<in> insert ?n (insert (?n + 1) (set (dir t) - {p}))" by (simp add: nth)
  next
    fix x assume "x \<in> insert ?n (insert (?n + 1) (set (dir t) - {p}))"
    then consider "x = ?n" | "x = ?n + 1" | i where "i < length (dir t)" "x = dir t ! i" "x \<noteq> p"
      by (auto simp: in_set_conv_nth)
    then show "x \<in> set (dir t')"
    proof cases
      case 1 then show ?thesis using nth[OF j0(1)] j0 len by (auto simp: in_set_conv_nth)
    next
      case 2 then show ?thesis using nth[OF j1(1)] j1 len by (auto simp: in_set_conv_nth)
    next
      case 3 then show ?thesis using nth[OF 3(1)] len by (auto simp: in_set_conv_nth)
    qed
  qed
  moreover have "?n \<notin> set (dir t)" "?n + 1 \<notin> set (dir t)" "p \<in> set (dir t)"
    using slot(2) i0 p by (auto simp: in_set_conv_nth) (metis less_SucI less_irrefl)+
  ultimately have "card (set (dir t')) = Suc (card (set (dir t)))"
    by (simp add: card_Diff_singleton) (metis List.finite_set card_gt_0_iff empty_iff Suc_pred)
  then have inv': "eht_inv h t'"
    using inv slot' shared slot(2) unfolding eht_inv_def len gd bs
    by (auto simp: nth) (auto simp: t' less_SucI)
  have idx: "IndexOf h k t < length (dir t)" for k by (rule IndexOf_less[OF inv])
  have "eht_map h t' k = eht_map h t k" for k
  proof -
    have tgt: "target h k t' = dir t' ! IndexOf h k t" by (simp add: target_def IndexOf_take_bit gd)
    have "bit (IndexOf h k t) ?d = bit (h k) ?d"
      using deep by (simp add: IndexOf_take_bit bit_take_bit_iff)
    then show ?thesis
      unfolding eht_map_def tgt bkt[OF idx]
      using map_of_filter_key[of "\<lambda>x. bit (h x) ?d = bit (h k) ?d" k "bkt_list (buckets t p)"]
      by (simp add: target_def)
  qed
  then show ?thesis
    using inv' gd bs bkt[OF i0] p by (simp add: fun_eq_iff)
qed

text \<open>
  The loop ends: every iteration makes the bucket of the key one level deeper, and a bucket
  is never deeper than 30. It ends without overflow when fewer than \<open>bucket_size_\<close> of the
  stored keys agree with the new key on the low 30 bits of the hash.
\<close>

definition crowd :: "('k \<Rightarrow> nat) \<Rightarrow> 'k \<Rightarrow> nat \<Rightarrow> ('k, 'v) eht \<Rightarrow> 'k set" where
  "crowd h key d t = {k \<in> dom (eht_map h t). take_bit d (h k) = take_bit d (h key)}"

definition key_depth :: "('k \<Rightarrow> nat) \<Rightarrow> 'k \<Rightarrow> ('k, 'v) eht \<Rightarrow> nat" where
  "key_depth h key t = bkt_depth (buckets t (target h key t))"

lemma target_slot:
  assumes "eht_inv h t"
  shows "slot_ok h t (IndexOf h key t)" and "target h key t = dir t ! IndexOf h key t"
    and "IndexOf h key t < length (dir t)" and "key_depth h key t \<le> global_depth t"
    and "bkt_size (buckets t (target h key t)) = bucket_size t"
  using assms IndexOf_less[OF assms, of key]
  by (auto simp: eht_inv_def target_def key_depth_def slot_ok_def Let_def)

lemma split_step_correct:
  assumes inv: "eht_inv h t" and s: "split_step h key t = Inr t'"
  shows "eht_inv h t' \<and> eht_map h t' = eht_map h t \<and> bucket_size t' = bucket_size t \<and>
    key_depth h key t' = Suc (key_depth h key t)"
proof -
  let ?p = "target h key t"
  obtain t1 where t1: "t' = split_target h ?p t1" "eht_inv h t1" "eht_map h t1 = eht_map h t"
    "target h key t1 = ?p" "buckets t1 = buckets t" "key_depth h key t < global_depth t1"
    "bucket_size t1 = bucket_size t"
  proof (cases "key_depth h key t = global_depth t")
    case True
    then obtain t1 where d: "double_dir t = Inr t1" and t1: "t' = split_target h ?p t1"
      using s by (auto simp: split_step_def Let_def key_depth_def result_simps)
    have "bucket_size t1 = bucket_size t" using d by (auto simp: double_dir_def split: if_splits)
    with double_dir_correct[OF inv d] t1 True show ?thesis by (intro that[of t1]) auto
  next
    case False
    with s have "t' = split_target h ?p t"
      by (simp add: split_step_def Let_def key_depth_def)
    with False inv target_slot(4)[OF inv, of key] show ?thesis by (intro that[of t]) auto
  qed
  have "?p = dir t1 ! IndexOf h key t1" using t1(4) target_slot(2)[OF t1(2), of key] by simp
  from split_target_correct[OF t1(2) this target_slot(3)[OF t1(2)]] t1
  show ?thesis by (auto simp: key_depth_def target_def IndexOf_take_bit)
qed

lemma finite_dom_eht_map:
  assumes "eht_inv h t" shows "finite (dom (eht_map h t))"
proof (rule finite_subset)
  show "dom (eht_map h t) \<subseteq> (\<Union>p\<in>set (dir t). fst ` set (bkt_list (buckets t p)))"
    using target_slot(2,3)[OF assms] by (force simp: eht_map_def dest: map_of_SomeD)
qed simp

text \<open>A key stored in the bucket of another key has that bucket as its own.\<close>

lemma bucket_keys:
  assumes inv: "eht_inv h t" and k: "k \<in> fst ` set (bkt_list (buckets t (target h key t)))"
  shows "target h k t = target h key t" and "k \<in> crowd h key (key_depth h key t) t"
proof -
  let ?d = "key_depth h key t" and ?i = "IndexOf h key t" and ?j = "IndexOf h k t"
  note slot = target_slot[OF inv, of key] and slotk = target_slot[OF inv, of k]
  have d: "take_bit ?d (h k) = take_bit ?d ?i"
    using slot(1,2) k by (auto simp: slot_ok_def Let_def key_depth_def)
  have low: "take_bit ?d (IndexOf h x t) = take_bit ?d (h x)" for x
    using slot(4) by (simp add: IndexOf_take_bit min_def)
  have "dir t ! ?i = dir t ! ?j \<longleftrightarrow> take_bit ?d ?i = take_bit ?d ?j"
    using inv slot(2,3) slotk(3) unfolding eht_inv_def shared_ok_def key_depth_def by metis
  then show same: "target h k t = target h key t"
    using d low slot(2) slotk(2) by simp
  have "map_of (bkt_list (buckets t (target h key t))) k \<noteq> None"
    using k by (simp add: map_of_eq_None_iff)
  then show "k \<in> crowd h key ?d t"
    using same d low by (auto simp: crowd_def eht_map_def)
qed

lemma full_crowd:
  assumes inv: "eht_inv h t" and full: "IsFull (buckets t (target h key t))"
  shows "bucket_size t \<le> card (crowd h key (key_depth h key t) t)"
proof -
  let ?b = "buckets t (target h key t)"
  have b: "distinct (map fst (bkt_list ?b))" "length (bkt_list ?b) = bucket_size t"
    using target_slot(1,2,5)[OF inv, of key] full by (auto simp: slot_ok_def Let_def IsFull_def)
  have "card (fst ` set (bkt_list ?b)) \<le> card (crowd h key (key_depth h key t) t)"
    using bucket_keys(2)[OF inv] finite_dom_eht_map[OF inv]
    by (intro card_mono) (auto simp: crowd_def)
  moreover have "card (fst ` set (bkt_list ?b)) = bucket_size t"
    using b distinct_card[OF b(1)] by simp
  ultimately show ?thesis by simp
qed

lemma split_loop_fuel:
  assumes "eht_inv h t" and "30 < fuel + key_depth h key t"
  shows "\<exists>res. split_loop fuel h key t = Some res \<and>
     (case res of
        Inl e \<Rightarrow> e = Undefined_behaviour \<and> bucket_size t \<le> card (crowd h key 30 t)
      | Inr t' \<Rightarrow> eht_inv h t' \<and> eht_map h t' = eht_map h t \<and> bucket_size t' = bucket_size t \<and>
          \<not> IsFull (buckets t' (target h key t')))"
  using assms
proof (induction fuel arbitrary: t)
  case 0
  then show ?case using target_slot(4)[of h t key] by (simp add: eht_inv_def)
next
  case (Suc fuel)
  note inv = Suc.prems(1)
  show ?case
  proof (cases "IsFull (buckets t (target h key t))")
    case full: True
    show ?thesis
    proof (cases "split_step h key t")
      case (Inl e)
      then have "key_depth h key t = global_depth t \<and> 30 \<le> global_depth t \<and> e = Undefined_behaviour"
        by (auto simp: split_step_def Let_def key_depth_def double_dir_def split: if_splits)
      moreover have "global_depth t \<le> 30" using inv by (simp add: eht_inv_def)
      ultimately have "key_depth h key t = 30" "e = Undefined_behaviour" by simp_all
      then show ?thesis using full Inl full_crowd[OF inv full] by simp
    next
      case (Inr t1)
      note s = split_step_correct[OF inv Inr]
      have "30 < fuel + key_depth h key t1" using s Suc.prems(2) by simp
      note IH = Suc.IH[OF conjunct1[OF s] this]
      have "crowd h key 30 t1 = crowd h key 30 t" using s by (simp add: crowd_def)
      with IH s full Inr show ?thesis by (auto split: sum.splits)
    qed
  next
    case False
    with inv show ?thesis by simp
  qed
qed

section \<open>Refinement of a partial map\<close>

lemma eht_update_bucket:
  assumes inv: "eht_inv h t" and p: "p = target h key t"
    and b: "bkt_size b = bkt_size (buckets t p)" "bkt_depth b = bkt_depth (buckets t p)"
      "length (bkt_list b) \<le> bkt_size b" "distinct (map fst (bkt_list b))"
    and keys: "fst ` set (bkt_list b) \<subseteq> insert key (fst ` set (bkt_list (buckets t p)))"
  defines "t' \<equiv> t\<lparr>buckets := (buckets t)(p := b)\<rparr>"
  shows "eht_inv h t'"
    and "eht_map h t' k = (if target h k t = p then map_of (bkt_list b) k else eht_map h t k)"
proof -
  let ?i = "IndexOf h key t" and ?d = "bkt_depth (buckets t p)"
  note slot = target_slot[OF inv, of key]
  have d: "?d \<le> global_depth t" using slot(4) by (simp add: key_depth_def p)
  have old: "take_bit ?d (h k) = take_bit ?d ?i" if "k \<in> fst ` set (bkt_list (buckets t p))" for k
    using slot(1,2) that by (auto simp: slot_ok_def Let_def p)
  have new: "take_bit ?d (h k) = take_bit ?d ?i" if "k \<in> fst ` set (bkt_list b)" for k
    using subsetD[OF keys that] old d by (auto simp: IndexOf_take_bit min_def)
  have dep: "bkt_depth (buckets t' x) = bkt_depth (buckets t x)" for x
    using b(2) by (simp add: t'_def)
  have "slot_ok h t' j" if j: "j < length (dir t)" for j
  proof (cases "dir t ! j = p")
    case True
    have "take_bit ?d j = take_bit ?d ?i"
      using inv j slot(2,3) True unfolding eht_inv_def shared_ok_def p by metis
    then show ?thesis
      using b new d True slot(5) by (auto simp: slot_ok_def Let_def t'_def p)
  next
    case False
    moreover have "slot_ok h t j" using inv j by (simp add: eht_inv_def)
    ultimately show ?thesis by (simp add: slot_ok_def Let_def t'_def)
  qed
  moreover have "shared_ok t'"
    using inv unfolding eht_inv_def shared_ok_def dep by (simp add: t'_def)
  ultimately show "eht_inv h t'"
    using inv by (simp add: eht_inv_def t'_def)
  show "eht_map h t' k = (if target h k t = p then map_of (bkt_list b) k else eht_map h t k)"
    by (simp add: eht_map_def target_def IndexOf_take_bit t'_def)
qed

lemma eht_Remove_correct:
  assumes inv: "eht_inv h t"
  shows "\<exists>t'. eht_Remove h key t = (eht_map h t key \<noteq> None, t') \<and> eht_inv h t' \<and>
    eht_map h t' = (eht_map h t)(key := None) \<and> bucket_size t' = bucket_size t"
proof -
  let ?p = "target h key t"
  let ?b = "buckets t ?p" and ?b' = "snd (bucket_Remove key (buckets t ?p))"
  have slot: "length (bkt_list ?b) \<le> bkt_size ?b" "distinct (map fst (bkt_list ?b))"
    using target_slot(1,2)[OF inv, of key] by (simp_all add: slot_ok_def Let_def)
  have m: "map_of (bkt_list ?b') = (map_of (bkt_list ?b))(key := None)"
    using map_of_removeAll[OF slot(2), of key]
    by (auto simp: bucket_Remove_def find_item_map_of fun_upd_idem split: option.split)
  have len: "length (bkt_list ?b') \<le> length (bkt_list ?b)"
    by (simp add: bucket_Remove_def length_removeAll_less_eq split: option.split)
  have dist: "distinct (map fst (bkt_list ?b'))"
    using slot(2) by (auto simp: bucket_Remove_def removeAll_filter_not_eq distinct_map_filter split: option.split)
  have sub: "fst ` set (bkt_list ?b') \<subseteq> insert key (fst ` set (bkt_list ?b))"
    by (auto simp: bucket_Remove_def split: option.split)
  have same: "bkt_size ?b' = bkt_size ?b" "bkt_depth ?b' = bkt_depth ?b"
    by (simp_all add: bucket_Remove_def split: option.split)
  have len': "length (bkt_list ?b') \<le> bkt_size ?b'" using len slot(1) same by simp
  note upd = eht_update_bucket[OF inv refl same len' dist sub]
  have "eht_Remove h key t = (eht_map h t key \<noteq> None, t\<lparr>buckets := (buckets t)(?p := ?b')\<rparr>)"
    by (simp add: eht_Remove_def Let_def bucket_Remove_def eht_map_def find_item_map_of split: option.split)
  moreover have "eht_map h (t\<lparr>buckets := (buckets t)(?p := ?b')\<rparr>) = (eht_map h t)(key := None)"
    unfolding fun_eq_iff upd(2) by (simp add: m eht_map_def)
  ultimately show ?thesis using upd(1) by simp
qed

lemma put_item_correct:
  assumes inv: "eht_inv h t" and nf: "\<not> IsFull (buckets t (target h key t))"
  shows "eht_inv h (put_item h key v t) \<and> eht_map h (put_item h key v t) = (eht_map h t)(key \<mapsto> v) \<and>
    bucket_size (put_item h key v t) = bucket_size t"
proof -
  let ?p = "target h key t"
  let ?b = "buckets t ?p"
  define b' where "b' = (case assign_item key v (bkt_list ?b) of
      Some items \<Rightarrow> ?b\<lparr>bkt_list := items\<rparr> | None \<Rightarrow> snd (bucket_Insert key v ?b))"
  have put: "put_item h key v t = t\<lparr>buckets := (buckets t)(?p := b')\<rparr>"
    by (simp add: put_item_def Let_def b'_def split: option.split)
  have slot: "length (bkt_list ?b) \<le> bkt_size ?b" "distinct (map fst (bkt_list ?b))"
    using target_slot(1,2)[OF inv, of key] by (simp_all add: slot_ok_def Let_def)
  have b': "bkt_size b' = bkt_size ?b \<and> bkt_depth b' = bkt_depth ?b \<and> length (bkt_list b') \<le> bkt_size b' \<and>
      distinct (map fst (bkt_list b')) \<and>
      fst ` set (bkt_list b') \<subseteq> insert key (fst ` set (bkt_list ?b)) \<and>
      map_of (bkt_list b') = (map_of (bkt_list ?b))(key \<mapsto> v)"
  proof (cases "assign_item key v (bkt_list ?b)")
    case None
    then have "key \<notin> fst ` set (bkt_list ?b)" by (simp add: assign_item_None)
    moreover from this have "map_of (bkt_list ?b) key = None" by (simp add: map_of_eq_None_iff)
    ultimately show ?thesis
      using None nf slot
      by (auto simp: b'_def bucket_Insert_def IsFull_def map_add_def fun_eq_iff split: option.split)
  next
    case (Some items)
    note as = assign_item_Some[OF Some]
    have "length items = length (bkt_list ?b)" using as by (metis length_map)
    moreover have "fst ` set items = fst ` set (bkt_list ?b)" using as by (metis list.set_map)
    ultimately show ?thesis using Some slot as by (simp add: b'_def subset_insertI)
  qed
  then have "eht_inv h (put_item h key v t)"
    unfolding put by (intro eht_update_bucket(1)[OF inv refl]) auto
  moreover have "eht_map h (put_item h key v t) k = ((eht_map h t)(key \<mapsto> v)) k" for k
    unfolding put using b' by (subst eht_update_bucket(2)[OF inv refl]) (auto simp: eht_map_def)
  ultimately show ?thesis by (auto simp: put)
qed

lemma Insert_correct:
  assumes inv: "eht_inv h t"
  shows "\<exists>res. Insert h key v t = Some res \<and>
     (case res of
        Inl e \<Rightarrow> e = Undefined_behaviour \<and> bucket_size t \<le> card (crowd h key 30 t)
      | Inr t' \<Rightarrow> eht_inv h t' \<and> eht_map h t' = (eht_map h t)(key \<mapsto> v) \<and>
          bucket_size t' = bucket_size t)"
proof -
  have "30 < 32 + key_depth h key t" by simp
  from split_loop_fuel[OF inv this] obtain res where
    l: "split_loop 32 h key t = Some res" and res: "case res of
        Inl e \<Rightarrow> e = Undefined_behaviour \<and> bucket_size t \<le> card (crowd h key 30 t)
      | Inr t' \<Rightarrow> eht_inv h t' \<and> eht_map h t' = eht_map h t \<and> bucket_size t' = bucket_size t \<and>
          \<not> IsFull (buckets t' (target h key t'))" by blast
  show ?thesis
  proof (cases res)
    case (Inl e) with l res show ?thesis by (simp add: Insert_def)
  next
    case (Inr t1)
    with res put_item_correct[of h t1 key v] l show ?thesis by (simp add: Insert_def)
  qed
qed

lemma Insert_cases:
  assumes "eht_inv h t"
  obtains "Insert h key v t = Some (Inl Undefined_behaviour)"
    "bucket_size t \<le> card (crowd h key 30 t)"
  | t' where "Insert h key v t = Some (Inr t')" "eht_inv h t'"
    "eht_map h t' = (eht_map h t)(key \<mapsto> v)" "bucket_size t' = bucket_size t"
proof -
  from Insert_correct[OF assms, of key v] obtain res where r: "Insert h key v t = Some res"
    "case res of Inl e \<Rightarrow> e = Undefined_behaviour \<and> bucket_size t \<le> card (crowd h key 30 t)
      | Inr t' \<Rightarrow> eht_inv h t' \<and> eht_map h t' = (eht_map h t)(key \<mapsto> v) \<and>
          bucket_size t' = bucket_size t" by blast
  then show thesis using that by (cases res) auto
qed

section \<open>The page table of the buffer pool\<close>

text \<open>
  The contract the buffer pool relies on for its page table: page ids in range can always be
  inserted, and the table behaves as a partial map.
\<close>

locale page_table =
  fixes lookup :: "'t \<Rightarrow> int \<Rightarrow> 'v option"
    and ins :: "int \<Rightarrow> 'v \<Rightarrow> 't \<Rightarrow> 't result option"
    and del :: "int \<Rightarrow> 't \<Rightarrow> bool \<times> 't"
    and inv :: "'t \<Rightarrow> bool"
    and valid :: "int \<Rightarrow> bool"
  assumes ins_law: "inv t \<Longrightarrow> valid k \<Longrightarrow>
      \<exists>t'. ins k v t = Some (Inr t') \<and> inv t' \<and> lookup t' = (lookup t)(k \<mapsto> v)"
    and del_law: "inv t \<Longrightarrow>
      \<exists>t'. del k t = (lookup t k \<noteq> None, t') \<and> inv t' \<and> lookup t' = (lookup t)(k := None)"
begin

text \<open>A frame changes hands: its old page leaves the table and its new page enters it.\<close>

lemma replace_entry:
  assumes "inv t" and "valid k'"
  shows "\<exists>t'. ins k' v (snd (del k t)) = Some (Inr t') \<and> inv t' \<and>
    lookup t' = (lookup t)(k := None, k' \<mapsto> v)"
proof -
  obtain t1 where t1: "del k t = (lookup t k \<noteq> None, t1)" "inv t1" "lookup t1 = (lookup t)(k := None)"
    using del_law[OF assms(1), of k] by blast
  with ins_law[OF t1(2) assms(2), of v] show ?thesis by simp
qed

text \<open>No two keys share a value as long as only unused values are entered.\<close>

definition one_to_one :: "'t \<Rightarrow> bool" where
  "one_to_one t \<longleftrightarrow> (\<forall>k k' v. lookup t k = Some v \<longrightarrow> lookup t k' = Some v \<longrightarrow> k = k')"

lemma one_to_one_replace:
  assumes "inv t" and "valid k'" and inj: "one_to_one t"
    and old: "\<And>x. lookup t x = Some v \<Longrightarrow> x = k"
    and ins: "ins k' v (snd (del k t)) = Some (Inr t')"
  shows "one_to_one t'"
proof -
  from replace_entry[OF assms(1,2), of v k] ins
  have "lookup t' = (lookup t)(k := None, k' \<mapsto> v)" by simp
  with inj old show ?thesis unfolding one_to_one_def by (simp split: if_splits) metis
qed

end

text \<open>\<open>std::hash<int>\<close> is the conversion to \<open>size_t\<close>.\<close>

definition hash_int :: "int \<Rightarrow> nat" where
  "hash_int k = nat (k mod 2 ^ 64)"

definition valid_page_id :: "int \<Rightarrow> bool" where
  "valid_page_id k \<longleftrightarrow> 0 \<le> k \<and> k < 2 ^ 31"

definition page_table_inv :: "(int, 'v) eht \<Rightarrow> bool" where
  "page_table_inv t \<longleftrightarrow> eht_inv hash_int t \<and> bucket_size t = 4 \<and>
     (\<forall>k\<in>dom (eht_map hash_int t). valid_page_id k)"

lemma page_table_inv_init: "page_table_inv (ExtendibleHashTable 4)"
  using eht_inv_init[of 4 hash_int]
  by (simp add: page_table_inv_def eht_map_init) (simp add: ExtendibleHashTable_def)

lemma crowd_page_ids:
  assumes "page_table_inv t" and key: "valid_page_id key"
  shows "card (crowd hash_int key 30 t) \<le> 2"
proof -
  let ?r = "key mod 2 ^ 30"
  have "crowd hash_int key 30 t \<subseteq> {?r, ?r + 2 ^ 30}"
  proof
    fix k assume "k \<in> crowd hash_int key 30 t"
    then have k: "valid_page_id k" "take_bit 30 (hash_int k) = take_bit 30 (hash_int key)"
      using assms(1) by (auto simp: crowd_def page_table_inv_def)
    have "hash_int x = nat x" if "valid_page_id x" for x
      using that by (simp add: hash_int_def valid_page_id_def)
    with k key have "nat k mod 2 ^ 30 = nat key mod 2 ^ 30" by (simp add: take_bit_eq_mod)
    then have "int (nat k) mod 2 ^ 30 = int (nat key) mod 2 ^ 30"
      by (metis of_nat_mod of_nat_numeral of_nat_power)
    then have "k mod 2 ^ 30 = ?r"
      using k(1) key by (simp add: valid_page_id_def)
    moreover have "k div 2 ^ 30 = 0 \<or> k div 2 ^ 30 = 1"
      using k(1) by (auto simp: valid_page_id_def)
    moreover have "k = k mod 2 ^ 30 + 2 ^ 30 * (k div 2 ^ 30)" by simp
    ultimately show "k \<in> {?r, ?r + 2 ^ 30}" by auto
  qed
  then have "card (crowd hash_int key 30 t) \<le> card {?r, ?r + 2 ^ 30}" by (intro card_mono) auto
  also have "\<dots> \<le> 2" by (simp add: card_insert_if)
  finally show ?thesis .
qed

lemma page_table_Insert:
  assumes "page_table_inv t" and "valid_page_id k"
  shows "\<exists>t'. Insert hash_int k v t = Some (Inr t') \<and> page_table_inv t' \<and>
    eht_map hash_int t' = (eht_map hash_int t)(k \<mapsto> v)"
proof -
  have inv: "eht_inv hash_int t" and bs: "bucket_size t = 4"
    using assms(1) by (simp_all add: page_table_inv_def)
  show ?thesis
    using crowd_page_ids[OF assms] assms bs
    by (cases rule: Insert_cases[OF inv, of k v]) (auto simp: page_table_inv_def)
qed

interpretation pt: page_table "eht_map hash_int" "Insert hash_int" "eht_Remove hash_int"
    page_table_inv valid_page_id
proof unfold_locales
  fix t :: "(int, 'v) eht" and k v
  show "\<exists>t'. Insert hash_int k v t = Some (Inr t') \<and> page_table_inv t' \<and>
      eht_map hash_int t' = (eht_map hash_int t)(k \<mapsto> v)"
    if "page_table_inv t" "valid_page_id k"
    using that by (rule page_table_Insert)
  show "\<exists>t'. eht_Remove hash_int k t = (eht_map hash_int t k \<noteq> None, t') \<and> page_table_inv t' \<and>
      eht_map hash_int t' = (eht_map hash_int t)(k := None)"
    if "page_table_inv t"
    using that eht_Remove_correct[of hash_int t k] by (force simp: page_table_inv_def)
qed

section \<open>Properties\<close>

datatype ('k, 'v) eht_call = EFind 'k | EInsert 'k 'v | ERemove 'k
datatype 'v eht_obs = Found "'v option" | Inserted | Removed bool

definition eht_step :: "('k \<Rightarrow> nat) \<Rightarrow> ('k, 'v) eht_call \<Rightarrow> ('k, 'v) eht \<Rightarrow>
    ('v eht_obs \<times> ('k, 'v) eht) result option" where
  "eht_step h c t =
     (case c of
        EFind k \<Rightarrow> Some (Inr (Found (Find h k t), t))
      | EInsert k v \<Rightarrow> map_option (map_sum id (Pair Inserted)) (Insert h k v t)
      | ERemove k \<Rightarrow> Some (Inr (case eht_Remove h k t of (b, t') \<Rightarrow> (Removed b, t'))))"

fun eht_run :: "('k \<Rightarrow> nat) \<Rightarrow> ('k, 'v) eht_call list \<Rightarrow> ('k, 'v) eht \<Rightarrow>
    ('v eht_obs list \<times> ('k, 'v) eht) result option" where
  "eht_run h [] t = Some (Inr ([], t))"
| "eht_run h (c # cs) t =
     (case eht_step h c t of
        None \<Rightarrow> None
      | Some (Inl e) \<Rightarrow> Some (Inl e)
      | Some (Inr (ob, t')) \<Rightarrow>
          map_option (map_sum id (\<lambda>(obs, t''). (ob # obs, t''))) (eht_run h cs t'))"

text \<open>The specification: the same calls on a partial map.\<close>

fun map_step :: "('k, 'v) eht_call \<Rightarrow> ('k \<Rightarrow> 'v option) \<Rightarrow> 'v eht_obs \<times> ('k \<Rightarrow> 'v option)" where
  "map_step (EFind k) m = (Found (m k), m)"
| "map_step (EInsert k v) m = (Inserted, m(k \<mapsto> v))"
| "map_step (ERemove k) m = (Removed (m k \<noteq> None), m(k := None))"

fun map_run :: "('k, 'v) eht_call list \<Rightarrow> ('k \<Rightarrow> 'v option) \<Rightarrow> 'v eht_obs list \<times> ('k \<Rightarrow> 'v option)" where
  "map_run [] m = ([], m)"
| "map_run (c # cs) m =
     (case map_step c m of (ob, m') \<Rightarrow> case map_run cs m' of (obs, m'') \<Rightarrow> (ob # obs, m''))"

lemma eht_step_sim:
  assumes "eht_inv h t"
  shows "eht_step h c t = Some (Inl Undefined_behaviour) \<or>
     (\<exists>t'. eht_step h c t = Some (Inr (fst (map_step c (eht_map h t)), t')) \<and> eht_inv h t' \<and>
        eht_map h t' = snd (map_step c (eht_map h t)))"
proof (cases c)
  case (EFind k)
  then show ?thesis using assms by (simp add: eht_step_def Find_eht_map)
next
  case (EInsert k v)
  show ?thesis
    by (cases rule: Insert_cases[OF assms, of k v]) (auto simp: EInsert eht_step_def)
next
  case (ERemove k)
  from eht_Remove_correct[OF assms, of k] show ?thesis by (auto simp: ERemove eht_step_def)
qed

text \<open>
  C22: The table is a partial map. Every sequence of \<open>Find\<close>, \<open>Insert\<close> and \<open>Remove\<close> calls on a
  new table returns (the split loop always ends) and gives the answers of a partial map,
  unless the directory outgrows \<open>int\<close>; at the end the table represents that map.
\<close>

theorem eht_refines_map:
  assumes "0 < n"
  shows "eht_run h cs (ExtendibleHashTable n) = Some (Inl Undefined_behaviour) \<or>
     (\<exists>t. eht_run h cs (ExtendibleHashTable n) = Some (Inr (fst (map_run cs (\<lambda>_. None)), t)) \<and>
        eht_inv h t \<and> eht_map h t = snd (map_run cs (\<lambda>_. None)))"
proof -
  have "eht_run h cs t = Some (Inl Undefined_behaviour) \<or>
     (\<exists>t'. eht_run h cs t = Some (Inr (fst (map_run cs (eht_map h t)), t')) \<and>
        eht_inv h t' \<and> eht_map h t' = snd (map_run cs (eht_map h t)))"
    if "eht_inv h t" for t
    using that
  proof (induction cs arbitrary: t)
    case (Cons c cs)
    from eht_step_sim[OF Cons.prems, of c] show ?case
    proof
      assume "\<exists>t'. eht_step h c t = Some (Inr (fst (map_step c (eht_map h t)), t')) \<and> eht_inv h t' \<and>
        eht_map h t' = snd (map_step c (eht_map h t))"
      then obtain t' where t': "eht_step h c t = Some (Inr (fst (map_step c (eht_map h t)), t'))"
        "eht_inv h t'" "eht_map h t' = snd (map_step c (eht_map h t))" by blast
      from Cons.IH[OF t'(2)] show ?thesis
        using t'(1) by (auto simp: t'(3) split: prod.splits)
    qed simp
  qed simp
  from this[OF eht_inv_init[OF assms]] show ?thesis by (simp add: eht_map_init)
qed

theorem eht_refines_map_witness:
  "(0::nat) < 2 \<and>
   (eht_run hash_int [EInsert 0 (10::nat), EInsert 2 20, EInsert 4 30, EFind 2, ERemove 0, EFind 0]
      (ExtendibleHashTable 2) = Some (Inl Undefined_behaviour) \<or>
    (\<exists>t. eht_run hash_int [EInsert 0 (10::nat), EInsert 2 20, EInsert 4 30, EFind 2, ERemove 0, EFind 0]
        (ExtendibleHashTable 2) =
        Some (Inr ([Inserted, Inserted, Inserted, Found (Some 20), Removed True, Found None], t))))"
  using eht_refines_map[of 2 hash_int
      "[EInsert 0 (10::nat), EInsert 2 20, EInsert 4 30, EFind 2, ERemove 0, EFind 0]"]
  by auto

text \<open>
  C23: \<open>Insert\<close> succeeds, and adds exactly the new entry, whenever fewer than \<open>bucket_size_\<close>
  stored keys have the same low 30 hash bits as the key.
\<close>

theorem eht_insert_total:
  assumes "eht_inv h t" and "card (crowd h key 30 t) < bucket_size t"
  shows "\<exists>t'. Insert h key v t = Some (Inr t') \<and> eht_inv h t' \<and>
    (\<forall>k. Find h k t' = (if k = key then Some v else Find h k t))"
  using assms(2) by (cases rule: Insert_cases[OF assms(1), of key v]) (auto simp: Find_eht_map)

theorem eht_insert_total_witness:
  "eht_inv hash_int (ExtendibleHashTable 4 :: (int, bool) eht) \<and>
   card (crowd hash_int 7 30 (ExtendibleHashTable 4 :: (int, bool) eht))
     < bucket_size (ExtendibleHashTable 4 :: (int, bool) eht) \<and>
   (\<exists>t'. Insert hash_int 7 True (ExtendibleHashTable 4) = Some (Inr t') \<and> Find hash_int 7 t' = Some True)"
proof -
  have e: "crowd hash_int 7 30 (ExtendibleHashTable 4 :: (int, bool) eht) = {}"
    by (simp add: crowd_def eht_map_init)
  have b: "bucket_size (ExtendibleHashTable 4 :: (int, bool) eht) = 4"
    by (simp add: ExtendibleHashTable_def)
  have i: "eht_inv hash_int (ExtendibleHashTable 4 :: (int, bool) eht)"
    by (rule eht_inv_init) simp
  from eht_insert_total[OF i, of 7 True] obtain t'
    where "Insert hash_int 7 True (ExtendibleHashTable 4) = Some (Inr t')"
      "\<forall>k. Find hash_int k t' = (if k = 7 then Some True else Find hash_int k (ExtendibleHashTable 4))"
    by (auto simp: e b)
  with i show ?thesis by (simp add: e b)
qed

text \<open>
  C24: For the page table of the buffer pool (bucket size 4, \<open>int\<close> page ids hashed to
  themselves) \<open>Insert\<close> never fails: at most two valid page ids agree on 30 bits.
\<close>

theorem page_table_insert_total:
  assumes "page_table_inv t" and "valid_page_id k"
  shows "\<exists>t'. Insert hash_int k v t = Some (Inr t') \<and> page_table_inv t' \<and>
    (\<forall>k'. Find hash_int k' t' = (if k' = k then Some v else Find hash_int k' t))"
  using pt.ins_law[OF assms, of v] by (auto simp: Find_eht_map)

theorem page_table_insert_total_witness:
  "page_table_inv (ExtendibleHashTable 4 :: (int, nat) eht) \<and> valid_page_id 5 \<and>
   (\<exists>t'. Insert hash_int 5 (1::nat) (ExtendibleHashTable 4) = Some (Inr t') \<and>
      Find hash_int 5 t' = Some 1)"
proof -
  have "page_table_inv (ExtendibleHashTable 4 :: (int, nat) eht)" by (rule page_table_inv_init)
  moreover have "valid_page_id 5" by (simp add: valid_page_id_def)
  ultimately show ?thesis
    using page_table_insert_total[of "ExtendibleHashTable 4" 5 "1::nat"] by auto
qed



end
