(* ===== verification/Buffer_Pool.thy ===== *)
theory Buffer_Pool
  imports Lru_K Extendible_Hash Disk_Manager
begin

text \<open>
  The buffer pool manager: \<open>src/buffer/buffer_pool_manager_instance.cpp\<close>, its header and
  \<open>include/storage/page/page.h\<close>. Every public method except \<open>FlushPgImp\<close> holds \<open>latch_\<close>
  from the first to the last statement and is modelled as one step; \<open>FlushPgImp\<close> is modelled
  as a step too. A \<open>Page *\<close> is the frame it points to. An uninitialised frame id (when
  \<open>Evict\<close> finds nothing) is undefined behaviour. The page latch is not modelled.
\<close>

section \<open>State and operations\<close>

record Page =
  page_data :: "byte list"
  page_id :: int
  pin_count :: int
  is_dirty :: bool

record bpm =
  pool_size :: nat
  next_page_id :: int
  pages :: "Page list"
  disk_manager :: disk
  page_tbl :: "(int, int) eht"
  repl :: lruk
  free_list :: "int list"

definition new_Page :: Page where
  "new_Page = \<lparr>page_data = zero_page, page_id = INVALID_PAGE_ID, pin_count = 0, is_dirty = False\<rparr>"

definition BufferPoolManagerInstance :: "nat \<Rightarrow> disk \<Rightarrow> nat \<Rightarrow> bpm" where
  "BufferPoolManagerInstance n d replacer_k =
     \<lparr>pool_size = n, next_page_id = 0, pages = replicate n new_Page, disk_manager = d,
      page_tbl = ExtendibleHashTable 4, repl = LRUKReplacer n replacer_k,
      free_list = map int [0..<n]\<rparr>"

definition AllocatePage :: "bpm \<Rightarrow> int \<times> bpm" where
  "AllocatePage b = (next_page_id b, b\<lparr>next_page_id := to_int32 (next_page_id b + 1)\<rparr>)"

definition has_unpinned :: "bpm \<Rightarrow> bool" where
  "has_unpinned b \<longleftrightarrow> list_ex (\<lambda>pg. pin_count pg = 0) (pages b)"

text \<open>
  The block that \<open>NewPgImp\<close> and \<open>FetchPgImp\<close> share: the front of the free list, or else the
  victim of the replacer, written back if dirty, cleared and removed from the page table.
\<close>

definition take_frame :: "bpm \<Rightarrow> (int \<times> bpm) result" where
  "take_frame b =
     (case free_list b of
        f # fs \<Rightarrow> Inr (f, b\<lparr>free_list := fs\<rparr>)
      | [] \<Rightarrow> bind_r (Evict (repl b)) (\<lambda>(victim, r).
          case victim of
            None \<Rightarrow> Inl Undefined_behaviour
          | Some f \<Rightarrow>
              let pg = pages b ! nat f;
                  d = (if is_dirty pg then WritePage (page_id pg) (page_data pg) (disk_manager b)
                       else disk_manager b)
              in Inr (f, b\<lparr>repl := r, disk_manager := d,
                   pages := (pages b)[nat f := pg\<lparr>is_dirty := False, page_data := zero_page\<rparr>],
                   page_tbl := snd (eht_Remove hash_int (page_id pg) (page_tbl b))\<rparr>)))"

definition pt_insert :: "int \<Rightarrow> int \<Rightarrow> (int, int) eht \<Rightarrow> (int, int) eht result" where
  "pt_insert pid f t = (case Insert hash_int pid f t of None \<Rightarrow> Inl Undefined_behaviour | Some res \<Rightarrow> res)"

definition pin_frame :: "int \<Rightarrow> bpm \<Rightarrow> bpm result" where
  "pin_frame f b =
     bind_r (RecordAccess f (repl b)) (\<lambda>r. bind_r (SetEvictable f False r) (\<lambda>r. Inr (b\<lparr>repl := r\<rparr>)))"

text \<open>The result is the new page id with its frame, or \<open>None\<close> for \<open>nullptr\<close>.\<close>

definition NewPgImp :: "bpm \<Rightarrow> ((int \<times> int) option \<times> bpm) result" where
  "NewPgImp b =
     (if \<not> has_unpinned b then Inr (None, b)
      else case AllocatePage b of (pid, b) \<Rightarrow>
        bind_r (take_frame b) (\<lambda>(f, b).
        bind_r (pt_insert pid f (page_tbl b)) (\<lambda>t.
        let pg = (pages b ! nat f)\<lparr>page_id := pid, pin_count := 1\<rparr>
        in bind_r (pin_frame f (b\<lparr>page_tbl := t, pages := (pages b)[nat f := pg]\<rparr>)) (\<lambda>b.
           Inr (Some (pid, f), b)))))"

definition FetchPgImp :: "int \<Rightarrow> bpm \<Rightarrow> (int option \<times> bpm) result" where
  "FetchPgImp pid b =
     (case Find hash_int pid (page_tbl b) of
        Some f \<Rightarrow>
          let pg = pages b ! nat f
          in if \<not> in_int32 (pin_count pg + 1) then Inl Undefined_behaviour
             else bind_r (pin_frame f
                    (b\<lparr>pages := (pages b)[nat f := pg\<lparr>pin_count := pin_count pg + 1\<rparr>]\<rparr>))
                    (\<lambda>b. Inr (Some f, b))
      | None \<Rightarrow>
          if \<not> has_unpinned b then Inr (None, b)
          else bind_r (take_frame b) (\<lambda>(f, b).
               bind_r (pt_insert pid f (page_tbl b)) (\<lambda>t.
               let pg = (pages b ! nat f)\<lparr>page_id := pid, pin_count := 1\<rparr>
               in bind_r (ReadPage pid (page_data pg) (disk_manager b)) (\<lambda>(data, d).
                  bind_r (pin_frame f (b\<lparr>page_tbl := t, disk_manager := d,
                            pages := (pages b)[nat f := pg\<lparr>page_data := data\<rparr>]\<rparr>)) (\<lambda>b.
                  Inr (Some f, b))))))"

definition UnpinPgImp :: "int \<Rightarrow> bool \<Rightarrow> bpm \<Rightarrow> (bool \<times> bpm) result" where
  "UnpinPgImp pid dirty b =
     (case Find hash_int pid (page_tbl b) of
        None \<Rightarrow> Inr (False, b)
      | Some f \<Rightarrow>
          let pg = pages b ! nat f
          in if pin_count pg \<le> 0 then Inr (False, b)
             else let pg = pg\<lparr>is_dirty := (if dirty then dirty else is_dirty pg),
                              pin_count := pin_count pg - 1\<rparr>;
                      b = b\<lparr>pages := (pages b)[nat f := pg]\<rparr>
             in if pin_count pg = 0
                then bind_r (SetEvictable f True (repl b)) (\<lambda>r. Inr (True, b\<lparr>repl := r\<rparr>))
                else Inr (True, b))"

definition FlushPgImp :: "int \<Rightarrow> bpm \<Rightarrow> bool \<times> bpm" where
  "FlushPgImp pid b =
     (if pid = INVALID_PAGE_ID then (False, b)
      else case Find hash_int pid (page_tbl b) of
        None \<Rightarrow> (False, b)
      | Some f \<Rightarrow>
          (True, b\<lparr>disk_manager := WritePage pid (page_data (pages b ! nat f)) (disk_manager b)\<rparr>))"

definition FlushAllPgsImp :: "bpm \<Rightarrow> bpm" where
  "FlushAllPgsImp b =
     fold (\<lambda>i b. snd (FlushPgImp (page_id (pages b ! i)) b)) [0..<pool_size b] b"

definition DeletePgImp :: "int \<Rightarrow> bpm \<Rightarrow> (bool \<times> bpm) result" where
  "DeletePgImp pid b =
     (case Find hash_int pid (page_tbl b) of
        None \<Rightarrow> Inr (True, b)
      | Some f \<Rightarrow>
          if pin_count (pages b ! nat f) > 0 then Inr (False, b)
          else bind_r (Remove f (repl b)) (\<lambda>r.
            Inr (True, b\<lparr>repl := r, pages := (pages b)[nat f := new_Page],
                 page_tbl := snd (eht_Remove hash_int pid (page_tbl b)),
                 free_list := free_list b @ [f]\<rparr>)))"

section \<open>Invariant and abstraction\<close>

definition resident :: "bpm \<Rightarrow> int \<Rightarrow> int option" where
  "resident b = eht_map hash_int (page_tbl b)"

definition frame :: "bpm \<Rightarrow> int \<Rightarrow> Page" where
  "frame b f = pages b ! nat f"

text \<open>What the pool stores: a resident page counts with its frame, any other with the disk.\<close>

definition content :: "bpm \<Rightarrow> int \<Rightarrow> byte list" where
  "content b pid = (case resident b pid of Some f \<Rightarrow> page_data (frame b f)
                    | None \<Rightarrow> disk_page (disk_manager b) pid)"

definition pins :: "bpm \<Rightarrow> int \<Rightarrow> int" where
  "pins b pid = (case resident b pid of Some f \<Rightarrow> pin_count (frame b f) | None \<Rightarrow> 0)"

definition idle :: "Page \<Rightarrow> bool" where
  "idle pg \<longleftrightarrow> page_data pg = zero_page \<and> pin_count pg = 0 \<and> \<not> is_dirty pg"

definition page_ok :: "disk \<Rightarrow> int \<Rightarrow> Page \<Rightarrow> bool" where
  "page_ok d pid pg \<longleftrightarrow> page_id pg = pid \<and> 0 \<le> pin_count pg \<and>
     length (page_data pg) = BUSTUB_PAGE_SIZE \<and>
     (pin_count pg = 0 \<and> \<not> is_dirty pg \<longrightarrow> page_data pg = disk_page d pid)"

text \<open>
  The invariant with a set \<open>F\<close> of frames in transit: a frame is in transit, in the free list
  or in the page table; the replacer tracks the frames of the page table and may evict the
  unpinned ones; an unpinned clean frame agrees with the disk; and the disk has only zeros
  from the next page id on.
\<close>

definition frames_ok :: "int set \<Rightarrow> bpm \<Rightarrow> bool" where
  "frames_ok F b \<longleftrightarrow>
     length (pages b) = pool_size b \<and> int (pool_size b) < 2 ^ 31 \<and>
     distinct (free_list b) \<and>
     set (free_list b) \<inter> ran (resident b) = {} \<and> F \<inter> (set (free_list b) \<union> ran (resident b)) = {} \<and>
     F \<union> set (free_list b) \<union> ran (resident b) = {0..<int (pool_size b)} \<and>
     (\<forall>f\<in>F \<union> set (free_list b). idle (frame b f)) \<and>
     (\<forall>pid f. resident b pid = Some f \<longrightarrow> page_ok (disk_manager b) pid (frame b f))"

definition replacer_ok :: "bpm \<Rightarrow> bool" where
  "replacer_ok b \<longleftrightarrow>
     lruk_inv (repl b) \<and> replacer_size (repl b) = pool_size b \<and>
     lruk_tracked (repl b) = ran (resident b) \<and>
     {f. is_evictable (repl b) f} = {f \<in> ran (resident b). pin_count (frame b f) = 0}"

definition storage_ok :: "bpm \<Rightarrow> bool" where
  "storage_ok b \<longleftrightarrow>
     page_table_inv (page_tbl b) \<and> disk_inv (disk_manager b) \<and>
     0 \<le> next_page_id b \<and> next_page_id b \<le> max_page_id + 1 \<and>
     (\<forall>pid\<in>dom (resident b). pid < next_page_id b) \<and>
     (\<forall>pid\<ge>next_page_id b. disk_page (disk_manager b) pid = zero_page)"

definition bpm_inv_except :: "int set \<Rightarrow> bpm \<Rightarrow> bool" where
  "bpm_inv_except F b \<longleftrightarrow> frames_ok F b \<and> replacer_ok b \<and> storage_ok b"

abbreviation bpm_inv :: "bpm \<Rightarrow> bool" where
  "bpm_inv \<equiv> bpm_inv_except {}"

text \<open>
  A frame that does not claim to be dirty agrees with the disk; operations that do not store
  into a page keep this.
\<close>

definition honest :: "bpm \<Rightarrow> int \<Rightarrow> bool" where
  "honest b pid \<longleftrightarrow> (case resident b pid of None \<Rightarrow> True
     | Some f \<Rightarrow> is_dirty (frame b f) \<or> page_data (frame b f) = disk_page (disk_manager b) pid)"

definition keeps_honest :: "bpm \<Rightarrow> bpm \<Rightarrow> bool" where
  "keeps_honest b b' \<longleftrightarrow> (\<forall>q. honest b q \<longrightarrow> honest b' q)"

text \<open>An allocated page id.\<close>

definition allocated :: "bpm \<Rightarrow> int \<Rightarrow> bool" where
  "allocated b pid \<longleftrightarrow> 0 \<le> pid \<and> pid < next_page_id b"

lemma content_cong:
  "\<lbrakk> resident b' = resident b; \<And>f. f \<in> ran (resident b) \<Longrightarrow> page_data (frame b' f) = page_data (frame b f);
     disk_page (disk_manager b') = disk_page (disk_manager b) \<rbrakk> \<Longrightarrow> content b' = content b"
  by (simp add: fun_eq_iff content_def ranI split: option.split)

lemma honest_cong:
  "\<lbrakk> resident b' = resident b; frame b' = frame b; disk_manager b' = disk_manager b \<rbrakk> \<Longrightarrow> honest b' q = honest b q"
  by (simp add: honest_def split: option.split)

lemma pins_cong:
  "\<lbrakk> resident b' = resident b; \<And>f. f \<in> ran (resident b) \<Longrightarrow> pin_count (frame b' f) = pin_count (frame b f) \<rbrakk>
   \<Longrightarrow> pins b' = pins b"
  by (simp add: fun_eq_iff pins_def ranI split: option.split)

lemma resident_facts:
  assumes "bpm_inv_except F b" and "resident b pid = Some f"
  shows "0 \<le> f" "f < int (pool_size b)" "nat f < length (pages b)" "f \<notin> F" "f \<notin> set (free_list b)"
    "page_ok (disk_manager b) pid (frame b f)" "allocated b pid" "page_id_ok pid" "f \<in> ran (resident b)"
proof -
  have ran: "f \<in> ran (resident b)" using assms(2) by (rule ranI)
  then have "f \<in> {0..<int (pool_size b)}" and F: "f \<notin> F" "f \<notin> set (free_list b)"
    using assms(1) by (auto simp: bpm_inv_except_def frames_ok_def)
  then show "0 \<le> f" "f < int (pool_size b)" by simp_all
  then show "nat f < length (pages b)" using assms(1) by (auto simp: bpm_inv_except_def frames_ok_def)
  show "f \<notin> F" "f \<notin> set (free_list b)" "f \<in> ran (resident b)" by (fact F ran)+
  show "page_ok (disk_manager b) pid (frame b f)"
    using assms by (auto simp: bpm_inv_except_def frames_ok_def)
  have "0 \<le> pid" "pid < next_page_id b" "next_page_id b \<le> max_page_id + 1"
    using assms by (auto simp: bpm_inv_except_def storage_ok_def page_table_inv_def valid_page_id_def
        resident_def)
  then show "allocated b pid" "page_id_ok pid" by (auto simp: allocated_def page_id_ok_def)
qed

lemma resident_inj:
  assumes "bpm_inv_except F b" and "resident b p = Some f" and "resident b q = Some f"
  shows "p = q"
  using resident_facts(6)[OF assms(1,2)] resident_facts(6)[OF assms(1,3)] by (simp add: page_ok_def)

lemma frame_upd [simp]:
  "frame (b\<lparr>pages := (pages b)[nat f := pg]\<rparr>) g =
     (if nat g = nat f \<and> nat f < length (pages b) then pg else frame b g)"
  by (cases "nat f < length (pages b)") (auto simp: frame_def nth_list_update list_update_beyond not_less)

lemma nat_frame_eq: "0 \<le> f \<Longrightarrow> 0 \<le> g \<Longrightarrow> nat f = nat g \<longleftrightarrow> f = g"
  by (auto simp: eq_nat_nat_iff)

lemma has_unpinned_iff:
  assumes inv: "bpm_inv b"
  shows "has_unpinned b \<longleftrightarrow> free_list b \<noteq> [] \<or> Collect (is_evictable (repl b)) \<noteq> {}"
proof -
  have all: "set (free_list b) \<union> ran (resident b) = {0..<int (length (pages b))}"
    and idle: "\<forall>f\<in>set (free_list b). idle (frame b f)"
    and ev: "{f. is_evictable (repl b) f} = {f \<in> ran (resident b). pin_count (frame b f) = 0}"
    using inv by (auto simp: bpm_inv_except_def frames_ok_def replacer_ok_def)
  have "has_unpinned b \<longleftrightarrow> (\<exists>i<length (pages b). pin_count (pages b ! i) = 0)"
    by (simp add: has_unpinned_def list_ex_length)
  also have "\<dots> \<longleftrightarrow> (\<exists>f\<in>{0..<int (length (pages b))}. pin_count (frame b f) = 0)"
  proof
    assume "\<exists>i<length (pages b). pin_count (pages b ! i) = 0"
    then obtain i where "i < length (pages b)" "pin_count (pages b ! i) = 0" by blast
    then show "\<exists>f\<in>{0..<int (length (pages b))}. pin_count (frame b f) = 0"
      by (intro bexI[of _ "int i"]) (simp_all add: frame_def)
  next
    assume "\<exists>f\<in>{0..<int (length (pages b))}. pin_count (frame b f) = 0"
    then obtain f where "0 \<le> f" "f < int (length (pages b))" "pin_count (pages b ! nat f) = 0"
      by (auto simp: frame_def)
    then show "\<exists>i<length (pages b). pin_count (pages b ! i) = 0"
      by (intro exI[of _ "nat f"]) auto
  qed
  also have "\<dots> \<longleftrightarrow> (\<exists>f\<in>set (free_list b). pin_count (frame b f) = 0) \<or>
      (\<exists>f\<in>ran (resident b). pin_count (frame b f) = 0)"
    unfolding all[symmetric] by blast
  also have "(\<exists>f\<in>set (free_list b). pin_count (frame b f) = 0) \<longleftrightarrow> free_list b \<noteq> []"
    using idle by (cases "free_list b") (auto simp: idle_def)
  also have "(\<exists>f\<in>ran (resident b). pin_count (frame b f) = 0) \<longleftrightarrow> Collect (is_evictable (repl b)) \<noteq> {}"
    unfolding ev by blast
  finally show ?thesis .
qed

text \<open>The frame of a page leaves the page table.\<close>

lemma eht_Remove_resident:
  assumes "page_table_inv t"
  shows "page_table_inv (snd (eht_Remove hash_int pid t))"
    and "eht_map hash_int (snd (eht_Remove hash_int pid t)) = (eht_map hash_int t)(pid := None)"
proof -
  obtain t' where "eht_Remove hash_int pid t = (eht_map hash_int t pid \<noteq> None, t')"
    "page_table_inv t'" "eht_map hash_int t' = (eht_map hash_int t)(pid := None)"
    using pt.del_law[OF assms, of pid] by blast
  then show "page_table_inv (snd (eht_Remove hash_int pid t))"
    and "eht_map hash_int (snd (eht_Remove hash_int pid t)) = (eht_map hash_int t)(pid := None)" by simp_all
qed

lemma ran_upd_None:
  assumes "\<And>q. m q = Some f \<Longrightarrow> q = p" and "m p = Some f"
  shows "ran (m(p := None)) = ran m - {f}"
proof (intro set_eqI iffI)
  fix g assume "g \<in> ran (m(p := None))"
  then obtain q where "q \<noteq> p" "m q = Some g" by (auto simp: ran_def split: if_splits)
  with assms(1) show "g \<in> ran m - {f}" by (auto simp: ran_def)
next
  fix g assume "g \<in> ran m - {f}"
  then obtain q where "m q = Some g" "g \<noteq> f" by (auto simp: ran_def)
  with assms(2) have "(m(p := None)) q = Some g" by auto
  then show "g \<in> ran (m(p := None))" by (rule ranI)
qed

lemma evict_frame_correct:
  assumes inv: "bpm_inv b" and empty: "free_list b = []" and ev: "Collect (is_evictable (repl b)) \<noteq> {}"
  shows "\<exists>f b'. take_frame b = Inr (f, b') \<and> bpm_inv_except {f} b' \<and>
    next_page_id b' = next_page_id b \<and> pool_size b' = pool_size b \<and>
    (\<forall>pid\<ge>0. content b' pid = content b pid) \<and> pins b' = pins b \<and>
    resident b' \<subseteq>\<^sub>m resident b \<and> keeps_honest b b'"
proof -
  have rinv: "lruk_inv (repl b)" using inv by (simp add: bpm_inv_except_def replacer_ok_def)
  from lruk.evict_some[OF rinv ev] obtain f r where r: "Evict (repl b) = Inr (Some f, r)"
    "is_evictable (repl b) f" "lruk_inv r" "replacer_size r = replacer_size (repl b)"
    "lruk_tracked r = lruk_tracked (repl b) - {f}"
    "Collect (is_evictable r) = Collect (is_evictable (repl b)) - {f}" by auto
  have evf: "{f. is_evictable (repl b) f} = {f \<in> ran (resident b). pin_count (frame b f) = 0}"
    using inv by (simp add: bpm_inv_except_def replacer_ok_def)
  with r(2) have "f \<in> ran (resident b)" and pin: "pin_count (frame b f) = 0" by blast+
  then obtain pid where pid: "resident b pid = Some f" by (auto simp: ran_def)
  note fs = resident_facts[OF inv pid]
  let ?pg = "frame b f"
  define d where "d = (if is_dirty ?pg then WritePage pid (page_data ?pg) (disk_manager b) else disk_manager b)"
  define b' where "b' = b\<lparr>repl := r, disk_manager := d,
      pages := (pages b)[nat f := ?pg\<lparr>is_dirty := False, page_data := zero_page\<rparr>],
      page_tbl := snd (eht_Remove hash_int pid (page_tbl b))\<rparr>"
  have take: "take_frame b = Inr (f, b')"
    using fs(6) by (simp add: take_frame_def empty r(1) Let_def d_def b'_def frame_def page_ok_def)
  have dinv: "disk_inv (disk_manager b)" and tinv: "page_table_inv (page_tbl b)"
    using inv by (simp_all add: bpm_inv_except_def storage_ok_def)
  have len: "length (page_data ?pg) = BUSTUB_PAGE_SIZE" using fs(6) by (simp add: page_ok_def)
  note wr = WritePage_correct[OF dinv fs(8) len]
  have disk': "disk_inv d" using wr(1) dinv by (simp add: d_def)
  have dp: "disk_page d q = (if q = pid then page_data ?pg else disk_page (disk_manager b) q)"
    if "0 \<le> q" for q
    using wr(2)[OF that] fs(6) pin by (auto simp: d_def page_ok_def)
  have res': "resident b' = (resident b)(pid := None)"
    using eht_Remove_resident(2)[OF tinv] by (simp add: resident_def b'_def)
  have ran': "ran (resident b') = ran (resident b) - {f}"
    unfolding res' using resident_inj[OF inv _ pid] pid by (intro ran_upd_None)
  have other: "frame b' g = frame b g" if "resident b q = Some g" "q \<noteq> pid" for q g
  proof -
    have "g \<noteq> f" using that(2) resident_inj[OF inv that(1), of pid] pid by blast
    then show ?thesis
      using fs(1) resident_facts(1)[OF inv that(1)] by (auto simp: frame_def b'_def nat_frame_eq)
  qed
  have self: "frame b' f = ?pg\<lparr>is_dirty := False, page_data := zero_page\<rparr>"
    using fs(3) by (simp add: frame_def b'_def)
  have pos: "0 \<le> q" if "resident b q = Some g" for q g
    using resident_facts(7)[OF inv that] by (simp add: allocated_def)
  have sel: "disk_manager b' = d" "repl b' = r" "pool_size b' = pool_size b" "free_list b' = []"
    "next_page_id b' = next_page_id b" "length (pages b') = length (pages b)"
    "page_tbl b' = snd (eht_Remove hash_int pid (page_tbl b))"
    by (simp_all add: b'_def empty)
  have "frames_ok {f} b'"
    unfolding frames_ok_def
  proof (intro conjI)
    show "\<forall>q g. resident b' q = Some g \<longrightarrow> page_ok (disk_manager b') q (frame b' g)"
    proof (intro allI impI)
      fix q g assume "resident b' q = Some g"
      then have q: "resident b q = Some g" "q \<noteq> pid" by (auto simp: res' split: if_splits)
      then show "page_ok (disk_manager b') q (frame b' g)"
        using resident_facts(6)[OF inv q(1)] dp[OF pos[OF q(1)]]
        by (simp add: other[OF q] sel page_ok_def)
    qed
    show "{f} \<union> set (free_list b') \<union> ran (resident b') = {0..<int (pool_size b')}"
    proof -
      have "ran (resident b) = {0..<int (pool_size b)}"
        using inv by (simp add: bpm_inv_except_def frames_ok_def empty)
      with fs(9) have "{f} \<union> (ran (resident b) - {f}) = {0..<int (pool_size b)}" by blast
      then show ?thesis unfolding ran' by (simp add: sel)
    qed
    show "\<forall>g\<in>{f} \<union> set (free_list b'). idle (frame b' g)"
      using self pin by (simp add: sel idle_def)
    show "length (pages b') = pool_size b'" "int (pool_size b') < 2 ^ 31"
      using inv by (simp_all add: bpm_inv_except_def frames_ok_def sel)
  qed (simp_all add: ran', simp_all add: sel)
  moreover have "replacer_ok b'"
  proof -
    have "{g. is_evictable (repl b') g} = {g \<in> ran (resident b'). pin_count (frame b' g) = 0}"
    proof -
      have pc: "pin_count (frame b' g) = pin_count (frame b g)" if "g \<in> ran (resident b) - {f}" for g
      proof -
        have "g \<in> ran (resident b')" using that ran' by simp
        then obtain q where "resident b' q = Some g" unfolding ran_def by blast
        then have "resident b q = Some g" "q \<noteq> pid" by (simp_all add: res' split: if_splits)
        then show ?thesis using other by simp
      qed
      have "{g \<in> ran (resident b'). pin_count (frame b' g) = 0} =
          {g \<in> ran (resident b) - {f}. pin_count (frame b g) = 0}"
        unfolding ran' by (intro Collect_cong conj_cong refl) (simp add: pc)
      also have "\<dots> = {g \<in> ran (resident b). pin_count (frame b g) = 0} - {f}" by blast
      also have "\<dots> = {g. is_evictable (repl b') g}" using r(6) evf by (simp add: sel)
      finally show ?thesis by simp
    qed
    then show ?thesis
      using inv r(3-5) ran' by (simp add: replacer_ok_def bpm_inv_except_def) (simp add: sel)
  qed
  moreover have "storage_ok b'"
  proof -
    have "\<forall>q\<ge>next_page_id b. disk_page d q = zero_page"
      using inv fs(7) dp by (auto simp: bpm_inv_except_def storage_ok_def allocated_def)
    then show ?thesis
      using inv disk' eht_Remove_resident(1)[OF tinv, of pid]
      by (simp add: storage_ok_def res' bpm_inv_except_def) (simp add: sel)
  qed
  moreover have "content b' q = content b q" if "0 \<le> q" for q
    using dp[OF that] other pid
    by (auto simp: content_def res' split: option.split) (simp_all add: sel)
  moreover have "pins b' = pins b"
    using other pid pin by (auto simp: fun_eq_iff pins_def res' split: option.split)
  moreover have "next_page_id b' = next_page_id b" "pool_size b' = pool_size b" by (simp_all add: sel)
  moreover have "resident b' \<subseteq>\<^sub>m resident b" by (auto simp: res' map_le_def)
  moreover have "keeps_honest b b'"
    using other dp pos by (auto simp: keeps_honest_def honest_def res' sel(1) split: option.split)
  ultimately show ?thesis using take unfolding bpm_inv_except_def by blast
qed

lemma take_frame_correct:
  assumes inv: "bpm_inv b" and free: "has_unpinned b"
  shows "\<exists>f b'. take_frame b = Inr (f, b') \<and> bpm_inv_except {f} b' \<and>
    next_page_id b' = next_page_id b \<and> pool_size b' = pool_size b \<and>
    (\<forall>pid\<ge>0. content b' pid = content b pid) \<and> pins b' = pins b \<and>
    resident b' \<subseteq>\<^sub>m resident b \<and> keeps_honest b b'"
proof (cases "free_list b")
  case Nil
  then show ?thesis
    using has_unpinned_iff[OF inv] free evict_frame_correct[OF inv] by simp
next
  case (Cons f fs)
  define b' where "b' = b\<lparr>free_list := fs\<rparr>"
  have same: "resident b' = resident b" "frame b' = frame b"
    "repl b' = repl b" "disk_manager b' = disk_manager b"
    by (simp_all add: b'_def resident_def frame_def fun_eq_iff)
  have "content b' = content b" "pins b' = pins b"
    using content_cong[OF same(1)] pins_cong[OF same(1)] same by simp_all
  note sel = this same
  have fr: "frames_ok {} b" using inv by (simp add: bpm_inv_except_def)
  then have "{f} \<union> set fs \<union> ran (resident b) = {0..<int (pool_size b)}" "f \<notin> set fs"
    "f \<notin> ran (resident b)" "set fs \<inter> ran (resident b) = {}" "distinct fs"
    by (simp_all add: frames_ok_def Cons)
  moreover have "\<forall>g\<in>{f} \<union> set fs. idle (frame b g)"
    using fr by (simp add: frames_ok_def Cons)
  ultimately have "frames_ok {f} b'"
    using fr unfolding frames_ok_def sel by (simp add: b'_def)
  moreover have "replacer_ok b'" "storage_ok b'"
    using inv unfolding replacer_ok_def storage_ok_def bpm_inv_except_def sel by (simp_all add: b'_def)
  moreover have "take_frame b = Inr (f, b')" by (simp add: take_frame_def Cons b'_def)
  ultimately show ?thesis
    using honest_cong[OF same(1,2,4)]
    by (intro exI[of _ f] exI[of _ b'])
      (simp add: bpm_inv_except_def keeps_honest_def sel, simp add: b'_def)
qed

lemma pin_frame_pin: "pin_frame f b = bind_r (lruk.pin f (repl b)) (\<lambda>r. Inr (b\<lparr>repl := r\<rparr>))"
  by (simp add: pin_frame_def lruk.pin_def bind_r_assoc)

lemma install_correct:
  assumes inv: "bpm_inv_except {f} b" and alloc: "allocated b pid" and res: "resident b pid = None"
    and pg: "page_data pg = disk_page (disk_manager b) pid" "page_id pg = pid" "pin_count pg = 1"
  shows "\<exists>t b'. pt_insert pid f (page_tbl b) = Inr t \<and>
    pin_frame f (b\<lparr>page_tbl := t, pages := (pages b)[nat f := pg]\<rparr>) = Inr b' \<and> bpm_inv b' \<and>
    (\<forall>q. content b' q = content b q) \<and> pins b' = (pins b)(pid := 1) \<and>
    resident b' = (resident b)(pid \<mapsto> f) \<and> frame b' f = pg \<and> next_page_id b' = next_page_id b \<and>
    pool_size b' = pool_size b \<and> disk_manager b' = disk_manager b \<and> keeps_honest b b'"
proof -
  have fr: "frames_ok {f} b" and rp: "replacer_ok b" and st: "storage_ok b"
    using inv by (simp_all add: bpm_inv_except_def)
  have all: "{f} \<union> set (free_list b) \<union> ran (resident b) = {0..<int (pool_size b)}"
    and disj: "f \<notin> set (free_list b)" "f \<notin> ran (resident b)"
    and len: "length (pages b) = pool_size b" "int (pool_size b) < 2 ^ 31"
    using fr by (simp_all add: frames_ok_def)
  then have f: "0 \<le> f" "f < int (pool_size b)" by auto
  then have f3: "nat f < length (pages b)" using len(1) by (simp add: nat_less_iff)
  have "valid_page_id pid"
    using alloc st by (auto simp: allocated_def storage_ok_def valid_page_id_def max_page_id_def)
  from page_table_Insert[OF _ this, of "page_tbl b" f] st obtain t where
    t: "Insert hash_int pid f (page_tbl b) = Some (Inr t)" "page_table_inv t"
      "eht_map hash_int t = (eht_map hash_int (page_tbl b))(pid \<mapsto> f)"
    by (auto simp: storage_ok_def)
  have lim: "f \<le> int (replacer_size (repl b))" "lruk_inv (repl b)"
    using rp f(2) by (simp_all add: replacer_ok_def)
  from lruk.pin_ok[OF lim(2,1)] obtain r where
    r: "lruk.pin f (repl b) = Inr r" "lruk_inv r" "replacer_size r = replacer_size (repl b)"
      "lruk_tracked r = insert f (lruk_tracked (repl b))"
      "Collect (is_evictable r) = Collect (is_evictable (repl b)) - {f}" by blast
  define b' where "b' = b\<lparr>page_tbl := t, pages := (pages b)[nat f := pg], repl := r\<rparr>"
  have ok: "pt_insert pid f (page_tbl b) = Inr t"
    "pin_frame f (b\<lparr>page_tbl := t, pages := (pages b)[nat f := pg]\<rparr>) = Inr b'"
    by (simp_all add: pt_insert_def t(1) pin_frame_pin r(1) b'_def)
  have sel: "disk_manager b' = disk_manager b" "repl b' = r" "pool_size b' = pool_size b"
    "free_list b' = free_list b" "next_page_id b' = next_page_id b"
    "length (pages b') = length (pages b)" "page_tbl b' = t"
    by (simp_all add: b'_def)
  have res': "resident b' = (resident b)(pid \<mapsto> f)"
    by (simp add: resident_def sel t(3))
  have ran': "ran (resident b') = insert f (ran (resident b))"
    unfolding res' using res by (rule ran_map_upd)
  have self: "frame b' f = pg" using f3 by (simp add: frame_def b'_def)
  have other: "frame b' g = frame b g" if "g \<noteq> f" "0 \<le> g" for g
    using that f(1) by (simp add: frame_def b'_def nat_frame_eq)
  have pos: "g \<noteq> f" "0 \<le> g" if "g \<in> set (free_list b) \<union> ran (resident b)" for g
    using that disj all by auto
  have "\<forall>q g. resident b' q = Some g \<longrightarrow> page_ok (disk_manager b') q (frame b' g)"
  proof (intro allI impI)
    fix q g assume q: "resident b' q = Some g"
    show "page_ok (disk_manager b') q (frame b' g)"
    proof (cases "q = pid")
      case True
      with q have "g = f" by (simp add: res')
      then show ?thesis using self pg True by (simp add: page_ok_def sel)
    next
      case False
      with q have "resident b q = Some g" by (simp add: res')
      then show ?thesis
        using resident_facts(6)[OF inv] other pos[of g] by (simp add: sel ranI)
    qed
  qed
  moreover have "\<forall>g\<in>set (free_list b'). idle (frame b' g)"
    using fr other pos by (simp add: frames_ok_def sel)
  ultimately have "frames_ok {} b'"
    using fr all disj unfolding frames_ok_def ran' by (simp add: sel)
  moreover have "replacer_ok b'"
  proof -
    have pc: "pin_count (frame b' g) = pin_count (frame b g)" if "g \<in> ran (resident b)" for g
      using other pos[of g] that by simp
    have "{g \<in> ran (resident b'). pin_count (frame b' g) = 0} =
        {g \<in> ran (resident b). pin_count (frame b' g) = 0}"
      unfolding ran' using self pg(3) by auto
    also have "\<dots> = {g \<in> ran (resident b). pin_count (frame b g) = 0}"
      by (intro Collect_cong conj_cong refl) (simp add: pc)
    also have "\<dots> = {g. is_evictable (repl b') g}"
      using rp disj(2) r(5) by (simp add: replacer_ok_def sel)
    finally show ?thesis using rp r(2-4) by (simp add: replacer_ok_def sel ran')
  qed
  moreover have "storage_ok b'"
    using st alloc t(2) by (simp add: storage_ok_def sel res' allocated_def)
  moreover have "content b' q = content b q" for q
  proof (cases "q = pid")
    case True
    then show ?thesis using res pg(1) self by (simp add: content_def res')
  next
    case False
    then show ?thesis
      using other pos by (auto simp: content_def res' sel ranI split: option.split)
  qed
  moreover have "pins b' = (pins b)(pid := 1)"
    using other pos pg(3) self by (auto simp: fun_eq_iff pins_def res' ranI split: option.split)
  moreover have "keeps_honest b b'"
    using other pos pg self by (auto simp: keeps_honest_def honest_def res' sel(1) ranI split: option.splits)
  ultimately show ?thesis
    using ok res' self sel by (intro exI[of _ t] exI[of _ b']) (simp add: bpm_inv_except_def)
qed

section \<open>The operations keep the invariant\<close>

text \<open>Bumping the page counter.\<close>

lemma AllocatePage_correct:
  assumes "bpm_inv b" and "next_page_id b \<le> max_page_id"
  defines "b' \<equiv> snd (AllocatePage b)"
  shows "fst (AllocatePage b) = next_page_id b" and "bpm_inv b'" and "next_page_id b' = next_page_id b + 1"
    "pool_size b' = pool_size b" "content b' = content b" "pins b' = pins b" "resident b' = resident b"
    "pages b' = pages b"
proof -
  have n: "0 \<le> next_page_id b" using assms(1) by (simp add: bpm_inv_except_def storage_ok_def)
  then have b': "b' = b\<lparr>next_page_id := next_page_id b + 1\<rparr>"
    using assms(2) by (simp add: b'_def AllocatePage_def to_int32_def max_page_id_def)
  have sel: "resident b' = resident b" "frame b' = frame b"
    by (simp_all add: b' resident_def frame_def fun_eq_iff)
  show "content b' = content b" "pins b' = pins b"
    using content_cong[OF sel(1)] pins_cong[OF sel(1)] sel(2) by (simp_all add: b')
  show "bpm_inv b'"
    using assms(1,2) by (simp add: bpm_inv_except_def frames_ok_def replacer_ok_def storage_ok_def sel)
      (auto simp: b' intro: less_imp_le)
  show "fst (AllocatePage b) = next_page_id b" by (simp add: AllocatePage_def)
qed (simp_all add: b'_def AllocatePage_def to_int32_def resident_def, use assms in \<open>simp add: bpm_inv_except_def storage_ok_def max_page_id_def\<close>)

lemma NewPgImp_correct:
  assumes inv: "bpm_inv b" and free: "has_unpinned b" and room: "next_page_id b \<le> max_page_id"
  shows "\<exists>f b'. NewPgImp b = Inr (Some (next_page_id b, f), b') \<and> bpm_inv b' \<and>
    resident b' (next_page_id b) = Some f \<and> page_data (frame b' f) = zero_page \<and>
    (\<forall>q\<ge>0. content b' q = content b q) \<and> content b (next_page_id b) = zero_page \<and>
    pins b' = (pins b)(next_page_id b := 1) \<and>
    (\<forall>q. pins b q \<noteq> 0 \<longrightarrow> resident b' q = resident b q) \<and>
    next_page_id b' = next_page_id b + 1 \<and> pool_size b' = pool_size b \<and> keeps_honest b b'"
proof -
  let ?pid = "next_page_id b"
  note al = AllocatePage_correct[OF inv room]
  let ?b1 = "snd (AllocatePage b)"
  have free1: "has_unpinned ?b1" using free al(8) by (simp add: has_unpinned_def)
  from take_frame_correct[OF al(2) free1] obtain f b2 where t: "take_frame ?b1 = Inr (f, b2)"
    "bpm_inv_except {f} b2" "next_page_id b2 = next_page_id ?b1" "pool_size b2 = pool_size ?b1"
    "\<And>q. 0 \<le> q \<Longrightarrow> content b2 q = content ?b1 q" "pins b2 = pins ?b1"
    "resident b2 \<subseteq>\<^sub>m resident ?b1" "keeps_honest ?b1 b2" by blast
  have st: "storage_ok b" using inv by (simp add: bpm_inv_except_def)
  then have "resident b ?pid = None" by (auto simp: storage_ok_def)
  then have res2: "resident b2 ?pid = None" using t(7) al(7) by (metis domIff map_le_def)
  have alloc2: "allocated b2 ?pid" using st t(3) al(3) by (simp add: allocated_def storage_ok_def)
  have zero: "content b ?pid = zero_page"
    using \<open>resident b ?pid = None\<close> st by (simp add: content_def storage_ok_def)
  then have "disk_page (disk_manager b2) ?pid = zero_page"
    using t(5)[of ?pid] al(5) res2 alloc2 by (simp add: content_def allocated_def)
  moreover have "page_data (pages b2 ! nat f) = zero_page"
    using t(2) by (simp add: bpm_inv_except_def frames_ok_def idle_def frame_def)
  ultimately obtain tt b3 where ins: "pt_insert ?pid f (page_tbl b2) = Inr tt"
    "pin_frame f (b2\<lparr>page_tbl := tt, pages := (pages b2)[nat f := (pages b2 ! nat f)\<lparr>page_id := ?pid, pin_count := 1\<rparr>]\<rparr>) = Inr b3"
    "bpm_inv b3" "\<And>q. content b3 q = content b2 q" "pins b3 = (pins b2)(?pid := 1)"
    "resident b3 = (resident b2)(?pid \<mapsto> f)"
    "frame b3 f = (pages b2 ! nat f)\<lparr>page_id := ?pid, pin_count := 1\<rparr>"
    "next_page_id b3 = next_page_id b2" "pool_size b3 = pool_size b2" "keeps_honest b2 b3"
    using install_correct[OF t(2) alloc2 res2, of "(pages b2 ! nat f)\<lparr>page_id := ?pid, pin_count := 1\<rparr>"]
    by auto
  have "NewPgImp b = Inr (Some (?pid, f), b3)"
    using free al(1) t(1) ins(1,2) by (cases "AllocatePage b") (simp add: NewPgImp_def Let_def)
  moreover have "resident b3 q = resident b q" if "pins b q \<noteq> 0" for q
  proof -
    have "pins b2 q \<noteq> 0" using that t(6) al(6) by simp
    then have "resident b2 q \<noteq> None" by (cases "resident b2 q") (simp_all add: pins_def)
    then have "resident b2 q = resident b q" using t(7) al(7) by (metis domI map_le_def option.exhaust)
    moreover have "q \<noteq> ?pid" using that \<open>resident b ?pid = None\<close> by (auto simp: pins_def)
    ultimately show ?thesis using ins(6) by simp
  qed
  moreover have "keeps_honest b b3"
  proof -
    have "honest ?b1 q = honest b q" for q
      by (rule honest_cong[OF al(7)]) (simp_all add: AllocatePage_def frame_def fun_eq_iff)
    then show ?thesis using t(8) ins(10) by (simp add: keeps_honest_def)
  qed
  ultimately show ?thesis
    using ins t al zero \<open>page_data (pages b2 ! nat f) = zero_page\<close>
    by (intro exI[of _ f] exI[of _ b3]) simp
qed

lemma frame_pages_upd:
  fixes pg :: Page
  assumes "bpm_inv_except F b" and "resident b pid = Some f"
  defines "b' \<equiv> b\<lparr>pages := (pages b)[nat f := pg]\<rparr>"
  shows "frame b' f = pg" and "g \<in> ran (resident b) \<union> set (free_list b) \<Longrightarrow> g \<noteq> f \<Longrightarrow> frame b' g = frame b g"
    and "resident b' = resident b"
proof -
  note f = resident_facts[OF assms(1,2)]
  show "frame b' f = pg" using f(3) by (simp add: b'_def)
  show "resident b' = resident b" by (simp add: b'_def resident_def)
  have "{0..<int (pool_size b)} = F \<union> set (free_list b) \<union> ran (resident b)"
    using assms(1) by (simp add: bpm_inv_except_def frames_ok_def)
  then have "0 \<le> g" if "g \<in> ran (resident b) \<union> set (free_list b)"
    using that by (metis UnCI UnE atLeastLessThan_iff)
  then show "frame b' g = frame b g" if "g \<in> ran (resident b) \<union> set (free_list b)" "g \<noteq> f"
    using that f(1) nat_frame_eq[of f g] by (simp add: b'_def eq_commute[of "nat g"])
qed

text \<open>
  Changing the frame of one resident page, with the matching change of the replacer, keeps
  the invariant when the new frame content is acceptable.
\<close>

lemma update_resident:
  assumes inv: "bpm_inv b" and res: "resident b pid = Some f"
    and pg: "page_ok (disk_manager b) pid pg"
    and r: "lruk_inv r" "replacer_size r = replacer_size (repl b)" "lruk_tracked r = lruk_tracked (repl b)"
      "Collect (is_evictable r) = (if pin_count pg = 0 then insert f (Collect (is_evictable (repl b)))
         else Collect (is_evictable (repl b)) - {f})"
  defines "b' \<equiv> b\<lparr>pages := (pages b)[nat f := pg], repl := r\<rparr>"
  shows "bpm_inv b'" and "content b' = (content b)(pid := page_data pg)"
    and "pins b' = (pins b)(pid := pin_count pg)" and "resident b' = resident b"
    and "frame b' f = pg" and "disk_manager b' = disk_manager b"
    and "q \<noteq> pid \<Longrightarrow> honest b' q = honest b q"
    and "honest b' pid \<longleftrightarrow> is_dirty pg \<or> page_data pg = disk_page (disk_manager b) pid"
proof -
  have sel: "disk_manager b' = disk_manager b" "repl b' = r" "pool_size b' = pool_size b"
    "free_list b' = free_list b" "next_page_id b' = next_page_id b" "page_tbl b' = page_tbl b"
    "length (pages b') = length (pages b)" "resident b' = resident b"
    by (simp_all add: b'_def resident_def)
  have fr': "frame b' g = frame (b\<lparr>pages := (pages b)[nat f := pg]\<rparr>) g" for g
    by (simp add: b'_def frame_def)
  note upd = frame_pages_upd[OF inv res, where pg = pg, folded fr']
  show self: "frame b' f = pg" by (rule upd(1))
  have other: "frame b' g = frame b g" if "resident b q = Some g" "q \<noteq> pid" for q g
    using upd(2)[where g = g] that resident_inj[OF inv that(1), of pid] res by (auto intro: ranI)
  have free: "frame b' g = frame b g" if "g \<in> set (free_list b)" for g
    using upd(2)[where g = g] that resident_facts(5)[OF inv res] by auto
  have "page_ok (disk_manager b) q (frame b' g)" if "resident b q = Some g" for q g
    using that res pg self other[OF that] resident_facts(6)[OF inv that] by (cases "q = pid") auto
  then have "frames_ok {} b'"
    using inv free by (simp add: bpm_inv_except_def frames_ok_def sel)
  moreover have "replacer_ok b'"
  proof -
    have ev: "{f. is_evictable (repl b) f} = {f \<in> ran (resident b). pin_count (frame b f) = 0}"
      using inv by (simp add: bpm_inv_except_def replacer_ok_def)
    have "{g \<in> ran (resident b). pin_count (frame b' g) = 0} = Collect (is_evictable r)"
    proof -
      have pc: "pin_count (frame b' g) = (if g = f then pin_count pg else pin_count (frame b g))"
        if "g \<in> ran (resident b)" for g
        using that self upd(2)[where g = g] by (cases "g = f") simp_all
      have "{g \<in> ran (resident b). pin_count (frame b' g) = 0} =
          {g \<in> ran (resident b). (if g = f then pin_count pg else pin_count (frame b g)) = 0}"
        by (intro Collect_cong conj_cong refl) (simp add: pc)
      also have "\<dots> = Collect (is_evictable r)"
        unfolding r(4) ev using resident_facts(9)[OF inv res] by auto
      finally show ?thesis .
    qed
    then show ?thesis
      using inv r(1-3) by (simp add: bpm_inv_except_def replacer_ok_def sel)
  qed
  moreover have "storage_ok b'" using inv by (simp add: bpm_inv_except_def storage_ok_def sel)
  ultimately show "bpm_inv b'" by (simp add: bpm_inv_except_def)
  show "content b' = (content b)(pid := page_data pg)"
    using res self other by (simp add: fun_eq_iff content_def sel split: option.split)
  show "pins b' = (pins b)(pid := pin_count pg)"
    using res self other by (simp add: fun_eq_iff pins_def sel split: option.split)
  show "q \<noteq> pid \<Longrightarrow> honest b' q = honest b q"
    using other[of q] by (simp add: honest_def sel split: option.split)
  show "honest b' pid \<longleftrightarrow> is_dirty pg \<or> page_data pg = disk_page (disk_manager b) pid"
    using res self by (simp add: honest_def sel)
qed (simp_all add: b'_def resident_def)

lemma Find_resident: "Find hash_int pid (page_tbl b) = resident b pid"
  by (simp add: Find_eht_map resident_def)

lemma bpm_replacer:
  assumes "bpm_inv b" and "resident b pid = Some f"
  shows "lruk_inv (repl b)" and "f \<le> int (replacer_size (repl b))" and "f \<in> lruk_tracked (repl b)"
    and "is_evictable (repl b) f \<longleftrightarrow> pin_count (frame b f) = 0"
  using assms resident_facts(2,9)[OF assms]
  by (auto simp: bpm_inv_except_def replacer_ok_def)

lemma Fetch_hit_correct:
  assumes inv: "bpm_inv b" and res: "resident b pid = Some f" and room: "pins b pid < 2 ^ 31 - 1"
  shows "\<exists>b'. FetchPgImp pid b = Inr (Some f, b') \<and> bpm_inv b' \<and> content b' = content b \<and>
    pins b' = (pins b)(pid := pins b pid + 1) \<and> resident b' = resident b \<and>
    next_page_id b' = next_page_id b \<and> pool_size b' = pool_size b \<and> keeps_honest b b'"
proof -
  let ?pg = "(frame b f)\<lparr>pin_count := pin_count (frame b f) + 1\<rparr>"
  note ok = resident_facts(6)[OF inv res] and rp = bpm_replacer[OF inv res]
  have pins: "pins b pid = pin_count (frame b f)" using res by (simp add: pins_def)
  from lruk.pin_ok[OF rp(1,2)] obtain r where r: "lruk.pin f (repl b) = Inr r" "lruk_inv r"
    "replacer_size r = replacer_size (repl b)" "lruk_tracked r = insert f (lruk_tracked (repl b))"
    "Collect (is_evictable r) = Collect (is_evictable (repl b)) - {f}" by blast
  define b' where "b' = b\<lparr>pages := (pages b)[nat f := ?pg], repl := r\<rparr>"
  have pok: "page_ok (disk_manager b) pid ?pg" using ok by (simp add: page_ok_def)
  have tr: "lruk_tracked r = lruk_tracked (repl b)" using r(4) rp(3) by auto
  have ev: "Collect (is_evictable r) = (if pin_count ?pg = 0 then insert f (Collect (is_evictable (repl b)))
      else Collect (is_evictable (repl b)) - {f})" using r(5) ok by (simp add: page_ok_def)
  note upd = update_resident[OF inv res pok r(2,3) tr ev, folded b'_def]
  have "in_int32 (pin_count (frame b f) + 1)"
    using room pins ok by (simp add: in_int32_def page_ok_def)
  then have "FetchPgImp pid b = Inr (Some f, b')"
    by (simp add: FetchPgImp_def Find_resident res Let_def pin_frame_pin r(1) b'_def frame_def)
  moreover have "content b' = content b" using upd(2) res by (simp add: content_def fun_eq_iff)
  moreover have "pins b' = (pins b)(pid := pins b pid + 1)" using upd(3) pins by simp
  moreover have "keeps_honest b b'"
  proof -
    have "honest b q \<longrightarrow> honest b' q" for q
      using upd(7)[of q] upd(8) res by (cases "q = pid") (simp_all add: honest_def[of b pid])
    then show ?thesis by (simp add: keeps_honest_def)
  qed
  ultimately show ?thesis using upd(1,4) by (simp add: b'_def)
qed

lemma Fetch_miss_correct:
  assumes inv: "bpm_inv b" and res: "resident b pid = None" and alloc: "allocated b pid"
    and free: "has_unpinned b"
  shows "\<exists>f b'. FetchPgImp pid b = Inr (Some f, b') \<and> bpm_inv b' \<and>
    (\<forall>q\<ge>0. content b' q = content b q) \<and> pins b' = (pins b)(pid := 1) \<and> resident b' pid = Some f \<and>
    (\<forall>q. pins b q \<noteq> 0 \<longrightarrow> resident b' q = resident b q) \<and>
    next_page_id b' = next_page_id b \<and> pool_size b' = pool_size b \<and> keeps_honest b b'"
proof -
  from take_frame_correct[OF inv free] obtain f b2 where t: "take_frame b = Inr (f, b2)"
    "bpm_inv_except {f} b2" "next_page_id b2 = next_page_id b" "pool_size b2 = pool_size b"
    "\<And>q. 0 \<le> q \<Longrightarrow> content b2 q = content b q" "pins b2 = pins b"
    "resident b2 \<subseteq>\<^sub>m resident b" "keeps_honest b b2" by blast
  have res2: "resident b2 pid = None" using t(7) res by (metis domIff map_le_def)
  have alloc2: "allocated b2 pid" using alloc t(3) by (simp add: allocated_def)
  have st: "storage_ok b2" using t(2) by (simp add: bpm_inv_except_def)
  have data: "page_data (pages b2 ! nat f) = zero_page"
    using t(2) by (simp add: bpm_inv_except_def frames_ok_def idle_def frame_def)
  have "page_id_ok pid" using alloc2 st by (auto simp: allocated_def storage_ok_def page_id_ok_def)
  with st have rd: "ReadPage pid zero_page (disk_manager b2) = Inr (disk_page (disk_manager b2) pid, disk_manager b2)"
    by (intro ReadPage_correct) (simp_all add: storage_ok_def)
  let ?pg = "(pages b2 ! nat f)\<lparr>page_id := pid, pin_count := 1, page_data := disk_page (disk_manager b2) pid\<rparr>"
  obtain tt b3 where ins: "pt_insert pid f (page_tbl b2) = Inr tt"
    "pin_frame f (b2\<lparr>page_tbl := tt, pages := (pages b2)[nat f := ?pg]\<rparr>) = Inr b3"
    "bpm_inv b3" "\<And>q. content b3 q = content b2 q" "pins b3 = (pins b2)(pid := 1)"
    "resident b3 = (resident b2)(pid \<mapsto> f)"
    "next_page_id b3 = next_page_id b2" "pool_size b3 = pool_size b2" "keeps_honest b2 b3"
    using install_correct[OF t(2) alloc2 res2, of ?pg] by auto
  have same: "b2\<lparr>page_tbl := tt, disk_manager := disk_manager b2, pages := ps\<rparr> = b2\<lparr>page_tbl := tt, pages := ps\<rparr>" for ps
    by simp
  have "FetchPgImp pid b = Inr (Some f, b3)"
    using res free t(1) ins(1,2) by (simp add: FetchPgImp_def Find_resident Let_def data rd same)
  moreover have "resident b3 q = resident b q" if "pins b q \<noteq> 0" for q
  proof -
    have "pins b2 q \<noteq> 0" using that t(6) by simp
    then have "resident b2 q \<noteq> None" by (cases "resident b2 q") (simp_all add: pins_def)
    then have "resident b2 q = resident b q" using t(7) by (metis domI map_le_def option.exhaust)
    moreover have "q \<noteq> pid" using that res by (auto simp: pins_def)
    ultimately show ?thesis using ins(6) by simp
  qed
  moreover have "keeps_honest b b3" using ins(9) t(8) by (simp add: keeps_honest_def)
  ultimately show ?thesis
    using ins t by (intro exI[of _ f] exI[of _ b3]) simp
qed

text \<open>
  The obligation of a client that unpins for the last time with \<open>is_dirty = false\<close>: nobody
  changed the page since it agreed with the disk.
\<close>

definition unpin_allowed :: "int \<Rightarrow> bool \<Rightarrow> bpm \<Rightarrow> bool" where
  "unpin_allowed pid dirty b \<longleftrightarrow>
     (case resident b pid of
        None \<Rightarrow> True
      | Some f \<Rightarrow> dirty \<or> is_dirty (frame b f) \<or> 1 < pin_count (frame b f) \<or>
          page_data (frame b f) = disk_page (disk_manager b) pid)"

lemma Unpin_correct:
  assumes inv: "bpm_inv b" and ok: "unpin_allowed pid dirty b"
  shows "\<exists>b'. UnpinPgImp pid dirty b = Inr (0 < pins b pid, b') \<and> bpm_inv b' \<and> content b' = content b \<and>
    pins b' = (if 0 < pins b pid then (pins b)(pid := pins b pid - 1) else pins b) \<and>
    resident b' = resident b \<and> next_page_id b' = next_page_id b \<and> pool_size b' = pool_size b \<and>
    keeps_honest b b' \<and> (dirty \<longrightarrow> 0 < pins b pid \<longrightarrow> honest b' pid)"
proof (cases "resident b pid")
  case None
  then show ?thesis using inv by (simp add: UnpinPgImp_def Find_resident pins_def keeps_honest_def)
next
  case (Some f)
  note pok = resident_facts(6)[OF inv Some] and rp = bpm_replacer[OF inv Some]
  have pins: "pins b pid = pin_count (frame b f)" using Some by (simp add: pins_def)
  show ?thesis
  proof (cases "0 < pins b pid")
    case False
    then show ?thesis
      using inv Some pins by (simp add: UnpinPgImp_def Find_resident frame_def Let_def keeps_honest_def)
  next
    case True
    define pg where "pg = (frame b f)\<lparr>is_dirty := (if dirty then dirty else is_dirty (frame b f)),
      pin_count := pin_count (frame b f) - 1\<rparr>"
    have pg_ok: "page_ok (disk_manager b) pid pg"
      using pok ok True pins Some by (auto simp: page_ok_def pg_def unpin_allowed_def)
    obtain r where r: "(if pin_count pg = 0 then SetEvictable f True (repl b) else Inr (repl b)) = Inr r"
      "lruk_inv r" "replacer_size r = replacer_size (repl b)" "lruk_tracked r = lruk_tracked (repl b)"
      "Collect (is_evictable r) = (if pin_count pg = 0 then insert f (Collect (is_evictable (repl b)))
         else Collect (is_evictable (repl b)) - {f})"
    proof (cases "pin_count pg = 0")
      case True
      moreover obtain r where "SetEvictable f True (repl b) = Inr r" "lruk_inv r"
        "replacer_size r = replacer_size (repl b)" "lruk_tracked r = lruk_tracked (repl b)"
        "Collect (is_evictable r) = insert f (Collect (is_evictable (repl b)))"
        using lruk.set_evictable[OF rp(1-3), of True] by auto
      ultimately show ?thesis by (intro that[of r]) simp_all
    next
      case False
      have "\<not> is_evictable (repl b) f" using rp(4) \<open>0 < pins b pid\<close> pins by simp
      with False rp(1) show ?thesis by (intro that[of "repl b"]) auto
    qed
    define b' where "b' = b\<lparr>pages := (pages b)[nat f := pg], repl := r\<rparr>"
    note upd = update_resident[OF inv Some pg_ok r(2-5), folded b'_def]
    have "UnpinPgImp pid dirty b = Inr (True, b')"
      using r(1) True pins
      by (cases "pin_count pg = 0")
        (simp_all add: UnpinPgImp_def Find_resident Some Let_def frame_def pg_def b'_def)
    moreover have "content b' = content b"
      using upd(2) Some by (simp add: content_def fun_eq_iff pg_def)
    moreover have "pins b' = (pins b)(pid := pins b pid - 1)"
      using upd(3) pins by (simp add: pg_def)
    moreover have "next_page_id b' = next_page_id b" "pool_size b' = pool_size b" by (simp_all add: b'_def)
    moreover have "keeps_honest b b'"
    proof -
      have "honest b q \<longrightarrow> honest b' q" for q
        using upd(7)[of q] upd(8) Some by (cases "q = pid") (auto simp: honest_def[of b pid] pg_def)
      then show ?thesis by (simp add: keeps_honest_def)
    qed
    moreover have "dirty \<longrightarrow> honest b' pid" using upd(8) by (simp add: pg_def)
    ultimately show ?thesis using upd(1,4) True by simp
  qed
qed

lemma Flush_correct:
  assumes inv: "bpm_inv b"
  shows "\<exists>b'. FlushPgImp pid b = (resident b pid \<noteq> None, b') \<and> bpm_inv b' \<and>
    resident b' = resident b \<and> pages b' = pages b \<and> pins b' = pins b \<and>
    (\<forall>q\<ge>0. content b' q = content b q) \<and>
    next_page_id b' = next_page_id b \<and> pool_size b' = pool_size b \<and>
    (\<forall>q\<ge>0. disk_page (disk_manager b') q =
       (if q = pid \<and> resident b pid \<noteq> None then content b pid else disk_page (disk_manager b) q))"
proof (cases "resident b pid")
  case None
  then show ?thesis using inv by (simp add: FlushPgImp_def Find_resident)
next
  case (Some f)
  note f = resident_facts[OF inv Some]
  define b' where "b' = b\<lparr>disk_manager := WritePage pid (page_data (frame b f)) (disk_manager b)\<rparr>"
  have len: "length (page_data (frame b f)) = BUSTUB_PAGE_SIZE" using f(6) by (simp add: page_ok_def)
  have dinv: "disk_inv (disk_manager b)" using inv by (simp add: bpm_inv_except_def storage_ok_def)
  note wr = WritePage_correct[OF dinv f(8) len]
  have sel: "resident b' = resident b" "frame b' = frame b" "pages b' = pages b" "repl b' = repl b"
    "next_page_id b' = next_page_id b" "pool_size b' = pool_size b"
    by (simp_all add: b'_def resident_def frame_def fun_eq_iff)
  have dp: "disk_page (disk_manager b') q =
      (if q = pid then page_data (frame b f) else disk_page (disk_manager b) q)" if "0 \<le> q" for q
    using wr(2)[OF that] by (simp add: b'_def)
  have pos: "0 \<le> q" if "resident b q = Some g" for q g
    using resident_facts(7)[OF inv that] by (simp add: allocated_def)
  have "page_ok (disk_manager b') q (frame b g)" if "resident b q = Some g" for q g
    using resident_facts(6)[OF inv that] dp[OF pos[OF that]] that Some
    by (auto simp: page_ok_def)
  then have "frames_ok {} b'"
    using inv by (simp add: bpm_inv_except_def frames_ok_def sel) (simp add: b'_def)
  moreover have "replacer_ok b'" using inv by (simp add: bpm_inv_except_def replacer_ok_def sel)
  moreover have "storage_ok b'"
  proof -
    have "\<forall>q\<ge>next_page_id b. disk_page (disk_manager b') q = zero_page"
      using inv f(7) dp by (auto simp: bpm_inv_except_def storage_ok_def allocated_def)
    then show ?thesis
      using inv wr(1) by (simp add: bpm_inv_except_def storage_ok_def sel) (simp add: b'_def)
  qed
  moreover have "pid \<noteq> INVALID_PAGE_ID" using f(8) by (simp add: page_id_ok_def INVALID_PAGE_ID_def)
  then have "FlushPgImp pid b = (True, b')"
    by (simp add: FlushPgImp_def Find_resident Some b'_def frame_def)
  moreover have "content b' q = content b q" if "0 \<le> q" for q
    using dp[OF that] sel Some by (auto simp: content_def split: option.split)
  moreover have "pins b' = pins b" using sel by (intro pins_cong) simp_all
  ultimately show ?thesis
    using sel dp Some by (simp add: bpm_inv_except_def) (simp add: content_def)
qed

lemma FlushAll_loop:
  fixes "is" :: "nat list"
  assumes "bpm_inv b"
  defines "b' \<equiv> fold (\<lambda>i b. snd (FlushPgImp (page_id (pages b ! i)) b)) is b"
  shows "bpm_inv b' \<and> resident b' = resident b \<and> pages b' = pages b \<and> pins b' = pins b \<and>
    (\<forall>q\<ge>0. content b' q = content b q) \<and> next_page_id b' = next_page_id b \<and> pool_size b' = pool_size b \<and>
    (\<forall>q\<ge>0. disk_page (disk_manager b') q =
       (if resident b q \<noteq> None \<and> (\<exists>i\<in>set is. page_id (pages b ! i) = q) then content b q
        else disk_page (disk_manager b) q))"
  using assms(1) unfolding b'_def
proof (induction "is" arbitrary: b)
  case (Cons i xs)
  from Flush_correct[OF Cons.prems, of "page_id (pages b ! i)"] obtain b1 where
    b1: "FlushPgImp (page_id (pages b ! i)) b = (resident b (page_id (pages b ! i)) \<noteq> None, b1)" "bpm_inv b1"
      "resident b1 = resident b" "pages b1 = pages b" "pins b1 = pins b"
      "\<And>q. 0 \<le> q \<Longrightarrow> content b1 q = content b q"
      "next_page_id b1 = next_page_id b" "pool_size b1 = pool_size b"
      "\<And>q. 0 \<le> q \<Longrightarrow> disk_page (disk_manager b1) q =
         (if q = page_id (pages b ! i) \<and> resident b (page_id (pages b ! i)) \<noteq> None
          then content b (page_id (pages b ! i)) else disk_page (disk_manager b) q)" by blast
  from Cons.IH[OF b1(2)] show ?case
    using b1 by (auto simp: b1(3,4))
qed simp

lemma FlushAll_correct:
  assumes inv: "bpm_inv b"
  shows "bpm_inv (FlushAllPgsImp b)" and "resident (FlushAllPgsImp b) = resident b"
    and "pins (FlushAllPgsImp b) = pins b" and "0 \<le> q \<Longrightarrow> content (FlushAllPgsImp b) q = content b q"
    and "0 \<le> q \<Longrightarrow> disk_page (disk_manager (FlushAllPgsImp b)) q = content b q"
    and "next_page_id (FlushAllPgsImp b) = next_page_id b"
proof -
  note loop = FlushAll_loop[OF inv, of "[0..<pool_size b]", folded FlushAllPgsImp_def]
  show "bpm_inv (FlushAllPgsImp b)" "resident (FlushAllPgsImp b) = resident b"
    "pins (FlushAllPgsImp b) = pins b" "0 \<le> q \<Longrightarrow> content (FlushAllPgsImp b) q = content b q"
    "next_page_id (FlushAllPgsImp b) = next_page_id b" using loop by simp_all
  show "disk_page (disk_manager (FlushAllPgsImp b)) q = content b q" if "0 \<le> q"
  proof (cases "resident b q")
    case None
    then show ?thesis using loop that by (simp add: content_def)
  next
    case (Some f)
    have "nat f \<in> set [0..<pool_size b]" using resident_facts(1,2)[OF inv Some] by simp
    moreover have "page_id (pages b ! nat f) = q"
      using resident_facts(6)[OF inv Some] by (simp add: page_ok_def frame_def)
    ultimately have "\<exists>i\<in>set [0..<pool_size b]. page_id (pages b ! i) = q" by blast
    then show ?thesis using loop that Some by simp
  qed
qed

lemma Delete_correct:
  assumes inv: "bpm_inv b" and pid: "0 \<le> pid"
  shows "\<exists>b'. DeletePgImp pid b = Inr (pins b pid = 0, b') \<and> bpm_inv b' \<and> pins b' = pins b \<and>
    (\<forall>q\<ge>0. q \<noteq> pid \<longrightarrow> content b' q = content b q) \<and>
    resident b' = (if pins b pid = 0 then (resident b)(pid := None) else resident b) \<and>
    next_page_id b' = next_page_id b"
proof (cases "resident b pid")
  case None
  then show ?thesis using inv by (simp add: DeletePgImp_def Find_resident pins_def fun_upd_idem)
next
  case (Some f)
  note fs = resident_facts[OF inv Some] and rp = bpm_replacer[OF inv Some]
  have pins: "pins b pid = pin_count (frame b f)" using Some by (simp add: pins_def)
  show ?thesis
  proof (cases "pins b pid = 0")
    case False
    then show ?thesis
      using inv Some pins fs(6) by (simp add: DeletePgImp_def Find_resident frame_def page_ok_def)
  next
    case True
    have ev: "f \<in> Collect (is_evictable (repl b))" using rp(4) True pins by simp
    from lruk.remove[OF rp(1,2) ev] obtain r where r: "Remove f (repl b) = Inr r" "lruk_inv r"
      "replacer_size r = replacer_size (repl b)" "lruk_tracked r = lruk_tracked (repl b) - {f}"
      "Collect (is_evictable r) = Collect (is_evictable (repl b)) - {f}" by blast
    define b' where "b' = b\<lparr>repl := r, pages := (pages b)[nat f := new_Page],
      page_tbl := snd (eht_Remove hash_int pid (page_tbl b)), free_list := free_list b @ [f]\<rparr>"
    have del: "DeletePgImp pid b = Inr (True, b')"
      using True pins r(1) by (simp add: DeletePgImp_def Find_resident Some b'_def frame_def)
    have tinv: "page_table_inv (page_tbl b)" using inv by (simp add: bpm_inv_except_def storage_ok_def)
    have sel: "disk_manager b' = disk_manager b" "repl b' = r" "pool_size b' = pool_size b"
      "free_list b' = free_list b @ [f]" "next_page_id b' = next_page_id b"
      "page_tbl b' = snd (eht_Remove hash_int pid (page_tbl b))" "length (pages b') = length (pages b)"
      by (simp_all add: b'_def)
    have res': "resident b' = (resident b)(pid := None)"
      using eht_Remove_resident(2)[OF tinv] by (simp add: resident_def b'_def)
    have ran': "ran (resident b') = ran (resident b) - {f}"
      unfolding res' using resident_inj[OF inv _ Some] Some by (intro ran_upd_None)
    have fr': "frame b' g = frame (b\<lparr>pages := (pages b)[nat f := new_Page]\<rparr>) g" for g
      by (simp add: b'_def frame_def)
    note upd = frame_pages_upd[OF inv Some, where pg = new_Page, folded fr']
    have other: "frame b' g = frame b g" if "resident b q = Some g" "q \<noteq> pid" for q g
      using upd(2)[where g = g] that resident_inj[OF inv that(1), of pid] Some by (auto intro: ranI)
    have fr: "frames_ok {} b" using inv by (simp add: bpm_inv_except_def)
    have "frames_ok {} b'"
      unfolding frames_ok_def sel
    proof (intro conjI)
      show "\<forall>g\<in>{} \<union> set (free_list b @ [f]). idle (frame b' g)"
      proof -
        have "idle (frame b' g)" if "g \<in> set (free_list b)" for g
        proof -
          have "frame b' g = frame b g" using upd(2)[where g = g] that fs(5) by blast
          then show ?thesis using fr that by (simp add: frames_ok_def)
        qed
        moreover have "idle (frame b' f)" using upd(1) by (simp add: idle_def new_Page_def)
        ultimately show ?thesis by simp
      qed
      show "\<forall>q g. resident b' q = Some g \<longrightarrow> page_ok (disk_manager b) q (frame b' g)"
        using resident_facts(6)[OF inv] other by (auto simp: res')
      have "set (free_list b) \<union> ran (resident b) = {0..<int (pool_size b)}"
        using fr by (simp add: frames_ok_def)
      then show "{} \<union> set (free_list b @ [f]) \<union> ran (resident b') = {0..<int (pool_size b)}"
        unfolding ran' using fs(9) by auto
    qed (use fr fs(5) in \<open>auto simp: frames_ok_def ran'\<close>)
    moreover have "replacer_ok b'"
    proof -
      have pc: "pin_count (frame b' g) = pin_count (frame b g)" if "g \<in> ran (resident b) - {f}" for g
        using upd(2)[where g = g] that by simp
      have "{g \<in> ran (resident b'). pin_count (frame b' g) = 0} =
          {g \<in> ran (resident b) - {f}. pin_count (frame b g) = 0}"
        unfolding ran' by (intro Collect_cong conj_cong refl) (simp add: pc)
      also have "\<dots> = Collect (is_evictable r)"
        using inv r(5) by (auto simp: bpm_inv_except_def replacer_ok_def)
      finally show ?thesis
        using inv r(2-4) by (simp add: bpm_inv_except_def replacer_ok_def sel ran')
    qed
    moreover have "storage_ok b'"
      using inv eht_Remove_resident(1)[OF tinv, of pid]
      by (simp add: bpm_inv_except_def storage_ok_def sel res')
    moreover have "content b' q = content b q" if "q \<noteq> pid" for q
      using that other by (simp add: content_def res' sel split: option.split)
    moreover have "pins b' = pins b"
      using other True pins Some by (simp add: fun_eq_iff pins_def res' split: option.split)
    ultimately show ?thesis using del res' sel(5) True by (simp add: bpm_inv_except_def)
  qed
qed

lemma bpm_init:
  fixes log :: "byte list option"
  assumes "2 \<le> k" and "int n < 2 ^ 31"
  defines "b \<equiv> BufferPoolManagerInstance n (DiskManager None log) k"
  shows "bpm_inv b" and "content b = (\<lambda>_. zero_page)" and "pins b = (\<lambda>_. 0)"
proof -
  have res: "resident b = (\<lambda>_. None)"
    by (simp add: b_def BufferPoolManagerInstance_def resident_def eht_map_init)
  have "idle (frame b f)" if "f \<in> set (free_list b)" for f
    using that by (auto simp: b_def BufferPoolManagerInstance_def frame_def idle_def new_Page_def)
  moreover have "set (free_list b) = {0..<int n}" "distinct (free_list b)"
    by (auto simp: b_def BufferPoolManagerInstance_def distinct_map image_iff) (metis atLeastLessThan_iff int_eq_iff le0 of_nat_less_iff zero_le_imp_eq_int)
  ultimately have "frames_ok {} b"
    using assms(2) by (simp add: frames_ok_def res) (simp add: b_def BufferPoolManagerInstance_def)
  moreover have "replacer_ok b"
  proof -
    have "lruk_rel [] (LRUKReplacer n k)" by (rule lruk_rel_init) (rule assms(1))
    then have "lruk_inv (LRUKReplacer n k) \<and> lruk_tracked (LRUKReplacer n k) = {}"
      using lruk_rel_contract by fastforce
    then show ?thesis
      unfolding replacer_ok_def res by (simp add: b_def BufferPoolManagerInstance_def LRUKReplacer_def)
  qed
  moreover have "storage_ok b"
    using page_table_inv_init
    by (simp add: storage_ok_def res) (simp add: b_def BufferPoolManagerInstance_def max_page_id_def)
  ultimately show "bpm_inv b" by (simp add: bpm_inv_except_def)
  show "content b = (\<lambda>_. zero_page)" "pins b = (\<lambda>_. 0)"
    by (simp_all add: fun_eq_iff content_def pins_def res) (simp add: b_def BufferPoolManagerInstance_def)
qed

section \<open>Histories of calls\<close>

text \<open>
  The calls of clients. \<open>WriteData\<close> is a client storing into the page it has pinned through the
  pointer that \<open>NewPage\<close> or \<open>FetchPage\<close> returned (\<open>Page::GetData\<close>).
\<close>

datatype bpm_call =
    NewPage | FetchPage int | WriteData int "byte list" | UnpinPage int bool
  | FlushPage int | FlushAllPages | DeletePage int

definition write_data :: "int \<Rightarrow> byte list \<Rightarrow> bpm \<Rightarrow> bpm" where
  "write_data pid data b =
     (case Find hash_int pid (page_tbl b) of
        None \<Rightarrow> b
      | Some f \<Rightarrow> b\<lparr>pages := (pages b)[nat f := (pages b ! nat f)\<lparr>page_data := data\<rparr>]\<rparr>)"

fun bpm_step :: "bpm_call \<Rightarrow> bpm \<Rightarrow> bpm result" where
  "bpm_step NewPage b = map_sum id snd (NewPgImp b)"
| "bpm_step (FetchPage pid) b = map_sum id snd (FetchPgImp pid b)"
| "bpm_step (WriteData pid data) b = Inr (write_data pid data b)"
| "bpm_step (UnpinPage pid dirty) b = map_sum id snd (UnpinPgImp pid dirty b)"
| "bpm_step (FlushPage pid) b = Inr (snd (FlushPgImp pid b))"
| "bpm_step FlushAllPages b = Inr (FlushAllPgsImp b)"
| "bpm_step (DeletePage pid) b = map_sum id snd (DeletePgImp pid b)"

text \<open>
  What the pool asks of its clients: page ids that were handed out, no more than 2^31 - 1
  pins, room for a new page below the limit of the disk manager, stores only into pinned
  pages, and honest \<open>is_dirty\<close> flags.
\<close>

fun bpm_allowed :: "bpm_call \<Rightarrow> bpm \<Rightarrow> bool" where
  "bpm_allowed NewPage b \<longleftrightarrow> next_page_id b \<le> max_page_id"
| "bpm_allowed (FetchPage pid) b \<longleftrightarrow> allocated b pid \<and> pins b pid < 2 ^ 31 - 1"
| "bpm_allowed (WriteData pid data) b \<longleftrightarrow> 0 < pins b pid \<and> length data = BUSTUB_PAGE_SIZE"
| "bpm_allowed (UnpinPage pid dirty) b \<longleftrightarrow> unpin_allowed pid dirty b"
| "bpm_allowed (DeletePage pid) b \<longleftrightarrow> 0 \<le> pid"
| "bpm_allowed c b \<longleftrightarrow> True"

text \<open>The specification of a call: its effect on the stored pages.\<close>

fun store_step :: "bpm_call \<Rightarrow> (int \<Rightarrow> byte list) \<Rightarrow> (int \<Rightarrow> byte list) \<Rightarrow> bool" where
  "store_step (WriteData pid data) m m' \<longleftrightarrow> (\<forall>q\<ge>0. m' q = (if q = pid then data else m q))"
| "store_step (DeletePage pid) m m' \<longleftrightarrow> (\<forall>q\<ge>0. q \<noteq> pid \<longrightarrow> m' q = m q)"
| "store_step c m m' \<longleftrightarrow> (\<forall>q\<ge>0. m' q = m q)"

lemma write_data_correct:
  assumes inv: "bpm_inv b" and pin: "0 < pins b pid" and len: "length data = BUSTUB_PAGE_SIZE"
  shows "bpm_inv (write_data pid data b)" and "content (write_data pid data b) = (content b)(pid := data)"
    and "pins (write_data pid data b) = pins b" and "resident (write_data pid data b) = resident b"
    and "q \<noteq> pid \<Longrightarrow> honest (write_data pid data b) q = honest b q"
proof -
  obtain f where res: "resident b pid = Some f" using pin by (auto simp: pins_def split: option.splits)
  note pok = resident_facts(6)[OF inv res] and rp = bpm_replacer[OF inv res]
  let ?pg = "(frame b f)\<lparr>page_data := data\<rparr>"
  have pins: "pins b pid = pin_count (frame b f)" using res by (simp add: pins_def)
  have pg: "page_ok (disk_manager b) pid ?pg" using pok pin pins len by (simp add: page_ok_def)
  have ev: "Collect (is_evictable (repl b)) = (if pin_count ?pg = 0 then insert f (Collect (is_evictable (repl b)))
         else Collect (is_evictable (repl b)) - {f})" using pin pins rp(4) by auto
  have w: "write_data pid data b = b\<lparr>pages := (pages b)[nat f := ?pg], repl := repl b\<rparr>"
    by (simp add: write_data_def Find_resident res frame_def)
  note upd = update_resident[OF inv res pg rp(1) refl refl ev, folded w]
  show "bpm_inv (write_data pid data b)" "content (write_data pid data b) = (content b)(pid := data)"
    "resident (write_data pid data b) = resident b"
    "q \<noteq> pid \<Longrightarrow> honest (write_data pid data b) q = honest b q" using upd by simp_all
  show "pins (write_data pid data b) = pins b" using upd(3) pins by (simp add: fun_eq_iff)
qed

lemma all_pinned_New: "\<not> has_unpinned b \<Longrightarrow> NewPgImp b = Inr (None, b)"
  by (simp add: NewPgImp_def)

lemma all_pinned_Fetch: "\<not> has_unpinned b \<Longrightarrow> resident b pid = None \<Longrightarrow> FetchPgImp pid b = Inr (None, b)"
  by (simp add: FetchPgImp_def Find_resident)

lemma bpm_step_sim:
  assumes inv: "bpm_inv b" and ok: "bpm_allowed c b"
  shows "\<exists>b'. bpm_step c b = Inr b' \<and> bpm_inv b' \<and> store_step c (content b) (content b')"
proof (cases c)
  case NewPage
  then show ?thesis
    using NewPgImp_correct[OF inv] all_pinned_New[of b] inv ok by (cases "has_unpinned b") fastforce+
next
  case (FetchPage pid)
  show ?thesis
  proof (cases "resident b pid")
    case (Some f)
    with Fetch_hit_correct[OF inv Some] FetchPage ok show ?thesis by fastforce
  next
    case None
    with Fetch_miss_correct[OF inv None] all_pinned_Fetch[OF _ None] FetchPage ok inv show ?thesis
      by (cases "has_unpinned b") fastforce+
  qed
next
  case (WriteData pid data)
  with write_data_correct[OF inv, of pid data] ok show ?thesis by simp
next
  case (UnpinPage pid dirty)
  with Unpin_correct[OF inv, of pid dirty] ok show ?thesis by fastforce
next
  case (FlushPage pid)
  with Flush_correct[OF inv, of pid] show ?thesis by fastforce
next
  case FlushAllPages
  with FlushAll_correct[OF inv] show ?thesis by simp
next
  case (DeletePage pid)
  with Delete_correct[OF inv, of pid] ok show ?thesis by fastforce
qed

section \<open>Properties\<close>

fun allowed_run :: "bpm_call list \<Rightarrow> bpm \<Rightarrow> bool" where
  "allowed_run [] b \<longleftrightarrow> True"
| "allowed_run (c # cs) b \<longleftrightarrow>
     bpm_allowed c b \<and> (case bpm_step c b of Inl e \<Rightarrow> True | Inr b' \<Rightarrow> allowed_run cs b')"

text \<open>The data last stored into a page.\<close>

fun last_write :: "int \<Rightarrow> bpm_call list \<Rightarrow> byte list \<Rightarrow> byte list" where
  "last_write pid [] data = data"
| "last_write pid (c # cs) data =
     last_write pid cs (case c of WriteData q d \<Rightarrow> if q = pid then d else data | _ \<Rightarrow> data)"

lemma bpm_run_sim:
  assumes "bpm_inv b" and "allowed_run cs b" and "0 \<le> pid" and "DeletePage pid \<notin> set cs"
  shows "\<exists>b'. fold_r bpm_step cs b = Inr b' \<and> bpm_inv b' \<and>
    content b' pid = last_write pid cs (content b pid)"
  using assms
proof (induction cs arbitrary: b)
  case (Cons c cs)
  from Cons.prems(2) have "bpm_allowed c b" by simp
  from bpm_step_sim[OF Cons.prems(1) this] obtain b1 where
    b1: "bpm_step c b = Inr b1" "bpm_inv b1" "store_step c (content b) (content b1)" by blast
  have "content b1 pid = (case c of WriteData q d \<Rightarrow> if q = pid then d else content b pid | _ \<Rightarrow> content b pid)"
    using b1(3) Cons.prems(3,4) by (cases c) auto
  moreover have "allowed_run cs b1" using Cons.prems(2) b1(1) by simp
  ultimately show ?case using Cons.IH[OF b1(2)] Cons.prems(3,4) b1(1) by simp
qed simp

text \<open>
  C10: No update is lost. Start with a new pool of any size on an empty file and let clients
  make any allowed calls: no call fails or runs into undefined behaviour, and a page that is
  not deleted holds, in its frame or on disk, the data last stored into it (zeros at first),
  whatever evictions happened in between.
\<close>

theorem bpm_no_lost_update:
  assumes "2 \<le> k" and "int n < 2 ^ 31"
    and "allowed_run cs (BufferPoolManagerInstance n (DiskManager None None) k)"
    and "0 \<le> pid" and "DeletePage pid \<notin> set cs"
  shows "\<exists>b. fold_r bpm_step cs (BufferPoolManagerInstance n (DiskManager None None) k) = Inr b \<and>
    bpm_inv b \<and> content b pid = last_write pid cs zero_page"
  using bpm_run_sim[OF bpm_init(1)[OF assms(1,2)] assms(3-5)] bpm_init(2)[OF assms(1,2), of None] by simp

definition bpm_demo :: "bpm_call list" where
  "bpm_demo = [NewPage, WriteData 0 (replicate 4096 5), UnpinPage 0 True, NewPage]"

definition one_frame_pool :: bpm where
  "one_frame_pool = BufferPoolManagerInstance 1 (DiskManager None None) 2"

text \<open>A pool of one frame: page 0 is evicted to make room for page 1.\<close>

lemma bpm_demo_allowed: "allowed_run bpm_demo one_frame_pool"
proof -
  have inv0: "bpm_inv one_frame_pool" and c0: "content one_frame_pool = (\<lambda>_. zero_page)"
    and p0: "pins one_frame_pool = (\<lambda>_. 0)"
    unfolding one_frame_pool_def by (rule bpm_init; simp)+
  have n0: "next_page_id one_frame_pool = 0" and u0: "has_unpinned one_frame_pool"
    by (simp_all add: one_frame_pool_def BufferPoolManagerInstance_def has_unpinned_def new_Page_def)
  have room: "next_page_id one_frame_pool \<le> max_page_id" by (simp add: n0 max_page_id_def)
  from NewPgImp_correct[OF inv0 u0 room] obtain f b1 where
    b1: "NewPgImp one_frame_pool = Inr (Some (0, f), b1)" "bpm_inv b1" "pins b1 0 = 1"
      "next_page_id b1 = 1"
    by (auto simp: n0 p0)
  let ?d = "replicate 4096 (5 :: byte)"
  let ?b2 = "write_data 0 ?d b1"
  have len: "length ?d = BUSTUB_PAGE_SIZE" by (simp add: BUSTUB_PAGE_SIZE_def)
  have pin1: "0 < pins b1 0" using b1(3) by simp
  note w = write_data_correct[OF b1(2) pin1 len]
  have n2: "next_page_id ?b2 = 1" using b1(4) by (simp add: write_data_def split: option.split)
  have ua: "unpin_allowed 0 True ?b2" by (simp add: unpin_allowed_def split: option.split)
  from Unpin_correct[OF w(1) ua] obtain b3 where
    b3: "UnpinPgImp 0 True ?b2 = Inr (True, b3)" "bpm_inv b3" "pins b3 0 = 0" "next_page_id b3 = 1"
    by (auto simp: w(3) b1(3) n2)
  have room3: "next_page_id b3 \<le> max_page_id" by (simp add: b3(4) max_page_id_def)
  have "allowed_run [NewPage] b3"
    using room3 by (cases "bpm_step NewPage b3") (simp_all add: sum.case_eq_if)
  then show ?thesis
    using room b1(1) len pin1 ua b3(1) by (simp add: bpm_demo_def)
qed

theorem bpm_no_lost_update_witness:
  "allowed_run bpm_demo one_frame_pool \<and>
   (\<exists>b. fold_r bpm_step bpm_demo one_frame_pool = Inr b \<and> content b 0 = replicate 4096 5)"
proof -
  have "DeletePage 0 \<notin> set bpm_demo" by (simp add: bpm_demo_def)
  from bpm_no_lost_update[OF _ _ bpm_demo_allowed[unfolded one_frame_pool_def] _ this]
  have "\<exists>b. fold_r bpm_step bpm_demo one_frame_pool = Inr b \<and> content b 0 = last_write 0 bpm_demo zero_page"
    unfolding one_frame_pool_def by auto
  moreover have "last_write 0 bpm_demo zero_page = replicate 4096 5"
    by (simp add: bpm_demo_def)
  ultimately show ?thesis using bpm_demo_allowed by simp
qed

text \<open>
  C12: \<open>NewPage\<close> fails exactly when every frame is pinned, and then changes nothing. Otherwise
  it returns the next page id with a zeroed frame pinned once, and every stored page keeps
  its content.
\<close>

theorem bpm_new_page:
  assumes inv: "bpm_inv b" and room: "next_page_id b \<le> max_page_id"
  shows "if \<forall>pg\<in>set (pages b). pin_count pg \<noteq> 0 then NewPgImp b = Inr (None, b)
    else \<exists>f b'. NewPgImp b = Inr (Some (next_page_id b, f), b') \<and> bpm_inv b' \<and>
      resident b' (next_page_id b) = Some f \<and> page_data (frame b' f) = zero_page \<and>
      pins b' = (pins b)(next_page_id b := 1) \<and> (\<forall>q\<ge>0. content b' q = content b q)"
proof (cases "has_unpinned b")
  case True
  then have "\<not> (\<forall>pg\<in>set (pages b). pin_count pg \<noteq> 0)" by (auto simp: has_unpinned_def list_ex_iff)
  with NewPgImp_correct[OF inv True room] show ?thesis by auto
next
  case False
  then have "\<forall>pg\<in>set (pages b). pin_count pg \<noteq> 0" by (auto simp: has_unpinned_def list_ex_iff)
  with all_pinned_New[OF False] show ?thesis by simp
qed

lemma one_frame_pool_inv: "bpm_inv one_frame_pool" and one_frame_pool_next: "next_page_id one_frame_pool = 0"
  and one_frame_pool_pages: "pages one_frame_pool = [new_Page]"
  unfolding one_frame_pool_def by (rule bpm_init; simp) (simp_all add: BufferPoolManagerInstance_def)

theorem bpm_new_page_witness:
  "bpm_inv one_frame_pool \<and> next_page_id one_frame_pool \<le> max_page_id \<and>
   (\<exists>f b'. NewPgImp one_frame_pool = Inr (Some (0, f), b') \<and> page_data (frame b' f) = zero_page)"
proof -
  have room: "next_page_id one_frame_pool \<le> max_page_id" by (simp add: one_frame_pool_next max_page_id_def)
  from bpm_new_page[OF one_frame_pool_inv room] show ?thesis
    using one_frame_pool_inv room
    by (auto simp: one_frame_pool_pages one_frame_pool_next new_Page_def)
qed

text \<open>
  C13: \<open>FetchPage\<close> of an allocated page fails exactly when the page is not in the pool and
  every frame is pinned. Otherwise it returns a frame that holds the content of the page,
  with one more pin, and no stored page changes.
\<close>

theorem bpm_fetch_page:
  assumes inv: "bpm_inv b" and alloc: "allocated b pid" and room: "pins b pid < 2 ^ 31 - 1"
  shows "if resident b pid = None \<and> (\<forall>pg\<in>set (pages b). pin_count pg \<noteq> 0)
    then FetchPgImp pid b = Inr (None, b)
    else \<exists>f b'. FetchPgImp pid b = Inr (Some f, b') \<and> bpm_inv b' \<and>
      page_data (frame b' f) = content b pid \<and> pins b' = (pins b)(pid := pins b pid + 1) \<and>
      (\<forall>q\<ge>0. content b' q = content b q)"
proof (cases "resident b pid")
  case (Some f)
  from Fetch_hit_correct[OF inv Some room] obtain b' where
    b': "FetchPgImp pid b = Inr (Some f, b')" "bpm_inv b'" "content b' = content b"
      "pins b' = (pins b)(pid := pins b pid + 1)" "resident b' = resident b" by blast
  have "page_data (frame b' f) = content b' pid" using b'(5) Some by (simp add: content_def)
  with b' Some show ?thesis by simp
next
  case None
  have pins0: "pins b pid = 0" using None by (simp add: pins_def)
  have "0 \<le> pid" using alloc by (simp add: allocated_def)
  show ?thesis
  proof (cases "has_unpinned b")
    case True
    from Fetch_miss_correct[OF inv None alloc True] obtain f b' where
      b': "FetchPgImp pid b = Inr (Some f, b')" "bpm_inv b'" "\<forall>q\<ge>0. content b' q = content b q"
        "pins b' = (pins b)(pid := 1)" "resident b' pid = Some f" by blast
    have "page_data (frame b' f) = content b' pid" using b'(5) by (simp add: content_def)
    moreover have "\<not> (\<forall>pg\<in>set (pages b). pin_count pg \<noteq> 0)"
      using True by (auto simp: has_unpinned_def list_ex_iff)
    ultimately show ?thesis using b' pins0 \<open>0 \<le> pid\<close> by auto
  next
    case False
    then have "\<forall>pg\<in>set (pages b). pin_count pg \<noteq> 0" by (auto simp: has_unpinned_def list_ex_iff)
    with all_pinned_Fetch[OF False None] None show ?thesis by simp
  qed
qed

text \<open>A pool of one frame whose first page was just created.\<close>

lemma one_page_pool:
  obtains b f where "NewPgImp one_frame_pool = Inr (Some (0, f), b)" "bpm_inv b" "allocated b 0"
    "pins b 0 = 1" "content b 0 = zero_page" "resident b 0 = Some f"
proof -
  have room: "next_page_id one_frame_pool \<le> max_page_id" by (simp add: one_frame_pool_next max_page_id_def)
  have "has_unpinned one_frame_pool" by (simp add: has_unpinned_def one_frame_pool_pages new_Page_def)
  from NewPgImp_correct[OF one_frame_pool_inv this room] obtain f b where
    "NewPgImp one_frame_pool = Inr (Some (0, f), b)" "bpm_inv b" "resident b 0 = Some f"
    "page_data (frame b f) = zero_page" "pins b 0 = 1" "next_page_id b = 1"
    by (auto simp: one_frame_pool_next)
  then show thesis by (intro that) (auto simp: allocated_def content_def)
qed

theorem bpm_fetch_page_witness:
  "\<exists>b. bpm_inv b \<and> allocated b 0 \<and> pins b 0 < 2 ^ 31 - 1 \<and>
     (\<exists>f b'. FetchPgImp 0 b = Inr (Some f, b') \<and> page_data (frame b' f) = zero_page \<and> pins b' 0 = 2)"
proof -
  obtain b f where b: "bpm_inv b" "allocated b 0" "pins b 0 = 1" "content b 0 = zero_page" "resident b 0 = Some f"
    by (rule one_page_pool)
  have "pins b 0 < 2 ^ 31 - 1" using b(3) by simp
  from bpm_fetch_page[OF b(1,2) this] show ?thesis using b by (intro exI[of _ b]) auto
qed

text \<open>
  C11: A pinned page stays in its frame: whatever single call any client makes, the page pointer
  that was handed out for a page with a positive pin count still points to that page.
\<close>

theorem bpm_pinned_stays:
  assumes inv: "bpm_inv b" and ok: "bpm_allowed c b" and pin: "0 < pins b q"
    and step: "bpm_step c b = Inr b'"
  shows "resident b' q = resident b q \<and> resident b q \<noteq> None"
proof -
  have some: "resident b q \<noteq> None" using pin by (auto simp: pins_def split: option.splits)
  have "resident b' q = resident b q"
  proof (cases c)
    case NewPage
    then show ?thesis
      using NewPgImp_correct[OF inv] all_pinned_New[of b] ok step pin by (cases "has_unpinned b") fastforce+
  next
    case (FetchPage pid)
    show ?thesis
    proof (cases "resident b pid")
      case (Some f)
      with Fetch_hit_correct[OF inv Some] FetchPage ok step show ?thesis by fastforce
    next
      case None
      with Fetch_miss_correct[OF inv None] all_pinned_Fetch[OF _ None] FetchPage ok step pin show ?thesis
        by (cases "has_unpinned b") fastforce+
    qed
  next
    case (WriteData pid data)
    with write_data_correct(4)[OF inv, of pid data] ok step show ?thesis by simp
  next
    case (UnpinPage pid dirty)
    with Unpin_correct[OF inv, of pid dirty] ok step show ?thesis by fastforce
  next
    case (FlushPage pid)
    with Flush_correct[OF inv, of pid] step show ?thesis by fastforce
  next
    case FlushAllPages
    with FlushAll_correct(2)[OF inv] step show ?thesis by simp
  next
    case (DeletePage pid)
    with Delete_correct[OF inv, of pid] ok step pin show ?thesis by fastforce
  qed
  with some show ?thesis by simp
qed

theorem bpm_pinned_stays_witness:
  "\<exists>b b'. bpm_inv b \<and> bpm_allowed NewPage b \<and> 0 < pins b 0 \<and> bpm_step NewPage b = Inr b' \<and>
     resident b' 0 \<noteq> None"
proof -
  obtain b f where b: "NewPgImp one_frame_pool = Inr (Some (0, f), b)" "bpm_inv b" "pins b 0 = 1"
    by (rule one_page_pool)
  have room: "next_page_id one_frame_pool \<le> max_page_id" by (simp add: one_frame_pool_next max_page_id_def)
  have "has_unpinned one_frame_pool" by (simp add: has_unpinned_def one_frame_pool_pages new_Page_def)
  from NewPgImp_correct[OF one_frame_pool_inv this room] b(1) have "next_page_id b = 1"
    by (auto simp: one_frame_pool_next)
  then have ok: "bpm_allowed NewPage b" by (simp add: max_page_id_def)
  from bpm_step_sim[OF b(2) ok] obtain b' where b': "bpm_step NewPage b = Inr b'" by blast
  have "0 < pins b 0" using b(3) by simp
  from bpm_pinned_stays[OF b(2) ok this b'] show ?thesis using b b' ok by (intro exI[of _ b] exI[of _ b']) simp
qed

text \<open>
  C15: \<open>FlushAllPages\<close> makes the disk agree with the pool on every page, so a pool opened later
  on the same file reads the stored content; the pool itself does not change.
\<close>

theorem bpm_flush_all_durable:
  assumes inv: "bpm_inv b" and "0 \<le> pid"
  shows "disk_page (disk_manager (FlushAllPgsImp b)) pid = content b pid \<and>
    content (FlushAllPgsImp b) pid = content b pid \<and> bpm_inv (FlushAllPgsImp b)"
  using FlushAll_correct[OF inv] assms(2) by simp

theorem bpm_flush_all_durable_witness:
  "bpm_inv one_frame_pool \<and> disk_page (disk_manager (FlushAllPgsImp one_frame_pool)) 3 = content one_frame_pool 3"
  using bpm_flush_all_durable[OF one_frame_pool_inv, of 3] one_frame_pool_inv by simp

text \<open>
  \<open>FlushPage\<close> writes a resident page to disk whether it is dirty or not and returns
  \<open>false\<close> for any other page; it leaves the frames as they are, so, unlike what the header
  says, a dirty page is still marked dirty afterwards.
\<close>

theorem bpm_flush_page:
  assumes inv: "bpm_inv b" and pid: "0 \<le> pid"
  shows "case FlushPgImp pid b of (flushed, b') \<Rightarrow>
    (flushed \<longleftrightarrow> resident b pid \<noteq> None) \<and> bpm_inv b' \<and> pages b' = pages b \<and>
    disk_page (disk_manager b') pid = content b pid"
  using Flush_correct[OF inv, of pid] pid by (cases "resident b pid") (auto simp: content_def)

theorem bpm_flush_page_witness:
  "bpm_inv one_frame_pool \<and> fst (FlushPgImp 2 one_frame_pool) = (resident one_frame_pool 2 \<noteq> None)"
  using bpm_flush_page[OF one_frame_pool_inv, of 2] one_frame_pool_inv by (auto split: prod.splits)

text \<open>
  C14: \<open>UnpinPage\<close> returns \<open>false\<close> exactly when the page is not pinned (or not in the pool) and
  otherwise takes one pin away; when the last pin goes the frame becomes evictable, and
  until then it is not.
\<close>

theorem bpm_unpin_page:
  assumes inv: "bpm_inv b" and ok: "unpin_allowed pid dirty b"
  shows "\<exists>b'. UnpinPgImp pid dirty b = Inr (0 < pins b pid, b') \<and> bpm_inv b' \<and> content b' = content b \<and>
    (0 < pins b pid \<longrightarrow> pins b' = (pins b)(pid := pins b pid - 1)) \<and>
    (\<forall>f. resident b pid = Some f \<longrightarrow> is_evictable (repl b') f = (pins b pid \<le> 1))"
proof -
  from Unpin_correct[OF assms] obtain b' where b':
    "UnpinPgImp pid dirty b = Inr (0 < pins b pid, b')" "bpm_inv b'" "content b' = content b"
    "pins b' = (if 0 < pins b pid then (pins b)(pid := pins b pid - 1) else pins b)" "resident b' = resident b"
    by blast
  have "is_evictable (repl b') f = (pins b pid \<le> 1)" if res: "resident b pid = Some f" for f
  proof -
    have "0 \<le> pins b pid" using resident_facts(6)[OF inv res] res by (simp add: pins_def page_ok_def)
    moreover have "is_evictable (repl b') f = (pins b' pid = 0)"
      using bpm_replacer(4)[OF b'(2), of pid f] res b'(5) by (simp add: pins_def)
    ultimately show ?thesis using b'(4) by auto
  qed
  with b' show ?thesis by simp
qed

theorem bpm_unpin_page_witness:
  "\<exists>b b'. bpm_inv b \<and> unpin_allowed 0 True b \<and> UnpinPgImp 0 True b = Inr (True, b') \<and> pins b' 0 = 0"
proof -
  obtain b f where b: "bpm_inv b" "pins b 0 = 1" by (rule one_page_pool)
  have ok: "unpin_allowed 0 True b" by (simp add: unpin_allowed_def split: option.split)
  from bpm_unpin_page[OF b(1) ok] obtain b'
    where "UnpinPgImp 0 True b = Inr (True, b')" "pins b' 0 = 0" by (auto simp: b(2))
  then show ?thesis using b ok by (intro exI[of _ b] exI[of _ b']) simp
qed

text \<open>
  \<open>DeletePage\<close> refuses a pinned page; any other page leaves the page table, its frame goes
  back to the free list, and no other page changes.
\<close>

theorem bpm_delete_page:
  assumes inv: "bpm_inv b" and pid: "0 \<le> pid"
  shows "\<exists>b'. DeletePgImp pid b = Inr (pins b pid = 0, b') \<and> bpm_inv b' \<and> pins b' = pins b \<and>
    (\<forall>q\<ge>0. q \<noteq> pid \<longrightarrow> content b' q = content b q) \<and> (pins b pid = 0 \<longrightarrow> resident b' pid = None)"
  using Delete_correct[OF assms] by fastforce

theorem bpm_delete_page_witness:
  "\<exists>b b'. bpm_inv b \<and> DeletePgImp 0 b = Inr (False, b')"
proof -
  obtain b f where b: "bpm_inv b" "pins b 0 = 1" by (rule one_page_pool)
  from bpm_delete_page[OF b(1), of 0] obtain b' where "DeletePgImp 0 b = Inr (False, b')"
    by (auto simp: b(2))
  then show ?thesis using b by (intro exI[of _ b] exI[of _ b']) simp
qed

end
