(* ===== verification/Table_Heap.thy ===== *)
theory Table_Heap
  imports Buffer_Pool Table_Page
begin

text \<open>
  Heap files: \<open>src/storage/table/table_heap.cpp\<close>, \<open>src/storage/table/table_iterator.cpp\<close> and their
  headers, over the buffer pool. A heap is the id of its first page; a page is reached through
  the frame that \<open>FetchPage\<close> or \<open>NewPage\<close> returned. Loops over the page chain may run forever on a
  cyclic chain and are partial functions: \<open>None\<close> is a loop that does not end. Calls are modelled
  from the first to the last statement without interleaving; page latches have no effect then.
\<close>

section \<open>Pages through their frames\<close>

definition frame_data :: "int \<Rightarrow> bpm \<Rightarrow> byte list" where
  "frame_data f b = page_data (pages b ! nat f)"

definition frame_put :: "int \<Rightarrow> byte list \<Rightarrow> bpm \<Rightarrow> bpm" where
  "frame_put f data b = b\<lparr>pages := (pages b)[nat f := (pages b ! nat f)\<lparr>page_data := data\<rparr>]\<rparr>"

definition INVALID_LSN :: int where "INVALID_LSN = -1"

section \<open>Operations of the heap\<close>

text \<open>The constructor that makes a new table; the result is \<open>first_page_id_\<close>.\<close>

definition TableHeap_create :: "bpm \<Rightarrow> (int \<times> bpm) result" where
  "TableHeap_create b =
     bind_r (NewPgImp b) (\<lambda>(page, b). case page of
       None \<Rightarrow> Inl Assertion_failed
     | Some (first_page_id, f) \<Rightarrow>
         let b = frame_put f (TablePage_Init first_page_id BUSTUB_PAGE_SIZE INVALID_LSN (frame_data f b)) b
         in bind_r (UnpinPgImp first_page_id True b) (\<lambda>(_, b). Inr (first_page_id, b)))"

text \<open>The loop of \<open>InsertTuple\<close>, with the statements after it; \<open>f\<close> is the current page.\<close>

partial_function (option) insert_loop :: "Tuple \<Rightarrow> int \<Rightarrow> bpm \<Rightarrow> (RID option \<times> bpm) result option" where
  "insert_loop tuple f b =
     (case TablePage_InsertTuple tuple (frame_data f b) of
        Inl e \<Rightarrow> Some (Inl e)
      | Inr (Some rid, data) \<Rightarrow>
          Some (bind_r (UnpinPgImp (GetTablePageId data) True (frame_put f data b)) (\<lambda>(_, b). Inr (Some rid, b)))
      | Inr (None, data) \<Rightarrow>
          let b = frame_put f data b;
              next_page_id = GetNextPageId data
          in if next_page_id \<noteq> INVALID_PAGE_ID
             then case FetchPgImp next_page_id b of
                 Inl e \<Rightarrow> Some (Inl e)
               | Inr (None, b) \<Rightarrow> Some (Inl Undefined_behaviour)
               | Inr (Some f', b) \<Rightarrow>
                   (case UnpinPgImp (GetTablePageId (frame_data f b)) False b of
                      Inl e \<Rightarrow> Some (Inl e)
                    | Inr (_, b) \<Rightarrow> insert_loop tuple f' b)
             else case NewPgImp b of
                 Inl e \<Rightarrow> Some (Inl e)
               | Inr (None, b) \<Rightarrow>
                   Some (bind_r (UnpinPgImp (GetTablePageId (frame_data f b)) False b) (\<lambda>(_, b). Inr (None, b)))
               | Inr (Some (next_page_id, f'), b) \<Rightarrow>
                   let b = frame_put f (SetNextPageId next_page_id (frame_data f b)) b;
                       b = frame_put f' (TablePage_Init next_page_id BUSTUB_PAGE_SIZE
                             (GetTablePageId (frame_data f b)) (frame_data f' b)) b
                   in (case UnpinPgImp (GetTablePageId (frame_data f b)) True b of
                         Inl e \<Rightarrow> Some (Inl e)
                       | Inr (_, b) \<Rightarrow> insert_loop tuple f' b))"

text \<open>The result is the record id, or \<open>None\<close> for \<open>false\<close>.\<close>

definition TableHeap_InsertTuple :: "Tuple \<Rightarrow> int \<Rightarrow> bpm \<Rightarrow> (RID option \<times> bpm) result option" where
  "TableHeap_InsertTuple tuple first_page_id b =
     (if tsize tuple + 32 > BUSTUB_PAGE_SIZE then Some (Inr (None, b))
      else case FetchPgImp first_page_id b of
          Inl e \<Rightarrow> Some (Inl e)
        | Inr (None, b) \<Rightarrow> Some (Inr (None, b))
        | Inr (Some f, b) \<Rightarrow> insert_loop tuple f b)"

definition TableHeap_MarkDelete :: "RID \<Rightarrow> bpm \<Rightarrow> (bool \<times> bpm) result" where
  "TableHeap_MarkDelete rid b =
     bind_r (FetchPgImp (rid_page rid) b) (\<lambda>(page, b). case page of
       None \<Rightarrow> Inr (False, b)
     | Some f \<Rightarrow>
         let (is_deleted, data) = TablePage_MarkDelete rid (frame_data f b)
         in bind_r (UnpinPgImp (GetTablePageId data) True (frame_put f data b)) (\<lambda>(_, b). Inr (is_deleted, b)))"

definition TableHeap_UpdateTuple :: "Tuple \<Rightarrow> RID \<Rightarrow> bpm \<Rightarrow> (bool \<times> bpm) result" where
  "TableHeap_UpdateTuple tuple rid b =
     bind_r (FetchPgImp (rid_page rid) b) (\<lambda>(page, b). case page of
       None \<Rightarrow> Inr (False, b)
     | Some f \<Rightarrow>
         bind_r (TablePage_UpdateTuple tuple new_Tuple rid (frame_data f b)) (\<lambda>(is_updated, _, data).
         bind_r (UnpinPgImp (GetTablePageId data) is_updated (frame_put f data b)) (\<lambda>(_, b). Inr (is_updated, b))))"

definition TableHeap_ApplyDelete :: "RID \<Rightarrow> bpm \<Rightarrow> bpm result" where
  "TableHeap_ApplyDelete rid b =
     bind_r (FetchPgImp (rid_page rid) b) (\<lambda>(page, b). case page of
       None \<Rightarrow> Inl Assertion_failed
     | Some f \<Rightarrow>
         bind_r (TablePage_ApplyDelete rid (frame_data f b)) (\<lambda>data.
         bind_r (UnpinPgImp (GetTablePageId data) True (frame_put f data b)) (\<lambda>(_, b). Inr b)))"

text \<open>The body between the latches is empty.\<close>

definition TableHeap_RollbackDelete :: "RID \<Rightarrow> bpm \<Rightarrow> bpm result" where
  "TableHeap_RollbackDelete rid b =
     bind_r (FetchPgImp (rid_page rid) b) (\<lambda>(page, b). case page of
       None \<Rightarrow> Inl Assertion_failed
     | Some f \<Rightarrow> bind_r (UnpinPgImp (GetTablePageId (frame_data f b)) True b) (\<lambda>(_, b). Inr b))"

definition TableHeap_GetTuple :: "RID \<Rightarrow> Tuple \<Rightarrow> bpm \<Rightarrow> (bool \<times> Tuple \<times> bpm) result" where
  "TableHeap_GetTuple rid tuple b =
     bind_r (FetchPgImp (rid_page rid) b) (\<lambda>(page, b). case page of
       None \<Rightarrow> Inr (False, tuple, b)
     | Some f \<Rightarrow>
         let (res, tuple) = TablePage_GetTuple rid tuple (frame_data f b)
         in bind_r (UnpinPgImp (rid_page rid) False b) (\<lambda>(_, b). Inr (res, tuple, b)))"

section \<open>Iterators\<close>

text \<open>An iterator is its tuple; \<open>operator==\<close> compares the numbers of the record ids.\<close>

definition iter_eq :: "Tuple \<Rightarrow> Tuple \<Rightarrow> bool" where
  "iter_eq it1 it2 \<longleftrightarrow> RID_Get (trid it1) = RID_Get (trid it2)"

definition TableIterator :: "RID \<Rightarrow> bpm \<Rightarrow> (Tuple \<times> bpm) result" where
  "TableIterator rid b =
     (let tuple = new_Tuple\<lparr>trid := rid\<rparr>
      in if rid_page rid \<noteq> INVALID_PAGE_ID
         then bind_r (TableHeap_GetTuple (trid tuple) tuple b) (\<lambda>(ok, tuple, b).
                if ok then Inr (tuple, b) else Inl (Throw INVALID))
         else Inr (tuple, b))"

definition TableHeap_End :: "bpm \<Rightarrow> (Tuple \<times> bpm) result" where
  "TableHeap_End b = TableIterator \<lparr>rid_page = INVALID_PAGE_ID, rid_slot = 0\<rparr> b"

definition end_iter :: Tuple where
  "end_iter = new_Tuple\<lparr>trid := \<lparr>rid_page = INVALID_PAGE_ID, rid_slot = 0\<rparr>\<rparr>"

partial_function (option) begin_loop :: "int \<Rightarrow> RID \<Rightarrow> bpm \<Rightarrow> (RID \<times> bpm) result option" where
  "begin_loop cur_id rid b =
     (if cur_id \<noteq> INVALID_PAGE_ID
      then case FetchPgImp cur_id b of
          Inl e \<Rightarrow> Some (Inl e)
        | Inr (None, b) \<Rightarrow> Some (Inl Undefined_behaviour)
        | Inr (Some f, b) \<Rightarrow>
            let (found_tuple, rid) = TablePage_GetFirstTupleRid (frame_data f b)
            in (case UnpinPgImp cur_id False b of
                  Inl e \<Rightarrow> Some (Inl e)
                | Inr (_, b) \<Rightarrow>
                    if found_tuple then Some (Inr (rid, b))
                    else begin_loop (GetNextPageId (frame_data f b)) rid b)
      else Some (Inr (rid, b)))"

definition TableHeap_Begin :: "int \<Rightarrow> bpm \<Rightarrow> (Tuple \<times> bpm) result option" where
  "TableHeap_Begin first_page_id b =
     (case begin_loop first_page_id new_RID b of
        None \<Rightarrow> None
      | Some res \<Rightarrow> Some (bind_r res (\<lambda>(rid, b). TableIterator rid b)))"

text \<open>The inner loop of \<open>operator++\<close>: the page at which it stops and the record id found.\<close>

partial_function (option) next_page_loop :: "int \<Rightarrow> RID \<Rightarrow> bpm \<Rightarrow> (int \<times> RID \<times> bpm) result option" where
  "next_page_loop f rid b =
     (let next_page_id = GetNextPageId (frame_data f b)
      in if next_page_id \<noteq> INVALID_PAGE_ID
         then case FetchPgImp next_page_id b of
             Inl e \<Rightarrow> Some (Inl e)
           | Inr (page, b) \<Rightarrow>
               (case UnpinPgImp (GetTablePageId (frame_data f b)) False b of
                  Inl e \<Rightarrow> Some (Inl e)
                | Inr (_, b) \<Rightarrow>
                    (case page of
                       None \<Rightarrow> Some (Inl Undefined_behaviour)
                     | Some f' \<Rightarrow>
                         let (found_tuple, rid) = TablePage_GetFirstTupleRid (frame_data f' b)
                         in if found_tuple then Some (Inr (f', rid, b)) else next_page_loop f' rid b))
         else Some (Inr (f, rid, b)))"

text \<open>\<open>operator++\<close>. A full pool fails the \<open>BUSTUB_ENSURE\<close>, which throws \<open>std::logic_error\<close>.\<close>

definition iter_next :: "Tuple \<Rightarrow> bpm \<Rightarrow> (Tuple \<times> bpm) result option" where
  "iter_next it b =
     (case FetchPgImp (rid_page (trid it)) b of
        Inl e \<Rightarrow> Some (Inl e)
      | Inr (None, b) \<Rightarrow> Some (Inl Std_logic_error)
      | Inr (Some f, b) \<Rightarrow>
          (case TablePage_GetNextTupleRid (trid it) (frame_data f b) of
             Inl e \<Rightarrow> Some (Inl e)
           | Inr (found_tuple, rid) \<Rightarrow>
               (case (if found_tuple then Some (Inr (f, rid, b)) else next_page_loop f rid b) of
                  None \<Rightarrow> None
                | Some res \<Rightarrow> Some (bind_r res (\<lambda>(f, rid, b).
                    let it = it\<lparr>trid := rid\<rparr>
                    in bind_r (if \<not> iter_eq it end_iter
                               then bind_r (TableHeap_GetTuple (trid it) it b) (\<lambda>(ok, it, b).
                                      if ok then Inr (it, b) else Inl (Throw INVALID))
                               else Inr (it, b)) (\<lambda>(it, b).
                       bind_r (UnpinPgImp (GetTablePageId (frame_data f b)) False b) (\<lambda>(_, b). Inr (it, b))))))))"

section \<open>A view of the pool\<close>

text \<open>
  What a client sees of the pool: the contents \<open>c\<close> and pins \<open>P\<close> of the pages, the next page id,
  the number of frames, and the pages \<open>D\<close> it changed since it pinned them.
\<close>

definition pool_view :: "int set \<Rightarrow> (int \<Rightarrow> byte list) \<Rightarrow> (int \<Rightarrow> int) \<Rightarrow> int \<Rightarrow> nat \<Rightarrow> bpm \<Rightarrow> bool" where
  "pool_view D c P n k b \<longleftrightarrow>
     bpm_inv b \<and> (\<forall>q\<ge>0. content b q = c q) \<and> pins b = P \<and> next_page_id b = n \<and> pool_size b = k \<and>
     (\<forall>q. q \<notin> D \<longrightarrow> honest b q)"

text \<open>Frame \<open>f\<close> holds the pinned page \<open>p\<close>.\<close>

definition held :: "bpm \<Rightarrow> int \<Rightarrow> int \<Rightarrow> bool" where
  "held b p f \<longleftrightarrow> resident b p = Some f \<and> 0 < pins b p"

text \<open>Frames held by a client stay where they are.\<close>

definition keeps_held :: "bpm \<Rightarrow> bpm \<Rightarrow> bool" where
  "keeps_held b b' \<longleftrightarrow> (\<forall>q f. resident b q = Some f \<longrightarrow> 0 < pins b q \<longrightarrow> resident b' q = Some f)"

lemma pinned_finite:
  assumes "bpm_inv b"
  shows "finite {q. pins b q \<noteq> 0}"
proof (rule finite_subset)
  show "{q. pins b q \<noteq> 0} \<subseteq> {0..<next_page_id b}"
    using resident_facts(7)[OF assms] by (auto simp: pins_def allocated_def split: option.splits)
qed simp

lemma unpinned_frame:
  assumes inv: "bpm_inv b" and few: "card {q. pins b q \<noteq> 0} < pool_size b"
  shows "has_unpinned b"
proof (rule ccontr)
  assume no: "\<not> has_unpinned b"
  have all: "set (free_list b) \<union> ran (resident b) = {0..<int (pool_size b)}"
    using inv by (simp add: bpm_inv_except_def frames_ok_def)
  have "free_list b = []" using no has_unpinned_iff[OF inv] by simp
  then have ran: "ran (resident b) = {0..<int (pool_size b)}" using all by simp
  have no_idle: "{f \<in> ran (resident b). pin_count (frame b f) = 0} = {}"
    using no has_unpinned_iff[OF inv] inv by (simp add: bpm_inv_except_def replacer_ok_def)
  have "{0..<int (pool_size b)} \<subseteq> (\<lambda>q. the (resident b q)) ` {q. pins b q \<noteq> 0}"
    unfolding ran[symmetric]
  proof (intro subsetI)
    fix f assume f: "f \<in> ran (resident b)"
    then obtain q where q: "resident b q = Some f" unfolding ran_def by blast
    have "pin_count (frame b f) \<noteq> 0" using no_idle f by blast
    then show "f \<in> (\<lambda>q. the (resident b q)) ` {q. pins b q \<noteq> 0}"
      using q by (intro image_eqI[of _ _ q]) (simp_all add: pins_def)
  qed
  then have "card {0..<int (pool_size b)} \<le> card {q. pins b q \<noteq> 0}"
    by (rule surj_card_le[OF pinned_finite[OF inv]])
  then show False using few by simp
qed

text \<open>Room for one more pinned page.\<close>

definition room :: "(int \<Rightarrow> int) \<Rightarrow> nat \<Rightarrow> bool" where
  "room P k \<longleftrightarrow> card {q. P q \<noteq> 0} < k"

lemma view_fetch:
  assumes v: "pool_view D c P n k b" and p: "0 \<le> p" "p < n" and lim: "P p < 2 ^ 31 - 1" and r: "room P k"
  shows "\<exists>f b'. FetchPgImp p b = Inr (Some f, b') \<and> pool_view D c (P(p := P p + 1)) n k b' \<and>
    held b' p f \<and> keeps_held b b'"
proof -
  have inv: "bpm_inv b" and P: "pins b = P" using v by (simp_all add: pool_view_def)
  have al: "allocated b p" using v p by (simp add: pool_view_def allocated_def)
  have nn: "0 \<le> pins b p"
    using resident_facts(6)[OF inv] by (auto simp: pins_def page_ok_def split: option.split)
  show ?thesis
  proof (cases "resident b p")
    case (Some f)
    from Fetch_hit_correct[OF inv Some] lim P obtain b' where b': "FetchPgImp p b = Inr (Some f, b')" "bpm_inv b'"
      "content b' = content b" "pins b' = (pins b)(p := pins b p + 1)" "resident b' = resident b"
      "next_page_id b' = next_page_id b" "pool_size b' = pool_size b" "keeps_honest b b'" by auto
    have "pool_view D c (P(p := P p + 1)) n k b'" using v b' by (simp add: pool_view_def keeps_honest_def)
    moreover have "held b' p f" "keeps_held b b'" using b' Some nn by (simp_all add: held_def keeps_held_def)
    ultimately show ?thesis using b'(1) by blast
  next
    case None
    have "has_unpinned b" using unpinned_frame[OF inv] r v by (simp add: room_def pool_view_def)
    from Fetch_miss_correct[OF inv None al this] obtain f b' where b': "FetchPgImp p b = Inr (Some f, b')" "bpm_inv b'"
      "\<forall>q\<ge>0. content b' q = content b q" "pins b' = (pins b)(p := 1)" "resident b' p = Some f"
      "\<forall>q. pins b q \<noteq> 0 \<longrightarrow> resident b' q = resident b q"
      "next_page_id b' = next_page_id b" "pool_size b' = pool_size b" "keeps_honest b b'" by auto
    have "P p = 0" using None P by (auto simp: pins_def)
    then have "pool_view D c (P(p := P p + 1)) n k b'" using v b' by (simp add: pool_view_def keeps_honest_def)
    moreover have "held b' p f" "keeps_held b b'" using b' by (simp_all add: held_def keeps_held_def)
    ultimately show ?thesis using b'(1) by blast
  qed
qed

lemma view_new:
  assumes v: "pool_view D c P n k b" and lim: "n \<le> max_page_id" and r: "room P k"
  shows "\<exists>f b'. NewPgImp b = Inr (Some (n, f), b') \<and> pool_view D c (P(n := 1)) (n + 1) k b' \<and>
    held b' n f \<and> keeps_held b b' \<and> c n = zero_page \<and> 0 \<le> n \<and> P n = 0"
proof -
  have inv: "bpm_inv b" and P: "pins b = P" and n: "next_page_id b = n" using v by (simp_all add: pool_view_def)
  have "has_unpinned b" using unpinned_frame[OF inv] r v by (simp add: room_def pool_view_def)
  from NewPgImp_correct[OF inv this] lim n obtain f b' where b': "NewPgImp b = Inr (Some (n, f), b')" "bpm_inv b'"
    "resident b' n = Some f" "\<forall>q\<ge>0. content b' q = content b q" "content b n = zero_page"
    "pins b' = (pins b)(n := 1)" "\<forall>q. pins b q \<noteq> 0 \<longrightarrow> resident b' q = resident b q"
    "next_page_id b' = n + 1" "pool_size b' = pool_size b" "keeps_honest b b'" by auto
  have n0: "0 \<le> n" using inv n by (simp add: bpm_inv_except_def storage_ok_def)
  have "resident b n = None" using inv n by (auto simp: bpm_inv_except_def storage_ok_def)
  then have "P n = 0" using P by (auto simp: pins_def)
  moreover have "pool_view D c (P(n := 1)) (n + 1) k b'" using v b' by (simp add: pool_view_def keeps_honest_def)
  moreover have "held b' n f" "keeps_held b b'" using b' by (simp_all add: held_def keeps_held_def)
  moreover have "c n = zero_page" using v b'(5) n0 by (simp add: pool_view_def)
  ultimately show ?thesis using b'(1) n0 by blast
qed

lemma held_page: "bpm_inv b \<Longrightarrow> held b p f \<Longrightarrow> 0 \<le> p"
  using resident_facts(7)[of "{}" b p f] by (simp add: held_def allocated_def)

lemma view_read:
  assumes "pool_view D c P n k b" and "held b p f"
  shows "frame_data f b = c p"
proof -
  have "0 \<le> p" using assms held_page[of b p f] by (simp add: pool_view_def)
  then have "content b p = c p" using assms(1) by (simp add: pool_view_def)
  then show ?thesis using assms(2) by (simp add: held_def content_def frame_data_def frame_def)
qed

lemma view_put:
  assumes v: "pool_view D c P n k b" and h: "held b p f" and len: "length data = BUSTUB_PAGE_SIZE"
  shows "pool_view (insert p D) (c(p := data)) P n k (frame_put f data b)" and "keeps_held b (frame_put f data b)"
proof -
  have w: "frame_put f data b = write_data p data b"
    using h by (simp add: held_def write_data_def Find_resident frame_put_def)
  have inv: "bpm_inv b" and pin: "0 < pins b p" using v h by (simp_all add: pool_view_def held_def)
  note wr = write_data_correct[OF inv pin len]
  have sel: "next_page_id (write_data p data b) = next_page_id b" "pool_size (write_data p data b) = pool_size b"
    by (simp_all add: write_data_def split: option.split)
  show "pool_view (insert p D) (c(p := data)) P n k (frame_put f data b)"
    using v wr(1-3) wr(5) unfolding w by (simp add: pool_view_def sel)
  show "keeps_held b (frame_put f data b)" unfolding w by (simp add: keeps_held_def wr(4))
qed

lemma view_unpin:
  assumes v: "pool_view D c P n k b" and pin: "0 < P p" and d: "\<not> dirty \<Longrightarrow> p \<notin> D"
  shows "\<exists>b'. UnpinPgImp p dirty b = Inr (True, b') \<and> pool_view (if dirty then D - {p} else D) c (P(p := P p - 1)) n k b' \<and>
    resident b' = resident b"
proof -
  have inv: "bpm_inv b" and P: "pins b = P" using v by (simp_all add: pool_view_def)
  have "unpin_allowed p dirty b"
    using v d by (cases "resident b p"; cases dirty) (auto simp: unpin_allowed_def pool_view_def honest_def)
  from Unpin_correct[OF inv this] pin P obtain b' where b': "UnpinPgImp p dirty b = Inr (True, b')" "bpm_inv b'"
    "content b' = content b" "pins b' = (pins b)(p := pins b p - 1)" "resident b' = resident b"
    "next_page_id b' = next_page_id b" "pool_size b' = pool_size b" "keeps_honest b b'" "dirty \<longrightarrow> honest b' p" by auto
  have "honest b' q" if "q \<notin> (if dirty then D - {p} else D)" for q
    using that v b'(8,9) by (cases "q = p"; cases dirty) (auto simp: pool_view_def keeps_honest_def)
  then show ?thesis using v b' P by (simp add: pool_view_def)
qed

lemma keeps_heldD: "keeps_held b b' \<Longrightarrow> held b p f \<Longrightarrow> 0 < pins b' p \<Longrightarrow> held b' p f"
  by (simp add: keeps_held_def held_def)

section \<open>The heap as a chain of pages\<close>

fun chain :: "(int \<Rightarrow> byte list) \<Rightarrow> int \<Rightarrow> int list \<Rightarrow> bool" where
  "chain c p [] \<longleftrightarrow> p = INVALID_PAGE_ID"
| "chain c p (q # qs) \<longleftrightarrow> p = q \<and> chain c (GetNextPageId (c q)) qs"

definition heap_page :: "(int \<Rightarrow> byte list) \<Rightarrow> int \<Rightarrow> int \<Rightarrow> bool" where
  "heap_page c n p \<longleftrightarrow> 0 \<le> p \<and> p < n \<and> table_page_inv (c p) \<and> GetTablePageId (c p) = p"

definition heap_view :: "(int \<Rightarrow> byte list) \<Rightarrow> int \<Rightarrow> int \<Rightarrow> int list \<Rightarrow> bool" where
  "heap_view c n first ps \<longleftrightarrow> ps \<noteq> [] \<and> distinct ps \<and> chain c first ps \<and> (\<forall>p\<in>set ps. heap_page c n p)"

text \<open>The slots of the heap by record id.\<close>

definition heap_map :: "(int \<Rightarrow> byte list) \<Rightarrow> int list \<Rightarrow> RID \<Rightarrow> slot option" where
  "heap_map c ps rid =
     (if rid_page rid \<in> set ps \<and> rid_slot rid < length (slots (c (rid_page rid)))
      then Some (slots (c (rid_page rid)) ! rid_slot rid) else None)"

lemma chain_cong: "(\<And>q. q \<in> set ps \<Longrightarrow> GetNextPageId (c' q) = GetNextPageId (c q)) \<Longrightarrow> chain c' p ps = chain c p ps"
  by (induction ps arbitrary: p) auto

lemma chain_append: "chain c p (xs @ q # ys) \<Longrightarrow> chain c q (q # ys)"
  by (induction xs arbitrary: p) auto

lemma chain_snoc:
  assumes "chain c p (xs @ [x])" and "x \<notin> set xs" and "GetNextPageId (c' x) = q" and "GetNextPageId (c' q) = INVALID_PAGE_ID"
    and "\<And>y. y \<in> set xs \<Longrightarrow> GetNextPageId (c' y) = GetNextPageId (c y)"
  shows "chain c' p (xs @ [x, q])"
  using assms by (induction xs arbitrary: p) auto

lemma heap_page_ok: "heap_page c n p \<Longrightarrow> length (c p) = BUSTUB_PAGE_SIZE"
  using table_page_invD(1) by (simp add: heap_page_def BUSTUB_PAGE_SIZE_def)

lemma heap_view_edit:
  assumes h: "heap_view c n first ps" and p: "p \<in> set ps" and d: "table_page_inv d" "same_front d (c p)"
  shows "heap_view (c(p := d)) n first ps"
proof -
  note sf = same_frontD[OF d(2)]
  have "chain (c(p := d)) first ps" using h sf by (subst chain_cong[of ps _ c]) (simp_all add: heap_view_def)
  then show ?thesis using h d(1) sf by (auto simp: heap_view_def heap_page_def)
qed

lemma heap_map_edit:
  assumes "p \<in> set ps" and "i \<le> length (slots (c p))"
    and "slots d = (if i < length (slots (c p)) then (slots (c p))[i := x] else slots (c p) @ [x])"
  shows "heap_map (c(p := d)) ps = (heap_map c ps)(\<lparr>rid_page = p, rid_slot = i\<rparr> \<mapsto> x)"
proof
  fix rid :: RID
  show "heap_map (c(p := d)) ps rid = ((heap_map c ps)(\<lparr>rid_page = p, rid_slot = i\<rparr> \<mapsto> x)) rid"
  proof (cases "rid_page rid = p")
    case True
    have "rid = \<lparr>rid_page = p, rid_slot = i\<rparr> \<longleftrightarrow> rid_slot rid = i" using True by (cases rid) auto
    moreover have "slots d ! rid_slot rid = (if rid_slot rid = i then x else slots (c p) ! rid_slot rid)"
      if "rid_slot rid < length (slots d)"
      using that assms(2,3) by (auto simp: nth_append nth_list_update split: if_splits)
    moreover have "length (slots d) = (if i < length (slots (c p)) then length (slots (c p)) else length (slots (c p)) + 1)"
      using arg_cong[OF assms(3), of length] by (simp del: length_slots)
    ultimately show ?thesis
      using True assms(1,2) by (auto simp: heap_map_def simp del: length_slots)
  qed (auto simp: heap_map_def)
qed

lemma heap_map_page: "heap_map c ps rid = Some s \<Longrightarrow> rid_page rid \<in> set ps \<and>
    rid_slot rid < GetTupleCount (c (rid_page rid)) \<and> slots (c (rid_page rid)) ! rid_slot rid = s"
  by (simp add: heap_map_def split: if_splits)

section \<open>One page at a time\<close>

text \<open>The pins that other clients may hold.\<close>

definition spare :: "(int \<Rightarrow> int) \<Rightarrow> nat \<Rightarrow> bool" where
  "spare P k \<longleftrightarrow> finite {q. P q \<noteq> 0} \<and> card {q. P q \<noteq> 0} + 2 \<le> k \<and> (\<forall>q. 0 \<le> P q \<and> P q < 2 ^ 31 - 2)"

lemma spare_room: "spare P k \<Longrightarrow> room P k \<and> room (P(p := x)) k"
proof -
  assume s: "spare P k"
  have "{q. (P(p := x)) q \<noteq> 0} \<subseteq> insert p {q. P q \<noteq> 0}" by auto
  then have "card {q. (P(p := x)) q \<noteq> 0} \<le> card (insert p {q. P q \<noteq> 0})"
    using s by (intro card_mono) (simp_all add: spare_def)
  also have "\<dots> \<le> card {q. P q \<noteq> 0} + 1" by (simp add: card_insert_le_m1 card_insert_if)
  finally show ?thesis using s by (simp add: room_def spare_def)
qed

lemma spare_lim: "spare P k \<Longrightarrow> P p < 2 ^ 31 - 1 \<and> (P(q := P q + 1)) p < 2 ^ 31 - 1 \<and> 0 \<le> P p"
proof -
  assume "spare P k"
  then have "P p < 2 ^ 31 - 2" "0 \<le> P p" by (simp_all add: spare_def)
  then show ?thesis by auto
qed

text \<open>The pins after the page is unpinned again.\<close>

lemma unpin_again: "(P(p := P p + 1))(p := (P(p := P p + 1)) p - 1) = (P :: int \<Rightarrow> int)"
  by (simp add: fun_eq_iff)

text \<open>Fetch a page, change it, unpin it as dirty.\<close>

lemma edit_page:
  assumes v: "pool_view {} c P n k b" and s: "spare P k" and p: "0 \<le> p" "p < n"
  obtains f b1 where "FetchPgImp p b = Inr (Some f, b1)" and "frame_data f b1 = c p"
    and "\<And>data. length data = BUSTUB_PAGE_SIZE \<Longrightarrow>
      \<exists>b2. UnpinPgImp p True (frame_put f data b1) = Inr (True, b2) \<and> pool_view {} (c(p := data)) P n k b2"
    and "\<exists>b2. UnpinPgImp p False b1 = Inr (True, b2) \<and> pool_view {} c P n k b2 \<and> frame_data f b2 = frame_data f b1"
proof -
  from view_fetch[OF v p] spare_lim[OF s] spare_room[OF s] obtain f b1 where b1: "FetchPgImp p b = Inr (Some f, b1)"
    "pool_view {} c (P(p := P p + 1)) n k b1" "held b1 p f" by blast
  have pin: "0 < (P(p := P p + 1)) p" using spare_lim[OF s, of p] by simp
  show ?thesis
  proof (rule that[OF b1(1) view_read[OF b1(2,3)]])
    fix data :: "byte list" assume len: "length data = BUSTUB_PAGE_SIZE"
    from view_unpin[OF view_put(1)[OF b1(2,3) len] pin, of True, unfolded unpin_again]
    show "\<exists>b2. UnpinPgImp p True (frame_put f data b1) = Inr (True, b2) \<and> pool_view {} (c(p := data)) P n k b2" by auto
  next
    from view_unpin[OF b1(2) pin, of False, unfolded unpin_again] obtain b2 where
      b2: "UnpinPgImp p False b1 = Inr (True, b2)" "pool_view {} c P n k b2" "resident b2 = resident b1" by auto
    have "frame_data f b2 = frame_data f b1"
    proof -
      have "content b2 p = content b1 p" using b2(2) b1(2) p by (simp add: pool_view_def)
      then show ?thesis using b1(3) b2(3) by (simp add: content_def held_def frame_data_def frame_def)
    qed
    then show "\<exists>b2. UnpinPgImp p False b1 = Inr (True, b2) \<and> pool_view {} c P n k b2 \<and> frame_data f b2 = frame_data f b1"
      using b2(1,2) by auto
  qed
qed

section \<open>Inserting a tuple\<close>

text \<open>The effect of a successful insertion on the page contents.\<close>

definition put_in_slot :: "byte list \<Rightarrow> nat \<Rightarrow> byte list \<Rightarrow> byte list \<Rightarrow> bool" where
  "put_in_slot bs i d d' \<longleftrightarrow>
     table_page_inv d' \<and> same_front d' d \<and> i \<le> length (slots d) \<and> (i < length (slots d) \<longrightarrow> slots d ! i = Empty) \<and>
     slots d' = (if i < length (slots d) then (slots d)[i := Live bs] else slots d @ [Live bs])"

definition inserted ::
  "(int \<Rightarrow> byte list) \<Rightarrow> int \<Rightarrow> int list \<Rightarrow> byte list \<Rightarrow> RID \<Rightarrow> (int \<Rightarrow> byte list) \<Rightarrow> int \<Rightarrow> bool" where
  "inserted c n ps bs rid c' n' \<longleftrightarrow>
     rid_page rid \<in> set ps \<and> n' = n \<and>
       (\<exists>d. put_in_slot bs (rid_slot rid) (c (rid_page rid)) d \<and> c' = c(rid_page rid := d)) \<or>
     rid = \<lparr>rid_page = n, rid_slot = 0\<rparr> \<and> n' = n + 1 \<and>
       (\<exists>d. table_page_inv d \<and> GetTablePageId d = n \<and> GetNextPageId d = INVALID_PAGE_ID \<and> slots d = [Live bs] \<and>
          c' = c(last ps := SetNextPageId n (c (last ps)), n := d))"

lemma page_insert:
  assumes inv: "table_page_inv d" and n: "0 < length bs" and room: "length bs + 8 \<le> free_space d"
  obtains i d' where "TablePage_InsertTuple (tuple_of r bs) d = Inr (Some \<lparr>rid_page = GetTablePageId d, rid_slot = i\<rparr>, d')"
    and "put_in_slot bs i d d'"
proof -
  from InsertTuple_correct[OF inv n room, where r = r] obtain d' where
    d': "TablePage_InsertTuple (tuple_of r bs) d = Inr (Some \<lparr>rid_page = GetTablePageId d, rid_slot = free_slot d\<rparr>, d')"
      "table_page_inv d'" "same_front d' d"
      "slots d' = (if free_slot d < GetTupleCount d then (slots d)[free_slot d := Live bs] else slots d @ [Live bs])"
    by blast
  have "free_slot d < GetTupleCount d \<Longrightarrow> slots d ! free_slot d = Empty"
    using free_slot_facts(2)[where d = d] by (simp add: nth_slots slot_at_def)
  then show ?thesis using that[OF d'(1)] d'(2-4) free_slot_facts(1)[where d = d] by (simp add: put_in_slot_def)
qed

lemma insert_loop_here:
  assumes v: "pool_view {} c (P(p := P p + 1)) n k b" and h: "held b p f" and pg: "heap_page c n p" and P: "0 \<le> P p"
    and bs: "0 < length bs" and room: "length bs + 8 \<le> free_space (c p)"
  obtains rid b' d where "insert_loop (tuple_of r bs) f b = Some (Inr (Some rid, b'))" and "rid_page rid = p"
    and "pool_view {} (c(p := d)) P n k b'" and "put_in_slot bs (rid_slot rid) (c p) d"
proof -
  from pg have inv: "table_page_inv (c p)" and id: "GetTablePageId (c p) = p" by (simp_all add: heap_page_def)
  from page_insert[OF inv bs room, where r = r] obtain i d where d:
    "TablePage_InsertTuple (tuple_of r bs) (c p) = Inr (Some \<lparr>rid_page = p, rid_slot = i\<rparr>, d)" "put_in_slot bs i (c p) d"
    unfolding id by blast
  have id': "GetTablePageId d = p" and len: "length d = BUSTUB_PAGE_SIZE"
    using d(2) same_frontD[of d "c p"] id table_page_invD(1)[of d] by (simp_all add: put_in_slot_def BUSTUB_PAGE_SIZE_def)
  have pin: "0 < (P(p := P p + 1)) p" using P by simp
  from view_unpin[OF view_put(1)[OF v h len] pin, of True, unfolded unpin_again] obtain b' where
    b': "UnpinPgImp p True (frame_put f d b) = Inr (True, b')" "pool_view {} (c(p := d)) P n k b'" by auto
  have "insert_loop (tuple_of r bs) f b = Some (Inr (Some \<lparr>rid_page = p, rid_slot = i\<rparr>, b'))"
    by (subst insert_loop.simps) (simp add: view_read[OF v h] d(1) id' b'(1))
  from that[OF this] b'(2) d(2) show ?thesis by simp
qed

lemma frame_put_same: "frame_put f (frame_data f b) b = b"
  by (simp add: frame_put_def frame_data_def)

lemma insert_loop_correct:
  assumes s: "spare P k" and n: "n \<le> max_page_id" and bs: "0 < length bs" "length bs + 32 \<le> BUSTUB_PAGE_SIZE"
  shows "\<lbrakk> pool_view {} c (P(p := P p + 1)) n k b; held b p f; chain c p (p # rest); distinct (p # rest);
      \<forall>q\<in>set (p # rest). heap_page c n q \<rbrakk> \<Longrightarrow>
    \<exists>rid b' c' n'. insert_loop (tuple_of r bs) f b = Some (Inr (Some rid, b')) \<and> pool_view {} c' P n' k b' \<and>
      inserted c n (p # rest) bs rid c' n'"
proof (induction rest arbitrary: p f b)
  case (Cons q rest)
  note v = Cons.prems(1) and h = Cons.prems(2)
  have pg: "heap_page c n p" and qg: "heap_page c n q" and ne: "p \<noteq> q" using Cons.prems(4,5) by auto
  have P: "0 \<le> P x" "P x < 2 ^ 31 - 2" for x using s by (auto simp: spare_def)
  show ?case
  proof (cases "length bs + 8 \<le> free_space (c p)")
    case True
    from insert_loop_here[OF v h pg P(1) bs(1) True, where r = r] show ?thesis
      by (metis (no_types, lifting) inserted_def list.set_intros(1))
  next
    case False
    have full: "TablePage_InsertTuple (tuple_of r bs) (c p) = Inr (None, c p)"
      using InsertTuple_full[OF _ bs(1)] False pg by (simp add: heap_page_def)
    have nx: "GetNextPageId (c p) = q" "q \<noteq> INVALID_PAGE_ID"
      using Cons.prems(3) qg by (auto simp: heap_page_def INVALID_PAGE_ID_def)
    have q: "0 \<le> q" "q < n" using qg by (simp_all add: heap_page_def)
    have lq: "(P(p := P p + 1)) q < 2 ^ 31 - 1" using P(2)[of q] ne by simp
    have eq: "(P(p := P p + 1)) q + 1 = P q + 1" using ne by simp
    from view_fetch[OF v q lq spare_room[OF s, THEN conjunct2], unfolded eq] obtain f' b1 where
      b1: "FetchPgImp q b = Inr (Some f', b1)" "pool_view {} c ((P(p := P p + 1))(q := P q + 1)) n k b1"
        "held b1 q f'" "keeps_held b b1" by blast
    have h1: "held b1 p f" using keeps_heldD[OF b1(4) h] b1(2) P(1)[of p] ne by (simp add: pool_view_def)
    have pin: "0 < ((P(p := P p + 1))(q := P q + 1)) p" using P(1)[of p] ne by simp
    have r1: "((P(p := P p + 1))(q := P q + 1))(p := ((P(p := P p + 1))(q := P q + 1)) p - 1) = P(q := P q + 1)"
      using ne by (simp add: fun_eq_iff)
    from view_unpin[OF b1(2) pin, of False, unfolded r1] obtain b2 where b2: "UnpinPgImp p False b1 = Inr (True, b2)"
      "pool_view {} c (P(q := P q + 1)) n k b2" "resident b2 = resident b1" by auto
    have h2: "held b2 q f'" using b1(3) b2(2,3) P(1)[of q] by (simp add: held_def pool_view_def)
    have ch: "chain c q (q # rest)" using Cons.prems(3) nx(1) by simp
    from Cons.IH[OF b2(2) h2 ch] Cons.prems(4,5) obtain rid b' c' n' where
      res: "insert_loop (tuple_of r bs) f' b2 = Some (Inr (Some rid, b'))" "pool_view {} c' P n' k b'"
        "inserted c n (q # rest) bs rid c' n'" by auto
    have id: "GetTablePageId (c p) = p" using pg by (simp add: heap_page_def)
    have "insert_loop (tuple_of r bs) f b = insert_loop (tuple_of r bs) f' b2"
      using frame_put_same[of f b] nx
      by (subst insert_loop.simps) (simp add: view_read[OF v h] full b1(1) view_read[OF b1(2) h1] id b2(1) Let_def)
    moreover have "inserted c n (p # q # rest) bs rid c' n'" using res(3) by (auto simp: inserted_def)
    ultimately show ?thesis
      using res(1,2) by (intro exI[of _ rid] exI[of _ b'] exI[of _ c'] exI[of _ n']) simp
  qed
next
  case Nil
  note v = Nil.prems(1) and h = Nil.prems(2)
  have pg: "heap_page c n p" using Nil.prems(5) by auto
  have P: "0 \<le> P x" "P x < 2 ^ 31 - 2" for x using s by (auto simp: spare_def)
  show ?case
  proof (cases "length bs + 8 \<le> free_space (c p)")
    case True
    from insert_loop_here[OF v h pg P(1) bs(1) True, where r = r] show ?thesis
      by (metis (no_types, lifting) inserted_def list.set_intros(1))
  next
    case False
    have full: "TablePage_InsertTuple (tuple_of r bs) (c p) = Inr (None, c p)"
      using InsertTuple_full[OF _ bs(1)] False pg by (simp add: heap_page_def)
    have nx: "GetNextPageId (c p) = INVALID_PAGE_ID" using Nil.prems(3) by simp
    have id: "GetTablePageId (c p) = p" and inv: "table_page_inv (c p)" and lt: "0 \<le> p" "p < n"
      using pg by (simp_all add: heap_page_def)
    have eq: "(P(p := P p + 1)) n = P n" using lt by simp
    from view_new[OF v n spare_room[OF s, THEN conjunct2], unfolded eq] obtain f' b1 where
      b1: "NewPgImp b = Inr (Some (n, f'), b1)" "pool_view {} c ((P(p := P p + 1))(n := 1)) (n + 1) k b1"
        "held b1 n f'" "keeps_held b b1" "c n = zero_page" "0 \<le> n" "P n = 0" by blast
    have h1: "held b1 p f" using keeps_heldD[OF b1(4) h] b1(2) P(1)[of p] lt by (simp add: pool_view_def)
    have i32: "in_int32 n" "in_int32 p" using n b1(6) lt by (simp_all add: in_int32_def max_page_id_def)
    define dp where "dp = SetNextPageId n (c p)"
    note sn = SetNextPageId_correct[OF inv i32(1), folded dp_def]
    have ldp: "length dp = BUSTUB_PAGE_SIZE" using table_page_invD(1)[OF sn(1)] by (simp add: BUSTUB_PAGE_SIZE_def)
    define b2 where "b2 = frame_put f dp b1"
    note v2 = view_put[OF b1(2) h1 ldp, folded b2_def]
    have h2: "held b2 p f" "held b2 n f'"
      using keeps_heldD[OF v2(2) h1] keeps_heldD[OF v2(2) b1(3)] v2(1) P(1)[of p] lt by (simp_all add: pool_view_def)
    define dn where "dn = TablePage_Init n BUSTUB_PAGE_SIZE p (c n)"
    have lz: "length (c n) = BUSTUB_PAGE_SIZE" by (simp add: b1(5) zero_page_def)
    note init = TablePage_Init_correct[OF lz i32, folded dn_def]
    have ldn: "length dn = BUSTUB_PAGE_SIZE" using table_page_invD(1)[of dn] init by (simp add: BUSTUB_PAGE_SIZE_def)
    define b3 where "b3 = frame_put f' dn b2"
    note v3 = view_put[OF v2(1) h2(2) ldn, folded b3_def]
    have h3: "held b3 p f" "held b3 n f'"
      using keeps_heldD[OF v3(2) h2(1)] keeps_heldD[OF v3(2) h2(2)] v3(1) P(1)[of p] lt by (simp_all add: pool_view_def)
    define c3 where "c3 = c(p := dp, n := dn)"
    have pin: "0 < ((P(p := P p + 1))(n := 1)) p" using P(1)[of p] lt by simp
    have r3: "((P(p := P p + 1))(n := 1))(p := ((P(p := P p + 1))(n := 1)) p - 1) = P(n := P n + 1)"
      using lt b1(7) by (simp add: fun_eq_iff)
    from view_unpin[OF v3(1)[folded c3_def] pin, of True, unfolded r3] obtain b4 where
      b4: "UnpinPgImp p True b3 = Inr (True, b4)" "pool_view ({n, p} - {p}) c3 (P(n := P n + 1)) (n + 1) k b4"
        "resident b4 = resident b3" by auto
    have h4: "held b4 n f'" using h3(2) b4(2,3) b1(7) by (simp add: held_def pool_view_def)
    have pgn: "heap_page c3 (n + 1) n" using init b1(6) by (simp add: heap_page_def c3_def)
    have fits: "length bs + 8 \<le> free_space (c3 n)" using init bs(2) by (simp add: c3_def BUSTUB_PAGE_SIZE_def)
    have dirty: "{n, p} - {p} = {n}" using lt by auto
    have n0: "0 \<le> P n" using b1(7) by simp
    from page_insert[of dn bs r] init bs fits obtain i d where d:
      "TablePage_InsertTuple (tuple_of r bs) dn = Inr (Some \<lparr>rid_page = n, rid_slot = i\<rparr>, d)" "put_in_slot bs i dn d"
      by (auto simp: c3_def)
    have "i = 0" and sd: "slots d = [Live bs]" using d(2) init by (simp_all add: put_in_slot_def)
    have fd: "GetTablePageId d = n" "GetNextPageId d = INVALID_PAGE_ID" "table_page_inv d"
      using d(2) same_frontD[of d dn] init by (simp_all add: put_in_slot_def)
    have ld: "length d = BUSTUB_PAGE_SIZE" using table_page_invD(1)[OF fd(3)] by (simp add: BUSTUB_PAGE_SIZE_def)
    have pin5: "0 < (P(n := P n + 1)) n" using b1(7) by simp
    from view_unpin[OF view_put(1)[OF b4(2) h4 ld] pin5, of True, unfolded unpin_again] obtain b5 where
      b5: "UnpinPgImp n True (frame_put f' d b4) = Inr (True, b5)" "pool_view {} (c3(n := d)) P (n + 1) k b5"
      using dirty by auto
    have last: "insert_loop (tuple_of r bs) f' b4 = Some (Inr (Some \<lparr>rid_page = n, rid_slot = i\<rparr>, b5))"
      by (subst insert_loop.simps) (simp add: view_read[OF b4(2) h4] c3_def d(1) fd b5(1))
    have rd: "frame_data f b1 = c p" "frame_data f b2 = dp" "frame_data f' b2 = c n" "frame_data f b3 = dp"
      using view_read[OF b1(2) h1] view_read[OF v2(1) h2(1)] view_read[OF v2(1) h2(2)] view_read[OF v3(1) h3(1)] lt
      by simp_all
    have idp: "GetTablePageId dp = p" using sn(4) id by simp
    have "insert_loop (tuple_of r bs) f b = insert_loop (tuple_of r bs) f' b4"
      using frame_put_same[of f b]
      by (subst insert_loop.simps)
        (simp add: view_read[OF v h] full nx b1(1) rd(1) Let_def idp b4(1) rd
          flip: dp_def b2_def dn_def b3_def)
    moreover have "inserted c n [p] bs \<lparr>rid_page = n, rid_slot = i\<rparr> (c3(n := d)) (n + 1)"
      using fd sd \<open>i = 0\<close> lt by (auto simp: inserted_def c3_def dp_def)
    ultimately show ?thesis using last b5(2) by auto
  qed
qed

lemma inserted_heap:
  assumes h: "heap_view c n first ps" and ins: "inserted c n ps bs rid c' n'" and n: "n \<le> max_page_id" "0 \<le> n"
  obtains ps' where "heap_view c' n' first ps'" and "heap_map c' ps' = (heap_map c ps)(rid \<mapsto> Live bs)"
    and "heap_map c ps rid \<in> {None, Some Empty}" and "ps' = (if rid_page rid \<in> set ps then ps else ps @ [rid_page rid])"
    and "\<And>q. q \<notin> set ps' \<Longrightarrow> c' q = c q"
proof -
  from h have ne: "ps \<noteq> []" and dist: "distinct ps" and ch: "chain c first ps" and pgs: "\<And>p. p \<in> set ps \<Longrightarrow> heap_page c n p"
    by (auto simp: heap_view_def)
  from ins consider
    (old) d where "rid_page rid \<in> set ps" "n' = n" "put_in_slot bs (rid_slot rid) (c (rid_page rid)) d" "c' = c(rid_page rid := d)"
  | (new) d where "rid = \<lparr>rid_page = n, rid_slot = 0\<rparr>" "n' = n + 1" "table_page_inv d" "GetTablePageId d = n"
      "GetNextPageId d = INVALID_PAGE_ID" "slots d = [Live bs]" "c' = c(last ps := SetNextPageId n (c (last ps)), n := d)"
    unfolding inserted_def by blast
  then show ?thesis
  proof cases
    case old
    note P = old(3)[unfolded put_in_slot_def]
    have "heap_view c' n' first ps" using heap_view_edit[OF h old(1)] P by (simp add: old)
    moreover have rid: "\<lparr>rid_page = rid_page rid, rid_slot = rid_slot rid\<rparr> = rid" by simp
    have "heap_map c' ps = (heap_map c ps)(rid \<mapsto> Live bs)"
      using heap_map_edit[OF old(1), of "rid_slot rid" c d "Live bs", unfolded rid] P by (simp add: old(4))
    moreover have "heap_map c ps rid \<in> {None, Some Empty}"
      using P old(1) by (auto simp: heap_map_def)
    moreover have "c' q = c q" if "q \<notin> set ps" for q using that old(1) by (auto simp: old(4))
    ultimately show ?thesis using that[of ps] old(1) by simp
  next
    case new
    define l where "l = last ps"
    have ps: "ps = butlast ps @ [l]" using ne by (simp add: l_def)
    have l: "l \<in> set ps" "l \<notin> set (butlast ps)" using ne dist ps by (auto simp: l_def) (metis distinct_append not_distinct_conv_prefix ps l_def)
    have notn: "n \<notin> set ps" using pgs by (auto simp: heap_page_def)
    then have nl: "n \<noteq> l" using l(1) by auto
    have pl: "table_page_inv (c l)" "GetTablePageId (c l) = l" using pgs[OF l(1)] by (simp_all add: heap_page_def)
    have i32: "in_int32 n" using n by (simp add: in_int32_def max_page_id_def)
    note sn = SetNextPageId_correct[OF pl(1) i32]
    have c': "c' = c(l := SetNextPageId n (c l), n := d)" using new(7) by (simp add: l_def)
    have "chain c' first (butlast ps @ [l, n])"
    proof (rule chain_snoc)
      show "chain c first (butlast ps @ [l])" using ch ps by simp
      show "GetNextPageId (c' y) = GetNextPageId (c y)" if "y \<in> set (butlast ps)" for y
        using that l(2) notn by (auto simp: c' dest: in_set_butlastD)
    qed (use l(2) nl sn(3) new(5) in \<open>simp_all add: c'\<close>)
    then have "chain c' first (ps @ [n])" using ps by (metis append.assoc append_Cons append_Nil)
    moreover have "heap_page c' n' p" if "p \<in> set (ps @ [n])" for p
      using that pgs[of p] sn pl new(2-4) n(2) by (auto simp: heap_page_def c')
    ultimately have "heap_view c' n' first (ps @ [n])" using dist notn by (simp add: heap_view_def)
    moreover have "heap_map c' (ps @ [n]) = (heap_map c ps)(rid \<mapsto> Live bs)"
    proof
      fix x :: RID
      have "x = \<lparr>rid_page = n, rid_slot = 0\<rparr> \<longleftrightarrow> rid_page x = n \<and> rid_slot x = 0" by (cases x) auto
      then show "heap_map c' (ps @ [n]) x = ((heap_map c ps)(rid \<mapsto> Live bs)) x"
        using notn nl l(1) sn(2) new(1,6)
        by (cases "rid_page x = n"; cases "rid_page x = l") (auto simp: heap_map_def c' simp del: length_slots)
    qed
    moreover have "heap_map c ps rid \<in> {None, Some Empty}" using notn new(1) by (simp add: heap_map_def)
    moreover have "c' q = c q" if "q \<notin> set (ps @ [n])" for q using that l(1) by (auto simp: c')
    moreover have "ps @ [n] = (if rid_page rid \<in> set ps then ps else ps @ [rid_page rid])" using notn new(1) by simp
    ultimately show ?thesis by (intro that[of "ps @ [n]"])
  qed
qed

section \<open>Tables\<close>

text \<open>
  The table that starts at \<open>first\<close> with the pages \<open>ps\<close>, and its slots. The pool has spare frames
  besides those that other clients keep pinned.
\<close>

definition table_ok :: "int \<Rightarrow> int list \<Rightarrow> bpm \<Rightarrow> bool" where
  "table_ok first ps b \<longleftrightarrow>
     bpm_inv b \<and> (\<forall>q. honest b q) \<and> heap_view (content b) (next_page_id b) first ps \<and> spare (pins b) (pool_size b)"

definition table_map :: "int list \<Rightarrow> bpm \<Rightarrow> RID \<Rightarrow> slot option" where
  "table_map ps b = heap_map (content b) ps"

definition same_pins :: "bpm \<Rightarrow> bpm \<Rightarrow> bool" where
  "same_pins b' b \<longleftrightarrow> pins b' = pins b \<and> pool_size b' = pool_size b"

text \<open>The contents of pages outside the table.\<close>

definition same_outside :: "int list \<Rightarrow> bpm \<Rightarrow> bpm \<Rightarrow> bool" where
  "same_outside ps b' b \<longleftrightarrow> (\<forall>q\<ge>0. q \<notin> set ps \<longrightarrow> content b' q = content b q)"

lemma table_view: "table_ok first ps b \<Longrightarrow> pool_view {} (content b) (pins b) (next_page_id b) (pool_size b) b"
  by (simp add: table_ok_def pool_view_def)

lemma heap_view_cong:
  assumes h: "heap_view c n first ps" and eq: "\<forall>q\<ge>0. c' q = c q"
  shows "heap_view c' n first ps \<and> heap_map c' ps = heap_map c ps"
proof -
  have same: "c' p = c p" if "p \<in> set ps" for p using h eq that by (simp add: heap_view_def heap_page_def)
  have "chain c' first ps = chain c first ps" by (rule chain_cong) (simp add: same)
  moreover have "heap_map c' ps rid = heap_map c ps rid" for rid
    using same by (cases "rid_page rid \<in> set ps") (simp_all add: heap_map_def)
  ultimately show ?thesis using h same by (auto simp: heap_view_def heap_page_def)
qed

lemma table_from_view:
  assumes v: "pool_view {} c (pins b) n (pool_size b) b'" and h: "heap_view c n first ps" and s: "spare (pins b) (pool_size b)"
  shows "table_ok first ps b' \<and> table_map ps b' = heap_map c ps \<and> same_pins b' b"
  using v s heap_view_cong[OF h, of "content b'"] by (simp add: table_ok_def table_map_def same_pins_def pool_view_def)

lemma TableHeap_InsertTuple_correct:
  assumes t: "table_ok first ps b" and n: "next_page_id b \<le> max_page_id"
    and bs: "0 < length bs" "length bs + 32 \<le> BUSTUB_PAGE_SIZE"
  shows "\<exists>rid b' ps'. TableHeap_InsertTuple (tuple_of r bs) first b = Some (Inr (Some rid, b')) \<and>
    table_ok first ps' b' \<and> same_pins b' b \<and> table_map ps' b' = (table_map ps b)(rid \<mapsto> Live bs) \<and>
    table_map ps b rid \<in> {None, Some Empty} \<and>
    ps' = (if rid_page rid \<in> set ps then ps else ps @ [rid_page rid]) \<and>
    next_page_id b \<le> next_page_id b' \<and> next_page_id b' \<le> next_page_id b + 1 \<and> same_outside ps' b' b"
proof -
  note v = table_view[OF t]
  have h: "heap_view (content b) (next_page_id b) first ps" and s: "spare (pins b) (pool_size b)"
    using t by (simp_all add: table_ok_def)
  obtain rest where ps: "ps = first # rest" using h by (cases ps) (auto simp: heap_view_def)
  then have f: "heap_page (content b) (next_page_id b) first" using h by (simp add: heap_view_def)
  from view_fetch[OF v _ _ _ spare_room[OF s, THEN conjunct1]] f spare_lim[OF s] obtain fr b1 where b1:
    "FetchPgImp first b = Inr (Some fr, b1)"
    "pool_view {} (content b) ((pins b)(first := pins b first + 1)) (next_page_id b) (pool_size b) b1" "held b1 first fr"
    by (metis heap_page_def)
  from insert_loop_correct[OF s n bs b1(2,3), of rest r] h ps obtain rid b' c' n' where
    res: "insert_loop (tuple_of r bs) fr b1 = Some (Inr (Some rid, b'))"
      "pool_view {} c' (pins b) n' (pool_size b) b'" "inserted (content b) (next_page_id b) ps bs rid c' n'"
    by (auto simp: heap_view_def)
  have n0: "0 \<le> next_page_id b" using f by (simp add: heap_page_def)
  from inserted_heap[OF h res(3) n n0] obtain ps' where ps': "heap_view c' n' first ps'"
    "heap_map c' ps' = (heap_map (content b) ps)(rid \<mapsto> Live bs)" "heap_map (content b) ps rid \<in> {None, Some Empty}"
    "ps' = (if rid_page rid \<in> set ps then ps else ps @ [rid_page rid])" "\<And>q. q \<notin> set ps' \<Longrightarrow> c' q = content b q" by blast
  have "TableHeap_InsertTuple (tuple_of r bs) first b = Some (Inr (Some rid, b'))"
    using bs(2) b1(1) res(1) by (simp add: TableHeap_InsertTuple_def tuple_of_def)
  moreover have "next_page_id b' = n'" using res(2) by (simp add: pool_view_def)
  moreover have "n' = next_page_id b \<or> n' = next_page_id b + 1" using res(3) by (auto simp: inserted_def)
  moreover have "same_outside ps' b' b" using res(2) ps'(5) by (simp add: same_outside_def pool_view_def)
  ultimately show ?thesis
    using table_from_view[OF res(2) ps'(1) s] ps'(2-4)
    by - (rule exI[of _ rid], rule exI[of _ b'], rule exI[of _ ps'], auto simp: table_map_def)
qed

section \<open>Reading and deleting tuples\<close>

lemma table_page:
  assumes "table_ok first ps b" and "table_map ps b rid = Some s"
  shows "rid_page rid \<in> set ps" and "0 \<le> rid_page rid" and "rid_page rid < next_page_id b"
    and "table_page_inv (content b (rid_page rid))" and "GetTablePageId (content b (rid_page rid)) = rid_page rid"
    and "rid_slot rid < GetTupleCount (content b (rid_page rid))"
    and "slots (content b (rid_page rid)) ! rid_slot rid = s"
proof -
  note m = heap_map_page[OF assms(2)[unfolded table_map_def]]
  then have p: "rid_page rid \<in> set ps" by blast
  then have "heap_page (content b) (next_page_id b) (rid_page rid)"
    using assms(1) by (simp add: table_ok_def heap_view_def)
  then show "0 \<le> rid_page rid" "rid_page rid < next_page_id b" "table_page_inv (content b (rid_page rid))"
    "GetTablePageId (content b (rid_page rid)) = rid_page rid" by (simp_all add: heap_page_def)
qed (use heap_map_page[OF assms(2)[unfolded table_map_def]] in simp_all)

lemma table_edit:
  assumes t: "table_ok first ps b" and m: "table_map ps b rid = Some s"
    and v: "pool_view {} ((content b)(rid_page rid := d)) (pins b) (next_page_id b) (pool_size b) b'"
    and d: "table_page_inv d" "same_front d (content b (rid_page rid))"
      "slots d = (slots (content b (rid_page rid)))[rid_slot rid := x]"
  shows "table_ok first ps b' \<and> same_pins b' b \<and> table_map ps b' = (table_map ps b)(rid \<mapsto> x)"
proof -
  note tp = table_page[OF t m]
  have h: "heap_view (content b) (next_page_id b) first ps" and s: "spare (pins b) (pool_size b)"
    using t by (simp_all add: table_ok_def)
  have rid: "\<lparr>rid_page = rid_page rid, rid_slot = rid_slot rid\<rparr> = rid" by simp
  have "heap_map ((content b)(rid_page rid := d)) ps = (heap_map (content b) ps)(rid \<mapsto> x)"
    using heap_map_edit[OF tp(1), of "rid_slot rid" "content b" d x, unfolded rid] tp(6) d(3) by simp
  then show ?thesis
    using table_from_view[OF v heap_view_edit[OF h tp(1) d(1,2)] s] by (simp add: table_map_def)
qed

text \<open>Marking and applying a delete.\<close>

lemma TableHeap_MarkDelete_correct:
  assumes t: "table_ok first ps b" and m: "table_map ps b rid = Some (Live bs)"
  shows "\<exists>b'. TableHeap_MarkDelete rid b = Inr (True, b') \<and> table_ok first ps b' \<and> same_pins b' b \<and>
    table_map ps b' = (table_map ps b)(rid \<mapsto> Dead bs)"
proof -
  note tp = table_page[OF t m]
  from MarkDelete_correct[OF tp(4,6,7) refl] obtain d where d: "TablePage_MarkDelete rid (content b (rid_page rid)) = (True, d)"
    "table_page_inv d" "same_front d (content b (rid_page rid))"
    "slots d = (slots (content b (rid_page rid)))[rid_slot rid := Dead bs]" by blast
  have len: "length d = BUSTUB_PAGE_SIZE" using table_page_invD(1)[OF d(2)] by (simp add: BUSTUB_PAGE_SIZE_def)
  have id: "GetTablePageId d = rid_page rid" using same_frontD[OF d(3)] tp(5) by simp
  show ?thesis
  proof (rule edit_page[OF table_view[OF t] _ tp(2,3)])
    show "spare (pins b) (pool_size b)" using t by (simp add: table_ok_def)
    fix f b1 assume f: "FetchPgImp (rid_page rid) b = Inr (Some f, b1)" "frame_data f b1 = content b (rid_page rid)"
    assume "\<And>data. length data = BUSTUB_PAGE_SIZE \<Longrightarrow> \<exists>b2. UnpinPgImp (rid_page rid) True (frame_put f data b1) = Inr (True, b2) \<and>
      pool_view {} ((content b)(rid_page rid := data)) (pins b) (next_page_id b) (pool_size b) b2"
    from this[OF len] obtain b2 where b2: "UnpinPgImp (rid_page rid) True (frame_put f d b1) = Inr (True, b2)"
      "pool_view {} ((content b)(rid_page rid := d)) (pins b) (next_page_id b) (pool_size b) b2" by blast
    have "TableHeap_MarkDelete rid b = Inr (True, b2)"
      by (simp add: TableHeap_MarkDelete_def f d(1) id b2(1))
    then show ?thesis using table_edit[OF t m b2(2) d(2-4)] by blast
  qed
qed

lemma TableHeap_ApplyDelete_correct:
  assumes t: "table_ok first ps b" and m: "table_map ps b rid = Some s" and s: "s \<noteq> Empty"
  shows "\<exists>b'. TableHeap_ApplyDelete rid b = Inr b' \<and> table_ok first ps b' \<and> same_pins b' b \<and>
    table_map ps b' = (table_map ps b)(rid \<mapsto> Empty)"
proof -
  note tp = table_page[OF t m]
  from ApplyDelete_correct[OF tp(4,6) _ refl] s tp(7) obtain d where
    d: "TablePage_ApplyDelete rid (content b (rid_page rid)) = Inr d" "table_page_inv d"
      "same_front d (content b (rid_page rid))" "slots d = (slots (content b (rid_page rid)))[rid_slot rid := Empty]"
    by blast
  have len: "length d = BUSTUB_PAGE_SIZE" using table_page_invD(1)[OF d(2)] by (simp add: BUSTUB_PAGE_SIZE_def)
  have id: "GetTablePageId d = rid_page rid" using same_frontD[OF d(3)] tp(5) by simp
  show ?thesis
  proof (rule edit_page[OF table_view[OF t] _ tp(2,3)])
    show "spare (pins b) (pool_size b)" using t by (simp add: table_ok_def)
    fix f b1 assume f: "FetchPgImp (rid_page rid) b = Inr (Some f, b1)" "frame_data f b1 = content b (rid_page rid)"
    assume "\<And>data. length data = BUSTUB_PAGE_SIZE \<Longrightarrow> \<exists>b2. UnpinPgImp (rid_page rid) True (frame_put f data b1) = Inr (True, b2) \<and>
      pool_view {} ((content b)(rid_page rid := data)) (pins b) (next_page_id b) (pool_size b) b2"
    from this[OF len] obtain b2 where b2: "UnpinPgImp (rid_page rid) True (frame_put f d b1) = Inr (True, b2)"
      "pool_view {} ((content b)(rid_page rid := d)) (pins b) (next_page_id b) (pool_size b) b2" by blast
    have "TableHeap_ApplyDelete rid b = Inr b2"
      by (simp add: TableHeap_ApplyDelete_def f d(1) id b2(1))
    then show ?thesis using table_edit[OF t m b2(2) d(2-4)] by blast
  qed
qed

text \<open>Rolling a delete back leaves the tuple deleted.\<close>

lemma TableHeap_RollbackDelete_correct:
  assumes t: "table_ok first ps b" and m: "table_map ps b rid = Some s"
  shows "\<exists>b'. TableHeap_RollbackDelete rid b = Inr b' \<and> table_ok first ps b' \<and> same_pins b' b \<and>
    table_map ps b' = table_map ps b"
proof -
  note tp = table_page[OF t m]
  define d where "d = content b (rid_page rid)"
  have len: "length d = BUSTUB_PAGE_SIZE" using table_page_invD(1)[OF tp(4)] by (simp add: BUSTUB_PAGE_SIZE_def d_def)
  have h: "heap_view (content b) (next_page_id b) first ps" and s: "spare (pins b) (pool_size b)"
    using t by (simp_all add: table_ok_def)
  show ?thesis
  proof (rule edit_page[OF table_view[OF t] s tp(2,3)])
    fix f b1 assume f: "FetchPgImp (rid_page rid) b = Inr (Some f, b1)" "frame_data f b1 = content b (rid_page rid)"
    assume "\<And>data. length data = BUSTUB_PAGE_SIZE \<Longrightarrow> \<exists>b2. UnpinPgImp (rid_page rid) True (frame_put f data b1) = Inr (True, b2) \<and>
      pool_view {} ((content b)(rid_page rid := data)) (pins b) (next_page_id b) (pool_size b) b2"
    from this[OF len] obtain b2 where b2: "UnpinPgImp (rid_page rid) True (frame_put f d b1) = Inr (True, b2)"
      "pool_view {} (content b) (pins b) (next_page_id b) (pool_size b) b2" by (auto simp: d_def)
    have "frame_put f d b1 = b1" using frame_put_same[of f b1] f(2) by (simp add: d_def)
    then have "TableHeap_RollbackDelete rid b = Inr b2"
      using b2(1) by (simp add: TableHeap_RollbackDelete_def f tp(5))
    then show ?thesis using table_from_view[OF b2(2) h s] by (auto simp: table_map_def)
  qed
qed

text \<open>An update of a live tuple is undefined: \<open>UpdateTuple\<close> hands the page a tuple without a buffer.\<close>

lemma TableHeap_UpdateTuple_undefined:
  assumes t: "table_ok first ps b" and m: "table_map ps b rid = Some (Live bs)"
  shows "TableHeap_UpdateTuple tuple rid b = Inl Undefined_behaviour"
proof -
  note tp = table_page[OF t m]
  show ?thesis
  proof (rule edit_page[OF table_view[OF t] _ tp(2,3)])
    show "spare (pins b) (pool_size b)" using t by (simp add: table_ok_def)
    fix f b1 assume f: "FetchPgImp (rid_page rid) b = Inr (Some f, b1)" "frame_data f b1 = content b (rid_page rid)"
    show ?thesis
      using UpdateTuple_fresh_old[OF tp(6,7), of tuple] f by (simp add: TableHeap_UpdateTuple_def)
  qed
qed

text \<open>Reading a live tuple, whatever else is pinned.\<close>

lemma view_GetTuple:
  assumes v: "pool_view {} c Q n k b" and p: "0 \<le> rid_page rid" "rid_page rid < n"
    and q: "0 \<le> Q (rid_page rid)" "Q (rid_page rid) < 2 ^ 31 - 1" and r: "room Q k"
    and inv: "table_page_inv (c (rid_page rid))" and i: "rid_slot rid < GetTupleCount (c (rid_page rid))"
    and live: "slots (c (rid_page rid)) ! rid_slot rid = Live bs"
  shows "\<exists>b'. TableHeap_GetTuple rid t b = Inr (True, tuple_of rid bs, b') \<and> pool_view {} c Q n k b' \<and> keeps_held b b'"
proof -
  let ?p = "rid_page rid"
  from view_fetch[OF v p q(2) r] obtain f b1 where b1: "FetchPgImp ?p b = Inr (Some f, b1)"
    "pool_view {} c (Q(?p := Q ?p + 1)) n k b1" "held b1 ?p f" "keeps_held b b1" by blast
  have pin: "0 < (Q(?p := Q ?p + 1)) ?p" using q(1) by simp
  from view_unpin[OF b1(2) pin, of False, unfolded unpin_again] obtain b2 where
    b2: "UnpinPgImp ?p False b1 = Inr (True, b2)" "pool_view {} c Q n k b2" "resident b2 = resident b1" by auto
  have "TableHeap_GetTuple rid t b = Inr (True, tuple_of rid bs, b2)"
    by (simp add: TableHeap_GetTuple_def b1(1) view_read[OF b1(2,3)] GetTuple_live[OF inv i live] b2(1))
  moreover have "keeps_held b b2" using b1(4) b2(3) by (simp add: keeps_held_def)
  ultimately show ?thesis using b2(2) by blast
qed

lemma TableHeap_GetTuple_correct:
  assumes t: "table_ok first ps b" and m: "table_map ps b rid = Some (Live bs)"
  shows "\<exists>b'. TableHeap_GetTuple rid tuple b = Inr (True, tuple_of rid bs, b') \<and> table_ok first ps b' \<and>
    same_pins b' b \<and> table_map ps b' = table_map ps b \<and> next_page_id b' = next_page_id b"
proof -
  note tp = table_page[OF t m]
  have h: "heap_view (content b) (next_page_id b) first ps" and s: "spare (pins b) (pool_size b)"
    using t by (simp_all add: table_ok_def)
  from view_GetTuple[OF table_view[OF t] tp(2,3) _ _ _ tp(4,6,7)] spare_lim[OF s, of "rid_page rid"] spare_room[OF s]
  obtain b' where b': "TableHeap_GetTuple rid tuple b = Inr (True, tuple_of rid bs, b')"
    "pool_view {} (content b) (pins b) (next_page_id b) (pool_size b) b'" by blast
  then show ?thesis
    using table_from_view[OF b'(2) h s] by (auto simp: table_map_def pool_view_def)
qed

text \<open>A deleted or absent tuple is not read.\<close>

lemma TableHeap_GetTuple_absent:
  assumes t: "table_ok first ps b" and p: "rid_page rid \<in> set ps" and m: "\<And>bs. table_map ps b rid \<noteq> Some (Live bs)"
  shows "\<exists>b'. TableHeap_GetTuple rid tuple b = Inr (False, tuple, b') \<and> table_ok first ps b' \<and> table_map ps b' = table_map ps b"
proof -
  have h: "heap_view (content b) (next_page_id b) first ps" and s: "spare (pins b) (pool_size b)"
    using t by (simp_all add: table_ok_def)
  then have hp: "0 \<le> rid_page rid" "rid_page rid < next_page_id b" using p by (simp_all add: heap_view_def heap_page_def)
  have get: "TablePage_GetTuple rid tuple (content b (rid_page rid)) = (False, tuple)"
  proof (cases "slot_at (rid_slot rid) (content b (rid_page rid))")
    case (Live bs)
    then show ?thesis
      using m[of bs] p by (auto simp: GetTuple_correct table_map_def heap_map_def nth_slots)
  qed (simp_all add: GetTuple_correct)
  show ?thesis
  proof (rule edit_page[OF table_view[OF t] s hp])
    fix f b1 assume f: "FetchPgImp (rid_page rid) b = Inr (Some f, b1)" "frame_data f b1 = content b (rid_page rid)"
    assume "\<exists>b2. UnpinPgImp (rid_page rid) False b1 = Inr (True, b2) \<and>
      pool_view {} (content b) (pins b) (next_page_id b) (pool_size b) b2 \<and> frame_data f b2 = frame_data f b1"
    then obtain b2 where b2: "UnpinPgImp (rid_page rid) False b1 = Inr (True, b2)"
      "pool_view {} (content b) (pins b) (next_page_id b) (pool_size b) b2" by blast
    then have "TableHeap_GetTuple rid tuple b = Inr (False, tuple, b2)"
      by (simp add: TableHeap_GetTuple_def f get)
    then show ?thesis using table_from_view[OF b2(2) h s] by (auto simp: table_map_def)
  qed
qed

text \<open>A new table has one empty page.\<close>

lemma TableHeap_create_correct:
  assumes inv: "bpm_inv b" and hon: "\<forall>q. honest b q" and s: "spare (pins b) (pool_size b)" and n: "next_page_id b \<le> max_page_id"
  shows "\<exists>b'. TableHeap_create b = Inr (next_page_id b, b') \<and> table_ok (next_page_id b) [next_page_id b] b' \<and>
    same_pins b' b \<and> table_map [next_page_id b] b' = Map.empty \<and> next_page_id b' = next_page_id b + 1 \<and>
    same_outside [next_page_id b] b' b"
proof -
  let ?n = "next_page_id b"
  have v: "pool_view {} (content b) (pins b) ?n (pool_size b) b" using inv hon by (simp add: pool_view_def)
  from view_new[OF v n spare_room[OF s, THEN conjunct1]] obtain f b1 where b1: "NewPgImp b = Inr (Some (?n, f), b1)"
    "pool_view {} (content b) ((pins b)(?n := 1)) (?n + 1) (pool_size b) b1" "held b1 ?n f"
    "content b ?n = zero_page" "0 \<le> ?n" "pins b ?n = 0" by blast
  have i32: "in_int32 ?n" "in_int32 INVALID_LSN"
    using n b1(5) by (simp_all add: in_int32_def max_page_id_def INVALID_LSN_def)
  define d where "d = TablePage_Init ?n BUSTUB_PAGE_SIZE INVALID_LSN (content b ?n)"
  have lz: "length (content b ?n) = BUSTUB_PAGE_SIZE" by (simp add: b1(4) zero_page_def)
  note init = TablePage_Init_correct[OF lz i32, folded d_def]
  have len: "length d = BUSTUB_PAGE_SIZE" using table_page_invD(1)[of d] init by (simp add: BUSTUB_PAGE_SIZE_def)
  have pin: "0 < ((pins b)(?n := 1)) ?n" by simp
  have r: "((pins b)(?n := 1))(?n := ((pins b)(?n := 1)) ?n - 1) = pins b" using b1(6) by (simp add: fun_eq_iff)
  from view_unpin[OF view_put(1)[OF b1(2,3) len] pin, of True, unfolded r] obtain b2 where
    b2: "UnpinPgImp ?n True (frame_put f d b1) = Inr (True, b2)"
      "pool_view {} ((content b)(?n := d)) (pins b) (?n + 1) (pool_size b) b2" by auto
  have "TableHeap_create b = Inr (?n, b2)"
    by (simp add: TableHeap_create_def b1(1) Let_def view_read[OF b1(2,3)] b2(1) flip: d_def)
  moreover have "heap_view ((content b)(?n := d)) (?n + 1) ?n [?n]"
    using init b1(5) by (simp add: heap_view_def heap_page_def)
  moreover have "heap_map ((content b)(?n := d)) [?n] = Map.empty" using init by (auto simp: heap_map_def simp flip: length_slots)
  moreover have "next_page_id b2 = ?n + 1" using b2(2) by (simp add: pool_view_def)
  moreover have "same_outside [?n] b2 b" using b2(2) by (simp add: pool_view_def same_outside_def)
  ultimately show ?thesis using table_from_view[OF b2(2) _ s] by auto
qed

section \<open>Histories of a table\<close>

text \<open>Work on the pool that leaves the pages of a table alone.\<close>

lemma table_ok_transfer:
  assumes t: "table_ok first ps b" and b': "bpm_inv b'" "\<forall>q. honest b' q" "spare (pins b') (pool_size b')"
    and n: "next_page_id b \<le> next_page_id b'" and same: "\<forall>q\<in>set ps. content b' q = content b q"
  shows "table_ok first ps b' \<and> table_map ps b' = table_map ps b"
proof -
  have h: "heap_view (content b) (next_page_id b) first ps" using t by (simp add: table_ok_def)
  have "chain (content b') first ps" using h same by (subst chain_cong[of ps _ "content b"]) (simp_all add: heap_view_def)
  then have "heap_view (content b') (next_page_id b') first ps"
    using h n same by (fastforce simp: heap_view_def heap_page_def)
  moreover have "heap_map (content b') ps rid = heap_map (content b) ps rid" for rid
    using same by (cases "rid_page rid \<in> set ps") (simp_all add: heap_map_def)
  ultimately show ?thesis using b' by (auto simp: table_ok_def table_map_def)
qed

text \<open>Marking a slot that is not live.\<close>

lemma TableHeap_MarkDelete_not_live:
  assumes t: "table_ok first ps b" and m: "table_map ps b rid = Some s" and s: "\<And>bs. s \<noteq> Live bs"
  shows "\<exists>b'. TableHeap_MarkDelete rid b = Inr (False, b') \<and> table_ok first ps b' \<and> table_map ps b' = table_map ps b"
proof -
  note tp = table_page[OF t m]
  define d where "d = content b (rid_page rid)"
  have len: "length d = BUSTUB_PAGE_SIZE" using table_page_invD(1)[OF tp(4)] by (simp add: BUSTUB_PAGE_SIZE_def d_def)
  have mark: "TablePage_MarkDelete rid d = (False, d)"
    using tp(7) s by (intro MarkDelete_not_live[OF _ refl]) (simp add: d_def)
  have h: "heap_view (content b) (next_page_id b) first ps" and sp: "spare (pins b) (pool_size b)"
    using t by (simp_all add: table_ok_def)
  show ?thesis
  proof (rule edit_page[OF table_view[OF t] sp tp(2,3)])
    fix f b1 assume f: "FetchPgImp (rid_page rid) b = Inr (Some f, b1)" "frame_data f b1 = content b (rid_page rid)"
    assume "\<And>data. length data = BUSTUB_PAGE_SIZE \<Longrightarrow> \<exists>b2. UnpinPgImp (rid_page rid) True (frame_put f data b1) = Inr (True, b2) \<and>
      pool_view {} ((content b)(rid_page rid := data)) (pins b) (next_page_id b) (pool_size b) b2"
    from this[OF len] obtain b2 where b2: "UnpinPgImp (rid_page rid) True (frame_put f d b1) = Inr (True, b2)"
      "pool_view {} (content b) (pins b) (next_page_id b) (pool_size b) b2" by (auto simp: d_def)
    have "TableHeap_MarkDelete rid b = Inr (False, b2)"
      using mark tp(5) b2(1) by (simp add: TableHeap_MarkDelete_def f flip: d_def)
    then show ?thesis using table_from_view[OF b2(2) h sp] by (auto simp: table_map_def)
  qed
qed

text \<open>
  The states of a table: it is created, tuples are inserted, marked, deleted, read, and other
  clients of the pool work on other pages in between. The map is the specification.
\<close>

inductive table_reach :: "int \<Rightarrow> int list \<Rightarrow> (RID \<Rightarrow> slot option) \<Rightarrow> bpm \<Rightarrow> bool" where
  create: "\<lbrakk> bpm_inv b; \<forall>q. honest b q; spare (pins b) (pool_size b); next_page_id b \<le> max_page_id;
     TableHeap_create b = Inr (first, b') \<rbrakk> \<Longrightarrow> table_reach first [first] Map.empty b'"
| insert: "\<lbrakk> table_reach first ps m b; next_page_id b \<le> max_page_id; 0 < length bs; length bs + 32 \<le> BUSTUB_PAGE_SIZE;
     TableHeap_InsertTuple (tuple_of r bs) first b = Some (Inr (Some rid, b')) \<rbrakk> \<Longrightarrow>
     table_reach first (if rid_page rid \<in> set ps then ps else ps @ [rid_page rid]) (m(rid \<mapsto> Live bs)) b'"
| mark: "\<lbrakk> table_reach first ps m b; m rid = Some s; TableHeap_MarkDelete rid b = Inr (ok, b') \<rbrakk> \<Longrightarrow>
     table_reach first ps (m(rid \<mapsto> (case s of Live bs \<Rightarrow> Dead bs | _ \<Rightarrow> s))) b'"
| apply_delete: "\<lbrakk> table_reach first ps m b; m rid = Some s; s \<noteq> Empty; TableHeap_ApplyDelete rid b = Inr b' \<rbrakk> \<Longrightarrow>
     table_reach first ps (m(rid \<mapsto> Empty)) b'"
| read: "\<lbrakk> table_reach first ps m b; m rid = Some s; TableHeap_GetTuple rid t b = Inr (ok, t', b') \<rbrakk> \<Longrightarrow>
     table_reach first ps m b'"
| other: "\<lbrakk> table_reach first ps m b; bpm_inv b'; \<forall>q. honest b' q; spare (pins b') (pool_size b');
     next_page_id b \<le> next_page_id b'; \<forall>q\<in>set ps. content b' q = content b q \<rbrakk> \<Longrightarrow> table_reach first ps m b'"

lemma table_reach_ok: "table_reach first ps m b \<Longrightarrow> table_ok first ps b \<and> table_map ps b = m"
proof (induction rule: table_reach.induct)
  case (create b first b')
  from TableHeap_create_correct[OF create(1-4)] create(5) show ?case by auto
next
  case (insert first ps m b bs r rid b')
  from TableHeap_InsertTuple_correct[OF _ insert(2-4), of first ps r] insert.IH insert(5) show ?case by auto
next
  case (mark first ps m b rid s ok b')
  show ?case
  proof (cases s)
    case (Live bs)
    from TableHeap_MarkDelete_correct[of first ps b rid bs] mark Live show ?thesis by auto
  next
    case Empty
    from TableHeap_MarkDelete_not_live[of first ps b rid s] mark Empty show ?thesis by (auto simp: fun_upd_idem)
  next
    case (Dead bs)
    from TableHeap_MarkDelete_not_live[of first ps b rid s] mark Dead show ?thesis by (auto simp: fun_upd_idem)
  qed
next
  case (apply_delete first ps m b rid s b')
  from TableHeap_ApplyDelete_correct[of first ps b rid s] apply_delete show ?case by auto
next
  case (read first ps m b rid s t ok t' b')
  have t: "table_ok first ps b" and m: "table_map ps b = m" using read.IH by auto
  show ?case
  proof (cases "\<exists>bs. s = Live bs")
    case True
    then show ?thesis using TableHeap_GetTuple_correct[OF t, of rid _ t] read m by auto
  next
    case False
    have "rid_page rid \<in> set ps" using table_page(1)[OF t] read m by simp
    then show ?thesis using TableHeap_GetTuple_absent[OF t, of rid t] False read m by auto
  qed
next
  case (other first ps m b b')
  then show ?case using table_ok_transfer[of first ps b b'] by simp
qed

section \<open>Properties\<close>

text \<open>A pool of two frames, a table in it, and a row.\<close>

definition two_frame_pool :: bpm where
  "two_frame_pool = BufferPoolManagerInstance 2 (DiskManager None None) 2"

lemma two_frame_pool_facts:
  "bpm_inv two_frame_pool" "\<forall>q. honest two_frame_pool q" "spare (pins two_frame_pool) (pool_size two_frame_pool)"
  "next_page_id two_frame_pool = 0"
proof -
  have p: "pins two_frame_pool = (\<lambda>_. 0)" and inv: "bpm_inv two_frame_pool"
    unfolding two_frame_pool_def by (rule bpm_init; simp)+
  have "resident two_frame_pool = (\<lambda>_. None)"
    by (simp add: two_frame_pool_def BufferPoolManagerInstance_def resident_def eht_map_init)
  then show "\<forall>q. honest two_frame_pool q" by (simp add: honest_def)
  have "pool_size two_frame_pool = 2" by (simp add: two_frame_pool_def BufferPoolManagerInstance_def)
  then show "spare (pins two_frame_pool) (pool_size two_frame_pool)" by (simp add: p spare_def)
  show "next_page_id two_frame_pool = 0" by (simp add: two_frame_pool_def BufferPoolManagerInstance_def)
qed (unfold two_frame_pool_def, rule bpm_init, simp_all)

lemma demo_table:
  obtains b where "table_reach 0 [0] Map.empty b" and "next_page_id b = 1"
proof -
  note F = two_frame_pool_facts
  have n: "next_page_id two_frame_pool \<le> max_page_id" by (simp add: F(4) max_page_id_def)
  from TableHeap_create_correct[OF F(1-3) n] obtain b where
    "TableHeap_create two_frame_pool = Inr (0, b)" "next_page_id b = 1" by (auto simp: F(4))
  then show ?thesis using that table_reach.create[OF F(1-3) n] by blast
qed

lemma demo_row:
  obtains b rid ps where "table_reach 0 ps [rid \<mapsto> Live [7, 8]] b" and "next_page_id b \<le> 2" and "rid_page rid \<in> set ps"
proof -
  from demo_table obtain b where b: "table_reach 0 [0] Map.empty b" "next_page_id b = 1" .
  have t: "table_ok 0 [0] b" using table_reach_ok[OF b(1)] by simp
  have n: "next_page_id b \<le> max_page_id" by (simp add: b(2) max_page_id_def)
  have len: "0 < length [7, 8 :: byte]" "length [7, 8 :: byte] + 32 \<le> BUSTUB_PAGE_SIZE" by (simp_all add: BUSTUB_PAGE_SIZE_def)
  from TableHeap_InsertTuple_correct[OF t n len, of new_RID] obtain rid b' where
    b': "TableHeap_InsertTuple (tuple_of new_RID [7, 8]) 0 b = Some (Inr (Some rid, b'))" "next_page_id b' \<le> 2"
    by (auto simp: b(2))
  from that[OF table_reach.insert[OF b(1) n len b'(1)] b'(2)] show ?thesis by simp
qed



text \<open>
  C17: Reads of a table refine its map. After any history of insertions, marks, deletes and reads
  of the table, interleaved with other work on the pool that leaves the table's pages alone,
  \<open>TableHeap::GetTuple\<close> yields exactly the bytes last inserted under a record id and not deleted
  since, and \<open>false\<close> for every other record id of the table's pages.
\<close>
theorem table_reads_history:
  assumes "table_reach first ps m b" and "rid_page rid \<in> set ps"
  shows "\<exists>b'. TableHeap_GetTuple rid t b = Inr
     (case m rid of Some (Live bytes) \<Rightarrow> (True, tuple_of rid bytes, b') | _ \<Rightarrow> (False, t, b')) \<and>
     table_ok first ps b' \<and> table_map ps b' = m"
proof -
  have t: "table_ok first ps b" and m: "table_map ps b = m" using table_reach_ok[OF assms(1)] by simp_all
  show ?thesis
  proof (cases "\<exists>bytes. m rid = Some (Live bytes)")
    case True
    then show ?thesis using TableHeap_GetTuple_correct[OF t, of rid _ t] m by auto
  next
    case False
    then have "(case m rid of Some (Live bytes) \<Rightarrow> (True, tuple_of rid bytes, b') | _ \<Rightarrow> (False, t, b')) = (False, t, b')"
      for b' :: bpm by (auto split: option.split slot.split)
    then show ?thesis using TableHeap_GetTuple_absent[OF t assms(2), of t] False m by simp
  qed
qed

theorem table_reads_history_witness:
  "\<exists>b rid ps. table_reach 0 ps [rid \<mapsto> Live [7, 8]] b \<and> rid_page rid \<in> set ps \<and>
     (\<exists>b'. TableHeap_GetTuple rid new_Tuple b = Inr (True, tuple_of rid [7, 8], b'))"
proof -
  from demo_row obtain b rid ps where b: "table_reach 0 ps [rid \<mapsto> Live [7, 8]] b" "rid_page rid \<in> set ps" .
  from table_reads_history[OF b, of new_Tuple] b show ?thesis by auto
qed

text \<open>
  \<open>TableHeap::UpdateTuple\<close> never updates: on every live tuple the page copies the old value
  into the buffer of a default-constructed tuple, a null pointer.
\<close>
theorem table_update_undefined:
  assumes "table_reach first ps m b" and "m rid = Some (Live bytes)"
  shows "TableHeap_UpdateTuple tuple rid b = Inl Undefined_behaviour"
  using TableHeap_UpdateTuple_undefined table_reach_ok[OF assms(1)] assms(2) by blast

theorem table_update_undefined_witness:
  "\<exists>b rid. TableHeap_UpdateTuple (tuple_of rid [9]) rid b = Inl Undefined_behaviour"
proof -
  from demo_row obtain b rid ps where b: "table_reach 0 ps [rid \<mapsto> Live [7, 8]] b" .
  then show ?thesis using table_update_undefined[OF b, of rid "[7, 8]" "tuple_of rid [9]"] by auto
qed

text \<open>\<open>RollbackDelete\<close> does not bring a marked tuple back.\<close>

theorem table_rollback_keeps_mark:
  assumes "table_ok first ps b" and "table_map ps b rid = Some (Dead bytes)"
  shows "\<exists>b'. TableHeap_RollbackDelete rid b = Inr b' \<and> table_map ps b' rid = Some (Dead bytes)"
  using TableHeap_RollbackDelete_correct[OF assms] assms(2) by auto

end
