(* ===== verification/Catalog.thy ===== *)
theory Catalog
  imports Table_Heap Row
begin

text \<open>
  The catalog: tables and views of \<open>include/catalog/catalog.h\<close>. The unordered maps are partial
  maps; \<open>emplace\<close> leaves an existing entry. A table information is returned as a value, \<open>None\<close> is
  the null pointer. The operations on indexes are not part of this model.
\<close>

section \<open>Tables and views\<close>

record TableInfo =
  ti_schema :: Schema
  ti_name :: string
  ti_table :: "int option"
  ti_oid :: nat

record Catalog =
  tables :: "nat \<Rightarrow> TableInfo option"
  table_names :: "string \<Rightarrow> nat option"
  index_names :: "string \<Rightarrow> (string \<Rightarrow> nat option) option"
  view_names :: "string \<Rightarrow> string option"
  next_table_oid :: nat

definition new_Catalog :: Catalog where
  "new_Catalog = \<lparr>tables = Map.empty, table_names = Map.empty, index_names = Map.empty, view_names = Map.empty,
     next_table_oid = 0\<rparr>"

definition emplace :: "'k \<Rightarrow> 'v \<Rightarrow> ('k \<Rightarrow> 'v option) \<Rightarrow> 'k \<Rightarrow> 'v option" where
  "emplace k v m = (case m k of None \<Rightarrow> m(k \<mapsto> v) | Some _ \<Rightarrow> m)"

definition CreateTable :: "string \<Rightarrow> Schema \<Rightarrow> bool \<Rightarrow> Catalog \<Rightarrow> bpm \<Rightarrow> (TableInfo option \<times> Catalog \<times> bpm) result" where
  "CreateTable table_name schema create_table_heap cat b =
     (if table_names cat table_name \<noteq> None then Inr (None, cat, b)
      else bind_r (if create_table_heap then bind_r (TableHeap_create b) (\<lambda>(first_page, b). Inr (Some first_page, b))
                   else Inr (None, b)) (\<lambda>(table, b).
        let table_oid = next_table_oid cat;
            meta = \<lparr>ti_schema = schema, ti_name = table_name, ti_table = table, ti_oid = table_oid\<rparr>;
            cat = cat\<lparr>next_table_oid := (table_oid + 1) mod 2 ^ 32,
                      tables := emplace table_oid meta (tables cat),
                      table_names := emplace table_name table_oid (table_names cat),
                      index_names := emplace table_name Map.empty (index_names cat)\<rparr>
        in Inr (Some meta, cat, b)))"

definition CreateView :: "string \<Rightarrow> string \<Rightarrow> Catalog \<Rightarrow> bool \<times> Catalog" where
  "CreateView view_name query cat =
     (if view_names cat view_name \<noteq> None then (False, cat)
      else (True, cat\<lparr>view_names := emplace view_name query (view_names cat)\<rparr>))"

definition CreateTempTable :: "string \<Rightarrow> Schema \<Rightarrow> Catalog \<Rightarrow> bpm \<Rightarrow> (TableInfo option \<times> Catalog \<times> bpm) result" where
  "CreateTempTable table_name schema cat b = CreateTable (''__temp__'' @ table_name) schema True cat b"

definition GetTable_name :: "string \<Rightarrow> Catalog \<Rightarrow> TableInfo option result" where
  "GetTable_name table_name cat =
     (case table_names cat table_name of
        None \<Rightarrow> Inr None
      | Some table_oid \<Rightarrow> (case tables cat table_oid of None \<Rightarrow> Inl Assertion_failed | Some meta \<Rightarrow> Inr (Some meta)))"

definition GetTable_oid :: "nat \<Rightarrow> Catalog \<Rightarrow> TableInfo option" where
  "GetTable_oid table_oid cat = tables cat table_oid"

definition GetView :: "string \<Rightarrow> Catalog \<Rightarrow> string" where
  "GetView view_name cat = (case view_names cat view_name of None \<Rightarrow> [] | Some query \<Rightarrow> query)"

text \<open>The names in no particular order.\<close>

definition GetTableNames :: "Catalog \<Rightarrow> string set" where
  "GetTableNames cat = dom (table_names cat)"

text \<open>The execution engine's statements that change the catalog (\<open>src/execution/execution_engine.cpp\<close>).\<close>

definition ExecuteCreateView :: "string \<Rightarrow> string \<Rightarrow> Catalog \<Rightarrow> Catalog result" where
  "ExecuteCreateView view query cat =
     (case CreateView view query cat of (ok, cat) \<Rightarrow> if ok then Inr cat else Inl (Throw ExceptionType.INVALID))"

definition ExecuteCreateTempTable :: "string \<Rightarrow> Column list \<Rightarrow> Catalog \<Rightarrow> bpm \<Rightarrow> (Catalog \<times> bpm) result" where
  "ExecuteCreateTempTable table cols cat b =
     bind_r (CreateTempTable table (new_Schema cols) cat b) (\<lambda>(info, cat, b).
     case info of None \<Rightarrow> Inl (Throw ExceptionType.INVALID) | Some _ \<Rightarrow> Inr (cat, b))"

section \<open>The invariant\<close>

text \<open>Names and ids are in one-to-one correspondence, and ids up to the counter are in use.\<close>

definition catalog_inv :: "Catalog \<Rightarrow> bool" where
  "catalog_inv cat \<longleftrightarrow>
     (\<forall>oid info. tables cat oid = Some info \<longrightarrow> ti_oid info = oid \<and> table_names cat (ti_name info) = Some oid) \<and>
     (\<forall>name oid. table_names cat name = Some oid \<longrightarrow> (\<exists>info. tables cat oid = Some info \<and> ti_name info = name)) \<and>
     dom (tables cat) = {..<next_table_oid cat} \<and> dom (index_names cat) = dom (table_names cat)"

lemma new_Catalog_inv: "catalog_inv new_Catalog"
  by (simp add: catalog_inv_def new_Catalog_def)

lemma emplace_new [simp]: "m k = None \<Longrightarrow> emplace k v m = m(k \<mapsto> v)"
  by (simp add: emplace_def)

lemma catalog_lookup:
  assumes "catalog_inv cat"
  shows "GetTable_name name cat = Inr (Option.bind (table_names cat name) (\<lambda>oid. GetTable_oid oid cat))"
proof (cases "table_names cat name")
  case (Some oid)
  then have "\<exists>info. tables cat oid = Some info" using assms unfolding catalog_inv_def by blast
  then show ?thesis using Some by (auto simp: GetTable_name_def GetTable_oid_def)
qed (simp add: GetTable_name_def)

text \<open>Entering a table under a fresh name and the next id.\<close>

lemma catalog_enter:
  fixes schema :: Schema and table :: "int option"
  assumes inv: "catalog_inv cat" and name: "table_names cat name = None" and oid: "next_table_oid cat < 2 ^ 32 - 1"
  defines "meta \<equiv> \<lparr>ti_schema = schema, ti_name = name, ti_table = table, ti_oid = next_table_oid cat\<rparr>"
  defines "cat' \<equiv> cat\<lparr>next_table_oid := (next_table_oid cat + 1) mod 2 ^ 32,
      tables := emplace (next_table_oid cat) meta (tables cat),
      table_names := emplace name (next_table_oid cat) (table_names cat),
      index_names := emplace name Map.empty (index_names cat)\<rparr>"
  shows "catalog_inv cat'" and "tables cat' = (tables cat)(next_table_oid cat \<mapsto> meta)"
    and "table_names cat' = (table_names cat)(name \<mapsto> next_table_oid cat)" and "view_names cat' = view_names cat"
proof -
  have fresh: "tables cat (next_table_oid cat) = None"
    using inv by (force simp: catalog_inv_def dom_def)
  have ix: "index_names cat name = None" using inv name by (force simp: catalog_inv_def dom_def)
  show T: "tables cat' = (tables cat)(next_table_oid cat \<mapsto> meta)"
    and N: "table_names cat' = (table_names cat)(name \<mapsto> next_table_oid cat)" and "view_names cat' = view_names cat"
    using fresh name by (simp_all add: cat'_def)
  have I: "dom (index_names cat') = insert name (dom (index_names cat))" using ix by (simp add: cat'_def)
  have O: "next_table_oid cat' = next_table_oid cat + 1" using oid by (simp add: cat'_def)
  have old: "oid < next_table_oid cat" if "tables cat oid = Some info" for oid info
    using inv that by (auto simp: catalog_inv_def dom_def)
  have "ti_name info \<noteq> name" if "tables cat oid = Some info" for oid info
    using inv that name by (auto simp: catalog_inv_def)
  moreover have "\<exists>info. tables cat oid = Some info \<and> ti_name info = n" "oid < next_table_oid cat"
    if "table_names cat n = Some oid" for n oid
    using inv that old unfolding catalog_inv_def by blast+
  moreover have "ti_oid info = oid \<and> table_names cat (ti_name info) = Some oid" if "tables cat oid = Some info" for oid info
    using inv that by (auto simp: catalog_inv_def)
  moreover have "dom (tables cat') = {..<next_table_oid cat'}"
    using inv unfolding T O by (auto simp: catalog_inv_def)
  moreover have "dom (index_names cat') = dom (table_names cat')"
    using inv unfolding I N by (auto simp: catalog_inv_def)
  moreover have "ti_name meta = name" "ti_oid meta = next_table_oid cat" by (simp_all add: meta_def)
  ultimately show "catalog_inv cat'" using old unfolding catalog_inv_def T N by (fastforce split: if_splits)
qed

section \<open>Properties\<close>

text \<open>
  C32: Creating a table. \<open>CreateTable\<close> returns null and changes nothing when the name is taken;
  otherwise it enters a new table with an empty heap under the next id. Afterwards both lookups
  find it, every other lookup is as before, the catalog is consistent, and every table that
  existed keeps all its rows.
\<close>
theorem create_table_correct:
  assumes inv: "catalog_inv cat" "next_table_oid cat < 2 ^ 32 - 1"
    and pool: "bpm_inv b" "\<forall>q. honest b q" "spare (pins b) (pool_size b)" "next_page_id b \<le> max_page_id"
  shows "if table_names cat name \<noteq> None then CreateTable name schema True cat b = Inr (None, cat, b)
    else \<exists>info cat' b' first. CreateTable name schema True cat b = Inr (Some info, cat', b') \<and> catalog_inv cat' \<and>
      info = \<lparr>ti_schema = schema, ti_name = name, ti_table = Some first, ti_oid = next_table_oid cat\<rparr> \<and>
      (\<forall>n. GetTable_name n cat' = (if n = name then Inr (Some info) else GetTable_name n cat)) \<and>
      (\<forall>oid. GetTable_oid oid cat' = (if oid = ti_oid info then Some info else GetTable_oid oid cat)) \<and>
      table_ok first [first] b' \<and> table_map [first] b' = Map.empty \<and> same_pins b' b \<and>
      (\<forall>f ps. table_ok f ps b \<longrightarrow> table_ok f ps b' \<and> table_map ps b' = table_map ps b)"
proof (cases "table_names cat name")
  case None
  let ?first = "next_page_id b"
  from TableHeap_create_correct[OF pool] obtain b' where b': "TableHeap_create b = Inr (?first, b')"
    "table_ok ?first [?first] b'" "same_pins b' b" "table_map [?first] b' = Map.empty" "next_page_id b' = ?first + 1"
    "same_outside [?first] b' b" by blast
  let ?info = "\<lparr>ti_schema = schema, ti_name = name, ti_table = Some ?first, ti_oid = next_table_oid cat\<rparr>"
  define cat' where "cat' = cat\<lparr>next_table_oid := (next_table_oid cat + 1) mod 2 ^ 32,
      tables := emplace (next_table_oid cat) ?info (tables cat),
      table_names := emplace name (next_table_oid cat) (table_names cat),
      index_names := emplace name Map.empty (index_names cat)\<rparr>"
  note C = catalog_enter[OF inv(1) None inv(2), of schema "Some ?first", folded cat'_def]
  have "CreateTable name schema True cat b = Inr (Some ?info, cat', b')"
    using None b'(1) by (simp add: CreateTable_def Let_def cat'_def)
  moreover have "GetTable_name n cat' = (if n = name then Inr (Some ?info) else GetTable_name n cat)" for n
  proof (cases "n = name")
    case False
    then have "table_names cat n \<noteq> Some (next_table_oid cat)"
      using inv(1) by (force simp: catalog_inv_def dom_def)
    with False show ?thesis
      by (cases "table_names cat n") (auto simp: catalog_lookup[OF C(1)] catalog_lookup[OF inv(1)] GetTable_oid_def C)
  qed (simp add: catalog_lookup[OF C(1)] GetTable_oid_def C)
  moreover have "table_ok f ps b' \<and> table_map ps b' = table_map ps b" if t: "table_ok f ps b" for f ps
  proof (rule table_ok_transfer[OF t])
    show "\<forall>q\<in>set ps. content b' q = content b q"
      using t b'(6) by (auto simp: table_ok_def heap_view_def heap_page_def same_outside_def)
  qed (use b'(2,5) in \<open>auto simp: table_ok_def\<close>)
  ultimately show ?thesis
    using None C(1) b'(2-4)
    by (auto simp: GetTable_oid_def C(2) intro!: exI[of _ cat'] exI[of _ b'] exI[of _ ?first])
qed (simp add: CreateTable_def)

theorem create_table_correct_witness:
  "\<exists>info cat b first. CreateTable ''t'' (new_Schema demo_columns) True new_Catalog two_frame_pool = Inr (Some info, cat, b) \<and>
    catalog_inv cat \<and> GetTable_name ''t'' cat = Inr (Some info) \<and> ti_table info = Some first \<and>
    table_map [first] b = Map.empty"
  using create_table_correct[OF new_Catalog_inv _ two_frame_pool_facts(1-3), of "''t''" "new_Schema demo_columns"]
  by (auto simp: two_frame_pool_facts(4) max_page_id_def new_Catalog_def)

end
