(* ===== verification/Planner.thy ===== *)
theory Planner
  imports Plans Catalog Value_Cast
begin

text \<open>
  The planner (\<open>src/planner/\<close>, \<open>include/planner/planner.h\<close>) and the bound statements it reads
  (\<open>include/binder/\<close>). Planning rewrites the aggregate calls of a statement in place, so the
  functions that do return the changed statement. Plan nodes of mock tables come from the
  parameter \<open>mock\<close>.
\<close>

section \<open>Bound expressions\<close>

datatype 'd bound_expr =
    InvalidExpr
  | BoundConstant "'d Value"
  | BoundColumnRef "string list"
  | BoundAggCall string bool "'d bound_expr list"
  | BoundStar
  | BoundUnaryOp string "'d bound_expr"
  | BoundBinaryOp string "'d bound_expr" "'d bound_expr"
  | BoundAlias string "'d bound_expr"

primrec HasAggregation :: "'d bound_expr \<Rightarrow> bool result" where
  "HasAggregation InvalidExpr = Inl Std_logic_error"
| "HasAggregation (BoundConstant v) = Inr False"
| "HasAggregation (BoundColumnRef col_name) = Inr False"
| "HasAggregation (BoundAggCall func_name is_distinct args) = Inr True"
| "HasAggregation BoundStar = Inl (Throw ExceptionType.INVALID)"
| "HasAggregation (BoundUnaryOp op_name arg) = HasAggregation arg"
| "HasAggregation (BoundBinaryOp op_name larg rarg) =
     bind_r (HasAggregation larg) (\<lambda>b. if b then Inr True else HasAggregation rarg)"
| "HasAggregation (BoundAlias alias child) = HasAggregation child"

text \<open>\<open>fmt::join(names, ".")\<close>\<close>

fun join_names :: "string list \<Rightarrow> string" where
  "join_names [] = []"
| "join_names [n] = n"
| "join_names (n # ns) = n @ ''.'' @ join_names ns"

section \<open>Bound tables and statements\<close>

datatype 'd table_ref =
    InvalidTableRef
  | EmptyTableRef
  | BaseTableRef string nat "string option" Schema
  | JoinRef JoinType "'d table_ref" "'d table_ref" "'d bound_expr"
  | CrossProductRef "'d table_ref" "'d table_ref"
  | ExpressionListRef "'d bound_expr list list" string
  | SubqueryRef "'d select" "string list list" string
  | CTERef string string
and 'd select =
  SelectStatement (table_of_select: "'d table_ref") (select_list: "'d bound_expr list")
    (where_clause: "'d bound_expr") (group_by: "'d bound_expr list") (having: "'d bound_expr")
    (limit_count: "'d bound_expr") (limit_offset: "'d bound_expr")
    (sort_clause: "(OrderByType \<times> 'd bound_expr) list")
    (ctes: "('d select \<times> string list list \<times> string) list") (is_distinct: bool)

type_synonym 'd cte = "'d select \<times> string list list \<times> string"

definition GetBoundTableName :: "string \<Rightarrow> string option \<Rightarrow> string" where
  "GetBoundTableName table alias = (case alias of Some a \<Rightarrow> a | None \<Rightarrow> table)"

datatype 'd statement =
    UseStatement string
  | Select "'d select"
  | InsertStatement string nat "string option" Schema "'d select"
  | DeleteStatement string nat "string option" Schema "'d bound_expr"
  | UpdateStatement string nat "string option" Schema "'d bound_expr" "(string list \<times> 'd bound_expr) list"
  | CreateViewStatement string string
  | CreateTempTableStatement string "Column list"
  | OtherStatement

section \<open>The context\<close>

text \<open>\<open>PlannerContext\<close> without the list of CTEs, which is part of the planner's state below.\<close>

record 'd PlannerContext =
  allow_aggregation :: bool
  next_aggregation :: nat
  aggregations :: "'d bound_expr list"
  expr_in_agg :: "'d expr list"

definition new_context :: "'d PlannerContext" where
  "new_context = \<lparr>allow_aggregation = False, next_aggregation = 0, aggregations = [], expr_in_agg = []\<rparr>"

definition AddAggregation :: "'d bound_expr \<Rightarrow> 'd PlannerContext \<Rightarrow> 'd PlannerContext result" where
  "AddAggregation e ctx =
     (if \<not> allow_aggregation ctx then Inl (Throw ExceptionType.INVALID)
      else Inr (ctx\<lparr>aggregations := aggregations ctx @ [e]\<rparr>))"

definition UNNAMED_COLUMN :: string where
  "UNNAMED_COLUMN = ''<unnamed>''"

section \<open>Expressions\<close>

definition GetBinaryExpressionFromFactory :: "string \<Rightarrow> 'd expr \<Rightarrow> 'd expr \<Rightarrow> 'd expr result" where
  "GetBinaryExpressionFromFactory op_name left right =
     (if op_name = ''='' \<or> op_name = ''=='' then Inr (Comparison left right Equal)
      else if op_name = ''!='' \<or> op_name = ''<>'' then Inr (Comparison left right NotEqual)
      else if op_name = ''<'' then Inr (Comparison left right LessThan)
      else if op_name = ''<='' then Inr (Comparison left right LessThanOrEqual)
      else if op_name = ''>'' then Inr (Comparison left right GreaterThan)
      else if op_name = ''>='' then Inr (Comparison left right GreaterThanOrEqual)
      else if op_name = ''LIKE'' then Inr (Like left right)
      else if op_name = ''+'' then ArithmeticExpression left right Plus
      else if op_name = ''-'' then ArithmeticExpression left right Minus
      else if op_name = ''and'' then LogicExpression left right And
      else if op_name = ''or'' then LogicExpression left right Or
      else Inl (Throw ExceptionType.INVALID))"

definition PlanBinaryOp :: "string \<Rightarrow> 'd expr \<Rightarrow> 'd expr \<Rightarrow> 'd expr result" where
  "PlanBinaryOp op_name left right =
     (if op_name = ''LIKE'' then Inr (Like left right) else GetBinaryExpressionFromFactory op_name left right)"

text \<open>The loop over the columns that throws at the second column of the name.\<close>

fun check_duplicate :: "string \<Rightarrow> bool \<Rightarrow> Column list \<Rightarrow> unit result" where
  "check_duplicate col_name found [] = Inr ()"
| "check_duplicate col_name found (col # cols) =
     (if col_name = column_name col
      then if found then Inl (Throw ExceptionType.INVALID) else check_duplicate col_name True cols
      else check_duplicate col_name found cols)"

definition column_ref :: "nat \<Rightarrow> nat \<Rightarrow> Schema \<Rightarrow> 'd expr" where
  "column_ref tuple_idx col_idx schema = ColumnValue tuple_idx col_idx (column_type (columns schema ! col_idx))"

definition PlanColumnRef :: "string list \<Rightarrow> 'd plan list \<Rightarrow> (string \<times> 'd expr) result" where
  "PlanColumnRef name_parts children =
     (let col_name = join_names name_parts in case children of
        [] \<Rightarrow> Inl (Throw ExceptionType.INVALID)
      | [child] \<Rightarrow>
          let schema = OutputSchema child
          in bind_r (check_duplicate col_name False (columns schema)) (\<lambda>_.
             bind_r (GetColIdx col_name schema) (\<lambda>col_idx. Inr (col_name, column_ref 0 col_idx schema)))
      | [left, right] \<Rightarrow>
          let left_schema = OutputSchema left; right_schema = OutputSchema right
          in (case (TryGetColIdx col_name left_schema, TryGetColIdx col_name right_schema) of
                (Some _, Some _) \<Rightarrow> Inl (Throw ExceptionType.INVALID)
              | (Some i, None) \<Rightarrow> Inr (col_name, column_ref 0 i left_schema)
              | (None, Some i) \<Rightarrow> Inr (col_name, column_ref 1 i right_schema)
              | (None, None) \<Rightarrow> Inl (Throw ExceptionType.INVALID))
      | _ \<Rightarrow> Inl Std_logic_error)"

text \<open>The planned aggregate calls are consumed in order.\<close>

primrec PlanExpression ::
  "'d plan list \<Rightarrow> 'd bound_expr \<Rightarrow> 'd PlannerContext \<Rightarrow> (string \<times> 'd expr \<times> 'd PlannerContext) result" where
  "PlanExpression children InvalidExpr ctx = Inl (Throw ExceptionType.INVALID)"
| "PlanExpression children (BoundConstant v) ctx = Inr (UNNAMED_COLUMN, Constant v, ctx)"
| "PlanExpression children (BoundColumnRef col_name) ctx =
     bind_r (PlanColumnRef col_name children) (\<lambda>(name, e). Inr (name, e, ctx))"
| "PlanExpression children (BoundAggCall func_name dist args) ctx =
     (if next_aggregation ctx \<ge> length (expr_in_agg ctx) then Inl (Throw ExceptionType.INVALID)
      else Inr (UNNAMED_COLUMN, expr_in_agg ctx ! next_aggregation ctx,
                ctx\<lparr>next_aggregation := next_aggregation ctx + 1\<rparr>))"
| "PlanExpression children BoundStar ctx = Inl (Throw ExceptionType.INVALID)"
| "PlanExpression children (BoundUnaryOp op_name arg) ctx = Inl (Throw ExceptionType.INVALID)"
| "PlanExpression children (BoundBinaryOp op_name larg rarg) ctx =
     bind_r (PlanExpression children larg ctx) (\<lambda>(_, left, ctx).
     bind_r (PlanExpression children rarg ctx) (\<lambda>(_, right, ctx).
     bind_r (PlanBinaryOp op_name left right) (\<lambda>e. Inr (UNNAMED_COLUMN, e, ctx))))"
| "PlanExpression children (BoundAlias alias child) ctx =
     bind_r (PlanExpression children child ctx) (\<lambda>(_, e, ctx). Inr (alias, e, ctx))"

fun PlanExpressions ::
  "'d plan list \<Rightarrow> 'd bound_expr list \<Rightarrow> 'd PlannerContext \<Rightarrow> ((string \<times> 'd expr) list \<times> 'd PlannerContext) result" where
  "PlanExpressions children [] ctx = Inr ([], ctx)"
| "PlanExpressions children (e # es) ctx =
     bind_r (PlanExpression children e ctx) (\<lambda>(name, e, ctx).
     bind_r (PlanExpressions children es ctx) (\<lambda>(items, ctx). Inr ((name, e) # items, ctx)))"

section \<open>Aggregations\<close>

text \<open>Replaces the calls of an expression and collects them.\<close>

primrec AddAggCallToContext :: "'d bound_expr \<Rightarrow> 'd PlannerContext \<Rightarrow> ('d bound_expr \<times> 'd PlannerContext) result" where
  "AddAggCallToContext InvalidExpr ctx = Inl (Throw ExceptionType.INVALID)"
| "AddAggCallToContext (BoundConstant v) ctx = Inr (BoundConstant v, ctx)"
| "AddAggCallToContext (BoundColumnRef col_name) ctx = Inr (BoundColumnRef col_name, ctx)"
| "AddAggCallToContext (BoundAggCall func_name dist args) ctx =
     (let agg_name = ''__pseudo_agg#'' @ to_string_int (int (length (aggregations ctx)))
      in bind_r (AddAggregation (BoundAggCall func_name dist args) ctx) (\<lambda>ctx.
         Inr (BoundAggCall agg_name dist [], ctx)))"
| "AddAggCallToContext BoundStar ctx = Inl (Throw ExceptionType.INVALID)"
| "AddAggCallToContext (BoundUnaryOp op_name arg) ctx = Inl (Throw ExceptionType.INVALID)"
| "AddAggCallToContext (BoundBinaryOp op_name larg rarg) ctx =
     bind_r (AddAggCallToContext larg ctx) (\<lambda>(larg, ctx).
     bind_r (AddAggCallToContext rarg ctx) (\<lambda>(rarg, ctx). Inr (BoundBinaryOp op_name larg rarg, ctx)))"
| "AddAggCallToContext (BoundAlias alias child) ctx =
     bind_r (AddAggCallToContext child ctx) (\<lambda>(child, ctx). Inr (BoundAlias alias child, ctx))"

fun AddAggCallsToContext :: "'d bound_expr list \<Rightarrow> 'd PlannerContext \<Rightarrow> ('d bound_expr list \<times> 'd PlannerContext) result" where
  "AddAggCallsToContext [] ctx = Inr ([], ctx)"
| "AddAggCallsToContext (e # es) ctx =
     bind_r (AddAggCallToContext e ctx) (\<lambda>(e, ctx).
     bind_r (AddAggCallsToContext es ctx) (\<lambda>(es, ctx). Inr (e # es, ctx)))"

definition GetAggCallFromFactory :: "string \<Rightarrow> 'd expr list \<Rightarrow> (AggregationType \<times> 'd expr list) result" where
  "GetAggCallFromFactory func_name args =
     (if args = [] \<and> func_name = ''count_star'' then Inr (CountStarAggregate, [])
      else if length args = 1 \<and> func_name = ''min'' then Inr (MinAggregate, args)
      else if length args = 1 \<and> func_name = ''max'' then Inr (MaxAggregate, args)
      else if length args = 1 \<and> func_name = ''sum'' then Inr (SumAggregate, args)
      else if length args = 1 \<and> func_name = ''count'' then Inr (CountAggregate, args)
      else Inl (Throw ExceptionType.INVALID))"

definition PlanAggCall :: "string \<Rightarrow> bool \<Rightarrow> 'd bound_expr list \<Rightarrow> 'd plan list \<Rightarrow> (AggregationType \<times> 'd expr list) result" where
  "PlanAggCall func_name dist args children =
     (if dist then Inl (Throw NOT_IMPLEMENTED)
      else bind_r (PlanExpressions children args new_context) (\<lambda>(items, _).
           GetAggCallFromFactory func_name (map snd items)))"

text \<open>One round of the first phase: the type and the input of an aggregate.\<close>

definition PlanAggItem :: "'d plan \<Rightarrow> 'd bound_expr \<Rightarrow> (AggregationType \<times> 'd expr) result" where
  "PlanAggItem child item = (case item of
     BoundAggCall func_name dist args \<Rightarrow>
       bind_r (PlanAggCall func_name dist args [child]) (\<lambda>(agg_type, exprs).
       if length exprs > 1 then Inl (Throw NOT_IMPLEMENTED)
       else bind_r (if exprs = [] then bind_r (GetIntegerValue 1) (\<lambda>v. Inr (Constant v)) else Inr (exprs ! 0)) (\<lambda>e.
            Inr (agg_type, e)))
   | _ \<Rightarrow> Inl (Throw NOT_IMPLEMENTED))"

definition agg_name :: "nat \<Rightarrow> string" where
  "agg_name term_idx = ''agg#'' @ to_string_int (int term_idx)"

text \<open>The projection of \<open>names\<close> and expressions over a child.\<close>

definition named_projection :: "(string \<times> 'd expr) list \<Rightarrow> 'd plan \<Rightarrow> 'd plan result" where
  "named_projection items child =
     bind_r (InferProjectionSchema (map snd items)) (\<lambda>schema.
     bind_r (RenameSchema schema (map fst items)) (\<lambda>schema.
     Inr (ProjectionPlan schema (map snd items) child)))"

text \<open>The plan, and the rewritten HAVING clause and select list.\<close>

definition PlanSelectAgg ::
  "'d bound_expr list \<Rightarrow> 'd bound_expr \<Rightarrow> 'd bound_expr list \<Rightarrow> 'd plan \<Rightarrow> ('d plan \<times> 'd bound_expr \<times> 'd bound_expr list) result" where
  "PlanSelectAgg groups cond items child =
     (let ctx = new_context\<lparr>allow_aggregation := True\<rparr> in
      bind_r (PlanExpressions [child] groups ctx) (\<lambda>(keys, ctx).
      bind_r (if cond = InvalidExpr then Inr (cond, ctx) else AddAggCallToContext cond ctx) (\<lambda>(cond, ctx).
      bind_r (AddAggCallsToContext items ctx) (\<lambda>(items, ctx).
      bind_r (map_r (PlanAggItem child) (aggregations ctx)) (\<lambda>aggs.
      let group_by_exprs = map snd keys; agg_types = map fst aggs; input_exprs = map snd aggs;
          terms = [0..<length aggs];
          output_col_names = map fst keys @ map agg_name terms;
          ctx = ctx\<lparr>expr_in_agg := expr_in_agg ctx @ map (\<lambda>i. ColumnValue 0 (length keys + i) INTEGER) terms\<rparr>
      in bind_r (InferAggSchema group_by_exprs input_exprs agg_types) (\<lambda>agg_output_schema.
      bind_r (RenameSchema agg_output_schema output_col_names) (\<lambda>schema.
      let plan = AggregationPlan schema child group_by_exprs input_exprs agg_types
      in bind_r (if cond = InvalidExpr then Inr (plan, ctx)
                 else bind_r (PlanExpression [plan] cond ctx) (\<lambda>(_, e, ctx).
                      Inr (FilterPlan (OutputSchema plan) e plan, ctx))) (\<lambda>(plan, ctx).
      bind_r (PlanExpressions [plan] items ctx) (\<lambda>(exprs, ctx).
      bind_r (named_projection exprs plan) (\<lambda>plan. Inr (plan, cond, items)))))))))))"

section \<open>Clauses of a SELECT\<close>

text \<open>\<open>universal_id_\<close> numbers the unnamed items.\<close>

definition name_item :: "string \<times> 'd expr \<Rightarrow> nat \<Rightarrow> (string \<times> 'd expr) \<times> nat" where
  "name_item item uid =
     (if fst item = UNNAMED_COLUMN
      then ((''__unnamed#'' @ to_string_int (int uid), snd item), (uid + 1) mod 2 ^ 64) else (item, uid))"

fun name_items :: "(string \<times> 'd expr) list \<Rightarrow> nat \<Rightarrow> (string \<times> 'd expr) list \<times> nat" where
  "name_items [] uid = ([], uid)"
| "name_items (item # items) uid =
     (let (item, uid) = name_item item uid; (items, uid) = name_items items uid in (item # items, uid))"

definition plan_where :: "'d bound_expr \<Rightarrow> 'd plan \<Rightarrow> 'd plan result" where
  "plan_where cond plan =
     (if cond = InvalidExpr then Inr plan
      else bind_r (PlanExpression [plan] cond new_context) (\<lambda>(_, e, _). Inr (FilterPlan (OutputSchema plan) e plan)))"

fun any_aggregation :: "'d bound_expr list \<Rightarrow> bool result" where
  "any_aggregation [] = Inr False"
| "any_aggregation (item # items) = bind_r (HasAggregation item) (\<lambda>b. if b then Inr True else any_aggregation items)"

definition plan_items :: "'d bound_expr list \<Rightarrow> 'd plan \<Rightarrow> nat \<Rightarrow> ('d plan \<times> nat) result" where
  "plan_items items plan uid =
     bind_r (PlanExpressions [plan] items new_context) (\<lambda>(exprs, _).
     let (exprs, uid) = name_items exprs uid
     in bind_r (named_projection exprs plan) (\<lambda>plan. Inr (plan, uid)))"

definition plan_distinct :: "bool \<Rightarrow> 'd plan \<Rightarrow> 'd plan" where
  "plan_distinct dist plan =
     (if dist
      then AggregationPlan (OutputSchema plan) plan
             (map (\<lambda>i. column_ref 0 i (OutputSchema plan)) [0..<length (columns (OutputSchema plan))]) [] []
      else plan)"

definition plan_order_by :: "(OrderByType \<times> 'd bound_expr) list \<Rightarrow> 'd plan \<Rightarrow> 'd plan result" where
  "plan_order_by obs plan =
     (if obs = [] then Inr plan
      else bind_r (PlanExpressions [plan] (map snd obs) new_context) (\<lambda>(items, _).
           Inr (SortPlan (OutputSchema plan) plan (zip (map fst obs) (map snd items)))))"

text \<open>The \<open>size_t\<close> of LIMIT or OFFSET: \<open>CastAs\<close> may throw, its result is not used.\<close>

definition constant_count :: "'d float_ops \<Rightarrow> 'd bound_expr \<Rightarrow> nat result" where
  "constant_count F e = (case e of
     BoundConstant v \<Rightarrow>
       bind_r (Value_CastAs F v INTEGER) (\<lambda>_.
       if vtype v = INTEGER then Inr (nat (as_int v mod 2 ^ 64)) else Inl (Throw NOT_IMPLEMENTED))
   | _ \<Rightarrow> Inl (Throw NOT_IMPLEMENTED))"

definition optional_count :: "'d float_ops \<Rightarrow> 'd bound_expr \<Rightarrow> nat option result" where
  "optional_count F e = (if e = InvalidExpr then Inr None else bind_r (constant_count F e) (\<lambda>n. Inr (Some n)))"

definition plan_limit :: "'d float_ops \<Rightarrow> 'd bound_expr \<Rightarrow> 'd bound_expr \<Rightarrow> 'd plan \<Rightarrow> 'd plan result" where
  "plan_limit F count offset plan =
     (if count = InvalidExpr \<and> offset = InvalidExpr then Inr plan
      else bind_r (optional_count F count) (\<lambda>limit.
           bind_r (optional_count F offset) (\<lambda>offset.
           if offset \<noteq> None then Inl (Throw NOT_IMPLEMENTED)
           else case limit of None \<Rightarrow> Inl Undefined_behaviour
             | Some n \<Rightarrow> Inr (LimitPlan (OutputSchema plan) plan n))))"

text \<open>Everything after the FROM clause; gives the plan, the rewritten clauses and the counter.\<close>

definition plan_clauses ::
  "'d float_ops \<Rightarrow> 'd select \<Rightarrow> 'd plan \<Rightarrow> nat \<Rightarrow> ('d plan \<times> 'd bound_expr \<times> 'd bound_expr list \<times> nat) result" where
  "plan_clauses F s plan uid =
     bind_r (plan_where (where_clause s) plan) (\<lambda>plan.
     bind_r (any_aggregation (select_list s)) (\<lambda>has_agg.
     bind_r (if having s \<noteq> InvalidExpr \<or> group_by s \<noteq> [] \<or> has_agg
             then bind_r (PlanSelectAgg (group_by s) (having s) (select_list s) plan) (\<lambda>(plan, cond, items).
                  Inr (plan, cond, items, uid))
             else bind_r (plan_items (select_list s) plan uid) (\<lambda>(plan, uid).
                  Inr (plan, having s, select_list s, uid))) (\<lambda>(plan, cond, items, uid).
     bind_r (plan_order_by (sort_clause s) (plan_distinct (is_distinct s) plan)) (\<lambda>plan.
     bind_r (plan_limit F (limit_count s) (limit_offset s) plan) (\<lambda>plan.
     Inr (plan, cond, items, uid))))))"

section \<open>Tables\<close>

text \<open>\<open>StringUtil::StartsWith\<close> gives \<open>std::equal\<close> no end of the string: a shorter string is read past its end.\<close>

fun StartsWith :: "string \<Rightarrow> string \<Rightarrow> bool result" where
  "StartsWith str [] = Inr True"
| "StartsWith [] (c # prefix) = Inl Undefined_behaviour"
| "StartsWith (d # str) (c # prefix) = (if c = d then StartsWith str prefix else Inr False)"

type_synonym 'd mock = "Schema \<Rightarrow> string \<Rightarrow> 'd plan"

definition PlanBaseTableRef :: "'d mock \<Rightarrow> Catalog \<Rightarrow> string \<Rightarrow> string option \<Rightarrow> Schema \<Rightarrow> 'd plan result" where
  "PlanBaseTableRef mock cat table alias schema =
     bind_r (GetTable_name table cat) (\<lambda>info. case info of
       None \<Rightarrow> Inl Assertion_failed
     | Some info \<Rightarrow>
         bind_r (StartsWith (ti_name info) ''__'') (\<lambda>internal.
         let out = InferScanSchema (GetBoundTableName table alias) schema
         in if internal
            then bind_r (StartsWith (ti_name info) ''__mock'') (\<lambda>is_mock.
                 if is_mock then Inr (mock out (ti_name info)) else Inl (Throw ExceptionType.INVALID))
            else Inr (SeqScanPlan out (ti_oid info) (ti_name info) None)))"

fun plan_values :: "'d bound_expr list list \<Rightarrow> 'd expr list list result" where
  "plan_values [] = Inr []"
| "plan_values (row # values) =
     bind_r (PlanExpressions [] row new_context) (\<lambda>(items, _).
     bind_r (plan_values values) (\<lambda>rest. Inr (map snd items # rest)))"

definition value_column :: "string \<Rightarrow> nat \<Rightarrow> 'd expr \<Rightarrow> Column result" where
  "value_column identifier idx e =
     (let col_name = identifier @ ''.'' @ to_string_int (int idx)
      in if GetReturnType e \<noteq> VARCHAR then new_Column col_name (GetReturnType e)
         else new_varlen_Column col_name (GetReturnType e) VARCHAR_DEFAULT_LENGTH)"

definition PlanExpressionListRef :: "'d bound_expr list list \<Rightarrow> string \<Rightarrow> 'd plan result" where
  "PlanExpressionListRef values identifier =
     bind_r (plan_values values) (\<lambda>all_exprs. case all_exprs of
       [] \<Rightarrow> Inl Undefined_behaviour
     | first_row # _ \<Rightarrow>
         bind_r (map_r (\<lambda>(idx, e). value_column identifier idx e) (enumerate 0 first_row)) (\<lambda>cols.
         Inr (ValuesPlan (new_Schema cols) all_exprs)))"

definition PlanCrossProductRef :: "'d plan \<Rightarrow> 'd plan \<Rightarrow> 'd plan result" where
  "PlanCrossProductRef left right =
     bind_r (GetBooleanValue_bool True) (\<lambda>v.
     Inr (NestedLoopJoinPlan (InferJoinSchema left right) left right (Constant v) INNER))"

definition PlanJoinRef :: "JoinType \<Rightarrow> 'd bound_expr \<Rightarrow> 'd plan \<Rightarrow> 'd plan \<Rightarrow> 'd plan result" where
  "PlanJoinRef join_type cond left right =
     bind_r (PlanExpression [left, right] cond new_context) (\<lambda>(_, join_condition, _).
     Inr (NestedLoopJoinPlan (InferJoinSchema left right) left right join_condition join_type))"

text \<open>The projection that renames the columns of a subquery.\<close>

definition rename_subquery :: "string list list \<Rightarrow> string \<Rightarrow> 'd plan \<Rightarrow> 'd plan result" where
  "rename_subquery names alias plan =
     (let schema = OutputSchema plan; count = length (columns schema)
      in bind_r (guard_r (count \<le> length names) Undefined_behaviour) (\<lambda>_.
         named_projection (map (\<lambda>i. (alias @ ''.'' @ join_names (names ! i), column_ref 0 i schema)) [0..<count]) plan))"

text \<open>The planner's own state: the CTEs in scope, null or the list of a statement, and the counter.\<close>

record 'd planner =
  cte_list :: "'d cte list option"
  universal_id :: nat

definition new_Planner :: "'d planner" where
  "new_Planner = \<lparr>cte_list = None, universal_id = 0\<rparr>"

text \<open>
  \<open>PlanSelect\<close> over the function that plans tables. The guard of the context restores the list of
  CTEs in scope, in which planning may have rewritten aggregate calls.
\<close>

definition PlanSelect_with ::
  "('d table_ref \<Rightarrow> 'd planner \<Rightarrow> ('d plan \<times> 'd table_ref \<times> 'd planner) result option) \<Rightarrow> 'd float_ops \<Rightarrow>
   'd select \<Rightarrow> 'd planner \<Rightarrow> ('d plan \<times> 'd select \<times> 'd planner) result option" where
  "PlanSelect_with plan_table F s st =
     (let own = ctes s \<noteq> []; inner = (if own then st\<lparr>cte_list := Some (ctes s)\<rparr> else st)
      in bind_ro (if table_of_select s = EmptyTableRef
                  then Some (Inr (ValuesPlan (new_Schema []) [[]], EmptyTableRef, inner))
                  else plan_table (table_of_select s) inner) (\<lambda>(plan, table, inner).
         Some (bind_r (plan_clauses F s plan (universal_id inner)) (\<lambda>(plan, cond, items, uid).
         Inr (plan,
              SelectStatement table items (where_clause s) (group_by s) cond (limit_count s) (limit_offset s)
                (sort_clause s) (if own then the (cte_list inner) else ctes s) (is_distinct s),
              \<lparr>cte_list = (if own then cte_list st else cte_list inner), universal_id = uid\<rparr>)))))"

lemma PlanSelect_with_mono [partial_function_mono]:
  assumes "\<And>tr st. mono_option (\<lambda>f. P f tr st)"
  shows "mono_option (\<lambda>f. PlanSelect_with (P f) F s st)"
  unfolding PlanSelect_with_def Let_def
  by (intro bind_ro_mono if_mono option.const_mono assms)

definition find_cte :: "string \<Rightarrow> 'd cte list \<Rightarrow> nat option" where
  "find_cte name list = List.find (\<lambda>i. snd (snd (list ! i)) = name) [0..<length list]"

text \<open>Planning of tables can run forever, through a CTE that refers to itself.\<close>

partial_function (option) PlanTableRef ::
  "'d float_ops \<Rightarrow> 'd mock \<Rightarrow> Catalog \<Rightarrow> 'd table_ref \<Rightarrow> 'd planner \<Rightarrow> ('d plan \<times> 'd table_ref \<times> 'd planner) result option" where
  "PlanTableRef F mock cat tr st = (case tr of
     InvalidTableRef \<Rightarrow> Some (Inl (Throw ExceptionType.INVALID))
   | EmptyTableRef \<Rightarrow> Some (Inl (Throw ExceptionType.INVALID))
   | BaseTableRef table oid alias schema \<Rightarrow>
       Some (bind_r (PlanBaseTableRef mock cat table alias schema) (\<lambda>plan. Inr (plan, tr, st)))
   | CrossProductRef left right \<Rightarrow>
       bind_ro (PlanTableRef F mock cat left st) (\<lambda>(left_plan, left, st).
       bind_ro (PlanTableRef F mock cat right st) (\<lambda>(right_plan, right, st).
       Some (bind_r (PlanCrossProductRef left_plan right_plan) (\<lambda>plan. Inr (plan, CrossProductRef left right, st)))))
   | JoinRef join_type left right cond \<Rightarrow>
       bind_ro (PlanTableRef F mock cat left st) (\<lambda>(left_plan, left, st).
       bind_ro (PlanTableRef F mock cat right st) (\<lambda>(right_plan, right, st).
       Some (bind_r (PlanJoinRef join_type cond left_plan right_plan) (\<lambda>plan. Inr (plan, JoinRef join_type left right cond, st)))))
   | ExpressionListRef values identifier \<Rightarrow>
       Some (bind_r (PlanExpressionListRef values identifier) (\<lambda>plan. Inr (plan, tr, st)))
   | SubqueryRef s names alias \<Rightarrow>
       bind_ro (PlanSelect_with (PlanTableRef F mock cat) F s st) (\<lambda>(plan, s, st).
       Some (bind_r (rename_subquery names alias plan) (\<lambda>plan. Inr (plan, SubqueryRef s names alias, st))))
   | CTERef cte_name alias \<Rightarrow> (case cte_list st of
       None \<Rightarrow> Some (Inl Undefined_behaviour)
     | Some list \<Rightarrow> (case find_cte cte_name list of
         None \<Rightarrow> Some (Inl Std_logic_error)
       | Some i \<Rightarrow>
           bind_ro (PlanSelect_with (PlanTableRef F mock cat) F (fst (list ! i)) st) (\<lambda>(plan, s, st).
           Some (bind_r (rename_subquery (fst (snd (list ! i))) alias plan) (\<lambda>plan.
           Inr (plan, tr, st\<lparr>cte_list := map_option (\<lambda>l. l[i := (s, snd (list ! i))]) (cte_list st)\<rparr>)))))))"

lemmas plan_table_simps =
  PlanTableRef.simps[where tr = InvalidTableRef, simplified]
  PlanTableRef.simps[where tr = EmptyTableRef, simplified]
  PlanTableRef.simps[where tr = "BaseTableRef table oid a schema" for table oid a schema, simplified]
  PlanTableRef.simps[where tr = "CrossProductRef left right" for left right, simplified]
  PlanTableRef.simps[where tr = "JoinRef join_type left right cond" for join_type left right cond, simplified]
  PlanTableRef.simps[where tr = "ExpressionListRef vs i" for vs i, simplified]
  PlanTableRef.simps[where tr = "SubqueryRef s names a" for s names a, simplified]
  PlanTableRef.simps[where tr = "CTERef cte_name a" for cte_name a, simplified]

definition PlanSelect ::
  "'d float_ops \<Rightarrow> 'd mock \<Rightarrow> Catalog \<Rightarrow> 'd select \<Rightarrow> 'd planner \<Rightarrow> ('d plan \<times> 'd select \<times> 'd planner) result option" where
  "PlanSelect F mock cat = PlanSelect_with (PlanTableRef F mock cat) F"

text \<open>\<open>PlanSubquery\<close>\<close>

definition PlanSubquery ::
  "'d float_ops \<Rightarrow> 'd mock \<Rightarrow> Catalog \<Rightarrow> 'd select \<Rightarrow> string list list \<Rightarrow> string \<Rightarrow> 'd planner \<Rightarrow>
   ('d plan \<times> 'd select \<times> 'd planner) result option" where
  "PlanSubquery F mock cat s names alias st =
     bind_ro (PlanSelect F mock cat s st) (\<lambda>(plan, s, st).
     Some (bind_r (rename_subquery names alias plan) (\<lambda>plan. Inr (plan, s, st))))"

section \<open>Modifications\<close>

definition rows_schema :: "string \<Rightarrow> Schema result" where
  "rows_schema name = bind_r (new_Column name INTEGER) (\<lambda>c. Inr (new_Schema [c]))"

definition PlanInsert ::
  "'d float_ops \<Rightarrow> 'd mock \<Rightarrow> Catalog \<Rightarrow> nat \<Rightarrow> Schema \<Rightarrow> 'd select \<Rightarrow> 'd planner \<Rightarrow> ('d plan \<times> 'd planner) result option" where
  "PlanInsert F mock cat oid schema s st =
     bind_ro (PlanSelect F mock cat s st) (\<lambda>(plan, _, st).
     Some (if map column_type (columns schema) \<noteq> map column_type (columns (OutputSchema plan))
           then Inl (Throw ExceptionType.INVALID)
           else bind_r (rows_schema ''__hmssql_internal.insert_rows'') (\<lambda>out. Inr (InsertPlan out plan oid, st))))"

definition PlanDelete ::
  "'d float_ops \<Rightarrow> 'd mock \<Rightarrow> Catalog \<Rightarrow> string \<Rightarrow> nat \<Rightarrow> string option \<Rightarrow> Schema \<Rightarrow> 'd bound_expr \<Rightarrow> 'd planner \<Rightarrow>
   ('d plan \<times> 'd planner) result option" where
  "PlanDelete F mock cat table oid alias schema cond st =
     bind_ro (PlanTableRef F mock cat (BaseTableRef table oid alias schema) st) (\<lambda>(plan, _, st).
     Some (bind_r (PlanExpression [plan] cond new_context) (\<lambda>(_, condition, _).
           bind_r (rows_schema ''__hmssql_internal.delete_rows'') (\<lambda>out.
           Inr (DeletePlan out (FilterPlan (OutputSchema plan) condition plan) oid, st)))))"

text \<open>The loop over the assignments; \<open>None\<close> is a null expression.\<close>

fun column_index :: "'d expr \<Rightarrow> nat" where
  "column_index (ColumnValue tuple_idx col_idx T) = col_idx"
| "column_index e = 0"

fun plan_targets :: "'d plan list \<Rightarrow> (string list \<times> 'd bound_expr) list \<Rightarrow> 'd expr option list \<Rightarrow> 'd expr option list result" where
  "plan_targets scope [] target_exprs = Inr target_exprs"
| "plan_targets scope ((col, target_expr) # targets) target_exprs =
     bind_r (PlanExpression scope target_expr new_context) (\<lambda>(_, e, _).
     bind_r (PlanColumnRef col scope) (\<lambda>(_, c).
     plan_targets scope targets (target_exprs[column_index c := Some e])))"

definition PlanUpdate ::
  "'d float_ops \<Rightarrow> 'd mock \<Rightarrow> Catalog \<Rightarrow> string \<Rightarrow> nat \<Rightarrow> string option \<Rightarrow> Schema \<Rightarrow> 'd bound_expr \<Rightarrow>
   (string list \<times> 'd bound_expr) list \<Rightarrow> 'd planner \<Rightarrow> ('d plan \<times> 'd planner) result option" where
  "PlanUpdate F mock cat table oid alias schema cond targets st =
     bind_ro (PlanTableRef F mock cat (BaseTableRef table oid alias schema) st) (\<lambda>(plan, _, st).
     Some (bind_r (PlanExpression [plan] cond new_context) (\<lambda>(_, condition, _).
           let filter = FilterPlan (OutputSchema plan) condition plan; out = OutputSchema filter
           in bind_r (plan_targets [filter] targets (replicate (GetColumnCount out) None)) (\<lambda>target_exprs.
              let target_exprs = map (\<lambda>(idx, e). case e of None \<Rightarrow> column_ref 0 idx out | Some e \<Rightarrow> e) (enumerate 0 target_exprs)
              in bind_r (rows_schema ''__hmssql_internal.update_rows'') (\<lambda>update_schema.
                 Inr (UpdatePlan update_schema filter oid target_exprs, st))))))"

section \<open>Statements\<close>

text \<open>The plan of a statement; the plan nodes that create views and tables have no executor.\<close>

datatype 'd planned =
    NoPlan
  | QueryPlan "'d plan"
  | CreateViewPlan Schema string string
  | CreateTempTablePlan Schema string "Column list"

definition PlanCreateView :: "string \<Rightarrow> string \<Rightarrow> 'd planned result" where
  "PlanCreateView view query =
     (if view = [] \<or> query = [] then Inl (Throw ExceptionType.INVALID) else Inr (CreateViewPlan (new_Schema []) view query))"

definition PlanCreateTempTable :: "string \<Rightarrow> Column list \<Rightarrow> 'd planned result" where
  "PlanCreateTempTable table cols =
     (if table = [] \<or> cols = [] then Inl (Throw ExceptionType.INVALID) else Inr (CreateTempTablePlan (new_Schema cols) table cols))"

definition MakeOutputSchema :: "(string \<times> TypeId) list \<Rightarrow> Schema result" where
  "MakeOutputSchema exprs =
     bind_r (map_r (\<lambda>(col_name, T). if T \<noteq> VARCHAR then new_Column col_name T
       else new_varlen_Column col_name T VARCHAR_DEFAULT_LENGTH) exprs) (\<lambda>cols. Inr (new_Schema cols))"

definition query_plan :: "('d plan \<times> 'd planner) result option \<Rightarrow> ('d planned \<times> 'd planner) result option" where
  "query_plan m = bind_ro m (\<lambda>(plan, st). Some (Inr (QueryPlan plan, st)))"

definition PlanQuery ::
  "'d float_ops \<Rightarrow> 'd mock \<Rightarrow> Catalog \<Rightarrow> 'd statement \<Rightarrow> 'd planner \<Rightarrow> ('d planned \<times> 'd planner) result option" where
  "PlanQuery F mock cat stmt st = (case stmt of
     UseStatement db \<Rightarrow> Some (Inr (NoPlan, st))
   | Select s \<Rightarrow> bind_ro (PlanSelect F mock cat s st) (\<lambda>(plan, _, st). Some (Inr (QueryPlan plan, st)))
   | InsertStatement table oid alias schema s \<Rightarrow> query_plan (PlanInsert F mock cat oid schema s st)
   | DeleteStatement table oid alias schema cond \<Rightarrow> query_plan (PlanDelete F mock cat table oid alias schema cond st)
   | UpdateStatement table oid alias schema cond targets \<Rightarrow>
       query_plan (PlanUpdate F mock cat table oid alias schema cond targets st)
   | CreateViewStatement view query \<Rightarrow> Some (bind_r (PlanCreateView view query) (\<lambda>p. Inr (p, st)))
   | CreateTempTableStatement table cols \<Rightarrow> Some (bind_r (PlanCreateTempTable table cols) (\<lambda>p. Inr (p, st)))
   | OtherStatement \<Rightarrow> Some (Inl (Throw ExceptionType.INVALID)))"

end
