(* ===== verification/Hash_Util.thy ===== *)
theory Hash_Util
  imports Row
begin

text \<open>Hashes of values: \<open>include/common/hash_util.h\<close>. \<open>hash_t\<close> is 64 bits, \<open>char\<close> is signed.\<close>

unbundle bit_operations_syntax

type_synonym hash_t = "64 word"

definition PRIME_FACTOR :: hash_t where
  "PRIME_FACTOR = 10000019"

fun hash_loop :: "hash_t \<Rightarrow> byte list \<Rightarrow> hash_t" where
  "hash_loop hash [] = hash"
| "hash_loop hash (byte # bytes) = hash_loop ((push_bit 5 hash XOR drop_bit 27 hash) XOR signed byte) bytes"

definition HashBytes :: "byte list \<Rightarrow> hash_t" where
  "HashBytes bytes = hash_loop (of_nat (length bytes)) bytes"

text \<open>The bytes of two hashes side by side.\<close>

definition CombineHashes :: "hash_t \<Rightarrow> hash_t \<Rightarrow> hash_t" where
  "CombineHashes l r = HashBytes (le_bytes 8 (unat l) @ le_bytes 8 (unat r))"

definition SumHashes :: "hash_t \<Rightarrow> hash_t \<Rightarrow> hash_t" where
  "SumHashes l r = (l mod PRIME_FACTOR + r mod PRIME_FACTOR) mod PRIME_FACTOR"

text \<open>\<open>Hash\<close> of an integer widened to 64 bits.\<close>

definition Hash_int64 :: "int \<Rightarrow> hash_t" where
  "Hash_int64 raw = HashBytes (put_int 8 raw)"

text \<open>
  \<open>HashValue\<close>. A NULL VARCHAR has no data and length \<open>BUSTUB_VALUE_NULL\<close>: reading it is undefined.
  A BOOLEAN is read as a \<open>bool\<close>, which its NULL is not.
\<close>

definition HashValue :: "'d float_ops \<Rightarrow> 'd Value \<Rightarrow> hash_t result" where
  "HashValue F v =
     (if vtype v \<in> {TINYINT, SMALLINT, INTEGER, BIGINT} then Inr (Hash_int64 (as_int v))
      else if vtype v = BOOLEAN then
        (if as_int v = 0 \<or> as_int v = 1 then Inr (HashBytes [of_int (as_int v)]) else Inl Undefined_behaviour)
      else if vtype v = DECIMAL then Inr (HashBytes (d_bytes F (as_dec F v)))
      else if vtype v = VARCHAR then
        (case vval v of VStr s \<Rightarrow> Inr (HashBytes (map byte_of_char s)) | _ \<Rightarrow> Inl Undefined_behaviour)
      else if vtype v = TIMESTAMP then Inr (Hash_int64 (int (as_timestamp v)))
      else Inl Assertion_failed)"

end
