(* ===== verification/Table_Scan.thy ===== *)
theory Table_Scan
  imports Table_Heap
begin

text \<open>
  Scanning a table: \<open>src/execution/seq_scan_executor.cpp\<close> over the iterators of
  \<open>table_iterator.cpp\<close>. An iteration from \<open>Begin\<close> to \<open>End\<close> yields the live tuples in the order of
  pages and slots.
\<close>

section \<open>The executor\<close>

text \<open>
  \<open>filter_predicate_\<close> as the boolean that \<open>Evaluate(...).GetAs<bool>()\<close> gives, \<open>None\<close> for a null
  pointer. The state is the iterator; the result is the tuple or \<open>None\<close> for \<open>false\<close>.
\<close>

partial_function (option) SeqScan_Next ::
  "(Tuple \<Rightarrow> bool result) option \<Rightarrow> Tuple \<Rightarrow> bpm \<Rightarrow> (Tuple option \<times> Tuple \<times> bpm) result option" where
  "SeqScan_Next pred it b =
     (if iter_eq it end_iter then Some (Inr (None, it, b))
      else case iter_next it b of
          None \<Rightarrow> None
        | Some (Inl e) \<Rightarrow> Some (Inl e)
        | Some (Inr (it', b)) \<Rightarrow>
            (case pred of
               None \<Rightarrow> Some (Inr (Some it, it', b))
             | Some ev \<Rightarrow>
                 (case ev it of
                    Inl e \<Rightarrow> Some (Inl e)
                  | Inr ok \<Rightarrow> if ok then Some (Inr (Some it, it', b)) else SeqScan_Next pred it' b)))"

text \<open>\<open>Init\<close> and the calls of \<open>Next\<close> until it returns \<open>false\<close>.\<close>

partial_function (option) SeqScan_rest ::
  "(Tuple \<Rightarrow> bool result) option \<Rightarrow> Tuple \<Rightarrow> bpm \<Rightarrow> (Tuple list \<times> bpm) result option" where
  "SeqScan_rest pred it b =
     (case SeqScan_Next pred it b of
        None \<Rightarrow> None
      | Some (Inl e) \<Rightarrow> Some (Inl e)
      | Some (Inr (None, it, b)) \<Rightarrow> Some (Inr ([], b))
      | Some (Inr (Some t, it, b)) \<Rightarrow>
          Option.bind (SeqScan_rest pred it b) (\<lambda>res. Some (bind_r res (\<lambda>(ts, b). Inr (t # ts, b)))))"

definition SeqScan :: "(Tuple \<Rightarrow> bool result) option \<Rightarrow> int \<Rightarrow> bpm \<Rightarrow> (Tuple list \<times> bpm) result option" where
  "SeqScan pred first_page_id b =
     (case TableHeap_Begin first_page_id b of
        None \<Rightarrow> None
      | Some (Inl e) \<Rightarrow> Some (Inl e)
      | Some (Inr (it, b)) \<Rightarrow> SeqScan_rest pred it b)"

section \<open>The live record ids in order\<close>

definition is_live :: "slot \<Rightarrow> bool" where
  "is_live s \<longleftrightarrow> (case s of Live _ \<Rightarrow> True | _ \<Rightarrow> False)"

fun live_bytes :: "slot \<Rightarrow> byte list" where
  "live_bytes (Live bs) = bs"
| "live_bytes _ = []"

definition page_rids :: "(int \<Rightarrow> byte list) \<Rightarrow> int \<Rightarrow> nat \<Rightarrow> RID list" where
  "page_rids c p k =
     map (\<lambda>i. \<lparr>rid_page = p, rid_slot = i\<rparr>) (filter (\<lambda>i. is_live (slots (c p) ! i)) [k..<length (slots (c p))])"

definition live_rids :: "(int \<Rightarrow> byte list) \<Rightarrow> int list \<Rightarrow> RID list" where
  "live_rids c ps = concat (map (\<lambda>p. page_rids c p 0) ps)"

definition rid_tuple :: "(int \<Rightarrow> byte list) \<Rightarrow> RID \<Rightarrow> Tuple" where
  "rid_tuple c rid = tuple_of rid (live_bytes (slots (c (rid_page rid)) ! rid_slot rid))"

lemma find_filter_upt:
  "List.find P [k..<n] = Some i \<Longrightarrow> filter P [k..<n] = i # filter P [Suc i..<n]"
  "List.find P [k..<n] = None \<Longrightarrow> filter P [k..<n] = []"
proof (induction "n - k" arbitrary: k)
  case (Suc m)
  then have "[k..<n] = k # [Suc k..<n]" by (simp add: upt_conv_Cons)
  then show "List.find P [k..<n] = Some i \<Longrightarrow> filter P [k..<n] = i # filter P [Suc i..<n]"
    "List.find P [k..<n] = None \<Longrightarrow> filter P [k..<n] = []"
    using Suc by (auto split: if_splits)
qed auto

lemma next_live_rids:
  "next_live k (slots (c p)) = Some i \<Longrightarrow> page_rids c p k = \<lparr>rid_page = p, rid_slot = i\<rparr> # page_rids c p (Suc i)"
  "next_live k (slots (c p)) = None \<Longrightarrow> page_rids c p k = []"
  unfolding next_live_def page_rids_def is_live_def
  by (simp_all add: find_filter_upt)

lemma next_live_slot:
  assumes "next_live k ss = Some i"
  shows "i < length ss \<and> (\<exists>bs. ss ! i = Live bs)"
proof -
  have "i < length ss \<and> (case ss ! i of Live _ \<Rightarrow> True | _ \<Rightarrow> False)"
    using assms by (auto simp: next_live_def find_Some_iff)
  then show ?thesis by (cases "ss ! i") simp_all
qed

text \<open>A record id of a page is not the end.\<close>

lemma RID_Get_nonneg: "0 \<le> rid_page r \<Longrightarrow> rid_page r < 2 ^ 31 \<Longrightarrow> 0 \<le> RID_Get r"
  by (simp add: RID_Get_def in_range_def)

lemma iter_end_iff:
  assumes "0 \<le> rid_page (trid it)" and "rid_page (trid it) < 2 ^ 31"
  shows "\<not> iter_eq it end_iter"
proof -
  have "RID_Get (trid end_iter) < 0" by (simp add: end_iter_def RID_Get_def INVALID_PAGE_ID_def swrap_def)
  then show ?thesis using RID_Get_nonneg[OF assms] by (simp add: iter_eq_def)
qed

lemma iter_eq_end [simp]: "trid it = new_RID \<Longrightarrow> iter_eq it end_iter"
  by (simp add: iter_eq_def end_iter_def new_RID_def)

section \<open>Positions of an iterator\<close>

text \<open>
  The iterator stands at the head of the remaining record ids; the rest of the page and the
  following pages hold the others.
\<close>

definition at_rids :: "(int \<Rightarrow> byte list) \<Rightarrow> int list \<Rightarrow> RID list \<Rightarrow> RID \<Rightarrow> bool" where
  "at_rids c ps rids rid \<longleftrightarrow>
     (case rids of
        [] \<Rightarrow> rid = new_RID
      | r # rs \<Rightarrow> rid = r \<and> (\<exists>xs p ys. ps = xs @ p # ys \<and> rid_page r = p \<and> rid_slot r < length (slots (c p)) \<and>
          is_live (slots (c p) ! rid_slot r) \<and> rs = page_rids c p (Suc (rid_slot r)) @ live_rids c ys))"

lemma at_first:
  assumes "ps = xs @ p # ys" and "next_live k (slots (c p)) = Some i"
  shows "at_rids c ps (page_rids c p k @ live_rids c ys) \<lparr>rid_page = p, rid_slot = i\<rparr>"
proof -
  have "i < length (slots (c p))" "is_live (slots (c p) ! i)"
    using next_live_slot[OF assms(2)] by (auto simp: is_live_def)
  then have "\<exists>xs p' ys'. ps = xs @ p' # ys' \<and> p = p' \<and> i < length (slots (c p')) \<and> is_live (slots (c p') ! i) \<and>
      page_rids c p (Suc i) @ live_rids c ys = page_rids c p' (Suc i) @ live_rids c ys'"
    using assms(1) by blast
  then show ?thesis by (simp add: at_rids_def next_live_rids(1)[of k c p i, OF assms(2)])
qed

lemma first_rid:
  assumes "heap_page c n p"
  shows "TablePage_GetFirstTupleRid (c p) =
    (case next_live 0 (slots (c p)) of Some i \<Rightarrow> (True, \<lparr>rid_page = p, rid_slot = i\<rparr>) | None \<Rightarrow> (False, new_RID))"
  using assms by (simp add: TupleRid_correct heap_page_def split: option.split)

section \<open>The loops\<close>

lemma begin_loop_correct:
  assumes s: "spare P k"
  shows "\<lbrakk> pool_view {} c P n k b; chain c p ys; \<forall>q\<in>set ys. heap_page c n q; ps = xs @ ys; ys = [] \<Longrightarrow> rid = new_RID \<rbrakk> \<Longrightarrow>
    \<exists>rid' b'. begin_loop p rid b = Some (Inr (rid', b')) \<and> pool_view {} c P n k b' \<and> at_rids c ps (live_rids c ys) rid'"
proof (induction ys arbitrary: p rid b xs)
  case Nil
  then show ?case by (subst begin_loop.simps) (simp add: at_rids_def live_rids_def)
next
  case (Cons q ys)
  note v = Cons.prems(1)
  have p: "p = q" and ch: "chain c (GetNextPageId (c q)) ys" using Cons.prems(2) by simp_all
  have pg: "heap_page c n q" using Cons.prems(3) by simp
  then have q: "0 \<le> q" "q < n" "q \<noteq> INVALID_PAGE_ID" by (simp_all add: heap_page_def INVALID_PAGE_ID_def)
  show ?case
  proof (rule edit_page[OF v s q(1,2)])
    fix f b1 assume f: "FetchPgImp q b = Inr (Some f, b1)" "frame_data f b1 = c q"
    assume "\<exists>b2. UnpinPgImp q False b1 = Inr (True, b2) \<and> pool_view {} c P n k b2 \<and> frame_data f b2 = frame_data f b1"
    then obtain b2 where b2: "UnpinPgImp q False b1 = Inr (True, b2)" "pool_view {} c P n k b2" "frame_data f b2 = c q"
      using f(2) by auto
    show ?case
    proof (cases "next_live 0 (slots (c q))")
      case (Some i)
      have "begin_loop p rid b = Some (Inr (\<lparr>rid_page = q, rid_slot = i\<rparr>, b2))"
        by (subst begin_loop.simps) (simp add: p q f first_rid[OF pg] Some b2(1))
      moreover have "at_rids c ps (live_rids c (q # ys)) \<lparr>rid_page = q, rid_slot = i\<rparr>"
        using at_first[of ps xs q ys 0 c i] Cons.prems(4) Some by (simp add: live_rids_def)
      ultimately show ?thesis using b2(2) by blast
    next
      case None
      have "begin_loop p rid b = begin_loop (GetNextPageId (c q)) new_RID b2"
        by (subst begin_loop.simps) (simp add: p q f first_rid[OF pg] None b2)
      moreover have "live_rids c (q # ys) = live_rids c ys" using next_live_rids(2)[of 0 c q, OF None] by (simp add: live_rids_def)
      moreover have "\<forall>q\<in>set ys. heap_page c n q" "ps = (xs @ [q]) @ ys" using Cons.prems(3,4) by simp_all
      ultimately show ?thesis using Cons.IH[OF b2(2) ch] by simp
    qed
  qed
qed

text \<open>The inner loop of \<open>operator++\<close> starts with its page pinned and ends with the last page pinned.\<close>

lemma next_page_loop_correct:
  assumes s: "spare P k"
  shows "\<lbrakk> pool_view {} c (P(p := P p + 1)) n k b; held b p f; chain c p (p # ys); distinct (p # ys);
      \<forall>q\<in>set (p # ys). heap_page c n q; ps = xs @ p # ys \<rbrakk> \<Longrightarrow>
    \<exists>p' f' rid' b'. next_page_loop f new_RID b = Some (Inr (f', rid', b')) \<and> pool_view {} c (P(p' := P p' + 1)) n k b' \<and>
      held b' p' f' \<and> p' \<in> set (p # ys) \<and> at_rids c ps (live_rids c ys) rid'"
proof (induction ys arbitrary: p f b xs)
  case Nil
  have "GetNextPageId (c p) = INVALID_PAGE_ID" using Nil.prems(3) by simp
  then have "next_page_loop f new_RID b = Some (Inr (f, new_RID, b))"
    by (subst next_page_loop.simps) (simp add: view_read[OF Nil.prems(1,2)])
  then show ?case
    using Nil.prems(1,2)
    by - (rule exI[of _ p], rule exI[of _ f], rule exI[of _ new_RID], rule exI[of _ b],
      simp add: at_rids_def live_rids_def)
next
  case (Cons q ys)
  note v = Cons.prems(1) and h = Cons.prems(2)
  have pg: "heap_page c n p" and qg: "heap_page c n q" and ne: "p \<noteq> q" using Cons.prems(4,5) by auto
  have P: "0 \<le> P x" "P x < 2 ^ 31 - 2" for x using s by (auto simp: spare_def)
  have nx: "GetNextPageId (c p) = q" "q \<noteq> INVALID_PAGE_ID"
    using Cons.prems(3) qg by (auto simp: heap_page_def INVALID_PAGE_ID_def)
  have q: "0 \<le> q" "q < n" using qg by (simp_all add: heap_page_def)
  have lq: "(P(p := P p + 1)) q < 2 ^ 31 - 1" using P(2)[of q] ne by simp
  have eq: "(P(p := P p + 1)) q + 1 = P q + 1" using ne by simp
  from view_fetch[OF v q lq spare_room[OF s, THEN conjunct2], unfolded eq] obtain f' b1 where
    b1: "FetchPgImp q b = Inr (Some f', b1)" "pool_view {} c ((P(p := P p + 1))(q := P q + 1)) n k b1"
      "held b1 q f'" "keeps_held b b1" by blast
  have h1: "held b1 p f" using keeps_heldD[OF b1(4) h] b1(2) P(1)[of p] ne by (simp add: pool_view_def)
  have pin: "0 < ((P(p := P p + 1))(q := P q + 1)) p" using P(1)[of p] ne by simp
  have r1: "((P(p := P p + 1))(q := P q + 1))(p := ((P(p := P p + 1))(q := P q + 1)) p - 1) = P(q := P q + 1)"
    using ne by (simp add: fun_eq_iff)
  from view_unpin[OF b1(2) pin, of False, unfolded r1] obtain b2 where b2: "UnpinPgImp p False b1 = Inr (True, b2)"
    "pool_view {} c (P(q := P q + 1)) n k b2" "resident b2 = resident b1" by auto
  have h2: "held b2 q f'" using b1(3) b2(2,3) P(1)[of q] by (simp add: held_def pool_view_def)
  have ch: "chain c q (q # ys)" using Cons.prems(3) nx(1) by simp
  have id: "GetTablePageId (c p) = p" using pg by (simp add: heap_page_def)
  note rd = view_read[OF v h] view_read[OF b1(2) h1] view_read[OF b2(2) h2]
  show ?case
  proof (cases "next_live 0 (slots (c q))")
    case (Some i)
    have "next_page_loop f new_RID b = Some (Inr (f', \<lparr>rid_page = q, rid_slot = i\<rparr>, b2))"
      using nx by (subst next_page_loop.simps) (simp add: rd b1(1) id b2(1) first_rid[OF qg] Some)
    moreover have "at_rids c ps (live_rids c (q # ys)) \<lparr>rid_page = q, rid_slot = i\<rparr>"
      using at_first[of ps "xs @ [p]" q ys 0 c i] Cons.prems(6) Some by (simp add: live_rids_def)
    ultimately show ?thesis
      using b2(2) h2 by - (rule exI[of _ q], rule exI[of _ f'], rule exI[of _ "\<lparr>rid_page = q, rid_slot = i\<rparr>"], rule exI[of _ b2], intro conjI, assumption, assumption, assumption, simp, assumption)
  next
    case None
    have step: "next_page_loop f new_RID b = next_page_loop f' new_RID b2"
      using nx by (subst next_page_loop.simps) (simp add: rd b1(1) id b2(1) first_rid[OF qg] None)
    have same: "live_rids c (q # ys) = live_rids c ys" using next_live_rids(2)[of 0 c q, OF None] by (simp add: live_rids_def)
    have pre: "distinct (q # ys)" "\<forall>r\<in>set (q # ys). heap_page c n r" "ps = (xs @ [p]) @ q # ys"
      using Cons.prems(4-6) by simp_all
    from Cons.IH[OF b2(2) h2 ch pre] show ?thesis unfolding step same by (meson list.set_intros(2))
  qed
qed

lemma at_ridsD:
  assumes "at_rids c ps rids rid" and "rids \<noteq> []"
  shows "rid = hd rids" and "rid_page rid \<in> set ps" and "rid_slot rid < GetTupleCount (c (rid_page rid))"
    and "slots (c (rid_page rid)) ! rid_slot rid = Live (live_bytes (slots (c (rid_page rid)) ! rid_slot rid))"
  using assms by (auto simp: at_rids_def is_live_def split: list.splits slot.splits)

text \<open>One step of an iterator.\<close>

lemma iter_next_correct:
  assumes s: "spare P k" and v: "pool_view {} c P n k b" and h: "heap_view c n first ps"
    and at: "at_rids c ps (r # rs) (trid it)"
  shows "\<exists>it' b'. iter_next it b = Some (Inr (it', b')) \<and> pool_view {} c P n k b' \<and> at_rids c ps rs (trid it') \<and>
    (rs \<noteq> [] \<longrightarrow> it' = rid_tuple c (hd rs))"
proof -
  have P: "0 \<le> P x" "P x < 2 ^ 31 - 2" for x using s by (auto simp: spare_def)
  have nmax: "n \<le> max_page_id + 1" using v by (simp add: pool_view_def bpm_inv_except_def storage_ok_def)
  define p where "p = rid_page r"
  from at obtain xs ys where it: "trid it = r" and ps: "ps = xs @ p # ys"
    and rs: "rs = page_rids c p (Suc (rid_slot r)) @ live_rids c ys"
    by (auto simp: at_rids_def p_def)
  have dist: "distinct (p # ys)" and pgs: "\<forall>q\<in>set (p # ys). heap_page c n q" and ch: "chain c p (p # ys)"
    using h ps chain_append[of c first xs p ys] by (auto simp: heap_view_def)
  then have pg: "0 \<le> p" "p < n" "GetTablePageId (c p) = p" by (simp_all add: heap_page_def)
  have lim: "P p < 2 ^ 31 - 1" using P(2)[of p] by simp
  from view_fetch[OF v pg(1,2) lim spare_room[OF s, THEN conjunct1]] obtain f b1 where
    b1: "FetchPgImp p b = Inr (Some f, b1)" "pool_view {} c (P(p := P p + 1)) n k b1" "held b1 p f" by blast
  define X where "X = (case next_live (Suc (rid_slot r)) (slots (c p)) of Some i \<Rightarrow> (True, \<lparr>rid_page = p, rid_slot = i\<rparr>) | None \<Rightarrow> (False, new_RID))"
  have nx: "TablePage_GetNextTupleRid r (c p) = Inr X"
    using TupleRid_correct(2)[of r "c p", unfolded pg(3)] by (simp add: p_def X_def)
  obtain p' f' rid b2 where
    b2: "(if fst X then Some (Inr (f, snd X, b1)) else next_page_loop f (snd X) b1) = Some (Inr (f', rid, b2))"
      "pool_view {} c (P(p' := P p' + 1)) n k b2" "held b2 p' f'" "p' \<in> set ps" "at_rids c ps rs rid"
  proof (cases "next_live (Suc (rid_slot r)) (slots (c p))")
    case (Some i)
    from at_first[of ps xs p ys _ c i, OF ps Some] show ?thesis
      using that[of f "\<lparr>rid_page = p, rid_slot = i\<rparr>" b1 p] Some b1(2,3) ps by (simp add: rs X_def)
  next
    case None
    from next_page_loop_correct[OF s b1(2,3) ch dist pgs ps] obtain p' f' rid b2 where
      b2: "next_page_loop f new_RID b1 = Some (Inr (f', rid, b2))" "pool_view {} c (P(p' := P p' + 1)) n k b2"
        "held b2 p' f'" "p' \<in> set (p # ys)" "at_rids c ps (live_rids c ys) rid" by blast
    have "rs = live_rids c ys" unfolding rs using next_live_rids(2)[of "Suc (rid_slot r)" c p, OF None] by simp
    then show ?thesis using that[of f' rid b2 p'] b2 None ps by (auto simp: X_def)
  qed
  have pg': "heap_page c n p'" using b2(4) h by (simp add: heap_view_def)
  have pin: "0 < (P(p' := P p' + 1)) p'" using P(1)[of p'] by simp
  define go where "go = (\<lambda>(f, rid, b). let it = it\<lparr>trid := rid\<rparr>
      in bind_r (if \<not> iter_eq it end_iter
                 then bind_r (TableHeap_GetTuple (trid it) it b) (\<lambda>(ok, it, b). if ok then Inr (it, b) else Inl (Throw INVALID))
                 else Inr (it, b)) (\<lambda>(it, b).
         bind_r (UnpinPgImp (GetTablePageId (frame_data f b)) False b) (\<lambda>(_, b). Inr (it, b))))"
  have run: "iter_next it b = Some (go (f', rid, b2))"
  proof -
    obtain found r' where X: "X = (found, r')" by (cases X)
    have "iter_next it b = (case (if found then Some (Inr (f, r', b1)) else next_page_loop f r' b1) of
        None \<Rightarrow> None | Some res \<Rightarrow> Some (bind_r res go))"
      unfolding go_def by (simp add: iter_next_def it b1(1) p_def[symmetric] view_read[OF b1(2,3)] nx X)
    then show ?thesis using b2(1) by (cases found) (simp_all add: X)
  qed
  show ?thesis
  proof (cases "rs = []")
    case True
    then have "rid = new_RID" using b2(5) by (simp add: at_rids_def)
    moreover from view_unpin[OF b2(2) pin, of False, unfolded unpin_again] obtain b3 where
      b3: "UnpinPgImp p' False b2 = Inr (True, b3)" "pool_view {} c P n k b3" by auto
    ultimately have "go (f', rid, b2) = Inr (it\<lparr>trid := new_RID\<rparr>, b3)"
      using pg' by (simp add: go_def view_read[OF b2(2,3)] heap_page_def)
    then show ?thesis using run b3(2) True by (auto simp: at_rids_def)
  next
    case False
    note ar = at_ridsD[OF b2(5) False]
    have rp: "heap_page c n (rid_page rid)" using ar(2) h by (simp add: heap_view_def)
    then have rng: "0 \<le> rid_page rid" "rid_page rid < n" "rid_page rid < 2 ^ 31" "table_page_inv (c (rid_page rid))"
      using nmax by (simp_all add: heap_page_def max_page_id_def)
    have q: "0 \<le> (P(p' := P p' + 1)) (rid_page rid)" "(P(p' := P p' + 1)) (rid_page rid) < 2 ^ 31 - 1"
      using P(1)[of "rid_page rid"] P(1)[of p'] P(2)[of "rid_page rid"] P(2)[of p'] by simp_all
    from view_GetTuple[OF b2(2) rng(1,2) q spare_room[OF s, THEN conjunct2] rng(4) ar(3,4), of "it\<lparr>trid := rid\<rparr>"]
    obtain b3 where b3: "TableHeap_GetTuple rid (it\<lparr>trid := rid\<rparr>) b2 = Inr (True, rid_tuple c rid, b3)"
      "pool_view {} c (P(p' := P p' + 1)) n k b3" "keeps_held b2 b3" unfolding rid_tuple_def by blast
    have h3: "held b3 p' f'" using keeps_heldD[OF b3(3) b2(3)] b3(2) pin by (simp add: pool_view_def)
    from view_unpin[OF b3(2) pin, of False, unfolded unpin_again] obtain b4 where
      b4: "UnpinPgImp p' False b3 = Inr (True, b4)" "pool_view {} c P n k b4" by auto
    have "go (f', rid, b2) = Inr (rid_tuple c rid, b4)"
      using iter_end_iff[of "it\<lparr>trid := rid\<rparr>"] rng pg' b3(1) b4(1)
      by (simp add: go_def view_read[OF b3(2) h3] heap_page_def)
    moreover have "trid (rid_tuple c rid) = rid" by (simp add: rid_tuple_def tuple_of_def)
    ultimately show ?thesis using run b4(2) b2(5) ar(1) by (intro exI[of _ "rid_tuple c rid"] exI[of _ b4]) simp
  qed
qed

text \<open>The constructor at a record id of the table.\<close>

lemma TableIterator_correct:
  assumes s: "spare P k" and v: "pool_view {} c P n k b" and h: "heap_view c n first ps" and at: "at_rids c ps rids rid"
  shows "\<exists>it b'. TableIterator rid b = Inr (it, b') \<and> pool_view {} c P n k b' \<and> trid it = rid \<and>
    (rids \<noteq> [] \<longrightarrow> it = rid_tuple c rid)"
proof (cases "rids = []")
  case True
  then show ?thesis using at v by (simp add: at_rids_def TableIterator_def new_RID_def)
next
  case False
  note ar = at_ridsD[OF at False]
  have rp: "heap_page c n (rid_page rid)" using ar(2) h by (simp add: heap_view_def)
  then have rng: "0 \<le> rid_page rid" "rid_page rid < n" "table_page_inv (c (rid_page rid))" by (simp_all add: heap_page_def)
  from view_GetTuple[OF v rng(1,2) _ _ spare_room[OF s, THEN conjunct1] rng(3) ar(3,4)] spare_lim[OF s]
  obtain b' where "TableHeap_GetTuple rid (new_Tuple\<lparr>trid := rid\<rparr>) b = Inr (True, rid_tuple c rid, b')"
    "pool_view {} c P n k b'" unfolding rid_tuple_def by blast
  then show ?thesis
    using rng(1) by (simp add: TableIterator_def INVALID_PAGE_ID_def rid_tuple_def tuple_of_def)
qed

section \<open>The scan\<close>

definition passes :: "(Tuple \<Rightarrow> bool result) option \<Rightarrow> Tuple \<Rightarrow> bool" where
  "passes pred t \<longleftrightarrow> (case pred of None \<Rightarrow> True | Some ev \<Rightarrow> ev t = Inr True)"

text \<open>A predicate that yields a truth value on the given tuples.\<close>

definition evaluates_on :: "Tuple list \<Rightarrow> (Tuple \<Rightarrow> bool result) option \<Rightarrow> bool" where
  "evaluates_on ts pred \<longleftrightarrow> (case pred of None \<Rightarrow> True | Some ev \<Rightarrow> \<forall>t\<in>set ts. \<exists>ok. ev t = Inr ok)"

text \<open>The rows at the given record ids that pass the predicate.\<close>

definition selected :: "(int \<Rightarrow> byte list) \<Rightarrow> (Tuple \<Rightarrow> bool result) option \<Rightarrow> RID list \<Rightarrow> Tuple list" where
  "selected c pred rids = filter (passes pred) (map (rid_tuple c) rids)"

lemma selected_simps [simp]:
  "selected c pred [] = []"
  "selected c pred (r # rs) = (if passes pred (rid_tuple c r) then rid_tuple c r # selected c pred rs else selected c pred rs)"
  by (simp_all add: selected_def)

lemma SeqScan_Next_correct:
  assumes s: "spare P k" and h: "heap_view c n first ps"
  shows "\<lbrakk> pool_view {} c P n k b; at_rids c ps rids (trid it); rids \<noteq> [] \<longrightarrow> it = rid_tuple c (hd rids);
      evaluates_on (map (rid_tuple c) rids) pred \<rbrakk> \<Longrightarrow>
    \<exists>it' b' rest. SeqScan_Next pred it b = Some (Inr (case selected c pred rids of
        [] \<Rightarrow> None | t # _ \<Rightarrow> Some t, it', b')) \<and> pool_view {} c P n k b' \<and>
      (\<exists>pre. rids = pre @ rest) \<and> at_rids c ps rest (trid it') \<and> (rest \<noteq> [] \<longrightarrow> it' = rid_tuple c (hd rest)) \<and>
      selected c pred rest = tl (selected c pred rids)"
proof (induction rids arbitrary: it b)
  case Nil
  then have "trid it = new_RID" by (simp add: at_rids_def)
  then have "SeqScan_Next pred it b = Some (Inr (None, it, b))" by (subst SeqScan_Next.simps) simp
  then show ?case using Nil by auto
next
  case (Cons r rs)
  have it: "it = rid_tuple c r" using Cons.prems(3) by simp
  have tr: "trid it = r" using Cons.prems(2) by (simp add: at_rids_def)
  have "rid_page r \<in> set ps" using at_ridsD(2)[OF Cons.prems(2)] tr by simp
  then have "0 \<le> rid_page r" "rid_page r < 2 ^ 31"
    using h Cons.prems(1) by (auto simp: heap_view_def heap_page_def pool_view_def bpm_inv_except_def storage_ok_def max_page_id_def)
  then have ne: "\<not> iter_eq it end_iter" using iter_end_iff[of it] tr by simp
  from iter_next_correct[OF s Cons.prems(1) h Cons.prems(2)] obtain it' b1 where
    b1: "iter_next it b = Some (Inr (it', b1))" "pool_view {} c P n k b1" "at_rids c ps rs (trid it')"
      "rs \<noteq> [] \<longrightarrow> it' = rid_tuple c (hd rs)" by blast
  show ?case
  proof (cases "passes pred it")
    case True
    then have "SeqScan_Next pred it b = Some (Inr (Some it, it', b1))"
      using ne b1(1) by (subst SeqScan_Next.simps) (auto simp: passes_def split: option.split)
    then show ?thesis using b1(2-4) True it by (intro exI[of _ it'] exI[of _ b1] exI[of _ rs]) auto
  next
    case False
    with Cons.prems(4) it have "\<exists>ev. pred = Some ev \<and> ev it = Inr False"
      by (auto simp: passes_def evaluates_on_def split: option.splits)
    then have "SeqScan_Next pred it b = SeqScan_Next pred it' b1"
      using ne b1(1) by (subst SeqScan_Next.simps) auto
    moreover have "evaluates_on (map (rid_tuple c) rs) pred"
      using Cons.prems(4) by (simp add: evaluates_on_def split: option.splits)
    moreover have "selected c pred (r # rs) = selected c pred rs" using False it by simp
    moreover have "\<exists>pre. r # rs = pre @ rest" if "\<exists>pre. rs = pre @ rest" for rest
      using that by (metis append_Cons)
    ultimately show ?thesis using Cons.IH[OF b1(2-4)] by metis
  qed
qed

lemma SeqScan_rest_correct:
  assumes s: "spare P k" and h: "heap_view c n first ps"
  shows "\<lbrakk> pool_view {} c P n k b; at_rids c ps rids (trid it); rids \<noteq> [] \<longrightarrow> it = rid_tuple c (hd rids);
      evaluates_on (map (rid_tuple c) rids) pred \<rbrakk> \<Longrightarrow>
    \<exists>b'. SeqScan_rest pred it b = Some (Inr (selected c pred rids, b')) \<and> pool_view {} c P n k b'"
proof (induction "length (selected c pred rids)" arbitrary: rids it b)
  case 0
  then have e: "selected c pred rids = []" by simp
  from SeqScan_Next_correct[OF s h 0(2-5)] obtain it' b' where
    "SeqScan_Next pred it b = Some (Inr (None, it', b'))" "pool_view {} c P n k b'" unfolding e by auto
  then show ?case by (subst SeqScan_rest.simps) (simp add: e)
next
  case (Suc m)
  then obtain t ts where e: "selected c pred rids = t # ts"
    by (cases "selected c pred rids") simp_all
  from SeqScan_Next_correct[OF s h Suc.prems] obtain it' b1 rest pre where
    b1: "SeqScan_Next pred it b = Some (Inr (Some t, it', b1))" "pool_view {} c P n k b1" "rids = pre @ rest"
      "at_rids c ps rest (trid it')" "rest \<noteq> [] \<longrightarrow> it' = rid_tuple c (hd rest)"
      "selected c pred rest = ts" unfolding e by auto
  have "evaluates_on (map (rid_tuple c) rest) pred"
    using Suc.prems(4) b1(3) by (auto simp: evaluates_on_def split: option.splits)
  from Suc.hyps(1)[OF _ b1(2,4,5) this] Suc.hyps(2) obtain b' where
    "SeqScan_rest pred it' b1 = Some (Inr (ts, b'))" "pool_view {} c P n k b'" unfolding b1(6) e by auto
  then show ?case by (subst SeqScan_rest.simps) (simp add: b1(1) e)
qed

text \<open>The rows of a table in scan order.\<close>

definition table_rows :: "int list \<Rightarrow> bpm \<Rightarrow> Tuple list" where
  "table_rows ps b = map (rid_tuple (content b)) (live_rids (content b) ps)"

lemma SeqScan_correct:
  assumes t: "table_ok first ps b" and ev: "evaluates_on (table_rows ps b) pred"
  shows "\<exists>b'. SeqScan pred first b = Some (Inr (filter (passes pred) (table_rows ps b), b')) \<and>
    table_ok first ps b' \<and> same_pins b' b \<and> table_map ps b' = table_map ps b"
proof -
  note v = table_view[OF t]
  have h: "heap_view (content b) (next_page_id b) first ps" and s: "spare (pins b) (pool_size b)"
    using t by (simp_all add: table_ok_def)
  have ch: "chain (content b) first ps" and pgs: "\<forall>q\<in>set ps. heap_page (content b) (next_page_id b) q"
    using h by (simp_all add: heap_view_def)
  from begin_loop_correct[OF s v ch pgs, of ps "[]" new_RID] obtain rid b1 where
    b1: "begin_loop first new_RID b = Some (Inr (rid, b1))"
      "pool_view {} (content b) (pins b) (next_page_id b) (pool_size b) b1"
      "at_rids (content b) ps (live_rids (content b) ps) rid" by auto
  from TableIterator_correct[OF s b1(2) h b1(3)] obtain it b2 where
    b2: "TableIterator rid b1 = Inr (it, b2)" "pool_view {} (content b) (pins b) (next_page_id b) (pool_size b) b2"
      "trid it = rid" "live_rids (content b) ps \<noteq> [] \<longrightarrow> it = rid_tuple (content b) rid" by blast
  have "live_rids (content b) ps \<noteq> [] \<longrightarrow> it = rid_tuple (content b) (hd (live_rids (content b) ps))"
    using b2(4) at_ridsD(1)[OF b1(3)] by auto
  from SeqScan_rest_correct[OF s h b2(2) b1(3)[folded b2(3)] this ev[unfolded table_rows_def]] obtain b3 where
    b3: "SeqScan_rest pred it b2 = Some (Inr (filter (passes pred) (table_rows ps b), b3))"
      "pool_view {} (content b) (pins b) (next_page_id b) (pool_size b) b3" by (auto simp: table_rows_def selected_def)
  have "SeqScan pred first b = Some (Inr (filter (passes pred) (table_rows ps b), b3))"
    by (simp add: SeqScan_def TableHeap_Begin_def b1(1) b2(1) b3(1))
  then show ?thesis using table_from_view[OF b3(2) h s] by (auto simp: table_map_def)
qed

section \<open>Properties\<close>

text \<open>
  C20: A sequential scan ends and yields, in the order of pages and slots, exactly the live tuples
  of the table that pass the filter predicate: empty pages and deleted slots are skipped, no
  tuple is missed or read twice, every page is unpinned again and the table is unchanged.
\<close>
theorem scan_yields_live_rows:
  assumes "table_ok first ps b" and "evaluates_on (table_rows ps b) pred"
  shows "\<exists>b'. SeqScan pred first b = Some (Inr (filter (passes pred) (table_rows ps b), b')) \<and>
    table_ok first ps b' \<and> same_pins b' b \<and> table_map ps b' = table_map ps b"
  by (rule SeqScan_correct[OF assms])

lemma table_rows_map:
  assumes "table_ok first ps b"
  shows "set (table_rows ps b) = {tuple_of rid bytes | rid bytes. table_map ps b rid = Some (Live bytes)}"
proof -
  have live: "is_live s \<longleftrightarrow> s = Live (live_bytes s)" for s by (cases s) (simp_all add: is_live_def)
  have mem: "x \<in> set (table_rows ps b) \<longleftrightarrow> (\<exists>p\<in>set ps. \<exists>i<GetTupleCount (content b p). is_live (slots (content b p) ! i) \<and>
      x = rid_tuple (content b) \<lparr>rid_page = p, rid_slot = i\<rparr>)" for x
    by (auto simp: table_rows_def live_rids_def page_rids_def)
  have "x \<in> set (table_rows ps b) \<longleftrightarrow> (\<exists>rid bytes. x = tuple_of rid bytes \<and> table_map ps b rid = Some (Live bytes))" for x
    unfolding mem
  proof
    assume "\<exists>p\<in>set ps. \<exists>i<GetTupleCount (content b p). is_live (slots (content b p) ! i) \<and>
      x = rid_tuple (content b) \<lparr>rid_page = p, rid_slot = i\<rparr>"
    then obtain p i where p: "p \<in> set ps" "i < GetTupleCount (content b p)" "is_live (slots (content b p) ! i)"
      "x = rid_tuple (content b) \<lparr>rid_page = p, rid_slot = i\<rparr>" by blast
    then have "table_map ps b \<lparr>rid_page = p, rid_slot = i\<rparr> = Some (Live (live_bytes (slots (content b p) ! i)))"
      using live by (simp add: table_map_def heap_map_def)
    then show "\<exists>rid bytes. x = tuple_of rid bytes \<and> table_map ps b rid = Some (Live bytes)"
      using p(4) by (auto simp: rid_tuple_def)
  next
    assume "\<exists>rid bytes. x = tuple_of rid bytes \<and> table_map ps b rid = Some (Live bytes)"
    then obtain rid bytes where r: "x = tuple_of rid bytes" "table_map ps b rid = Some (Live bytes)" by blast
    note m = heap_map_page[OF r(2)[unfolded table_map_def]]
    have "x = rid_tuple (content b) \<lparr>rid_page = rid_page rid, rid_slot = rid_slot rid\<rparr>"
      using m r(1) by (cases rid) (simp add: rid_tuple_def)
    moreover have "is_live (slots (content b (rid_page rid)) ! rid_slot rid)" using m by (simp add: is_live_def)
    ultimately show "\<exists>p\<in>set ps. \<exists>i<GetTupleCount (content b p). is_live (slots (content b p) ! i) \<and>
      x = rid_tuple (content b) \<lparr>rid_page = p, rid_slot = i\<rparr>"
      using m by (intro bexI[of _ "rid_page rid"] exI[of _ "rid_slot rid"]) simp_all
  qed
  then show ?thesis by blast
qed

theorem scan_yields_live_rows_witness:
  "\<exists>b rid ps b'. table_ok 0 ps b \<and> table_map ps b = [rid \<mapsto> Live [7, 8]] \<and>
     SeqScan None 0 b = Some (Inr (table_rows ps b, b')) \<and> set (table_rows ps b) = {tuple_of rid [7, 8]}"
proof -
  from demo_row obtain b rid ps where b: "table_reach 0 ps [rid \<mapsto> Live [7, 8]] b" .
  have t: "table_ok 0 ps b" and m: "table_map ps b = [rid \<mapsto> Live [7, 8]]" using table_reach_ok[OF b] by simp_all
  have "evaluates_on (table_rows ps b) None" by (simp add: evaluates_on_def)
  from scan_yields_live_rows[OF t this] obtain b' where "SeqScan None 0 b = Some (Inr (table_rows ps b, b'))"
    by (auto simp: passes_def)
  moreover have "set (table_rows ps b) = {tuple_of rid [7, 8]}"
    unfolding table_rows_map[OF t] m by (auto split: if_splits)
  ultimately show ?thesis using t m by blast
qed

end
