(* ===== verification/Executors.thy ===== *)
theory Executors
  imports Plans Hash_Util Catalog Table_Scan
begin

text \<open>
  The executors of \<open>src/execution/\<close>. Each class is a group of functions named after it; the plan
  tree fixes what does not change during execution, the tree \<open>exec_state\<close> holds the mutable
  members. \<open>Next\<close> takes the state, the RID the caller passed by reference and the buffer pool; it
  returns the tuple, or \<open>None\<close> for \<open>false\<close>. Index maintenance is left out: the model covers
  catalogs without indexes. The order in which an unordered map is iterated is a parameter.
\<close>

record 'd exec_ctx =
  ctx_overflow :: overflow
  ctx_floats :: "'d float_ops"
  ctx_regex :: regex
  ctx_catalog :: Catalog
  ctx_order :: "('d Value list \<times> 'd Value list) list \<Rightarrow> ('d Value list \<times> 'd Value list) list"

datatype 'd exec_state =
    SeqScanState Tuple
  | ValuesState nat
  | LimitState nat "'d exec_state"
  | NestedLoopJoinState "Tuple list" Tuple int "'d exec_state" "'d exec_state"
  | HashJoinState "hash_t \<Rightarrow> Tuple list option" "Tuple list" nat "'d exec_state" "'d exec_state"
  | SortState "Tuple list" nat "'d exec_state"
  | TopNState "Tuple list" "'d exec_state"
  | AggregationState "('d Value list \<times> 'd Value list) list" nat "'d exec_state"
  | ModifyState bool "'d exec_state"

type_synonym 'd next_fun = "'d exec_state \<Rightarrow> RID \<Rightarrow> bpm \<Rightarrow> (Tuple option \<times> 'd exec_state \<times> RID \<times> bpm) result option"

text \<open>The state does not belong to the plan; it never happens.\<close>

abbreviation mismatch :: "'a result option" where
  "mismatch \<equiv> Some (Inl Undefined_behaviour)"

text \<open>A value used as a condition: \<open>!value.IsNull() && value.GetAs<bool>()\<close>.\<close>

definition holds :: "'d Value \<Rightarrow> bool result" where
  "holds v = (if IsNull v then Inr False else get_bool v)"

text \<open>
  The loop \<open>while (child->Next(&tuple, &rid)) body\<close>: the body works on the variables \<open>acc\<close> of the
  caller and on the pool.
\<close>

partial_function (option) poll ::
  "(Tuple \<Rightarrow> RID \<Rightarrow> 'a \<Rightarrow> bpm \<Rightarrow> ('a \<times> bpm) result option) \<Rightarrow> 'd next_fun \<Rightarrow> 'd exec_state \<Rightarrow> RID \<Rightarrow> 'a \<Rightarrow> bpm \<Rightarrow>
   ('a \<times> 'd exec_state \<times> bpm) result option" where
  "poll body nx s rid acc b =
     bind_ro (nx s rid b) (\<lambda>(t, s, rid, b). case t of
       None \<Rightarrow> Some (Inr (acc, s, b))
     | Some t \<Rightarrow> bind_ro (body t rid acc b) (\<lambda>(acc, b). poll body nx s rid acc b))"

text \<open>A body that does not use the pool.\<close>

definition pure_body :: "(Tuple \<Rightarrow> 'a \<Rightarrow> 'a result) \<Rightarrow> Tuple \<Rightarrow> RID \<Rightarrow> 'a \<Rightarrow> bpm \<Rightarrow> ('a \<times> bpm) result option" where
  "pure_body f t rid acc b = Some (bind_r (f t acc) (\<lambda>acc. Inr (acc, b)))"

definition push_back :: "Tuple \<Rightarrow> Tuple list \<Rightarrow> Tuple list result" where
  "push_back t ts = Inr (ts @ [t])"

section \<open>Scans and values\<close>

definition SeqScanExecutor_pred :: "'d exec_ctx \<Rightarrow> Schema \<Rightarrow> 'd expr option \<Rightarrow> (Tuple \<Rightarrow> bool result) option" where
  "SeqScanExecutor_pred X schema pred =
     map_option (\<lambda>e t. bind_r (Evaluate (ctx_floats X) (ctx_regex X) (Some t) schema e) get_bool) pred"

text \<open>\<open>table_info_\<close> of the constructor: a null pointer when the table does not exist.\<close>

definition table_of :: "'d exec_ctx \<Rightarrow> nat \<Rightarrow> (Schema \<times> int) result" where
  "table_of X oid =
     (case GetTable_oid oid (ctx_catalog X) of
        None \<Rightarrow> Inl Undefined_behaviour
      | Some info \<Rightarrow> (case ti_table info of None \<Rightarrow> Inl Undefined_behaviour | Some first \<Rightarrow> Inr (ti_schema info, first)))"

definition SeqScanExecutor_Init :: "'d exec_ctx \<Rightarrow> nat \<Rightarrow> bpm \<Rightarrow> ('d exec_state \<times> bpm) result option" where
  "SeqScanExecutor_Init X oid b =
     bind_ro (Some (table_of X oid)) (\<lambda>(schema, first).
     bind_ro (TableHeap_Begin first b) (\<lambda>(it, b). Some (Inr (SeqScanState it, b))))"

fun SeqScanExecutor_Next :: "'d exec_ctx \<Rightarrow> nat \<Rightarrow> 'd expr option \<Rightarrow> 'd next_fun" where
  "SeqScanExecutor_Next X oid pred (SeqScanState it) rid b =
     bind_ro (Some (table_of X oid)) (\<lambda>(schema, first).
     bind_ro (SeqScan_Next (SeqScanExecutor_pred X schema pred) it b) (\<lambda>(t, it, b).
     Some (Inr (t, SeqScanState it, case t of None \<Rightarrow> rid | Some t \<Rightarrow> trid t, b))))"
| "SeqScanExecutor_Next X oid pred _ rid b = mismatch"

definition dummy_schema :: Schema where
  "dummy_schema = new_Schema []"

fun ValuesExecutor_Next :: "'d exec_ctx \<Rightarrow> Schema \<Rightarrow> 'd expr list list \<Rightarrow> 'd next_fun" where
  "ValuesExecutor_Next X out rows (ValuesState cursor) rid b =
     (if cursor \<ge> length rows then Some (Inr (None, ValuesState cursor, rid, b))
      else Some (bind_r (map_r (Evaluate (ctx_floats X) (ctx_regex X) None dummy_schema) (rows ! cursor)) (\<lambda>values.
        bind_r (Tuple_of_values (ctx_floats X) values out) (\<lambda>t. Inr (Some t, ValuesState (cursor + 1), rid, b)))))"
| "ValuesExecutor_Next X out rows _ rid b = mismatch"

section \<open>Filter, projection, limit\<close>

text \<open>\<open>ev\<close> evaluates the predicate on a tuple of the child as a condition.\<close>

partial_function (option) FilterExecutor_Next ::
  "(Tuple \<Rightarrow> bool result) \<Rightarrow> 'd next_fun \<Rightarrow> 'd exec_state \<Rightarrow> RID \<Rightarrow> bpm \<Rightarrow> (Tuple option \<times> 'd exec_state \<times> RID \<times> bpm) result option"
where
  "FilterExecutor_Next ev nx s rid b =
     bind_ro (nx s rid b) (\<lambda>(t, s, rid, b). case t of
       None \<Rightarrow> Some (Inr (None, s, rid, b))
     | Some tuple \<Rightarrow> bind_ro (Some (ev tuple)) (\<lambda>ok.
         if ok then Some (Inr (Some tuple, s, rid, b)) else FilterExecutor_Next ev nx s rid b))"

definition FilterExecutor_pred :: "'d exec_ctx \<Rightarrow> Schema \<Rightarrow> 'd expr \<Rightarrow> Tuple \<Rightarrow> bool result" where
  "FilterExecutor_pred X schema e t = bind_r (Evaluate (ctx_floats X) (ctx_regex X) (Some t) schema e) holds"

definition ProjectionExecutor_Next :: "(Tuple \<Rightarrow> Tuple result) \<Rightarrow> 'd next_fun \<Rightarrow> 'd next_fun" where
  "ProjectionExecutor_Next compute nx s rid b =
     bind_ro (nx s rid b) (\<lambda>(t, s, rid, b). case t of
       None \<Rightarrow> Some (Inr (None, s, rid, b))
     | Some child_tuple \<Rightarrow> Some (bind_r (compute child_tuple) (\<lambda>tuple. Inr (Some tuple, s, rid, b))))"

definition projected :: "'d exec_ctx \<Rightarrow> Schema \<Rightarrow> Schema \<Rightarrow> 'd expr list \<Rightarrow> Tuple \<Rightarrow> Tuple result" where
  "projected X child_schema out exprs child_tuple =
     bind_r (map_r (Evaluate (ctx_floats X) (ctx_regex X) (Some child_tuple) child_schema) exprs) (\<lambda>values.
     Tuple_of_values (ctx_floats X) values out)"

text \<open>\<open>count_\<close> is 32 bits wide, the limit 64.\<close>

fun LimitExecutor_Next :: "nat \<Rightarrow> 'd next_fun \<Rightarrow> 'd next_fun" where
  "LimitExecutor_Next limit nx (LimitState count s) rid b =
     (if count \<ge> limit then Some (Inr (None, LimitState count s, rid, b))
      else bind_ro (nx s rid b) (\<lambda>(t, s, rid, b). case t of
          None \<Rightarrow> Some (Inr (None, LimitState count s, rid, b))
        | Some tuple \<Rightarrow> Some (Inr (Some tuple, LimitState ((count + 1) mod 2 ^ 32) s, rid, b))))"
| "LimitExecutor_Next limit nx _ rid b = mismatch"

section \<open>Joins\<close>

definition tuple_values :: "'d float_ops \<Rightarrow> Schema \<Rightarrow> Tuple \<Rightarrow> 'd Value list result" where
  "tuple_values F schema t = map_r (Tuple_GetValue F t schema) [0..<GetColumnCount schema]"

definition null_values :: "'d float_ops \<Rightarrow> Schema \<Rightarrow> 'd Value list result" where
  "null_values F schema = map_r (\<lambda>c. GetNullValueByType F (column_type c)) (columns schema)"

definition joined_tuple :: "'d float_ops \<Rightarrow> Schema \<Rightarrow> Schema \<Rightarrow> Schema \<Rightarrow> Tuple \<Rightarrow> Tuple \<Rightarrow> Tuple result" where
  "joined_tuple F ls rs out lt rt =
     bind_r (tuple_values F ls lt) (\<lambda>lv. bind_r (tuple_values F rs rt) (\<lambda>rv. Tuple_of_values F (lv @ rv) out))"

definition padded_tuple :: "'d float_ops \<Rightarrow> Schema \<Rightarrow> Schema \<Rightarrow> Schema \<Rightarrow> Tuple \<Rightarrow> Tuple result" where
  "padded_tuple F ls rs out lt =
     bind_r (tuple_values F ls lt) (\<lambda>lv. bind_r (null_values F rs) (\<lambda>rv. Tuple_of_values F (lv @ rv) out))"

definition NestedLoopJoinExecutor_Matched ::
  "'d exec_ctx \<Rightarrow> Schema \<Rightarrow> Schema \<Rightarrow> 'd expr \<Rightarrow> Tuple \<Rightarrow> Tuple \<Rightarrow> bool result" where
  "NestedLoopJoinExecutor_Matched X ls rs pred lt rt =
     bind_r (EvaluateJoin (ctx_floats X) (ctx_regex X) (Some lt) ls (Some rt) rs pred) holds"

text \<open>The first matching right tuple from an index on.\<close>

fun match_from :: "(Tuple \<Rightarrow> bool result) \<Rightarrow> nat \<Rightarrow> Tuple list \<Rightarrow> (nat \<times> Tuple) option result" where
  "match_from matched ridx [] = Inr None"
| "match_from matched ridx (t # ts) =
     bind_r (matched t) (\<lambda>ok. if ok then Inr (Some (ridx, t)) else match_from matched (ridx + 1) ts)"

text \<open>The loop of \<open>Next\<close>; \<open>idx\<close> is \<open>right_tuple_idx_\<close>.\<close>

partial_function (option) NestedLoopJoin_loop ::
  "(Tuple \<Rightarrow> Tuple \<Rightarrow> bool result) \<Rightarrow> (Tuple \<Rightarrow> Tuple \<Rightarrow> Tuple result) \<Rightarrow> (Tuple \<Rightarrow> Tuple result) \<Rightarrow> bool \<Rightarrow> 'd next_fun \<Rightarrow>
   Tuple list \<Rightarrow> Tuple \<Rightarrow> int \<Rightarrow> 'd exec_state \<Rightarrow> RID \<Rightarrow> bpm \<Rightarrow>
   (Tuple option \<times> Tuple \<times> int \<times> 'd exec_state \<times> bpm) result option" where
  "NestedLoopJoin_loop matched emit pad is_left nx rights lt idx ls erid b =
     bind_ro (if idx \<ge> 0 then Some (Inr (True, lt, ls, erid, b))
              else bind_ro (nx ls erid b) (\<lambda>(t, ls, erid, b). case t of
                  None \<Rightarrow> Some (Inr (False, lt, ls, erid, b))
                | Some t \<Rightarrow> Some (Inr (True, t, ls, erid, b)))) (\<lambda>(go, lt, ls, erid, b).
     if \<not> go then Some (Inr (None, lt, idx, ls, b))
     else let start = (if idx < 0 then 0 else nat idx)
       in bind_ro (Some (match_from (matched lt) start (drop start rights))) (\<lambda>m. case m of
            Some (ridx, rt) \<Rightarrow> Some (bind_r (emit lt rt) (\<lambda>tuple. Inr (Some tuple, lt, swrap 32 (int ridx + 1), ls, b)))
          | None \<Rightarrow>
              if idx = -1 \<and> is_left then Some (bind_r (pad lt) (\<lambda>tuple. Inr (Some tuple, lt, idx, ls, b)))
              else NestedLoopJoin_loop matched emit pad is_left nx rights lt (-1) ls erid b))"

fun NestedLoopJoinExecutor_Next ::
  "(Tuple \<Rightarrow> Tuple \<Rightarrow> bool result) \<Rightarrow> (Tuple \<Rightarrow> Tuple \<Rightarrow> Tuple result) \<Rightarrow> (Tuple \<Rightarrow> Tuple result) \<Rightarrow> bool \<Rightarrow> 'd next_fun \<Rightarrow>
   'd next_fun" where
  "NestedLoopJoinExecutor_Next matched emit pad is_left nx (NestedLoopJoinState rights lt idx ls rs) rid b =
     bind_ro (NestedLoopJoin_loop matched emit pad is_left nx rights lt idx ls new_RID b) (\<lambda>(t, lt, idx, ls, b).
     Some (Inr (t, NestedLoopJoinState rights lt idx ls rs, rid, b)))"
| "NestedLoopJoinExecutor_Next matched emit pad is_left nx _ rid b = mismatch"

type_synonym 'd init_fun = "'d exec_state \<Rightarrow> bpm \<Rightarrow> ('d exec_state \<times> bpm) result option"

fun NestedLoopJoinExecutor_Init :: "'d init_fun \<Rightarrow> 'd init_fun \<Rightarrow> 'd next_fun \<Rightarrow> 'd init_fun" where
  "NestedLoopJoinExecutor_Init linit rinit rnx (NestedLoopJoinState rights lt idx ls rs) b =
     bind_ro (linit ls b) (\<lambda>(ls, b).
     bind_ro (rinit rs b) (\<lambda>(rs, b).
     bind_ro (poll (pure_body push_back) rnx rs new_RID rights b) (\<lambda>(rights, rs, b).
     Some (Inr (NestedLoopJoinState rights lt idx ls rs, b)))))"
| "NestedLoopJoinExecutor_Init linit rinit rnx _ b = mismatch"

text \<open>The two loops of the hash join: the table of right tuples by hash, then the output.\<close>

definition hash_right :: "(Tuple \<Rightarrow> hash_t result) \<Rightarrow> Tuple \<Rightarrow> (hash_t \<Rightarrow> Tuple list option) \<Rightarrow> (hash_t \<Rightarrow> Tuple list option) result" where
  "hash_right rhash t table =
     bind_r (rhash t) (\<lambda>h. Inr (table(h \<mapsto> (case table h of None \<Rightarrow> [] | Some ts \<Rightarrow> ts) @ [t])))"

text \<open>\<open>same\<close> compares the key of a right tuple with that of the left tuple.\<close>

fun probe_bucket :: "(Tuple \<Rightarrow> bool result) \<Rightarrow> (Tuple \<Rightarrow> Tuple result) \<Rightarrow> Tuple list \<Rightarrow> Tuple list \<Rightarrow> Tuple list result" where
  "probe_bucket same emit [] out = Inr out"
| "probe_bucket same emit (rt # rts) out =
     bind_r (same rt) (\<lambda>ok.
     bind_r (if ok then bind_r (emit rt) (\<lambda>t. Inr (out @ [t])) else Inr out) (probe_bucket same emit rts))"

definition probe_left ::
  "(Tuple \<Rightarrow> hash_t result) \<Rightarrow> (Tuple \<Rightarrow> Tuple \<Rightarrow> bool result) \<Rightarrow> (Tuple \<Rightarrow> Tuple \<Rightarrow> Tuple result) \<Rightarrow> (Tuple \<Rightarrow> Tuple result) \<Rightarrow>
   bool \<Rightarrow> (hash_t \<Rightarrow> Tuple list option) \<Rightarrow> Tuple \<Rightarrow> Tuple list \<Rightarrow> Tuple list result" where
  "probe_left lhash same emit pad is_left table lt out =
     bind_r (lhash lt) (\<lambda>h. case table h of
       Some rts \<Rightarrow> probe_bucket (same lt) (emit lt) rts out
     | None \<Rightarrow> if is_left then bind_r (pad lt) (\<lambda>t. Inr (out @ [t])) else Inr out)"

definition join_key :: "'d exec_ctx \<Rightarrow> Schema \<Rightarrow> 'd expr \<Rightarrow> Tuple \<Rightarrow> 'd Value result" where
  "join_key X schema key t = Evaluate (ctx_floats X) (ctx_regex X) (Some t) schema key"

definition key_hash :: "'d exec_ctx \<Rightarrow> Schema \<Rightarrow> 'd expr \<Rightarrow> Tuple \<Rightarrow> hash_t result" where
  "key_hash X schema key t = bind_r (join_key X schema key t) (HashValue (ctx_floats X))"

definition same_key :: "'d exec_ctx \<Rightarrow> Schema \<Rightarrow> Schema \<Rightarrow> 'd expr \<Rightarrow> 'd expr \<Rightarrow> Tuple \<Rightarrow> Tuple \<Rightarrow> bool result" where
  "same_key X ls rs lkey rkey lt rt =
     bind_r (join_key X ls lkey lt) (\<lambda>l. bind_r (join_key X rs rkey rt) (\<lambda>r.
     bind_r (Value_CompareEquals (ctx_floats X) r l) (\<lambda>c. Inr (c = CmpTrue))))"

fun HashJoinExecutor_Init ::
  "(Tuple \<Rightarrow> hash_t result) \<Rightarrow> (Tuple \<Rightarrow> hash_t result) \<Rightarrow> (Tuple \<Rightarrow> Tuple \<Rightarrow> bool result) \<Rightarrow>
   (Tuple \<Rightarrow> Tuple \<Rightarrow> Tuple result) \<Rightarrow> (Tuple \<Rightarrow> Tuple result) \<Rightarrow> bool \<Rightarrow>
   'd init_fun \<Rightarrow> 'd next_fun \<Rightarrow> 'd init_fun \<Rightarrow> 'd next_fun \<Rightarrow> 'd init_fun" where
  "HashJoinExecutor_Init lhash rhash same emit pad is_left linit lnx rinit rnx (HashJoinState table out cursor ls rs) b =
     bind_ro (linit ls b) (\<lambda>(ls, b).
     bind_ro (rinit rs b) (\<lambda>(rs, b).
     bind_ro (poll (pure_body (hash_right rhash)) rnx rs new_RID table b) (\<lambda>(table, rs, b).
     bind_ro (poll (pure_body (probe_left lhash same emit pad is_left table)) lnx ls new_RID out b) (\<lambda>(out, ls, b).
     Some (Inr (HashJoinState table out 0 ls rs, b))))))"
| "HashJoinExecutor_Init lhash rhash same emit pad is_left linit lnx rinit rnx _ b = mismatch"

fun HashJoinExecutor_Next :: "'d next_fun" where
  "HashJoinExecutor_Next (HashJoinState table out cursor ls rs) rid b =
     (if cursor = length out then Some (Inr (None, HashJoinState table out cursor ls rs, rid, b))
      else Some (Inr (Some (out ! cursor), HashJoinState table out (cursor + 1) ls rs, rid, b)))"
| "HashJoinExecutor_Next _ rid b = mismatch"

section \<open>Sorting\<close>

text \<open>
  The comparison of \<open>SortExecutor::Init\<close> and \<open>TopNExecutor::Init\<close>, where \<open>static_cast<bool>\<close> makes
  CmpNull true.
\<close>

definition to_bool :: "CmpBool \<Rightarrow> bool" where
  "to_bool c \<longleftrightarrow> c \<noteq> CmpFalse"

text \<open>\<open>value\<close> gives the value of an order-by expression on a row.\<close>

fun order_less :: "'d float_ops \<Rightarrow> ('e \<Rightarrow> 'r \<Rightarrow> 'd Value result) \<Rightarrow> (OrderByType \<times> 'e) list \<Rightarrow> 'r \<Rightarrow> 'r \<Rightarrow> bool result" where
  "order_less F value [] a b = Inr False"
| "order_less F value ((ty, e) # obs) a b =
     bind_r (value e a) (\<lambda>va. bind_r (value e b) (\<lambda>vb.
     let before = (if ty = DESC then Value_CompareGreaterThan F va vb else Value_CompareLessThan F va vb);
         after = (if ty = DESC then Value_CompareLessThan F va vb else Value_CompareGreaterThan F va vb)
     in bind_r before (\<lambda>c. if to_bool c then Inr True
        else bind_r after (\<lambda>c. if to_bool c then Inr False else order_less F value obs a b))))"

text \<open>The standard library requires a strict weak order; anything else is undefined.\<close>

definition strict_weak :: "('r \<Rightarrow> 'r \<Rightarrow> bool result) \<Rightarrow> 'r list \<Rightarrow> bool result" where
  "strict_weak cmp ts =
     bind_r (map_r (\<lambda>a. map_r (cmp a) ts) ts) (\<lambda>m.
     let n = length ts
     in Inr (list_all (\<lambda>i. list_all (\<lambda>j. (m ! i ! j \<longrightarrow> \<not> m ! j ! i) \<and>
         list_all (\<lambda>k. m ! i ! k \<longrightarrow> m ! i ! j \<or> m ! j ! k) [0..<n]) [0..<n]) [0..<n]))"

definition require_strict_weak :: "('r \<Rightarrow> 'r \<Rightarrow> bool result) \<Rightarrow> 'r list \<Rightarrow> unit result" where
  "require_strict_weak cmp ts =
     (if length ts < 2 then Inr () else bind_r (strict_weak cmp ts) (\<lambda>ok. guard_r ok Undefined_behaviour))"

text \<open>\<open>std::sort\<close>; rows that compare equal keep their order here, which the library does not promise.\<close>

fun insert_by :: "('r \<Rightarrow> 'r \<Rightarrow> bool result) \<Rightarrow> 'r \<Rightarrow> 'r list \<Rightarrow> 'r list result" where
  "insert_by cmp x [] = Inr [x]"
| "insert_by cmp x (y # ys) =
     bind_r (cmp x y) (\<lambda>l. if l then Inr (x # y # ys) else bind_r (insert_by cmp x ys) (\<lambda>zs. Inr (y # zs)))"

definition std_sort :: "('r \<Rightarrow> 'r \<Rightarrow> bool result) \<Rightarrow> 'r list \<Rightarrow> 'r list result" where
  "std_sort cmp ts = bind_r (require_strict_weak cmp ts) (\<lambda>_. fold_r (insert_by cmp) ts [])"

definition tuple_less :: "'d exec_ctx \<Rightarrow> Schema \<Rightarrow> 'd order_bys \<Rightarrow> Tuple \<Rightarrow> Tuple \<Rightarrow> bool result" where
  "tuple_less X schema obs = order_less (ctx_floats X) (\<lambda>e t. Evaluate (ctx_floats X) (ctx_regex X) (Some t) schema e) obs"

fun SortExecutor_Init :: "(Tuple \<Rightarrow> Tuple \<Rightarrow> bool result) \<Rightarrow> 'd init_fun \<Rightarrow> 'd next_fun \<Rightarrow> 'd init_fun" where
  "SortExecutor_Init cmp init nx (SortState ts cursor s) b =
     bind_ro (init s b) (\<lambda>(s, b).
     bind_ro (poll (pure_body push_back) nx s new_RID ts b) (\<lambda>(ts, s, b).
     Some (bind_r (std_sort cmp ts) (\<lambda>ts. Inr (SortState ts 0 s, b)))))"
| "SortExecutor_Init cmp init nx _ b = mismatch"

fun SortExecutor_Next :: "'d next_fun" where
  "SortExecutor_Next (SortState ts cursor s) rid b =
     (if cursor = length ts then Some (Inr (None, SortState ts cursor s, rid, b))
      else Some (Inr (Some (ts ! cursor), SortState ts (cursor + 1) s, trid (ts ! cursor), b)))"
| "SortExecutor_Next _ rid b = mismatch"

text \<open>\<open>std::priority_queue\<close> as a list with its top first.\<close>

fun pq_push :: "('r \<Rightarrow> 'r \<Rightarrow> bool result) \<Rightarrow> 'r \<Rightarrow> 'r list \<Rightarrow> 'r list result" where
  "pq_push cmp x [] = Inr [x]"
| "pq_push cmp x (y # ys) =
     bind_r (cmp x y) (\<lambda>l. if l then bind_r (pq_push cmp x ys) (\<lambda>zs. Inr (y # zs)) else Inr (x # y # ys))"

definition topn_push :: "('r \<Rightarrow> 'r \<Rightarrow> bool result) \<Rightarrow> nat \<Rightarrow> 'r \<Rightarrow> 'r list \<Rightarrow> 'r list result" where
  "topn_push cmp n x pq = bind_r (pq_push cmp x pq) (\<lambda>pq. Inr (if length pq > n then tl pq else pq))"

text \<open>Popping the queue onto a stack.\<close>

fun pq_to_stack :: "'r list \<Rightarrow> 'r list \<Rightarrow> 'r list" where
  "pq_to_stack [] stack = stack"
| "pq_to_stack (x # pq) stack = pq_to_stack pq (x # stack)"

text \<open>The second component collects what the comparison has to order.\<close>

definition topn_body :: "('r \<Rightarrow> 'r \<Rightarrow> bool result) \<Rightarrow> nat \<Rightarrow> 'r \<Rightarrow> 'r list \<times> 'r list \<Rightarrow> ('r list \<times> 'r list) result" where
  "topn_body cmp n x acc = (case acc of (pq, seen) \<Rightarrow> bind_r (topn_push cmp n x pq) (\<lambda>pq. Inr (pq, seen @ [x])))"

fun TopNExecutor_Init :: "(Tuple \<Rightarrow> Tuple \<Rightarrow> bool result) \<Rightarrow> nat \<Rightarrow> 'd init_fun \<Rightarrow> 'd next_fun \<Rightarrow> 'd init_fun" where
  "TopNExecutor_Init cmp n init nx (TopNState stack s) b =
     bind_ro (init s b) (\<lambda>(s, b).
     bind_ro (poll (pure_body (topn_body cmp n)) nx s new_RID ([], []) b) (\<lambda>((pq, seen), s, b).
     Some (bind_r (if n = 0 then Inr () else require_strict_weak cmp seen) (\<lambda>_.
     Inr (TopNState (pq_to_stack pq stack) s, b)))))"
| "TopNExecutor_Init cmp n init nx _ b = mismatch"

fun TopNExecutor_Next :: "'d next_fun" where
  "TopNExecutor_Next (TopNState stack s) rid b =
     (case stack of
        [] \<Rightarrow> Some (Inr (None, TopNState stack s, rid, b))
      | t # rest \<Rightarrow> Some (Inr (Some t, TopNState rest s, trid t, b)))"
| "TopNExecutor_Next _ rid b = mismatch"

section \<open>Aggregation\<close>

definition GenerateInitialAggregateValue :: "'d float_ops \<Rightarrow> AggregationType list \<Rightarrow> 'd Value list result" where
  "GenerateInitialAggregateValue F agg_types =
     map_r (\<lambda>agg_type. if agg_type = CountStarAggregate then GetIntegerValue 0 else GetNullValueByType F INTEGER) agg_types"

fun combine_one :: "overflow \<Rightarrow> 'd float_ops \<Rightarrow> AggregationType \<Rightarrow> 'd Value \<Rightarrow> 'd Value \<Rightarrow> 'd Value result" where
  "combine_one ov F CountStarAggregate res inp = bind_r (GetIntegerValue 1) (Value_Add ov F res)"
| "combine_one ov F CountAggregate res inp =
     bind_r (if IsNull res then GetIntegerValue 0 else Inr res) (\<lambda>res.
     if \<not> IsNull inp then bind_r (GetIntegerValue 1) (Value_Add ov F res) else Inr res)"
| "combine_one ov F SumAggregate res inp =
     (if IsNull res then Inr inp else if \<not> IsNull inp then Value_Add ov F res inp else Inr res)"
| "combine_one ov F MinAggregate res inp =
     (if IsNull res then Inr inp else if \<not> IsNull inp then Value_Min F res inp else Inr res)"
| "combine_one ov F MaxAggregate res inp =
     (if IsNull res then Inr inp else if \<not> IsNull inp then Value_Max F res inp else Inr res)"

text \<open>\<open>n\<close> is the number of aggregate expressions.\<close>

definition CombineAggregateValues ::
  "overflow \<Rightarrow> 'd float_ops \<Rightarrow> nat \<Rightarrow> AggregationType list \<Rightarrow> 'd Value list \<Rightarrow> 'd Value list \<Rightarrow> 'd Value list result" where
  "CombineAggregateValues ov F n agg_types res inp =
     (if n \<le> length agg_types \<and> n \<le> length res \<and> n \<le> length inp
      then fold_r (\<lambda>i res. bind_r (combine_one ov F (agg_types ! i) (res ! i) (inp ! i)) (\<lambda>v. Inr (res[i := v]))) [0..<n] res
      else Inl Undefined_behaviour)"

fun AggregateKey_eq :: "'d float_ops \<Rightarrow> 'd Value list \<Rightarrow> 'd Value list \<Rightarrow> bool result" where
  "AggregateKey_eq F group_bys [] = Inr True"
| "AggregateKey_eq F [] (y # ys) = Inl Undefined_behaviour"
| "AggregateKey_eq F (x # xs) (y # ys) =
     bind_r (Value_CompareEquals F x y) (\<lambda>c. if c \<noteq> CmpTrue then Inr False else AggregateKey_eq F xs ys)"

fun hash_AggregateKey :: "'d float_ops \<Rightarrow> hash_t \<Rightarrow> 'd Value list \<Rightarrow> hash_t result" where
  "hash_AggregateKey F curr_hash [] = Inr curr_hash"
| "hash_AggregateKey F curr_hash (key # keys) =
     bind_r (if \<not> IsNull key then bind_r (HashValue F key) (\<lambda>h. Inr (CombineHashes curr_hash h)) else Inr curr_hash)
       (\<lambda>h. hash_AggregateKey F h keys)"

text \<open>The position of a key in the table: equal hash, then equality.\<close>

fun find_key :: "'d float_ops \<Rightarrow> 'd Value list \<Rightarrow> nat \<Rightarrow> ('d Value list \<times> 'd Value list) list \<Rightarrow> nat option result" where
  "find_key F key i [] = Inr None"
| "find_key F key i ((k, v) # ht) =
     bind_r (hash_AggregateKey F 0 key) (\<lambda>h. bind_r (hash_AggregateKey F 0 k) (\<lambda>h'.
     bind_r (if h = h' then AggregateKey_eq F key k else Inr False) (\<lambda>ok.
     if ok then Inr (Some i) else find_key F key (i + 1) ht)))"

text \<open>\<open>ht_[key]\<close> adds an empty value when the key is not found, as with a key that is not equal to itself.\<close>

definition InsertCombine ::
  "overflow \<Rightarrow> 'd float_ops \<Rightarrow> nat \<Rightarrow> AggregationType list \<Rightarrow> 'd Value list \<Rightarrow> 'd Value list \<Rightarrow>
   ('d Value list \<times> 'd Value list) list \<Rightarrow> ('d Value list \<times> 'd Value list) list result" where
  "InsertCombine ov F n agg_types key val ht =
     bind_r (find_key F key 0 ht) (\<lambda>found.
     bind_r (if found = None then bind_r (GenerateInitialAggregateValue F agg_types) (\<lambda>v. Inr (ht @ [(key, v)])) else Inr ht) (\<lambda>ht.
     bind_r (find_key F key 0 ht) (\<lambda>at.
     let (ht, i) = (case at of Some i \<Rightarrow> (ht, i) | None \<Rightarrow> (ht @ [(key, [])], length ht))
     in bind_r (CombineAggregateValues ov F n agg_types (snd (ht ! i)) val) (\<lambda>v. Inr (ht[i := (fst (ht ! i), v)])))))"

text \<open>\<open>keys\<close> and \<open>vals\<close> are MakeAggregateKey and MakeAggregateValue on a tuple.\<close>

definition aggregate_body ::
  "overflow \<Rightarrow> 'd float_ops \<Rightarrow> nat \<Rightarrow> AggregationType list \<Rightarrow> ('r \<Rightarrow> 'd Value list result) \<Rightarrow> ('r \<Rightarrow> 'd Value list result) \<Rightarrow> 'r \<Rightarrow>
   ('d Value list \<times> 'd Value list) list \<Rightarrow> ('d Value list \<times> 'd Value list) list result" where
  "aggregate_body ov F n agg_types keys vals t ht =
     bind_r (keys t) (\<lambda>k. bind_r (vals t) (\<lambda>v. InsertCombine ov F n agg_types k v ht))"

text \<open>The table that the iterator walks over.\<close>

definition finish_aggregation ::
  "'d float_ops \<Rightarrow> Schema \<Rightarrow> AggregationType list \<Rightarrow> ('d Value list \<times> 'd Value list) list \<Rightarrow>
   ('d Value list \<times> 'd Value list) list result" where
  "finish_aggregation F out agg_types ht =
     (if ht = [] \<and> GetColumnCount out = 1
      then bind_r (GenerateInitialAggregateValue F agg_types) (\<lambda>v. Inr [([], v)]) else Inr ht)"

definition aggregate_exprs :: "'d exec_ctx \<Rightarrow> Schema \<Rightarrow> 'd expr list \<Rightarrow> Tuple \<Rightarrow> 'd Value list result" where
  "aggregate_exprs X schema exprs t = map_r (Evaluate (ctx_floats X) (ctx_regex X) (Some t) schema) exprs"

fun AggregationExecutor_Init ::
  "'d exec_ctx \<Rightarrow> Schema \<Rightarrow> nat \<Rightarrow> AggregationType list \<Rightarrow> (Tuple \<Rightarrow> 'd Value list result) \<Rightarrow> (Tuple \<Rightarrow> 'd Value list result) \<Rightarrow>
   'd init_fun \<Rightarrow> 'd next_fun \<Rightarrow> 'd init_fun" where
  "AggregationExecutor_Init X out n agg_types keys vals init nx (AggregationState ht cursor s) b =
     bind_ro (init s b) (\<lambda>(s, b).
     bind_ro (poll (pure_body (aggregate_body (ctx_overflow X) (ctx_floats X) n agg_types keys vals)) nx s new_RID ht b)
       (\<lambda>(ht, s, b).
     Some (bind_r (finish_aggregation (ctx_floats X) out agg_types ht) (\<lambda>ht. Inr (AggregationState (ctx_order X ht) 0 s, b)))))"
| "AggregationExecutor_Init X out n agg_types keys vals init nx _ b = mismatch"

fun AggregationExecutor_Next :: "'d exec_ctx \<Rightarrow> Schema \<Rightarrow> 'd next_fun" where
  "AggregationExecutor_Next X out (AggregationState ht cursor s) rid b =
     (if cursor = length ht then Some (Inr (None, AggregationState ht cursor s, rid, b))
      else Some (bind_r (Tuple_of_values (ctx_floats X) (fst (ht ! cursor) @ snd (ht ! cursor)) out) (\<lambda>t.
        Inr (Some t, AggregationState ht (cursor + 1) s, rid, b))))"
| "AggregationExecutor_Next X out _ rid b = mismatch"

section \<open>Insert, update, delete\<close>

text \<open>The result of a modification: one row with the number of rows changed, 32 bits wide.\<close>

definition count_tuple :: "'d float_ops \<Rightarrow> Schema \<Rightarrow> int \<Rightarrow> Tuple result" where
  "count_tuple F out n = bind_r (Value_int32 INTEGER n) (\<lambda>v. Tuple_of_values F [v] out)"

definition count_up :: "int \<Rightarrow> int result" where
  "count_up n = (if in_int32 (n + 1) then Inr (n + 1) else Inl Undefined_behaviour)"

text \<open>The bodies of the three loops; the RID of the caller is changed by an insertion.\<close>

definition insert_body :: "int \<Rightarrow> Tuple \<Rightarrow> RID \<Rightarrow> int \<times> RID \<Rightarrow> bpm \<Rightarrow> ((int \<times> RID) \<times> bpm) result option" where
  "insert_body first t emit_rid acc b =
     (case acc of (n, rid) \<Rightarrow>
        bind_ro (TableHeap_InsertTuple t first b) (\<lambda>(inserted, b). case inserted of
          None \<Rightarrow> Some (Inr ((n, rid), b))
        | Some rid \<Rightarrow> Some (bind_r (count_up n) (\<lambda>n. Inr ((n, rid), b)))))"

definition delete_body :: "Tuple \<Rightarrow> RID \<Rightarrow> int \<times> RID \<Rightarrow> bpm \<Rightarrow> ((int \<times> RID) \<times> bpm) result option" where
  "delete_body t emit_rid acc b =
     (case acc of (n, rid) \<Rightarrow>
        bind_ro (Some (TableHeap_MarkDelete emit_rid b)) (\<lambda>(deleted, b).
        if deleted then Some (bind_r (count_up n) (\<lambda>n. Inr ((n, rid), b))) else Some (Inr ((n, rid), b))))"

definition update_body ::
  "(Tuple \<Rightarrow> Tuple result) \<Rightarrow> Tuple \<Rightarrow> RID \<Rightarrow> int \<times> RID \<Rightarrow> bpm \<Rightarrow> ((int \<times> RID) \<times> bpm) result option" where
  "update_body compute t old_rid acc b =
     (case acc of (n, rid) \<Rightarrow>
        bind_ro (Some (compute t)) (\<lambda>to_update.
        bind_ro (Some (TableHeap_UpdateTuple to_update old_rid b)) (\<lambda>(updated, b).
        if updated then Some (bind_r (count_up n) (\<lambda>n. Inr ((n, rid), b))) else Some (Inr ((n, rid), b)))))"

text \<open>\<open>Next\<close> of the three: the first call does all the work, the second one ends.\<close>

fun ModifyExecutor_Next ::
  "'d exec_ctx \<Rightarrow> Schema \<Rightarrow> (Tuple \<Rightarrow> RID \<Rightarrow> int \<times> RID \<Rightarrow> bpm \<Rightarrow> ((int \<times> RID) \<times> bpm) result option) \<Rightarrow> 'd next_fun \<Rightarrow> 'd next_fun" where
  "ModifyExecutor_Next X out body nx (ModifyState is_end s) rid b =
     (if is_end then Some (Inr (None, ModifyState is_end s, rid, b))
      else bind_ro (poll body nx s new_RID (0, rid) b) (\<lambda>((n, rid), s, b).
        Some (bind_r (count_tuple (ctx_floats X) out n) (\<lambda>t. Inr (Some t, ModifyState True s, rid, b)))))"
| "ModifyExecutor_Next X out body nx _ rid b = mismatch"

text \<open>\<open>Init\<close> of the three reads the name of the table.\<close>

fun ModifyExecutor_Init :: "'d exec_ctx \<Rightarrow> nat \<Rightarrow> 'd init_fun \<Rightarrow> 'd init_fun" where
  "ModifyExecutor_Init X oid init (ModifyState is_end s) b =
     bind_ro (init s b) (\<lambda>(s, b). bind_ro (Some (table_of X oid)) (\<lambda>_. Some (Inr (ModifyState is_end s, b))))"
| "ModifyExecutor_Init X oid init _ b = mismatch"

section \<open>Plans\<close>

text \<open>The tree of executors that the factory builds; a join of another type is refused.\<close>

definition join_supported :: "JoinType \<Rightarrow> bool" where
  "join_supported jt \<longleftrightarrow> jt = LEFT \<or> jt = INNER"

primrec CreateExecutor :: "'d plan \<Rightarrow> 'd exec_state result" where
  "CreateExecutor (SeqScanPlan out oid name pred) = Inr (SeqScanState new_Tuple)"
| "CreateExecutor (ValuesPlan out rows) = Inr (ValuesState 0)"
| "CreateExecutor (FilterPlan out pred child) = CreateExecutor child"
| "CreateExecutor (ProjectionPlan out exprs child) = CreateExecutor child"
| "CreateExecutor (LimitPlan out child limit) = bind_r (CreateExecutor child) (\<lambda>s. Inr (LimitState 0 s))"
| "CreateExecutor (NestedLoopJoinPlan out left right pred jt) =
     bind_r (CreateExecutor left) (\<lambda>ls. bind_r (CreateExecutor right) (\<lambda>rs.
     bind_r (guard_r (join_supported jt) (Throw NOT_IMPLEMENTED)) (\<lambda>_. Inr (NestedLoopJoinState [] new_Tuple (-1) ls rs))))"
| "CreateExecutor (HashJoinPlan out left right lkey rkey jt) =
     bind_r (CreateExecutor left) (\<lambda>ls. bind_r (CreateExecutor right) (\<lambda>rs.
     bind_r (guard_r (join_supported jt) (Throw NOT_IMPLEMENTED)) (\<lambda>_. Inr (HashJoinState Map.empty [] 0 ls rs))))"
| "CreateExecutor (SortPlan out child obs) = bind_r (CreateExecutor child) (\<lambda>s. Inr (SortState [] 0 s))"
| "CreateExecutor (TopNPlan out child obs n) = bind_r (CreateExecutor child) (\<lambda>s. Inr (TopNState [] s))"
| "CreateExecutor (AggregationPlan out child gbs aggs types) =
     bind_r (CreateExecutor child) (\<lambda>s. Inr (AggregationState [] 0 s))"
| "CreateExecutor (InsertPlan out child oid) = bind_r (CreateExecutor child) (\<lambda>s. Inr (ModifyState False s))"
| "CreateExecutor (UpdatePlan out child oid exprs) = bind_r (CreateExecutor child) (\<lambda>s. Inr (ModifyState False s))"
| "CreateExecutor (DeletePlan out child oid) = bind_r (CreateExecutor child) (\<lambda>s. Inr (ModifyState False s))"

definition insert_of :: "'d exec_ctx \<Rightarrow> nat \<Rightarrow> Tuple \<Rightarrow> RID \<Rightarrow> int \<times> RID \<Rightarrow> bpm \<Rightarrow> ((int \<times> RID) \<times> bpm) result option" where
  "insert_of X oid t emit_rid acc b = bind_ro (Some (table_of X oid)) (\<lambda>(schema, first). insert_body first t emit_rid acc b)"

primrec Next :: "'d exec_ctx \<Rightarrow> 'd plan \<Rightarrow> 'd next_fun" where
  "Next X (SeqScanPlan out oid name pred) = SeqScanExecutor_Next X oid pred"
| "Next X (ValuesPlan out rows) = ValuesExecutor_Next X out rows"
| "Next X (FilterPlan out pred child) = FilterExecutor_Next (FilterExecutor_pred X (OutputSchema child) pred) (Next X child)"
| "Next X (ProjectionPlan out exprs child) =
     ProjectionExecutor_Next (projected X (OutputSchema child) out exprs) (Next X child)"
| "Next X (LimitPlan out child limit) = LimitExecutor_Next limit (Next X child)"
| "Next X (NestedLoopJoinPlan out left right pred jt) =
     NestedLoopJoinExecutor_Next (NestedLoopJoinExecutor_Matched X (OutputSchema left) (OutputSchema right) pred)
       (joined_tuple (ctx_floats X) (OutputSchema left) (OutputSchema right) out)
       (padded_tuple (ctx_floats X) (OutputSchema left) (OutputSchema right) out) (jt = LEFT) (Next X left)"
| "Next X (HashJoinPlan out left right lkey rkey jt) = HashJoinExecutor_Next"
| "Next X (SortPlan out child obs) = SortExecutor_Next"
| "Next X (TopNPlan out child obs n) = TopNExecutor_Next"
| "Next X (AggregationPlan out child gbs aggs types) = AggregationExecutor_Next X out"
| "Next X (InsertPlan out child oid) = ModifyExecutor_Next X out (insert_of X oid) (Next X child)"
| "Next X (UpdatePlan out child oid exprs) =
     ModifyExecutor_Next X out (update_body (projected X (OutputSchema child) (OutputSchema child) exprs)) (Next X child)"
| "Next X (DeletePlan out child oid) = ModifyExecutor_Next X out delete_body (Next X child)"

primrec Init :: "'d exec_ctx \<Rightarrow> 'd plan \<Rightarrow> 'd init_fun" where
  "Init X (SeqScanPlan out oid name pred) = (\<lambda>s b. SeqScanExecutor_Init X oid b)"
| "Init X (ValuesPlan out rows) = (\<lambda>s b. Some (Inr (ValuesState 0, b)))"
| "Init X (FilterPlan out pred child) = Init X child"
| "Init X (ProjectionPlan out exprs child) = Init X child"
| "Init X (LimitPlan out child limit) = (\<lambda>s b. case s of
     LimitState count s \<Rightarrow> bind_ro (Init X child s b) (\<lambda>(s, b). Some (Inr (LimitState 0 s, b))) | _ \<Rightarrow> mismatch)"
| "Init X (NestedLoopJoinPlan out left right pred jt) = NestedLoopJoinExecutor_Init (Init X left) (Init X right) (Next X right)"
| "Init X (HashJoinPlan out left right lkey rkey jt) =
     HashJoinExecutor_Init (key_hash X (OutputSchema left) lkey) (key_hash X (OutputSchema right) rkey)
       (same_key X (OutputSchema left) (OutputSchema right) lkey rkey)
       (joined_tuple (ctx_floats X) (OutputSchema left) (OutputSchema right) out)
       (padded_tuple (ctx_floats X) (OutputSchema left) (OutputSchema right) out) (jt = LEFT)
       (Init X left) (Next X left) (Init X right) (Next X right)"
| "Init X (SortPlan out child obs) = SortExecutor_Init (tuple_less X (OutputSchema child) obs) (Init X child) (Next X child)"
| "Init X (TopNPlan out child obs n) = TopNExecutor_Init (tuple_less X (OutputSchema child) obs) n (Init X child) (Next X child)"
| "Init X (AggregationPlan out child gbs aggs types) =
     AggregationExecutor_Init X out (length aggs) types (aggregate_exprs X (OutputSchema child) gbs)
       (aggregate_exprs X (OutputSchema child) aggs) (Init X child) (Next X child)"
| "Init X (InsertPlan out child oid) = ModifyExecutor_Init X oid (Init X child)"
| "Init X (UpdatePlan out child oid exprs) = ModifyExecutor_Init X oid (Init X child)"
| "Init X (DeletePlan out child oid) = ModifyExecutor_Init X oid (Init X child)"

text \<open>
  \<open>ExecutionEngine::Execute\<close>: the flag, the result set and the pool, which is not known after a
  caught exception.
\<close>

definition Execute :: "'d exec_ctx \<Rightarrow> 'd plan \<Rightarrow> bpm \<Rightarrow> (bool \<times> Tuple list \<times> bpm option) result option" where
  "Execute X plan b =
     bind_ro (Some (CreateExecutor plan)) (\<lambda>s.
     let run = bind_ro (Init X plan s b) (\<lambda>(s, b). poll (pure_body push_back) (Next X plan) s new_RID [] b)
     in case run of
          Some (Inl (Throw EXECUTION)) \<Rightarrow> Some (Inr (False, [], None))
        | _ \<Rightarrow> bind_ro run (\<lambda>(ts, s, b). Some (Inr (True, ts, Some b))))"

end
