(* ===== verification/Relational.thy ===== *)
theory Relational
  imports Executors
begin

text \<open>
  The relational meaning of a plan: lists of rows of values, without tuples, iterators or the
  buffer pool. \<open>rows\<close> is the specification that the executors refine; it fails where a row does not
  fit its schema, where the standard library gives no guarantee, and for modifications.
\<close>

section \<open>Expressions on rows\<close>

definition row_column :: "'d Value list \<Rightarrow> nat \<Rightarrow> 'd Value result" where
  "row_column row i = (if i < length row then Inr (row ! i) else Inl Undefined_behaviour)"

primrec eval_row :: "'d float_ops \<Rightarrow> regex \<Rightarrow> 'd Value list \<Rightarrow> 'd expr \<Rightarrow> 'd Value result" where
  "eval_row F R row (ColumnValue t i T) = row_column row i"
| "eval_row F R row (Constant v) = Inr v"
| "eval_row F R row (Arithmetic l r k) = bind_r (eval_row F R row l) (\<lambda>a. bind_r (eval_row F R row r) (arithmetic_value F k a))"
| "eval_row F R row (Comparison l r k) = bind_r (eval_row F R row l) (\<lambda>a. bind_r (eval_row F R row r) (comparison_value F k a))"
| "eval_row F R row (Logic l r k) = bind_r (eval_row F R row l) (\<lambda>a. bind_r (eval_row F R row r) (logic_value k a))"
| "eval_row F R row (Like l r) = bind_r (eval_row F R row l) (\<lambda>a. bind_r (eval_row F R row r) (like_value F R a))"

primrec eval_join :: "'d float_ops \<Rightarrow> regex \<Rightarrow> 'd Value list \<Rightarrow> 'd Value list \<Rightarrow> 'd expr \<Rightarrow> 'd Value result" where
  "eval_join F R x y (ColumnValue t i T) = row_column (if t = 0 then x else y) i"
| "eval_join F R x y (Constant v) = Inr v"
| "eval_join F R x y (Arithmetic l r k) = bind_r (eval_join F R x y l) (\<lambda>a. bind_r (eval_join F R x y r) (arithmetic_value F k a))"
| "eval_join F R x y (Comparison l r k) = bind_r (eval_join F R x y l) (\<lambda>a. bind_r (eval_join F R x y r) (comparison_value F k a))"
| "eval_join F R x y (Logic l r k) = bind_r (eval_join F R x y l) (\<lambda>a. bind_r (eval_join F R x y r) (logic_value k a))"
| "eval_join F R x y (Like l r) = bind_r (eval_join F R x y l) (\<lambda>a. bind_r (eval_join F R x y r) (like_value F R a))"

section \<open>Operators\<close>

fun filter_r :: "('r \<Rightarrow> bool result) \<Rightarrow> 'r list \<Rightarrow> 'r list result" where
  "filter_r p [] = Inr []"
| "filter_r p (r # rs) = bind_r (p r) (\<lambda>ok. bind_r (filter_r p rs) (\<lambda>rs. Inr (if ok then r # rs else rs)))"

text \<open>A schema whose offsets are those of its columns, and a row that fits it.\<close>

definition schema_ok :: "Schema \<Rightarrow> bool" where
  "schema_ok s \<longleftrightarrow> s = new_Schema (columns s)"

definition fit :: "'d float_ops \<Rightarrow> Schema \<Rightarrow> 'd Value list \<Rightarrow> 'd Value list result" where
  "fit F s row = (if schema_ok s \<and> row_ok F (columns s) row then Inr row else Inl Undefined_behaviour)"

text \<open>Schemas under which a tuple reads the same.\<close>

definition layout :: "Schema \<Rightarrow> (TypeId \<times> nat) list" where
  "layout s = map (\<lambda>c. (column_type c, column_offset c)) (columns s)"

definition same_layout :: "Schema \<Rightarrow> Schema \<Rightarrow> 'a \<Rightarrow> 'a result" where
  "same_layout s s' x = (if layout s = layout s' then Inr x else Inl Undefined_behaviour)"

text \<open>The rows that a left row joins with.\<close>

definition padded :: "'d float_ops \<Rightarrow> Schema \<Rightarrow> Schema \<Rightarrow> bool \<Rightarrow> 'd Value list \<Rightarrow> 'd Value list list \<Rightarrow> 'd Value list list result" where
  "padded F rs out pad l matches =
     (if pad \<and> matches = [] then bind_r (null_values F rs) (\<lambda>nulls. bind_r (fit F out (l @ nulls)) (\<lambda>row. Inr [row]))
      else map_r (\<lambda>r. fit F out (l @ r)) matches)"

definition loop_join ::
  "'d float_ops \<Rightarrow> ('d Value list \<Rightarrow> 'd Value list \<Rightarrow> bool result) \<Rightarrow> Schema \<Rightarrow> Schema \<Rightarrow> bool \<Rightarrow>
   'd Value list list \<Rightarrow> 'd Value list list \<Rightarrow> 'd Value list list result" where
  "loop_join F matched rs out pad lrows rrows =
     (if length rrows < 2 ^ 31 - 1
      then bind_r (map_r (\<lambda>l. bind_r (filter_r (matched l) rrows) (padded F rs out pad l)) lrows) (\<lambda>xss. Inr (concat xss))
      else Inl Undefined_behaviour)"

text \<open>
  A hash join: the bucket of the left key's hash, and the right rows in it with an equal key. A left
  row is padded only when the bucket is empty.
\<close>

definition hash_join ::
  "'d float_ops \<Rightarrow> ('d Value list \<Rightarrow> hash_t result) \<Rightarrow> ('d Value list \<Rightarrow> hash_t result) \<Rightarrow>
   ('d Value list \<Rightarrow> 'd Value list \<Rightarrow> bool result) \<Rightarrow> Schema \<Rightarrow> Schema \<Rightarrow> bool \<Rightarrow>
   'd Value list list \<Rightarrow> 'd Value list list \<Rightarrow> 'd Value list list result" where
  "hash_join F lhash rhash same rs out pad lrows rrows =
     bind_r (map_r rhash rrows) (\<lambda>hs.
     bind_r (map_r (\<lambda>l. bind_r (lhash l) (\<lambda>h.
         let bucket = map snd (filter (\<lambda>(h', r). h' = h) (zip hs rrows))
         in bind_r (filter_r (same l) bucket) (padded F rs out (pad \<and> bucket = []) l))) lrows) (\<lambda>xss.
     Inr (concat xss)))"

definition row_less :: "'d exec_ctx \<Rightarrow> 'd order_bys \<Rightarrow> 'd Value list \<Rightarrow> 'd Value list \<Rightarrow> bool result" where
  "row_less X = order_less (ctx_floats X) (\<lambda>e row. eval_row (ctx_floats X) (ctx_regex X) row e)"

text \<open>
  Grouping: the distinct keys in the order of their first rows, each with the values of its rows
  combined in order. Keys are equal as values; they are integers or texts made from strings, and
  none is NULL.
\<close>

definition plain_key :: "'d float_ops \<Rightarrow> 'd Value \<Rightarrow> bool" where
  "plain_key F v \<longleftrightarrow> wf_Value F v \<and> \<not> IsNull v \<and>
     (vtype v \<in> {TINYINT, SMALLINT, INTEGER, BIGINT} \<or>
      vtype v = VARCHAR \<and> (case vval v of VStr s \<Rightarrow> s \<noteq> [] \<and> last s = NUL \<and> length s \<le> 2 ^ 31 | _ \<Rightarrow> False))"

definition plain_keys :: "'d float_ops \<Rightarrow> 'd Value list list \<Rightarrow> bool" where
  "plain_keys F keys \<longleftrightarrow> list_all (list_all (plain_key F)) keys \<and> list_all (\<lambda>k. map vtype k = map vtype (hd keys)) keys"

definition firsts :: "'a list \<Rightarrow> 'a list" where
  "firsts xs = rev (remdups (rev xs))"

definition group_rows ::
  "overflow \<Rightarrow> 'd float_ops \<Rightarrow> nat \<Rightarrow> AggregationType list \<Rightarrow> ('d Value list \<times> 'd Value list) list \<Rightarrow>
   ('d Value list \<times> 'd Value list) list result" where
  "group_rows ov F n types kvs =
     map_r (\<lambda>k. bind_r (GenerateInitialAggregateValue F types) (\<lambda>init.
       bind_r (fold_r (\<lambda>v acc. CombineAggregateValues ov F n types acc v) (map snd (filter (\<lambda>kv. fst kv = k) kvs)) init)
         (\<lambda>v. Inr (k, v)))) (firsts (map fst kvs))"

definition keyed_rows ::
  "('d Value list \<Rightarrow> 'd Value list result) \<Rightarrow> ('d Value list \<Rightarrow> 'd Value list result) \<Rightarrow> 'd Value list list \<Rightarrow>
   ('d Value list \<times> 'd Value list) list result" where
  "keyed_rows keys vals = map_r (\<lambda>row. bind_r (keys row) (\<lambda>k. bind_r (vals row) (\<lambda>v. Inr (k, v))))"

section \<open>The rows of a plan\<close>

text \<open>\<open>db\<close> gives the rows of each table.\<close>

primrec rows :: "'d exec_ctx \<Rightarrow> (nat \<Rightarrow> 'd Value list list) \<Rightarrow> 'd plan \<Rightarrow> 'd Value list list result" where
  "rows X db (SeqScanPlan out oid name pred) =
     bind_r (table_of X oid) (\<lambda>(schema, first).
     bind_r (same_layout out schema (db oid)) (filter_r (\<lambda>row. case pred of
       None \<Rightarrow> Inr True | Some e \<Rightarrow> bind_r (eval_row (ctx_floats X) (ctx_regex X) row e) get_bool)))"
| "rows X db (ValuesPlan out es) =
     map_r (\<lambda>es. bind_r (map_r (eval_row (ctx_floats X) (ctx_regex X) []) es) (fit (ctx_floats X) out)) es"
| "rows X db (FilterPlan out pred child) =
     bind_r (rows X db child) (\<lambda>rs. bind_r (same_layout out (OutputSchema child) rs)
       (filter_r (\<lambda>row. bind_r (eval_row (ctx_floats X) (ctx_regex X) row pred) holds)))"
| "rows X db (ProjectionPlan out exprs child) =
     bind_r (rows X db child)
       (map_r (\<lambda>row. bind_r (map_r (eval_row (ctx_floats X) (ctx_regex X) row) exprs) (fit (ctx_floats X) out)))"
| "rows X db (LimitPlan out child limit) =
     bind_r (rows X db child) (\<lambda>rs. bind_r (same_layout out (OutputSchema child) rs) (\<lambda>rs.
     if limit < 2 ^ 32 then Inr (take limit rs) else Inl Undefined_behaviour))"
| "rows X db (NestedLoopJoinPlan out left right pred jt) =
     bind_r (rows X db left) (\<lambda>ls. bind_r (rows X db right) (\<lambda>rs.
     bind_r (guard_r (join_supported jt) (Throw NOT_IMPLEMENTED)) (\<lambda>_.
     loop_join (ctx_floats X) (\<lambda>l r. bind_r (eval_join (ctx_floats X) (ctx_regex X) l r pred) holds) (OutputSchema right) out
       (jt = LEFT) ls rs)))"
| "rows X db (HashJoinPlan out left right lkey rkey jt) =
     bind_r (rows X db left) (\<lambda>ls. bind_r (rows X db right) (\<lambda>rs.
     bind_r (guard_r (join_supported jt) (Throw NOT_IMPLEMENTED)) (\<lambda>_.
     hash_join (ctx_floats X)
       (\<lambda>l. bind_r (eval_row (ctx_floats X) (ctx_regex X) l lkey) (HashValue (ctx_floats X)))
       (\<lambda>r. bind_r (eval_row (ctx_floats X) (ctx_regex X) r rkey) (HashValue (ctx_floats X)))
       (\<lambda>l r. bind_r (eval_row (ctx_floats X) (ctx_regex X) l lkey) (\<lambda>x. bind_r (eval_row (ctx_floats X) (ctx_regex X) r rkey) (\<lambda>y.
         bind_r (Value_CompareEquals (ctx_floats X) y x) (\<lambda>c. Inr (c = CmpTrue)))))
       (OutputSchema right) out (jt = LEFT) ls rs)))"
| "rows X db (SortPlan out child obs) =
     bind_r (rows X db child) (\<lambda>rs. bind_r (same_layout out (OutputSchema child) rs) (std_sort (row_less X obs)))"
| "rows X db (TopNPlan out child obs n) =
     bind_r (rows X db child) (\<lambda>rs. bind_r (same_layout out (OutputSchema child) rs) (\<lambda>rs.
     if n = 0 then Inr [] else bind_r (std_sort (row_less X obs) rs) (\<lambda>rs. Inr (take n rs))))"
| "rows X db (AggregationPlan out child gbs aggs types) =
     bind_r (rows X db child) (\<lambda>rs.
     bind_r (keyed_rows (\<lambda>row. map_r (eval_row (ctx_floats X) (ctx_regex X) row) gbs)
       (\<lambda>row. map_r (eval_row (ctx_floats X) (ctx_regex X) row) aggs) rs) (\<lambda>kvs.
     if plain_keys (ctx_floats X) (map fst kvs)
     then bind_r (group_rows (ctx_overflow X) (ctx_floats X) (length aggs) types kvs) (\<lambda>groups.
       bind_r (finish_aggregation (ctx_floats X) out types groups) (\<lambda>groups.
       map_r (\<lambda>(k, v). fit (ctx_floats X) out (k @ v)) (ctx_order X groups)))
     else Inl Undefined_behaviour))"
| "rows X db (InsertPlan out child oid) = Inl Undefined_behaviour"
| "rows X db (UpdatePlan out child oid exprs) = Inl Undefined_behaviour"
| "rows X db (DeletePlan out child oid) = Inl Undefined_behaviour"

end
