(* ===== verification/Planner_Semantics.thy ===== *)
theory Planner_Semantics
  imports Planner Relational
begin

text \<open>
  What a SELECT means, without plans: relations with named columns, expressions whose column
  references are resolved by name, and the clauses in the order FROM, WHERE, GROUP BY, HAVING,
  SELECT, DISTINCT, ORDER BY, LIMIT. This is the specification of the planner.
\<close>

section \<open>Relations and expressions\<close>

type_synonym header = "(string \<times> TypeId) list"
type_synonym 'd relation = "header \<times> 'd Value list list"

definition header_of :: "Schema \<Rightarrow> header" where
  "header_of s = map (\<lambda>c. (column_name c, column_type c)) (columns s)"

text \<open>The first column of a name.\<close>

definition column_at :: "string \<Rightarrow> header \<Rightarrow> nat option" where
  "column_at n h = List.find (\<lambda>i. fst (h ! i) = n) [0..<length h]"

definition bound_operator :: "'d float_ops \<Rightarrow> regex \<Rightarrow> string \<Rightarrow> 'd Value \<Rightarrow> 'd Value \<Rightarrow> 'd Value result" where
  "bound_operator F R op a b =
     (if op \<in> {''='', ''==''} then comparison_value F Equal a b
      else if op \<in> {''!='', ''<>''} then comparison_value F NotEqual a b
      else if op = ''<'' then comparison_value F LessThan a b
      else if op = ''<='' then comparison_value F LessThanOrEqual a b
      else if op = ''>'' then comparison_value F GreaterThan a b
      else if op = ''>='' then comparison_value F GreaterThanOrEqual a b
      else if op = ''LIKE'' then like_value F R a b
      else if op = ''+'' then arithmetic_value F Plus a b
      else if op = ''-'' then arithmetic_value F Minus a b
      else if op = ''and'' then logic_value And a b
      else if op = ''or'' then logic_value Or a b
      else Inl (Throw ExceptionType.INVALID))"

text \<open>The aggregate calls of an expression from left to right.\<close>

primrec agg_calls :: "'d bound_expr \<Rightarrow> 'd bound_expr list" where
  "agg_calls InvalidExpr = []"
| "agg_calls (BoundConstant v) = []"
| "agg_calls (BoundColumnRef n) = []"
| "agg_calls (BoundAggCall f d args) = [BoundAggCall f d args]"
| "agg_calls BoundStar = []"
| "agg_calls (BoundUnaryOp op e) = []"
| "agg_calls (BoundBinaryOp op l r) = agg_calls l @ agg_calls r"
| "agg_calls (BoundAlias a e) = agg_calls e"

text \<open>The value of an expression on a row; \<open>aggs\<close> holds the values of its aggregate calls.\<close>

primrec bound_eval ::
  "'d float_ops \<Rightarrow> regex \<Rightarrow> header \<Rightarrow> 'd Value list \<Rightarrow> 'd Value list \<Rightarrow> 'd bound_expr \<Rightarrow> 'd Value result" where
  "bound_eval F R h row aggs InvalidExpr = Inl (Throw ExceptionType.INVALID)"
| "bound_eval F R h row aggs (BoundConstant v) = Inr v"
| "bound_eval F R h row aggs (BoundColumnRef n) =
     (case column_at (join_names n) h of None \<Rightarrow> Inl Std_logic_error | Some i \<Rightarrow> row_column row i)"
| "bound_eval F R h row aggs (BoundAggCall f d args) = (case aggs of [] \<Rightarrow> Inl Undefined_behaviour | v # _ \<Rightarrow> Inr v)"
| "bound_eval F R h row aggs BoundStar = Inl (Throw ExceptionType.INVALID)"
| "bound_eval F R h row aggs (BoundUnaryOp op e) = Inl (Throw ExceptionType.INVALID)"
| "bound_eval F R h row aggs (BoundBinaryOp op l r) =
     bind_r (bound_eval F R h row aggs l) (\<lambda>a.
     bind_r (bound_eval F R h row (drop (length (agg_calls l)) aggs) r) (bound_operator F R op a))"
| "bound_eval F R h row aggs (BoundAlias a e) = bound_eval F R h row aggs e"

fun bound_evals ::
  "'d float_ops \<Rightarrow> regex \<Rightarrow> header \<Rightarrow> 'd Value list \<Rightarrow> 'd Value list \<Rightarrow> 'd bound_expr list \<Rightarrow> 'd Value list result" where
  "bound_evals F R h row aggs [] = Inr []"
| "bound_evals F R h row aggs (e # es) =
     bind_r (bound_eval F R h row aggs e) (\<lambda>v.
     bind_r (bound_evals F R h row (drop (length (agg_calls e)) aggs) es) (\<lambda>vs. Inr (v # vs)))"

primrec bound_type :: "header \<Rightarrow> 'd bound_expr \<Rightarrow> TypeId" where
  "bound_type h InvalidExpr = TypeId.INVALID"
| "bound_type h (BoundConstant v) = vtype v"
| "bound_type h (BoundColumnRef n) =
     (case column_at (join_names n) h of None \<Rightarrow> TypeId.INVALID | Some i \<Rightarrow> snd (h ! i))"
| "bound_type h (BoundAggCall f d args) = INTEGER"
| "bound_type h BoundStar = TypeId.INVALID"
| "bound_type h (BoundUnaryOp op e) = TypeId.INVALID"
| "bound_type h (BoundBinaryOp op l r) = (if op \<in> {''+'', ''-''} then INTEGER else BOOLEAN)"
| "bound_type h (BoundAlias a e) = bound_type h e"

primrec item_name :: "'d bound_expr \<Rightarrow> string" where
  "item_name InvalidExpr = UNNAMED_COLUMN"
| "item_name (BoundConstant v) = UNNAMED_COLUMN"
| "item_name (BoundColumnRef n) = join_names n"
| "item_name (BoundAggCall f d args) = UNNAMED_COLUMN"
| "item_name BoundStar = UNNAMED_COLUMN"
| "item_name (BoundUnaryOp op e) = UNNAMED_COLUMN"
| "item_name (BoundBinaryOp op l r) = UNNAMED_COLUMN"
| "item_name (BoundAlias a e) = a"

definition item_header :: "header \<Rightarrow> 'd bound_expr list \<Rightarrow> header" where
  "item_header h = map (\<lambda>e. (item_name e, bound_type h e))"

text \<open>Unnamed items are numbered.\<close>

fun number_items :: "header \<Rightarrow> nat \<Rightarrow> header \<times> nat" where
  "number_items [] uid = ([], uid)"
| "number_items ((n, T) # h) uid =
     (if n = UNNAMED_COLUMN
      then let (h, uid') = number_items h ((uid + 1) mod 2 ^ 64) in ((''__unnamed#'' @ to_string_int (int uid), T) # h, uid')
      else let (h, uid') = number_items h uid in ((n, T) # h, uid'))"

section \<open>Clauses\<close>

definition truth :: "'d exec_ctx \<Rightarrow> header \<Rightarrow> 'd bound_expr \<Rightarrow> 'd Value list \<Rightarrow> 'd Value list \<Rightarrow> bool result" where
  "truth X h e aggs row = bind_r (bound_eval (ctx_floats X) (ctx_regex X) h row aggs e) holds"

definition sem_where :: "'d exec_ctx \<Rightarrow> 'd bound_expr \<Rightarrow> 'd relation \<Rightarrow> 'd relation result" where
  "sem_where X cond rel = (case rel of (h, rs) \<Rightarrow>
     if cond = InvalidExpr then Inr rel else bind_r (filter_r (truth X h cond []) rs) (\<lambda>rs. Inr (h, rs)))"

definition sem_items :: "'d exec_ctx \<Rightarrow> 'd bound_expr list \<Rightarrow> nat \<Rightarrow> 'd relation \<Rightarrow> ('d relation \<times> nat) result" where
  "sem_items X items uid rel = (case rel of (h, rs) \<Rightarrow>
     bind_r (map_r (\<lambda>row. bound_evals (ctx_floats X) (ctx_regex X) h row [] items) rs) (\<lambda>rs.
     case number_items (item_header h items) uid of (h', uid) \<Rightarrow> Inr ((h', rs), uid)))"

text \<open>An aggregate call: its type, and its input on a row.\<close>

definition call_type :: "'d bound_expr \<Rightarrow> AggregationType" where
  "call_type c = (case c of
     BoundAggCall f d args \<Rightarrow>
       if f = ''min'' then MinAggregate else if f = ''max'' then MaxAggregate
       else if f = ''sum'' then SumAggregate else if f = ''count'' then CountAggregate else CountStarAggregate
   | _ \<Rightarrow> CountStarAggregate)"

definition call_input :: "'d exec_ctx \<Rightarrow> header \<Rightarrow> 'd Value list \<Rightarrow> 'd bound_expr \<Rightarrow> 'd Value result" where
  "call_input X h row c = (case c of
     BoundAggCall f d (arg # _) \<Rightarrow> bound_eval (ctx_floats X) (ctx_regex X) h row [] arg
   | _ \<Rightarrow> GetIntegerValue 1)"

text \<open>
  The groups of a relation: one row for each key, with the key and the values of the calls. An
  empty relation gives one row only when there is one call and no key.
\<close>

definition sem_groups ::
  "'d exec_ctx \<Rightarrow> 'd bound_expr list \<Rightarrow> 'd bound_expr list \<Rightarrow> 'd relation \<Rightarrow> 'd relation result" where
  "sem_groups X groups calls rel = (case rel of (h, rs) \<Rightarrow>
     bind_r (keyed_rows (\<lambda>row. map_r (bound_eval (ctx_floats X) (ctx_regex X) h row []) groups)
       (\<lambda>row. map_r (call_input X h row) calls) rs) (\<lambda>kvs.
     if \<not> plain_keys (ctx_floats X) (map fst kvs) then Inl Undefined_behaviour
     else bind_r (group_rows (ctx_overflow X) (ctx_floats X) (length calls) (map call_type calls) kvs) (\<lambda>gs.
       bind_r (if gs = [] \<and> groups = [] \<and> length calls = 1
               then bind_r (GenerateInitialAggregateValue (ctx_floats X) (map call_type calls)) (\<lambda>v. Inr [([], v)])
               else Inr gs) (\<lambda>gs.
       Inr (item_header h groups @ map (\<lambda>i. (agg_name i, INTEGER)) [0..<length calls],
            map (\<lambda>(k, v). k @ v) (ctx_order X gs))))))"

text \<open>GROUP BY, HAVING and SELECT.\<close>

definition sem_aggregate ::
  "'d exec_ctx \<Rightarrow> 'd bound_expr list \<Rightarrow> 'd bound_expr \<Rightarrow> 'd bound_expr list \<Rightarrow> 'd relation \<Rightarrow> 'd relation result" where
  "sem_aggregate X groups cond items rel =
     bind_r (sem_groups X groups (agg_calls cond @ concat (map agg_calls items)) rel) (\<lambda>(h, rs).
     bind_r (if cond = InvalidExpr then Inr rs
             else filter_r (\<lambda>row. truth X h cond (drop (length groups) row) row) rs) (\<lambda>rs.
     bind_r (map_r (\<lambda>row. bound_evals (ctx_floats X) (ctx_regex X) h row
         (drop (length groups + length (agg_calls cond)) row) items) rs) (\<lambda>rs.
     Inr (item_header h items, rs))))"

definition sem_distinct :: "'d exec_ctx \<Rightarrow> bool \<Rightarrow> 'd relation \<Rightarrow> 'd relation result" where
  "sem_distinct X dist rel = (case rel of (h, rs) \<Rightarrow>
     if \<not> dist then Inr rel
     else if plain_keys (ctx_floats X) rs then Inr (h, map fst (ctx_order X (map (\<lambda>r. (r, [])) (firsts rs))))
     else Inl Undefined_behaviour)"

definition sem_order_by :: "'d exec_ctx \<Rightarrow> (OrderByType \<times> 'd bound_expr) list \<Rightarrow> 'd relation \<Rightarrow> 'd relation result" where
  "sem_order_by X obs rel = (case rel of (h, rs) \<Rightarrow>
     if obs = [] then Inr rel
     else bind_r (std_sort (order_less (ctx_floats X) (\<lambda>e row. bound_eval (ctx_floats X) (ctx_regex X) h row [] e) obs) rs)
            (\<lambda>rs. Inr (h, rs)))"

definition sem_limit :: "'d exec_ctx \<Rightarrow> 'd bound_expr \<Rightarrow> 'd relation \<Rightarrow> 'd relation result" where
  "sem_limit X count rel = (case rel of (h, rs) \<Rightarrow>
     if count = InvalidExpr then Inr rel else bind_r (constant_count (ctx_floats X) count) (\<lambda>n. Inr (h, take n rs)))"

definition sem_clauses :: "'d exec_ctx \<Rightarrow> 'd select \<Rightarrow> nat \<Rightarrow> 'd relation \<Rightarrow> ('d relation \<times> nat) result" where
  "sem_clauses X s uid rel =
     bind_r (sem_where X (where_clause s) rel) (\<lambda>rel.
     bind_r (any_aggregation (select_list s)) (\<lambda>has_agg.
     bind_r (if having s \<noteq> InvalidExpr \<or> group_by s \<noteq> [] \<or> has_agg
             then bind_r (sem_aggregate X (group_by s) (having s) (select_list s) rel) (\<lambda>rel. Inr (rel, uid))
             else sem_items X (select_list s) uid rel) (\<lambda>(rel, uid).
     bind_r (sem_distinct X (is_distinct s) rel) (\<lambda>rel.
     bind_r (sem_order_by X (sort_clause s) rel) (\<lambda>rel.
     bind_r (sem_limit X (limit_count s) rel) (\<lambda>rel. Inr (rel, uid)))))))"

section \<open>Tables and statements\<close>

definition sem_join ::
  "'d exec_ctx \<Rightarrow> bool \<Rightarrow> ('d Value list \<Rightarrow> bool result) \<Rightarrow> 'd relation \<Rightarrow> 'd relation \<Rightarrow> 'd relation result" where
  "sem_join X outer matched left right = (case (left, right) of ((lh, ls), (rh, rs)) \<Rightarrow>
     bind_r (map_r (\<lambda>l. bind_r (filter_r (\<lambda>r. matched (l @ r)) rs) (\<lambda>ms.
       if outer \<and> ms = [] then bind_r (map_r (GetNullValueByType (ctx_floats X)) (map snd rh)) (\<lambda>nulls. Inr [l @ nulls])
       else Inr (map (\<lambda>r. l @ r) ms))) ls) (\<lambda>rss.
     Inr (lh @ rh, concat rss)))"

definition values_header :: "string \<Rightarrow> 'd bound_expr list \<Rightarrow> header" where
  "values_header identifier row =
     map (\<lambda>(i, e). (identifier @ ''.'' @ to_string_int (int i), bound_type [] e)) (enumerate 0 row)"

definition subquery_header :: "string list list \<Rightarrow> string \<Rightarrow> header \<Rightarrow> header" where
  "subquery_header names alias h = map (\<lambda>i. (alias @ ''.'' @ join_names (names ! i), snd (h ! i))) [0..<length h]"

text \<open>A reference to a CTE has no meaning here: the binder makes none.\<close>

primrec sem_table :: "'d exec_ctx \<Rightarrow> (nat \<Rightarrow> 'd Value list list) \<Rightarrow> 'd table_ref \<Rightarrow> nat \<Rightarrow> ('d relation \<times> nat) result"
    and sem_select :: "'d exec_ctx \<Rightarrow> (nat \<Rightarrow> 'd Value list list) \<Rightarrow> 'd select \<Rightarrow> nat \<Rightarrow> ('d relation \<times> nat) result" where
  "sem_table X db InvalidTableRef uid = Inl (Throw ExceptionType.INVALID)"
| "sem_table X db EmptyTableRef uid = Inr (([], [[]]), uid)"
| "sem_table X db (BaseTableRef table oid alias schema) uid =
     bind_r (GetTable_name table (ctx_catalog X)) (\<lambda>info. case info of
       None \<Rightarrow> Inl Assertion_failed
     | Some info \<Rightarrow>
         Inr ((map (\<lambda>(n, T). (GetBoundTableName table alias @ ''.'' @ n, T)) (header_of schema), db (ti_oid info)), uid))"
| "sem_table X db (JoinRef jt left right cond) uid =
     bind_r (sem_table X db left uid) (\<lambda>(lrel, uid).
     bind_r (sem_table X db right uid) (\<lambda>(rrel, uid).
     bind_r (guard_r (jt \<in> {INNER, LEFT}) (Throw NOT_IMPLEMENTED)) (\<lambda>_.
     bind_r (sem_join X (jt = LEFT) (truth X (fst lrel @ fst rrel) cond []) lrel rrel) (\<lambda>rel. Inr (rel, uid)))))"
| "sem_table X db (CrossProductRef left right) uid =
     bind_r (sem_table X db left uid) (\<lambda>(lrel, uid).
     bind_r (sem_table X db right uid) (\<lambda>(rrel, uid).
     bind_r (sem_join X False (\<lambda>_. Inr True) lrel rrel) (\<lambda>rel. Inr (rel, uid))))"
| "sem_table X db (ExpressionListRef values identifier) uid =
     bind_r (map_r (\<lambda>row. map_r (bound_eval (ctx_floats X) (ctx_regex X) [] [] []) row) values) (\<lambda>rs.
     Inr ((values_header identifier (hd values), rs), uid))"
| "sem_table X db (SubqueryRef s names alias) uid =
     bind_r (sem_select X db s uid) (\<lambda>((h, rs), uid). Inr ((subquery_header names alias h, rs), uid))"
| "sem_table X db (CTERef cte_name alias) uid = Inl Undefined_behaviour"
| "sem_select X db (SelectStatement table items cond groups hv count offset obs withs dist) uid =
     bind_r (sem_table X db table uid) (\<lambda>(rel, uid).
     sem_clauses X (SelectStatement table items cond groups hv count offset obs withs dist) uid rel)"

text \<open>Statements without references to CTEs.\<close>

primrec no_cte :: "'d table_ref \<Rightarrow> bool" and no_cte_select :: "'d select \<Rightarrow> bool" where
  "no_cte InvalidTableRef = True"
| "no_cte EmptyTableRef = True"
| "no_cte (BaseTableRef table oid alias schema) = True"
| "no_cte (JoinRef jt left right cond) = (no_cte left \<and> no_cte right)"
| "no_cte (CrossProductRef left right) = (no_cte left \<and> no_cte right)"
| "no_cte (ExpressionListRef values identifier) = True"
| "no_cte (SubqueryRef s names alias) = no_cte_select s"
| "no_cte (CTERef cte_name alias) = False"
| "no_cte_select (SelectStatement table items cond groups hv count offset obs withs dist) = no_cte table"

end
