(* ===== verification/Optimizer.thy ===== *)
theory Optimizer
  imports Executors
begin

text \<open>
  The optimizer (\<open>src/optimizer/\<close>), for catalogs without indexes and plans without mock scans. A rule
  optimizes the children, then tries its rewriting on the node: \<open>bottom_up\<close> is the common part,
  and each rule is the function of its last step. The rules \<open>OptimizeNLJAsIndexJoin\<close>,
  \<open>OptimizeReorderJoinUseIndex\<close> and \<open>OptimizePredicatePushDown\<close> return such plans as they are, since
  \<open>MatchIndex\<close> finds nothing and no node is a mock scan.
\<close>

section \<open>Traversal\<close>

type_synonym 'd rule = "'d plan \<Rightarrow> 'd plan result"

text \<open>The loop over the children and \<open>CloneWithChildren\<close>.\<close>

primrec bottom_up :: "'d rule \<Rightarrow> 'd rule" where
  "bottom_up f (SeqScanPlan s oid name pred) = f (SeqScanPlan s oid name pred)"
| "bottom_up f (ValuesPlan s es) = f (ValuesPlan s es)"
| "bottom_up f (FilterPlan s pred child) = bind_r (bottom_up f child) (\<lambda>child. f (FilterPlan s pred child))"
| "bottom_up f (ProjectionPlan s exprs child) = bind_r (bottom_up f child) (\<lambda>child. f (ProjectionPlan s exprs child))"
| "bottom_up f (LimitPlan s child limit) = bind_r (bottom_up f child) (\<lambda>child. f (LimitPlan s child limit))"
| "bottom_up f (NestedLoopJoinPlan s left right pred jt) =
     bind_r (bottom_up f left) (\<lambda>left. bind_r (bottom_up f right) (\<lambda>right. f (NestedLoopJoinPlan s left right pred jt)))"
| "bottom_up f (HashJoinPlan s left right lkey rkey jt) =
     bind_r (bottom_up f left) (\<lambda>left. bind_r (bottom_up f right) (\<lambda>right. f (HashJoinPlan s left right lkey rkey jt)))"
| "bottom_up f (SortPlan s child obs) = bind_r (bottom_up f child) (\<lambda>child. f (SortPlan s child obs))"
| "bottom_up f (TopNPlan s child obs n) = bind_r (bottom_up f child) (\<lambda>child. f (TopNPlan s child obs n))"
| "bottom_up f (AggregationPlan s child gbs aggs types) =
     bind_r (bottom_up f child) (\<lambda>child. f (AggregationPlan s child gbs aggs types))"
| "bottom_up f (InsertPlan s child oid) = bind_r (bottom_up f child) (\<lambda>child. f (InsertPlan s child oid))"
| "bottom_up f (UpdatePlan s child oid exprs) = bind_r (bottom_up f child) (\<lambda>child. f (UpdatePlan s child oid exprs))"
| "bottom_up f (DeletePlan s child oid) = bind_r (bottom_up f child) (\<lambda>child. f (DeletePlan s child oid))"

text \<open>\<open>plan->output_schema_ = ...\<close>\<close>

primrec set_output_schema :: "Schema \<Rightarrow> 'd plan \<Rightarrow> 'd plan" where
  "set_output_schema s' (SeqScanPlan s oid name pred) = SeqScanPlan s' oid name pred"
| "set_output_schema s' (ValuesPlan s es) = ValuesPlan s' es"
| "set_output_schema s' (FilterPlan s pred child) = FilterPlan s' pred child"
| "set_output_schema s' (ProjectionPlan s exprs child) = ProjectionPlan s' exprs child"
| "set_output_schema s' (LimitPlan s child limit) = LimitPlan s' child limit"
| "set_output_schema s' (NestedLoopJoinPlan s left right pred jt) = NestedLoopJoinPlan s' left right pred jt"
| "set_output_schema s' (HashJoinPlan s left right lkey rkey jt) = HashJoinPlan s' left right lkey rkey jt"
| "set_output_schema s' (SortPlan s child obs) = SortPlan s' child obs"
| "set_output_schema s' (TopNPlan s child obs n) = TopNPlan s' child obs n"
| "set_output_schema s' (AggregationPlan s child gbs aggs types) = AggregationPlan s' child gbs aggs types"
| "set_output_schema s' (InsertPlan s child oid) = InsertPlan s' child oid"
| "set_output_schema s' (UpdatePlan s child oid exprs) = UpdatePlan s' child oid exprs"
| "set_output_schema s' (DeletePlan s child oid) = DeletePlan s' child oid"

section \<open>Rules of the starter\<close>

fun is_identity :: "nat \<Rightarrow> 'd expr list \<Rightarrow> bool" where
  "is_identity idx [] = True"
| "is_identity idx (ColumnValue t i T # exprs) = (t = 0 \<and> i = idx \<and> is_identity (idx + 1) exprs)"
| "is_identity idx (e # exprs) = False"

fun MergeProjection :: "'d rule" where
  "MergeProjection (ProjectionPlan s exprs child) =
     Inr (if map column_type (columns (OutputSchema child)) = map column_type (columns s) \<and> is_identity 0 exprs
          then set_output_schema s child else ProjectionPlan s exprs child)"
| "MergeProjection p = Inr p"

definition OptimizeMergeProjection :: "'d rule" where
  "OptimizeMergeProjection = bottom_up MergeProjection"

fun MergeFilterNLJ :: "'d float_ops \<Rightarrow> 'd rule" where
  "MergeFilterNLJ F (FilterPlan s pred (NestedLoopJoinPlan js left right jpred jt)) =
     bind_r (IsPredicateTrue F jpred) (\<lambda>t.
     if t then bind_r (RewriteExpressionForJoin pred (GetColumnCount (OutputSchema left)) (GetColumnCount (OutputSchema right)))
       (\<lambda>pred. Inr (NestedLoopJoinPlan s left right pred jt))
     else Inr (FilterPlan s pred (NestedLoopJoinPlan js left right jpred jt)))"
| "MergeFilterNLJ F p = Inr p"

definition OptimizeMergeFilterNLJ :: "'d float_ops \<Rightarrow> 'd rule" where
  "OptimizeMergeFilterNLJ F = bottom_up (MergeFilterNLJ F)"

fun SortLimitAsTopN :: "'d rule" where
  "SortLimitAsTopN (LimitPlan s (SortPlan ss child obs) limit) = Inr (TopNPlan s child obs limit)"
| "SortLimitAsTopN p = Inr p"

definition OptimizeSortLimitAsTopN :: "'d rule" where
  "OptimizeSortLimitAsTopN = bottom_up SortLimitAsTopN"

text \<open>The rules that look for an index: none is found, but the table must exist.\<close>

definition table_exists :: "Catalog \<Rightarrow> nat \<Rightarrow> 'd plan \<Rightarrow> 'd plan result" where
  "table_exists cat oid p = (case GetTable_oid oid cat of None \<Rightarrow> Inl Undefined_behaviour | Some info \<Rightarrow> Inr p)"

fun OrderByAsIndexScan :: "Catalog \<Rightarrow> 'd rule" where
  "OrderByAsIndexScan cat (SortPlan s (SeqScanPlan cs oid name pred) [(ty, ColumnValue t i T)]) =
     (if ty = ASC \<or> ty = DEFAULT then table_exists cat oid (SortPlan s (SeqScanPlan cs oid name pred) [(ty, ColumnValue t i T)])
      else Inr (SortPlan s (SeqScanPlan cs oid name pred) [(ty, ColumnValue t i T)]))"
| "OrderByAsIndexScan cat p = Inr p"

definition OptimizeOrderByAsIndexScan :: "Catalog \<Rightarrow> 'd rule" where
  "OptimizeOrderByAsIndexScan cat = bottom_up (OrderByAsIndexScan cat)"

section \<open>Custom rules\<close>

fun MergeFilterIndexScan :: "Catalog \<Rightarrow> 'd rule" where
  "MergeFilterIndexScan cat (FilterPlan s pred (SeqScanPlan cs oid name sp)) =
     table_exists cat oid (FilterPlan s pred (SeqScanPlan cs oid name sp))"
| "MergeFilterIndexScan cat p = Inr p"

definition OptimizeMergeFilterIndexScan :: "Catalog \<Rightarrow> 'd rule" where
  "OptimizeMergeFilterIndexScan cat = bottom_up (MergeFilterIndexScan cat)"

fun MergeFilterScan :: "'d rule" where
  "MergeFilterScan (FilterPlan s pred (SeqScanPlan cs oid name None)) = Inr (SeqScanPlan s oid name (Some pred))"
| "MergeFilterScan p = Inr p"

definition OptimizeMergeFilterScan :: "'d rule" where
  "OptimizeMergeFilterScan = bottom_up MergeFilterScan"

fun EliminateTrueFilter :: "'d float_ops \<Rightarrow> 'd rule" where
  "EliminateTrueFilter F (FilterPlan s pred child) =
     bind_r (IsPredicateTrue F pred) (\<lambda>t. Inr (if t then child else FilterPlan s pred child))"
| "EliminateTrueFilter F p = Inr p"

definition OptimizeEliminateTrueFilter :: "'d float_ops \<Rightarrow> 'd rule" where
  "OptimizeEliminateTrueFilter F = bottom_up (EliminateTrueFilter F)"

fun FalseFilter :: "'d float_ops \<Rightarrow> 'd rule" where
  "FalseFilter F (FilterPlan s pred child) =
     bind_r (IsPredicateFalse F pred) (\<lambda>f. Inr (if f then ValuesPlan (OutputSchema child) [] else FilterPlan s pred child))"
| "FalseFilter F p = Inr p"

definition OptimizeFalseFilter :: "'d float_ops \<Rightarrow> 'd rule" where
  "OptimizeFalseFilter F = bottom_up (FalseFilter F)"

fun RemoveJoin :: "'d rule" where
  "RemoveJoin (NestedLoopJoinPlan s left (ValuesPlan vs []) pred jt) = Inr left"
| "RemoveJoin p = Inr p"

definition OptimizeRemoveJoin :: "'d rule" where
  "OptimizeRemoveJoin = bottom_up RemoveJoin"

fun NLJAsHashJoin :: "'d rule" where
  "NLJAsHashJoin (NestedLoopJoinPlan s left right (Comparison (ColumnValue lt li lT) (ColumnValue rt ri rT) Equal) jt) =
     Inr (if lt = 0 \<and> rt = 1 then HashJoinPlan s left right (ColumnValue 0 li lT) (ColumnValue 0 ri rT) jt
          else if lt = 1 \<and> rt = 0 then HashJoinPlan s left right (ColumnValue 0 ri rT) (ColumnValue 0 li lT) jt
          else NestedLoopJoinPlan s left right (Comparison (ColumnValue lt li lT) (ColumnValue rt ri rT) Equal) jt)"
| "NLJAsHashJoin p = Inr p"

definition OptimizeNLJAsHashJoin :: "'d rule" where
  "OptimizeNLJAsHashJoin = bottom_up NLJAsHashJoin"

text \<open>Removing columns, written for one query; it reads fixed positions of the vectors.\<close>

definition at_r :: "'a list \<Rightarrow> nat \<Rightarrow> 'a result" where
  "at_r xs i = (if i < length xs then Inr (xs ! i) else Inl Undefined_behaviour)"

primrec expr_children :: "'d expr \<Rightarrow> 'd expr list" where
  "expr_children (ColumnValue t i T) = []"
| "expr_children (Constant v) = []"
| "expr_children (Arithmetic l r k) = [l, r]"
| "expr_children (Comparison l r k) = [l, r]"
| "expr_children (Logic l r k) = [l, r]"
| "expr_children (Like l r) = [l, r]"

definition column_index :: "'d expr \<Rightarrow> nat result" where
  "column_index e = (case e of ColumnValue t i T \<Rightarrow> Inr i | _ \<Rightarrow> Inl Undefined_behaviour)"

text \<open>The first loop reads three descendants of every expression that is no column.\<close>

definition removable :: "'d expr \<Rightarrow> 'd expr list result" where
  "removable e = (case e of ColumnValue t i T \<Rightarrow> Inr [e]
     | _ \<Rightarrow> bind_r (at_r (expr_children e) 0) (\<lambda>a. bind_r (at_r (expr_children a) 0) (\<lambda>b. bind_r (at_r (expr_children a) 1) (\<lambda>c.
         bind_r (at_r (expr_children e) 1) (\<lambda>d. Inr [b, c, d])))))"

fun RemoveColumn :: "'d rule" where
  "RemoveColumn (ProjectionPlan outer_s outer (ProjectionPlan inner_s inner (AggregationPlan agg_s child gbs aggs types))) =
     bind_r (map_r (\<lambda>i. bind_r (at_r inner i) removable) [0..<length outer]) (\<lambda>cols.
     bind_r (map_r (\<lambda>e. bind_r (column_index e) (at_r inner)) outer) (\<lambda>inner_proj_expr.
     bind_r (map_r (\<lambda>e. bind_r (column_index e) (at_r (columns inner_s))) outer) (\<lambda>inner_schema.
     bind_r (guard_r (inner_proj_expr \<noteq> []) Undefined_behaviour) (\<lambda>_.
     bind_r (map_r (at_r (columns agg_s)) [0..<length gbs]) (\<lambda>keys.
     bind_r (at_r aggs 0) (\<lambda>a0. bind_r (at_r types 0) (\<lambda>t0. bind_r (at_r (columns agg_s) (length gbs)) (\<lambda>c0.
     bind_r (at_r aggs 3) (\<lambda>a3. bind_r (at_r types 3) (\<lambda>t3. bind_r (at_r (columns agg_s) (length gbs + 3)) (\<lambda>c3.
     let sum = Arithmetic (Arithmetic (ColumnValue 0 1 INTEGER) (ColumnValue 0 1 INTEGER) Plus) (ColumnValue 0 2 INTEGER) Plus
     in Inr (ProjectionPlan (new_Schema inner_schema) (butlast inner_proj_expr @ [sum])
          (AggregationPlan (new_Schema (keys @ [c0, c3])) child gbs [a0, a3] [t0, t3])))))))))))))"
| "RemoveColumn p = Inr p"

text \<open>\<open>OptimizeRemoveColumn\<close> runs \<open>OptimizeRemoveJoin\<close> on the children.\<close>

primrec OptimizeRemoveColumn :: "'d rule" where
  "OptimizeRemoveColumn (SeqScanPlan s oid name pred) = Inr (SeqScanPlan s oid name pred)"
| "OptimizeRemoveColumn (ValuesPlan s es) = Inr (ValuesPlan s es)"
| "OptimizeRemoveColumn (FilterPlan s pred child) = bind_r (OptimizeRemoveJoin child) (\<lambda>child. Inr (FilterPlan s pred child))"
| "OptimizeRemoveColumn (ProjectionPlan s exprs child) =
     bind_r (OptimizeRemoveJoin child) (\<lambda>child. RemoveColumn (ProjectionPlan s exprs child))"
| "OptimizeRemoveColumn (LimitPlan s child limit) = bind_r (OptimizeRemoveJoin child) (\<lambda>child. Inr (LimitPlan s child limit))"
| "OptimizeRemoveColumn (NestedLoopJoinPlan s left right pred jt) =
     bind_r (OptimizeRemoveJoin left) (\<lambda>left. bind_r (OptimizeRemoveJoin right) (\<lambda>right. Inr (NestedLoopJoinPlan s left right pred jt)))"
| "OptimizeRemoveColumn (HashJoinPlan s left right lkey rkey jt) =
     bind_r (OptimizeRemoveJoin left) (\<lambda>left. bind_r (OptimizeRemoveJoin right) (\<lambda>right. Inr (HashJoinPlan s left right lkey rkey jt)))"
| "OptimizeRemoveColumn (SortPlan s child obs) = bind_r (OptimizeRemoveJoin child) (\<lambda>child. Inr (SortPlan s child obs))"
| "OptimizeRemoveColumn (TopNPlan s child obs n) = bind_r (OptimizeRemoveJoin child) (\<lambda>child. Inr (TopNPlan s child obs n))"
| "OptimizeRemoveColumn (AggregationPlan s child gbs aggs types) =
     bind_r (OptimizeRemoveJoin child) (\<lambda>child. Inr (AggregationPlan s child gbs aggs types))"
| "OptimizeRemoveColumn (InsertPlan s child oid) = bind_r (OptimizeRemoveJoin child) (\<lambda>child. Inr (InsertPlan s child oid))"
| "OptimizeRemoveColumn (UpdatePlan s child oid exprs) =
     bind_r (OptimizeRemoveJoin child) (\<lambda>child. Inr (UpdatePlan s child oid exprs))"
| "OptimizeRemoveColumn (DeletePlan s child oid) = bind_r (OptimizeRemoveJoin child) (\<lambda>child. Inr (DeletePlan s child oid))"

section \<open>The optimizer\<close>

definition OptimizeCustom :: "'d float_ops \<Rightarrow> Catalog \<Rightarrow> 'd rule" where
  "OptimizeCustom F cat p =
     bind_r (OptimizeMergeProjection p) (\<lambda>p.
     bind_r (OptimizeMergeFilterIndexScan cat p) (\<lambda>p.
     bind_r (OptimizeMergeFilterScan p) (\<lambda>p.
     bind_r (OptimizeMergeFilterNLJ F p) (\<lambda>p.
     bind_r (OptimizeFalseFilter F p) (\<lambda>p.
     bind_r (OptimizeRemoveJoin p) (\<lambda>p.
     bind_r (OptimizeRemoveColumn p) (\<lambda>p.
     bind_r (OptimizeNLJAsHashJoin p) (\<lambda>p.
     bind_r (OptimizeOrderByAsIndexScan cat p) OptimizeSortLimitAsTopN))))))))"

definition Optimize :: "'d float_ops \<Rightarrow> Catalog \<Rightarrow> bool \<Rightarrow> 'd rule" where
  "Optimize F cat force_starter_rule p =
     (if force_starter_rule
      then bind_r (OptimizeMergeProjection p) (\<lambda>p.
        bind_r (OptimizeMergeFilterNLJ F p) (\<lambda>p.
        bind_r (OptimizeOrderByAsIndexScan cat p) OptimizeSortLimitAsTopN))
      else OptimizeCustom F cat p)"

text \<open>\<open>EstimatedCardinality\<close>\<close>

definition ends_with :: "string \<Rightarrow> string \<Rightarrow> bool" where
  "ends_with s suffix \<longleftrightarrow> length suffix \<le> length s \<and> drop (length s - length suffix) s = suffix"

definition EstimatedCardinality :: "string \<Rightarrow> nat option" where
  "EstimatedCardinality table_name =
     (if ends_with table_name ''_1m'' then Some 1000000
      else if ends_with table_name ''_100k'' then Some 100000
      else if ends_with table_name ''_50k'' then Some 50000
      else if ends_with table_name ''_10k'' then Some 10000
      else if ends_with table_name ''_1k'' then Some 1000
      else if ends_with table_name ''_100'' then Some 100
      else None)"

end
