(* ===== verification/Expression_Laws.thy ===== *)
theory Expression_Laws
  imports Expressions
begin

text \<open>
  Laws of expressions: the types of their values, three-valued logic, and the rewriting of a
  filter over joined rows into a join predicate over the two rows.
\<close>

section \<open>Well-typed expressions\<close>

text \<open>
  Expressions as the constructors and the planner build them over a schema: columns of the input
  with their types, operands of \<open>+\<close> and \<open>-\<close> INTEGER, operands of AND and OR BOOLEAN.
\<close>

primrec expr_ok :: "'d float_ops \<Rightarrow> Column list \<Rightarrow> 'd expr \<Rightarrow> bool" where
  "expr_ok F cols (ColumnValue t i T) \<longleftrightarrow> t = 0 \<and> i < length cols \<and> T = column_type (cols ! i)"
| "expr_ok F cols (Constant v) \<longleftrightarrow> wf_Value F v \<and> (vtype v = BOOLEAN \<longrightarrow> IsNull v \<or> as_int v = 0 \<or> as_int v = 1)"
| "expr_ok F cols (Arithmetic l r k) \<longleftrightarrow> expr_ok F cols l \<and> expr_ok F cols r \<and> ArithmeticExpression l r k = Inr (Arithmetic l r k)"
| "expr_ok F cols (Comparison l r k) \<longleftrightarrow> expr_ok F cols l \<and> expr_ok F cols r"
| "expr_ok F cols (Logic l r k) \<longleftrightarrow> expr_ok F cols l \<and> expr_ok F cols r \<and> LogicExpression l r k = Inr (Logic l r k)"
| "expr_ok F cols (Like l r) \<longleftrightarrow> expr_ok F cols l \<and> expr_ok F cols r"

text \<open>A BOOLEAN value that is NULL, true or false.\<close>

definition truth_value :: "'d Value \<Rightarrow> bool" where
  "truth_value v \<longleftrightarrow> vtype v = BOOLEAN \<longrightarrow> IsNull v \<or> as_int v = 0 \<or> as_int v = 1"

definition typed_as :: "'d float_ops \<Rightarrow> TypeId \<Rightarrow> 'd Value \<Rightarrow> bool" where
  "typed_as F T v \<longleftrightarrow> vtype v = T \<and> wf_Value F v \<and> truth_value v"

lemma GetBooleanValue_cmp_ok: "GetBooleanValue_cmp c = Inr v \<Longrightarrow> typed_as F BOOLEAN v \<and> GetBoolAsCmpBool v = Inr c"
  by (cases c)
    (auto simp: typed_as_def store_int_def truth_value_def IsNull_def GetBoolAsCmpBool_def get_bool_def
      wf_Value_def int_null_def BUSTUB_VALUE_NULL_def in_range_def swrap_def)

lemma GetBooleanValue_cmp_total: "\<exists>v. GetBooleanValue_cmp c = Inr v"
  by (cases c) simp_all

lemma Value_int32_INTEGER_ok: "Value_int32 INTEGER i = Inr v \<Longrightarrow> typed_as F INTEGER v"
  using wf_stored(4)[of F i] by (auto simp: typed_as_def store_int_def truth_value_def)

lemma arithmetic_value_ok: "arithmetic_value F k l r = Inr v \<Longrightarrow> typed_as F INTEGER v"
  using Value_int32_INTEGER_ok
  by (auto simp: arithmetic_value_def result_simps GetNullValueByType_def GetIntegerValue_def split: option.splits)

lemma comparison_value_ok: "comparison_value F k l r = Inr v \<Longrightarrow> typed_as F BOOLEAN v"
  using GetBooleanValue_cmp_ok by (auto simp: comparison_value_def result_simps)

lemma logic_value_ok: "logic_value k l r = Inr v \<Longrightarrow> typed_as F BOOLEAN v"
  using GetBooleanValue_cmp_ok by (auto simp: logic_value_def result_simps)

lemma like_value_ok: "like_value F R l r = Inr v \<Longrightarrow> typed_as F BOOLEAN v"
  using GetBooleanValue_cmp_ok[of CmpTrue] GetBooleanValue_cmp_ok[of CmpFalse]
  by (fastforce simp: like_value_def result_simps split: if_splits)

lemmas value_ok = arithmetic_value_ok comparison_value_ok logic_value_ok like_value_ok

lemma expr_typed:
  assumes "\<And>i v. i < length cols \<Longrightarrow> column_of F t s i = Inr v \<Longrightarrow> typed_as F (column_type (cols ! i)) v"
  shows "expr_ok F cols e \<Longrightarrow> Evaluate F R t s e = Inr v \<Longrightarrow> typed_as F (GetReturnType e) v"
proof (induction e arbitrary: v)
  case (ColumnValue tuple_idx col_idx T)
  then show ?case using assms[of col_idx v] by simp
next
  case (Constant c)
  then show ?case by (simp add: typed_as_def truth_value_def)
qed (auto simp: result_simps intro: value_ok)

section \<open>Three-valued logic\<close>

lemma logic_value_table:
  assumes "GetBoolAsCmpBool l = Inr a" "GetBoolAsCmpBool r = Inr b"
  shows "\<exists>v. logic_value k l r = Inr v \<and> GetBoolAsCmpBool v = Inr (logic_table k a b)"
  using GetBooleanValue_cmp_total[of "logic_table k a b"] GetBooleanValue_cmp_ok assms
  by (fastforce simp: logic_value_def Logic_PerformComputation_def)

lemma truth_value_reads: "typed_as F BOOLEAN v \<Longrightarrow> \<exists>c. GetBoolAsCmpBool v = Inr c"
  by (auto simp: typed_as_def truth_value_def GetBoolAsCmpBool_def get_bool_def)

section \<open>Filters as join predicates\<close>

text \<open>The columns an expression reads, as pairs of tuple and column index.\<close>

primrec columns_read :: "'d expr \<Rightarrow> (nat \<times> nat) set" where
  "columns_read (ColumnValue t i T) = {(t, i)}"
| "columns_read (Constant v) = {}"
| "columns_read (Arithmetic l r k) = columns_read l \<union> columns_read r"
| "columns_read (Comparison l r k) = columns_read l \<union> columns_read r"
| "columns_read (Logic l r k) = columns_read l \<union> columns_read r"
| "columns_read (Like l r) = columns_read l \<union> columns_read r"

lemma rewrite_total: "columns_read e \<subseteq> {0} \<times> {..<n + m} \<Longrightarrow> \<exists>e'. RewriteExpressionForJoin e n m = Inr e'"
  by (induction e) auto

lemma rewrite_fails: "\<not> columns_read e \<subseteq> {0} \<times> {..<n + m} \<Longrightarrow> \<exists>err. RewriteExpressionForJoin e n m = Inl err"
proof (induction e)
  case (ColumnValue t i T)
  then show ?case by (auto simp: guard_r_def)
next
  case (Arithmetic l r k)
  then show ?case by (cases "RewriteExpressionForJoin l n m"; cases "RewriteExpressionForJoin r n m") auto
next
  case (Comparison l r k)
  then show ?case by (cases "RewriteExpressionForJoin l n m"; cases "RewriteExpressionForJoin r n m") auto
next
  case (Logic l r k)
  then show ?case by (cases "RewriteExpressionForJoin l n m"; cases "RewriteExpressionForJoin r n m") auto
next
  case (Like l r)
  then show ?case by (cases "RewriteExpressionForJoin l n m"; cases "RewriteExpressionForJoin r n m") auto
qed simp

lemma rewrite_evaluates:
  assumes "\<And>i. i < n \<Longrightarrow> column_of F jt js i = column_of F lt ls i"
    and "\<And>i. i < m \<Longrightarrow> column_of F jt js (n + i) = column_of F rt rs i"
  shows "RewriteExpressionForJoin e n m = Inr e' \<Longrightarrow> Evaluate F R jt js e = EvaluateJoin F R lt ls rt rs e'"
proof (induction e arbitrary: e')
  case (ColumnValue t i T)
  then show ?case using assms(1)[of i] assms(2)[of "i - n"] by (auto simp: result_simps split: if_splits)
qed (auto simp: result_simps)

section \<open>Rows that are joined\<close>

lemma row_ok_append:
  assumes "row_ok F (lc @ rc) (lv @ rv)" "length lv = length lc"
  shows "row_ok F lc lv" "row_ok F rc rv"
proof -
  have "list_all2 (cell_ok F) lc lv" "list_all2 (cell_ok F) rc rv"
    using assms by (auto simp: row_ok_def list_all2_append)
  moreover have "fixed_size (lc @ rc) = fixed_size lc + fixed_size rc" by (simp add: fixed_size_def)
  moreover have "extra_size (lc @ rc) (lv @ rv) = extra_size lc lv + extra_size rc rv"
    using assms(2) by (simp add: extra_size_def)
  ultimately show "row_ok F lc lv" "row_ok F rc rv" using assms(1) by (auto simp: row_ok_def)
qed

lemma row_reads:
  assumes "row_ok F cols vs" "Tuple_of_values F vs (new_Schema cols) = Inr t"
  shows "\<forall>i<length cols. column_of F (Some t) (new_Schema cols) i = Inr (vs ! i)"
  using Tuple_of_values_correct[OF assms(1)] assms(2) by (fastforce simp: column_of_def)

lemma row_column_count:
  assumes "row_ok F cols vs"
  shows "GetColumnCount (new_Schema cols) = length cols" "length vs = length cols"
proof -
  show "length vs = length cols" using assms by (auto simp: row_ok_def dest: list_all2_lengthD)
  show "GetColumnCount (new_Schema cols) = length cols"
    using assms by (simp add: row_ok_def GetColumnCount_def new_Schema_eq)
qed

section \<open>Properties\<close>

text \<open>
  C39: A filter over a join may be evaluated inside the join. Rewriting a predicate over the joined
  row for the two sides succeeds exactly when every column it reads is a column of the joined row,
  and then evaluating the rewritten predicate on the left and the right tuple gives what the
  original predicate gives on the joined tuple, errors included.
\<close>
theorem join_predicate_rewritten:
  assumes row: "row_ok F (lc @ rc) (lv @ rv)" and l: "length lv = length lc"
    and lt: "Tuple_of_values F lv (new_Schema lc) = Inr lt"
    and rt: "Tuple_of_values F rv (new_Schema rc) = Inr rt"
    and jt: "Tuple_of_values F (lv @ rv) (new_Schema (lc @ rc)) = Inr jt"
  shows "case RewriteExpressionForJoin e (GetColumnCount (new_Schema lc)) (GetColumnCount (new_Schema rc)) of
      Inr e' \<Rightarrow> columns_read e \<subseteq> {0} \<times> {..<length lc + length rc} \<and>
        Evaluate F R (Some jt) (new_Schema (lc @ rc)) e =
        EvaluateJoin F R (Some lt) (new_Schema lc) (Some rt) (new_Schema rc) e'
    | Inl _ \<Rightarrow> \<not> columns_read e \<subseteq> {0} \<times> {..<length lc + length rc}"
proof -
  note rows = row_ok_append[OF row l]
  note cnt = row_column_count(1)[OF rows(1)] row_column_count(1)[OF rows(2)]
  have len: "length rv = length rc" using row_column_count(2)[OF rows(2)] .
  have L: "column_of F (Some jt) (new_Schema (lc @ rc)) i = column_of F (Some lt) (new_Schema lc) i" if "i < length lc" for i
    using row_reads[OF row jt] row_reads[OF rows(1) lt] that l by (simp add: nth_append)
  have R: "column_of F (Some jt) (new_Schema (lc @ rc)) (length lc + i) = column_of F (Some rt) (new_Schema rc) i"
    if "i < length rc" for i
    using row_reads[OF row jt] row_reads[OF rows(2) rt] that l len by (simp add: nth_append)
  show ?thesis
    using rewrite_evaluates[of "length lc" F "Some jt" "new_Schema (lc @ rc)" "Some lt" "new_Schema lc" "length rc"
        "Some rt" "new_Schema rc" e, OF L R] rewrite_total[of e "length lc" "length rc"] rewrite_fails[of e "length lc" "length rc"]
    unfolding cnt by (cases "columns_read e \<subseteq> {0} \<times> {..<length lc + length rc}") auto
qed

definition demo_predicate :: "int expr" where
  "demo_predicate = Logic (Comparison (ColumnValue 0 0 INTEGER) (ColumnValue 0 2 INTEGER) LessThan)
     (Like (ColumnValue 0 3 VARCHAR) (ColumnValue 0 1 VARCHAR)) And"

theorem join_predicate_rewritten_witness:
  "\<exists>lt jt. Evaluate whole_floats (\<lambda>_ _. Inr True) (Some jt) (new_Schema (demo_columns @ demo_columns)) demo_predicate =
    EvaluateJoin whole_floats (\<lambda>_ _. Inr True) (Some lt) (new_Schema demo_columns) (Some lt) (new_Schema demo_columns)
      (Logic (Comparison (ColumnValue 0 0 INTEGER) (ColumnValue 1 0 INTEGER) LessThan)
        (Like (ColumnValue 1 1 VARCHAR) (ColumnValue 0 1 VARCHAR)) And)"
proof -
  have ok: "row_ok whole_floats (demo_columns @ demo_columns) (demo_row_values @ demo_row_values)"
    using demo_row_ok by (auto simp: row_ok_def fixed_size_def extra_size_def demo_columns_def demo_row_values_def
        extra_def text_length_def Column_IsInlined_def IsNull_def int_value_def)
  have len: "length demo_row_values = length demo_columns" by (simp add: demo_row_values_def demo_columns_def)
  obtain lt where lt: "Tuple_of_values whole_floats demo_row_values (new_Schema demo_columns) = Inr lt"
    using Tuple_of_values_correct[OF demo_row_ok] by blast
  obtain jt where jt: "Tuple_of_values whole_floats (demo_row_values @ demo_row_values) (new_Schema (demo_columns @ demo_columns)) = Inr jt"
    using Tuple_of_values_correct[OF ok] by blast
  have cnt: "GetColumnCount (new_Schema demo_columns) = 2"
    using row_column_count(1)[OF demo_row_ok] by (simp add: demo_columns_def)
  show ?thesis
    using join_predicate_rewritten[OF ok len lt lt jt, of demo_predicate "\<lambda>_ _. Inr True"] unfolding cnt
    by (intro exI[of _ lt] exI[of _ jt]) (simp add: demo_predicate_def)
qed



end
