(* ===== verification/Execution.thy ===== *)
theory Execution
  imports Relational Expression_Laws
begin

text \<open>
  The executors refine the relational meaning of a plan. A child executor is used only through
  the interface \<open>row_source\<close>: in a state that produces a list of rows, \<open>Next\<close> returns a tuple that
  reads as the first row and leaves a state that produces the others, or \<open>false\<close> when there is
  none; the pool keeps its invariant. Every operator turns row sources into a row source.
\<close>

section \<open>Tuples and rows\<close>

definition reads_as :: "'d float_ops \<Rightarrow> Schema \<Rightarrow> Tuple \<Rightarrow> 'd Value list \<Rightarrow> bool" where
  "reads_as F s t row \<longleftrightarrow> tdata t \<noteq> None \<and> length row = GetColumnCount s \<and>
     (\<forall>i<length row. Tuple_GetValue F t s i = Inr (row ! i))"

lemma reads_column: "reads_as F s t row \<Longrightarrow> column_of F (Some t) s i = row_column row i"
  by (cases "i < length row") (auto simp: reads_as_def column_of_def row_column_def Tuple_GetValue_def)

lemma reads_evaluate: "reads_as F s t row \<Longrightarrow> Evaluate F R (Some t) s e = eval_row F R row e"
  by (induction e) (simp_all add: reads_column)

lemma reads_evaluate_all: "reads_as F s t row \<Longrightarrow> map_r (Evaluate F R (Some t) s) es = map_r (eval_row F R row) es"
  by (induction es) (simp_all add: reads_evaluate)

lemma reads_evaluate_join:
  "\<lbrakk> reads_as F ls lt l; reads_as F rs rt r \<rbrakk> \<Longrightarrow> EvaluateJoin F R (Some lt) ls (Some rt) rs e = eval_join F R l r e"
  by (induction e) (simp_all add: reads_column)

lemma evaluate_no_tuple: "Evaluate F R None s e = eval_row F R [] e"
  by (induction e) (simp_all add: column_of_def row_column_def)

lemma map_r_eq_map: "(\<And>x. x \<in> set xs \<Longrightarrow> f x = Inr (g x)) \<Longrightarrow> map_r f xs = Inr (map g xs)"
  by (induction xs) simp_all

lemma reads_values:
  assumes "reads_as F s t row"
  shows "tuple_values F s t = Inr row"
proof -
  have "map_r (Tuple_GetValue F t s) [0..<length row] = Inr (map ((!) row) [0..<length row])"
    using assms by (intro map_r_eq_map) (simp add: reads_as_def)
  then show ?thesis using assms by (simp add: tuple_values_def reads_as_def map_nth)
qed

text \<open>The columns of a schema enter only with their types and offsets.\<close>

lemma layout_reads:
  assumes "layout s = layout s'"
  shows "reads_as F s t row = reads_as F s' t row"
proof -
  have len: "GetColumnCount s = GetColumnCount s'" using arg_cong[OF assms, of length] by (simp add: layout_def GetColumnCount_def)
  have "Tuple_GetValue F t s i = Tuple_GetValue F t s' i" for i
  proof (cases "i < GetColumnCount s")
    case True
    have "layout s ! i = layout s' ! i" using assms by simp
    then have "column_type (columns s ! i) = column_type (columns s' ! i)"
      "column_offset (columns s ! i) = column_offset (columns s' ! i)"
      using True len by (simp_all add: layout_def GetColumnCount_def)
    moreover from this have "GetDataPtr data (columns s ! i) = GetDataPtr data (columns s' ! i)" for data
      by (simp add: GetDataPtr_def Column_IsInlined_def)
    ultimately have "read_column F data (columns s ! i) = read_column F data (columns s' ! i)" for data
      by (simp only: read_column_def)
    then show ?thesis using len by (cases "tdata t") (simp_all add: Tuple_GetValue_def)
  next
    case False
    then show ?thesis using len by (cases "tdata t") (simp_all add: Tuple_GetValue_def)
  qed
  then show ?thesis using len by (simp add: reads_as_def)
qed

text \<open>A row that fits can be made a tuple.\<close>

lemma fit_tuple:
  assumes "fit F s row = Inr row'"
  shows "row' = row \<and> (\<exists>t. Tuple_of_values F row s = Inr t \<and> reads_as F s t row)"
proof -
  have r: "row' = row" "new_Schema (columns s) = s" "row_ok F (columns s) row"
    using assms by (auto simp: fit_def schema_ok_def split: if_splits)
  obtain t where t: "Tuple_of_values F row (new_Schema (columns s)) = Inr t"
      "\<And>i. i < length (columns s) \<Longrightarrow> Tuple_GetValue F t (new_Schema (columns s)) i = Inr (row ! i)"
    by (rule Tuple_of_values_correct[OF r(3)]) (rule that)
  have "length row = length (columns s)" using row_column_count(2)[OF r(3)] .
  moreover have "tdata t \<noteq> None" using t(1) by (auto simp: Tuple_of_values_def result_simps split: prod.splits)
  moreover have "Tuple_of_values F row s = Inr t" using t(1) r(2) by simp
  moreover have "\<And>i. i < length (columns s) \<Longrightarrow> Tuple_GetValue F t s i = Inr (row ! i)" using t(2) r(2) by simp
  ultimately show ?thesis using r(1) by (simp add: reads_as_def GetColumnCount_def)
qed

section \<open>Row sources\<close>

locale row_source =
  fixes inv :: "bpm \<Rightarrow> bool" and nx :: "'d next_fun" and reads :: "Tuple \<Rightarrow> 'r \<Rightarrow> bool"
    and produces :: "'d exec_state \<Rightarrow> 'r list \<Rightarrow> bool"
  assumes stop: "\<lbrakk> inv b; produces s [] \<rbrakk> \<Longrightarrow> \<exists>s' rid' b'. nx s rid b = Some (Inr (None, s', rid', b')) \<and> inv b'"
    and step: "\<lbrakk> inv b; produces s (r # rs) \<rbrakk> \<Longrightarrow>
      \<exists>t s' rid' b'. nx s rid b = Some (Inr (Some t, s', rid', b')) \<and> inv b' \<and> reads t r \<and> produces s' rs"
begin

text \<open>Polling a source runs the body over tuples that read as the rows.\<close>

lemma poll_rows:
  "\<lbrakk> inv b; produces s rs \<rbrakk> \<Longrightarrow> \<exists>ts s' b'. list_all2 reads ts rs \<and> inv b' \<and>
    (\<forall>(f :: Tuple \<Rightarrow> 'a \<Rightarrow> 'a result) acc. poll (pure_body f) nx s rid acc b =
      (case fold_r f ts acc of Inl e \<Rightarrow> Some (Inl e) | Inr acc' \<Rightarrow> Some (Inr (acc', s', b'))))"
proof (induction rs arbitrary: s rid b)
  case Nil
  from stop[OF this, of rid] obtain s' rid' b' where "nx s rid b = Some (Inr (None, s', rid', b'))" "inv b'" by blast
  then show ?case by (intro exI[of _ "[]"]) (auto simp: poll.simps[of _ nx])
next
  case (Cons r rs)
  from step[OF Cons.prems, of rid] obtain t s1 rid1 b1 where
    n: "nx s rid b = Some (Inr (Some t, s1, rid1, b1))" "inv b1" "reads t r" "produces s1 rs" by blast
  from Cons.IH[OF n(2,4), of rid1] obtain ts s' b' where
    ih: "list_all2 reads ts rs" "inv b'"
      "\<And>(f :: Tuple \<Rightarrow> 'a \<Rightarrow> 'a result) acc. poll (pure_body f) nx s1 rid1 acc b1 =
        (case fold_r f ts acc of Inl e \<Rightarrow> Some (Inl e) | Inr acc' \<Rightarrow> Some (Inr (acc', s', b')))" by blast
  have "poll (pure_body f) nx s rid acc b =
      (case fold_r f (t # ts) acc of Inl e \<Rightarrow> Some (Inl e) | Inr acc' \<Rightarrow> Some (Inr (acc', s', b')))" for f :: "Tuple \<Rightarrow> 'a \<Rightarrow> 'a result" and acc
    by (subst poll.simps, cases "f t acc") (simp_all add: n(1) pure_body_def ih(3))
  then show ?case using ih(1,2) n(3) by (intro exI[of _ "t # ts"] exI[of _ s'] exI[of _ b']) simp
qed

text \<open>Filter, projection and limit over a source.\<close>

lemma filter_source:
  assumes ev: "\<And>t r. reads t r \<Longrightarrow> ev t = P r" and out: "\<And>t r. reads t r \<Longrightarrow> reads' t r"
  shows "row_source inv (FilterExecutor_Next ev nx) reads' (\<lambda>s rs'. \<exists>rs. produces s rs \<and> filter_r P rs = Inr rs')"
proof -
  have run: "\<exists>res s' rid' b'. FilterExecutor_Next ev nx s rid b = Some (Inr (res, s', rid', b')) \<and> inv b' \<and>
      (case rs' of [] \<Rightarrow> res = None
       | r # rest \<Rightarrow> \<exists>t rs1. res = Some t \<and> reads' t r \<and> produces s' rs1 \<and> filter_r P rs1 = Inr rest)"
    if "inv b" "produces s rs" "filter_r P rs = Inr rs'" for s rid b rs rs'
    using that
  proof (induction rs arbitrary: s rid b rs')
    case Nil
    from stop[OF Nil(1,2), of rid] Nil(3) show ?case by (auto simp: FilterExecutor_Next.simps[of _ nx])
  next
    case (Cons r rs)
    from step[OF Cons.prems(1,2), of rid] obtain t s1 rid1 b1 where
      n: "nx s rid b = Some (Inr (Some t, s1, rid1, b1))" "inv b1" "reads t r" "produces s1 rs" by blast
    from Cons.prems(3) obtain ok rs1 where ok: "P r = Inr ok" "filter_r P rs = Inr rs1" "rs' = (if ok then r # rs1 else rs1)"
      by (auto simp: result_simps)
    show ?case
    proof (cases ok)
      case True
      then show ?thesis
        using n ok ev[OF n(3)] out[OF n(3)] by (subst FilterExecutor_Next.simps) auto
    next
      case False
      then show ?thesis
        using Cons.IH[OF n(2,4) ok(2), of rid1] n(1) ok ev[OF n(3)] by (subst FilterExecutor_Next.simps) simp
    qed
  qed
  show ?thesis
    by unfold_locales (use run in \<open>fastforce split: list.splits\<close>)+
qed

lemma projection_source:
  assumes ev: "\<And>t r r'. reads t r \<Longrightarrow> G r = Inr r' \<Longrightarrow> \<exists>t'. compute t = Inr t' \<and> reads' t' r'"
  shows "row_source inv (ProjectionExecutor_Next compute nx) reads' (\<lambda>s rs'. \<exists>rs. produces s rs \<and> map_r G rs = Inr rs')"
proof unfold_locales
  fix b s rid
  assume b: "inv b" and "\<exists>rs. produces s rs \<and> map_r G rs = Inr []"
  then obtain rs where p: "produces s rs" "map_r G rs = Inr []" by blast
  then have "produces s []" by (cases rs) (auto simp: result_simps)
  from stop[OF b this, of rid]
  show "\<exists>s' rid' b'. ProjectionExecutor_Next compute nx s rid b = Some (Inr (None, s', rid', b')) \<and> inv b'"
    by (auto simp: ProjectionExecutor_Next_def)
next
  fix b s rid r' rs'
  assume b: "inv b" and "\<exists>rs. produces s rs \<and> map_r G rs = Inr (r' # rs')"
  then obtain rs where p: "produces s rs" "map_r G rs = Inr (r' # rs')" by blast
  then obtain r rs0 where rs: "rs = r # rs0" "G r = Inr r'" "map_r G rs0 = Inr rs'" by (cases rs) (auto simp: result_simps)
  from step[OF b, of s r rs0 rid] p(1) rs(1) obtain t s1 rid1 b1 where
    n: "nx s rid b = Some (Inr (Some t, s1, rid1, b1))" "inv b1" "reads t r" "produces s1 rs0" by blast
  from ev[OF n(3) rs(2)] obtain t' where "compute t = Inr t'" "reads' t' r'" by blast
  then show "\<exists>t s' rid' b'. ProjectionExecutor_Next compute nx s rid b = Some (Inr (Some t, s', rid', b')) \<and> inv b' \<and>
      reads' t r' \<and> (\<exists>rs. produces s' rs \<and> map_r G rs = Inr rs')"
    using n rs(3) by (auto simp: ProjectionExecutor_Next_def)
qed

lemma limit_source:
  assumes lim: "limit < 2 ^ 32" and out: "\<And>t r. reads t r \<Longrightarrow> reads' t r"
  shows "row_source inv (LimitExecutor_Next limit nx) reads'
    (\<lambda>s rs'. \<exists>count s1 rs. s = LimitState count s1 \<and> produces s1 rs \<and> rs' = take (limit - count) rs)"
proof unfold_locales
  fix b s rid
  assume b: "inv b" and "\<exists>count s1 rs. s = LimitState count s1 \<and> produces s1 rs \<and> [] = take (limit - count) rs"
  then obtain count s1 rs where s: "s = LimitState count s1" "produces s1 rs" "limit \<le> count \<or> rs = []" by auto
  show "\<exists>s' rid' b'. LimitExecutor_Next limit nx s rid b = Some (Inr (None, s', rid', b')) \<and> inv b'"
  proof (cases "limit \<le> count")
    case False
    then have "produces s1 []" using s(2,3) by simp
    from stop[OF b this, of rid] False show ?thesis by (auto simp: s(1))
  qed (simp add: s(1) b)
next
  fix b s rid r rs'
  assume b: "inv b" and "\<exists>count s1 rs. s = LimitState count s1 \<and> produces s1 rs \<and> r # rs' = take (limit - count) rs"
  then obtain count s1 rs where s: "s = LimitState count s1" "produces s1 rs" "r # rs' = take (limit - count) rs" by blast
  then have c: "count < limit" by (cases "limit - count") simp_all
  then have "limit - count = Suc (limit - (count + 1))" by simp
  with s(3) obtain rs0 where rs: "rs = r # rs0" "rs' = take (limit - (count + 1)) rs0" by (cases rs) simp_all
  have "(count + 1) mod 2 ^ 32 = count + 1" using c lim by simp
  with step[OF b, of s1 r rs0 rid] s(2) rs c out
  show "\<exists>t s' rid' b'. LimitExecutor_Next limit nx s rid b = Some (Inr (Some t, s', rid', b')) \<and> inv b' \<and> reads' t r \<and>
      (\<exists>count s1 rs. s' = LimitState count s1 \<and> produces s1 rs \<and> rs' = take (limit - count) rs)"
    by (fastforce simp: s(1))
qed

end

section \<open>Joins\<close>

text \<open>The rows that one left row and all left rows contribute.\<close>

definition join_one ::
  "('l \<Rightarrow> 'q \<Rightarrow> bool result) \<Rightarrow> ('l \<Rightarrow> 'q \<Rightarrow> 'o result) \<Rightarrow> ('l \<Rightarrow> 'o result) \<Rightarrow> bool \<Rightarrow> 'q list \<Rightarrow> 'l \<Rightarrow> 'o list result" where
  "join_one M E Pd is_left rs l =
     bind_r (filter_r (M l) rs) (\<lambda>ms. if is_left \<and> ms = [] then bind_r (Pd l) (\<lambda>x. Inr [x]) else map_r (E l) ms)"

definition join_all ::
  "('l \<Rightarrow> 'q \<Rightarrow> bool result) \<Rightarrow> ('l \<Rightarrow> 'q \<Rightarrow> 'o result) \<Rightarrow> ('l \<Rightarrow> 'o result) \<Rightarrow> bool \<Rightarrow> 'q list \<Rightarrow> 'l list \<Rightarrow> 'o list result" where
  "join_all M E Pd is_left rs ls = bind_r (map_r (join_one M E Pd is_left rs) ls) (\<lambda>xss. Inr (concat xss))"

lemma join_all_Nil [simp]: "join_all M E Pd is_left rs [] = Inr []"
  by (simp add: join_all_def)

lemma join_all_Cons:
  "join_all M E Pd is_left rs (l # ls) = Inr out \<longleftrightarrow>
   (\<exists>xs ys. join_one M E Pd is_left rs l = Inr xs \<and> join_all M E Pd is_left rs ls = Inr ys \<and> out = xs @ ys)"
  by (auto simp: join_all_def result_simps)

lemma match_from_rows:
  assumes "list_all2 readsR ts rs" and "\<forall>t r. readsR t r \<longrightarrow> m t = M r" and "filter_r M rs = Inr ms"
  shows "case ms of [] \<Rightarrow> match_from m i ts = Inr None
    | r # ms' \<Rightarrow> \<exists>k t. match_from m i ts = Inr (Some (i + k, t)) \<and> k < length rs \<and> readsR t r \<and>
        filter_r M (drop (k + 1) rs) = Inr ms'"
  using assms(1,3)
proof (induction ts rs arbitrary: i ms rule: list_all2_induct)
  case (Cons t ts r rs)
  from Cons.prems obtain ok ms1 where ok: "M r = Inr ok" "filter_r M rs = Inr ms1" "ms = (if ok then r # ms1 else ms1)"
    by (auto simp: result_simps)
  have m: "m t = Inr ok" using assms(2) Cons.hyps(1) ok(1) by simp
  show ?case
  proof (cases ok)
    case True
    then show ?thesis using ok m Cons.hyps(1) by (auto intro!: exI[of _ 0])
  next
    case False
    then have e: "match_from m i (t # ts) = match_from m (i + 1) ts" and ms: "ms = ms1" using m ok(3) by simp_all
    show ?thesis
    proof (cases ms1)
      case Nil
      then show ?thesis using Cons.IH[OF ok(2), of "i + 1"] e ms by simp
    next
      case (Cons x xs)
      with Cons.IH[OF ok(2), of "i + 1"] obtain k t' where
        "match_from m (i + 1) ts = Inr (Some (i + 1 + k, t'))" "k < length rs" "readsR t' x" "filter_r M (drop (k + 1) rs) = Inr xs"
        by auto
      then show ?thesis using e ms Cons by (auto intro!: exI[of _ "k + 1"])
    qed
  qed
qed simp

context row_source
begin

text \<open>
  Where the nested loop join stands: before the next left row, or at an index of the right rows
  with the matches of the current left row still to come.
\<close>

definition loop_at where
  "loop_at readsR M E Pd is_left rights lt idx ls out \<longleftrightarrow>
     (\<exists>rs lrows. list_all2 readsR rights rs \<and> length rs < 2 ^ 31 - 1 \<and> produces ls lrows \<and>
       (idx = -1 \<and> join_all M E Pd is_left rs lrows = Inr out \<or>
        (\<exists>l k ms pending rest. idx = int k \<and> reads lt l \<and> filter_r (M l) (drop k rs) = Inr ms \<and>
           map_r (E l) ms = Inr pending \<and> join_all M E Pd is_left rs lrows = Inr rest \<and> out = pending @ rest)))"

definition loop_result where
  "loop_result readsR M E Pd is_left reads' rights res out \<longleftrightarrow>
     (\<exists>t lt idx ls b. res = Some (Inr (t, lt, idx, ls, b)) \<and> inv b \<and>
      (case out of [] \<Rightarrow> t = None
       | x # out' \<Rightarrow> \<exists>tu. t = Some tu \<and> reads' tu x \<and> loop_at readsR M E Pd is_left rights lt idx ls out'))"

lemma loop_correct:
  assumes m: "\<forall>lt l rt r. reads lt l \<longrightarrow> readsR rt r \<longrightarrow> matched lt rt = M l r"
    and e: "\<forall>lt l rt r x. reads lt l \<longrightarrow> readsR rt r \<longrightarrow> E l r = Inr x \<longrightarrow> (\<exists>t. emit lt rt = Inr t \<and> reads' t x)"
    and p: "\<forall>lt l x. reads lt l \<longrightarrow> Pd l = Inr x \<longrightarrow> (\<exists>t. pad lt = Inr t \<and> reads' t x)"
    and rights: "list_all2 readsR rights rs" "length rs < 2 ^ 31 - 1"
  shows loop_fresh: "\<lbrakk> inv b; produces ls lrows; join_all M E Pd is_left rs lrows = Inr out \<rbrakk> \<Longrightarrow>
      loop_result readsR M E Pd is_left reads' rights (NestedLoopJoin_loop matched emit pad is_left nx rights lt (-1) ls erid b) out"
    and loop_pending: "\<lbrakk> inv b; produces ls lrows; join_all M E Pd is_left rs lrows = Inr rest; reads lt l;
      filter_r (M l) (drop k rs) = Inr ms; map_r (E l) ms = Inr pending \<rbrakk> \<Longrightarrow>
      loop_result readsR M E Pd is_left reads' rights (NestedLoopJoin_loop matched emit pad is_left nx rights lt (int k) ls erid b) (pending @ rest)"
proof -
  have len: "length rights = length rs" using rights(1) by (rule list_all2_lengthD)
  text \<open>The rest of the loop body once a left tuple is there.\<close>
  define tail where "tail = (\<lambda>start lt idx ls erid b.
      bind_ro (Some (match_from (matched lt) start (drop start rights))) (\<lambda>m. case m of
            Some (ridx, rt) \<Rightarrow> Some (bind_r (emit lt rt) (\<lambda>tuple. Inr (Some tuple, lt, swrap 32 (int ridx + 1), ls, b)))
          | None \<Rightarrow>
              if idx = -1 \<and> is_left then Some (bind_r (pad lt) (\<lambda>tuple. Inr (Some tuple, lt, idx, ls, b)))
              else NestedLoopJoin_loop matched emit pad is_left nx rights lt (-1) ls erid b))"
  have emitted: "loop_result readsR M E Pd is_left reads' rights (tail k lt idx ls erid b) (x # xs @ rest)"
    if b: "inv b" "produces ls lrows" "join_all M E Pd is_left rs lrows = Inr rest" and l: "reads lt l"
      and f: "filter_r (M l) (drop k rs) = Inr (r # ms)" "map_r (E l) (r # ms) = Inr (x # xs)"
    for k lt idx ls erid b lrows rest l r ms x xs
  proof -
    have "list_all2 readsR (drop k rights) (drop k rs)" using rights(1) by (rule list_all2_dropI)
    have ml: "\<forall>rt r. readsR rt r \<longrightarrow> matched lt rt = M l r" using m l by blast
    from match_from_rows[where i = k, OF \<open>list_all2 readsR (drop k rights) (drop k rs)\<close> ml f(1)] obtain j t where
      j: "match_from (matched lt) k (drop k rights) = Inr (Some (k + j, t))" "k + j < length rs" "readsR t r"
        "filter_r (M l) (drop (j + 1) (drop k rs)) = Inr ms" by auto
    from f(2) have x: "E l r = Inr x" "map_r (E l) ms = Inr xs" by (auto simp: result_simps)
    from e l j(3) x(1) obtain tu where tu: "emit lt t = Inr tu" "reads' tu x" by blast
    have "swrap 32 (int (k + j) + 1) = int (k + j + 1)"
      using j(2) rights(2) by (subst swrap_id) (simp_all add: in_range_def)
    then have "tail k lt idx ls erid b = Some (Inr (Some tu, lt, int (k + j + 1), ls, b))"
      by (simp add: tail_def j(1) tu(1))
    moreover have "filter_r (M l) (drop (k + j + 1) rs) = Inr ms" using j(4) by (simp add: add.commute add.left_commute)
    then have "loop_at readsR M E Pd is_left rights lt (int (k + j + 1)) ls (xs @ rest)"
      unfolding loop_at_def using b l x(2) rights
      by (intro exI[of _ rs] exI[of _ lrows] conjI disjI2 exI[of _ l] exI[of _ "k + j + 1"] exI[of _ ms] exI[of _ xs]
          exI[of _ rest]) simp_all
    ultimately show ?thesis using b(1) tu(2) by (simp add: loop_result_def)
  qed
  show fresh: "loop_result readsR M E Pd is_left reads' rights (NestedLoopJoin_loop matched emit pad is_left nx rights lt (-1) ls erid b) out"
    if "inv b" "produces ls lrows" "join_all M E Pd is_left rs lrows = Inr out" for b ls lrows out lt erid
    using that
  proof (induction lrows arbitrary: b ls out lt erid)
    case Nil
    from stop[OF Nil(1,2), of erid] Nil(3) show ?case
      by (subst NestedLoopJoin_loop.simps) (auto simp: loop_result_def)
  next
    case (Cons l lrows)
    from step[OF Cons.prems(1,2), of erid] obtain t s1 rid1 b1 where
      n: "nx ls erid b = Some (Inr (Some t, s1, rid1, b1))" "inv b1" "reads t l" "produces s1 lrows" by blast
    from Cons.prems(3) obtain xs ys where xy: "join_one M E Pd is_left rs l = Inr xs"
      "join_all M E Pd is_left rs lrows = Inr ys" "out = xs @ ys" by (auto simp: join_all_Cons)
    have loop: "NestedLoopJoin_loop matched emit pad is_left nx rights lt (-1) ls erid b = tail 0 t (-1) s1 rid1 b1"
      by (subst NestedLoopJoin_loop.simps) (simp add: n(1) tail_def)
    from xy(1) obtain ms where ms: "filter_r (M l) rs = Inr ms"
      "(if is_left \<and> ms = [] then bind_r (Pd l) (\<lambda>x. Inr [x]) else map_r (E l) ms) = Inr xs"
      by (auto simp: join_one_def result_simps)
    show ?case
    proof (cases ms)
      case Nil
      have "\<forall>rt r. readsR rt r \<longrightarrow> matched t rt = M l r" using m n(3) by blast
      with match_from_rows[where i = 0, OF rights(1) _ ms(1)] Nil have none: "match_from (matched t) 0 rights = Inr None" by simp
      show ?thesis
      proof (cases is_left)
        case True
        with ms(2) Nil obtain x where x: "Pd l = Inr x" "xs = [x]" by (auto simp: result_simps)
        from p n(3) x(1) obtain tu where "pad t = Inr tu" "reads' tu x" by blast
        then have "tail 0 t (-1) s1 rid1 b1 = Some (Inr (Some tu, t, -1, s1, b1))" "reads' tu x"
          using True none by (simp_all add: tail_def)
        then show ?thesis
          using x(2) xy(2,3) n(2,4) rights unfolding loop loop_result_def loop_at_def by auto
      next
        case False
        then have "tail 0 t (-1) s1 rid1 b1 = NestedLoopJoin_loop matched emit pad is_left nx rights t (-1) s1 rid1 b1"
          using none by (simp add: tail_def)
        then show ?thesis using Cons.IH[OF n(2,4) xy(2)] False ms(2) Nil xy(3) loop by simp
      qed
    next
      case (Cons r ms')
      with ms(2) obtain x xs' where "map_r (E l) (r # ms') = Inr (x # xs')" "xs = x # xs'" by (auto simp: result_simps)
      then show ?thesis
        using emitted[OF n(2,4) xy(2) n(3), of 0 r ms' x xs'] ms(1) Cons xy(3) loop by simp
    qed
  qed
  show "loop_result readsR M E Pd is_left reads' rights (NestedLoopJoin_loop matched emit pad is_left nx rights lt (int k) ls erid b) (pending @ rest)"
    if "inv b" "produces ls lrows" "join_all M E Pd is_left rs lrows = Inr rest" "reads lt l"
      "filter_r (M l) (drop k rs) = Inr ms" "map_r (E l) ms = Inr pending"
  proof -
    have loop: "NestedLoopJoin_loop matched emit pad is_left nx rights lt (int k) ls erid b = tail k lt (int k) ls erid b"
      by (subst NestedLoopJoin_loop.simps) (simp add: tail_def)
    show ?thesis
    proof (cases ms)
      case Nil
      have "list_all2 readsR (drop k rights) (drop k rs)" using rights(1) by (rule list_all2_dropI)
      moreover have "\<forall>rt r. readsR rt r \<longrightarrow> matched lt rt = M l r" using m that(4) by blast
      ultimately
      have "match_from (matched lt) k (drop k rights) = Inr None"
        using match_from_rows[where i = k, of readsR "drop k rights" "drop k rs" "matched lt" "M l" ms] that(5) Nil by simp
      then show ?thesis using fresh[OF that(1-3), of lt erid] that(6) Nil loop by (simp add: tail_def)
    next
      case (Cons r ms')
      with that(6) obtain x xs where "map_r (E l) (r # ms') = Inr (x # xs)" "pending = x # xs" by (auto simp: result_simps)
      then show ?thesis using emitted[OF that(1-4), of k r ms' x xs "int k" erid] that(5) Cons loop by simp
    qed
  qed
qed

lemma loop_join_source:
  assumes m: "\<forall>lt l rt r. reads lt l \<longrightarrow> readsR rt r \<longrightarrow> matched lt rt = M l r"
    and e: "\<forall>lt l rt r x. reads lt l \<longrightarrow> readsR rt r \<longrightarrow> E l r = Inr x \<longrightarrow> (\<exists>t. emit lt rt = Inr t \<and> reads' t x)"
    and p: "\<forall>lt l x. reads lt l \<longrightarrow> Pd l = Inr x \<longrightarrow> (\<exists>t. pad lt = Inr t \<and> reads' t x)"
  shows "row_source inv (NestedLoopJoinExecutor_Next matched emit pad is_left nx) reads'
    (\<lambda>s out. \<exists>rights lt idx ls rs. s = NestedLoopJoinState rights lt idx ls rs \<and> loop_at readsR M E Pd is_left rights lt idx ls out)"
proof -
  have run: "loop_result readsR M E Pd is_left reads' rights (NestedLoopJoin_loop matched emit pad is_left nx rights lt idx ls new_RID b) out"
    if b: "inv b" and at: "loop_at readsR M E Pd is_left rights lt idx ls out" for rights lt idx ls out b
  proof -
    from at obtain rs lrows where c: "list_all2 readsR rights rs" "length rs < 2 ^ 31 - 1" "produces ls lrows"
      "idx = -1 \<and> join_all M E Pd is_left rs lrows = Inr out \<or>
        (\<exists>l k ms pending rest. idx = int k \<and> reads lt l \<and> filter_r (M l) (drop k rs) = Inr ms \<and>
           map_r (E l) ms = Inr pending \<and> join_all M E Pd is_left rs lrows = Inr rest \<and> out = pending @ rest)"
      unfolding loop_at_def by blast
    note L = loop_fresh[OF m e p c(1,2) b c(3)] loop_pending[OF m e p c(1,2) b c(3)]
    from c(4) show ?thesis
    proof
      assume "idx = -1 \<and> join_all M E Pd is_left rs lrows = Inr out"
      then show ?thesis using L(1) by simp
    next
      assume "\<exists>l k ms pending rest. idx = int k \<and> reads lt l \<and> filter_r (M l) (drop k rs) = Inr ms \<and>
           map_r (E l) ms = Inr pending \<and> join_all M E Pd is_left rs lrows = Inr rest \<and> out = pending @ rest"
      then show ?thesis using L(2) by blast
    qed
  qed
  show ?thesis
  proof unfold_locales
    fix b s rid
    assume "inv b" "\<exists>rights lt idx ls rs. s = NestedLoopJoinState rights lt idx ls rs \<and> loop_at readsR M E Pd is_left rights lt idx ls []"
    then show "\<exists>s' rid' b'. NestedLoopJoinExecutor_Next matched emit pad is_left nx s rid b = Some (Inr (None, s', rid', b')) \<and> inv b'"
      using run[of b _ _ _ _ "[]"] by (fastforce simp: loop_result_def)
  next
    fix b s rid x out
    assume "inv b" "\<exists>rights lt idx ls rs. s = NestedLoopJoinState rights lt idx ls rs \<and> loop_at readsR M E Pd is_left rights lt idx ls (x # out)"
    then show "\<exists>t s' rid' b'. NestedLoopJoinExecutor_Next matched emit pad is_left nx s rid b = Some (Inr (Some t, s', rid', b')) \<and>
        inv b' \<and> reads' t x \<and> (\<exists>rights lt idx ls rs. s' = NestedLoopJoinState rights lt idx ls rs \<and>
          loop_at readsR M E Pd is_left rights lt idx ls out)"
      using run[of b _ _ _ _ "x # out"] by (fastforce simp: loop_result_def)
  qed
qed

end

end
