(* ===== verification/Sort_Laws.thy ===== *)
theory Sort_Laws
  imports Executors "HOL-Library.Multiset"
begin

text \<open>
  Sorting by a comparison that may fail: what a successful \<open>std_sort\<close> gives, and the bounded
  priority queue of the top-N executor as the first rows of the sorted list.
\<close>

section \<open>Lists of results\<close>

lemma map_r_Inr_iff: "map_r f xs = Inr ys \<longleftrightarrow> list_all2 (\<lambda>x y. f x = Inr y) xs ys"
  by (induction xs arbitrary: ys) (auto simp: result_simps list_all2_Cons1)

lemma map_r_map: "\<forall>x\<in>set xs. f x = Inr (g x) \<Longrightarrow> map_r f xs = Inr (map g xs)"
  by (induction xs) simp_all

lemma map_r_related:
  assumes "list_all2 R ts rs" and "\<forall>t r. R t r \<longrightarrow> f t = g r"
  shows "map_r f ts = map_r g rs"
  using assms(1) by (induction rule: list_all2_induct) (simp_all add: assms(2))

section \<open>Orders given by a comparison\<close>

definition weak_order :: "('r \<Rightarrow> 'r \<Rightarrow> bool) \<Rightarrow> 'r set \<Rightarrow> bool" where
  "weak_order L A \<longleftrightarrow> (\<forall>a\<in>A. \<forall>b\<in>A. L a b \<longrightarrow> \<not> L b a) \<and> (\<forall>a\<in>A. \<forall>b\<in>A. \<forall>c\<in>A. L a c \<longrightarrow> L a b \<or> L b c)"

definition decides :: "('r \<Rightarrow> 'r \<Rightarrow> bool result) \<Rightarrow> ('r \<Rightarrow> 'r \<Rightarrow> bool) \<Rightarrow> 'r set \<Rightarrow> bool" where
  "decides cmp L A \<longleftrightarrow> (\<forall>a\<in>A. \<forall>b\<in>A. cmp a b = Inr (L a b))"

fun ins :: "('r \<Rightarrow> 'r \<Rightarrow> bool) \<Rightarrow> 'r \<Rightarrow> 'r list \<Rightarrow> 'r list" where
  "ins L x [] = [x]"
| "ins L x (y # ys) = (if L x y then x # y # ys else y # ins L x ys)"

definition ins_all :: "('r \<Rightarrow> 'r \<Rightarrow> bool) \<Rightarrow> 'r list \<Rightarrow> 'r list" where
  "ins_all L ts = fold (ins L) ts []"

text \<open>No row comes before one that the comparison puts earlier.\<close>

definition ordered :: "('r \<Rightarrow> 'r \<Rightarrow> bool) \<Rightarrow> 'r list \<Rightarrow> bool" where
  "ordered L = sorted_wrt (\<lambda>a b. \<not> L b a)"

lemma set_ins [simp]: "set (ins L x ys) = insert x (set ys)"
  by (induction ys) auto

lemma mset_ins [simp]: "mset (ins L x ys) = add_mset x (mset ys)"
  by (induction ys) auto

lemma length_ins [simp]: "length (ins L x ys) = Suc (length ys)"
  by (induction ys) auto

lemma mset_fold_ins: "mset (fold (ins L) ts acc) = mset ts + mset acc"
  by (induction ts arbitrary: acc) auto

lemma ordered_ins:
  assumes "weak_order L A" "x \<in> A" "set ys \<subseteq> A" "ordered L ys"
  shows "ordered L (ins L x ys)"
  using assms(3,4)
proof (induction ys)
  case (Cons y ys)
  have w: "\<And>a b. a \<in> A \<Longrightarrow> b \<in> A \<Longrightarrow> L a b \<Longrightarrow> \<not> L b a" "\<And>a b c. a \<in> A \<Longrightarrow> b \<in> A \<Longrightarrow> c \<in> A \<Longrightarrow> L a c \<Longrightarrow> L a b \<or> L b c"
    using assms(1) by (auto simp: weak_order_def)
  have y: "y \<in> A" "set ys \<subseteq> A" "\<forall>z\<in>set ys. \<not> L z y" "ordered L ys" using Cons.prems by (auto simp: ordered_def)
  show ?case
  proof (cases "L x y")
    case True
    have "\<not> L z x" if "z \<in> set ys" for z
      using w(2)[of x z y] w(1)[of z x] that y assms(2) True by (meson subsetD)
    then show ?thesis using True w(1)[OF assms(2) y(1)] y by (auto simp: ordered_def)
  next
    case False
    then show ?thesis using Cons.IH[OF y(2,4)] y(3) by (auto simp: ordered_def)
  qed
qed (simp add: ordered_def)

lemma ordered_ins_all:
  assumes "weak_order L (set ts)"
  shows "ordered L (ins_all L ts)" and "mset (ins_all L ts) = mset ts"
proof -
  have "ordered L acc \<Longrightarrow> set acc \<subseteq> set ts \<Longrightarrow> set us \<subseteq> set ts \<Longrightarrow> ordered L (fold (ins L) us acc)" for us acc
    by (induction us arbitrary: acc) (simp_all add: ordered_ins[OF assms])
  then show "ordered L (ins_all L ts)" by (simp add: ins_all_def ordered_def)
  show "mset (ins_all L ts) = mset ts" by (simp add: ins_all_def mset_fold_ins)
qed

section \<open>Sorting\<close>

lemma insert_by_ins: "decides cmp L (insert x (set ys)) \<Longrightarrow> insert_by cmp x ys = Inr (ins L x ys)"
  by (induction ys) (auto simp: decides_def)

lemma fold_insert_by:
  "decides cmp L (set ts \<union> set acc) \<Longrightarrow> fold_r (insert_by cmp) ts acc = Inr (fold (ins L) ts acc)"
proof (induction ts arbitrary: acc)
  case (Cons t ts)
  have "decides cmp L (insert t (set acc))" using Cons.prems by (auto simp: decides_def)
  then have "insert_by cmp t acc = Inr (ins L t acc)" by (rule insert_by_ins)
  then show ?case using Cons.IH[of "ins L t acc"] Cons.prems by (simp add: Un_left_commute)
qed simp

lemma strict_weak_decides:
  assumes "strict_weak cmp ts = Inr True"
  shows "decides cmp (\<lambda>a b. cmp a b = Inr True) (set ts)" and "weak_order (\<lambda>a b. cmp a b = Inr True) (set ts)"
proof -
  let ?L = "\<lambda>a b. cmp a b = Inr True"
  from assms obtain m where m: "map_r (\<lambda>a. map_r (cmp a) ts) ts = Inr m"
    and ok: "list_all (\<lambda>i. list_all (\<lambda>j. (m ! i ! j \<longrightarrow> \<not> m ! j ! i) \<and>
         list_all (\<lambda>k. m ! i ! k \<longrightarrow> m ! i ! j \<or> m ! j ! k) [0..<length ts]) [0..<length ts]) [0..<length ts]"
    by (auto simp: strict_weak_def result_simps Let_def)
  have row: "map_r (cmp (ts ! i)) ts = Inr (m ! i)" if "i < length ts" for i
    using m that by (auto simp: map_r_Inr_iff list_all2_conv_all_nth)
  have cell: "cmp (ts ! i) (ts ! j) = Inr (m ! i ! j)" if "i < length ts" "j < length ts" for i j
    using row[OF that(1)] that(2) by (auto simp: map_r_Inr_iff list_all2_conv_all_nth)
  show "decides cmp ?L (set ts)"
    using cell by (auto simp: decides_def in_set_conv_nth)
  have ok': "(m ! i ! j \<longrightarrow> \<not> m ! j ! i) \<and> (m ! i ! k \<longrightarrow> m ! i ! j \<or> m ! j ! k)"
    if "i < length ts" "j < length ts" "k < length ts" for i j k
    using ok that by (simp add: list_all_iff)
  show "weak_order ?L (set ts)"
    unfolding weak_order_def
  proof (intro conjI ballI impI)
    fix a b assume "a \<in> set ts" "b \<in> set ts" and l: "cmp a b = Inr True"
    then obtain i j where "i < length ts" "a = ts ! i" "j < length ts" "b = ts ! j" by (auto simp: in_set_conv_nth)
    then show "cmp b a \<noteq> Inr True" using l cell[of i j] cell[of j i] ok'[of i j i] by simp
  next
    fix a b c assume "a \<in> set ts" "b \<in> set ts" "c \<in> set ts" and l: "cmp a c = Inr True"
    then obtain i j k where "i < length ts" "a = ts ! i" "j < length ts" "b = ts ! j" "k < length ts" "c = ts ! k"
      by (auto simp: in_set_conv_nth)
    then show "cmp a b = Inr True \<or> cmp b c = Inr True"
      using l cell[of i k] cell[of i j] cell[of j k] ok'[of i j k] by simp
  qed
qed

text \<open>A successful sort of two or more rows.\<close>

lemma std_sort_result:
  assumes "std_sort cmp ts = Inr ts'"
  shows "length ts < 2 \<and> ts' = ts \<or>
    (\<exists>L. decides cmp L (set ts) \<and> weak_order L (set ts) \<and> ts' = ins_all L ts)"
proof (cases "length ts < 2")
  case True
  then show ?thesis using assms
    by (cases ts) (auto simp: std_sort_def require_strict_weak_def)
next
  case False
  with assms have sw: "strict_weak cmp ts = Inr True" and f: "fold_r (insert_by cmp) ts [] = Inr ts'"
    by (auto simp: std_sort_def require_strict_weak_def result_simps)
  note D = strict_weak_decides[OF sw]
  have "ts' = ins_all (\<lambda>a b. cmp a b = Inr True) ts" using fold_insert_by[of cmp _ ts "[]"] D(1) f by (simp add: ins_all_def)
  then show ?thesis using D by blast
qed

lemma std_sort_sorted:
  assumes "std_sort cmp ts = Inr ts'"
  shows "mset ts' = mset ts" and "length ts \<ge> 2 \<Longrightarrow> sorted_wrt (\<lambda>a b. cmp b a = Inr False) ts'"
proof -
  from std_sort_result[OF assms] show "mset ts' = mset ts" by (auto simp: ordered_ins_all)
  assume "length ts \<ge> 2"
  with std_sort_result[OF assms] obtain L where L: "decides cmp L (set ts)" "weak_order L (set ts)" "ts' = ins_all L ts" by auto
  have "set ts' = set ts" using ordered_ins_all(2)[OF L(2)] L(3) by (metis set_mset_mset)
  moreover have "sorted_wrt (\<lambda>a b. \<not> L b a) ts'" using ordered_ins_all(1)[OF L(2)] L(3) by (simp add: ordered_def)
  ultimately show "sorted_wrt (\<lambda>a b. cmp b a = Inr False) ts'"
    using L(1) by (auto intro: sorted_wrt_mono_rel[rotated] simp: decides_def)
qed

text \<open>Sorting related lists gives related lists.\<close>

lemma insert_by_related:
  assumes R: "\<forall>a x b y. R a x \<longrightarrow> R b y \<longrightarrow> ct a b = cr x y" and "R t r"
  shows "list_all2 R ts rs \<Longrightarrow> insert_by cr r rs = Inr rs' \<Longrightarrow> \<exists>ts'. insert_by ct t ts = Inr ts' \<and> list_all2 R ts' rs'"
proof (induction ts rs arbitrary: rs' rule: list_all2_induct)
  case (Cons a as x xs)
  have "ct t a = cr r x" using R assms(2) Cons.hyps(1) by blast
  then show ?case using Cons assms(2) by (fastforce simp: result_simps split: if_splits)
qed (use assms(2) in simp)

lemma fold_insert_related:
  assumes R: "\<forall>a x b y. R a x \<longrightarrow> R b y \<longrightarrow> ct a b = cr x y"
  shows "list_all2 R ts rs \<Longrightarrow> list_all2 R ta ra \<Longrightarrow> fold_r (insert_by cr) rs ra = Inr rs' \<Longrightarrow>
    \<exists>ts'. fold_r (insert_by ct) ts ta = Inr ts' \<and> list_all2 R ts' rs'"
proof (induction ts rs arbitrary: ta ra rule: list_all2_induct)
  case (Cons t ts r rs)
  from Cons.prems(2) obtain r1 where r1: "insert_by cr r ra = Inr r1" "fold_r (insert_by cr) rs r1 = Inr rs'"
    by (auto simp: result_simps)
  from insert_by_related[OF R Cons.hyps(1) Cons.prems(1) r1(1)] obtain t1 where
    "insert_by ct t ta = Inr t1" "list_all2 R t1 r1" by blast
  then show ?case using Cons.IH[of t1 r1] r1(2) by simp
qed simp

lemma std_sort_related:
  assumes R: "\<forall>a x b y. R a x \<longrightarrow> R b y \<longrightarrow> ct a b = cr x y" and l: "list_all2 R ts rs" and s: "std_sort cr rs = Inr rs'"
  shows "\<exists>ts'. std_sort ct ts = Inr ts' \<and> list_all2 R ts' rs'"
proof -
  have len: "length ts = length rs" using l by (rule list_all2_lengthD)
  have "\<forall>t r. R t r \<longrightarrow> map_r (ct t) ts = map_r (cr r) rs" using R map_r_related[OF l] by metis
  then have "map_r (\<lambda>a. map_r (ct a) ts) ts = map_r (\<lambda>a. map_r (cr a) rs) rs" by (rule map_r_related[OF l])
  then have "require_strict_weak ct ts = require_strict_weak cr rs"
    by (simp add: require_strict_weak_def strict_weak_def len)
  then show ?thesis using s fold_insert_related[OF R l, of "[]" "[]"] by (auto simp: std_sort_def result_simps)
qed

section \<open>The bounded queue\<close>

lemma pq_push_rev:
  assumes w: "weak_order L A" and d: "decides cmp L A" and x: "x \<in> A"
  shows "set ys \<subseteq> A \<Longrightarrow> ordered L ys \<Longrightarrow> pq_push cmp x (rev ys) = Inr (rev (ins L x ys))"
proof (induction ys rule: rev_induct)
  case (snoc y ys)
  have y: "y \<in> A" "set ys \<subseteq> A" "ordered L ys" "\<forall>z\<in>set ys. \<not> L y z" using snoc.prems by (auto simp: ordered_def sorted_wrt_append)
  have c: "cmp x y = Inr (L x y)" using d x y(1) by (simp add: decides_def)
  have before: "ins L x (ys @ [y]) = ins L x ys @ [y]" if "L x y"
    using that by (induction ys) simp_all
  have after: "ins L x (ys @ [y]) = ys @ [y, x]" if "\<not> L x y"
  proof -
    have "\<not> L x z" if "z \<in> set ys" for z
      using w x y that \<open>\<not> L x y\<close> unfolding weak_order_def by (meson subsetD)
    then show ?thesis using \<open>\<not> L x y\<close> by (induction ys) auto
  qed
  show ?case using snoc.IH[OF y(2,3)] c before after by (cases "L x y") simp_all
qed simp

lemma take_ins: "take n (ins L x (take n zs)) = take n (ins L x zs)"
  by (induction zs arbitrary: n) (auto simp: take_Cons' split: nat.splits)

lemma ordered_take: "ordered L zs \<Longrightarrow> ordered L (take n zs)"
  by (simp add: ordered_def sorted_wrt_take)

lemma drop_top: "length z \<le> Suc n \<Longrightarrow> (if length (rev z) > n then tl (rev z) else rev z) = rev (take n z)"
proof (cases "length z > n")
  case True
  assume "length z \<le> Suc n"
  with True have "length z = Suc n" by simp
  then have "butlast z = take n z" by (simp add: butlast_conv_take)
  moreover have "tl (rev z) = rev (butlast z)" by (metis butlast_rev rev_rev_ident)
  ultimately show ?thesis using True by simp
qed simp

lemma topn_push_take:
  assumes w: "weak_order L A" and d: "decides cmp L A" and x: "x \<in> A" and zs: "set zs \<subseteq> A" "ordered L zs"
  shows "topn_push cmp n x (rev (take n zs)) = Inr (rev (take n (ins L x zs)))"
proof -
  let ?z = "ins L x (take n zs)"
  have "set (take n zs) \<subseteq> A" using zs(1) set_take_subset by fast
  then have p: "pq_push cmp x (rev (take n zs)) = Inr (rev ?z)" by (rule pq_push_rev[OF w d x _ ordered_take[OF zs(2)]])
  have "(if length (rev ?z) > n then tl (rev ?z) else rev ?z) = rev (take n ?z)" by (rule drop_top) simp
  then show ?thesis using p take_ins[of n L x zs] by (simp add: topn_push_def)
qed

lemma topn_fold:
  assumes w: "weak_order L (set ts)" and d: "decides cmp L (set ts)"
  shows "set us \<subseteq> set ts \<Longrightarrow> set zs \<subseteq> set ts \<Longrightarrow> ordered L zs \<Longrightarrow>
    fold_r (topn_body cmp n) us (rev (take n zs), seen) = Inr (rev (take n (fold (ins L) us zs)), seen @ us)"
proof (induction us arbitrary: zs seen)
  case (Cons u us)
  have u: "u \<in> set ts" "set us \<subseteq> set ts" using Cons.prems(1) by simp_all
  have "set (ins L u zs) \<subseteq> set ts" "ordered L (ins L u zs)"
    using u Cons.prems(2,3) ordered_ins[OF w] by simp_all
  from Cons.IH[OF u(2) this, of "seen @ [u]"] topn_push_take[OF w d u(1) Cons.prems(2,3), of n]
  show ?case by (simp add: topn_body_def)
qed simp

lemma pq_to_stack_rev: "pq_to_stack pq stack = rev pq @ stack"
  by (induction pq arbitrary: stack) simp_all

text \<open>The queue ends with the first \<open>n\<close> rows of the sorted list.\<close>

lemma topn_sorted:
  assumes s: "std_sort cmp ts = Inr ts'"
  shows "fold_r (topn_body cmp n) ts ([], []) = Inr (rev (take n ts'), ts)"
  using std_sort_result[OF s]
proof
  assume "\<exists>L. decides cmp L (set ts) \<and> weak_order L (set ts) \<and> ts' = ins_all L ts"
  then show ?thesis using topn_fold[of _ ts cmp ts "[]" n "[]"] by (auto simp: ins_all_def ordered_def)
next
  assume small: "length ts < 2 \<and> ts' = ts"
  then consider "ts = []" | t where "ts = [t]" by (cases ts) auto
  then show ?thesis using small
    by cases (auto simp: topn_body_def topn_push_def)
qed

text \<open>With \<open>n = 0\<close> the queue never compares.\<close>

lemma topn_zero: "fold_r (topn_body cmp 0) ts ([], seen) = Inr ([], seen @ ts)"
  by (induction ts arbitrary: seen) (simp_all add: topn_body_def topn_push_def)

end
