(* ===== verification/Group_Laws.thy ===== *)
theory Group_Laws
  imports Relational Sort_Laws
begin

text \<open>
  The aggregation hash table: on keys that are integers or texts, inserting the rows one by one
  leaves the groups of the rows, in the order in which the keys were first seen.
\<close>

section \<open>Keys\<close>

lemma plain_text:
  assumes "plain_key F v" "vtype v = VARCHAR"
  obtains s where "Value_string VARCHAR s = Inr v" "length s < 2 ^ 31"
proof -
  from assms obtain t where t: "vval v = VStr t" "t \<noteq> []" "last t = NUL" "length t \<le> 2 ^ 31" "vlen v = length t"
    by (auto simp: plain_key_def wf_Value_def split: payload.splits)
  then have e: "butlast t @ [NUL] = t" by (metis append_butlast_last_id)
  have "length (butlast t) + 1 = length t" using t(2) by (cases t) simp_all
  then have "Value_string VARCHAR (butlast t) = Inr v" using t e assms(2) by (cases v) simp
  moreover have "length (butlast t) < 2 ^ 31" using t(2,4) by (cases t) simp_all
  ultimately show ?thesis by (rule that)
qed

lemma plain_equal:
  assumes v: "plain_key F v" and w: "plain_key F w" and T: "vtype v = vtype w"
  shows "\<exists>c. Value_CompareEquals F v w = Inr c \<and> (c = CmpTrue \<longleftrightarrow> v = w)"
proof (cases "vtype v = VARCHAR")
  case True
  from plain_text[OF v True] obtain s where s: "Value_string VARCHAR s = Inr v" "length s < 2 ^ 31" .
  from plain_text[OF w] T True obtain t where t: "Value_string VARCHAR t = Inr w" "length t < 2 ^ 31" by metis
  have "Value_compare F OpEq v w = Inr (GetCmpBool (string_cmp OpEq s t))" by (rule compare_strings[OF s(1) t(1) s(2) t(2)])
  moreover have "v = w \<longleftrightarrow> s = t" using s(1) t(1) by auto
  ultimately show ?thesis by (auto simp: GetCmpBool_def)
next
  case False
  have wf: "wf_Value F v" "is_int_type (vtype v)" "wf_Value F w" "is_int_type (vtype w)" "\<not> IsNull v" "\<not> IsNull w"
    using v w T False by (auto simp: plain_key_def is_int_type_def)
  then have "v = int_value (vtype v) (as_int v)" "w = int_value (vtype w) (as_int w)"
    using wf_int_cases by blast+
  then have "v = w \<longleftrightarrow> as_int v = as_int w" using T by metis
  then show ?thesis using compare_wf_integers[OF wf(1-4), of OpEq] wf(5,6) by (auto simp: GetCmpBool_def)
qed

lemma plain_hash: "plain_key F v \<Longrightarrow> \<exists>h. HashValue F v = Inr h"
  by (auto simp: plain_key_def HashValue_def split: payload.splits)

lemma plain_keys_equal:
  assumes "list_all (plain_key F) k" "list_all (plain_key F) k'" "map vtype k = map vtype k'"
  shows "AggregateKey_eq F k k' = Inr (k = k')"
proof -
  have "list_all2 (\<lambda>v w. plain_key F v \<and> plain_key F w \<and> vtype v = vtype w) k k'"
    using assms
  proof (induction k arbitrary: k')
    case (Cons v k)
    then show ?case by (cases k') auto
  qed simp
  then show ?thesis
  proof (induction rule: list_all2_induct)
    case (Cons v vs w ws)
    then obtain c where "Value_CompareEquals F v w = Inr c" "c = CmpTrue \<longleftrightarrow> v = w" using plain_equal by blast
    then show ?case using Cons.IH by simp
  qed simp
qed

lemma plain_keys_hash: "list_all (plain_key F) k \<Longrightarrow> \<exists>h. hash_AggregateKey F h0 k = Inr h"
proof (induction k arbitrary: h0)
  case (Cons v k)
  then obtain h where "HashValue F v = Inr h" using plain_hash[of F v] by auto
  moreover have "\<not> IsNull v" using Cons.prems by (simp add: plain_key_def)
  ultimately show ?case using Cons by simp
qed simp

text \<open>Looking a key up among keys of the same types finds its position.\<close>

fun position :: "'a \<Rightarrow> nat \<Rightarrow> 'a list \<Rightarrow> nat option" where
  "position x i [] = None"
| "position x i (y # ys) = (if x = y then Some i else position x (i + 1) ys)"

lemma find_key_position:
  assumes k: "list_all (plain_key F) k"
  shows "list_all (\<lambda>kv. list_all (plain_key F) (fst kv) \<and> map vtype (fst kv) = map vtype k) ht \<Longrightarrow>
    find_key F k i ht = Inr (position k i (map fst ht))"
proof (induction ht arbitrary: i)
  case (Cons kv ht)
  obtain k' v where kv: "kv = (k', v)" by (cases kv)
  have p: "list_all (plain_key F) k'" "map vtype k = map vtype k'" using Cons.prems kv by simp_all
  from plain_keys_hash[OF k] plain_keys_hash[OF p(1)] obtain h h' where
    "hash_AggregateKey F 0 k = Inr h" "hash_AggregateKey F 0 k' = Inr h'" by blast
  then show ?case using Cons kv plain_keys_equal[OF k p] by auto
qed simp

lemma position_absent: "x \<notin> set ys \<Longrightarrow> position x i ys = None"
  by (induction ys arbitrary: i) auto

lemma position_middle: "x \<notin> set xs \<Longrightarrow> position x i (xs @ x # ys) = Some (i + length xs)"
  by (induction xs arbitrary: i) auto

section \<open>Groups\<close>

lemma firsts_snoc: "firsts (xs @ [x]) = (if x \<in> set xs then firsts xs else firsts xs @ [x])"
  by (simp add: firsts_def)

lemma set_firsts [simp]: "set (firsts xs) = set xs"
  by (simp add: firsts_def)

lemma distinct_firsts [simp]: "distinct (firsts xs)"
  by (simp add: firsts_def)

lemma bind_r_fun_cong: "(\<And>x. f x = g x) \<Longrightarrow> bind_r m f = bind_r m g"
  by (cases m) simp_all

lemma bind_r_Inr [simp]: "bind_r m Inr = m" "bind_r m (\<lambda>x. Inr x) = m"
  by (cases m; simp)+

lemma fold_r_append: "fold_r f (xs @ ys) s = bind_r (fold_r f xs s) (fold_r f ys)"
proof (induction xs arbitrary: s)
  case (Cons x xs)
  then show ?case by (cases "f x s") simp_all
qed simp

text \<open>The value of one group.\<close>

definition group_value where
  "group_value ov F n types kvs k =
     bind_r (GenerateInitialAggregateValue F types) (\<lambda>init.
       fold_r (\<lambda>v acc. CombineAggregateValues ov F n types acc v) (map snd (filter (\<lambda>kv. fst kv = k) kvs)) init)"

lemma map_r_pairs:
  "map_r (\<lambda>k. bind_r (g k) (\<lambda>v. Inr (k, v))) ks = Inr kvs \<longleftrightarrow> map fst kvs = ks \<and> (\<forall>kv\<in>set kvs. g (fst kv) = Inr (snd kv))"
  by (induction ks arbitrary: kvs) (auto simp: result_simps Cons_eq_map_conv)

lemma group_rows_iff:
  "group_rows ov F n types kvs = Inr groups \<longleftrightarrow>
   map fst groups = firsts (map fst kvs) \<and> (\<forall>kv\<in>set groups. group_value ov F n types kvs (fst kv) = Inr (snd kv))"
proof -
  have "group_rows ov F n types kvs =
      map_r (\<lambda>k. bind_r (group_value ov F n types kvs k) (\<lambda>v. Inr (k, v))) (firsts (map fst kvs))"
    by (simp add: group_rows_def group_value_def bind_r_assoc)
  then show ?thesis by (simp add: map_r_pairs)
qed

lemma group_value_snoc:
  "group_value ov F n types (kvs @ [(k, v)]) k' =
   (if k' = k then bind_r (group_value ov F n types kvs k) (\<lambda>acc. CombineAggregateValues ov F n types acc v)
    else group_value ov F n types kvs k')"
proof -
  have "fold_r f (xs @ [v]) s = bind_r (fold_r f xs s) (f v)" for f :: "'a Value list \<Rightarrow> 'a Value list \<Rightarrow> 'a Value list result" and xs s
    by (cases "fold_r f xs s"; simp add: fold_r_append; cases "f v (projr (fold_r f xs s))"; simp)
  then show ?thesis by (auto simp: group_value_def bind_r_assoc)
qed

text \<open>Inserting one more row.\<close>

lemma InsertCombine_group:
  assumes p: "plain_keys F (map fst (kvs @ [(k, v)]))"
    and g: "group_rows ov F n types (kvs @ [(k, v)]) = Inr groups"
  shows "\<exists>groups0. group_rows ov F n types kvs = Inr groups0 \<and> InsertCombine ov F n types k v groups0 = Inr groups"
proof -
  define h where "h = map vtype (hd (map fst (kvs @ [(k, v)])))"
  have all: "\<forall>x\<in>set (map fst (kvs @ [(k, v)])). map vtype x = h \<and> list_all (plain_key F) x"
    using p by (simp only: plain_keys_def list_all_iff[of _ "map fst (kvs @ [(k, v)])"] h_def) blast
  then have same: "map vtype k' = map vtype k" "list_all (plain_key F) k'" if "k' \<in> set (map fst kvs)" for k'
    using that by auto
  have kp: "list_all (plain_key F) k" using p by (simp add: plain_keys_def)
  have find: "find_key F k 0 ht = Inr (position k 0 (map fst ht))" if sub: "set (map fst ht) \<subseteq> insert k (set (map fst kvs))" for ht :: "('a Value list \<times> 'a Value list) list"
  proof (rule find_key_position[OF kp])
    have "list_all (plain_key F) (fst kv) \<and> map vtype (fst kv) = map vtype k" if kv: "kv \<in> set ht" for kv
    proof (cases "fst kv = k")
      case False
      then have "fst kv \<in> set (map fst kvs)" using sub kv by (metis image_eqI insertE list.set_map subsetD)
      then show ?thesis using same by blast
    qed (simp add: kp)
    then show "list_all (\<lambda>kv. list_all (plain_key F) (fst kv) \<and> map vtype (fst kv) = map vtype k) ht"
      by (simp add: list_all_iff)
  qed
  from g have keys: "map fst groups = firsts (map fst (kvs @ [(k, v)]))"
    and vals: "\<And>kv. kv \<in> set groups \<Longrightarrow> group_value ov F n types (kvs @ [(k, v)]) (fst kv) = Inr (snd kv)"
    by (auto simp: group_rows_iff)
  show ?thesis
  proof (cases "k \<in> set (map fst kvs)")
    case True
    then have keys': "map fst groups = firsts (map fst kvs)" using keys by (simp add: firsts_snoc)
    with True have "k \<in> set (map fst groups)" by simp
    then obtain xs y ys where gr: "groups = xs @ (k, y) # ys" by (metis (no_types, opaque_lifting) in_set_conv_decomp list.set_map imageE prod.collapse)
    have d: "distinct (map fst groups)" unfolding keys' by simp
    then have out: "k \<notin> set (map fst xs)" "k \<notin> set (map fst ys)" using gr by auto
    from vals[of "(k, y)"] gr obtain y0 where y0: "group_value ov F n types kvs k = Inr y0"
      "CombineAggregateValues ov F n types y0 v = Inr y" by (auto simp: group_value_snoc result_simps)
    let ?g0 = "xs @ (k, y0) # ys"
    have "map fst ?g0 = map fst groups" using gr by simp
    moreover have "group_value ov F n types kvs (fst kv) = Inr (snd kv)" if "kv \<in> set ?g0" for kv
      using that vals[of kv] gr out y0(1) by (auto simp: group_value_snoc split: if_splits)
    ultimately have g0: "group_rows ov F n types kvs = Inr ?g0" using keys' by (simp add: group_rows_iff)
    have "set (map fst ?g0) \<subseteq> insert k (set (map fst kvs))"
      using arg_cong[OF keys', of set] gr by auto
    from find[OF this] have "find_key F k 0 ?g0 = Inr (Some (length xs))" using position_middle[of k "map fst xs" 0] out(1) by simp
    then have "InsertCombine ov F n types k v ?g0 = Inr groups"
      using y0(2) gr by (simp add: InsertCombine_def nth_append)
    then show ?thesis using g0 by blast
  next
    case False
    then have keys': "map fst groups = firsts (map fst kvs) @ [k]" using keys by (simp add: firsts_snoc)
    then obtain g0 y where gr: "groups = g0 @ [(k, y)]" "map fst g0 = firsts (map fst kvs)"
      by (cases groups rule: rev_cases) auto
    have "filter (\<lambda>kv. fst kv = k) kvs = []" using False by (force simp: filter_empty_conv)
    then have gv: "group_value ov F n types kvs k = (GenerateInitialAggregateValue F types :: 'a Value list result)"
      by (simp add: group_value_def)
    have "group_value ov F n types (kvs @ [(k, v)]) k = Inr y" using vals[of "(k, y)"] by (simp add: gr(1))
    then have "bind_r (GenerateInitialAggregateValue F types) (\<lambda>acc. CombineAggregateValues ov F n types acc v) = Inr y"
      by (simp only: group_value_snoc gv if_True refl)
    then obtain y0 where y0: "GenerateInitialAggregateValue F types = Inr (y0 :: 'a Value list)"
      "CombineAggregateValues ov F n types y0 v = Inr y" unfolding bind_r_Inr_iff by blast
    have "fst kv \<noteq> k" if "kv \<in> set g0" for kv
    proof -
      have "fst kv \<in> set (map fst kvs)" using arg_cong[OF gr(2), of set] that by (metis image_eqI list.set_map set_firsts)
      then show ?thesis using False by metis
    qed
    then have "group_value ov F n types kvs (fst kv) = Inr (snd kv)" if "kv \<in> set g0" for kv
      using that vals[of kv] by (simp add: group_value_snoc gr(1))
    then have g: "group_rows ov F n types kvs = Inr g0" using gr(2) by (simp add: group_rows_iff)
    have sub: "set (map fst g0) \<subseteq> insert k (set (map fst kvs))" "set (map fst (g0 @ [(k, y0)])) \<subseteq> insert k (set (map fst kvs))"
      using arg_cong[OF gr(2), of set] by auto
    have out: "k \<notin> set (map fst g0)" using False arg_cong[OF gr(2), of set] by simp
    have "find_key F k 0 g0 = Inr None" "find_key F k 0 (g0 @ [(k, y0)]) = Inr (Some (length g0))"
      using find[OF sub(1)] find[OF sub(2)] position_absent[OF out, of 0] position_middle[OF out, of 0 "[]"] by simp_all
    then have "InsertCombine ov F n types k v g0 = Inr groups"
      using y0 gr(1) by (simp add: InsertCombine_def)
    then show ?thesis using g by blast
  qed
qed

lemma aggregate_groups:
  "\<lbrakk> plain_keys F (map fst kvs); group_rows ov F n types kvs = Inr groups \<rbrakk> \<Longrightarrow>
   fold_r (\<lambda>(k, v). InsertCombine ov F n types k v) kvs [] = Inr groups"
proof (induction kvs arbitrary: groups rule: rev_induct)
  case Nil
  then show ?case by (simp add: group_rows_def firsts_def)
next
  case (snoc kv kvs)
  obtain k v where kv: "kv = (k, v)" by (cases kv)
  from InsertCombine_group[OF snoc.prems[unfolded kv]] obtain groups0 where
    g: "group_rows ov F n types kvs = Inr groups0" "InsertCombine ov F n types k v groups0 = Inr groups" by blast
  have "plain_keys F (map fst kvs)" using snoc.prems(1) by (cases kvs) (auto simp: plain_keys_def)
  from snoc.IH[OF this g(1)] g(2) show ?case by (simp add: fold_r_append kv)
qed

end
