(* ===== verification/Blocking.thy ===== *)
theory Blocking
  imports Execution Group_Laws
begin

text \<open>
  Executors that read their child in \<open>Init\<close>: hash join, sort, top-N and aggregation. What they leave
  is a list with a cursor.
\<close>

section \<open>Lists with a cursor\<close>

lemma cursor_end: "c \<le> length ts \<Longrightarrow> list_all2 R (drop c ts) [] \<Longrightarrow> c = length ts"
  by simp

lemma cursor_next:
  assumes "c \<le> length ts" "list_all2 R (drop c ts) (r # rs)"
  shows "c < length ts" "R (ts ! c) r" "list_all2 R (drop (Suc c) ts) rs" "Suc c \<le> length ts"
proof -
  from assms show c: "c < length ts" by (cases "c = length ts") simp_all
  then have "drop c ts = ts ! c # drop (Suc c) ts" by (simp add: Cons_nth_drop_Suc)
  with assms c show "R (ts ! c) r" "list_all2 R (drop (Suc c) ts) rs" "Suc c \<le> length ts" by simp_all
qed

lemma sort_source:
  "row_source I SortExecutor_Next reads
     (\<lambda>s rs. \<exists>ts c s1. s = SortState ts c s1 \<and> c \<le> length ts \<and> list_all2 reads (drop c ts) rs)"
  by unfold_locales (auto dest: cursor_end cursor_next)

lemma hash_source:
  "row_source I HashJoinExecutor_Next reads
     (\<lambda>s rs. \<exists>table out c ls rs1. s = HashJoinState table out c ls rs1 \<and> c \<le> length out \<and> list_all2 reads (drop c out) rs)"
  by unfold_locales (auto dest: cursor_end cursor_next)

lemma topn_source:
  "row_source I TopNExecutor_Next reads (\<lambda>s rs. \<exists>ts s1. s = TopNState ts s1 \<and> list_all2 reads ts rs)"
  by unfold_locales (auto simp: list_all2_Cons2)

lemma aggregation_source:
  assumes fits: "\<And>row x. fit (ctx_floats X) out row = Inr x \<Longrightarrow> \<exists>t. Tuple_of_values (ctx_floats X) row out = Inr t \<and> reads t x"
  shows "row_source I (AggregationExecutor_Next X out) reads
     (\<lambda>s rs. \<exists>ht c s1. s = AggregationState ht c s1 \<and> c \<le> length ht \<and>
        list_all2 (\<lambda>kv r. fit (ctx_floats X) out (fst kv @ snd kv) = Inr r) (drop c ht) rs)"
proof unfold_locales
  fix b s rid r rs
  assume b: "I b" and "\<exists>ht c s1. s = AggregationState ht c s1 \<and> c \<le> length ht \<and>
        list_all2 (\<lambda>kv r. fit (ctx_floats X) out (fst kv @ snd kv) = Inr r) (drop c ht) (r # rs)"
  then obtain ht c s1 where s: "s = AggregationState ht c s1" "c \<le> length ht"
    "list_all2 (\<lambda>kv r. fit (ctx_floats X) out (fst kv @ snd kv) = Inr r) (drop c ht) (r # rs)" by blast
  note c = cursor_next[OF s(2,3)]
  from fits[OF c(2)] obtain t where "Tuple_of_values (ctx_floats X) (fst (ht ! c) @ snd (ht ! c)) out = Inr t" "reads t r" by blast
  then show "\<exists>t s' rid' b'. AggregationExecutor_Next X out s rid b = Some (Inr (Some t, s', rid', b')) \<and> I b' \<and> reads t r \<and>
      (\<exists>ht c s1. s' = AggregationState ht c s1 \<and> c \<le> length ht \<and>
        list_all2 (\<lambda>kv r. fit (ctx_floats X) out (fst kv @ snd kv) = Inr r) (drop c ht) rs)"
    using b c s(1) by auto
qed auto

section \<open>The hash table of a join\<close>

definition bucket_of :: "(Tuple \<Rightarrow> hash_t result) \<Rightarrow> Tuple list \<Rightarrow> hash_t \<Rightarrow> Tuple list" where
  "bucket_of rhash ts h = filter (\<lambda>t. rhash t = Inr h) ts"

definition table_of_buckets :: "(Tuple \<Rightarrow> hash_t result) \<Rightarrow> Tuple list \<Rightarrow> hash_t \<Rightarrow> Tuple list option" where
  "table_of_buckets rhash ts h = (if bucket_of rhash ts h = [] then None else Some (bucket_of rhash ts h))"

lemma hash_right_fold:
  "\<forall>t\<in>set us. \<exists>h. rhash t = Inr h \<Longrightarrow>
   fold_r (hash_right rhash) us (table_of_buckets rhash ts) = Inr (table_of_buckets rhash (ts @ us))"
proof (induction us arbitrary: ts)
  case (Cons u us)
  then obtain h where h: "rhash u = Inr h" by auto
  have "(table_of_buckets rhash ts)(h \<mapsto> (case table_of_buckets rhash ts h of None \<Rightarrow> [] | Some ts \<Rightarrow> ts) @ [u]) =
      table_of_buckets rhash (ts @ [u])"
    using h by (auto simp: table_of_buckets_def bucket_of_def fun_eq_iff)
  then show ?case using Cons h by (simp add: hash_right_def)
qed simp

lemma table_of_no_buckets: "table_of_buckets rhash [] = Map.empty"
  by (simp add: table_of_buckets_def bucket_of_def fun_eq_iff)

lemma bucket_related:
  assumes "list_all2 R ts rs" and "\<forall>t r. R t r \<longrightarrow> rhash t = rhash' r" and "map_r rhash' rs = Inr hs"
  shows "list_all2 R (bucket_of rhash ts h) (map snd (filter (\<lambda>(h', r). h' = h) (zip hs rs)))"
    and "\<forall>t\<in>set ts. \<exists>h. rhash t = Inr h"
  using assms(1,3)
  by (induction arbitrary: hs rule: list_all2_induct) (auto simp: bucket_of_def result_simps assms(2))

lemma probe_bucket_related:
  assumes "list_all2 R ts rs" and same: "\<forall>t r. R t r \<longrightarrow> same t = same' r"
    and emit: "\<forall>t r x. R t r \<longrightarrow> E r = Inr x \<longrightarrow> (\<exists>u. emit t = Inr u \<and> reads' u x)"
    and "filter_r same' rs = Inr ms" "map_r E ms = Inr xs"
  shows "\<exists>us. probe_bucket same emit ts out = Inr (out @ us) \<and> list_all2 reads' us xs"
  using assms(1,4,5)
proof (induction arbitrary: ms xs out rule: list_all2_induct)
  case (Cons t ts r rs)
  from Cons.prems(1) obtain ok ms1 where ok: "same' r = Inr ok" "filter_r same' rs = Inr ms1" "ms = (if ok then r # ms1 else ms1)"
    by (auto simp: result_simps)
  have s: "same t = Inr ok" using same Cons.hyps(1) ok(1) by simp
  show ?case
  proof (cases ok)
    case True
    with Cons.prems(2) ok(3) obtain x xs1 where x: "E r = Inr x" "map_r E ms1 = Inr xs1" "xs = x # xs1" by (auto simp: result_simps)
    from emit Cons.hyps(1) x(1) obtain u where u: "emit t = Inr u" "reads' u x" by blast
    from Cons.IH[OF ok(2) x(2), of "out @ [u]"] obtain us where
      "probe_bucket same emit ts (out @ [u]) = Inr (out @ [u] @ us)" "list_all2 reads' us xs1" by auto
    then show ?thesis using s u x(3) True by (intro exI[of _ "u # us"]) simp
  next
    case False
    then show ?thesis using Cons.IH[OF ok(2), of xs out] Cons.prems(2) ok(3) s by simp
  qed
qed simp

text \<open>The rows that one left row contributes to a hash join.\<close>

definition hash_one where
  "hash_one lhash hs rs same E Pd is_left l =
     bind_r (lhash l) (\<lambda>h. let bucket = map snd (filter (\<lambda>(h', r). h' = h) (zip hs rs))
       in bind_r (filter_r (same l) bucket) (\<lambda>ms. if is_left \<and> bucket = [] then bind_r (Pd l) (\<lambda>x. Inr [x]) else map_r (E l) ms))"

lemma probe_left_fold:
  assumes lh: "\<forall>t l. readsL t l \<longrightarrow> lhash t = lhash' l"
    and rows: "list_all2 readsR ts rs" and rh: "\<forall>t r. readsR t r \<longrightarrow> rhash t = rhash' r" and hs: "map_r rhash' rs = Inr hs"
    and same: "\<forall>lt l rt r. readsL lt l \<longrightarrow> readsR rt r \<longrightarrow> same lt rt = same' l r"
    and emit: "\<forall>lt l rt r x. readsL lt l \<longrightarrow> readsR rt r \<longrightarrow> E l r = Inr x \<longrightarrow> (\<exists>t. emit lt rt = Inr t \<and> reads' t x)"
    and pad: "\<forall>lt l x. readsL lt l \<longrightarrow> Pd l = Inr x \<longrightarrow> (\<exists>t. pad lt = Inr t \<and> reads' t x)"
  shows "list_all2 readsL us ls \<Longrightarrow> map_r (hash_one lhash' hs rs same' E Pd is_left) ls = Inr xss \<Longrightarrow>
    \<exists>ys. fold_r (probe_left lhash same emit pad is_left (table_of_buckets rhash ts)) us out = Inr (out @ ys) \<and>
      list_all2 reads' ys (concat xss)"
proof (induction arbitrary: xss out rule: list_all2_induct)
  case (Cons u us l ls)
  from Cons.prems obtain xs xss1 where x: "hash_one lhash' hs rs same' E Pd is_left l = Inr xs" "map_r (hash_one lhash' hs rs same' E Pd is_left) ls = Inr xss1" "xss = xs # xss1" by (auto simp: result_simps)
  from x(1) obtain h where h: "lhash' l = Inr h" by (auto simp: hash_one_def result_simps)
  define bucket where "bucket = map snd (filter (\<lambda>(h', r). h' = h) (zip hs rs))"
  from x(1) h obtain ms where ms: "filter_r (same' l) bucket = Inr ms"
    "(if is_left \<and> bucket = [] then bind_r (Pd l) (\<lambda>x. Inr [x]) else map_r (E l) ms) = Inr xs"
    by (auto simp: hash_one_def result_simps Let_def bucket_def)
  have rel: "list_all2 readsR (bucket_of rhash ts h) bucket"
    unfolding bucket_def by (rule bucket_related(1)[OF rows rh hs])
  have lhu: "lhash u = Inr h" using lh Cons.hyps(1) h by simp
  have "\<exists>ys. probe_left lhash same emit pad is_left (table_of_buckets rhash ts) u out = Inr (out @ ys) \<and> list_all2 reads' ys xs"
  proof (cases "bucket = []")
    case True
    then have e: "table_of_buckets rhash ts h = None" using rel by (simp add: table_of_buckets_def)
    show ?thesis
    proof (cases is_left)
      case True
      with ms(2) \<open>bucket = []\<close> obtain y where y: "Pd l = Inr y" "xs = [y]" by (auto simp: result_simps)
      from pad Cons.hyps(1) y(1) obtain t where "pad u = Inr t" "reads' t y" by blast
      then show ?thesis using True e y(2) lhu by (intro exI[of _ "[t]"]) (simp add: probe_left_def)
    next
      case False
      then show ?thesis using ms \<open>bucket = []\<close> e lhu by (simp add: probe_left_def)
    qed
  next
    case False
    then have e: "table_of_buckets rhash ts h = Some (bucket_of rhash ts h)" using rel by (auto simp: table_of_buckets_def)
    have "\<forall>t r. readsR t r \<longrightarrow> same u t = same' l r" using same Cons.hyps(1) by blast
    moreover have "\<forall>t r x. readsR t r \<longrightarrow> E l r = Inr x \<longrightarrow> (\<exists>v. emit u t = Inr v \<and> reads' v x)"
      using emit Cons.hyps(1) by blast
    ultimately show ?thesis
      using probe_bucket_related[OF rel _ _ ms(1), of "same u" "E l" "emit u" reads' xs out] ms(2) False e lhu
      by (simp add: probe_left_def)
  qed
  then obtain ys where ys: "probe_left lhash same emit pad is_left (table_of_buckets rhash ts) u out = Inr (out @ ys)"
    "list_all2 reads' ys xs" by blast
  from Cons.IH[OF x(2), of "out @ ys"] obtain zs where
    "fold_r (probe_left lhash same emit pad is_left (table_of_buckets rhash ts)) us (out @ ys) = Inr (out @ ys @ zs)"
    "list_all2 reads' zs (concat xss1)" by auto
  then show ?case using ys x(3) by (intro exI[of _ "ys @ zs"]) (simp add: list_all2_appendI)
qed simp

section \<open>Aggregating related rows\<close>

lemma aggregate_related:
  assumes "list_all2 R ts rs" and k: "\<forall>t r. R t r \<longrightarrow> keys t = keys' r" and v: "\<forall>t r. R t r \<longrightarrow> vals t = vals' r"
    and "keyed_rows keys' vals' rs = Inr kvs"
  shows "fold_r (aggregate_body ov F n types keys vals) ts ht = fold_r (\<lambda>(k, v). InsertCombine ov F n types k v) kvs ht"
  using assms(1,4)
proof (induction arbitrary: kvs ht rule: list_all2_induct)
  case (Cons t ts r rs)
  from Cons.prems obtain kk vv kvs1 where c: "keys' r = Inr kk" "vals' r = Inr vv" "keyed_rows keys' vals' rs = Inr kvs1" "kvs = (kk, vv) # kvs1"
    by (auto simp: keyed_rows_def result_simps)
  have "keys t = Inr kk" "vals t = Inr vv" using k v Cons.hyps(1) c by simp_all
  then have "aggregate_body ov F n types keys vals t = InsertCombine ov F n types kk vv" by (simp add: aggregate_body_def fun_eq_iff)
  then show ?case using Cons.IH[OF c(3)] c(4) by (cases "InsertCombine ov F n types kk vv ht") simp_all
qed (simp add: keyed_rows_def)

lemma fold_push_back: "fold_r push_back ts acc = Inr (acc @ ts)"
  by (induction ts arbitrary: acc) (simp_all add: push_back_def)

end
