(* ===== verification/Query_Execution.thy ===== *)
theory Query_Execution
  imports Blocking
begin

text \<open>
  Plans as trees of executors: \<open>Next\<close> of every plan is a row source, \<open>Init\<close> brings its executor into
  a state that produces the rows of the plan, and \<open>Execute\<close> returns them.
\<close>

section \<open>The database behind a pool\<close>

text \<open>What stays the same while a query runs: contents, pins, the page counter and the pool size.\<close>

record view =
  v_content :: "int \<Rightarrow> byte list"
  v_pins :: "int \<Rightarrow> int"
  v_next :: int
  v_size :: nat

definition in_view :: "view \<Rightarrow> bpm \<Rightarrow> bool" where
  "in_view V b \<longleftrightarrow> spare (v_pins V) (v_size V) \<and> pool_view {} (v_content V) (v_pins V) (v_next V) (v_size V) b"

text \<open>A table of the catalog whose live tuples, in scan order, read as the given rows.\<close>

definition table_holds :: "'d exec_ctx \<Rightarrow> view \<Rightarrow> nat \<Rightarrow> 'd Value list list \<Rightarrow> bool" where
  "table_holds X V oid rws \<longleftrightarrow>
     (\<exists>schema first ps. table_of X oid = Inr (schema, first) \<and> heap_view (v_content V) (v_next V) first ps \<and>
        list_all2 (reads_as (ctx_floats X) schema) (map (rid_tuple (v_content V)) (live_rids (v_content V) ps)) rws)"

primrec plan_tables :: "'d plan \<Rightarrow> nat set" where
  "plan_tables (SeqScanPlan s oid name pred) = {oid}"
| "plan_tables (ValuesPlan s es) = {}"
| "plan_tables (FilterPlan s pred child) = plan_tables child"
| "plan_tables (ProjectionPlan s exprs child) = plan_tables child"
| "plan_tables (LimitPlan s child limit) = plan_tables child"
| "plan_tables (NestedLoopJoinPlan s left right pred jt) = plan_tables left \<union> plan_tables right"
| "plan_tables (HashJoinPlan s left right lk rk jt) = plan_tables left \<union> plan_tables right"
| "plan_tables (SortPlan s child obs) = plan_tables child"
| "plan_tables (TopNPlan s child obs n) = plan_tables child"
| "plan_tables (AggregationPlan s child gbs aggs types) = plan_tables child"
| "plan_tables (InsertPlan s child oid) = plan_tables child"
| "plan_tables (UpdatePlan s child oid exprs) = plan_tables child"
| "plan_tables (DeletePlan s child oid) = plan_tables child"

section \<open>Sequential scans\<close>

lemma reads_functional: "reads_as F s t r \<Longrightarrow> reads_as F s t r' \<Longrightarrow> r = r'"
  by (auto simp: reads_as_def list_eq_iff_nth_eq)

lemma reads_all_functional: "list_all2 (reads_as F s) ts rs \<Longrightarrow> list_all2 (reads_as F s) ts rs' \<Longrightarrow> rs = rs'"
proof (induction arbitrary: rs' rule: list_all2_induct)
  case (Cons t ts r rs)
  then obtain r' rs1 where r': "rs' = r' # rs1" "reads_as F s t r'" "list_all2 (reads_as F s) ts rs1" by (auto simp: list_all2_Cons1)
  show ?case using Cons.IH[OF r'(3)] reads_functional[OF Cons.hyps(1) r'(2)] r'(1) by simp
qed simp

definition scan_pred :: "'d exec_ctx \<Rightarrow> 'd expr option \<Rightarrow> 'd Value list \<Rightarrow> bool result" where
  "scan_pred X pred row = (case pred of None \<Rightarrow> Inr True
     | Some e \<Rightarrow> bind_r (eval_row (ctx_floats X) (ctx_regex X) row e) get_bool)"

lemma selected_rows:
  assumes "list_all2 (reads_as (ctx_floats X) schema) (map (rid_tuple c) rids) rs" and "filter_r (scan_pred X pred) rs = Inr rws"
  shows "evaluates_on (map (rid_tuple c) rids) (SeqScanExecutor_pred X schema pred)"
    and "list_all2 (reads_as (ctx_floats X) schema) (selected c (SeqScanExecutor_pred X schema pred) rids) rws"
  using assms
proof (induction rids arbitrary: rs rws)
  case (Cons r rids)
  case 1
  then obtain row rs1 where rs: "rs = row # rs1" "reads_as (ctx_floats X) schema (rid_tuple c r) row"
    "list_all2 (reads_as (ctx_floats X) schema) (map (rid_tuple c) rids) rs1" by (auto simp: list_all2_Cons1)
  with 1 obtain ok rws1 where ok: "scan_pred X pred row = Inr ok" "filter_r (scan_pred X pred) rs1 = Inr rws1"
    by (auto simp: result_simps)
  show ?case using Cons.IH(1)[OF rs(3) ok(2)] ok(1) rs(2)
    by (auto simp: evaluates_on_def SeqScanExecutor_pred_def scan_pred_def reads_evaluate split: option.splits)
next
  case (Cons r rids)
  case 2
  then obtain row rs1 where rs: "rs = row # rs1" "reads_as (ctx_floats X) schema (rid_tuple c r) row"
    "list_all2 (reads_as (ctx_floats X) schema) (map (rid_tuple c) rids) rs1" by (auto simp: list_all2_Cons1)
  with 2 obtain ok rws1 where ok: "scan_pred X pred row = Inr ok" "filter_r (scan_pred X pred) rs1 = Inr rws1"
    "rws = (if ok then row # rws1 else rws1)" by (auto simp: result_simps)
  have "passes (SeqScanExecutor_pred X schema pred) (rid_tuple c r) = ok"
    using ok(1) rs(2) by (auto simp: passes_def SeqScanExecutor_pred_def scan_pred_def reads_evaluate split: option.splits)
  then show ?case using Cons.IH(2)[OF rs(3) ok(2)] ok(3) rs(2) by simp
qed (simp_all add: evaluates_on_def split: option.split)

text \<open>An iterator in front of the remaining rows.\<close>

definition scan_produces ::
  "'d exec_ctx \<Rightarrow> view \<Rightarrow> Schema \<Rightarrow> nat \<Rightarrow> 'd expr option \<Rightarrow> 'd exec_state \<Rightarrow> 'd Value list list \<Rightarrow> bool" where
  "scan_produces X V out oid pred s rws \<longleftrightarrow>
     (\<exists>schema first ps it rids rs. s = SeqScanState it \<and> table_of X oid = Inr (schema, first) \<and> layout out = layout schema \<and>
        heap_view (v_content V) (v_next V) first ps \<and> at_rids (v_content V) ps rids (trid it) \<and>
        (rids \<noteq> [] \<longrightarrow> it = rid_tuple (v_content V) (hd rids)) \<and>
        list_all2 (reads_as (ctx_floats X) schema) (map (rid_tuple (v_content V)) rids) rs \<and>
        filter_r (scan_pred X pred) rs = Inr rws)"

lemma scan_step:
  assumes b: "in_view V b" and p: "scan_produces X V out oid pred s rws"
  shows "\<exists>t s' rid' b'. SeqScanExecutor_Next X oid pred s rid b = Some (Inr (t, s', rid', b')) \<and> in_view V b' \<and>
    (case rws of [] \<Rightarrow> t = None
     | r # rws' \<Rightarrow> \<exists>tu. t = Some tu \<and> reads_as (ctx_floats X) out tu r \<and> scan_produces X V out oid pred s' rws')"
proof -
  let ?c = "v_content V"
  from p obtain schema first ps it rids rs where s: "s = SeqScanState it" "table_of X oid = Inr (schema, first)"
    "layout out = layout schema" "heap_view ?c (v_next V) first ps" "at_rids ?c ps rids (trid it)"
    "rids \<noteq> [] \<longrightarrow> it = rid_tuple ?c (hd rids)"
    "list_all2 (reads_as (ctx_floats X) schema) (map (rid_tuple ?c) rids) rs" "filter_r (scan_pred X pred) rs = Inr rws"
    unfolding scan_produces_def by blast
  define q where "q = SeqScanExecutor_pred X schema pred"
  note sel = selected_rows[OF s(7,8), folded q_def]
  from b have v: "spare (v_pins V) (v_size V)" "pool_view {} ?c (v_pins V) (v_next V) (v_size V) b" by (simp_all add: in_view_def)
  from SeqScan_Next_correct[OF v(1) s(4) v(2) s(5,6) sel(1)] obtain it' b' rest pre where
    n: "SeqScan_Next q it b = Some (Inr (case selected ?c q rids of [] \<Rightarrow> None | t # _ \<Rightarrow> Some t, it', b'))"
      "pool_view {} ?c (v_pins V) (v_next V) (v_size V) b'" "rids = pre @ rest" "at_rids ?c ps rest (trid it')"
      "rest \<noteq> [] \<longrightarrow> it' = rid_tuple ?c (hd rest)" "selected ?c q rest = tl (selected ?c q rids)" by blast
  have b': "in_view V b'" using v(1) n(2) by (simp add: in_view_def)
  show ?thesis
  proof (cases rws)
    case Nil
    then have "selected ?c q rids = []" using sel(2) by simp
    then show ?thesis using n(1) b' s(1,2) Nil by (simp flip: q_def)
  next
    case (Cons r rws')
    with sel(2) obtain t ts where t: "selected ?c q rids = t # ts" "reads_as (ctx_floats X) schema t r"
      "list_all2 (reads_as (ctx_floats X) schema) ts rws'" by (auto simp: list_all2_Cons2)
    from s(7) n(3) obtain rs0 rs1 where rs: "rs = rs0 @ rs1" "list_all2 (reads_as (ctx_floats X) schema) (map (rid_tuple ?c) rest) rs1"
      by (auto simp: list_all2_append1)
    have "\<exists>w. filter_r (scan_pred X pred) rs1 = Inr w" using s(8) rs(1)
      by (induction rs0 arbitrary: rs rws) (auto simp: result_simps)
    then obtain w where w: "filter_r (scan_pred X pred) rs1 = Inr w" by blast
    have "list_all2 (reads_as (ctx_floats X) schema) ts w" using selected_rows(2)[OF rs(2) w, folded q_def] n(6) t(1) by simp
    then have "w = rws'" by (rule reads_all_functional[OF _ t(3)])
    then have "scan_produces X V out oid pred (SeqScanState it') rws'"
      unfolding scan_produces_def using s(2-4) n(4,5) rs(2) w by blast
    moreover have "reads_as (ctx_floats X) out t r" using t(2) layout_reads[OF s(3)] by blast
    ultimately show ?thesis using n(1) b' s(1,2) Cons t(1) by (simp flip: q_def)
  qed
qed

interpretation scan: row_source "in_view V" "SeqScanExecutor_Next X oid pred" "reads_as (ctx_floats X) out" "scan_produces X V out oid pred"
proof
  fix b s rid
  assume "in_view V b" "scan_produces X V out oid pred s []"
  from scan_step[OF this, of rid]
  show "\<exists>s' rid' b'. SeqScanExecutor_Next X oid pred s rid b = Some (Inr (None, s', rid', b')) \<and> in_view V b'" by auto
next
  fix b s rid r rs
  assume "in_view V b" "scan_produces X V out oid pred s (r # rs)"
  from scan_step[OF this, of rid]
  show "\<exists>t s' rid' b'. SeqScanExecutor_Next X oid pred s rid b = Some (Inr (Some t, s', rid', b')) \<and> in_view V b' \<and>
      reads_as (ctx_floats X) out t r \<and> scan_produces X V out oid pred s' rs" by auto
qed

section \<open>Values\<close>

definition values_row :: "'d exec_ctx \<Rightarrow> Schema \<Rightarrow> 'd expr list \<Rightarrow> 'd Value list result" where
  "values_row X out es = bind_r (map_r (eval_row (ctx_floats X) (ctx_regex X) []) es) (fit (ctx_floats X) out)"

definition values_produces :: "'d exec_ctx \<Rightarrow> Schema \<Rightarrow> 'd expr list list \<Rightarrow> 'd exec_state \<Rightarrow> 'd Value list list \<Rightarrow> bool" where
  "values_produces X out es s rs \<longleftrightarrow>
     (\<exists>c. s = ValuesState c \<and> c \<le> length es \<and> list_all2 (\<lambda>e r. values_row X out e = Inr r) (drop c es) rs)"

interpretation rowlist: row_source I "ValuesExecutor_Next X out es" "reads_as (ctx_floats X) out" "values_produces X out es"
proof
  fix b s rid
  assume "I b" "values_produces X out es s []"
  then show "\<exists>s' rid' b'. ValuesExecutor_Next X out es s rid b = Some (Inr (None, s', rid', b')) \<and> I b'"
    by (auto simp: values_produces_def)
next
  fix b s rid r rs
  assume b: "I b" and "values_produces X out es s (r # rs)"
  then obtain c where s: "s = ValuesState c" "c \<le> length es" "list_all2 (\<lambda>e r. values_row X out e = Inr r) (drop c es) (r # rs)"
    by (auto simp: values_produces_def)
  note c = cursor_next[OF s(2,3)]
  from c(2) obtain vs where vs: "map_r (eval_row (ctx_floats X) (ctx_regex X) []) (es ! c) = Inr vs" "fit (ctx_floats X) out vs = Inr r"
    by (auto simp: values_row_def result_simps)
  from fit_tuple[OF vs(2)] obtain t where t: "Tuple_of_values (ctx_floats X) vs out = Inr t" "reads_as (ctx_floats X) out t r" by auto
  have "Evaluate (ctx_floats X) (ctx_regex X) None dummy_schema = eval_row (ctx_floats X) (ctx_regex X) []"
    by (rule ext) (rule evaluate_no_tuple)
  then have "map_r (Evaluate (ctx_floats X) (ctx_regex X) None dummy_schema) (es ! c) = Inr vs" using vs(1) by simp
  then have "ValuesExecutor_Next X out es s rid b = Some (Inr (Some t, ValuesState (c + 1), rid, b))"
    using c(1) t(1) s(1) by simp
  moreover have "values_produces X out es (ValuesState (c + 1)) rs" using c(3,4) by (auto simp: values_produces_def)
  ultimately show "\<exists>t s' rid' b'. ValuesExecutor_Next X out es s rid b = Some (Inr (Some t, s', rid', b')) \<and> I b' \<and>
      reads_as (ctx_floats X) out t r \<and> values_produces X out es s' rs" using b t(2) by blast
qed

section \<open>Joined rows\<close>

lemma joined_tuple_fit:
  assumes "reads_as F ls lt l" "reads_as F rs rt r" "fit F out (l @ r) = Inr x"
  shows "\<exists>t. joined_tuple F ls rs out lt rt = Inr t \<and> reads_as F out t x"
  using fit_tuple[OF assms(3)] by (auto simp: joined_tuple_def reads_values[OF assms(1)] reads_values[OF assms(2)])

definition pad_row :: "'d float_ops \<Rightarrow> Schema \<Rightarrow> Schema \<Rightarrow> 'd Value list \<Rightarrow> 'd Value list result" where
  "pad_row F rs out l = bind_r (null_values F rs) (\<lambda>nulls. fit F out (l @ nulls))"

lemma padded_tuple_fit:
  assumes "reads_as F ls lt l" "pad_row F rs out l = Inr x"
  shows "\<exists>t. padded_tuple F ls rs out lt = Inr t \<and> reads_as F out t x"
proof -
  from assms(2) obtain nulls where n: "null_values F rs = Inr nulls" "fit F out (l @ nulls) = Inr x"
    by (auto simp: pad_row_def result_simps)
  from fit_tuple[OF n(2)] n(1) show ?thesis by (auto simp: padded_tuple_def reads_values[OF assms(1)])
qed

lemma padded_eq:
  "padded F rs out pad l =
   (\<lambda>ms. if pad \<and> ms = [] then bind_r (pad_row F rs out l) (\<lambda>x. Inr [x]) else map_r (\<lambda>r. fit F out (l @ r)) ms)"
  by (rule ext) (simp add: padded_def pad_row_def bind_r_assoc)

lemma loop_join_rows:
  "loop_join F M rs out pad lrows rrows = Inr out' \<longleftrightarrow> length rrows < 2 ^ 31 - 1 \<and>
   join_all M (\<lambda>l r. fit F out (l @ r)) (pad_row F rs out) pad rrows lrows = Inr out'"
proof -
  have "(\<lambda>l. bind_r (filter_r (M l) rrows) (padded F rs out pad l)) = join_one M (\<lambda>l r. fit F out (l @ r)) (pad_row F rs out) pad rrows"
    by (rule ext) (simp only: join_one_def padded_eq)
  then show ?thesis by (simp add: loop_join_def join_all_def)
qed

lemma hash_join_rows:
  "hash_join F lhash rhash same rs out pad lrows rrows = Inr out' \<longleftrightarrow>
   (\<exists>hs xss. map_r rhash rrows = Inr hs \<and>
     map_r (hash_one lhash hs rrows same (\<lambda>l r. fit F out (l @ r)) (pad_row F rs out) pad) lrows = Inr xss \<and> out' = concat xss)"
proof -
  have "bind_r (lhash l) (\<lambda>h. let bucket = map snd (filter (\<lambda>(h', r). h' = h) (zip hs rrows))
       in bind_r (filter_r (same l) bucket) (padded F rs out (pad \<and> bucket = []) l)) =
      hash_one lhash hs rrows same (\<lambda>l r. fit F out (l @ r)) (pad_row F rs out) pad l" for hs l
    unfolding hash_one_def Let_def
  proof (rule bind_r_fun_cong)
    fix h
    show "bind_r (filter_r (same l) (map snd (filter (\<lambda>(h', r). h' = h) (zip hs rrows))))
        (padded F rs out (pad \<and> map snd (filter (\<lambda>(h', r). h' = h) (zip hs rrows)) = []) l) =
      bind_r (filter_r (same l) (map snd (filter (\<lambda>(h', r). h' = h) (zip hs rrows))))
        (\<lambda>ms. if pad \<and> map snd (filter (\<lambda>(h', r). h' = h) (zip hs rrows)) = [] then bind_r (pad_row F rs out l) (\<lambda>x. Inr [x])
          else map_r (\<lambda>r. fit F out (l @ r)) ms)"
      by (cases "map snd (filter (\<lambda>(h', r). h' = h) (zip hs rrows)) = []") (simp_all only: padded_eq filter_r.simps bind_r.simps simp_thms if_False if_True)
  qed
  then show ?thesis by (auto simp: hash_join_def result_simps)
qed

section \<open>Plans\<close>

text \<open>The states of a plan's executor that still produce the given rows.\<close>

primrec source :: "'d exec_ctx \<Rightarrow> view \<Rightarrow> 'd plan \<Rightarrow> 'd exec_state \<Rightarrow> 'd Value list list \<Rightarrow> bool" where
  "source X V (SeqScanPlan out oid name pred) = scan_produces X V out oid pred"
| "source X V (ValuesPlan out es) = values_produces X out es"
| "source X V (FilterPlan out pred child) = (\<lambda>s rs'. layout out = layout (OutputSchema child) \<and> (\<exists>rs. source X V child s rs \<and>
     filter_r (\<lambda>row. bind_r (eval_row (ctx_floats X) (ctx_regex X) row pred) holds) rs = Inr rs'))"
| "source X V (ProjectionPlan out exprs child) = (\<lambda>s rs'. \<exists>rs. source X V child s rs \<and>
     map_r (\<lambda>row. bind_r (map_r (eval_row (ctx_floats X) (ctx_regex X) row) exprs) (fit (ctx_floats X) out)) rs = Inr rs')"
| "source X V (LimitPlan out child limit) = (\<lambda>s rs'. layout out = layout (OutputSchema child) \<and> limit < 2 ^ 32 \<and>
     (\<exists>count s1 rs. s = LimitState count s1 \<and> source X V child s1 rs \<and> rs' = take (limit - count) rs))"
| "source X V (NestedLoopJoinPlan out left right pred jt) = (\<lambda>s rs'. \<exists>rights lt idx ls rs. s = NestedLoopJoinState rights lt idx ls rs \<and>
     row_source.loop_at (reads_as (ctx_floats X) (OutputSchema left)) (source X V left) (reads_as (ctx_floats X) (OutputSchema right))
       (\<lambda>l r. bind_r (eval_join (ctx_floats X) (ctx_regex X) l r pred) holds) (\<lambda>l r. fit (ctx_floats X) out (l @ r))
       (pad_row (ctx_floats X) (OutputSchema right) out) (jt = LEFT) rights lt idx ls rs')"
| "source X V (HashJoinPlan out left right lkey rkey jt) = (\<lambda>s rs. \<exists>table ts c ls rs1. s = HashJoinState table ts c ls rs1 \<and>
     c \<le> length ts \<and> list_all2 (reads_as (ctx_floats X) out) (drop c ts) rs)"
| "source X V (SortPlan out child obs) = (\<lambda>s rs. \<exists>ts c s1. s = SortState ts c s1 \<and> c \<le> length ts \<and>
     list_all2 (reads_as (ctx_floats X) out) (drop c ts) rs)"
| "source X V (TopNPlan out child obs n) = (\<lambda>s rs. \<exists>ts s1. s = TopNState ts s1 \<and> list_all2 (reads_as (ctx_floats X) out) ts rs)"
| "source X V (AggregationPlan out child gbs aggs types) = (\<lambda>s rs. \<exists>ht c s1. s = AggregationState ht c s1 \<and> c \<le> length ht \<and>
     list_all2 (\<lambda>kv r. fit (ctx_floats X) out (fst kv @ snd kv) = Inr r) (drop c ht) rs)"
| "source X V (InsertPlan out child oid) = (\<lambda>s rs. False)"
| "source X V (UpdatePlan out child oid exprs) = (\<lambda>s rs. False)"
| "source X V (DeletePlan out child oid) = (\<lambda>s rs. False)"

text \<open>A source that depends on a fact.\<close>

lemma source_if: "(A \<Longrightarrow> row_source I nx reads p) \<Longrightarrow> row_source I nx reads (\<lambda>s rs. A \<and> p s rs)"
  by (cases A) (simp_all add: row_source_def)

lemma plan_source: "row_source (in_view V) (Next X p) (reads_as (ctx_floats X) (OutputSchema p)) (source X V p)"
proof (induction p)
  case (SeqScanPlan out oid name pred)
  show ?case by (simp add: scan.row_source_axioms)
next
  case (ValuesPlan out es)
  show ?case by (simp add: rowlist.row_source_axioms)
next
  case (FilterPlan out pred child)
  show ?case unfolding source.simps Next.simps OutputSchema.simps
    by (intro source_if row_source.filter_source[OF FilterPlan])
      (auto simp: FilterExecutor_pred_def reads_evaluate layout_reads[of out])
next
  case (ProjectionPlan out exprs child)
  show ?case unfolding source.simps Next.simps OutputSchema.simps
  proof (rule row_source.projection_source[OF ProjectionPlan])
    fix t r r'
    assume r: "reads_as (ctx_floats X) (OutputSchema child) t r"
      and "bind_r (map_r (eval_row (ctx_floats X) (ctx_regex X) r) exprs) (fit (ctx_floats X) out) = Inr r'"
    then obtain vs where vs: "map_r (eval_row (ctx_floats X) (ctx_regex X) r) exprs = Inr vs" "fit (ctx_floats X) out vs = Inr r'"
      by (auto simp: result_simps)
    show "\<exists>t'. projected X (OutputSchema child) out exprs t = Inr t' \<and> reads_as (ctx_floats X) out t' r'"
      using fit_tuple[OF vs(2)] vs(1) by (auto simp: projected_def reads_evaluate_all[OF r])
  qed
next
  case (LimitPlan out child limit)
  show ?case unfolding source.simps Next.simps OutputSchema.simps
    by (intro source_if row_source.limit_source[OF LimitPlan]) (auto simp: layout_reads[of out])
next
  case (NestedLoopJoinPlan out left right pred jt)
  show ?case unfolding source.simps Next.simps OutputSchema.simps
  proof (rule row_source.loop_join_source[OF NestedLoopJoinPlan(1)])
    show "\<forall>lt l rt r. reads_as (ctx_floats X) (OutputSchema left) lt l \<longrightarrow> reads_as (ctx_floats X) (OutputSchema right) rt r \<longrightarrow>
        NestedLoopJoinExecutor_Matched X (OutputSchema left) (OutputSchema right) pred lt rt =
        bind_r (eval_join (ctx_floats X) (ctx_regex X) l r pred) holds"
      by (simp add: NestedLoopJoinExecutor_Matched_def reads_evaluate_join)
  qed (use joined_tuple_fit padded_tuple_fit in blast)+
next
  case (HashJoinPlan out left right lkey rkey jt)
  show ?case unfolding source.simps Next.simps OutputSchema.simps by (rule hash_source)
next
  case (SortPlan out child obs)
  show ?case unfolding source.simps Next.simps OutputSchema.simps by (rule sort_source)
next
  case (TopNPlan out child obs n)
  show ?case unfolding source.simps Next.simps OutputSchema.simps by (rule topn_source)
next
  case (AggregationPlan out child gbs aggs types)
  show ?case unfolding source.simps Next.simps OutputSchema.simps
    by (rule aggregation_source) (use fit_tuple in blast)
qed (simp_all add: row_source_def)

interpretation plan: row_source "in_view V" "Next X p" "reads_as (ctx_floats X) (OutputSchema p)" "source X V p"
  by (rule plan_source)

end
