(* ===== verification/Query_Init.thy ===== *)
theory Query_Init
  imports Query_Execution
begin

text \<open>
  \<open>Init\<close> of every executor brings it into a state that produces the rows of its plan, and
  \<open>ExecutionEngine::Execute\<close> returns them.
\<close>

definition init_ok :: "'d exec_ctx \<Rightarrow> view \<Rightarrow> 'd plan \<Rightarrow> 'd Value list list \<Rightarrow> bool" where
  "init_ok X V p rs \<longleftrightarrow> (\<exists>s0. CreateExecutor p = Inr s0 \<and>
     (\<forall>b. in_view V b \<longrightarrow> (\<exists>s b'. Init X p s0 b = Some (Inr (s, b')) \<and> in_view V b' \<and> source X V p s rs)))"

lemma init_okE:
  assumes "init_ok X V p rs"
  obtains s0 where "CreateExecutor p = Inr s0"
    "\<And>b. in_view V b \<Longrightarrow> \<exists>s b'. Init X p s0 b = Some (Inr (s, b')) \<and> in_view V b' \<and> source X V p s rs"
  using assms unfolding init_ok_def by blast

lemma init_ok_values: "rows X db (ValuesPlan out es) = Inr rs \<Longrightarrow> init_ok X V (ValuesPlan out es) rs"
  by (auto simp: init_ok_def values_produces_def values_row_def map_r_Inr_iff list_all2_conv_all_nth)

lemma init_ok_filter:
  assumes r: "rows X db (FilterPlan out pred child) = Inr rs" and ih: "\<And>rs. rows X db child = Inr rs \<Longrightarrow> init_ok X V child rs"
  shows "init_ok X V (FilterPlan out pred child) rs"
proof -
  from r obtain rs1 where rs1: "rows X db child = Inr rs1" "layout out = layout (OutputSchema child)"
    "filter_r (\<lambda>row. bind_r (eval_row (ctx_floats X) (ctx_regex X) row pred) holds) rs1 = Inr rs"
    by (auto simp: result_simps same_layout_def split: if_splits)
  from init_okE[OF ih[OF rs1(1)]] obtain s0 where s0: "CreateExecutor child = Inr s0"
    "\<And>b. in_view V b \<Longrightarrow> \<exists>s b'. Init X child s0 b = Some (Inr (s, b')) \<and> in_view V b' \<and> source X V child s rs1" by blast
  then have "\<exists>s b'. Init X child s0 b = Some (Inr (s, b')) \<and> in_view V b' \<and> source X V (FilterPlan out pred child) s rs"
    if "in_view V b" for b using s0(2)[OF that] rs1(2,3) by auto
  then show "init_ok X V (FilterPlan out pred child) rs" using s0(1) by (simp add: init_ok_def)
qed

lemma init_ok_projection:
  assumes r: "rows X db (ProjectionPlan out exprs child) = Inr rs" and ih: "\<And>rs. rows X db child = Inr rs \<Longrightarrow> init_ok X V child rs"
  shows "init_ok X V (ProjectionPlan out exprs child) rs"
proof -
  from r obtain rs1 where rs1: "rows X db child = Inr rs1"
    "map_r (\<lambda>row. bind_r (map_r (eval_row (ctx_floats X) (ctx_regex X) row) exprs) (fit (ctx_floats X) out)) rs1 = Inr rs"
    by (auto simp: result_simps)
  from init_okE[OF ih[OF rs1(1)]] obtain s0 where s0: "CreateExecutor child = Inr s0"
    "\<And>b. in_view V b \<Longrightarrow> \<exists>s b'. Init X child s0 b = Some (Inr (s, b')) \<and> in_view V b' \<and> source X V child s rs1" by blast
  then have "\<exists>s b'. Init X child s0 b = Some (Inr (s, b')) \<and> in_view V b' \<and> source X V (ProjectionPlan out exprs child) s rs"
    if "in_view V b" for b using s0(2)[OF that] rs1(2) by auto
  then show ?thesis using s0(1) by (simp add: init_ok_def)
qed

lemma init_ok_limit:
  assumes r: "rows X db (LimitPlan out child limit) = Inr rs" and ih: "\<And>rs. rows X db child = Inr rs \<Longrightarrow> init_ok X V child rs"
  shows "init_ok X V (LimitPlan out child limit) rs"
proof -
  from r obtain rs1 where rs1: "rows X db child = Inr rs1" "layout out = layout (OutputSchema child)" "limit < 2 ^ 32" "rs = take limit rs1"
    by (auto simp: result_simps same_layout_def split: if_splits)
  from init_okE[OF ih[OF rs1(1)]] obtain s0 where s0: "CreateExecutor child = Inr s0"
    "\<And>b. in_view V b \<Longrightarrow> \<exists>s b'. Init X child s0 b = Some (Inr (s, b')) \<and> in_view V b' \<and> source X V child s rs1" by blast
  have "\<exists>s b'. Init X (LimitPlan out child limit) (LimitState 0 s0) b = Some (Inr (s, b')) \<and> in_view V b' \<and>
        source X V (LimitPlan out child limit) s rs" if "in_view V b" for b
  proof -
    from s0(2)[OF that] obtain s b' where "Init X child s0 b = Some (Inr (s, b'))" "in_view V b'" "source X V child s rs1" by blast
    then show ?thesis using rs1(2-4) by auto
  qed
  then show ?thesis using s0(1) by (simp add: init_ok_def)
qed

text \<open>\<open>Begin\<close> gives an iterator in front of all live tuples.\<close>

lemma begin_scan:
  assumes s: "spare P k" and v: "pool_view {} c P n k b" and h: "heap_view c n first ps"
  obtains it b' where "TableHeap_Begin first b = Some (Inr (it, b'))" "pool_view {} c P n k b'"
    "at_rids c ps (live_rids c ps) (trid it)" "live_rids c ps \<noteq> [] \<longrightarrow> it = rid_tuple c (hd (live_rids c ps))"
proof -
  have ch: "chain c first ps" "\<forall>q\<in>set ps. heap_page c n q" using h by (simp_all add: heap_view_def)
  from begin_loop_correct[OF s v ch, of ps "[]" new_RID] obtain rid b1 where
    b1: "begin_loop first new_RID b = Some (Inr (rid, b1))" "pool_view {} c P n k b1" "at_rids c ps (live_rids c ps) rid" by auto
  from TableIterator_correct[OF s b1(2) h b1(3)] obtain it b2 where
    b2: "TableIterator rid b1 = Inr (it, b2)" "pool_view {} c P n k b2" "trid it = rid" "live_rids c ps \<noteq> [] \<longrightarrow> it = rid_tuple c rid"
    by blast
  have "live_rids c ps \<noteq> [] \<longrightarrow> it = rid_tuple c (hd (live_rids c ps))" using b2(4) at_ridsD(1)[OF b1(3)] by auto
  with that[of it b2] b1 b2 show thesis by (simp add: TableHeap_Begin_def)
qed

lemma init_ok_scan:
  assumes r: "rows X db (SeqScanPlan out oid name pred) = Inr rs" and t: "table_holds X V oid (db oid)"
  shows "init_ok X V (SeqScanPlan out oid name pred) rs"
proof -
  let ?c = "v_content V"
  from t obtain schema first ps where tb: "table_of X oid = Inr (schema, first)" "heap_view ?c (v_next V) first ps"
    "list_all2 (reads_as (ctx_floats X) schema) (map (rid_tuple ?c) (live_rids ?c ps)) (db oid)" unfolding table_holds_def by blast
  from r tb(1) have f: "layout out = layout schema" "filter_r (scan_pred X pred) (db oid) = Inr rs"
    by (auto simp: same_layout_def scan_pred_def[abs_def] split: if_splits)
  have "\<exists>s b'. SeqScanExecutor_Init X oid b = Some (Inr (s, b')) \<and> in_view V b' \<and> scan_produces X V out oid pred s rs"
    if b: "in_view V b" for b
  proof -
    from b have v: "spare (v_pins V) (v_size V)" "pool_view {} ?c (v_pins V) (v_next V) (v_size V) b" by (simp_all add: in_view_def)
    from begin_scan[OF v tb(2)] obtain it b' where
      it: "TableHeap_Begin first b = Some (Inr (it, b'))" "pool_view {} ?c (v_pins V) (v_next V) (v_size V) b'"
        "at_rids ?c ps (live_rids ?c ps) (trid it)" "live_rids ?c ps \<noteq> [] \<longrightarrow> it = rid_tuple ?c (hd (live_rids ?c ps))" by blast
    have "scan_produces X V out oid pred (SeqScanState it) rs" unfolding scan_produces_def using tb f it(3,4) by blast
    then show ?thesis using v(1) it(1,2) tb(1) by (auto simp: in_view_def SeqScanExecutor_Init_def)
  qed
  then show ?thesis by (simp add: init_ok_def)
qed

text \<open>Initialising a child and reading all of it.\<close>

lemma init_child:
  assumes "init_ok X V p rs" and "in_view V b" and "CreateExecutor p = Inr s0"
  obtains s1 b1 where "Init X p s0 b = Some (Inr (s1, b1))" "in_view V b1"
    "source X V p s1 rs"
  using assms unfolding init_ok_def by auto

lemma read_all:
  fixes f :: "Tuple \<Rightarrow> 'c \<Rightarrow> 'c result"
  assumes "in_view V b" and "source X V p s rs"
  shows "\<exists>ts s' b'. list_all2 (reads_as (ctx_floats X) (OutputSchema p)) ts rs \<and> in_view V b' \<and>
    (\<forall>acc. poll (pure_body f) (Next X p) s new_RID acc b =
      (case fold_r f ts acc of Inl e \<Rightarrow> Some (Inl e) | Inr acc' \<Rightarrow> Some (Inr (acc', s', b'))))"
proof -
  have "\<exists>ts s' b'. list_all2 (reads_as (ctx_floats X) (OutputSchema p)) ts rs \<and> in_view V b' \<and>
    (\<forall>(f :: Tuple \<Rightarrow> 'c \<Rightarrow> 'c result) acc. poll (pure_body f) (Next X p) s new_RID acc b =
      (case fold_r f ts acc of Inl e \<Rightarrow> Some (Inl e) | Inr acc' \<Rightarrow> Some (Inr (acc', s', b'))))"
    by (rule plan.poll_rows[OF assms])
  then obtain ts s' b' where "list_all2 (reads_as (ctx_floats X) (OutputSchema p)) ts rs" "in_view V b'"
    and run: "\<forall>(f :: Tuple \<Rightarrow> 'c \<Rightarrow> 'c result) acc. poll (pure_body f) (Next X p) s new_RID acc b =
      (case fold_r f ts acc of Inl e \<Rightarrow> Some (Inl e) | Inr acc' \<Rightarrow> Some (Inr (acc', s', b')))" by (elim exE conjE)
  then show ?thesis using spec[OF run, of f] by blast
qed

lemma read_in:
  assumes "in_view V b" and "source X V p s rs"
  shows "\<exists>ts s' b'. list_all2 (reads_as (ctx_floats X) (OutputSchema p)) ts rs \<and> in_view V b' \<and>
    (\<forall>acc. poll (pure_body push_back) (Next X p) s new_RID acc b = Some (Inr (acc @ ts, s', b')))"
  using read_all[OF assms, of push_back] by (simp add: fold_push_back)

lemma layout_reads_all: "layout s = layout s' \<Longrightarrow> list_all2 (reads_as F s) = list_all2 (reads_as F s')"
  using layout_reads[of s s' F] by (simp add: fun_eq_iff list_all2_conv_all_nth)

lemma order_less_cong: "(\<And>e. value e a = value' e x \<and> value e b = value' e y) \<Longrightarrow> order_less F value obs a b = order_less F value' obs x y"
  by (induction obs) (auto simp: Let_def cong: if_cong)

lemma tuple_less_reads:
  "\<forall>a x b y. reads_as (ctx_floats X) s a x \<longrightarrow> reads_as (ctx_floats X) s b y \<longrightarrow> tuple_less X s obs a b = row_less X obs x y"
  by (auto simp: tuple_less_def row_less_def reads_evaluate intro!: order_less_cong)

lemma init_ok_loop_join:
  assumes r: "rows X db (NestedLoopJoinPlan out left right pred jt) = Inr rs"
    and l: "\<And>rs. rows X db left = Inr rs \<Longrightarrow> init_ok X V left rs" and rt: "\<And>rs. rows X db right = Inr rs \<Longrightarrow> init_ok X V right rs"
  shows "init_ok X V (NestedLoopJoinPlan out left right pred jt) rs"
proof -
  let ?M = "\<lambda>l r. bind_r (eval_join (ctx_floats X) (ctx_regex X) l r pred) holds"
  let ?E = "\<lambda>l r. fit (ctx_floats X) out (l @ r)" and ?P = "pad_row (ctx_floats X) (OutputSchema right) out"
  from r obtain lrows rrows where lr: "rows X db left = Inr lrows" "rows X db right = Inr rrows" "join_supported jt"
    "length rrows < 2 ^ 31 - 1" "join_all ?M ?E ?P (jt = LEFT) rrows lrows = Inr rs"
    by (auto simp: result_simps guard_r_def loop_join_rows split: if_splits)
  note li = l[OF lr(1)] and ri = rt[OF lr(2)]
  from li ri obtain ls rs0 where c: "CreateExecutor left = Inr ls" "CreateExecutor right = Inr rs0" by (auto simp: init_ok_def)
  have "\<exists>s b'. Init X (NestedLoopJoinPlan out left right pred jt) (NestedLoopJoinState [] new_Tuple (-1) ls rs0) b = Some (Inr (s, b')) \<and>
      in_view V b' \<and> source X V (NestedLoopJoinPlan out left right pred jt) s rs" if b: "in_view V b" for b
  proof -
    from init_child[OF li b c(1)] obtain s1 b1 where
      1: "Init X left ls b = Some (Inr (s1, b1))" "in_view V b1" "source X V left s1 lrows" by blast
    from init_child[OF ri 1(2) c(2)] obtain s2 b2 where
      2: "Init X right rs0 b1 = Some (Inr (s2, b2))" "in_view V b2" "source X V right s2 rrows" by blast
    from read_in[OF 2(2,3)] obtain ts s3 b3 where
      3: "list_all2 (reads_as (ctx_floats X) (OutputSchema right)) ts rrows" "in_view V b3"
        "\<forall>acc. poll (pure_body push_back) (Next X right) s2 new_RID acc b2 = Some (Inr (acc @ ts, s3, b3))" by blast
    have "plan.loop_at X left V (reads_as (ctx_floats X) (OutputSchema right)) ?M ?E ?P (jt = LEFT) ts new_Tuple (-1) s1 rs"
      unfolding plan.loop_at_def using 1(3) 3(1) lr(4,5) by blast
    then show ?thesis using 1(1) 2(1) 3(2,3) by simp
  qed
  then show ?thesis using c lr(3) by (simp add: init_ok_def guard_r_def)
qed

text \<open>Joins, sorts and aggregations that read their children at once.\<close>

lemma init_ok_sort:
  assumes r: "rows X db (SortPlan out child obs) = Inr rs" and ih: "\<And>rs. rows X db child = Inr rs \<Longrightarrow> init_ok X V child rs"
  shows "init_ok X V (SortPlan out child obs) rs"
proof -
  from r obtain rs1 where rs1: "rows X db child = Inr rs1" "layout out = layout (OutputSchema child)" "std_sort (row_less X obs) rs1 = Inr rs"
    by (auto simp: result_simps same_layout_def split: if_splits)
  note ok = ih[OF rs1(1)]
  from ok obtain s0 where s0: "CreateExecutor child = Inr s0" by (auto simp: init_ok_def)
  have "\<exists>s b'. Init X (SortPlan out child obs) (SortState [] 0 s0) b = Some (Inr (s, b')) \<and> in_view V b' \<and>
      source X V (SortPlan out child obs) s rs" if b: "in_view V b" for b
  proof -
    from init_child[OF ok b s0] obtain s1 b1 where
      1: "Init X child s0 b = Some (Inr (s1, b1))" "in_view V b1" "source X V child s1 rs1" by blast
    from read_in[OF 1(2,3)] obtain ts s2 b2 where
      2: "list_all2 (reads_as (ctx_floats X) (OutputSchema child)) ts rs1" "in_view V b2"
        "\<forall>acc. poll (pure_body push_back) (Next X child) s1 new_RID acc b1 = Some (Inr (acc @ ts, s2, b2))" by blast
    from std_sort_related[OF _ 2(1) rs1(3), of "tuple_less X (OutputSchema child) obs"] tuple_less_reads
    obtain ts' where "std_sort (tuple_less X (OutputSchema child) obs) ts = Inr ts'"
      "list_all2 (reads_as (ctx_floats X) (OutputSchema child)) ts' rs" by blast
    then show ?thesis using 1(1) 2(2,3) layout_reads[OF rs1(2), abs_def] by (simp add: layout_reads_all[OF rs1(2)])
  qed
  then show ?thesis using s0 by (simp add: init_ok_def)
qed

lemma init_ok_topn:
  assumes r: "rows X db (TopNPlan out child obs n) = Inr rs" and ih: "\<And>rs. rows X db child = Inr rs \<Longrightarrow> init_ok X V child rs"
  shows "init_ok X V (TopNPlan out child obs n) rs"
proof -
  from r obtain rs1 where rs1: "rows X db child = Inr rs1" "layout out = layout (OutputSchema child)"
    "n = 0 \<and> rs = [] \<or> n \<noteq> 0 \<and> (\<exists>rs2. std_sort (row_less X obs) rs1 = Inr rs2 \<and> rs = take n rs2)"
    by (auto simp: result_simps same_layout_def split: if_splits)
  note ok = ih[OF rs1(1)]
  from ok obtain s0 where s0: "CreateExecutor child = Inr s0" by (auto simp: init_ok_def)
  have "\<exists>s b'. Init X (TopNPlan out child obs n) (TopNState [] s0) b = Some (Inr (s, b')) \<and> in_view V b' \<and>
      source X V (TopNPlan out child obs n) s rs" if b: "in_view V b" for b
  proof -
    let ?less = "tuple_less X (OutputSchema child) obs"
    from init_child[OF ok b s0] obtain s1 b1 where
      1: "Init X child s0 b = Some (Inr (s1, b1))" "in_view V b1" "source X V child s1 rs1" by blast
    from read_all[OF 1(2,3), of "topn_body ?less n"] obtain ts s2 b2 where
      2: "list_all2 (reads_as (ctx_floats X) (OutputSchema child)) ts rs1" "in_view V b2"
        "\<forall>acc. poll (pure_body (topn_body ?less n)) (Next X child) s1 new_RID acc b1 =
          (case fold_r (topn_body ?less n) ts acc of Inl e \<Rightarrow> Some (Inl e) | Inr acc' \<Rightarrow> Some (Inr (acc', s2, b2)))" by blast
    show ?thesis
    proof (cases "n = 0")
      case True
      then show ?thesis using rs1(3) 1(1) 2(2,3) topn_zero[of ?less ts "[]"] by (auto simp: pq_to_stack_rev)
    next
      case False
      with rs1(3) obtain rs2 where rs2: "std_sort (row_less X obs) rs1 = Inr rs2" "rs = take n rs2" by auto
      from std_sort_related[OF _ 2(1) rs2(1), of ?less] tuple_less_reads obtain ts' where
        t: "std_sort ?less ts = Inr ts'" "list_all2 (reads_as (ctx_floats X) (OutputSchema child)) ts' rs2" by blast
      have "require_strict_weak ?less ts = Inr ()" using t(1) by (auto simp: std_sort_def result_simps)
      moreover have "list_all2 (reads_as (ctx_floats X) (OutputSchema child)) (take n ts') rs"
        using list_all2_takeI[OF t(2)] rs2(2) by simp
      ultimately show ?thesis using False 1(1) 2(2,3) topn_sorted[OF t(1), of n]
        by (simp add: pq_to_stack_rev layout_reads_all[OF rs1(2)])
    qed
  qed
  then show ?thesis using s0 by (simp add: init_ok_def)
qed

lemma init_ok_hash_join:
  assumes r: "rows X db (HashJoinPlan out left right lkey rkey jt) = Inr rs"
    and l: "\<And>rs. rows X db left = Inr rs \<Longrightarrow> init_ok X V left rs" and rt: "\<And>rs. rows X db right = Inr rs \<Longrightarrow> init_ok X V right rs"
  shows "init_ok X V (HashJoinPlan out left right lkey rkey jt) rs"
proof -
  let ?F = "ctx_floats X" and ?ls = "OutputSchema left" and ?rs = "OutputSchema right"
  let ?val = "\<lambda>key row. eval_row (ctx_floats X) (ctx_regex X) row key"
  let ?same = "\<lambda>l r. bind_r (?val lkey l) (\<lambda>x. bind_r (?val rkey r) (\<lambda>y. bind_r (Value_CompareEquals ?F y x) (\<lambda>c. Inr (c = CmpTrue))))"
  let ?E = "\<lambda>l r. fit ?F out (l @ r)" and ?P = "pad_row ?F ?rs out"
  let ?lhash = "\<lambda>l. bind_r (?val lkey l) (HashValue ?F)" and ?rhash = "\<lambda>r. bind_r (?val rkey r) (HashValue ?F)"
  let ?probe = "probe_left (key_hash X ?ls lkey) (same_key X ?ls ?rs lkey rkey) (joined_tuple ?F ?ls ?rs out) (padded_tuple ?F ?ls ?rs out) (jt = LEFT)"
  from r obtain lrows rrows where lr: "rows X db left = Inr lrows" "rows X db right = Inr rrows" "join_supported jt"
    "hash_join ?F ?lhash ?rhash ?same ?rs out (jt = LEFT) lrows rrows = Inr rs"
    by (auto simp: result_simps guard_r_def split: if_splits)
  from lr(4) obtain hs xss where h: "map_r ?rhash rrows = Inr hs"
    "map_r (hash_one ?lhash hs rrows ?same ?E ?P (jt = LEFT)) lrows = Inr xss" "rs = concat xss" by (auto simp: hash_join_rows)
  note li = l[OF lr(1)] and ri = rt[OF lr(2)]
  from li ri obtain ls rs0 where c: "CreateExecutor left = Inr ls" "CreateExecutor right = Inr rs0" by (auto simp: init_ok_def)
  have key: "\<forall>t row. reads_as ?F s t row \<longrightarrow> key_hash X s key t = bind_r (?val key row) (HashValue ?F)" for s key
    by (simp add: key_hash_def join_key_def reads_evaluate)
  have same: "\<forall>lt l rt r. reads_as ?F ?ls lt l \<longrightarrow> reads_as ?F ?rs rt r \<longrightarrow> same_key X ?ls ?rs lkey rkey lt rt = ?same l r"
    by (simp add: same_key_def join_key_def reads_evaluate)
  have emit: "\<forall>lt l rt r x. reads_as ?F ?ls lt l \<longrightarrow> reads_as ?F ?rs rt r \<longrightarrow> ?E l r = Inr x \<longrightarrow>
      (\<exists>t. joined_tuple ?F ?ls ?rs out lt rt = Inr t \<and> reads_as ?F out t x)" using joined_tuple_fit by blast
  have pad: "\<forall>lt l x. reads_as ?F ?ls lt l \<longrightarrow> ?P l = Inr x \<longrightarrow> (\<exists>t. padded_tuple ?F ?ls ?rs out lt = Inr t \<and> reads_as ?F out t x)"
    using padded_tuple_fit by blast
  have "\<exists>s b'. Init X (HashJoinPlan out left right lkey rkey jt) (HashJoinState Map.empty [] 0 ls rs0) b = Some (Inr (s, b')) \<and>
      in_view V b' \<and> source X V (HashJoinPlan out left right lkey rkey jt) s rs" if b: "in_view V b" for b
  proof -
    from init_child[OF li b c(1)] obtain s1 b1 where
      1: "Init X left ls b = Some (Inr (s1, b1))" "in_view V b1" "source X V left s1 lrows" by blast
    from init_child[OF ri 1(2) c(2)] obtain s2 b2 where
      2: "Init X right rs0 b1 = Some (Inr (s2, b2))" "in_view V b2" "source X V right s2 rrows" by blast
    from read_all[OF 2(2,3), of "hash_right (key_hash X ?rs rkey)"] obtain ts s3 b3 where
      3: "list_all2 (reads_as ?F ?rs) ts rrows" "in_view V b3"
        "\<forall>acc. poll (pure_body (hash_right (key_hash X ?rs rkey))) (Next X right) s2 new_RID acc b2 =
          (case fold_r (hash_right (key_hash X ?rs rkey)) ts acc of Inl e \<Rightarrow> Some (Inl e) | Inr acc' \<Rightarrow> Some (Inr (acc', s3, b3)))" by blast
    have "fold_r (hash_right (key_hash X ?rs rkey)) ts Map.empty = Inr (table_of_buckets (key_hash X ?rs rkey) ts)"
      using hash_right_fold[OF bucket_related(2)[OF 3(1) key h(1)], of "[]"] by (simp add: table_of_no_buckets)
    with 3(3) have table: "poll (pure_body (hash_right (key_hash X ?rs rkey))) (Next X right) s2 new_RID Map.empty b2 =
      Some (Inr (table_of_buckets (key_hash X ?rs rkey) ts, s3, b3))" by simp
    let ?table = "table_of_buckets (key_hash X ?rs rkey) ts"
    from read_all[OF 3(2) 1(3), of "?probe ?table"] obtain us s4 b4 where
      4: "list_all2 (reads_as ?F ?ls) us lrows" "in_view V b4"
        "\<forall>acc. poll (pure_body (?probe ?table)) (Next X left) s1 new_RID acc b3 =
          (case fold_r (?probe ?table) us acc of Inl e \<Rightarrow> Some (Inl e) | Inr acc' \<Rightarrow> Some (Inr (acc', s4, b4)))" by blast
    from probe_left_fold[OF key 3(1) key h(1) same emit pad 4(1) h(2), of "[]"] obtain ys where
      ys: "fold_r (?probe ?table) us [] = Inr ys" "list_all2 (reads_as ?F out) ys (concat xss)" by auto
    have "poll (pure_body (?probe ?table)) (Next X left) s1 new_RID [] b3 = Some (Inr (ys, s4, b4))" using 4(3) ys(1) by simp
    then show ?thesis using 1(1) 2(1) table 4(2) ys(2) h(3) by simp
  qed
  then show ?thesis using c lr(3) by (simp add: init_ok_def guard_r_def)
qed

lemma init_ok_aggregation:
  assumes r: "rows X db (AggregationPlan out child gbs aggs types) = Inr rs" and ih: "\<And>rs. rows X db child = Inr rs \<Longrightarrow> init_ok X V child rs"
  shows "init_ok X V (AggregationPlan out child gbs aggs types) rs"
proof -
  let ?F = "ctx_floats X" and ?s = "OutputSchema child"
  let ?vals = "\<lambda>es row. map_r (eval_row (ctx_floats X) (ctx_regex X) row) es"
  let ?body = "aggregate_body (ctx_overflow X) ?F (length aggs) types (aggregate_exprs X ?s gbs) (aggregate_exprs X ?s aggs)"
  from r obtain rs1 kvs groups groups' where rs1: "rows X db child = Inr rs1" "keyed_rows (?vals gbs) (?vals aggs) rs1 = Inr kvs"
    "plain_keys ?F (map fst kvs)" "group_rows (ctx_overflow X) ?F (length aggs) types kvs = Inr groups"
    "finish_aggregation ?F out types groups = Inr groups'" "map_r (\<lambda>(k, v). fit ?F out (k @ v)) (ctx_order X groups') = Inr rs"
    by (auto simp: result_simps split: if_splits)
  note ok = ih[OF rs1(1)]
  from ok obtain s0 where s0: "CreateExecutor child = Inr s0" by (auto simp: init_ok_def)
  have vals: "\<forall>t r. reads_as ?F ?s t r \<longrightarrow> aggregate_exprs X ?s es t = ?vals es r" for es
    by (simp add: aggregate_exprs_def reads_evaluate_all)
  have "\<exists>s b'. Init X (AggregationPlan out child gbs aggs types) (AggregationState [] 0 s0) b = Some (Inr (s, b')) \<and> in_view V b' \<and>
      source X V (AggregationPlan out child gbs aggs types) s rs" if b: "in_view V b" for b
  proof -
    from init_child[OF ok b s0] obtain s1 b1 where
      1: "Init X child s0 b = Some (Inr (s1, b1))" "in_view V b1" "source X V child s1 rs1" by blast
    from read_all[OF 1(2,3), of ?body] obtain ts s2 b2 where
      2: "list_all2 (reads_as ?F ?s) ts rs1" "in_view V b2"
        "\<forall>acc. poll (pure_body ?body) (Next X child) s1 new_RID acc b1 =
          (case fold_r ?body ts acc of Inl e \<Rightarrow> Some (Inl e) | Inr acc' \<Rightarrow> Some (Inr (acc', s2, b2)))" by blast
    have "fold_r ?body ts [] = Inr groups"
      using aggregate_related[OF 2(1) vals vals rs1(2)] aggregate_groups[OF rs1(3,4)] by simp
    with 2(3) have "poll (pure_body ?body) (Next X child) s1 new_RID [] b1 = Some (Inr (groups, s2, b2))" by simp
    moreover have "list_all2 (\<lambda>kv r. fit ?F out (fst kv @ snd kv) = Inr r) (ctx_order X groups') rs"
      using rs1(6) by (simp add: map_r_Inr_iff list_all2_conv_all_nth case_prod_beta)
    ultimately show ?thesis using 1(1) 2(2) rs1(5) by simp
  qed
  then show ?thesis using s0 by (simp add: init_ok_def)
qed

section \<open>Plans\<close>

lemma plan_init:
  "\<lbrakk> rows X db p = Inr rs; \<forall>oid\<in>plan_tables p. table_holds X V oid (db oid) \<rbrakk> \<Longrightarrow> init_ok X V p rs"
proof (induction p arbitrary: rs)
  case (SeqScanPlan out oid name pred)
  then show ?case by (intro init_ok_scan) simp_all
next
  case (ValuesPlan out es)
  then show ?case by (intro init_ok_values)
next
  case (FilterPlan out pred child)
  then show ?case by (intro init_ok_filter[OF FilterPlan.prems(1)]) simp
next
  case (ProjectionPlan out exprs child)
  then show ?case by (intro init_ok_projection[OF ProjectionPlan.prems(1)]) simp
next
  case (LimitPlan out child limit)
  then show ?case by (intro init_ok_limit[OF LimitPlan.prems(1)]) simp
next
  case (NestedLoopJoinPlan out left right pred jt)
  then show ?case by (intro init_ok_loop_join[OF NestedLoopJoinPlan.prems(1)]) simp_all
next
  case (HashJoinPlan out left right lkey rkey jt)
  then show ?case by (intro init_ok_hash_join[OF HashJoinPlan.prems(1)]) simp_all
next
  case (SortPlan out child obs)
  then show ?case by (intro init_ok_sort[OF SortPlan.prems(1)]) simp
next
  case (TopNPlan out child obs n)
  then show ?case by (intro init_ok_topn[OF TopNPlan.prems(1)]) simp
next
  case (AggregationPlan out child gbs aggs types)
  then show ?case by (intro init_ok_aggregation[OF AggregationPlan.prems(1)]) simp
qed simp_all

lemma run_query:
  assumes r: "rows X db p = Inr rs" and t: "\<forall>oid\<in>plan_tables p. table_holds X V oid (db oid)" and b: "in_view V b"
  shows "\<exists>ts b'. Execute X p b = Some (Inr (True, ts, Some b')) \<and> in_view V b' \<and>
    list_all2 (reads_as (ctx_floats X) (OutputSchema p)) ts rs"
proof -
  note ok = plan_init[OF r t]
  from ok obtain s0 where s0: "CreateExecutor p = Inr s0" by (auto simp: init_ok_def)
  from init_child[OF ok b s0] obtain s1 b1 where
    1: "Init X p s0 b = Some (Inr (s1, b1))" "in_view V b1" "source X V p s1 rs" by blast
  from read_in[OF 1(2,3)] obtain ts s2 b2 where
    2: "list_all2 (reads_as (ctx_floats X) (OutputSchema p)) ts rs" "in_view V b2"
      "\<forall>acc. poll (pure_body push_back) (Next X p) s1 new_RID acc b1 = Some (Inr (acc @ ts, s2, b2))" by blast
  then show ?thesis using s0 1(1) by (simp add: Execute_def)
qed

end
