(* ===== verification/Optimizer_Laws.thy ===== *)
theory Optimizer_Laws
  imports Optimizer Query_Init
begin

text \<open>
  The rules of the optimizer against the relational meaning of plans: a plan and what a rule makes
  of it have the same rows, when the plan is one that the planner builds.
\<close>

section \<open>Schemas\<close>

text \<open>Schemas made from columns whose sizes are those of their types.\<close>

definition schema_made :: "Schema \<Rightarrow> bool" where
  "schema_made s \<longleftrightarrow> schema_ok s \<and> fixed_size (columns s) < 2 ^ 32 \<and>
     list_all (\<lambda>c. TypeSize (column_type c) = Inr (fixed_length c)) (columns s)"

abbreviation types :: "Schema \<Rightarrow> TypeId list" where
  "types s \<equiv> map column_type (columns s)"

lemma types_count: "types s = types s' \<Longrightarrow> GetColumnCount s = GetColumnCount s'"
  using map_eq_imp_length_eq by (auto simp: GetColumnCount_def)

lemma same_sizes:
  assumes "map column_type cs = map column_type cs'" "list_all (\<lambda>c. TypeSize (column_type c) = Inr (fixed_length c)) cs"
    "list_all (\<lambda>c. TypeSize (column_type c) = Inr (fixed_length c)) cs'"
  shows "map (\<lambda>c. (column_type c, column_offset c)) (place a cs) = map (\<lambda>c. (column_type c, column_offset c)) (place a cs')"
    and "fixed_size cs = fixed_size cs'" and "list_all2 (cell_ok F) cs row = list_all2 (cell_ok F) cs' row"
    and "extra_size cs row = extra_size cs' row"
proof -
  have "length cs = length cs'" using assms(1) by (rule map_eq_imp_length_eq)
  then show "map (\<lambda>c. (column_type c, column_offset c)) (place a cs) = map (\<lambda>c. (column_type c, column_offset c)) (place a cs')"
    and "fixed_size cs = fixed_size cs'" and "list_all2 (cell_ok F) cs row = list_all2 (cell_ok F) cs' row"
    and "extra_size cs row = extra_size cs' row"
    using assms
    by (induction cs cs' arbitrary: a row rule: list_induct2)
      (auto simp: list_all2_Cons1 cell_ok_def extra_size_def extra_def Column_IsInlined_def zip_Cons1 split: list.splits)
qed

lemma same_types:
  fixes F :: "'a float_ops"
  assumes "types s = types s'" "schema_made s" "schema_made s'"
  shows "layout s = layout s'" and "fit F s = fit F s'"
proof -
  have c: "columns s = place 0 (columns s)" "columns s' = place 0 (columns s')"
    using assms(2,3) new_Schema_eq(2) by (metis schema_made_def schema_ok_def)+
  have m: "list_all (\<lambda>c. TypeSize (column_type c) = Inr (fixed_length c)) (columns s)"
    "list_all (\<lambda>c. TypeSize (column_type c) = Inr (fixed_length c)) (columns s')" using assms(2,3) by (simp_all add: schema_made_def)
  note S = same_sizes[OF assms(1) m]
  show "layout s = layout s'" using S(1)[of 0] c by (simp add: layout_def)
  have "row_ok F (columns s) row = row_ok F (columns s') row" for row :: "'a Value list"
    unfolding row_ok_def by (simp only: S(2) S(3)[of F row] S(4)[of row])
  then show "fit F s = fit F s'" using assms(2,3) by (simp add: fun_eq_iff fit_def schema_made_def)
qed

lemma null_values_types: "types s = types s' \<Longrightarrow> null_values F s = null_values F s'"
proof -
  have "map_r (\<lambda>c. GetNullValueByType F (column_type c)) cs = map_r (GetNullValueByType F) (map column_type cs)" for cs
    by (induction cs) simp_all
  note this[of "columns s"] this[of "columns s'"]
  then show "types s = types s' \<Longrightarrow> null_values F s = null_values F s'" by (simp only: null_values_def)
qed

lemma fit_width: "fit F s row = Inr row' \<Longrightarrow> row' = row \<and> length row = GetColumnCount s"
  by (auto simp: fit_def row_ok_def GetColumnCount_def dest: list_all2_lengthD split: if_splits)

section \<open>Plans of the planner\<close>

definition bool_value :: "bool \<Rightarrow> 'd Value" where
  "bool_value b = int_value BOOLEAN (if b then 1 else 0)"

text \<open>A condition that is a constant is true or false.\<close>

definition plain_condition :: "'d expr \<Rightarrow> bool" where
  "plain_condition e \<longleftrightarrow> (\<forall>v. e = Constant v \<longrightarrow> (\<exists>b. v = bool_value b))"

text \<open>
  Scans of tables whose rows are \<open>db\<close>; filters that keep the types of their columns and read the
  columns of their input; a constant condition only in inner joins.
\<close>

primrec plan_ok :: "'d exec_ctx \<Rightarrow> (nat \<Rightarrow> 'd Value list list) \<Rightarrow> 'd plan \<Rightarrow> bool" where
  "plan_ok X db (SeqScanPlan s oid name pred) = (schema_made s \<and> (\<exists>schema first. table_of X oid = Inr (schema, first) \<and>
     list_all (\<lambda>row. length row = GetColumnCount schema) (db oid)))"
| "plan_ok X db (ValuesPlan s es) = schema_made s"
| "plan_ok X db (FilterPlan s pred child) = (schema_made s \<and> plan_ok X db child \<and> plain_condition pred \<and>
     types s = types (OutputSchema child) \<and> columns_read pred \<subseteq> {0} \<times> {..<GetColumnCount (OutputSchema child)})"
| "plan_ok X db (ProjectionPlan s exprs child) = (schema_made s \<and> plan_ok X db child)"
| "plan_ok X db (LimitPlan s child limit) = (schema_made s \<and> plan_ok X db child)"
| "plan_ok X db (NestedLoopJoinPlan s left right pred jt) = (schema_made s \<and> plan_ok X db left \<and> plan_ok X db right \<and>
     GetColumnCount s = GetColumnCount (OutputSchema left) + GetColumnCount (OutputSchema right) \<and>
     plain_condition pred \<and> ((\<exists>v. pred = Constant v) \<longrightarrow> jt = INNER))"
| "plan_ok X db (HashJoinPlan s left right lkey rkey jt) = (schema_made s \<and> plan_ok X db left \<and> plan_ok X db right)"
| "plan_ok X db (SortPlan s child obs) = (schema_made s \<and> plan_ok X db child)"
| "plan_ok X db (TopNPlan s child obs n) = (schema_made s \<and> plan_ok X db child)"
| "plan_ok X db (AggregationPlan s child gbs aggs tys) = (schema_made s \<and> plan_ok X db child)"
| "plan_ok X db (InsertPlan s child oid) = (schema_made s \<and> plan_ok X db child)"
| "plan_ok X db (UpdatePlan s child oid exprs) = (schema_made s \<and> plan_ok X db child)"
| "plan_ok X db (DeletePlan s child oid) = (schema_made s \<and> plan_ok X db child)"

lemma plan_ok_schema: "plan_ok X db p \<Longrightarrow> schema_made (OutputSchema p)"
  by (cases p) simp_all

text \<open>A plan that gives the same rows with columns of the same types, from the same tables.\<close>

definition refines :: "'d exec_ctx \<Rightarrow> (nat \<Rightarrow> 'd Value list list) \<Rightarrow> 'd plan \<Rightarrow> 'd plan \<Rightarrow> bool" where
  "refines X db p p' \<longleftrightarrow> plan_ok X db p' \<and> types (OutputSchema p') = types (OutputSchema p) \<and> plan_tables p' \<subseteq> plan_tables p \<and>
     (\<forall>rs. rows X db p = Inr rs \<longrightarrow> rows X db p' = Inr rs)"

lemma refines_refl: "plan_ok X db p \<Longrightarrow> refines X db p p"
  by (simp add: refines_def)

lemma refines_trans: "refines X db p q \<Longrightarrow> refines X db q r \<Longrightarrow> refines X db p r"
  by (auto simp: refines_def)

definition sound_rule :: "'d exec_ctx \<Rightarrow> (nat \<Rightarrow> 'd Value list list) \<Rightarrow> 'd rule \<Rightarrow> bool" where
  "sound_rule X db f \<longleftrightarrow> (\<forall>p. plan_ok X db p \<longrightarrow> (\<exists>p'. f p = Inr p' \<and> refines X db p p'))"

lemma sound_ruleD: "sound_rule X db f \<Longrightarrow> plan_ok X db p \<Longrightarrow> \<exists>p'. f p = Inr p' \<and> refines X db p p'"
  by (simp add: sound_rule_def)

lemma rule_step: "sound_rule X db f \<Longrightarrow> refines X db p q \<Longrightarrow> \<exists>p'. f q = Inr p' \<and> refines X db p p'"
  using refines_trans by (fastforce simp: sound_rule_def refines_def)

text \<open>Refining a child refines the plan.\<close>

lemma refines_child:
  assumes r: "refines X db child c" and ok: "plan_ok X db child"
  shows "plan_ok X db (FilterPlan s pred child) \<Longrightarrow> refines X db (FilterPlan s pred child) (FilterPlan s pred c)"
    and "schema_made s \<Longrightarrow> refines X db (ProjectionPlan s exprs child) (ProjectionPlan s exprs c)"
    and "schema_made s \<Longrightarrow> refines X db (LimitPlan s child n) (LimitPlan s c n)"
    and "schema_made s \<Longrightarrow> refines X db (SortPlan s child obs) (SortPlan s c obs)"
    and "schema_made s \<Longrightarrow> refines X db (TopNPlan s child obs n) (TopNPlan s c obs n)"
    and "schema_made s \<Longrightarrow> refines X db (AggregationPlan s child gbs aggs tys) (AggregationPlan s c gbs aggs tys)"
    and "schema_made s \<Longrightarrow> refines X db (InsertPlan s child oid) (InsertPlan s c oid)"
    and "schema_made s \<Longrightarrow> refines X db (UpdatePlan s child oid exprs) (UpdatePlan s c oid exprs)"
    and "schema_made s \<Longrightarrow> refines X db (DeletePlan s child oid) (DeletePlan s c oid)"
proof -
  have c: "plan_ok X db c" "types (OutputSchema c) = types (OutputSchema child)" "plan_tables c \<subseteq> plan_tables child"
    "\<And>rs. rows X db child = Inr rs \<Longrightarrow> rows X db c = Inr rs" using r by (simp_all add: refines_def)
  have L: "layout (OutputSchema c) = layout (OutputSchema child)"
    using same_types(1)[OF c(2)] plan_ok_schema[OF c(1)] plan_ok_schema[OF ok] .
  have N: "GetColumnCount (OutputSchema c) = GetColumnCount (OutputSchema child)" by (rule types_count[OF c(2)])
  have B: "bind_r (rows X db child) g = Inr x \<Longrightarrow> bind_r (rows X db c) g = Inr x" for g :: "'a Value list list \<Rightarrow> 'a Value list list result" and x
    using c(4) by (cases "rows X db child") simp_all
  note D = same_layout_def L N c(1,2,3)
  show "plan_ok X db (FilterPlan s pred child) \<Longrightarrow> refines X db (FilterPlan s pred child) (FilterPlan s pred c)"
    unfolding refines_def by (simp add: D) (intro allI impI, erule B)
  show "schema_made s \<Longrightarrow> refines X db (ProjectionPlan s exprs child) (ProjectionPlan s exprs c)"
    unfolding refines_def by (simp add: D) (intro allI impI, erule B)
  show "schema_made s \<Longrightarrow> refines X db (LimitPlan s child n) (LimitPlan s c n)"
    unfolding refines_def by (simp add: D) (intro allI impI, erule B)
  show "schema_made s \<Longrightarrow> refines X db (SortPlan s child obs) (SortPlan s c obs)"
    unfolding refines_def by (simp add: D) (intro allI impI, erule B)
  show "schema_made s \<Longrightarrow> refines X db (TopNPlan s child obs n) (TopNPlan s c obs n)"
    unfolding refines_def by (simp add: D del: if_split) (intro allI impI, erule B)
  show "schema_made s \<Longrightarrow> refines X db (AggregationPlan s child gbs aggs tys) (AggregationPlan s c gbs aggs tys)"
    unfolding refines_def by (simp add: D del: if_split) (intro allI impI, erule B)
  show "schema_made s \<Longrightarrow> refines X db (InsertPlan s child oid) (InsertPlan s c oid)"
    and "schema_made s \<Longrightarrow> refines X db (UpdatePlan s child oid exprs) (UpdatePlan s c oid exprs)"
    and "schema_made s \<Longrightarrow> refines X db (DeletePlan s child oid) (DeletePlan s c oid)"
    using c(3) by (auto simp: refines_def c(1))
qed

lemma refines_children:
  assumes l: "refines X db left l" and r: "refines X db right r"
  shows "plan_ok X db (NestedLoopJoinPlan s left right pred jt) \<Longrightarrow>
      refines X db (NestedLoopJoinPlan s left right pred jt) (NestedLoopJoinPlan s l r pred jt)"
    and "schema_made s \<Longrightarrow> refines X db (HashJoinPlan s left right lkey rkey jt) (HashJoinPlan s l r lkey rkey jt)"
proof -
  have L: "plan_ok X db l" "types (OutputSchema l) = types (OutputSchema left)" "plan_tables l \<subseteq> plan_tables left"
    "\<And>rs. rows X db left = Inr rs \<Longrightarrow> rows X db l = Inr rs" using l by (simp_all add: refines_def)
  have R: "plan_ok X db r" "types (OutputSchema r) = types (OutputSchema right)" "plan_tables r \<subseteq> plan_tables right"
    "\<And>rs. rows X db right = Inr rs \<Longrightarrow> rows X db r = Inr rs" using r by (simp_all add: refines_def)
  have pad: "padded F (OutputSchema r) = padded F (OutputSchema right)" for F :: "'a float_ops"
    by (simp add: fun_eq_iff padded_def null_values_types[OF R(2)])
  have J: "loop_join F m (OutputSchema r) = loop_join F m (OutputSchema right)"
    "hash_join F lh rh sm (OutputSchema r) = hash_join F lh rh sm (OutputSchema right)" for F :: "'a float_ops" and m lh rh sm
    by (simp_all add: fun_eq_iff loop_join_def hash_join_def pad)
  have B: "bind_r (rows X db left) (\<lambda>a. bind_r (rows X db right) (g a)) = Inr x \<Longrightarrow>
      bind_r (rows X db l) (\<lambda>a. bind_r (rows X db r) (g a)) = Inr x" for g :: "'a Value list list \<Rightarrow> 'a Value list list \<Rightarrow> 'a Value list list result" and x
    using L(4) R(4) by (cases "rows X db left"; cases "rows X db right") simp_all
  have T: "plan_tables l \<union> plan_tables r \<subseteq> plan_tables left \<union> plan_tables right" using L(3) R(3) by blast
  note D = L(1) R(1) J T[simplified] types_count[OF L(2)] types_count[OF R(2)]
  show "plan_ok X db (NestedLoopJoinPlan s left right pred jt) \<Longrightarrow>
      refines X db (NestedLoopJoinPlan s left right pred jt) (NestedLoopJoinPlan s l r pred jt)"
    unfolding refines_def by (simp add: D) (intro allI impI, erule B)
  show "schema_made s \<Longrightarrow> refines X db (HashJoinPlan s left right lkey rkey jt) (HashJoinPlan s l r lkey rkey jt)"
    unfolding refines_def by (simp add: D) (intro allI impI, erule B)
qed

lemma bind_sound:
  assumes "\<exists>c. m = Inr c \<and> refines X db child c" "\<And>c. refines X db child c \<Longrightarrow> \<exists>p'. g c = Inr p' \<and> Q p'"
  shows "\<exists>p'. bind_r m g = Inr p' \<and> Q p'"
  using assms by auto

lemma bottom_up_sound:
  assumes f: "sound_rule X db f"
  shows "sound_rule X db (bottom_up f)"
proof -
  note step = rule_step[OF f] and leaf = rule_step[OF f refines_refl]
  have "plan_ok X db p \<Longrightarrow> \<exists>p'. bottom_up f p = Inr p' \<and> refines X db p p'" for p
  proof (induction p)
    case (SeqScanPlan s oid name pred)
    then show ?case using leaf by (simp del: plan_ok.simps)
  next
    case (ValuesPlan s es)
    then show ?case using leaf by (simp del: plan_ok.simps)
  next
    case (FilterPlan s pred child)
    then have ok: "plan_ok X db child" and s: "schema_made s" by simp_all
    show ?case unfolding bottom_up.simps
      by (rule bind_sound[OF FilterPlan.IH[OF ok] step[OF refines_child(1)[OF _ ok]]]) (assumption | rule FilterPlan.prems)+
  next
    case (ProjectionPlan s exprs child)
    then have ok: "plan_ok X db child" and s: "schema_made s" by simp_all
    show ?case unfolding bottom_up.simps
      by (rule bind_sound[OF ProjectionPlan.IH[OF ok] step[OF refines_child(2)[OF _ ok]]]) (assumption | rule s)+
  next
    case (LimitPlan s child limit)
    then have ok: "plan_ok X db child" and s: "schema_made s" by simp_all
    show ?case unfolding bottom_up.simps
      by (rule bind_sound[OF LimitPlan.IH[OF ok] step[OF refines_child(3)[OF _ ok]]]) (assumption | rule s)+
  next
    case (SortPlan s child obs)
    then have ok: "plan_ok X db child" and s: "schema_made s" by simp_all
    show ?case unfolding bottom_up.simps
      by (rule bind_sound[OF SortPlan.IH[OF ok] step[OF refines_child(4)[OF _ ok]]]) (assumption | rule s)+
  next
    case (TopNPlan s child obs n)
    then have ok: "plan_ok X db child" and s: "schema_made s" by simp_all
    show ?case unfolding bottom_up.simps
      by (rule bind_sound[OF TopNPlan.IH[OF ok] step[OF refines_child(5)[OF _ ok]]]) (assumption | rule s)+
  next
    case (AggregationPlan s child gbs aggs tys)
    then have ok: "plan_ok X db child" and s: "schema_made s" by simp_all
    show ?case unfolding bottom_up.simps
      by (rule bind_sound[OF AggregationPlan.IH[OF ok] step[OF refines_child(6)[OF _ ok]]]) (assumption | rule s)+
  next
    case (InsertPlan s child oid)
    then have ok: "plan_ok X db child" and s: "schema_made s" by simp_all
    show ?case unfolding bottom_up.simps
      by (rule bind_sound[OF InsertPlan.IH[OF ok] step[OF refines_child(7)[OF _ ok]]]) (assumption | rule s)+
  next
    case (UpdatePlan s child oid exprs)
    then have ok: "plan_ok X db child" and s: "schema_made s" by simp_all
    show ?case unfolding bottom_up.simps
      by (rule bind_sound[OF UpdatePlan.IH[OF ok] step[OF refines_child(8)[OF _ ok]]]) (assumption | rule s)+
  next
    case (DeletePlan s child oid)
    then have ok: "plan_ok X db child" and s: "schema_made s" by simp_all
    show ?case unfolding bottom_up.simps
      by (rule bind_sound[OF DeletePlan.IH[OF ok] step[OF refines_child(9)[OF _ ok]]]) (assumption | rule s)+
  next
    case (NestedLoopJoinPlan s left right pred jt)
    then have ok: "plan_ok X db left" "plan_ok X db right" and s: "schema_made s" by simp_all
    show ?case unfolding bottom_up.simps
      by (rule bind_sound[OF NestedLoopJoinPlan.IH(1)[OF ok(1)] bind_sound[OF NestedLoopJoinPlan.IH(2)[OF ok(2)] step[OF refines_children(1)]]])
        (assumption | rule NestedLoopJoinPlan.prems)+
  next
    case (HashJoinPlan s left right lkey rkey jt)
    then have ok: "plan_ok X db left" "plan_ok X db right" and s: "schema_made s" by simp_all
    show ?case unfolding bottom_up.simps
      by (rule bind_sound[OF HashJoinPlan.IH(1)[OF ok(1)] bind_sound[OF HashJoinPlan.IH(2)[OF ok(2)] step[OF refines_children(2)]]])
        (assumption | rule s)+
  qed
  then show ?thesis by (simp add: sound_rule_def)
qed

end
