(* ===== verification/Optimizer_Rules.thy ===== *)
theory Optimizer_Rules
  imports Optimizer_Laws
begin

text \<open>
  Soundness of each rule of the starter optimizer, the composition \<open>Optimize\<close>, and the rules of the
  custom optimizer that change the meaning of a plan.
\<close>

section \<open>Widths of rows\<close>

lemma filter_r_set: "filter_r p rs = Inr rs' \<Longrightarrow> set rs' \<subseteq> set rs"
  by (induction rs arbitrary: rs') (auto simp: result_simps split: if_splits)

lemma map_r_all:
  assumes "map_r f xs = Inr ys" "\<And>x y. f x = Inr y \<Longrightarrow> P y"
  shows "list_all P ys"
  using assms by (auto simp: map_r_Inr_iff list_all2_conv_all_nth list_all_length)

abbreviation width_is :: "Schema \<Rightarrow> 'd Value list list \<Rightarrow> bool" where
  "width_is s \<equiv> list_all (\<lambda>row. length row = GetColumnCount s)"

lemma padded_width: "padded F rs out pad l ms = Inr xs \<Longrightarrow> width_is out xs"
  unfolding padded_def by (auto simp: result_simps dest: fit_width elim!: map_r_all split: if_splits)

lemma concat_width: "map_r f ls = Inr xss \<Longrightarrow> (\<And>l xs. f l = Inr xs \<Longrightarrow> width_is out xs) \<Longrightarrow> width_is out (concat xss)"
  using map_r_all[of f ls xss "width_is out"] by (auto simp: list_all_iff)

lemma join_width:
  shows "loop_join F m rs out pad ls rrows = Inr xs \<Longrightarrow> width_is out xs"
    and "hash_join F lh rh sm rs out pad ls rrows = Inr xs \<Longrightarrow> width_is out xs"
  by (auto simp: result_simps loop_join_def hash_join_def Let_def elim!: concat_width dest: padded_width split: if_splits)

lemma layout_count: "layout s = layout s' \<Longrightarrow> GetColumnCount s = GetColumnCount s'"
  using map_eq_imp_length_eq by (auto simp: layout_def GetColumnCount_def)

lemma rows_width: "plan_ok X db p \<Longrightarrow> rows X db p = Inr rs \<Longrightarrow> width_is (OutputSchema p) rs"
proof (induction p arbitrary: rs)
  case (SeqScanPlan s oid name pred)
  from SeqScanPlan.prems obtain schema first where t: "table_of X oid = Inr (schema, first)" "width_is schema (db oid)" by auto
  with SeqScanPlan.prems(2) have "layout s = layout schema" "set rs \<subseteq> set (db oid)"
    by (auto simp: result_simps same_layout_def dest!: filter_r_set split: if_splits)
  then show ?case using t(2) layout_count[of s schema] by (auto simp: list_all_iff)
next
  case (ValuesPlan s es)
  then show ?case by (auto simp: result_simps dest: fit_width elim!: map_r_all)
next
  case (FilterPlan s pred child)
  then obtain rs1 where "width_is (OutputSchema child) rs1" "layout s = layout (OutputSchema child)" "set rs \<subseteq> set rs1"
    by (auto simp: result_simps same_layout_def dest!: filter_r_set split: if_splits)
  then show ?case using layout_count[of s "OutputSchema child"] by (auto simp: list_all_iff)
next
  case (ProjectionPlan s exprs child)
  then show ?case by (auto simp: result_simps dest: fit_width elim!: map_r_all)
next
  case (LimitPlan s child limit)
  then obtain rs1 where "width_is (OutputSchema child) rs1" "layout s = layout (OutputSchema child)" "rs = take limit rs1"
    by (auto simp: result_simps same_layout_def split: if_splits)
  then show ?case using layout_count[of s "OutputSchema child"] by (auto simp: list_all_iff dest: in_set_takeD)
next
  case (NestedLoopJoinPlan s left right pred jt)
  then show ?case by (auto simp: result_simps simp del: plan_ok.simps dest: join_width(1))
next
  case (HashJoinPlan s left right lkey rkey jt)
  then show ?case by (auto simp: result_simps simp del: plan_ok.simps dest: join_width(2))
next
  case (SortPlan s child obs)
  then obtain rs1 where "width_is (OutputSchema child) rs1" "layout s = layout (OutputSchema child)" "std_sort (row_less X obs) rs1 = Inr rs"
    by (auto simp: result_simps same_layout_def split: if_splits)
  then show ?case using layout_count[of s "OutputSchema child"] mset_eq_setD[OF std_sort_sorted(1), of "row_less X obs" rs1 rs]
    by (simp add: list_all_iff)
next
  case (TopNPlan s child obs n)
  then obtain rs1 where 1: "width_is (OutputSchema child) rs1" "layout s = layout (OutputSchema child)"
    "n = 0 \<and> rs = [] \<or> (\<exists>rs2. std_sort (row_less X obs) rs1 = Inr rs2 \<and> rs = take n rs2)"
    by (auto simp: result_simps same_layout_def split: if_splits)
  then show ?case using layout_count[of s "OutputSchema child"] mset_eq_setD[OF std_sort_sorted(1), of "row_less X obs" rs1]
    by (auto simp: list_all_iff dest!: in_set_takeD)
next
  case (AggregationPlan s child gbs aggs tys)
  then show ?case by (auto simp: result_simps dest: fit_width elim!: map_r_all split: if_splits)
qed simp_all

section \<open>Merging projections\<close>

lemma reschema:
  assumes ok: "plan_ok X db p" and s: "schema_made s" "types s = types (OutputSchema p)"
  shows "refines X db p (set_output_schema s p)"
proof -
  note o = plan_ok_schema[OF ok]
  have L: "layout s = layout (OutputSchema p)" and T: "fit F s = fit F (OutputSchema p)" for F :: "'a float_ops"
    using same_types[OF s(2,1) o] by simp_all
  have P: "padded F rs s = padded F rs (OutputSchema p)" for F :: "'a float_ops" and rs
    by (simp add: fun_eq_iff padded_def T)
  have J: "loop_join F m rs s = loop_join F m rs (OutputSchema p)"
    "hash_join F lh rh sm rs s = hash_join F lh rh sm rs (OutputSchema p)" for F :: "'a float_ops" and m lh rh sm rs
    by (simp_all add: fun_eq_iff loop_join_def hash_join_def P)
  have A: "finish_aggregation F s tys g = finish_aggregation F (OutputSchema p) tys g" for F :: "'a float_ops" and tys g
    using s(2) types_count[OF s(2)] by (simp add: finish_aggregation_def)
  have "rows X db (set_output_schema s p) = rows X db p"
    using L T J A by (cases p) (simp_all add: same_layout_def cong: if_cong)
  moreover have "plan_ok X db (set_output_schema s p)" using ok s types_count[OF s(2)] by (cases p) simp_all
  moreover have "OutputSchema (set_output_schema s p) = s" "plan_tables (set_output_schema s p) = plan_tables p"
    by (cases p; simp)+
  ultimately show ?thesis using s(2) by (simp add: refines_def)
qed

lemma identity_row:
  "is_identity idx exprs \<Longrightarrow> map_r (eval_row F R row) exprs = Inr row' \<Longrightarrow> row' = take (length exprs) (drop idx row)"
proof (induction idx exprs arbitrary: row' rule: is_identity.induct)
  case (2 idx t i T exprs)
  then obtain rest where "idx < length row" "row' = row ! idx # rest" "rest = take (length exprs) (drop (Suc idx) row)"
    by (auto simp: result_simps row_column_def split: if_splits)
  then show ?case by (simp add: Cons_nth_drop_Suc[symmetric])
qed simp_all

lemma identity_projection:
  assumes id: "is_identity 0 exprs" and w: "width_is s rs"
    and r: "map_r (\<lambda>row. bind_r (map_r (eval_row F R row) exprs) (fit F s)) rs = Inr rs'"
  shows "rs' = rs"
proof -
  have "y = x" if "x \<in> set rs" "bind_r (map_r (eval_row F R x) exprs) (fit F s) = Inr y" for x y
  proof -
    from that(2) obtain z where z: "map_r (eval_row F R x) exprs = Inr z" "fit F s z = Inr y" by (auto simp: result_simps)
    from fit_width[OF z(2)] have "y = z" "length z = GetColumnCount s" by simp_all
    moreover have "length z = length exprs" using z(1) by (auto simp: map_r_Inr_iff dest: list_all2_lengthD)
    moreover have "length x = GetColumnCount s" using w that(1) by (simp add: list_all_iff)
    ultimately show "y = x" using identity_row[OF id z(1)] by simp
  qed
  then show ?thesis using r by (auto simp: map_r_Inr_iff list_all2_conv_all_nth intro: nth_equalityI)
qed

lemma merge_projection_sound: "sound_rule X db MergeProjection"
proof -
  have "\<exists>p'. MergeProjection p = Inr p' \<and> refines X db p p'" if ok: "plan_ok X db p" for p
  proof (cases p)
    case (ProjectionPlan s exprs child)
    show ?thesis
    proof (cases "types (OutputSchema child) = types s \<and> is_identity 0 exprs")
      case True
      from ok ProjectionPlan have c: "plan_ok X db child" "schema_made s" by simp_all
      note re = reschema[OF c]
      have "rows X db child = Inr rs" if r: "rows X db p = Inr rs" for rs
      proof -
        from r ProjectionPlan obtain rs1 where 1: "rows X db child = Inr rs1"
          "map_r (\<lambda>row. bind_r (map_r (eval_row (ctx_floats X) (ctx_regex X) row) exprs) (fit (ctx_floats X) s)) rs1 = Inr rs"
          by (auto simp: result_simps)
        have "width_is s rs1" using rows_width[OF c(1) 1(1)] types_count True by metis
        from identity_projection[OF _ this 1(2)] True 1(1) show ?thesis by simp
      qed
      then have "refines X db p (set_output_schema s child)"
        using re True ProjectionPlan by (auto simp: refines_def)
      then show ?thesis using True ProjectionPlan by simp
    next
      case False
      then have "MergeProjection p = Inr p" using ProjectionPlan by auto
      then show ?thesis using refines_refl[OF ok] by simp
    qed
  qed (use refines_refl[OF ok] in auto)
  then show ?thesis by (simp add: sound_rule_def)
qed

section \<open>Filters above joins\<close>

lemma predicate_true:
  "plain_condition e \<Longrightarrow> IsPredicateTrue F e = Inr (\<exists>v. e = Constant v \<and> v = bool_value True)"
proof (cases "\<exists>v. e = Constant v")
  case True
  moreover assume "plain_condition e"
  ultimately obtain b where "e = Constant (bool_value b)" by (auto simp: plain_condition_def)
  then show ?thesis by (cases b) (simp_all add: IsPredicateTrue_def bool_value_def Value_CastAs_def Boolean_CastAs_def Boolean_Copy_def get_bool_def store_int_def int_value_def swrap_def)
qed (auto simp: IsPredicateTrue_def split: expr.splits)

lemma true_holds: "bind_r (eval_join F R l r (Constant (bool_value True))) holds = Inr True"
  by (simp add: bool_value_def holds_def get_bool_def)

lemma filter_r_true: "filter_r (\<lambda>_. Inr True) rs = Inr rs"
  by (induction rs) simp_all

lemma filter_r_append:
  "filter_r p (xs @ ys) = bind_r (filter_r p xs) (\<lambda>a. bind_r (filter_r p ys) (\<lambda>b. Inr (a @ b)))"
proof (induction xs)
  case (Cons x xs)
  then show ?case by (cases "p x"; cases "filter_r p xs"; cases "filter_r p ys") simp_all
qed (cases "filter_r p ys"; simp)

lemma filter_joined:
  assumes "\<And>r x. r \<in> set rs \<Longrightarrow> E r = Inr x \<Longrightarrow> q r = p x"
  shows "map_r E rs = Inr xs \<Longrightarrow> filter_r p xs = Inr zs \<Longrightarrow> bind_r (filter_r q rs) (map_r E) = Inr zs"
  using assms
proof (induction rs arbitrary: xs zs)
  case (Cons r rs)
  from Cons.prems(1,2) obtain x xs' ok zs' where x: "E r = Inr x" "map_r E rs = Inr xs'" "p x = Inr ok"
    "filter_r p xs' = Inr zs'" "zs = (if ok then x # zs' else zs')" by (auto simp: result_simps)
  from Cons.IH[OF x(2,4)] Cons.prems(3) obtain ms where "filter_r q rs = Inr ms" "map_r E ms = Inr zs'" by (auto simp: result_simps)
  then show ?case using x Cons.prems(3)[of r x] by simp
qed simp

lemma filter_join:
  assumes "\<And>l r x. l \<in> set ls \<Longrightarrow> r \<in> set rs \<Longrightarrow> E l r = Inr x \<Longrightarrow> q l r = p x"
  shows "map_r (\<lambda>l. map_r (E l) rs) ls = Inr xss \<Longrightarrow> filter_r p (concat xss) = Inr zs \<Longrightarrow>
    bind_r (map_r (\<lambda>l. bind_r (filter_r (q l) rs) (map_r (E l))) ls) (\<lambda>yss. Inr (concat yss)) = Inr zs"
  using assms
proof (induction ls arbitrary: xss zs)
  case (Cons l ls)
  from Cons.prems(1,2) obtain xs xss' a b where x: "map_r (E l) rs = Inr xs" "map_r (\<lambda>l. map_r (E l) rs) ls = Inr xss'"
    "filter_r p xs = Inr a" "filter_r p (concat xss') = Inr b" "zs = a @ b" by (auto simp: result_simps filter_r_append)
  from Cons.IH[OF x(2,4)] Cons.prems(3) obtain yss where "map_r (\<lambda>l. bind_r (filter_r (q l) rs) (map_r (E l))) ls = Inr yss"
    "concat yss = b" by (auto simp: result_simps)
  moreover have "bind_r (filter_r (q l) rs) (map_r (E l)) = Inr a"
    using Cons.prems(3) by (intro filter_joined[OF _ x(1,3)]) simp
  ultimately show ?case using x(5) by simp
qed simp

lemma rewrite_row:
  assumes "length l = n"
  shows "RewriteExpressionForJoin e n m = Inr e' \<Longrightarrow> length r = m \<Longrightarrow> eval_row F R (l @ r) e = eval_join F R l r e'"
proof (induction e arbitrary: e')
  case (ColumnValue t i T)
  then show ?case using assms by (auto simp: result_simps row_column_def nth_append split: if_splits)
qed (auto simp: result_simps)

lemma rewrite_constant: "RewriteExpressionForJoin e n m = Inr (Constant v) \<Longrightarrow> e = Constant v"
  by (cases e) (auto simp: result_simps split: if_splits)

lemma merged_join:
  assumes ok: "plan_ok X db left" "plan_ok X db right" and F: "fit (ctx_floats X) s = fit (ctx_floats X) js"
    and e: "RewriteExpressionForJoin pred (GetColumnCount (OutputSchema left)) (GetColumnCount (OutputSchema right)) = Inr e'"
    and r: "rows X db (FilterPlan s pred (NestedLoopJoinPlan js left right (Constant (bool_value True)) INNER)) = Inr zs"
  shows "rows X db (NestedLoopJoinPlan s left right e' INNER) = Inr zs"
proof -
  let ?F = "ctx_floats X" and ?R = "ctx_regex X"
  let ?E = "\<lambda>l r. fit (ctx_floats X) js (l @ r)" and ?p = "\<lambda>row. bind_r (eval_row (ctx_floats X) (ctx_regex X) row pred) holds"
  have P: "padded ?F rs s' False l = map_r (\<lambda>r. fit ?F s' (l @ r))" for rs s' l
    by (simp add: fun_eq_iff padded_def)
  from r obtain ls rs xs where 1: "rows X db left = Inr ls" "rows X db right = Inr rs" "filter_r ?p xs = Inr zs"
    "loop_join ?F (\<lambda>l r. Inr True) (OutputSchema right) js False ls rs = Inr xs"
    by (auto simp: result_simps same_layout_def true_holds[simplified] split: if_splits)
  then obtain xss where 2: "length rs < 2 ^ 31 - 1" "map_r (\<lambda>l. map_r (?E l) rs) ls = Inr xss" "xs = concat xss"
    by (auto simp: loop_join_def filter_r_true P result_simps split: if_splits)
  have w: "width_is (OutputSchema left) ls" "width_is (OutputSchema right) rs" using rows_width ok 1(1,2) by blast+
  have "bind_r (eval_join ?F ?R l r e') holds = ?p x" if "l \<in> set ls" "r \<in> set rs" "?E l r = Inr x" for l r x
    using rewrite_row[OF _ e, of l r ?F ?R] fit_width[OF that(3)] that(1,2) w by (simp add: list_all_iff)
  from filter_join[OF this 2(2) 1(3)[unfolded 2(3)]]
  have "loop_join ?F (\<lambda>l r. bind_r (eval_join ?F ?R l r e') holds) (OutputSchema right) s False ls rs = Inr zs"
    using 2(1) by (simp add: loop_join_def P F)
  then show ?thesis using 1(1,2) by (simp add: join_supported_def)
qed

lemma merge_filter_nlj_sound: "sound_rule X db (MergeFilterNLJ (ctx_floats X))"
proof -
  have "\<exists>p'. MergeFilterNLJ (ctx_floats X) p = Inr p' \<and> refines X db p p'" if ok: "plan_ok X db p" for p
  proof (cases "\<exists>s pred js left right jpred jt. p = FilterPlan s pred (NestedLoopJoinPlan js left right jpred jt)")
    case True
    then obtain s pred js left right jpred jt where p: "p = FilterPlan s pred (NestedLoopJoinPlan js left right jpred jt)" by blast
    with ok have s: "schema_made s" "types s = types js" "plain_condition pred" "schema_made js" "plan_ok X db left" "plan_ok X db right"
      "GetColumnCount js = GetColumnCount (OutputSchema left) + GetColumnCount (OutputSchema right)" "plain_condition jpred"
      "(\<exists>v. jpred = Constant v) \<longrightarrow> jt = INNER" "columns_read pred \<subseteq> {0} \<times> {..<GetColumnCount (OutputSchema left) + GetColumnCount (OutputSchema right)}"
      by (simp_all, metis)
    show ?thesis
    proof (cases "jpred = Constant (bool_value True)")
      case True
      then have jt: "jt = INNER" using s(9) by blast
      from rewrite_total[OF s(10)]
      obtain e' where e: "RewriteExpressionForJoin pred (GetColumnCount (OutputSchema left)) (GetColumnCount (OutputSchema right)) = Inr e'" ..
      have c: "plain_condition e'" using s(3) e rewrite_constant unfolding plain_condition_def by blast
      have "refines X db p (NestedLoopJoinPlan s left right e' INNER)"
        unfolding refines_def using s(1,2,5,6) s(7)[symmetric] p c types_count[OF s(2)] merged_join[OF s(5,6) same_types(2)[OF s(2,1,4)] e] True jt
        by (simp del: rows.simps)
      then show ?thesis using p True jt e predicate_true[OF s(8)] by simp
    next
      case False
      then have "MergeFilterNLJ (ctx_floats X) p = Inr p" using p predicate_true[OF s(8)] by auto
      then show ?thesis using refines_refl[OF ok] by simp
    qed
  next
    case False
    then have "MergeFilterNLJ (ctx_floats X) p = Inr p"
      by (cases "(ctx_floats X, p)" rule: MergeFilterNLJ.cases) auto
    then show ?thesis using refines_refl[OF ok] by simp
  qed
  then show ?thesis by (simp add: sound_rule_def)
qed

section \<open>Sorting\<close>

lemma top_n_sound: "sound_rule X db SortLimitAsTopN"
proof -
  have "\<exists>p'. SortLimitAsTopN p = Inr p' \<and> refines X db p p'" if ok: "plan_ok X db p" for p
  proof (cases "\<exists>s ss child obs n. p = LimitPlan s (SortPlan ss child obs) n")
    case True
    then obtain s ss child obs n where p: "p = LimitPlan s (SortPlan ss child obs) n" by blast
    have "rows X db (TopNPlan s child obs n) = Inr rs" if "rows X db p = Inr rs" for rs
      using that p by (auto simp: result_simps same_layout_def split: if_splits)
    then have "refines X db p (TopNPlan s child obs n)" using ok p by (simp add: refines_def)
    then show ?thesis using p by simp
  next
    case False
    then have "SortLimitAsTopN p = Inr p" by (cases p rule: SortLimitAsTopN.cases) auto
    then show ?thesis using refines_refl[OF ok] by simp
  qed
  then show ?thesis by (simp add: sound_rule_def)
qed

lemma table_found: "plan_ok X db (SeqScanPlan s oid name pred) \<Longrightarrow> table_exists (ctx_catalog X) oid p = Inr p"
  by (auto simp: table_exists_def table_of_def split: option.splits)

lemma order_by_sound: "sound_rule X db (OrderByAsIndexScan (ctx_catalog X))"
proof -
  have "OrderByAsIndexScan (ctx_catalog X) p = Inr p" if "plan_ok X db p" for p
    using that
  proof (induction "ctx_catalog X" p rule: OrderByAsIndexScan.induct)
    case (1 s cs oid name pred ty t i T)
    then have "plan_ok X db (SeqScanPlan cs oid name pred)" by simp
    note t = table_found[OF this]
    show ?case by (simp add: t)
  qed simp_all
  then show ?thesis using refines_refl by (auto simp: sound_rule_def)
qed

section \<open>The starter optimizer\<close>

lemma run_rule: "sound_rule X db f \<Longrightarrow> refines X db p q \<Longrightarrow> (\<And>q. refines X db p q \<Longrightarrow> \<exists>p'. g q = Inr p' \<and> refines X db p p') \<Longrightarrow>
    \<exists>p'. bind_r (f q) g = Inr p' \<and> refines X db p p'"
  using rule_step by fastforce

lemma starter_sound: "sound_rule X db (Optimize (ctx_floats X) (ctx_catalog X) True)"
proof -
  note S = merge_projection_sound merge_filter_nlj_sound order_by_sound top_n_sound
  have "\<exists>p'. Optimize (ctx_floats X) (ctx_catalog X) True p = Inr p' \<and> refines X db p p'" if ok: "plan_ok X db p" for p
    unfolding Optimize_def if_True OptimizeMergeProjection_def OptimizeMergeFilterNLJ_def OptimizeOrderByAsIndexScan_def
      OptimizeSortLimitAsTopN_def
    by (rule run_rule[OF bottom_up_sound[OF S(1)] refines_refl[OF ok]],
        rule run_rule[OF bottom_up_sound[OF S(2)]], assumption,
        rule run_rule[OF bottom_up_sound[OF S(3)]], assumption,
        rule rule_step[OF bottom_up_sound[OF S(4)]], assumption)
  then show ?thesis by (simp add: sound_rule_def)
qed

end
