(* ===== verification/Query_Laws.thy ===== *)
theory Query_Laws
  imports Query_Init
begin

text \<open>
  What a query returns, what ORDER BY and LIMIT do to it, and what an INSERT of rows leaves in the
  table.
\<close>

section \<open>Inserting rows\<close>

text \<open>A loop body over a list of tuples.\<close>

fun run_body :: "(Tuple \<Rightarrow> RID \<Rightarrow> 'a \<Rightarrow> bpm \<Rightarrow> ('a \<times> bpm) result option) \<Rightarrow> RID \<Rightarrow> Tuple list \<Rightarrow> 'a \<Rightarrow> bpm \<Rightarrow> ('a \<times> bpm) result option" where
  "run_body body rid [] acc b = Some (Inr (acc, b))"
| "run_body body rid (t # ts) acc b = bind_ro (body t rid acc b) (\<lambda>(acc, b). run_body body rid ts acc b)"

text \<open>A tuple made from a row that fits.\<close>

definition made_tuple :: "'d float_ops \<Rightarrow> Schema \<Rightarrow> Tuple \<Rightarrow> 'd Value list \<Rightarrow> bool" where
  "made_tuple F s t row \<longleftrightarrow> fit F s row = Inr row \<and> Tuple_of_values F row s = Inr t"

lemma made_reads: "made_tuple F s t row \<Longrightarrow> reads_as F s t row"
  using fit_tuple[of F s row row] by (auto simp: made_tuple_def)

lemma poll_values:
  "\<lbrakk> c \<le> length es; list_all2 (\<lambda>e r. values_row X out e = Inr r) (drop c es) rs \<rbrakk> \<Longrightarrow> \<exists>ts. list_all2 (made_tuple (ctx_floats X) out) ts rs \<and> (\<forall>acc b.
    poll body (ValuesExecutor_Next X out es) (ValuesState c) rid acc b =
    bind_ro (run_body body rid ts acc b) (\<lambda>(acc, b). Some (Inr (acc, ValuesState (length es), b))))"
proof (induction rs arbitrary: c)
  case Nil
  then have "c = length es" using cursor_end[OF Nil.prems(1), where R = "\<lambda>e r. values_row X out e = Inr r"] by blast
  then show ?case by (subst poll.simps) simp
next
  case (Cons r rs)
  note c = cursor_next[OF Cons.prems]
  from c(2) obtain vs where vs: "map_r (eval_row (ctx_floats X) (ctx_regex X) []) (es ! c) = Inr vs" "fit (ctx_floats X) out vs = Inr r"
    by (auto simp: values_row_def result_simps)
  from fit_tuple[OF vs(2)] vs(2) obtain t where t: "Tuple_of_values (ctx_floats X) vs out = Inr t" "made_tuple (ctx_floats X) out t r"
    by (auto simp: made_tuple_def)
  have "Evaluate (ctx_floats X) (ctx_regex X) None dummy_schema = eval_row (ctx_floats X) (ctx_regex X) []"
    by (rule ext) (rule evaluate_no_tuple)
  then have n: "ValuesExecutor_Next X out es (ValuesState c) rid b = Some (Inr (Some t, ValuesState (Suc c), rid, b))" for b
    using c(1) t(1) vs(1) by simp
  from Cons.IH[OF c(4,3)] obtain ts where ts: "list_all2 (made_tuple (ctx_floats X) out) ts rs"
    "\<forall>acc b. poll body (ValuesExecutor_Next X out es) (ValuesState (Suc c)) rid acc b =
      bind_ro (run_body body rid ts acc b) (\<lambda>(acc, b). Some (Inr (acc, ValuesState (length es), b)))" by blast
  have "poll body (ValuesExecutor_Next X out es) (ValuesState c) rid acc b =
      bind_ro (run_body body rid (t # ts) acc b) (\<lambda>(acc, b). Some (Inr (acc, ValuesState (length es), b)))" for acc b
    by (subst poll.simps, cases "body t rid acc b")
      (auto simp: n ts(2) bind_ro_def simp del: ValuesExecutor_Next.simps split: sum.splits)
  then show ?case using ts(1) t(2) by (intro exI[of _ "t # ts"]) simp
qed

lemma reads_as_data: "tdata t = tdata t' \<Longrightarrow> reads_as F s t r = reads_as F s t' r"
  by (simp add: reads_as_def Tuple_GetValue_def)

text \<open>Storing the bytes of tuples under fresh record ids.\<close>

definition row_fits_page :: "Schema \<Rightarrow> 'd Value list \<Rightarrow> bool" where
  "row_fits_page s row \<longleftrightarrow> 0 < fixed_size (columns s) + extra_size (columns s) row \<and>
     fixed_size (columns s) + extra_size (columns s) row + 32 \<le> BUSTUB_PAGE_SIZE"

definition storable :: "Tuple \<Rightarrow> bool" where
  "storable t \<longleftrightarrow> (\<exists>bs. t = tuple_of new_RID bs \<and> 0 < length bs \<and> length bs + 32 \<le> BUSTUB_PAGE_SIZE)"

lemma fit_storable:
  assumes "made_tuple F s t row" "row_fits_page s row"
  shows "storable t"
proof -
  from assms(1) have r: "new_Schema (columns s) = s" "row_ok F (columns s) row" and t: "Tuple_of_values F row s = Inr t"
    by (auto simp: made_tuple_def fit_def schema_ok_def split: if_splits)
  obtain t' where t': "Tuple_of_values F row (new_Schema (columns s)) = Inr t'"
      "tsize t' = fixed_size (columns s) + extra_size (columns s) row"
      "\<And>data. tdata t' = Some data \<Longrightarrow> length data = tsize t'"
    by (rule Tuple_of_values_correct[OF r(2)]) (rule that)
  then have "t' = t" using t r(1) by simp
  moreover from t obtain n d where "t = \<lparr>tallocated = True, trid = new_RID, tsize = n, tdata = Some d\<rparr>"
    by (auto simp: Tuple_of_values_def result_simps)
  ultimately show ?thesis using t'(2) t'(3)[of d] assms(2) by (auto simp: storable_def tuple_of_def row_fits_page_def)
qed

definition added :: "(RID \<Rightarrow> slot option) \<Rightarrow> byte list list \<Rightarrow> RID list \<Rightarrow> (RID \<Rightarrow> slot option) \<Rightarrow> bool" where
  "added m bss rids m' \<longleftrightarrow> length rids = length bss \<and> distinct rids \<and> (\<forall>rid\<in>set rids. m rid \<in> {None, Some Empty}) \<and>
     m' = m(rids [\<mapsto>] map Live bss)"

lemma added_Cons:
  assumes "m rid \<in> {None, Some Empty}" and "added (m(rid \<mapsto> Live bs)) bss rids m'"
  shows "added m (bs # bss) (rid # rids) m'"
proof -
  from assms(2) have "rid \<notin> set rids" by (auto simp: added_def)
  moreover have "m r \<in> {None, Some Empty}" if "r \<in> set rids" for r
  proof -
    have "r \<noteq> rid" using that \<open>rid \<notin> set rids\<close> by blast
    then show ?thesis using assms(2) that by (auto simp: added_def)
  qed
  ultimately show ?thesis using assms by (simp add: added_def)
qed

lemma insert_run:
  assumes tb: "table_of X oid = Inr (schema, first)"
  shows "\<lbrakk> table_ok first ps b; next_page_id b + int (length ts) \<le> max_page_id + 1; list_all storable ts;
      0 \<le> n; n + int (length ts) < 2 ^ 31 \<rbrakk> \<Longrightarrow>
    \<exists>rid' b' ps' rids. run_body (insert_of X oid) erid ts (n, rid) b = Some (Inr ((n + int (length ts), rid'), b')) \<and>
      table_ok first ps' b' \<and> same_pins b' b \<and> added (table_map ps b) (map (\<lambda>t. the (tdata t)) ts) rids (table_map ps' b')"
proof (induction ts arbitrary: ps b n rid)
  case Nil
  then show ?case by (auto simp: added_def same_pins_def)
next
  case (Cons t ts)
  from Cons.prems(3) obtain bs where bs: "t = tuple_of new_RID bs" "0 < length bs" "length bs + 32 \<le> BUSTUB_PAGE_SIZE"
    by (auto simp: storable_def)
  have "next_page_id b \<le> max_page_id" using Cons.prems(2) by simp
  from TableHeap_InsertTuple_correct[OF Cons.prems(1) this bs(2,3), of new_RID] obtain rid1 b1 ps1 where
    i: "TableHeap_InsertTuple t first b = Some (Inr (Some rid1, b1))" "table_ok first ps1 b1" "same_pins b1 b"
      "table_map ps1 b1 = (table_map ps b)(rid1 \<mapsto> Live bs)" "table_map ps b rid1 \<in> {None, Some Empty}"
      "next_page_id b1 \<le> next_page_id b + 1" by (auto simp: bs(1))
  have count: "count_up n = Inr (n + 1)" using Cons.prems(4,5) by (simp add: count_up_def in_int32_def)
  have "next_page_id b1 + int (length ts) \<le> max_page_id + 1" "list_all storable ts" "0 \<le> n + 1" "n + 1 + int (length ts) < 2 ^ 31"
    using Cons.prems(2-5) i(6) by simp_all
  from Cons.IH[OF i(2) this, of rid1] obtain rid' b' ps' rids where
    r: "run_body (insert_of X oid) erid ts (n + 1, rid1) b1 = Some (Inr ((n + 1 + int (length ts), rid'), b'))"
      "table_ok first ps' b'" "same_pins b' b1" "added (table_map ps1 b1) (map (\<lambda>t. the (tdata t)) ts) rids (table_map ps' b')" by blast
  have "insert_of X oid t erid (n, rid) b = Some (Inr ((n + 1, rid1), b1))"
    using tb i(1) count by (simp add: insert_of_def insert_body_def)
  then have "run_body (insert_of X oid) erid (t # ts) (n, rid) b = Some (Inr ((n + int (length (t # ts)), rid'), b'))"
    using r(1) by (simp add: algebra_simps)
  moreover have "added (table_map ps b) (map (\<lambda>t. the (tdata t)) (t # ts)) (rid1 # rids) (table_map ps' b')"
    using added_Cons[of "table_map ps b" rid1 bs] i(5) r(4) i(4) bs(1) by (simp add: tuple_of_def)
  ultimately show ?case using r(2,3) i(3) by (auto simp: same_pins_def)
qed

text \<open>The row with the count that a modification returns.\<close>

definition count_column :: "string \<Rightarrow> Column" where
  "count_column name = \<lparr>column_name = name, column_type = INTEGER, fixed_length = 4, variable_length = 0, column_offset = 0\<rparr>"

lemma count_row:
  assumes "0 \<le> n" "n < 2 ^ 31"
  shows "\<exists>t. count_tuple F (new_Schema [count_column name]) n = Inr t \<and> reads_as F (new_Schema [count_column name]) t [int_value INTEGER n]"
proof -
  let ?s = "new_Schema [count_column name]"
  have s: "columns ?s = [count_column name]" "schema_ok ?s"
    by (simp_all add: new_Schema_eq count_column_def schema_ok_def)
  have v: "Value_int32 INTEGER n = Inr (int_value INTEGER n)"
    using assms swrap_id[of 32 n] by (simp add: store_int_def int_value_def int_null_def in_range_def)
  have "row_ok F [count_column name] [int_value INTEGER n]"
    using assms by (simp add: row_ok_def cell_ok_def wf_Value_def int_value_def count_column_def TypeSize_def in_range_def int_null_def extra_def
        Column_IsInlined_def)
  then have "fit F ?s [int_value INTEGER n] = Inr [int_value INTEGER n]" using s by (simp add: fit_def)
  from fit_tuple[OF this] show ?thesis by (auto simp: count_tuple_def v simp del: Value_int32.simps)
qed

lemma modify_rows:
  assumes run: "poll body cnx s1 new_RID (0, new_RID) b = Some (Inr ((n, rid'), s2, b'))" and t: "count_tuple (ctx_floats X) out n = Inr t"
  shows "poll (pure_body push_back) (ModifyExecutor_Next X out body cnx) (ModifyState False s1) new_RID [] b =
    Some (Inr ([t], ModifyState True s2, b'))"
proof -
  have e: "poll (pure_body push_back) (ModifyExecutor_Next X out body cnx) (ModifyState True s2) rid' [t] b' =
      Some (Inr ([t], ModifyState True s2, b'))" by (subst poll.simps) simp
  show ?thesis by (subst poll.simps) (simp add: run t pure_body_def push_back_def e)
qed

lemma insert_values:
  assumes tb: "table_of X oid = Inr (schema, first)" and ok: "table_ok first ps b"
    and vals: "rows X db (ValuesPlan vout es) = Inr rs" and n: "next_page_id b + int (length rs) \<le> max_page_id + 1" "length rs < 2 ^ 31"
    and small: "list_all (row_fits_page vout) rs" and out: "out = new_Schema [count_column name]"
  shows "\<exists>t b' ps' bss rids. Execute X (InsertPlan out (ValuesPlan vout es) oid) b = Some (Inr (True, [t], Some b')) \<and>
    reads_as (ctx_floats X) out t [int_value INTEGER (int (length rs))] \<and> table_ok first ps' b' \<and> same_pins b' b \<and>
    added (table_map ps b) bss rids (table_map ps' b') \<and>
    list_all2 (\<lambda>bs. reads_as (ctx_floats X) vout (tuple_of new_RID bs)) bss rs"
proof -
  let ?F = "ctx_floats X"
  have rows: "list_all2 (\<lambda>e r. values_row X vout e = Inr r) (drop 0 es) rs"
    using vals by (simp add: values_row_def map_r_Inr_iff list_all2_conv_all_nth)
  from poll_values[OF _ rows, of "insert_of X oid" new_RID] obtain ts where
    ts: "list_all2 (made_tuple ?F vout) ts rs" "\<forall>acc b. poll (insert_of X oid) (ValuesExecutor_Next X vout es) (ValuesState 0) new_RID acc b =
      bind_ro (run_body (insert_of X oid) new_RID ts acc b) (\<lambda>(acc, b). Some (Inr (acc, ValuesState (length es), b)))" by auto
  have len: "length ts = length rs" using ts(1) by (rule list_all2_lengthD)
  have st: "list_all storable ts"
    using ts(1) small by (induction rule: list_all2_induct) (auto intro: fit_storable)
  from insert_run[OF tb ok _ st, of 0 new_RID new_RID] n len obtain rid' b' ps' rids where
    r: "run_body (insert_of X oid) new_RID ts (0, new_RID) b = Some (Inr ((int (length rs), rid'), b'))"
      "table_ok first ps' b'" "same_pins b' b" "added (table_map ps b) (map (\<lambda>t. the (tdata t)) ts) rids (table_map ps' b')" by auto
  from count_row[of "int (length rs)" ?F name] n(2) out obtain t where
    t: "count_tuple ?F out (int (length rs)) = Inr t" "reads_as ?F out t [int_value INTEGER (int (length rs))]" by auto
  have "poll (insert_of X oid) (ValuesExecutor_Next X vout es) (ValuesState 0) new_RID (0, new_RID) b =
      Some (Inr ((int (length rs), rid'), ValuesState (length es), b'))" by (simp add: ts(2) r(1))
  from modify_rows[OF this t(1)] tb have "Execute X (InsertPlan out (ValuesPlan vout es) oid) b = Some (Inr (True, [t], Some b'))"
    by (simp add: Execute_def)
  moreover have "list_all2 (\<lambda>bs. reads_as ?F vout (tuple_of new_RID bs)) (map (\<lambda>t. the (tdata t)) ts) rs"
    using ts(1) st
  proof (induction rule: list_all2_induct)
    case (Cons t ts r rs)
    have "tdata t = tdata (tuple_of new_RID (the (tdata t)))" using Cons.prems by (auto simp: storable_def tuple_of_def)
    then have "reads_as ?F vout (tuple_of new_RID (the (tdata t))) r" using made_reads[OF Cons.hyps(1)] reads_as_data by metis
    then show ?case using Cons by simp
  qed simp
  ultimately show ?thesis using r(2-4) t(2) by blast
qed

end
