(* ===== verification/Delete_Laws.thy ===== *)
theory Delete_Laws
  imports Query_Laws
begin

text \<open>
  DELETE scans the table that it changes. The iterator has already moved on when a tuple is
  marked, so marking does not disturb the scan: exactly the rows that pass the predicate are marked.
\<close>

section \<open>Marking a slot behind the iterator\<close>

definition dead_at :: "(int \<Rightarrow> byte list) \<Rightarrow> (int \<Rightarrow> byte list) \<Rightarrow> int list \<Rightarrow> RID \<Rightarrow> byte list \<Rightarrow> bool" where
  "dead_at c c' ps q bs \<longleftrightarrow>
     (\<forall>p\<in>set ps. slots (c' p) = (if p = rid_page q then (slots (c p))[rid_slot q := Dead bs] else slots (c p)))"

definition live_at :: "(int \<Rightarrow> byte list) \<Rightarrow> RID \<Rightarrow> bool" where
  "live_at c q \<longleftrightarrow> rid_slot q < length (slots (c (rid_page q))) \<and> is_live (slots (c (rid_page q)) ! rid_slot q)"

lemma map_dead_at:
  assumes m: "heap_map c' ps = (heap_map c ps)(q \<mapsto> Dead bs)" and q: "heap_map c ps q = Some s"
  shows "dead_at c c' ps q bs"
  unfolding dead_at_def
proof
  fix p
  assume p: "p \<in> set ps"
  have at: "heap_map c' ps \<lparr>rid_page = p, rid_slot = i\<rparr> =
      (if \<lparr>rid_page = p, rid_slot = i\<rparr> = q then Some (Dead bs) else heap_map c ps \<lparr>rid_page = p, rid_slot = i\<rparr>)" for i
    using m by simp
  have dom: "i < length (slots (c' p)) \<longleftrightarrow> i < length (slots (c p))" for i
    using at[of i] q p by (auto simp: heap_map_def split: if_splits)
  have len: "length (slots (c' p)) = length (slots (c p))"
    using dom[of "length (slots (c' p))"] dom[of "length (slots (c p))"] by simp
  have "slots (c' p) ! i = (if \<lparr>rid_page = p, rid_slot = i\<rparr> = q then Dead bs else slots (c p) ! i)" if "i < length (slots (c p))" for i
    using at[of i] p that len by (auto simp: heap_map_def split: if_splits)
  then show "slots (c' p) = (if p = rid_page q then (slots (c p))[rid_slot q := Dead bs] else slots (c p))"
    using len by (cases q) (auto intro!: nth_equalityI simp: nth_list_update)
qed

lemma mem_page_rids: "r \<in> set (page_rids c p k) \<longleftrightarrow> rid_page r = p \<and> k \<le> rid_slot r \<and> live_at c r"
  by (cases r) (auto simp: page_rids_def live_at_def)

lemma mem_live_rids: "r \<in> set (live_rids c ps) \<longleftrightarrow> rid_page r \<in> set ps \<and> live_at c r"
  by (auto simp: live_rids_def mem_page_rids)

lemma distinct_live_rids: "distinct ps \<Longrightarrow> distinct (live_rids c ps)"
proof (induction ps)
  case (Cons p ps)
  have "distinct (page_rids c p 0)" by (auto simp: page_rids_def distinct_map inj_on_def)
  then show ?case using Cons by (auto simp: live_rids_def mem_page_rids)
qed (simp add: live_rids_def)

lemma at_rids_suffix:
  assumes "at_rids c ps rids rid"
  shows "\<exists>pre. live_rids c ps = pre @ rids"
proof (cases rids)
  case (Cons r rs)
  with assms obtain xs p ys where r: "ps = xs @ p # ys" "rid_page r = p" "rid_slot r < length (slots (c p))"
    "is_live (slots (c p) ! rid_slot r)" "rs = page_rids c p (Suc (rid_slot r)) @ live_rids c ys" by (auto simp: at_rids_def)
  have "[0..<length (slots (c p))] = [0..<rid_slot r] @ rid_slot r # [Suc (rid_slot r)..<length (slots (c p))]"
    using r(3) by (metis append.assoc le_add_diff_inverse less_imp_le_nat upt_add_eq_append upt_conv_Cons zero_le)
  then have "\<exists>a. page_rids c p 0 = a @ r # page_rids c p (Suc (rid_slot r))"
    using r(2,4) by (cases r) (simp add: page_rids_def)
  then show ?thesis using r(1,5) Cons by (auto simp: live_rids_def)
qed simp

lemma rids_of_dead:
  assumes d: "dead_at c c' ps q bs" and l: "live_at c q"
  shows "\<lbrakk> p \<in> set ps; q \<notin> set (page_rids c p k) \<rbrakk> \<Longrightarrow> page_rids c' p k = page_rids c p k"
    and "\<lbrakk> set ys \<subseteq> set ps; q \<notin> set (live_rids c ys) \<rbrakk> \<Longrightarrow> live_rids c' ys = live_rids c ys"
proof -
  show page: "page_rids c' p k = page_rids c p k" if "p \<in> set ps" "q \<notin> set (page_rids c p k)" for p k
  proof (cases "p = rid_page q")
    case True
    then have "rid_slot q < k" using that(2) l by (auto simp: mem_page_rids)
    then have "is_live ((slots (c p))[rid_slot q := Dead bs] ! i) = is_live (slots (c p) ! i)" if "i \<in> set [k..<n]" for i n
      using that by (subst nth_list_update_neq) auto
    then have "filter (\<lambda>i. is_live ((slots (c p))[rid_slot q := Dead bs] ! i)) [k..<n] = filter (\<lambda>i. is_live (slots (c p) ! i)) [k..<n]" for n
      by (intro filter_cong) auto
    then show ?thesis using d that(1) True by (simp add: dead_at_def page_rids_def)
  next
    case False
    then show ?thesis using d that(1) by (simp add: dead_at_def page_rids_def)
  qed
  show "\<lbrakk> set ys \<subseteq> set ps; q \<notin> set (live_rids c ys) \<rbrakk> \<Longrightarrow> live_rids c' ys = live_rids c ys"
    by (induction ys) (auto simp: live_rids_def page)
qed

lemma at_rids_dead:
  assumes d: "dead_at c c' ps q bs" and l: "live_at c q" and at: "at_rids c ps rids rid" and q: "q \<notin> set rids"
  shows "at_rids c' ps rids rid"
proof (cases rids)
  case (Cons r rs)
  with at obtain xs p ys where r: "rid = r" "ps = xs @ p # ys" "rid_page r = p" "rid_slot r < length (slots (c p))"
    "is_live (slots (c p) ! rid_slot r)" "rs = page_rids c p (Suc (rid_slot r)) @ live_rids c ys" by (auto simp: at_rids_def)
  have "r \<noteq> q" using q Cons by auto
  then have "rid_slot q \<noteq> rid_slot r" if "rid_page r = rid_page q" using that by (cases r; cases q) auto
  then have "slots (c' p) ! rid_slot r = slots (c p) ! rid_slot r" "length (slots (c' p)) = length (slots (c p))"
    using d r(2,3) by (auto simp: dead_at_def nth_list_update_neq)
  moreover have "page_rids c' p (Suc (rid_slot r)) = page_rids c p (Suc (rid_slot r))" "live_rids c' ys = live_rids c ys"
    using rids_of_dead[OF d l] q Cons r(2,6) by auto
  ultimately show ?thesis using r Cons unfolding at_rids_def by (simp, intro exI[of _ xs] exI[of _ ys]) simp
qed (use at in \<open>simp add: at_rids_def\<close>)

lemma rid_tuple_dead:
  assumes "dead_at c c' ps q bs" "rid_page r \<in> set ps" "r \<noteq> q"
  shows "rid_tuple c' r = rid_tuple c r"
  using assms by (cases r; cases q) (auto simp: dead_at_def rid_tuple_def nth_list_update)

section \<open>The loop of DELETE\<close>

definition mark_rows ::
  "(int \<Rightarrow> byte list) \<Rightarrow> (Tuple \<Rightarrow> bool result) option \<Rightarrow> RID list \<Rightarrow> (RID \<Rightarrow> slot option) \<Rightarrow> RID \<Rightarrow> slot option" where
  "mark_rows c Q rids m r =
     (if r \<in> set rids \<and> passes Q (rid_tuple c r) then Some (Dead (live_bytes (slots (c (rid_page r)) ! rid_slot r))) else m r)"

lemma selected_head:
  assumes sel: "selected c Q rids = t # ts" and split: "rids = pre @ rest" and rest: "selected c Q rest = ts" and d: "distinct rids"
  shows "\<exists>q. q \<in> set rids \<and> q \<notin> set rest \<and> t = rid_tuple c q \<and>
    (\<forall>r\<in>set rids. passes Q (rid_tuple c r) \<longrightarrow> r = q \<or> r \<in> set rest)"
proof -
  have app: "selected c Q rids = selected c Q pre @ selected c Q rest" by (simp add: split selected_def)
  with sel rest have one: "selected c Q pre = [t]" by simp
  then obtain q where q: "filter (\<lambda>r. passes Q (rid_tuple c r)) pre = [q]" "t = rid_tuple c q"
    by (auto simp: selected_def filter_map o_def map_eq_Cons_conv)
  note q(2)
  moreover have "q \<in> set pre" using arg_cong[OF q(1), of set] by auto
  moreover have "r = q" if "r \<in> set pre" "passes Q (rid_tuple c r)" for r
    using that arg_cong[OF q(1), of set] by auto
  ultimately show ?thesis using d split by (intro exI[of _ q]) auto
qed

lemma delete_run:
  assumes tb: "table_of X oid = Inr (schema, first)" and Q: "Q = SeqScanExecutor_pred X schema pred"
  shows "\<lbrakk> table_ok first ps b; pool_view {} (content b) (pins b) (next_page_id b) (pool_size b) b0; at_rids (content b) ps rids (trid it); rids \<noteq> [] \<longrightarrow> it = rid_tuple (content b) (hd rids);
      evaluates_on (map (rid_tuple (content b)) rids) Q; 0 \<le> m; m + int (length (selected (content b) Q rids)) < 2 ^ 31 \<rbrakk> \<Longrightarrow>
    \<exists>s' b'. poll delete_body (SeqScanExecutor_Next X oid pred) (SeqScanState it) erid (m, rid0) b0 =
        Some (Inr ((m + int (length (selected (content b) Q rids)), rid0), s', b')) \<and>
      table_ok first ps b' \<and> same_pins b' b \<and> table_map ps b' = mark_rows (content b) Q rids (table_map ps b)"
proof (induction "length (selected (content b) Q rids)" arbitrary: rids it erid m b b0)
  case 0
  then have e: "selected (content b) Q rids = []" by simp
  have h: "heap_view (content b) (next_page_id b) first ps" and s: "spare (pins b) (pool_size b)"
    using 0(2) by (simp_all add: table_ok_def)
  from SeqScan_Next_correct[OF s h 0(3-6)] obtain it' b' where
    n: "SeqScan_Next Q it b0 = Some (Inr (None, it', b'))" "pool_view {} (content b) (pins b) (next_page_id b) (pool_size b) b'"
    unfolding e by auto
  have "poll delete_body (SeqScanExecutor_Next X oid pred) (SeqScanState it) erid (m, rid0) b0 = Some (Inr ((m, rid0), SeqScanState it', b'))"
    using n(1) tb by (subst poll.simps) (simp flip: Q)
  moreover have "mark_rows (content b) Q rids (table_map ps b) = table_map ps b"
    using e by (auto simp: mark_rows_def selected_def filter_empty_conv fun_eq_iff)
  ultimately show ?case using table_from_view[OF n(2) h s] e by (auto simp: table_map_def)
next
  case (Suc k)
  then obtain t ts where e: "selected (content b) Q rids = t # ts" by (cases "selected (content b) Q rids") simp_all
  have h: "heap_view (content b) (next_page_id b) first ps" and s: "spare (pins b) (pool_size b)"
    using Suc.prems(1) by (simp_all add: table_ok_def)
  from SeqScan_Next_correct[OF s h Suc.prems(2-5)] obtain it' b1 rest pre where
    b1: "SeqScan_Next Q it b0 = Some (Inr (Some t, it', b1))" "pool_view {} (content b) (pins b) (next_page_id b) (pool_size b) b1"
      "rids = pre @ rest" "at_rids (content b) ps rest (trid it')" "rest \<noteq> [] \<longrightarrow> it' = rid_tuple (content b) (hd rest)"
      "selected (content b) Q rest = ts" unfolding e by auto
  from at_rids_suffix[OF Suc.prems(3)] obtain pre0 where sf: "live_rids (content b) ps = pre0 @ rids" by blast
  have "distinct ps" using h by (simp add: heap_view_def)
  from distinct_live_rids[OF this, of "content b"] sf have dist: "distinct rids" by simp
  from selected_head[OF e b1(3,6) dist] obtain q where q: "q \<in> set rids" "q \<notin> set rest" "t = rid_tuple (content b) q"
    "\<forall>r\<in>set rids. passes Q (rid_tuple (content b) r) \<longrightarrow> r = q \<or> r \<in> set rest" by blast
  have mem: "rid_page r \<in> set ps \<and> live_at (content b) r" if "r \<in> set rids" for r
    using that sf mem_live_rids[of r "content b" ps] by auto
  define bs where "bs = live_bytes (slots (content b (rid_page q)) ! rid_slot q)"
  have live: "rid_page q \<in> set ps" "live_at (content b) q" using mem[OF q(1)] by simp_all
  then have lq: "slots (content b (rid_page q)) ! rid_slot q = Live bs"
    by (cases "slots (content b (rid_page q)) ! rid_slot q") (simp_all add: live_at_def is_live_def bs_def)
  from table_from_view[OF b1(2) h s] have t1: "table_ok first ps b1" "table_map ps b1 = table_map ps b" "same_pins b1 b"
    by (simp_all add: table_map_def)
  have mq: "table_map ps b1 q = Some (Live bs)"
    using t1(2) live lq by (simp add: table_map_def heap_map_def live_at_def)
  from TableHeap_MarkDelete_correct[OF t1(1) mq] obtain b2 where
    b2: "TableHeap_MarkDelete q b1 = Inr (True, b2)" "table_ok first ps b2" "same_pins b2 b1"
      "table_map ps b2 = (table_map ps b)(q \<mapsto> Dead bs)" using t1(2) by auto
  have dead: "dead_at (content b) (content b2) ps q bs"
    using map_dead_at[of "content b2" ps "content b" q bs "Live bs"] b2(4) mq t1(2) by (simp add: table_map_def)
  have same: "rid_tuple (content b2) r = rid_tuple (content b) r" if "r \<in> set rest" for r
    using rid_tuple_dead[OF dead, of r] mem[of r] that q(2) b1(3) by auto
  then have map_same: "map (rid_tuple (content b2)) rest = map (rid_tuple (content b)) rest" by simp
  have sel2: "selected (content b2) Q rest = ts" using b1(6) unfolding selected_def map_same .
  have tq: "trid t = q" by (simp add: q(3) rid_tuple_def tuple_of_def)
  have one: "k = length (selected (content b2) Q rest)" using Suc.hyps(2) e sel2 by simp
  have at2: "at_rids (content b2) ps rest (trid it')" by (rule at_rids_dead[OF dead live(2) b1(4) q(2)])
  have it2: "rest \<noteq> [] \<longrightarrow> it' = rid_tuple (content b2) (hd rest)" using b1(5) same by simp
  have ev2: "evaluates_on (map (rid_tuple (content b2)) rest) Q"
    using Suc.prems(5) b1(3) unfolding map_same by (auto simp: evaluates_on_def split: option.splits)
  have m2: "0 \<le> m + 1" "m + 1 + int (length (selected (content b2) Q rest)) < 2 ^ 31"
    using Suc.prems(6,7) e sel2 by simp_all
  from Suc.hyps(1)[OF one b2(2) table_view[OF b2(2)] at2 it2 ev2 m2, of q] obtain s' b' where
    run: "poll delete_body (SeqScanExecutor_Next X oid pred) (SeqScanState it') q (m + 1, rid0) b2 =
        Some (Inr ((m + 1 + int (length ts), rid0), s', b'))" "table_ok first ps b'" "same_pins b' b2"
      "table_map ps b' = mark_rows (content b2) Q rest (table_map ps b2)" unfolding sel2 by blast
  have "delete_body t q (m, rid0) b1 = Some (Inr ((m + 1, rid0), b2))"
    using b2(1) Suc.prems(6,7) e by (simp add: delete_body_def count_up_def in_int32_def)
  then have "poll delete_body (SeqScanExecutor_Next X oid pred) (SeqScanState it) erid (m, rid0) b0 =
      Some (Inr ((m + int (length (selected (content b) Q rids)), rid0), s', b'))"
    using b1(1) tb run(1) e tq by (subst poll.simps) (simp add: algebra_simps flip: Q)
  moreover have "table_map ps b' = mark_rows (content b) Q rids (table_map ps b)"
  proof
    fix r
    have "slots (content b2 (rid_page r)) ! rid_slot r = slots (content b (rid_page r)) ! rid_slot r" if "r \<in> set rest"
    proof -
      have "r \<noteq> q" using that q(2) by blast
      then have "rid_page r = rid_page q \<longrightarrow> rid_slot q \<noteq> rid_slot r" by (cases r; cases q) auto
      then show ?thesis using dead mem[of r] that b1(3) by (auto simp: dead_at_def nth_list_update_neq)
    qed
    moreover have "passes Q (rid_tuple (content b) q)"
      using arg_cong[OF e, of set] by (auto simp: selected_def q(3))
    ultimately show "table_map ps b' r = mark_rows (content b) Q rids (table_map ps b) r"
      using run(4) b2(4) same[of r] q(1,2,4) b1(3) by (auto simp: mark_rows_def bs_def)
  qed
  ultimately show ?case using run(2,3) b2(3) t1(3) by (auto simp: same_pins_def)
qed

text \<open>The whole statement, over the slots of the table.\<close>

definition mark_passing :: "(Tuple \<Rightarrow> bool result) option \<Rightarrow> (RID \<Rightarrow> slot option) \<Rightarrow> RID \<Rightarrow> slot option" where
  "mark_passing Q m r = (case m r of Some (Live bs) \<Rightarrow> Some (if passes Q (tuple_of r bs) then Dead bs else Live bs) | s \<Rightarrow> s)"

lemma mark_all_rows: "mark_rows (content b) Q (live_rids (content b) ps) (table_map ps b) = mark_passing Q (table_map ps b)"
proof
  fix r :: RID
  let ?s = "slots (content b (rid_page r)) ! rid_slot r"
  have mem: "r \<in> set (live_rids (content b) ps) \<longleftrightarrow> (\<exists>bs. table_map ps b r = Some (Live bs))"
    by (cases ?s) (simp_all add: mem_live_rids live_at_def is_live_def table_map_def heap_map_def)
  show "mark_rows (content b) Q (live_rids (content b) ps) (table_map ps b) r = mark_passing Q (table_map ps b) r"
  proof (cases "\<exists>bs. table_map ps b r = Some (Live bs)")
    case True
    then obtain bs where bs: "table_map ps b r = Some (Live bs)" by blast
    then have "?s = Live bs" by (auto simp: table_map_def heap_map_def split: if_splits)
    then show ?thesis using mem bs by (simp add: mark_rows_def mark_passing_def rid_tuple_def)
  next
    case False
    then show ?thesis using mem by (simp add: mark_rows_def mark_passing_def split: option.split slot.split)
  qed
qed

lemma delete_scan:
  assumes tb: "table_of X oid = Inr (schema, first)" and ok: "table_ok first ps b"
    and reads: "list_all2 (reads_as (ctx_floats X) schema) (table_rows ps b) rs"
    and f: "filter_r (scan_pred X pred) rs = Inr rws" and len: "length rws < 2 ^ 31" and out: "out = new_Schema [count_column name]"
  shows "\<exists>t b'. Execute X (DeletePlan out (SeqScanPlan sout oid tname pred) oid) b = Some (Inr (True, [t], Some b')) \<and>
    reads_as (ctx_floats X) out t [int_value INTEGER (int (length rws))] \<and> table_ok first ps b' \<and> same_pins b' b \<and>
    table_map ps b' = mark_passing (SeqScanExecutor_pred X schema pred) (table_map ps b)"
proof -
  let ?Q = "SeqScanExecutor_pred X schema pred" and ?c = "content b"
  have h: "heap_view ?c (next_page_id b) first ps" and s: "spare (pins b) (pool_size b)" using ok by (simp_all add: table_ok_def)
  from begin_scan[OF s table_view[OF ok] h] obtain it b1 where
    it: "TableHeap_Begin first b = Some (Inr (it, b1))" "pool_view {} ?c (pins b) (next_page_id b) (pool_size b) b1"
      "at_rids ?c ps (live_rids ?c ps) (trid it)" "live_rids ?c ps \<noteq> [] \<longrightarrow> it = rid_tuple ?c (hd (live_rids ?c ps))" by blast
  note sel = selected_rows[OF reads[unfolded table_rows_def] f]
  have n: "length (selected ?c ?Q (live_rids ?c ps)) = length rws" using sel(2) by (rule list_all2_lengthD)
  from delete_run[OF tb refl ok it(2-4) sel(1), of 0 new_RID new_RID] n len obtain s' b' where
    run: "poll delete_body (SeqScanExecutor_Next X oid pred) (SeqScanState it) new_RID (0, new_RID) b1 =
      Some (Inr ((int (length rws), new_RID), s', b'))" "table_ok first ps b'" "same_pins b' b"
      "table_map ps b' = mark_passing ?Q (table_map ps b)" by (auto simp: mark_all_rows)
  from count_row[of "int (length rws)" "ctx_floats X" name] len out obtain t where
    t: "count_tuple (ctx_floats X) out (int (length rws)) = Inr t"
      "reads_as (ctx_floats X) out t [int_value INTEGER (int (length rws))]" by auto
  have "Execute X (DeletePlan out (SeqScanPlan sout oid tname pred) oid) b = Some (Inr (True, [t], Some b'))"
    using modify_rows[OF run(1) t(1)] it(1) tb by (simp add: Execute_def SeqScanExecutor_Init_def)
  then show ?thesis using run(2-4) t(2) by blast
qed

end
