(* ===== verification/Query_Theorems.thy ===== *)
theory Query_Theorems
  imports Delete_Laws
begin

text \<open>The properties of queries, insertions and deletions, with a table of one row as example.\<close>

section \<open>The database behind a pool\<close>

definition view_of :: "bpm \<Rightarrow> view" where
  "view_of b = \<lparr>v_content = content b, v_pins = pins b, v_next = next_page_id b, v_size = pool_size b\<rparr>"

section \<open>An example\<close>

definition tiny_column :: "string \<Rightarrow> Column" where
  "tiny_column name = \<lparr>column_name = name, column_type = TINYINT, fixed_length = 1, variable_length = 0, column_offset = 0\<rparr>"

definition pair_schema :: Schema where
  "pair_schema = new_Schema [tiny_column ''a'', tiny_column ''b'']"

definition pair_ctx :: "int exec_ctx" where
  "pair_ctx = \<lparr>ctx_overflow = Wrap, ctx_floats = whole_floats, ctx_regex = (\<lambda>_ _. Inr False),
     ctx_catalog = new_Catalog\<lparr>tables := [0 \<mapsto> \<lparr>ti_schema = pair_schema, ti_name = ''t'', ti_table = Some 0, ti_oid = 0\<rparr>],
       table_names := [''t'' \<mapsto> 0], next_table_oid := 1\<rparr>, ctx_order = (\<lambda>groups. groups)\<rparr>"

abbreviation tiny :: "int \<Rightarrow> int Value" where
  "tiny \<equiv> int_value TINYINT"

definition pair_scan :: "int plan" where
  "pair_scan = SeqScanPlan pair_schema 0 ''t'' None"

definition numbers :: "int list \<Rightarrow> int plan" where
  "numbers xs = ValuesPlan (new_Schema [tiny_column ''n'']) (map (\<lambda>x. [Constant (tiny x)]) xs)"

definition pair_join :: "int plan" where
  "pair_join = NestedLoopJoinPlan (new_Schema [tiny_column ''a'', tiny_column ''b'', tiny_column ''n'']) pair_scan (numbers [7, 9])
     (Comparison (ColumnValue 0 0 TINYINT) (ColumnValue 1 0 TINYINT) Equal) INNER"


lemma columns_tiny:
  "columns (new_Schema [tiny_column ''n'']) = [tiny_column ''n'']"
  "columns pair_schema = [tiny_column ''a'', (tiny_column ''b'')\<lparr>column_offset := 1\<rparr>]"
  by (simp_all add: new_Schema_eq tiny_column_def pair_schema_def)

lemma place_again: "place a (place b cs) = place a cs"
  by (induction cs arbitrary: a b) simp_all

lemma numbers_schema: "OutputSchema (numbers xs) = new_Schema [tiny_column ''n'']"
  by (simp add: numbers_def)

lemma schema_ok_new: "fixed_size cols < 2 ^ 32 \<Longrightarrow> schema_ok (new_Schema cols)"
proof -
  assume s: "fixed_size cols < 2 ^ 32"
  have u: "uninlined_from i (place a cols) = uninlined_from i cols" for i a
    by (induction cols arbitrary: i a) (simp_all add: Column_IsInlined_def)
  have f: "fixed_size (place a cols) = fixed_size cols" for a by (induction cols arbitrary: a) simp_all
  have l: "list_all Column_IsInlined (place a cols) = list_all Column_IsInlined cols" for a
    by (induction cols arbitrary: a) (simp_all add: Column_IsInlined_def)
  show ?thesis
    unfolding schema_ok_def using s by (simp add: new_Schema_def schema_loop_eq f u l place_again)
qed

lemma tiny_row:
  assumes "list_all (\<lambda>i. - 128 < i \<and> i < 128) xs" "length xs = length names"
  shows "list_all2 (cell_ok whole_floats) (place a (map tiny_column names)) (map tiny xs)"
    and "fixed_size (place a (map tiny_column names)) = length names" and "extra_size (place a (map tiny_column names)) (map tiny xs) = 0"
  using assms(2,1)
  by (induction xs names arbitrary: a rule: list_induct2)
    (simp_all add: tiny_column_def cell_ok_def wf_Value_def int_value_def TypeSize_def in_range_def int_null_def extra_def Column_IsInlined_def)

lemma fit_tiny:
  assumes "list_all (\<lambda>i. - 128 < i \<and> i < 128) xs" "length xs = length names" "length names < 100"
  shows "fit whole_floats (new_Schema (map tiny_column names)) (map tiny xs) = Inr (map tiny xs)"
proof -
  have f: "fixed_size (map tiny_column names) = length names" by (induction names) (simp_all add: tiny_column_def)
  then have "fixed_size (map tiny_column names) < 2 ^ 32" using assms(3) by simp
  then show ?thesis using tiny_row[OF assms(1,2)] assms(3) by (simp add: fit_def row_ok_def schema_ok_new new_Schema_eq)
qed

lemma tiny_compare:
  assumes "- 128 < i" "i < 128" "- 128 < j" "j < 128"
  shows "Value_compare whole_floats c (tiny i) (tiny j) = Inr (GetCmpBool (int_cmp c i j))"
proof -
  have "wf_Value whole_floats (tiny k)" "\<not> IsNull (tiny k)" if "- 128 < k" "k < 128" for k
    using that by (simp_all add: wf_Value_def int_value_def in_range_def int_null_def IsNull_def BUSTUB_VALUE_NULL_def)
  then show ?thesis
    using compare_wf_integers[of whole_floats "tiny i" "tiny j" c] assms by (simp add: int_value_def is_int_type_def)
qed

lemma tiny_less:
  assumes "- 128 < i" "i < 128" "- 128 < j" "j < 128"
  shows "Value_CompareLessThan whole_floats (tiny i) (tiny j) = Inr (GetCmpBool (i < j))"
    and "Value_CompareGreaterThan whole_floats (tiny i) (tiny j) = Inr (GetCmpBool (i > j))"
  using tiny_compare[OF assms, of OpLt] tiny_compare[OF assms, of OpGt] by simp_all

lemma tiny_equal:
  assumes "- 128 < i" "i < 128" "- 128 < j" "j < 128"
  shows "bind_r (comparison_value whole_floats Equal (tiny i) (tiny j)) holds = Inr (i = j)"
proof -
  have "Value_CompareEquals whole_floats (tiny i) (tiny j) = Inr (GetCmpBool (i = j))"
    using tiny_compare[OF assms, of OpEq] by simp
  then show ?thesis
    by (cases "i = j") (simp_all add: comparison_value_def PerformComparison_def GetCmpBool_def holds_def IsNull_def
        store_int_def int_null_def swrap_def get_bool_def BUSTUB_VALUE_NULL_def)
qed

lemma pair_scan_rows: "rows pair_ctx (\<lambda>_. [[tiny 7, tiny 8]]) pair_scan = Inr [[tiny 7, tiny 8]]"
  by (simp add: pair_scan_def table_of_def pair_ctx_def GetTable_oid_def new_Catalog_def same_layout_def)

lemma numbers_rows: "list_all (\<lambda>i. - 128 < i \<and> i < 128) xs \<Longrightarrow> rows pair_ctx db (numbers xs) = Inr (map (\<lambda>x. [tiny x]) xs)"
  using fit_tiny[of "[_]" "[''n'']"] by (induction xs) (simp_all add: numbers_def pair_ctx_def)

lemma pair_join_rows: "rows pair_ctx (\<lambda>_. [[tiny 7, tiny 8]]) pair_join = Inr [[tiny 7, tiny 8, tiny 7]]"
  using fit_tiny[of "[7, 8, 7]" "[''a'', ''b'', ''n'']"]
  by (simp add: pair_join_def pair_scan_rows numbers_rows join_supported_def loop_join_def row_column_def tiny_equal)
    (simp add: pair_ctx_def tiny_equal padded_def)

lemma pair_reads: "reads_as whole_floats pair_schema (tuple_of rid [7, 8]) [tiny 7, tiny 8]"
proof -
  have "read_column whole_floats [7, 8] (tiny_column ''a'') = Inr (tiny 7)"
    "read_column whole_floats [7, 8] (tiny_column ''b''\<lparr>column_offset := 1\<rparr>) = Inr (tiny 8)"
    by (simp_all add: read_column_def GetDataPtr_def tiny_column_def Column_IsInlined_def readable_def TypeSize_def
        Value_DeserializeFrom_def Tinyint_DeserializeFrom_def get_at_def get_int_def get_uint_def store_int_def int_value_def swrap_def int_null_def)
  then show ?thesis
    by (auto simp: reads_as_def GetColumnCount_def columns_tiny Tuple_GetValue_def tuple_of_def less_Suc_eq)
qed

lemma pair_table:
  obtains b rid ps where "table_ok 0 ps b" and "table_map ps b = [rid \<mapsto> Live [7, 8]]"
    and "table_holds pair_ctx (view_of b) 0 [[tiny 7, tiny 8]]" and "in_view (view_of b) b" and "next_page_id b \<le> 2"
    and "table_rows ps b = [tuple_of rid [7, 8]]"
proof -
  from demo_row obtain b rid ps where b: "table_reach 0 ps [rid \<mapsto> Live [7, 8]] b" "next_page_id b \<le> 2" "rid_page rid \<in> set ps" .
  have t: "table_ok 0 ps b" "table_map ps b = [rid \<mapsto> Live [7, 8]]" using table_reach_ok[OF b(1)] by simp_all
  have h: "heap_view (content b) (next_page_id b) 0 ps" using t(1) by (simp add: table_ok_def)
  have m: "table_map ps b r = (if r = rid then Some (Live [7, 8]) else None)" for r using t(2) by simp
  have slot: "slots (content b (rid_page rid)) ! rid_slot rid = Live [7, 8]"
    using m[of rid] by (auto simp: table_map_def heap_map_def split: if_splits)
  have "r \<in> set (live_rids (content b) ps) \<longleftrightarrow> r = rid" for r
    using m[of r] by (auto simp: mem_live_rids live_at_def is_live_def table_map_def heap_map_def split: if_splits)
  then have "set (live_rids (content b) ps) = {rid}" by blast
  moreover have "distinct (live_rids (content b) ps)" using h distinct_live_rids by (simp add: heap_view_def)
  ultimately have "length (live_rids (content b) ps) = 1" using distinct_card[of "live_rids (content b) ps"] by simp
  then obtain x where "live_rids (content b) ps = [x]" by (auto simp: length_Suc_conv)
  with \<open>set (live_rids (content b) ps) = {rid}\<close> have l: "live_rids (content b) ps = [rid]" by simp
  have r: "reads_as whole_floats pair_schema (tuple_of rid [7, 8]) [tiny 7, tiny 8]"
    by (rule pair_reads)
  have "table_holds pair_ctx (view_of b) 0 [[tiny 7, tiny 8]]"
    unfolding table_holds_def using h r
    by (intro exI[of _ pair_schema] exI[of _ 0] exI[of _ ps])
      (simp add: view_of_def table_of_def pair_ctx_def GetTable_oid_def new_Catalog_def l rid_tuple_def slot)
  moreover have "in_view (view_of b) b" using table_view[OF t(1)] t(1) by (simp add: in_view_def view_of_def table_ok_def)
  moreover have "table_rows ps b = [tuple_of rid [7, 8]]" by (simp add: table_rows_def l rid_tuple_def slot)
  ultimately show thesis using that t b(2) by blast
qed

section \<open>Properties\<close>




definition tiny_sort :: "int plan" where
  "tiny_sort = SortPlan (new_Schema [tiny_column ''n'']) (numbers [5, 3]) [(ASC, ColumnValue 0 0 TINYINT)]"

lemma tiny_sort_rows: "rows pair_ctx db tiny_sort = Inr [[tiny 3], [tiny 5]]"
  by (simp add: tiny_sort_def numbers_rows same_layout_def numbers_schema)
    (simp add: std_sort_def require_strict_weak_def strict_weak_def row_less_def row_column_def tiny_less pair_ctx_def to_bool_def
      GetCmpBool_def guard_r_def)






end
