(* ===== verification/Optimizer_Theorems.thy ===== *)
theory Optimizer_Theorems
  imports Optimizer_Rules Query_Theorems
begin

text \<open>The properties of the optimizer: what its rules keep, and a rule that does not.\<close>

section \<open>Hash joins\<close>

lemma filter_r_total: "\<forall>x\<in>set xs. p x = Inr (P x) \<Longrightarrow> filter_r p xs = Inr (filter P xs)"
  by (induction xs) simp_all

lemma map_r_cong_set: "(\<And>x. x \<in> set xs \<Longrightarrow> f x = g x) \<Longrightarrow> map_r f xs = map_r g xs"
  by (induction xs) simp_all

text \<open>A column that holds plain keys of one type.\<close>

definition key_column :: "'d float_ops \<Rightarrow> TypeId \<Rightarrow> nat \<Rightarrow> 'd Value list list \<Rightarrow> bool" where
  "key_column F T i rs \<longleftrightarrow> list_all (\<lambda>row. i < length row \<and> plain_key F (row ! i) \<and> vtype (row ! i) = T) rs"

lemma equal_keys:
  assumes "plain_key F v" "plain_key F w" "vtype v = vtype w"
  shows "bind_r (comparison_value F Equal v w) holds = Inr (v = w)"
    and "bind_r (Value_CompareEquals F w v) (\<lambda>c. Inr (c = CmpTrue)) = Inr (v = w)"
proof -
  from plain_equal[OF assms] obtain c where c: "Value_CompareEquals F v w = Inr c" "c = CmpTrue \<longleftrightarrow> v = w" by blast
  from plain_equal[OF assms(2,1)] assms(3) show "bind_r (Value_CompareEquals F w v) (\<lambda>c. Inr (c = CmpTrue)) = Inr (v = w)" by auto
  show "bind_r (comparison_value F Equal v w) holds = Inr (v = w)"
    using c by (cases c) (simp_all add: comparison_value_def PerformComparison_def holds_def IsNull_def
        store_int_def int_null_def swrap_def get_bool_def BUSTUB_VALUE_NULL_def)
qed

text \<open>On such columns the buckets of a hash join hold all equal rows, so it finds what the loop finds.\<close>

lemma bucket_filter:
  assumes "list_all2 (\<lambda>r h. H (K r) = Inr h) rs hs" "H k = Inr h"
  shows "filter (\<lambda>r. k = K r) (map snd (filter (\<lambda>(h', r). h' = h) (zip hs rs))) = filter (\<lambda>r. k = K r) rs"
  using assms by (induction rs hs rule: list_all2_induct) auto

lemma hash_join_loop_join:
  assumes F: "F = ctx_floats X" and l: "key_column F T i lrows" and r: "key_column F T j rrows"
    and j: "loop_join F (\<lambda>x y. bind_r (bind_r (row_column x i) (\<lambda>a. bind_r (row_column y j) (comparison_value F Equal a))) holds)
      rs out False lrows rrows = Inr zs"
  shows "hash_join F (\<lambda>x. bind_r (row_column x i) (HashValue F)) (\<lambda>y. bind_r (row_column y j) (HashValue F))
      (\<lambda>x y. bind_r (row_column x i) (\<lambda>a. bind_r (row_column y j) (\<lambda>b. bind_r (Value_CompareEquals F b a) (\<lambda>c. Inr (c = CmpTrue)))))
      rs out False lrows rrows = Inr zs"
proof -
  have R: "row_column y j = Inr (y ! j)" "plain_key F (y ! j)" "vtype (y ! j) = T" if "y \<in> set rrows" for y
    using r that by (simp_all add: key_column_def list_all_iff row_column_def)
  have L: "row_column x i = Inr (x ! i)" "plain_key F (x ! i)" "vtype (x ! i) = T" if "x \<in> set lrows" for x
    using l that by (simp_all add: key_column_def list_all_iff row_column_def)
  let ?h = "\<lambda>y. projr (HashValue F (y ! j))"
  have h: "HashValue F (y ! j) = Inr (?h y)" if "y \<in> set rrows" for y using plain_hash[OF R(2)[OF that]] by auto
  then have hs: "map_r (\<lambda>y. bind_r (row_column y j) (HashValue F)) rrows = Inr (map ?h rrows)"
    by (intro map_r_map) (simp add: R(1))
  have "list_all2 (\<lambda>y h. HashValue F (y ! j) = Inr h) rrows (map ?h rrows)"
    using h by (simp add: list_all2_conv_all_nth)
  note bucket = this[THEN bucket_filter[where K = "\<lambda>y. y ! j"]]
  have one: "bind_r (filter_r (\<lambda>y. bind_r (bind_r (row_column x i) (\<lambda>a. bind_r (row_column y j) (comparison_value F Equal a))) holds) rrows)
      (padded F rs out False x) =
    bind_r (bind_r (row_column x i) (HashValue F)) (\<lambda>h. let bucket = map snd (filter (\<lambda>(h', r). h' = h) (zip (map ?h rrows) rrows))
      in bind_r (filter_r (\<lambda>y. bind_r (row_column x i) (\<lambda>a. bind_r (row_column y j) (\<lambda>b. bind_r (Value_CompareEquals F b a) (\<lambda>c. Inr (c = CmpTrue))))) bucket)
        (padded F rs out (False \<and> bucket = []) x))" if x: "x \<in> set lrows" for x
  proof -
    obtain h where h: "HashValue F (x ! i) = Inr h" using plain_hash[OF L(2)[OF x]] by blast
    let ?b = "map snd (filter (\<lambda>(h', r). h' = h) (zip (map ?h rrows) rrows))"
    have sub: "set ?b \<subseteq> set rrows" by (auto dest: set_zip_rightD)
    have "filter_r (\<lambda>y. bind_r (bind_r (row_column x i) (\<lambda>a. bind_r (row_column y j) (comparison_value F Equal a))) holds) rrows =
        Inr (filter (\<lambda>y. x ! i = y ! j) rrows)"
      by (intro filter_r_total) (simp add: L(1)[OF x] R equal_keys(1)[OF L(2)[OF x] R(2)] L(3)[OF x])
    moreover have "filter_r (\<lambda>y. bind_r (row_column x i) (\<lambda>a. bind_r (row_column y j) (\<lambda>b. bind_r (Value_CompareEquals F b a) (\<lambda>c. Inr (c = CmpTrue))))) ?b =
        Inr (filter (\<lambda>y. x ! i = y ! j) ?b)"
      using sub by (intro filter_r_total ballI) (simp add: L(1)[OF x] R subset_iff equal_keys(2)[OF L(2)[OF x] R(2)] L(3)[OF x])
    ultimately show ?thesis using L(1)[OF x] h bucket[OF h] by (simp only: bind_r.simps Let_def simp_thms)
  qed
  have "map_r (\<lambda>x. bind_r (filter_r (\<lambda>y. bind_r (bind_r (row_column x i) (\<lambda>a. bind_r (row_column y j) (comparison_value F Equal a))) holds) rrows)
      (padded F rs out False x)) lrows =
    map_r (\<lambda>x. bind_r (bind_r (row_column x i) (HashValue F)) (\<lambda>h. let bucket = map snd (filter (\<lambda>(h', r). h' = h) (zip (map ?h rrows) rrows))
      in bind_r (filter_r (\<lambda>y. bind_r (row_column x i) (\<lambda>a. bind_r (row_column y j) (\<lambda>b. bind_r (Value_CompareEquals F b a) (\<lambda>c. Inr (c = CmpTrue))))) bucket)
        (padded F rs out (False \<and> bucket = []) x))) lrows"
    using one by (rule map_r_cong_set)
  then show ?thesis using j hs by (simp only: loop_join_def hash_join_def bind_r.simps) (auto split: if_splits)
qed

section \<open>Optimized plans\<close>

lemma run_optimized:
  assumes ok: "plan_ok X db p" and r: "rows X db p = Inr rs"
    and t: "\<forall>oid\<in>plan_tables p. table_holds X V oid (db oid)" and b: "in_view V b"
  shows "\<exists>p' ts b'. Optimize (ctx_floats X) (ctx_catalog X) True p = Inr p' \<and>
    Execute X p' b = Some (Inr (True, ts, Some b')) \<and> in_view V b' \<and>
    list_all2 (reads_as (ctx_floats X) (OutputSchema p)) ts rs"
proof -
  from sound_ruleD[OF starter_sound ok] obtain p' where p': "Optimize (ctx_floats X) (ctx_catalog X) True p = Inr p'"
    "refines X db p p'" by blast
  then have q: "rows X db p' = Inr rs" "plan_ok X db p'" "types (OutputSchema p') = types (OutputSchema p)"
    "\<forall>oid\<in>plan_tables p'. table_holds X V oid (db oid)" using r t by (auto simp: refines_def)
  have L: "layout (OutputSchema p') = layout (OutputSchema p)"
    using same_types(1)[OF q(3)] plan_ok_schema[OF q(2)] plan_ok_schema[OF ok] .
  from run_query[OF q(1,4) b] p'(1) show ?thesis using layout_reads_all[OF L] by metis
qed

section \<open>Properties\<close>


definition tiny_limit :: "int plan" where
  "tiny_limit = LimitPlan (new_Schema [tiny_column ''n'']) (ProjectionPlan (new_Schema [tiny_column ''n''])
     [ColumnValue 0 0 TINYINT] tiny_sort) 1"

lemma tiny_schema_made: "schema_made (new_Schema [tiny_column ''n''])"
  using schema_ok_new[of "[tiny_column ''n'']"]
  by (simp add: schema_made_def columns_tiny) (simp add: tiny_column_def TypeSize_def)




section \<open>A rule that changes the result\<close>

text \<open>
  \<open>OptimizeRemoveJoin\<close> replaces a join whose right side has no rows by its left side: an inner join
  with no rows becomes the rows of its left side, which also lack the columns of the right side.
\<close>

lemma map_r_nil: "map_r (\<lambda>l. Inr []) ls = Inr (map (\<lambda>l. []) ls)" "concat (map (\<lambda>l. []) ls) = []"
  by (induction ls) simp_all

lemma join_nothing: "loop_join F m rs out False ls [] = Inr []"
  by (simp add: loop_join_def padded_def map_r_nil)

lemma remove_join_keeps_left:
  assumes "rows X db left = Inr ls"
  shows "rows X db (NestedLoopJoinPlan s left (ValuesPlan vs []) pred INNER) = Inr []"
    and "RemoveJoin (NestedLoopJoinPlan s left (ValuesPlan vs []) pred INNER) = Inr left"
  using assms by (simp_all add: join_supported_def join_nothing)

lemma remove_join_example:
  "rows pair_ctx db (NestedLoopJoinPlan s (numbers [7]) (ValuesPlan vs []) pred INNER) = Inr []"
  "bind_r (OptimizeRemoveJoin (NestedLoopJoinPlan s (numbers [7]) (ValuesPlan vs []) pred INNER)) (rows pair_ctx db) = Inr [[tiny 7]]"
proof -
  have n: "rows pair_ctx db (numbers [7]) = Inr [[tiny 7]]" by (simp add: numbers_rows)
  show "rows pair_ctx db (NestedLoopJoinPlan s (numbers [7]) (ValuesPlan vs []) pred INNER) = Inr []"
    by (rule remove_join_keeps_left(1)[OF n])
  have "OptimizeRemoveJoin (NestedLoopJoinPlan s (numbers [7]) (ValuesPlan vs []) pred INNER) = Inr (numbers [7])"
    by (simp add: OptimizeRemoveJoin_def numbers_def)
  then show "bind_r (OptimizeRemoveJoin (NestedLoopJoinPlan s (numbers [7]) (ValuesPlan vs []) pred INNER)) (rows pair_ctx db) = Inr [[tiny 7]]"
    by (simp add: n)
qed

end
