(* ===== verification/Planner_Laws.thy ===== *)
theory Planner_Laws
  imports Planner_Semantics Optimizer_Theorems
begin

text \<open>
  The planner implements the meaning of expressions and clauses: what a planned expression
  evaluates to, and the rows of the plan nodes built for each clause.
\<close>

section \<open>Headers\<close>

lemma header_length [simp]: "length (header_of s) = length (columns s)"
  by (simp add: header_of_def)

lemma header_nth [simp]:
  "i < length (columns s) \<Longrightarrow> header_of s ! i = (column_name (columns s ! i), column_type (columns s ! i))"
  by (simp add: header_of_def)

lemma TryGetColIdx_header: "TryGetColIdx n s = column_at n (header_of s)"
  unfolding TryGetColIdx_def column_at_def by (rule find_cong) auto

lemma column_at_Some: "column_at n h = Some i \<Longrightarrow> i < length h"
  by (auto simp: column_at_def find_Some_iff)

lemma schema_loop_header:
  "header_of (schema_loop i a cs s) = header_of s @ map (\<lambda>c. (column_name c, column_type c)) cs"
  by (induction i a cs s rule: schema_loop.induct) (simp_all add: header_of_def Let_def)

lemma header_new_Schema [simp]:
  "header_of (new_Schema cs) = map (\<lambda>c. (column_name c, column_type c)) cs"
  by (simp add: new_Schema_def schema_loop_header) (simp add: header_of_def)

lemma header_types: "map snd (header_of s) = types s"
  by (simp add: header_of_def)

lemma header_names: "map fst (header_of s) = map column_name (columns s)"
  by (simp add: header_of_def)

lemma header_count: "GetColumnCount s = length (header_of s)"
  by (simp add: GetColumnCount_def)

section \<open>Expressions\<close>

lemma planned_operator:
  assumes "PlanBinaryOp op l r = Inr e"
  shows "(op = ''='' \<or> op = ''=='') \<and> e = Comparison l r Equal \<or> (op = ''!='' \<or> op = ''<>'') \<and> e = Comparison l r NotEqual \<or>
    op = ''<'' \<and> e = Comparison l r LessThan \<or> op = ''<='' \<and> e = Comparison l r LessThanOrEqual \<or>
    op = ''>'' \<and> e = Comparison l r GreaterThan \<or> op = ''>='' \<and> e = Comparison l r GreaterThanOrEqual \<or>
    op = ''LIKE'' \<and> e = Like l r \<or> op = ''+'' \<and> e = Arithmetic l r Plus \<or> op = ''-'' \<and> e = Arithmetic l r Minus \<or>
    op = ''and'' \<and> e = Logic l r And \<or> op = ''or'' \<and> e = Logic l r Or"
  using assms
  unfolding PlanBinaryOp_def GetBinaryExpressionFromFactory_def ArithmeticExpression_def LogicExpression_def
  by (simp only: split: if_split_asm) simp_all

text \<open>Evaluators of planned expressions: over one row, and over the two rows of a join.\<close>

locale evaluator =
  fixes F :: "'d float_ops" and R :: regex and ev :: "'d expr \<Rightarrow> 'd Value result"
  assumes ev_Constant: "ev (Constant v) = Inr v"
    and ev_Arithmetic: "ev (Arithmetic l r k) = bind_r (ev l) (\<lambda>a. bind_r (ev r) (arithmetic_value F k a))"
    and ev_Comparison: "ev (Comparison l r c) = bind_r (ev l) (\<lambda>a. bind_r (ev r) (comparison_value F c a))"
    and ev_Logic: "ev (Logic l r g) = bind_r (ev l) (\<lambda>a. bind_r (ev r) (logic_value g a))"
    and ev_Like: "ev (Like l r) = bind_r (ev l) (\<lambda>a. bind_r (ev r) (like_value F R a))"
begin

lemmas ev_simps = ev_Constant ev_Arithmetic ev_Comparison ev_Logic ev_Like

lemma operator_planned:
  assumes "PlanBinaryOp op l r = Inr e"
  shows "ev e = bind_r (ev l) (\<lambda>a. bind_r (ev r) (bound_operator F R op a))"
    and "GetReturnType e = (if op \<in> {''+'', ''-''} then INTEGER else BOOLEAN)"
  using planned_operator[OF assms] by (elim disjE conjE; simp add: ev_simps bound_operator_def[abs_def])+

text \<open>What a column reference evaluates to, and the values of the planned aggregate calls.\<close>

definition columns_planned :: "'d plan list \<Rightarrow> header \<Rightarrow> 'd Value list \<Rightarrow> bool" where
  "columns_planned children h row \<longleftrightarrow> (\<forall>n name c. PlanColumnRef n children = Inr (name, c) \<longrightarrow>
     name = join_names n \<and> GetReturnType c = bound_type h (BoundColumnRef n :: 'd bound_expr) \<and>
     ev c = bound_eval F R h row [] (BoundColumnRef n))"

definition aggs_planned :: "'d PlannerContext \<Rightarrow> 'd Value list \<Rightarrow> bool" where
  "aggs_planned ctx vals \<longleftrightarrow> list_all2 (\<lambda>e v. ev e = Inr v \<and> GetReturnType e = INTEGER) (expr_in_agg ctx) vals"

lemma expression_planned:
  assumes c: "columns_planned children h row"
  shows "PlanExpression children e ctx = Inr (name, pe, ctx') \<Longrightarrow> aggs_planned ctx vals \<Longrightarrow>
    name = item_name e \<and> GetReturnType pe = bound_type h e \<and>
    ev pe = bound_eval F R h row (drop (next_aggregation ctx) vals) e \<and>
    ctx' = ctx\<lparr>next_aggregation := next_aggregation ctx + length (agg_calls e)\<rparr>"
proof (induction e arbitrary: ctx name pe ctx')
  case (BoundColumnRef n)
  then obtain nm where "PlanColumnRef n children = Inr (nm, pe)" "name = nm" "ctx' = ctx" by (auto simp: result_simps)
  with c show ?case unfolding columns_planned_def by fastforce
next
  case (BoundAggCall f d args)
  then have i: "next_aggregation ctx < length (expr_in_agg ctx)" "pe = expr_in_agg ctx ! next_aggregation ctx"
    "name = UNNAMED_COLUMN" "ctx' = ctx\<lparr>next_aggregation := next_aggregation ctx + 1\<rparr>"
    by (auto split: if_splits)
  from BoundAggCall.prems(2) i(1) have "next_aggregation ctx < length vals"
    "ev pe = Inr (vals ! next_aggregation ctx)" "GetReturnType pe = INTEGER"
    unfolding aggs_planned_def i(2) by (auto simp: list_all2_conv_all_nth)
  with i show ?case by (simp add: Cons_nth_drop_Suc[symmetric])
next
  case (BoundBinaryOp op l r)
  from BoundBinaryOp.prems(1) obtain n1 p1 c1 n2 p2 where
    s: "PlanExpression children l ctx = Inr (n1, p1, c1)" "PlanExpression children r c1 = Inr (n2, p2, ctx')"
      "PlanBinaryOp op p1 p2 = Inr pe" "name = UNNAMED_COLUMN"
    by (auto simp: result_simps)
  note 1 = BoundBinaryOp.IH(1)[OF s(1) BoundBinaryOp.prems(2)]
  then have "aggs_planned c1 vals" using BoundBinaryOp.prems(2) by (simp add: aggs_planned_def)
  note 2 = BoundBinaryOp.IH(2)[OF s(2) this]
  show ?case using 1 2 operator_planned[OF s(3)] s(4) by (simp add: drop_drop ac_simps)
next
  case (BoundAlias a e)
  then show ?case by (fastforce simp: result_simps)
qed (auto simp: ev_simps)

lemma expressions_planned:
  assumes c: "columns_planned children h row"
  shows "PlanExpressions children es ctx = Inr (items, ctx') \<Longrightarrow> aggs_planned ctx vals \<Longrightarrow>
    map fst items = map item_name es \<and> map (\<lambda>i. GetReturnType (snd i)) items = map (bound_type h) es \<and>
    map_r ev (map snd items) = bound_evals F R h row (drop (next_aggregation ctx) vals) es \<and>
    ctx' = ctx\<lparr>next_aggregation := next_aggregation ctx + length (concat (map agg_calls es))\<rparr>"
proof (induction es arbitrary: ctx items)
  case (Cons e es)
  from Cons.prems(1) obtain name pe c1 rest where
    s: "PlanExpression children e ctx = Inr (name, pe, c1)" "PlanExpressions children es c1 = Inr (rest, ctx')"
      "items = (name, pe) # rest" by (auto simp: result_simps)
  note 1 = expression_planned[OF c s(1) Cons.prems(2)]
  then have "aggs_planned c1 vals" using Cons.prems(2) by (simp add: aggs_planned_def)
  note 2 = Cons.IH[OF s(2) this]
  show ?case using 1 2 s(3) by (simp add: drop_drop ac_simps)
qed simp

lemma no_aggs_planned [simp]: "aggs_planned new_context []"
  by (simp add: aggs_planned_def new_context_def)

end

lemma row_evaluator: "evaluator F R (eval_row F R row)"
  by unfold_locales simp_all

lemma join_evaluator: "evaluator F R (eval_join F R x y)"
  by unfold_locales simp_all

interpretation on_row: evaluator F R "eval_row F R row" for F :: "'d float_ops" and R row
  by (rule row_evaluator)

interpretation on_join: evaluator F R "eval_join F R x y" for F :: "'d float_ops" and R x y
  by (rule join_evaluator)

text \<open>Column references over one child and over two.\<close>

lemma row_columns [simp]: "on_row.columns_planned F R row [child] (header_of (OutputSchema child)) row"
  unfolding on_row.columns_planned_def
  by (auto simp: PlanColumnRef_def Let_def result_simps GetColIdx_def TryGetColIdx_header column_ref_def
      dest: column_at_Some split: option.splits)

lemma no_columns [simp]: "on_row.columns_planned F R row [] h row"
  by (simp add: on_row.columns_planned_def PlanColumnRef_def)

lemma column_at_append:
  "column_at n (h @ h') = (case column_at n h of Some i \<Rightarrow> Some i | None \<Rightarrow> map_option ((+) (length h)) (column_at n h'))"
proof -
  have "[0..<length (h @ h')] = [0..<length h] @ map ((+) (length h)) [0..<length h']"
    by (rule nth_equalityI) (auto simp: nth_append)
  moreover have "List.find P (xs @ ys) = (case List.find P xs of Some i \<Rightarrow> Some i | None \<Rightarrow> List.find P ys)" for P and xs ys :: "nat list"
    by (induction xs) auto
  moreover have "List.find P (map f ys) = map_option f (List.find (P \<circ> f) ys)" for P and f :: "nat \<Rightarrow> nat" and ys
    by (induction ys) auto
  moreover have "List.find (\<lambda>i. fst ((h @ h') ! i) = n) [0..<length h] = column_at n h"
    unfolding column_at_def by (rule find_cong) (auto simp: nth_append)
  moreover have "List.find ((\<lambda>i. fst ((h @ h') ! i) = n) \<circ> (+) (length h)) [0..<length h'] = column_at n h'"
    unfolding column_at_def by (rule find_cong) (auto simp: nth_append)
  ultimately show ?thesis unfolding column_at_def[of n "h @ h'"] by (simp only:)
qed

lemma join_columns_planned:
  assumes "length x = length (columns (OutputSchema left))"
    and "length y = length (columns (OutputSchema right))"
  shows "on_join.columns_planned F R x y [left, right]
    (header_of (OutputSchema left) @ header_of (OutputSchema right)) (x @ y)"
  using assms unfolding on_join.columns_planned_def
  by (auto simp: PlanColumnRef_def Let_def TryGetColIdx_header column_at_append column_ref_def row_column_def nth_append
      dest: column_at_Some split: option.splits)

end
