(* ===== verification/Planner_Clauses.thy ===== *)
theory Planner_Clauses
  imports Planner_Laws
begin

text \<open>The rows of the plans that the planner builds for the clauses of a SELECT.\<close>

section \<open>Schemas\<close>

lemma map_r_header:
  assumes "map_r (\<lambda>e. unnamed_column (GetReturnType e) n) es = Inr cols"
  shows "map column_type cols = map GetReturnType es"
proof -
  have "column_type c = T" if "unnamed_column T n = Inr c" for T c
    using that by (auto simp: unnamed_column_def new_Column_def new_varlen_Column_def result_simps split: if_splits)
  with assms show ?thesis by (auto simp: map_r_Inr_iff list_all2_conv_all_nth intro: nth_equalityI)
qed

lemma RenameSchema_header:
  assumes "RenameSchema s names = Inr s'"
  shows "header_of s' = zip names (types s)" and "length names = length (columns s)"
  using assms by (auto simp: RenameSchema_def GetColumnCount_def rename_Column_def split: if_splits intro!: nth_equalityI)

lemma named_projection_header:
  assumes "named_projection items child = Inr p"
  obtains s where "p = ProjectionPlan s (map snd items) child"
    "header_of s = map (\<lambda>(n, e). (n, GetReturnType e)) items"
proof -
  from assms obtain s0 s where s: "InferProjectionSchema (map snd items) = Inr s0" "RenameSchema s0 (map fst items) = Inr s"
    "p = ProjectionPlan s (map snd items) child" by (auto simp: named_projection_def result_simps)
  from s(1) obtain cols where cols: "map_r (\<lambda>e. unnamed_column (GetReturnType e) VARCHAR_DEFAULT_LENGTH) (map snd items) = Inr cols"
    "s0 = new_Schema cols" by (auto simp: InferProjectionSchema_def result_simps)
  have "types s0 = map GetReturnType (map snd items)"
    using map_r_header[OF cols(1)] header_types[of s0] cols(2) by (simp add: comp_def)
  then have "header_of s = map (\<lambda>(n, e). (n, GetReturnType e)) items"
    using RenameSchema_header(1)[OF s(2)] by (simp add: zip_map1 zip_map2 zip_same_conv_map case_prod_beta comp_def)
  then show thesis using s(3) that by blast
qed

lemma InferAggSchema_types:
  assumes "InferAggSchema gbs aggs tys = Inr s"
  shows "types s = map GetReturnType gbs @ replicate (length aggs) INTEGER"
proof -
  from assms obtain keys vals where k: "map_r (\<lambda>e. unnamed_column (GetReturnType e) 128) gbs = Inr keys"
    "map_r (\<lambda>_. new_Column ''<unnamed>'' INTEGER) aggs = Inr vals" "s = new_Schema (keys @ vals)"
    by (auto simp: InferAggSchema_def result_simps)
  have "map column_type vals = replicate (length aggs) INTEGER"
    using k(2) by (induction aggs arbitrary: vals) (auto simp: new_Column_def TypeSize_def result_simps)
  then show ?thesis using map_r_header[OF k(1)] header_types[of s] k(3) by (simp add: comp_def)
qed

section \<open>Rows\<close>

lemma filter_r_cong_set: "(\<And>x. x \<in> set xs \<Longrightarrow> p x = q x) \<Longrightarrow> filter_r p xs = filter_r q xs"
  by (induction xs) simp_all

lemma fitted_rows:
  assumes "map_r (\<lambda>row. bind_r (g row) (fit F s)) rs = Inr ys"
  shows "map_r g rs = Inr ys" and "width_is s ys"
proof -
  from assms have *: "list_all2 (\<lambda>x y. g x = Inr y \<and> length y = GetColumnCount s) rs ys"
    by (auto simp: map_r_Inr_iff result_simps elim!: list_all2_mono dest: fit_width)
  then show "map_r g rs = Inr ys" by (auto simp: map_r_Inr_iff elim: list_all2_mono)
  from * show "width_is s ys" by (auto simp: list_all2_conv_all_nth list_all_length)
qed

text \<open>A projection of planned items, from the meaning of its items on the rows of the child.\<close>

lemma projection_rows:
  assumes p: "named_projection items child = Inr p" and r: "rows X db p = Inr rs"
  obtains rs0 where "rows X db child = Inr rs0" "width_is (OutputSchema p) rs"
    "map_r (\<lambda>row. map_r (eval_row (ctx_floats X) (ctx_regex X) row) (map snd items)) rs0 = Inr rs"
    "header_of (OutputSchema p) = map (\<lambda>(n, e). (n, GetReturnType e)) items"
proof -
  obtain s where s: "p = ProjectionPlan s (map snd items) child"
    "header_of s = map (\<lambda>(n, e). (n, GetReturnType e)) items" using named_projection_header[OF p] .
  from r s(1) obtain rs0 where r0: "rows X db child = Inr rs0"
    "map_r (\<lambda>row. bind_r (map_r (eval_row (ctx_floats X) (ctx_regex X) row) (map snd items)) (fit (ctx_floats X) s)) rs0 = Inr rs"
    by (auto simp: result_simps simp del: map_map)
  show thesis using that[OF r0(1)] fitted_rows[OF r0(2)] s by simp
qed

lemma where_rows:
  assumes p: "plan_where cond child = Inr p" and r: "rows X db p = Inr rs"
    and w: "\<And>rs. rows X db child = Inr rs \<Longrightarrow> width_is (OutputSchema child) rs"
  obtains rs0 where "rows X db child = Inr rs0" "width_is (OutputSchema p) rs"
    "sem_where X cond (header_of (OutputSchema child), rs0) = Inr (header_of (OutputSchema p), rs)"
proof (cases "cond = InvalidExpr")
  case True
  then show thesis using assms that by (simp add: plan_where_def sem_where_def)
next
  case False
  with p obtain n e c where e: "PlanExpression [child] cond new_context = Inr (n, e, c)"
    "p = FilterPlan (OutputSchema child) e child" by (auto simp: plan_where_def result_simps)
  from r e(2) obtain rs0 where r0: "rows X db child = Inr rs0"
    "filter_r (\<lambda>row. bind_r (eval_row (ctx_floats X) (ctx_regex X) row e) holds) rs0 = Inr rs"
    by (auto simp: result_simps same_layout_def)
  have "eval_row (ctx_floats X) (ctx_regex X) row e =
      bound_eval (ctx_floats X) (ctx_regex X) (header_of (OutputSchema child)) row [] cond" for row
    using on_row.expression_planned[OF row_columns e(1) on_row.no_aggs_planned] by simp
  then have "filter_r (truth X (header_of (OutputSchema child)) cond []) rs0 = Inr rs"
    using r0(2) by (simp add: truth_def[abs_def])
  moreover have "width_is (OutputSchema p) rs"
    using w[OF r0(1)] filter_r_set[OF r0(2)] e(2) by (auto simp: list_all_iff)
  ultimately show thesis using that[OF r0(1)] False e(2) by (simp add: sem_where_def)
qed

text \<open>Numbering the unnamed items.\<close>

lemma name_items_header:
  "name_items items uid = (items', uid') \<Longrightarrow>
   number_items (map (\<lambda>(n, e). (n, GetReturnType e)) items) uid = (map (\<lambda>(n, e). (n, GetReturnType e)) items', uid') \<and>
   map snd items' = map snd items"
  by (induction items arbitrary: uid items')
    (auto simp: name_item_def Let_def split: prod.splits if_splits)

lemma header_zip: "zip (map fst items) (map GetReturnType (map snd items)) = map (\<lambda>(n, e). (n, GetReturnType e)) items"
  by (simp add: zip_map1 zip_map2 zip_same_conv_map case_prod_beta comp_def)

lemma planned_header:
  assumes "map fst items = map item_name es" "map (\<lambda>i. GetReturnType (snd i)) items = map (bound_type h) es"
  shows "map (\<lambda>(n, e). (n, GetReturnType e)) items = item_header h es"
proof -
  have "map (\<lambda>(n, e). (n, GetReturnType e)) items = zip (map fst items) (map (\<lambda>i. GetReturnType (snd i)) items)"
    by (simp add: zip_map1 zip_map2 zip_same_conv_map case_prod_beta comp_def)
  with assms show ?thesis
    by (simp add: item_header_def zip_map1 zip_map2 zip_same_conv_map comp_def)
qed

lemma items_rows:
  assumes p: "plan_items items child uid = Inr (p, uid')" and r: "rows X db p = Inr rs"
  obtains rs0 where "rows X db child = Inr rs0" "width_is (OutputSchema p) rs"
    "sem_items X items uid (header_of (OutputSchema child), rs0) = Inr ((header_of (OutputSchema p), rs), uid')"
proof -
  let ?h = "header_of (OutputSchema child)"
  from p obtain es c es' where e: "PlanExpressions [child] items new_context = Inr (es, c)"
    "name_items es uid = (es', uid')" "named_projection es' child = Inr p"
    by (cases "PlanExpressions [child] items new_context") (auto simp: plan_items_def result_simps split: prod.splits)
  note 1 = on_row.expressions_planned[OF row_columns e(1) on_row.no_aggs_planned]
  note 2 = name_items_header[OF e(2)]
  obtain rs0 where r0: "rows X db child = Inr rs0" "width_is (OutputSchema p) rs"
    "map_r (\<lambda>row. map_r (eval_row (ctx_floats X) (ctx_regex X) row) (map snd es')) rs0 = Inr rs"
    "header_of (OutputSchema p) = map (\<lambda>(n, e). (n, GetReturnType e)) es'" using projection_rows[OF e(3) r] .
  have "map_r (\<lambda>row. bound_evals (ctx_floats X) (ctx_regex X) ?h row [] items) rs0 = Inr rs"
    using r0(3) 1 2 by (simp del: map_map)
  moreover have "number_items (item_header ?h items) uid = (header_of (OutputSchema p), uid')"
    using 1 2 r0(4) planned_header[of es items ?h] by simp
  ultimately show thesis using that[OF r0(1,2)] by (simp add: sem_items_def)
qed

end
