(* ===== verification/Planner_Aggregates.thy ===== *)
theory Planner_Aggregates
  imports Planner_Clauses
begin

text \<open>
  The plan of GROUP BY, HAVING and aggregate calls: the calls are taken out of the clauses, planned
  below one aggregation, and put back as its columns.
\<close>

section \<open>Taking the calls out\<close>

lemma call_rewritten:
  "AddAggCallToContext e ctx = Inr (e', ctx') \<Longrightarrow>
     item_name e' = item_name e \<and> bound_type h e' = bound_type h e \<and> length (agg_calls e') = length (agg_calls e) \<and>
     ctx' = ctx\<lparr>aggregations := aggregations ctx @ agg_calls e\<rparr> \<and> (e' = InvalidExpr \<longleftrightarrow> e = InvalidExpr)"
  by (induction e arbitrary: ctx e' ctx') (fastforce simp: AddAggregation_def Let_def result_simps split: if_splits)+

lemma call_rewritten_eval:
  "AddAggCallToContext e ctx = Inr (e', ctx') \<Longrightarrow> bound_eval F R h row vals e' = bound_eval F R h row vals e"
proof (induction e arbitrary: ctx e' ctx' vals)
  case (BoundBinaryOp op l r)
  then obtain l' c r' where s: "AddAggCallToContext l ctx = Inr (l', c)" "AddAggCallToContext r c = Inr (r', ctx')"
    "e' = BoundBinaryOp op l' r'" by (auto simp: result_simps)
  show ?case using BoundBinaryOp.IH(1)[OF s(1)] BoundBinaryOp.IH(2)[OF s(2)] call_rewritten[OF s(1)] s(3) by simp
qed (auto simp: AddAggregation_def Let_def result_simps split: if_splits)

lemma calls_rewritten:
  "AddAggCallsToContext es ctx = Inr (es', ctx') \<Longrightarrow>
     item_header h es' = item_header h es \<and> length (concat (map agg_calls es')) = length (concat (map agg_calls es)) \<and>
     ctx' = ctx\<lparr>aggregations := aggregations ctx @ concat (map agg_calls es)\<rparr> \<and>
     bound_evals F R h row vals es' = bound_evals F R h row vals es"
proof (induction es arbitrary: ctx es' vals)
  case (Cons e es)
  then obtain e' c rest where s: "AddAggCallToContext e ctx = Inr (e', c)" "AddAggCallsToContext es c = Inr (rest, ctx')"
    "es' = e' # rest" by (auto simp: result_simps)
  show ?case using Cons.IH[OF s(2)] call_rewritten[OF s(1), of h] call_rewritten_eval[OF s(1)] s(3)
    by (simp add: item_header_def)
qed (simp add: item_header_def)

section \<open>Planning the calls\<close>

lemma no_calls: "PlanExpression children e ctx = Inr (n, pe, ctx') \<Longrightarrow> expr_in_agg ctx = [] \<Longrightarrow> agg_calls e = [] \<and> ctx' = ctx"
  by (induction e arbitrary: ctx n pe ctx') (fastforce simp: result_simps)+

lemma no_calls_list:
  "PlanExpressions children es ctx = Inr (items, ctx') \<Longrightarrow> expr_in_agg ctx = [] \<Longrightarrow> concat (map agg_calls es) = [] \<and> ctx' = ctx"
  by (induction es arbitrary: ctx items) (fastforce simp: result_simps dest: no_calls)+

lemma evals_without_calls:
  "concat (map agg_calls es) = [] \<Longrightarrow> bound_evals F R h row [] es = map_r (bound_eval F R h row []) es"
  by (induction es) simp_all

lemma singleton_result: "bind_r m (\<lambda>y. Inr [y]) = bind_r m' (\<lambda>v. Inr [v]) \<longleftrightarrow> m = m'"
  by (cases m; cases m') auto

lemma call_planned:
  assumes "PlanAggItem child c = Inr (t, e)"
  shows "t = call_type c"
    and "eval_row (ctx_floats X) (ctx_regex X) row e = call_input X (header_of (OutputSchema child)) row c"
proof -
  let ?h = "header_of (OutputSchema child)"
  from assms obtain f args es where s: "c = BoundAggCall f False args" "PlanAggCall f False args [child] = Inr (t, es)"
    "bind_r (if es = [] then bind_r (GetIntegerValue 1) (\<lambda>v. Inr (Constant v)) else Inr (es ! 0)) (\<lambda>e. Inr (t, e)) = Inr (t, e)"
    by (cases c) (auto simp: PlanAggItem_def PlanAggCall_def result_simps split: if_splits)
  from s(2) obtain items ctx where i: "PlanExpressions [child] args new_context = Inr (items, ctx)"
    "GetAggCallFromFactory f (map snd items) = Inr (t, es)" by (auto simp: PlanAggCall_def result_simps)
  note 1 = on_row.expressions_planned[OF row_columns i(1) on_row.no_aggs_planned]
  then have len: "length items = length args" by (metis length_map)
  from s(3) have e: "es = [] \<and> (\<exists>v. GetIntegerValue 1 = Inr v \<and> e = Constant v) \<or> es \<noteq> [] \<and> e = es ! 0"
    by (auto simp: result_simps split: if_splits)
  have "(es = [] \<and> args = [] \<and> t = call_type c) \<or>
      (\<exists>i a. es = [snd i] \<and> items = [i] \<and> args = [a] \<and> t = call_type c)"
    using i(2) len s(1) unfolding GetAggCallFromFactory_def call_type_def
    by (auto simp: length_Suc_conv split: if_splits)
  then show "t = call_type c"
    and "eval_row (ctx_floats X) (ctx_regex X) row e = call_input X ?h row c"
    using s(1) e on_row.expressions_planned[OF row_columns i(1) on_row.no_aggs_planned, of "ctx_floats X" "ctx_regex X" row]
    by (auto simp: call_input_def singleton_result)
qed

text \<open>The order in which the aggregation table is walked.\<close>

definition visits_all :: "'d exec_ctx \<Rightarrow> bool" where
  "visits_all X \<longleftrightarrow> (\<forall>gs. mset (ctx_order X gs) = mset gs)"

lemma visits_single: "visits_all X \<Longrightarrow> ctx_order X [g] = [g]"
  unfolding visits_all_def by (metis mset_single_iff_right mset.simps)

section \<open>Groups\<close>

lemma keyed_rows_cong:
  "(\<And>row. k row = k' row) \<Longrightarrow> (\<And>row. v row = v' row) \<Longrightarrow> keyed_rows k v rs = keyed_rows k' v' rs"
  by (simp add: keyed_rows_def)

lemma groups_rows:
  assumes v: "visits_all X" and r: "rows X db (AggregationPlan s child gbs aggs tys) = Inr rs"
    and n: "length (columns s) = length gbs + length calls" "length aggs = length calls" "length gbs = length groups"
    and k: "\<And>row. map_r (eval_row (ctx_floats X) (ctx_regex X) row) gbs = map_r (bound_eval (ctx_floats X) (ctx_regex X) h row []) groups"
    and c: "\<And>row. map_r (eval_row (ctx_floats X) (ctx_regex X) row) aggs = map_r (call_input X h row) calls"
    and t: "tys = map call_type calls"
  obtains rs0 where "rows X db child = Inr rs0" "width_is s rs"
    "sem_groups X groups calls (h, rs0) = Inr (item_header h groups @ map (\<lambda>i. (agg_name i, INTEGER)) [0..<length calls], rs)"
proof -
  let ?F = "ctx_floats X"
  from r obtain rs0 kvs gs gs' where s: "rows X db child = Inr rs0"
    "keyed_rows (\<lambda>row. map_r (bound_eval ?F (ctx_regex X) h row []) groups) (\<lambda>row. map_r (call_input X h row) calls) rs0 = Inr kvs"
    "plain_keys ?F (map fst kvs)" "group_rows (ctx_overflow X) ?F (length calls) (map call_type calls) kvs = Inr gs"
    "finish_aggregation ?F s (map call_type calls) gs = Inr gs'"
    "map_r (\<lambda>(k, v). fit ?F s (k @ v)) (ctx_order X gs') = Inr rs"
    unfolding t rows.simps k c n(2) by (auto simp: result_simps split: if_splits)
  have *: "list_all2 (\<lambda>g row. row = fst g @ snd g \<and> length row = GetColumnCount s) (ctx_order X gs') rs"
    using s(6) by (auto simp: map_r_Inr_iff elim!: list_all2_mono dest: fit_width)
  then have rs: "rs = map (\<lambda>(k, v). k @ v) (ctx_order X gs')"
    by (intro nth_equalityI) (auto simp: list_all2_conv_all_nth case_prod_beta)
  from * have w: "width_is s rs" by (auto simp: list_all2_conv_all_nth list_all_length)
  have "bind_r (if gs = [] \<and> groups = [] \<and> length calls = 1
      then bind_r (GenerateInitialAggregateValue ?F (map call_type calls)) (\<lambda>v. Inr [([], v)]) else Inr gs) (\<lambda>x. Inr x) = Inr gs'"
  proof (cases "gs = [] \<and> length groups = 1 \<and> calls = []")
    case True
    then have "gs' = [([], [])]"
      using s(5) n(1,3) by (simp add: finish_aggregation_def GetColumnCount_def GenerateInitialAggregateValue_def)
    then have "ctx_order X gs' = [([], [])]" using visits_single[OF v] by simp
    with rs w True n(1,3) show ?thesis by (simp add: GetColumnCount_def)
  next
    case False
    then have "GetColumnCount s = 1 \<longleftrightarrow> groups = [] \<and> length calls = 1" if "gs = []"
      using that n(1,3) by (auto simp: GetColumnCount_def add_is_1)
    with s(5) show ?thesis by (cases "gs = []") (auto simp: finish_aggregation_def split: if_splits)
  qed
  then have "sem_groups X groups calls (h, rs0) =
      Inr (item_header h groups @ map (\<lambda>i. (agg_name i, INTEGER)) [0..<length calls], rs)"
    using s(2-4) rs by (auto simp: sem_groups_def result_simps)
  with s(1) w show thesis by (rule that)
qed

text \<open>The columns of the aggregation evaluate to the values of the calls.\<close>

lemma aggs_of_group:
  assumes "expr_in_agg ctx = map (\<lambda>i. ColumnValue 0 (k + i) INTEGER) [0..<n]" and "length row = k + n"
  shows "on_row.aggs_planned F R row ctx (drop k row)"
  unfolding on_row.aggs_planned_def assms(1) using assms(2)
  by (auto simp: list_all2_conv_all_nth row_column_def)

section \<open>The aggregation of a SELECT\<close>

text \<open>What \<open>PlanSelectAgg\<close> builds.\<close>

lemma PlanSelectAgg_parts:
  assumes "PlanSelectAgg groups cond items child = Inr (p, cond', items')"
  obtains keys c0 c1 c2 aggs s q c3 exprs c4 c5
  where "PlanExpressions [child] groups (new_context\<lparr>allow_aggregation := True\<rparr>) = Inr (keys, c0)"
    "(if cond = InvalidExpr then Inr (cond, c0) else AddAggCallToContext cond c0) = Inr (cond', c1)"
    "AddAggCallsToContext items c1 = Inr (items', c2)"
    "map_r (PlanAggItem child) (aggregations c2) = Inr aggs"
    "length (columns s) = length keys + length aggs"
    "header_of s = zip (map fst keys @ map agg_name [0..<length aggs])
       (map GetReturnType (map snd keys) @ replicate (length aggs) INTEGER)"
    "c3 = c2\<lparr>expr_in_agg := expr_in_agg c2 @ map (\<lambda>i. ColumnValue 0 (length keys + i) INTEGER) [0..<length aggs]\<rparr>"
    "q = AggregationPlan s child (map snd keys) (map snd aggs) (map fst aggs)"
    "if cond' = InvalidExpr then exprs = (q, c3)
     else \<exists>n e. PlanExpression [q] cond' c3 = Inr (n, e, snd exprs) \<and> fst exprs = FilterPlan s e q"
    "PlanExpressions [fst exprs] items' (snd exprs) = Inr (c4, c5)"
    "named_projection c4 (fst exprs) = Inr p"
proof -
  from assms obtain keys c0 c1 c2 aggs s0 s q c3 exprs c4 c5 where
    s: "PlanExpressions [child] groups (new_context\<lparr>allow_aggregation := True\<rparr>) = Inr (keys, c0)"
    "(if cond = InvalidExpr then Inr (cond, c0) else AddAggCallToContext cond c0) = Inr (cond', c1)"
    "AddAggCallsToContext items c1 = Inr (items', c2)"
    "map_r (PlanAggItem child) (aggregations c2) = Inr aggs"
    "InferAggSchema (map snd keys) (map snd aggs) (map fst aggs) = Inr s0"
    "RenameSchema s0 (map fst keys @ map agg_name [0..<length aggs]) = Inr s"
    "c3 = c2\<lparr>expr_in_agg := expr_in_agg c2 @ map (\<lambda>i. ColumnValue 0 (length keys + i) INTEGER) [0..<length aggs]\<rparr>"
    "q = AggregationPlan s child (map snd keys) (map snd aggs) (map fst aggs)"
    "(if cond' = InvalidExpr then Inr (q, c3)
      else bind_r (PlanExpression [q] cond' c3) (\<lambda>(_, e, ctx). Inr (FilterPlan (OutputSchema q) e q, ctx))) = Inr exprs"
    "PlanExpressions [fst exprs] items' (snd exprs) = Inr (c4, c5)"
    "named_projection c4 (fst exprs) = Inr p"
    unfolding PlanSelectAgg_def Let_def by (auto simp: result_simps simp del: map_map)
  from s(8,9) have f: "if cond' = InvalidExpr then exprs = (q, c3)
     else \<exists>n e. PlanExpression [q] cond' c3 = Inr (n, e, snd exprs) \<and> fst exprs = FilterPlan s e q"
    by (auto simp: result_simps split: if_splits)
  have l: "length (columns s0) = length keys + length aggs"
    using InferAggSchema_types[OF s(5)] by (metis length_append length_map length_replicate)
  have h: "header_of s = zip (map fst keys @ map agg_name [0..<length aggs])
       (map GetReturnType (map snd keys) @ replicate (length aggs) INTEGER)"
    using RenameSchema_header(1)[OF s(6)] InferAggSchema_types[OF s(5)] by simp
  then have "length (header_of s) = length keys + length aggs" by (simp del: header_length)
  then have "length (columns s) = length keys + length aggs" by simp
  from that[OF s(1-4) this h s(7,8) f s(10,11)] show thesis .
qed

lemma aggregate_rows:
  assumes v: "visits_all X" and p: "PlanSelectAgg groups cond items child = Inr (p, cond', items')" and r: "rows X db p = Inr rs"
  obtains rs0 where "rows X db child = Inr rs0" "width_is (OutputSchema p) rs"
    "sem_aggregate X groups cond items (header_of (OutputSchema child), rs0) = Inr (header_of (OutputSchema p), rs)"
proof -
  let ?F = "ctx_floats X" and ?R = "ctx_regex X" and ?h = "header_of (OutputSchema child)"
  obtain keys c0 c1 c2 aggs s q c3 top c4 c5 where s: "PlanExpressions [child] groups (new_context\<lparr>allow_aggregation := True\<rparr>) = Inr (keys, c0)"
    "(if cond = InvalidExpr then Inr (cond, c0) else AddAggCallToContext cond c0) = Inr (cond', c1)"
    "AddAggCallsToContext items c1 = Inr (items', c2)" "map_r (PlanAggItem child) (aggregations c2) = Inr aggs"
    "length (columns s) = length keys + length aggs"
    "header_of s = zip (map fst keys @ map agg_name [0..<length aggs]) (map GetReturnType (map snd keys) @ replicate (length aggs) INTEGER)"
    "c3 = c2\<lparr>expr_in_agg := expr_in_agg c2 @ map (\<lambda>i. ColumnValue 0 (length keys + i) INTEGER) [0..<length aggs]\<rparr>"
    "q = AggregationPlan s child (map snd keys) (map snd aggs) (map fst aggs)"
    "if cond' = InvalidExpr then top = (q, c3)
     else \<exists>n e. PlanExpression [q] cond' c3 = Inr (n, e, snd top) \<and> fst top = FilterPlan s e q"
    "PlanExpressions [fst top] items' (snd top) = Inr (c4, c5)" "named_projection c4 (fst top) = Inr p"
    using PlanSelectAgg_parts[OF p] .
  let ?calls = "agg_calls cond @ concat (map agg_calls items)" and ?g = "length groups" and ?n = "length aggs"
  let ?H = "item_header ?h groups @ map (\<lambda>i. (agg_name i, INTEGER)) [0..<length ?calls]"
  have new: "expr_in_agg (new_context\<lparr>allow_aggregation := True\<rparr>) = []" "on_row.aggs_planned ?F ?R row (new_context\<lparr>allow_aggregation := True\<rparr>) []" for row
    by (simp_all add: new_context_def on_row.aggs_planned_def)
  note K = on_row.expressions_planned[OF row_columns s(1) new(2)]
  from no_calls_list[OF s(1) new(1)] have c0: "c0 = new_context\<lparr>allow_aggregation := True\<rparr>" and nc: "concat (map agg_calls groups) = []" by simp_all
  have k: "length keys = ?g" using K by (metis length_map)
  have c1: "c1 = c0\<lparr>aggregations := agg_calls cond\<rparr>" and inv: "cond' = InvalidExpr \<longleftrightarrow> cond = InvalidExpr"
    and lc: "length (agg_calls cond') = length (agg_calls cond)"
    using s(2) call_rewritten[of cond c0 cond' c1 ?h] by (auto simp: c0 new_context_def split: if_splits)
  have cc: "bound_eval F R h row vals cond' = bound_eval F R h row vals cond" for F :: "'a float_ops" and R h row vals
    using s(2) call_rewritten_eval[of cond c0 cond' c1] by (auto split: if_splits)
  note I = calls_rewritten[OF s(3)]
  then have c2: "c2 = c0\<lparr>aggregations := ?calls\<rparr>" by (simp add: c1)
  then have calls: "map_r (PlanAggItem child) ?calls = Inr aggs" using s(4) by simp
  then have n: "?n = length ?calls" by (auto simp: map_r_Inr_iff dest: list_all2_lengthD)
  have each: "list_all2 (\<lambda>c a. fst a = call_type c \<and> (\<forall>row. eval_row ?F ?R row (snd a) = call_input X ?h row c)) ?calls aggs"
    using calls unfolding map_r_Inr_iff
    by (rule list_all2_mono) (metis call_planned prod.collapse)
  then have types: "map fst aggs = map call_type ?calls" by (induction rule: list_all2_induct) simp_all
  have inputs: "map_r (eval_row ?F ?R row) (map snd aggs) = map_r (call_input X ?h row) ?calls" for row
    using each by (induction rule: list_all2_induct) simp_all
  have H: "header_of s = ?H"
  proof -
    have "zip (map fst keys) (map GetReturnType (map snd keys)) = item_header ?h groups"
      using planned_header[of keys groups ?h] K header_zip[of keys] by presburger
    moreover have "zip (map agg_name [0..<?n]) (replicate ?n INTEGER) = map (\<lambda>i. (agg_name i, INTEGER)) [0..<?n]"
      by (rule nth_equalityI) simp_all
    ultimately show ?thesis unfolding s(6) n[symmetric] by (subst zip_append) simp_all
  qed
  have c3: "expr_in_agg c3 = map (\<lambda>i. ColumnValue 0 (?g + i) INTEGER) [0..<?n]" "next_aggregation c3 = 0"
    using s(7) k by (simp_all add: c2 c0 new_context_def)
  have keys: "map_r (eval_row ?F ?R row) (map snd keys) = map_r (bound_eval ?F ?R ?h row []) groups" for row
    using on_row.expressions_planned[OF row_columns s(1) new(2)] evals_without_calls[OF nc] by simp
  have vals: "on_row.aggs_planned ?F ?R row c3 (drop ?g row)" if "length row = ?g + ?n" for row
    using aggs_of_group[OF c3(1) that] .
  obtain rs1 where r1: "rows X db (fst top) = Inr rs1" "width_is (OutputSchema p) rs"
    "map_r (\<lambda>row. map_r (eval_row ?F ?R row) (map snd c4)) rs1 = Inr rs"
    "header_of (OutputSchema p) = map (\<lambda>(n, e). (n, GetReturnType e)) c4"
    using projection_rows[OF s(11) r] .
  have top: "OutputSchema (fst top) = s" "next_aggregation (snd top) = length (agg_calls cond)" "expr_in_agg (snd top) = expr_in_agg c3"
    and filtered: "\<exists>rs2. rows X db q = Inr rs2 \<and> (width_is s rs2 \<longrightarrow> width_is s rs1 \<and>
      (if cond = InvalidExpr then Inr rs2 else filter_r (\<lambda>row. truth X ?H cond (drop ?g row) row) rs2) = Inr rs1)"
  proof -
    have "OutputSchema (fst top) = s \<and> next_aggregation (snd top) = length (agg_calls cond) \<and> expr_in_agg (snd top) = expr_in_agg c3 \<and>
      (\<exists>rs2. rows X db q = Inr rs2 \<and> (width_is s rs2 \<longrightarrow> width_is s rs1 \<and>
      (if cond = InvalidExpr then Inr rs2 else filter_r (\<lambda>row. truth X ?H cond (drop ?g row) row) rs2) = Inr rs1))"
    proof (cases "cond = InvalidExpr")
      case True
      with s(8,9) inv have "top = (q, c3)" "OutputSchema q = s" by simp_all
      then show ?thesis using True r1(1) c3(2) by simp
    next
      case False
      with s(9) inv obtain nm e where e: "PlanExpression [q] cond' c3 = Inr (nm, e, snd top)" "fst top = FilterPlan s e q" by auto
      from r1(1) e(2) obtain rs2 where r2: "rows X db q = Inr rs2" "filter_r (\<lambda>row. bind_r (eval_row ?F ?R row e) holds) rs2 = Inr rs1"
        using s(8) by (auto simp: result_simps same_layout_def)
      have q: "OutputSchema q = s" using s(8) by simp
      have ev: "eval_row ?F ?R row e = bound_eval ?F ?R ?H row (drop ?g row) cond" and
        st: "snd top = c3\<lparr>next_aggregation := length (agg_calls cond)\<rparr>" if "length row = ?g + ?n" for row
        using on_row.expression_planned[OF row_columns e(1) vals[OF that]] c3(2) lc cc H q by simp_all
      have "filter_r (\<lambda>row. truth X ?H cond (drop ?g row) row) rs2 = Inr rs1" if w: "width_is s rs2"
        using w r2(2) filter_r_cong_set[of rs2 "\<lambda>row. truth X ?H cond (drop ?g row) row" "\<lambda>row. bind_r (eval_row ?F ?R row e) holds"]
        by (simp add: truth_def ev list_all_iff GetColumnCount_def s(5) k)
      moreover have "width_is s rs1" if "width_is s rs2" using that filter_r_set[OF r2(2)] by (auto simp: list_all_iff)
      moreover have "snd top = c3\<lparr>next_aggregation := length (agg_calls cond)\<rparr>" using st[of "replicate (?g + ?n) undefined"] by simp
      ultimately show ?thesis using False e(2) r2(1) by simp
    qed
    then show "OutputSchema (fst top) = s" "next_aggregation (snd top) = length (agg_calls cond)" "expr_in_agg (snd top) = expr_in_agg c3"
      "\<exists>rs2. rows X db q = Inr rs2 \<and> (width_is s rs2 \<longrightarrow> width_is s rs1 \<and>
      (if cond = InvalidExpr then Inr rs2 else filter_r (\<lambda>row. truth X ?H cond (drop ?g row) row) rs2) = Inr rs1)" by simp_all
  qed
  from filtered obtain rs2 where r2: "rows X db q = Inr rs2" "width_is s rs2 \<Longrightarrow> width_is s rs1"
    "width_is s rs2 \<Longrightarrow> (if cond = InvalidExpr then Inr rs2 else filter_r (\<lambda>row. truth X ?H cond (drop ?g row) row) rs2) = Inr rs1"
    by blast
  have len: "length (columns s) = length (map snd keys) + length ?calls" "length (map snd aggs) = length ?calls" "length (map snd keys) = ?g"
    using s(5) n k by simp_all
  obtain rs0 where r0: "rows X db child = Inr rs0" "width_is s rs2" "sem_groups X groups ?calls (?h, rs0) = Inr (?H, rs2)"
    using groups_rows[OF v r2(1)[unfolded s(8)] len keys inputs types] .
  have items: "map_r (eval_row ?F ?R row) (map snd c4) =
      bound_evals ?F ?R ?H row (drop (?g + length (agg_calls cond)) row) items"
    and header: "map (\<lambda>(n, e). (n, GetReturnType e)) c4 = item_header ?H items" if w: "length row = ?g + ?n" for row
  proof -
    have a: "on_row.aggs_planned ?F ?R row (snd top) (drop ?g row)"
      using vals[OF w] unfolding on_row.aggs_planned_def top(3) .
    note C = on_row.expressions_planned[OF row_columns s(10) a, unfolded top(1) H]
    show "map_r (eval_row ?F ?R row) (map snd c4) = bound_evals ?F ?R ?H row (drop (?g + length (agg_calls cond)) row) items"
      using C calls_rewritten[OF s(3), of ?H ?F ?R row] by (simp add: top(2) drop_drop ac_simps)
    show "map (\<lambda>(n, e). (n, GetReturnType e)) c4 = item_header ?H items"
      using C calls_rewritten[OF s(3), of ?H] planned_header[of c4 items' ?H] by simp
  qed
  have "map_r (\<lambda>row. bound_evals ?F ?R ?H row (drop (?g + length (agg_calls cond)) row) items) rs1 = Inr rs"
    using r1(3) r2(2)[OF r0(2)] map_r_cong_set[of rs1 "\<lambda>row. map_r (eval_row ?F ?R row) (map snd c4)"
      "\<lambda>row. bound_evals ?F ?R ?H row (drop (?g + length (agg_calls cond)) row) items"]
    by (simp add: items list_all_iff GetColumnCount_def s(5) k del: map_map)
  moreover have "header_of (OutputSchema p) = item_header ?H items"
    using r1(4) header[of "replicate (?g + ?n) undefined"] by simp
  ultimately have "sem_aggregate X groups cond items (?h, rs0) = Inr (header_of (OutputSchema p), rs)"
    by (simp only: sem_aggregate_def r0(3) bind_r.simps prod.case r2(3)[OF r0(2)])
  then show thesis using that[OF r0(1) r1(2)] by simp
qed

end
