(* ===== verification/Planner_Statements.thy ===== *)
theory Planner_Statements
  imports Planner_Aggregates
begin

text \<open>DISTINCT, ORDER BY and LIMIT, and whole statements: a planned SELECT has the rows that it means.\<close>

section \<open>DISTINCT, ORDER BY and LIMIT\<close>

lemma all_columns_row:
  assumes "length row = length (columns s)"
  shows "map_r (eval_row F R row) (map (\<lambda>i. column_ref 0 i s) [0..<length (columns s)]) = Inr row"
proof -
  have "map_r (eval_row F R row) (map (\<lambda>i. column_ref 0 i s) is) = Inr (map ((!) row) is)" if "\<forall>i\<in>set is. i < length row" for "is"
    using that by (induction "is") (auto simp: column_ref_def row_column_def)
  from this[of "[0..<length row]"] map_nth[of row] show ?thesis using assms by simp
qed

lemma group_keys_only: "group_rows ov F 0 [] (map (\<lambda>r. (r, [])) rs) = Inr (map (\<lambda>r. (r, [])) (firsts rs))"
proof -
  have "fold_r (\<lambda>v acc. CombineAggregateValues ov F 0 [] acc v) vs [] = Inr []" for vs
    by (induction vs) (simp_all add: CombineAggregateValues_def)
  moreover have "map_r (\<lambda>k. Inr (k, [])) ks = Inr (map (\<lambda>k. (k, [])) ks)" for ks :: "'b list"
    by (induction ks) simp_all
  ultimately show ?thesis by (simp add: group_rows_def GenerateInitialAggregateValue_def comp_def)
qed

lemma keyed_by_self: "(\<And>row. row \<in> set rs \<Longrightarrow> k row = Inr row) \<Longrightarrow> keyed_rows k (\<lambda>row. Inr []) rs = Inr (map (\<lambda>r. (r, [])) rs)"
  by (induction rs) (simp_all add: keyed_rows_def)

lemma visits_pairs:
  assumes "visits_all X" shows "map (\<lambda>(k, v). k @ v) (ctx_order X (map (\<lambda>r. (r, [])) rs)) = map fst (ctx_order X (map (\<lambda>r. (r, [])) rs))"
proof -
  have "set (ctx_order X (map (\<lambda>r. (r, [])) rs)) = set (map (\<lambda>r. (r, [])) rs)"
    using assms unfolding visits_all_def by (metis mset_eq_setD)
  then show ?thesis by (auto simp: case_prod_beta)
qed

lemma distinct_rows:
  assumes v: "visits_all X" and r: "rows X db (plan_distinct dist child) = Inr rs"
    and w: "\<And>rs. rows X db child = Inr rs \<Longrightarrow> width_is (OutputSchema child) rs"
  obtains rs0 where "rows X db child = Inr rs0" "width_is (OutputSchema child) rs"
    "OutputSchema (plan_distinct dist child) = OutputSchema child"
    "sem_distinct X dist (header_of (OutputSchema child), rs0) = Inr (header_of (OutputSchema child), rs)"
proof (cases dist)
  case False
  then have "plan_distinct dist child = child" "sem_distinct X dist rel = Inr rel" for rel
    by (auto simp: plan_distinct_def sem_distinct_def)
  then show thesis using that[of rs] w r by simp
next
  case True
  let ?F = "ctx_floats X" and ?s = "OutputSchema child"
  have p: "plan_distinct dist child = AggregationPlan ?s child (map (\<lambda>i. column_ref 0 i ?s) [0..<length (columns ?s)]) [] []"
    using True by (simp add: plan_distinct_def)
  from r p obtain rs0 where r0: "rows X db child = Inr rs0" by (auto simp: result_simps)
  note w0 = w[OF r0]
  have keyed: "keyed_rows (\<lambda>row. map_r (eval_row ?F (ctx_regex X) row) (map (\<lambda>i. column_ref 0 i ?s) [0..<length (columns ?s)])) (\<lambda>row. Inr []) rs0 =
      Inr (map (\<lambda>r. (r, [])) rs0)"
    using w0 by (intro keyed_by_self all_columns_row) (simp add: list_all_iff GetColumnCount_def)
  have "map_r f [] = Inr []" for f :: "'a expr \<Rightarrow> 'a Value result" by simp
  from r obtain gs where s: "plain_keys ?F rs0" "finish_aggregation ?F ?s [] (map (\<lambda>r. (r, [])) (firsts rs0)) = Inr gs"
    "map_r (\<lambda>(k, v). fit ?F ?s (k @ v)) (ctx_order X gs) = Inr rs"
    unfolding p rows.simps r0 bind_r.simps map_r.simps keyed list.size group_keys_only
    by (auto simp: comp_def result_simps group_keys_only split: if_splits)
  have *: "list_all2 (\<lambda>g row. row = fst g @ snd g \<and> length row = GetColumnCount ?s) (ctx_order X gs) rs"
    using s(3) by (auto simp: map_r_Inr_iff elim!: list_all2_mono dest: fit_width)
  then have rs: "rs = map (\<lambda>(k, v). k @ v) (ctx_order X gs)"
    by (intro nth_equalityI) (auto simp: list_all2_conv_all_nth case_prod_beta)
  from * have w1: "width_is ?s rs" by (auto simp: list_all2_conv_all_nth list_all_length)
  have "gs = map (\<lambda>r. (r, [])) (firsts rs0)"
  proof (rule ccontr)
    assume "gs \<noteq> map (\<lambda>r. (r, [])) (firsts rs0)"
    then have "gs = [([], [])]" "GetColumnCount ?s = 1"
      using s(2) by (auto simp: finish_aggregation_def GenerateInitialAggregateValue_def split: if_splits)
    then show False using rs w1 visits_single[OF v] by simp
  qed
  then have "sem_distinct X dist (header_of ?s, rs0) = Inr (header_of ?s, rs)"
    using True s(1) rs visits_pairs[OF v] by (simp add: sem_distinct_def)
  moreover have "OutputSchema (plan_distinct dist child) = ?s" by (simp add: plan_distinct_def)
  ultimately show thesis using that[OF r0 w1] by blast
qed

text \<open>Where no calls are planned, each expression evaluates to its meaning.\<close>

lemma each_planned:
  "PlanExpressions [child] es new_context = Inr (items, ctx) \<Longrightarrow>
    list_all2 (\<lambda>i e. \<forall>row. eval_row F R row (snd i) = bound_eval F R (header_of (OutputSchema child)) row [] e) items es"
proof (induction es arbitrary: items)
  case (Cons e es)
  from Cons.prems obtain n pe c rest where s: "PlanExpression [child] e new_context = Inr (n, pe, c)"
    "PlanExpressions [child] es c = Inr (rest, ctx)" "items = (n, pe) # rest" by (auto simp: result_simps)
  have "c = new_context" using no_calls[OF s(1)] by (simp add: new_context_def)
  then show ?case using Cons.IH s on_row.expression_planned[OF row_columns s(1) on_row.no_aggs_planned] by simp
qed simp

lemma order_less_planned:
  assumes "list_all2 (\<lambda>i e. \<forall>row. value (snd i) row = value' e row) items (map snd obs)"
  shows "order_less F value (zip (map fst obs) (map snd items)) = order_less F value' obs"
proof -
  have "order_less F value (zip (map fst obs) (map snd items)) a b = order_less F value' obs a b" for a b
    using assms
  proof (induction obs arbitrary: items)
    case (Cons o1 obs)
    then obtain i rest where "items = i # rest" "\<forall>row. value (snd i) row = value' (snd o1) row"
      "list_all2 (\<lambda>i e. \<forall>row. value (snd i) row = value' e row) rest (map snd obs)"
      by (auto simp: list_all2_Cons2)
    with Cons.IH[of rest] show ?case by (cases o1) (simp add: Let_def cong: if_cong)
  qed simp
  then show ?thesis by (simp add: fun_eq_iff)
qed

lemma order_by_rows:
  assumes p: "plan_order_by obs child = Inr p" and r: "rows X db p = Inr rs"
    and w: "\<And>rs. rows X db child = Inr rs \<Longrightarrow> width_is (OutputSchema child) rs"
  obtains rs0 where "rows X db child = Inr rs0" "width_is (OutputSchema child) rs" "OutputSchema p = OutputSchema child"
    "sem_order_by X obs (header_of (OutputSchema child), rs0) = Inr (header_of (OutputSchema child), rs)"
proof (cases "obs = []")
  case True
  then have "p = child" "sem_order_by X obs rel = Inr rel" for rel using p by (auto simp: plan_order_by_def sem_order_by_def)
  then show thesis using that[of rs] w r by blast
next
  case False
  with p obtain items c where i: "PlanExpressions [child] (map snd obs) new_context = Inr (items, c)"
    "p = SortPlan (OutputSchema child) child (zip (map fst obs) (map snd items))"
    by (auto simp: plan_order_by_def result_simps)
  note less = order_less_planned[OF each_planned[OF i(1), of "ctx_floats X" "ctx_regex X"], of "ctx_floats X"]
  from r i(2) obtain rs0 where r0: "rows X db child = Inr rs0"
    "std_sort (row_less X (zip (map fst obs) (map snd items))) rs0 = Inr rs"
    by (auto simp: result_simps same_layout_def)
  have "std_sort (order_less (ctx_floats X) (\<lambda>e row. bound_eval (ctx_floats X) (ctx_regex X) (header_of (OutputSchema child)) row [] e) obs) rs0 = Inr rs"
    using r0(2) unfolding row_less_def less .
  moreover have "width_is (OutputSchema child) rs"
    using w[OF r0(1)] mset_eq_setD[OF std_sort_sorted(1)[OF r0(2)]] by (simp add: list_all_iff)
  ultimately show thesis using that[OF r0(1)] False i(2) by (simp add: sem_order_by_def)
qed

lemma limit_rows:
  assumes p: "plan_limit (ctx_floats X) cnt offset child = Inr p" and r: "rows X db p = Inr rs"
    and w: "\<And>rs. rows X db child = Inr rs \<Longrightarrow> width_is (OutputSchema child) rs"
  obtains rs0 where "rows X db child = Inr rs0" "width_is (OutputSchema child) rs" "OutputSchema p = OutputSchema child"
    "sem_limit X cnt (header_of (OutputSchema child), rs0) = Inr (header_of (OutputSchema child), rs)"
proof (cases "cnt = InvalidExpr \<and> offset = InvalidExpr")
  case True
  then have "p = child" "sem_limit X cnt rel = Inr rel" for rel using p by (auto simp: plan_limit_def sem_limit_def)
  then show thesis using that[of rs] w r by blast
next
  case False
  with p have "cnt \<noteq> InvalidExpr \<and> (\<exists>n. constant_count (ctx_floats X) cnt = Inr n \<and> p = LimitPlan (OutputSchema child) child n)"
    by (cases "cnt = InvalidExpr") (auto simp: plan_limit_def optional_count_def result_simps split: if_splits)
  then obtain n where n: "cnt \<noteq> InvalidExpr" "constant_count (ctx_floats X) cnt = Inr n" "p = LimitPlan (OutputSchema child) child n"
    by blast
  from r n(3) obtain rs0 where r0: "rows X db child = Inr rs0" "rs = take n rs0"
    by (auto simp: result_simps same_layout_def split: if_splits)
  have "width_is (OutputSchema child) rs" using w[OF r0(1)] r0(2) by (auto simp: list_all_iff dest: in_set_takeD)
  then show thesis using that[OF r0(1)] n r0(2) by (simp add: sem_limit_def)
qed

section \<open>All clauses\<close>

lemma clauses_rows:
  assumes v: "visits_all X" and p: "plan_clauses (ctx_floats X) s child uid = Inr (p, cond, items, uid')" and r: "rows X db p = Inr rs"
    and w: "\<And>rs. rows X db child = Inr rs \<Longrightarrow> width_is (OutputSchema child) rs"
  obtains rs0 where "rows X db child = Inr rs0" "width_is (OutputSchema p) rs"
    "sem_clauses X s uid (header_of (OutputSchema child), rs0) = Inr ((header_of (OutputSchema p), rs), uid')"
proof -
  from p obtain p1 agg p2 p3 where s: "plan_where (where_clause s) child = Inr p1"
    "any_aggregation (select_list s) = Inr agg"
    "(if having s \<noteq> InvalidExpr \<or> group_by s \<noteq> [] \<or> agg
      then bind_r (PlanSelectAgg (group_by s) (having s) (select_list s) p1) (\<lambda>(plan, cond, items). Inr (plan, cond, items, uid))
      else bind_r (plan_items (select_list s) p1 uid) (\<lambda>(plan, uid). Inr (plan, having s, select_list s, uid))) = Inr (p2, cond, items, uid')"
    "plan_order_by (sort_clause s) (plan_distinct (is_distinct s) p2) = Inr p3"
    "plan_limit (ctx_floats X) (limit_count s) (limit_offset s) p3 = Inr p"
    unfolding plan_clauses_def by (auto simp: result_simps simp del: bind_r.simps)
  have W: "\<exists>rs1. rows X db p1 = Inr rs1 \<and> width_is (OutputSchema p2) rs2 \<and>
      (if having s \<noteq> InvalidExpr \<or> group_by s \<noteq> [] \<or> agg
       then bind_r (sem_aggregate X (group_by s) (having s) (select_list s) (header_of (OutputSchema p1), rs1)) (\<lambda>rel. Inr (rel, uid))
       else sem_items X (select_list s) uid (header_of (OutputSchema p1), rs1)) = Inr ((header_of (OutputSchema p2), rs2), uid')"
    if r2: "rows X db p2 = Inr rs2" for rs2
  proof (cases "having s \<noteq> InvalidExpr \<or> group_by s \<noteq> [] \<or> agg")
    case True
    with s(3) have a: "PlanSelectAgg (group_by s) (having s) (select_list s) p1 = Inr (p2, cond, items)" "uid' = uid"
      by (auto simp: result_simps)
    from aggregate_rows[OF v a(1) r2] obtain rs1 where "rows X db p1 = Inr rs1" "width_is (OutputSchema p2) rs2"
      "sem_aggregate X (group_by s) (having s) (select_list s) (header_of (OutputSchema p1), rs1) = Inr (header_of (OutputSchema p2), rs2)" .
    then show ?thesis using True a(2) by (intro exI[of _ rs1]) (simp only: if_True bind_r.simps simp_thms)
  next
    case False
    with s(3) have a: "plan_items (select_list s) p1 uid = Inr (p2, uid')" by (auto simp: result_simps)
    from items_rows[OF a r2] False show ?thesis by (metis (no_types, lifting))
  qed
  have w2: "width_is (OutputSchema p2) rs2" if "rows X db p2 = Inr rs2" for rs2 using W[OF that] by blast
  have d: "OutputSchema (plan_distinct dist q) = OutputSchema q" for dist and q :: "'a plan" by (simp add: plan_distinct_def)
  have w3: "width_is (OutputSchema (plan_distinct (is_distinct s) p2)) rs3" if "rows X db (plan_distinct (is_distinct s) p2) = Inr rs3" for rs3
    using distinct_rows[OF v that w2] d by metis
  have w4: "width_is (OutputSchema p3) rs4" if "rows X db p3 = Inr rs4" for rs4
    using order_by_rows[OF s(4) that w3] by metis
  obtain rs4 where r4: "rows X db p3 = Inr rs4" "width_is (OutputSchema p3) rs" "OutputSchema p = OutputSchema p3"
    "sem_limit X (limit_count s) (header_of (OutputSchema p3), rs4) = Inr (header_of (OutputSchema p3), rs)"
    using limit_rows[OF s(5) r w4] .
  obtain rs3 where r3: "rows X db (plan_distinct (is_distinct s) p2) = Inr rs3" "OutputSchema p3 = OutputSchema p2"
    "sem_order_by X (sort_clause s) (header_of (OutputSchema p2), rs3) = Inr (header_of (OutputSchema p2), rs4)"
    using order_by_rows[OF s(4) r4(1) w3] d by metis
  obtain rs2 where r2: "rows X db p2 = Inr rs2"
    "sem_distinct X (is_distinct s) (header_of (OutputSchema p2), rs2) = Inr (header_of (OutputSchema p2), rs3)"
    using distinct_rows[OF v r3(1) w2] .
  from W[OF r2(1)] obtain rs1 where r1: "rows X db p1 = Inr rs1"
    "(if having s \<noteq> InvalidExpr \<or> group_by s \<noteq> [] \<or> agg
       then bind_r (sem_aggregate X (group_by s) (having s) (select_list s) (header_of (OutputSchema p1), rs1)) (\<lambda>rel. Inr (rel, uid))
       else sem_items X (select_list s) uid (header_of (OutputSchema p1), rs1)) = Inr ((header_of (OutputSchema p2), rs2), uid')" by blast
  obtain rs0 where r0: "rows X db child = Inr rs0"
    "sem_where X (where_clause s) (header_of (OutputSchema child), rs0) = Inr (header_of (OutputSchema p1), rs1)"
    using where_rows[OF s(1) r1(1) w] .
  have "sem_clauses X s uid (header_of (OutputSchema child), rs0) = Inr ((header_of (OutputSchema p), rs), uid')"
    unfolding sem_clauses_def r4(3) r0(2) s(2) bind_r.simps r1(2) prod.case r2(2) r3(3)
    using r4(4) r3(2) by simp
  then show thesis using that[OF r0(1)] r4(2,3) by simp
qed

end
