(* ===== verification/Planner_Tables.thy ===== *)
theory Planner_Tables
  imports Planner_Statements
begin

text \<open>FROM clauses and whole statements: a planned SELECT has the rows that it means.\<close>

section \<open>Joins\<close>

lemma header_join [simp]: "header_of (InferJoinSchema left right) = header_of (OutputSchema left) @ header_of (OutputSchema right)"
  by (simp add: InferJoinSchema_def) (simp add: header_of_def)

lemma null_values_header: "null_values F s = map_r (GetNullValueByType F) (map snd (header_of s))"
proof -
  have "map_r (\<lambda>c. g (column_type c)) cs = map_r g (map column_type cs)" for g :: "TypeId \<Rightarrow> 'b result" and cs
    by (induction cs) simp_all
  then show ?thesis by (simp only: null_values_def header_types)
qed

lemma padded_rows:
  assumes "padded F rsch out outer l ms = Inr xs"
  shows "(if outer \<and> ms = [] then bind_r (map_r (GetNullValueByType F) (map snd (header_of rsch))) (\<lambda>nulls. Inr [l @ nulls])
    else Inr (map (\<lambda>r. l @ r) ms)) = Inr xs"
proof (cases "outer \<and> ms = []")
  case True
  with assms show ?thesis by (auto simp: padded_def null_values_header result_simps dest: fit_width)
next
  case False
  with assms have "map_r (\<lambda>r. bind_r (Inr (l @ r)) (fit F out)) ms = Inr xs" by (auto simp: padded_def)
  from fitted_rows(1)[OF this] have "list_all2 (\<lambda>r x. Inr (l @ r) = (Inr x :: 'a Value list result)) ms xs" by (simp add: map_r_Inr_iff)
  then have "xs = map (\<lambda>r. l @ r) ms" by (intro nth_equalityI) (auto simp: list_all2_conv_all_nth)
  then show ?thesis by (simp only: if_not_P[OF False])
qed

lemma join_rows:
  assumes j: "loop_join (ctx_floats X) m rsch out outer ls rs = Inr zs"
    and m: "\<And>l r. l \<in> set ls \<Longrightarrow> r \<in> set rs \<Longrightarrow> m l r = matched (l @ r)"
  shows "sem_join X outer matched (lh, ls) (header_of rsch, rs) = Inr (lh @ header_of rsch, zs)"
proof -
  let ?F = "ctx_floats X"
  from j obtain xss where x: "map_r (\<lambda>l. bind_r (filter_r (m l) rs) (padded ?F rsch out outer l)) ls = Inr xss" "zs = concat xss"
    by (auto simp: loop_join_def result_simps split: if_splits)
  have "map_r (\<lambda>l. bind_r (filter_r (\<lambda>r. matched (l @ r)) rs) (\<lambda>ms.
       if outer \<and> ms = [] then bind_r (map_r (GetNullValueByType ?F) (map snd (header_of rsch))) (\<lambda>nulls. Inr [l @ nulls])
       else Inr (map (\<lambda>r. l @ r) ms))) ls = Inr xss"
    using x(1) m
  proof (induction ls arbitrary: xss)
    case (Cons l ls)
    from Cons.prems(1) obtain ms xs rest where s: "filter_r (m l) rs = Inr ms" "padded ?F rsch out outer l ms = Inr xs"
      "map_r (\<lambda>l. bind_r (filter_r (m l) rs) (padded ?F rsch out outer l)) ls = Inr rest" "xss = xs # rest"
      by (auto simp: result_simps)
    have "filter_r (\<lambda>r. matched (l @ r)) rs = Inr ms"
      using s(1) Cons.prems(2) filter_r_cong_set[of rs "\<lambda>r. matched (l @ r)" "m l"] by simp
    with Cons.IH[OF s(3)] Cons.prems(2) padded_rows[OF s(2)] s(4) show ?case by simp
  qed simp
  then show ?thesis using x(2) by (simp add: sem_join_def)
qed

lemma planned_join_rows:
  assumes p: "PlanJoinRef jt cond left right = Inr p" and r: "rows X db p = Inr rs"
    and wl: "\<And>rs. rows X db left = Inr rs \<Longrightarrow> width_is (OutputSchema left) rs"
    and wr: "\<And>rs. rows X db right = Inr rs \<Longrightarrow> width_is (OutputSchema right) rs"
  obtains ls rrs where "rows X db left = Inr ls" "rows X db right = Inr rrs" "width_is (OutputSchema p) rs" "jt = INNER \<or> jt = LEFT"
    "sem_join X (jt = LEFT) (truth X (header_of (OutputSchema left) @ header_of (OutputSchema right)) cond [])
      (header_of (OutputSchema left), ls) (header_of (OutputSchema right), rrs) = Inr (header_of (OutputSchema p), rs)"
proof -
  let ?F = "ctx_floats X" and ?h = "header_of (OutputSchema left) @ header_of (OutputSchema right)"
  from p obtain n e c where e: "PlanExpression [left, right] cond new_context = Inr (n, e, c)"
    "p = NestedLoopJoinPlan (InferJoinSchema left right) left right e jt"
    by (auto simp: PlanJoinRef_def result_simps)
  from r e(2) obtain ls rrs where s: "rows X db left = Inr ls" "rows X db right = Inr rrs" "join_supported jt"
    "loop_join ?F (\<lambda>l r. bind_r (eval_join ?F (ctx_regex X) l r e) holds) (OutputSchema right) (InferJoinSchema left right) (jt = LEFT) ls rrs = Inr rs"
    by (auto simp: result_simps)
  have "eval_join ?F (ctx_regex X) l r e = bound_eval ?F (ctx_regex X) ?h (l @ r) [] cond" if "l \<in> set ls" "r \<in> set rrs" for l r
  proof -
    have "length l = length (columns (OutputSchema left))" "length r = length (columns (OutputSchema right))"
      using wl[OF s(1)] wr[OF s(2)] that by (auto simp: list_all_iff GetColumnCount_def)
    from on_join.expression_planned[OF join_columns_planned[OF this] e(1) on_join.no_aggs_planned] show ?thesis by simp
  qed
  then have "sem_join X (jt = LEFT) (truth X ?h cond []) (header_of (OutputSchema left), ls) (header_of (OutputSchema right), rrs) = Inr (?h, rs)"
    using join_rows[OF s(4), of "truth X ?h cond []" "header_of (OutputSchema left)"] by (simp add: truth_def)
  moreover have "width_is (OutputSchema p) rs" using join_width(1)[OF s(4)] e(2) by simp
  ultimately show thesis using that[OF s(1,2)] s(3) e(2) by (auto simp: join_supported_def)
qed

lemma cross_product_rows:
  assumes p: "PlanCrossProductRef left right = Inr p" and r: "rows X db p = Inr rs"
  obtains ls rrs where "rows X db left = Inr ls" "rows X db right = Inr rrs" "width_is (OutputSchema p) rs"
    "sem_join X False (\<lambda>_. Inr True) (header_of (OutputSchema left), ls) (header_of (OutputSchema right), rrs) =
      Inr (header_of (OutputSchema p), rs)"
proof -
  let ?F = "ctx_floats X"
  from p obtain v where v: "GetBooleanValue_bool True = Inr v"
    "p = NestedLoopJoinPlan (InferJoinSchema left right) left right (Constant v) INNER"
    by (auto simp: PlanCrossProductRef_def result_simps)
  have h: "holds v = Inr True"
    using v(1) by (auto simp: GetBooleanValue_bool_def holds_def IsNull_def store_int_def int_null_def swrap_def get_bool_def BUSTUB_VALUE_NULL_def)
  from r v(2) obtain ls rrs where s: "rows X db left = Inr ls" "rows X db right = Inr rrs"
    "loop_join ?F (\<lambda>l r. bind_r (Inr v) holds) (OutputSchema right) (InferJoinSchema left right) False ls rrs = Inr rs"
    by (auto simp: result_simps)
  have "sem_join X False (\<lambda>_. Inr True) (header_of (OutputSchema left), ls) (header_of (OutputSchema right), rrs) =
      Inr (header_of (OutputSchema left) @ header_of (OutputSchema right), rs)"
    by (rule join_rows[OF s(3)]) (simp add: h)
  then show thesis using that[OF s(1,2)] join_width(1)[OF s(3)] v(2) by simp
qed

section \<open>Base tables, VALUES and subqueries\<close>

text \<open>
  The pages in view hold the rows \<open>db\<close> of every table of the catalog, and no table has the name of
  an internal one.
\<close>

definition database :: "'d exec_ctx \<Rightarrow> view \<Rightarrow> (nat \<Rightarrow> 'd Value list list) \<Rightarrow> bool" where
  "database X V db \<longleftrightarrow> (\<forall>name info. GetTable_name name (ctx_catalog X) = Inr (Some info) \<longrightarrow>
     StartsWith (ti_name info) ''__'' = Inr False \<and> table_holds X V (ti_oid info) (db (ti_oid info)))"

lemma held_width:
  assumes "table_holds X V oid rs"
  obtains schema first where "table_of X oid = Inr (schema, first)" "width_is schema rs"
proof -
  from assms obtain schema first ts where t: "table_of X oid = Inr (schema, first)" "list_all2 (reads_as (ctx_floats X) schema) ts rs"
    unfolding table_holds_def by blast
  from t(2) have "width_is schema rs" by (auto simp: list_all2_conv_all_nth list_all_length reads_as_def)
  with t(1) show thesis by (rule that)
qed

lemma planned_scan:
  assumes "PlanBaseTableRef mock (ctx_catalog X) table alias schema = Inr p" "database X V db"
  obtains info where "GetTable_name table (ctx_catalog X) = Inr (Some info)" "table_holds X V (ti_oid info) (db (ti_oid info))"
    "p = SeqScanPlan (InferScanSchema (GetBoundTableName table alias) schema) (ti_oid info) (ti_name info) None"
proof -
  from assms(1) obtain info where i: "GetTable_name table (ctx_catalog X) = Inr (Some info)"
    by (auto simp: PlanBaseTableRef_def result_simps split: option.splits)
  with assms show thesis using that by (auto simp: PlanBaseTableRef_def Let_def database_def)
qed

lemma scan_rows:
  assumes p: "PlanBaseTableRef mock (ctx_catalog X) table alias schema = Inr p" and r: "rows X db p = Inr rs"
    and d: "database X V db"
  shows "width_is (OutputSchema p) rs"
    and "sem_table X db (BaseTableRef table oid alias schema) uid = Inr ((header_of (OutputSchema p), rs), uid)"
proof -
  from planned_scan[OF p d] obtain info where i: "GetTable_name table (ctx_catalog X) = Inr (Some info)"
    "table_holds X V (ti_oid info) (db (ti_oid info))"
    and q: "p = SeqScanPlan (InferScanSchema (GetBoundTableName table alias) schema) (ti_oid info) (ti_name info) None" .
  obtain s first where w: "table_of X (ti_oid info) = Inr (s, first)" "width_is s (db (ti_oid info))" using held_width[OF i(2)] .
  have f: "filter_r (\<lambda>row. Inr True) xs = Inr xs" for xs :: "'a Value list list" by (induction xs) simp_all
  from r q w(1) have t: "rs = db (ti_oid info)" "layout (InferScanSchema (GetBoundTableName table alias) schema) = layout s"
    by (auto simp: result_simps f same_layout_def split: if_splits)
  show "width_is (OutputSchema p) rs" using w(2) t(1) layout_count[OF t(2)] q by simp
  have "header_of (InferScanSchema bn schema) = map (\<lambda>(n, T). (bn @ ''.'' @ n, T)) (header_of schema)" for bn
    by (simp add: InferScanSchema_def rename_Column_def) (simp add: header_of_def)
  then show "sem_table X db (BaseTableRef table oid alias schema) uid = Inr ((header_of (OutputSchema p), rs), uid)"
    using i(1) t(1) q by simp
qed

lemma value_column_header:
  "value_column identifier i e = Inr c \<Longrightarrow>
   (column_name c, column_type c) = (identifier @ ''.'' @ to_string_int (int i), GetReturnType e)"
  by (auto simp: value_column_def new_Column_def new_varlen_Column_def Let_def result_simps split: if_splits)

lemma plan_values_each:
  "plan_values values = Inr all_exprs \<Longrightarrow>
   list_all2 (\<lambda>row es. map GetReturnType es = map (bound_type []) row \<and>
     map_r (eval_row F R []) es = map_r (bound_eval F R [] [] []) row) values all_exprs"
proof (induction "values" arbitrary: all_exprs)
  case (Cons row vs)
  from Cons.prems obtain items c rest where s: "PlanExpressions [] row new_context = Inr (items, c)"
    "plan_values vs = Inr rest" "all_exprs = map snd items # rest" by (auto simp: result_simps)
  have "concat (map agg_calls row) = []" using no_calls_list[OF s(1)] by (simp add: new_context_def)
  then show ?case
    using Cons.IH[OF s(2)] s(3) evals_without_calls
      on_row.expressions_planned[OF no_columns[of F R "[]" "[]"] s(1) on_row.no_aggs_planned] by (simp add: comp_def)
qed simp

lemma planned_values:
  assumes "PlanExpressionListRef values identifier = Inr p"
  obtains es rest cols where "plan_values values = Inr (es # rest)"
    "map_r (\<lambda>(i, e). value_column identifier i e) (enumerate 0 es) = Inr cols" "p = ValuesPlan (new_Schema cols) (es # rest)"
  using assms by (cases "plan_values values"; cases "projr (plan_values values)") (auto simp: PlanExpressionListRef_def result_simps)

lemma values_rows:
  assumes p: "PlanExpressionListRef values identifier = Inr p" and r: "rows X db p = Inr rs"
  shows "width_is (OutputSchema p) rs"
    and "sem_table X db (ExpressionListRef values identifier) uid = Inr ((header_of (OutputSchema p), rs), uid)"
proof -
  let ?F = "ctx_floats X" and ?R = "ctx_regex X"
  obtain es rest cols where s: "plan_values values = Inr (es # rest)"
    "map_r (\<lambda>(i, e). value_column identifier i e) (enumerate 0 es) = Inr cols" "p = ValuesPlan (new_Schema cols) (es # rest)"
    using planned_values[OF p] .
  note each = plan_values_each[OF s(1), of ?F ?R]
  from r s(3) have f: "map_r (\<lambda>es. bind_r (map_r (eval_row ?F ?R []) es) (fit ?F (new_Schema cols))) (es # rest) = Inr rs" by simp
  show "width_is (OutputSchema p) rs" using fitted_rows(2)[OF f] s(3) by simp
  have "map_r (\<lambda>row. map_r (bound_eval ?F ?R [] [] []) row) values = map_r (map_r (eval_row ?F ?R [])) (es # rest)"
    using each by (induction rule: list_all2_induct) simp_all
  then have v: "map_r (\<lambda>row. map_r (bound_eval ?F ?R [] [] []) row) values = Inr rs" using fitted_rows(1)[OF f] by simp
  from s(2) have l: "length cols = length es" "\<And>i. i < length es \<Longrightarrow> value_column identifier i (es ! i) = Inr (cols ! i)"
    by (auto simp: map_r_Inr_iff list_all2_conv_all_nth nth_enumerate_eq)
  from each obtain row vs where "values = row # vs" and t: "map GetReturnType es = map (bound_type []) row"
    by (cases "values") auto
  then have n: "length row = length es" by (metis length_map)
  have "header_of (new_Schema cols) = values_header identifier row"
  proof (rule nth_equalityI)
    fix i assume "i < length (header_of (new_Schema cols))"
    then have i: "i < length es" using l(1) by simp
    have "GetReturnType (es ! i) = bound_type [] (row ! i)" using arg_cong[OF t, of "\<lambda>l. l ! i"] i n by simp
    then show "header_of (new_Schema cols) ! i = values_header identifier row ! i"
      using value_column_header[OF l(2)[OF i]] i n l(1) by (simp add: values_header_def nth_enumerate_eq del: header_nth)
  qed (use l(1) n in \<open>simp add: values_header_def\<close>)
  then show "sem_table X db (ExpressionListRef values identifier) uid = Inr ((header_of (OutputSchema p), rs), uid)"
    using v s(3) \<open>values = row # vs\<close> by simp
qed

lemma subquery_rows:
  assumes p: "rename_subquery names alias child = Inr p" and r: "rows X db p = Inr rs"
    and w: "\<And>rs. rows X db child = Inr rs \<Longrightarrow> width_is (OutputSchema child) rs"
  shows "rows X db child = Inr rs" and "width_is (OutputSchema p) rs"
    and "header_of (OutputSchema p) = subquery_header names alias (header_of (OutputSchema child))"
proof -
  let ?s = "OutputSchema child" and ?items = "map (\<lambda>i. (alias @ ''.'' @ join_names (names ! i), column_ref 0 i (OutputSchema child) :: 'a expr)) [0..<length (columns (OutputSchema child))]"
  from p have q: "named_projection ?items child = Inr p" by (auto simp: rename_subquery_def Let_def result_simps)
  obtain rs0 where r0: "rows X db child = Inr rs0" "width_is (OutputSchema p) rs"
    "map_r (\<lambda>row. map_r (eval_row (ctx_floats X) (ctx_regex X) row) (map snd ?items)) rs0 = Inr rs"
    "header_of (OutputSchema p) = map (\<lambda>(n, e). (n, GetReturnType e)) ?items" using projection_rows[OF q r] .
  have "map_r (\<lambda>row. map_r (eval_row (ctx_floats X) (ctx_regex X) row) (map snd ?items)) rs0 = map_r Inr rs0"
    using w[OF r0(1)] by (intro map_r_cong_set) (simp add: comp_def all_columns_row list_all_iff GetColumnCount_def)
  moreover have "map_r Inr xs = Inr xs" for xs :: "'a Value list list" by (induction xs) simp_all
  ultimately show "rows X db child = Inr rs" using r0(1,3) by simp
  show "width_is (OutputSchema p) rs" by (rule r0(2))
  show "header_of (OutputSchema p) = subquery_header names alias (header_of ?s)"
    using r0(4) by (simp add: subquery_header_def column_ref_def)
qed

end
