(* ===== verification/Planner_Plans.thy ===== *)
theory Planner_Plans
  imports Planner_Tables
begin

text \<open>Plans of the planner are plans that the optimizer's rules preserve.\<close>

section \<open>Well-formed statements\<close>

primrec strip_alias :: "'d bound_expr \<Rightarrow> 'd bound_expr" where
  "strip_alias InvalidExpr = InvalidExpr"
| "strip_alias (BoundConstant v) = BoundConstant v"
| "strip_alias (BoundColumnRef n) = BoundColumnRef n"
| "strip_alias (BoundAggCall f d args) = BoundAggCall f d args"
| "strip_alias BoundStar = BoundStar"
| "strip_alias (BoundUnaryOp op e) = BoundUnaryOp op e"
| "strip_alias (BoundBinaryOp op l r) = BoundBinaryOp op l r"
| "strip_alias (BoundAlias a e) = strip_alias e"

text \<open>A condition that is a constant is true or false.\<close>

definition plain_bound :: "'d bound_expr \<Rightarrow> bool" where
  "plain_bound e \<longleftrightarrow> (\<forall>v. strip_alias e = BoundConstant v \<longrightarrow> (\<exists>b. v = bool_value b))"

abbreviation sized :: "Column list \<Rightarrow> bool" where
  "sized \<equiv> list_all (\<lambda>c. TypeSize (column_type c) = Inr (fixed_length c))"

text \<open>
  No CTE references; columns of tables have the sizes of their types; constant conditions are
  Booleans, and occur in inner joins only.
\<close>

primrec wf_table :: "'d table_ref \<Rightarrow> bool" and wf_select :: "'d select \<Rightarrow> bool" where
  "wf_table InvalidTableRef = True"
| "wf_table EmptyTableRef = True"
| "wf_table (BaseTableRef table oid a schema) = sized (columns schema)"
| "wf_table (JoinRef jt left right cond) =
     (wf_table left \<and> wf_table right \<and> plain_bound cond \<and> ((\<exists>v. strip_alias cond = BoundConstant v) \<longrightarrow> jt = INNER))"
| "wf_table (CrossProductRef left right) = (wf_table left \<and> wf_table right)"
| "wf_table (ExpressionListRef values ident) = True"
| "wf_table (SubqueryRef s names a) = wf_select s"
| "wf_table (CTERef cte_name a) = False"
| "wf_select (SelectStatement table items cond groups hv lc lo obs withs dist) =
     (wf_table table \<and> plain_bound cond \<and> plain_bound hv)"

lemma wf_no_cte:
  fixes tr :: "'d table_ref" and s :: "'d select"
  shows "wf_table tr \<Longrightarrow> no_cte tr" and "wf_select s \<Longrightarrow> no_cte_select s"
  by (induction tr and s rule: table_ref.induct select.induct) auto

text \<open>No node of a plan has more columns than fit a tuple.\<close>

definition narrow_schema :: "Schema \<Rightarrow> bool" where
  "narrow_schema s \<longleftrightarrow> length (columns s) \<le> 2 ^ 28"

primrec narrow :: "'d plan \<Rightarrow> bool" where
  "narrow (SeqScanPlan s oid name pred) = narrow_schema s"
| "narrow (ValuesPlan s es) = narrow_schema s"
| "narrow (FilterPlan s pred child) = (narrow_schema s \<and> narrow child)"
| "narrow (ProjectionPlan s exprs child) = (narrow_schema s \<and> narrow child)"
| "narrow (LimitPlan s child n) = (narrow_schema s \<and> narrow child)"
| "narrow (NestedLoopJoinPlan s left right pred jt) = (narrow_schema s \<and> narrow left \<and> narrow right)"
| "narrow (HashJoinPlan s left right lk rk jt) = (narrow_schema s \<and> narrow left \<and> narrow right)"
| "narrow (SortPlan s child obs) = (narrow_schema s \<and> narrow child)"
| "narrow (TopNPlan s child obs n) = (narrow_schema s \<and> narrow child)"
| "narrow (AggregationPlan s child gbs aggs tys) = (narrow_schema s \<and> narrow child)"
| "narrow (InsertPlan s child oid) = (narrow_schema s \<and> narrow child)"
| "narrow (UpdatePlan s child oid exprs) = (narrow_schema s \<and> narrow child)"
| "narrow (DeletePlan s child oid) = (narrow_schema s \<and> narrow child)"

section \<open>Schemas\<close>

lemma fixed_size_bound: "sized cs \<Longrightarrow> fixed_size cs \<le> 12 * length cs"
proof (induction cs)
  case (Cons c cs)
  then have "fixed_length c \<le> 12" by (cases "column_type c") (auto simp: TypeSize_def)
  with Cons show ?case by simp
qed simp

lemma columns_of_new: "columns (new_Schema cs) = place 0 cs" if "fixed_size cs < 2 ^ 32"
  using new_Schema_eq(2)[OF that] .

lemma sized_place [simp]: "sized (place a cs) = sized cs"
  by (induction cs arbitrary: a) simp_all

lemma fixed_size_place [simp]: "fixed_size (place a cs) = fixed_size cs"
  by (induction cs arbitrary: a) simp_all

lemma new_schema_length [simp]: "length (columns (new_Schema cs)) = length cs"
  using header_new_Schema[of cs] by (metis header_length length_map)

lemma made_new:
  assumes "sized cs" "narrow_schema (new_Schema cs)"
  shows "schema_made (new_Schema cs)"
proof -
  have "fixed_size cs < 2 ^ 32" using fixed_size_bound[OF assms(1)] assms(2) by (simp add: narrow_schema_def)
  then show ?thesis using assms(1) schema_ok_new[of cs] columns_of_new[of cs] by (simp add: schema_made_def)
qed

lemma sized_made: "schema_made s \<Longrightarrow> sized (columns s)"
  by (simp add: schema_made_def)

lemma sized_column:
  "new_Column n T = Inr c \<Longrightarrow> TypeSize (column_type c) = Inr (fixed_length c)"
  "new_varlen_Column n T len = Inr c \<Longrightarrow> TypeSize (column_type c) = Inr (fixed_length c)"
  "unnamed_column T len = Inr c \<Longrightarrow> TypeSize (column_type c) = Inr (fixed_length c)"
  by (auto simp: unnamed_column_def new_Column_def new_varlen_Column_def result_simps split: if_splits)

lemma sized_map_r: "map_r f xs = Inr cs \<Longrightarrow> (\<And>x c. f x = Inr c \<Longrightarrow> TypeSize (column_type c) = Inr (fixed_length c)) \<Longrightarrow> sized cs"
  by (rule map_r_all)

text \<open>Renaming: the schema before has as many columns, of the same sizes.\<close>

lemma made_renamed:
  assumes "RenameSchema (new_Schema cs) names = Inr s" "sized cs" "narrow_schema s"
  shows "schema_made s"
proof -
  from assms(1) have s: "s = new_Schema (map2 rename_Column names (columns (new_Schema cs)))" "length names = length cs"
    by (auto simp: RenameSchema_def GetColumnCount_def split: if_splits)
  have "length cs \<le> 2 ^ 28" using assms(3) s by (simp add: narrow_schema_def)
  then have "fixed_size cs < 2 ^ 32" using fixed_size_bound[OF assms(2)] by simp
  then have c: "columns (new_Schema cs) = place 0 cs" by (rule columns_of_new)
  have "sized (map2 rename_Column ns ds)" if "sized ds" for ns ds
    using that by (induction ns ds rule: list_induct2') (simp_all add: rename_Column_def)
  then show ?thesis using made_new assms(2,3) s(1) c by simp
qed

lemma renamed_length:
  assumes "RenameSchema s names = Inr s'"
  shows "length (columns s') = length names"
proof -
  have "length (header_of s') = length names" using RenameSchema_header[OF assms] by (simp del: header_length)
  then show ?thesis by simp
qed

lemma narrow_output: "narrow p \<Longrightarrow> narrow_schema (OutputSchema p)"
  by (cases p) simp_all

lemma named_projection_made:
  assumes "named_projection items child = Inr p" "narrow p"
  shows "schema_made (OutputSchema p)" and "narrow child" and "\<exists>s. p = ProjectionPlan s (map snd items) child"
proof -
  from assms(1) obtain cols s where s: "map_r (\<lambda>e. unnamed_column (GetReturnType e) VARCHAR_DEFAULT_LENGTH) (map snd items) = Inr cols"
    "RenameSchema (new_Schema cols) (map fst items) = Inr s" "p = ProjectionPlan s (map snd items) child"
    by (auto simp: named_projection_def InferProjectionSchema_def result_simps simp del: map_map)
  have "sized cols" by (rule sized_map_r[OF s(1)]) (rule sized_column(3))
  then show "schema_made (OutputSchema p)" using made_renamed[OF s(2)] s(3) assms(2) by simp
qed (use assms in \<open>auto simp: named_projection_def result_simps\<close>)

section \<open>Conditions\<close>

text \<open>Where the planned calls are columns, a planned constant comes from a constant.\<close>

definition agg_columns :: "'d PlannerContext \<Rightarrow> nat \<Rightarrow> bool" where
  "agg_columns ctx n \<longleftrightarrow> (\<forall>e\<in>set (expr_in_agg ctx). \<exists>i<n. e = ColumnValue 0 i INTEGER)"

lemma agg_columns_new [simp]: "agg_columns new_context n"
  by (simp add: agg_columns_def new_context_def)

lemma planned_condition:
  "PlanExpression [child] e ctx = Inr (name, pe, ctx') \<Longrightarrow> agg_columns ctx (length (columns (OutputSchema child))) \<Longrightarrow>
   columns_read pe \<subseteq> {0} \<times> {..<length (columns (OutputSchema child))} \<and> (\<forall>v. pe = Constant v \<longrightarrow> strip_alias e = BoundConstant v) \<and>
   agg_columns ctx' (length (columns (OutputSchema child)))"
proof (induction e arbitrary: ctx name pe ctx')
  case (BoundColumnRef n)
  then show ?case
    by (auto simp: PlanColumnRef_def Let_def result_simps GetColIdx_def TryGetColIdx_header column_ref_def
        dest: column_at_Some split: option.splits)
next
  case (BoundAggCall f d args)
  then have "pe \<in> set (expr_in_agg ctx)" "agg_columns ctx' (length (columns (OutputSchema child)))"
    by (auto simp: agg_columns_def split: if_splits)
  with BoundAggCall.prems(2) show ?case by (auto simp: agg_columns_def)
next
  case (BoundBinaryOp op l r)
  then obtain n1 p1 c1 n2 p2 where s: "PlanExpression [child] l ctx = Inr (n1, p1, c1)" "PlanExpression [child] r c1 = Inr (n2, p2, ctx')"
    "PlanBinaryOp op p1 p2 = Inr pe" by (auto simp: result_simps)
  note 1 = BoundBinaryOp.IH(1)[OF s(1) BoundBinaryOp.prems(2)]
  then have 2: "columns_read p2 \<subseteq> {0} \<times> {..<length (columns (OutputSchema child))}" "agg_columns ctx' (length (columns (OutputSchema child)))"
    using BoundBinaryOp.IH(2)[OF s(2)] by auto
  have "columns_read pe = columns_read p1 \<union> columns_read p2 \<and> (\<forall>v. pe \<noteq> Constant v)"
    using planned_operator[OF s(3)] by (elim disjE conjE) simp_all
  then show ?case using 1 2 by auto
qed (fastforce simp: result_simps)+

lemma planned_join_constant:
  "PlanExpression [left, right] e new_context = Inr (name, Constant v, ctx') \<Longrightarrow> strip_alias e = BoundConstant v"
proof (induction e arbitrary: name ctx')
  case (BoundColumnRef n)
  then show ?case by (auto simp: PlanColumnRef_def Let_def result_simps column_ref_def split: option.splits)
next
  case (BoundBinaryOp op l r)
  then obtain p1 p2 where "PlanBinaryOp op p1 p2 = Inr (Constant v)" by (auto simp: result_simps)
  from planned_operator[OF this] show ?case by auto
next
  case (BoundAggCall f d args)
  then show ?case by (simp add: new_context_def)
qed (auto simp: result_simps)

section \<open>Clauses\<close>

lemma filter_ok:
  assumes "PlanExpression [child] cond ctx = Inr (name, e, ctx')" "agg_columns ctx (length (columns (OutputSchema child)))"
    and "plain_bound cond" "plan_ok X db child"
  shows "plan_ok X db (FilterPlan (OutputSchema child) e child)"
proof -
  from planned_condition[OF assms(1,2)] assms(3) have
    "columns_read e \<subseteq> {0} \<times> {..<GetColumnCount (OutputSchema child)}" "plain_condition e"
    by (auto simp: GetColumnCount_def plain_bound_def plain_condition_def)
  with assms(4) plan_ok_schema[OF assms(4)] show ?thesis by simp
qed

lemma projection_ok:
  assumes "named_projection items child = Inr p" "narrow p" "narrow child \<Longrightarrow> plan_ok X db child"
  shows "plan_ok X db p"
  using named_projection_made[OF assms(1,2)] assms(3) by auto

lemma where_ok:
  assumes "plan_where cond child = Inr p" "plain_bound cond" "narrow p" "narrow child \<Longrightarrow> plan_ok X db child"
  shows "plan_ok X db p"
proof (cases "cond = InvalidExpr")
  case False
  with assms(1) obtain n e c where "PlanExpression [child] cond new_context = Inr (n, e, c)"
    "p = FilterPlan (OutputSchema child) e child" by (auto simp: plan_where_def result_simps)
  then show ?thesis using filter_ok[of child cond new_context n e c] assms by simp
qed (use assms in \<open>simp add: plan_where_def\<close>)

lemma strip_rewritten: "AddAggCallToContext e ctx = Inr (e', ctx') \<Longrightarrow> strip_alias e' = BoundConstant v \<longleftrightarrow> strip_alias e = BoundConstant v"
  by (induction e arbitrary: ctx e' ctx') (fastforce simp: Let_def result_simps)+

lemma aggregate_ok:
  assumes "PlanSelectAgg groups cond items child = Inr (p, cond', items')" "plain_bound cond" "narrow p" "narrow child \<Longrightarrow> plan_ok X db child"
  shows "plan_ok X db p"
proof -
  from assms(1) obtain keys c0 c1 c2 aggs s0 s q c3 top c4 c5 where
    s: "PlanExpressions [child] groups (new_context\<lparr>allow_aggregation := True\<rparr>) = Inr (keys, c0)"
    "(if cond = InvalidExpr then Inr (cond, c0) else AddAggCallToContext cond c0) = Inr (cond', c1)"
    "AddAggCallsToContext items c1 = Inr (items', c2)"
    "InferAggSchema (map snd keys) (map snd aggs) (map fst aggs) = Inr s0"
    "RenameSchema s0 (map fst keys @ map agg_name [0..<length aggs]) = Inr s"
    "c3 = c2\<lparr>expr_in_agg := expr_in_agg c2 @ map (\<lambda>i. ColumnValue 0 (length keys + i) INTEGER) [0..<length aggs]\<rparr>"
    "q = AggregationPlan s child (map snd keys) (map snd aggs) (map fst aggs)"
    "(if cond' = InvalidExpr then Inr (q, c3)
      else bind_r (PlanExpression [q] cond' c3) (\<lambda>(_, e, ctx). Inr (FilterPlan (OutputSchema q) e q, ctx))) = Inr top"
    "PlanExpressions [fst top] items' (snd top) = Inr (c4, c5)" "named_projection c4 (fst top) = Inr p"
    unfolding PlanSelectAgg_def Let_def by (auto simp: result_simps simp del: map_map)
  note P = named_projection_made[OF s(10) assms(3)]
  have out: "OutputSchema q = s" using s(7) by simp
  have narrow: "narrow_schema s" "narrow child"
    using P(2) s(7,8) by (auto simp: result_simps split: if_splits)
  from s(4) obtain ks vs where k: "map_r (\<lambda>e. unnamed_column (GetReturnType e) 128) (map snd keys) = Inr ks"
    "map_r (\<lambda>_. new_Column ''<unnamed>'' INTEGER) (map snd aggs) = Inr vs" "s0 = new_Schema (ks @ vs)"
    by (auto simp: InferAggSchema_def result_simps simp del: map_map)
  have "sized ks" by (rule sized_map_r[OF k(1)]) (rule sized_column(3))
  moreover have "sized vs" by (rule sized_map_r[OF k(2)]) (rule sized_column(1))
  ultimately have "schema_made s" using made_renamed[of "ks @ vs"] s(5) k(3) narrow(1) by simp
  then have q: "plan_ok X db q" using assms(4) narrow(2) s(7) by simp
  have "plan_ok X db (fst top)"
  proof (cases "cond' = InvalidExpr")
    case False
    with s(8) obtain n e where e: "PlanExpression [q] cond' c3 = Inr (n, e, snd top)" "fst top = FilterPlan (OutputSchema q) e q"
      by (auto simp: result_simps)
    have "expr_in_agg c2 = expr_in_agg c0"
      using calls_rewritten[OF s(3), of "[]"] s(2) call_rewritten[of cond c0 cond' c1 "[]"] by (auto split: if_splits)
    moreover have "expr_in_agg c0 = []" using no_calls_list[OF s(1)] by (simp add: new_context_def)
    moreover have "length (columns s) = length keys + length aggs"
      using renamed_length[OF s(5)] by simp
    ultimately have "agg_columns c3 (length (columns (OutputSchema q)))" by (auto simp: agg_columns_def s(6) out)
    moreover have "plain_bound cond'"
      using assms(2) False s(2) strip_rewritten[of cond c0 cond' c1] by (auto simp: plain_bound_def split: if_splits)
    ultimately show ?thesis unfolding e(2) using filter_ok[OF e(1)] q by blast
  qed (use s(8) q in auto)
  then show ?thesis using projection_ok[OF s(10) assms(3)] by blast
qed

lemma clauses_ok:
  assumes p: "plan_clauses F s child uid = Inr (p, cond, items, uid')" and c: "plain_bound (where_clause s)" "plain_bound (having s)"
    and n: "narrow p" and k: "narrow child \<Longrightarrow> plan_ok X db child"
  shows "plan_ok X db p"
proof -
  from p obtain p1 agg p2 p3 where s: "plan_where (where_clause s) child = Inr p1"
    "any_aggregation (select_list s) = Inr agg"
    "(if having s \<noteq> InvalidExpr \<or> group_by s \<noteq> [] \<or> agg
      then bind_r (PlanSelectAgg (group_by s) (having s) (select_list s) p1) (\<lambda>(plan, cond, items). Inr (plan, cond, items, uid))
      else bind_r (plan_items (select_list s) p1 uid) (\<lambda>(plan, uid). Inr (plan, having s, select_list s, uid))) = Inr (p2, cond, items, uid')"
    "plan_order_by (sort_clause s) (plan_distinct (is_distinct s) p2) = Inr p3"
    "plan_limit F (limit_count s) (limit_offset s) p3 = Inr p"
    unfolding plan_clauses_def by (auto simp: result_simps simp del: bind_r.simps)
  have 1: "plan_ok X db p1" if "narrow p1" using where_ok[OF s(1) c(1) that k] .
  have 2: "plan_ok X db p2" if "narrow p2"
  proof (cases "having s \<noteq> InvalidExpr \<or> group_by s \<noteq> [] \<or> agg")
    case True
    with s(3) have "PlanSelectAgg (group_by s) (having s) (select_list s) p1 = Inr (p2, cond, items)" by (auto simp: result_simps)
    from aggregate_ok[OF this c(2) that 1] show ?thesis .
  next
    case False
    with s(3) obtain es where "named_projection es p1 = Inr p2"
      by (cases "PlanExpressions [p1] (select_list s) new_context") (auto simp: plan_items_def result_simps split: prod.splits)
    from projection_ok[OF this that 1] show ?thesis .
  qed
  have 3: "plan_ok X db (plan_distinct (is_distinct s) p2)" if "narrow (plan_distinct (is_distinct s) p2)"
    using that 2 plan_ok_schema[of X db p2] by (auto simp: plan_distinct_def split: if_splits)
  have 4: "plan_ok X db p3" if "narrow p3"
    using that s(4) 3 plan_ok_schema[of X db "plan_distinct (is_distinct s) p2"] by (auto simp: plan_order_by_def result_simps split: if_splits)
  show ?thesis
    using n s(5) 4 plan_ok_schema[of X db p3]
    by (auto simp: plan_limit_def result_simps split: if_splits option.splits)
qed

section \<open>Statements\<close>

lemma join_ok:
  assumes "plan_ok X db left" "plan_ok X db right" "plain_condition e" "(\<exists>v. e = Constant v) \<longrightarrow> jt = INNER"
    and "narrow_schema (InferJoinSchema left right)"
  shows "plan_ok X db (NestedLoopJoinPlan (InferJoinSchema left right) left right e jt)"
  using assms sized_made[OF plan_ok_schema[OF assms(1)]] sized_made[OF plan_ok_schema[OF assms(2)]]
    made_new[of "columns (OutputSchema left) @ columns (OutputSchema right)"]
  by (simp add: InferJoinSchema_def GetColumnCount_def)

lemma projection_tables: "named_projection items child = Inr p \<Longrightarrow> plan_tables p = plan_tables child"
  by (auto simp: named_projection_def result_simps)

lemma aggregate_tables:
  assumes a: "PlanSelectAgg groups cond items child = Inr (p, cond', items')"
  shows "plan_tables p = plan_tables child"
proof (rule PlanSelectAgg_parts[OF a])
  fix s keys aggs q c3 top c4
  assume q: "q = AggregationPlan s child (map snd keys) (map snd aggs) (map fst aggs)"
    and f: "if cond' = InvalidExpr then top = (q, c3)
      else \<exists>n e. PlanExpression [q] cond' c3 = Inr (n, e, snd top) \<and> fst top = FilterPlan s e q"
    and p: "named_projection c4 (fst top) = Inr p"
  have "plan_tables (fst top) = plan_tables q" using f by (cases "cond' = InvalidExpr") auto
  then show "plan_tables p = plan_tables child" using projection_tables[OF p] q by simp
qed

lemma clauses_tables:
  assumes p: "plan_clauses F s child uid = Inr (p, cond, items, uid')"
  shows "plan_tables p = plan_tables child"
proof -
  from p obtain p1 agg p2 p3 where s: "plan_where (where_clause s) child = Inr p1"
    "(if having s \<noteq> InvalidExpr \<or> group_by s \<noteq> [] \<or> agg
      then bind_r (PlanSelectAgg (group_by s) (having s) (select_list s) p1) (\<lambda>(plan, cond, items). Inr (plan, cond, items, uid))
      else bind_r (plan_items (select_list s) p1 uid) (\<lambda>(plan, uid). Inr (plan, having s, select_list s, uid))) = Inr (p2, cond, items, uid')"
    "plan_order_by (sort_clause s) (plan_distinct (is_distinct s) p2) = Inr p3"
    "plan_limit F (limit_count s) (limit_offset s) p3 = Inr p"
    unfolding plan_clauses_def by (auto simp: result_simps simp del: bind_r.simps)
  have 1: "plan_tables p1 = plan_tables child" using s(1) by (auto simp: plan_where_def result_simps split: if_splits)
  have 2: "plan_tables p2 = plan_tables p1"
  proof (cases "having s \<noteq> InvalidExpr \<or> group_by s \<noteq> [] \<or> agg")
    case True
    with s(2) have a: "PlanSelectAgg (group_by s) (having s) (select_list s) p1 = Inr (p2, cond, items)" by (auto simp: result_simps)
    show ?thesis by (rule aggregate_tables[OF a])
  next
    case False
    with s(2) obtain es where "named_projection es p1 = Inr p2"
      by (cases "PlanExpressions [p1] (select_list s) new_context") (auto simp: plan_items_def result_simps split: prod.splits)
    then show ?thesis by (rule projection_tables)
  qed
  have 3: "plan_tables p3 = plan_tables p2" using s(3) by (auto simp: plan_order_by_def plan_distinct_def result_simps split: if_splits)
  have "plan_tables p = plan_tables p3" using s(4) by (auto simp: plan_limit_def result_simps split: if_splits option.splits)
  with 1 2 3 show ?thesis by simp
qed

lemma bool_constant: "GetBooleanValue_bool True = Inr v \<Longrightarrow> v = bool_value True"
  by (simp add: GetBooleanValue_bool_def bool_value_def store_int_def int_value_def swrap_def int_null_def)

lemma planned_ok:
  fixes X :: "'d exec_ctx" and tr :: "'d table_ref" and s :: "'d select"
  assumes d: "database X V db"
  shows "wf_table tr \<Longrightarrow> PlanTableRef F mock (ctx_catalog X) tr st = Some (Inr (p, tr', st')) \<Longrightarrow>
      (narrow p \<longrightarrow> plan_ok X db p) \<and> (\<forall>oid\<in>plan_tables p. table_holds X V oid (db oid))"
    and "wf_select s \<Longrightarrow> PlanSelect_with (PlanTableRef F mock (ctx_catalog X)) F s st = Some (Inr (p, s', st')) \<Longrightarrow>
      (narrow p \<longrightarrow> plan_ok X db p) \<and> (\<forall>oid\<in>plan_tables p. table_holds X V oid (db oid))"
proof (induction tr and s arbitrary: st p tr' st' and st p s' st' rule: table_ref.induct select.induct)
  case (BaseTableRef table oid a schema)
  from BaseTableRef.prems(2) have B: "PlanBaseTableRef mock (ctx_catalog X) table a schema = Inr p"
    by (auto simp: plan_table_simps result_simps)
  obtain info :: TableInfo where i: "table_holds X V (ti_oid info) (db (ti_oid info))"
    "p = SeqScanPlan (InferScanSchema (GetBoundTableName table a) schema) (ti_oid info) (ti_name info) None"
    using planned_scan[OF B d] by blast
  obtain ts first where "table_of X (ti_oid info) = Inr (ts, first)" "width_is ts (db (ti_oid info))" using held_width[OF i(1)] .
  moreover have "schema_made (InferScanSchema bn schema)" if "narrow_schema (InferScanSchema bn schema)" for bn
    using that BaseTableRef.prems(1) made_new[of "map (\<lambda>c. rename_Column (bn @ ''.'' @ column_name c) c) (columns schema)"]
    by (simp add: InferScanSchema_def list_all_iff rename_Column_def)
  ultimately show ?case using i by auto
next
  case (ExpressionListRef vs ident)
  from ExpressionListRef.prems(2) have v: "PlanExpressionListRef vs ident = Inr p" by (auto simp: plan_table_simps result_simps)
  obtain es rest cols where c: "map_r (\<lambda>(i, e). value_column ident i e) (enumerate 0 es) = Inr cols" "p = ValuesPlan (new_Schema cols) (es # rest)"
    by (rule planned_values[OF v])
  have "sized cols" using c(1) by (rule sized_map_r) (auto simp: value_column_def Let_def split: if_splits dest: sized_column)
  then show ?case using made_new c(2) by simp
next
  case (JoinRef jt left right cond)
  from JoinRef.prems(2) obtain lp l' st1 rp r' where s: "PlanTableRef F mock (ctx_catalog X) left st = Some (Inr (lp, l', st1))"
    "PlanTableRef F mock (ctx_catalog X) right st1 = Some (Inr (rp, r', st'))" "PlanJoinRef jt cond lp rp = Inr p"
    by (auto simp: plan_table_simps result_simps)
  from s(3) obtain n e c where e: "PlanExpression [lp, rp] cond new_context = Inr (n, e, c)"
    "p = NestedLoopJoinPlan (InferJoinSchema lp rp) lp rp e jt" by (auto simp: PlanJoinRef_def result_simps)
  have k: "strip_alias cond = BoundConstant v" if "e = Constant v" for v using e(1) that planned_join_constant by blast
  have "plain_condition e" "(\<exists>v. e = Constant v) \<longrightarrow> jt = INNER"
    using k JoinRef.prems(1) by (auto simp: plain_condition_def plain_bound_def)
  then show ?case using join_ok[of X db lp rp e jt] e(2) JoinRef.IH(1)[OF _ s(1)] JoinRef.IH(2)[OF _ s(2)] JoinRef.prems(1)
    by (auto simp: Un_iff)
next
  case (CrossProductRef left right)
  from CrossProductRef.prems(2) obtain lp l' st1 rp r' where s: "PlanTableRef F mock (ctx_catalog X) left st = Some (Inr (lp, l', st1))"
    "PlanTableRef F mock (ctx_catalog X) right st1 = Some (Inr (rp, r', st'))" "PlanCrossProductRef lp rp = Inr p"
    by (auto simp: plan_table_simps result_simps)
  from s(3) obtain v where e: "p = NestedLoopJoinPlan (InferJoinSchema lp rp) lp rp (Constant v) INNER" "v = bool_value True"
    by (auto simp: PlanCrossProductRef_def result_simps dest: bool_constant)
  have "plain_condition (Constant v)" using e(2) by (auto simp: plain_condition_def)
  then show ?case using join_ok[of X db lp rp "Constant v" INNER] e(1) CrossProductRef.IH(1)[OF _ s(1)] CrossProductRef.IH(2)[OF _ s(2)] CrossProductRef.prems(1)
    by auto
next
  case (SubqueryRef s names a)
  from SubqueryRef.prems(2) obtain q s' where s: "PlanSelect_with (PlanTableRef F mock (ctx_catalog X)) F s st = Some (Inr (q, s', st'))"
    "rename_subquery names a q = Inr p"
    by (auto simp: plan_table_simps result_simps)
  from s(2) obtain items where "named_projection items q = Inr p" by (auto simp: rename_subquery_def Let_def result_simps)
  then show ?case using SubqueryRef.IH[OF _ s(1)] SubqueryRef.prems(1) projection_ok[of items q p X db] projection_tables[of items q p] by auto
next
  case (SelectStatement table items cond groups hv lc lo obs withs dist)
  let ?s = "SelectStatement table items cond groups hv lc lo obs withs dist"
  let ?inner = "if withs \<noteq> [] then st\<lparr>cte_list := Some withs\<rparr> else st"
  from SelectStatement.prems(2) obtain q table' inner cond' items' uid' where s:
    "(if table = EmptyTableRef then Some (Inr (ValuesPlan (new_Schema []) [[]], EmptyTableRef, ?inner))
      else PlanTableRef F mock (ctx_catalog X) table ?inner) = Some (Inr (q, table', inner))"
    "plan_clauses F ?s q (universal_id inner) = Inr (p, cond', items', uid')"
    unfolding PlanSelect_with_def Let_def select.sel by (auto simp: result_simps split: prod.splits)
  have q: "(narrow q \<longrightarrow> plan_ok X db q) \<and> (\<forall>oid\<in>plan_tables q. table_holds X V oid (db oid))"
  proof (cases "table = EmptyTableRef")
    case True
    with s(1) have "q = ValuesPlan (new_Schema []) [[]]" by (auto split: if_splits)
    then show ?thesis using made_new[of "[]"] by simp
  next
    case False
    with s(1) have "PlanTableRef F mock (ctx_catalog X) table ?inner = Some (Inr (q, table', inner))" by simp
    from SelectStatement.IH(1)[OF _ this] SelectStatement.prems(1) show ?thesis by simp
  qed
  have "plain_bound (where_clause ?s)" "plain_bound (having ?s)" using SelectStatement.prems(1) by simp_all
  from clauses_ok[OF s(2) this] q clauses_tables[OF s(2)] show ?case by auto
qed (simp_all add: plan_table_simps)

end
