(* ===== verification/Planner_Theorems.thy ===== *)
theory Planner_Theorems
  imports Planner_Plans
begin

text \<open>The properties of the planner.\<close>

section \<open>Planning ends\<close>

lemma bind_ro_ends: "\<exists>r. m = Some r \<Longrightarrow> (\<And>x. \<exists>r. f x = Some r) \<Longrightarrow> \<exists>r. bind_ro m f = Some r"
  by (metis bind_ro_simps(2,3) sumE)

lemma planning_ends:
  "no_cte tr \<Longrightarrow> \<exists>r. PlanTableRef F mock cat tr st = Some r"
  "no_cte_select s \<Longrightarrow> \<exists>r. PlanSelect_with (PlanTableRef F mock cat) F s st = Some r"
proof (induction tr and s arbitrary: st and st rule: table_ref.induct select.induct)
  case (SelectStatement table items cond groups hv lc lo obs withs dist)
  then show ?case unfolding PlanSelect_with_def Let_def
    by (intro bind_ro_ends) (auto split: prod.splits)
qed (auto simp: plan_table_simps intro!: bind_ro_ends split: prod.splits)

section \<open>Planned statements have the rows that they mean\<close>

lemma planned_meaning:
  assumes v: "visits_all X" and d: "database X V db"
  shows "no_cte tr \<Longrightarrow> PlanTableRef (ctx_floats X) mock (ctx_catalog X) tr st = Some (Inr (p, tr', st')) \<Longrightarrow> rows X db p = Inr rs \<Longrightarrow>
      width_is (OutputSchema p) rs \<and> sem_table X db tr (universal_id st) = Inr ((header_of (OutputSchema p), rs), universal_id st')"
    and "no_cte_select s \<Longrightarrow> PlanSelect_with (PlanTableRef (ctx_floats X) mock (ctx_catalog X)) (ctx_floats X) s st = Some (Inr (p, s', st')) \<Longrightarrow>
      rows X db p = Inr rs \<Longrightarrow>
      width_is (OutputSchema p) rs \<and> sem_select X db s (universal_id st) = Inr ((header_of (OutputSchema p), rs), universal_id st')"
proof (induction tr and s arbitrary: st p tr' st' rs and st p s' st' rs rule: table_ref.induct select.induct)
  case (BaseTableRef table oid a schema)
  from BaseTableRef.prems(2) have p: "PlanBaseTableRef mock (ctx_catalog X) table a schema = Inr p" "st' = st"
    by (auto simp: plan_table_simps result_simps)
  show ?case using scan_rows[OF p(1) BaseTableRef.prems(3) d] p(2) by simp
next
  case (ExpressionListRef vs ident)
  from ExpressionListRef.prems(2) have p: "PlanExpressionListRef vs ident = Inr p" "st' = st"
    by (auto simp: plan_table_simps result_simps)
  show ?case using values_rows[OF p(1) ExpressionListRef.prems(3)] p(2) by simp
next
  case (JoinRef jt left right cond)
  from JoinRef.prems(2) obtain lp l' st1 rp r' where s:
    "PlanTableRef (ctx_floats X) mock (ctx_catalog X) left st = Some (Inr (lp, l', st1))"
    "PlanTableRef (ctx_floats X) mock (ctx_catalog X) right st1 = Some (Inr (rp, r', st'))" "PlanJoinRef jt cond lp rp = Inr p"
    by (auto simp: plan_table_simps result_simps)
  from JoinRef.prems(1) have n: "no_cte left" "no_cte right" by simp_all
  obtain ls rrs where r: "rows X db lp = Inr ls" "rows X db rp = Inr rrs" "width_is (OutputSchema p) rs" "jt = INNER \<or> jt = LEFT"
    "sem_join X (jt = LEFT) (truth X (header_of (OutputSchema lp) @ header_of (OutputSchema rp)) cond [])
      (header_of (OutputSchema lp), ls) (header_of (OutputSchema rp), rrs) = Inr (header_of (OutputSchema p), rs)"
    using planned_join_rows[OF s(3) JoinRef.prems(3)] JoinRef.IH(1)[OF n(1) s(1)] JoinRef.IH(2)[OF n(2) s(2)] by metis
  show ?case using JoinRef.IH(1)[OF n(1) s(1) r(1)] JoinRef.IH(2)[OF n(2) s(2) r(2)] r(3-5) by auto
next
  case (CrossProductRef left right)
  from CrossProductRef.prems(2) obtain lp l' st1 rp r' where s:
    "PlanTableRef (ctx_floats X) mock (ctx_catalog X) left st = Some (Inr (lp, l', st1))"
    "PlanTableRef (ctx_floats X) mock (ctx_catalog X) right st1 = Some (Inr (rp, r', st'))" "PlanCrossProductRef lp rp = Inr p"
    by (auto simp: plan_table_simps result_simps)
  from CrossProductRef.prems(1) have n: "no_cte left" "no_cte right" by simp_all
  obtain ls rrs where r: "rows X db lp = Inr ls" "rows X db rp = Inr rrs" "width_is (OutputSchema p) rs"
    "sem_join X False (\<lambda>_. Inr True) (header_of (OutputSchema lp), ls) (header_of (OutputSchema rp), rrs) = Inr (header_of (OutputSchema p), rs)"
    using cross_product_rows[OF s(3) CrossProductRef.prems(3)] .
  show ?case using CrossProductRef.IH(1)[OF n(1) s(1) r(1)] CrossProductRef.IH(2)[OF n(2) s(2) r(2)] r(3,4) by auto
next
  case (SubqueryRef s names a)
  from SubqueryRef.prems(2) obtain q s' where s:
    "PlanSelect_with (PlanTableRef (ctx_floats X) mock (ctx_catalog X)) (ctx_floats X) s st = Some (Inr (q, s', st'))"
    "rename_subquery names a q = Inr p"
    by (auto simp: plan_table_simps result_simps)
  from SubqueryRef.prems(1) have n: "no_cte_select s" by simp
  note q = subquery_rows[OF s(2) SubqueryRef.prems(3)]
  have w: "width_is (OutputSchema q) rs" if "rows X db q = Inr rs" for rs using SubqueryRef.IH[OF n s(1) that] by simp
  show ?case using SubqueryRef.IH[OF n s(1) q(1)[OF w]] q(2,3)[OF w] by simp
next
  case (SelectStatement table items cond groups hv lc lo obs withs dist)
  let ?s = "SelectStatement table items cond groups hv lc lo obs withs dist"
  let ?inner = "if withs \<noteq> [] then st\<lparr>cte_list := Some withs\<rparr> else st"
  from SelectStatement.prems(2) obtain q table' inner cond' items' uid' where s:
    "(if table = EmptyTableRef then Some (Inr (ValuesPlan (new_Schema []) [[]], EmptyTableRef, ?inner))
      else PlanTableRef (ctx_floats X) mock (ctx_catalog X) table ?inner) = Some (Inr (q, table', inner))"
    "plan_clauses (ctx_floats X) ?s q (universal_id inner) = Inr (p, cond', items', uid')" "universal_id st' = uid'"
    unfolding PlanSelect_with_def Let_def select.sel by (auto simp: result_simps split: prod.splits)
  have u: "universal_id ?inner = universal_id st" by simp
  have q: "width_is (OutputSchema q) rs0 \<and> sem_table X db table (universal_id st) = Inr ((header_of (OutputSchema q), rs0), universal_id inner)"
    if r0: "rows X db q = Inr rs0" for rs0
  proof (cases "table = EmptyTableRef")
    case True
    with s(1) have "q = ValuesPlan (new_Schema []) [[]]" "universal_id inner = universal_id st" by (auto split: if_splits)
    then show ?thesis using r0 True by (auto simp: result_simps header_count dest: fit_width)
  next
    case False
    with s(1) have "PlanTableRef (ctx_floats X) mock (ctx_catalog X) table ?inner = Some (Inr (q, table', inner))" by simp
    from SelectStatement.IH(1)[OF _ this r0] SelectStatement.prems(1) u show ?thesis by simp
  qed
  obtain rs0 where r0: "rows X db q = Inr rs0" "width_is (OutputSchema p) rs"
    "sem_clauses X ?s (universal_id inner) (header_of (OutputSchema q), rs0) = Inr ((header_of (OutputSchema p), rs), uid')"
    using clauses_rows[OF v s(2) SelectStatement.prems(3)] q by metis
  show ?case using q[OF r0(1)] r0(2,3) s(3) by simp
next
  case InvalidTableRef
  then show ?case by (simp add: plan_table_simps)
next
  case EmptyTableRef
  then show ?case by (simp add: plan_table_simps)
qed simp

section \<open>An example\<close>

text \<open>
  \<open>SELECT t.a, count(*) AS n FROM t WHERE t.a = 7 GROUP BY t.a HAVING 0 < count(*)\<close> on a table of
  one row.
\<close>

definition pair_table_ref :: "int table_ref" where
  "pair_table_ref = BaseTableRef ''t'' 0 None pair_schema"

definition no_mock :: "int mock" where
  "no_mock s name = ValuesPlan s []"

definition count_star :: "int bound_expr" where
  "count_star = BoundAggCall ''count_star'' False []"
definition group_select :: "int select" where
  "group_select = SelectStatement pair_table_ref [BoundColumnRef [''t'', ''a''], BoundAlias ''n'' count_star]
     (BoundBinaryOp ''='' (BoundColumnRef [''t'', ''a'']) (BoundConstant (tiny 7))) [BoundColumnRef [''t'', ''a'']]
     (BoundBinaryOp ''<'' (BoundConstant (int_value INTEGER 0)) count_star) InvalidExpr InvalidExpr [] [] False"

lemmas planner_defs = PlanSelect_def PlanSelect_with_def plan_table_simps PlanBaseTableRef_def
   GetTable_name_def Let_def plan_clauses_def plan_where_def PlanColumnRef_def
   InferScanSchema_def GetBoundTableName_def rename_Column_def new_Schema_eq column_ref_def
   GetColIdx_def TryGetColIdx_def PlanBinaryOp_def GetBinaryExpressionFromFactory_def plan_items_def named_projection_def InferProjectionSchema_def
   unnamed_column_def new_Column_def TypeSize_def RenameSchema_def GetColumnCount_def name_item_def UNNAMED_COLUMN_def plan_order_by_def plan_distinct_def plan_limit_def
   PlanSelectAgg_def new_context_def AddAggregation_def PlanAggItem_def PlanAggCall_def GetAggCallFromFactory_def InferAggSchema_def agg_name_def


definition integer_column :: "string \<Rightarrow> Column" where
  "integer_column name = \<lparr>column_name = name, column_type = INTEGER, fixed_length = 4, variable_length = 0, column_offset = 0\<rparr>"

definition group_schema :: Schema where
  "group_schema = new_Schema [tiny_column ''t.a'', integer_column (agg_name 0), integer_column (agg_name 1)]"

definition pair_named :: Schema where
  "pair_named = new_Schema [tiny_column ''t.a'', tiny_column ''t.b'']"

definition group_plan :: "int plan" where
  "group_plan = ProjectionPlan (new_Schema [tiny_column ''t.a'', integer_column ''n'']) [ColumnValue 0 0 TINYINT, ColumnValue 0 2 INTEGER]
     (FilterPlan group_schema (Comparison (Constant (int_value INTEGER 0)) (ColumnValue 0 1 INTEGER) LessThan)
     (AggregationPlan group_schema
       (FilterPlan pair_named (Comparison (ColumnValue 0 0 TINYINT) (Constant (tiny 7)) Equal) (SeqScanPlan pair_named 0 ''t'' None))
       [ColumnValue 0 0 TINYINT] [Constant (int_value INTEGER 1), Constant (int_value INTEGER 1)] [CountStarAggregate, CountStarAggregate]))"

lemma group_planned: "\<exists>s' st'. PlanSelect (ctx_floats pair_ctx) no_mock (ctx_catalog pair_ctx) group_select new_Planner = Some (Inr (group_plan, s', st'))"
  by (simp add: planner_defs group_select_def count_star_def pair_table_ref_def pair_ctx_def new_Catalog_def columns_tiny tiny_column_def
      GetIntegerValue_def group_plan_def group_schema_def pair_named_def integer_column_def int_value_def store_int_def swrap_def int_null_def)
    (simp add: new_Schema_def Let_def Column_IsInlined_def)



lemma one: "Value_Add Wrap whole_floats (int_value INTEGER 0) (int_value INTEGER 1) = Inr (int_value INTEGER 1)"
proof -
  have "is_int_type INTEGER" "number_of INTEGER 0" "number_of INTEGER 1" by (simp_all add: is_int_type_def number_of_def in_range_def int_null_def)
  note n = this
  show ?thesis
    by (simp only: arithmetic_dispatch[OF n(1,1)] AddValue_correct[OF n(1,1,2,3)])
      (simp add: checked_def wider_def in_range_def result_value_def int_null_def)
qed

lemma small_integers: "GetIntegerValue 0 = Inr (int_value INTEGER 0)" "GetIntegerValue 1 = Inr (int_value INTEGER 1)"
  by (simp_all add: GetIntegerValue_def store_int_def int_value_def swrap_def int_null_def)

lemma positive: "bind_r (comparison_value whole_floats LessThan (int_value INTEGER 0) (int_value INTEGER 1)) holds = Inr True"
proof -
  have "wf_Value whole_floats (int_value INTEGER k)" "\<not> IsNull (int_value INTEGER k)" if "0 \<le> k" "k < 2" for k
    using that by (simp_all add: wf_Value_def int_value_def in_range_def int_null_def IsNull_def BUSTUB_VALUE_NULL_def)
  note wf = this
  have "Value_CompareLessThan whole_floats (int_value INTEGER 0) (int_value INTEGER 1) = Inr CmpTrue"
    using compare_wf_integers[of whole_floats "int_value INTEGER 0" "int_value INTEGER 1" OpLt] wf[of 0] wf[of 1] by (simp add: int_value_def is_int_type_def GetCmpBool_def)
  then show ?thesis
    by (simp add: comparison_value_def PerformComparison_def holds_def IsNull_def
        store_int_def int_null_def swrap_def get_bool_def BUSTUB_VALUE_NULL_def)
qed

lemma group_rows_example: "rows pair_ctx (\<lambda>_. [[tiny 7, tiny 8]]) group_plan = Inr [[tiny 7, int_value INTEGER 1]]"
proof -
  let ?F = "FilterPlan pair_named (Comparison (ColumnValue 0 0 TINYINT) (Constant (tiny 7)) Equal) (SeqScanPlan pair_named 0 ''t'' None)"
  let ?one = "int_value INTEGER 1 :: int Value"
  have cell: "cell_ok whole_floats (integer_column n\<lparr>column_offset := k\<rparr>) ?one" "cell_ok whole_floats (integer_column n) ?one"
     "cell_ok whole_floats (tiny_column n) (tiny 7)" for n k
    by (simp_all add: cell_ok_def integer_column_def tiny_column_def wf_Value_def int_value_def in_range_def int_null_def TypeSize_def)
  have fits: "fit whole_floats (new_Schema (tiny_column n # map integer_column ns)) (tiny 7 # map (\<lambda>_. ?one) ns) = Inr (tiny 7 # map (\<lambda>_. ?one) ns)"
    if "length ns < 10" for n ns
  proof -
    have c: "list_all2 (cell_ok whole_floats) (place k (map integer_column ns)) (map (\<lambda>_. ?one) ns) \<and>
        fixed_size (map integer_column ns) = 4 * length ns \<and> extra_size (place k (map integer_column ns)) (map (\<lambda>_. ?one) ns) = 0" for k
      by (induction ns arbitrary: k) (simp_all add: cell, simp_all add: integer_column_def extra_def Column_IsInlined_def)
    have s: "fixed_size (tiny_column n # map integer_column ns) < 2 ^ 32" using c[of 0] that by (simp add: tiny_column_def)
    have e: "extra (tiny_column n) (tiny 7) = 0" by (simp add: extra_def tiny_column_def Column_IsInlined_def)
    show ?thesis using c s that cell by (simp add: fit_def row_ok_def schema_ok_new new_Schema_eq e) (simp add: tiny_column_def extra_def Column_IsInlined_def)
  qed
  have f: "fit whole_floats group_schema [tiny 7, ?one, ?one] = Inr [tiny 7, ?one, ?one]"
    using fits[of "[_, _]"] by (simp add: group_schema_def)
  have a: "rows pair_ctx (\<lambda>_. [[tiny 7, tiny 8]]) ?F = Inr [[tiny 7, tiny 8]]"
    by (simp add: table_of_def GetTable_oid_def new_Catalog_def same_layout_def pair_named_def pair_schema_def layout_def new_Schema_eq tiny_column_def row_column_def tiny_equal[simplified] pair_ctx_def)
  have g: "group_rows Wrap whole_floats (Suc (Suc 0)) [CountStarAggregate, CountStarAggregate] [([tiny 7], [?one, ?one])] = Inr [([tiny 7], [?one, ?one])]"
    by (simp add: group_rows_def firsts_def GenerateInitialAggregateValue_def CombineAggregateValues_def small_integers one)
  have k: "plain_keys whole_floats [[tiny 7]]"
    by (simp add: plain_keys_def plain_key_def wf_Value_def int_value_def in_range_def int_null_def IsNull_def BUSTUB_VALUE_NULL_def)
  have "rows pair_ctx (\<lambda>_. [[tiny 7, tiny 8]]) (AggregationPlan group_schema ?F [ColumnValue 0 0 TINYINT] [Constant ?one, Constant ?one] [CountStarAggregate, CountStarAggregate]) = Inr [[tiny 7, ?one, ?one]]"
    unfolding rows.simps(10) a
    by (simp add: keyed_rows_def row_column_def pair_ctx_def k g finish_aggregation_def f)
  then show ?thesis
    using fits[of "[_]"] unfolding group_plan_def by (simp del: rows.simps(10) add: positive row_column_def same_layout_def pair_ctx_def)
qed

lemma pair_database: "table_holds pair_ctx V 0 [[tiny 7, tiny 8]] \<Longrightarrow> database pair_ctx V (\<lambda>_. [[tiny 7, tiny 8]])"
  by (auto simp: database_def GetTable_name_def pair_ctx_def new_Catalog_def split: option.splits if_splits)

lemma group_select_wf: "wf_select group_select"
  by (simp add: group_select_def pair_table_ref_def columns_tiny plain_bound_def) (simp add: tiny_column_def TypeSize_def)

lemma group_plan_narrow: "narrow group_plan"
  by (simp add: group_plan_def group_schema_def pair_named_def narrow_schema_def)

section \<open>Properties\<close>







end
