(* ===== verification/Timestamp_Laws.thy ===== *)
theory Timestamp_Laws
  imports Text_Laws
begin

text \<open>
  Packing and printing of timestamps: the string that \<open>TimestampType::ToString\<close> prints, the
  number that \<open>ValueFactory::CastAsTimestamp\<close> packs, and that they are inverse to each other for
  the time zones that fit their field.
\<close>

definition timestamp_text :: "nat \<Rightarrow> nat \<Rightarrow> nat \<Rightarrow> nat \<Rightarrow> nat \<Rightarrow> nat \<Rightarrow> nat \<Rightarrow> int \<Rightarrow> string" where
  "timestamp_text year month day hour mins sec micro tz =
     zero_pad 4 year @ ''-'' @ zero_pad 2 month @ ''-'' @ zero_pad 2 day @ '' '' @
     zero_pad 2 hour @ '':'' @ zero_pad 2 mins @ '':'' @ zero_pad 2 sec @ ''.'' @ zero_pad 6 micro @
     (if tz \<ge> 0 then ''+'' else ''-'') @ zero_pad 2 (nat \<bar>tz\<bar>)"

text \<open>Fields of a date that exists.\<close>

definition date_fields :: "nat \<Rightarrow> nat \<Rightarrow> nat \<Rightarrow> nat \<Rightarrow> nat \<Rightarrow> nat \<Rightarrow> nat \<Rightarrow> bool" where
  "date_fields year month day hour mins sec micro \<longleftrightarrow>
     year \<le> 9999 \<and> 1 \<le> month \<and> month \<le> 12 \<and> 1 \<le> day \<and> day \<le> 31 \<and>
     day \<le> (if leap_year year then max_day_lunar else max_day) ! month \<and>
     hour \<le> 23 \<and> mins \<le> 59 \<and> sec \<le> 59 \<and> micro \<le> 999999"

section \<open>Padded numbers\<close>

lemma length_nat_digits: "n < 10 ^ k \<Longrightarrow> 0 < k \<Longrightarrow> length (nat_digits n) \<le> k"
proof (induction k arbitrary: n)
  case (Suc k)
  show ?case
  proof (cases "n < 10")
    case True
    then show ?thesis by (simp add: nat_digits.simps)
  next
    case False
    then have "0 < k" using Suc.prems by (cases k) auto
    moreover have "n div 10 < 10 ^ k" using Suc.prems by (simp add: less_mult_imp_div_less)
    ultimately have "length (nat_digits (n div 10)) \<le> k" by (rule Suc.IH[rotated])
    then show ?thesis using False by (simp add: nat_digits.simps[of n])
  qed
qed simp

lemma length_zero_pad: "n < 10 ^ k \<Longrightarrow> 0 < k \<Longrightarrow> length (zero_pad k n) = k"
  using length_nat_digits by (simp add: zero_pad_def)

lemma digits_value_zeros: "digits_value (replicate j (CHR ''0'') @ ds) = digits_value ds"
  by (induction j) (simp_all add: digits_value_def)

lemma digits_value_zero_pad: "digits_value (zero_pad k n) = int n"
  by (simp add: zero_pad_def digits_value_zeros digits_value_nat_digits)

lemma zero_pad_digits: "c \<in> set (zero_pad k n) \<Longrightarrow> is_digit c"
  by (auto simp: zero_pad_def is_digit_def dest: nat_digits_digits split: if_splits)

lemma list_2: "length xs = 2 \<Longrightarrow> \<exists>a b. xs = [a, b]"
  by (cases xs; cases "tl xs") auto

lemma list_4: "length xs = 4 \<Longrightarrow> \<exists>a b c d. xs = [a, b, c, d]"
  by (cases xs; cases "tl xs"; cases "tl (tl xs)"; cases "tl (tl (tl xs))") auto

lemma list_6: "length xs = 6 \<Longrightarrow> \<exists>a b c d e f. xs = [a, b, c, d, e, f]"
  by (cases xs; cases "tl xs"; cases "tl (tl xs)"; cases "tl (tl (tl xs))";
      cases "tl (tl (tl (tl xs)))"; cases "tl (tl (tl (tl (tl xs))))") auto

lemma zero_pad_2: "n < 100 \<Longrightarrow> \<exists>a b. zero_pad 2 n = [a, b] \<and> is_digit a \<and> is_digit b \<and> digits_value [a, b] = int n"
  using list_2[of "zero_pad 2 n"] length_zero_pad[of n 2] zero_pad_digits[of _ 2 n] digits_value_zero_pad[of 2 n]
  by auto

lemma zero_pad_4:
  "n < 10000 \<Longrightarrow> \<exists>a b c d. zero_pad 4 n = [a, b, c, d] \<and> is_digit a \<and> is_digit b \<and> is_digit c \<and> is_digit d \<and>
    digits_value [a, b, c, d] = int n"
  using list_4[of "zero_pad 4 n"] length_zero_pad[of n 4] zero_pad_digits[of _ 4 n] digits_value_zero_pad[of 4 n]
  by auto

lemma zero_pad_6:
  "n < 1000000 \<Longrightarrow> \<exists>a b c d e f. zero_pad 6 n = [a, b, c, d, e, f] \<and> is_digit a \<and> is_digit b \<and> is_digit c \<and>
    is_digit d \<and> is_digit e \<and> is_digit f \<and> digits_value [a, b, c, d, e, f] = int n"
  using list_6[of "zero_pad 6 n"] length_zero_pad[of n 6] zero_pad_digits[of _ 6 n] digits_value_zero_pad[of 6 n]
  by auto

section \<open>Reading the fields back\<close>

text \<open>What the parser needs to know of a text: its format and the values of its fields.\<close>

lemma timestamp_text_fields:
  assumes "year < 10000" "month < 100" "day < 100" "hour < 100" "mins < 100" "sec < 100"
    "micro < 1000000" "\<bar>tz\<bar> < 100"
  defines "str \<equiv> timestamp_text year month day hour mins sec micro tz"
  shows "length str = 29" and "timestamp_format str"
    and "field str 0 4 = year" "field str 5 2 = month" "field str 8 2 = day" "field str 11 2 = hour"
      "field str 14 2 = mins" "field str 17 2 = sec" "field str 20 6 = micro"
      "(if str ! 26 = CHR ''-'' then - int (field str 27 2) else int (field str 27 2)) = tz"
proof -
  obtain y1 y2 y3 y4 where y: "zero_pad 4 year = [y1, y2, y3, y4]" "is_digit y1" "is_digit y2" "is_digit y3"
      "is_digit y4" "digits_value [y1, y2, y3, y4] = int year" using zero_pad_4[OF assms(1)] by auto
  obtain m1 m2 where m: "zero_pad 2 month = [m1, m2]" "is_digit m1" "is_digit m2"
      "digits_value [m1, m2] = int month" using zero_pad_2[OF assms(2)] by auto
  obtain d1 d2 where d: "zero_pad 2 day = [d1, d2]" "is_digit d1" "is_digit d2"
      "digits_value [d1, d2] = int day" using zero_pad_2[OF assms(3)] by auto
  obtain h1 h2 where h: "zero_pad 2 hour = [h1, h2]" "is_digit h1" "is_digit h2"
      "digits_value [h1, h2] = int hour" using zero_pad_2[OF assms(4)] by auto
  obtain i1 i2 where i: "zero_pad 2 mins = [i1, i2]" "is_digit i1" "is_digit i2"
      "digits_value [i1, i2] = int mins" using zero_pad_2[OF assms(5)] by auto
  obtain s1 s2 where s: "zero_pad 2 sec = [s1, s2]" "is_digit s1" "is_digit s2"
      "digits_value [s1, s2] = int sec" using zero_pad_2[OF assms(6)] by auto
  obtain u1 u2 u3 u4 u5 u6 where u: "zero_pad 6 micro = [u1, u2, u3, u4, u5, u6]" "is_digit u1"
      "is_digit u2" "is_digit u3" "is_digit u4" "is_digit u5" "is_digit u6"
      "digits_value [u1, u2, u3, u4, u5, u6] = int micro" using zero_pad_6[OF assms(7)] by auto
  have "nat \<bar>tz\<bar> < 100" using assms(8) by simp
  from zero_pad_2[OF this] obtain z1 z2 where z: "zero_pad 2 (nat \<bar>tz\<bar>) = [z1, z2]" "is_digit z1"
      "is_digit z2" "digits_value [z1, z2] = int (nat \<bar>tz\<bar>)" by auto
  define sg where "sg = (if tz \<ge> 0 then CHR ''+'' else CHR ''-'')"
  have str: "str = [y1, y2, y3, y4, CHR ''-'', m1, m2, CHR ''-'', d1, d2, CHR '' '', h1, h2, CHR '':'', i1, i2,
      CHR '':'', s1, s2, CHR ''.'', u1, u2, u3, u4, u5, u6, sg, z1, z2]"
    by (simp add: str_def timestamp_text_def y m d h i s u z sg_def)
  have sg: "sg = CHR ''+'' \<or> sg = CHR ''-''" by (simp add: sg_def)
  show "length str = 29" by (simp add: str)
  show "timestamp_format str"
    using sg y m d h i s u z by (simp add: timestamp_format_def str upt_rec)
  show "field str 0 4 = year" "field str 5 2 = month" "field str 8 2 = day" "field str 11 2 = hour"
      "field str 14 2 = mins" "field str 17 2 = sec" "field str 20 6 = micro"
    using y m d h i s u by (simp_all add: field_def str)
  show "(if str ! 26 = CHR ''-'' then - int (field str 27 2) else int (field str 27 2)) = tz"
    using z by (simp add: field_def str sg_def)
qed

section \<open>Packing and printing\<close>

lemma date_fields_bounds:
  assumes "date_fields year month day hour mins sec micro"
  shows "year < 10000" "month < 100" "day < 100" "hour < 100" "mins < 100" "sec < 100" "micro < 1000000"
  using assms by (auto simp: date_fields_def)

text \<open>The packed number without the time zone's wrap-around, which stays below \<open>2 ^ 64\<close>.\<close>

lemma pack_timestamp_bound:
  assumes "date_fields year month day hour mins sec micro" and "- 12 \<le> tz" "tz \<le> 26"
  defines "res \<equiv> ((((month * 32 + day) * 27 + nat (tz + 12)) * 10000 + year) * 100000 + (hour * 3600 + mins * 60 + sec)) * 1000000 + micro"
  shows "pack_timestamp year month day hour mins sec micro tz = res" and "res < 2 ^ 64 - 1"
proof -
  have z: "(tz + 12) mod 2 ^ 32 = tz + 12" using assms(2,3) by (intro mod_pos_pos_trivial) auto
  define zone where "zone = nat (tz + 12)"
  have zone: "zone \<le> 38" using assms(3) by (simp add: zone_def)
  have "month \<le> 12" "day \<le> 31" "year \<le> 9999" "hour \<le> 23" "mins \<le> 59" "sec \<le> 59" "micro \<le> 999999"
    using assms(1) by (simp_all add: date_fields_def)
  then have "res \<le> 11243999986399999999" unfolding res_def zone_def[symmetric] using zone by (simp add: add_mult_distrib)
  then show r: "res < 2 ^ 64 - 1" by simp
  have "res mod 2 ^ 64 = res" using r by (intro mod_less) simp
  then show "pack_timestamp year month day hour mins sec micro tz = res"
    unfolding pack_timestamp_def Let_def z res_def by simp
qed

lemma div_mod_pack: "b < k \<Longrightarrow> (a * k + b) mod k = b" "b < k \<Longrightarrow> (a * k + b) div k = (a :: nat)"
  by (simp_all add: mult.commute)

text \<open>The value that a text of valid fields is converted to.\<close>

lemma timestamp_of_text:
  assumes d: "date_fields year month day hour mins sec micro" and tz: "- 12 \<le> tz" "tz \<le> 26"
  shows "timestamp_of_string (timestamp_text year month day hour mins sec micro tz) =
    Inr (store_timestamp (int (pack_timestamp year month day hour mins sec micro tz)))"
proof -
  have t: "\<bar>tz\<bar> < 100" using tz by auto
  note f = timestamp_text_fields[OF date_fields_bounds[OF d] t]
  have ok: "\<not> (year > 9999 \<or> month > 12 \<or> day > 31 \<or> hour > 23 \<or> mins > 59 \<or> sec > 59 \<or> micro > 999999
      \<or> day = 0 \<or> month = 0)"
    "\<not> day > (if leap_year year then max_day_lunar else max_day) ! month"
    "\<not> tz > 26"
    using d tz by (auto simp: date_fields_def)
  have n: "length (timestamp_text year month day hour mins sec micro tz) \<noteq> 22" using f(1) by simp
  show ?thesis
    unfolding timestamp_of_string_def Let_def if_not_P[OF n] f(3-)
    using f(2) ok by (simp add: GetTimestampValue_def)
qed

text \<open>Printing takes the fields apart again.\<close>

lemma timestamp_print:
  assumes d: "date_fields year month day hour mins sec micro" and tz: "- 12 \<le> tz" "tz \<le> 14"
  shows "Timestamp_ToString (store_timestamp (int (pack_timestamp year month day hour mins sec micro tz))) =
    Inr (timestamp_text year month day hour mins sec micro tz)"
proof -
  have tz26: "tz \<le> 26" using tz by simp
  define zone where "zone = nat (tz + 12)"
  define secs where "secs = hour * 3600 + mins * 60 + sec"
  define date where "date = month * 32 + day"
  define res where "res = ((((date * 27 + zone) * 10000 + year) * 100000 + secs) * 1000000 + micro)"
  note pk = pack_timestamp_bound[OF d tz(1) tz26, folded zone_def secs_def date_def, folded res_def]
  have b: "zone < 27" "year < 10000" "secs < 100000" "micro < 1000000" "day < 32" "month < 2 ^ 16" "sec < 60"
      "mins < 60" "hour < 24"
    using d tz by (auto simp: zone_def secs_def date_fields_def)
  have m: "res mod 1000000 = micro" "res div 1000000 = ((date * 27 + zone) * 10000 + year) * 100000 + secs"
    unfolding res_def by (simp_all only: div_mod_pack b(4))
  have e1: "(((date * 27 + zone) * 10000 + year) * 100000 + secs) mod 100000 = secs"
    "(((date * 27 + zone) * 10000 + year) * 100000 + secs) div 100000 = (date * 27 + zone) * 10000 + year"
    by (simp_all only: div_mod_pack b(3))
  have e2: "((date * 27 + zone) * 10000 + year) mod 10000 = year"
    "((date * 27 + zone) * 10000 + year) div 10000 = date * 27 + zone"
    by (simp_all only: div_mod_pack b(2))
  have e3: "(date * 27 + zone) mod 27 = zone" "(date * 27 + zone) div 27 = date"
    by (simp_all only: div_mod_pack b(1))
  have e4: "date mod 32 = day" "date div 32 = month"
    unfolding date_def by (simp_all only: div_mod_pack b(5))
  have s: "secs = (hour * 60 + mins) * 60 + sec" by (simp add: secs_def)
  have e5: "secs mod 60 = sec" "secs div 60 = hour * 60 + mins" "(hour * 60 + mins) mod 60 = mins"
    "(hour * 60 + mins) div 60 = hour" "hour mod 24 = hour" "month mod 2 ^ 16 = month"
    unfolding s by (simp_all only: div_mod_pack b mod_less)
  have z: "int zone - 12 = tz" using tz by (simp add: zone_def)
  have null: "\<not> IsNull (store_timestamp (int res))" "as_timestamp (store_timestamp (int res)) = res"
    using pk(2) by (simp_all add: store_timestamp_def IsNull_def BUSTUB_TIMESTAMP_NULL_def)
  define str where "str = zero_pad 4 year @ ''-'' @ zero_pad 2 month @ ''-'' @ zero_pad 2 day @ '' '' @
      zero_pad 2 hour @ '':'' @ zero_pad 2 mins @ '':'' @ zero_pad 2 sec @ ''.'' @ zero_pad 6 micro"
  have len: "length str = 26"
    using date_fields_bounds[OF d] by (simp add: str_def length_zero_pad)
  show ?thesis
    unfolding pk(1) Timestamp_ToString_def if_not_P[OF null(1)] Let_def null(2) m e1 e2 e3 e4 e5 z
      str_def[symmetric]
    using len by (simp add: timestamp_text_def str_def)
qed

text \<open>
  For a date that exists and a time zone from -12 to 14, the text of the timestamp is
  converted to a value whose printed form is that text again.
\<close>

theorem timestamp_roundtrip:
  assumes "date_fields year month day hour mins sec micro" and "- 12 \<le> tz" "tz \<le> 14"
  shows "\<exists>v. timestamp_of_string (timestamp_text year month day hour mins sec micro tz) = Inr v \<and>
    vtype v = TIMESTAMP \<and> Timestamp_ToString v = Inr (timestamp_text year month day hour mins sec micro tz)"
proof -
  have "tz \<le> 26" using assms(3) by simp
  then show ?thesis
    using timestamp_of_text[OF assms(1,2)] timestamp_print[OF assms]
    by (metis store_timestamp_def select_convs(1))
qed

theorem timestamp_roundtrip_witness:
  "\<exists>v. timestamp_of_string (timestamp_text 2024 2 29 23 59 58 123456 (- 5)) = (Inr v :: int Value result) \<and>
    vtype v = TIMESTAMP \<and> Timestamp_ToString v = Inr (timestamp_text 2024 2 29 23 59 58 123456 (- 5))"
  using timestamp_roundtrip[of 2024 2 29 23 59 58 123456 "- 5"]
  by (simp add: date_fields_def leap_year_def max_day_lunar_def)

text \<open>
  The check of the time zone accepts zones up to +26, of which those from +15 overflow their
  field: the text denotes the same value as the text of the next day with the zone less 27.
\<close>

theorem timestamp_zone_alias:
  assumes "date_fields year month day hour mins sec micro"
    and "date_fields year month (day + 1) hour mins sec micro" and "15 \<le> tz" "tz \<le> 26"
  shows "\<exists>v. timestamp_of_string (timestamp_text year month day hour mins sec micro tz) = Inr v \<and>
    timestamp_of_string (timestamp_text year month (day + 1) hour mins sec micro (tz - 27)) = Inr v"
proof -
  have tz: "- 12 \<le> tz" "- 12 \<le> tz - 27" "tz - 27 \<le> 26" using assms(3,4) by simp_all
  have "nat (tz + 12) = 27 + nat (tz - 27 + 12)" using assms(3) by (simp add: nat_eq_iff)
  then have e: "pack_timestamp year month day hour mins sec micro tz =
      pack_timestamp year month (day + 1) hour mins sec micro (tz - 27)"
    unfolding pack_timestamp_bound(1)[OF assms(1) tz(1) assms(4)] pack_timestamp_bound(1)[OF assms(2) tz(2,3)]
    by (simp add: algebra_simps)
  show ?thesis
    by (rule exI, rule conjI, rule timestamp_of_text[OF assms(1) tz(1) assms(4)], unfold e,
        rule timestamp_of_text[OF assms(2) tz(2,3)])
qed

theorem timestamp_zone_alias_witness:
  "\<exists>v. timestamp_of_string (timestamp_text 2024 1 1 0 0 0 0 20) = (Inr v :: int Value result) \<and>
    timestamp_of_string (timestamp_text 2024 1 (1 + 1) 0 0 0 0 (20 - 27)) = Inr v"
  by (rule timestamp_zone_alias)
    (simp_all add: date_fields_def leap_year_def max_day_lunar_def max_day_def)

text \<open>
  no VARCHAR value made from a string can become a timestamp: the conversion is given the
  terminating NUL too, which is not of the format.
\<close>

theorem no_string_is_a_timestamp:
  "timestamp_of_string (s @ [NUL]) = Inl (Throw ExceptionType.INVALID)"
proof -
  have "timestamp_format str \<Longrightarrow> length str = 29 \<and> is_digit (str ! 28)" for str
    by (auto simp: timestamp_format_def dest: bspec[where x = 28])
  then have bad: "\<not> timestamp_format str" if "length str = 29 \<Longrightarrow> str ! 28 = NUL" for str
    using that not_digit_NUL by metis
  define str where "str = (if length (s @ [NUL]) = 22 then take 19 (s @ [NUL]) @ ''.000000'' @ take 3 (drop 19 (s @ [NUL]))
      else s @ [NUL])"
  have "length str = 29 \<Longrightarrow> str ! 28 = NUL"
    by (auto simp: str_def nth_append split: if_splits)
  from bad[OF this] have f: "\<not> timestamp_format str" .
  show ?thesis unfolding timestamp_of_string_def Let_def str_def[symmetric] if_P[OF f] by (rule refl)
qed

end
