(* ===== verification/B_Plus_Page.thy ===== *)
theory B_Plus_Page
  imports Table_Page "HOL-Library.Signed_Division"
begin

text \<open>
  Pages of the B+ tree: \<open>src/storage/page/b_plus_tree_page.cpp\<close>, \<open>b_plus_tree_leaf_page.cpp\<close>,
  \<open>b_plus_tree_internal_page.cpp\<close> and their headers, and the header page
  (\<open>src/storage/page/header_page.cpp\<close>). A leaf or internal page is a record of its fields and its
  array, as long as the page has room for; \<open>load_leaf\<close> and \<open>store_leaf\<close> (and the same for internal
  pages) are the casts of the page's bytes. Only the first \<open>cur_size\<close> elements of an array count.
  A key is \<open>KeySize\<close> bytes (\<open>GenericKey\<close>); the size and the comparator are parameters, as in the
  templates. Accesses outside the array are undefined.
\<close>

section \<open>Memory layout\<close>

type_synonym key = "byte list"
type_synonym comparator = "key \<Rightarrow> key \<Rightarrow> int"

datatype IndexPageType = INVALID_INDEX_PAGE | LEAF_PAGE | INTERNAL_PAGE

fun type_number :: "IndexPageType \<Rightarrow> int" where
  "type_number INVALID_INDEX_PAGE = 0"
| "type_number LEAF_PAGE = 1"
| "type_number INTERNAL_PAGE = 2"

record bpage =
  page_type :: int
  cur_size :: int
  max_size :: int
  parent_page_id :: int
  node_page_id :: int

record leaf = bpage +
  next_leaf_id :: int
  leaf_array :: "(key \<times> RID) list"

record internal = bpage +
  internal_array :: "(key \<times> int) list"

definition LEAF_PAGE_HEADER_SIZE :: nat where "LEAF_PAGE_HEADER_SIZE = 28"
definition INTERNAL_PAGE_HEADER_SIZE :: nat where "INTERNAL_PAGE_HEADER_SIZE = 24"

definition int_at :: "nat \<Rightarrow> byte list \<Rightarrow> int" where
  "int_at off data = get_int (get_at off 4 data)"

definition load_bpage :: "byte list \<Rightarrow> bpage" where
  "load_bpage data = \<lparr>page_type = int_at 0 data, cur_size = int_at 8 data, max_size = int_at 12 data,
     parent_page_id = int_at 16 data, node_page_id = int_at 20 data\<rparr>"

definition store_bpage :: "'a bpage_scheme \<Rightarrow> byte list \<Rightarrow> byte list" where
  "store_bpage p data = page_set 20 (node_page_id p) (page_set 16 (parent_page_id p) (page_set 12 (max_size p)
     (page_set 8 (cur_size p) (page_set 0 (page_type p) data))))"

text \<open>Elements of the two arrays.\<close>

definition leaf_cell :: "nat \<Rightarrow> byte list \<Rightarrow> key \<times> RID" where
  "leaf_cell N bs = (take N bs, \<lparr>rid_page = get_int (get_at N 4 bs), rid_slot = get_uint (get_at (N + 4) 4 bs)\<rparr>)"

definition leaf_bytes :: "key \<times> RID \<Rightarrow> byte list" where
  "leaf_bytes e = fst e @ put_int 4 (rid_page (snd e)) @ put_int 4 (int (rid_slot (snd e)))"

definition internal_cell :: "nat \<Rightarrow> byte list \<Rightarrow> key \<times> int" where
  "internal_cell N bs = (take N bs, get_int (get_at N 4 bs))"

definition internal_bytes :: "key \<times> int \<Rightarrow> byte list" where
  "internal_bytes e = fst e @ put_int 4 (snd e)"

text \<open>The elements of \<open>w\<close> bytes from \<open>off\<close> on that lie in the page.\<close>

definition cells :: "nat \<Rightarrow> nat \<Rightarrow> byte list \<Rightarrow> byte list list" where
  "cells off w data = map (\<lambda>i. get_at (off + i * w) w data) [0..<(length data - off) div w]"

definition load_leaf :: "nat \<Rightarrow> byte list \<Rightarrow> leaf" where
  "load_leaf N data = bpage.extend (load_bpage data)
     (leaf.fields (int_at 24 data) (map (leaf_cell N) (cells LEAF_PAGE_HEADER_SIZE (N + 8) data)))"

definition store_leaf :: "leaf \<Rightarrow> byte list \<Rightarrow> byte list" where
  "store_leaf l data = put_at LEAF_PAGE_HEADER_SIZE (concat (map leaf_bytes (leaf_array l)))
     (page_set 24 (next_leaf_id l) (store_bpage l data))"

definition load_internal :: "nat \<Rightarrow> byte list \<Rightarrow> internal" where
  "load_internal N data = bpage.extend (load_bpage data)
     (internal.fields (map (internal_cell N) (cells INTERNAL_PAGE_HEADER_SIZE (N + 4) data)))"

definition store_internal :: "internal \<Rightarrow> byte list \<Rightarrow> byte list" where
  "store_internal p data = put_at INTERNAL_PAGE_HEADER_SIZE (concat (map internal_bytes (internal_array p))) (store_bpage p data)"

section \<open>Arrays\<close>

definition array_get :: "'e list \<Rightarrow> int \<Rightarrow> 'e result" where
  "array_get arr i = (if 0 \<le> i \<and> nat i < length arr then Inr (arr ! nat i) else Inl Undefined_behaviour)"

text \<open>The elements from \<open>i\<close> up to \<open>j\<close>, and \<open>xs\<close> written from \<open>i\<close> on.\<close>

definition array_read :: "'e list \<Rightarrow> int \<Rightarrow> int \<Rightarrow> 'e list result" where
  "array_read arr i j =
     (if 0 \<le> i \<and> i \<le> j \<and> nat j \<le> length arr then Inr (take (nat (j - i)) (drop (nat i) arr)) else Inl Undefined_behaviour)"

definition array_write :: "'e list \<Rightarrow> int \<Rightarrow> 'e list \<Rightarrow> 'e list result" where
  "array_write arr i xs =
     (if 0 \<le> i \<and> nat i + length xs \<le> length arr then Inr (take (nat i) arr @ xs @ drop (nat i + length xs) arr)
      else Inl Undefined_behaviour)"

text \<open>\<open>std::move\<close> and \<open>std::move_backward\<close> of the range from \<open>i\<close> up to \<open>j\<close> to the place \<open>k\<close>.\<close>

definition array_move :: "'e list \<Rightarrow> int \<Rightarrow> int \<Rightarrow> int \<Rightarrow> 'e list result" where
  "array_move arr i j k = bind_r (array_read arr i j) (array_write arr k)"

text \<open>\<open>std::lower_bound\<close> needs a range partitioned by the test.\<close>

definition lower_bound :: "('e \<Rightarrow> bool) \<Rightarrow> 'e list \<Rightarrow> int result" where
  "lower_bound test xs =
     (if filter test xs = takeWhile test xs then Inr (int (length (takeWhile test xs))) else Inl Undefined_behaviour)"

section \<open>Fields\<close>

definition IsLeafPage :: "'a bpage_scheme \<Rightarrow> bool" where
  "IsLeafPage p \<longleftrightarrow> page_type p = type_number LEAF_PAGE"

definition IsRootPage :: "'a bpage_scheme \<Rightarrow> bool" where
  "IsRootPage p \<longleftrightarrow> parent_page_id p = INVALID_PAGE_ID"

definition GetMinSize :: "'a bpage_scheme \<Rightarrow> int" where
  "GetMinSize p = (if IsLeafPage p then max_size p sdiv 2 else (max_size p + 1) sdiv 2)"

section \<open>Leaf pages\<close>

definition leaf_Init :: "int \<Rightarrow> int \<Rightarrow> int \<Rightarrow> leaf \<Rightarrow> leaf" where
  "leaf_Init pid parent_id mx l = l\<lparr>page_type := type_number LEAF_PAGE, cur_size := 0, node_page_id := pid,
     parent_page_id := parent_id, next_leaf_id := INVALID_PAGE_ID, max_size := mx\<rparr>"

definition leaf_KeyAt :: "int \<Rightarrow> leaf \<Rightarrow> key result" where
  "leaf_KeyAt index l = bind_r (array_get (leaf_array l) index) (\<lambda>e. Inr (fst e))"

definition GetItem :: "int \<Rightarrow> leaf \<Rightarrow> (key \<times> RID) result" where
  "GetItem index l = array_get (leaf_array l) index"

definition KeyIndex :: "comparator \<Rightarrow> key \<Rightarrow> leaf \<Rightarrow> int result" where
  "KeyIndex cmp key l = bind_r (array_read (leaf_array l) 0 (cur_size l)) (lower_bound (\<lambda>e. cmp (fst e) key < 0))"

text \<open>The result of the code is the new size, \<open>cur_size\<close> of the returned page.\<close>

definition leaf_Insert :: "comparator \<Rightarrow> key \<Rightarrow> RID \<Rightarrow> leaf \<Rightarrow> leaf result" where
  "leaf_Insert cmp key value l =
     bind_r (KeyIndex cmp key l) (\<lambda>distance.
     if distance = cur_size l
     then bind_r (array_write (leaf_array l) distance [(key, value)]) (\<lambda>arr. Inr (l\<lparr>leaf_array := arr, cur_size := cur_size l + 1\<rparr>))
     else bind_r (array_get (leaf_array l) distance) (\<lambda>e.
       if cmp (fst e) key = 0 then Inr l
       else bind_r (array_move (leaf_array l) distance (cur_size l) (distance + 1)) (\<lambda>arr.
         bind_r (array_write arr distance [(key, value)]) (\<lambda>arr. Inr (l\<lparr>leaf_array := arr, cur_size := cur_size l + 1\<rparr>)))))"

definition leaf_Lookup :: "comparator \<Rightarrow> key \<Rightarrow> leaf \<Rightarrow> RID option result" where
  "leaf_Lookup cmp key l =
     bind_r (KeyIndex cmp key l) (\<lambda>target.
     if target = cur_size l then Inr None
     else bind_r (array_get (leaf_array l) target) (\<lambda>e. Inr (if cmp (fst e) key \<noteq> 0 then None else Some (snd e))))"

definition RemoveAndDeleteRecord :: "comparator \<Rightarrow> key \<Rightarrow> leaf \<Rightarrow> leaf result" where
  "RemoveAndDeleteRecord cmp key l =
     bind_r (KeyIndex cmp key l) (\<lambda>target.
     if target = cur_size l then Inr l
     else bind_r (array_get (leaf_array l) target) (\<lambda>e.
       if cmp (fst e) key \<noteq> 0 then Inr l
       else bind_r (array_move (leaf_array l) (target + 1) (cur_size l) target) (\<lambda>arr.
         Inr (l\<lparr>leaf_array := arr, cur_size := cur_size l - 1\<rparr>))))"

text \<open>Moves between two leaves; the results are the page moved from and the recipient.\<close>

definition leaf_CopyNFrom :: "(key \<times> RID) list \<Rightarrow> leaf \<Rightarrow> leaf result" where
  "leaf_CopyNFrom xs l =
     bind_r (array_write (leaf_array l) (cur_size l) xs) (\<lambda>arr. Inr (l\<lparr>leaf_array := arr, cur_size := cur_size l + int (length xs)\<rparr>))"

definition leaf_MoveHalfTo :: "leaf \<Rightarrow> leaf \<Rightarrow> (leaf \<times> leaf) result" where
  "leaf_MoveHalfTo l recipient =
     (let start = GetMinSize l; l = l\<lparr>cur_size := start\<rparr>
      in bind_r (array_read (leaf_array l) start (start + (max_size l - start))) (\<lambda>xs.
         bind_r (leaf_CopyNFrom xs recipient) (\<lambda>recipient. Inr (l, recipient))))"

definition leaf_MoveAllTo :: "leaf \<Rightarrow> leaf \<Rightarrow> (leaf \<times> leaf) result" where
  "leaf_MoveAllTo l recipient =
     bind_r (array_read (leaf_array l) 0 (cur_size l)) (\<lambda>xs.
     bind_r (leaf_CopyNFrom xs recipient) (\<lambda>recipient.
     Inr (l\<lparr>cur_size := 0\<rparr>, recipient\<lparr>next_leaf_id := next_leaf_id l\<rparr>)))"

definition leaf_CopyLastFrom :: "key \<times> RID \<Rightarrow> leaf \<Rightarrow> leaf result" where
  "leaf_CopyLastFrom item l =
     bind_r (array_write (leaf_array l) (cur_size l) [item]) (\<lambda>arr. Inr (l\<lparr>leaf_array := arr, cur_size := cur_size l + 1\<rparr>))"

definition leaf_MoveFirstToEndOf :: "leaf \<Rightarrow> leaf \<Rightarrow> (leaf \<times> leaf) result" where
  "leaf_MoveFirstToEndOf l recipient =
     bind_r (GetItem 0 l) (\<lambda>first_item.
     bind_r (array_move (leaf_array l) 1 (cur_size l) 0) (\<lambda>arr.
     bind_r (leaf_CopyLastFrom first_item recipient) (\<lambda>recipient.
     Inr (l\<lparr>leaf_array := arr, cur_size := cur_size l - 1\<rparr>, recipient))))"

definition leaf_CopyFirstFrom :: "key \<times> RID \<Rightarrow> leaf \<Rightarrow> leaf result" where
  "leaf_CopyFirstFrom item l =
     bind_r (array_move (leaf_array l) 0 (cur_size l) 1) (\<lambda>arr.
     bind_r (array_write arr 0 [item]) (\<lambda>arr. Inr (l\<lparr>leaf_array := arr, cur_size := cur_size l + 1\<rparr>)))"

definition leaf_MoveLastToFrontOf :: "leaf \<Rightarrow> leaf \<Rightarrow> (leaf \<times> leaf) result" where
  "leaf_MoveLastToFrontOf l recipient =
     bind_r (GetItem (cur_size l - 1) l) (\<lambda>last_item.
     bind_r (leaf_CopyFirstFrom last_item recipient) (\<lambda>recipient.
     Inr (l\<lparr>cur_size := cur_size l - 1\<rparr>, recipient)))"

section \<open>Internal pages\<close>

definition internal_Init :: "int \<Rightarrow> int \<Rightarrow> int \<Rightarrow> internal \<Rightarrow> internal" where
  "internal_Init pid parent_id mx p = p\<lparr>page_type := type_number INTERNAL_PAGE, cur_size := 0, node_page_id := pid,
     parent_page_id := parent_id, max_size := mx\<rparr>"

definition internal_KeyAt :: "int \<Rightarrow> internal \<Rightarrow> key result" where
  "internal_KeyAt index p = bind_r (array_get (internal_array p) index) (\<lambda>e. Inr (fst e))"

definition ValueAt :: "int \<Rightarrow> internal \<Rightarrow> int result" where
  "ValueAt index p = bind_r (array_get (internal_array p) index) (\<lambda>e. Inr (snd e))"

definition SetKeyAt :: "int \<Rightarrow> key \<Rightarrow> internal \<Rightarrow> internal result" where
  "SetKeyAt index key p =
     bind_r (array_get (internal_array p) index) (\<lambda>e.
     Inr (p\<lparr>internal_array := (internal_array p)[nat index := (key, snd e)]\<rparr>))"

definition SetValueAt :: "int \<Rightarrow> int \<Rightarrow> internal \<Rightarrow> internal result" where
  "SetValueAt index value p =
     bind_r (array_get (internal_array p) index) (\<lambda>e.
     Inr (p\<lparr>internal_array := (internal_array p)[nat index := (fst e, value)]\<rparr>))"

definition ValueIndex :: "int \<Rightarrow> internal \<Rightarrow> int result" where
  "ValueIndex value p =
     bind_r (array_read (internal_array p) 0 (cur_size p)) (\<lambda>es. Inr (int (length (takeWhile (\<lambda>e. snd e \<noteq> value) es))))"

text \<open>The search starts at the second element, the first key does not count.\<close>

definition internal_Lookup :: "comparator \<Rightarrow> key \<Rightarrow> internal \<Rightarrow> int result" where
  "internal_Lookup cmp key p =
     bind_r (array_read (internal_array p) 1 (cur_size p)) (\<lambda>es.
     bind_r (lower_bound (\<lambda>e. cmp (fst e) key < 0) es) (\<lambda>i.
     let target = 1 + i
     in if target = cur_size p then ValueAt (cur_size p - 1) p
        else bind_r (array_get (internal_array p) target) (\<lambda>e.
          if cmp (fst e) key = 0 then Inr (snd e) else ValueAt (target - 1) p)))"

definition PopulateNewRoot :: "int \<Rightarrow> key \<Rightarrow> int \<Rightarrow> internal \<Rightarrow> internal result" where
  "PopulateNewRoot old_value new_key new_value p =
     bind_r (SetKeyAt 1 new_key p) (\<lambda>p. bind_r (SetValueAt 0 old_value p) (\<lambda>p.
     bind_r (SetValueAt 1 new_value p) (\<lambda>p. Inr (p\<lparr>cur_size := 2\<rparr>))))"

definition InsertNodeAfter :: "int \<Rightarrow> key \<Rightarrow> int \<Rightarrow> internal \<Rightarrow> internal result" where
  "InsertNodeAfter old_value new_key new_value p =
     bind_r (ValueIndex old_value p) (\<lambda>i. let new_value_idx = i + 1 in
     bind_r (array_move (internal_array p) new_value_idx (cur_size p) (new_value_idx + 1)) (\<lambda>arr.
     bind_r (array_write arr new_value_idx [(new_key, new_value)]) (\<lambda>arr.
     Inr (p\<lparr>internal_array := arr, cur_size := cur_size p + 1\<rparr>))))"

definition internal_Remove :: "int \<Rightarrow> internal \<Rightarrow> internal result" where
  "internal_Remove index p =
     bind_r (array_move (internal_array p) (index + 1) (cur_size p) index) (\<lambda>arr.
     Inr (p\<lparr>internal_array := arr, cur_size := cur_size p - 1\<rparr>))"

definition RemoveAndReturnOnlyChild :: "internal \<Rightarrow> (int \<times> internal) result" where
  "RemoveAndReturnOnlyChild p = bind_r (ValueAt 0 p) (\<lambda>only_value. Inr (only_value, p\<lparr>cur_size := 0\<rparr>))"

section \<open>The header page\<close>

definition GetRecordCount :: "byte list \<Rightarrow> int" where
  "GetRecordCount data = int_at 0 data"

text \<open>\<open>strcmp\<close> of bytes of the page and a name, which may run past the page.\<close>

fun same_string :: "byte list \<Rightarrow> string \<Rightarrow> bool result" where
  "same_string [] s = Inl Undefined_behaviour"
| "same_string (b # bs) [] = Inr (b = 0)"
| "same_string (b # bs) (c # s) = (if b = byte_of_char c then same_string bs s else Inr False)"

fun find_record :: "string \<Rightarrow> byte list \<Rightarrow> nat \<Rightarrow> nat \<Rightarrow> int result" where
  "find_record name data i 0 = Inr (- 1)"
| "find_record name data i (Suc n) =
     bind_r (same_string (drop (4 + i * 36) data) name) (\<lambda>eq. if eq then Inr (int i) else find_record name data (i + 1) n)"

definition FindRecord :: "string \<Rightarrow> byte list \<Rightarrow> int result" where
  "FindRecord name data = find_record (takeWhile (\<lambda>c. c \<noteq> CHR 0x00) name) data 0 (nat (GetRecordCount data))"

definition put_in :: "nat \<Rightarrow> byte list \<Rightarrow> byte list \<Rightarrow> byte list result" where
  "put_in off bs data = (if off + length bs \<le> length data then Inr (put_at off bs data) else Inl Undefined_behaviour)"

definition InsertRecord :: "string \<Rightarrow> int \<Rightarrow> byte list \<Rightarrow> (bool \<times> byte list) result" where
  "InsertRecord name root_id data =
     bind_r (guard_r (length name < 32) Assertion_failed) (\<lambda>_.
     bind_r (guard_r (root_id > INVALID_PAGE_ID) Assertion_failed) (\<lambda>_.
     bind_r (FindRecord name data) (\<lambda>index.
     if index \<noteq> - 1 then Inr (False, data)
     else let record_num = nat (GetRecordCount data); offset = 4 + record_num * 36 in
       bind_r (put_in offset (map byte_of_char name @ [0]) data) (\<lambda>data.
       bind_r (put_in (offset + 32) (put_int 4 root_id) data) (\<lambda>data.
       Inr (True, page_set 0 (int record_num + 1) data))))))"

definition UpdateRecord :: "string \<Rightarrow> int \<Rightarrow> byte list \<Rightarrow> (bool \<times> byte list) result" where
  "UpdateRecord name root_id data =
     bind_r (guard_r (length name < 32) Assertion_failed) (\<lambda>_.
     bind_r (FindRecord name data) (\<lambda>index.
     if index = - 1 then Inr (False, data)
     else bind_r (put_in (nat index * 36 + 4 + 32) (put_int 4 root_id) data) (\<lambda>data. Inr (True, data))))"

definition DeleteRecord :: "string \<Rightarrow> byte list \<Rightarrow> (bool \<times> byte list) result" where
  "DeleteRecord name data =
     bind_r (guard_r (GetRecordCount data > 0) Assertion_failed) (\<lambda>_.
     bind_r (FindRecord name data) (\<lambda>index.
     if index = - 1 then Inr (False, data)
     else let record_num = nat (GetRecordCount data); offset = nat index * 36 + 4;
              n = (record_num - nat index - 1) * 36 in
       if offset + 36 + n \<le> length data
       then Inr (True, page_set 0 (int record_num - 1) (put_at offset (get_at (offset + 36) n data) data))
       else Inl Undefined_behaviour))"

definition GetRootId :: "string \<Rightarrow> byte list \<Rightarrow> int option result" where
  "GetRootId name data =
     bind_r (guard_r (length name < 32) Assertion_failed) (\<lambda>_.
     bind_r (FindRecord name data) (\<lambda>index.
     if index = - 1 then Inr None
     else let offset = (nat index + 1) * 36 in
       if offset + 4 \<le> length data then Inr (Some (int_at offset data)) else Inl Undefined_behaviour))"

end
