(* ===== verification/B_Plus_Tree.thy ===== *)
theory B_Plus_Tree
  imports Table_Heap B_Plus_Page
begin

text \<open>
  The B+ tree: \<open>src/storage/index/b_plus_tree.cpp\<close>, \<open>index_iterator.cpp\<close> and their headers, over the
  buffer pool. A \<open>Page *\<close> is its frame. The latch of the root page id is part of the state: one thread
  runs, so waiting for a latch that is held is waiting forever, \<open>None\<close>. The latches of pages are left
  out: within one operation no page is latched twice. Loops over page ids are partial functions.
  Exporting the tree to JSON is modelled as the fetches and unpins it makes.
\<close>

section \<open>Latches\<close>

datatype latch = Unlocked | Shared nat | Exclusive

fun WLock :: "latch \<Rightarrow> latch option" where
  "WLock Unlocked = Some Exclusive"
| "WLock l = None"

fun WUnlock :: "latch \<Rightarrow> latch result" where
  "WUnlock Exclusive = Inr Unlocked"
| "WUnlock l = Inl Undefined_behaviour"

fun RLock :: "latch \<Rightarrow> latch option" where
  "RLock Unlocked = Some (Shared 1)"
| "RLock (Shared n) = Some (Shared (n + 1))"
| "RLock Exclusive = None"

fun RUnlock :: "latch \<Rightarrow> latch result" where
  "RUnlock (Shared n) = Inr (if n \<le> 1 then Unlocked else Shared (n - 1))"
| "RUnlock l = Inl Undefined_behaviour"

section \<open>The tree and its pages\<close>

record bptree =
  index_name :: string
  root_page_id :: int
  leaf_max_size :: int
  internal_max_size :: int
  root_page_id_latch :: latch

definition new_BPlusTree :: "string \<Rightarrow> int \<Rightarrow> int \<Rightarrow> bptree" where
  "new_BPlusTree name leaf_max internal_max =
     \<lparr>index_name = name, root_page_id = INVALID_PAGE_ID, leaf_max_size = leaf_max, internal_max_size = internal_max,
      root_page_id_latch = Unlocked\<rparr>"

definition IsEmpty :: "bptree \<Rightarrow> bool" where
  "IsEmpty t \<longleftrightarrow> root_page_id t = INVALID_PAGE_ID"

text \<open>The casts of a page in its frame.\<close>

definition frame_node :: "int \<Rightarrow> bpm \<Rightarrow> bpage" where
  "frame_node f b = load_bpage (frame_data f b)"

definition frame_leaf :: "nat \<Rightarrow> int \<Rightarrow> bpm \<Rightarrow> leaf" where
  "frame_leaf N f b = load_leaf N (frame_data f b)"

definition frame_internal :: "nat \<Rightarrow> int \<Rightarrow> bpm \<Rightarrow> internal" where
  "frame_internal N f b = load_internal N (frame_data f b)"

definition put_node :: "int \<Rightarrow> 'a bpage_scheme \<Rightarrow> bpm \<Rightarrow> bpm" where
  "put_node f p b = frame_put f (store_bpage p (frame_data f b)) b"

definition put_leaf :: "int \<Rightarrow> leaf \<Rightarrow> bpm \<Rightarrow> bpm" where
  "put_leaf f l b = frame_put f (store_leaf l (frame_data f b)) b"

definition put_internal :: "int \<Rightarrow> internal \<Rightarrow> bpm \<Rightarrow> bpm" where
  "put_internal f p b = frame_put f (store_internal p (frame_data f b)) b"

text \<open>\<open>Page::GetPageId\<close>, and the calls of the pool; the result of \<open>FetchPage\<close> is not tested.\<close>

definition frame_id :: "int \<Rightarrow> bpm \<Rightarrow> int" where
  "frame_id f b = page_id (pages b ! nat f)"

definition fetch :: "int \<Rightarrow> bpm \<Rightarrow> (int \<times> bpm) result" where
  "fetch pid b = bind_r (FetchPgImp pid b) (\<lambda>(page, b). case page of None \<Rightarrow> Inl Undefined_behaviour | Some f \<Rightarrow> Inr (f, b))"

definition new_page :: "bpm \<Rightarrow> (int \<times> int \<times> bpm) result" where
  "new_page b = bind_r (NewPgImp b) (\<lambda>(page, b). case page of
     None \<Rightarrow> Inl (Throw OUT_OF_MEMORY) | Some (pid, f) \<Rightarrow> Inr (pid, f, b))"

definition unpin :: "int \<Rightarrow> bool \<Rightarrow> bpm \<Rightarrow> bpm result" where
  "unpin pid dirty b = bind_r (UnpinPgImp pid dirty b) (\<lambda>(_, b). Inr b)"

definition delete_page :: "int \<Rightarrow> bpm \<Rightarrow> bpm result" where
  "delete_page pid b = bind_r (DeletePgImp pid b) (\<lambda>(_, b). Inr b)"

text \<open>\<open>SetParentPageId\<close> on a child that is fetched for it.\<close>

definition set_parent :: "int \<Rightarrow> int \<Rightarrow> bpm \<Rightarrow> bpm result" where
  "set_parent pid parent b =
     bind_r (fetch pid b) (\<lambda>(g, b).
     let b = put_node g ((frame_node g b)\<lparr>parent_page_id := parent\<rparr>) b in unpin (frame_id g b) True b)"

section \<open>Moves between internal pages\<close>

definition internal_CopyNFrom :: "nat \<Rightarrow> (key \<times> int) list \<Rightarrow> int \<Rightarrow> bpm \<Rightarrow> bpm result" where
  "internal_CopyNFrom N xs f b =
     (let p = frame_internal N f b in
     bind_r (array_write (internal_array p) (cur_size p) xs) (\<lambda>arr.
     bind_r (fold_r (\<lambda>i b.
         bind_r (ValueAt (int i + cur_size (frame_internal N f b)) (frame_internal N f b)) (\<lambda>child.
         set_parent child (node_page_id (frame_node f b)) b))
       [0..<length xs] (put_internal f (p\<lparr>internal_array := arr\<rparr>) b)) (\<lambda>b.
     let p = frame_internal N f b in Inr (put_internal f (p\<lparr>cur_size := cur_size p + int (length xs)\<rparr>) b))))"

text \<open>\<open>MoveHalfTo\<close> of a page in memory outside the pool.\<close>

definition internal_MoveHalfTo :: "nat \<Rightarrow> internal \<Rightarrow> int \<Rightarrow> bpm \<Rightarrow> (internal \<times> bpm) result" where
  "internal_MoveHalfTo N p f b =
     (let start = GetMinSize p; original_size = cur_size p; p = p\<lparr>cur_size := start\<rparr> in
     bind_r (array_read (internal_array p) start (start + (original_size - start))) (\<lambda>xs.
     bind_r (internal_CopyNFrom N xs f b) (\<lambda>b. Inr (p, b))))"

definition internal_MoveAllTo :: "nat \<Rightarrow> int \<Rightarrow> key \<Rightarrow> int \<Rightarrow> bpm \<Rightarrow> bpm result" where
  "internal_MoveAllTo N f middle_key g b =
     bind_r (SetKeyAt 0 middle_key (frame_internal N f b)) (\<lambda>p.
     let b = put_internal f p b in
     bind_r (array_read (internal_array p) 0 (cur_size p)) (\<lambda>xs.
     bind_r (internal_CopyNFrom N xs g b) (\<lambda>b. Inr (put_internal f ((frame_internal N f b)\<lparr>cur_size := 0\<rparr>) b))))"

definition internal_CopyLastFrom :: "nat \<Rightarrow> key \<times> int \<Rightarrow> int \<Rightarrow> bpm \<Rightarrow> bpm result" where
  "internal_CopyLastFrom N item f b =
     (let p = frame_internal N f b in
     bind_r (array_write (internal_array p) (cur_size p) [item]) (\<lambda>arr.
     set_parent (snd item) (node_page_id p) (put_internal f (p\<lparr>internal_array := arr, cur_size := cur_size p + 1\<rparr>) b)))"

definition internal_CopyFirstFrom :: "nat \<Rightarrow> key \<times> int \<Rightarrow> int \<Rightarrow> bpm \<Rightarrow> bpm result" where
  "internal_CopyFirstFrom N item f b =
     (let p = frame_internal N f b in
     bind_r (array_move (internal_array p) 0 (cur_size p) 1) (\<lambda>arr.
     bind_r (array_write arr 0 [item]) (\<lambda>arr.
     set_parent (snd item) (node_page_id p) (put_internal f (p\<lparr>internal_array := arr, cur_size := cur_size p + 1\<rparr>) b))))"

definition internal_MoveFirstToEndOf :: "nat \<Rightarrow> int \<Rightarrow> key \<Rightarrow> int \<Rightarrow> bpm \<Rightarrow> bpm result" where
  "internal_MoveFirstToEndOf N f middle_key g b =
     bind_r (SetKeyAt 0 middle_key (frame_internal N f b)) (\<lambda>p.
     bind_r (array_get (internal_array p) 0) (\<lambda>first_item.
     bind_r (internal_CopyLastFrom N first_item g (put_internal f p b)) (\<lambda>b.
     let p = frame_internal N f b in
     bind_r (array_move (internal_array p) 1 (cur_size p) 0) (\<lambda>arr.
     Inr (put_internal f (p\<lparr>internal_array := arr, cur_size := cur_size p - 1\<rparr>) b)))))"

definition internal_MoveLastToFrontOf :: "nat \<Rightarrow> int \<Rightarrow> key \<Rightarrow> int \<Rightarrow> bpm \<Rightarrow> bpm result" where
  "internal_MoveLastToFrontOf N f middle_key g b =
     (let p = frame_internal N f b in
     bind_r (array_get (internal_array p) (cur_size p - 1)) (\<lambda>last_item.
     bind_r (SetKeyAt 0 middle_key (frame_internal N g b)) (\<lambda>r.
     bind_r (internal_CopyFirstFrom N last_item g (put_internal g r b)) (\<lambda>b.
     let p = frame_internal N f b in Inr (put_internal f (p\<lparr>cur_size := cur_size p - 1\<rparr>) b)))))"

section \<open>Search\<close>

datatype Operation = SEARCH | INSERT | DELETE

definition child_of :: "nat \<Rightarrow> comparator \<Rightarrow> key \<Rightarrow> bool \<Rightarrow> bool \<Rightarrow> internal \<Rightarrow> int result" where
  "child_of N cmp key leftMost rightMost p =
     (if leftMost then ValueAt 0 p else if rightMost then ValueAt (cur_size p - 1) p else internal_Lookup cmp key p)"

text \<open>Only a search unpins the pages that it leaves.\<close>

partial_function (option) find_loop ::
  "nat \<Rightarrow> comparator \<Rightarrow> key \<Rightarrow> Operation \<Rightarrow> bool \<Rightarrow> bool \<Rightarrow> int \<Rightarrow> bpm \<Rightarrow> (int \<times> bpm) result option" where
  "find_loop N cmp key operation leftMost rightMost f b =
     (if IsLeafPage (frame_node f b) then Some (Inr (f, b))
      else bind_ro (Some (child_of N cmp key leftMost rightMost (frame_internal N f b))) (\<lambda>child.
        bind_ro (Some (guard_r (child > 0) Assertion_failed)) (\<lambda>_.
        bind_ro (Some (fetch child b)) (\<lambda>(g, b).
        bind_ro (Some (if operation = SEARCH then unpin (frame_id f b) False b else Inr b)) (\<lambda>b.
        find_loop N cmp key operation leftMost rightMost g b)))))"

definition FindLeaf ::
  "nat \<Rightarrow> comparator \<Rightarrow> key \<Rightarrow> Operation \<Rightarrow> bool \<Rightarrow> bool \<Rightarrow> bptree \<Rightarrow> bpm \<Rightarrow> (int \<times> bptree \<times> bpm) result option" where
  "FindLeaf N cmp key operation leftMost rightMost t b =
     bind_ro (Some (guard_r (\<not> (operation = SEARCH \<and> leftMost \<and> rightMost)) Assertion_failed)) (\<lambda>_.
     bind_ro (Some (guard_r (root_page_id t \<noteq> INVALID_PAGE_ID) Assertion_failed)) (\<lambda>_.
     bind_ro (Some (fetch (root_page_id t) b)) (\<lambda>(f, b).
     bind_ro (Some (if operation = SEARCH then RUnlock (root_page_id_latch t) else Inr (root_page_id_latch t))) (\<lambda>l.
     bind_ro (find_loop N cmp key operation leftMost rightMost f b) (\<lambda>(f, b).
     Some (Inr (f, t\<lparr>root_page_id_latch := l\<rparr>, b)))))))"

text \<open>Waiting for the latch of the root page id.\<close>

definition with_latch :: "(latch \<Rightarrow> latch option) \<Rightarrow> bptree \<Rightarrow> (bptree \<Rightarrow> 'r result option) \<Rightarrow> 'r result option" where
  "with_latch lock t body = (case lock (root_page_id_latch t) of None \<Rightarrow> None | Some l \<Rightarrow> body (t\<lparr>root_page_id_latch := l\<rparr>))"

text \<open>The result is the value pushed to \<open>result\<close>, \<open>None\<close> for \<open>false\<close>.\<close>

definition GetValue :: "nat \<Rightarrow> comparator \<Rightarrow> key \<Rightarrow> bptree \<Rightarrow> bpm \<Rightarrow> (RID option \<times> bptree \<times> bpm) result option" where
  "GetValue N cmp key t b =
     with_latch RLock t (\<lambda>t.
     bind_ro (FindLeaf N cmp key SEARCH False False t b) (\<lambda>(f, t, b).
     bind_ro (Some (leaf_Lookup cmp key (frame_leaf N f b))) (\<lambda>v.
     bind_ro (Some (unpin (frame_id f b) False b)) (\<lambda>b. Some (Inr (v, t, b))))))"

section \<open>Export\<close>

datatype visit = Visit int | Leave int

partial_function (option) export_loop :: "nat \<Rightarrow> visit list \<Rightarrow> bpm \<Rightarrow> bpm result option" where
  "export_loop N todo b =
     (case todo of
        [] \<Rightarrow> Some (Inr b)
      | Leave pid # todo \<Rightarrow> bind_ro (Some (unpin pid False b)) (export_loop N todo)
      | Visit pid # todo \<Rightarrow>
          bind_ro (Some (FetchPgImp pid b)) (\<lambda>(page, b). case page of
            None \<Rightarrow> export_loop N todo b
          | Some f \<Rightarrow>
              if IsLeafPage (frame_node f b)
              then bind_ro (Some (array_read (leaf_array (frame_leaf N f b)) 0 (cur_size (frame_leaf N f b)))) (\<lambda>_.
                export_loop N (Leave pid # todo) b)
              else bind_ro (Some (array_read (internal_array (frame_internal N f b)) 0 (cur_size (frame_internal N f b)))) (\<lambda>es.
                export_loop N (map (\<lambda>e. Visit (snd e)) es @ Leave pid # todo) b)))"

definition ExportTreeAfterOperation :: "nat \<Rightarrow> bptree \<Rightarrow> bpm \<Rightarrow> bpm result option" where
  "ExportTreeAfterOperation N t b = (if IsEmpty t then Some (Inr b) else export_loop N [Visit (root_page_id t)] b)"

section \<open>Insertion\<close>

definition HEADER_PAGE_ID :: int where "HEADER_PAGE_ID = 0"

definition UpdateRootPageId :: "int \<Rightarrow> bptree \<Rightarrow> bpm \<Rightarrow> bpm result" where
  "UpdateRootPageId insert_record t b =
     bind_r (fetch HEADER_PAGE_ID b) (\<lambda>(f, b).
     bind_r (if insert_record \<noteq> 0 then InsertRecord (index_name t) (root_page_id t) (frame_data f b)
             else UpdateRecord (index_name t) (root_page_id t) (frame_data f b)) (\<lambda>(_, data).
     unpin HEADER_PAGE_ID True (frame_put f data b)))"

definition StartNewTree :: "nat \<Rightarrow> comparator \<Rightarrow> key \<Rightarrow> RID \<Rightarrow> bptree \<Rightarrow> bpm \<Rightarrow> (bptree \<times> bpm) result" where
  "StartNewTree N cmp key value t b =
     bind_r (new_page b) (\<lambda>(pid, f, b).
     let t = t\<lparr>root_page_id := pid\<rparr> in
     bind_r (leaf_Insert cmp key value (leaf_Init pid INVALID_PAGE_ID (leaf_max_size t) (frame_leaf N f b))) (\<lambda>l.
     let b = put_leaf f l b in
     bind_r (unpin (frame_id f b) True b) (\<lambda>b. Inr (t, b))))"

text \<open>\<open>Split\<close> of a leaf in its frame, and of an internal page outside the pool.\<close>

definition Split_leaf :: "nat \<Rightarrow> int \<Rightarrow> bptree \<Rightarrow> bpm \<Rightarrow> (int \<times> bpm) result" where
  "Split_leaf N f t b =
     bind_r (new_page b) (\<lambda>(pid, g, b).
     let l = frame_leaf N f b;
         r = leaf_Init pid (parent_page_id l) (leaf_max_size t) ((frame_leaf N g b)\<lparr>page_type := page_type l\<rparr>) in
     bind_r (leaf_MoveHalfTo l r) (\<lambda>(l, r). Inr (g, put_leaf g r (put_leaf f l b))))"

definition Split_internal :: "nat \<Rightarrow> internal \<Rightarrow> bptree \<Rightarrow> bpm \<Rightarrow> (int \<times> internal \<times> bpm) result" where
  "Split_internal N p t b =
     bind_r (new_page b) (\<lambda>(pid, g, b).
     let r = internal_Init pid (parent_page_id p) (internal_max_size t) ((frame_internal N g b)\<lparr>page_type := page_type p\<rparr>) in
     bind_r (internal_MoveHalfTo N p g (put_internal g r b)) (\<lambda>(p, b). Inr (g, p, b)))"

definition new_root :: "nat \<Rightarrow> int \<Rightarrow> key \<Rightarrow> int \<Rightarrow> bptree \<Rightarrow> bpm \<Rightarrow> (bptree \<times> bpm) result" where
  "new_root N f key g t b =
     bind_r (new_page b) (\<lambda>(pid, h, b).
     let t = t\<lparr>root_page_id := pid\<rparr> in
     bind_r (PopulateNewRoot (node_page_id (frame_node f b)) key (node_page_id (frame_node g b))
         (internal_Init pid INVALID_PAGE_ID (internal_max_size t) (frame_internal N h b))) (\<lambda>r.
     let b = put_internal h r b;
         b = put_node f ((frame_node f b)\<lparr>parent_page_id := node_page_id (frame_node h b)\<rparr>) b;
         b = put_node g ((frame_node g b)\<lparr>parent_page_id := node_page_id (frame_node h b)\<rparr>) b in
     bind_r (unpin (frame_id h b) True b) (\<lambda>b. bind_r (UpdateRootPageId 0 t b) (\<lambda>b. Inr (t, b)))))"

text \<open>
  The temporary copy of a full parent. Its size, and the sizes of both copies, count elements of
  \<open>KeySize + 8\<close> bytes, larger than those of an internal page; the bytes after the copy are not
  initialised.
\<close>

definition copy_size :: "nat \<Rightarrow> int \<Rightarrow> nat" where
  "copy_size N n = INTERNAL_PAGE_HEADER_SIZE + (N + 8) * nat n"

definition copy_page :: "nat \<Rightarrow> byte list \<Rightarrow> int \<Rightarrow> byte list result" where
  "copy_page N data n =
     (if 0 \<le> n \<and> copy_size N n \<le> length data
      then Inr (take (copy_size N n) data @ replicate (copy_size N (n + 1) - copy_size N n) 0) else Inl Undefined_behaviour)"

definition copy_back :: "nat \<Rightarrow> byte list \<Rightarrow> int \<Rightarrow> byte list \<Rightarrow> byte list result" where
  "copy_back N mem n data =
     (if 0 \<le> n \<and> copy_size N n \<le> length mem \<and> copy_size N n \<le> length data
      then Inr (take (copy_size N n) mem @ drop (copy_size N n) data) else Inl Undefined_behaviour)"

partial_function (option) InsertIntoParent ::
  "nat \<Rightarrow> int \<Rightarrow> key \<Rightarrow> int \<Rightarrow> bptree \<Rightarrow> bpm \<Rightarrow> (bptree \<times> bpm) result option" where
  "InsertIntoParent N f key g t b =
     (if IsRootPage (frame_node f b) then Some (new_root N f key g t b)
      else bind_ro (Some (fetch (parent_page_id (frame_node f b)) b)) (\<lambda>(h, b).
        let old_id = node_page_id (frame_node f b); new_id = node_page_id (frame_node g b); p = frame_internal N h b in
        if cur_size p < internal_max_size t
        then Some (bind_r (InsertNodeAfter old_id key new_id p) (\<lambda>p.
          let b = put_internal h p b in bind_r (unpin (frame_id h b) True b) (\<lambda>b. Inr (t, b))))
        else
          bind_ro (Some (copy_page N (frame_data h b) (cur_size p))) (\<lambda>mem.
          bind_ro (Some (InsertNodeAfter old_id key new_id (load_internal N mem))) (\<lambda>copy.
          bind_ro (Some (Split_internal N copy t b)) (\<lambda>(s, copy, b).
          bind_ro (Some (internal_KeyAt 0 (frame_internal N s b))) (\<lambda>new_key.
          bind_ro (Some (copy_back N (store_internal copy mem) (GetMinSize copy) (frame_data h b))) (\<lambda>data.
          bind_ro (InsertIntoParent N h new_key s t (frame_put h data b)) (\<lambda>(t, b).
          Some (bind_r (unpin (frame_id h b) True b) (\<lambda>b.
            bind_r (unpin (node_page_id (frame_node s b)) True b) (\<lambda>b. Inr (t, b))))))))))))"

definition InsertIntoLeaf :: "nat \<Rightarrow> comparator \<Rightarrow> key \<Rightarrow> RID \<Rightarrow> bptree \<Rightarrow> bpm \<Rightarrow> (bool \<times> bptree \<times> bpm) result option" where
  "InsertIntoLeaf N cmp key value t b =
     bind_ro (FindLeaf N cmp key INSERT False False t b) (\<lambda>(f, t, b).
     let old_size = cur_size (frame_leaf N f b) in
     bind_ro (Some (leaf_Insert cmp key value (frame_leaf N f b))) (\<lambda>l.
     let new_size = cur_size l; b = put_leaf f l b in
     if new_size = old_size then Some (bind_r (unpin (frame_id f b) False b) (\<lambda>b. Inr (False, t, b)))
     else if new_size < leaf_max_size t then Some (bind_r (unpin (frame_id f b) True b) (\<lambda>b. Inr (True, t, b)))
     else
       bind_ro (Some (Split_leaf N f t b)) (\<lambda>(g, b).
       let b = put_leaf g ((frame_leaf N g b)\<lparr>next_leaf_id := next_leaf_id (frame_leaf N f b)\<rparr>) b;
           b = put_leaf f ((frame_leaf N f b)\<lparr>next_leaf_id := node_page_id (frame_node g b)\<rparr>) b in
       bind_ro (Some (leaf_KeyAt 0 (frame_leaf N g b))) (\<lambda>risen_key.
       bind_ro (InsertIntoParent N f risen_key g t b) (\<lambda>(t, b).
       Some (bind_r (unpin (frame_id f b) True b) (\<lambda>b.
         bind_r (unpin (node_page_id (frame_node g b)) True b) (\<lambda>b. Inr (True, t, b)))))))))"

definition BPlusTree_Insert :: "nat \<Rightarrow> comparator \<Rightarrow> key \<Rightarrow> RID \<Rightarrow> bptree \<Rightarrow> bpm \<Rightarrow> (bool \<times> bptree \<times> bpm) result option" where
  "BPlusTree_Insert N cmp key value t b =
     with_latch WLock t (\<lambda>t.
     if IsEmpty t
     then bind_ro (Some (StartNewTree N cmp key value t b)) (\<lambda>(t, b).
       bind_ro (Some (WUnlock (root_page_id_latch t))) (\<lambda>l.
       let t = t\<lparr>root_page_id_latch := l\<rparr> in
       bind_ro (ExportTreeAfterOperation N t b) (\<lambda>b. Some (Inr (True, t, b)))))
     else bind_ro (InsertIntoLeaf N cmp key value t b) (\<lambda>(inserted, t, b).
       bind_ro (ExportTreeAfterOperation N t b) (\<lambda>b. Some (Inr (inserted, t, b)))))"

section \<open>Removal\<close>

text \<open>Whether the old root should be deleted.\<close>

definition AdjustRoot :: "nat \<Rightarrow> int \<Rightarrow> bptree \<Rightarrow> bpm \<Rightarrow> (bool \<times> bptree \<times> bpm) result" where
  "AdjustRoot N f t b =
     (let old = frame_node f b in
     if \<not> IsLeafPage old \<and> cur_size old = 1
     then bind_r (ValueAt 0 (frame_internal N f b)) (\<lambda>child.
       bind_r (fetch child b) (\<lambda>(g, b).
       let b = put_node g ((frame_node g b)\<lparr>parent_page_id := INVALID_PAGE_ID\<rparr>) b;
           t = t\<lparr>root_page_id := node_page_id (frame_node g b)\<rparr> in
       bind_r (UpdateRootPageId 0 t b) (\<lambda>b. bind_r (unpin (frame_id g b) True b) (\<lambda>b. Inr (True, t, b)))))
     else if IsLeafPage old \<and> cur_size old = 0
     then let t = t\<lparr>root_page_id := INVALID_PAGE_ID\<rparr> in bind_r (UpdateRootPageId 0 t b) (\<lambda>b. Inr (True, t, b))
     else Inr (False, t, b))"

text \<open>\<open>f\<close> is the node, \<open>s\<close> its sibling and \<open>h\<close> the parent.\<close>

definition Redistribute :: "nat \<Rightarrow> int \<Rightarrow> int \<Rightarrow> int \<Rightarrow> int \<Rightarrow> bool \<Rightarrow> bpm \<Rightarrow> bpm result" where
  "Redistribute N s f h index from_prev b =
     (if IsLeafPage (frame_node f b)
      then if \<not> from_prev
        then bind_r (leaf_MoveFirstToEndOf (frame_leaf N s b) (frame_leaf N f b)) (\<lambda>(sl, fl).
          let b = put_leaf f fl (put_leaf s sl b) in
          bind_r (leaf_KeyAt 0 (frame_leaf N s b)) (\<lambda>k.
          bind_r (SetKeyAt (index + 1) k (frame_internal N h b)) (\<lambda>p. Inr (put_internal h p b))))
        else bind_r (leaf_MoveLastToFrontOf (frame_leaf N s b) (frame_leaf N f b)) (\<lambda>(sl, fl).
          let b = put_leaf f fl (put_leaf s sl b) in
          bind_r (leaf_KeyAt 0 (frame_leaf N f b)) (\<lambda>k.
          bind_r (SetKeyAt index k (frame_internal N h b)) (\<lambda>p. Inr (put_internal h p b))))
      else if \<not> from_prev
        then bind_r (internal_KeyAt (index + 1) (frame_internal N h b)) (\<lambda>middle.
          bind_r (internal_MoveFirstToEndOf N s middle f b) (\<lambda>b.
          bind_r (internal_KeyAt 0 (frame_internal N s b)) (\<lambda>k.
          bind_r (SetKeyAt (index + 1) k (frame_internal N h b)) (\<lambda>p. Inr (put_internal h p b)))))
        else bind_r (internal_KeyAt index (frame_internal N h b)) (\<lambda>middle.
          bind_r (internal_MoveLastToFrontOf N s middle f b) (\<lambda>b.
          bind_r (internal_KeyAt 0 (frame_internal N f b)) (\<lambda>k.
          bind_r (SetKeyAt index k (frame_internal N h b)) (\<lambda>p. Inr (put_internal h p b))))))"

text \<open>\<open>Coalesce\<close> up to its recursive call: \<open>f\<close> is emptied into \<open>s\<close> and leaves the parent.\<close>

definition Coalesce_move :: "nat \<Rightarrow> int \<Rightarrow> int \<Rightarrow> int \<Rightarrow> int \<Rightarrow> bpm \<Rightarrow> bpm result" where
  "Coalesce_move N s f h index b =
     bind_r (internal_KeyAt index (frame_internal N h b)) (\<lambda>middle_key.
     bind_r (if IsLeafPage (frame_node f b)
             then bind_r (leaf_MoveAllTo (frame_leaf N f b) (frame_leaf N s b)) (\<lambda>(fl, sl). Inr (put_leaf f fl (put_leaf s sl b)))
             else internal_MoveAllTo N f middle_key s b) (\<lambda>b.
     bind_r (internal_Remove index (frame_internal N h b)) (\<lambda>p. Inr (put_internal h p b))))"

partial_function (option) CoalesceOrRedistribute :: "nat \<Rightarrow> int \<Rightarrow> bptree \<Rightarrow> bpm \<Rightarrow> (bool \<times> bptree \<times> bpm) result option" where
  "CoalesceOrRedistribute N f t b =
     (if IsRootPage (frame_node f b) then Some (AdjustRoot N f t b)
      else if cur_size (frame_node f b) \<ge> GetMinSize (frame_node f b) then Some (Inr (False, t, b))
      else bind_ro (Some (fetch (parent_page_id (frame_node f b)) b)) (\<lambda>(h, b).
        bind_ro (Some (ValueIndex (node_page_id (frame_node f b)) (frame_internal N h b))) (\<lambda>idx.
        if idx > 0
        then bind_ro (Some (bind_r (ValueAt (idx - 1) (frame_internal N h b)) (\<lambda>sibling. fetch sibling b))) (\<lambda>(s, b).
          if cur_size (frame_node s b) > GetMinSize (frame_node s b)
          then Some (bind_r (Redistribute N s f h idx True b) (\<lambda>b.
            bind_r (unpin (frame_id h b) True b) (\<lambda>b. bind_r (unpin (frame_id s b) True b) (\<lambda>b. Inr (False, t, b)))))
          else bind_ro (Some (Coalesce_move N s f h idx b)) (\<lambda>b.
            bind_ro (CoalesceOrRedistribute N h t b) (\<lambda>(parent_should_delete, t, b).
            Some (bind_r (if parent_should_delete then delete_page (node_page_id (frame_node h b)) b else Inr b) (\<lambda>b.
              bind_r (unpin (frame_id h b) True b) (\<lambda>b. bind_r (unpin (frame_id s b) True b) (\<lambda>b. Inr (True, t, b))))))))
        else if idx \<noteq> cur_size (frame_internal N h b) - 1
        then bind_ro (Some (bind_r (ValueAt (idx + 1) (frame_internal N h b)) (\<lambda>sibling. fetch sibling b))) (\<lambda>(s, b).
          if cur_size (frame_node s b) > GetMinSize (frame_node s b)
          then Some (bind_r (Redistribute N s f h idx False b) (\<lambda>b.
            bind_r (unpin (frame_id h b) True b) (\<lambda>b. bind_r (unpin (frame_id s b) True b) (\<lambda>b. Inr (False, t, b)))))
          else bind_ro (Some (ValueIndex (node_page_id (frame_node s b)) (frame_internal N h b))) (\<lambda>sibling_idx.
            bind_ro (Some (Coalesce_move N f s h sibling_idx b)) (\<lambda>b.
            bind_ro (CoalesceOrRedistribute N h t b) (\<lambda>(parent_should_delete, t, b).
            Some (bind_r (delete_page (node_page_id (frame_node s b)) b) (\<lambda>b.
              bind_r (if parent_should_delete then delete_page (node_page_id (frame_node h b)) b else Inr b) (\<lambda>b.
              bind_r (unpin (frame_id h b) True b) (\<lambda>b. bind_r (unpin (frame_id s b) True b) (\<lambda>b. Inr (False, t, b))))))))))
        else Some (Inr (False, t, b)))))"

definition BPlusTree_Remove :: "nat \<Rightarrow> comparator \<Rightarrow> key \<Rightarrow> bptree \<Rightarrow> bpm \<Rightarrow> (bptree \<times> bpm) result option" where
  "BPlusTree_Remove N cmp key t b =
     with_latch WLock t (\<lambda>t.
     if IsEmpty t then Some (bind_r (WUnlock (root_page_id_latch t)) (\<lambda>l. Inr (t\<lparr>root_page_id_latch := l\<rparr>, b)))
     else bind_ro (FindLeaf N cmp key DELETE False False t b) (\<lambda>(f, t, b).
       let original_size = cur_size (frame_leaf N f b) in
       bind_ro (Some (RemoveAndDeleteRecord cmp key (frame_leaf N f b))) (\<lambda>l.
       let b = put_leaf f l b in
       if original_size = cur_size l
       then bind_ro (Some (unpin (frame_id f b) False b)) (\<lambda>b.
         bind_ro (ExportTreeAfterOperation N t b) (\<lambda>b. Some (Inr (t, b))))
       else bind_ro (CoalesceOrRedistribute N f t b) (\<lambda>(node_should_delete, t, b).
         bind_ro (Some (bind_r (if node_should_delete then delete_page (node_page_id (frame_node f b)) b else Inr b)
           (\<lambda>b. unpin (frame_id f b) True b))) (\<lambda>b.
         bind_ro (ExportTreeAfterOperation N t b) (\<lambda>b. Some (Inr (t, b))))))))"

section \<open>Iterators\<close>

text \<open>A null page is \<open>None\<close>.\<close>

record index_iterator =
  it_page :: "int option"
  it_index :: int

definition Begin :: "nat \<Rightarrow> comparator \<Rightarrow> bptree \<Rightarrow> bpm \<Rightarrow> (index_iterator \<times> bptree \<times> bpm) result option" where
  "Begin N cmp t b =
     (if root_page_id t = INVALID_PAGE_ID then Some (Inr (\<lparr>it_page = None, it_index = 0\<rparr>, t, b))
      else with_latch RLock t (\<lambda>t.
        bind_ro (FindLeaf N cmp (replicate N 0) SEARCH True False t b) (\<lambda>(f, t, b).
        Some (Inr (\<lparr>it_page = Some f, it_index = 0\<rparr>, t, b)))))"

definition Begin_at :: "nat \<Rightarrow> comparator \<Rightarrow> key \<Rightarrow> bptree \<Rightarrow> bpm \<Rightarrow> (index_iterator \<times> bptree \<times> bpm) result option" where
  "Begin_at N cmp key t b =
     (if root_page_id t = INVALID_PAGE_ID then Some (Inr (\<lparr>it_page = None, it_index = 0\<rparr>, t, b))
      else with_latch RLock t (\<lambda>t.
        bind_ro (FindLeaf N cmp key SEARCH False False t b) (\<lambda>(f, t, b).
        bind_ro (Some (KeyIndex cmp key (frame_leaf N f b))) (\<lambda>idx.
        Some (Inr (\<lparr>it_page = Some f, it_index = idx\<rparr>, t, b))))))"

definition End :: "nat \<Rightarrow> comparator \<Rightarrow> bptree \<Rightarrow> bpm \<Rightarrow> (index_iterator \<times> bptree \<times> bpm) result option" where
  "End N cmp t b =
     (if root_page_id t = INVALID_PAGE_ID then Some (Inr (\<lparr>it_page = None, it_index = 0\<rparr>, t, b))
      else with_latch RLock t (\<lambda>t.
        bind_ro (FindLeaf N cmp (replicate N 0) SEARCH False True t b) (\<lambda>(f, t, b).
        Some (Inr (\<lparr>it_page = Some f, it_index = cur_size (frame_leaf N f b)\<rparr>, t, b)))))"

definition iter_page :: "index_iterator \<Rightarrow> int result" where
  "iter_page it = (case it_page it of None \<Rightarrow> Inl Undefined_behaviour | Some f \<Rightarrow> Inr f)"

definition iter_destroy :: "index_iterator \<Rightarrow> bpm \<Rightarrow> bpm result" where
  "iter_destroy it b = (case it_page it of None \<Rightarrow> Inr b | Some f \<Rightarrow> unpin (frame_id f b) False b)"

definition IsEnd :: "nat \<Rightarrow> index_iterator \<Rightarrow> bpm \<Rightarrow> bool result" where
  "IsEnd N it b =
     bind_r (iter_page it) (\<lambda>f.
     Inr (next_leaf_id (frame_leaf N f b) = INVALID_PAGE_ID \<and> it_index it = cur_size (frame_leaf N f b)))"

definition iter_item :: "nat \<Rightarrow> index_iterator \<Rightarrow> bpm \<Rightarrow> (key \<times> RID) result" where
  "iter_item N it b = bind_r (iter_page it) (\<lambda>f. GetItem (it_index it) (frame_leaf N f b))"

definition iter_next :: "nat \<Rightarrow> index_iterator \<Rightarrow> bpm \<Rightarrow> (index_iterator \<times> bpm) result" where
  "iter_next N it b =
     bind_r (iter_page it) (\<lambda>f.
     let l = frame_leaf N f b in
     if it_index it = cur_size l - 1 \<and> next_leaf_id l \<noteq> INVALID_PAGE_ID
     then bind_r (fetch (next_leaf_id l) b) (\<lambda>(g, b).
       bind_r (unpin (frame_id f b) False b) (\<lambda>b. Inr (\<lparr>it_page = Some g, it_index = 0\<rparr>, b)))
     else Inr (it\<lparr>it_index := it_index it + 1\<rparr>, b))"

definition index_iter_eq :: "nat \<Rightarrow> index_iterator \<Rightarrow> index_iterator \<Rightarrow> bpm \<Rightarrow> bool result" where
  "index_iter_eq N it it' b =
     (case it_page it of None \<Rightarrow> Inr True
      | Some f \<Rightarrow> bind_r (iter_page it') (\<lambda>g.
          Inr (node_page_id (frame_node f b) = node_page_id (frame_node g b) \<and> it_index it = it_index it')))"

end
