(* ===== verification/Index_Scan.thy ===== *)
theory Index_Scan
  imports B_Plus_Tree Row Executors
begin

text \<open>
  Indexes over the B+ tree: keys and their comparator (\<open>include/storage/index/generic_key.h\<close>),
  \<open>BPlusTreeIndex\<close> (\<open>src/storage/index/b_plus_tree_index.cpp\<close>) and the index scan
  (\<open>src/execution/index_scan_executor.cpp\<close>). The key size is a parameter \<open>N\<close>; the scan uses
  indexes of one integer column, with keys of four bytes.
\<close>

section \<open>Keys\<close>

definition SetFromKey :: "nat \<Rightarrow> Tuple \<Rightarrow> key result" where
  "SetFromKey N tuple = (case tdata tuple of
     None \<Rightarrow> Inl Undefined_behaviour
   | Some data \<Rightarrow> if length data \<le> N then Inr (put_at 0 data (replicate N 0)) else Inl Undefined_behaviour)"

definition SetFromInteger :: "nat \<Rightarrow> int \<Rightarrow> key result" where
  "SetFromInteger N k = (if 8 \<le> N then Inr (put_at 0 (put_int 8 k) (replicate N 0)) else Inl Undefined_behaviour)"

definition ToValue :: "'d float_ops \<Rightarrow> Schema \<Rightarrow> nat \<Rightarrow> key \<Rightarrow> 'd Value result" where
  "ToValue F schema column_idx key =
     (if column_idx < GetColumnCount schema then read_column F key (columns schema ! column_idx) else Inl Undefined_behaviour)"

definition ToString :: "key \<Rightarrow> int result" where
  "ToString key = (if 8 \<le> length key then Inr (get_int (get_at 0 8 key)) else Inl Undefined_behaviour)"

fun compare_columns :: "'d float_ops \<Rightarrow> Schema \<Rightarrow> nat list \<Rightarrow> key \<Rightarrow> key \<Rightarrow> int result" where
  "compare_columns F schema [] lhs rhs = Inr 0"
| "compare_columns F schema (i # is) lhs rhs =
     bind_r (ToValue F schema i lhs) (\<lambda>lhs_value.
     bind_r (ToValue F schema i rhs) (\<lambda>rhs_value.
     bind_r (Value_CompareLessThan F lhs_value rhs_value) (\<lambda>lt.
     if lt = CmpTrue then Inr (- 1)
     else bind_r (Value_CompareGreaterThan F lhs_value rhs_value) (\<lambda>gt.
       if gt = CmpTrue then Inr 1 else compare_columns F schema is lhs rhs))))"

definition GenericComparator :: "'d float_ops \<Rightarrow> Schema \<Rightarrow> key \<Rightarrow> key \<Rightarrow> int result" where
  "GenericComparator F key_schema lhs rhs = compare_columns F key_schema [0..<GetColumnCount key_schema] lhs rhs"

text \<open>The pages take a comparator without errors; for keys that it can read, it is this one.\<close>

definition comparator_of :: "(key \<Rightarrow> key \<Rightarrow> int result) \<Rightarrow> comparator" where
  "comparator_of f a b = (case f a b of Inr n \<Rightarrow> n | Inl _ \<Rightarrow> 0)"

section \<open>The index\<close>

record BPlusTreeIndex =
  ix_name :: string
  ix_table_name :: string
  ix_key_schema :: Schema
  ix_key_attrs :: "nat list"
  container :: bptree

text \<open>The sizes of a tree that is not given any: elements with a record id, on both kinds of pages.\<close>

definition LEAF_PAGE_SIZE :: "nat \<Rightarrow> int" where
  "LEAF_PAGE_SIZE N = (int BUSTUB_PAGE_SIZE - int LEAF_PAGE_HEADER_SIZE) div (int N + 8)"

definition INTERNAL_PAGE_SIZE :: "nat \<Rightarrow> int" where
  "INTERNAL_PAGE_SIZE N = (int BUSTUB_PAGE_SIZE - int INTERNAL_PAGE_HEADER_SIZE) div (int N + 8)"

definition new_Index :: "nat \<Rightarrow> string \<Rightarrow> string \<Rightarrow> Schema \<Rightarrow> nat list \<Rightarrow> BPlusTreeIndex result" where
  "new_Index N name table_name tuple_schema key_attrs =
     bind_r (CopySchema tuple_schema key_attrs) (\<lambda>key_schema.
     Inr \<lparr>ix_name = name, ix_table_name = table_name, ix_key_schema = key_schema, ix_key_attrs = key_attrs,
          container = new_BPlusTree name (LEAF_PAGE_SIZE N) (INTERNAL_PAGE_SIZE N)\<rparr>)"

definition ix_comparator :: "'d float_ops \<Rightarrow> BPlusTreeIndex \<Rightarrow> comparator" where
  "ix_comparator F ix = comparator_of (GenericComparator F (ix_key_schema ix))"

definition InsertEntry :: "nat \<Rightarrow> 'd float_ops \<Rightarrow> Tuple \<Rightarrow> RID \<Rightarrow> BPlusTreeIndex \<Rightarrow> bpm \<Rightarrow> (BPlusTreeIndex \<times> bpm) result option" where
  "InsertEntry N F key rid ix b =
     bind_ro (Some (SetFromKey N key)) (\<lambda>index_key.
     bind_ro (BPlusTree_Insert N (ix_comparator F ix) index_key rid (container ix) b) (\<lambda>(_, t, b).
     Some (Inr (ix\<lparr>container := t\<rparr>, b))))"

definition DeleteEntry :: "nat \<Rightarrow> 'd float_ops \<Rightarrow> Tuple \<Rightarrow> RID \<Rightarrow> BPlusTreeIndex \<Rightarrow> bpm \<Rightarrow> (BPlusTreeIndex \<times> bpm) result option" where
  "DeleteEntry N F key rid ix b =
     bind_ro (Some (SetFromKey N key)) (\<lambda>index_key.
     bind_ro (BPlusTree_Remove N (ix_comparator F ix) index_key (container ix) b) (\<lambda>(t, b).
     Some (Inr (ix\<lparr>container := t\<rparr>, b))))"

definition ScanKey :: "nat \<Rightarrow> 'd float_ops \<Rightarrow> Tuple \<Rightarrow> RID list \<Rightarrow> BPlusTreeIndex \<Rightarrow> bpm \<Rightarrow> (RID list \<times> BPlusTreeIndex \<times> bpm) result option" where
  "ScanKey N F key rids ix b =
     bind_ro (Some (SetFromKey N key)) (\<lambda>index_key.
     bind_ro (GetValue N (ix_comparator F ix) index_key (container ix) b) (\<lambda>(v, t, b).
     Some (Inr (rids @ (case v of None \<Rightarrow> [] | Some rid \<Rightarrow> [rid]), ix\<lparr>container := t\<rparr>, b))))"

section \<open>The index scan\<close>

text \<open>The executor's members, with the index that they point to.\<close>

record index_scan =
  is_index :: BPlusTreeIndex
  is_iter :: index_iterator
  is_rids :: "RID list"
  is_pos :: nat

definition IndexScan_new :: "'d float_ops \<Rightarrow> 'd expr option \<Rightarrow> BPlusTreeIndex \<Rightarrow> bpm \<Rightarrow> (index_scan \<times> bpm) result option" where
  "IndexScan_new F filter_predicate ix b =
     (if filter_predicate \<noteq> None
      then Some (Inr (\<lparr>is_index = ix, is_iter = \<lparr>it_page = None, it_index = 0\<rparr>, is_rids = [], is_pos = 0\<rparr>, b))
      else bind_ro (Begin 4 (ix_comparator F ix) (container ix) b) (\<lambda>(it, t, b).
        Some (Inr (\<lparr>is_index = ix\<lparr>container := t\<rparr>, is_iter = it, is_rids = [], is_pos = 0\<rparr>, b))))"

definition scan_constant :: "'d expr \<Rightarrow> 'd Value result" where
  "scan_constant e = (case e of
     Arithmetic _ (Constant v) _ \<Rightarrow> Inr v
   | Comparison _ (Constant v) _ \<Rightarrow> Inr v
   | Logic _ (Constant v) _ \<Rightarrow> Inr v
   | Like _ (Constant v) \<Rightarrow> Inr v
   | _ \<Rightarrow> Inl Undefined_behaviour)"

definition IndexScan_Init :: "'d float_ops \<Rightarrow> 'd expr option \<Rightarrow> index_scan \<Rightarrow> bpm \<Rightarrow> (index_scan \<times> bpm) result option" where
  "IndexScan_Init F filter_predicate s b =
     (case filter_predicate of
        None \<Rightarrow> Some (Inr (s, b))
      | Some e \<Rightarrow>
          bind_ro (Some (scan_constant e)) (\<lambda>v.
          bind_ro (Some (Tuple_of_values F [v] (ix_key_schema (is_index s)))) (\<lambda>key.
          bind_ro (ScanKey 4 F key (is_rids s) (is_index s) b) (\<lambda>(rids, ix, b).
          Some (Inr (s\<lparr>is_index := ix, is_rids := rids, is_pos := 0\<rparr>, b))))))"

text \<open>\<open>iter_ == tree_->GetEndIterator()\<close>; the temporary is destroyed after the comparison.\<close>

definition at_end :: "nat \<Rightarrow> comparator \<Rightarrow> index_iterator \<Rightarrow> bptree \<Rightarrow> bpm \<Rightarrow> (bool \<times> bptree \<times> bpm) result option" where
  "at_end N cmp it t b =
     bind_ro (End N cmp t b) (\<lambda>(e, t, b).
     bind_ro (Some (index_iter_eq N it e b)) (\<lambda>eq.
     bind_ro (Some (iter_destroy e b)) (\<lambda>b. Some (Inr (eq, t, b)))))"

definition IndexScan_Next :: "'d float_ops \<Rightarrow> 'd expr option \<Rightarrow> index_scan \<Rightarrow> Tuple \<Rightarrow> RID \<Rightarrow> bpm \<Rightarrow>
    (Tuple option \<times> index_scan \<times> RID \<times> bpm) result option" where
  "IndexScan_Next F filter_predicate s tuple rid b =
     (if filter_predicate \<noteq> None
      then if is_pos s < length (is_rids s)
        then let rid = is_rids s ! is_pos s in
          bind_ro (Some (TableHeap_GetTuple rid tuple b)) (\<lambda>(result, tuple, b).
          Some (Inr (if result then Some tuple else None, s\<lparr>is_pos := is_pos s + 1\<rparr>, rid, b)))
        else Some (Inr (None, s, rid, b))
      else
        bind_ro (at_end 4 (ix_comparator F (is_index s)) (is_iter s) (container (is_index s)) b) (\<lambda>(eq, t, b).
        let s = s\<lparr>is_index := (is_index s)\<lparr>container := t\<rparr>\<rparr> in
        if eq then Some (Inr (None, s, rid, b))
        else
          bind_ro (Some (iter_item 4 (is_iter s) b)) (\<lambda>(_, rid).
          bind_ro (Some (TableHeap_GetTuple rid tuple b)) (\<lambda>(result, tuple, b).
          bind_ro (Some (iter_next 4 (is_iter s) b)) (\<lambda>(it, b).
          Some (Inr (if result then Some tuple else None, s\<lparr>is_iter := it\<rparr>, rid, b)))))))"

text \<open>\<open>PollExecutor\<close> of the execution engine, on an index scan.\<close>

partial_function (option) IndexScan_poll :: "'d float_ops \<Rightarrow> 'd expr option \<Rightarrow> index_scan \<Rightarrow> Tuple \<Rightarrow> RID \<Rightarrow> Tuple list \<Rightarrow> bpm \<Rightarrow>
    (Tuple list \<times> index_scan \<times> bpm) result option" where
  "IndexScan_poll F filter_predicate s tuple rid acc b =
     bind_ro (IndexScan_Next F filter_predicate s tuple rid b) (\<lambda>(t, s, rid, b). case t of
       None \<Rightarrow> Some (Inr (acc, s, b))
     | Some tuple \<Rightarrow> IndexScan_poll F filter_predicate s tuple rid (acc @ [tuple]) b)"

end
