(* ===== verification/B_Plus_Page_Laws.thy ===== *)
theory B_Plus_Page_Laws
  imports B_Plus_Page
begin

text \<open>
  Laws of the pages of the B+ tree: what is stored in a page is loaded from it, and on sorted
  elements each operation does what it promises to the list of elements. Keys are compared
  through the locale \<open>key_order\<close>: on the keys in use the comparator is the order of a rank.
\<close>

section \<open>Arrays\<close>

lemma array_read_mid: "array_read (a @ b @ c) (int (length a)) (int (length a + length b)) = Inr b"
  by (simp add: array_read_def)

lemma array_write_mid: "length xs = length b \<Longrightarrow> array_write (a @ b @ c) (int (length a)) xs = Inr (a @ xs @ c)"
  by (simp add: array_write_def)

lemma array_get_mid: "array_get (a @ x # c) (int (length a)) = Inr x"
  by (simp add: array_get_def)

lemma array_read_prefix: "array_read (b @ c) 0 (int (length b)) = Inr b"
  using array_read_mid[of "[]" b c] by simp

text \<open>Opening a gap of one element, and closing one.\<close>

lemma array_open:
  assumes "arr = a @ b @ x # c"
  shows "\<exists>y. array_move arr (int (length a)) (int (length a + length b)) (int (length a) + 1) = Inr (a @ y # b @ c)"
proof -
  obtain y b' where y: "b @ [x] = y # b'" by (cases b) auto
  then have l: "length b' = length b" by (metis length_append_singleton length_Cons nat.inject)
  have "array_read arr (int (length a)) (int (length a + length b)) = Inr b"
    using array_read_mid[of a b "x # c"] assms by simp
  moreover have "arr = (a @ [y]) @ b' @ c" using assms y by simp
  then have "array_write arr (int (length a) + 1) b = Inr (a @ y # b @ c)"
    using array_write_mid[of b b' "a @ [y]" c] l by (simp add: add.commute)
  ultimately show ?thesis by (auto simp: array_move_def)
qed

lemma array_close:
  assumes "arr = a @ x # b @ c"
  shows "\<exists>y. array_move arr (int (length a) + 1) (int (length a + length b) + 1) (int (length a)) = Inr (a @ b @ y # c)"
proof -
  obtain y b' where y: "x # b = b' @ [y]" by (metis append_butlast_last_id list.distinct(1))
  then have l: "length b' = length b" by (metis length_append_singleton length_Cons nat.inject)
  have "array_read arr (int (length (a @ [x]))) (int (length (a @ [x]) + length b)) = Inr b"
    using array_read_mid[of "a @ [x]" b c] assms by simp
  moreover have "int (length (a @ [x])) = int (length a) + 1" "int (length (a @ [x]) + length b) = int (length a + length b) + 1"
    by simp_all
  ultimately have "array_read arr (int (length a) + 1) (int (length a + length b) + 1) = Inr b" by (simp only:)
  moreover have "arr = a @ b' @ y # c" using assms y by (metis append.assoc append_Cons append_Nil)
  then have "array_write arr (int (length a)) b = Inr (a @ b @ y # c)"
    using array_write_mid[of b b' a "y # c"] l by simp
  ultimately show ?thesis by (auto simp: array_move_def)
qed

text \<open>An array whose first \<open>n\<close> elements are \<open>es\<close>.\<close>

definition arr_holds :: "'e list \<Rightarrow> int \<Rightarrow> 'e list \<Rightarrow> bool" where
  "arr_holds arr n es \<longleftrightarrow> n = int (length es) \<and> (\<exists>rest. arr = es @ rest)"

text \<open>What an operation on an array may do: keep its length, and store only the elements \<open>X\<close>.\<close>

definition arr_change :: "'e set \<Rightarrow> 'e list \<Rightarrow> 'e list \<Rightarrow> bool" where
  "arr_change X arr arr' \<longleftrightarrow> length arr' = length arr \<and> set arr' \<subseteq> X \<union> set arr"

lemma arr_read: "arr_holds arr n (a @ b) \<Longrightarrow> array_read arr (int (length a)) n = Inr b"
  using array_read_mid[of a b] by (auto simp: arr_holds_def)

lemma arr_read_all: "arr_holds arr n es \<Longrightarrow> array_read arr 0 n = Inr es"
  using arr_read[of arr n "[]" es] by simp

lemma arr_get: "arr_holds arr n es \<Longrightarrow> i < length es \<Longrightarrow> array_get arr (int i) = Inr (es ! i)"
  by (auto simp: arr_holds_def array_get_def nth_append)

lemma arr_append:
  assumes h: "arr_holds arr n es" and room: "length es + length xs \<le> length arr"
  shows "\<exists>arr'. array_write arr n xs = Inr arr' \<and> arr_holds arr' (n + int (length xs)) (es @ xs) \<and> arr_change (set xs) arr arr'"
proof -
  from h obtain rest where r: "arr = es @ rest" "n = int (length es)" by (auto simp: arr_holds_def)
  have "array_write arr n xs = Inr (es @ xs @ drop (length xs) rest)"
    using array_write_mid[of xs "take (length xs) rest" es "drop (length xs) rest"] room r by simp
  then show ?thesis using r room by (auto simp: arr_holds_def arr_change_def dest: in_set_dropD)
qed

lemma arr_insert:
  assumes h: "arr_holds arr n (a @ b)" and room: "length (a @ b) < length arr"
  shows "\<exists>arr'. bind_r (array_move arr (int (length a)) n (int (length a) + 1)) (\<lambda>arr. array_write arr (int (length a)) [x]) = Inr arr' \<and>
    arr_holds arr' (n + 1) (a @ x # b) \<and> arr_change {x} arr arr'"
proof -
  from h obtain rest where r: "arr = a @ b @ rest" "n = int (length a + length b)" by (auto simp: arr_holds_def)
  with room obtain z c where z: "rest = z # c" by (cases rest) auto
  with r have e: "arr = a @ b @ z # c" by simp
  from array_open[OF e] obtain y where
    m: "array_move arr (int (length a)) n (int (length a) + 1) = Inr (a @ y # b @ c)" unfolding r(2) by blast
  have "array_write (a @ y # b @ c) (int (length a)) [x] = Inr (a @ x # b @ c)"
    using array_write_mid[of "[x]" "[y]" a "b @ c"] by simp
  then show ?thesis using m r z by (auto simp: arr_holds_def arr_change_def)
qed

lemma arr_delete:
  assumes "arr_holds arr n (a @ x # b)"
  shows "\<exists>arr'. array_move arr (int (length a) + 1) n (int (length a)) = Inr arr' \<and> arr_holds arr' (n - 1) (a @ b) \<and> arr_change {} arr arr'"
proof -
  from assms obtain c where r: "arr = a @ x # b @ c" "n = int (length a + length b) + 1" by (auto simp: arr_holds_def)
  from array_read_mid[of "a @ [x]" b c] have rd: "array_read arr (int (length a) + 1) n = Inr b" using r by (simp add: algebra_simps)
  obtain y b' where y: "x # b = b' @ [y]" by (metis append_butlast_last_id list.distinct(1))
  then have l: "length b' = length b" by (metis length_append_singleton length_Cons nat.inject)
  have e: "arr = a @ b' @ y # c" using r(1) y by (metis append.assoc append_Cons append_Nil)
  have "y \<in> set (x # b)" unfolding y by simp
  moreover have "array_move arr (int (length a) + 1) n (int (length a)) = Inr (a @ b @ y # c)"
    using array_write_mid[of b b' a "y # c"] l rd e by (simp add: array_move_def)
  ultimately show ?thesis using r by (auto simp: arr_holds_def arr_change_def)
qed

section \<open>Ordered keys\<close>

locale key_order =
  fixes cmp :: comparator and K :: "key set" and rank :: "key \<Rightarrow> int"
  assumes less: "a \<in> K \<Longrightarrow> b \<in> K \<Longrightarrow> cmp a b < 0 \<longleftrightarrow> rank a < rank b"
    and same: "a \<in> K \<Longrightarrow> b \<in> K \<Longrightarrow> cmp a b = 0 \<longleftrightarrow> rank a = rank b"

text \<open>Elements sorted by key, all keys in use.\<close>

definition sorted_keys :: "key set \<Rightarrow> (key \<Rightarrow> int) \<Rightarrow> (key \<times> 'v) list \<Rightarrow> bool" where
  "sorted_keys K rank es \<longleftrightarrow> fst ` set es \<subseteq> K \<and> sorted_wrt (<) (map (\<lambda>e. rank (fst e)) es)"

text \<open>The elements before a key, and those from it on.\<close>

definition before :: "(key \<Rightarrow> int) \<Rightarrow> key \<Rightarrow> (key \<times> 'v) list \<Rightarrow> (key \<times> 'v) list" where
  "before rank key es = takeWhile (\<lambda>e. rank (fst e) < rank key) es"

definition from_key :: "(key \<Rightarrow> int) \<Rightarrow> key \<Rightarrow> (key \<times> 'v) list \<Rightarrow> (key \<times> 'v) list" where
  "from_key rank key es = dropWhile (\<lambda>e. rank (fst e) < rank key) es"

lemma before_from: "before rank key es @ from_key rank key es = es"
  by (simp add: before_def from_key_def)

lemma before_length: "length (before rank key es) + length (from_key rank key es) = length es"
  by (metis before_from length_append)

lemma from_key_ge:
  assumes "sorted_keys K rank es" "e \<in> set (from_key rank key es)"
  shows "rank key \<le> rank (fst e)"
proof -
  obtain x xs where x: "from_key rank key es = x # xs" using assms(2) by (cases "from_key rank key es") auto
  then have "\<not> rank (fst x) < rank key" unfolding from_key_def using hd_dropWhile by (metis list.sel(1) list.distinct(1))
  moreover have "sorted_wrt (<) (map (\<lambda>e. rank (fst e)) (before rank key es @ x # xs))"
    using assms(1) before_from[of rank key es] x by (simp add: sorted_keys_def)
  ultimately show ?thesis using assms(2) x by (fastforce simp: sorted_wrt_append)
qed

lemma before_less: "e \<in> set (before rank key es) \<Longrightarrow> rank (fst e) < rank key"
  using set_takeWhileD[of e] by (auto simp: before_def)

lemma sorted_keys_append:
  "sorted_keys K rank (a @ b) \<longleftrightarrow> sorted_keys K rank a \<and> sorted_keys K rank b \<and> (\<forall>x\<in>set a. \<forall>y\<in>set b. rank (fst x) < rank (fst y))"
  by (auto simp: sorted_keys_def sorted_wrt_append)

lemma sorted_keys_Cons:
  "sorted_keys K rank (x # es) \<longleftrightarrow> fst x \<in> K \<and> sorted_keys K rank es \<and> (\<forall>y\<in>set es. rank (fst x) < rank (fst y))"
  by (auto simp: sorted_keys_def)

lemma sorted_keys_insert:
  assumes s: "sorted_keys K rank es" and k: "key \<in> K" and new: "\<forall>e\<in>set es. rank (fst e) \<noteq> rank key"
  shows "sorted_keys K rank (before rank key es @ (key, v) # from_key rank key es)"
proof -
  have parts: "sorted_keys K rank (before rank key es @ from_key rank key es)" using s by (simp add: before_from)
  have gt: "rank key < rank (fst e)" if "e \<in> set (from_key rank key es)" for e
    using from_key_ge[OF s that] new that by (metis from_key_def order_le_less set_dropWhileD)
  show ?thesis
    using parts gt k before_less[of _ rank key es] by (simp add: sorted_keys_append sorted_keys_Cons)
qed

lemma sorted_keys_distinct: "sorted_keys K rank es \<Longrightarrow> distinct (map (\<lambda>e. rank (fst e)) es)"
  by (simp add: sorted_keys_def strict_sorted_iff)

context key_order
begin

lemma lower_bound_sorted:
  assumes "sorted_keys K rank es" "key \<in> K"
  shows "lower_bound (\<lambda>e. cmp (fst e) key < 0) es = Inr (int (length (before rank key es)))"
proof -
  have c: "cmp (fst e) key < 0 \<longleftrightarrow> rank (fst e) < rank key" if "e \<in> set es" for e
    using assms that less[of "fst e" key] by (auto simp: sorted_keys_def)
  then have t: "takeWhile (\<lambda>e. cmp (fst e) key < 0) es = before rank key es"
    unfolding before_def by (intro takeWhile_cong) simp_all
  have "filter (\<lambda>e. cmp (fst e) key < 0) es = filter (\<lambda>e. rank (fst e) < rank key) (before rank key es @ from_key rank key es)"
    using c by (simp add: before_from cong: filter_cong)
  also have "\<dots> = before rank key es"
    using from_key_ge[OF assms(1)] before_less[of _ rank key es] by (auto simp: filter_id_conv filter_empty_conv not_less)
  finally show ?thesis by (simp add: lower_bound_def t)
qed

end

section \<open>Operations of leaf pages\<close>

text \<open>The elements that count.\<close>

definition leaf_holds :: "leaf \<Rightarrow> (key \<times> RID) list \<Rightarrow> bool" where
  "leaf_holds l es \<longleftrightarrow> arr_holds (leaf_array l) (cur_size l) es"

lemma leaf_holds_array: "leaf_holds l es \<Longrightarrow> array_read (leaf_array l) 0 (cur_size l) = Inr es"
  by (simp add: leaf_holds_def arr_read_all)

context key_order
begin

lemma KeyIndex_sorted:
  "leaf_holds l es \<Longrightarrow> sorted_keys K rank es \<Longrightarrow> key \<in> K \<Longrightarrow> KeyIndex cmp key l = Inr (int (length (before rank key es)))"
  by (simp add: KeyIndex_def leaf_holds_array lower_bound_sorted)

lemma from_key_cases:
  assumes "sorted_keys K rank es" "key \<in> K"
  obtains "from_key rank key es = []" "\<forall>e\<in>set es. rank (fst e) \<noteq> rank key"
  | e xs where "from_key rank key es = e # xs" "cmp (fst e) key = 0" "rank (fst e) = rank key" "e \<in> set es"
  | e xs where "from_key rank key es = e # xs" "cmp (fst e) key \<noteq> 0" "\<forall>e\<in>set es. rank (fst e) \<noteq> rank key"
proof (cases "from_key rank key es")
  case Nil
  then have "\<forall>e\<in>set es. rank (fst e) \<noteq> rank key"
    using before_less[of _ rank key es] before_from[of rank key es] by (metis append_Nil2 order_less_irrefl)
  then show thesis using that(1) Nil by blast
next
  case (Cons e xs)
  have es: "set es = set (before rank key es) \<union> set (e # xs)"
    using before_from[of rank key es] Cons by (metis set_append)
  then have e: "fst e \<in> K" "e \<in> set es" using assms(1) by (auto simp: sorted_keys_def)
  show thesis
  proof (cases "rank (fst e) = rank key")
    case True
    then show thesis using that(2) Cons e same[OF e(1) assms(2)] by blast
  next
    case False
    have "sorted_wrt (<) (map (\<lambda>e. rank (fst e)) (before rank key es @ e # xs))"
      using assms(1) before_from[of rank key es] Cons by (simp add: sorted_keys_def)
    then have "rank key < rank (fst x)" if "x \<in> set (e # xs)" for x
      using that from_key_ge[OF assms(1), of e key] Cons False by (fastforce simp: sorted_wrt_append)
    then have "\<forall>x\<in>set es. rank (fst x) \<noteq> rank key"
      unfolding es using before_less[of _ rank key es] by fastforce
    then show thesis using that(3) Cons same[OF e(1) assms(2)] False by blast
  qed
qed

lemma leaf_Insert_same:
  assumes l: "leaf_holds l es" and s: "sorted_keys K rank es" and k: "key \<in> K" and e: "\<exists>e\<in>set es. rank (fst e) = rank key"
  shows "leaf_Insert cmp key v l = Inr l"
proof -
  from s k obtain e xs where x: "from_key rank key es = e # xs" "cmp (fst e) key = 0"
    using e by (cases rule: from_key_cases) auto
  have "es ! length (before rank key es) = e" using before_from[of rank key es] x(1) by (metis nth_append_length)
  moreover have "length (before rank key es) < length es" using before_length[of rank key es] x(1) by simp
  ultimately show ?thesis
    using KeyIndex_sorted[OF l s k] x(2) l arr_get[of "leaf_array l" "cur_size l" es "length (before rank key es)"]
    by (simp add: leaf_Insert_def leaf_holds_def arr_holds_def)
qed

lemma leaf_Insert_new:
  assumes l: "leaf_holds l es" and s: "sorted_keys K rank es" and k: "key \<in> K"
    and new: "\<forall>e\<in>set es. rank (fst e) \<noteq> rank key" and room: "length es < length (leaf_array l)"
  shows "\<exists>arr. leaf_Insert cmp key v l = Inr (l\<lparr>leaf_array := arr, cur_size := cur_size l + 1\<rparr>) \<and>
    arr_change {(key, v)} (leaf_array l) arr \<and>
    arr_holds arr (cur_size l + 1) (before rank key es @ (key, v) # from_key rank key es)"
proof -
  let ?a = "before rank key es" and ?b = "from_key rank key es"
  have h: "arr_holds (leaf_array l) (cur_size l) (?a @ ?b)" and n: "cur_size l = int (length es)"
    using l by (simp_all add: before_from leaf_holds_def arr_holds_def)
  show ?thesis
  proof (cases "?b = []")
    case True
    then have "length ?a = length es" using before_length[of rank key es] by simp
    moreover from arr_append[OF h, of "[(key, v)]"] room obtain arr where
      "array_write (leaf_array l) (cur_size l) [(key, v)] = Inr arr" "arr_holds arr (cur_size l + 1) (?a @ [(key, v)])"
      "arr_change {(key, v)} (leaf_array l) arr" using True before_length[of rank key es] by auto
    ultimately show ?thesis using KeyIndex_sorted[OF l s k] True n by (simp add: leaf_Insert_def) blast
  next
    case False
    from s k obtain e xs where x: "?b = e # xs" "cmp (fst e) key \<noteq> 0"
      using new False by (cases rule: from_key_cases) auto
    have len: "length ?a < length es" using before_length[of rank key es] x(1) by simp
    have "es ! length ?a = e" using before_from[of rank key es] x(1) by (metis nth_append_length)
    then have "array_get (leaf_array l) (int (length ?a)) = Inr e"
      using arr_get[of "leaf_array l" "cur_size l" es "length ?a"] l len by (simp add: leaf_holds_def)
    moreover from arr_insert[OF h, of "(key, v)"] room before_length[of rank key es] obtain arr0 arr where
      "array_move (leaf_array l) (int (length ?a)) (cur_size l) (int (length ?a) + 1) = Inr arr0"
      "array_write arr0 (int (length ?a)) [(key, v)] = Inr arr" "arr_holds arr (cur_size l + 1) (?a @ (key, v) # ?b)"
      "arr_change {(key, v)} (leaf_array l) arr" by (auto simp: result_simps)
    ultimately show ?thesis using KeyIndex_sorted[OF l s k] len x(2) n by (simp add: leaf_Insert_def) blast
  qed
qed

lemma leaf_Lookup_sorted:
  assumes l: "leaf_holds l es" and s: "sorted_keys K rank es" and k: "key \<in> K"
  shows "leaf_Lookup cmp key l = Inr (map_of (map (\<lambda>e. (rank (fst e), snd e)) es) (rank key))"
proof -
  let ?a = "before rank key es"
  note idx = KeyIndex_sorted[OF l s k]
  have n: "cur_size l = int (length es)" using l by (simp add: leaf_holds_def arr_holds_def)
  have get: "array_get (leaf_array l) (int (length ?a)) = Inr e \<and> length ?a \<noteq> length es" if x: "from_key rank key es = e # xs" for e xs
  proof -
    have "es ! length ?a = e" using before_from[of rank key es] x by (metis nth_append_length)
    moreover have "length ?a < length es" using before_length[of rank key es] x by simp
    ultimately show ?thesis using arr_get[of "leaf_array l" "cur_size l" es "length ?a"] l by (simp add: leaf_holds_def)
  qed
  from s k show ?thesis
  proof (cases rule: from_key_cases)
    case 1
    then have "length ?a = length es" using before_length[of rank key es] by simp
    moreover have "map_of (map (\<lambda>e. (rank (fst e), snd e)) es) (rank key) = None"
      using 1(2) by (auto simp: map_of_eq_None_iff)
    ultimately show ?thesis using idx n by (simp add: leaf_Lookup_def)
  next
    case (2 e xs)
    moreover have "map_of (map (\<lambda>e. (rank (fst e), snd e)) es) (rank key) = Some (snd e)"
      using sorted_keys_distinct[OF s] 2(3,4) by (intro map_of_is_SomeI) (force simp: comp_def)+
    ultimately show ?thesis using idx n get[OF 2(1)] by (simp add: leaf_Lookup_def)
  next
    case (3 e xs)
    moreover have "map_of (map (\<lambda>e. (rank (fst e), snd e)) es) (rank key) = None"
      using 3(3) by (auto simp: map_of_eq_None_iff)
    ultimately show ?thesis using idx n get[OF 3(1)] by (simp add: leaf_Lookup_def)
  qed
qed

lemma leaf_Remove_absent:
  assumes l: "leaf_holds l es" and s: "sorted_keys K rank es" and k: "key \<in> K" and new: "\<forall>e\<in>set es. rank (fst e) \<noteq> rank key"
  shows "RemoveAndDeleteRecord cmp key l = Inr l"
proof -
  let ?a = "before rank key es"
  have n: "cur_size l = int (length es)" using l by (simp add: leaf_holds_def arr_holds_def)
  from s k show ?thesis
  proof (cases rule: from_key_cases)
    case 1
    then show ?thesis using KeyIndex_sorted[OF l s k] before_length[of rank key es] n by (simp add: RemoveAndDeleteRecord_def)
  next
    case (3 e xs)
    have "es ! length ?a = e" using before_from[of rank key es] 3(1) by (metis nth_append_length)
    moreover have "length ?a < length es" using before_length[of rank key es] 3(1) by simp
    ultimately show ?thesis
      using KeyIndex_sorted[OF l s k] 3(2) n arr_get[of "leaf_array l" "cur_size l" es "length ?a"] l
      by (simp add: RemoveAndDeleteRecord_def leaf_holds_def)
  qed (use new in blast)
qed

lemma leaf_Remove_present:
  assumes l: "leaf_holds l es" and s: "sorted_keys K rank es" and k: "key \<in> K" and old: "\<exists>e\<in>set es. rank (fst e) = rank key"
  shows "\<exists>arr. RemoveAndDeleteRecord cmp key l = Inr (l\<lparr>leaf_array := arr, cur_size := cur_size l - 1\<rparr>) \<and>
    arr_change {} (leaf_array l) arr \<and> arr_holds arr (cur_size l - 1) (filter (\<lambda>e. rank (fst e) \<noteq> rank key) es)"
proof -
  let ?a = "before rank key es"
  have n: "cur_size l = int (length es)" using l by (simp add: leaf_holds_def arr_holds_def)
  from s k old obtain e xs where x: "from_key rank key es = e # xs" "cmp (fst e) key = 0" "rank (fst e) = rank key"
    by (cases rule: from_key_cases) auto
  have es: "es = ?a @ e # xs" using before_from[of rank key es] x(1) by simp
  have "sorted_keys K rank (?a @ e # xs)" using s es by simp
  then have gt: "\<forall>y\<in>set xs. rank key < rank (fst y)" using x(3) by (simp add: sorted_keys_append sorted_keys_Cons)
  have "\<forall>y\<in>set ?a. rank (fst y) < rank key" by (auto dest: before_less)
  then have "filter (\<lambda>e. rank (fst e) \<noteq> rank key) ?a = ?a" "filter (\<lambda>e. rank (fst e) \<noteq> rank key) xs = xs"
    using gt by (auto simp: filter_id_conv)
  then have f: "filter (\<lambda>e. rank (fst e) \<noteq> rank key) (?a @ e # xs) = ?a @ xs" using x(3) by simp
  have "es ! length ?a = e" using es by (metis nth_append_length)
  moreover have "length ?a < length es" using before_length[of rank key es] x(1) by simp
  ultimately have g: "array_get (leaf_array l) (int (length ?a)) = Inr e" "length ?a \<noteq> length es"
    using arr_get[of "leaf_array l" "cur_size l" es "length ?a"] l by (simp_all add: leaf_holds_def)
  have "arr_holds (leaf_array l) (cur_size l) (?a @ e # xs)" using l es by (simp add: leaf_holds_def)
  from arr_delete[OF this] obtain arr where "array_move (leaf_array l) (int (length ?a) + 1) (cur_size l) (int (length ?a)) = Inr arr"
    "arr_holds arr (cur_size l - 1) (?a @ xs)" "arr_change {} (leaf_array l) arr" by blast
  moreover from this have "RemoveAndDeleteRecord cmp key l = Inr (l\<lparr>leaf_array := arr, cur_size := cur_size l - 1\<rparr>)"
    using KeyIndex_sorted[OF l s k] g x(2) n by (simp add: RemoveAndDeleteRecord_def)
  moreover have "filter (\<lambda>e. rank (fst e) \<noteq> rank key) es = ?a @ xs" using f by (simp only: es[symmetric])
  ultimately show ?thesis by (intro exI[of _ arr]) simp
qed

end

text \<open>Moving elements between leaves.\<close>

lemma leaf_CopyNFrom_ok:
  assumes "leaf_holds l es" "length es + length xs \<le> length (leaf_array l)"
  shows "\<exists>arr. leaf_CopyNFrom xs l = Inr (l\<lparr>leaf_array := arr, cur_size := cur_size l + int (length xs)\<rparr>) \<and>
    arr_change (set xs) (leaf_array l) arr \<and> arr_holds arr (cur_size l + int (length xs)) (es @ xs)"
  using arr_append[of "leaf_array l" "cur_size l" es xs] assms by (auto simp: leaf_CopyNFrom_def leaf_holds_def)

lemma leaf_MoveHalfTo_ok:
  assumes l: "leaf_holds l (a @ b)" "max_size l = int (length (a @ b))" "GetMinSize l = int (length a)"
    and r: "leaf_holds r []" "length b \<le> length (leaf_array r)"
  shows "\<exists>arr. leaf_MoveHalfTo l r = Inr (l\<lparr>cur_size := int (length a)\<rparr>, r\<lparr>leaf_array := arr, cur_size := int (length b)\<rparr>) \<and>
    arr_change (set b) (leaf_array r) arr \<and> arr_holds arr (int (length b)) b"
proof -
  have h: "arr_holds (leaf_array l) (cur_size l) (a @ b)" "cur_size l = int (length a + length b)" "cur_size r = 0"
    using l r by (simp_all add: leaf_holds_def arr_holds_def)
  have "array_read (leaf_array l) (int (length a)) (int (length a) + (max_size l - int (length a))) = Inr b"
    using arr_read[OF h(1)] h(2) l(2) by simp
  with leaf_CopyNFrom_ok[OF r(1), of b] r(2) h(3) show ?thesis by (auto simp: leaf_MoveHalfTo_def Let_def l(3))
qed

section \<open>Operations of internal pages\<close>

definition internal_holds :: "internal \<Rightarrow> (key \<times> int) list \<Rightarrow> bool" where
  "internal_holds p es \<longleftrightarrow> arr_holds (internal_array p) (cur_size p) es"

lemma ValueIndex_ok:
  assumes "internal_holds p (a @ (k, v) # b)" "v \<notin> snd ` set a"
  shows "ValueIndex v p = Inr (int (length a))"
proof -
  have "takeWhile (\<lambda>e. snd e \<noteq> v) (a @ (k, v) # b) = a"
    using assms(2) by (subst takeWhile_append2) auto
  then show ?thesis using assms(1) by (simp add: ValueIndex_def internal_holds_def arr_read_all)
qed

lemma ValueAt_ok: "internal_holds p es \<Longrightarrow> i < length es \<Longrightarrow> ValueAt (int i) p = Inr (snd (es ! i))"
  using arr_get[of "internal_array p" "cur_size p" es i] by (simp add: ValueAt_def internal_holds_def)

lemma internal_KeyAt_ok: "internal_holds p es \<Longrightarrow> i < length es \<Longrightarrow> internal_KeyAt (int i) p = Inr (fst (es ! i))"
  using arr_get[of "internal_array p" "cur_size p" es i] by (simp add: internal_KeyAt_def internal_holds_def)

lemma InsertNodeAfter_ok:
  assumes h: "internal_holds p (a @ (k, v) # b)" and a: "v \<notin> snd ` set a" and room: "cur_size p < int (length (internal_array p))"
  shows "\<exists>arr. InsertNodeAfter v nk nv p = Inr (p\<lparr>internal_array := arr, cur_size := cur_size p + 1\<rparr>) \<and>
    arr_change {(nk, nv)} (internal_array p) arr \<and> arr_holds arr (cur_size p + 1) (a @ (k, v) # (nk, nv) # b)"
proof -
  have h': "arr_holds (internal_array p) (cur_size p) ((a @ [(k, v)]) @ b)" using h by (simp add: internal_holds_def)
  moreover have "length ((a @ [(k, v)]) @ b) < length (internal_array p)" using room h' by (simp add: arr_holds_def)
  ultimately obtain arr0 arr where
    "array_move (internal_array p) (int (length (a @ [(k, v)]))) (cur_size p) (int (length (a @ [(k, v)])) + 1) = Inr arr0"
    "array_write arr0 (int (length (a @ [(k, v)]))) [(nk, nv)] = Inr arr" "arr_holds arr (cur_size p + 1) ((a @ [(k, v)]) @ (nk, nv) # b)"
    "arr_change {(nk, nv)} (internal_array p) arr"
    using arr_insert[of "internal_array p" "cur_size p" "a @ [(k, v)]" b "(nk, nv)"] by (auto simp: result_simps)
  then show ?thesis using ValueIndex_ok[OF h a] by (simp add: InsertNodeAfter_def Let_def algebra_simps) blast
qed

lemma internal_Remove_ok:
  assumes "internal_holds p (a @ x # b)"
  shows "\<exists>arr. internal_Remove (int (length a)) p = Inr (p\<lparr>internal_array := arr, cur_size := cur_size p - 1\<rparr>) \<and>
    arr_change {} (internal_array p) arr \<and> arr_holds arr (cur_size p - 1) (a @ b)"
  using arr_delete[of "internal_array p" "cur_size p" a x b] assms by (auto simp: internal_Remove_def internal_holds_def)

lemma PopulateNewRoot_ok:
  assumes "2 \<le> length (internal_array p)" "length k = N" "list_all (\<lambda>e. length (fst e) = N) (internal_array p)"
  shows "\<exists>arr g. PopulateNewRoot v0 k v1 p = Inr (p\<lparr>internal_array := arr, cur_size := 2\<rparr>) \<and>
    length arr = length (internal_array p) \<and> arr_holds arr 2 [(g, v0), (k, v1)] \<and> length g = N \<and>
    set arr \<subseteq> {(g, v0), (k, v1)} \<union> set (internal_array p)"
proof -
  from assms(1) obtain x y rest where r: "internal_array p = x # y # rest"
    by (metis Suc_le_length_iff numeral_2_eq_2)
  have "PopulateNewRoot v0 k v1 p = Inr (p\<lparr>internal_array := (fst x, v0) # (k, v1) # rest, cur_size := 2\<rparr>)"
    using r by (simp add: PopulateNewRoot_def SetKeyAt_def SetValueAt_def array_get_def)
  then show ?thesis using r assms(3) by (intro exI[of _ "(fst x, v0) # (k, v1) # rest"] exI[of _ "fst x"]) (auto simp: arr_holds_def)
qed

context key_order
begin

text \<open>The element whose subtree a key belongs to.\<close>

lemma internal_Lookup_ok:
  assumes h: "internal_holds p (e0 # es)" and s: "sorted_keys K rank es" and k: "key \<in> K"
  shows "\<exists>a e b. e0 # es = a @ e # b \<and> internal_Lookup cmp key p = Inr (snd e) \<and>
    (a \<noteq> [] \<longrightarrow> rank (fst e) \<le> rank key) \<and> (\<forall>x\<in>set b. rank key < rank (fst x))"
proof -
  let ?a = "before rank key es"
  have n: "cur_size p = int (length es) + 1" using h by (simp add: internal_holds_def arr_holds_def)
  have read: "array_read (internal_array p) 1 (cur_size p) = Inr es"
    using arr_read[of "internal_array p" "cur_size p" "[e0]" es] h by (simp add: internal_holds_def)
  note lb = lower_bound_sorted[OF s k]
  have at: "array_get (internal_array p) (int i) = Inr ((e0 # es) ! i)" if "i \<le> length es" for i
    using arr_get[of "internal_array p" "cur_size p" "e0 # es" i] h that by (simp add: internal_holds_def)
  have lt: "\<forall>x\<in>set ?a. rank (fst x) < rank key" by (auto dest: before_less)
  have prev: "\<exists>a e. e0 # ?a = a @ [e] \<and> (a \<noteq> [] \<longrightarrow> rank (fst e) \<le> rank key) \<and> (e0 # es) ! length ?a = e"
  proof -
    have "e0 # ?a = butlast (e0 # ?a) @ [last (e0 # ?a)]" by simp
    moreover have "rank (fst (last (e0 # ?a))) \<le> rank key" if "butlast (e0 # ?a) \<noteq> []"
      using that lt by (cases "?a = []") (auto simp: last_in_set order_less_imp_le split: if_splits)
    moreover have "(e0 # es) ! length ?a = last (e0 # ?a)"
    proof -
      have "(e0 # ?a @ from_key rank key es) ! length ?a = (e0 # ?a) ! length ?a" by (simp add: nth_append nth_Cons')
      then show ?thesis using last_conv_nth[of "e0 # ?a"] by (simp add: before_from)
    qed
    ultimately show ?thesis by blast
  qed
  from prev obtain a e where ae: "e0 # ?a = a @ [e]" "a \<noteq> [] \<longrightarrow> rank (fst e) \<le> rank key" "(e0 # es) ! length ?a = e" by blast
  have split: "e0 # es = a @ e # from_key rank key es"
    using ae(1) before_from[of rank key es] by (metis append.assoc append_Cons append_Nil)
  have len: "length ?a \<le> length es" using before_length[of rank key es] by simp
  from s k show ?thesis
  proof (cases rule: from_key_cases)
    case 1
    then have "length ?a = length es" using before_length[of rank key es] by simp
    then have "internal_Lookup cmp key p = Inr (snd e)"
      using read lb n at[OF len] ae(3) by (simp add: internal_Lookup_def Let_def ValueAt_def)
    then show ?thesis using split ae(2) 1(1) by (intro exI[of _ a] exI[of _ e] exI[of _ "[]"]) simp
  next
    case (2 x xs)
    have m: "length ?a < length es" using before_length[of rank key es] 2(1) by simp
    have "es ! length ?a = x" using before_from[of rank key es] 2(1) by (metis nth_append_length)
    then have "array_get (internal_array p) (1 + int (length ?a)) = Inr x" using at[of "Suc (length ?a)"] m by simp
    then have "internal_Lookup cmp key p = Inr (snd x)" using read lb n m 2(2) by (simp add: internal_Lookup_def Let_def)
    moreover have "e0 # es = (a @ [e]) @ x # xs" using split 2(1) by simp
    moreover have "\<forall>y\<in>set xs. rank key < rank (fst y)"
      using s before_from[of rank key es] 2(1,3) by (metis sorted_keys_append sorted_keys_Cons)
    ultimately show ?thesis using 2(3) by (intro exI[of _ "a @ [e]"] exI[of _ x] exI[of _ xs]) simp
  next
    case (3 x xs)
    have m: "length ?a < length es" using before_length[of rank key es] 3(1) by simp
    have "es ! length ?a = x" using before_from[of rank key es] 3(1) by (metis nth_append_length)
    then have "array_get (internal_array p) (1 + int (length ?a)) = Inr x" using at[of "Suc (length ?a)"] m by simp
    then have "internal_Lookup cmp key p = Inr (snd e)"
      using read lb n m 3(2) at[OF len] ae(3) by (simp add: internal_Lookup_def Let_def ValueAt_def)
    moreover have "rank key < rank (fst y)" if "y \<in> set (from_key rank key es)" for y
    proof -
      have "y \<in> set es" using that by (auto simp: from_key_def dest: set_dropWhileD)
      then show ?thesis using from_key_ge[OF s that] 3(3) by (metis order_le_less)
    qed
    ultimately show ?thesis using split ae(2) by (intro exI[of _ a] exI[of _ e] exI[of _ "from_key rank key es"]) simp
  qed
qed

end

section \<open>Bytes of a page\<close>

lemma take_drop_concat: "list_all (\<lambda>c. length c = w) cs \<Longrightarrow> i < length cs \<Longrightarrow> take w (drop (i * w) (concat cs)) = cs ! i"
proof (induction cs arbitrary: i)
  case (Cons c cs)
  then show ?case by (cases i) simp_all
qed simp

lemma length_concat_width: "list_all (\<lambda>c. length c = w) cs \<Longrightarrow> length (concat cs) = length cs * w"
  by (induction cs) simp_all

lemma cells_put:
  assumes w: "list_all (\<lambda>c. length c = w) cs" and n: "length cs = (length data - off) div w" and off: "off \<le> length data"
  shows "cells off w (put_at off (concat cs) data) = cs" and "length (put_at off (concat cs) data) = length data"
proof -
  have "length cs * w \<le> length data - off" unfolding n by (metis div_times_less_eq_dividend)
  then have len: "off + length (concat cs) \<le> length data" using off length_concat_width[OF w] by simp
  then show l: "length (put_at off (concat cs) data) = length data" by simp
  have "get_at (off + i * w) w (put_at off (concat cs) data) = cs ! i" if i: "i < length cs" for i
  proof -
    have "i * w + w \<le> length (concat cs)" using i length_concat_width[OF w] by (metis Suc_leI add.commute mult_Suc mult_le_mono1)
    moreover have "drop (off + i * w) (put_at off (concat cs) data) = drop (i * w) (concat cs @ drop (off + length (concat cs)) data)"
      using len by (simp add: put_at_def)
    ultimately show ?thesis using take_drop_concat[OF w i] by (simp add: get_at_def)
  qed
  then show "cells off w (put_at off (concat cs) data) = cs"
    unfolding cells_def l n[symmetric] by (intro nth_equalityI) simp_all
qed

lemma int_at_set: "off + 4 \<le> length data \<Longrightarrow> in_range 32 x \<Longrightarrow> int_at off (page_set off x data) = x"
  using get_at_put_at_same[of off "put_int 4 x" data] get_int_put_int[of 4 x] by (simp add: int_at_def page_set_def)

lemma int_at_put:
  "off + length bs \<le> length data \<Longrightarrow> p + 4 \<le> length data \<Longrightarrow> p + 4 \<le> off \<or> off + length bs \<le> p \<Longrightarrow> int_at p (put_at off bs data) = int_at p data"
  by (simp add: int_at_def get_at_put_at_other)

lemma int_at_other:
  "off + 4 \<le> length data \<Longrightarrow> p + 4 \<le> length data \<Longrightarrow> p + 4 \<le> off \<or> off + 4 \<le> p \<Longrightarrow> int_at p (page_set off x data) = int_at p data"
  using int_at_put[of off "put_int 4 x" data p] by (simp add: page_set_def)

lemma length_set_int: "off + 4 \<le> length data \<Longrightarrow> length (page_set off x data) = length data"
  by (simp add: page_set_def)

lemma int_at_range: "off + 4 \<le> length data \<Longrightarrow> in_range 32 (int_at off data)"
  using in_range_swrap[of 32] by (simp add: int_at_def get_int_def)

text \<open>Fields that fit their 32 bits.\<close>

definition bpage_fits :: "'a bpage_scheme \<Rightarrow> bool" where
  "bpage_fits p \<longleftrightarrow> in_range 32 (page_type p) \<and> in_range 32 (cur_size p) \<and> in_range 32 (max_size p) \<and>
     in_range 32 (parent_page_id p) \<and> in_range 32 (node_page_id p)"

lemma load_store_bpage:
  assumes "bpage_fits p" "24 \<le> length data"
  shows "load_bpage (store_bpage p data) = bpage.truncate p" and "length (store_bpage p data) = length data"
  using assms
  by (simp_all add: load_bpage_def store_bpage_def bpage_fits_def bpage.truncate_def int_at_set int_at_other length_set_int)

lemma load_bpage_other:
  assumes "24 \<le> off" "off + length bs \<le> length data"
  shows "load_bpage (put_at off bs data) = load_bpage data"
  using assms by (simp add: load_bpage_def int_at_put)

definition leaf_elem :: "nat \<Rightarrow> key \<times> RID \<Rightarrow> bool" where
  "leaf_elem N e \<longleftrightarrow> length (fst e) = N \<and> in_range 32 (rid_page (snd e)) \<and> rid_slot (snd e) < 2 ^ 32"

definition leaf_fits :: "nat \<Rightarrow> nat \<Rightarrow> leaf \<Rightarrow> bool" where
  "leaf_fits N n l \<longleftrightarrow> bpage_fits l \<and> in_range 32 (next_leaf_id l) \<and> length (leaf_array l) = (n - 28) div (N + 8) \<and>
     list_all (leaf_elem N) (leaf_array l)"

lemma leaf_cell_bytes: "leaf_elem N e \<Longrightarrow> leaf_cell N (leaf_bytes e) = e"
proof -
  assume e: "leaf_elem N e"
  obtain k r where kr: "e = (k, r)" by (cases e)
  have "get_at N 4 (leaf_bytes e) = put_int 4 (rid_page r)" "get_at (N + 4) 4 (leaf_bytes e) = put_int 4 (int (rid_slot r))"
    using e by (simp_all add: leaf_bytes_def get_at_def leaf_elem_def kr)
  then show "leaf_cell N (leaf_bytes e) = e"
    using e by (simp add: leaf_cell_def leaf_bytes_def leaf_elem_def kr get_int_put_int get_uint_put_int)
qed

lemma load_store_leaf:
  assumes f: "leaf_fits N (length data) l" and n: "28 \<le> length data"
  shows "load_leaf N (store_leaf l data) = l" and "length (store_leaf l data) = length data"
proof -
  let ?d = "page_set 24 (next_leaf_id l) (store_bpage l data)"
  have b: "bpage_fits l" using f by (simp add: leaf_fits_def)
  have len: "length ?d = length data" using n load_store_bpage(2)[OF b] by (simp add: length_set_int)
  have w: "list_all (\<lambda>c. length c = N + 8) (map leaf_bytes (leaf_array l))"
    using f by (auto simp: leaf_fits_def list_all_iff leaf_bytes_def leaf_elem_def)
  have c: "length (map leaf_bytes (leaf_array l)) = (length ?d - 28) div (N + 8)" using f len by (simp add: leaf_fits_def)
  note put = cells_put[OF w c]
  have cells: "cells 28 (N + 8) (store_leaf l data) = map leaf_bytes (leaf_array l)"
    unfolding store_leaf_def LEAF_PAGE_HEADER_SIZE_def using put(1) n len by simp
  show L: "length (store_leaf l data) = length data"
    unfolding store_leaf_def LEAF_PAGE_HEADER_SIZE_def using put(2) n len by simp
  have fit: "28 + length (concat (map leaf_bytes (leaf_array l))) \<le> length ?d"
    using length_concat_width[OF w] c n len by (metis add.commute div_times_less_eq_dividend le_diff_conv2)
  have "load_bpage (store_leaf l data) = load_bpage ?d"
    unfolding store_leaf_def LEAF_PAGE_HEADER_SIZE_def by (rule load_bpage_other[OF _ fit]) simp
  also have "\<dots> = load_bpage (store_bpage l data)"
    using load_bpage_other[of 24 "put_int 4 (next_leaf_id l)" "store_bpage l data"] n load_store_bpage(2)[OF b, of data]
    by (simp add: page_set_def)
  finally have B: "load_bpage (store_leaf l data) = bpage.truncate l" using load_store_bpage(1)[OF b, of data] n by simp
  have "int_at 24 (store_leaf l data) = int_at 24 ?d"
    unfolding store_leaf_def LEAF_PAGE_HEADER_SIZE_def using fit n len by (intro int_at_put) simp_all
  also have "\<dots> = next_leaf_id l"
    using f n load_store_bpage(2)[OF b, of data] by (intro int_at_set) (simp_all add: leaf_fits_def)
  finally have X: "int_at 24 (store_leaf l data) = next_leaf_id l" .
  have "map (leaf_cell N) (map leaf_bytes (leaf_array l)) = leaf_array l"
    using f leaf_cell_bytes by (auto simp: leaf_fits_def list_all_iff intro: map_idI)
  then show "load_leaf N (store_leaf l data) = l"
    unfolding load_leaf_def LEAF_PAGE_HEADER_SIZE_def B X cells
    by (cases l) (simp add: bpage.extend_def bpage.truncate_def leaf.fields_def)
qed

lemma load_leaf_fits: "28 \<le> length data \<Longrightarrow> leaf_fits N (length data) (load_leaf N data)"
proof -
  assume n: "28 \<le> length data"
  have "leaf_elem N (leaf_cell N c)" if c: "c \<in> set (cells 28 (N + 8) data)" for c
  proof -
    from c obtain i where i: "i < (length data - 28) div (N + 8)" "c = get_at (28 + i * (N + 8)) (N + 8) data"
      by (auto simp: cells_def)
    have "(i + 1) * (N + 8) \<le> (length data - 28) div (N + 8) * (N + 8)" using i(1) by (intro mult_le_mono1) simp
    also have "\<dots> \<le> length data - 28" by (rule div_times_less_eq_dividend)
    finally have "length c = N + 8" using i(2) n by (simp add: algebra_simps)
    then show ?thesis using le_nat_bound[of "get_at (N + 4) 4 c"] in_range_swrap[of 32]
      by (simp add: leaf_elem_def leaf_cell_def get_int_def get_uint_def)
  qed
  then show ?thesis
    using n int_at_range[of _ data]
    by (simp add: leaf_fits_def load_leaf_def bpage_fits_def load_bpage_def bpage.extend_def leaf.fields_def list_all_iff
        LEAF_PAGE_HEADER_SIZE_def) (simp add: cells_def)
qed

definition internal_elem :: "nat \<Rightarrow> key \<times> int \<Rightarrow> bool" where
  "internal_elem N e \<longleftrightarrow> length (fst e) = N \<and> in_range 32 (snd e)"

definition internal_fits :: "nat \<Rightarrow> nat \<Rightarrow> internal \<Rightarrow> bool" where
  "internal_fits N n p \<longleftrightarrow> bpage_fits p \<and> length (internal_array p) = (n - 24) div (N + 4) \<and> list_all (internal_elem N) (internal_array p)"

lemma internal_cell_bytes: "internal_elem N e \<Longrightarrow> internal_cell N (internal_bytes e) = e"
  by (cases e) (simp add: internal_elem_def internal_cell_def internal_bytes_def get_at_def get_int_put_int)

lemma load_store_internal:
  assumes f: "internal_fits N (length data) p" and n: "24 \<le> length data"
  shows "load_internal N (store_internal p data) = p" and "length (store_internal p data) = length data"
proof -
  let ?d = "store_bpage p data"
  have b: "bpage_fits p" using f by (simp add: internal_fits_def)
  have len: "length ?d = length data" using n load_store_bpage(2)[OF b] by simp
  have w: "list_all (\<lambda>c. length c = N + 4) (map internal_bytes (internal_array p))"
    using f by (auto simp: internal_fits_def list_all_iff internal_bytes_def internal_elem_def)
  have c: "length (map internal_bytes (internal_array p)) = (length ?d - 24) div (N + 4)" using f len by (simp add: internal_fits_def)
  note put = cells_put[OF w c]
  have cells: "cells 24 (N + 4) (store_internal p data) = map internal_bytes (internal_array p)"
    unfolding store_internal_def INTERNAL_PAGE_HEADER_SIZE_def using put(1) n len by simp
  show L: "length (store_internal p data) = length data"
    unfolding store_internal_def INTERNAL_PAGE_HEADER_SIZE_def using put(2) n len by simp
  have fit: "24 + length (concat (map internal_bytes (internal_array p))) \<le> length ?d"
    using length_concat_width[OF w] c n len by (metis add.commute div_times_less_eq_dividend le_diff_conv2)
  have B: "load_bpage (store_internal p data) = bpage.truncate p"
    unfolding store_internal_def INTERNAL_PAGE_HEADER_SIZE_def using load_bpage_other[OF _ fit] load_store_bpage(1)[OF b n] by simp
  have "map (internal_cell N) (map internal_bytes (internal_array p)) = internal_array p"
    using f internal_cell_bytes by (auto simp: internal_fits_def list_all_iff intro: map_idI)
  then show "load_internal N (store_internal p data) = p"
    unfolding load_internal_def INTERNAL_PAGE_HEADER_SIZE_def B cells
    by (cases p) (simp add: bpage.extend_def bpage.truncate_def internal.fields_def)
qed

lemma load_internal_fits: "24 \<le> length data \<Longrightarrow> internal_fits N (length data) (load_internal N data)"
proof -
  assume n: "24 \<le> length data"
  have "internal_elem N (internal_cell N c)" if c: "c \<in> set (cells 24 (N + 4) data)" for c
  proof -
    from c obtain i where i: "i < (length data - 24) div (N + 4)" "c = get_at (24 + i * (N + 4)) (N + 4) data"
      by (auto simp: cells_def)
    have "(i + 1) * (N + 4) \<le> (length data - 24) div (N + 4) * (N + 4)" using i(1) by (intro mult_le_mono1) simp
    also have "\<dots> \<le> length data - 24" by (rule div_times_less_eq_dividend)
    finally have "length c = N + 4" using i(2) n by (simp add: algebra_simps)
    then show ?thesis using in_range_swrap[of 32] by (simp add: internal_elem_def internal_cell_def get_int_def)
  qed
  then show ?thesis
    using n int_at_range[of _ data]
    by (simp add: internal_fits_def load_internal_def bpage_fits_def load_bpage_def bpage.extend_def internal.fields_def list_all_iff
        INTERNAL_PAGE_HEADER_SIZE_def) (simp add: cells_def)
qed

end
