(* ===== verification/B_Plus_Tree_Laws.thy ===== *)
theory B_Plus_Tree_Laws
  imports B_Plus_Tree B_Plus_Page_Laws
begin

text \<open>
  Trees of pages. A \<open>bt\<close> is what the pages of a B+ tree stand for; \<open>tree_at\<close> ties it to the contents
  of the pool, \<open>bt_ord\<close> orders its keys. Searching follows the tree, finds the value of a key and
  leaves the pool as it was.
\<close>

section \<open>Trees\<close>

datatype bt = BLeaf int "(key \<times> RID) list" | BNode int "(key \<times> bt) list"

fun bt_id :: "bt \<Rightarrow> int" where
  "bt_id (BLeaf p es) = p"
| "bt_id (BNode p ts) = p"

fun bt_items :: "bt \<Rightarrow> (key \<times> RID) list" where
  "bt_items (BLeaf p es) = es"
| "bt_items (BNode p ts) = concat (map (\<lambda>(k, t). bt_items t) ts)"

text \<open>The pages of a tree, and its leaves from left to right.\<close>

fun bt_ids :: "bt \<Rightarrow> int list" where
  "bt_ids (BLeaf p es) = [p]"
| "bt_ids (BNode p ts) = p # concat (map (\<lambda>(k, t). bt_ids t) ts)"

fun bt_leaves :: "bt \<Rightarrow> (int \<times> (key \<times> RID) list) list" where
  "bt_leaves (BLeaf p es) = [(p, es)]"
| "bt_leaves (BNode p ts) = concat (map (\<lambda>(k, t). bt_leaves t) ts)"

fun bt_height :: "bt \<Rightarrow> nat" where
  "bt_height (BLeaf p es) = 1"
| "bt_height (BNode p ts) = Suc (Max (set (0 # map (\<lambda>(k, t). bt_height t) ts)))"

definition heads :: "(key \<times> bt) list \<Rightarrow> (key \<times> int) list" where
  "heads ts = map (\<lambda>(k, t). (k, bt_id t)) ts"

lemma heads_simps [simp]: "heads [] = []" "heads ((k, t) # ts) = (k, bt_id t) # heads ts" "heads (xs @ ys) = heads xs @ heads ys"
  "length (heads ts) = length ts"
  by (simp_all add: heads_def)

lemma bt_items_leaves: "bt_items t = concat (map snd (bt_leaves t))"
proof (induction t)
  case (BNode p ts)
  have "concat (map (\<lambda>(k, t). bt_items t) ts) = concat (map snd (concat (map (\<lambda>(k, t). bt_leaves t) ts)))"
    if "\<forall>x\<in>set ts. bt_items (snd x) = concat (map snd (bt_leaves (snd x)))"
    using that by (induction ts) (auto simp: case_prod_beta)
  then show ?case using BNode by (auto simp: snds.simps)
qed simp

section \<open>Pages that stand for a tree\<close>

definition leaf_page :: "nat \<Rightarrow> int \<Rightarrow> int \<Rightarrow> int \<Rightarrow> (key \<times> RID) list \<Rightarrow> byte list \<Rightarrow> bool" where
  "leaf_page N lmax par p es data \<longleftrightarrow> length data = BUSTUB_PAGE_SIZE \<and>
     page_type (load_leaf N data) = type_number LEAF_PAGE \<and> node_page_id (load_leaf N data) = p \<and>
     parent_page_id (load_leaf N data) = par \<and> max_size (load_leaf N data) = lmax \<and> leaf_holds (load_leaf N data) es"

definition internal_page :: "nat \<Rightarrow> int \<Rightarrow> int \<Rightarrow> int \<Rightarrow> (key \<times> int) list \<Rightarrow> byte list \<Rightarrow> bool" where
  "internal_page N imax par p es data \<longleftrightarrow> length data = BUSTUB_PAGE_SIZE \<and>
     page_type (load_internal N data) = type_number INTERNAL_PAGE \<and> node_page_id (load_internal N data) = p \<and>
     parent_page_id (load_internal N data) = par \<and> max_size (load_internal N data) = imax \<and>
     internal_holds (load_internal N data) es"

definition next_leaf :: "byte list \<Rightarrow> int" where
  "next_leaf data = int_at 24 data"

text \<open>A leaf has room for one more element, an internal page may be full.\<close>

fun tree_at :: "nat \<Rightarrow> int \<Rightarrow> int \<Rightarrow> (int \<Rightarrow> byte list) \<Rightarrow> int \<Rightarrow> bt \<Rightarrow> bool" where
  "tree_at N lmax imax c par (BLeaf p es) \<longleftrightarrow>
     leaf_page N lmax par p es (c p) \<and> es \<noteq> [] \<and> int (length es) < lmax \<and> list_all (leaf_elem N) es"
| "tree_at N lmax imax c par (BNode p ts) \<longleftrightarrow>
     internal_page N imax par p (heads ts) (c p) \<and> ts \<noteq> [] \<and> int (length ts) \<le> imax \<and>
     (\<forall>x\<in>set ts. length (fst x) = N \<and> tree_at N lmax imax c p (snd x))"

text \<open>The leaves are linked in order, the last one to \<open>z\<close>.\<close>

fun linked :: "(int \<Rightarrow> byte list) \<Rightarrow> int list \<Rightarrow> int \<Rightarrow> bool" where
  "linked c [] z = True"
| "linked c (p # ps) z = (next_leaf (c p) = (case ps of [] \<Rightarrow> z | q # _ \<Rightarrow> q) \<and> linked c ps z)"

section \<open>Order\<close>

text \<open>A separator is above the keys on its left and not above those on its right.\<close>

definition sep :: "key set \<Rightarrow> (key \<Rightarrow> int) \<Rightarrow> key \<times> bt \<Rightarrow> key \<times> bt \<Rightarrow> bool" where
  "sep K rank x y \<longleftrightarrow> fst y \<in> K \<and> (\<forall>e\<in>set (bt_items (snd x)). rank (fst e) < rank (fst y)) \<and>
     (\<forall>e\<in>set (bt_items (snd y)). rank (fst y) \<le> rank (fst e))"

fun bt_ord :: "key set \<Rightarrow> (key \<Rightarrow> int) \<Rightarrow> bt \<Rightarrow> bool" where
  "bt_ord K rank (BLeaf p es) \<longleftrightarrow> es \<noteq> [] \<and> sorted_keys K rank es"
| "bt_ord K rank (BNode p ts) \<longleftrightarrow> ts \<noteq> [] \<and> successively (sep K rank) ts \<and> (\<forall>x\<in>set ts. bt_ord K rank (snd x))"

lemma bt_ord_items: "bt_ord K rank t \<Longrightarrow> bt_items t \<noteq> []"
proof (induction t)
  case (BNode p ts)
  then obtain k t ts' where ts: "ts = (k, t) # ts'" by (cases ts) auto
  then have "bt_items t \<noteq> []" using BNode.IH[of "(k, t)" t] BNode.prems by simp
  then show ?case using ts by simp
qed simp

lemma sep_below:
  assumes "successively (sep K rank) (x # ts)" "\<forall>y\<in>set ts. bt_items (snd y) \<noteq> []" "y \<in> set ts"
  shows "\<forall>e\<in>set (bt_items (snd x)). rank (fst e) < rank (fst y)"
  using assms
proof (induction ts arbitrary: x)
  case (Cons z ts)
  from Cons.prems(1) have s: "sep K rank x z" "successively (sep K rank) (z # ts)" by simp_all
  show ?case
  proof (cases "y = z")
    case False
    then have "y \<in> set ts" using Cons.prems(3) by simp
    then have z: "\<forall>e\<in>set (bt_items (snd z)). rank (fst e) < rank (fst y)" using Cons s(2) by simp
    obtain e where "e \<in> set (bt_items (snd z))" using Cons.prems(2) by (metis list.set_intros(1) last_in_set)
    then have "rank (fst z) < rank (fst y)" using s(1) z by (fastforce simp: sep_def)
    then show ?thesis using s(1) by (fastforce simp: sep_def)
  qed (use s(1) in \<open>simp add: sep_def\<close>)
qed simp

lemma sep_keys:
  assumes "successively (sep K rank) (x # ts)" "\<forall>y\<in>set ts. bt_items (snd y) \<noteq> []"
  shows "sorted_keys K rank (heads ts)" and "\<forall>y\<in>set ts. \<forall>e\<in>set (bt_items (snd y)). rank (fst y) \<le> rank (fst e)"
proof -
  have "sorted_keys K rank (heads ts) \<and> (\<forall>y\<in>set ts. \<forall>e\<in>set (bt_items (snd y)). rank (fst y) \<le> rank (fst e))"
    using assms
  proof (induction ts arbitrary: x)
    case Nil
    then show ?case by (simp add: sorted_keys_def)
  next
    case (Cons z ts)
    then have s: "sep K rank x z" "successively (sep K rank) (z # ts)" by simp_all
    have ih: "sorted_keys K rank (heads ts)" "\<forall>y\<in>set ts. \<forall>e\<in>set (bt_items (snd y)). rank (fst y) \<le> rank (fst e)"
      using Cons s(2) by auto
    obtain e where e: "e \<in> set (bt_items (snd z))" using Cons.prems(2) by (metis list.set_intros(1) last_in_set)
    have "rank (fst z) < rank (fst y)" if "y \<in> set ts" for y
      using sep_below[OF s(2) _ that] Cons.prems(2) e s(1) by (fastforce simp: sep_def)
    moreover have "fst z \<in> K" using s(1) by (simp add: sep_def)
    ultimately have "sorted_keys K rank (heads (z # ts))"
      using ih(1) by (cases z) (auto simp: sorted_keys_Cons heads_def)
    then show ?case using ih(2) s(1) by (simp add: sep_def)
  qed
  then show "sorted_keys K rank (heads ts)" and "\<forall>y\<in>set ts. \<forall>e\<in>set (bt_items (snd y)). rank (fst y) \<le> rank (fst e)" by simp_all
qed

lemma sorted_items:
  assumes "\<forall>x\<in>set ts. sorted_keys K rank (bt_items (snd x)) \<and> bt_items (snd x) \<noteq> []" "successively (sep K rank) ts"
  shows "sorted_keys K rank (concat (map (\<lambda>(k, t). bt_items t) ts))"
  using assms
proof (induction ts)
  case Nil
  then show ?case by (simp add: sorted_keys_def)
next
  case (Cons x ts)
  have "successively (sep K rank) ts" using Cons.prems(2) by (cases ts) simp_all
  then have ih: "sorted_keys K rank (concat (map (\<lambda>(k, t). bt_items t) ts))" using Cons by simp
  have ne: "\<forall>y\<in>set ts. bt_items (snd y) \<noteq> []" using Cons.prems(1) by simp
  have "rank (fst e) < rank (fst e')" if "e \<in> set (bt_items (snd x))" "y \<in> set ts" "e' \<in> set (bt_items (snd y))" for e e' y
  proof -
    have "rank (fst e) < rank (fst y)" using sep_below[OF Cons.prems(2) ne that(2)] that(1) by blast
    also have "\<dots> \<le> rank (fst e')" using sep_keys(2)[OF Cons.prems(2) ne] that(2,3) by blast
    finally show ?thesis .
  qed
  then show ?case using ih Cons.prems(1) by (cases x) (auto simp: sorted_keys_append)
qed

lemma bt_ord_sorted: "bt_ord K rank t \<Longrightarrow> sorted_keys K rank (bt_items t)"
proof (induction t)
  case (BNode p ts)
  then have "\<forall>x\<in>set ts. sorted_keys K rank (bt_items (snd x)) \<and> bt_items (snd x) \<noteq> []"
    using bt_ord_items by (auto simp: snds.simps)
  then show ?case using sorted_items BNode.prems by simp
qed simp

text \<open>The value of each key, by its rank.\<close>

definition items_map :: "(key \<Rightarrow> int) \<Rightarrow> (key \<times> RID) list \<Rightarrow> int \<rightharpoonup> RID" where
  "items_map rank es = map_of (map (\<lambda>e. (rank (fst e), snd e)) es)"

definition bt_map :: "(key \<Rightarrow> int) \<Rightarrow> bt \<Rightarrow> int \<rightharpoonup> RID" where
  "bt_map rank t = items_map rank (bt_items t)"

lemma items_map_None: "items_map rank es r = None \<longleftrightarrow> (\<forall>e\<in>set es. rank (fst e) \<noteq> r)"
  by (auto simp: items_map_def map_of_eq_None_iff image_image)

lemma items_map_append: "items_map rank (a @ b) = items_map rank b ++ items_map rank a"
  by (simp add: items_map_def)

text \<open>Below a node, a key belongs to one child only.\<close>

lemma route:
  assumes o: "bt_ord K rank (BNode p ts)" and ts: "ts = a @ (k, t) # b"
    and l: "a \<noteq> [] \<longrightarrow> rank k \<le> r" and u: "\<forall>x\<in>set b. r < rank (fst x)"
  shows "bt_map rank (BNode p ts) r = bt_map rank t r"
proof -
  have ne: "\<forall>y\<in>set ts. bt_items (snd y) \<noteq> []" using o bt_ord_items by auto
  have s: "successively (sep K rank) ts" using o by simp
  have before: "rank (fst e) \<noteq> r" if x: "x \<in> set a" "e \<in> set (bt_items (snd x))" for x e
  proof -
    from x(1) obtain a1 a2 where a: "a = a1 @ x # a2" by (metis in_set_conv_decomp)
    then have "successively (sep K rank) (x # a2 @ (k, t) # b)" using s ts by (simp add: successively_append_iff)
    from sep_below[OF this _, of "(k, t)"] ne a ts have "rank (fst e) < rank k" using x(2) by simp
    then show ?thesis using l x(1) by (cases a) auto
  qed
  have after: "rank (fst e) \<noteq> r" if x: "x \<in> set b" "e \<in> set (bt_items (snd x))" for x e
  proof -
    have "successively (sep K rank) ((k, t) # b)" using s ts by (simp add: successively_append_iff)
    from sep_keys(2)[OF this] ne ts x have "rank (fst x) \<le> rank (fst e)" by auto
    then show ?thesis using u x(1) by fastforce
  qed
  have "items_map rank (concat (map (\<lambda>(k, t). bt_items t) a)) r = None" "items_map rank (concat (map (\<lambda>(k, t). bt_items t) b)) r = None"
    using before after unfolding items_map_None by (force simp: case_prod_beta)+
  then show ?thesis by (simp add: bt_map_def ts items_map_append map_add_def split: option.split)
qed

section \<open>Pages of the pool\<close>

lemma view_id:
  assumes "pool_view D c P n k b" "held b p f"
  shows "frame_id f b = p"
proof -
  have "page_ok (disk_manager b) p (frame b f)" using resident_facts(6)[of "{}" b p f] assms by (simp add: pool_view_def held_def)
  then show ?thesis by (simp add: page_ok_def frame_id_def frame_def)
qed

lemma view_pins: "pool_view D c P n k b \<Longrightarrow> held b p f \<Longrightarrow> 0 < P p"
  by (auto simp: pool_view_def held_def)

lemma keeps_view: "keeps_held b b' \<Longrightarrow> held b p f \<Longrightarrow> pool_view D c P n k b' \<Longrightarrow> 0 < P p \<Longrightarrow> held b' p f"
  using keeps_heldD by (auto simp: pool_view_def)

text \<open>Room to pin \<open>m\<close> more pages.\<close>

definition free_frames :: "(int \<Rightarrow> int) \<Rightarrow> nat \<Rightarrow> nat \<Rightarrow> bool" where
  "free_frames P k m \<longleftrightarrow> finite {q. P q \<noteq> 0} \<and> card {q. P q \<noteq> 0} + m \<le> k \<and> (\<forall>q. 0 \<le> P q \<and> P q + int m < 2 ^ 31 - 1)"

lemma free_frames_less:
  assumes f: "free_frames P k m" and m: "m' \<le> m"
  shows "free_frames P k m'"
proof -
  have "0 \<le> P q \<and> P q + int m' < 2 ^ 31 - 1" for q
  proof -
    have "0 \<le> P q" "P q + int m < 2 ^ 31 - 1" using f unfolding free_frames_def by blast+
    then show ?thesis using m by linarith
  qed
  moreover have "finite {q. P q \<noteq> 0}" "card {q. P q \<noteq> 0} + m' \<le> k" using f m by (simp_all add: free_frames_def)
  ultimately show ?thesis unfolding free_frames_def by blast
qed

lemma free_frames_pin:
  assumes "free_frames P k (Suc m)"
  shows "free_frames (P(p := P p + 1)) k m"
proof -
  have sub: "{q. (P(p := P p + 1)) q \<noteq> 0} \<subseteq> insert p {q. P q \<noteq> 0}" by auto
  have f: "finite (insert p {q. P q \<noteq> 0})" using assms by (simp add: free_frames_def)
  have "card {q. (P(p := P p + 1)) q \<noteq> 0} \<le> card (insert p {q. P q \<noteq> 0})" by (rule card_mono[OF f sub])
  also have "\<dots> \<le> Suc (card {q. P q \<noteq> 0})" using f by (simp add: card_insert_if)
  finally have "card {q. (P(p := P p + 1)) q \<noteq> 0} + m \<le> k" using assms by (simp add: free_frames_def)
  moreover have "0 \<le> (P(p := P p + 1)) q \<and> (P(p := P p + 1)) q + int m < 2 ^ 31 - 1" for q
  proof -
    have "0 \<le> P q" "P q + int (Suc m) < 2 ^ 31 - 1" using assms unfolding free_frames_def by blast+
    then show ?thesis by (cases "q = p") simp_all
  qed
  ultimately show ?thesis using finite_subset[OF sub f] unfolding free_frames_def by blast
qed

lemma free_frames_lim:
  assumes "free_frames P k (Suc m)"
  shows "room P k \<and> P p < 2 ^ 31 - 1"
proof -
  have "card {q. P q \<noteq> 0} + Suc m \<le> k" "P p + int (Suc m) < 2 ^ 31 - 1" using assms unfolding free_frames_def by blast+
  then show ?thesis unfolding room_def by linarith
qed

lemma fetch_view:
  assumes v: "pool_view D c P n k b" and p: "0 \<le> p" "p < n" and f: "free_frames P k (Suc m)"
  shows "\<exists>f b'. fetch p b = Inr (f, b') \<and> pool_view D c (P(p := P p + 1)) n k b' \<and> held b' p f \<and> keeps_held b b'"
  using view_fetch[OF v p] free_frames_lim[OF f] by (auto simp: fetch_def)

lemma unpin_view:
  assumes "pool_view D c P n k b" "0 < P p" "\<not> dirty \<Longrightarrow> p \<notin> D"
  shows "\<exists>b'. unpin p dirty b = Inr b' \<and> pool_view (if dirty then D - {p} else D) c (P(p := P p - 1)) n k b' \<and> resident b' = resident b"
proof -
  from view_unpin[OF assms] obtain b' where "UnpinPgImp p dirty b = Inr (True, b')"
    "pool_view (if dirty then D - {p} else D) c (P(p := P p - 1)) n k b'" "resident b' = resident b" by blast
  then show ?thesis by (simp add: unpin_def)
qed

lemma held_resident: "held b p f \<Longrightarrow> resident b' = resident b \<Longrightarrow> pool_view D c P n k b' \<Longrightarrow> 0 < P p \<Longrightarrow> held b' p f"
  by (auto simp: held_def pool_view_def)

text \<open>Pages that are pinned throughout stay in their frames.\<close>

definition keeps :: "(int \<Rightarrow> int) \<Rightarrow> bpm \<Rightarrow> bpm \<Rightarrow> bool" where
  "keeps P b b' \<longleftrightarrow> (\<forall>q f. 0 < P q \<longrightarrow> resident b q = Some f \<longrightarrow> resident b' q = Some f)"

lemma keeps_refl [simp]: "keeps P b b"
  by (simp add: keeps_def)

lemma keeps_trans: "keeps P b b' \<Longrightarrow> keeps P b' b'' \<Longrightarrow> keeps P b b''"
  by (simp add: keeps_def)

lemma keeps_resident: "resident b' = resident b \<Longrightarrow> keeps P b b'"
  by (simp add: keeps_def)

lemma keeps_mono: "keeps P' b b' \<Longrightarrow> (\<And>q. 0 < P q \<Longrightarrow> 0 < P' q) \<Longrightarrow> keeps P b b'"
  by (auto simp: keeps_def)

lemma keeps_from_held: "keeps_held b b' \<Longrightarrow> pool_view D c P n k b \<Longrightarrow> keeps P b b'"
  by (auto simp: keeps_def keeps_held_def pool_view_def)

lemma keeps_heldI: "keeps P b b' \<Longrightarrow> held b p f \<Longrightarrow> 0 < P p \<Longrightarrow> pool_view D c P' n k b' \<Longrightarrow> 0 < P' p \<Longrightarrow> held b' p f"
  by (auto simp: keeps_def held_def pool_view_def)

section \<open>Searching\<close>

text \<open>The nodes above a tree, innermost first: page, children on the left, key of the child, children on the right.\<close>

type_synonym zip = "int \<times> (key \<times> bt) list \<times> key \<times> (key \<times> bt) list"

fun plug :: "zip list \<Rightarrow> bt \<Rightarrow> bt" where
  "plug [] t = t"
| "plug ((p, a, k, b) # zs) t = plug zs (BNode p (a @ (k, t) # b))"

definition zip_parent :: "zip list \<Rightarrow> int" where
  "zip_parent zs = (case zs of [] \<Rightarrow> INVALID_PAGE_ID | z # _ \<Rightarrow> fst z)"

definition add_pins :: "int list \<Rightarrow> (int \<Rightarrow> int) \<Rightarrow> int \<Rightarrow> int" where
  "add_pins ps P = (\<lambda>q. P q + int (count_list ps q))"

text \<open>A search holds only the node it is at, the other operations hold the whole path.\<close>

definition path_pins :: "Operation \<Rightarrow> zip list \<Rightarrow> int \<Rightarrow> (int \<Rightarrow> int) \<Rightarrow> int \<Rightarrow> int" where
  "path_pins operation zs p P = (if operation = SEARCH then P(p := P p + 1) else add_pins (p # map fst zs) P)"

lemma path_pins_step:
  "path_pins operation ((p, z) # zs) q P =
   (if operation = SEARCH then ((path_pins operation zs p P)(q := path_pins operation zs p P q + 1))(p :=
      ((path_pins operation zs p P)(q := path_pins operation zs p P q + 1)) p - 1)
    else (path_pins operation zs p P)(q := path_pins operation zs p P q + 1))"
  by (auto simp: path_pins_def add_pins_def fun_eq_iff)

lemma path_pins_pos: "\<forall>q. 0 \<le> P q \<Longrightarrow> 0 < path_pins operation zs p P p"
  by (auto simp: path_pins_def add_pins_def intro: add_nonneg_pos)

lemma path_pins_ge: "0 < P q \<Longrightarrow> 0 < path_pins operation zs p P q"
  by (auto simp: path_pins_def add_pins_def intro: add_pos_nonneg)

lemma find_loop_ok:
  assumes step: "\<And>zs p ts. Q zs (BNode p ts) \<Longrightarrow> tree_at N lmax imax c (zip_parent zs) (BNode p ts) \<Longrightarrow>
      \<exists>a x t b. ts = a @ (x, t) # b \<and> child_of N cmp key leftMost rightMost (load_internal N (c p)) = Inr (bt_id t) \<and> Q ((p, a, x, b) # zs) t"
    and free: "\<And>zs t. Q zs t \<Longrightarrow> free_frames (path_pins operation zs (bt_id t) P) k 1"
    and P: "\<forall>q. 0 \<le> P q"
  shows "tree_at N lmax imax c (zip_parent zs) t \<Longrightarrow> list_all (\<lambda>p. 0 < p \<and> p < n) (bt_ids t) \<Longrightarrow> Q zs t \<Longrightarrow>
    pool_view {} c (path_pins operation zs (bt_id t) P) n k b \<Longrightarrow> held b (bt_id t) f \<Longrightarrow>
    \<exists>zs' q es f' b'. find_loop N cmp key operation leftMost rightMost f b = Some (Inr (f', b')) \<and> Q zs' (BLeaf q es) \<and>
      tree_at N lmax imax c (zip_parent zs') (BLeaf q es) \<and> 0 < q \<and> q < n \<and>
      pool_view {} c (path_pins operation zs' q P) n k b' \<and> held b' q f' \<and> keeps P b b'"
proof (induction t arbitrary: zs f b)
  case (BLeaf p es)
  have "frame_data f b = c p" using view_read[OF BLeaf.prems(4)] BLeaf.prems(5) by simp
  then have "IsLeafPage (frame_node f b)"
    using BLeaf.prems(1) by (simp add: leaf_page_def frame_node_def IsLeafPage_def load_leaf_def bpage.extend_def)
  then have "find_loop N cmp key operation leftMost rightMost f b = Some (Inr (f, b))" by (simp add: find_loop.simps)
  then show ?case using BLeaf.prems by (intro exI[of _ zs] exI[of _ p] exI[of _ es] exI[of _ f] exI[of _ b]) simp
next
  case (BNode p ts)
  let ?P = "path_pins operation zs p P"
  have v: "pool_view {} c ?P n k b" and h: "held b p f" using BNode.prems(4,5) by simp_all
  have data: "frame_data f b = c p" by (rule view_read[OF v h])
  then have inner: "\<not> IsLeafPage (frame_node f b)"
    using BNode.prems(1) by (simp add: internal_page_def frame_node_def IsLeafPage_def load_internal_def bpage.extend_def)
  from step[OF BNode.prems(3,1)] obtain a x t b' where t: "ts = a @ (x, t) # b'"
    "child_of N cmp key leftMost rightMost (frame_internal N f b) = Inr (bt_id t)" "Q ((p, a, x, b') # zs) t"
    by (auto simp: frame_internal_def data)
  have id: "bt_id t \<in> set (bt_ids t)" by (cases t) simp_all
  then have range: "0 < bt_id t" "bt_id t < n" "list_all (\<lambda>p. 0 < p \<and> p < n) (bt_ids t)"
    using BNode.prems(2) t(1) by (auto simp: list_all_iff)
  from fetch_view[OF v _ range(2), of 0] free[OF BNode.prems(3)] range(1) obtain g b1 where
    g: "fetch (bt_id t) b = Inr (g, b1)" "pool_view {} c (?P(bt_id t := ?P (bt_id t) + 1)) n k b1" "held b1 (bt_id t) g" "keeps_held b b1"
    by auto
  have pos: "0 < (?P(bt_id t := ?P (bt_id t) + 1)) p" using path_pins_pos[OF P, of operation zs p] by (cases "p = bt_id t") simp_all
  have "held b1 p f" using pos by (rule keeps_view[OF g(4) h g(2)])
  then have fid: "frame_id f b1 = p" by (rule view_id[OF g(2)])
  have "\<exists>b2. (if operation = SEARCH then unpin (frame_id f b1) False b1 else Inr b1) = Inr b2 \<and>
      pool_view {} c (path_pins operation ((p, a, x, b') # zs) (bt_id t) P) n k b2 \<and> held b2 (bt_id t) g \<and> keeps P b1 b2"
  proof (cases "operation = SEARCH")
    case True
    from unpin_view[OF g(2) pos, of False] obtain b2 where b2: "unpin p False b1 = Inr b2"
      "pool_view {} c ((?P(bt_id t := ?P (bt_id t) + 1))(p := (?P(bt_id t := ?P (bt_id t) + 1)) p - 1)) n k b2" "resident b2 = resident b1"
      by (auto simp del: fun_upd_apply)
    have v2: "pool_view {} c (path_pins operation ((p, a, x, b') # zs) (bt_id t) P) n k b2"
      using b2(2) True by (simp add: path_pins_step del: fun_upd_apply)
    have "held b2 (bt_id t) g" using held_resident[OF g(3) b2(3) v2] path_pins_pos[OF P] by blast
    then show ?thesis using True b2(1,3) v2 fid keeps_resident by simp
  next
    case False
    then show ?thesis using g(2,3) by (simp add: path_pins_step del: fun_upd_apply)
  qed
  then obtain b2 where b2: "(if operation = SEARCH then unpin (frame_id f b1) False b1 else Inr b1) = Inr b2"
    "pool_view {} c (path_pins operation ((p, a, x, b') # zs) (bt_id t) P) n k b2" "held b2 (bt_id t) g" "keeps P b1 b2" by blast
  have "keeps P b b1" by (rule keeps_mono[OF keeps_from_held[OF g(4) v] path_pins_ge])
  then have k: "keeps P b b2" using b2(4) by (rule keeps_trans)
  have tr: "tree_at N lmax imax c (zip_parent ((p, a, x, b') # zs)) t" using BNode.prems(1) t(1) by (simp add: zip_parent_def)
  have "find_loop N cmp key operation leftMost rightMost f b = find_loop N cmp key operation leftMost rightMost g b2"
    using inner t(2) range(1) g(1) b2(1) by (subst find_loop.simps) (simp add: guard_r_def)
  moreover have "(x, t) \<in> set ts" "t \<in> Basic_BNFs.snds (x, t)" using t(1) by (simp_all add: snds.simps)
  note BNode.IH[OF this tr range(3) t(3) b2(2,3)]
  ultimately show ?case using keeps_trans[OF k] by (simp del: tree_at.simps) blast
qed

text \<open>The child that the search of a key takes.\<close>

definition on_way :: "(key \<Rightarrow> int) \<Rightarrow> int \<Rightarrow> zip \<Rightarrow> bool" where
  "on_way rank r = (\<lambda>(p, a, x, b). (a \<noteq> [] \<longrightarrow> rank x \<le> r) \<and> (\<forall>y\<in>set b. r < rank (fst y)))"

lemma plug_ord: "bt_ord K rank (plug zs t) \<Longrightarrow> bt_ord K rank t"
proof (induction zs arbitrary: t)
  case (Cons z zs)
  obtain p a x b where z: "z = (p, a, x, b)" by (cases z) auto
  then have "bt_ord K rank (BNode p (a @ (x, t) # b))" using Cons by (simp del: bt_ord.simps)
  then show ?case by simp
qed simp

lemma plug_map:
  assumes "bt_ord K rank (plug zs t)" "list_all (on_way rank r) zs"
  shows "bt_map rank (plug zs t) r = bt_map rank t r"
  using assms
proof (induction zs arbitrary: t)
  case (Cons z zs)
  obtain p a x b where z: "z = (p, a, x, b)" by (cases z) auto
  have "bt_ord K rank (BNode p (a @ (x, t) # b))" using Cons.prems(1) z plug_ord by (simp del: bt_ord.simps)
  then have "bt_map rank (BNode p (a @ (x, t) # b)) r = bt_map rank t r"
    by (rule route) (use Cons.prems(2) z in \<open>auto simp: on_way_def\<close>)
  then show ?case using Cons z by simp
qed simp

lemma lookup_step:
  assumes o: "key_order cmp K rank" and t: "bt_ord K rank (BNode p ts)" and k: "key \<in> K"
    and h: "internal_holds page (heads ts)"
  shows "\<exists>a x t b. ts = a @ (x, t) # b \<and> internal_Lookup cmp key page = Inr (bt_id t) \<and> on_way rank (rank key) (p, a, x, b)"
proof -
  obtain k0 t0 ts' where ts: "ts = (k0, t0) # ts'" using t by (cases ts) auto
  have s: "sorted_keys K rank (heads ts')"
    by (rule sep_keys(1)[of K rank "(k0, t0)"]) (use t ts bt_ord_items in auto)
  have "internal_holds page ((k0, bt_id t0) # heads ts')" using h ts by simp
  from key_order.internal_Lookup_ok[OF o this s k] obtain a e b where
    e: "(k0, bt_id t0) # heads ts' = a @ e # b" "internal_Lookup cmp key page = Inr (snd e)" "a \<noteq> [] \<longrightarrow> rank (fst e) \<le> rank key"
      "\<forall>x\<in>set b. rank key < rank (fst x)" by blast
  then have "heads ts = a @ e # b" using ts by simp
  then obtain a' x t' b' where "ts = a' @ (x, t') # b'" "a = heads a'" "e = (x, bt_id t')" "b = heads b'"
    unfolding heads_def by (auto simp: map_eq_append_conv map_eq_Cons_conv)
  then show ?thesis using e by (intro exI[of _ a'] exI[of _ x] exI[of _ t'] exI[of _ b']) (auto simp: on_way_def heads_def)
qed

end
