(* ===== verification/B_Plus_Search.thy ===== *)
theory B_Plus_Search
  imports B_Plus_Tree_Laws
begin

text \<open>
  Searching a B+ tree: a lookup finds the value of its key and leaves the pool as it was; an iterator
  that starts at the leftmost leaf visits the elements of the tree in order.
\<close>

section \<open>The index and its tree\<close>

text \<open>The pages of the tree are those of the index: its ids are positive, its leaves are linked.\<close>

definition index_at :: "nat \<Rightarrow> (int \<Rightarrow> byte list) \<Rightarrow> int \<Rightarrow> bt \<Rightarrow> bptree \<Rightarrow> bool" where
  "index_at N c n T t \<longleftrightarrow> root_page_id t = bt_id T \<and>
     tree_at N (leaf_max_size t) (internal_max_size t) c INVALID_PAGE_ID T \<and>
     linked c (map fst (bt_leaves T)) INVALID_PAGE_ID \<and> distinct (bt_ids T) \<and> list_all (\<lambda>p. 0 < p \<and> p < n) (bt_ids T)"

lemma bt_id_in: "bt_id t \<in> set (bt_ids t)"
  by (cases t) simp_all

lemma index_at_root: "index_at N c n T t \<Longrightarrow> 0 < root_page_id t \<and> root_page_id t < n"
  using bt_id_in by (auto simp: index_at_def list_all_iff)

section \<open>Finding a leaf\<close>

lemma zip_parent_Nil [simp]: "zip_parent [] = INVALID_PAGE_ID"
  by (simp add: zip_parent_def)

lemma path_pins_Nil [simp]: "path_pins operation [] p P = P(p := P p + 1)"
  by (auto simp: path_pins_def add_pins_def)

lemma search_frames: "free_frames P k 2 \<Longrightarrow> free_frames (path_pins SEARCH zs p P) k 1"
  using free_frames_pin[of P k 1 p] by (simp add: path_pins_def numeral_2_eq_2)

lemma free_frames_pos: "free_frames P k m \<Longrightarrow> 0 \<le> P q"
  unfolding free_frames_def by blast

text \<open>A search reaches a leaf; \<open>Q\<close> holds of the path that it takes.\<close>

lemma FindLeaf_search:
  assumes at: "index_at N c n T t" and l: "root_page_id_latch t = Shared 1" and v: "pool_view {} c P n k b"
    and f: "free_frames P k 2" and op: "\<not> (leftMost \<and> rightMost)" and Q: "Q [] T"
    and step: "\<And>zs p ts. Q zs (BNode p ts) \<Longrightarrow>
      tree_at N (leaf_max_size t) (internal_max_size t) c (zip_parent zs) (BNode p ts) \<Longrightarrow>
      \<exists>a x t b. ts = a @ (x, t) # b \<and> child_of N cmp key leftMost rightMost (load_internal N (c p)) = Inr (bt_id t) \<and> Q ((p, a, x, b) # zs) t"
  shows "\<exists>zs q es f b'. FindLeaf N cmp key SEARCH leftMost rightMost t b = Some (Inr (f, t\<lparr>root_page_id_latch := Unlocked\<rparr>, b')) \<and>
    Q zs (BLeaf q es) \<and> tree_at N (leaf_max_size t) (internal_max_size t) c (zip_parent zs) (BLeaf q es) \<and> 0 < q \<and> q < n \<and>
    pool_view {} c (P(q := P q + 1)) n k b' \<and> held b' q f \<and> keeps P b b'"
proof -
  have root: "root_page_id t = bt_id T" "0 < bt_id T" "bt_id T < n" using index_at_root[OF at] at by (simp_all add: index_at_def)
  have f2: "free_frames P k (Suc 1)" using f by (simp add: numeral_2_eq_2)
  from fetch_view[OF v _ root(3) f2] root(2) obtain g b1 where
    g: "fetch (bt_id T) b = Inr (g, b1)" "pool_view {} c (P(bt_id T := P (bt_id T) + 1)) n k b1" "held b1 (bt_id T) g" "keeps_held b b1" by auto
  have "tree_at N (leaf_max_size t) (internal_max_size t) c (zip_parent []) T" "list_all (\<lambda>p. 0 < p \<and> p < n) (bt_ids T)"
    using at by (simp_all add: index_at_def)
  from find_loop_ok[where Q = Q and operation = SEARCH, OF step search_frames[OF f] _ this Q _ g(3)] g(2) free_frames_pos[OF f]
  obtain zs q es h b2 where h: "find_loop N cmp key SEARCH leftMost rightMost g b1 = Some (Inr (h, b2))" "Q zs (BLeaf q es)"
    "tree_at N (leaf_max_size t) (internal_max_size t) c (zip_parent zs) (BLeaf q es)" "0 < q" "q < n"
    "pool_view {} c (path_pins SEARCH zs q P) n k b2" "held b2 q h" "keeps P b1 b2" by (auto simp del: fun_upd_apply)
  then show ?thesis using g(1) root op l keeps_trans[OF keeps_from_held[OF g(4) v]]
    by (intro exI[of _ zs] exI[of _ q] exI[of _ es] exI[of _ h] exI[of _ b2])
      (simp add: FindLeaf_def guard_r_def path_pins_def INVALID_PAGE_ID_def del: tree_at.simps)
qed

lemma leaf_frame:
  assumes "tree_at N lmax imax c par (BLeaf q es)" "pool_view D c P n k b" "held b q f"
  shows "leaf_holds (frame_leaf N f b) es" and "next_leaf_id (frame_leaf N f b) = next_leaf (c q)"
    and "node_page_id (frame_node f b) = q"
proof -
  have c: "frame_data f b = c q" by (rule view_read[OF assms(2,3)])
  then show "leaf_holds (frame_leaf N f b) es" using assms(1) by (simp add: frame_leaf_def leaf_page_def)
  show "next_leaf_id (frame_leaf N f b) = next_leaf (c q)" using c by (simp add: frame_leaf_def next_leaf_def load_leaf_def leaf.defs bpage.defs)
  show "node_page_id (frame_node f b) = q" using c assms(1) by (simp add: frame_node_def leaf_page_def load_leaf_def leaf.defs bpage.defs)
qed

text \<open>Letting the leaf of a search go.\<close>

lemma unpin_leaf:
  assumes v: "pool_view {} c (P(q := P q + 1)) n k b" and h: "held b q f" and P: "0 \<le> P q"
  shows "\<exists>b'. unpin (frame_id f b) False b = Inr b' \<and> pool_view {} c P n k b'"
proof -
  have "0 < (P(q := P q + 1)) q" using P by simp
  from unpin_view[OF v this, of False] obtain b' where
    b': "unpin q False b = Inr b'" "pool_view {} c ((P(q := P q + 1))(q := (P(q := P q + 1)) q - 1)) n k b'" by (auto simp del: fun_upd_apply)
  have "(P(q := P q + 1))(q := (P(q := P q + 1)) q - 1) = P" by (simp add: fun_eq_iff)
  then show ?thesis using b' view_id[OF v h] by simp
qed

section \<open>Looking up a key\<close>

lemma GetValue_ok:
  assumes o: "key_order cmp K rank" and at: "index_at N c n T t" and ord: "bt_ord K rank T" and l: "root_page_id_latch t = Unlocked"
    and v: "pool_view {} c P n k b" and f: "free_frames P k 2" and key: "key \<in> K"
  shows "\<exists>b'. GetValue N cmp key t b = Some (Inr (bt_map rank T (rank key), t, b')) \<and> pool_view {} c P n k b'"
proof -
  let ?t = "t\<lparr>root_page_id_latch := Shared 1\<rparr>"
  let ?Q = "\<lambda>zs s. plug zs s = T \<and> list_all (on_way rank (rank key)) zs"
  have at': "index_at N c n T ?t" using at by (simp add: index_at_def)
  have step: "\<exists>a x s b. ts = a @ (x, s) # b \<and> child_of N cmp key False False (load_internal N (c p)) = Inr (bt_id s) \<and>
      plug ((p, a, x, b) # zs) s = T \<and> list_all (on_way rank (rank key)) ((p, a, x, b) # zs)"
    if q: "plug zs (BNode p ts) = T \<and> list_all (on_way rank (rank key)) zs"
      "tree_at N (leaf_max_size ?t) (internal_max_size ?t) c (zip_parent zs) (BNode p ts)" for zs p ts
  proof -
    have "internal_holds (load_internal N (c p)) (heads ts)" using q(2) by (simp add: internal_page_def)
    moreover have "bt_ord K rank (BNode p ts)" using plug_ord ord q(1) by metis
    ultimately obtain a x s b where "ts = a @ (x, s) # b" "internal_Lookup cmp key (load_internal N (c p)) = Inr (bt_id s)"
      "on_way rank (rank key) (p, a, x, b)" using lookup_step[OF o _ key] by metis
    then show ?thesis using q(1)
      by (intro exI[of _ a] exI[of _ x] exI[of _ s] exI[of _ b]) (simp add: child_of_def)
  qed
  from FindLeaf_search[where Q = ?Q, OF at' _ v f _ _ step] obtain zs q es g b1 where
    g: "FindLeaf N cmp key SEARCH False False ?t b = Some (Inr (g, ?t\<lparr>root_page_id_latch := Unlocked\<rparr>, b1))"
      "plug zs (BLeaf q es) = T" "list_all (on_way rank (rank key)) zs"
      "tree_at N (leaf_max_size ?t) (internal_max_size ?t) c (zip_parent zs) (BLeaf q es)"
      "pool_view {} c (P(q := P q + 1)) n k b1" "held b1 q g" by (auto simp del: fun_upd_apply tree_at.simps)
  from leaf_frame(1)[OF g(4-6)] have h: "leaf_holds (frame_leaf N g b1) es" .
  have o': "bt_ord K rank (BLeaf q es)" using plug_ord ord g(2) by metis
  have "leaf_Lookup cmp key (frame_leaf N g b1) = Inr (items_map rank es (rank key))"
    using key_order.leaf_Lookup_sorted[OF o h _ key] o' by (simp add: items_map_def)
  also have "items_map rank es (rank key) = bt_map rank T (rank key)"
    using plug_map[of K rank zs "BLeaf q es" "rank key"] g(2,3) ord by (simp add: bt_map_def)
  finally have look: "leaf_Lookup cmp key (frame_leaf N g b1) = Inr (bt_map rank T (rank key))" .
  from unpin_leaf[OF g(5,6) free_frames_pos[OF f]] obtain b2 where "unpin (frame_id g b1) False b1 = Inr b2" "pool_view {} c P n k b2" by blast
  moreover have "?t\<lparr>root_page_id_latch := Unlocked\<rparr> = t" using l by simp
  ultimately show ?thesis using g(1) look l by (simp add: GetValue_def with_latch_def)
qed

section \<open>Iterators\<close>

text \<open>The leaves of a tree around those below a node.\<close>

lemma plug_leaves:
  "\<exists>l r. bt_leaves (plug zs s) = l @ bt_leaves s @ r \<and> (list_all (\<lambda>(p, a, x, b). a = []) zs \<longrightarrow> l = []) \<and>
    (list_all (\<lambda>(p, a, x, b). b = []) zs \<longrightarrow> r = [])"
proof (induction zs arbitrary: s)
  case (Cons z zs)
  obtain p a x b where z: "z = (p, a, x, b)" by (cases z) auto
  let ?lv = "\<lambda>xs. concat (map (\<lambda>(k, t). bt_leaves t) xs)"
  have lv: "bt_leaves (BNode p (a @ (x, s) # b)) = ?lv a @ bt_leaves s @ ?lv b" by simp
  from Cons[of "BNode p (a @ (x, s) # b)"] obtain l r where
    "bt_leaves (plug zs (BNode p (a @ (x, s) # b))) = l @ (?lv a @ bt_leaves s @ ?lv b) @ r"
    "list_all (\<lambda>(p, a, x, b). a = []) zs \<longrightarrow> l = []" "list_all (\<lambda>(p, a, x, b). b = []) zs \<longrightarrow> r = []"
    unfolding lv by blast
  then have "bt_leaves (plug (z # zs) s) = (l @ ?lv a) @ bt_leaves s @ (?lv b @ r)"
    "list_all (\<lambda>(p, a, x, b). a = []) (z # zs) \<longrightarrow> l @ ?lv a = []" "list_all (\<lambda>(p, a, x, b). b = []) (z # zs) \<longrightarrow> ?lv b @ r = []"
    using z by simp_all
  then show ?case by blast
qed simp

lemma tree_leaf:
  "tree_at N lmax imax c par T \<Longrightarrow> (q, es) \<in> set (bt_leaves T) \<Longrightarrow>
    q \<in> set (bt_ids T) \<and> (\<exists>par. tree_at N lmax imax c par (BLeaf q es))"
proof (induction T arbitrary: par)
  case (BNode p ts)
  then obtain k t where t: "(k, t) \<in> set ts" "(q, es) \<in> set (bt_leaves t)" by auto
  then have "tree_at N lmax imax c p t" using BNode.prems(1) by fastforce
  from BNode.IH[OF t(1) _ this t(2)] t(1) show ?case by (force simp: snds.simps)
qed auto

lemma leaves_ids: "set (map fst (bt_leaves T)) \<subseteq> set (bt_ids T)"
proof (induction T)
  case (BNode p ts)
  show ?case
  proof
    fix q assume "q \<in> set (map fst (bt_leaves (BNode p ts)))"
    then obtain k t where t: "(k, t) \<in> set ts" "q \<in> set (map fst (bt_leaves t))" by auto
    then have "q \<in> set (bt_ids t)" using BNode.IH[of "(k, t)" t] by auto
    then show "q \<in> set (bt_ids (BNode p ts))" using t(1) by force
  qed
qed simp

lemma distinct_leaves: "distinct (bt_ids T) \<Longrightarrow> distinct (map fst (bt_leaves T))"
proof (induction T)
  case (BNode p ts)
  have "distinct (concat (map (\<lambda>(k, t). map fst (bt_leaves t)) ts))"
    if "distinct (concat (map (\<lambda>(k, t). bt_ids t) ts))" "\<forall>x\<in>set ts. distinct (bt_ids (snd x)) \<longrightarrow> distinct (map fst (bt_leaves (snd x)))"
    using that
  proof (induction ts)
    case (Cons x ts)
    obtain k t where x: "x = (k, t)" by (cases x)
    have "set (concat (map (\<lambda>(k, t). map fst (bt_leaves t)) ts)) \<subseteq> set (concat (map (\<lambda>(k, t). bt_ids t) ts))"
      using leaves_ids by fastforce
    moreover have "set (map fst (bt_leaves t)) \<subseteq> set (bt_ids t)" by (rule leaves_ids)
    moreover have "distinct (concat (map (\<lambda>(k, t). map fst (bt_leaves t)) ts))" "distinct (map fst (bt_leaves t))"
      "set (bt_ids t) \<inter> set (concat (map (\<lambda>(k, t). bt_ids t) ts)) = {}" using Cons x by auto
    ultimately have "distinct (map fst (bt_leaves t) @ concat (map (\<lambda>(k, t). map fst (bt_leaves t)) ts))"
      unfolding distinct_append by blast
    then show ?case using x by simp
  qed simp
  moreover have "map fst (bt_leaves (BNode p ts)) = concat (map (\<lambda>(k, t). map fst (bt_leaves t)) ts)"
    by (simp add: map_concat comp_def case_prod_unfold)
  ultimately show ?case using BNode by (auto simp: snds.simps simp del: bt_leaves.simps)
qed simp

lemma linked_at: "linked c (l @ q # r) z \<Longrightarrow> next_leaf (c q) = (case r of [] \<Rightarrow> z | q' # _ \<Rightarrow> q')"
  by (induction l) auto

text \<open>An iterator at the \<open>i\<close>-th element of the tree.\<close>

definition iter_at :: "(int \<Rightarrow> byte list) \<Rightarrow> (int \<Rightarrow> int) \<Rightarrow> int \<Rightarrow> nat \<Rightarrow> bt \<Rightarrow> nat \<Rightarrow> index_iterator \<Rightarrow> bpm \<Rightarrow> bool" where
  "iter_at c P n k T i it b \<longleftrightarrow> (\<exists>l q es r f j. bt_leaves T = l @ (q, es) # r \<and> it = \<lparr>it_page = Some f, it_index = int j\<rparr> \<and>
     i = length (concat (map snd l)) + j \<and> (j < length es \<or> r = [] \<and> j = length es) \<and>
     pool_view {} c (P(q := P q + 1)) n k b \<and> held b q f)"

lemma Begin_ok:
  assumes at: "index_at N c n T t" and l: "root_page_id_latch t = Unlocked" and v: "pool_view {} c P n k b" and f: "free_frames P k 2"
  shows "\<exists>it b'. Begin N cmp t b = Some (Inr (it, t, b')) \<and> iter_at c P n k T 0 it b'"
proof -
  let ?t = "t\<lparr>root_page_id_latch := Shared 1\<rparr>"
  let ?Q = "\<lambda>zs s. plug zs s = T \<and> list_all (\<lambda>(p, a, x, b). a = []) zs"
  have at': "index_at N c n T ?t" using at by (simp add: index_at_def)
  have step: "\<exists>a x s b. ts = a @ (x, s) # b \<and> child_of N cmp key True False (load_internal N (c p)) = Inr (bt_id s) \<and>
      plug ((p, a, x, b) # zs) s = T \<and> list_all (\<lambda>(p, a, x, b). a = []) ((p, a, x, b) # zs)"
    if q: "plug zs (BNode p ts) = T \<and> list_all (\<lambda>(p, a, x, b). a = []) zs"
      "tree_at N (leaf_max_size ?t) (internal_max_size ?t) c (zip_parent zs) (BNode p ts)" for zs p ts key
  proof -
    have h: "internal_holds (load_internal N (c p)) (heads ts)" and ne: "ts \<noteq> []" using q(2) by (simp_all add: internal_page_def)
    then obtain x s b where ts: "ts = (x, s) # b" by (cases ts) auto
    have "ValueAt 0 (load_internal N (c p)) = Inr (bt_id s)" using ValueAt_ok[OF h, of 0] ts by simp
    then show ?thesis using q(1) ts by (intro exI[of _ "[]"] exI[of _ x] exI[of _ s] exI[of _ b]) (simp add: child_of_def)
  qed
  from FindLeaf_search[where Q = ?Q and key = "replicate N 0", OF at' _ v f _ _ step] obtain zs q es g b1 where
    g: "FindLeaf N cmp (replicate N 0) SEARCH True False ?t b = Some (Inr (g, ?t\<lparr>root_page_id_latch := Unlocked\<rparr>, b1))"
      "plug zs (BLeaf q es) = T" "list_all (\<lambda>(p, a, x, b). a = []) zs"
      "tree_at N (leaf_max_size ?t) (internal_max_size ?t) c (zip_parent zs) (BLeaf q es)"
      "pool_view {} c (P(q := P q + 1)) n k b1" "held b1 q g" by (auto simp del: fun_upd_apply tree_at.simps)
  from plug_leaves[of zs "BLeaf q es"] g(2,3) obtain r where "bt_leaves T = (q, es) # r" by auto
  moreover have "es \<noteq> []" using g(4) by simp
  ultimately have "iter_at c P n k T 0 \<lparr>it_page = Some g, it_index = 0\<rparr> b1" unfolding iter_at_def using g(5,6)
    by (intro exI[of _ "[]"] exI[of _ q] exI[of _ es] exI[of _ r] exI[of _ g] exI[of _ 0]) simp
  moreover have "?t\<lparr>root_page_id_latch := Unlocked\<rparr> = t" using l by simp
  ultimately show ?thesis using g(1) l index_at_root[OF at] by (auto simp: Begin_def with_latch_def INVALID_PAGE_ID_def)
qed

lemma End_ok:
  assumes at: "index_at N c n T t" and l: "root_page_id_latch t = Unlocked" and v: "pool_view {} c P n k b" and f: "free_frames P k 2"
  shows "\<exists>it b'. End N cmp t b = Some (Inr (it, t, b')) \<and> iter_at c P n k T (length (bt_items T)) it b' \<and> keeps P b b'"
proof -
  let ?t = "t\<lparr>root_page_id_latch := Shared 1\<rparr>"
  let ?Q = "\<lambda>zs s. plug zs s = T \<and> list_all (\<lambda>(p, a, x, b). b = []) zs"
  have at': "index_at N c n T ?t" using at by (simp add: index_at_def)
  have step: "\<exists>a x s b. ts = a @ (x, s) # b \<and> child_of N cmp key False True (load_internal N (c p)) = Inr (bt_id s) \<and>
      plug ((p, a, x, b) # zs) s = T \<and> list_all (\<lambda>(p, a, x, b). b = []) ((p, a, x, b) # zs)"
    if q: "plug zs (BNode p ts) = T \<and> list_all (\<lambda>(p, a, x, b). b = []) zs"
      "tree_at N (leaf_max_size ?t) (internal_max_size ?t) c (zip_parent zs) (BNode p ts)" for zs p ts key
  proof -
    have h: "internal_holds (load_internal N (c p)) (heads ts)" and ne: "ts \<noteq> []" using q(2) by (simp_all add: internal_page_def)
    then obtain x s a where ts: "ts = a @ [(x, s)]" by (cases ts rule: rev_cases) auto
    have "cur_size (load_internal N (c p)) - 1 = int (length a)" using h ts by (simp add: internal_holds_def arr_holds_def)
    then have "ValueAt (cur_size (load_internal N (c p)) - 1) (load_internal N (c p)) = Inr (bt_id s)"
      using ValueAt_ok[OF h, of "length a"] ts by (simp add: heads_def nth_append)
    then show ?thesis using q(1) ts by (intro exI[of _ a] exI[of _ x] exI[of _ s] exI[of _ "[]"]) (simp add: child_of_def)
  qed
  from FindLeaf_search[where Q = ?Q and key = "replicate N 0", OF at' _ v f _ _ step] obtain zs q es g b1 where
    g: "FindLeaf N cmp (replicate N 0) SEARCH False True ?t b = Some (Inr (g, ?t\<lparr>root_page_id_latch := Unlocked\<rparr>, b1))"
      "plug zs (BLeaf q es) = T" "list_all (\<lambda>(p, a, x, b). b = []) zs"
      "tree_at N (leaf_max_size ?t) (internal_max_size ?t) c (zip_parent zs) (BLeaf q es)"
      "pool_view {} c (P(q := P q + 1)) n k b1" "held b1 q g" "keeps P b b1" by (auto simp del: fun_upd_apply tree_at.simps)
  from plug_leaves[of zs "BLeaf q es"] g(2,3) obtain a where a: "bt_leaves T = a @ [(q, es)]" by auto
  have size: "cur_size (frame_leaf N g b1) = int (length es)"
    using leaf_frame(1)[OF g(4-6)] by (simp add: leaf_holds_def arr_holds_def)
  have "iter_at c P n k T (length (bt_items T)) \<lparr>it_page = Some g, it_index = int (length es)\<rparr> b1" unfolding iter_at_def using g(5,6) a
    by (intro exI[of _ a] exI[of _ q] exI[of _ es] exI[of _ "[]"] exI[of _ g] exI[of _ "length es"]) (simp add: bt_items_leaves)
  moreover have "?t\<lparr>root_page_id_latch := Unlocked\<rparr> = t" using l by simp
  ultimately show ?thesis using g(1,7) l size index_at_root[OF at] by (auto simp: End_def with_latch_def INVALID_PAGE_ID_def)
qed

text \<open>The element at an iterator.\<close>

lemma iter_leaf:
  assumes at: "index_at N c n T t" and L: "bt_leaves T = l @ (q, es) # r" and v: "pool_view D c P' n k b" and h: "held b q f"
  shows "leaf_holds (frame_leaf N f b) es" and "es \<noteq> []" and "node_page_id (frame_node f b) = q" and "0 < q" and "q < n"
    and "next_leaf_id (frame_leaf N f b) = (case r of [] \<Rightarrow> INVALID_PAGE_ID | x # _ \<Rightarrow> fst x)"
proof -
  from tree_leaf[of N "leaf_max_size t" "internal_max_size t" c INVALID_PAGE_ID T q es] at L obtain par where
    p: "q \<in> set (bt_ids T)" "tree_at N (leaf_max_size t) (internal_max_size t) c par (BLeaf q es)" by (auto simp: index_at_def)
  show "leaf_holds (frame_leaf N f b) es" "node_page_id (frame_node f b) = q" using leaf_frame[OF p(2) v h] by simp_all
  show "es \<noteq> []" using p(2) by simp
  show "0 < q" "q < n" using at p(1) by (auto simp: index_at_def list_all_iff)
  have "linked c (map fst (bt_leaves T)) INVALID_PAGE_ID" using at by (simp add: index_at_def)
  then show "next_leaf_id (frame_leaf N f b) = (case r of [] \<Rightarrow> INVALID_PAGE_ID | x # _ \<Rightarrow> fst x)"
    using leaf_frame(2)[OF p(2) v h] linked_at[of c "map fst l" q "map fst r"] L by (auto split: list.split)
qed

lemma iter_item_ok:
  assumes at: "index_at N c n T t" and it: "iter_at c P n k T i it b" and i: "i < length (bt_items T)"
  shows "iter_item N it b = Inr (bt_items T ! i)"
proof -
  from it obtain l q es r f j where d: "bt_leaves T = l @ (q, es) # r" "it = \<lparr>it_page = Some f, it_index = int j\<rparr>"
    "i = length (concat (map snd l)) + j" "j < length es \<or> r = [] \<and> j = length es"
    "pool_view {} c (P(q := P q + 1)) n k b" "held b q f" unfolding iter_at_def by blast
  have j: "j < length es" using d(1,3,4) i by (auto simp: bt_items_leaves)
  have "bt_items T ! i = es ! j" using d(1,3) j by (simp add: bt_items_leaves nth_append)
  moreover have "GetItem (int j) (frame_leaf N f b) = Inr (es ! j)"
    using iter_leaf(1)[OF at d(1,5,6)] j arr_get by (simp add: leaf_holds_def GetItem_def)
  ultimately show ?thesis using d(2) by (simp add: iter_item_def iter_page_def)
qed

lemma iter_next_ok:
  assumes at: "index_at N c n T t" and it: "iter_at c P n k T i it b" and i: "i < length (bt_items T)" and f: "free_frames P k 2"
  shows "\<exists>it' b'. iter_next N it b = Inr (it', b') \<and> iter_at c P n k T (Suc i) it' b'"
proof -
  from it obtain l q es r f j where d: "bt_leaves T = l @ (q, es) # r" "it = \<lparr>it_page = Some f, it_index = int j\<rparr>"
    "i = length (concat (map snd l)) + j" "j < length es \<or> r = [] \<and> j = length es"
    "pool_view {} c (P(q := P q + 1)) n k b" "held b q f" unfolding iter_at_def by blast
  note leaf = iter_leaf[OF at d(1,5,6)]
  have j: "j < length es" using d(1,3,4) i by (auto simp: bt_items_leaves)
  have size: "cur_size (frame_leaf N f b) = int (length es)" using leaf(1) by (simp add: leaf_holds_def arr_holds_def)
  show ?thesis
  proof (cases "Suc j = length es \<and> r \<noteq> []")
    case True
    then obtain q' es' r' where r: "r = (q', es') # r'" by (cases r) auto
    have L: "bt_leaves T = (l @ [(q, es)]) @ (q', es') # r'" using d(1) r by simp
    let ?P = "P(q := P q + 1)"
    from tree_leaf[of N "leaf_max_size t" "internal_max_size t" c INVALID_PAGE_ID T q' es'] at L have
      q': "q' \<in> set (bt_ids T)" and es': "es' \<noteq> []" by (auto simp: index_at_def)
    then have range: "0 < q'" "q' < n" using at by (auto simp: index_at_def list_all_iff)
    have ff: "free_frames ?P k (Suc 0)" using f free_frames_pin[of P k 1 q] by (simp add: numeral_2_eq_2)
    from fetch_view[OF d(5) _ range(2) ff] range(1) obtain g b1 where
      g: "fetch q' b = Inr (g, b1)" "pool_view {} c (?P(q' := ?P q' + 1)) n k b1" "held b1 q' g" "keeps_held b b1" by auto
    have pos: "0 < (?P(q' := ?P q' + 1)) q" using free_frames_pos[OF f, of q] by (cases "q = q'") simp_all
    have h1: "held b1 q f" by (rule keeps_view[OF g(4) d(6) g(2) pos])
    from unpin_view[OF g(2) pos, of False] obtain b2 where b2: "unpin q False b1 = Inr b2"
      "pool_view {} c ((?P(q' := ?P q' + 1))(q := (?P(q' := ?P q' + 1)) q - 1)) n k b2" "resident b2 = resident b1" by (auto simp del: fun_upd_apply)
    have "(?P(q' := ?P q' + 1))(q := (?P(q' := ?P q' + 1)) q - 1) = P(q' := P q' + 1)" by (auto simp: fun_eq_iff)
    then have v2: "pool_view {} c (P(q' := P q' + 1)) n k b2" using b2(2) by simp
    have h2: "held b2 q' g" using held_resident[OF g(3) b2(3) v2] free_frames_pos[OF f, of q'] by simp
    have "iter_at c P n k T (Suc i) \<lparr>it_page = Some g, it_index = 0\<rparr> b2" unfolding iter_at_def using v2 h2 L es' d(3) True
      by (intro exI[of _ "l @ [(q, es)]"] exI[of _ q'] exI[of _ es'] exI[of _ r'] exI[of _ g] exI[of _ 0]) simp
    moreover have "iter_next N it b = Inr (\<lparr>it_page = Some g, it_index = 0\<rparr>, b2)"
      using True d(2) size leaf(6) r range(1) g(1) b2(1) view_id[OF g(2) h1]
      by (simp add: iter_next_def iter_page_def INVALID_PAGE_ID_def)
    ultimately show ?thesis by blast
  next
    case False
    have "iter_at c P n k T (Suc i) \<lparr>it_page = Some f, it_index = int (Suc j)\<rparr> b" unfolding iter_at_def using d False j
      by (intro exI[of _ l] exI[of _ q] exI[of _ es] exI[of _ r] exI[of _ f] exI[of _ "Suc j"]) auto
    moreover have "r \<noteq> [] \<longrightarrow> int j \<noteq> cur_size (frame_leaf N f b) - 1" using False size by auto
    then have "iter_next N it b = Inr (\<lparr>it_page = Some f, it_index = int (Suc j)\<rparr>, b)"
      using d(2) leaf(6) by (auto simp: iter_next_def iter_page_def split: list.splits)
    ultimately show ?thesis by blast
  qed
qed

text \<open>An iterator that is destroyed gives its page back.\<close>

lemma iter_destroy_ok:
  assumes "iter_at c P n k T i it b" and f: "free_frames P k m"
  shows "\<exists>b'. iter_destroy it b = Inr b' \<and> pool_view {} c P n k b' \<and> resident b' = resident b"
proof -
  from assms obtain q f j where d: "it = \<lparr>it_page = Some f, it_index = int j\<rparr>"
    "pool_view {} c (P(q := P q + 1)) n k b" "held b q f" unfolding iter_at_def by blast
  have "0 < (P(q := P q + 1)) q" using free_frames_pos[OF f, of q] by simp
  from unpin_view[OF d(2) this, of False] obtain b' where b': "unpin q False b = Inr b'"
    "pool_view {} c ((P(q := P q + 1))(q := (P(q := P q + 1)) q - 1)) n k b'" "resident b' = resident b" by (auto simp del: fun_upd_apply)
  have "(P(q := P q + 1))(q := (P(q := P q + 1)) q - 1) = P" by (simp add: fun_eq_iff)
  then show ?thesis using b' d(1) view_id[OF d(2,3)] by (simp add: iter_destroy_def)
qed

text \<open>Two iterators are equal when they are at the same element.\<close>

lemma leaf_place:
  assumes "distinct (map fst L)" "L = l @ (q, es) # r" "L = l' @ (q, es') # r'"
  shows "l = l' \<and> es = es' \<and> r = r'"
  using assms
proof (induction l arbitrary: l' L)
  case Nil
  then show ?case by (cases l') auto
next
  case (Cons x l)
  then show ?case by (cases l') auto
qed

lemma place_index:
  assumes L: "L = l @ (q, es) # r" "L = l' @ (q', es') # r'" and "distinct (map fst L)"
    and j: "j < length es \<or> r = [] \<and> j = length es" "j' < length es' \<or> r' = [] \<and> j' = length es'"
    and ne: "list_all (\<lambda>x. snd x \<noteq> []) L"
  shows "q = q' \<and> j = j' \<longleftrightarrow> length (concat (map snd l)) + j = length (concat (map snd l')) + j'"
proof (cases "q = q'")
  case True
  then show ?thesis using leaf_place[of L l q es r l' es' r'] assms by auto
next
  case False
  have "length (concat (map snd l)) + j \<noteq> length (concat (map snd l')) + j'"
    if "l' = l @ (q, es) # m" "r = m @ (q', es') # r'"
      "j < length es \<or> r = [] \<and> j = length es" for l l' :: "('a \<times> 'b list) list" and q q' es es' m r r' j j'
    using that by auto
  note lt = this
  from L consider m where "l' = l @ (q, es) # m" "r = m @ (q', es') # r'" | m where "l = l' @ (q', es') # m" "r' = m @ (q, es) # r" | "l = l'"
    by (auto simp: append_eq_append_conv2 append_eq_Cons_conv Cons_eq_append_conv)
  then show ?thesis
  proof cases
    case 3
    then show ?thesis using L False by simp
  qed (use lt[of l' l q es _ r q' es' r' j j'] lt[of l l' q' es' _ r' q es r j' j] False j in \<open>auto 0 3\<close>)
qed

end
