(* ===== verification/Index_Laws.thy ===== *)
theory Index_Laws
  imports Index_Scan B_Plus_Search Type_Laws
begin

text \<open>
  Indexes of one integer column: the comparator orders the keys by their numbers, NULL excepted,
  so the laws of the B+ tree hold; the index scan visits the rows in the order of their keys.
\<close>

section \<open>Integer keys\<close>

definition int_column :: "string \<Rightarrow> Column" where
  "int_column name = \<lparr>column_name = name, column_type = INTEGER, fixed_length = 4, variable_length = 0, column_offset = 0\<rparr>"

definition int_schema :: "string \<Rightarrow> Schema" where
  "int_schema name = new_Schema [int_column name]"

lemma columns_int_schema [simp]: "columns (int_schema name) = [int_column name]"
  by (simp add: int_schema_def new_Schema_def int_column_def Column_IsInlined_def)

definition int_keys :: "key set" where
  "int_keys = {k. length k = 4 \<and> number_of INTEGER (get_int k)}"

abbreviation int_rank :: "key \<Rightarrow> int" where
  "int_rank \<equiv> get_int"

lemma ToValue_int:
  fixes F :: "'d float_ops"
  assumes "k \<in> int_keys"
  shows "ToValue F (int_schema name) 0 k = Inr (int_value INTEGER (get_int k))"
proof -
  have "(Integer_DeserializeFrom k :: 'd Value result) = Inr (store_int INTEGER (int_width INTEGER) (get_int k))"
    using assms by (simp add: Integer_DeserializeFrom_def get_at_def int_keys_def)
  then show ?thesis using assms store_number[of INTEGER "get_int k"]
    by (simp add: ToValue_def GetColumnCount_def read_column_def GetDataPtr_def int_column_def Column_IsInlined_def readable_def TypeSize_def
        Value_DeserializeFrom_def int_keys_def is_int_type_def)
qed

lemma GenericComparator_int:
  assumes "a \<in> int_keys" "b \<in> int_keys"
  shows "GenericComparator F (int_schema name) a b =
    Inr (if get_int a < get_int b then - 1 else if get_int b < get_int a then 1 else 0)"
proof -
  have "Value_CompareLessThan F (int_value INTEGER (get_int a)) (int_value INTEGER (get_int b)) = Inr (GetCmpBool (get_int a < get_int b))"
    "Value_CompareGreaterThan F (int_value INTEGER (get_int a)) (int_value INTEGER (get_int b)) = Inr (GetCmpBool (get_int b < get_int a))"
    using compare_int_values[of INTEGER INTEGER F OpLt "get_int a" "get_int b"] compare_int_values[of INTEGER INTEGER F OpGt "get_int a" "get_int b"]
    by (simp_all add: is_int_type_def)
  then show ?thesis
    by (simp add: GenericComparator_def GetColumnCount_def ToValue_int assms GetCmpBool_def)
qed

interpretation int_key: key_order "comparator_of (GenericComparator F (int_schema name))" int_keys int_rank
  by unfold_locales (simp_all add: comparator_of_def GenericComparator_int)

text \<open>The key of a number, and the key that \<open>SetFromKey\<close> takes from a tuple of one integer.\<close>

lemma int_key_of:
  assumes "number_of INTEGER i"
  shows "put_int 4 i \<in> int_keys" and "get_int (put_int 4 i) = i"
proof -
  have "in_range (8 * 4) i" using assms by (auto simp: number_of_def in_range_def)
  then show "get_int (put_int 4 i) = i" by (intro get_int_put_int) simp_all
  then show "put_int 4 i \<in> int_keys" using assms by (simp add: int_keys_def)
qed

text \<open>NULL compares as equal to every number.\<close>

lemma ToValue_null:
  assumes "length k = 4" "get_int k = - (2 ^ 31)"
  shows "ToValue F (int_schema name) 0 k = Inr (null_int INTEGER)"
  using assms by (simp add: ToValue_def GetColumnCount_def read_column_def GetDataPtr_def int_column_def Column_IsInlined_def readable_def
      TypeSize_def Value_DeserializeFrom_def Integer_DeserializeFrom_def get_at_def null_int_def store_int_def int_null_def swrap_def)

lemma GenericComparator_null:
  assumes "length k = 4" "get_int k = - (2 ^ 31)" and "k' \<in> int_keys"
  shows "GenericComparator F (int_schema name) k k' = Inr 0"
proof -
  have "Value_CompareLessThan F (null_int INTEGER) (int_value INTEGER (get_int k')) = Inr CmpNull"
    "Value_CompareGreaterThan F (null_int INTEGER) (int_value INTEGER (get_int k')) = Inr CmpNull"
    using compare_null[of "null_int INTEGER" "int_value INTEGER (get_int k')" F OpLt]
      compare_null[of "null_int INTEGER" "int_value INTEGER (get_int k')" F OpGt]
    by (simp_all add: is_int_type_def null_int_def int_value_def IsNull_def)
  then show ?thesis
    by (simp add: GenericComparator_def GetColumnCount_def ToValue_int ToValue_null assms)
qed

section \<open>The index scan\<close>

text \<open>The comparison with the end of the index.\<close>

lemma at_end_ok:
  assumes at: "index_at N c n T t" and l: "root_page_id_latch t = Unlocked" and it: "iter_at c P n k T i it b" and f: "free_frames P k 3"
  shows "\<exists>b'. at_end N cmp it t b = Some (Inr (i = length (bt_items T), t, b')) \<and> iter_at c P n k T i it b'"
proof -
  from it obtain l q es r f j where d: "bt_leaves T = l @ (q, es) # r" "it = \<lparr>it_page = Some f, it_index = int j\<rparr>"
    "i = length (concat (map snd l)) + j" "j < length es \<or> r = [] \<and> j = length es"
    "pool_view {} c (P(q := P q + 1)) n k b" "held b q f" unfolding iter_at_def by blast
  let ?P = "P(q := P q + 1)"
  have ff: "free_frames ?P k 2" using assms(4) free_frames_pin[of P k 2 q] by (simp add: numeral_3_eq_3 numeral_2_eq_2)
  have pos: "0 < ?P q" using free_frames_pos[OF assms(4), of q] by simp
  from End_ok[OF at assms(2) d(5) ff] obtain e b1 where
    e: "End N cmp t b = Some (Inr (e, t, b1))" "iter_at c ?P n k T (length (bt_items T)) e b1" "keeps ?P b b1" by blast
  then obtain l' q' es' r' f' j' where d': "bt_leaves T = l' @ (q', es') # r'" "e = \<lparr>it_page = Some f', it_index = int j'\<rparr>"
    "length (bt_items T) = length (concat (map snd l')) + j'" "j' < length es' \<or> r' = [] \<and> j' = length es'"
    "pool_view {} c (?P(q' := ?P q' + 1)) n k b1" "held b1 q' f'" unfolding iter_at_def by blast
  have pos': "0 < (?P(q' := ?P q' + 1)) q" using pos by (cases "q = q'") simp_all
  have h: "held b1 q f" by (rule keeps_heldI[OF e(3) d(6) pos d'(5) pos'])
  have ids: "node_page_id (frame_node f b1) = q" "node_page_id (frame_node f' b1) = q'"
    using iter_leaf(3)[OF at d(1) d'(5) h] iter_leaf(3)[OF at d'(1,5,6)] by simp_all
  have ne: "list_all (\<lambda>x. snd x \<noteq> []) (bt_leaves T)"
    using tree_leaf[of N "leaf_max_size t" "internal_max_size t" c INVALID_PAGE_ID T] at
    by (fastforce simp: index_at_def list_all_iff)
  have "distinct (map fst (bt_leaves T))" using at distinct_leaves by (simp add: index_at_def)
  from place_index[OF d(1) d'(1) this d(4) d'(4) ne] have
    "index_iter_eq N it e b1 = Inr (i = length (bt_items T))" using d(2,3) d'(2,3) ids by (simp add: index_iter_eq_def iter_page_def)
  moreover from iter_destroy_ok[OF e(2) ff] obtain b2 where b2: "iter_destroy e b1 = Inr b2" "pool_view {} c ?P n k b2" "resident b2 = resident b1" by blast
  moreover have "held b2 q f" by (rule held_resident[OF h b2(3,2) pos])
  then have "iter_at c P n k T i it b2" unfolding iter_at_def using d(1-4) b2(2) by blast
  ultimately show ?thesis using e(1) by (simp add: at_end_def)
qed

text \<open>A record id of a live row.\<close>

definition row_at :: "(int \<Rightarrow> byte list) \<Rightarrow> int \<Rightarrow> RID \<Rightarrow> bool" where
  "row_at c n rid \<longleftrightarrow> 0 \<le> rid_page rid \<and> rid_page rid < n \<and> table_page_inv (c (rid_page rid)) \<and>
     rid_slot rid < GetTupleCount (c (rid_page rid)) \<and> is_live (slots (c (rid_page rid)) ! rid_slot rid)"

lemma GetTuple_row:
  assumes v: "pool_view {} c P n k b" and f: "free_frames P k (Suc m)" and r: "row_at c n rid"
  shows "\<exists>b'. TableHeap_GetTuple rid t b = Inr (True, rid_tuple c rid, b') \<and> pool_view {} c P n k b' \<and> keeps_held b b'"
proof -
  obtain bs where bs: "slots (c (rid_page rid)) ! rid_slot rid = Live bs"
    using r by (auto simp: row_at_def is_live_def split: slot.splits)
  have "0 \<le> P (rid_page rid)" "P (rid_page rid) < 2 ^ 31 - 1" "room P k"
    using free_frames_pos[OF f] free_frames_lim[OF f] by blast+
  from view_GetTuple[OF v _ _ this _ _ bs] r bs show ?thesis by (simp add: row_at_def rid_tuple_def)
qed

lemma iter_at_keeps:
  assumes it: "iter_at c P n k T i it b" and f: "free_frames P k m" and k: "keeps_held b b'"
    and v: "\<And>q. pool_view {} c (P(q := P q + 1)) n k b \<Longrightarrow> pool_view {} c (P(q := P q + 1)) n k b'"
  shows "iter_at c P n k T i it b'"
proof -
  from it obtain l q es r f j where d: "bt_leaves T = l @ (q, es) # r" "it = \<lparr>it_page = Some f, it_index = int j\<rparr>"
    "i = length (concat (map snd l)) + j" "j < length es \<or> r = [] \<and> j = length es"
    "pool_view {} c (P(q := P q + 1)) n k b" "held b q f" unfolding iter_at_def by blast
  have "0 < (P(q := P q + 1)) q" using free_frames_pos[OF f, of q] by simp
  then have "held b' q f" by (rule keeps_view[OF k d(6) v[OF d(5)]])
  then show ?thesis unfolding iter_at_def using d(1-4) v[OF d(5)] by blast
qed

lemma iter_at_view: "iter_at c P n k T i it b \<Longrightarrow> \<exists>q. pool_view {} c (P(q := P q + 1)) n k b"
  unfolding iter_at_def by blast

lemma IndexScan_poll_ok:
  assumes at: "index_at 4 c n T (container ix)" and l: "root_page_id_latch (container ix) = Unlocked"
    and f: "free_frames P k 3" and rows: "\<forall>e\<in>set (bt_items T). row_at c n (snd e)"
  shows "i \<le> length (bt_items T) \<Longrightarrow> is_index s = ix \<Longrightarrow> iter_at c P n k T i (is_iter s) b \<Longrightarrow>
    \<exists>s' b'. IndexScan_poll F None s tuple rid acc b = Some (Inr (acc @ map (\<lambda>e. rid_tuple c (snd e)) (drop i (bt_items T)), s', b')) \<and>
      is_index s' = ix \<and> iter_at c P n k T (length (bt_items T)) (is_iter s') b'"
proof (induction "length (bt_items T) - i" arbitrary: i s tuple rid acc b)
  case 0
  then have i: "i = length (bt_items T)" by simp
  from at_end_ok[OF at l 0(4) f] i 0(3) obtain b' where "at_end 4 (ix_comparator F (is_index s)) (is_iter s) (container (is_index s)) b =
      Some (Inr (True, container (is_index s), b'))" "iter_at c P n k T i (is_iter s) b'" by auto
  then show ?case using i 0(3) by (subst IndexScan_poll.simps) (simp add: IndexScan_Next_def)
next
  case (Suc m)
  then have i: "i < length (bt_items T)" by simp
  let ?e = "bt_items T ! i"
  from at_end_ok[OF at l Suc.prems(3) f] i Suc.prems(2) obtain b1 where b1:
    "at_end 4 (ix_comparator F (is_index s)) (is_iter s) (container (is_index s)) b = Some (Inr (False, container (is_index s), b1))"
    "iter_at c P n k T i (is_iter s) b1" by auto
  have item: "iter_item 4 (is_iter s) b1 = Inr ?e" by (rule iter_item_ok[OF at b1(2) i])
  have row: "row_at c n (snd ?e)" using rows i by simp
  obtain q where q: "pool_view {} c (P(q := P q + 1)) n k b1" using iter_at_view[OF b1(2)] by blast
  have ff: "free_frames (P(q := P q + 1)) k (Suc 1)" for q using f free_frames_pin[of P k 2 q] by (simp add: numeral_3_eq_3 numeral_2_eq_2)
  from GetTuple_row[OF q ff row, of tuple] obtain b2 where b2: "TableHeap_GetTuple (snd ?e) tuple b1 = Inr (True, rid_tuple c (snd ?e), b2)"
    "pool_view {} c (P(q := P q + 1)) n k b2" "keeps_held b1 b2" by blast
  have "pool_view {} c (P(q' := P q' + 1)) n k b2" if "pool_view {} c (P(q' := P q' + 1)) n k b1" for q'
    using that q b2(2) by (simp add: pool_view_def)
  then have it2: "iter_at c P n k T i (is_iter s) b2" by (rule iter_at_keeps[OF b1(2) f b2(3)])
  from iter_next_ok[OF at it2 i free_frames_less[OF f]] obtain it3 b3 where b3: "iter_next 4 (is_iter s) b2 = Inr (it3, b3)"
    "iter_at c P n k T (Suc i) it3 b3" by auto
  let ?s = "s\<lparr>is_iter := it3\<rparr>"
  have "is_index s\<lparr>container := container (is_index s)\<rparr> = is_index s" "s\<lparr>is_index := is_index s\<rparr> = s" by simp_all
  then have "IndexScan_Next F None s tuple rid b = Some (Inr (Some (rid_tuple c (snd ?e)), ?s, snd ?e, b3))"
    using b1(1) item b2(1) b3(1) by (simp add: IndexScan_Next_def case_prod_beta)
  note step = this
  have "m = length (bt_items T) - Suc i" using Suc.hyps(2) by simp
  moreover have "iter_at c P n k T (Suc i) (is_iter ?s) b3" "is_index ?s = ix" "Suc i \<le> length (bt_items T)"
    using b3(2) Suc.prems(2) i by simp_all
  ultimately obtain s' b' where "IndexScan_poll F None ?s (rid_tuple c (snd ?e)) (snd ?e) (acc @ [rid_tuple c (snd ?e)]) b3 =
      Some (Inr ((acc @ [rid_tuple c (snd ?e)]) @ map (\<lambda>e. rid_tuple c (snd e)) (drop (Suc i) (bt_items T)), s', b'))"
    "is_index s' = ix" "iter_at c P n k T (length (bt_items T)) (is_iter s') b'" using Suc.hyps(1)[of "Suc i" ?s b3 "rid_tuple c (snd ?e)" "snd ?e" "acc @ [rid_tuple c (snd ?e)]"] by blast
  moreover have "drop i (bt_items T) = ?e # drop (Suc i) (bt_items T)" using i by (simp add: Cons_nth_drop_Suc)
  ultimately show ?case using step by (subst IndexScan_poll.simps) simp
qed

end
