(* ===== verification/B_Plus_Write.thy ===== *)
theory B_Plus_Write
  imports B_Plus_Search
begin

text \<open>
  Writing the pages of a B+ tree: what a write of a leaf, of an internal page or of a parent pointer
  does to the contents of the pool; the export of the tree after an operation changes nothing.
\<close>

section \<open>Writes through a frame\<close>

lemma view_length: "pool_view D c P n k b \<Longrightarrow> held b p f \<Longrightarrow> length (c p) = BUSTUB_PAGE_SIZE"
  using resident_facts(6)[of "{}" b p f] view_read[of D c P n k b p f]
  by (simp add: pool_view_def held_def page_ok_def frame_data_def frame_def)

lemma held_put: "keeps_held b b' \<Longrightarrow> pool_view D c P n k b \<Longrightarrow> pool_view D' c' P n k b' \<Longrightarrow> held b q g \<Longrightarrow> held b' q g"
  using keeps_heldD by (auto simp: pool_view_def held_def)

lemma pin_more: "0 < P q \<Longrightarrow> 0 < (P(p := P p + 1)) q" for P :: "int \<Rightarrow> int"
  by (cases "q = p") simp_all

lemma pin_again: "(P(p := P p + 1))(p := (P(p := P p + 1)) p - 1) = P" for P :: "int \<Rightarrow> int"
  by (simp add: fun_eq_iff)

lemma put_leaf_ok:
  assumes v: "pool_view D c P n k b" and h: "held b p f" and l: "leaf_fits N BUSTUB_PAGE_SIZE l"
  shows "pool_view (insert p D) (c(p := store_leaf l (c p))) P n k (put_leaf f l b)" and "keeps_held b (put_leaf f l b)"
    and "load_leaf N (store_leaf l (c p)) = l" and "length (store_leaf l (c p)) = BUSTUB_PAGE_SIZE"
proof -
  have len: "length (c p) = BUSTUB_PAGE_SIZE" by (rule view_length[OF v h])
  then have "28 \<le> length (c p)" by (simp add: BUSTUB_PAGE_SIZE_def)
  from load_store_leaf[OF _ this] l len
  show "load_leaf N (store_leaf l (c p)) = l" and L: "length (store_leaf l (c p)) = BUSTUB_PAGE_SIZE" by simp_all
  from view_put[OF v h L] view_read[OF v h]
  show "pool_view (insert p D) (c(p := store_leaf l (c p))) P n k (put_leaf f l b)" and "keeps_held b (put_leaf f l b)"
    by (simp_all add: put_leaf_def)
qed

lemma put_internal_ok:
  assumes v: "pool_view D c P n k b" and h: "held b p f" and l: "internal_fits N BUSTUB_PAGE_SIZE x"
  shows "pool_view (insert p D) (c(p := store_internal x (c p))) P n k (put_internal f x b)" and "keeps_held b (put_internal f x b)"
    and "load_internal N (store_internal x (c p)) = x" and "length (store_internal x (c p)) = BUSTUB_PAGE_SIZE"
proof -
  have len: "length (c p) = BUSTUB_PAGE_SIZE" by (rule view_length[OF v h])
  then have "24 \<le> length (c p)" by (simp add: BUSTUB_PAGE_SIZE_def)
  from load_store_internal[OF _ this] l len
  show "load_internal N (store_internal x (c p)) = x" and L: "length (store_internal x (c p)) = BUSTUB_PAGE_SIZE" by simp_all
  from view_put[OF v h L] view_read[OF v h]
  show "pool_view (insert p D) (c(p := store_internal x (c p))) P n k (put_internal f x b)" and "keeps_held b (put_internal f x b)"
    by (simp_all add: put_internal_def)
qed

section \<open>Parent pointers\<close>

text \<open>A page with another parent.\<close>

definition with_parent :: "int \<Rightarrow> byte list \<Rightarrow> byte list" where
  "with_parent par data = store_bpage ((load_bpage data)\<lparr>parent_page_id := par\<rparr>) data"

lemma drop_page_set: "off + 4 \<le> m \<Longrightarrow> m \<le> length d \<Longrightarrow> drop m (page_set off x d) = drop m d"
  by (simp add: page_set_def put_at_def)

lemma drop_store_bpage: "24 \<le> length d \<Longrightarrow> drop 24 (store_bpage p d) = drop 24 d"
  by (simp add: store_bpage_def drop_page_set length_set_int)

lemma get_at_drop: "m \<le> off \<Longrightarrow> get_at off w d = get_at (off - m) w (drop m d)"
  by (simp add: get_at_def)

lemma cells_drop: "m \<le> off \<Longrightarrow> drop m d = drop m d' \<Longrightarrow> length d = length d' \<Longrightarrow> cells off w d = cells off w d'"
  unfolding cells_def using get_at_drop[of m] by (simp add: trans_le_add1)

lemma with_parent:
  assumes len: "length d = BUSTUB_PAGE_SIZE" and par: "in_range 32 par"
  shows "load_bpage (with_parent par d) = (load_bpage d)\<lparr>parent_page_id := par\<rparr>" and "length (with_parent par d) = BUSTUB_PAGE_SIZE"
    and "load_leaf N (with_parent par d) = (load_leaf N d)\<lparr>parent_page_id := par\<rparr>"
    and "load_internal N (with_parent par d) = (load_internal N d)\<lparr>parent_page_id := par\<rparr>"
    and "next_leaf (with_parent par d) = next_leaf d"
proof -
  let ?p = "(load_bpage d)\<lparr>parent_page_id := par\<rparr>"
  have fit: "bpage_fits ?p" using par len int_at_range[of _ d] by (simp add: bpage_fits_def load_bpage_def BUSTUB_PAGE_SIZE_def)
  have n: "24 \<le> length d" using len by (simp add: BUSTUB_PAGE_SIZE_def)
  from load_store_bpage[OF fit n] show B: "load_bpage (with_parent par d) = ?p" and L: "length (with_parent par d) = BUSTUB_PAGE_SIZE"
    using len by (simp_all add: with_parent_def bpage.truncate_def load_bpage_def)
  have D: "drop 24 (with_parent par d) = drop 24 d" using drop_store_bpage[OF n] by (simp add: with_parent_def)
  have I: "int_at 24 (with_parent par d) = int_at 24 d"
    using get_at_drop[of 24 24 4 "with_parent par d"] get_at_drop[of 24 24 4 d] D by (simp add: int_at_def)
  then show "next_leaf (with_parent par d) = next_leaf d" by (simp add: next_leaf_def)
  have "cells 28 (N + 8) (with_parent par d) = cells 28 (N + 8) d" "cells 24 (N + 4) (with_parent par d) = cells 24 (N + 4) d"
    using L len by (auto intro: cells_drop[OF _ D])
  then show "load_leaf N (with_parent par d) = (load_leaf N d)\<lparr>parent_page_id := par\<rparr>"
    "load_internal N (with_parent par d) = (load_internal N d)\<lparr>parent_page_id := par\<rparr>"
    using I by (simp_all add: load_leaf_def load_internal_def B LEAF_PAGE_HEADER_SIZE_def INTERNAL_PAGE_HEADER_SIZE_def bpage.extend_def)
qed

lemma with_parent_leaf: "leaf_page N lmax par' p es d \<Longrightarrow> in_range 32 par \<Longrightarrow> leaf_page N lmax par p es (with_parent par d)"
  by (simp add: leaf_page_def with_parent leaf_holds_def)

lemma with_parent_internal: "internal_page N imax par' p es d \<Longrightarrow> in_range 32 par \<Longrightarrow> internal_page N imax par p es (with_parent par d)"
  by (simp add: internal_page_def with_parent internal_holds_def)

lemma put_parent_ok:
  assumes v: "pool_view D c P n k b" and h: "held b p f" and par: "in_range 32 par"
  shows "pool_view (insert p D) (c(p := with_parent par (c p))) P n k (put_node f ((frame_node f b)\<lparr>parent_page_id := par\<rparr>) b)"
    and "keeps_held b (put_node f ((frame_node f b)\<lparr>parent_page_id := par\<rparr>) b)"
proof -
  have "put_node f ((frame_node f b)\<lparr>parent_page_id := par\<rparr>) b = frame_put f (with_parent par (c p)) b"
    by (simp add: put_node_def frame_node_def with_parent_def view_read[OF v h])
  then show "pool_view (insert p D) (c(p := with_parent par (c p))) P n k (put_node f ((frame_node f b)\<lparr>parent_page_id := par\<rparr>) b)"
    "keeps_held b (put_node f ((frame_node f b)\<lparr>parent_page_id := par\<rparr>) b)"
    using view_put[OF v h with_parent(2)[OF view_length[OF v h] par]] by simp_all
qed

lemma set_parent_ok:
  assumes v: "pool_view D c P n k b" and p: "0 \<le> p" "p < n" and f: "free_frames P k (Suc m)" and par: "in_range 32 par"
  shows "\<exists>b'. set_parent p par b = Inr b' \<and> pool_view (D - {p}) (c(p := with_parent par (c p))) P n k b' \<and> keeps P b b'"
proof -
  from fetch_view[OF v p f] obtain g b1 where
    g: "fetch p b = Inr (g, b1)" "pool_view D c (P(p := P p + 1)) n k b1" "held b1 p g" "keeps_held b b1" by blast
  let ?b2 = "put_node g ((frame_node g b1)\<lparr>parent_page_id := par\<rparr>) b1"
  note put = put_parent_ok[OF g(2,3) par]
  have h2: "held ?b2 p g" by (rule held_put[OF put(2) g(2) put(1) g(3)])
  have pos: "0 < (P(p := P p + 1)) p" using free_frames_pos[OF f, of p] by simp
  from unpin_view[OF put(1) pos, of True] obtain b3 where b3: "unpin p True ?b2 = Inr b3"
    "pool_view (insert p D - {p}) (c(p := with_parent par (c p))) ((P(p := P p + 1))(p := (P(p := P p + 1)) p - 1)) n k b3"
    "resident b3 = resident ?b2" by (auto simp del: fun_upd_apply)
  have "(P(p := P p + 1))(p := (P(p := P p + 1)) p - 1) = P" by (simp add: fun_eq_iff)
  then have "pool_view (D - {p}) (c(p := with_parent par (c p))) P n k b3" using b3(2) by simp
  moreover have "keeps P b1 ?b2" by (rule keeps_mono[OF keeps_from_held[OF put(2) g(2)] pin_more])
  then have "keeps P b b3" using keeps_trans[OF keeps_from_held[OF g(4) v]] keeps_trans keeps_resident[OF b3(3)] by blast
  ultimately show ?thesis using g(1) b3(1) view_id[OF put(1) h2] by (simp add: set_parent_def Let_def)
qed

section \<open>Export\<close>

text \<open>Visiting a tree pins a path and gives it back.\<close>

lemma unpin_back:
  assumes "pool_view D c (P(p := P p + 1)) n k b" "free_frames P k m" "\<not> dirty \<Longrightarrow> p \<notin> D"
  shows "\<exists>b'. unpin p dirty b = Inr b' \<and> pool_view (if dirty then D - {p} else D) c P n k b' \<and> resident b' = resident b"
proof -
  have "0 < (P(p := P p + 1)) p" using free_frames_pos[OF assms(2), of p] by simp
  from unpin_view[OF assms(1) this assms(3)] show ?thesis unfolding pin_again .
qed

lemma bt_height_child: "(k, t) \<in> set ts \<Longrightarrow> Suc (bt_height t) \<le> bt_height (BNode p ts)"
  by (force intro: Max_ge)

lemma export_ok:
  "tree_at N lmax imax c par T \<Longrightarrow> list_all (\<lambda>p. 0 < p \<and> p < n) (bt_ids T) \<Longrightarrow> free_frames P k (bt_height T) \<Longrightarrow> pool_view {} c P n k b \<Longrightarrow>
    \<exists>b'. export_loop N (Visit (bt_id T) # todo) b = export_loop N todo b' \<and> pool_view {} c P n k b' \<and> keeps P b b'"
proof (induction T arbitrary: par P b todo)
  case (BLeaf p es)
  then have p: "0 < p" "p < n" and f: "free_frames P k (Suc 0)" by simp_all
  from fetch_view[OF BLeaf.prems(4) _ p(2) f] p(1) obtain g b1 where
    g: "fetch p b = Inr (g, b1)" "pool_view {} c (P(p := P p + 1)) n k b1" "held b1 p g" "keeps_held b b1" by auto
  have leaf: "IsLeafPage (frame_node g b1)"
    using view_read[OF g(2,3)] BLeaf.prems(1) by (simp add: leaf_page_def frame_node_def IsLeafPage_def load_leaf_def bpage.extend_def)
  have read: "array_read (leaf_array (frame_leaf N g b1)) 0 (cur_size (frame_leaf N g b1)) = Inr es"
    using leaf_frame(1)[OF BLeaf.prems(1) g(2,3)] by (rule leaf_holds_array)
  from unpin_back[OF g(2) f, of False] obtain b2 where b2: "unpin p False b1 = Inr b2" "pool_view {} c P n k b2" "resident b2 = resident b1" by auto
  have "FetchPgImp p b = Inr (Some g, b1)" using g(1) by (auto simp: fetch_def result_simps split: option.splits)
  then have "export_loop N (Visit p # todo) b = export_loop N todo b2"
    using leaf read b2(1) by (subst export_loop.simps) (simp, subst export_loop.simps, simp)
  moreover have "keeps P b b2" by (rule keeps_trans[OF keeps_from_held[OF g(4) BLeaf.prems(4)] keeps_resident[OF b2(3)]])
  ultimately show ?case using b2(2) by auto
next
  case (BNode p ts)
  have p: "0 < p" "p < n" using BNode.prems(2) by simp_all
  have f: "free_frames P k (Suc (bt_height (BNode p ts) - 1))" using BNode.prems(3) by simp
  from fetch_view[OF BNode.prems(4) _ p(2) f] p(1) obtain g b1 where
    g: "fetch p b = Inr (g, b1)" "pool_view {} c (P(p := P p + 1)) n k b1" "held b1 p g" "keeps_held b b1" by auto
  let ?P = "P(p := P p + 1)"
  have data: "frame_data g b1 = c p" by (rule view_read[OF g(2,3)])
  then have inner: "\<not> IsLeafPage (frame_node g b1)"
    using BNode.prems(1) by (simp add: internal_page_def frame_node_def IsLeafPage_def load_internal_def bpage.extend_def)
  have read: "array_read (internal_array (frame_internal N g b1)) 0 (cur_size (frame_internal N g b1)) = Inr (heads ts)"
    using data BNode.prems(1) by (simp add: internal_page_def frame_internal_def internal_holds_def arr_read_all)
  have sub: "tree_at N lmax imax c p t" "list_all (\<lambda>p. 0 < p \<and> p < n) (bt_ids t)" "free_frames ?P k (bt_height t)"
    if "(x, t) \<in> set ts" for x t
  proof -
    show "tree_at N lmax imax c p t" using BNode.prems(1) that by fastforce
    show "list_all (\<lambda>p. 0 < p \<and> p < n) (bt_ids t)" using BNode.prems(2) that by (fastforce simp: list_all_iff)
    have "bt_height t \<le> bt_height (BNode p ts) - 1" using bt_height_child[OF that, of p] by simp
    then show "free_frames ?P k (bt_height t)" by (rule free_frames_less[OF free_frames_pin[OF f]])
  qed
  have "set us \<subseteq> set ts \<Longrightarrow> pool_view {} c ?P n k b2 \<Longrightarrow>
    \<exists>b3. export_loop N (map (\<lambda>e. Visit (snd e)) (heads us) @ Leave p # todo) b2 = export_loop N (Leave p # todo) b3 \<and>
      pool_view {} c ?P n k b3 \<and> keeps P b2 b3" for us b2
  proof (induction us arbitrary: b2)
    case Nil
    then show ?case by auto
  next
    case (Cons u us)
    obtain x t where u: "u = (x, t)" by (cases u)
    have t: "(x, t) \<in> set ts" using Cons.prems(1) u by simp
    from BNode.IH[OF t _ sub[OF t] Cons.prems(2), of "map (\<lambda>e. Visit (snd e)) (heads us) @ Leave p # todo"]
    obtain b3 where b3: "export_loop N (Visit (bt_id t) # map (\<lambda>e. Visit (snd e)) (heads us) @ Leave p # todo) b2 =
        export_loop N (map (\<lambda>e. Visit (snd e)) (heads us) @ Leave p # todo) b3" "pool_view {} c ?P n k b3" "keeps ?P b2 b3" by (auto simp: snds.simps simp del: fun_upd_apply)
    have "set us \<subseteq> set ts" using Cons.prems(1) by simp
    from Cons.IH[OF this b3(2)] obtain b4 where "export_loop N (map (\<lambda>e. Visit (snd e)) (heads us) @ Leave p # todo) b3 = export_loop N (Leave p # todo) b4"
      "pool_view {} c ?P n k b4" "keeps P b3 b4" by blast
    moreover have "keeps P b2 b3" by (rule keeps_mono[OF b3(3) pin_more])
    ultimately show ?case using b3(1) u keeps_trans by (auto simp del: fun_upd_apply)
  qed
  from this[OF subset_refl g(2)] obtain b3 where b3: "export_loop N (map (\<lambda>e. Visit (snd e)) (heads ts) @ Leave p # todo) b1 = export_loop N (Leave p # todo) b3"
    "pool_view {} c ?P n k b3" "keeps P b1 b3" by blast
  from unpin_back[OF b3(2) f, of False] obtain b4 where b4: "unpin p False b3 = Inr b4" "pool_view {} c P n k b4" "resident b4 = resident b3" by auto
  have "FetchPgImp p b = Inr (Some g, b1)" using g(1) by (auto simp: fetch_def result_simps split: option.splits)
  then have "export_loop N (Visit p # todo) b = export_loop N (Leave p # todo) b3"
    using inner read b3(1) by (subst export_loop.simps) simp
  also have "\<dots> = export_loop N todo b4" using b4(1) by (subst export_loop.simps) simp
  finally have "export_loop N (Visit p # todo) b = export_loop N todo b4" .
  moreover have "keeps P b b4" using keeps_trans[OF keeps_from_held[OF g(4) BNode.prems(4)]] keeps_trans[OF b3(3)] keeps_resident[OF b4(3)] by blast
  ultimately show ?case using b4(2) by auto
qed

lemma ExportTree_ok:
  assumes "root_page_id t = bt_id T" "tree_at N lmax imax c par T" "list_all (\<lambda>p. 0 < p \<and> p < n) (bt_ids T)"
    "free_frames P k (bt_height T)" "pool_view {} c P n k b"
  shows "\<exists>b'. ExportTreeAfterOperation N t b = Some (Inr b') \<and> pool_view {} c P n k b' \<and> keeps P b b'"
proof -
  have "0 < bt_id T" using assms(3) bt_id_in by (auto simp: list_all_iff)
  then show ?thesis using export_ok[OF assms(2-5), of "[]"] assms(1)
    by (auto simp: ExportTreeAfterOperation_def IsEmpty_def INVALID_PAGE_ID_def export_loop.simps[of N "[]"])
qed

section \<open>The first key\<close>

lemma new_page_view:
  assumes v: "pool_view D c P n k b" and lim: "n \<le> max_page_id" and f: "free_frames P k (Suc m)"
  shows "\<exists>f b'. new_page b = Inr (n, f, b') \<and> pool_view D c (P(n := P n + 1)) (n + 1) k b' \<and> held b' n f \<and> keeps P b b' \<and>
    c n = zero_page \<and> 0 \<le> n \<and> P n = 0"
proof -
  from view_new[OF v lim] free_frames_lim[OF f] obtain g b' where
    "NewPgImp b = Inr (Some (n, g), b')" "pool_view D c (P(n := 1)) (n + 1) k b'" "held b' n g" "keeps_held b b'"
    "c n = zero_page" "0 \<le> n" "P n = 0" by blast
  moreover have "keeps P b b'" by (rule keeps_from_held[OF \<open>keeps_held b b'\<close> v])
  ultimately show ?thesis by (auto simp: new_page_def)
qed

text \<open>Leaves and internal pages that a page has room for.\<close>

definition sizes_ok :: "nat \<Rightarrow> bptree \<Rightarrow> bool" where
  "sizes_ok N t \<longleftrightarrow> 2 \<le> leaf_max_size t \<and> 28 + (int N + 8) * leaf_max_size t \<le> int BUSTUB_PAGE_SIZE \<and>
     2 \<le> internal_max_size t \<and> 24 + (int N + 8) * internal_max_size t \<le> int BUSTUB_PAGE_SIZE"

lemma leaf_room: "sizes_ok N t \<Longrightarrow> leaf_max_size t \<le> int ((BUSTUB_PAGE_SIZE - 28) div (N + 8))"
proof -
  assume s: "sizes_ok N t"
  then have "(int N + 8) * leaf_max_size t \<le> int (BUSTUB_PAGE_SIZE - 28)" by (simp add: sizes_ok_def BUSTUB_PAGE_SIZE_def)
  moreover have "int (nat (leaf_max_size t)) = leaf_max_size t" using s by (simp add: sizes_ok_def)
  ultimately have "int (nat (leaf_max_size t) * (N + 8)) \<le> int (BUSTUB_PAGE_SIZE - 28)" unfolding of_nat_mult by (simp add: mult.commute)
  then have "nat (leaf_max_size t) * (N + 8) \<le> BUSTUB_PAGE_SIZE - 28" unfolding of_nat_le_iff .
  then have "nat (leaf_max_size t) \<le> (BUSTUB_PAGE_SIZE - 28) div (N + 8)" by (simp add: less_eq_div_iff_mult_less_eq)
  then show ?thesis by simp
qed

lemma sizes_small: "sizes_ok N t \<Longrightarrow> leaf_max_size t \<le> 4096 \<and> internal_max_size t \<le> 4096"
proof -
  assume s: "sizes_ok N t"
  then have "1 * leaf_max_size t \<le> (int N + 8) * leaf_max_size t" "1 * internal_max_size t \<le> (int N + 8) * internal_max_size t"
    by (intro mult_right_mono; simp add: sizes_ok_def)+
  moreover have "(int N + 8) * leaf_max_size t \<le> 4068" "(int N + 8) * internal_max_size t \<le> 4072"
    using s by (simp_all add: sizes_ok_def BUSTUB_PAGE_SIZE_def)
  ultimately show ?thesis by linarith
qed

lemma arr_change_elems: "arr_change X arr arr' \<Longrightarrow> list_all Q arr \<Longrightarrow> (\<And>x. x \<in> X \<Longrightarrow> Q x) \<Longrightarrow> list_all Q arr'"
  by (auto simp: arr_change_def list_all_iff)

text \<open>The leaf that is written keeps its capacity and its header fits.\<close>

lemma leaf_fits_update:
  assumes "leaf_fits N m l" "arr_change X (leaf_array l) arr" "\<And>x. x \<in> X \<Longrightarrow> leaf_elem N x" "in_range 32 n"
  shows "leaf_fits N m (l\<lparr>leaf_array := arr, cur_size := n\<rparr>)"
  using assms arr_change_elems[OF assms(2), of "leaf_elem N"]
  by (simp add: leaf_fits_def bpage_fits_def arr_change_def)

lemma StartNewTree_ok:
  assumes o: "key_order cmp K rank" and s: "sizes_ok N t" and v: "pool_view {} c P n k b" and n: "0 < n" "n \<le> max_page_id"
    and f: "free_frames P k (Suc m)" and key: "key \<in> K" "leaf_elem N (key, v)"
  shows "\<exists>d b'. StartNewTree N cmp key v t b = Inr (t\<lparr>root_page_id := n\<rparr>, b') \<and> pool_view {} (c(n := d)) P (n + 1) k b' \<and> keeps P b b' \<and>
    index_at N (c(n := d)) (n + 1) (BLeaf n [(key, v)]) (t\<lparr>root_page_id := n\<rparr>)"
proof -
  from new_page_view[OF v n(2) f] obtain g b1 where
    g: "new_page b = Inr (n, g, b1)" "pool_view {} c (P(n := P n + 1)) (n + 1) k b1" "held b1 n g" "keeps P b b1" "c n = zero_page" "P n = 0"
    by blast
  let ?l0 = "frame_leaf N g b1"
  let ?l1 = "leaf_Init n INVALID_PAGE_ID (leaf_max_size t) ?l0"
  have data: "frame_data g b1 = c n" by (rule view_read[OF g(2,3)])
  have fits0: "leaf_fits N BUSTUB_PAGE_SIZE ?l0"
    using load_leaf_fits[of "c n" N] view_length[OF g(2,3)] data by (simp add: frame_leaf_def BUSTUB_PAGE_SIZE_def)
  have max: "in_range 32 (leaf_max_size t)" "in_range 32 n" "in_range 32 (- 1)"
    using s sizes_small[OF s] n by (simp_all add: sizes_ok_def in_range_def max_page_id_def)
  have fits1: "leaf_fits N BUSTUB_PAGE_SIZE ?l1"
    using fits0 max by (simp add: leaf_fits_def leaf_Init_def bpage_fits_def INVALID_PAGE_ID_def in_range_def)
  have h: "leaf_holds ?l1 []" by (simp add: leaf_holds_def arr_holds_def leaf_Init_def)
  have "length (leaf_array ?l1) = (BUSTUB_PAGE_SIZE - 28) div (N + 8)" using fits1 by (simp add: leaf_fits_def)
  then have "2 \<le> int (length (leaf_array ?l1))" using leaf_room[OF s] s unfolding sizes_ok_def by linarith
  then have room: "length [] < length (leaf_array ?l1)" by (cases "leaf_array ?l1") simp_all
  have "sorted_keys K rank []" by (simp add: sorted_keys_def)
  from key_order.leaf_Insert_new[OF o h this key(1) _ room, of v] obtain arr where
    arr: "leaf_Insert cmp key v ?l1 = Inr (?l1\<lparr>leaf_array := arr, cur_size := 1\<rparr>)" "arr_change {(key, v)} (leaf_array ?l1) arr"
    "arr_holds arr 1 [(key, v)]" by (auto simp: leaf_Init_def before_def from_key_def)
  let ?l = "?l1\<lparr>leaf_array := arr, cur_size := 1\<rparr>"
  have fits: "leaf_fits N BUSTUB_PAGE_SIZE ?l"
    by (rule leaf_fits_update[OF fits1 arr(2)]) (use key(2) in \<open>simp_all add: in_range_def\<close>)
  note put = put_leaf_ok[OF g(2,3) fits]
  let ?d = "store_leaf ?l (c n)" and ?b2 = "put_leaf g ?l b1"
  have h2: "held ?b2 n g" by (rule held_put[OF put(2) g(2) put(1) g(3)])
  from unpin_back[OF put(1) f, of True] obtain b3 where b3: "unpin n True ?b2 = Inr b3" "pool_view {} (c(n := ?d)) P (n + 1) k b3"
    "resident b3 = resident ?b2" by auto
  have "StartNewTree N cmp key v t b = Inr (t\<lparr>root_page_id := n\<rparr>, b3)"
    using g(1) arr(1) b3(1) view_id[OF put(1) h2] by (simp add: StartNewTree_def Let_def)
  moreover have "keeps P b1 ?b2" by (rule keeps_mono[OF keeps_from_held[OF put(2) g(2)] pin_more])
  then have "keeps P b b3" using keeps_trans[OF g(4)] keeps_trans keeps_resident[OF b3(3)] by blast
  moreover have "leaf_page N (leaf_max_size t) INVALID_PAGE_ID n [(key, v)] ?d"
    using put(3,4) arr(3) by (simp add: leaf_page_def leaf_Init_def leaf_holds_def)
  moreover have "next_leaf ?d = next_leaf_id (load_leaf N ?d)" by (simp add: next_leaf_def load_leaf_def leaf.defs bpage.defs)
  then have "next_leaf ?d = INVALID_PAGE_ID" using put(3) by (simp add: leaf_Init_def)
  ultimately show ?thesis using b3(2) n(1) s key(2) by (auto simp: index_at_def sizes_ok_def)
qed

end
