(* ===== verification/B_Plus_Grow.thy ===== *)
theory B_Plus_Grow
  imports B_Plus_Tree_Laws "HOL-Library.Multiset"
begin

text \<open>
  How an insertion changes a tree: a subtree has split in two, and the nodes above take the second
  half, splitting in turn when they are full. This is the specification of \<open>InsertIntoParent\<close>; it keeps
  the order of the keys, adds only the new pages and leaves the leaves in order.
\<close>

section \<open>Growing a tree\<close>

text \<open>The parts \<open>s\<close> and \<open>u\<close>, separated by \<open>k\<close>, in the place \<open>zs\<close>; \<open>n\<close> is the next page id.\<close>

inductive grown :: "nat \<Rightarrow> int \<Rightarrow> int \<Rightarrow> zip list \<Rightarrow> bt \<Rightarrow> key \<Rightarrow> bt \<Rightarrow> int \<Rightarrow> bt \<Rightarrow> bool" for N imax where
  root: "length g = N \<Longrightarrow> grown N imax n [] s k u (n + 1) (BNode n [(g, s), (k, u)])"
| fits: "int (length a + length b) + 1 < imax \<Longrightarrow>
    grown N imax n ((p, a, x, b) # zs) s k u n (plug zs (BNode p (a @ (x, s) # (k, u) # b)))"
| split: "\<lbrakk> int (length a + length b) + 1 = imax; L @ (k', w) # R = a @ (x, s) # (k, u) # b; int (length L) = (imax + 1) div 2;
    grown N imax (n + 1) zs (BNode p L) k' (BNode n ((k', w) # R)) n' T \<rbrakk> \<Longrightarrow>
    grown N imax n ((p, a, x, b) # zs) s k u n' T"

section \<open>Pages and leaves\<close>

definition sub_ids :: "(key \<times> bt) list \<Rightarrow> int list" where
  "sub_ids ts = concat (map (\<lambda>(k, t). bt_ids t) ts)"

definition sub_leaves :: "(key \<times> bt) list \<Rightarrow> (int \<times> (key \<times> RID) list) list" where
  "sub_leaves ts = concat (map (\<lambda>(k, t). bt_leaves t) ts)"

lemma sub_simps [simp]:
  "sub_ids [] = []" "sub_ids ((k, t) # ts) = bt_ids t @ sub_ids ts" "sub_ids (a @ b) = sub_ids a @ sub_ids b"
  "sub_leaves [] = []" "sub_leaves ((k, t) # ts) = bt_leaves t @ sub_leaves ts" "sub_leaves (a @ b) = sub_leaves a @ sub_leaves b"
  by (simp_all add: sub_ids_def sub_leaves_def)

lemma node_simps: "bt_ids (BNode p ts) = p # sub_ids ts" "bt_leaves (BNode p ts) = sub_leaves ts"
  by (simp_all add: sub_ids_def sub_leaves_def)

fun zip_ids :: "zip list \<Rightarrow> int list" where
  "zip_ids [] = []"
| "zip_ids ((p, a, x, b) # zs) = p # sub_ids a @ sub_ids b @ zip_ids zs"

fun zip_left :: "zip list \<Rightarrow> (int \<times> (key \<times> RID) list) list" where
  "zip_left [] = []"
| "zip_left ((p, a, x, b) # zs) = zip_left zs @ sub_leaves a"

fun zip_right :: "zip list \<Rightarrow> (int \<times> (key \<times> RID) list) list" where
  "zip_right [] = []"
| "zip_right ((p, a, x, b) # zs) = sub_leaves b @ zip_right zs"

lemma plug_ids: "mset (bt_ids (plug zs s)) = mset (zip_ids zs) + mset (bt_ids s)"
  by (induction zs s rule: plug.induct) (simp_all add: node_simps del: bt_ids.simps)

lemma plug_around: "bt_leaves (plug zs s) = zip_left zs @ bt_leaves s @ zip_right zs"
  by (induction zs s rule: plug.induct) (simp_all add: node_simps del: bt_leaves.simps)

lemma grown_next: "grown N imax n zs s k u n' T \<Longrightarrow> n \<le> n'"
  by (induction rule: grown.induct) simp_all

lemma grown_ids:
  "grown N imax n zs s k u n' T \<Longrightarrow>
    mset (bt_ids T) = mset (zip_ids zs) + mset (bt_ids s) + mset (bt_ids u) + mset [n..n' - 1]"
proof (induction rule: grown.induct)
  case (split a b L k' w R x s k u n zs p n' T)
  have "sub_ids (L @ (k', w) # R) = sub_ids a @ bt_ids s @ bt_ids u @ sub_ids b" by (simp add: split.hyps(2))
  then have "mset (sub_ids L) + mset (bt_ids w) + mset (sub_ids R) = mset (sub_ids a) + mset (bt_ids s) + mset (bt_ids u) + mset (sub_ids b)"
    by (metis mset_append sub_simps(2,3) add.assoc)
  moreover have "[n..n' - 1] = n # [n + 1..n' - 1]" using grown_next[OF split.hyps(4)] by (simp add: upto_rec1)
  ultimately show ?case using split.IH by (simp add: node_simps ac_simps del: bt_ids.simps)
qed (simp_all add: plug_ids node_simps del: bt_ids.simps)

lemma grown_leaves: "grown N imax n zs s k u n' T \<Longrightarrow> bt_leaves T = zip_left zs @ bt_leaves s @ bt_leaves u @ zip_right zs"
proof (induction rule: grown.induct)
  case (split a b L k' w R x s k u n zs p n' T)
  have "sub_leaves (L @ (k', w) # R) = sub_leaves a @ bt_leaves s @ bt_leaves u @ sub_leaves b" by (simp add: split.hyps(2))
  then show ?case using split.IH by (simp add: node_simps del: bt_leaves.simps)
qed (simp_all add: plug_around node_simps del: bt_leaves.simps)

section \<open>Height\<close>

lemma node_height: "bt_height (BNode p ts) \<le> Suc h \<longleftrightarrow> (\<forall>x\<in>set ts. bt_height (snd x) \<le> h)"
  by auto

lemma plug_height: "bt_height s' \<le> bt_height s \<Longrightarrow> bt_height (plug zs s') \<le> bt_height (plug zs s)"
proof (induction zs arbitrary: s s')
  case (Cons z zs)
  obtain p a x b where z: "z = (p, a, x, b)" by (cases z) auto
  obtain h where h: "bt_height (BNode p (a @ (x, s) # b)) = Suc h" by simp
  then have "\<forall>y\<in>set (a @ (x, s) # b). bt_height (snd y) \<le> h" using node_height[of p "a @ (x, s) # b" h] by simp
  then have "bt_height (BNode p (a @ (x, s') # b)) \<le> Suc h" using Cons.prems unfolding node_height by auto
  then show ?case using Cons.IH[of "BNode p (a @ (x, s') # b)" "BNode p (a @ (x, s) # b)"] h z by (simp del: bt_height.simps)
qed simp

lemma grown_height:
  "grown N imax n zs s k u n' T \<Longrightarrow> bt_height s \<le> bt_height s0 \<Longrightarrow> bt_height u \<le> bt_height s0 \<Longrightarrow>
    bt_height T \<le> Suc (bt_height (plug zs s0))"
proof (induction arbitrary: s0 rule: grown.induct)
  case (root g n s k u)
  then show ?case unfolding plug.simps node_height by simp
next
  case (fits a b n p x zs s k u)
  obtain h where h: "bt_height (BNode p (a @ (x, s0) # b)) = Suc h" by simp
  then have "\<forall>y\<in>set (a @ (x, s0) # b). bt_height (snd y) \<le> h" using node_height[of p "a @ (x, s0) # b" h] by simp
  then have "bt_height (BNode p (a @ (x, s) # (k, u) # b)) \<le> Suc h" using fits.prems unfolding node_height by auto
  then show ?case using plug_height[of "BNode p (a @ (x, s) # (k, u) # b)" "BNode p (a @ (x, s0) # b)" zs] h by (simp del: bt_height.simps)
next
  case (split a b L k' w R x s k u n zs p n' T)
  obtain h where h: "bt_height (BNode p (a @ (x, s0) # b)) = Suc h" by simp
  then have "\<forall>y\<in>set (a @ (x, s0) # b). bt_height (snd y) \<le> h" using node_height[of p "a @ (x, s0) # b" h] by simp
  then have "\<forall>y\<in>set (a @ (x, s) # (k, u) # b). bt_height (snd y) \<le> h" using split.prems by auto
  then have "\<forall>y\<in>set (L @ (k', w) # R). bt_height (snd y) \<le> h" by (simp only: split.hyps(2))
  then have "bt_height (BNode p L) \<le> Suc h" "bt_height (BNode n ((k', w) # R)) \<le> Suc h" unfolding node_height by auto
  then show ?case using split.IH[of "BNode p (a @ (x, s0) # b)"] h by (simp del: bt_height.simps)
qed

section \<open>Order\<close>

lemma ord_nonempty: "bt_ord K rank (BNode p ts) \<Longrightarrow> \<forall>y\<in>set ts. bt_items (snd y) \<noteq> []"
  using bt_ord_items by auto

lemma around_child:
  assumes o: "bt_ord K rank (BNode p ts)" and ts: "ts = a @ (k, t) # b"
  shows "x \<in> set a \<Longrightarrow> e \<in> set (bt_items (snd x)) \<Longrightarrow> rank (fst e) < rank k"
    and "x \<in> set b \<Longrightarrow> e \<in> set (bt_items t) \<Longrightarrow> rank (fst e) < rank (fst x)"
    and "x \<in> set b \<Longrightarrow> e \<in> set (bt_items (snd x)) \<Longrightarrow> rank (fst x) \<le> rank (fst e)"
    and "a \<noteq> [] \<Longrightarrow> k \<in> K" and "a \<noteq> [] \<Longrightarrow> e \<in> set (bt_items t) \<Longrightarrow> rank k \<le> rank (fst e)"
proof -
  note ne = ord_nonempty[OF o]
  have s: "successively (sep K rank) ts" using o by simp
  then have sb: "successively (sep K rank) ((k, t) # b)" unfolding ts by (simp add: successively_append_iff)
  show "rank (fst e) < rank k" if x: "x \<in> set a" "e \<in> set (bt_items (snd x))"
  proof -
    from x(1) obtain a1 a2 where a: "a = a1 @ x # a2" by (metis in_set_conv_decomp)
    then have "successively (sep K rank) (x # a2 @ (k, t) # b)" using s ts by (simp add: successively_append_iff)
    from sep_below[OF this _, of "(k, t)"] ne a ts show ?thesis using x(2) by simp
  qed
  show "rank (fst e) < rank (fst x)" if "x \<in> set b" "e \<in> set (bt_items t)" using sep_below[OF sb _ that(1)] ne ts that(2) by simp
  show "rank (fst x) \<le> rank (fst e)" if "x \<in> set b" "e \<in> set (bt_items (snd x))" using sep_keys(2)[OF sb] ne ts that by simp
  show "k \<in> K" if a: "a \<noteq> []"
  proof -
    have "sep K rank (last a) (k, t)" using s a ts by (simp add: successively_append_iff)
    then show ?thesis by (simp add: sep_def)
  qed
  show "rank k \<le> rank (fst e)" if a: "a \<noteq> []" and e: "e \<in> set (bt_items t)"
  proof -
    have "sep K rank (last a) (k, t)" using s a ts by (simp add: successively_append_iff)
    then show ?thesis using e by (simp add: sep_def)
  qed
qed

text \<open>The keys of a tree lie between the separators above it.\<close>

definition under :: "(key \<Rightarrow> int) \<Rightarrow> zip list \<Rightarrow> bt \<Rightarrow> bool" where
  "under rank zs t \<longleftrightarrow> (\<forall>e\<in>set (bt_items t). list_all (on_way rank (rank (fst e))) zs)"

lemma items_node: "e \<in> set (bt_items (BNode p ts)) \<longleftrightarrow> (\<exists>x\<in>set ts. e \<in> set (bt_items (snd x)))"
  by force

lemma under_node: "under rank zs (BNode p ts) \<longleftrightarrow> (\<forall>x\<in>set ts. under rank zs (snd x))"
  unfolding under_def Ball_def items_node by blast

lemma ord_under: "bt_ord K rank (plug zs t) \<Longrightarrow> under rank zs t"
proof (induction zs arbitrary: t)
  case Nil
  then show ?case by (simp add: under_def)
next
  case (Cons z zs)
  obtain p a x b where z: "z = (p, a, x, b)" by (cases z) auto
  let ?T = "BNode p (a @ (x, t) # b)"
  have T: "bt_ord K rank (plug zs ?T)" using Cons.prems z by (simp del: bt_ord.simps)
  have "list_all (on_way rank (rank (fst e))) zs" if "e \<in> set (bt_items t)" for e
    using Cons.IH[OF T] that unfolding under_node by (simp add: under_def)
  moreover have "on_way rank (rank (fst e)) z" if "e \<in> set (bt_items t)" for e
    using around_child(2,5)[OF plug_ord[OF T] refl] that z by (auto simp: on_way_def)
  ultimately show ?case by (simp add: under_def)
qed

lemma under_Cons: "under rank (z # zs) t \<Longrightarrow> under rank zs t \<and> (\<forall>e\<in>set (bt_items t). on_way rank (rank (fst e)) z)"
  by (simp add: under_def)

text \<open>A child that is replaced by others in the same range.\<close>

lemma ord_child:
  assumes o: "bt_ord K rank (BNode p (a @ (x, s0) # b))" and s: "bt_ord K rank s"
    and w: "\<forall>e\<in>set (bt_items s). on_way rank (rank (fst e)) (p, a, x, b)"
  shows "bt_ord K rank (BNode p (a @ (x, s) # b))"
proof -
  have old: "successively (sep K rank) (a @ (x, s0) # b)" and "\<forall>y\<in>set (a @ (x, s0) # b). bt_ord K rank (snd y)" using o by simp_all
  then have all: "\<forall>y\<in>set (a @ (x, s) # b). bt_ord K rank (snd y)" using s by auto
  have "sep K rank (last a) (x, s)" if "a \<noteq> []"
    using old w that by (auto simp: successively_append_iff sep_def on_way_def)
  moreover have "sep K rank (x, s) (hd b)" if "b \<noteq> []"
    using old w that by (cases b) (auto simp: successively_append_iff sep_def on_way_def)
  ultimately have "successively (sep K rank) (a @ (x, s) # b)"
    using old by (cases b) (auto simp: successively_append_iff)
  then show ?thesis using all by simp
qed

lemma ord_children:
  assumes o: "bt_ord K rank (BNode p (a @ (x, s0) # b))" and s: "bt_ord K rank s" and u: "bt_ord K rank u"
    and w: "\<forall>e\<in>set (bt_items s). on_way rank (rank (fst e)) (p, a, x, b)" "\<forall>e\<in>set (bt_items u). on_way rank (rank (fst e)) (p, a, x, b)"
    and k: "sep K rank (x, s) (k, u)"
  shows "bt_ord K rank (BNode p (a @ (x, s) # (k, u) # b))"
proof -
  have os: "bt_ord K rank (BNode p (a @ (x, s) # b))" by (rule ord_child[OF o s w(1)])
  then have old: "successively (sep K rank) (a @ (x, s) # b)" and all: "\<forall>y\<in>set (a @ (x, s) # b). bt_ord K rank (snd y)" by simp_all
  have "sep K rank (k, u) (hd b)" if "b \<noteq> []"
    using old w(2) that by (cases b) (auto simp: successively_append_iff sep_def on_way_def)
  then have "successively (sep K rank) (a @ (x, s) # (k, u) # b)"
    using old k by (cases b) (auto simp: successively_append_iff)
  then show ?thesis using all u by auto
qed

lemma ord_replace:
  "bt_ord K rank (plug zs s) \<Longrightarrow> bt_ord K rank s' \<Longrightarrow> under rank zs s' \<Longrightarrow> bt_ord K rank (plug zs s')"
proof (induction zs arbitrary: s s')
  case (Cons z zs)
  obtain p a x b where z: "z = (p, a, x, b)" by (cases z) auto
  let ?T = "\<lambda>s. BNode p (a @ (x, s) # b)"
  have T: "bt_ord K rank (plug zs (?T s))" using Cons.prems(1) z by (simp del: bt_ord.simps)
  note u = under_Cons[OF Cons.prems(3)]
  have "bt_ord K rank (?T s')" using ord_child[OF plug_ord[OF T] Cons.prems(2)] u z by blast
  moreover have "under rank zs (?T s')"
    using ord_under[OF T] u by (auto simp: under_node)
  ultimately show ?case using Cons.IH[OF T] z by (simp del: bt_ord.simps)
qed simp

lemma ord_split:
  assumes o: "bt_ord K rank (BNode p (L @ (k, w) # R))" and L: "L \<noteq> []"
  shows "bt_ord K rank (BNode p L)" and "bt_ord K rank (BNode q ((k, w) # R))"
    and "sep K rank (x, BNode p L) (k, BNode q ((k, w) # R))"
proof -
  show "bt_ord K rank (BNode p L)" "bt_ord K rank (BNode q ((k, w) # R))" using o L by (auto simp: successively_append_iff)
  have "rank k \<le> rank (fst e)" if "y \<in> set R" "e \<in> set (bt_items (snd y))" for y e
  proof -
    obtain e' where e': "e' \<in> set (bt_items w)" using ord_nonempty[OF o] by (fastforce simp: neq_Nil_conv)
    have "rank k \<le> rank (fst e')" by (rule around_child(5)[OF o refl L e'])
    also have "\<dots> < rank (fst y)" by (rule around_child(2)[OF o refl that(1) e'])
    also have "\<dots> \<le> rank (fst e)" by (rule around_child(3)[OF o refl that])
    finally show ?thesis by simp
  qed
  moreover have "rank k \<le> rank (fst e)" if "e \<in> set (bt_items w)" for e by (rule around_child(5)[OF o refl L that])
  moreover have "rank (fst e) < rank k" if "y \<in> set L" "e \<in> set (bt_items (snd y))" for y e by (rule around_child(1)[OF o refl that])
  ultimately show "sep K rank (x, BNode p L) (k, BNode q ((k, w) # R))"
    using around_child(4)[OF o refl L] by (auto simp: sep_def)
qed

text \<open>The keys of the parts are those of the old subtree and of its range, so the new tree is ordered.\<close>

lemma grown_ord:
  "grown N imax n zs s k u n' T \<Longrightarrow> 2 \<le> imax \<Longrightarrow> bt_ord K rank (plug zs s0) \<Longrightarrow> bt_ord K rank s \<Longrightarrow> bt_ord K rank u \<Longrightarrow>
    sep K rank (y, s) (k, u) \<Longrightarrow> under rank zs s \<Longrightarrow> under rank zs u \<Longrightarrow> bt_ord K rank T"
proof (induction arbitrary: s0 y rule: grown.induct)
  case (root g n s k u)
  then show ?case by (simp add: sep_def)
next
  case (fits a b n p x zs s k u)
  let ?T = "\<lambda>s. BNode p (a @ (x, s) # b)"
  have T: "bt_ord K rank (plug zs (?T s0))" using fits.prems(2) by (simp del: bt_ord.simps)
  note us = under_Cons[OF fits.prems(6)] and uu = under_Cons[OF fits.prems(7)]
  have "sep K rank (x, s) (k, u)" using fits.prems(5) by (simp add: sep_def)
  then have "bt_ord K rank (BNode p (a @ (x, s) # (k, u) # b))"
    using ord_children[OF plug_ord[OF T] fits.prems(3,4)] us uu by blast
  moreover have "under rank zs (BNode p (a @ (x, s) # (k, u) # b))"
    using ord_under[OF T] us uu by (auto simp: under_node)
  ultimately show ?case using ord_replace[OF T] by blast
next
  case (split a b L k' w R x s k u n zs p n' T)
  let ?T = "\<lambda>s. BNode p (a @ (x, s) # b)"
  have T: "bt_ord K rank (plug zs (?T s0))" using split.prems(2) by (simp del: bt_ord.simps)
  note us = under_Cons[OF split.prems(6)] and uu = under_Cons[OF split.prems(7)]
  have "sep K rank (x, s) (k, u)" using split.prems(5) by (simp add: sep_def)
  then have "bt_ord K rank (BNode p (a @ (x, s) # (k, u) # b))"
    using ord_children[OF plug_ord[OF T] split.prems(3,4)] us uu by blast
  then have o: "bt_ord K rank (BNode p (L @ (k', w) # R))" unfolding split.hyps(2) .
  have "under rank zs (BNode p (a @ (x, s) # (k, u) # b))"
    using ord_under[OF T] us uu by (auto simp: under_node)
  then have "under rank zs (BNode p (L @ (k', w) # R))" unfolding split.hyps(2) .
  then have un: "under rank zs (BNode p L)" "under rank zs (BNode n ((k', w) # R))"
    by (auto simp: under_node)
  have L: "L \<noteq> []" using split.hyps(3) split.prems(1) by (cases L) auto
  show ?case using split.IH[OF split.prems(1) T ord_split(1)[OF o L] ord_split(2)[OF o L] ord_split(3)[OF o L] un] .
qed

end
