(* ===== verification/B_Plus_Split.thy ===== *)
theory B_Plus_Split
  imports B_Plus_Write B_Plus_Grow
begin

text \<open>
  Insertion into a B+ tree: splitting pages and entering the new pages into the nodes above
  (\<open>InsertIntoParent\<close>) grows the tree, and \<open>Insert\<close> adds its key to the map that the tree stands for.
\<close>

section \<open>A tree and its surroundings\<close>

fun ctx_at :: "nat \<Rightarrow> int \<Rightarrow> int \<Rightarrow> (int \<Rightarrow> byte list) \<Rightarrow> int \<Rightarrow> zip list \<Rightarrow> bool" where
  "ctx_at N lmax imax c hole [] \<longleftrightarrow> True"
| "ctx_at N lmax imax c hole ((p, a, x, b) # zs) \<longleftrightarrow>
     internal_page N imax (zip_parent zs) p (heads a @ (x, hole) # heads b) (c p) \<and> length x = N \<and>
     int (length a + length b) + 1 \<le> imax \<and> (\<forall>y\<in>set a \<union> set b. length (fst y) = N \<and> tree_at N lmax imax c p (snd y)) \<and>
     ctx_at N lmax imax c p zs"

lemma zip_parent_Cons [simp]: "zip_parent (z # zs) = fst z"
  by (simp add: zip_parent_def)

lemma tree_at_plug:
  "tree_at N lmax imax c INVALID_PAGE_ID (plug zs s) \<longleftrightarrow> ctx_at N lmax imax c (bt_id s) zs \<and> tree_at N lmax imax c (zip_parent zs) s"
proof (induction zs arbitrary: s)
  case (Cons z zs)
  obtain p a x b where z: "z = (p, a, x, b)" by (cases z) auto
  show ?case using Cons[of "BNode p (a @ (x, s) # b)"] z by auto
qed simp

lemma bt_id_plug: "bt_id (plug zs s) = (if zs = [] then bt_id s else fst (last zs))"
  by (induction zs s rule: plug.induct) auto

lemma tree_at_cong: "\<forall>q\<in>set (bt_ids T). c q = c' q \<Longrightarrow> tree_at N lmax imax c par T = tree_at N lmax imax c' par T"
proof (induction T arbitrary: par)
  case (BNode p ts)
  have "tree_at N lmax imax c p (snd x) = tree_at N lmax imax c' p (snd x)" if "x \<in> set ts" for x
    using BNode.IH[of x "snd x"] BNode.prems that by (cases x) fastforce
  then show ?case using BNode.prems by auto
qed simp

lemma sub_ids_in: "(k, t) \<in> set ts \<Longrightarrow> set (bt_ids t) \<subseteq> set (sub_ids ts)"
  by (auto simp: sub_ids_def)

lemma ctx_at_cong: "\<forall>q\<in>set (zip_ids zs). c q = c' q \<Longrightarrow> ctx_at N lmax imax c hole zs = ctx_at N lmax imax c' hole zs"
proof (induction zs arbitrary: hole)
  case (Cons z zs)
  obtain p a x b where z: "z = (p, a, x, b)" by (cases z) auto
  have "tree_at N lmax imax c p (snd y) = tree_at N lmax imax c' p (snd y)" if "y \<in> set a \<union> set b" for y
    using Cons.prems sub_ids_in[of "fst y" "snd y" a] sub_ids_in[of "fst y" "snd y" b] that z by (intro tree_at_cong) auto
  then show ?case using Cons z by auto
qed simp

text \<open>Each page of a tree carries its own id.\<close>

lemma tree_at_node: "tree_at N lmax imax c par T \<Longrightarrow> q \<in> set (bt_ids T) \<Longrightarrow>
    node_page_id (load_bpage (c q)) = q \<and> length (c q) = BUSTUB_PAGE_SIZE"
proof (induction T arbitrary: par)
  case (BLeaf p es)
  then show ?case by (simp add: leaf_page_def load_leaf_def leaf.defs bpage.defs)
next
  case (BNode p ts)
  show ?case
  proof (cases "q = p")
    case True
    then show ?thesis using BNode.prems by (simp add: internal_page_def load_internal_def internal.defs bpage.defs)
  next
    case False
    then obtain k t where t: "(k, t) \<in> set ts" "q \<in> set (bt_ids t)" using BNode.prems(2) by auto
    then have "tree_at N lmax imax c p t" using BNode.prems(1) by fastforce
    then show ?thesis using BNode.IH[of "(k, t)" t] t by (auto simp: snds.simps)
  qed
qed

text \<open>The page at the root of a tree names the parent.\<close>

lemma tree_at_parent: "tree_at N lmax imax c par T \<Longrightarrow> parent_page_id (load_bpage (c (bt_id T))) = par"
  by (cases T) (simp_all add: leaf_page_def internal_page_def load_leaf_def load_internal_def leaf.defs internal.defs bpage.defs)

lemma tree_at_new_parent:
  assumes "tree_at N lmax imax c par T" "distinct (bt_ids T)" "in_range 32 par'"
    and "c' (bt_id T) = with_parent par' (c (bt_id T))" "\<forall>q\<in>set (bt_ids T) - {bt_id T}. c' q = c q"
  shows "tree_at N lmax imax c' par' T"
proof (cases T)
  case (BLeaf p es)
  then show ?thesis using assms with_parent_leaf by auto
next
  case (BNode p ts)
  have "tree_at N lmax imax c' p (snd x)" if x: "x \<in> set ts" for x
  proof -
    obtain k t where kt: "x = (k, t)" by (cases x)
    have "set (bt_ids t) \<subseteq> set (bt_ids T) - {bt_id T}" using x kt assms(2) BNode by auto
    then have "\<forall>q\<in>set (bt_ids t). c q = c' q" using assms(5) by (metis subsetD)
    from tree_at_cong[OF this, of N lmax imax p] show ?thesis using assms(1) BNode x kt by auto
  qed
  then show ?thesis using assms with_parent_internal BNode by auto
qed

section \<open>Moving children to a new parent\<close>

lemma load_internal_header:
  "page_type (load_internal N d) = page_type (load_bpage d)" "cur_size (load_internal N d) = cur_size (load_bpage d)"
  "max_size (load_internal N d) = max_size (load_bpage d)" "parent_page_id (load_internal N d) = parent_page_id (load_bpage d)"
  "node_page_id (load_internal N d) = node_page_id (load_bpage d)"
  by (simp_all add: load_internal_def internal.defs bpage.defs)

lemma load_leaf_header:
  "page_type (load_leaf N d) = page_type (load_bpage d)" "cur_size (load_leaf N d) = cur_size (load_bpage d)"
  "max_size (load_leaf N d) = max_size (load_bpage d)" "parent_page_id (load_leaf N d) = parent_page_id (load_bpage d)"
  "node_page_id (load_leaf N d) = node_page_id (load_bpage d)" "next_leaf_id (load_leaf N d) = next_leaf d"
  by (simp_all add: load_leaf_def leaf.defs bpage.defs next_leaf_def)

definition parents :: "int \<Rightarrow> int list \<Rightarrow> (int \<Rightarrow> byte list) \<Rightarrow> int \<Rightarrow> byte list" where
  "parents m ps c = (\<lambda>q. if q \<in> set ps then with_parent m (c q) else c q)"

lemma parents_simps [simp]: "q \<notin> set ps \<Longrightarrow> parents m ps c q = c q"
  by (simp add: parents_def)

lemma set_parents_ok:
  assumes par: "in_range 32 m" and f: "free_frames P k (Suc l)" and pin: "0 < P m"
  shows "distinct ps \<Longrightarrow> m \<notin> set ps \<Longrightarrow> list_all (\<lambda>p. 0 \<le> p \<and> p < n) ps \<Longrightarrow>
    (\<And>i. i < length ps \<Longrightarrow> j + i < length (internal_array (load_internal N (c m))) \<and> snd (internal_array (load_internal N (c m)) ! (j + i)) = ps ! i) \<Longrightarrow>
    cur_size (load_internal N (c m)) = 0 \<Longrightarrow> node_page_id (load_bpage (c m)) = m \<Longrightarrow>
    pool_view D c P n k b \<Longrightarrow> held b m g \<Longrightarrow>
    \<exists>b'. fold_r (\<lambda>i b. bind_r (ValueAt (int i + cur_size (frame_internal N g b)) (frame_internal N g b)) (\<lambda>child.
        set_parent child (node_page_id (frame_node g b)) b)) [j..<j + length ps] b = Inr b' \<and>
      pool_view (D - set ps) (parents m ps c) P n k b' \<and> keeps P b b'"
proof (induction ps arbitrary: j c D b)
  case Nil
  have "parents m [] c = c" by (simp add: fun_eq_iff)
  then show ?case using Nil.prems by simp
next
  case (Cons p ps)
  let ?x = "load_internal N (c m)"
  have data: "frame_data g b = c m" by (rule view_read[OF Cons.prems(7,8)])
  have "j < length (internal_array ?x) \<and> snd (internal_array ?x ! j) = p" using Cons.prems(4)[of 0] by simp
  then have child: "ValueAt (int j + cur_size (frame_internal N g b)) (frame_internal N g b) = Inr p"
    using Cons.prems(5) by (simp add: frame_internal_def data ValueAt_def array_get_def)
  have p: "0 \<le> p" "p < n" using Cons.prems(3) by simp_all
  from set_parent_ok[OF Cons.prems(7) p f par] obtain b1 where
    b1: "set_parent p m b = Inr b1" "pool_view (D - {p}) (c(p := with_parent m (c p))) P n k b1" "keeps P b b1" by blast
  let ?c = "c(p := with_parent m (c p))"
  have same: "?c m = c m" using Cons.prems(2) by simp
  have h: "held b1 m g" by (rule keeps_heldI[OF b1(3) Cons.prems(8) pin b1(2) pin])
  have "i < length ps \<Longrightarrow> Suc j + i < length (internal_array ?x) \<and> snd (internal_array ?x ! (Suc j + i)) = ps ! i" for i
    using Cons.prems(4)[of "Suc i"] by simp
  note ih = Cons.IH[where c = ?c and j = "Suc j" and D = "D - {p}" and b = b1, unfolded same, OF _ _ _ this Cons.prems(5,6) b1(2) h]
  from ih Cons.prems(1-3) obtain b2 where
    b2: "fold_r (\<lambda>i b. bind_r (ValueAt (int i + cur_size (frame_internal N g b)) (frame_internal N g b)) (\<lambda>child.
        set_parent child (node_page_id (frame_node g b)) b)) [Suc j..<Suc j + length ps] b1 = Inr b2"
      "pool_view (D - {p} - set ps) (parents m ps ?c) P n k b2" "keeps P b1 b2" by (auto simp del: fun_upd_apply)
  have "parents m ps ?c = parents m (p # ps) c" using Cons.prems(1) by (auto simp: parents_def fun_eq_iff)
  moreover have "D - {p} - set ps = D - set (p # ps)" by auto
  moreover have "[j..<j + length (p # ps)] = j # [Suc j..<Suc j + length ps]" by (simp add: upt_rec)
  moreover have "node_page_id (frame_node g b) = m" using Cons.prems(6) by (simp add: frame_node_def data)
  ultimately show ?case using child b1(1) b2 keeps_trans[OF b1(3)] by auto
qed

text \<open>\<open>CopyNFrom\<close> into an empty page.\<close>

lemma internal_CopyNFrom_ok:
  assumes v: "pool_view D c P n k b" and h: "held b m g" and f: "free_frames P k (Suc l)" and par: "in_range 32 m"
    and x: "cur_size (load_internal N (c m)) = 0" "node_page_id (load_bpage (c m)) = m"
    and es: "length es \<le> length (internal_array (load_internal N (c m)))" "int (length es) < 2 ^ 31" "list_all (internal_elem N) es"
    and ids: "distinct (map snd es)" "m \<notin> set (map snd es)" "list_all (\<lambda>p. 0 \<le> p \<and> p < n) (map snd es)"
  shows "\<exists>b' d arr. internal_CopyNFrom N es g b = Inr b' \<and> pool_view (insert m D - set (map snd es)) ((parents m (map snd es) c)(m := d)) P n k b' \<and>
    keeps P b b' \<and> length d = BUSTUB_PAGE_SIZE \<and>
    load_internal N d = (load_internal N (c m))\<lparr>internal_array := arr, cur_size := int (length es)\<rparr> \<and> arr_holds arr (int (length es)) es"
proof -
  let ?x = "load_internal N (c m)"
  have data: "frame_data g b = c m" by (rule view_read[OF v h])
  have pin: "0 < P m" by (rule view_pins[OF v h])
  have fx: "internal_fits N BUSTUB_PAGE_SIZE ?x"
    using load_internal_fits[of "c m" N] view_length[OF v h] by (simp add: BUSTUB_PAGE_SIZE_def)
  have h0: "arr_holds (internal_array ?x) (cur_size ?x) []" by (simp add: arr_holds_def x(1))
  from arr_append[OF h0, of es] es(1) obtain arr where arr: "array_write (internal_array ?x) (cur_size ?x) es = Inr arr"
    "arr_holds arr (int (length es)) es" "arr_change (set es) (internal_array ?x) arr" by (auto simp: x(1))
  let ?x1 = "?x\<lparr>internal_array := arr\<rparr>" and ?x2 = "?x\<lparr>internal_array := arr, cur_size := int (length es)\<rparr>"
  have elems: "list_all (internal_elem N) arr"
    by (rule arr_change_elems[OF arr(3)]) (use fx es(3) in \<open>simp_all add: internal_fits_def list_all_iff\<close>)
  then have f1: "internal_fits N BUSTUB_PAGE_SIZE ?x1" and f2: "internal_fits N BUSTUB_PAGE_SIZE ?x2"
    using fx arr(3) es(2) by (simp_all add: internal_fits_def bpage_fits_def arr_change_def in_range_def)
  note put = put_internal_ok[OF v h f1]
  let ?d1 = "store_internal ?x1 (c m)" and ?b1 = "put_internal g ?x1 b"
  let ?c1 = "c(m := ?d1)"
  have h1: "held ?b1 m g" by (rule held_put[OF put(2) v put(1) h])
  have node: "node_page_id (load_bpage ?d1) = m"
    using put(3) x(2) by (simp flip: load_internal_header(5)[of N])
  have at: "i < length (map snd es) \<Longrightarrow> 0 + i < length (internal_array (load_internal N (?c1 m))) \<and>
      snd (internal_array (load_internal N (?c1 m)) ! (0 + i)) = map snd es ! i" for i
    using put(3) arr(2) by (auto simp: arr_holds_def nth_append)
  have "cur_size (load_internal N (?c1 m)) = 0" "node_page_id (load_bpage (?c1 m)) = m" using put(3) x(1) node by simp_all
  from set_parents_ok[OF par f pin ids at this put(1) h1] obtain b2 where
    b2: "fold_r (\<lambda>i b. bind_r (ValueAt (int i + cur_size (frame_internal N g b)) (frame_internal N g b)) (\<lambda>child.
        set_parent child (node_page_id (frame_node g b)) b)) [0..<length es] ?b1 = Inr b2"
      "pool_view (insert m D - set (map snd es)) (parents m (map snd es) ?c1) P n k b2" "keeps P ?b1 b2" by auto
  have h2: "held b2 m g" by (rule keeps_heldI[OF b2(3) h1 pin b2(2) pin])
  let ?c2 = "parents m (map snd es) ?c1"
  have c2: "?c2 m = ?d1" using ids(2) by simp
  have x1: "frame_internal N g b2 = ?x1" using view_read[OF b2(2) h2] put(3) c2 by (simp add: frame_internal_def)
  have eq: "?x1\<lparr>cur_size := cur_size ?x1 + int (length es)\<rparr> = ?x2" by (simp add: x(1))
  note put2 = put_internal_ok[OF b2(2) h2 f2]
  have "internal_CopyNFrom N es g b = Inr (put_internal g ?x2 b2)"
    using arr(1) b2(1) x1 eq by (simp add: internal_CopyNFrom_def Let_def frame_internal_def data)
  moreover have "?c2(m := store_internal ?x2 ?d1) = (parents m (map snd es) c)(m := store_internal ?x2 ?d1)"
    by (auto simp: parents_def fun_eq_iff)
  moreover have "insert m (insert m D - set (map snd es)) = insert m D - set (map snd es)" using ids(2) by auto
  moreover have "keeps P b ?b1" by (rule keeps_from_held[OF put(2) v])
  then have "keeps P b (put_internal g ?x2 b2)" using keeps_trans b2(3) keeps_from_held[OF put2(2) b2(2)] by blast
  ultimately show ?thesis using put2 arr(2) unfolding c2 by (intro exI[of _ "put_internal g ?x2 b2"] exI[of _ "store_internal ?x2 ?d1"] exI[of _ arr]) simp
qed

section \<open>Splitting a page\<close>

lemma frame_fits: "pool_view D c P n k b \<Longrightarrow> held b p f \<Longrightarrow> internal_fits N BUSTUB_PAGE_SIZE (frame_internal N f b) \<and> leaf_fits N BUSTUB_PAGE_SIZE (frame_leaf N f b)"
  using load_internal_fits[of "c p" N] load_leaf_fits[of "c p" N] view_length[of D c P n k b p f] view_read[of D c P n k b p f]
  by (simp add: BUSTUB_PAGE_SIZE_def frame_internal_def frame_leaf_def)

lemma elems_heads: "list_all (internal_elem N) es \<Longrightarrow> arr_holds arr n es' \<Longrightarrow> set es' \<subseteq> set es \<Longrightarrow> list_all (internal_elem N) es'"
  by (auto simp: list_all_iff)

lemma sdiv_two: "0 \<le> a \<Longrightarrow> a sdiv 2 = a div 2" for a :: int
  by (cases "a = 0") (simp_all add: signed_divide_int_def)

lemma internal_room: "sizes_ok N t \<Longrightarrow> internal_max_size t \<le> int ((BUSTUB_PAGE_SIZE - 24) div (N + 4))"
proof -
  assume s: "sizes_ok N t"
  have "internal_max_size t * (int N + 4) \<le> internal_max_size t * (int N + 8)" using s by (intro mult_left_mono) (simp_all add: sizes_ok_def)
  also have "\<dots> \<le> int (BUSTUB_PAGE_SIZE - 24)" using s by (simp add: sizes_ok_def BUSTUB_PAGE_SIZE_def mult.commute)
  finally have "int (nat (internal_max_size t) * (N + 4)) \<le> int (BUSTUB_PAGE_SIZE - 24)" using s unfolding of_nat_mult by (simp add: sizes_ok_def)
  then have "nat (internal_max_size t) * (N + 4) \<le> BUSTUB_PAGE_SIZE - 24" unfolding of_nat_le_iff .
  then have "nat (internal_max_size t) \<le> (BUSTUB_PAGE_SIZE - 24) div (N + 4)" by (simp add: less_eq_div_iff_mult_less_eq)
  then show ?thesis by simp
qed

text \<open>The second half of an internal page in memory goes to a new page; its children get the new parent.\<close>

lemma Split_internal_ok:
  assumes v: "pool_view D c P n k b" and lim: "n \<le> max_page_id" and f: "free_frames P k (Suc (Suc l))"
    and x: "internal_holds x (L @ R)" "page_type x = type_number INTERNAL_PAGE" "in_range 32 (parent_page_id x)" "max_size x = internal_max_size t"
    and half: "int (length L) = (internal_max_size t + 1) div 2" and s: "sizes_ok N t"
    and R: "list_all (internal_elem N) R" "int (length R) \<le> internal_max_size t"
    and ids: "distinct (map snd R)" "list_all (\<lambda>p. 0 \<le> p \<and> p < n) (map snd R)"
  shows "\<exists>g b' d. Split_internal N x t b = Inr (g, x\<lparr>cur_size := int (length L)\<rparr>, b') \<and>
    pool_view (insert n D - set (map snd R)) ((parents n (map snd R) c)(n := d)) (P(n := P n + 1)) (n + 1) k b' \<and> held b' n g \<and> keeps P b b' \<and>
    internal_page N (internal_max_size t) (parent_page_id x) n R d \<and> P n = 0 \<and> 0 \<le> n"
proof -
  from new_page_view[OF v lim f] obtain g b1 where
    g: "new_page b = Inr (n, g, b1)" "pool_view D c (P(n := P n + 1)) (n + 1) k b1" "held b1 n g" "keeps P b b1" "0 \<le> n" "P n = 0" by blast
  let ?P = "P(n := P n + 1)" and ?m = "internal_max_size t"
  let ?r = "internal_Init n (parent_page_id x) ?m ((frame_internal N g b1)\<lparr>page_type := page_type x\<rparr>)"
  have n32: "in_range 32 n" "in_range 32 ?m" using lim g(5) s sizes_small[OF s] by (simp_all add: in_range_def max_page_id_def sizes_ok_def)
  have fr: "internal_fits N BUSTUB_PAGE_SIZE ?r"
    using frame_fits[OF g(2,3), of N] n32 x(3) by (simp add: internal_fits_def bpage_fits_def internal_Init_def in_range_def)
  note put = put_internal_ok[OF g(2,3) fr]
  let ?d0 = "store_internal ?r (c n)" and ?b2 = "put_internal g ?r b1"
  have h2: "held ?b2 n g" by (rule held_put[OF put(2) g(2) put(1) g(3)])
  have ff: "free_frames ?P k (Suc l)" by (rule free_frames_pin[OF f])
  have "length (internal_array ?r) = (BUSTUB_PAGE_SIZE - 24) div (N + 4)" using fr by (simp add: internal_fits_def)
  then have room: "length R \<le> length (internal_array ?r)" using internal_room[OF s] R(2) by linarith
  let ?c1 = "c(n := ?d0)"
  have new: "n \<notin> set (map snd R)" using ids(2) by (auto simp: list_all_iff)
  have below: "list_all (\<lambda>p. 0 \<le> p \<and> p < n + 1) (map snd R)" using ids(2) by (auto simp: list_all_iff)
  have empty: "cur_size (load_internal N (?c1 n)) = 0" "node_page_id (load_bpage (?c1 n)) = n"
    using put(3) by (simp_all add: internal_Init_def flip: load_internal_header(5)[of N])
  have fit: "length R \<le> length (internal_array (load_internal N (?c1 n)))" using put(3) room by simp
  have small: "int (length R) < 2 ^ 31" using R(2) sizes_small[OF s] by simp
  from internal_CopyNFrom_ok[OF put(1) h2 ff n32(1) empty fit small R(1) ids(1) new below] obtain b3 d arr where
    b3: "internal_CopyNFrom N R g ?b2 = Inr b3"
    "pool_view (insert n (insert n D) - set (map snd R)) ((parents n (map snd R) ?c1)(n := d)) ?P (n + 1) k b3" "keeps ?P ?b2 b3"
    "length d = BUSTUB_PAGE_SIZE" "load_internal N d = (load_internal N (?c1 n))\<lparr>internal_array := arr, cur_size := int (length R)\<rparr>"
    "arr_holds arr (int (length R)) R" by blast
  have min: "GetMinSize x = int (length L)"
    using half s x(2,4) by (simp add: GetMinSize_def IsLeafPage_def sizes_ok_def sdiv_two)
  have "array_read (internal_array x) (int (length L)) (int (length L) + (cur_size x - int (length L))) = Inr R"
    using arr_read[of "internal_array x" "cur_size x" L R] x(1) by (simp add: internal_holds_def)
  then have "internal_MoveHalfTo N x g ?b2 = Inr (x\<lparr>cur_size := int (length L)\<rparr>, b3)"
    using b3(1) min by (simp add: internal_MoveHalfTo_def Let_def)
  then have "Split_internal N x t b = Inr (g, x\<lparr>cur_size := int (length L)\<rparr>, b3)" using g(1) by (simp add: Split_internal_def Let_def)
  moreover have "(parents n (map snd R) (c(n := ?d0)))(n := d) = (parents n (map snd R) c)(n := d)" by (auto simp: parents_def fun_eq_iff)
  moreover have pin: "0 < ?P n" using g(6) by simp
  have "held b3 n g" by (rule keeps_heldI[OF b3(3) h2 pin b3(2) pin])
  moreover have "keeps ?P b1 ?b2" by (rule keeps_from_held[OF put(2) g(2)])
  then have "keeps P b b3" using keeps_trans[OF g(4) keeps_mono[OF keeps_trans[OF _ b3(3)] pin_more]] by blast
  moreover have "internal_page N ?m (parent_page_id x) n R d"
    using b3(4-6) put(3) x(2) by (simp add: internal_page_def internal_Init_def internal_holds_def)
  ultimately show ?thesis using b3(2) g(5,6) unfolding insert_absorb2
    by (intro exI[of _ g] exI[of _ b3] exI[of _ d]) simp
qed

section \<open>A new root\<close>

text \<open>The header page has no record of the index, so updating it changes nothing.\<close>

definition header_ok :: "bptree \<Rightarrow> (int \<Rightarrow> byte list) \<Rightarrow> bool" where
  "header_ok t c \<longleftrightarrow> length (index_name t) < 32 \<and> FindRecord (index_name t) (c 0) = Inr (- 1)"

lemma UpdateRoot_ok:
  assumes v: "pool_view D c P n k b" and n: "0 < n" and f: "free_frames P k (Suc l)" and h: "header_ok t c"
  shows "\<exists>b'. UpdateRootPageId 0 t b = Inr b' \<and> pool_view (D - {0}) c P n k b' \<and> keeps P b b'"
proof -
  from fetch_view[OF v _ n f] obtain g b1 where g: "fetch 0 b = Inr (g, b1)" "pool_view D c (P(0 := P 0 + 1)) n k b1" "held b1 0 g" "keeps_held b b1"
    by auto
  have data: "frame_data g b1 = c 0" by (rule view_read[OF g(2,3)])
  have len: "length (c 0) = BUSTUB_PAGE_SIZE" by (rule view_length[OF g(2,3)])
  note put = view_put[OF g(2,3) len]
  have same: "c(0 := c 0) = c" by simp
  have v1: "pool_view (insert 0 D) c (P(0 := P 0 + 1)) n k (frame_put g (c 0) b1)" using put(1) unfolding same .
  from unpin_back[OF v1 f, of True] obtain b2 where b2: "unpin 0 True (frame_put g (c 0) b1) = Inr b2"
    "pool_view (insert 0 D - {0}) c P n k b2" "resident b2 = resident (frame_put g (c 0) b1)" by auto
  have "UpdateRootPageId 0 t b = Inr b2"
    using g(1) b2(1) h by (simp add: UpdateRootPageId_def HEADER_PAGE_ID_def UpdateRecord_def data header_ok_def guard_r_def)
  moreover have "keeps P b1 (frame_put g (c 0) b1)" by (rule keeps_mono[OF keeps_from_held[OF put(2) g(2)] pin_more])
  then have "keeps P b b2" using keeps_trans[OF keeps_from_held[OF g(4) v]] keeps_trans keeps_resident[OF b2(3)] by blast
  ultimately show ?thesis using b2(2) by simp
qed

lemma new_root_ok:
  assumes v: "pool_view D c P n k b" and lim: "0 < n" "n \<le> max_page_id" and f: "free_frames P k (Suc l)" and s: "sizes_ok N t" and hdr: "header_ok t c"
    and p: "held b p fp" "node_page_id (load_bpage (c p)) = p" and q: "held b q fq" "node_page_id (load_bpage (c q)) = q"
    and ids: "p \<noteq> q" "p < n" "q < n" "0 < p" "0 < q" and key: "length key = N"
  shows "\<exists>b' d D' gk. new_root N fp key fq t b = Inr (t\<lparr>root_page_id := n\<rparr>, b') \<and>
    pool_view D' (c(n := d, p := with_parent n (c p), q := with_parent n (c q))) P (n + 1) k b' \<and> D' \<subseteq> insert p (insert q D) \<and> keeps P b b' \<and>
    length gk = N \<and> internal_page N (internal_max_size t) INVALID_PAGE_ID n [(gk, p), (key, q)] d"
proof -
  let ?P = "P(n := P n + 1)" and ?m = "internal_max_size t"
  have pinp: "0 < P p" "0 < P q" using view_pins[OF v p(1)] view_pins[OF v q(1)] by simp_all
  from new_page_view[OF v lim(2) f] obtain h b1 where
    h: "new_page b = Inr (n, h, b1)" "pool_view D c ?P (n + 1) k b1" "held b1 n h" "keeps P b b1" "P n = 0" by blast
  have hp: "held b1 p fp" "held b1 q fq" using keeps_heldI[OF h(4) p(1) pinp(1) h(2)] keeps_heldI[OF h(4) q(1) pinp(2) h(2)] pinp ids by simp_all
  let ?t = "t\<lparr>root_page_id := n\<rparr>"
  let ?r = "internal_Init n INVALID_PAGE_ID ?m (frame_internal N h b1)"
  have n32: "in_range 32 n" "in_range 32 ?m" "in_range 32 (- 1)"
    using lim s sizes_small[OF s] by (simp_all add: in_range_def max_page_id_def sizes_ok_def)
  have fr: "internal_fits N BUSTUB_PAGE_SIZE ?r"
    using frame_fits[OF h(2,3), of N] n32 by (simp add: internal_fits_def bpage_fits_def internal_Init_def in_range_def INVALID_PAGE_ID_def)
  have "length (internal_array ?r) = (BUSTUB_PAGE_SIZE - 24) div (N + 4)" using fr by (simp add: internal_fits_def)
  then have two: "2 \<le> length (internal_array ?r)" using internal_room[OF s] s unfolding sizes_ok_def by linarith
  have keys: "list_all (\<lambda>e. length (fst e) = N) (internal_array ?r)" using fr by (auto simp: internal_fits_def internal_elem_def list_all_iff)
  from PopulateNewRoot_ok[OF two key keys, of p q] obtain arr gk where
    arr: "PopulateNewRoot p key q ?r = Inr (?r\<lparr>internal_array := arr, cur_size := 2\<rparr>)" "length arr = length (internal_array ?r)"
    "arr_holds arr 2 [(gk, p), (key, q)]" "length gk = N" "set arr \<subseteq> {(gk, p), (key, q)} \<union> set (internal_array ?r)" by blast
  let ?x = "?r\<lparr>internal_array := arr, cur_size := 2\<rparr>"
  have pq32: "in_range 32 p" "in_range 32 q"
    using p(2) q(2) int_at_range[of 20 "c p"] int_at_range[of 20 "c q"] view_length[OF v p(1)] view_length[OF v q(1)]
    by (auto simp: load_bpage_def BUSTUB_PAGE_SIZE_def)
  have fx: "internal_fits N BUSTUB_PAGE_SIZE ?x"
    using fr arr(2,4,5) key pq32 by (auto simp: internal_fits_def bpage_fits_def in_range_def internal_elem_def list_all_iff)
  note put = put_internal_ok[OF h(2,3) fx]
  let ?d = "store_internal ?x (c n)" and ?b2 = "put_internal h ?x b1" and ?c2 = "c(n := store_internal ?x (c n))"
  have h2: "held ?b2 n h" "held ?b2 p fp" "held ?b2 q fq" using held_put[OF put(2) h(2) put(1)] h(3) hp by blast+
  have hid: "node_page_id (frame_node h ?b2) = n"
    using view_read[OF put(1) h2(1)] put(3) by (simp add: frame_node_def internal_Init_def flip: load_internal_header(5)[of N])
  note put3 = put_parent_ok[OF put(1) h2(2) n32(1)]
  let ?b3 = "put_node fp ((frame_node fp ?b2)\<lparr>parent_page_id := n\<rparr>) ?b2" and ?c3 = "?c2(p := with_parent n (?c2 p))"
  have h3: "held ?b3 n h" "held ?b3 q fq" using held_put[OF put3(2) put(1) put3(1)] h2 by blast+
  have hid3: "node_page_id (frame_node h ?b3) = n"
    using view_read[OF put3(1) h3(1)] put(3) ids by (simp add: frame_node_def internal_Init_def flip: load_internal_header(5)[of N])
  note put4 = put_parent_ok[OF put3(1) h3(2) n32(1)]
  let ?b4 = "put_node fq ((frame_node fq ?b3)\<lparr>parent_page_id := n\<rparr>) ?b3" and ?c4 = "?c3(q := with_parent n (?c3 q))"
  have h4: "held ?b4 n h" using held_put[OF put4(2) put3(1) put4(1)] h3 by blast
  have c4: "?c4 = c(n := ?d, p := with_parent n (c p), q := with_parent n (c q))" using ids by (auto simp: fun_eq_iff)
  from unpin_back[OF put4(1) f, of True] obtain b5 where b5: "unpin n True ?b4 = Inr b5"
    "pool_view (insert q (insert p (insert n D)) - {n}) ?c4 P (n + 1) k b5" "resident b5 = resident ?b4" by auto
  have "header_ok ?t ?c4" using hdr lim(1) ids by (simp add: header_ok_def)
  from UpdateRoot_ok[OF b5(2) _ f this] lim obtain b6 where b6: "UpdateRootPageId 0 ?t b5 = Inr b6"
    "pool_view (insert q (insert p (insert n D)) - {n} - {0}) ?c4 P (n + 1) k b6" "keeps P b5 b6" by auto
  have nodes: "node_page_id (frame_node fp b1) = p" "node_page_id (frame_node fq b1) = q"
    using view_read[OF h(2) hp(1)] view_read[OF h(2) hp(2)] p(2) q(2) by (simp_all add: frame_node_def)
  have "new_root N fp key fq t b = Inr (?t, b6)"
    using h(1) arr(1) b5(1) b6(1) nodes hid hid3 view_id[OF put4(1) h4] by (simp add: new_root_def Let_def)
  moreover have k: "keeps ?P b1 ?b4"
    by (rule keeps_trans[OF keeps_from_held[OF put(2) h(2)] keeps_trans[OF keeps_from_held[OF put3(2) put(1)] keeps_from_held[OF put4(2) put3(1)]]])
  have "keeps P b b6"
    by (rule keeps_trans[OF h(4) keeps_trans[OF keeps_mono[OF k pin_more] keeps_trans[OF keeps_resident[OF b5(3)] b6(3)]]])
  moreover have "internal_page N ?m INVALID_PAGE_ID n [(gk, p), (key, q)] ?d"
    using put(3,4) arr(3) by (simp add: internal_page_def internal_holds_def internal_Init_def)
  moreover have "insert q (insert p (insert n D)) - {n} - {0} \<subseteq> insert p (insert q D)" by auto
  ultimately show ?thesis using b6(2) arr(4) unfolding c4 by blast
qed

end
