(* ===== verification/B_Plus_Parent.thy ===== *)
theory B_Plus_Parent
  imports B_Plus_Split
begin

section \<open>The temporary copy of a full page\<close>

lemma get_at_take: "off + w \<le> m \<Longrightarrow> get_at off w (take m d) = get_at off w d"
  by (simp add: get_at_def drop_take min_def)

lemma cells_take: "0 < w \<Longrightarrow> off + j * w \<le> m \<Longrightarrow> m \<le> length d \<Longrightarrow> take j (cells off w (take m d)) = take j (cells off w d)"
proof -
  assume w: "0 < w" and m: "off + j * w \<le> m" "m \<le> length d"
  have "j * w \<le> m - off" "j * w \<le> length d - off" using m by simp_all
  then have le: "j \<le> (m - off) div w" "j \<le> (length d - off) div w" using w by (simp_all add: less_eq_div_iff_mult_less_eq)
  have "get_at (off + i * w) w (take m d) = get_at (off + i * w) w d" if "i < j" for i
  proof -
    have "Suc i * w \<le> j * w" using that by (intro mult_le_mono1) simp
    then have "off + i * w + w \<le> m" using m(1) by simp
    then show ?thesis by (rule get_at_take)
  qed
  moreover have "[0..<(m - off) div w] = [0..<j] @ [j..<(m - off) div w]" "[0..<(length d - off) div w] = [0..<j] @ [j..<(length d - off) div w]"
    using le by (metis le0 le_add_diff_inverse upt_add_eq_append)+
  ultimately show ?thesis using m(2) by (simp add: cells_def min_absorb2)
qed

lemma arr_holds_take: "arr_holds arr n es \<longleftrightarrow> n = int (length es) \<and> take (length es) arr = es"
  unfolding arr_holds_def by (metis append_eq_conv_conj append_take_drop_id)

text \<open>The header and the first elements of a page are in its first bytes.\<close>

lemma load_bpage_take: "24 \<le> m \<Longrightarrow> load_bpage (take m d) = load_bpage d"
  by (simp add: load_bpage_def int_at_def get_at_take)

lemma internal_take:
  assumes "24 + length es * (N + 4) \<le> m" "m \<le> length d"
  shows "internal_holds (load_internal N (take m d)) es \<longleftrightarrow> internal_holds (load_internal N d) es"
proof -
  have "take (length es) (cells 24 (N + 4) (take m d)) = take (length es) (cells 24 (N + 4) d)" using cells_take[OF _ assms] by simp
  then have "take (length es) (internal_array (load_internal N (take m d))) = take (length es) (internal_array (load_internal N d))"
    by (simp add: load_internal_def internal.defs bpage.defs take_map INTERNAL_PAGE_HEADER_SIZE_def)
  then show ?thesis using load_bpage_take[of m d] assms(1) by (simp add: internal_holds_def arr_holds_take load_internal_header)
qed

lemma internal_prefix:
  assumes "take m d = take m d'" "24 + length es * (N + 4) \<le> m" "m \<le> length d" "m \<le> length d'"
  shows "internal_holds (load_internal N d) es = internal_holds (load_internal N d') es" and "load_bpage d = load_bpage d'"
  using internal_take[OF assms(2,3)] internal_take[OF assms(2,4)] load_bpage_take[of m d] load_bpage_take[of m d'] assms(1,2) by simp_all

lemma copy_page_ok:
  assumes h: "internal_holds (load_internal N d) es" and n: "copy_size N (int (length es)) \<le> length d"
  shows "\<exists>mem. copy_page N d (int (length es)) = Inr mem \<and> internal_holds (load_internal N mem) es \<and> load_bpage mem = load_bpage d \<and>
    internal_fits N (length mem) (load_internal N mem) \<and> 24 \<le> length mem \<and> length es < length (internal_array (load_internal N mem)) \<and>
    length mem = 24 + (N + 8) * Suc (length es)"
proof -
  let ?m = "copy_size N (int (length es))"
  let ?mem = "take ?m d @ replicate (copy_size N (int (length es) + 1) - ?m) 0"
  have m: "?m = 24 + (N + 8) * length es" "copy_size N (int (length es) + 1) = 24 + (N + 8) * Suc (length es)"
    by (simp_all add: copy_size_def INTERNAL_PAGE_HEADER_SIZE_def nat_add_distrib)
  then have len: "length ?mem = 24 + (N + 8) * Suc (length es)" using n by simp
  have pre: "take ?m ?mem = take ?m d" using n by simp
  have "length es * (N + 4) \<le> (N + 8) * length es" by simp
  then have fit: "24 + length es * (N + 4) \<le> ?m" "?m \<le> length ?mem" using m len by simp_all
  note same = internal_prefix[OF pre fit n]
  have fits: "internal_fits N (length ?mem) (load_internal N ?mem)" using len by (intro load_internal_fits) simp
  have "Suc (length es) * (N + 4) \<le> (N + 8) * Suc (length es)" by (simp add: algebra_simps)
  then have "Suc (length es) \<le> (N + 8) * Suc (length es) div (N + 4)" by (simp only: less_eq_div_iff_mult_less_eq)
  moreover have "length (internal_array (load_internal N ?mem)) = (24 + (N + 8) * Suc (length es) - 24) div (N + 4)"
    using fits unfolding internal_fits_def len by blast
  ultimately have "length es < length (internal_array (load_internal N ?mem))" by (simp only: add_diff_cancel_left' Suc_le_eq)
  moreover have "copy_page N d (int (length es)) = Inr ?mem" using n by (simp add: copy_page_def)
  ultimately show ?thesis using same h fits len by (intro exI[of _ ?mem]) simp
qed

lemma copy_back_ok:
  assumes x: "internal_holds (load_internal N mem) es" and d: "copy_size N (int (length es)) \<le> length d" "copy_size N (int (length es)) \<le> length mem"
  shows "\<exists>d'. copy_back N mem (int (length es)) d = Inr d' \<and> internal_holds (load_internal N d') es \<and> load_bpage d' = load_bpage mem \<and> length d' = length d"
proof -
  let ?m = "copy_size N (int (length es))"
  let ?d = "take ?m mem @ drop ?m d"
  have len: "length ?d = length d" using d by simp
  have "?m = 24 + (N + 8) * length es" by (simp add: copy_size_def INTERNAL_PAGE_HEADER_SIZE_def)
  moreover have "length es * (N + 4) \<le> (N + 8) * length es" by simp
  ultimately have fit: "24 + length es * (N + 4) \<le> ?m" by linarith
  have "take ?m ?d = take ?m mem" using d by simp
  from internal_prefix[OF this fit _ d(2)] show ?thesis using x d len by (simp add: copy_back_def)
qed

section \<open>Children with a new parent\<close>

lemma heads_ids: "set (map snd (heads ts)) \<subseteq> set (sub_ids ts)"
proof (induction ts)
  case (Cons x ts)
  obtain k t where x: "x = (k, t)" by (cases x)
  then show ?case using Cons bt_id_in[of t] by auto
qed simp

lemma heads_distinct: "distinct (sub_ids ts) \<Longrightarrow> distinct (map snd (heads ts))"
proof (induction ts)
  case (Cons x ts)
  obtain k t where x: "x = (k, t)" by (cases x)
  then show ?case using Cons heads_ids[of ts] bt_id_in[of t] by auto
qed simp

lemma children_moved:
  assumes R: "\<forall>y\<in>set R. length (fst y) = N \<and> tree_at N lmax imax c p (snd y)" and d: "distinct (sub_ids R)" and m: "in_range 32 m"
    and c: "\<And>q. q \<in> set (sub_ids R) \<Longrightarrow> c' q = parents m (map snd (heads R)) c q"
  shows "\<forall>y\<in>set R. length (fst y) = N \<and> tree_at N lmax imax c' m (snd y)"
proof
  fix y assume y: "y \<in> set R"
  obtain k t where kt: "y = (k, t)" by (cases y)
  from y obtain R1 R2 where R12: "R = R1 @ (k, t) # R2" using kt by (metis in_set_conv_decomp)
  have dt: "distinct (bt_ids t)" and sub: "set (bt_ids t) \<subseteq> set (sub_ids R)" using d R12 by auto
  have own: "bt_id t \<in> set (map snd (heads R))" using R12 by simp
  have "c' q = c q" if q: "q \<in> set (bt_ids t) - {bt_id t}" for q
  proof -
    have "q \<notin> set (map snd (heads R))" using q d R12 heads_ids[of R1] heads_ids[of R2] by auto
    then show ?thesis using c[of q] q sub by (metis DiffD1 parents_simps subsetD)
  qed
  moreover have "c' (bt_id t) = with_parent m (c (bt_id t))" using c[of "bt_id t"] own sub bt_id_in[of t] by (auto simp: parents_def)
  ultimately have "tree_at N lmax imax c' m t" using R y kt by (intro tree_at_new_parent[OF _ dt m]) auto
  then show "length (fst y) = N \<and> tree_at N lmax imax c' m (snd y)" using R y kt by auto
qed

lemma children_same:
  assumes "\<forall>y\<in>set L. length (fst y) = N \<and> tree_at N lmax imax c p (snd y)" "\<And>q. q \<in> set (sub_ids L) \<Longrightarrow> c' q = c q"
  shows "\<forall>y\<in>set L. length (fst y) = N \<and> tree_at N lmax imax c' p (snd y)"
proof
  fix y assume y: "y \<in> set L"
  have "\<forall>q\<in>set (bt_ids (snd y)). c q = c' q" using y sub_ids_in[of "fst y" "snd y" L] assms(2) by auto
  from tree_at_cong[OF this, of N lmax imax p] show "length (fst y) = N \<and> tree_at N lmax imax c' p (snd y)" using assms(1) y by simp
qed

section \<open>Splitting a full parent\<close>

lemma arr_holds_prefix: "arr_holds arr n (a @ b) \<Longrightarrow> arr_holds arr (int (length a)) a"
  by (auto simp: arr_holds_def)

lemma internal_fits_update:
  assumes "internal_fits N m x" "arr_change X (internal_array x) arr" "\<And>y. y \<in> X \<Longrightarrow> internal_elem N y" "in_range 32 n"
  shows "internal_fits N m (x\<lparr>internal_array := arr, cur_size := n\<rparr>)"
  using assms arr_change_elems[OF assms(2), of "internal_elem N"]
  by (simp add: internal_fits_def bpage_fits_def arr_change_def)

lemma internal_size: "internal_holds x es \<Longrightarrow> cur_size x = int (length es)"
  by (simp add: internal_holds_def arr_holds_def)

lemma internal_page_header:
  "internal_page N imax par p es d \<longleftrightarrow> length d = BUSTUB_PAGE_SIZE \<and> page_type (load_bpage d) = type_number INTERNAL_PAGE \<and>
     node_page_id (load_bpage d) = p \<and> parent_page_id (load_bpage d) = par \<and> max_size (load_bpage d) = imax \<and> internal_holds (load_internal N d) es"
  by (simp add: internal_page_def load_internal_header)

lemma copy_size_le: "sizes_ok N t \<Longrightarrow> int n \<le> internal_max_size t \<Longrightarrow> copy_size N (int n) \<le> BUSTUB_PAGE_SIZE"
proof -
  assume s: "sizes_ok N t" and n: "int n \<le> internal_max_size t"
  have "(int N + 8) * int n \<le> (int N + 8) * internal_max_size t" using n by (intro mult_left_mono) simp_all
  also have "\<dots> \<le> 4072" using s by (simp add: sizes_ok_def BUSTUB_PAGE_SIZE_def)
  finally have "int ((N + 8) * n) \<le> int 4072" unfolding of_nat_mult by simp
  then have "(N + 8) * n \<le> 4072" unfolding of_nat_le_iff .
  then show ?thesis by (simp add: copy_size_def INTERNAL_PAGE_HEADER_SIZE_def BUSTUB_PAGE_SIZE_def)
qed

text \<open>The new child enters a copy of the page, whose first half then replaces the page.\<close>

lemma split_copy_ok:
  assumes page: "internal_page N (internal_max_size t) par p (A @ (x, i) # B) d" and i: "i \<notin> snd ` set A" and key: "internal_elem N (key, j)"
    and LR: "L @ R = A @ (x, i) # (key, j) # B" and half: "int (length L) = (internal_max_size t + 1) div 2"
    and full: "int (length A + length B) + 1 = internal_max_size t" and s: "sizes_ok N t"
  shows "\<exists>mem copy. copy_page N d (cur_size (load_internal N d)) = Inr mem \<and> InsertNodeAfter i key j (load_internal N mem) = Inr copy \<and>
    internal_holds copy (L @ R) \<and> page_type copy = type_number INTERNAL_PAGE \<and> max_size copy = internal_max_size t \<and>
    parent_page_id copy = par \<and> (\<forall>d2. length d2 = BUSTUB_PAGE_SIZE \<longrightarrow>
      (\<exists>dp. copy_back N (store_internal (copy\<lparr>cur_size := int (length L)\<rparr>) mem) (int (length L)) d2 = Inr dp \<and>
        internal_page N (internal_max_size t) par p L dp))"
proof -
  let ?es = "A @ (x, i) # B"
  have es: "int (length ?es) = internal_max_size t" using full by simp
  have d: "length d = BUSTUB_PAGE_SIZE" and hd: "internal_holds (load_internal N d) ?es" using page by (simp_all add: internal_page_def)
  have "copy_size N (int (length ?es)) \<le> length d" unfolding d by (rule copy_size_le[OF s]) (use es in simp)
  from copy_page_ok[OF hd this] obtain mem where mem: "copy_page N d (int (length ?es)) = Inr mem" "internal_holds (load_internal N mem) ?es"
    "load_bpage mem = load_bpage d" "internal_fits N (length mem) (load_internal N mem)" "24 \<le> length mem"
    "length ?es < length (internal_array (load_internal N mem))" "length mem = 24 + (N + 8) * Suc (length ?es)" by blast
  have "cur_size (load_internal N mem) < int (length (internal_array (load_internal N mem)))" using mem(6) internal_size[OF mem(2)] by simp
  from InsertNodeAfter_ok[OF mem(2) i this, of key j] obtain arr where
    arr: "InsertNodeAfter i key j (load_internal N mem) = Inr ((load_internal N mem)\<lparr>internal_array := arr, cur_size := cur_size (load_internal N mem) + 1\<rparr>)"
    "arr_change {(key, j)} (internal_array (load_internal N mem)) arr" "arr_holds arr (cur_size (load_internal N mem) + 1) (L @ R)"
    unfolding LR by blast
  let ?copy = "(load_internal N mem)\<lparr>internal_array := arr, cur_size := cur_size (load_internal N mem) + 1\<rparr>"
  let ?half = "(load_internal N mem)\<lparr>internal_array := arr, cur_size := int (length L)\<rparr>"
  have "length (L @ R) = Suc (length ?es)" unfolding LR by simp
  then have len: "int (length L) \<le> internal_max_size t" using half s unfolding sizes_ok_def by linarith
  have fits: "internal_fits N (length mem) ?half"
    by (rule internal_fits_update[OF mem(4) arr(2)]) (use key len sizes_small[OF s] in \<open>auto simp: in_range_def\<close>)
  from load_store_internal[OF fits mem(5)] have st: "load_internal N (store_internal ?half mem) = ?half" "length (store_internal ?half mem) = length mem"
    by simp_all
  have L: "internal_holds (load_internal N (store_internal ?half mem)) L" using arr_holds_prefix[OF arr(3)] st(1) by (simp add: internal_holds_def)
  have "copy_size N (int (length L)) = 24 + (N + 8) * length L" by (simp add: copy_size_def INTERNAL_PAGE_HEADER_SIZE_def)
  also have "\<dots> \<le> 24 + (N + 8) * Suc (length ?es)" using len es by (intro add_left_mono mult_le_mono2) linarith
  finally have lm: "copy_size N (int (length L)) \<le> length (store_internal ?half mem)" using mem(7) st(2) by simp
  have hdr: "load_bpage (store_internal ?half mem) = (load_bpage mem)\<lparr>cur_size := int (length L)\<rparr>"
    using st(1) load_internal_header[of N "store_internal ?half mem"] load_internal_header[of N mem] by (intro bpage.equality) simp_all
  have "\<exists>dp. copy_back N (store_internal (?copy\<lparr>cur_size := int (length L)\<rparr>) mem) (int (length L)) d2 = Inr dp \<and>
        internal_page N (internal_max_size t) par p L dp" if d2: "length d2 = BUSTUB_PAGE_SIZE" for d2
  proof -
    have "copy_size N (int (length L)) \<le> length d2" unfolding d2 by (rule copy_size_le[OF s len])
    from copy_back_ok[OF L this lm] hdr mem(3) page d2 show ?thesis by (auto simp: internal_page_header)
  qed
  then show ?thesis using mem(1,3) arr(1,3) page internal_size[OF hd]
    by (intro exI[of _ mem] exI[of _ ?copy]) (simp add: internal_holds_def internal_page_header load_internal_header)
qed

text \<open>A full node splits: the second half of its children goes to the new page \<open>n\<close>.\<close>

lemma split_parent_ok:
  assumes v: "pool_view D c P n k b" and h: "held b p h" and lim: "n \<le> max_page_id" and f: "free_frames P k (Suc (Suc l))" and s: "sizes_ok N t"
    and page: "internal_page N (internal_max_size t) par p (heads a @ (x, bt_id s) # heads r) (c p)"
    and kids: "\<forall>y\<in>set (a @ (x, s) # (key, u) # r). length (fst y) = N \<and> tree_at N lmax (internal_max_size t) c p (snd y)"
    and LR: "L @ (k', w) # R = a @ (x, s) # (key, u) # r" and half: "int (length L) = (internal_max_size t + 1) div 2"
    and full: "int (length a + length r) + 1 = internal_max_size t"
    and ids: "distinct (p # sub_ids (a @ (x, s) # (key, u) # r))" "list_all (\<lambda>q. 0 < q \<and> q < n) (p # sub_ids (a @ (x, s) # (key, u) # r))"
  shows "\<exists>mem copy g b2 dp c2 D2. copy_page N (c p) (cur_size (load_internal N (c p))) = Inr mem \<and>
    InsertNodeAfter (bt_id s) key (bt_id u) (load_internal N mem) = Inr copy \<and>
    Split_internal N copy t b = Inr (g, copy\<lparr>cur_size := int (length L)\<rparr>, b2) \<and>
    GetMinSize (copy\<lparr>cur_size := int (length L)\<rparr>) = int (length L) \<and> internal_KeyAt 0 (frame_internal N g b2) = Inr k' \<and>
    copy_back N (store_internal (copy\<lparr>cur_size := int (length L)\<rparr>) mem) (int (length L)) (frame_data h b2) = Inr dp \<and>
    pool_view D2 c2 (P(n := P n + 1)) (n + 1) k (frame_put h dp b2) \<and> D2 \<subseteq> insert p (insert n D) \<and>
    held (frame_put h dp b2) p h \<and> held (frame_put h dp b2) n g \<and> keeps P b (frame_put h dp b2) \<and>
    tree_at N lmax (internal_max_size t) c2 par (BNode p L) \<and> tree_at N lmax (internal_max_size t) c2 par (BNode n ((k', w) # R)) \<and>
    P n = 0 \<and> (\<forall>q. q \<noteq> p \<longrightarrow> q \<noteq> n \<longrightarrow> next_leaf (c2 q) = next_leaf (c q)) \<and>
    (\<forall>q. q \<noteq> p \<longrightarrow> q \<noteq> n \<longrightarrow> q \<notin> set (sub_ids (a @ (x, s) # (key, u) # r)) \<longrightarrow> c2 q = c q)"
proof -
  let ?m = "internal_max_size t" and ?ts = "a @ (x, s) # (key, u) # r" and ?R = "(k', w) # R" and ?P = "P(n := P n + 1)"
  have sub: "sub_ids ?ts = sub_ids L @ sub_ids ?R" by (simp only: LR[symmetric] sub_simps(3))
  have pn: "0 \<le> n" "p \<noteq> n" "n \<notin> set (sub_ids ?ts)" "p \<notin> set (sub_ids ?ts)" using ids by (auto simp: list_all_iff)
  have hR: "set (map snd (heads ?R)) \<subseteq> set (sub_ids ?ts)" using heads_ids[of ?R] unfolding sub set_append by blast
  have below: "0 < q \<and> q < n" if "q \<in> set (sub_ids ?ts)" for q using ids(2) that unfolding list_all_iff by simp
  have i32: "in_range 32 q" if "0 \<le> q" "q \<le> n" for q using that lim by (simp add: in_range_def max_page_id_def)
  have "set (map snd (heads ?ts)) \<subseteq> set (sub_ids ?ts)" by (rule heads_ids)
  then have elem: "internal_elem N e" if "e \<in> set (heads ?ts)" for e
  proof -
    have "snd e \<in> set (sub_ids ?ts)" using \<open>set (map snd (heads ?ts)) \<subseteq> set (sub_ids ?ts)\<close> that unfolding set_map by blast
    then have "in_range 32 (snd e)" using below i32 by (meson less_imp_le)
    moreover have "\<exists>y\<in>set ?ts. fst e = fst y" using that unfolding heads_def by force
    ultimately show ?thesis using kids by (auto simp: internal_elem_def simp del: set_append)
  qed
  have hs: "heads ?ts = heads a @ (x, bt_id s) # (key, bt_id u) # heads r" by simp
  have hLR: "heads L @ heads ?R = heads ?ts" unfolding LR[symmetric] by simp
  have new: "bt_id s \<notin> snd ` set (heads a)" using ids(1) heads_ids[of a] bt_id_in[of s] by auto
  have "internal_elem N (key, bt_id u)" using elem[of "(key, bt_id u)"] by simp
  from split_copy_ok[OF page new this hLR[unfolded hs] _ _ s] half full obtain mem copy where
    m: "copy_page N (c p) (cur_size (load_internal N (c p))) = Inr mem" "InsertNodeAfter (bt_id s) key (bt_id u) (load_internal N mem) = Inr copy"
      "internal_holds copy (heads L @ heads ?R)" "page_type copy = type_number INTERNAL_PAGE" "max_size copy = ?m" "parent_page_id copy = par"
      "\<And>d2. length d2 = BUSTUB_PAGE_SIZE \<Longrightarrow> \<exists>dp. copy_back N (store_internal (copy\<lparr>cur_size := int (length L)\<rparr>) mem) (int (length L)) d2 = Inr dp \<and>
        internal_page N ?m par p (heads L) dp" by auto
  have pid: "parent_page_id (load_bpage (c p)) = par" using page by (simp add: internal_page_header)
  have par: "in_range 32 par" using int_at_range[of 16 "c p"] view_length[OF v h] pid by (simp add: load_bpage_def BUSTUB_PAGE_SIZE_def)
  have "length ?ts = length L + Suc (length R)" by (simp only: LR[symmetric]) simp
  then have lenR: "int (length (heads ?R)) \<le> ?m" using half full s unfolding sizes_ok_def by simp
  have dR: "distinct (map snd (heads ?R))" using ids(1) unfolding sub by (intro heads_distinct) simp
  have rR: "list_all (\<lambda>q. 0 \<le> q \<and> q < n) (map snd (heads ?R))" using hR below by (fastforce simp: list_all_iff)
  have eR: "list_all (internal_elem N) (heads ?R)" unfolding list_all_iff using elem hLR by (metis Un_iff set_append)
  have hl: "int (length (heads L)) = (?m + 1) div 2" using half by simp
  from Split_internal_ok[OF v lim f m(3,4) par[folded m(6)] m(5) hl s eR lenR dR rR] obtain g b2 d where
    g: "Split_internal N copy t b = Inr (g, copy\<lparr>cur_size := int (length L)\<rparr>, b2)"
      "pool_view (insert n D - set (map snd (heads ?R))) ((parents n (map snd (heads ?R)) c)(n := d)) ?P (n + 1) k b2" "held b2 n g" "keeps P b b2"
      "internal_page N ?m par n (heads ?R) d" "P n = 0" unfolding m(6) by (auto simp del: heads_simps(2))
  let ?c1 = "(parents n (map snd (heads ?R)) c)(n := d)"
  have pin: "0 < P p" "0 < ?P p" using view_pins[OF v h] pn(2) by simp_all
  have h2: "held b2 p h" by (rule keeps_heldI[OF g(4) h pin(1) g(2) pin(2)])
  have len2: "length (frame_data h b2) = BUSTUB_PAGE_SIZE" using view_length[OF g(2) h2] view_read[OF g(2) h2] by simp
  from m(7)[OF len2] obtain dp where dp: "copy_back N (store_internal (copy\<lparr>cur_size := int (length L)\<rparr>) mem) (int (length L)) (frame_data h b2) = Inr dp"
    "internal_page N ?m par p (heads L) dp" by blast
  have "length dp = BUSTUB_PAGE_SIZE" using dp(2) by (simp add: internal_page_def)
  note put = view_put[OF g(2) h2 this]
  let ?c2 = "?c1(p := dp)"
  have key: "internal_KeyAt 0 (frame_internal N g b2) = Inr k'"
    using internal_KeyAt_ok[of "frame_internal N g b2" "heads ?R" 0] g(5) view_read[OF g(2,3)] by (simp add: frame_internal_def internal_page_def)
  have held: "held (frame_put h dp b2) p h" "held (frame_put h dp b2) n g" using held_put[OF put(2) g(2) put(1)] h2 g(3) by blast+
  have "keeps ?P b2 (frame_put h dp b2)" by (rule keeps_from_held[OF put(2) g(2)])
  then have k: "keeps P b (frame_put h dp b2)" by (rule keeps_trans[OF g(4) keeps_mono[OF _ pin_more]])
  have c2: "?c2 q = parents n (map snd (heads ?R)) c q" if "q \<in> set (sub_ids ?ts)" for q using that pn by auto
  have kidsL: "\<forall>y\<in>set L. length (fst y) = N \<and> tree_at N lmax ?m c p (snd y)" and kidsR: "\<forall>y\<in>set ?R. length (fst y) = N \<and> tree_at N lmax ?m c p (snd y)"
    using kids unfolding LR[symmetric] by simp_all
  have "set (sub_ids L) \<inter> set (sub_ids ?R) = {}" using ids(1) unfolding sub by simp
  then have "q \<notin> set (map snd (heads ?R))" "q \<in> set (sub_ids ?ts)" if "q \<in> set (sub_ids L)" for q
    using that heads_ids[of ?R] unfolding sub set_append by blast+
  then have "?c2 q = c q" if "q \<in> set (sub_ids L)" for q using that c2 parents_simps by metis
  from children_same[OF kidsL this] have L: "\<forall>y\<in>set L. length (fst y) = N \<and> tree_at N lmax ?m ?c2 p (snd y)" by blast
  have "distinct (sub_ids ?R)" using ids(1) unfolding sub by simp
  from children_moved[OF kidsR this i32[OF pn(1) order_refl], of ?c2] c2
  have R: "\<forall>y\<in>set ?R. length (fst y) = N \<and> tree_at N lmax ?m ?c2 n (snd y)" unfolding sub by (simp del: sub_simps(2) fun_upd_apply)
  have "1 \<le> int (length L)" "int (length L) \<le> ?m" using half s unfolding sizes_ok_def by linarith+
  then have nL: "L \<noteq> []" "int (length L) \<le> ?m" "int (length ?R) \<le> ?m" using lenR by auto
  have t1: "tree_at N lmax ?m ?c2 par (BNode p L)" using dp(2) nL L by simp
  have t2: "tree_at N lmax ?m ?c2 par (BNode n ?R)" using g(5) nL(3) R pn(2) by simp
  have nl: "next_leaf (?c2 q) = next_leaf (c q)" if "q \<noteq> p" "q \<noteq> n" for q
  proof (cases "q \<in> set (map snd (heads ?R))")
    case True
    then obtain y where y: "y \<in> set ?R" "q = bt_id (snd y)" unfolding heads_def set_map image_image by (auto simp only: case_prod_beta snd_conv)
    then have "length (c q) = BUSTUB_PAGE_SIZE" using kidsR tree_at_node[of N lmax ?m c p "snd y" q] bt_id_in[of "snd y"] by blast
    then show ?thesis using True that with_parent(5)[OF _ i32[OF pn(1) order_refl], of "c q"] by (simp add: parents_def)
  qed (use that in simp)
  have un: "?c2 q = c q" if "q \<noteq> p" "q \<noteq> n" "q \<notin> set (sub_ids ?ts)" for q
  proof -
    have "q \<notin> set (map snd (heads ?R))" using that(3) hR by blast
    then show ?thesis using that(1,2) by (simp only: fun_upd_apply if_False parents_simps not_False_eq_True)
  qed
  have min: "GetMinSize (copy\<lparr>cur_size := int (length L)\<rparr>) = int (length L)"
    using half s m(4,5) by (simp add: GetMinSize_def IsLeafPage_def sizes_ok_def sdiv_two)
  have D: "insert p (insert n D - set (map snd (heads ?R))) \<subseteq> insert p (insert n D)" by blast
  have "\<forall>q. q \<noteq> p \<longrightarrow> q \<noteq> n \<longrightarrow> next_leaf (?c2 q) = next_leaf (c q)"
    "\<forall>q. q \<noteq> p \<longrightarrow> q \<noteq> n \<longrightarrow> q \<notin> set (sub_ids ?ts) \<longrightarrow> ?c2 q = c q" using nl un by blast+
  note all = conjI[OF m(1) conjI[OF m(2) conjI[OF g(1) conjI[OF min conjI[OF key conjI[OF dp(1) conjI[OF put(1) conjI[OF D conjI[OF held(1)
    conjI[OF held(2) conjI[OF k conjI[OF t1 conjI[OF t2 conjI[OF g(6) conjI[OF this]]]]]]]]]]]]]]]
  show ?thesis
    by (rule exI[of _ mem], rule exI[of _ copy], rule exI[of _ g], rule exI[of _ b2], rule exI[of _ dp], rule exI[of _ ?c2],
        rule exI[of _ "insert p (insert n D - set (map snd (heads ?R)))"], rule all)
qed

section \<open>Entering a child into its parent\<close>

lemma parent_fits_ok:
  assumes v: "pool_view D c (P(p := P p + 1)) n k b" and h: "held b p h" and f: "free_frames P k (Suc l)" and s: "sizes_ok N t"
    and page: "internal_page N (internal_max_size t) par p (A @ (x, i) # B) (c p)" and i: "i \<notin> snd ` set A" and key: "internal_elem N (key, j)"
    and fit: "int (length A + length B) + 1 < internal_max_size t"
  shows "\<exists>y b' d. InsertNodeAfter i key j (frame_internal N h b) = Inr y \<and>
    unpin (frame_id h (put_internal h y b)) True (put_internal h y b) = Inr b' \<and> pool_view (insert p D - {p}) (c(p := d)) P n k b' \<and> keeps P b b' \<and>
    internal_page N (internal_max_size t) par p (A @ (x, i) # (key, j) # B) d"
proof -
  let ?x = "load_internal N (c p)"
  have hx: "frame_internal N h b = ?x" by (simp add: frame_internal_def view_read[OF v h])
  have fits: "internal_fits N BUSTUB_PAGE_SIZE ?x" using frame_fits[OF v h, of N] unfolding hx by blast
  have hold: "internal_holds ?x (A @ (x, i) # B)" using page by (simp add: internal_page_def)
  note size = internal_size[OF hold]
  have "length (internal_array ?x) = (BUSTUB_PAGE_SIZE - 24) div (N + 4)" using fits by (simp add: internal_fits_def)
  then have "cur_size ?x < int (length (internal_array ?x))" using internal_room[OF s] fit size by simp
  from InsertNodeAfter_ok[OF hold i this, of key j] obtain arr where
    arr: "InsertNodeAfter i key j ?x = Inr (?x\<lparr>internal_array := arr, cur_size := cur_size ?x + 1\<rparr>)" "arr_change {(key, j)} (internal_array ?x) arr"
      "arr_holds arr (cur_size ?x + 1) (A @ (x, i) # (key, j) # B)" by blast
  let ?y = "?x\<lparr>internal_array := arr, cur_size := cur_size ?x + 1\<rparr>"
  have fy: "internal_fits N BUSTUB_PAGE_SIZE ?y"
    by (rule internal_fits_update[OF fits arr(2)]) (use key fit sizes_small[OF s] size in \<open>auto simp: in_range_def\<close>)
  note put = put_internal_ok[OF v h fy]
  let ?d = "store_internal ?y (c p)" and ?b = "put_internal h ?y b"
  have h2: "held ?b p h" by (rule held_put[OF put(2) v put(1) h])
  from unpin_back[OF put(1) f, of True] obtain b' where b': "unpin p True ?b = Inr b'" "pool_view (insert p D - {p}) (c(p := ?d)) P n k b'"
    "resident b' = resident ?b" by auto
  have "keeps P b ?b" by (rule keeps_mono[OF keeps_from_held[OF put(2) v] pin_more])
  then have "keeps P b b'" using keeps_trans keeps_resident[OF b'(3)] by blast
  moreover have "internal_page N (internal_max_size t) par p (A @ (x, i) # (key, j) # B) ?d"
    using page put(3,4) arr(3) by (simp add: internal_page_def internal_holds_def)
  ultimately show ?thesis using arr(1) b'(1,2) view_id[OF put(1) h2] unfolding hx
    by (intro exI[of _ ?y] exI[of _ b'] exI[of _ ?d]) simp
qed

text \<open>Pages outside the tree stay as they are, and the links of the leaves too.\<close>

definition kept :: "zip list \<Rightarrow> bt \<Rightarrow> bt \<Rightarrow> int \<Rightarrow> (int \<Rightarrow> byte list) \<Rightarrow> (int \<Rightarrow> byte list) \<Rightarrow> bool" where
  "kept zs s u n c c' \<longleftrightarrow> (\<forall>q<n. q \<notin> fst ` set zs \<longrightarrow> next_leaf (c' q) = next_leaf (c q)) \<and>
     (\<forall>q<n. q \<notin> set (zip_ids zs @ bt_ids s @ bt_ids u) \<longrightarrow> c' q = c q)"

lemma zip_ids_fst: "fst ` set zs \<subseteq> set (zip_ids zs)"
  by (induction zs rule: zip_ids.induct) auto

lemma into_root_ok:
  assumes s: "sizes_ok N t" and "tree_at N lmax (internal_max_size t) c INVALID_PAGE_ID s" "tree_at N lmax (internal_max_size t) c INVALID_PAGE_ID u"
    and key: "length key = N" and ids: "distinct (bt_ids s @ bt_ids u)" "list_all (\<lambda>q. 0 < q \<and> q < n) (bt_ids s @ bt_ids u)"
    and v: "pool_view D c P n k b" and h: "held b (bt_id s) f" "held b (bt_id u) g" and hdr: "header_ok t c" and lim: "n \<le> max_page_id"
    and ff: "free_frames P k (Suc l)"
  shows "\<exists>b' c' D' gk. InsertIntoParent N f key g t b = Some (Inr (t\<lparr>root_page_id := n\<rparr>, b')) \<and> length gk = N \<and>
    pool_view D' c' P (n + 1) k b' \<and> D' \<subseteq> insert (bt_id s) (insert (bt_id u) D) \<and> keeps P b b' \<and>
    tree_at N lmax (internal_max_size t) c' INVALID_PAGE_ID (BNode n [(gk, s), (key, u)]) \<and> kept [] s u n c c'"
proof -
  let ?p = "bt_id s" and ?q = "bt_id u" and ?m = "internal_max_size t"
  note node = tree_at_node[OF assms(2) bt_id_in] tree_at_node[OF assms(3) bt_id_in]
  have pq: "?p \<noteq> ?q" "0 < ?p" "?p < n" "0 < ?q" "?q < n" using ids bt_id_in[of s] bt_id_in[of u] by (auto simp: list_all_iff)
  then have n0: "0 < n" by simp
  have n32: "in_range 32 n" using lim n0 by (simp add: in_range_def max_page_id_def)
  from new_root_ok[OF v n0 lim ff s hdr h(1) _ h(2) _ pq(1,3,5,2,4) key] node obtain b' d D' gk where
    r: "new_root N f key g t b = Inr (t\<lparr>root_page_id := n\<rparr>, b')"
      "pool_view D' (c(n := d, ?p := with_parent n (c ?p), ?q := with_parent n (c ?q))) P (n + 1) k b'"
      "D' \<subseteq> insert ?p (insert ?q D)" "keeps P b b'" "length gk = N" "internal_page N ?m INVALID_PAGE_ID n [(gk, ?p), (key, ?q)] d" by blast
  let ?c = "c(n := d, ?p := with_parent n (c ?p), ?q := with_parent n (c ?q))"
  have "parent_page_id (load_bpage (c ?p)) = INVALID_PAGE_ID" by (rule tree_at_parent[OF assms(2)])
  then have "IsRootPage (frame_node f b)" by (simp add: IsRootPage_def frame_node_def view_read[OF v h(1)])
  then have run: "InsertIntoParent N f key g t b = Some (Inr (t\<lparr>root_page_id := n\<rparr>, b'))" using r(1) by (simp add: InsertIntoParent.simps)
  have ns: "n \<notin> set (bt_ids s @ bt_ids u)" using ids(2) by (auto simp: list_all_iff)
  have "?c ?p = with_parent n (c ?p)" "\<forall>q\<in>set (bt_ids s) - {?p}. ?c q = c q" using pq(1) ns ids(1) bt_id_in[of u] by auto
  with tree_at_new_parent[OF assms(2) _ n32] ids(1) have t1: "tree_at N lmax ?m ?c n s" unfolding distinct_append by blast
  have "?c ?q = with_parent n (c ?q)" "\<forall>q\<in>set (bt_ids u) - {?q}. ?c q = c q" using ns ids(1) bt_id_in[of s] by auto
  with tree_at_new_parent[OF assms(3) _ n32] ids(1) have t2: "tree_at N lmax ?m ?c n u" unfolding distinct_append by blast
  have "?c n = d" using pq by simp
  then have tree: "tree_at N lmax ?m ?c INVALID_PAGE_ID (BNode n [(gk, s), (key, u)])"
    using r(5,6) key t1 t2 s by (simp add: sizes_ok_def del: fun_upd_apply)
  have "next_leaf (?c q) = next_leaf (c q)" if "q < n" for q
    using that node with_parent(5)[OF _ n32] by simp
  moreover have "?c q = c q" if "q < n" "q \<notin> set (bt_ids s @ bt_ids u)" for q
    using that bt_id_in[of s] bt_id_in[of u] by auto
  ultimately have "kept [] s u n c ?c" by (simp add: kept_def del: fun_upd_apply)
  then show ?thesis using run r(2-5) tree by blast
qed

lemma into_split_ids:
  assumes LR: "L @ (k', w) # R = a @ (x, s) # (key, u) # r"
    and ids: "distinct (zip_ids ((p, a, x, r) # zs) @ bt_ids s @ bt_ids u)" "list_all (\<lambda>q. 0 < q \<and> q < n) (zip_ids ((p, a, x, r) # zs) @ bt_ids s @ bt_ids u)"
  shows "distinct (zip_ids zs @ bt_ids (BNode p L) @ bt_ids (BNode n ((k', w) # R)))"
    and "list_all (\<lambda>q. 0 < q \<and> q < n + 1) (zip_ids zs @ bt_ids (BNode p L) @ bt_ids (BNode n ((k', w) # R)))"
    and "distinct (p # sub_ids (a @ (x, s) # (key, u) # r))" and "list_all (\<lambda>q. 0 < q \<and> q < n) (p # sub_ids (a @ (x, s) # (key, u) # r))"
    and "set (sub_ids (a @ (x, s) # (key, u) # r)) \<inter> set (zip_ids zs) = {}"
proof -
  let ?ts = "a @ (x, s) # (key, u) # r" and ?R = "(k', w) # R"
  have sub: "sub_ids ?ts = sub_ids L @ sub_ids ?R" by (simp only: LR[symmetric] sub_simps(3))
  show A: "distinct (p # sub_ids ?ts)" "list_all (\<lambda>q. 0 < q \<and> q < n) (p # sub_ids ?ts)" "set (sub_ids ?ts) \<inter> set (zip_ids zs) = {}"
    using ids by auto
  have "p \<notin> set (zip_ids zs)" "distinct (zip_ids zs)" and lt: "list_all (\<lambda>q. 0 < q \<and> q < n) (zip_ids zs)" using ids by simp_all
  moreover have "n \<notin> set (sub_ids ?ts)" "n \<notin> set (zip_ids zs)" "n \<noteq> p" and pos: "0 < p" "p < n" using ids(2) by (auto simp: list_all_iff)
  ultimately show "distinct (zip_ids zs @ bt_ids (BNode p L) @ bt_ids (BNode n ?R))" using A unfolding node_simps sub by (auto simp del: sub_simps(2))
  have n0: "0 < n" using pos by simp
  have "list_all (\<lambda>q. 0 < q \<and> q < n) (sub_ids L @ sub_ids ?R)" using A(2) unfolding sub by simp
  moreover have more: "list_all (\<lambda>q. 0 < q \<and> q < n + 1) qs" if "list_all (\<lambda>q. 0 < q \<and> q < n) qs" for qs
    using that by (auto simp: list_all_iff)
  ultimately show "list_all (\<lambda>q. 0 < q \<and> q < n + 1) (zip_ids zs @ bt_ids (BNode p L) @ bt_ids (BNode n ?R))"
    using more[OF lt] more[of "sub_ids L @ sub_ids ?R"] pos n0 unfolding node_simps by (simp del: sub_simps(2))
qed

lemma kept_split:
  assumes LR: "L @ (k', w) # R = a @ (x, s) # (key, u) # r" and "\<forall>q. q \<noteq> p \<longrightarrow> q \<noteq> n \<longrightarrow> next_leaf (c2 q) = next_leaf (c q)"
    and "\<forall>q. q \<noteq> p \<longrightarrow> q \<noteq> n \<longrightarrow> q \<notin> set (sub_ids (a @ (x, s) # (key, u) # r)) \<longrightarrow> c2 q = c q"
    and "kept zs (BNode p L) (BNode n ((k', w) # R)) (n + 1) c2 c3"
  shows "kept ((p, a, x, r) # zs) s u n c c3"
proof -
  have sub: "sub_ids (a @ (x, s) # (key, u) # r) = sub_ids L @ sub_ids ((k', w) # R)" by (simp only: LR[symmetric] sub_simps(3))
  have "c3 q = c2 q" if "q < n" "q \<noteq> p" "q \<notin> set (zip_ids zs)" "q \<notin> set (sub_ids (a @ (x, s) # (key, u) # r))" for q
    using assms(4) that unfolding kept_def node_simps sub by simp
  then show ?thesis using assms(2-4) by (auto simp: kept_def)
qed

lemma split_at: "l < length ts \<Longrightarrow> \<exists>L x y R. L @ (x, y) # R = ts \<and> length L = l"
  using id_take_nth_drop[of l ts]
  by (intro exI[of _ "take l ts"] exI[of _ "fst (ts ! l)"] exI[of _ "snd (ts ! l)"] exI[of _ "drop (Suc l) ts"]) simp

lemma InsertIntoParent_ok:
  assumes sz: "sizes_ok N t"
  shows "ctx_at N lmax (internal_max_size t) c (bt_id s) zs \<Longrightarrow> tree_at N lmax (internal_max_size t) c (zip_parent zs) s \<Longrightarrow>
    tree_at N lmax (internal_max_size t) c (zip_parent zs) u \<Longrightarrow> length key = N \<Longrightarrow> distinct (zip_ids zs @ bt_ids s @ bt_ids u) \<Longrightarrow>
    list_all (\<lambda>q. 0 < q \<and> q < n) (zip_ids zs @ bt_ids s @ bt_ids u) \<Longrightarrow> pool_view D c P n k b \<Longrightarrow> held b (bt_id s) f \<Longrightarrow> held b (bt_id u) g \<Longrightarrow>
    header_ok t c \<Longrightarrow> n + int (length zs) \<le> max_page_id \<Longrightarrow> free_frames P k (2 * length zs + 1) \<Longrightarrow>
    (zs \<noteq> [] \<longrightarrow> root_page_id t = fst (last zs)) \<Longrightarrow>
    \<exists>b' c' n' D' T. InsertIntoParent N f key g t b = Some (Inr (t\<lparr>root_page_id := bt_id T\<rparr>, b')) \<and>
      grown N (internal_max_size t) n zs s key u n' T \<and> pool_view D' c' P n' k b' \<and> D' \<subseteq> insert (bt_id s) (insert (bt_id u) D) \<and>
      keeps P b b' \<and> tree_at N lmax (internal_max_size t) c' INVALID_PAGE_ID T \<and> kept zs s u n c c'"
proof (induction zs arbitrary: s key u f g b c D P n)
  case Nil
  from into_root_ok[OF sz _ _ Nil(4) _ _ Nil(7-10), of lmax "2 * length ([] :: zip list)"] Nil obtain b' c' D' gk where
    r: "InsertIntoParent N f key g t b = Some (Inr (t\<lparr>root_page_id := n\<rparr>, b'))" "length gk = N"
    "pool_view D' c' P (n + 1) k b'" "D' \<subseteq> insert (bt_id s) (insert (bt_id u) D)" "keeps P b b'"
    "tree_at N lmax (internal_max_size t) c' INVALID_PAGE_ID (BNode n [(gk, s), (key, u)])" "kept [] s u n c c'" by (auto simp del: tree_at.simps)
  then show ?case using grown.root[OF r(2), of "internal_max_size t" n s key u]
    by (intro exI[of _ b'] exI[of _ c'] exI[of _ "n + 1"] exI[of _ D'] exI[of _ "BNode n [(gk, s), (key, u)]"]) simp
next
  case (Cons z zs)
  obtain p a x r where z: "z = (p, a, x, r)" by (cases z) auto
  let ?m = "internal_max_size t" and ?P = "P(p := P p + 1)"
  have page: "internal_page N ?m (zip_parent zs) p (heads a @ (x, bt_id s) # heads r) (c p)" and xN: "length x = N" and le: "int (length a + length r) + 1 \<le> ?m"
    and around: "\<forall>y\<in>set a \<union> set r. length (fst y) = N \<and> tree_at N lmax ?m c p (snd y)" and above: "ctx_at N lmax ?m c p zs"
    using Cons.prems(1) z by simp_all
  have tu: "tree_at N lmax ?m c p s" "tree_at N lmax ?m c p u" using Cons.prems(2,3) z by simp_all
  have p: "0 < p" "p < n" using Cons.prems(6) z by simp_all
  have ff: "free_frames P k (Suc (Suc (Suc (2 * length zs))))" using Cons.prems(12) by simp
  from fetch_view[OF Cons.prems(7) _ p(2) ff] p(1) obtain h b1 where
    h: "fetch p b = Inr (h, b1)" "pool_view D c ?P n k b1" "held b1 p h" "keeps_held b b1" by auto
  have k1: "keeps P b b1" by (rule keeps_from_held[OF h(4) Cons.prems(7)])
  have pins: "0 < P (bt_id s)" "0 < P (bt_id u)" using view_pins[OF Cons.prems(7)] Cons.prems(8,9) by blast+
  have fg: "held b1 (bt_id s) f" "held b1 (bt_id u) g"
    using keeps_view[OF h(4) Cons.prems(8) h(2) pin_more[of P, OF pins(1)]] keeps_view[OF h(4) Cons.prems(9) h(2) pin_more[of P, OF pins(2)]] by blast+
  note node = tree_at_node[OF tu(1) bt_id_in] tree_at_node[OF tu(2) bt_id_in]
  have ids: "node_page_id (frame_node f b1) = bt_id s" "node_page_id (frame_node g b1) = bt_id u"
    using node view_read[OF h(2) fg(1)] view_read[OF h(2) fg(2)] by (simp_all add: frame_node_def)
  have par: "parent_page_id (frame_node f b) = p" using tree_at_parent[OF tu(1)] view_read[OF Cons.prems(7,8)] by (simp add: frame_node_def)
  then have inner: "\<not> IsRootPage (frame_node f b)" using p(1) by (simp add: IsRootPage_def INVALID_PAGE_ID_def)
  have hp: "frame_internal N h b1 = load_internal N (c p)" and hd: "frame_data h b1 = c p"
    using view_read[OF h(2,3)] by (simp_all add: frame_internal_def)
  have size: "cur_size (load_internal N (c p)) = int (length a + length r) + 1"
    using page internal_size[of "load_internal N (c p)" "heads a @ (x, bt_id s) # heads r"] by (simp add: internal_page_def)
  have root: "t\<lparr>root_page_id := fst (last (z # zs))\<rparr> = t" using Cons.prems(13) by simp
  show ?case
  proof (cases "int (length a + length r) + 1 < ?m")
    case True
    have new: "bt_id s \<notin> snd ` set (heads a)" using Cons.prems(5) heads_ids[of a] bt_id_in[of s] z by auto
    have "bt_id u < n" "0 < bt_id u" using Cons.prems(6) bt_id_in[of u] by (auto simp: list_all_iff)
    then have elem: "internal_elem N (key, bt_id u)" using Cons.prems(4,11) by (simp add: internal_elem_def in_range_def max_page_id_def)
    have "int (length (heads a) + length (heads r)) + 1 < ?m" using True by simp
    from parent_fits_ok[OF h(2,3) ff sz page new elem this] obtain y b2 d where
      y: "InsertNodeAfter (bt_id s) key (bt_id u) (frame_internal N h b1) = Inr y" "unpin (frame_id h (put_internal h y b1)) True (put_internal h y b1) = Inr b2"
      "pool_view (insert p D - {p}) (c(p := d)) P n k b2" "keeps P b1 b2"
      "internal_page N ?m (zip_parent zs) p (heads a @ (x, bt_id s) # (key, bt_id u) # heads r) d" by blast
    let ?T = "plug zs (BNode p (a @ (x, s) # (key, u) # r))" and ?c = "c(p := d)"
    have run: "InsertIntoParent N f key g t b = Some (Inr (t, b2))"
      using inner par h(1) ids hp size True y(1,2) by (subst InsertIntoParent.simps) (simp add: Let_def)
    have same: "\<forall>q\<in>set (zip_ids zs). c q = ?c q" "\<And>q. q \<in> set (sub_ids (a @ (x, s) # (key, u) # r)) \<Longrightarrow> ?c q = c q" using Cons.prems(5) z by auto
    have kids: "\<forall>y\<in>set (a @ (x, s) # (key, u) # r). length (fst y) = N \<and> tree_at N lmax ?m c p (snd y)" using around tu xN Cons.prems(4) by auto
    from children_same[OF kids, of ?c, OF same(2)] have "tree_at N lmax ?m ?c (zip_parent zs) (BNode p (a @ (x, s) # (key, u) # r))" using y(5) True by simp
    moreover have "ctx_at N lmax ?m ?c p zs" by (rule iffD1[OF ctx_at_cong[OF same(1)] above])
    ultimately have T: "tree_at N lmax ?m ?c INVALID_PAGE_ID ?T" unfolding tree_at_plug by simp
    have bt: "bt_id ?T = fst (last (z # zs))" using z by (simp add: bt_id_plug)
    have "kept (z # zs) s u n c ?c" using z by (simp add: kept_def)
    then show ?thesis using run y(3) keeps_trans[OF k1 y(4)] T grown.fits[OF True, of N n p x zs s key u] root z unfolding bt[symmetric]
      by (intro exI[of _ b2] exI[of _ ?c] exI[of _ n] exI[of _ "insert p D - {p}"] exI[of _ ?T]) (auto simp del: fun_upd_apply)
  next
    case False
    then have full: "int (length a + length r) + 1 = ?m" using le by simp
    let ?ts = "a @ (x, s) # (key, u) # r"
    let ?l = "nat ((?m + 1) div 2)"
    have "?l < length ?ts" and half: "int ?l = (?m + 1) div 2" using full sz unfolding sizes_ok_def by simp_all
    from split_at[OF this(1)] obtain L k' w R where LR: "L @ (k', w) # R = ?ts" and "length L = ?l" by blast
    then have half: "int (length L) = (?m + 1) div 2" using half by simp
    note sp = into_split_ids[OF LR Cons.prems(5,6)[unfolded z]]
    have kids: "\<forall>y\<in>set ?ts. length (fst y) = N \<and> tree_at N lmax ?m c p (snd y)" using around tu xN Cons.prems(4) by auto
    have lim: "n \<le> max_page_id" using Cons.prems(11) by simp
    from split_parent_ok[OF h(2,3) lim free_frames_pin[OF ff] sz page kids LR half full sp(3,4)] obtain mem copy e b2 dp c2 D2 where
      e: "copy_page N (c p) (cur_size (load_internal N (c p))) = Inr mem" "InsertNodeAfter (bt_id s) key (bt_id u) (load_internal N mem) = Inr copy"
        "Split_internal N copy t b1 = Inr (e, copy\<lparr>cur_size := int (length L)\<rparr>, b2)"
        "GetMinSize (copy\<lparr>cur_size := int (length L)\<rparr>) = int (length L)" "internal_KeyAt 0 (frame_internal N e b2) = Inr k'"
        "copy_back N (store_internal (copy\<lparr>cur_size := int (length L)\<rparr>) mem) (int (length L)) (frame_data h b2) = Inr dp"
        "pool_view D2 c2 (?P(n := ?P n + 1)) (n + 1) k (frame_put h dp b2)" "D2 \<subseteq> insert p (insert n D)"
        "held (frame_put h dp b2) p h" "held (frame_put h dp b2) n e" "keeps ?P b1 (frame_put h dp b2)"
        "tree_at N lmax ?m c2 (zip_parent zs) (BNode p L)" "tree_at N lmax ?m c2 (zip_parent zs) (BNode n ((k', w) # R))"
        "\<forall>q. q \<noteq> p \<longrightarrow> q \<noteq> n \<longrightarrow> next_leaf (c2 q) = next_leaf (c q)"
        "\<forall>q. q \<noteq> p \<longrightarrow> q \<noteq> n \<longrightarrow> q \<notin> set (sub_ids ?ts) \<longrightarrow> c2 q = c q" by blast
    have "\<forall>q\<in>set (zip_ids zs). c q = c2 q" using e(15) sp(5) Cons.prems(5,6) z by (auto simp: list_all_iff)
    then have above2: "ctx_at N lmax ?m c2 (bt_id (BNode p L)) zs" using iffD1[OF ctx_at_cong above] by simp
    have "length k' = N" using kids unfolding LR[symmetric] by simp
    have keyN: "length k' = N" using kids unfolding LR[symmetric] by simp
    have lim2: "n + 1 + int (length zs) \<le> max_page_id" using Cons.prems(11) by simp
    let ?P2 = "?P(n := ?P n + 1)"
    have ff2: "free_frames ?P2 k (2 * length zs + 1)" using free_frames_pin[OF free_frames_pin[OF ff]] by simp
    have "c2 0 = c 0" using e(15) sp(4) p Cons.prems(6) by (auto simp: list_all_iff)
    then have hdr2: "header_ok t c2" using Cons.prems(10) by (simp add: header_ok_def)
    have root2: "zs \<noteq> [] \<longrightarrow> root_page_id t = fst (last zs)" using Cons.prems(13) by simp
    have held2: "held (frame_put h dp b2) (bt_id (BNode p L)) h" "held (frame_put h dp b2) (bt_id (BNode n ((k', w) # R))) e" using e(9,10) by simp_all
    from Cons.IH[OF above2 e(12,13) keyN sp(1,2) e(7) held2 hdr2 lim2 ff2 root2] obtain b3 c3 n3 D3 T where
      r: "InsertIntoParent N h k' e t (frame_put h dp b2) = Some (Inr (t\<lparr>root_page_id := bt_id T\<rparr>, b3))"
        "grown N ?m (n + 1) zs (BNode p L) k' (BNode n ((k', w) # R)) n3 T" "pool_view D3 c3 ?P2 n3 k b3" "D3 \<subseteq> insert p (insert n D2)"
        "keeps ?P2 (frame_put h dp b2) b3" "tree_at N lmax ?m c3 INVALID_PAGE_ID T" "kept zs (BNode p L) (BNode n ((k', w) # R)) (n + 1) c2 c3"
      unfolding bt_id.simps by blast
    have np: "n \<noteq> p" using p(2) by simp
    have pos: "0 \<le> P q" for q using free_frames_pos[OF ff] .
    have pin2: "0 < ?P2 p" "0 < ?P2 n" using pos[of p] pos[of n] np by simp_all
    have h3: "held b3 p h" "held b3 n e" using keeps_heldI[OF r(5) e(9) pin2(1) r(3) pin2(1)] keeps_heldI[OF r(5) e(10) pin2(2) r(3) pin2(2)] by blast+
    have "?P2 = (P(n := P n + 1))(p := (P(n := P n + 1)) p + 1)" using np by auto
    then have v3: "pool_view D3 c3 ((P(n := P n + 1))(p := (P(n := P n + 1)) p + 1)) n3 k b3" using r(3) by metis
    from unpin_back[OF v3 free_frames_pin[OF ff], of True] obtain b4 where b4: "unpin p True b3 = Inr b4"
      "pool_view (D3 - {p}) c3 (P(n := P n + 1)) n3 k b4" "resident b4 = resident b3" by auto
    have pin4: "0 < (P(n := P n + 1)) n" using pos[of n] by simp
    have h4: "held b4 n e" by (rule held_resident[OF h3(2) b4(3,2) pin4])
    have "n \<in># mset (bt_ids T)" unfolding grown_ids[OF r(2)] node_simps by simp
    then have "node_page_id (load_bpage (c3 n)) = n" using tree_at_node[OF r(6)] by simp
    then have nid: "node_page_id (frame_node e b4) = n" using view_read[OF b4(2) h4] by (simp add: frame_node_def)
    from unpin_back[OF b4(2) ff, of True] obtain b5 where b5: "unpin n True b4 = Inr b5" "pool_view (D3 - {p} - {n}) c3 P n3 k b5" "resident b5 = resident b4" by auto
    have "InsertIntoParent N f key g t b = Some (Inr (t\<lparr>root_page_id := bt_id T\<rparr>, b5))"
      using inner par h(1) ids hp hd size full e(1-6) r(1) b4(1) b5(1) nid view_id[OF r(3) h3(1)]
      by (subst InsertIntoParent.simps) (simp add: Let_def)
    moreover have "D3 - {p} - {n} \<subseteq> insert (bt_id s) (insert (bt_id u) D)" using r(4) e(8) by blast
    moreover have "keeps P b b5"
      using keeps_trans[OF k1 keeps_trans[OF keeps_mono[OF e(11) pin_more] keeps_trans[OF keeps_mono[OF keeps_mono[OF r(5) pin_more] pin_more]
        keeps_resident]]] b4(3) b5(3) by simp
    moreover have "grown N ?m n (z # zs) s key u n3 T" unfolding z by (rule grown.split[OF full LR half r(2)])
    moreover have "kept (z # zs) s u n c c3" unfolding z by (rule kept_split[OF LR e(14,15) r(7)])
    ultimately show ?thesis using b5(2) r(6) by blast
  qed
qed

end
