(* ===== verification/B_Plus_Insert.thy ===== *)
theory B_Plus_Insert
  imports B_Plus_Parent
begin

text \<open>
  \<open>Insert\<close> on a B+ tree: the descent keeps its pages pinned, the leaf takes the element, or splits and enters
  its second half into the nodes above. The tree then stands for the map with the key added.
\<close>

section \<open>A page that is stored as it was loaded\<close>

lemma swrap_mod: "0 < w \<Longrightarrow> swrap w z mod 2 ^ w = z mod 2 ^ w"
  by (simp add: swrap_def mod_diff_left_eq)

lemma put_int_get_int:
  assumes "0 < length bs"
  shows "put_int (length bs) (get_int bs) = bs" and "put_int (length bs) (int (get_uint bs)) = bs"
proof -
  have p: "(256::int) ^ length bs = 2 ^ (8 * length bs)" by (simp add: power_mult)
  have "int (le_nat bs) < int (256 ^ length bs)" using le_nat_bound[of bs] unfolding of_nat_less_iff .
  then have m: "int (le_nat bs) mod 256 ^ length bs = int (le_nat bs)" by simp
  then show "put_int (length bs) (int (get_uint bs)) = bs" by (simp add: put_int_def get_uint_def le_bytes_le_nat)
  have "get_int bs mod 256 ^ length bs = int (le_nat bs) mod 256 ^ length bs"
    unfolding p get_int_def using assms by (intro swrap_mod) simp
  then show "put_int (length bs) (get_int bs) = bs" using m by (simp add: put_int_def le_bytes_le_nat)
qed

lemma put_at_same: "off + w \<le> length d \<Longrightarrow> put_at off (get_at off w d) d = d"
  by (simp add: put_at_def get_at_def) (metis append.assoc append_take_drop_id take_add)

lemma page_set_same: "off + 4 \<le> length d \<Longrightarrow> page_set off (int_at off d) d = d"
proof -
  assume d: "off + 4 \<le> length d"
  then have "length (get_at off 4 d) = 4" by (simp add: get_at_def)
  then have "put_int 4 (int_at off d) = get_at off 4 d" using put_int_get_int(1)[of "get_at off 4 d"] by (simp add: int_at_def)
  then show ?thesis using put_at_same[OF d] by (simp add: page_set_def)
qed

lemma concat_cells: "concat (map (\<lambda>i. get_at (off + i * w) w d) [0..<k]) = get_at off (k * w) d"
proof (induction k)
  case (Suc k)
  have "get_at off (k * w + w) d = get_at off (k * w) d @ get_at (off + k * w) w d"
    unfolding get_at_def take_add drop_drop by (simp add: add.commute)
  moreover have "Suc k * w = k * w + w" by simp
  ultimately show ?case using Suc by (simp only: upt_Suc_append le0 map_append concat_append list.map concat.simps append_Nil2)
qed (simp add: get_at_def)

lemma cells_length: "c \<in> set (cells off w d) \<Longrightarrow> off \<le> length d \<Longrightarrow> length c = w"
proof -
  assume "c \<in> set (cells off w d)" and off: "off \<le> length d"
  then obtain i where i: "i < (length d - off) div w" "c = get_at (off + i * w) w d" by (auto simp: cells_def)
  have "(i + 1) * w \<le> (length d - off) div w * w" using i(1) by (intro mult_le_mono1) simp
  also have "\<dots> \<le> length d - off" by (rule div_times_less_eq_dividend)
  finally show "length c = w" using i(2) off by (simp add: get_at_def algebra_simps)
qed

lemma leaf_bytes_cell: "length bs = N + 8 \<Longrightarrow> leaf_bytes (leaf_cell N bs) = bs"
proof -
  assume bs: "length bs = N + 8"
  then have l: "length (get_at N 4 bs) = 4" "length (get_at (N + 4) 4 bs) = 4" by (simp_all add: get_at_def)
  have "leaf_bytes (leaf_cell N bs) = take N bs @ get_at N 4 bs @ get_at (N + 4) 4 bs"
    using put_int_get_int[of "get_at N 4 bs"] put_int_get_int[of "get_at (N + 4) 4 bs"] l by (simp add: leaf_bytes_def leaf_cell_def)
  also have "\<dots> = take (N + (4 + 4)) bs" unfolding get_at_def take_add drop_drop by (simp add: add.commute)
  finally show ?thesis using bs by simp
qed

lemma store_load_leaf:
  assumes d: "28 \<le> length d"
  shows "store_leaf (load_leaf N d) d = d"
proof -
  have "store_bpage (load_leaf N d) d = d" using d by (simp add: store_bpage_def load_leaf_header load_bpage_def page_set_same)
  moreover have "page_set 24 (next_leaf_id (load_leaf N d)) d = d" using d by (simp add: load_leaf_header next_leaf_def page_set_same)
  moreover have "map leaf_bytes (leaf_array (load_leaf N d)) = cells 28 (N + 8) d"
    using cells_length[of _ 28 "N + 8" d] d leaf_bytes_cell
    by (simp add: load_leaf_def leaf.defs bpage.defs LEAF_PAGE_HEADER_SIZE_def map_idI)
  then have "concat (map leaf_bytes (leaf_array (load_leaf N d))) = get_at 28 ((length d - 28) div (N + 8) * (N + 8)) d"
    by (simp only: cells_def concat_cells)
  moreover have "28 + (length d - 28) div (N + 8) * (N + 8) \<le> length d"
    using d div_times_less_eq_dividend[of "length d - 28" "N + 8"] by linarith
  ultimately show ?thesis unfolding store_leaf_def LEAF_PAGE_HEADER_SIZE_def using put_at_same[of 28 _ d] by simp
qed

section \<open>Finding the leaf\<close>

text \<open>The descent keeps every page that it visits pinned.\<close>

lemma add_pins_simps [simp]: "add_pins [] P = P" "add_pins (p # ps) P = (add_pins ps P)(p := add_pins ps P p + 1)"
  by (auto simp: add_pins_def fun_eq_iff)

lemma add_pins_more: "0 < P q \<Longrightarrow> 0 < add_pins ps P q"
  by (simp add: add_pins_def add_pos_nonneg)

lemma free_frames_path: "free_frames P k (length ps + m) \<Longrightarrow> free_frames (add_pins ps P) k m"
proof (induction ps arbitrary: m)
  case (Cons p ps)
  have "free_frames (add_pins ps P) k (Suc m)" by (rule Cons.IH) (use Cons.prems in simp)
  then show ?case using free_frames_pin by (simp del: fun_upd_apply)
qed simp

lemma plug_depth: "length zs + bt_height s \<le> bt_height (plug zs s)"
proof (induction zs arbitrary: s)
  case (Cons z zs)
  obtain p a x b where z: "z = (p, a, x, b)" by (cases z) auto
  have "Suc (bt_height s) \<le> bt_height (BNode p (a @ (x, s) # b))" by (rule bt_height_child[of x]) simp
  then show ?case using Cons[of "BNode p (a @ (x, s) # b)"] z by (simp del: bt_height.simps)
qed simp

lemma bt_height_pos: "1 \<le> bt_height s"
  by (cases s) simp_all

lemma FindLeaf_insert:
  assumes o: "key_order cmp K rank" and at: "index_at N c n T t" and ord: "bt_ord K rank T" and v: "pool_view {} c P n k b"
    and f: "free_frames P k (bt_height T + Suc m)" and key: "key \<in> K"
  shows "\<exists>zs q es f b'. FindLeaf N cmp key INSERT False False t b = Some (Inr (f, t, b')) \<and> plug zs (BLeaf q es) = T \<and>
    list_all (on_way rank (rank key)) zs \<and> tree_at N (leaf_max_size t) (internal_max_size t) c (zip_parent zs) (BLeaf q es) \<and>
    pool_view {} c (add_pins (q # map fst zs) P) n k b' \<and> held b' q f \<and> keeps P b b'"
proof -
  let ?Q = "\<lambda>zs s. plug zs s = T \<and> list_all (on_way rank (rank key)) zs"
  have root: "root_page_id t = bt_id T" "0 < bt_id T" "bt_id T < n" using index_at_root[OF at] at by (simp_all add: index_at_def)
  have "free_frames P k (Suc 0)" using free_frames_less[OF f] by simp
  from fetch_view[OF v _ root(3) this] root(2) obtain g b1 where
    g: "fetch (bt_id T) b = Inr (g, b1)" "pool_view {} c (P(bt_id T := P (bt_id T) + 1)) n k b1" "held b1 (bt_id T) g" "keeps_held b b1" by auto
  have step: "\<exists>a x s b. ts = a @ (x, s) # b \<and> child_of N cmp key False False (load_internal N (c p)) = Inr (bt_id s) \<and> ?Q ((p, a, x, b) # zs) s"
    if q: "?Q zs (BNode p ts)" "tree_at N (leaf_max_size t) (internal_max_size t) c (zip_parent zs) (BNode p ts)" for zs p ts
  proof -
    have "internal_holds (load_internal N (c p)) (heads ts)" using q(2) by (simp add: internal_page_def)
    moreover have "bt_ord K rank (BNode p ts)" using plug_ord ord q(1) by metis
    ultimately obtain a x s b where "ts = a @ (x, s) # b" "internal_Lookup cmp key (load_internal N (c p)) = Inr (bt_id s)"
      "on_way rank (rank key) (p, a, x, b)" using lookup_step[OF o _ key] by metis
    then show ?thesis using q(1)
      by (intro exI[of _ a] exI[of _ x] exI[of _ s] exI[of _ b]) (simp add: child_of_def)
  qed
  have free: "free_frames (path_pins INSERT zs (bt_id s) P) k 1" if "?Q zs s" for zs s
  proof -
    have "length (bt_id s # map fst zs) + 1 \<le> bt_height T + Suc m" using that plug_depth[of zs s] bt_height_pos[of s] by simp
    from free_frames_path[OF free_frames_less[OF f this]] show ?thesis by (simp add: path_pins_def del: add_pins_simps)
  qed
  have tree: "tree_at N (leaf_max_size t) (internal_max_size t) c (zip_parent []) T" "list_all (\<lambda>p. 0 < p \<and> p < n) (bt_ids T)" "?Q [] T"
    using at by (simp_all add: index_at_def)
  have P: "\<forall>q. 0 \<le> P q" using free_frames_pos[OF f] by blast
  have v1: "pool_view {} c (path_pins INSERT [] (bt_id T) P) n k b1" using g(2) by simp
  from find_loop_ok[where Q = ?Q and operation = INSERT, OF step free P tree v1 g(3)]
  obtain zs q es h b2 where h: "find_loop N cmp key INSERT False False g b1 = Some (Inr (h, b2))" "?Q zs (BLeaf q es)"
    "tree_at N (leaf_max_size t) (internal_max_size t) c (zip_parent zs) (BLeaf q es)"
    "pool_view {} c (path_pins INSERT zs q P) n k b2" "held b2 q h" "keeps P b1 b2" by (auto simp del: tree_at.simps)
  have "FindLeaf N cmp key INSERT False False t b = Some (Inr (h, t, b2))"
    using g(1) root h(1) by (simp add: FindLeaf_def guard_r_def INVALID_PAGE_ID_def)
  moreover have "pool_view {} c (add_pins (q # map fst zs) P) n k b2" using h(4) by (simp add: path_pins_def)
  ultimately show ?thesis using h(2,3,5) keeps_trans[OF keeps_from_held[OF g(4) v] h(6)] by blast
qed

section \<open>Splitting a leaf\<close>

lemma leaf_page_header:
  "leaf_page N lmax par p es d \<longleftrightarrow> length d = BUSTUB_PAGE_SIZE \<and> page_type (load_bpage d) = type_number LEAF_PAGE \<and>
     node_page_id (load_bpage d) = p \<and> parent_page_id (load_bpage d) = par \<and> max_size (load_bpage d) = lmax \<and> leaf_holds (load_leaf N d) es"
  by (simp add: leaf_page_def load_leaf_header)

lemma leaf_write:
  assumes v: "pool_view D c P n k b" and h: "held b p f" and l: "leaf_fits N BUSTUB_PAGE_SIZE l"
  shows "\<exists>d. pool_view (insert p D) (c(p := d)) P n k (put_leaf f l b) \<and> load_leaf N d = l \<and> length d = BUSTUB_PAGE_SIZE \<and>
    keeps P b (put_leaf f l b) \<and> (\<forall>q g. held b q g \<longrightarrow> held (put_leaf f l b) q g)"
  using put_leaf_ok[OF v h l] held_put[OF put_leaf_ok(2)[OF v h l] v put_leaf_ok(1)[OF v h l]] keeps_from_held[OF put_leaf_ok(2)[OF v h l] v]
  by blast

lemma Split_leaf_ok:
  assumes v: "pool_view D c P n k b" and h: "held b q f" and lim: "n \<le> max_page_id" and ff: "free_frames P k (Suc m)" and s: "sizes_ok N t"
    and page: "leaf_page N (leaf_max_size t) par q (A @ B) (c q)" and full: "int (length (A @ B)) = leaf_max_size t"
    and half: "int (length A) = leaf_max_size t div 2" and el: "list_all (leaf_elem N) B"
  shows "\<exists>g b1 d d'. Split_leaf N f t b = Inr (g, b1) \<and> pool_view (insert q (insert n D)) (c(q := d, n := d')) (P(n := P n + 1)) (n + 1) k b1 \<and>
    held b1 q f \<and> held b1 n g \<and> keeps P b b1 \<and> leaf_page N (leaf_max_size t) par q A d \<and> leaf_page N (leaf_max_size t) par n B d' \<and>
    next_leaf d = next_leaf (c q) \<and> q \<noteq> n"
proof -
  from new_page_view[OF v lim ff] obtain g b1 where
    g: "new_page b = Inr (n, g, b1)" "pool_view D c (P(n := P n + 1)) (n + 1) k b1" "held b1 n g" "keeps P b b1" "P n = 0" "0 \<le> n" by blast
  let ?P = "P(n := P n + 1)" and ?l = "load_leaf N (c q)" and ?r0 = "(frame_leaf N g b1)\<lparr>page_type := page_type (load_leaf N (c q))\<rparr>"
  let ?r = "leaf_Init n (parent_page_id ?l) (leaf_max_size t) ?r0"
  have pin: "0 < P q" "0 < ?P q" using view_pins[OF v h] pin_more[of P q n] by simp_all
  then have qn: "q \<noteq> n" using g(5) by auto
  have h1: "held b1 q f" by (rule keeps_heldI[OF g(4) h pin(1) g(2) pin(2)])
  have lq: "frame_leaf N f b1 = ?l" by (simp add: frame_leaf_def view_read[OF g(2) h1])
  have fl: "leaf_fits N BUSTUB_PAGE_SIZE ?l" using frame_fits[OF g(2) h1, of N] unfolding lq by blast
  have n32: "in_range 32 n" "in_range 32 (leaf_max_size t)" using lim g(6) s sizes_small[OF s] by (simp_all add: in_range_def max_page_id_def sizes_ok_def)
  have fr: "leaf_fits N BUSTUB_PAGE_SIZE ?r"
    using frame_fits[OF g(2,3), of N] fl n32 by (simp add: leaf_fits_def bpage_fits_def leaf_Init_def in_range_def INVALID_PAGE_ID_def)
  have hl: "leaf_holds ?l (A @ B)" "max_size ?l = int (length (A @ B))" "page_type ?l = type_number LEAF_PAGE" using page full by (simp_all add: leaf_page_def)
  then have min: "GetMinSize ?l = int (length A)" using half full s by (simp add: GetMinSize_def IsLeafPage_def sdiv_two)
  have "length (leaf_array ?r) = (BUSTUB_PAGE_SIZE - 28) div (N + 8)" using fr by (simp add: leaf_fits_def)
  then have room: "length B \<le> length (leaf_array ?r)" using leaf_room[OF s] full by simp
  have "leaf_holds ?r []" by (simp add: leaf_holds_def arr_holds_def leaf_Init_def)
  from leaf_MoveHalfTo_ok[OF hl(1,2) min this room] obtain arr where
    mv: "leaf_MoveHalfTo ?l ?r = Inr (?l\<lparr>cur_size := int (length A)\<rparr>, ?r\<lparr>leaf_array := arr, cur_size := int (length B)\<rparr>)"
      "arr_change (set B) (leaf_array ?r) arr" "arr_holds arr (int (length B)) B" by blast
  let ?l' = "?l\<lparr>cur_size := int (length A)\<rparr>" and ?r' = "?r\<lparr>leaf_array := arr, cur_size := int (length B)\<rparr>"
  have len: "int (length A) \<le> 4096" "int (length B) \<le> 4096" using full sizes_small[OF s] by simp_all
  have fl': "leaf_fits N BUSTUB_PAGE_SIZE ?l'" using fl len by (simp add: leaf_fits_def bpage_fits_def in_range_def)
  have fr': "leaf_fits N BUSTUB_PAGE_SIZE ?r'"
    by (rule leaf_fits_update[OF fr mv(2)]) (use el len in \<open>auto simp: list_all_iff in_range_def\<close>)
  from leaf_write[OF g(2) h1 fl'] obtain d where
    d: "pool_view (insert q D) (c(q := d)) ?P (n + 1) k (put_leaf f ?l' b1)" "load_leaf N d = ?l'" "length d = BUSTUB_PAGE_SIZE"
      "keeps ?P b1 (put_leaf f ?l' b1)" "\<forall>q g. held b1 q g \<longrightarrow> held (put_leaf f ?l' b1) q g" by blast
  have h2: "held (put_leaf f ?l' b1) n g" using d(5) g(3) by blast
  from leaf_write[OF d(1) h2 fr'] obtain d' where
    d': "pool_view (insert n (insert q D)) (c(q := d, n := d')) ?P (n + 1) k (put_leaf g ?r' (put_leaf f ?l' b1))" "load_leaf N d' = ?r'" "length d' = BUSTUB_PAGE_SIZE"
      "keeps ?P (put_leaf f ?l' b1) (put_leaf g ?r' (put_leaf f ?l' b1))" "\<forall>q h. held (put_leaf f ?l' b1) q h \<longrightarrow> held (put_leaf g ?r' (put_leaf f ?l' b1)) q h"
    by blast
  let ?b = "put_leaf g ?r' (put_leaf f ?l' b1)"
  have "Split_leaf N f t b = Inr (g, ?b)" using g(1) mv(1) by (simp add: Split_leaf_def Let_def lq)
  moreover have "held ?b q f" "held ?b n g" using d(5) d'(5) h1 h2 by blast+
  moreover have "keeps P b ?b" by (rule keeps_trans[OF g(4) keeps_mono[OF keeps_trans[OF d(4) d'(4)] pin_more]])
  moreover have "leaf_page N (leaf_max_size t) par q A d"
    using page d(2,3) arr_holds_prefix[of "leaf_array ?l" "cur_size ?l" A B] hl(1) by (simp add: leaf_page_def leaf_holds_def)
  moreover have "leaf_page N (leaf_max_size t) par n B d'" using page d'(2,3) mv(3) by (simp add: leaf_page_def leaf_holds_def leaf_Init_def)
  moreover have "next_leaf d = next_leaf (c q)" using d(2) load_leaf_header(6)[of N d] load_leaf_header(6)[of N "c q"] by simp
  moreover have "pool_view (insert q (insert n D)) (c(q := d, n := d')) ?P (n + 1) k ?b" using d'(1) unfolding insert_commute[of n q D] .
  ultimately show ?thesis using qn by (intro exI[of _ g] exI[of _ ?b] exI[of _ d] exI[of _ d'] conjI)
qed

text \<open>Linking the new leaf in.\<close>

lemma leaf_next_fits: "pool_view D c P n k b \<Longrightarrow> held b p f \<Longrightarrow> in_range 32 z \<Longrightarrow> leaf_fits N BUSTUB_PAGE_SIZE ((frame_leaf N f b)\<lparr>next_leaf_id := z\<rparr>)"
  using frame_fits[of D c P n k b p f N] by (simp add: leaf_fits_def bpage_fits_def)

lemma leaf_page_next: "leaf_page N lmax par p es d \<Longrightarrow> load_leaf N d' = (load_leaf N d)\<lparr>next_leaf_id := z\<rparr> \<Longrightarrow> length d' = BUSTUB_PAGE_SIZE \<Longrightarrow>
    leaf_page N lmax par p es d' \<and> next_leaf d' = z"
  using load_leaf_header(6)[of N d'] by (simp add: leaf_page_def leaf_holds_def)

lemma link_leaves_ok:
  assumes v: "pool_view D c P n k b" and q: "held b q f" and m: "held b m g" and qm: "q \<noteq> m" and m32: "in_range 32 m"
    and A: "leaf_page N lmax par q A (c q)" and B: "leaf_page N lmax par m B (c m)" "B \<noteq> []"
  shows "\<exists>b1 b2 d d'. b1 = put_leaf g ((frame_leaf N g b)\<lparr>next_leaf_id := next_leaf_id (frame_leaf N f b)\<rparr>) b \<and>
    b2 = put_leaf f ((frame_leaf N f b1)\<lparr>next_leaf_id := node_page_id (frame_node g b1)\<rparr>) b1 \<and>
    pool_view (insert q (insert m D)) (c(q := d, m := d')) P n k b2 \<and> held b2 q f \<and> held b2 m g \<and> keeps P b b2 \<and>
    leaf_page N lmax par q A d \<and> leaf_page N lmax par m B d' \<and> next_leaf d = m \<and> next_leaf d' = next_leaf (c q) \<and>
    leaf_KeyAt 0 (frame_leaf N g b2) = Inr (fst (hd B))"
proof -
  have rd: "frame_leaf N f b = load_leaf N (c q)" "frame_leaf N g b = load_leaf N (c m)"
    using view_read[OF v q] view_read[OF v m] by (simp_all add: frame_leaf_def)
  have "in_range 32 (next_leaf (c q))" using int_at_range[of 24 "c q"] view_length[OF v q] by (simp add: next_leaf_def BUSTUB_PAGE_SIZE_def)
  from leaf_write[OF v m leaf_next_fits[OF v m this, of N]] obtain d' where
    d': "pool_view (insert m D) (c(m := d')) P n k (put_leaf g ((frame_leaf N g b)\<lparr>next_leaf_id := next_leaf (c q)\<rparr>) b)"
      "load_leaf N d' = (load_leaf N (c m))\<lparr>next_leaf_id := next_leaf (c q)\<rparr>" "length d' = BUSTUB_PAGE_SIZE"
      "keeps P b (put_leaf g ((frame_leaf N g b)\<lparr>next_leaf_id := next_leaf (c q)\<rparr>) b)"
      "\<forall>p h. held b p h \<longrightarrow> held (put_leaf g ((frame_leaf N g b)\<lparr>next_leaf_id := next_leaf (c q)\<rparr>) b) p h" unfolding rd by blast
  let ?b1 = "put_leaf g ((frame_leaf N g b)\<lparr>next_leaf_id := next_leaf (c q)\<rparr>) b"
  note page' = leaf_page_next[OF B(1) d'(2,3)]
  have h1: "held ?b1 q f" "held ?b1 m g" using d'(5) q m by blast+
  have rd1: "frame_leaf N f ?b1 = load_leaf N (c q)" using view_read[OF d'(1) h1(1)] qm by (simp add: frame_leaf_def)
  have "frame_node g ?b1 = load_bpage d'" using view_read[OF d'(1) h1(2)] by (simp add: frame_node_def)
  then have id1: "node_page_id (frame_node g ?b1) = m" using page' by (simp add: leaf_page_header)
  from leaf_write[OF d'(1) h1(1) leaf_next_fits[OF d'(1) h1(1) m32, of N]] obtain d where
    d: "pool_view (insert q (insert m D)) (c(m := d', q := d)) P n k (put_leaf f ((frame_leaf N f ?b1)\<lparr>next_leaf_id := m\<rparr>) ?b1)"
      "load_leaf N d = (load_leaf N (c q))\<lparr>next_leaf_id := m\<rparr>" "length d = BUSTUB_PAGE_SIZE"
      "keeps P ?b1 (put_leaf f ((frame_leaf N f ?b1)\<lparr>next_leaf_id := m\<rparr>) ?b1)"
      "\<forall>p h. held ?b1 p h \<longrightarrow> held (put_leaf f ((frame_leaf N f ?b1)\<lparr>next_leaf_id := m\<rparr>) ?b1) p h" unfolding rd1 by blast
  let ?b2 = "put_leaf f ((frame_leaf N f ?b1)\<lparr>next_leaf_id := m\<rparr>) ?b1"
  have h2: "held ?b2 q f" "held ?b2 m g" using d(5) h1 by blast+
  have v2: "pool_view (insert q (insert m D)) (c(q := d, m := d')) P n k ?b2" using d(1) fun_upd_twist[OF qm, of c d d'] by (metis fun_upd_twist qm)
  have "frame_leaf N g ?b2 = load_leaf N d'" using view_read[OF v2 h2(2)] by (simp add: frame_leaf_def)
  moreover obtain e B' where "B = e # B'" using B(2) by (cases B) auto
  ultimately have "leaf_KeyAt 0 (frame_leaf N g ?b2) = Inr (fst (hd B))"
    using arr_get[of "leaf_array (load_leaf N d')" "cur_size (load_leaf N d')" B 0] page' by (simp add: leaf_KeyAt_def leaf_page_def leaf_holds_def)
  moreover have "next_leaf_id (frame_leaf N f b) = next_leaf (c q)" using rd(1) load_leaf_header(6) by simp
  ultimately show ?thesis using v2 h2 keeps_trans[OF d'(4) d(4)] leaf_page_next[OF A d(2,3)] page' id1
    by (intro exI[of _ ?b1] exI[of _ ?b2] exI[of _ d] exI[of _ d']) simp
qed

section \<open>The elements of the new tree\<close>

lemma items_map_insert:
  assumes "\<forall>e\<in>set (U @ W). rank (fst e) \<noteq> rank k"
  shows "items_map rank (U @ (k, v) # W) = (items_map rank (U @ W))(rank k \<mapsto> v)"
proof -
  have "items_map rank U (rank k) = None" using assms by (simp add: items_map_None)
  then show ?thesis unfolding items_map_append by (auto simp: fun_eq_iff items_map_def map_add_def split: option.split)
qed

lemma linked_split:
  "linked c (l @ q # r) z \<Longrightarrow> \<forall>p\<in>set (l @ r). next_leaf (c' p) = next_leaf (c p) \<Longrightarrow> next_leaf (c' q) = m \<Longrightarrow> next_leaf (c' m) = next_leaf (c q) \<Longrightarrow>
    linked c' (l @ q # m # r) z"
proof (induction l)
  case Nil
  have "linked c r z \<Longrightarrow> \<forall>p\<in>set r. next_leaf (c' p) = next_leaf (c p) \<Longrightarrow> linked c' r z" by (induction r) auto
  then show ?case using Nil by auto
next
  case (Cons x l)
  then show ?case by (cases l) auto
qed

lemma linked_same: "linked c ps z \<Longrightarrow> \<forall>p\<in>set ps. next_leaf (c' p) = next_leaf (c p) \<Longrightarrow> linked c' ps z"
  by (induction ps) auto

text \<open>The leaves beside a path are no nodes of it.\<close>

lemma sub_leaves_ids: "set (map fst (sub_leaves ts)) \<subseteq> set (sub_ids ts)"
proof (induction ts)
  case (Cons x ts)
  obtain k t where x: "x = (k, t)" by (cases x)
  then show ?case using Cons leaves_ids[of t] by auto
qed simp

lemma zip_leaves_in: "set (map fst (zip_left zs)) \<union> set (map fst (zip_right zs)) \<subseteq> set (zip_ids zs)"
proof (induction zs rule: zip_ids.induct)
  case (2 p a x b zs)
  then show ?case using sub_leaves_ids[of a] sub_leaves_ids[of b] by auto
qed simp

lemma path_apart: "X' = insert p X \<Longrightarrow> L' = L \<union> A \<Longrightarrow> R' = B \<union> R \<Longrightarrow> p \<notin> SA \<union> SB \<union> Z \<Longrightarrow> (SA \<union> SB) \<inter> Z = {} \<Longrightarrow> X \<subseteq> Z \<Longrightarrow> L \<union> R \<subseteq> Z \<Longrightarrow>
    A \<subseteq> SA \<Longrightarrow> B \<subseteq> SB \<Longrightarrow> X \<inter> (L \<union> R) = {} \<Longrightarrow> X' \<inter> (L' \<union> R') = {}"
  by blast

lemma zip_leaf_ids: "distinct (zip_ids zs @ [q]) \<Longrightarrow> fst ` set zs \<inter> (set (map fst (zip_left zs)) \<union> set (map fst (zip_right zs))) = {}"
proof (induction zs rule: zip_ids.induct)
  case (2 p a x b zs)
  have "distinct (zip_ids zs @ [q])" using 2(2) by simp
  note ih = 2(1)[OF this]
  have "fst ` set ((p, a, x, b) # zs) = insert p (fst ` set zs)" by simp
  moreover have "set (map fst (zip_left ((p, a, x, b) # zs))) = set (map fst (zip_left zs)) \<union> set (map fst (sub_leaves a))"
    "set (map fst (zip_right ((p, a, x, b) # zs))) = set (map fst (sub_leaves b)) \<union> set (map fst (zip_right zs))" by auto
  moreover have "p \<notin> set (sub_ids a) \<union> set (sub_ids b) \<union> set (zip_ids zs)" "(set (sub_ids a) \<union> set (sub_ids b)) \<inter> set (zip_ids zs) = {}"
    using 2(2) by auto
  moreover note zip_ids_fst[of zs] zip_leaves_in[of zs] sub_leaves_ids[of a] sub_leaves_ids[of b]
  ultimately show ?case by (rule path_apart[OF _ _ _ _ _ _ _ _ _ ih])
qed simp

text \<open>The place of a key in the tree: the way to its leaf, and the leaf with the key added.\<close>

lemma leaf_place_items:
  assumes ord: "bt_ord K rank (plug zs (BLeaf q es))" and way: "list_all (on_way rank (rank key)) zs" and key: "key \<in> K"
    and new: "bt_map rank (plug zs (BLeaf q es)) (rank key) = None" and es': "es' = before rank key es @ (key, v) # from_key rank key es"
  shows "sorted_keys K rank es'" and "under rank zs (BLeaf q es')" and "\<forall>e\<in>set es. rank (fst e) \<noteq> rank key"
    and "bt_items T = concat (map snd (zip_left zs)) @ es' @ concat (map snd (zip_right zs)) \<Longrightarrow>
      bt_map rank T = (bt_map rank (plug zs (BLeaf q es)))(rank key \<mapsto> v)"
proof -
  have o: "bt_ord K rank (BLeaf q es)" by (rule plug_ord[OF ord])
  have items: "bt_items (plug zs (BLeaf q es)) = concat (map snd (zip_left zs)) @ es @ concat (map snd (zip_right zs))"
    by (simp add: bt_items_leaves plug_around)
  have all: "\<forall>e\<in>set (bt_items (plug zs (BLeaf q es))). rank (fst e) \<noteq> rank key" using new unfolding bt_map_def items_map_None .
  then show ne: "\<forall>e\<in>set es. rank (fst e) \<noteq> rank key" unfolding items by simp
  show "sorted_keys K rank es'" unfolding es' using o by (intro sorted_keys_insert[OF _ key ne]) simp
  have "set es' = insert (key, v) (set es)" unfolding es' using before_from[of rank key es] by (metis Un_insert_right list.simps(15) set_append)
  then show "under rank zs (BLeaf q es')" using ord_under[OF ord] way by (auto simp: under_def)
  show "bt_map rank T = (bt_map rank (plug zs (BLeaf q es)))(rank key \<mapsto> v)"
    if T: "bt_items T = concat (map snd (zip_left zs)) @ es' @ concat (map snd (zip_right zs))"
  proof -
    let ?U = "concat (map snd (zip_left zs)) @ before rank key es" and ?W = "from_key rank key es @ concat (map snd (zip_right zs))"
    have UW: "?U @ ?W = bt_items (plug zs (BLeaf q es))" unfolding items using before_from[of rank key es] by (metis append.assoc)
    have "bt_items T = ?U @ (key, v) # ?W" unfolding T es' by simp
    then show ?thesis using items_map_insert[of ?U ?W rank key v] all unfolding bt_map_def UW by simp
  qed
qed

text \<open>The leaf has room.\<close>

lemma leaf_fits_tree:
  assumes at: "index_at N c n (plug zs (BLeaf q es)) t" and ord: "bt_ord K rank (plug zs (BLeaf q es))"
    and way: "list_all (on_way rank (rank key)) zs" and key: "key \<in> K"
    and new: "bt_map rank (plug zs (BLeaf q es)) (rank key) = None" and es': "es' = before rank key es @ (key, v) # from_key rank key es"
    and page: "leaf_page N (leaf_max_size t) (zip_parent zs) q es' d" and fit: "int (length es') < leaf_max_size t" "list_all (leaf_elem N) es'"
    and nl: "next_leaf d = next_leaf (c q)"
  shows "index_at N (c(q := d)) n (plug zs (BLeaf q es')) t" and "bt_ord K rank (plug zs (BLeaf q es'))"
    and "bt_map rank (plug zs (BLeaf q es')) = (bt_map rank (plug zs (BLeaf q es)))(rank key \<mapsto> v)"
    and "bt_height (plug zs (BLeaf q es')) \<le> bt_height (plug zs (BLeaf q es))"
proof -
  note place = leaf_place_items[OF ord way key new es']
  have ne: "es' \<noteq> []" by (simp add: es')
  show "bt_ord K rank (plug zs (BLeaf q es'))" using ord_replace[OF ord _ place(2)] place(1) ne by simp
  show "bt_map rank (plug zs (BLeaf q es')) = (bt_map rank (plug zs (BLeaf q es)))(rank key \<mapsto> v)"
    by (rule place(4)) (simp add: bt_items_leaves plug_around)
  show "bt_height (plug zs (BLeaf q es')) \<le> bt_height (plug zs (BLeaf q es))" by (rule plug_height) simp
  have ids: "mset (bt_ids (plug zs (BLeaf q es'))) = mset (bt_ids (plug zs (BLeaf q es)))" by (simp add: plug_ids)
  have i: "distinct (bt_ids (plug zs (BLeaf q es)))" "list_all (\<lambda>p. 0 < p \<and> p < n) (bt_ids (plug zs (BLeaf q es)))"
    "tree_at N (leaf_max_size t) (internal_max_size t) c INVALID_PAGE_ID (plug zs (BLeaf q es))"
    "linked c (map fst (bt_leaves (plug zs (BLeaf q es)))) INVALID_PAGE_ID" "root_page_id t = bt_id (plug zs (BLeaf q es))"
    using at by (simp_all add: index_at_def)
  have i': "distinct (bt_ids (plug zs (BLeaf q es')))" "list_all (\<lambda>p. 0 < p \<and> p < n) (bt_ids (plug zs (BLeaf q es')))"
    using i(1,2) mset_eq_imp_distinct_iff[OF ids] mset_eq_setD[OF ids] by (simp_all add: list_all_iff)
  have "q \<notin> set (zip_ids zs)" using i(1) mset_eq_imp_distinct_iff[of "bt_ids (plug zs (BLeaf q es))" "zip_ids zs @ [q]"] by (simp add: plug_ids)
  then have "\<forall>p\<in>set (zip_ids zs). c p = (c(q := d)) p" by auto
  moreover have "ctx_at N (leaf_max_size t) (internal_max_size t) c q zs" using i(3) unfolding tree_at_plug by simp
  ultimately have "ctx_at N (leaf_max_size t) (internal_max_size t) (c(q := d)) q zs" by (rule iffD1[OF ctx_at_cong])
  then have T: "tree_at N (leaf_max_size t) (internal_max_size t) (c(q := d)) INVALID_PAGE_ID (plug zs (BLeaf q es'))"
    unfolding tree_at_plug using page fit ne by simp
  have "map fst (bt_leaves (plug zs (BLeaf q es'))) = map fst (bt_leaves (plug zs (BLeaf q es)))" by (simp add: plug_around)
  then have L: "linked (c(q := d)) (map fst (bt_leaves (plug zs (BLeaf q es')))) INVALID_PAGE_ID" using linked_same[OF i(4), of "c(q := d)"] nl by simp
  show "index_at N (c(q := d)) n (plug zs (BLeaf q es')) t" using i(5) i' T L by (simp add: index_at_def bt_id_plug)
qed

text \<open>The leaf splits.\<close>

lemma leaf_split_tree:
  assumes at: "index_at N c n (plug zs (BLeaf q es)) t" and ord: "bt_ord K rank (plug zs (BLeaf q es))"
    and way: "list_all (on_way rank (rank key)) zs" and key: "key \<in> K"
    and new: "bt_map rank (plug zs (BLeaf q es)) (rank key) = None" and AB: "A @ B = before rank key es @ (key, v) # from_key rank key es"
    and ne: "A \<noteq> []" "B \<noteq> []" and sz: "sizes_ok N t"
    and g: "grown N (internal_max_size t) (n + 1) zs (BLeaf q A) (fst (hd B)) (BLeaf n B) n' T'"
    and T': "tree_at N (leaf_max_size t) (internal_max_size t) c' INVALID_PAGE_ID T'"
    and nl: "next_leaf (c' q) = n" "next_leaf (c' n) = next_leaf (c q)"
      "\<forall>p<n. p \<noteq> q \<longrightarrow> p \<notin> fst ` set zs \<longrightarrow> next_leaf (c' p) = next_leaf (c p)"
  shows "index_at N c' n' T' (t\<lparr>root_page_id := bt_id T'\<rparr>)" and "bt_ord K rank T'"
    and "bt_map rank T' = (bt_map rank (plug zs (BLeaf q es)))(rank key \<mapsto> v)"
    and "bt_height T' \<le> Suc (bt_height (plug zs (BLeaf q es)))"
proof -
  note place = leaf_place_items[OF ord way key new AB]
  note leaves = grown_leaves[OF g]
  show "bt_map rank T' = (bt_map rank (plug zs (BLeaf q es)))(rank key \<mapsto> v)"
    by (rule place(4)) (simp add: bt_items_leaves leaves)
  show "bt_height T' \<le> Suc (bt_height (plug zs (BLeaf q es)))" by (rule grown_height[OF g]) simp_all
  have sA: "sorted_keys K rank A" "sorted_keys K rank B" "\<forall>x\<in>set A. \<forall>y\<in>set B. rank (fst x) < rank (fst y)"
    using place(1) unfolding sorted_keys_append by simp_all
  have hB: "hd B \<in> set B" using ne by simp
  have sB: "\<forall>y\<in>set B. rank (fst (hd B)) \<le> rank (fst y)" "fst (hd B) \<in> K"
    using sA(2) ne by (cases B; auto simp: sorted_keys_Cons intro: less_imp_le)+
  have "sep K rank ([], BLeaf q A) (fst (hd B), BLeaf n B)" using sA(3) sB hB by (simp add: sep_def)
  moreover have "under rank zs (BLeaf q A)" "under rank zs (BLeaf n B)" using place(2) by (simp_all add: under_def)
  moreover have "2 \<le> internal_max_size t" using sz by (simp add: sizes_ok_def)
  ultimately show "bt_ord K rank T'" using grown_ord[OF g _ ord] sA(1,2) ne by simp
  let ?T = "plug zs (BLeaf q es)"
  have i: "distinct (bt_ids ?T)" "list_all (\<lambda>p. 0 < p \<and> p < n) (bt_ids ?T)" "linked c (map fst (bt_leaves ?T)) INVALID_PAGE_ID"
    using at by (simp_all add: index_at_def)
  have old: "mset (bt_ids ?T) = mset (zip_ids zs @ [q])" by (simp add: plug_ids)
  have io: "distinct (zip_ids zs @ [q])" "list_all (\<lambda>p. 0 < p \<and> p < n) (zip_ids zs @ [q])"
    using i(1,2) mset_eq_imp_distinct_iff[OF old] mset_eq_setD[OF old] by (simp_all only: list_all_iff)
  have ids: "mset (bt_ids T') = mset ((zip_ids zs @ [q]) @ n # [n + 1..n' - 1])" using grown_ids[OF g] by simp
  have lt: "n + 1 \<le> n'" by (rule grown_next[OF g])
  have new': "distinct ((zip_ids zs @ [q]) @ n # [n + 1..n' - 1])" using io by (auto simp: list_all_iff)
  have q: "0 < q" "q < n" using io(2) by simp_all
  have range: "list_all (\<lambda>p. 0 < p \<and> p < n') ((zip_ids zs @ [q]) @ n # [n + 1..n' - 1])" using io(2) lt q by (auto simp: list_all_iff)
  have i': "distinct (bt_ids T')" "list_all (\<lambda>p. 0 < p \<and> p < n') (bt_ids T')"
    using new' range mset_eq_imp_distinct_iff[OF ids] mset_eq_setD[OF ids] by (simp_all only: list_all_iff)
  have lv: "map fst (bt_leaves ?T) = map fst (zip_left zs) @ q # map fst (zip_right zs)" by (simp add: plug_around)
  have lv': "map fst (bt_leaves T') = map fst (zip_left zs) @ q # n # map fst (zip_right zs)" by (simp add: leaves)
  have "p < n \<and> p \<noteq> q \<and> p \<notin> fst ` set zs" if p: "p \<in> set (map fst (zip_left zs) @ map fst (zip_right zs))" for p
  proof -
    have "p \<in> set (map fst (bt_leaves ?T))" using p unfolding lv by auto
    then have "p \<in> set (bt_ids ?T)" using leaves_ids[of ?T] by blast
    then have "p < n" using i(2) by (simp add: list_all_iff)
    moreover have "p \<noteq> q" using distinct_leaves[OF i(1)] p unfolding lv by auto
    moreover have "p \<notin> fst ` set zs" using zip_leaf_ids[OF io(1)] p by auto
    ultimately show ?thesis by blast
  qed
  then have "\<forall>p\<in>set (map fst (zip_left zs) @ map fst (zip_right zs)). next_leaf (c' p) = next_leaf (c p)" using nl(3) by blast
  from linked_split[OF i(3)[unfolded lv] this nl(1,2)] have L: "linked c' (map fst (bt_leaves T')) INVALID_PAGE_ID" unfolding lv' .
  show "index_at N c' n' T' (t\<lparr>root_page_id := bt_id T'\<rparr>)" using T' L i' by (simp add: index_at_def)
qed

section \<open>Insertion\<close>

text \<open>Two pages that were pinned on top of others are given back.\<close>

lemma unpin_two:
  assumes v: "pool_view D c (P(p := P p + 1, n := (P(p := P p + 1)) n + 1)) m k b" and np: "p \<noteq> n" and f: "free_frames P k (Suc l)"
    and hf: "held b p f" and hg: "held b n g" and nid: "node_page_id (load_bpage (c n)) = n"
  shows "\<exists>b1 b2. unpin (frame_id f b) True b = Inr b1 \<and> unpin (node_page_id (frame_node g b1)) True b1 = Inr b2 \<and>
    pool_view (D - {p} - {n}) c P m k b2 \<and> resident b2 = resident b"
proof -
  have "P(p := P p + 1, n := (P(p := P p + 1)) n + 1) = (P(n := P n + 1))(p := (P(n := P n + 1)) p + 1)" using np by auto
  then have "pool_view D c ((P(n := P n + 1))(p := (P(n := P n + 1)) p + 1)) m k b" using v by metis
  from unpin_back[OF this free_frames_pin[OF f], of True] obtain b1 where b1: "unpin p True b = Inr b1"
    "pool_view (D - {p}) c (P(n := P n + 1)) m k b1" "resident b1 = resident b" by auto
  have "0 < (P(n := P n + 1)) n" using free_frames_pos[OF f, of n] by simp
  from held_resident[OF hg b1(3,2) this] have "held b1 n g" .
  then have "node_page_id (frame_node g b1) = n" using view_read[OF b1(2)] nid by (simp add: frame_node_def)
  moreover from unpin_back[OF b1(2) f, of True] obtain b2 where "unpin n True b1 = Inr b2" "pool_view (D - {p} - {n}) c P m k b2" "resident b2 = resident b1"
    by auto
  ultimately show ?thesis using b1(1,3) view_id[OF v hf] by auto
qed

lemma put_leaf_same:
  assumes "pool_view D c P n k b" "held b p f"
  shows "put_leaf f (frame_leaf N f b) b = b"
proof -
  have "store_leaf (frame_leaf N f b) (frame_data f b) = frame_data f b"
    using view_length[OF assms] view_read[OF assms] by (simp add: frame_leaf_def store_load_leaf BUSTUB_PAGE_SIZE_def)
  moreover have "(pages b ! nat f)\<lparr>page_data := frame_data f b\<rparr> = pages b ! nat f" by (simp add: frame_data_def)
  ultimately show ?thesis by (simp add: put_leaf_def frame_put_def list_update_id)
qed

text \<open>What an insertion promises: \<open>ps\<close> are the pages that stay pinned.\<close>

definition tree_inserted :: "nat \<Rightarrow> key set \<Rightarrow> (key \<Rightarrow> int) \<Rightarrow> key \<Rightarrow> RID \<Rightarrow> (int \<Rightarrow> byte list) \<Rightarrow> (int \<Rightarrow> int) \<Rightarrow> int \<Rightarrow> nat \<Rightarrow> bt \<Rightarrow> bpm \<Rightarrow>
    (int \<Rightarrow> byte list) \<Rightarrow> int list \<Rightarrow> int \<Rightarrow> bt \<Rightarrow> bptree \<Rightarrow> bpm \<Rightarrow> bool" where
  "tree_inserted N K rank key w c P n k T b c' ps n' T' t' b' \<longleftrightarrow>
     index_at N c' n' T' t' \<and> bt_ord K rank T' \<and> bt_map rank T' = [rank key \<mapsto> w] ++ bt_map rank T \<and>
     pool_view {} c' (add_pins ps P) n' k b' \<and> keeps P b b' \<and> set ps \<subseteq> set (bt_ids T) \<and> length ps < bt_height T \<and>
     bt_height T' \<le> Suc (bt_height T) \<and> (\<forall>q<n. q \<notin> set (bt_ids T) \<longrightarrow> c' q = c q)"

lemma index_at_ids: "index_at N c n (plug zs (BLeaf q es)) t \<Longrightarrow>
    distinct (zip_ids zs @ [q]) \<and> list_all (\<lambda>p. 0 < p \<and> p < n) (zip_ids zs @ [q]) \<and> set (bt_ids (plug zs (BLeaf q es))) = set (zip_ids zs @ [q])"
proof -
  assume at: "index_at N c n (plug zs (BLeaf q es)) t"
  have m: "mset (bt_ids (plug zs (BLeaf q es))) = mset (zip_ids zs @ [q])" by (simp add: plug_ids)
  show ?thesis using at mset_eq_imp_distinct_iff[OF m] mset_eq_setD[OF m] by (simp add: index_at_def list_all_iff)
qed

lemma insert_full_leaf:
  assumes at: "index_at N c n (plug zs (BLeaf q es)) t" and ord: "bt_ord K rank (plug zs (BLeaf q es))"
    and way: "list_all (on_way rank (rank key)) zs" and key: "key \<in> K" and sz: "sizes_ok N t" and hdr: "header_ok t c"
    and new: "bt_map rank (plug zs (BLeaf q es)) (rank key) = None" and es': "es' = before rank key es @ (key, w) # from_key rank key es"
    and page: "leaf_page N (leaf_max_size t) (zip_parent zs) q es' d" and full: "int (length es') = leaf_max_size t" and el: "list_all (leaf_elem N) es'"
    and nl: "next_leaf d = next_leaf (c q)"
    and v: "pool_view {q} (c(q := d)) (Q(q := Q q + 1)) n k b" and h: "held b q f" and ff: "free_frames Q k (Suc (2 * length zs + 2))"
    and lim: "n + int (length zs) + 1 \<le> max_page_id"
  shows "\<exists>g b1 b2 b3 b4 b5 b6 T' c' n' kB. Split_leaf N f t b = Inr (g, b1) \<and>
    b2 = put_leaf g ((frame_leaf N g b1)\<lparr>next_leaf_id := next_leaf_id (frame_leaf N f b1)\<rparr>) b1 \<and>
    b3 = put_leaf f ((frame_leaf N f b2)\<lparr>next_leaf_id := node_page_id (frame_node g b2)\<rparr>) b2 \<and> leaf_KeyAt 0 (frame_leaf N g b3) = Inr kB \<and>
    InsertIntoParent N f kB g t b3 = Some (Inr (t\<lparr>root_page_id := bt_id T'\<rparr>, b4)) \<and>
    unpin (frame_id f b4) True b4 = Inr b5 \<and> unpin (node_page_id (frame_node g b5)) True b5 = Inr b6 \<and>
    index_at N c' n' T' (t\<lparr>root_page_id := bt_id T'\<rparr>) \<and> bt_ord K rank T' \<and>
    bt_map rank T' = (bt_map rank (plug zs (BLeaf q es)))(rank key \<mapsto> w) \<and> bt_height T' \<le> Suc (bt_height (plug zs (BLeaf q es))) \<and>
    pool_view {} c' Q n' k b6 \<and> keeps Q b b6 \<and> (\<forall>p<n. p \<notin> set (zip_ids zs @ [q]) \<longrightarrow> c' p = c p)"
proof -
  let ?m = "internal_max_size t" and ?lm = "leaf_max_size t" and ?c0 = "c(q := d)" and ?Q = "Q(q := Q q + 1)"
  note ids = index_at_ids[OF at]
  obtain A B where AB: "es' = A @ B" and half: "int (length A) = ?lm div 2"
    using full sz by (intro that[of "take (nat (?lm div 2)) es'" "drop (nat (?lm div 2)) es'"]) (simp_all add: sizes_ok_def)
  have ne: "A \<noteq> []" "B \<noteq> []" "int (length A) < ?lm" "int (length B) < ?lm" using full half sz unfolding AB sizes_ok_def by auto
  have elAB: "list_all (leaf_elem N) A" "list_all (leaf_elem N) B" using el unfolding AB by simp_all
  from free_frames_pin[OF ff] have ff1: "free_frames ?Q k (Suc (2 * length zs + 1))" by simp
  have lim1: "n \<le> max_page_id" using lim by simp
  have pg: "leaf_page N ?lm (zip_parent zs) q (A @ B) (?c0 q)" "int (length (A @ B)) = ?lm" using page full AB by simp_all
  from Split_leaf_ok[OF v h lim1 ff1 sz pg half elAB(2)] obtain g b1 d1 d1' where
    s: "Split_leaf N f t b = Inr (g, b1)" "pool_view (insert q (insert n {q})) (?c0(q := d1, n := d1')) (?Q(n := ?Q n + 1)) (n + 1) k b1"
      "held b1 q f" "held b1 n g" "keeps ?Q b b1" "leaf_page N ?lm (zip_parent zs) q A d1" "leaf_page N ?lm (zip_parent zs) n B d1'"
      "next_leaf d1 = next_leaf (?c0 q)" "q \<noteq> n" by (auto simp del: fun_upd_apply)
  let ?Q1 = "?Q(n := ?Q n + 1)" and ?c1 = "?c0(q := d1, n := d1')"
  have n0: "0 < n" using ids by (simp add: list_all_iff)
  then have n32: "in_range 32 n" using lim1 by (simp add: in_range_def max_page_id_def)
  have pg1: "leaf_page N ?lm (zip_parent zs) q A (?c1 q)" "leaf_page N ?lm (zip_parent zs) n B (?c1 n)" using s(6,7,9) by simp_all
  from link_leaves_ok[OF s(2,3,4,9) n32 pg1 ne(2)] obtain b2 b3 d2 d2' where
    l: "b2 = put_leaf g ((frame_leaf N g b1)\<lparr>next_leaf_id := next_leaf_id (frame_leaf N f b1)\<rparr>) b1"
      "b3 = put_leaf f ((frame_leaf N f b2)\<lparr>next_leaf_id := node_page_id (frame_node g b2)\<rparr>) b2"
      "pool_view (insert q (insert n (insert q (insert n {q})))) (?c1(q := d2, n := d2')) ?Q1 (n + 1) k b3" "held b3 q f" "held b3 n g" "keeps ?Q1 b1 b3"
      "leaf_page N ?lm (zip_parent zs) q A d2" "leaf_page N ?lm (zip_parent zs) n B d2'" "next_leaf d2 = n" "next_leaf d2' = next_leaf (?c1 q)"
      "leaf_KeyAt 0 (frame_leaf N g b3) = Inr (fst (hd B))" by blast
  let ?c2 = "?c1(q := d2, n := d2')"
  have c2: "?c2 p = c p" if "p \<noteq> q" "p \<noteq> n" for p using that by simp
  have nz: "n \<notin> set (zip_ids zs)" "q \<notin> set (zip_ids zs)" "q < n" "0 < q" using ids by (auto simp: list_all_iff)
  have "\<forall>p\<in>set (zip_ids zs). c p = ?c2 p" using nz by auto
  moreover have "ctx_at N ?lm ?m c q zs" using at unfolding index_at_def tree_at_plug by simp
  ultimately have ctx: "ctx_at N ?lm ?m ?c2 (bt_id (BLeaf q A)) zs" using iffD1[OF ctx_at_cong] by simp
  have tA: "tree_at N ?lm ?m ?c2 (zip_parent zs) (BLeaf q A)" and tB: "tree_at N ?lm ?m ?c2 (zip_parent zs) (BLeaf n B)"
    using l(7,8) ne elAB s(9) by simp_all
  have kN: "length (fst (hd B)) = N" using ne(2) elAB(2) by (cases B) (simp_all add: leaf_elem_def)
  have d: "distinct (zip_ids zs @ bt_ids (BLeaf q A) @ bt_ids (BLeaf n B))" using ids nz s(9) by simp
  have r: "list_all (\<lambda>p. 0 < p \<and> p < n + 1) (zip_ids zs @ bt_ids (BLeaf q A) @ bt_ids (BLeaf n B))" using ids n0 by (auto simp: list_all_iff)
  have "?c2 0 = c 0" using c2 n0 nz(4) by simp
  then have hdr2: "header_ok t ?c2" using hdr by (simp add: header_ok_def)
  have lim2: "n + 1 + int (length zs) \<le> max_page_id" using lim by simp
  have ff2: "free_frames ?Q1 k (2 * length zs + 1)" by (rule free_frames_pin[OF ff1])
  have root: "zs \<noteq> [] \<longrightarrow> root_page_id t = fst (last zs)" using at by (simp add: index_at_def bt_id_plug)
  have held: "held b3 (bt_id (BLeaf q A)) f" "held b3 (bt_id (BLeaf n B)) g" using l(4,5) by simp_all
  from InsertIntoParent_ok[OF sz ctx tA tB kN d r l(3) held hdr2 lim2 ff2 root] obtain b4 c' n' D' T' where
    i: "InsertIntoParent N f (fst (hd B)) g t b3 = Some (Inr (t\<lparr>root_page_id := bt_id T'\<rparr>, b4))"
      "grown N ?m (n + 1) zs (BLeaf q A) (fst (hd B)) (BLeaf n B) n' T'" "pool_view D' c' ?Q1 n' k b4"
      "D' \<subseteq> insert q (insert n (insert q (insert n (insert q (insert n {q})))))" "keeps ?Q1 b3 b4" "tree_at N ?lm ?m c' INVALID_PAGE_ID T'"
      "kept zs (BLeaf q A) (BLeaf n B) (n + 1) ?c2 c'" unfolding bt_id.simps by blast
  have zf: "q \<notin> fst ` set zs" "n \<notin> fst ` set zs" using nz zip_ids_fst[of zs] by blast+
  have "next_leaf (c' q) = n" "next_leaf (c' n) = next_leaf (c q)"
    using i(7) zf nz(3) l(9,10) s(8,9) nl by (simp_all add: kept_def)
  moreover have "\<forall>p<n. p \<noteq> q \<longrightarrow> p \<notin> fst ` set zs \<longrightarrow> next_leaf (c' p) = next_leaf (c p)" using i(7) by (simp add: kept_def)
  ultimately have tree: "index_at N c' n' T' (t\<lparr>root_page_id := bt_id T'\<rparr>)" "bt_ord K rank T'"
    "bt_map rank T' = (bt_map rank (plug zs (BLeaf q es)))(rank key \<mapsto> w)" "bt_height T' \<le> Suc (bt_height (plug zs (BLeaf q es)))"
    using leaf_split_tree[OF at ord way key new _ ne(1,2) sz i(2,6)] AB es' by blast+
  have pin: "0 < ?Q1 q" "0 < ?Q1 n" using view_pins[OF l(3)] l(4,5) by blast+
  have h4: "held b4 q f" "held b4 n g" using keeps_heldI[OF i(5) l(4) pin(1) i(3) pin(1)] keeps_heldI[OF i(5) l(5) pin(2) i(3) pin(2)] by blast+
  have "n \<in># mset (bt_ids T')" unfolding grown_ids[OF i(2)] by simp
  then have "node_page_id (load_bpage (c' n)) = n" using tree_at_node[OF i(6)] by simp
  then obtain b5 b6 where u: "unpin (frame_id f b4) True b4 = Inr b5" "unpin (node_page_id (frame_node g b5)) True b5 = Inr b6"
    "pool_view (D' - {q} - {n}) c' Q n' k b6" "resident b6 = resident b4" using unpin_two[OF i(3) s(9) ff h4] by blast
  have E: "D' - {q} - {n} = {}" using i(4) by blast
  have v6: "pool_view {} c' Q n' k b6" using u(3) unfolding E .
  have k: "keeps Q b b6"
    by (rule keeps_mono[OF keeps_trans[OF s(5) keeps_mono[OF keeps_trans[OF l(6) keeps_trans[OF i(5) keeps_resident[OF u(4)]]] pin_more]] pin_more])
  have out: "\<forall>p<n. p \<notin> set (zip_ids zs @ [q]) \<longrightarrow> c' p = c p" using i(7) by (simp add: kept_def)
  note all = conjI[OF s(1) conjI[OF l(1) conjI[OF l(2) conjI[OF l(11) conjI[OF i(1) conjI[OF u(1) conjI[OF u(2) conjI[OF tree(1) conjI[OF tree(2)
    conjI[OF tree(3) conjI[OF tree(4) conjI[OF v6 conjI[OF k out]]]]]]]]]]]]]
  show ?thesis
    by (rule exI[of _ g], rule exI[of _ b1], rule exI[of _ b2], rule exI[of _ b3], rule exI[of _ b4], rule exI[of _ b5], rule exI[of _ b6],
        rule exI[of _ T'], rule exI[of _ c'], rule exI[of _ n'], rule exI[of _ "fst (hd B)"], rule all)
qed

lemma InsertIntoLeaf_ok:
  assumes o: "key_order cmp K rank" and at: "index_at N c n T t" and ord: "bt_ord K rank T" and sz: "sizes_ok N t" and hdr: "header_ok t c"
    and v: "pool_view {} c P n k b" and f: "free_frames P k (3 * bt_height T)" and key: "key \<in> K" "leaf_elem N (key, w)"
    and lim: "n + int (bt_height T) \<le> max_page_id"
  shows "\<exists>T' c' n' ps b'. InsertIntoLeaf N cmp key w t b = Some (Inr (bt_map rank T (rank key) = None, t\<lparr>root_page_id := bt_id T'\<rparr>, b')) \<and>
    tree_inserted N K rank key w c P n k T b c' ps n' T' (t\<lparr>root_page_id := bt_id T'\<rparr>) b'"
proof -
  have "bt_height T + Suc (2 * bt_height T - 1) \<le> 3 * bt_height T" using bt_height_pos[of T] by simp
  from FindLeaf_insert[OF o at ord v free_frames_less[OF f this] key(1)] obtain zs q es g b1 where
    g: "FindLeaf N cmp key INSERT False False t b = Some (Inr (g, t, b1))" "plug zs (BLeaf q es) = T" "list_all (on_way rank (rank key)) zs"
      "tree_at N (leaf_max_size t) (internal_max_size t) c (zip_parent zs) (BLeaf q es)" "pool_view {} c (add_pins (q # map fst zs) P) n k b1"
      "held b1 q g" "keeps P b b1" by blast
  let ?Q = "add_pins (map fst zs) P" and ?l = "load_leaf N (c q)"
  have at': "index_at N c n (plug zs (BLeaf q es)) t" and ord': "bt_ord K rank (plug zs (BLeaf q es))" using at ord g(2) by simp_all
  have v1: "pool_view {} c (?Q(q := ?Q q + 1)) n k b1" using g(5) by simp
  have deep: "length zs + 1 \<le> bt_height T" using plug_depth[of zs "BLeaf q es"] g(2) by simp
  then have "length (map fst zs) + Suc (2 * length zs + 2) \<le> 3 * bt_height T" by simp
  from free_frames_path[OF free_frames_less[OF f this]] have ff: "free_frames ?Q k (Suc (2 * length zs + 2))" .
  have kQ: "keeps P b b'" if "keeps ?Q b1 b'" for b' by (rule keeps_trans[OF g(7) keeps_mono[OF that add_pins_more]])
  note ids = index_at_ids[OF at']
  have ps: "set (map fst zs) \<subseteq> set (bt_ids T)" "length (map fst zs) < bt_height T" using ids zip_ids_fst[of zs] deep g(2) by auto
  have o1: "bt_ord K rank (BLeaf q es)" by (rule plug_ord[OF ord'])
  have hl: "leaf_holds ?l es" using g(4) by (simp add: leaf_page_def)
  have rd: "frame_leaf N g b1 = ?l" by (simp add: frame_leaf_def view_read[OF v1 g(6)])
  have root: "t\<lparr>root_page_id := bt_id T\<rparr> = t" using at by (simp add: index_at_def)
  have look: "bt_map rank T (rank key) = items_map rank es (rank key)"
    using plug_map[OF ord' g(3)] g(2) by (simp add: bt_map_def)
  have run: "InsertIntoLeaf N cmp key w t b = bind_ro (Some (leaf_Insert cmp key w ?l)) (\<lambda>l.
     let new_size = cur_size l; b = put_leaf g l b1 in
     if new_size = int (length es) then Some (bind_r (unpin (frame_id g b) False b) (\<lambda>b. Inr (False, t, b)))
     else if new_size < leaf_max_size t then Some (bind_r (unpin (frame_id g b) True b) (\<lambda>b. Inr (True, t, b)))
     else
       bind_ro (Some (Split_leaf N g t b)) (\<lambda>(h, b).
       let b = put_leaf h ((frame_leaf N h b)\<lparr>next_leaf_id := next_leaf_id (frame_leaf N g b)\<rparr>) b;
           b = put_leaf g ((frame_leaf N g b)\<lparr>next_leaf_id := node_page_id (frame_node h b)\<rparr>) b in
       bind_ro (Some (leaf_KeyAt 0 (frame_leaf N h b))) (\<lambda>risen_key.
       bind_ro (InsertIntoParent N g risen_key h t b) (\<lambda>(t, b).
       Some (bind_r (unpin (frame_id g b) True b) (\<lambda>b.
         bind_r (unpin (node_page_id (frame_node h b)) True b) (\<lambda>b. Inr (True, t, b))))))))"
    using g(1) hl by (simp add: InsertIntoLeaf_def Let_def rd leaf_holds_def arr_holds_def)
  show ?thesis
  proof (cases "bt_map rank T (rank key) = None")
    case False
    then have "\<exists>e\<in>set es. rank (fst e) = rank key" unfolding look items_map_None by blast
    then have same: "leaf_Insert cmp key w ?l = Inr ?l" using key_order.leaf_Insert_same[OF o hl _ key(1)] o1 by simp
    have put: "put_leaf g ?l b1 = b1" using put_leaf_same[OF v1 g(6), of N] unfolding rd .
    from unpin_back[OF v1 ff, of False] obtain b2 where b2: "unpin q False b1 = Inr b2" "pool_view {} c ?Q n k b2" "resident b2 = resident b1" by auto
    have "InsertIntoLeaf N cmp key w t b = Some (Inr (False, t, b2))"
      using same put b2(1) view_id[OF v1 g(6)] hl unfolding run by (simp add: leaf_holds_def arr_holds_def)
    moreover obtain x where "bt_map rank T (rank key) = Some x" using False by blast
    then have "[rank key \<mapsto> w] ++ bt_map rank T = bt_map rank T" by (auto simp: fun_eq_iff map_add_def split: option.split)
    then have "tree_inserted N K rank key w c P n k T b c (map fst zs) n T t b2"
      using at ord b2(2) kQ[OF keeps_resident[OF b2(3)]] ps by (simp add: tree_inserted_def)
    ultimately show ?thesis using False root by (intro exI[of _ T] exI[of _ c] exI[of _ n] exI[of _ "map fst zs"] exI[of _ b2]) simp
  next
    case True
    then have new: "bt_map rank (plug zs (BLeaf q es)) (rank key) = None" using g(2) by simp
    have ne: "\<forall>e\<in>set es. rank (fst e) \<noteq> rank key" using True unfolding look items_map_None .
    have upd: "(bt_map rank T)(rank key \<mapsto> w) = [rank key \<mapsto> w] ++ bt_map rank T"
      using True by (auto simp: fun_eq_iff map_add_def split: option.split)
    have fl: "leaf_fits N BUSTUB_PAGE_SIZE ?l" using frame_fits[OF v1 g(6), of N] unfolding rd by blast
    then have "length (leaf_array ?l) = (BUSTUB_PAGE_SIZE - 28) div (N + 8)" by (simp add: leaf_fits_def)
    then have "length es < length (leaf_array ?l)" using leaf_room[OF sz] g(4) by simp
    from key_order.leaf_Insert_new[OF o hl _ key(1) ne this, of w] o1 obtain arr where
      arr: "leaf_Insert cmp key w ?l = Inr (?l\<lparr>leaf_array := arr, cur_size := cur_size ?l + 1\<rparr>)" "arr_change {(key, w)} (leaf_array ?l) arr"
        "arr_holds arr (cur_size ?l + 1) (before rank key es @ (key, w) # from_key rank key es)" by auto
    let ?es = "before rank key es @ (key, w) # from_key rank key es" and ?l' = "?l\<lparr>leaf_array := arr, cur_size := cur_size ?l + 1\<rparr>"
    have size: "cur_size ?l = int (length es)" "int (length ?es) = int (length es) + 1"
      using hl before_length[of rank key es] by (simp_all add: leaf_holds_def arr_holds_def)
    have room: "int (length es) < leaf_max_size t" using g(4) by simp
    have fl': "leaf_fits N BUSTUB_PAGE_SIZE ?l'"
      by (rule leaf_fits_update[OF fl arr(2)]) (use key(2) size room sizes_small[OF sz] in \<open>auto simp: in_range_def\<close>)
    from leaf_write[OF v1 g(6) fl'] obtain d where
      d: "pool_view {q} (c(q := d)) (?Q(q := ?Q q + 1)) n k (put_leaf g ?l' b1)" "load_leaf N d = ?l'" "length d = BUSTUB_PAGE_SIZE"
        "keeps (?Q(q := ?Q q + 1)) b1 (put_leaf g ?l' b1)" "\<forall>p h. held b1 p h \<longrightarrow> held (put_leaf g ?l' b1) p h" by blast
    let ?b = "put_leaf g ?l' b1"
    have h2: "held ?b q g" using d(5) g(6) by blast
    have kb: "keeps ?Q b1 ?b" by (rule keeps_mono[OF d(4) pin_more])
    have page: "leaf_page N (leaf_max_size t) (zip_parent zs) q ?es d" using g(4) d(2,3) arr(3) by (simp add: leaf_page_def leaf_holds_def)
    have nl: "next_leaf d = next_leaf (c q)" using d(2) load_leaf_header(6)[of N d] load_leaf_header(6)[of N "c q"] by simp
    have "list_all (leaf_elem N) (before rank key es @ from_key rank key es)" using g(4) unfolding before_from by simp
    then have el: "list_all (leaf_elem N) ?es" using key(2) by simp
    show ?thesis
    proof (cases "int (length ?es) < leaf_max_size t")
      case fit: True
      from unpin_back[OF d(1) ff, of True] obtain b2 where b2: "unpin q True ?b = Inr b2" "pool_view {} (c(q := d)) ?Q n k b2" "resident b2 = resident ?b" by auto
      have "InsertIntoLeaf N cmp key w t b = Some (Inr (True, t, b2))"
        using arr(1) b2(1) view_id[OF d(1) h2] size fit unfolding run by simp
      moreover have "tree_inserted N K rank key w c P n k T b (c(q := d)) (map fst zs) n (plug zs (BLeaf q ?es)) t b2"
        using leaf_fits_tree[OF at' ord' g(3) key(1) new refl page fit el nl] ps b2(2) kQ[OF keeps_trans[OF kb keeps_resident[OF b2(3)]]] ids upd g(2)
        by (simp add: tree_inserted_def)
      moreover have "t\<lparr>root_page_id := bt_id (plug zs (BLeaf q ?es))\<rparr> = t" using at' by (simp add: index_at_def bt_id_plug)
      ultimately show ?thesis using True
        by (intro exI[of _ "plug zs (BLeaf q ?es)"] exI[of _ "c(q := d)"] exI[of _ n] exI[of _ "map fst zs"] exI[of _ b2]) simp
    next
      case False
      then have full: "int (length ?es) = leaf_max_size t" using room size by simp
      have lim': "n + int (length zs) + 1 \<le> max_page_id" using lim deep by simp
      from insert_full_leaf[OF at' ord' g(3) key(1) sz hdr new refl page full el nl d(1) h2 ff lim'] obtain h b1' b2 b3 b4 b5 b6 T' c' n' kB where
        i: "Split_leaf N g t ?b = Inr (h, b1')" "b2 = put_leaf h ((frame_leaf N h b1')\<lparr>next_leaf_id := next_leaf_id (frame_leaf N g b1')\<rparr>) b1'"
          "b3 = put_leaf g ((frame_leaf N g b2)\<lparr>next_leaf_id := node_page_id (frame_node h b2)\<rparr>) b2" "leaf_KeyAt 0 (frame_leaf N h b3) = Inr kB"
          "InsertIntoParent N g kB h t b3 = Some (Inr (t\<lparr>root_page_id := bt_id T'\<rparr>, b4))" "unpin (frame_id g b4) True b4 = Inr b5"
          "unpin (node_page_id (frame_node h b5)) True b5 = Inr b6" "index_at N c' n' T' (t\<lparr>root_page_id := bt_id T'\<rparr>)" "bt_ord K rank T'"
          "bt_map rank T' = (bt_map rank (plug zs (BLeaf q es)))(rank key \<mapsto> w)" "bt_height T' \<le> Suc (bt_height (plug zs (BLeaf q es)))"
          "pool_view {} c' ?Q n' k b6" "keeps ?Q ?b b6" "\<forall>p<n. p \<notin> set (zip_ids zs @ [q]) \<longrightarrow> c' p = c p" by blast
      have "InsertIntoLeaf N cmp key w t b = Some (Inr (True, t\<lparr>root_page_id := bt_id T'\<rparr>, b6))"
        using arr(1) size room full i(1,4-7) unfolding run i(2,3) by (simp add: Let_def)
      moreover have "tree_inserted N K rank key w c P n k T b c' (map fst zs) n' T' (t\<lparr>root_page_id := bt_id T'\<rparr>) b6"
        using i(8-12,14) ps kQ[OF keeps_trans[OF kb i(13)]] ids upd g(2) by (simp add: tree_inserted_def)
      ultimately show ?thesis using True by (intro exI[of _ T'] exI[of _ c'] exI[of _ n'] exI[of _ "map fst zs"] exI[of _ b6]) simp
    qed
  qed
qed

text \<open>
  \<open>Insert\<close> into a tree that is not empty: the latch of the root page id is not released, and the pages above the
  leaf stay pinned.
\<close>

lemma Insert_ok:
  assumes o: "key_order cmp K rank" and at: "index_at N c n T t" and ord: "bt_ord K rank T" and sz: "sizes_ok N t" and hdr: "header_ok t c"
    and l: "root_page_id_latch t = Unlocked"
    and v: "pool_view {} c P n k b" and f: "free_frames P k (3 * bt_height T)" and key: "key \<in> K" "leaf_elem N (key, w)"
    and lim: "n + int (bt_height T) \<le> max_page_id"
  shows "\<exists>T' c' n' ps t' b'. BPlusTree_Insert N cmp key w t b = Some (Inr (bt_map rank T (rank key) = None, t', b')) \<and>
    t' = t\<lparr>root_page_id := bt_id T', root_page_id_latch := Exclusive\<rparr> \<and> tree_inserted N K rank key w c P n k T b c' ps n' T' t' b'"
proof -
  let ?t = "t\<lparr>root_page_id_latch := Exclusive\<rparr>"
  have at': "index_at N c n T ?t" "sizes_ok N ?t" "header_ok ?t c" using at sz hdr by (simp_all add: index_at_def sizes_ok_def header_ok_def)
  from InsertIntoLeaf_ok[OF o at'(1) ord at'(2,3) v f key lim] obtain T' c' n' ps b1 where
    i: "InsertIntoLeaf N cmp key w ?t b = Some (Inr (bt_map rank T (rank key) = None, ?t\<lparr>root_page_id := bt_id T'\<rparr>, b1))"
      "tree_inserted N K rank key w c P n k T b c' ps n' T' (?t\<lparr>root_page_id := bt_id T'\<rparr>) b1" by blast
  let ?t' = "?t\<lparr>root_page_id := bt_id T'\<rparr>"
  have r: "index_at N c' n' T' ?t'" "pool_view {} c' (add_pins ps P) n' k b1" "length ps < bt_height T" "bt_height T' \<le> Suc (bt_height T)" "keeps P b b1"
    using i(2) by (simp_all add: tree_inserted_def)
  have "length ps + bt_height T' \<le> 3 * bt_height T" using r(3,4) by simp
  from free_frames_path[OF free_frames_less[OF f this]] have ff: "free_frames (add_pins ps P) k (bt_height T')" .
  from r(1) have tr: "root_page_id ?t' = bt_id T'" "tree_at N (leaf_max_size ?t') (internal_max_size ?t') c' INVALID_PAGE_ID T'" "list_all (\<lambda>p. 0 < p \<and> p < n') (bt_ids T')"
    by (simp_all add: index_at_def)
  from ExportTree_ok[OF tr ff r(2)] obtain b2 where b2: "ExportTreeAfterOperation N ?t' b1 = Some (Inr b2)" "pool_view {} c' (add_pins ps P) n' k b2"
    "keeps (add_pins ps P) b1 b2" by blast
  have "\<not> IsEmpty ?t" using index_at_root[OF at] by (simp add: IsEmpty_def INVALID_PAGE_ID_def)
  then have "BPlusTree_Insert N cmp key w t b = Some (Inr (bt_map rank T (rank key) = None, ?t', b2))"
    using i(1) b2(1) l by (simp add: BPlusTree_Insert_def with_latch_def)
  moreover have "keeps P b b2" by (rule keeps_trans[OF r(5) keeps_mono[OF b2(3) add_pins_more]])
  then have "tree_inserted N K rank key w c P n k T b c' ps n' T' ?t' b2" using i(2) b2(2) by (simp add: tree_inserted_def)
  moreover have "?t' = t\<lparr>root_page_id := bt_id T', root_page_id_latch := Exclusive\<rparr>" by simp
  ultimately show ?thesis by blast
qed

text \<open>The first key of an empty tree.\<close>

lemma Insert_first_ok:
  assumes o: "key_order cmp K rank" and s: "sizes_ok N t" and e: "root_page_id t = INVALID_PAGE_ID" and l: "root_page_id_latch t = Unlocked"
    and v: "pool_view {} c P n k b" and n: "0 < n" "n \<le> max_page_id" and f: "free_frames P k (Suc m)" and key: "key \<in> K" "leaf_elem N (key, w)"
  shows "\<exists>d b'. BPlusTree_Insert N cmp key w t b = Some (Inr (True, t\<lparr>root_page_id := n\<rparr>, b')) \<and>
    pool_view {} (c(n := d)) P (n + 1) k b' \<and> keeps P b b' \<and> index_at N (c(n := d)) (n + 1) (BLeaf n [(key, w)]) (t\<lparr>root_page_id := n\<rparr>)"
proof -
  let ?t = "t\<lparr>root_page_id_latch := Exclusive\<rparr>"
  have s': "sizes_ok N ?t" using s by (simp add: sizes_ok_def)
  from StartNewTree_ok[OF o s' v n f key] obtain d b1 where
    d: "StartNewTree N cmp key w ?t b = Inr (?t\<lparr>root_page_id := n\<rparr>, b1)" "pool_view {} (c(n := d)) P (n + 1) k b1" "keeps P b b1"
      "index_at N (c(n := d)) (n + 1) (BLeaf n [(key, w)]) (?t\<lparr>root_page_id := n\<rparr>)" by blast
  let ?t' = "t\<lparr>root_page_id := n\<rparr>"
  have at: "index_at N (c(n := d)) (n + 1) (BLeaf n [(key, w)]) ?t'" using d(4) by (simp add: index_at_def)
  have tr: "root_page_id ?t' = bt_id (BLeaf n [(key, w)])"
    "tree_at N (leaf_max_size ?t') (internal_max_size ?t') (c(n := d)) INVALID_PAGE_ID (BLeaf n [(key, w)])" "list_all (\<lambda>p. 0 < p \<and> p < n + 1) (bt_ids (BLeaf n [(key, w)]))"
    using at unfolding index_at_def by blast+
  have "free_frames P k (bt_height (BLeaf n [(key, w)]))" using free_frames_less[OF f] by simp
  from ExportTree_ok[OF tr this d(2)] obtain b2 where b2: "ExportTreeAfterOperation N ?t' b1 = Some (Inr b2)" "pool_view {} (c(n := d)) P (n + 1) k b2" "keeps P b1 b2"
    by blast
  have eq: "t\<lparr>root_page_id := n, root_page_id_latch := Unlocked\<rparr> = ?t'" using l by simp
  have ex: "ExportTreeAfterOperation N (t\<lparr>root_page_id := n, root_page_id_latch := Unlocked\<rparr>) b1 = Some (Inr b2)" unfolding eq by (rule b2(1))
  have "BPlusTree_Insert N cmp key w t b = Some (Inr (True, ?t', b2))"
    using d(1) ex l e by (simp add: BPlusTree_Insert_def with_latch_def IsEmpty_def Let_def)
  then show ?thesis using b2(2) at keeps_trans[OF d(3) b2(3)] by blast
qed

end
