(* ===== verification/Index_Theorems.thy ===== *)
theory Index_Theorems
  imports Index_Laws B_Plus_Insert
begin

text \<open>
  What an index over one integer column promises: a lookup finds the record id of its key, and the
  index scan returns the rows in the order of their keys.
\<close>

section \<open>A table with one row and an index over it\<close>

definition eight_frame_pool :: bpm where
  "eight_frame_pool = BufferPoolManagerInstance 8 (DiskManager None None) 2"

lemma eight_frame_pool_facts:
  "bpm_inv eight_frame_pool" "\<forall>q. honest eight_frame_pool q" "pins eight_frame_pool = (\<lambda>_. 0)" "pool_size eight_frame_pool = 8"
  "next_page_id eight_frame_pool = 0"
proof -
  show "bpm_inv eight_frame_pool" "pins eight_frame_pool = (\<lambda>_. 0)" unfolding eight_frame_pool_def by (rule bpm_init; simp)+
  have "resident eight_frame_pool = (\<lambda>_. None)"
    by (simp add: eight_frame_pool_def BufferPoolManagerInstance_def resident_def eht_map_init)
  then show "\<forall>q. honest eight_frame_pool q" by (simp add: honest_def)
  show "pool_size eight_frame_pool = 8" "next_page_id eight_frame_pool = 0"
    by (simp_all add: eight_frame_pool_def BufferPoolManagerInstance_def)
qed

lemma no_pins: "free_frames (\<lambda>_. 0) k k \<longleftrightarrow> int k < 2 ^ 31 - 1" "spare (\<lambda>_. 0) k \<longleftrightarrow> 2 \<le> k"
  by (auto simp: free_frames_def spare_def)

lemma demo_pool:
  obtains b rid where "pool_view {} (content b) (\<lambda>_. 0) (next_page_id b) 8 b" "0 < next_page_id b" "next_page_id b \<le> 2"
    "row_at (content b) (next_page_id b) rid" "in_range 32 (rid_page rid)" "rid_slot rid < 2 ^ 32"
    "rid_tuple (content b) rid = tuple_of rid [7, 8]" "GetRecordCount (content b 0) = 0"
proof -
  note F = eight_frame_pool_facts
  have n: "next_page_id eight_frame_pool \<le> max_page_id" by (simp add: F(5) max_page_id_def)
  have s: "spare (pins eight_frame_pool) (pool_size eight_frame_pool)" by (simp add: F no_pins)
  from TableHeap_create_correct[OF F(1,2) s n] obtain b where b: "table_ok 0 [0] b" "same_pins b eight_frame_pool"
    "table_map [0] b = Map.empty" "next_page_id b = 1" by (auto simp: F(5))
  have "next_page_id b \<le> max_page_id" "0 < length [7, 8 :: byte]" "length [7, 8 :: byte] + 32 \<le> BUSTUB_PAGE_SIZE"
    by (simp_all add: b(4) max_page_id_def BUSTUB_PAGE_SIZE_def)
  from TableHeap_InsertTuple_correct[OF b(1) this, of new_RID] obtain rid b' ps' where
    raw: "table_ok 0 ps' b'" "same_pins b' b" "table_map ps' b' = (table_map [0] b)(rid \<mapsto> Live [7, 8])"
    "next_page_id b \<le> next_page_id b'" "next_page_id b' \<le> next_page_id b + 1" by blast
  have b': "table_ok 0 ps' b'" "same_pins b' b" "table_map ps' b' = [rid \<mapsto> Live [7, 8]]" "1 \<le> next_page_id b'" "next_page_id b' \<le> 2"
    using raw b(3,4) by simp_all
  have pins: "pins b' = (\<lambda>_. 0)" "pool_size b' = 8" using b(2) b'(2) F(3,4) by (simp_all add: same_pins_def)
  have m: "rid_page rid \<in> set ps'" "rid_slot rid < length (slots (content b' (rid_page rid)))"
    "slots (content b' (rid_page rid)) ! rid_slot rid = Live [7, 8]"
    using fun_cong[OF b'(3), of rid] by (auto simp: table_map_def heap_map_def split: if_splits)
  have pg: "heap_page (content b') (next_page_id b') (rid_page rid)" using b'(1) m(1) by (simp add: table_ok_def heap_view_def)
  then have inv: "table_page_inv (content b' (rid_page rid))" by (simp add: heap_page_def)
  have "row_at (content b') (next_page_id b') rid"
    using pg m by (simp add: row_at_def heap_page_def is_live_def length_slots)
  moreover have "in_range 32 (rid_page rid)" using pg b'(5) by (simp add: heap_page_def in_range_def)
  moreover have "rid_slot rid < 2 ^ 32" using m(2) table_page_invD(2,3)[OF inv] by simp
  moreover have "rid_tuple (content b') rid = tuple_of rid [7, 8]" by (simp add: rid_tuple_def m(3))
  moreover have "heap_view (content b') (next_page_id b') 0 ps'" using b'(1) by (simp add: table_ok_def)
  then have "0 \<in> set ps'" by (cases ps') (auto simp: heap_view_def)
  then have "GetTablePageId (content b' 0) = 0" using b'(1) by (simp add: table_ok_def heap_view_def heap_page_def)
  then have "GetRecordCount (content b' 0) = 0" by (simp add: GetRecordCount_def int_at_def GetTablePageId_def)
  ultimately show thesis using that[of b' rid] table_view[OF b'(1)] pins b'(4,5) by simp
qed

definition demo_index :: BPlusTreeIndex where
  "demo_index = \<lparr>ix_name = ''i'', ix_table_name = ''t'', ix_key_schema = int_schema ''n'', ix_key_attrs = [0],
     container = new_BPlusTree ''i'' (LEAF_PAGE_SIZE 4) (INTERNAL_PAGE_SIZE 4)\<rparr>"

lemma demo_sizes: "sizes_ok 4 (container demo_index)"
  by (simp add: sizes_ok_def demo_index_def new_BPlusTree_def LEAF_PAGE_SIZE_def INTERNAL_PAGE_SIZE_def BUSTUB_PAGE_SIZE_def
      LEAF_PAGE_HEADER_SIZE_def INTERNAL_PAGE_HEADER_SIZE_def)

lemma demo_tree:
  obtains c n rid and ix :: BPlusTreeIndex and b where "index_at 4 c n (BLeaf (n - 1) [(put_int 4 5, rid)]) (container ix)" "root_page_id_latch (container ix) = Unlocked"
    "ix_key_schema ix = int_schema ''n''" "pool_view {} c (\<lambda>_. 0) n 8 b" "row_at c n rid" "rid_tuple c rid = tuple_of rid [7, 8]"
    "sizes_ok 4 (container ix)" "header_ok (container ix) c" "n \<le> 3"
proof -
  from demo_pool obtain b rid where b: "pool_view {} (content b) (\<lambda>_. 0) (next_page_id b) 8 b" "0 < next_page_id b" "next_page_id b \<le> 2"
    "row_at (content b) (next_page_id b) rid" "in_range 32 (rid_page rid)" "rid_slot rid < 2 ^ 32"
    "rid_tuple (content b) rid = tuple_of rid [7, 8]" "GetRecordCount (content b 0) = 0" .
  let ?n = "next_page_id b" and ?t = "container demo_index"
  have n: "?n \<le> max_page_id" using b(3) by (simp add: max_page_id_def)
  have f: "free_frames (\<lambda>_. 0) 8 (Suc 7)" using no_pins(1)[of 8] by (simp add: eval_nat_numeral)
  have five: "number_of INTEGER 5" by (simp add: number_of_def)
  have "leaf_elem 4 (put_int 4 5, rid)" using b(5,6) by (simp add: leaf_elem_def)
  from StartNewTree_ok[OF int_key.key_order_axioms demo_sizes b(1,2) n f int_key_of(1)[OF five] this]
  obtain d b' where b': "pool_view {} ((content b)(?n := d)) (\<lambda>_. 0) (?n + 1) 8 b'"
    "index_at 4 ((content b)(?n := d)) (?n + 1) (BLeaf ?n [(put_int 4 5, rid)]) (?t\<lparr>root_page_id := ?n\<rparr>)" by blast
  let ?ix = "demo_index\<lparr>container := ?t\<lparr>root_page_id := ?n\<rparr>\<rparr>"
  have "rid_page rid \<noteq> ?n" using b(4) by (simp add: row_at_def)
  then have "row_at ((content b)(?n := d)) (?n + 1) rid" "rid_tuple ((content b)(?n := d)) rid = tuple_of rid [7, 8]"
    using b(4,7) by (simp_all add: row_at_def rid_tuple_def)
  moreover have "header_ok (container ?ix) ((content b)(?n := d))"
    using b(2,8) by (simp add: header_ok_def demo_index_def new_BPlusTree_def FindRecord_def)
  moreover have "sizes_ok 4 (container ?ix)" using demo_sizes by (simp add: sizes_ok_def)
  ultimately show thesis using that[of "(content b)(?n := d)" "?n + 1" rid ?ix b'] b' b(3) by (simp add: demo_index_def new_BPlusTree_def)
qed

section \<open>Properties\<close>

text \<open>
  C9: Point lookups. \<open>BPlusTreeIndex::ScanKey\<close> on an index over one integer column, whose pages hold
  an ordered B+ tree, ends and appends exactly the record id stored under the key, or nothing when
  the key is not in the tree; the pages and pins of the pool and the latch of the tree are as before.
\<close>
theorem index_lookup:
  assumes "index_at 4 c n T (container ix)" and "bt_ord int_keys int_rank T"
    and "root_page_id_latch (container ix) = Unlocked" and "ix_key_schema ix = int_schema name"
    and "pool_view {} c P n k b" and "free_frames P k 2"
    and "number_of INTEGER i" and "tdata key = Some (put_int 4 i)"
  shows "\<exists>b'. ScanKey 4 F key rids ix b =
      Some (Inr (rids @ (case bt_map int_rank T i of None \<Rightarrow> [] | Some rid \<Rightarrow> [rid]), ix, b')) \<and> pool_view {} c P n k b'"
proof -
  have k: "SetFromKey 4 key = Inr (put_int 4 i)" using assms(8) by (simp add: SetFromKey_def put_at_def)
  have cmp: "key_order (ix_comparator F ix) int_keys int_rank"
    unfolding ix_comparator_def assms(4) by (rule int_key.key_order_axioms)
  from GetValue_ok[OF cmp assms(1-3,5,6) int_key_of(1)[OF assms(7)]] show ?thesis
    using k by (auto simp: ScanKey_def int_key_of(2)[OF assms(7)])
qed

theorem index_lookup_witness:
  "\<exists>ix b b' rid. ScanKey 4 whole_floats (tuple_of new_RID (put_int 4 5)) [] ix b = Some (Inr ([rid], ix, b'))"
proof -
  from demo_tree obtain c n rid and ix :: BPlusTreeIndex and b where d: "index_at 4 c n (BLeaf (n - 1) [(put_int 4 5, rid)]) (container ix)"
    "root_page_id_latch (container ix) = Unlocked" "ix_key_schema ix = int_schema ''n''" "pool_view {} c (\<lambda>_. 0) n 8 b"
    "row_at c n rid" "rid_tuple c rid = tuple_of rid [7, 8]" "sizes_ok 4 (container ix)" "header_ok (container ix) c" "n \<le> 3" .
  have five: "number_of INTEGER 5" by (simp add: number_of_def)
  have o: "bt_ord int_keys int_rank (BLeaf (n - 1) [(put_int 4 5, rid)])" using int_key_of[OF five] by (simp add: sorted_keys_def)
  have f: "free_frames (\<lambda>_. 0) 8 2" using free_frames_less[of "\<lambda>_. 0" 8 8 2] no_pins(1)[of 8] by simp
  have m: "bt_map int_rank (BLeaf (n - 1) [(put_int 4 5, rid)]) 5 = Some rid"
    using int_key_of(2)[OF five] by (simp add: bt_map_def items_map_def)
  from index_lookup[OF d(1) o d(2-4) f five, of "tuple_of new_RID (put_int 4 5)" whole_floats "[]"] m show ?thesis
    by (auto simp: tuple_of_def)
qed





lemma SetFromKey_short: "tdata key = Some bs \<Longrightarrow> length bs \<le> N \<Longrightarrow> \<exists>k. SetFromKey N key = Inr k"
  by (simp add: SetFromKey_def)

lemma latch_taken:
  assumes "root_page_id_latch t = Exclusive"
  shows "BPlusTree_Insert N cmp key w t b = None" and "BPlusTree_Remove N cmp key t b = None" and "GetValue N cmp key t b = None"
  using assms by (simp_all add: BPlusTree_Insert_def BPlusTree_Remove_def GetValue_def with_latch_def)



end
