(* ===== verification/Spec2Isabelle.thy ===== *)
theory Spec2Isabelle
  imports Planner_Theorems Timestamp_Laws Buffer_Pool Index_Theorems
begin

text \<open>
  A verification development for HMSSQL, a relational database in C++ (sources under \<open>src/\<close>,
  headers under \<open>include/\<close>). SQL text is parsed and bound to a catalog, planned, optimized and
  executed; executors read and change heap files through a buffer pool, which keeps pages of a file
  in memory. The development follows this stack from the bottom up.

  \<^bold>\<open>How code is translated.\<close> Member functions are functions on records of the members, returning the
  updated record. A fallible operation returns \<open>'a result = failure + 'a\<close> (theory \<open>Prelude\<close>):
  \<open>Throw\<close> for the exceptions of \<open>common/exception.h\<close>, other constructors for exceptions of the
  standard library and failed assertions, and \<open>Undefined_behaviour\<close> wherever C++ gives no meaning
  (an out-of-range index, a signed overflow in \<open>Strict\<close> mode, a null pointer, \<open>std::sort\<close> with an
  order that is not a strict weak order). Loops over a chain of pages or over a child executor may
  not end; they are \<open>partial_function\<close>s into \<open>'a result option\<close> with \<open>None\<close> for a loop that does not
  return, and the properties state that they return. Pages are lists of bytes, read and written at
  the offsets of the code; integers are words or \<open>int\<close> with the wrap-around written out.
  Latches are not modelled except where a part says so: one thread runs.

  \<^bold>\<open>Parameters.\<close> What is not code of the repository is an argument: \<open>float_ops\<close> gives the
  operations on \<open>double\<close> (\<open>whole_floats\<close> is an instance on whole numbers), a \<open>regex\<close> the matching of
  \<open>std::regex_match\<close>, \<open>ctx_order\<close> the iteration order of an \<open>unordered_map\<close>, \<open>ctx_overflow\<close> whether
  signed overflow wraps or is undefined.

  \<^bold>\<open>Buffer pool.\<close>
  \<^item> \<open>Disk_Manager\<close> (\<open>storage/disk/disk_manager.cpp\<close>): files as bytes; a page read returns the last
    page written, up to the length of the file.
  \<^item> \<open>Extendible_Hash\<close> (\<open>container/hash/extendible_hash_table.cpp\<close>): directory and buckets; the table
    refines a partial map. The loop that splits buckets runs on fuel
    32: each round raises the depth of the key's bucket by one, and past depth 30 the shift
    \<open>1 << depth\<close> of the code is undefined (\<open>split_loop_fuel\<close>), so the fuel is never used up.
  \<^item> \<open>Lru_K\<close> (\<open>buffer/lru_k_replacer.cpp\<close>): which frame is evicted; its contract is the locale
    \<open>replacer\<close>.
  \<^item> \<open>Buffer_Pool\<close> (\<open>buffer/buffer_pool_manager_instance.cpp\<close>): uses the three above (the page table
    through the locale \<open>page_table\<close>). The abstract view is \<open>content\<close>, the bytes of every page wherever
    they are, and \<open>pins\<close>. Pinned pages stay, no update is lost, each call does to \<open>content\<close> and
    \<open>pins\<close> what it promises.

  \<^bold>\<open>Values and rows.\<close>
  \<^item> \<open>Value\<close>, \<open>Sql_Type\<close>, \<open>Varlen_Cast\<close>, \<open>Integer_Parent\<close>, \<open>Tinyint_Type\<close> to \<open>Bigint_Type\<close>, \<open>Decimal_Type\<close>,
    \<open>Timestamp_Type\<close>, \<open>Value_Cast\<close>, \<open>Boolean_Varlen\<close>, \<open>Type_Dispatch\<close>, \<open>Value_Factory\<close> (\<open>type/\<close>): the SQL types,
    one theory per class, and the dispatch on the type id. \<open>Type_Laws\<close>, \<open>Text_Laws\<close> and
    \<open>Timestamp_Laws\<close>: arithmetic, comparison, conversion, serialisation and printing over all types.
  \<^item> \<open>Table_Page\<close> (\<open>storage/page/table_page.cpp\<close>): slotted pages as bytes, with the abstract list of
    \<open>slot\<close>s; \<open>Table_Heap\<close> (\<open>storage/table/table_heap.cpp\<close>, \<open>table_iterator.cpp\<close>): chains of such pages
    over the buffer pool refine a map from record ids to bytes; \<open>Table_Scan\<close>: the sequential scan.
  \<^item> \<open>Row\<close> (\<open>catalog/column.h\<close>, \<open>catalog/schema.h\<close>, \<open>storage/table/tuple.cpp\<close>): values to bytes and
    back; \<open>Hash_Util\<close>; \<open>Catalog\<close> (\<open>catalog/catalog.h\<close>): tables and views, without indexes.

  \<^bold>\<open>Queries.\<close>
  \<^item> \<open>Expressions\<close>, \<open>Expression_Laws\<close> (\<open>execution/expressions/\<close>): evaluation over one tuple and over a
    pair, types, and the rewriting of filters into join predicates.
  \<^item> \<open>Plans\<close>, \<open>Executors\<close> (\<open>execution/\<close>): plan nodes, and each executor's \<open>Init\<close> and \<open>Next\<close> on a tree of
    executor states; \<open>Execute\<close> is the loop of the execution engine.
  \<^item> \<open>Relational\<close>: the meaning \<open>rows\<close> of a plan as lists of rows, the specification. \<open>Sort_Laws\<close>,
    \<open>Group_Laws\<close>, \<open>Blocking\<close>, \<open>Execution\<close> prove one executor after the other against it, each using its
    child only through the locale \<open>row_source\<close>; \<open>Query_Execution\<close>, \<open>Query_Init\<close> put them together by
    induction on the plan; \<open>Query_Laws\<close>, \<open>Delete_Laws\<close> treat INSERT and DELETE; \<open>Query_Theorems\<close> states
    the properties. \<open>std::sort\<close> is a stable insertion sort: the code's order among equal rows is
    one of the results the standard allows.
  \<^item> \<open>Optimizer\<close> (\<open>optimizer/\<close>): the rules, for catalogs without indexes; \<open>Optimizer_Laws\<close>,
    \<open>Optimizer_Rules\<close>, \<open>Optimizer_Theorems\<close>: the starter rules keep the rows of a plan, and so does the
    rewriting of equality joins into hash joins.

  \<^bold>\<open>Planner.\<close>
  \<^item> \<open>Planner\<close> (\<open>planner/\<close>, and the bound statements of \<open>include/binder/\<close>): planning of every statement. Aggregate
    calls are replaced inside the statement, so the functions return the changed statement; the planning of
    FROM is a \<open>partial_function\<close>, since a CTE can refer to itself.
  \<^item> \<open>Planner_Semantics\<close>: the meaning \<open>sem_select\<close> of a SELECT by named columns, clause by clause, the
    specification. \<open>Planner_Laws\<close> proves it of planned expressions, over one row and over the rows of a
    join, in the locale \<open>evaluator\<close>; \<open>Planner_Clauses\<close>, \<open>Planner_Aggregates\<close>, \<open>Planner_Statements\<close>,
    \<open>Planner_Tables\<close> of one clause after the other; \<open>Planner_Plans\<close>: planned queries are plans that the optimizer
    keeps; \<open>Planner_Theorems\<close> puts planner, optimizer and executors together.

  \<^bold>\<open>Indexes.\<close>
  \<^item> \<open>B_Plus_Page\<close> (\<open>storage/page/b_plus_tree_*.cpp\<close>, \<open>header_page.cpp\<close>): leaves and internal pages as records
    with the layout of their bytes. \<open>B_Plus_Page_Laws\<close>: the page operations on sorted arrays, inside the
    locale \<open>key_order\<close>, the contract of a comparator.
  \<^item> \<open>B_Plus_Tree\<close> (\<open>storage/index/b_plus_tree.cpp\<close>, \<open>index_iterator.cpp\<close>): the tree over the buffer pool.
    \<open>B_Plus_Tree_Laws\<close> ties the pages to an abstract tree \<open>bt\<close>; \<open>B_Plus_Search\<close>: lookups and iterators;
    \<open>B_Plus_Write\<close>: what writes do to the pages, the export and the first key; \<open>B_Plus_Grow\<close>: how a split
    grows the abstract tree and keeps its order, the specification of \<open>InsertIntoParent\<close>; \<open>B_Plus_Split\<close>,
    \<open>B_Plus_Parent\<close>, \<open>B_Plus_Insert\<close> prove insertion against it, from the pages up. The latch of the root page id is part of the state, waiting
    for a latch that nobody releases is \<open>None\<close>.
  \<^item> \<open>Index_Scan\<close> (\<open>storage/index/generic_key.h\<close>, \<open>b_plus_tree_index.cpp\<close>, \<open>execution/index_scan_executor.cpp\<close>):
    keys, the index and its executor; \<open>Index_Laws\<close> interprets \<open>key_order\<close> on the comparator of one integer
    column, \<open>Index_Theorems\<close> states what insertions, lookups and scans do.

  \<^bold>\<open>Not modelled.\<close> The disk-based hash tables, the LRU and clock replacers and recovery are
  stubs in the code. The binder walks the parse tree of a vendored parser. The log manager and the
  checkpoint manager are called only by the database instance. The indexes of the catalog, index
  joins, generated test tables, printing of plans, the database instance, the shell and the servers
  are not modelled either; the manifest lists each with the reason.
\<close>

end
